(* ===== verification/Prelude.thy ===== *)
theory Prelude
  imports Main "HOL-Library.Word" "HOL-Library.Monad_Syntax"
begin

unbundle bit_operations_syntax

text \<open>
  Shared vocabulary of the development: the machine integer types of the code, the
  representation of pointers and of failing assertions, the collections that carry the
  component proofs, and the generic facts on lists, options and words the components use.

  A C or C++ pointer is an \<open>addr option\<close>, \<open>None\<close> being the null pointer.  A function that
  dereferences pointers or asserts returns an \<open>option\<close>: \<open>None\<close> stands for a failed
  \<open>assert\<close>, a dereference of a null or dangling pointer, or a loop that never ends; the
  theorems about such a function always state that it returns \<open>Some\<close>.
\<close>

section \<open>Types\<close>

type_synonym addr = nat
type_synonym ptr = "addr option"

type_synonym u8 = "8 word"
type_synonym u16 = "16 word"
type_synonym u32 = "32 word"
type_synonym u64 = "64 word"

type_synonym bytes = "u8 list"

section \<open>Collections\<close>

named_theorems heap_simps \<open>rewriting of the primitive store operations\<close>
named_theorems frame_intros \<open>what an operation leaves untouched\<close>
named_theorems step_simps \<open>one step of an operation, as an equation\<close>

section \<open>Assertions\<close>

definition c_assert :: "bool \<Rightarrow> unit option" where
  "c_assert b = (if b then Some () else None)"

lemma c_assert_simps [simp]:
  "c_assert True = Some ()" "c_assert False = None"
  by (simp_all add: c_assert_def)

lemma c_assert_eq_Some [simp]: "c_assert b = Some u \<longleftrightarrow> b"
  by (simp add: c_assert_def)

section \<open>Ends of a list as pointers\<close>

text \<open>
  \<open>first_or xs q\<close> is the pointer a walk over \<open>xs\<close> starts with when the walk goes on at
  \<open>q\<close>, \<open>last_or p xs\<close> the pointer to the element before the end when the walk came from
  \<open>p\<close>.
\<close>

fun first_or :: "addr list \<Rightarrow> ptr \<Rightarrow> ptr" where
  "first_or [] q = q"
| "first_or (x # xs) q = Some x"

fun last_or :: "ptr \<Rightarrow> addr list \<Rightarrow> ptr" where
  "last_or p [] = p"
| "last_or p (x # xs) = last_or (Some x) xs"

lemma first_or_append [simp]: "first_or (xs @ ys) q = first_or xs (first_or ys q)"
  by (cases xs) auto

lemma last_or_append [simp]: "last_or p (xs @ ys) = last_or (last_or p xs) ys"
  by (induction xs arbitrary: p) auto

lemma first_or_None_iff [simp]: "first_or xs None = None \<longleftrightarrow> xs = []"
  by (cases xs) auto

lemma last_or_None_iff [simp]: "last_or None xs = None \<longleftrightarrow> xs = []"
  by (cases xs rule: rev_cases) auto

lemma last_or_Some_neq_None [simp]: "last_or (Some x) xs \<noteq> None"
  by (cases xs rule: rev_cases) auto

lemma first_or_Some_neq_None [simp]: "first_or xs (Some x) \<noteq> None"
  by (cases xs) auto

lemma first_or_not_None [simp]: "first_or xs None = Some a \<longleftrightarrow> (\<exists>ys. xs = a # ys)"
  by (cases xs) auto

section \<open>Lists\<close>

lemma distinct_split_unique:
  assumes "xs @ a # ys = us @ a # vs" and "distinct (xs @ a # ys)"
  shows "xs = us \<and> ys = vs"
  using assms
proof (induction xs arbitrary: us)
  case Nil
  then show ?case by (cases us) auto
next
  case (Cons x xs)
  then show ?case by (cases us) auto
qed

lemma remove1_split:
  "distinct (xs @ a # ys) \<Longrightarrow> remove1 a (xs @ a # ys) = xs @ ys"
  by (simp add: remove1_append)

lemma map_option_eq_Some_iff: "map_option f x = Some y \<longleftrightarrow> (\<exists>z. x = Some z \<and> f z = y)"
  by auto

section \<open>Words\<close>

lemma unat_of_nat_small:
  "n < 2 ^ LENGTH('a::len) \<Longrightarrow> unat (word_of_nat n :: 'a word) = n"
  by (simp add: unat_of_nat)

lemma unat_bound: "unat (m :: 'a::len word) < 2 ^ LENGTH('a)"
  by (rule unsigned_less)

lemma unat_of_nat_below:
  "n \<le> unat (m :: 'a::len word) \<Longrightarrow> unat (word_of_nat n :: 'a word) = n"
  by (rule unat_of_nat_small, rule le_less_trans [OF _ unat_bound])

section \<open>Words in memory\<close>

fun le_bytes :: "nat \<Rightarrow> 'a::len word \<Rightarrow> bytes" where
  "le_bytes 0 w = []"
| "le_bytes (Suc n) w = ucast w # le_bytes n (drop_bit 8 w)"

fun le_word :: "bytes \<Rightarrow> 'a::len word" where
  "le_word [] = 0"
| "le_word (b # bs) = ucast b OR push_bit 8 (le_word bs)"

lemma length_le_bytes [simp]: "length (le_bytes n w) = n"
  by (induction n arbitrary: w) simp_all

lemma le_word_bytes: "(le_word (le_bytes n w) :: 'a::len word) = take_bit (8 * n) w"
proof (induction n arbitrary: w)
  case (Suc n)
  have "ucast (ucast w :: u8) OR push_bit 8 (take_bit (8 * n) (drop_bit 8 w)) = take_bit (8 + 8 * n) w"
    by (intro bit_word_eqI) (auto simp: bit_simps dest: bit_imp_le_length)
  with Suc show ?case by simp
qed simp

lemma le_word32: "le_word (le_bytes 4 w) = (w :: u32)"
  by (simp only: le_word_bytes) (simp add: take_bit_word_eq_self)

lemma le_word64: "le_word (le_bytes 8 w) = (w :: u64)"
  by (simp only: le_word_bytes) (simp add: take_bit_word_eq_self)

end
