(* ===== verification/Item_Store.thy ===== *)
theory Item_Store
  imports Prelude
begin

text \<open>
  The intrusive linkage of \<^verbatim>\<open>src/src/Cpl/Container/citem.h\<close> and \<^verbatim>\<open>citem.c\<close>: every item that
  can be stored in a container carries a pointer to the container that holds it and one
  or two link pointers.  The store maps addresses of items to their linkage and addresses
  of list headers to their head and tail pointers.

  The singly and the doubly linked linkage share their first two fields, and the code
  casts one to the other, so one record models both.
\<close>

section \<open>State\<close>

record linkage =
  containerPtr :: ptr
  nextPtr :: ptr
  prevPtr :: ptr

record list_hdr =
  headPtr :: ptr
  tailPtr :: ptr

record store =
  items :: "addr \<Rightarrow> linkage option"
  hdrs :: "addr \<Rightarrow> list_hdr option"

section \<open>Dereferencing\<close>

definition item_at :: "store \<Rightarrow> ptr \<Rightarrow> linkage option" where
  "item_at s p = (case p of None \<Rightarrow> None | Some a \<Rightarrow> items s a)"

definition set_item :: "store \<Rightarrow> ptr \<Rightarrow> (linkage \<Rightarrow> linkage) \<Rightarrow> store option" where
  "set_item s p f =
     (case p of None \<Rightarrow> None
      | Some a \<Rightarrow> (case items s a of None \<Rightarrow> None
                   | Some n \<Rightarrow> Some (s\<lparr>items := (items s)(a \<mapsto> f n)\<rparr>)))"

definition list_at :: "store \<Rightarrow> ptr \<Rightarrow> list_hdr option" where
  "list_at s p = (case p of None \<Rightarrow> None | Some a \<Rightarrow> hdrs s a)"

definition set_list :: "store \<Rightarrow> ptr \<Rightarrow> (list_hdr \<Rightarrow> list_hdr) \<Rightarrow> store option" where
  "set_list s p f =
     (case p of None \<Rightarrow> None
      | Some a \<Rightarrow> (case hdrs s a of None \<Rightarrow> None
                   | Some n \<Rightarrow> Some (s\<lparr>hdrs := (hdrs s)(a \<mapsto> f n)\<rparr>)))"

lemma deref_simps [heap_simps]:
  "item_at s None = None"
  "item_at s (Some a) = items s a"
  "list_at s None = None"
  "list_at s (Some a) = hdrs s a"
  "set_item s None f = None"
  "items s a = Some n \<Longrightarrow> set_item s (Some a) f = Some (s\<lparr>items := (items s)(a \<mapsto> f n)\<rparr>)"
  "items s a = None \<Longrightarrow> set_item s (Some a) f = None"
  "set_list s None g = None"
  "hdrs s a = Some h \<Longrightarrow> set_list s (Some a) g = Some (s\<lparr>hdrs := (hdrs s)(a \<mapsto> g h)\<rparr>)"
  "hdrs s a = None \<Longrightarrow> set_list s (Some a) g = None"
  by (simp_all add: item_at_def list_at_def set_item_def set_list_def)

section \<open>Operations of \<^verbatim>\<open>citem.c\<close>\<close>

definition Item_initialize :: "store \<Rightarrow> ptr \<Rightarrow> store option" where
  "Item_initialize s item = do {
     c_assert (item \<noteq> None);
     set_item s item (\<lambda>n. n\<lparr>containerPtr := None\<rparr>)
   }"

definition Item_markAsContained :: "store \<Rightarrow> ptr \<Rightarrow> ptr \<Rightarrow> (bool \<times> store) option" where
  "Item_markAsContained s item newContainerPtr = do {
     c_assert (item \<noteq> None);
     c_assert (newContainerPtr \<noteq> None);
     n \<leftarrow> item_at s item;
     if containerPtr n \<noteq> None then Some (False, s)
     else do {
       s' \<leftarrow> set_item s item (\<lambda>n. n\<lparr>containerPtr := newContainerPtr\<rparr>);
       Some (True, s')
     }
   }"

definition Item_isInContainer :: "store \<Rightarrow> ptr \<Rightarrow> ptr \<Rightarrow> bool option" where
  "Item_isInContainer s item container = do {
     c_assert (item \<noteq> None);
     c_assert (container \<noteq> None);
     n \<leftarrow> item_at s item;
     Some (containerPtr n = container)
   }"

definition Item_markAsFree :: "store \<Rightarrow> ptr \<Rightarrow> store option" where
  "Item_markAsFree s item =
     (if item \<noteq> None then set_item s item (\<lambda>n. n\<lparr>containerPtr := None\<rparr>) else Some s)"

lemmas item_defs =
  Item_initialize_def Item_markAsContained_def Item_isInContainer_def Item_markAsFree_def

lemma Item_markAsContained_step [step_simps]:
  "items s a = Some n \<Longrightarrow>
   Item_markAsContained s (Some a) (Some l) =
     (if containerPtr n \<noteq> None then Some (False, s)
      else Some (True, s\<lparr>items := (items s)(a \<mapsto> n\<lparr>containerPtr := Some l\<rparr>)\<rparr>))"
  by (simp add: Item_markAsContained_def heap_simps)

lemma Item_isInContainer_step [step_simps]:
  "items s a = Some n \<Longrightarrow>
   Item_isInContainer s (Some a) (Some l) = Some (containerPtr n = Some l)"
  by (simp add: Item_isInContainer_def heap_simps)

lemma Item_markAsFree_step [step_simps]:
  "items s a = Some n \<Longrightarrow>
   Item_markAsFree s (Some a) = Some (s\<lparr>items := (items s)(a \<mapsto> n\<lparr>containerPtr := None\<rparr>)\<rparr>)"
  "Item_markAsFree s None = Some s"
  by (simp_all add: Item_markAsFree_def heap_simps)

section \<open>Membership and link chains\<close>

text \<open>
  \<open>members s l xs\<close>: the items of the store whose container is the list \<open>l\<close> are exactly
  those of \<open>xs\<close>.  \<open>links h xs q\<close>: the next pointers run through \<open>xs\<close> in order and the last
  one is \<open>q\<close>.  \<open>blinks h p xs\<close>: the previous pointers run through \<open>xs\<close> backwards and the one
  of the first element is \<open>p\<close>.
\<close>

definition contained :: "(addr \<Rightarrow> linkage option) \<Rightarrow> addr \<Rightarrow> addr set" where
  "contained h l = {a. \<exists>n. h a = Some n \<and> containerPtr n = Some l}"

definition members :: "(addr \<Rightarrow> linkage option) \<Rightarrow> addr \<Rightarrow> addr list \<Rightarrow> bool" where
  "members h l xs \<longleftrightarrow> contained h l = set xs"

lemma contained_upd [simp]:
  "contained (h(a \<mapsto> n)) l =
     (if containerPtr n = Some l then insert a (contained h l) else contained h l - {a})"
  by (auto simp: contained_def)

lemma contained_iff [simp]: "h a = Some n \<Longrightarrow> a \<in> contained h m \<longleftrightarrow> containerPtr n = Some m"
  by (simp add: contained_def)

lemma contained_Diff [simp]:
  "h a = Some n \<Longrightarrow> containerPtr n \<noteq> Some m \<Longrightarrow> contained h m - {a} = contained h m"
  by simp

lemma contained_insert [simp]:
  "h a = Some n \<Longrightarrow> containerPtr n = Some m \<Longrightarrow> insert a (contained h m) = contained h m"
  by (simp add: insert_absorb)

primrec links :: "(addr \<Rightarrow> linkage option) \<Rightarrow> addr list \<Rightarrow> ptr \<Rightarrow> bool" where
  "links h [] q \<longleftrightarrow> True"
| "links h (a # as) q \<longleftrightarrow> (\<exists>n. h a = Some n \<and> nextPtr n = first_or as q) \<and> links h as q"

primrec blinks :: "(addr \<Rightarrow> linkage option) \<Rightarrow> ptr \<Rightarrow> addr list \<Rightarrow> bool" where
  "blinks h p [] \<longleftrightarrow> True"
| "blinks h p (a # as) \<longleftrightarrow> (\<exists>n. h a = Some n \<and> prevPtr n = p) \<and> blinks h (Some a) as"

lemma links_append [simp]:
  "links h (xs @ ys) q \<longleftrightarrow> links h xs (first_or ys q) \<and> links h ys q"
  by (induction xs) auto

lemma blinks_append [simp]:
  "blinks h p (xs @ ys) \<longleftrightarrow> blinks h p xs \<and> blinks h (last_or p xs) ys"
  by (induction xs arbitrary: p) auto

lemma links_cong:
  "(\<And>a. a \<in> set xs \<Longrightarrow> map_option nextPtr (h a) = map_option nextPtr (g a)) \<Longrightarrow>
   links h xs q \<longleftrightarrow> links g xs q"
  by (induction xs) (auto simp: map_option_eq_Some_iff, (metis map_option_eq_Some_iff)+)

lemma blinks_cong:
  "(\<And>a. a \<in> set xs \<Longrightarrow> map_option prevPtr (h a) = map_option prevPtr (g a)) \<Longrightarrow>
   blinks h p xs \<longleftrightarrow> blinks g p xs"
  by (induction xs arbitrary: p) (auto simp: map_option_eq_Some_iff, (metis map_option_eq_Some_iff)+)

lemma links_upd_notin [simp]: "a \<notin> set xs \<Longrightarrow> links (h(a \<mapsto> n)) xs q \<longleftrightarrow> links h xs q"
  by (rule links_cong) auto

lemma blinks_upd_notin [simp]: "a \<notin> set xs \<Longrightarrow> blinks (h(a \<mapsto> n)) p xs \<longleftrightarrow> blinks h p xs"
  by (rule blinks_cong) auto

lemma members_alloc: "members h l xs \<Longrightarrow> a \<in> set xs \<Longrightarrow> \<exists>n. h a = Some n \<and> containerPtr n = Some l"
  by (auto simp: members_def contained_def)

lemma members_iff:
  "members h l xs \<Longrightarrow> h a = Some n \<Longrightarrow> a \<in> set xs \<longleftrightarrow> containerPtr n = Some l"
  unfolding members_def contained_def by force

section \<open>Free items and local steps\<close>

text \<open>
  An item is free when it is in the store and in no container.  A step of an operation on
  the list \<open>l\<close> is local to the items \<open>A\<close> when it leaves every other header and every item
  outside \<open>A\<close> as they were, and neither takes an item from another container nor gives
  it one.
\<close>

definition free_item :: "store \<Rightarrow> addr \<Rightarrow> bool" where
  "free_item s a \<longleftrightarrow> (\<exists>n. items s a = Some n \<and> containerPtr n = None)"

definition local_step :: "store \<Rightarrow> store \<Rightarrow> addr \<Rightarrow> addr set \<Rightarrow> bool" where
  "local_step s s' l A \<longleftrightarrow>
     (\<forall>m. m \<noteq> l \<longrightarrow> hdrs s' m = hdrs s m) \<and>
     (\<forall>a. a \<notin> A \<longrightarrow> items s' a = items s a) \<and>
     (\<forall>m. m \<noteq> l \<longrightarrow> contained (items s') m = contained (items s) m)"

lemma local_step_refl: "local_step s s l {}"
  by (simp add: local_step_def)

lemma local_step_trans:
  "local_step s s1 l A \<Longrightarrow> local_step s1 s2 l B \<Longrightarrow> local_step s s2 l (A \<union> B)"
  by (simp add: local_step_def)

lemma local_step_free:
  "local_step s s' l A \<Longrightarrow> free_item s b \<Longrightarrow> b \<notin> A \<Longrightarrow> free_item s' b"
  by (auto simp: local_step_def free_item_def)

lemma local_step_hdrs: "local_step s s' l A \<Longrightarrow> m \<noteq> l \<Longrightarrow> hdrs s' m = hdrs s m"
  by (simp add: local_step_def)

lemma members_frame:
  "members (items s) m ys \<Longrightarrow> m \<noteq> l \<Longrightarrow> local_step s s' l A \<Longrightarrow> members (items s') m ys"
  by (simp add: members_def local_step_def)

lemma links_frame:
  "links (items s) ys q \<Longrightarrow> local_step s s' l A \<Longrightarrow> A \<inter> set ys = {} \<Longrightarrow> links (items s') ys q"
  by (subst links_cong [of ys "items s'" "items s"]) (auto simp: local_step_def)

lemma blinks_frame:
  "blinks (items s) p ys \<Longrightarrow> local_step s s' l A \<Longrightarrow> A \<inter> set ys = {} \<Longrightarrow> blinks (items s') p ys"
  by (subst blinks_cong [of ys "items s'" "items s"]) (auto simp: local_step_def)

lemma members_disjoint:
  "members h l xs \<Longrightarrow> members h m ys \<Longrightarrow> l \<noteq> m \<Longrightarrow> set xs \<inter> set ys = {}"
  unfolding members_def contained_def by force

lemma free_item_notin: "free_item s a \<Longrightarrow> members (items s) l xs \<Longrightarrow> a \<notin> set xs"
  by (auto simp: free_item_def dest: members_alloc)

end
