(* ===== verification/Intrusive_List.thy ===== *)
theory Intrusive_List
  imports Item_Store
begin

text \<open>
  The contract the singly and the doubly linked list share: what \<open>get\<close>, \<open>put\<close> and
  \<open>remove\<close> do to the sequence of items a header represents and to everything else in the
  store.  The loops of \<open>clear\<close> and \<open>move\<close> are written the same way in both files; their
  total correctness is proved once, from the contract and the unfolding equation of the
  loop.
\<close>

locale intrusive_list =
  fixes rep :: "store \<Rightarrow> addr \<Rightarrow> addr list \<Rightarrow> bool"
    and get :: "store \<Rightarrow> ptr \<Rightarrow> (ptr \<times> store) option"
    and put :: "store \<Rightarrow> ptr \<Rightarrow> ptr \<Rightarrow> (bool \<times> store) option"
    and remove :: "store \<Rightarrow> ptr \<Rightarrow> ptr \<Rightarrow> (bool \<times> store) option"
    and drain :: "store \<Rightarrow> ptr \<Rightarrow> store option"
    and transfer :: "store \<Rightarrow> ptr \<Rightarrow> ptr \<Rightarrow> store option"
  assumes rep_members: "rep s l xs \<Longrightarrow> members (items s) l xs \<and> distinct xs"
    and rep_frame: "rep s m ys \<Longrightarrow> m \<noteq> l \<Longrightarrow> local_step s s' l A \<Longrightarrow> A \<inter> set ys = {} \<Longrightarrow> rep s' m ys"
    and get_empty: "rep s l [] \<Longrightarrow> get s (Some l) = Some (None, s)"
    and get_first: "rep s l (x # xs) \<Longrightarrow>
          \<exists>s'. get s (Some l) = Some (Some x, s') \<and> rep s' l xs \<and> free_item s' x \<and>
               local_step s s' l (insert x (set xs))"
    and put_free: "rep s l xs \<Longrightarrow> free_item s a \<Longrightarrow>
          \<exists>s'. put s (Some l) (Some a) = Some (True, s') \<and> rep s' l (xs @ [a]) \<and>
               local_step s s' l (insert a (set xs))"
    and remove_member: "rep s l xs \<Longrightarrow> a \<in> set xs \<Longrightarrow>
          \<exists>s'. remove s (Some l) (Some a) = Some (True, s') \<and> rep s' l (remove1 a xs) \<and>
               free_item s' a \<and> local_step s s' l (set xs)"
    and drain_unfold: "drain s (Some l) = do {
          (p, s1) \<leftarrow> get s (Some l);
          if p \<noteq> None then drain s1 (Some l) else Some s1 }"
    and transfer_unfold: "transfer s (Some d) (Some l) = do {
          (p, s1) \<leftarrow> get s (Some l);
          if p \<noteq> None then do { (ok, s2) \<leftarrow> put s1 (Some d) p; transfer s2 (Some d) (Some l) }
          else Some s1 }"
begin

lemma rep_disjoint: "rep s l xs \<Longrightarrow> rep s m ys \<Longrightarrow> l \<noteq> m \<Longrightarrow> set xs \<inter> set ys = {}"
  by (meson members_disjoint rep_members)

lemma drain_ok:
  "rep s l xs \<Longrightarrow>
   \<exists>s'. drain s (Some l) = Some s' \<and> rep s' l [] \<and> (\<forall>a\<in>set xs. free_item s' a) \<and>
        local_step s s' l (set xs)"
proof (induction xs arbitrary: s)
  case Nil
  then show ?case
    by (subst drain_unfold) (simp add: get_empty local_step_refl)
next
  case (Cons x xs)
  from get_first [OF Cons.prems] obtain s1 where s1:
    "get s (Some l) = Some (Some x, s1)" "rep s1 l xs" "free_item s1 x"
    "local_step s s1 l (insert x (set xs))" by blast
  from Cons.IH [OF s1(2)] obtain s' where s':
    "drain s1 (Some l) = Some s'" "rep s' l []" "\<forall>a\<in>set xs. free_item s' a"
    "local_step s1 s' l (set xs)" by blast
  from Cons.prems rep_members have "x \<notin> set xs" by fastforce
  with s1 s' have "free_item s' x" by (blast intro: local_step_free)
  moreover from local_step_trans [OF s1(4) s'(4)] have "local_step s s' l (set (x # xs))"
    by (simp add: Un_absorb2 subset_insertI)
  ultimately show ?case
    using s' s1(1) by (subst drain_unfold) simp
qed

text \<open>Moving appends the source to the destination, one item at a time, and empties it.\<close>

lemma transfer_ok:
  "rep s d ys \<Longrightarrow> rep s l xs \<Longrightarrow> d \<noteq> l \<Longrightarrow>
   \<exists>s'. transfer s (Some d) (Some l) = Some s' \<and> rep s' d (ys @ xs) \<and> rep s' l []"
proof (induction xs arbitrary: s ys)
  case Nil
  then show ?case
    by (subst transfer_unfold) (simp add: get_empty)
next
  case (Cons x xs)
  from get_first [OF Cons.prems(2)] obtain s1 where s1:
    "get s (Some l) = Some (Some x, s1)" "rep s1 l xs" "free_item s1 x"
    "local_step s s1 l (insert x (set xs))" by blast
  have disj: "insert x (set xs) \<inter> set ys = {}"
    using rep_disjoint [OF Cons.prems(2,1)] Cons.prems(3) by auto
  have d1: "rep s1 d ys"
    by (rule rep_frame [OF Cons.prems(1) Cons.prems(3) s1(4) disj])
  from put_free [OF d1 s1(3)] obtain s2 where s2:
    "put s1 (Some d) (Some x) = Some (True, s2)" "rep s2 d (ys @ [x])"
    "local_step s1 s2 d (insert x (set ys))" by blast
  have "x \<notin> set xs" using Cons.prems(2) rep_members by fastforce
  with disj have "insert x (set ys) \<inter> set xs = {}" by auto
  with rep_frame [OF s1(2) _ s2(3)] Cons.prems(3) have "rep s2 l xs" by blast
  from Cons.IH [OF s2(2) this Cons.prems(3)] obtain s' where
    "transfer s2 (Some d) (Some l) = Some s'" "rep s' d ((ys @ [x]) @ xs)" "rep s' l []" by blast
  then show ?case
    using s1(1) s2(1) by (subst transfer_unfold) simp
qed

text \<open>A drained destination takes over the source in order.\<close>

lemma move_ok:
  assumes "rep s d ys" and "rep s l xs" and "d \<noteq> l"
  shows "\<exists>s1 s'. drain s (Some d) = Some s1 \<and> transfer s1 (Some d) (Some l) = Some s' \<and>
           rep s' d xs \<and> rep s' l [] "
proof -
  from drain_ok [OF assms(1)] obtain s1 where s1:
    "drain s (Some d) = Some s1" "rep s1 d []" "local_step s s1 d (set ys)" by blast
  have "rep s1 l xs"
    using rep_frame [OF assms(2) _ s1(3)] rep_disjoint [OF assms(1,2)] assms(3) by blast
  from transfer_ok [OF s1(2) this assms(3)] s1(1) show ?thesis by auto
qed

text \<open>Appending to one list leaves every other list as it was.\<close>

lemma put_frame:
  assumes "rep s l xs" and "rep s m ys" and "l \<noteq> m" and "free_item s a"
  shows "\<exists>s'. put s (Some l) (Some a) = Some (True, s') \<and> rep s' l (xs @ [a]) \<and> rep s' m ys"
proof -
  from put_free [OF assms(1,4)] obtain s' where s':
    "put s (Some l) (Some a) = Some (True, s')" "rep s' l (xs @ [a])"
    "local_step s s' l (insert a (set xs))" by blast
  have "a \<notin> set ys" using free_item_notin assms(2,4) rep_members by blast
  with rep_disjoint [OF assms(1-3)] have "insert a (set xs) \<inter> set ys = {}" by auto
  with s' rep_frame [OF assms(2) _ s'(3)] assms(3) show ?thesis by blast
qed

end

section \<open>A sample store\<close>

text \<open>
  Two lists at addresses 10 and 11, holding the items 1 and 2, and the item 3; the item 4 is
  free.  The witnesses below run the operations on it.
\<close>

definition sample_store :: store where
  "sample_store = \<lparr>
     items = [1 \<mapsto> \<lparr>containerPtr = Some 10, nextPtr = Some 2, prevPtr = None\<rparr>,
              2 \<mapsto> \<lparr>containerPtr = Some 10, nextPtr = None, prevPtr = Some 1\<rparr>,
              3 \<mapsto> \<lparr>containerPtr = Some 11, nextPtr = None, prevPtr = None\<rparr>,
              4 \<mapsto> \<lparr>containerPtr = None, nextPtr = None, prevPtr = None\<rparr>],
     hdrs = [10 \<mapsto> \<lparr>headPtr = Some 1, tailPtr = Some 2\<rparr>,
             11 \<mapsto> \<lparr>headPtr = Some 3, tailPtr = Some 3\<rparr>]\<rparr>"

lemma contained_sample:
  "contained (items sample_store) l = (if l = 10 then {1, 2} else if l = 11 then {3} else {})"
  by (auto simp: sample_store_def contained_def split: if_splits)

section \<open>Operation sequences\<close>

text \<open>
  The abstract specification of a list header: a sequence of items.  \<open>elsewhere\<close> are the
  items that sit in other containers; inserting one of those, or one already in the list,
  is refused.
\<close>

datatype list_op = Op_put addr | Op_putFirst addr | Op_get | Op_getLast | Op_remove addr

datatype list_res = Res_bool bool | Res_ptr ptr

fun spec_op :: "addr set \<Rightarrow> addr list \<Rightarrow> list_op \<Rightarrow> list_res \<times> addr list" where
  "spec_op E xs (Op_put a) =
     (if a \<in> set xs \<union> E then (Res_bool False, xs) else (Res_bool True, xs @ [a]))"
| "spec_op E xs (Op_putFirst a) =
     (if a \<in> set xs \<union> E then (Res_bool False, xs) else (Res_bool True, a # xs))"
| "spec_op E xs Op_get = (Res_ptr (first_or xs None), tl xs)"
| "spec_op E xs Op_getLast = (Res_ptr (last_or None xs), butlast xs)"
| "spec_op E xs (Op_remove a) = (Res_bool (a \<in> set xs), remove1 a xs)"

fun spec_ops :: "addr set \<Rightarrow> addr list \<Rightarrow> list_op list \<Rightarrow> list_res list \<times> addr list" where
  "spec_ops E xs [] = ([], xs)"
| "spec_ops E xs (c # cs) =
     (let (r, ys) = spec_op E xs c; (rs, zs) = spec_ops E ys cs in (r # rs, zs))"

record list_api =
  api_put :: "store \<Rightarrow> ptr \<Rightarrow> ptr \<Rightarrow> (bool \<times> store) option"
  api_putFirst :: "store \<Rightarrow> ptr \<Rightarrow> ptr \<Rightarrow> (bool \<times> store) option"
  api_get :: "store \<Rightarrow> ptr \<Rightarrow> (ptr \<times> store) option"
  api_getLast :: "store \<Rightarrow> ptr \<Rightarrow> (ptr \<times> store) option"
  api_remove :: "store \<Rightarrow> ptr \<Rightarrow> ptr \<Rightarrow> (bool \<times> store) option"

fun run_op :: "list_api \<Rightarrow> store \<Rightarrow> addr \<Rightarrow> list_op \<Rightarrow> (list_res \<times> store) option" where
  "run_op A s l (Op_put a) = map_option (apfst Res_bool) (api_put A s (Some l) (Some a))"
| "run_op A s l (Op_putFirst a) = map_option (apfst Res_bool) (api_putFirst A s (Some l) (Some a))"
| "run_op A s l Op_get = map_option (apfst Res_ptr) (api_get A s (Some l))"
| "run_op A s l Op_getLast = map_option (apfst Res_ptr) (api_getLast A s (Some l))"
| "run_op A s l (Op_remove a) = map_option (apfst Res_bool) (api_remove A s (Some l) (Some a))"

fun run_ops :: "list_api \<Rightarrow> store \<Rightarrow> addr \<Rightarrow> list_op list \<Rightarrow> (list_res list \<times> store) option" where
  "run_ops A s l [] = Some ([], s)"
| "run_ops A s l (c # cs) = do {
     (r, s1) \<leftarrow> run_op A s l c;
     (rs, s2) \<leftarrow> run_ops A s1 l cs;
     Some (r # rs, s2)
   }"

fun op_item :: "list_op \<Rightarrow> addr set" where
  "op_item (Op_put a) = {a}"
| "op_item (Op_putFirst a) = {a}"
| "op_item (Op_remove a) = {a}"
| "op_item _ = {}"

definition elsewhere :: "store \<Rightarrow> addr \<Rightarrow> addr set" where
  "elsewhere s l = (\<Union>m \<in> {m. m \<noteq> l}. contained (items s) m)"

lemma elsewhere_sample: "elsewhere sample_store 10 = {3}"
  by (auto simp: elsewhere_def contained_sample split: if_splits)

lemma local_step_elsewhere: "local_step s s' l A \<Longrightarrow> elsewhere s' l = elsewhere s l"
  by (simp add: elsewhere_def local_step_def)

lemma item_status:
  assumes "items s a = Some n" and "members (items s) l xs"
  shows "free_item s a \<longleftrightarrow> a \<notin> set xs \<union> elsewhere s l"
    and "\<not> free_item s a \<Longrightarrow> containerPtr n \<noteq> None"
proof -
  have "a \<in> set xs \<longleftrightarrow> containerPtr n = Some l" using members_iff [OF assms(2,1)] .
  moreover have "a \<in> elsewhere s l \<longleftrightarrow> (\<exists>m. m \<noteq> l \<and> containerPtr n = Some m)"
    using assms(1) by (auto simp: elsewhere_def)
  ultimately show "free_item s a \<longleftrightarrow> a \<notin> set xs \<union> elsewhere s l"
    using assms(1) by (cases "containerPtr n") (auto simp: free_item_def)
qed (use assms in \<open>auto simp: free_item_def\<close>)

lemma local_step_dom:
  assumes "local_step s s' l A" and "\<And>a. a \<in> A \<Longrightarrow> items s' a \<noteq> None"
  shows "dom (items s) \<subseteq> dom (items s')"
  using assms by (auto simp: local_step_def) (metis domIff not_None_eq)

text \<open>
  The full contract: insertion at both ends, removal at both ends and in the middle, and the
  refused cases, which leave the store as it is.
\<close>

locale intrusive_deque = intrusive_list +
  fixes api :: list_api
  assumes api_fields: "api_put api = put" "api_get api = get" "api_remove api = remove"
    and put_contained: "items s a = Some n \<Longrightarrow> containerPtr n \<noteq> None \<Longrightarrow>
          api_put api s (Some l) (Some a) = Some (False, s)"
    and putFirst_free: "rep s l xs \<Longrightarrow> free_item s a \<Longrightarrow>
          \<exists>s'. api_putFirst api s (Some l) (Some a) = Some (True, s') \<and> rep s' l (a # xs) \<and>
               local_step s s' l (insert a (set xs))"
    and putFirst_contained: "items s a = Some n \<Longrightarrow> containerPtr n \<noteq> None \<Longrightarrow>
          api_putFirst api s (Some l) (Some a) = Some (False, s)"
    and getLast_empty: "rep s l [] \<Longrightarrow> api_getLast api s (Some l) = Some (None, s)"
    and getLast_last: "rep s l (xs @ [x]) \<Longrightarrow>
          \<exists>s'. api_getLast api s (Some l) = Some (Some x, s') \<and> rep s' l xs \<and> free_item s' x \<and>
               local_step s s' l (insert x (set xs))"
    and remove_other: "rep s l xs \<Longrightarrow> items s a = Some n \<Longrightarrow> a \<notin> set xs \<Longrightarrow>
          remove s (Some l) (Some a) = Some (False, s)"
begin

lemma rep_alloc: "rep s l xs \<Longrightarrow> a \<in> set xs \<Longrightarrow> items s a \<noteq> None"
  using rep_members members_alloc by fastforce

lemma step_result:
  assumes "run_op api s l c = Some (r, s')" and "spec_op (elsewhere s l) xs c = (r, ys)"
    and "rep s' l ys" and "local_step s s' l (B \<union> set ys)"
    and "\<And>b. b \<in> B \<Longrightarrow> items s' b \<noteq> None"
  shows "\<exists>s'. run_op api s l c = Some (fst (spec_op (elsewhere s l) xs c), s') \<and>
           rep s' l (snd (spec_op (elsewhere s l) xs c)) \<and>
           elsewhere s' l = elsewhere s l \<and> dom (items s) \<subseteq> dom (items s')"
proof -
  have "\<And>a. a \<in> B \<union> set ys \<Longrightarrow> items s' a \<noteq> None"
    using assms(3,5) rep_alloc by blast
  with assms local_step_dom local_step_elsewhere show ?thesis by (metis fst_conv snd_conv)
qed

lemma free_alloc: "free_item s a \<Longrightarrow> items s a \<noteq> None"
  by (auto simp: free_item_def)

lemma run_op_ok:
  assumes rep: "rep s l xs" and item: "op_item c \<subseteq> dom (items s)"
  shows "\<exists>s'. run_op api s l c = Some (fst (spec_op (elsewhere s l) xs c), s') \<and>
           rep s' l (snd (spec_op (elsewhere s l) xs c)) \<and>
           elsewhere s' l = elsewhere s l \<and> dom (items s) \<subseteq> dom (items s')"
proof (cases c)
  case (Op_put a)
  with item obtain n where n: "items s a = Some n" by auto
  note status = item_status [OF n conjunct1 [OF rep_members [OF rep]]]
  show ?thesis
  proof (cases "free_item s a")
    case True
    from put_free [OF rep True] obtain s' where "put s (Some l) (Some a) = Some (True, s')"
      "rep s' l (xs @ [a])" "local_step s s' l (insert a (set xs))" by blast
    with True Op_put status(1) show ?thesis
      by (intro step_result [where s' = s' and B = "{}"]) (auto simp: api_fields)
  next
    case False
    with Op_put status put_contained [OF n] rep show ?thesis by auto
  qed
next
  case (Op_putFirst a)
  with item obtain n where n: "items s a = Some n" by auto
  note status = item_status [OF n conjunct1 [OF rep_members [OF rep]]]
  show ?thesis
  proof (cases "free_item s a")
    case True
    from putFirst_free [OF rep True] obtain s' where
      "api_putFirst api s (Some l) (Some a) = Some (True, s')"
      "rep s' l (a # xs)" "local_step s s' l (insert a (set xs))" by blast
    with True Op_putFirst status(1) show ?thesis
      by (intro step_result [where s' = s' and B = "{}"]) auto
  next
    case False
    with Op_putFirst status putFirst_contained [OF n] rep show ?thesis by auto
  qed
next
  case Op_get
  show ?thesis
  proof (cases xs)
    case Nil
    with Op_get rep get_empty show ?thesis by (auto simp: api_fields)
  next
    case (Cons y ys)
    with rep get_first [of s l y ys] obtain s' where "get s (Some l) = Some (Some y, s')"
      "rep s' l ys" "free_item s' y" "local_step s s' l (insert y (set ys))" by blast
    with Op_get Cons show ?thesis
      by (intro step_result [where s' = s' and B = "{y}"]) (auto simp: api_fields dest: free_alloc)
  qed
next
  case Op_getLast
  show ?thesis
  proof (cases xs rule: rev_cases)
    case Nil
    with Op_getLast rep getLast_empty show ?thesis by auto
  next
    case (snoc ys y)
    with rep getLast_last [of s l ys y] obtain s' where
      "api_getLast api s (Some l) = Some (Some y, s')"
      "rep s' l ys" "free_item s' y" "local_step s s' l (insert y (set ys))" by blast
    with Op_getLast snoc show ?thesis
      by (intro step_result [where s' = s' and B = "{y}"]) (auto dest: free_alloc)
  qed
next
  case (Op_remove a)
  with item obtain n where n: "items s a = Some n" by auto
  show ?thesis
  proof (cases "a \<in> set xs")
    case True
    with rep_members [OF rep] have "insert a (set (remove1 a xs)) = set xs" by auto
    moreover from remove_member [OF rep True] obtain s' where
      "remove s (Some l) (Some a) = Some (True, s')" "rep s' l (remove1 a xs)"
      "free_item s' a" "local_step s s' l (set xs)" by blast
    ultimately show ?thesis using Op_remove True
      by (intro step_result [where s' = s' and B = "{a}"]) (auto simp: api_fields dest: free_alloc)
  next
    case False
    with Op_remove remove_other [OF rep n] rep show ?thesis
      by (auto simp: api_fields remove1_idem)
  qed
qed

lemma run_ops_ok:
  "rep s l xs \<Longrightarrow> \<Union> (op_item ` set cs) \<subseteq> dom (items s) \<Longrightarrow>
   \<exists>s'. run_ops api s l cs = Some (fst (spec_ops (elsewhere s l) xs cs), s') \<and>
        rep s' l (snd (spec_ops (elsewhere s l) xs cs)) \<and> elsewhere s' l = elsewhere s l"
proof (induction cs arbitrary: s xs)
  case Nil
  then show ?case by simp
next
  case (Cons c cs)
  obtain s1 where s1:
    "run_op api s l c = Some (fst (spec_op (elsewhere s l) xs c), s1)"
    "rep s1 l (snd (spec_op (elsewhere s l) xs c))"
    "elsewhere s1 l = elsewhere s l" "dom (items s) \<subseteq> dom (items s1)"
    using run_op_ok [OF Cons.prems(1), of c] Cons.prems(2) by auto
  have "\<Union> (op_item ` set cs) \<subseteq> dom (items s1)"
    using Cons.prems(2) s1(4) by (simp, blast)
  from Cons.IH [OF s1(2) this] s1 show ?case
    by (auto simp: split_def Let_def)
qed

end

end
