(* ===== verification/Slist.thy ===== *)
theory Slist
  imports Intrusive_List
begin

text \<open>
  The singly linked list of \<^verbatim>\<open>src/src/Cpl/Container/cslist.c\<close>, one definition per function,
  over the store of \<^verbatim>\<open>Item_Store\<close>.  \<open>slist_rep s l xs\<close> is the abstraction relation: the
  header at \<open>l\<close> represents the sequence \<open>xs\<close> of item addresses.
\<close>

section \<open>Operations\<close>

definition SList_initialize :: "store \<Rightarrow> ptr \<Rightarrow> store option" where
  "SList_initialize s list = do {
     c_assert (list \<noteq> None);
     set_list s list (\<lambda>_. \<lparr>headPtr = None, tailPtr = None\<rparr>)
   }"

definition SList_get :: "store \<Rightarrow> ptr \<Rightarrow> (ptr \<times> store) option" where
  "SList_get s list = do {
     c_assert (list \<noteq> None);
     h \<leftarrow> list_at s list;
     let p = headPtr h;
     s1 \<leftarrow> (if p \<noteq> None then do {
               n \<leftarrow> item_at s p;
               s' \<leftarrow> set_list s list (\<lambda>h. h\<lparr>headPtr := nextPtr n\<rparr>);
               if nextPtr n = None then set_list s' list (\<lambda>h. h\<lparr>tailPtr := None\<rparr>) else Some s'
             } else Some s);
     s2 \<leftarrow> Item_markAsFree s1 p;
     Some (p, s2)
   }"

definition SList_put :: "store \<Rightarrow> ptr \<Rightarrow> ptr \<Rightarrow> (bool \<times> store) option" where
  "SList_put s list item = do {
     c_assert (list \<noteq> None);
     c_assert (item \<noteq> None);
     (ok, s1) \<leftarrow> Item_markAsContained s item list;
     if ok then do {
       h \<leftarrow> list_at s1 list;
       s2 \<leftarrow> (if headPtr h \<noteq> None then set_item s1 (tailPtr h) (\<lambda>n. n\<lparr>nextPtr := item\<rparr>)
              else set_list s1 list (\<lambda>h. h\<lparr>headPtr := item\<rparr>));
       s3 \<leftarrow> set_item s2 item (\<lambda>n. n\<lparr>nextPtr := None\<rparr>);
       s4 \<leftarrow> set_list s3 list (\<lambda>h. h\<lparr>tailPtr := item\<rparr>);
       Some (True, s4)
     } else Some (False, s1)
   }"

definition SList_putFirst :: "store \<Rightarrow> ptr \<Rightarrow> ptr \<Rightarrow> (bool \<times> store) option" where
  "SList_putFirst s list item = do {
     c_assert (list \<noteq> None);
     c_assert (item \<noteq> None);
     (ok, s1) \<leftarrow> Item_markAsContained s item list;
     if ok then do {
       h \<leftarrow> list_at s1 list;
       s3 \<leftarrow> (if headPtr h \<noteq> None then do {
                 s2 \<leftarrow> set_item s1 item (\<lambda>n. n\<lparr>nextPtr := headPtr h\<rparr>);
                 set_list s2 list (\<lambda>h. h\<lparr>headPtr := item\<rparr>)
               } else do {
                 s2 \<leftarrow> set_list s1 list (\<lambda>_. \<lparr>headPtr = item, tailPtr = item\<rparr>);
                 set_item s2 item (\<lambda>n. n\<lparr>nextPtr := None\<rparr>)
               });
       Some (True, s3)
     } else Some (False, s1)
   }"

definition SList_peekHead :: "store \<Rightarrow> ptr \<Rightarrow> ptr option" where
  "SList_peekHead s list = do {
     c_assert (list \<noteq> None);
     h \<leftarrow> list_at s list;
     Some (headPtr h)
   }"

definition SList_peekTail :: "store \<Rightarrow> ptr \<Rightarrow> ptr option" where
  "SList_peekTail s list = do {
     c_assert (list \<noteq> None);
     h \<leftarrow> list_at s list;
     Some (tailPtr h)
   }"

text \<open>The \<open>for\<close> loop of \<open>remove\<close>: it walks with a trailing pointer until it meets the item.\<close>

partial_function (option) SList_remove_loop ::
    "store \<Rightarrow> ptr \<Rightarrow> ptr \<Rightarrow> ptr \<Rightarrow> ptr \<Rightarrow> (bool \<times> store) option" where
  "SList_remove_loop s list item nxtPtr prvPtr =
     (if nxtPtr = None then Some (False, s)
      else if nxtPtr = item then do {
        n \<leftarrow> item_at s nxtPtr;
        s2 \<leftarrow> (if prvPtr \<noteq> None then do {
                  s1 \<leftarrow> set_item s prvPtr (\<lambda>m. m\<lparr>nextPtr := nextPtr n\<rparr>);
                  if nextPtr n = None then set_list s1 list (\<lambda>h. h\<lparr>tailPtr := prvPtr\<rparr>) else Some s1
                } else do {
                  s1 \<leftarrow> set_list s list (\<lambda>h. h\<lparr>headPtr := nextPtr n\<rparr>);
                  if nextPtr n = None then set_list s1 list (\<lambda>h. h\<lparr>tailPtr := None\<rparr>) else Some s1
                });
        s3 \<leftarrow> Item_markAsFree s2 item;
        Some (True, s3)
      }
      else do {
        n \<leftarrow> item_at s nxtPtr;
        SList_remove_loop s list item (nextPtr n) nxtPtr
      })"

definition SList_remove :: "store \<Rightarrow> ptr \<Rightarrow> ptr \<Rightarrow> (bool \<times> store) option" where
  "SList_remove s list item = do {
     c_assert (list \<noteq> None);
     c_assert (item \<noteq> None);
     inside \<leftarrow> Item_isInContainer s item list;
     if inside then do {
       h \<leftarrow> list_at s list;
       SList_remove_loop s list item (headPtr h) None
     } else Some (False, s)
   }"

definition SList_getLast :: "store \<Rightarrow> ptr \<Rightarrow> (ptr \<times> store) option" where
  "SList_getLast s list = do {
     c_assert (list \<noteq> None);
     h \<leftarrow> list_at s list;
     let lastPtr = tailPtr h;
     if lastPtr \<noteq> None then do {
       (ok, s1) \<leftarrow> SList_remove s list (tailPtr h);
       Some (lastPtr, s1)
     } else Some (lastPtr, s)
   }"

definition SList_next :: "store \<Rightarrow> ptr \<Rightarrow> ptr option" where
  "SList_next s item = do {
     c_assert (item \<noteq> None);
     n \<leftarrow> item_at s item;
     Some (nextPtr n)
   }"

definition SList_isInList :: "store \<Rightarrow> ptr \<Rightarrow> ptr \<Rightarrow> bool option" where
  "SList_isInList s list item = Item_isInContainer s item list"

text \<open>The draining loop of \<open>clear\<close> and the transfer loop of \<open>move\<close>.\<close>

partial_function (option) SList_drain :: "store \<Rightarrow> ptr \<Rightarrow> store option" where
  "SList_drain s list = do {
     (p, s1) \<leftarrow> SList_get s list;
     if p \<noteq> None then SList_drain s1 list else Some s1
   }"

definition SList_clear :: "store \<Rightarrow> ptr \<Rightarrow> store option" where
  "SList_clear s list = do {
     c_assert (list \<noteq> None);
     SList_drain s list
   }"

partial_function (option) SList_transfer :: "store \<Rightarrow> ptr \<Rightarrow> ptr \<Rightarrow> store option" where
  "SList_transfer s dst src = do {
     (p, s1) \<leftarrow> SList_get s src;
     if p \<noteq> None then do {
       (ok, s2) \<leftarrow> SList_put s1 dst p;
       SList_transfer s2 dst src
     } else Some s1
   }"

definition SList_move :: "store \<Rightarrow> ptr \<Rightarrow> ptr \<Rightarrow> store option" where
  "SList_move s dst src = do {
     c_assert (dst \<noteq> None);
     c_assert (src \<noteq> None);
     s1 \<leftarrow> SList_clear s dst;
     SList_transfer s1 dst src
   }"

section \<open>Abstraction\<close>

definition slist_rep :: "store \<Rightarrow> addr \<Rightarrow> addr list \<Rightarrow> bool" where
  "slist_rep s l xs \<longleftrightarrow>
     hdrs s l = Some \<lparr>headPtr = first_or xs None, tailPtr = last_or None xs\<rparr> \<and>
     links (items s) xs None \<and> distinct xs \<and> members (items s) l xs"

lemma slist_rep_members: "slist_rep s l xs \<Longrightarrow> members (items s) l xs"
  by (simp add: slist_rep_def)

lemmas slist_alloc = members_alloc [OF slist_rep_members]

lemma slist_rep_frame:
  "slist_rep s m ys \<Longrightarrow> m \<noteq> l \<Longrightarrow> local_step s s' l A \<Longrightarrow> A \<inter> set ys = {} \<Longrightarrow> slist_rep s' m ys"
  unfolding slist_rep_def using local_step_hdrs links_frame members_frame by metis

lemmas slist_unfold = slist_rep_def members_def local_step_def free_item_def insert_commute
  insert_Diff_if

section \<open>Functional behaviour\<close>

lemma SList_initialize_ok:
  assumes "hdrs s l = Some h" and "\<And>a n. items s a = Some n \<Longrightarrow> containerPtr n \<noteq> Some l"
  shows "\<exists>s'. SList_initialize s (Some l) = Some s' \<and> slist_rep s' l []"
  using assms by (auto simp: SList_initialize_def heap_simps slist_rep_def members_def contained_def)

lemma SList_put_free:
  assumes rep: "slist_rep s l xs" and fr: "free_item s a"
  shows "\<exists>s'. SList_put s (Some l) (Some a) = Some (True, s') \<and> slist_rep s' l (xs @ [a]) \<and>
              local_step s s' l (insert a (set xs))"
proof -
  from fr obtain n where n: "items s a = Some n" "containerPtr n = None"
    by (auto simp: free_item_def)
  have notin: "a \<notin> set xs" using free_item_notin [OF fr slist_rep_members [OF rep]] .
  show ?thesis
  proof (cases xs rule: rev_cases)
    case Nil
    with rep n show ?thesis
      by (simp add: SList_put_def step_simps heap_simps slist_unfold)
  next
    case (snoc ys z)
    with rep obtain nz where nz: "items s z = Some nz" "containerPtr nz = Some l"
      using slist_alloc [of s l xs z] by auto
    with snoc notin rep n show ?thesis
      by (simp add: SList_put_def step_simps heap_simps slist_unfold)
  qed
qed

lemma SList_put_contained:
  "items s a = Some n \<Longrightarrow> containerPtr n \<noteq> None \<Longrightarrow> SList_put s (Some l) (Some a) = Some (False, s)"
  by (simp add: SList_put_def step_simps)

lemma SList_putFirst_contained:
  "items s a = Some n \<Longrightarrow> containerPtr n \<noteq> None \<Longrightarrow>
   SList_putFirst s (Some l) (Some a) = Some (False, s)"
  by (simp add: SList_putFirst_def step_simps)

lemma SList_putFirst_free:
  assumes rep: "slist_rep s l xs" and fr: "free_item s a"
  shows "\<exists>s'. SList_putFirst s (Some l) (Some a) = Some (True, s') \<and> slist_rep s' l (a # xs) \<and>
              local_step s s' l (insert a (set xs))"
proof -
  from fr obtain n where n: "items s a = Some n" "containerPtr n = None"
    by (auto simp: free_item_def)
  have notin: "a \<notin> set xs" using free_item_notin [OF fr slist_rep_members [OF rep]] .
  with rep n show ?thesis
    by (cases xs)
      (simp add: SList_putFirst_def step_simps heap_simps slist_unfold)+
qed

lemma SList_get_empty: "slist_rep s l [] \<Longrightarrow> SList_get s (Some l) = Some (None, s)"
  by (simp add: SList_get_def heap_simps step_simps slist_rep_def)

lemma SList_get_first:
  assumes rep: "slist_rep s l (x # xs)"
  shows "\<exists>s'. SList_get s (Some l) = Some (Some x, s') \<and> slist_rep s' l xs \<and> free_item s' x \<and>
              local_step s s' l (insert x (set xs))"
proof -
  from rep obtain n where n: "items s x = Some n" "containerPtr n = Some l" "nextPtr n = first_or xs None"
    using slist_alloc [OF rep, of x] by (auto simp: slist_rep_def)
  show ?thesis
  proof (cases xs)
    case Nil
    with rep n show ?thesis
      by (simp add: SList_get_def step_simps heap_simps slist_unfold)
  next
    case (Cons y ys)
    with rep n show ?thesis
      by (simp add: SList_get_def step_simps heap_simps slist_unfold)
  qed
qed

lemma SList_peek_ok:
  assumes "slist_rep s l xs"
  shows "SList_peekHead s (Some l) = Some (first_or xs None)"
    and "SList_peekTail s (Some l) = Some (last_or None xs)"
  using assms by (simp_all add: SList_peekHead_def SList_peekTail_def heap_simps slist_rep_def)

text \<open>The search of \<open>remove\<close> stops at the item, with the trailing pointer at its predecessor.\<close>

lemma SList_remove_loop_walk:
  assumes "links (items s) (xs @ a # ys) None" and "a \<notin> set xs"
  shows "SList_remove_loop s l (Some a) (first_or (xs @ [a]) None) p =
         SList_remove_loop s l (Some a) (Some a) (last_or p xs)"
  using assms
proof (induction xs arbitrary: p)
  case Nil
  then show ?case by simp
next
  case (Cons x xs)
  then obtain n where n: "items s x = Some n" "nextPtr n = first_or (xs @ [a]) None" by auto
  from Cons have "SList_remove_loop s l (Some a) (first_or (xs @ [a]) None) (Some x) =
         SList_remove_loop s l (Some a) (Some a) (last_or (Some x) xs)" by simp
  with n Cons.prems show ?case
    by (subst SList_remove_loop.simps) (simp add: heap_simps)
qed

lemma SList_remove_member:
  assumes rep: "slist_rep s l xs" and a: "a \<in> set xs"
  shows "\<exists>s'. SList_remove s (Some l) (Some a) = Some (True, s') \<and> slist_rep s' l (remove1 a xs) \<and>
              free_item s' a \<and> local_step s s' l (set xs)"
proof -
  from a obtain us vs where xs: "xs = us @ a # vs" by (meson split_list)
  from rep have dist: "distinct (us @ a # vs)" by (simp add: slist_rep_def xs)
  from rep a obtain n where n: "items s a = Some n" "containerPtr n = Some l" "nextPtr n = first_or vs None"
    using slist_alloc [OF rep a] by (auto simp: slist_rep_def xs)
  have walk: "SList_remove s (Some l) (Some a) =
      SList_remove_loop s (Some l) (Some a) (Some a) (last_or None us)"
    using rep n dist SList_remove_loop_walk [of s us a vs "Some l" None]
    by (simp add: SList_remove_def step_simps heap_simps slist_rep_def xs)
  show ?thesis
  proof (cases us rule: rev_cases)
    case Nil
    with rep n dist show ?thesis
      by (cases vs)
        (simp add: walk xs SList_remove_loop.simps step_simps heap_simps slist_unfold)+
  next
    case (snoc ws z)
    with rep obtain nz where nz: "items s z = Some nz" "containerPtr nz = Some l"
      using slist_alloc [of s l xs z] by (auto simp: xs)
    with snoc rep n dist show ?thesis
      by (cases vs)
        (simp add: walk xs remove1_append SList_remove_loop.simps step_simps heap_simps slist_unfold)+
  qed
qed

lemma SList_remove_other:
  "slist_rep s l xs \<Longrightarrow> items s a = Some n \<Longrightarrow> a \<notin> set xs \<Longrightarrow>
   SList_remove s (Some l) (Some a) = Some (False, s)"
  by (auto simp: SList_remove_def step_simps members_iff [OF slist_rep_members])

lemma SList_getLast_empty: "slist_rep s l [] \<Longrightarrow> SList_getLast s (Some l) = Some (None, s)"
  by (simp add: SList_getLast_def heap_simps slist_rep_def)

lemma SList_getLast_last:
  assumes "slist_rep s l (xs @ [x])"
  shows "\<exists>s'. SList_getLast s (Some l) = Some (Some x, s') \<and> slist_rep s' l xs \<and> free_item s' x \<and>
              local_step s s' l (insert x (set xs))"
proof -
  from assms have "x \<notin> set xs" by (simp add: slist_rep_def)
  with SList_remove_member [OF assms, of x] assms show ?thesis
    by (auto simp: SList_getLast_def heap_simps slist_rep_def remove1_append)
qed

lemma SList_next_ok:
  assumes "slist_rep s l (us @ a # vs)"
  shows "SList_next s (Some a) = Some (first_or vs None)"
  using assms by (auto simp: SList_next_def heap_simps slist_rep_def)

lemma SList_isInList_ok:
  assumes "slist_rep s l xs" and "items s a = Some n"
  shows "SList_isInList s (Some l) (Some a) = Some (a \<in> set xs)"
  using assms by (simp add: SList_isInList_def step_simps members_iff [OF slist_rep_members])

interpretation sl: intrusive_list slist_rep SList_get SList_put SList_remove SList_drain SList_transfer
proof (unfold_locales, goal_cases)
  case (1 s l xs)
  then show ?case by (simp add: slist_rep_def)
next
  case (2 s m ys l s' A)
  then show ?case by (rule slist_rep_frame)
next
  case (3 s l)
  then show ?case by (rule SList_get_empty)
next
  case (4 s l x xs)
  then show ?case by (rule SList_get_first)
next
  case (5 s l xs a)
  then show ?case by (rule SList_put_free)
next
  case (6 s l xs a)
  then show ?case by (rule SList_remove_member)
next
  case (7 s l)
  show ?case by (rule SList_drain.simps)
next
  case (8 s d l)
  show ?case by (rule SList_transfer.simps)
qed

definition slist_api :: list_api where
  "slist_api = \<lparr>api_put = SList_put, api_putFirst = SList_putFirst, api_get = SList_get,
     api_getLast = SList_getLast, api_remove = SList_remove\<rparr>"

interpretation sq: intrusive_deque slist_rep SList_get SList_put SList_remove SList_drain
  SList_transfer slist_api
proof (unfold_locales, goal_cases)
qed (simp_all add: slist_api_def SList_put_contained SList_putFirst_free SList_putFirst_contained
    SList_getLast_empty SList_getLast_last SList_remove_other)

section \<open>Properties\<close>

lemma sample_slist: "slist_rep sample_store 10 [1, 2]" "slist_rep sample_store 11 [3]"
  by (auto simp: slist_rep_def members_def contained_sample) (auto simp: sample_store_def)

text \<open>
  C15.  A list header implements a sequence.  Run any sequence of \<open>put\<close>, \<open>putFirst\<close>,
  \<open>get\<close>, \<open>getLast\<close> and \<open>remove\<close> calls on a well-formed singly linked list, with items that
  exist: no assertion fails, no null or dangling pointer is followed, every search loop ends,
  every call returns what the same call on the abstract sequence returns (in particular an
  insertion of an item that already sits in some container is refused), the header represents
  the abstract result, and no item of another container is taken or released.
\<close>

theorem slist_refines_sequence:
  assumes "slist_rep s l xs" and "\<Union> (op_item ` set cs) \<subseteq> dom (items s)"
  shows "\<exists>s'. run_ops slist_api s l cs = Some (fst (spec_ops (elsewhere s l) xs cs), s') \<and>
              slist_rep s' l (snd (spec_ops (elsewhere s l) xs cs)) \<and>
              elsewhere s' l = elsewhere s l"
  using assms by (rule sq.run_ops_ok)

theorem slist_refines_sequence_witness:
  "\<exists>s'. run_ops slist_api sample_store 10 [Op_put 3, Op_putFirst 4, Op_remove 1, Op_put 1, Op_get] =
          Some ([Res_bool False, Res_bool True, Res_bool True, Res_bool True, Res_ptr (Some 4)], s') \<and>
        slist_rep s' 10 [2, 1] \<and> elsewhere s' 10 = {3}"
  using slist_refines_sequence [OF sample_slist(1),
      of "[Op_put 3, Op_putFirst 4, Op_remove 1, Op_put 1, Op_get]"]
  by (simp add: elsewhere_sample) (simp add: sample_store_def)

text \<open>
  \<open>move\<close> terminates, empties the source, and leaves in the destination exactly the
  items of the source in their order, whatever the destination held before; \<open>clear\<close>
  terminates with an empty list and every former item free to be put elsewhere.
\<close>

theorem slist_move_clear:
  assumes "slist_rep s d ys" and "slist_rep s l xs" and "d \<noteq> l"
  shows "(\<exists>s'. SList_move s (Some d) (Some l) = Some s' \<and> slist_rep s' d xs \<and> slist_rep s' l []) \<and>
         (\<exists>s'. SList_clear s (Some l) = Some s' \<and> slist_rep s' l [] \<and>
               (\<forall>a\<in>set xs. free_item s' a) \<and> slist_rep s' d ys)"
proof -
  obtain s1 s' where "SList_drain s (Some d) = Some s1" "SList_transfer s1 (Some d) (Some l) = Some s'"
    "slist_rep s' d xs" "slist_rep s' l []" using sl.move_ok [OF assms] by blast
  moreover obtain s2 where s2: "SList_drain s (Some l) = Some s2" "slist_rep s2 l []"
    "\<forall>a\<in>set xs. free_item s2 a" "local_step s s2 l (set xs)" using sl.drain_ok [OF assms(2)] by blast
  moreover from sl.rep_disjoint [OF assms(2,1)] assms(3) have "slist_rep s2 d ys"
    by (intro slist_rep_frame [OF assms(1) _ s2(4)]) auto
  ultimately show ?thesis by (simp add: SList_move_def SList_clear_def)
qed

theorem slist_move_clear_witness:
  "(\<exists>s'. SList_move sample_store (Some 11) (Some 10) = Some s' \<and>
         slist_rep s' 11 [1, 2] \<and> slist_rep s' 10 []) \<and>
   (\<exists>s'. SList_clear sample_store (Some 10) = Some s' \<and> slist_rep s' 10 [] \<and>
         (\<forall>a\<in>set [1, 2]. free_item s' a) \<and> slist_rep s' 11 [3])"
  by (rule slist_move_clear [OF sample_slist(2) sample_slist(1)]) simp

end
