(* ===== verification/Dlist.thy ===== *)
theory Dlist
  imports Intrusive_List
begin

text \<open>
  The doubly linked list of \<^verbatim>\<open>src/src/Cpl/Container/cdlist.c\<close>, one definition per function.
  \<open>dlist_rep s l xs\<close> says that the header at \<open>l\<close> represents the sequence \<open>xs\<close>, read
  forwards along the next pointers and backwards along the previous pointers.
\<close>

section \<open>Operations\<close>

definition DList_initialize :: "store \<Rightarrow> ptr \<Rightarrow> store option" where
  "DList_initialize s list = do {
     c_assert (list \<noteq> None);
     set_list s list (\<lambda>_. \<lparr>headPtr = None, tailPtr = None\<rparr>)
   }"

definition DList_put :: "store \<Rightarrow> ptr \<Rightarrow> ptr \<Rightarrow> (bool \<times> store) option" where
  "DList_put s list item = do {
     c_assert (list \<noteq> None);
     c_assert (item \<noteq> None);
     (ok, s1) \<leftarrow> Item_markAsContained s item list;
     if ok then do {
       h \<leftarrow> list_at s1 list;
       s3 \<leftarrow> (if headPtr h \<noteq> None then do {
                 s2 \<leftarrow> set_item s1 (tailPtr h) (\<lambda>n. n\<lparr>nextPtr := item\<rparr>);
                 set_item s2 item (\<lambda>n. n\<lparr>prevPtr := tailPtr h\<rparr>)
               } else do {
                 s2 \<leftarrow> set_list s1 list (\<lambda>h. h\<lparr>headPtr := item\<rparr>);
                 set_item s2 item (\<lambda>n. n\<lparr>prevPtr := None\<rparr>)
               });
       s4 \<leftarrow> set_item s3 item (\<lambda>n. n\<lparr>nextPtr := None\<rparr>);
       s5 \<leftarrow> set_list s4 list (\<lambda>h. h\<lparr>tailPtr := item\<rparr>);
       Some (True, s5)
     } else Some (False, s1)
   }"

definition DList_putFirst :: "store \<Rightarrow> ptr \<Rightarrow> ptr \<Rightarrow> (bool \<times> store) option" where
  "DList_putFirst s list item = do {
     c_assert (list \<noteq> None);
     c_assert (item \<noteq> None);
     (ok, s1) \<leftarrow> Item_markAsContained s item list;
     if ok then do {
       h \<leftarrow> list_at s1 list;
       s4 \<leftarrow> (if headPtr h \<noteq> None then do {
                 s2 \<leftarrow> set_item s1 item (\<lambda>n. n\<lparr>nextPtr := headPtr h\<rparr>);
                 s3 \<leftarrow> set_item s2 (headPtr h) (\<lambda>n. n\<lparr>prevPtr := item\<rparr>);
                 set_list s3 list (\<lambda>h. h\<lparr>headPtr := item\<rparr>)
               } else do {
                 s2 \<leftarrow> set_list s1 list (\<lambda>_. \<lparr>headPtr = item, tailPtr = item\<rparr>);
                 set_item s2 item (\<lambda>n. n\<lparr>nextPtr := None\<rparr>)
               });
       s5 \<leftarrow> set_item s4 item (\<lambda>n. n\<lparr>prevPtr := None\<rparr>);
       Some (True, s5)
     } else Some (False, s1)
   }"

definition DList_insertBefore :: "store \<Rightarrow> ptr \<Rightarrow> ptr \<Rightarrow> ptr \<Rightarrow> (bool \<times> store) option" where
  "DList_insertBefore s list beforePtr item = do {
     c_assert (list \<noteq> None);
     c_assert (item \<noteq> None);
     c_assert (beforePtr \<noteq> None);
     (ok, s1) \<leftarrow> Item_markAsContained s item list;
     if ok then do {
       b \<leftarrow> item_at s1 beforePtr;
       s2 \<leftarrow> set_item s1 item (\<lambda>n. n\<lparr>prevPtr := prevPtr b\<rparr>);
       i \<leftarrow> item_at s2 item;
       let prvPtr = prevPtr i;
       s3 \<leftarrow> set_item s2 item (\<lambda>n. n\<lparr>nextPtr := beforePtr\<rparr>);
       s4 \<leftarrow> set_item s3 beforePtr (\<lambda>n. n\<lparr>prevPtr := item\<rparr>);
       s5 \<leftarrow> (if prvPtr = None then set_list s4 list (\<lambda>h. h\<lparr>headPtr := item\<rparr>)
              else set_item s4 prvPtr (\<lambda>n. n\<lparr>nextPtr := item\<rparr>));
       Some (True, s5)
     } else Some (False, s1)
   }"

definition DList_insertAfter :: "store \<Rightarrow> ptr \<Rightarrow> ptr \<Rightarrow> ptr \<Rightarrow> (bool \<times> store) option" where
  "DList_insertAfter s list afterPtr item = do {
     c_assert (list \<noteq> None);
     c_assert (item \<noteq> None);
     c_assert (afterPtr \<noteq> None);
     (ok, s1) \<leftarrow> Item_markAsContained s item list;
     if ok then do {
       a \<leftarrow> item_at s1 afterPtr;
       s2 \<leftarrow> set_item s1 item (\<lambda>n. n\<lparr>nextPtr := nextPtr a\<rparr>);
       a2 \<leftarrow> item_at s2 afterPtr;
       let nxtPtr = nextPtr a2;
       s3 \<leftarrow> set_item s2 item (\<lambda>n. n\<lparr>prevPtr := afterPtr\<rparr>);
       s4 \<leftarrow> set_item s3 afterPtr (\<lambda>n. n\<lparr>nextPtr := item\<rparr>);
       s5 \<leftarrow> (if nxtPtr = None then set_list s4 list (\<lambda>h. h\<lparr>tailPtr := item\<rparr>)
              else set_item s4 nxtPtr (\<lambda>n. n\<lparr>prevPtr := item\<rparr>));
       Some (True, s5)
     } else Some (False, s1)
   }"

definition DList_remove :: "store \<Rightarrow> ptr \<Rightarrow> ptr \<Rightarrow> (bool \<times> store) option" where
  "DList_remove s list item = do {
     c_assert (list \<noteq> None);
     c_assert (item \<noteq> None);
     inside \<leftarrow> Item_isInContainer s item list;
     if inside then do {
       i \<leftarrow> item_at s item;
       let prvPtr = prevPtr i;
       let nxtPtr = nextPtr i;
       s2 \<leftarrow> (if prvPtr \<noteq> None then do {
                 s1 \<leftarrow> set_item s prvPtr (\<lambda>n. n\<lparr>nextPtr := nxtPtr\<rparr>);
                 if nxtPtr = None then set_list s1 list (\<lambda>h. h\<lparr>tailPtr := prvPtr\<rparr>)
                 else set_item s1 nxtPtr (\<lambda>n. n\<lparr>prevPtr := prvPtr\<rparr>)
               } else do {
                 s1 \<leftarrow> set_list s list (\<lambda>h. h\<lparr>headPtr := nxtPtr\<rparr>);
                 if nxtPtr = None then set_list s1 list (\<lambda>h. h\<lparr>tailPtr := None\<rparr>)
                 else set_item s1 nxtPtr (\<lambda>n. n\<lparr>prevPtr := None\<rparr>)
               });
       s3 \<leftarrow> Item_markAsFree s2 item;
       Some (True, s3)
     } else Some (False, s)
   }"

definition DList_get :: "store \<Rightarrow> ptr \<Rightarrow> (ptr \<times> store) option" where
  "DList_get s list = do {
     c_assert (list \<noteq> None);
     h \<leftarrow> list_at s list;
     let firstPtr = headPtr h;
     if firstPtr \<noteq> None then do {
       (ok, s1) \<leftarrow> DList_remove s list firstPtr;
       Some (firstPtr, s1)
     } else Some (firstPtr, s)
   }"

definition DList_getLast :: "store \<Rightarrow> ptr \<Rightarrow> (ptr \<times> store) option" where
  "DList_getLast s list = do {
     c_assert (list \<noteq> None);
     h \<leftarrow> list_at s list;
     let lastPtr = tailPtr h;
     if lastPtr \<noteq> None then do {
       (ok, s1) \<leftarrow> DList_remove s list lastPtr;
       Some (lastPtr, s1)
     } else Some (lastPtr, s)
   }"

definition DList_peekHead :: "store \<Rightarrow> ptr \<Rightarrow> ptr option" where
  "DList_peekHead s list = do {
     c_assert (list \<noteq> None);
     h \<leftarrow> list_at s list;
     Some (headPtr h)
   }"

definition DList_peekTail :: "store \<Rightarrow> ptr \<Rightarrow> ptr option" where
  "DList_peekTail s list = do {
     c_assert (list \<noteq> None);
     h \<leftarrow> list_at s list;
     Some (tailPtr h)
   }"

definition DList_next :: "store \<Rightarrow> ptr \<Rightarrow> ptr option" where
  "DList_next s item = do {
     c_assert (item \<noteq> None);
     n \<leftarrow> item_at s item;
     Some (nextPtr n)
   }"

definition DList_prev :: "store \<Rightarrow> ptr \<Rightarrow> ptr option" where
  "DList_prev s item = do {
     c_assert (item \<noteq> None);
     n \<leftarrow> item_at s item;
     Some (prevPtr n)
   }"

definition DList_isInList :: "store \<Rightarrow> ptr \<Rightarrow> ptr \<Rightarrow> bool option" where
  "DList_isInList s list item = do {
     c_assert (list \<noteq> None);
     c_assert (item \<noteq> None);
     Item_isInContainer s item list
   }"

text \<open>The loops of \<open>clear\<close> and \<open>move\<close>.\<close>

partial_function (option) DList_drain :: "store \<Rightarrow> ptr \<Rightarrow> store option" where
  "DList_drain s list = do {
     (p, s1) \<leftarrow> DList_get s list;
     if p \<noteq> None then DList_drain s1 list else Some s1
   }"

definition DList_clear :: "store \<Rightarrow> ptr \<Rightarrow> store option" where
  "DList_clear s list = do {
     c_assert (list \<noteq> None);
     DList_drain s list
   }"

partial_function (option) DList_transfer :: "store \<Rightarrow> ptr \<Rightarrow> ptr \<Rightarrow> store option" where
  "DList_transfer s dst src = do {
     (p, s1) \<leftarrow> DList_get s src;
     if p \<noteq> None then do {
       (ok, s2) \<leftarrow> DList_put s1 dst p;
       DList_transfer s2 dst src
     } else Some s1
   }"

definition DList_move :: "store \<Rightarrow> ptr \<Rightarrow> ptr \<Rightarrow> store option" where
  "DList_move s dst src = do {
     c_assert (dst \<noteq> None);
     c_assert (src \<noteq> None);
     s1 \<leftarrow> DList_clear s dst;
     DList_transfer s1 dst src
   }"

section \<open>Abstraction\<close>

definition dlist_rep :: "store \<Rightarrow> addr \<Rightarrow> addr list \<Rightarrow> bool" where
  "dlist_rep s l xs \<longleftrightarrow>
     hdrs s l = Some \<lparr>headPtr = first_or xs None, tailPtr = last_or None xs\<rparr> \<and>
     links (items s) xs None \<and> blinks (items s) None xs \<and> distinct xs \<and> members (items s) l xs"

lemma dlist_rep_members: "dlist_rep s l xs \<Longrightarrow> members (items s) l xs"
  by (simp add: dlist_rep_def)

lemmas dlist_alloc = members_alloc [OF dlist_rep_members]

lemma dlist_rep_frame:
  "dlist_rep s m ys \<Longrightarrow> m \<noteq> l \<Longrightarrow> local_step s s' l A \<Longrightarrow> A \<inter> set ys = {} \<Longrightarrow> dlist_rep s' m ys"
  unfolding dlist_rep_def using local_step_hdrs links_frame blinks_frame members_frame by metis

lemmas dlist_unfold = dlist_rep_def members_def local_step_def free_item_def insert_commute
  insert_Diff_if Let_def

lemma dlist_item:
  assumes "dlist_rep s l (us @ a # vs)"
  obtains n where "items s a = Some n" "containerPtr n = Some l"
    "nextPtr n = first_or vs None" "prevPtr n = last_or None us"
  using assms dlist_alloc [OF assms, of a] by (auto simp: dlist_rep_def)

section \<open>Functional behaviour\<close>

lemma DList_initialize_ok:
  assumes "hdrs s l = Some h" and "\<And>a n. items s a = Some n \<Longrightarrow> containerPtr n \<noteq> Some l"
  shows "\<exists>s'. DList_initialize s (Some l) = Some s' \<and> dlist_rep s' l []"
  using assms by (auto simp: DList_initialize_def heap_simps dlist_rep_def members_def contained_def)

lemma DList_put_free:
  assumes rep: "dlist_rep s l xs" and fr: "free_item s a"
  shows "\<exists>s'. DList_put s (Some l) (Some a) = Some (True, s') \<and> dlist_rep s' l (xs @ [a]) \<and>
              local_step s s' l (insert a (set xs))"
proof -
  from fr obtain n where n: "items s a = Some n" "containerPtr n = None"
    by (auto simp: free_item_def)
  have notin: "a \<notin> set xs" using free_item_notin [OF fr dlist_rep_members [OF rep]] .
  show ?thesis
  proof (cases xs rule: rev_cases)
    case Nil
    with rep n show ?thesis
      by (simp add: DList_put_def step_simps heap_simps dlist_unfold)
  next
    case (snoc ys z)
    with rep obtain nz where nz: "items s z = Some nz" "containerPtr nz = Some l"
      using dlist_alloc [of s l xs z] by auto
    with snoc notin rep n show ?thesis
      by (simp add: DList_put_def step_simps heap_simps dlist_unfold)
  qed
qed

lemma DList_put_contained:
  "items s a = Some n \<Longrightarrow> containerPtr n \<noteq> None \<Longrightarrow> DList_put s (Some l) (Some a) = Some (False, s)"
  by (simp add: DList_put_def step_simps)

lemma DList_putFirst_contained:
  "items s a = Some n \<Longrightarrow> containerPtr n \<noteq> None \<Longrightarrow>
   DList_putFirst s (Some l) (Some a) = Some (False, s)"
  by (simp add: DList_putFirst_def step_simps)

lemma DList_putFirst_free:
  assumes rep: "dlist_rep s l xs" and fr: "free_item s a"
  shows "\<exists>s'. DList_putFirst s (Some l) (Some a) = Some (True, s') \<and> dlist_rep s' l (a # xs) \<and>
              local_step s s' l (insert a (set xs))"
proof -
  from fr obtain n where n: "items s a = Some n" "containerPtr n = None"
    by (auto simp: free_item_def)
  have notin: "a \<notin> set xs" using free_item_notin [OF fr dlist_rep_members [OF rep]] .
  show ?thesis
  proof (cases xs)
    case Nil
    with rep n show ?thesis
      by (simp add: DList_putFirst_def step_simps heap_simps dlist_unfold)
  next
    case (Cons z ys)
    with rep obtain nz where nz: "items s z = Some nz" "containerPtr nz = Some l"
      using dlist_alloc [of s l xs z] by auto
    with Cons notin rep n show ?thesis
      by (simp add: DList_putFirst_def step_simps heap_simps dlist_unfold)
  qed
qed

lemma DList_insertBefore_free:
  assumes rep: "dlist_rep s l (us @ b # vs)" and fr: "free_item s a"
  shows "\<exists>s'. DList_insertBefore s (Some l) (Some b) (Some a) = Some (True, s') \<and>
              dlist_rep s' l (us @ a # b # vs) \<and> local_step s s' l (insert a (set (us @ b # vs)))"
proof -
  from fr obtain n where n: "items s a = Some n" "containerPtr n = None"
    by (auto simp: free_item_def)
  have notin: "a \<notin> set (us @ b # vs)" using free_item_notin [OF fr dlist_rep_members [OF rep]] .
  obtain nb where nb: "items s b = Some nb" "containerPtr nb = Some l"
    "nextPtr nb = first_or vs None" "prevPtr nb = last_or None us" using rep by (rule dlist_item)
  show ?thesis
  proof (cases us rule: rev_cases)
    case Nil
    with rep n nb notin show ?thesis
      by (simp add: DList_insertBefore_def step_simps heap_simps dlist_unfold)
  next
    case (snoc ws z)
    with rep obtain nz where nz: "items s z = Some nz" "containerPtr nz = Some l"
      using dlist_alloc [OF rep, of z] by auto
    with snoc rep n nb notin show ?thesis
      by (simp add: DList_insertBefore_def step_simps heap_simps dlist_unfold)
  qed
qed

lemma DList_insertAfter_free:
  assumes rep: "dlist_rep s l (us @ b # vs)" and fr: "free_item s a"
  shows "\<exists>s'. DList_insertAfter s (Some l) (Some b) (Some a) = Some (True, s') \<and>
              dlist_rep s' l (us @ b # a # vs) \<and> local_step s s' l (insert a (set (us @ b # vs)))"
proof -
  from fr obtain n where n: "items s a = Some n" "containerPtr n = None"
    by (auto simp: free_item_def)
  have notin: "a \<notin> set (us @ b # vs)" using free_item_notin [OF fr dlist_rep_members [OF rep]] .
  obtain nb where nb: "items s b = Some nb" "containerPtr nb = Some l"
    "nextPtr nb = first_or vs None" "prevPtr nb = last_or None us" using rep by (rule dlist_item)
  show ?thesis
  proof (cases vs)
    case Nil
    with rep n nb notin show ?thesis
      by (simp add: DList_insertAfter_def step_simps heap_simps dlist_unfold)
  next
    case (Cons z ws)
    with rep obtain nz where nz: "items s z = Some nz" "containerPtr nz = Some l"
      using dlist_alloc [OF rep, of z] by auto
    with Cons rep n nb notin show ?thesis
      by (simp add: DList_insertAfter_def step_simps heap_simps dlist_unfold)
  qed
qed

lemma DList_remove_split:
  assumes rep: "dlist_rep s l (us @ a # vs)"
  shows "\<exists>s'. DList_remove s (Some l) (Some a) = Some (True, s') \<and> dlist_rep s' l (us @ vs) \<and>
              free_item s' a \<and> local_step s s' l (set (us @ a # vs))"
proof -
  obtain n where n: "items s a = Some n" "containerPtr n = Some l"
    "nextPtr n = first_or vs None" "prevPtr n = last_or None us" using rep by (rule dlist_item)
  consider "us = []" "vs = []" | z ws where "us = []" "vs = z # ws" | z ws where "us = ws @ [z]" "vs = []"
    | y ys z ws where "us = ys @ [y]" "vs = z # ws"
    by (cases us rule: rev_cases; cases vs) auto
  then show ?thesis
  proof cases
    case 1
    with rep n show ?thesis
      by (simp add: DList_remove_def step_simps heap_simps dlist_unfold)
  next
    case 2
    with rep obtain nz where "items s z = Some nz" "containerPtr nz = Some l"
      using dlist_alloc [OF rep, of z] by auto
    with 2 rep n show ?thesis
      by (simp add: DList_remove_def step_simps heap_simps dlist_unfold)
  next
    case 3
    with rep obtain nz where "items s z = Some nz" "containerPtr nz = Some l"
      using dlist_alloc [OF rep, of z] by auto
    with 3 rep n show ?thesis
      by (simp add: DList_remove_def step_simps heap_simps dlist_unfold)
  next
    case 4
    with rep obtain nz ny where "items s z = Some nz" "containerPtr nz = Some l"
      "items s y = Some ny" "containerPtr ny = Some l"
      using dlist_alloc [OF rep, of z] dlist_alloc [OF rep, of y] by auto
    with 4 rep n show ?thesis
      by (simp add: DList_remove_def step_simps heap_simps dlist_unfold)
  qed
qed

lemma DList_remove_member:
  assumes rep: "dlist_rep s l xs" and a: "a \<in> set xs"
  shows "\<exists>s'. DList_remove s (Some l) (Some a) = Some (True, s') \<and> dlist_rep s' l (remove1 a xs) \<and>
              free_item s' a \<and> local_step s s' l (set xs)"
proof -
  from a obtain us vs where xs: "xs = us @ a # vs" by (meson split_list)
  from rep have "distinct (us @ a # vs)" by (simp add: dlist_rep_def xs)
  then have "remove1 a xs = us @ vs" unfolding xs by (rule remove1_split)
  with DList_remove_split [OF rep [unfolded xs]] show ?thesis by (simp add: xs)
qed

lemma DList_remove_other:
  "dlist_rep s l xs \<Longrightarrow> items s a = Some n \<Longrightarrow> a \<notin> set xs \<Longrightarrow>
   DList_remove s (Some l) (Some a) = Some (False, s)"
  by (auto simp: DList_remove_def step_simps members_iff [OF dlist_rep_members])

lemma DList_get_empty: "dlist_rep s l [] \<Longrightarrow> DList_get s (Some l) = Some (None, s)"
  by (simp add: DList_get_def heap_simps dlist_rep_def)

lemma DList_get_first:
  assumes "dlist_rep s l (x # xs)"
  shows "\<exists>s'. DList_get s (Some l) = Some (Some x, s') \<and> dlist_rep s' l xs \<and> free_item s' x \<and>
              local_step s s' l (insert x (set xs))"
  using DList_remove_split [of s l "[]" x xs] assms
  by (auto simp: DList_get_def heap_simps dlist_rep_def)

lemma DList_getLast_empty: "dlist_rep s l [] \<Longrightarrow> DList_getLast s (Some l) = Some (None, s)"
  by (simp add: DList_getLast_def heap_simps dlist_rep_def)

lemma DList_getLast_last:
  assumes "dlist_rep s l (xs @ [x])"
  shows "\<exists>s'. DList_getLast s (Some l) = Some (Some x, s') \<and> dlist_rep s' l xs \<and> free_item s' x \<and>
              local_step s s' l (insert x (set xs))"
  using DList_remove_split [of s l xs x "[]"] assms
  by (auto simp: DList_getLast_def heap_simps dlist_rep_def)

lemma DList_peek_ok:
  assumes "dlist_rep s l xs"
  shows "DList_peekHead s (Some l) = Some (first_or xs None)"
    and "DList_peekTail s (Some l) = Some (last_or None xs)"
  using assms by (simp_all add: DList_peekHead_def DList_peekTail_def heap_simps dlist_rep_def)

text \<open>Stepping forwards and then backwards returns to the same item.\<close>

lemma DList_next_prev:
  assumes "dlist_rep s l (us @ a # vs)"
  shows "DList_next s (Some a) = Some (first_or vs None)"
    and "DList_prev s (Some a) = Some (last_or None us)"
  by (rule dlist_item [OF assms], simp add: DList_next_def DList_prev_def heap_simps)+

lemma DList_isInList_ok:
  assumes "dlist_rep s l xs" and "items s a = Some n"
  shows "DList_isInList s (Some l) (Some a) = Some (a \<in> set xs)"
  using assms by (simp add: DList_isInList_def step_simps members_iff [OF dlist_rep_members])

interpretation dl: intrusive_list dlist_rep DList_get DList_put DList_remove DList_drain DList_transfer
proof (unfold_locales, goal_cases)
  case (1 s l xs)
  then show ?case by (simp add: dlist_rep_def)
next
  case (2 s m ys l s' A)
  then show ?case by (rule dlist_rep_frame)
next
  case (3 s l)
  then show ?case by (rule DList_get_empty)
next
  case (4 s l x xs)
  then show ?case by (rule DList_get_first)
next
  case (5 s l xs a)
  then show ?case by (rule DList_put_free)
next
  case (6 s l xs a)
  then show ?case by (rule DList_remove_member)
next
  case (7 s l)
  show ?case by (rule DList_drain.simps)
next
  case (8 s d l)
  show ?case by (rule DList_transfer.simps)
qed

definition dlist_api :: list_api where
  "dlist_api = \<lparr>api_put = DList_put, api_putFirst = DList_putFirst, api_get = DList_get,
     api_getLast = DList_getLast, api_remove = DList_remove\<rparr>"

interpretation dq: intrusive_deque dlist_rep DList_get DList_put DList_remove DList_drain
  DList_transfer dlist_api
proof (unfold_locales, goal_cases)
qed (simp_all add: dlist_api_def DList_put_contained DList_putFirst_free DList_putFirst_contained
    DList_getLast_empty DList_getLast_last DList_remove_other)

section \<open>Properties\<close>

lemma sample_dlist: "dlist_rep sample_store 10 [1, 2]" "dlist_rep sample_store 11 [3]"
  by (auto simp: dlist_rep_def members_def contained_sample) (auto simp: sample_store_def)

text \<open>
  C16.  A list header implements a sequence.  Run any sequence of \<open>put\<close>, \<open>putFirst\<close>,
  \<open>get\<close>, \<open>getLast\<close> and \<open>remove\<close> calls on a well-formed doubly linked list, with items that
  exist: no assertion fails, no null or dangling pointer is followed, every search loop ends,
  every call returns what the same call on the abstract sequence returns (in particular an
  insertion of an item that already sits in some container is refused), the header represents
  the abstract result, and no item of another container is taken or released.
\<close>

theorem dlist_refines_sequence:
  assumes "dlist_rep s l xs" and "\<Union> (op_item ` set cs) \<subseteq> dom (items s)"
  shows "\<exists>s'. run_ops dlist_api s l cs = Some (fst (spec_ops (elsewhere s l) xs cs), s') \<and>
              dlist_rep s' l (snd (spec_ops (elsewhere s l) xs cs)) \<and>
              elsewhere s' l = elsewhere s l"
  using assms by (rule dq.run_ops_ok)

theorem dlist_refines_sequence_witness:
  "\<exists>s'. run_ops dlist_api sample_store 10 [Op_put 3, Op_putFirst 4, Op_remove 1, Op_put 1, Op_get] =
          Some ([Res_bool False, Res_bool True, Res_bool True, Res_bool True, Res_ptr (Some 4)], s') \<and>
        dlist_rep s' 10 [2, 1] \<and> elsewhere s' 10 = {3}"
  using dlist_refines_sequence [OF sample_dlist(1),
      of "[Op_put 3, Op_putFirst 4, Op_remove 1, Op_put 1, Op_get]"]
  by (simp add: elsewhere_sample) (simp add: sample_store_def)

text \<open>
   \<open>move\<close> terminates, empties the source, and leaves in the destination exactly the
  items of the source in their order, whatever the destination held before; \<open>clear\<close>
  terminates with an empty list and every former item free to be put elsewhere.
\<close>

theorem dlist_move_clear:
  assumes "dlist_rep s d ys" and "dlist_rep s l xs" and "d \<noteq> l"
  shows "(\<exists>s'. DList_move s (Some d) (Some l) = Some s' \<and> dlist_rep s' d xs \<and> dlist_rep s' l []) \<and>
         (\<exists>s'. DList_clear s (Some l) = Some s' \<and> dlist_rep s' l [] \<and>
               (\<forall>a\<in>set xs. free_item s' a) \<and> dlist_rep s' d ys)"
proof -
  obtain s1 s' where "DList_drain s (Some d) = Some s1" "DList_transfer s1 (Some d) (Some l) = Some s'"
    "dlist_rep s' d xs" "dlist_rep s' l []" using dl.move_ok [OF assms] by blast
  moreover obtain s2 where s2: "DList_drain s (Some l) = Some s2" "dlist_rep s2 l []"
    "\<forall>a\<in>set xs. free_item s2 a" "local_step s s2 l (set xs)" using dl.drain_ok [OF assms(2)] by blast
  moreover from dl.rep_disjoint [OF assms(2,1)] assms(3) have "dlist_rep s2 d ys"
    by (intro dlist_rep_frame [OF assms(1) _ s2(4)]) auto
  ultimately show ?thesis by (simp add: DList_move_def DList_clear_def)
qed

theorem dlist_move_clear_witness:
  "(\<exists>s'. DList_move sample_store (Some 11) (Some 10) = Some s' \<and>
         dlist_rep s' 11 [1, 2] \<and> dlist_rep s' 10 []) \<and>
   (\<exists>s'. DList_clear sample_store (Some 10) = Some s' \<and> dlist_rep s' 10 [] \<and>
         (\<forall>a\<in>set [1, 2]. free_item s' a) \<and> dlist_rep s' 11 [3])"
  by (rule dlist_move_clear [OF sample_dlist(2) sample_dlist(1)]) simp

end
