(* ===== verification/Cxx_Lists.thy ===== *)
theory Cxx_Lists
  imports Slist Dlist
begin

text \<open>
  The list templates of \<^verbatim>\<open>src/src/Cpl/Container/SList.h\<close> and \<^verbatim>\<open>DList.h\<close> with the item
  bookkeeping of \<^verbatim>\<open>Item.cpp\<close>.  They are the C++ counterparts of the C lists and work on the
  same linkage, so they share the store; \<open>this\<close> and the items are references, hence
  addresses and never null.  \<open>insert_\<close> raises a fatal error when the item already sits in a
  container, and a fatal error stops the application: it is \<open>None\<close>.
\<close>

section \<open>Item bookkeeping\<close>

definition ItemT_insert :: "store \<Rightarrow> addr \<Rightarrow> addr \<Rightarrow> (bool \<times> store) option" where
  "ItemT_insert s item newContainerPtr = do {
     n \<leftarrow> item_at s (Some item);
     if containerPtr n \<noteq> None then None
     else do {
       s' \<leftarrow> set_item s (Some item) (\<lambda>n. n\<lparr>containerPtr := Some newContainerPtr\<rparr>);
       Some (True, s')
     }
   }"

definition ItemT_isInContainer :: "store \<Rightarrow> addr \<Rightarrow> addr \<Rightarrow> bool option" where
  "ItemT_isInContainer s item containerPtr' = do {
     n \<leftarrow> item_at s (Some item);
     if containerPtr n \<noteq> Some containerPtr' then Some False else Some True
   }"

definition ItemT_remove :: "store \<Rightarrow> ptr \<Rightarrow> store option" where
  "ItemT_remove s itemPtr =
     (if itemPtr \<noteq> None then set_item s itemPtr (\<lambda>n. n\<lparr>containerPtr := None\<rparr>) else Some s)"

section \<open>\<^verbatim>\<open>SList.h\<close>\<close>

definition SListT :: list_hdr where
  "SListT = \<lparr>headPtr = None, tailPtr = None\<rparr>"

definition SListT_first :: "store \<Rightarrow> addr \<Rightarrow> ptr option" where
  "SListT_first s this = do {
     h \<leftarrow> list_at s (Some this);
     Some (headPtr h)
   }"

definition SListT_last :: "store \<Rightarrow> addr \<Rightarrow> ptr option" where
  "SListT_last s this = do {
     h \<leftarrow> list_at s (Some this);
     Some (tailPtr h)
   }"

definition SListT_next :: "store \<Rightarrow> addr \<Rightarrow> ptr option" where
  "SListT_next s item = do {
     n \<leftarrow> item_at s (Some item);
     Some (nextPtr n)
   }"

definition SListT_get :: "store \<Rightarrow> addr \<Rightarrow> (ptr \<times> store) option" where
  "SListT_get s this = do {
     h \<leftarrow> list_at s (Some this);
     let p = headPtr h;
     s1 \<leftarrow> (if p \<noteq> None then do {
               n \<leftarrow> item_at s p;
               s' \<leftarrow> set_list s (Some this) (\<lambda>h. h\<lparr>headPtr := nextPtr n\<rparr>);
               if nextPtr n = None then set_list s' (Some this) (\<lambda>h. h\<lparr>tailPtr := None\<rparr>) else Some s'
             } else Some s);
     s2 \<leftarrow> ItemT_remove s1 p;
     Some (p, s2)
   }"

definition SListT_put :: "store \<Rightarrow> addr \<Rightarrow> addr \<Rightarrow> store option" where
  "SListT_put s this item = do {
     (ok, s1) \<leftarrow> ItemT_insert s item this;
     if ok then do {
       h \<leftarrow> list_at s1 (Some this);
       s2 \<leftarrow> (if headPtr h \<noteq> None then set_item s1 (tailPtr h) (\<lambda>n. n\<lparr>nextPtr := Some item\<rparr>)
              else set_list s1 (Some this) (\<lambda>h. h\<lparr>headPtr := Some item\<rparr>));
       s3 \<leftarrow> set_item s2 (Some item) (\<lambda>n. n\<lparr>nextPtr := None\<rparr>);
       set_list s3 (Some this) (\<lambda>h. h\<lparr>tailPtr := Some item\<rparr>)
     } else Some s1
   }"

definition SListT_putFirst :: "store \<Rightarrow> addr \<Rightarrow> addr \<Rightarrow> store option" where
  "SListT_putFirst s this item = do {
     (ok, s1) \<leftarrow> ItemT_insert s item this;
     if ok then do {
       h \<leftarrow> list_at s1 (Some this);
       if headPtr h \<noteq> None then do {
         s2 \<leftarrow> set_item s1 (Some item) (\<lambda>n. n\<lparr>nextPtr := headPtr h\<rparr>);
         set_list s2 (Some this) (\<lambda>h. h\<lparr>headPtr := Some item\<rparr>)
       } else do {
         s2 \<leftarrow> set_list s1 (Some this) (\<lambda>_. \<lparr>headPtr = Some item, tailPtr = Some item\<rparr>);
         set_item s2 (Some item) (\<lambda>n. n\<lparr>nextPtr := None\<rparr>)
       }
     } else Some s1
   }"

partial_function (option) SListT_remove_loop ::
    "store \<Rightarrow> addr \<Rightarrow> addr \<Rightarrow> ptr \<Rightarrow> ptr \<Rightarrow> (bool \<times> store) option" where
  "SListT_remove_loop s this item nxtPtr prvPtr =
     (case nxtPtr of
        None \<Rightarrow> Some (False, s)
      | Some nxt \<Rightarrow>
          if nxt = item then do {
            n \<leftarrow> item_at s (Some nxt);
            s2 \<leftarrow> (if prvPtr \<noteq> None then do {
                      s1 \<leftarrow> set_item s prvPtr (\<lambda>m. m\<lparr>nextPtr := nextPtr n\<rparr>);
                      if nextPtr n = None then set_list s1 (Some this) (\<lambda>h. h\<lparr>tailPtr := prvPtr\<rparr>) else Some s1
                    } else do {
                      s1 \<leftarrow> set_list s (Some this) (\<lambda>h. h\<lparr>headPtr := nextPtr n\<rparr>);
                      if nextPtr n = None then set_list s1 (Some this) (\<lambda>h. h\<lparr>tailPtr := None\<rparr>) else Some s1
                    });
            s3 \<leftarrow> ItemT_remove s2 (Some item);
            Some (True, s3)
          }
          else do {
            nn \<leftarrow> SListT_next s nxt;
            SListT_remove_loop s this item nn (Some nxt)
          })"

definition SListT_remove :: "store \<Rightarrow> addr \<Rightarrow> addr \<Rightarrow> (bool \<times> store) option" where
  "SListT_remove s this item = do {
     inside \<leftarrow> ItemT_isInContainer s item this;
     if inside then do {
       f \<leftarrow> SListT_first s this;
       SListT_remove_loop s this item f None
     } else Some (False, s)
   }"

definition SListT_getLast :: "store \<Rightarrow> addr \<Rightarrow> (ptr \<times> store) option" where
  "SListT_getLast s this = do {
     h \<leftarrow> list_at s (Some this);
     case tailPtr h of
       None \<Rightarrow> Some (None, s)
     | Some t \<Rightarrow> do {
         (ok, s1) \<leftarrow> SListT_remove s this t;
         Some (Some t, s1)
       }
   }"

definition SListT_insertAfter :: "store \<Rightarrow> addr \<Rightarrow> addr \<Rightarrow> addr \<Rightarrow> store option" where
  "SListT_insertAfter s this after item = do {
     (ok, s1) \<leftarrow> ItemT_insert s item this;
     if ok then do {
       a \<leftarrow> item_at s1 (Some after);
       s2 \<leftarrow> set_item s1 (Some item) (\<lambda>n. n\<lparr>nextPtr := nextPtr a\<rparr>);
       i \<leftarrow> item_at s2 (Some item);
       s3 \<leftarrow> (if nextPtr i = None then set_list s2 (Some this) (\<lambda>h. h\<lparr>tailPtr := Some item\<rparr>) else Some s2);
       set_item s3 (Some after) (\<lambda>n. n\<lparr>nextPtr := Some item\<rparr>)
     } else Some s1
   }"

partial_function (option) SListT_insertBefore_loop ::
    "store \<Rightarrow> addr \<Rightarrow> addr \<Rightarrow> addr \<Rightarrow> ptr \<Rightarrow> ptr \<Rightarrow> store option" where
  "SListT_insertBefore_loop s this before item nxtPtr prvPtr =
     (case nxtPtr of
        None \<Rightarrow> Some s
      | Some nxt \<Rightarrow>
          if nxt = before then do {
            s1 \<leftarrow> set_item s (Some item) (\<lambda>n. n\<lparr>nextPtr := Some nxt\<rparr>);
            if prvPtr \<noteq> None then set_item s1 prvPtr (\<lambda>n. n\<lparr>nextPtr := Some item\<rparr>)
            else set_list s1 (Some this) (\<lambda>h. h\<lparr>headPtr := Some item\<rparr>)
          }
          else do {
            nn \<leftarrow> SListT_next s nxt;
            SListT_insertBefore_loop s this before item nn (Some nxt)
          })"

definition SListT_insertBefore :: "store \<Rightarrow> addr \<Rightarrow> addr \<Rightarrow> addr \<Rightarrow> store option" where
  "SListT_insertBefore s this before item = do {
     (ok, s1) \<leftarrow> ItemT_insert s item this;
     if ok then do {
       f \<leftarrow> SListT_first s1 this;
       SListT_insertBefore_loop s1 this before item f None
     } else Some s1
   }"

definition SListT_find :: "store \<Rightarrow> addr \<Rightarrow> addr \<Rightarrow> bool option" where
  "SListT_find s this item = ItemT_isInContainer s item this"

text \<open>The queue and stack names of the same operations.\<close>

definition SListT_getFirst :: "store \<Rightarrow> addr \<Rightarrow> (ptr \<times> store) option" where
  "SListT_getFirst s this = SListT_get s this"

definition SListT_pop :: "store \<Rightarrow> addr \<Rightarrow> (ptr \<times> store) option" where
  "SListT_pop s this = SListT_get s this"

definition SListT_putLast :: "store \<Rightarrow> addr \<Rightarrow> addr \<Rightarrow> store option" where
  "SListT_putLast s this item = SListT_put s this item"

definition SListT_push :: "store \<Rightarrow> addr \<Rightarrow> addr \<Rightarrow> store option" where
  "SListT_push s this item = SListT_putFirst s this item"

definition SListT_top :: "store \<Rightarrow> addr \<Rightarrow> ptr option" where
  "SListT_top s this = SListT_first s this"

definition SListT_head :: "store \<Rightarrow> addr \<Rightarrow> ptr option" where
  "SListT_head s this = SListT_first s this"

definition SListT_tail :: "store \<Rightarrow> addr \<Rightarrow> ptr option" where
  "SListT_tail s this = SListT_last s this"

partial_function (option) SListT_clearTheList :: "store \<Rightarrow> addr \<Rightarrow> store option" where
  "SListT_clearTheList s this = do {
     (p, s1) \<leftarrow> SListT_get s this;
     if p \<noteq> None then SListT_clearTheList s1 this else Some s1
   }"

partial_function (option) SListT_move_loop :: "store \<Rightarrow> addr \<Rightarrow> addr \<Rightarrow> store option" where
  "SListT_move_loop s this dst = do {
     (p, s1) \<leftarrow> SListT_get s this;
     case p of
       None \<Rightarrow> Some s1
     | Some nxt \<Rightarrow> do {
         s2 \<leftarrow> SListT_put s1 dst nxt;
         SListT_move_loop s2 this dst
       }
   }"

definition SListT_move :: "store \<Rightarrow> addr \<Rightarrow> addr \<Rightarrow> store option" where
  "SListT_move s this dst = do {
     s1 \<leftarrow> SListT_clearTheList s dst;
     SListT_move_loop s1 this dst
   }"

section \<open>\<^verbatim>\<open>DList.h\<close>\<close>

definition DListT :: list_hdr where
  "DListT = \<lparr>headPtr = None, tailPtr = None\<rparr>"

definition DListT_first :: "store \<Rightarrow> addr \<Rightarrow> ptr option" where
  "DListT_first s this = do {
     h \<leftarrow> list_at s (Some this);
     Some (headPtr h)
   }"

definition DListT_last :: "store \<Rightarrow> addr \<Rightarrow> ptr option" where
  "DListT_last s this = do {
     h \<leftarrow> list_at s (Some this);
     Some (tailPtr h)
   }"

definition DListT_next :: "store \<Rightarrow> addr \<Rightarrow> ptr option" where
  "DListT_next s cur = do {
     n \<leftarrow> item_at s (Some cur);
     Some (nextPtr n)
   }"

definition DListT_previous :: "store \<Rightarrow> addr \<Rightarrow> ptr option" where
  "DListT_previous s cur = do {
     n \<leftarrow> item_at s (Some cur);
     Some (prevPtr n)
   }"

definition DListT_find :: "store \<Rightarrow> addr \<Rightarrow> addr \<Rightarrow> bool option" where
  "DListT_find s this item = ItemT_isInContainer s item this"

definition DListT_remove :: "store \<Rightarrow> addr \<Rightarrow> addr \<Rightarrow> (bool \<times> store) option" where
  "DListT_remove s this item = do {
     inside \<leftarrow> ItemT_isInContainer s item this;
     if inside then do {
       i \<leftarrow> item_at s (Some item);
       let prvPtr = prevPtr i;
       let nxtPtr = nextPtr i;
       s2 \<leftarrow> (if prvPtr \<noteq> None then do {
                 s1 \<leftarrow> set_item s prvPtr (\<lambda>n. n\<lparr>nextPtr := nxtPtr\<rparr>);
                 if nxtPtr = None then set_list s1 (Some this) (\<lambda>h. h\<lparr>tailPtr := prvPtr\<rparr>)
                 else set_item s1 nxtPtr (\<lambda>n. n\<lparr>prevPtr := prvPtr\<rparr>)
               } else do {
                 s1 \<leftarrow> set_list s (Some this) (\<lambda>h. h\<lparr>headPtr := nxtPtr\<rparr>);
                 if nxtPtr = None then set_list s1 (Some this) (\<lambda>h. h\<lparr>tailPtr := None\<rparr>)
                 else set_item s1 nxtPtr (\<lambda>n. n\<lparr>prevPtr := None\<rparr>)
               });
       s3 \<leftarrow> ItemT_remove s2 (Some item);
       Some (True, s3)
     } else Some (False, s)
   }"

definition DListT_get :: "store \<Rightarrow> addr \<Rightarrow> (ptr \<times> store) option" where
  "DListT_get s this = do {
     h \<leftarrow> list_at s (Some this);
     case headPtr h of
       None \<Rightarrow> Some (None, s)
     | Some f \<Rightarrow> do {
         (ok, s1) \<leftarrow> DListT_remove s this f;
         Some (Some f, s1)
       }
   }"

definition DListT_getLast :: "store \<Rightarrow> addr \<Rightarrow> (ptr \<times> store) option" where
  "DListT_getLast s this = do {
     h \<leftarrow> list_at s (Some this);
     case tailPtr h of
       None \<Rightarrow> Some (None, s)
     | Some t \<Rightarrow> do {
         (ok, s1) \<leftarrow> DListT_remove s this t;
         Some (Some t, s1)
       }
   }"

definition DListT_putFirst :: "store \<Rightarrow> addr \<Rightarrow> addr \<Rightarrow> store option" where
  "DListT_putFirst s this item = do {
     (ok, s1) \<leftarrow> ItemT_insert s item this;
     if ok then do {
       h \<leftarrow> list_at s1 (Some this);
       s4 \<leftarrow> (if headPtr h \<noteq> None then do {
                 s2 \<leftarrow> set_item s1 (Some item) (\<lambda>n. n\<lparr>nextPtr := headPtr h\<rparr>);
                 s3 \<leftarrow> set_item s2 (headPtr h) (\<lambda>n. n\<lparr>prevPtr := Some item\<rparr>);
                 set_list s3 (Some this) (\<lambda>h. h\<lparr>headPtr := Some item\<rparr>)
               } else do {
                 s2 \<leftarrow> set_list s1 (Some this) (\<lambda>_. \<lparr>headPtr = Some item, tailPtr = Some item\<rparr>);
                 set_item s2 (Some item) (\<lambda>n. n\<lparr>nextPtr := None\<rparr>)
               });
       set_item s4 (Some item) (\<lambda>n. n\<lparr>prevPtr := None\<rparr>)
     } else Some s1
   }"

definition DListT_put :: "store \<Rightarrow> addr \<Rightarrow> addr \<Rightarrow> store option" where
  "DListT_put s this item = do {
     (ok, s1) \<leftarrow> ItemT_insert s item this;
     if ok then do {
       h \<leftarrow> list_at s1 (Some this);
       s3 \<leftarrow> (if headPtr h \<noteq> None then do {
                 s2 \<leftarrow> set_item s1 (tailPtr h) (\<lambda>n. n\<lparr>nextPtr := Some item\<rparr>);
                 set_item s2 (Some item) (\<lambda>n. n\<lparr>prevPtr := tailPtr h\<rparr>)
               } else do {
                 s2 \<leftarrow> set_list s1 (Some this) (\<lambda>h. h\<lparr>headPtr := Some item\<rparr>);
                 set_item s2 (Some item) (\<lambda>n. n\<lparr>prevPtr := None\<rparr>)
               });
       s4 \<leftarrow> set_item s3 (Some item) (\<lambda>n. n\<lparr>nextPtr := None\<rparr>);
       set_list s4 (Some this) (\<lambda>h. h\<lparr>tailPtr := Some item\<rparr>)
     } else Some s1
   }"

definition DListT_insertAfter :: "store \<Rightarrow> addr \<Rightarrow> addr \<Rightarrow> addr \<Rightarrow> store option" where
  "DListT_insertAfter s this after item = do {
     (ok, s1) \<leftarrow> ItemT_insert s item this;
     if ok then do {
       a \<leftarrow> item_at s1 (Some after);
       let nxtPtr = nextPtr a;
       s2 \<leftarrow> set_item s1 (Some item) (\<lambda>n. n\<lparr>nextPtr := nxtPtr\<rparr>);
       s3 \<leftarrow> set_item s2 (Some item) (\<lambda>n. n\<lparr>prevPtr := Some after\<rparr>);
       s4 \<leftarrow> set_item s3 (Some after) (\<lambda>n. n\<lparr>nextPtr := Some item\<rparr>);
       if nxtPtr = None then set_list s4 (Some this) (\<lambda>h. h\<lparr>tailPtr := Some item\<rparr>)
       else set_item s4 nxtPtr (\<lambda>n. n\<lparr>prevPtr := Some item\<rparr>)
     } else Some s1
   }"

definition DListT_insertBefore :: "store \<Rightarrow> addr \<Rightarrow> addr \<Rightarrow> addr \<Rightarrow> store option" where
  "DListT_insertBefore s this before item = do {
     (ok, s1) \<leftarrow> ItemT_insert s item this;
     if ok then do {
       b \<leftarrow> item_at s1 (Some before);
       let prvPtr = prevPtr b;
       s2 \<leftarrow> set_item s1 (Some item) (\<lambda>n. n\<lparr>prevPtr := prvPtr\<rparr>);
       s3 \<leftarrow> set_item s2 (Some item) (\<lambda>n. n\<lparr>nextPtr := Some before\<rparr>);
       s4 \<leftarrow> set_item s3 (Some before) (\<lambda>n. n\<lparr>prevPtr := Some item\<rparr>);
       if prvPtr = None then set_list s4 (Some this) (\<lambda>h. h\<lparr>headPtr := Some item\<rparr>)
       else set_item s4 prvPtr (\<lambda>n. n\<lparr>nextPtr := Some item\<rparr>)
     } else Some s1
   }"

text \<open>The queue and stack names of the same operations.\<close>

definition DListT_getFirst :: "store \<Rightarrow> addr \<Rightarrow> (ptr \<times> store) option" where
  "DListT_getFirst s this = DListT_get s this"

definition DListT_pop :: "store \<Rightarrow> addr \<Rightarrow> (ptr \<times> store) option" where
  "DListT_pop s this = DListT_get s this"

definition DListT_putLast :: "store \<Rightarrow> addr \<Rightarrow> addr \<Rightarrow> store option" where
  "DListT_putLast s this item = DListT_put s this item"

definition DListT_push :: "store \<Rightarrow> addr \<Rightarrow> addr \<Rightarrow> store option" where
  "DListT_push s this item = DListT_putFirst s this item"

definition DListT_top :: "store \<Rightarrow> addr \<Rightarrow> ptr option" where
  "DListT_top s this = DListT_first s this"

definition DListT_head :: "store \<Rightarrow> addr \<Rightarrow> ptr option" where
  "DListT_head s this = DListT_first s this"

definition DListT_tail :: "store \<Rightarrow> addr \<Rightarrow> ptr option" where
  "DListT_tail s this = DListT_last s this"

partial_function (option) DListT_clearTheList :: "store \<Rightarrow> addr \<Rightarrow> store option" where
  "DListT_clearTheList s this = do {
     (p, s1) \<leftarrow> DListT_get s this;
     if p \<noteq> None then DListT_clearTheList s1 this else Some s1
   }"

partial_function (option) DListT_move_loop :: "store \<Rightarrow> addr \<Rightarrow> addr \<Rightarrow> store option" where
  "DListT_move_loop s this dst = do {
     (p, s1) \<leftarrow> DListT_get s this;
     case p of
       None \<Rightarrow> Some s1
     | Some nxt \<Rightarrow> do {
         s2 \<leftarrow> DListT_put s1 dst nxt;
         DListT_move_loop s2 this dst
       }
   }"

definition DListT_move :: "store \<Rightarrow> addr \<Rightarrow> addr \<Rightarrow> store option" where
  "DListT_move s this dst = do {
     s1 \<leftarrow> DListT_clearTheList s dst;
     DListT_move_loop s1 this dst
   }"

section \<open>Agreement with the C lists\<close>

text \<open>
  Where a C function refuses an item that is in a container and reports so, the template stops with a fatal error.
\<close>

definition accepted :: "(bool \<times> store) option \<Rightarrow> store option" where
  "accepted r = (case r of Some (True, s) \<Rightarrow> Some s | _ \<Rightarrow> None)"

lemma accepted_simps [simp]:
  "accepted None = None" "accepted (Some (True, s)) = Some s" "accepted (Some (False, s)) = None"
  by (simp_all add: accepted_def)

lemma accepted_bind: "accepted (Option.bind m g) = Option.bind m (\<lambda>x. accepted (g x))"
  by (cases m) simp_all

lemmas agree_simps = c_assert_def accepted_bind if_distrib [of accepted] split_def Let_def

lemma ItemT_insert_eq:
  "ItemT_insert s item this = map_option (Pair True) (accepted (Item_markAsContained s (Some item) (Some this)))"
  by (cases "items s item") (simp_all add: ItemT_insert_def Item_markAsContained_def heap_simps)

lemma ItemT_insert_free:
  "items s item = Some n \<Longrightarrow> containerPtr n = None \<Longrightarrow>
   ItemT_insert s item this = Some (True, s\<lparr>items := (items s)(item \<mapsto> n\<lparr>containerPtr := Some this\<rparr>)\<rparr>)"
  by (simp add: ItemT_insert_eq step_simps)

lemma ItemT_isInContainer_eq:
  "ItemT_isInContainer s item this = Item_isInContainer s (Some item) (Some this)"
  by (cases "items s item") (simp_all add: ItemT_isInContainer_def Item_isInContainer_def heap_simps)

lemma ItemT_remove_eq: "ItemT_remove = Item_markAsFree"
  by (rule ext)+ (simp add: ItemT_remove_def Item_markAsFree_def)

lemmas item_eqs = ItemT_isInContainer_eq ItemT_remove_eq

lemma SListT_get_eq: "SListT_get s this = SList_get s (Some this)"
  by (simp add: SListT_get_def SList_get_def item_eqs c_assert_def)

lemma SListT_put_eq: "SListT_put s this item = accepted (SList_put s (Some this) (Some item))"
  by (cases "Item_markAsContained s (Some item) (Some this)")
    (auto simp: SListT_put_def SList_put_def ItemT_insert_eq agree_simps cong: if_cong)

lemma SListT_putFirst_eq: "SListT_putFirst s this item = accepted (SList_putFirst s (Some this) (Some item))"
  by (cases "Item_markAsContained s (Some item) (Some this)")
    (auto simp: SListT_putFirst_def SList_putFirst_def ItemT_insert_eq agree_simps cong: if_cong)

lemma DListT_put_eq: "DListT_put s this item = accepted (DList_put s (Some this) (Some item))"
  by (cases "Item_markAsContained s (Some item) (Some this)")
    (auto simp: DListT_put_def DList_put_def ItemT_insert_eq agree_simps cong: if_cong)

lemma DListT_putFirst_eq: "DListT_putFirst s this item = accepted (DList_putFirst s (Some this) (Some item))"
  by (cases "Item_markAsContained s (Some item) (Some this)")
    (auto simp: DListT_putFirst_def DList_putFirst_def ItemT_insert_eq agree_simps cong: if_cong)

lemma DListT_remove_eq: "DListT_remove s this item = DList_remove s (Some this) (Some item)"
  by (simp add: DListT_remove_def DList_remove_def item_eqs Let_def cong: if_cong)

lemma DListT_get_eq: "DListT_get s this = DList_get s (Some this)"
  by (cases "hdrs s this")
    (simp_all add: DListT_get_def DList_get_def DListT_remove_eq heap_simps Let_def split: option.split)

lemma DListT_getLast_eq: "DListT_getLast s this = DList_getLast s (Some this)"
  by (cases "hdrs s this")
    (simp_all add: DListT_getLast_def DList_getLast_def DListT_remove_eq heap_simps Let_def split: option.split)

lemma DListT_insertAfter_eq:
  "DListT_insertAfter s this after item = accepted (DList_insertAfter s (Some this) (Some after) (Some item))"
proof (cases "items s item")
  case None
  then show ?thesis
    by (simp add: DListT_insertAfter_def DList_insertAfter_def ItemT_insert_eq Item_markAsContained_def heap_simps)
next
  case (Some n)
  then show ?thesis
    by (cases "items s after"; cases "containerPtr n")
      (simp_all add: DListT_insertAfter_def DList_insertAfter_def ItemT_insert_eq step_simps heap_simps Let_def
        accepted_bind if_distrib [of accepted] cong: if_cong)
qed

lemma DListT_insertBefore_eq:
  "DListT_insertBefore s this before item = accepted (DList_insertBefore s (Some this) (Some before) (Some item))"
proof (cases "items s item")
  case None
  then show ?thesis
    by (simp add: DListT_insertBefore_def DList_insertBefore_def ItemT_insert_eq Item_markAsContained_def heap_simps)
next
  case (Some n)
  then show ?thesis
    by (cases "items s before"; cases "containerPtr n")
      (simp_all add: DListT_insertBefore_def DList_insertBefore_def ItemT_insert_eq step_simps heap_simps Let_def
        accepted_bind if_distrib [of accepted] cong: if_cong)
qed

lemma reader_eqs:
  "SListT_first s l = SList_peekHead s (Some l)" "SListT_last s l = SList_peekTail s (Some l)"
  "SListT_next s a = SList_next s (Some a)" "SListT_find s l a = SList_isInList s (Some l) (Some a)"
  "DListT_first s l = DList_peekHead s (Some l)" "DListT_last s l = DList_peekTail s (Some l)"
  "DListT_next s a = DList_next s (Some a)" "DListT_previous s a = DList_prev s (Some a)"
  "DListT_find s l a = DList_isInList s (Some l) (Some a)"
  by (simp_all add: SListT_first_def SListT_last_def SListT_next_def SListT_find_def DListT_first_def DListT_last_def
      DListT_next_def DListT_previous_def DListT_find_def SList_peekHead_def SList_peekTail_def SList_next_def
      SList_isInList_def DList_peekHead_def DList_peekTail_def DList_next_def DList_prev_def DList_isInList_def item_eqs)

text \<open>
  The search loops agree outside the recursive call; two partial functions with the same
  equation are equal, each being below the other.
\<close>

lemma remove_loop_found:
  "SListT_remove_loop s this item (Some item) q = SList_remove_loop s (Some this) (Some item) (Some item) q"
  by (subst SListT_remove_loop.simps, subst SList_remove_loop.simps) (simp add: item_eqs)

lemma SListT_remove_loop_le:
  assumes "SListT_remove_loop s this item p q = Some r"
  shows "SList_remove_loop s (Some this) (Some item) p q = Some r"
  using assms
proof (induction s this item p q r rule: SListT_remove_loop.raw_induct [rotated, consumes 1, case_names 1])
  case (1 loop s this item p q r)
  show ?case
  proof (cases "p = Some item")
    case True
    then have "SListT_remove_loop s this item p q = Some r"
      using 1(2) by (subst SListT_remove_loop.simps) simp
    with True show ?thesis by (simp add: remove_loop_found)
  next
    case False
    with 1(2) show ?thesis
      by (subst SList_remove_loop.simps)
        (auto simp: SListT_next_def bind_eq_Some_conv intro: 1(1) split: option.splits)
  qed
qed

lemma SListT_remove_loop_ge:
  assumes "SList_remove_loop s list itm p q = Some r" and "list = Some this" and "itm = Some item"
  shows "SListT_remove_loop s this item p q = Some r"
  using assms
proof (induction s list itm p q r rule: SList_remove_loop.raw_induct [rotated, consumes 1, case_names 1])
  case (1 loop s list itm p q r)
  show ?case
  proof (cases "p = Some item")
    case True
    then have "SList_remove_loop s (Some this) (Some item) p q = Some r"
      using 1(2) unfolding 1(3,4) by (subst SList_remove_loop.simps) simp
    with True show ?thesis by (simp add: remove_loop_found)
  next
    case False
    with 1(2-4) show ?thesis
      by (subst SListT_remove_loop.simps)
        (auto simp: SListT_next_def bind_eq_Some_conv intro: 1(1) split: option.splits if_splits)
  qed
qed

lemma SListT_remove_eq: "SListT_remove s this item = SList_remove s (Some this) (Some item)"
proof -
  have "SListT_remove_loop s this item p q = SList_remove_loop s (Some this) (Some item) p q" for p q
    using SListT_remove_loop_le SListT_remove_loop_ge by (metis option.exhaust)
  then show ?thesis
    by (simp add: SListT_remove_def SList_remove_def SListT_first_def item_eqs c_assert_def cong: if_cong)
qed

lemma SListT_getLast_eq: "SListT_getLast s this = SList_getLast s (Some this)"
  by (cases "hdrs s this")
    (simp_all add: SListT_getLast_def SList_getLast_def SListT_remove_eq heap_simps Let_def split: option.split)


text \<open>
  The draining and moving loops.  What a list has given out is free, or the list was damaged and nothing has
  changed: in the second case the C loop never ends and the template stops.
\<close>

lemma slist_refused:
  assumes "SList_get s (Some l) = Some (Some a, s1)" "SList_put s1 (Some d) (Some a) = Some (False, s2)"
  shows "s2 = s"
proof -
  from assms(1) obtain n where "items s1 a = Some n" "containerPtr n = None"
    by (auto simp: SList_get_def Item_markAsFree_def set_item_def Let_def bind_eq_Some_conv split: if_splits option.splits)
  with assms(2) show ?thesis
    by (auto simp: SList_put_def step_simps bind_eq_Some_conv split: if_splits)
qed

lemma dlist_refused:
  assumes "DList_get s (Some l) = Some (Some a, s1)" "DList_put s1 (Some d) (Some a) = Some (False, s2)"
  shows "s2 = s"
proof -
  from assms(1) have "s1 = s \<or> (\<exists>n. items s1 a = Some n \<and> containerPtr n = None)"
    by (auto simp: DList_get_def DList_remove_def Item_markAsFree_def set_item_def [of _ "Some a"] bind_eq_Some_conv
        Let_def split: if_splits option.splits)
  moreover from assms(2) obtain n where "items s1 a = Some n" "containerPtr n \<noteq> None" "s2 = s1"
    by (auto simp: DList_put_def Item_markAsContained_def heap_simps bind_eq_Some_conv split: if_splits)
  ultimately show ?thesis by auto
qed

lemma SListT_clearTheList_eq: "SListT_clearTheList s this = SList_clear s (Some this)"
proof -
  have le: "SListT_clearTheList s this = Some r \<Longrightarrow> SList_drain s (Some this) = Some r" for r
  proof (induction s this r rule: SListT_clearTheList.raw_induct [rotated, consumes 1, case_names 1])
    case (1 loop s this r)
    then show ?case
      by (subst SList_drain.simps) (cases "SList_get s (Some this)"; auto simp: SListT_get_eq split: if_splits)
  qed
  have ge: "SList_drain s l = Some r \<Longrightarrow> l = Some this \<Longrightarrow> SListT_clearTheList s this = Some r" for r l
  proof (induction s l r rule: SList_drain.raw_induct [rotated, consumes 1, case_names 1])
    case (1 loop s l r)
    then show ?case
      by (subst SListT_clearTheList.simps) (cases "SList_get s (Some this)"; auto simp: SListT_get_eq split: if_splits)
  qed
  show ?thesis using le ge [OF _ refl] by (cases "SListT_clearTheList s this"; cases "SList_drain s (Some this)") (auto simp: SList_clear_def)
qed

lemma SListT_move_loop_eq: "SListT_move_loop s this dst = SList_transfer s (Some dst) (Some this)"
proof -
  have le: "SListT_move_loop s this dst = Some r \<Longrightarrow> SList_transfer s (Some dst) (Some this) = Some r" for r
  proof (induction s this dst r rule: SListT_move_loop.raw_induct [rotated, consumes 1, case_names 1])
    case (1 loop s this dst r)
    then show ?case
      by (subst SList_transfer.simps)
        (cases "SList_get s (Some this)";
         auto simp: SListT_get_eq SListT_put_eq bind_eq_Some_conv accepted_def split: prod.splits option.splits bool.splits)
  qed
  have ge: "SList_transfer s d l = Some r \<Longrightarrow> d = Some dst \<Longrightarrow> l = Some this \<Longrightarrow> SListT_move_loop s this dst = Some r" for r d l
  proof (induction s d l r rule: SList_transfer.raw_induct [rotated, consumes 1, case_names 1])
    case (1 loop s d l r)
    from 1(2-4) obtain p s1 where get: "SList_get s (Some this) = Some (p, s1)" by (auto simp: bind_eq_Some_conv)
    show ?case
    proof (cases p)
      case None
      with 1(2-4) get show ?thesis by (subst SListT_move_loop.simps) (simp add: SListT_get_eq)
    next
      case (Some a)
      with 1(2-4) get obtain ok s2 where s2: "SList_put s1 (Some dst) (Some a) = Some (ok, s2)" "loop s2 (Some dst) (Some this) = Some r"
        by (auto simp: bind_eq_Some_conv)
      from 1(1) [OF s2(2) refl refl] have rest: "SListT_move_loop s2 this dst = Some r" .
      show ?thesis
      proof (cases ok)
        case True
        with get Some s2(1) rest show ?thesis
          by (subst SListT_move_loop.simps) (simp add: SListT_get_eq SListT_put_eq)
      next
        case False
        with s2(1) get Some have "s2 = s" by (auto intro: slist_refused)
        with rest show ?thesis by simp
      qed
    qed
  qed
  show ?thesis using le ge [OF _ refl refl]
    by (cases "SListT_move_loop s this dst"; cases "SList_transfer s (Some dst) (Some this)") auto
qed

lemma SListT_move_eq: "SListT_move s this dst = SList_move s (Some dst) (Some this)"
  by (simp add: SListT_move_def SList_move_def SListT_clearTheList_eq SListT_move_loop_eq)

lemma DListT_clearTheList_eq: "DListT_clearTheList s this = DList_clear s (Some this)"
proof -
  have le: "DListT_clearTheList s this = Some r \<Longrightarrow> DList_drain s (Some this) = Some r" for r
  proof (induction s this r rule: DListT_clearTheList.raw_induct [rotated, consumes 1, case_names 1])
    case (1 loop s this r)
    then show ?case
      by (subst DList_drain.simps) (cases "DList_get s (Some this)"; auto simp: DListT_get_eq split: if_splits)
  qed
  have ge: "DList_drain s l = Some r \<Longrightarrow> l = Some this \<Longrightarrow> DListT_clearTheList s this = Some r" for r l
  proof (induction s l r rule: DList_drain.raw_induct [rotated, consumes 1, case_names 1])
    case (1 loop s l r)
    then show ?case
      by (subst DListT_clearTheList.simps) (cases "DList_get s (Some this)"; auto simp: DListT_get_eq split: if_splits)
  qed
  show ?thesis using le ge [OF _ refl] by (cases "DListT_clearTheList s this"; cases "DList_drain s (Some this)") (auto simp: DList_clear_def)
qed

lemma DListT_move_loop_eq: "DListT_move_loop s this dst = DList_transfer s (Some dst) (Some this)"
proof -
  have le: "DListT_move_loop s this dst = Some r \<Longrightarrow> DList_transfer s (Some dst) (Some this) = Some r" for r
  proof (induction s this dst r rule: DListT_move_loop.raw_induct [rotated, consumes 1, case_names 1])
    case (1 loop s this dst r)
    then show ?case
      by (subst DList_transfer.simps)
        (cases "DList_get s (Some this)";
         auto simp: DListT_get_eq DListT_put_eq bind_eq_Some_conv accepted_def split: prod.splits option.splits bool.splits)
  qed
  have ge: "DList_transfer s d l = Some r \<Longrightarrow> d = Some dst \<Longrightarrow> l = Some this \<Longrightarrow> DListT_move_loop s this dst = Some r" for r d l
  proof (induction s d l r rule: DList_transfer.raw_induct [rotated, consumes 1, case_names 1])
    case (1 loop s d l r)
    from 1(2-4) obtain p s1 where get: "DList_get s (Some this) = Some (p, s1)" by (auto simp: bind_eq_Some_conv)
    show ?case
    proof (cases p)
      case None
      with 1(2-4) get show ?thesis by (subst DListT_move_loop.simps) (simp add: DListT_get_eq)
    next
      case (Some a)
      with 1(2-4) get obtain ok s2 where s2: "DList_put s1 (Some dst) (Some a) = Some (ok, s2)" "loop s2 (Some dst) (Some this) = Some r"
        by (auto simp: bind_eq_Some_conv)
      from 1(1) [OF s2(2) refl refl] have rest: "DListT_move_loop s2 this dst = Some r" .
      show ?thesis
      proof (cases ok)
        case True
        with get Some s2(1) rest show ?thesis
          by (subst DListT_move_loop.simps) (simp add: DListT_get_eq DListT_put_eq)
      next
        case False
        with s2(1) get Some have "s2 = s" by (auto intro: dlist_refused)
        with rest show ?thesis by simp
      qed
    qed
  qed
  show ?thesis using le ge [OF _ refl refl]
    by (cases "DListT_move_loop s this dst"; cases "DList_transfer s (Some dst) (Some this)") auto
qed

lemma DListT_move_eq: "DListT_move s this dst = DList_move s (Some dst) (Some this)"
  by (simp add: DListT_move_def DList_move_def DListT_clearTheList_eq DListT_move_loop_eq)

section \<open>Insertion into the middle of a singly linked list\<close>

lemma slist_item:
  assumes "slist_rep s l (us @ a # vs)"
  obtains n where "items s a = Some n" "containerPtr n = Some l" "nextPtr n = first_or vs None"
  using assms slist_alloc [OF assms, of a] by (auto simp: slist_rep_def)

lemma SListT_insertAfter_ok:
  assumes rep: "slist_rep s l (us @ a # vs)" and fr: "free_item s x"
  shows "\<exists>s'. SListT_insertAfter s l a x = Some s' \<and> slist_rep s' l (us @ a # x # vs)"
proof -
  from fr obtain n where n: "items s x = Some n" "containerPtr n = None" by (auto simp: free_item_def)
  have notin: "x \<notin> set (us @ a # vs)" using free_item_notin [OF fr slist_rep_members [OF rep]] .
  obtain na where "items s a = Some na" "containerPtr na = Some l" "nextPtr na = first_or vs None"
    using slist_item [OF rep] .
  with rep n notin show ?thesis
    by (cases vs) (simp add: SListT_insertAfter_def ItemT_insert_free step_simps heap_simps slist_unfold)+
qed

lemma insertBefore_walk:
  assumes "links (items s) (us @ b # vs) None" and "b \<notin> set us"
  shows "SListT_insertBefore_loop s l b x (first_or us (Some b)) q =
         SListT_insertBefore_loop s l b x (Some b) (last_or q us)"
  using assms
proof (induction us arbitrary: q)
  case (Cons u us)
  then obtain n where "items s u = Some n" "nextPtr n = first_or us (Some b)" by auto
  with Cons show ?case
    by (subst SListT_insertBefore_loop.simps) (simp add: SListT_next_def heap_simps)
qed simp

lemma SListT_insertBefore_ok:
  assumes rep: "slist_rep s l (us @ b # vs)" and fr: "free_item s x"
  shows "\<exists>s'. SListT_insertBefore s l b x = Some s' \<and> slist_rep s' l (us @ x # b # vs)"
proof -
  from fr obtain n where n: "items s x = Some n" "containerPtr n = None" by (auto simp: free_item_def)
  have notin: "x \<notin> set (us @ b # vs)" using free_item_notin [OF fr slist_rep_members [OF rep]] .
  let ?s = "s\<lparr>items := (items s)(x \<mapsto> n\<lparr>containerPtr := Some l\<rparr>)\<rparr>"
  have "links (items ?s) (us @ b # vs) None" and dist: "b \<notin> set us"
    using rep notin by (auto simp: slist_rep_def)
  from insertBefore_walk [OF this, of l x None] rep n
  have walk: "SListT_insertBefore s l b x = SListT_insertBefore_loop ?s l b x (Some b) (last_or None us)"
    by (simp add: SListT_insertBefore_def SListT_first_def ItemT_insert_free step_simps heap_simps slist_rep_def)
  show ?thesis
  proof (cases us rule: rev_cases)
    case Nil
    with walk rep n notin show ?thesis
      by (simp add: SListT_insertBefore_loop.simps [of _ _ _ _ "Some b"] heap_simps slist_unfold)
  next
    case (snoc ws z)
    with rep obtain nz where nz: "items s z = Some nz" "containerPtr nz = Some l"
      using slist_alloc [of s l "us @ b # vs" z] by auto
    with snoc walk rep n notin dist show ?thesis
      by (simp add: SListT_insertBefore_loop.simps [of _ _ _ _ "Some b"] heap_simps slist_unfold)
  qed
qed

section \<open>Properties\<close>

text \<open>
  C22. The C++ templates and the C functions are the same lists.  On every store, well formed or not, each operation
  of \<^verbatim>\<open>SList.h\<close> and \<^verbatim>\<open>DList.h\<close> that has a C counterpart produces the same result and the same store, and faults or
  fails to return exactly when it does; the one difference is an item that is already in a container: where the C
  function returns false, the template stops with a fatal error (\<open>accepted\<close>).
\<close>
theorem cxx_lists_agree:
  "SListT_get s l = SList_get s (Some l) \<and>
   SListT_getLast s l = SList_getLast s (Some l) \<and>
   SListT_put s l a = accepted (SList_put s (Some l) (Some a)) \<and>
   SListT_putFirst s l a = accepted (SList_putFirst s (Some l) (Some a)) \<and>
   SListT_remove s l a = SList_remove s (Some l) (Some a) \<and>
   SListT_find s l a = SList_isInList s (Some l) (Some a) \<and>
   SListT_first s l = SList_peekHead s (Some l) \<and>
   SListT_last s l = SList_peekTail s (Some l) \<and>
   SListT_next s a = SList_next s (Some a) \<and>
   SListT_clearTheList s l = SList_clear s (Some l) \<and>
   SListT_move s l d = SList_move s (Some d) (Some l) \<and>
   DListT_get s l = DList_get s (Some l) \<and>
   DListT_getLast s l = DList_getLast s (Some l) \<and>
   DListT_put s l a = accepted (DList_put s (Some l) (Some a)) \<and>
   DListT_putFirst s l a = accepted (DList_putFirst s (Some l) (Some a)) \<and>
   DListT_insertAfter s l b a = accepted (DList_insertAfter s (Some l) (Some b) (Some a)) \<and>
   DListT_insertBefore s l b a = accepted (DList_insertBefore s (Some l) (Some b) (Some a)) \<and>
   DListT_remove s l a = DList_remove s (Some l) (Some a) \<and>
   DListT_find s l a = DList_isInList s (Some l) (Some a) \<and>
   DListT_first s l = DList_peekHead s (Some l) \<and>
   DListT_last s l = DList_peekTail s (Some l) \<and>
   DListT_next s a = DList_next s (Some a) \<and>
   DListT_previous s a = DList_prev s (Some a) \<and>
   DListT_clearTheList s l = DList_clear s (Some l) \<and>
   DListT_move s l d = DList_move s (Some d) (Some l)"
  by (intro conjI)
    (simp_all only: SListT_get_eq SListT_getLast_eq SListT_put_eq SListT_putFirst_eq SListT_remove_eq
      SListT_clearTheList_eq SListT_move_eq DListT_get_eq DListT_getLast_eq DListT_put_eq DListT_putFirst_eq
      DListT_insertAfter_eq DListT_insertBefore_eq DListT_remove_eq DListT_clearTheList_eq DListT_move_eq
      reader_eqs)

text \<open>
  In a well-formed singly linked list of the template, \<open>insertAfter\<close> and \<open>insertBefore\<close> put a
  free item next to a member, at any position, and keep the list well formed; \<open>move\<close>
  terminates, empties its source and leaves its items in the destination, in order.
\<close>
theorem cxx_slist_insert_move:
  assumes "slist_rep s l (us @ a # vs)"
  shows "(\<forall>x. free_item s x \<longrightarrow>
            (\<exists>s'. SListT_insertAfter s l a x = Some s' \<and> slist_rep s' l (us @ a # x # vs)) \<and>
            (\<exists>s'. SListT_insertBefore s l a x = Some s' \<and> slist_rep s' l (us @ x # a # vs))) \<and>
         (\<forall>d ys. slist_rep s d ys \<and> d \<noteq> l \<longrightarrow>
            (\<exists>s'. SListT_move s l d = Some s' \<and> slist_rep s' d (us @ a # vs) \<and> slist_rep s' l []))"
proof (intro conjI allI impI)
  fix d ys assume d: "slist_rep s d ys \<and> d \<noteq> l"
  then show "\<exists>s'. SListT_move s l d = Some s' \<and> slist_rep s' d (us @ a # vs) \<and> slist_rep s' l []"
    using sl.move_ok [of s d ys l "us @ a # vs"] assms
    by (auto simp: SListT_move_eq SList_move_def SList_clear_def)
qed (use SListT_insertAfter_ok SListT_insertBefore_ok assms in blast)+

theorem cxx_slist_insert_move_witness:
  "(\<exists>s'. SListT_insertBefore sample_store 10 2 4 = Some s' \<and> slist_rep s' 10 [1, 4, 2]) \<and>
   (\<exists>s'. SListT_move sample_store 10 11 = Some s' \<and> slist_rep s' 11 [1, 2] \<and> slist_rep s' 10 [])"
proof -
  have rep: "slist_rep sample_store 10 ([1] @ 2 # [])" using sample_slist(1) by simp
  have "free_item sample_store 4" by (simp add: free_item_def sample_store_def)
  with cxx_slist_insert_move [OF rep] sample_slist(2) show ?thesis by fastforce
qed

end
