(* ===== verification/Bounded_Queue.thy ===== *)
theory Bounded_Queue
  imports Prelude
begin

text \<open>
  The contract of a bounded first-in first-out buffer: \<open>enq\<close> is refused exactly when the
  buffer holds its capacity, \<open>deq\<close> finds nothing exactly when it is empty, and neither
  faults.  From it, any sequence of calls behaves as the same calls on a bounded list.
\<close>

datatype 'a queue_op = Enq 'a | Deq

datatype 'a queue_res = Accepted bool | Item "'a option"

fun fifo_op :: "nat \<Rightarrow> 'a list \<Rightarrow> 'a queue_op \<Rightarrow> 'a queue_res \<times> 'a list" where
  "fifo_op cap xs (Enq x) =
     (if length xs < cap then (Accepted True, xs @ [x]) else (Accepted False, xs))"
| "fifo_op cap [] Deq = (Item None, [])"
| "fifo_op cap (x # xs) Deq = (Item (Some x), xs)"

fun fifo_ops :: "nat \<Rightarrow> 'a list \<Rightarrow> 'a queue_op list \<Rightarrow> 'a queue_res list \<times> 'a list" where
  "fifo_ops cap xs [] = ([], xs)"
| "fifo_ops cap xs (c # cs) =
     (let (r, ys) = fifo_op cap xs c; (rs, zs) = fifo_ops cap ys cs in (r # rs, zs))"

fun run_queue_op :: "('q \<Rightarrow> 'a \<Rightarrow> (bool \<times> 'q) option) \<Rightarrow> ('q \<Rightarrow> ('a option \<times> 'q) option) \<Rightarrow>
    'q \<Rightarrow> 'a queue_op \<Rightarrow> ('a queue_res \<times> 'q) option" where
  "run_queue_op enq deq q (Enq x) = map_option (apfst Accepted) (enq q x)"
| "run_queue_op enq deq q Deq = map_option (apfst Item) (deq q)"

fun run_queue_ops :: "('q \<Rightarrow> 'a \<Rightarrow> (bool \<times> 'q) option) \<Rightarrow> ('q \<Rightarrow> ('a option \<times> 'q) option) \<Rightarrow>
    'q \<Rightarrow> 'a queue_op list \<Rightarrow> ('a queue_res list \<times> 'q) option" where
  "run_queue_ops enq deq q [] = Some ([], q)"
| "run_queue_ops enq deq q (c # cs) = do {
     (r, q1) \<leftarrow> run_queue_op enq deq q c;
     (rs, q2) \<leftarrow> run_queue_ops enq deq q1 cs;
     Some (r # rs, q2)
   }"

locale bounded_queue =
  fixes invar :: "'q \<Rightarrow> bool"
    and contents :: "'q \<Rightarrow> 'a list"
    and cap :: "'q \<Rightarrow> nat"
    and enq :: "'q \<Rightarrow> 'a \<Rightarrow> (bool \<times> 'q) option"
    and deq :: "'q \<Rightarrow> ('a option \<times> 'q) option"
  assumes bounded: "invar q \<Longrightarrow> length (contents q) \<le> cap q"
    and enq_full: "invar q \<Longrightarrow> length (contents q) = cap q \<Longrightarrow> enq q x = Some (False, q)"
    and enq_room: "invar q \<Longrightarrow> length (contents q) < cap q \<Longrightarrow>
          \<exists>q'. enq q x = Some (True, q') \<and> invar q' \<and> contents q' = contents q @ [x] \<and> cap q' = cap q"
    and deq_empty: "invar q \<Longrightarrow> contents q = [] \<Longrightarrow> deq q = Some (None, q)"
    and deq_first: "invar q \<Longrightarrow> contents q = x # xs \<Longrightarrow>
          \<exists>q'. deq q = Some (Some x, q') \<and> invar q' \<and> contents q' = xs \<and> cap q' = cap q"
begin

lemma op_refines:
  assumes "invar q"
  shows "\<exists>q'. run_queue_op enq deq q c = Some (fst (fifo_op (cap q) (contents q) c), q') \<and>
           contents q' = snd (fifo_op (cap q) (contents q) c) \<and> invar q' \<and> cap q' = cap q"
proof (cases c)
  case (Enq x)
  then show ?thesis
    using assms bounded [OF assms] enq_full [OF assms, of x] enq_room [OF assms, of x]
    by (cases "length (contents q) < cap q") auto
next
  case Deq
  then show ?thesis
    using assms deq_empty [OF assms] deq_first [OF assms] by (cases "contents q") auto
qed

lemma ops_refine:
  "invar q \<Longrightarrow>
   \<exists>q'. run_queue_ops enq deq q cs = Some (fst (fifo_ops (cap q) (contents q) cs), q') \<and>
        contents q' = snd (fifo_ops (cap q) (contents q) cs) \<and> invar q' \<and> cap q' = cap q"
proof (induction cs arbitrary: q)
  case Nil
  then show ?case by simp
next
  case (Cons c cs)
  from op_refines [OF Cons.prems, of c] obtain q1 where q1:
    "run_queue_op enq deq q c = Some (fst (fifo_op (cap q) (contents q) c), q1)"
    "contents q1 = snd (fifo_op (cap q) (contents q) c)" "invar q1" "cap q1 = cap q" by blast
  from Cons.IH [OF q1(3)] q1 show ?case by (auto simp: split_def Let_def)
qed

end

end
