(* ===== verification/Ring_Buffer.thy ===== *)
theory Ring_Buffer
  imports Bounded_Queue
begin

text \<open>
  The ring buffer template of \<^verbatim>\<open>src/src/Cpl/Container/RingBuffer.h\<close>.  The pointers
  \<open>m_headPtr\<close>, \<open>m_tailPtr\<close> and \<open>m_endOfMemPtr\<close> point into the array \<open>m_elements\<close> and are
  modelled by their index from its start; \<open>m_memoryNumElements\<close> and every count the class
  returns are 32-bit unsigned integers.  Reading or writing outside the array is \<open>None\<close>.

  \<open>ring_list\<close> is the abstraction: the items from the head up to, but without, the tail,
  going round the end of the array.
\<close>

section \<open>State\<close>

record 'a ring =
  m_headPtr :: nat
  m_tailPtr :: nat
  m_memoryNumElements :: u32
  m_elements :: "'a list"

definition m_endOfMemPtr :: "'a ring \<Rightarrow> nat" where
  "m_endOfMemPtr r = unat (m_memoryNumElements r)"

section \<open>Operations\<close>

definition RingBuffer :: "u32 \<Rightarrow> 'a list \<Rightarrow> 'a ring" where
  "RingBuffer maxElements memoryForElements =
     \<lparr>m_headPtr = 0, m_tailPtr = 0, m_memoryNumElements = maxElements, m_elements = memoryForElements\<rparr>"

definition RingBuffer_clearTheBuffer :: "'a ring \<Rightarrow> 'a ring" where
  "RingBuffer_clearTheBuffer r = r\<lparr>m_headPtr := 0, m_tailPtr := 0\<rparr>"

definition RingBuffer_isEmpty :: "'a ring \<Rightarrow> bool" where
  "RingBuffer_isEmpty r \<longleftrightarrow> m_headPtr r = m_tailPtr r"

definition RingBuffer_isFull :: "'a ring \<Rightarrow> bool" where
  "RingBuffer_isFull r =
     (let nextElem = m_tailPtr r + 1;
          nextElem = (if nextElem \<ge> m_endOfMemPtr r then 0 else nextElem)
      in nextElem = m_headPtr r)"

definition RingBuffer_getNumItems :: "'a ring \<Rightarrow> u32" where
  "RingBuffer_getNumItems r =
     (let headIdx = word_of_nat (m_headPtr r);
          tailIdx = word_of_nat (m_tailPtr r);
          tailIdx = (if tailIdx < headIdx then tailIdx + m_memoryNumElements r else tailIdx)
      in tailIdx - headIdx)"

definition RingBuffer_getMaxItems :: "'a ring \<Rightarrow> u32" where
  "RingBuffer_getMaxItems r = m_memoryNumElements r - 1"

definition RingBuffer_add :: "'a ring \<Rightarrow> 'a \<Rightarrow> (bool \<times> 'a ring) option" where
  "RingBuffer_add r item =
     (if RingBuffer_isFull r then Some (False, r)
      else do {
        c_assert (m_tailPtr r < length (m_elements r));
        let r1 = r\<lparr>m_elements := (m_elements r)[m_tailPtr r := item]\<rparr>;
        let r2 = r1\<lparr>m_tailPtr := m_tailPtr r1 + 1\<rparr>;
        let r3 = (if m_tailPtr r2 \<ge> m_endOfMemPtr r2 then r2\<lparr>m_tailPtr := 0\<rparr> else r2);
        Some (True, r3)
      })"

definition RingBuffer_remove :: "'a ring \<Rightarrow> ('a option \<times> 'a ring) option" where
  "RingBuffer_remove r =
     (if RingBuffer_isEmpty r then Some (None, r)
      else do {
        c_assert (m_headPtr r < length (m_elements r));
        let dst = m_elements r ! m_headPtr r;
        let r1 = r\<lparr>m_headPtr := m_headPtr r + 1\<rparr>;
        let r2 = (if m_headPtr r1 \<ge> m_endOfMemPtr r1 then r1\<lparr>m_headPtr := 0\<rparr> else r1);
        Some (Some dst, r2)
      })"

text \<open>The out-argument of \<open>peekNextRemoveItems\<close> keeps its value when the buffer is empty.\<close>

definition RingBuffer_peekNextRemoveItems :: "'a ring \<Rightarrow> u32 \<Rightarrow> nat option \<times> u32" where
  "RingBuffer_peekNextRemoveItems r dstNumFlatElements =
     (if RingBuffer_isEmpty r then (None, dstNumFlatElements)
      else let totalNumElements = RingBuffer_getNumItems r;
               flat = word_of_nat (m_endOfMemPtr r - m_headPtr r);
               flat = (if flat > totalNumElements then totalNumElements else flat)
           in (Some (m_headPtr r), flat))"

definition RingBuffer_removeElements :: "'a ring \<Rightarrow> u32 \<Rightarrow> 'a ring" where
  "RingBuffer_removeElements r numElementsToRemove =
     (let r1 = r\<lparr>m_headPtr := m_headPtr r + unat numElementsToRemove\<rparr>
      in if m_headPtr r1 \<ge> m_endOfMemPtr r1 then r1\<lparr>m_headPtr := 0\<rparr> else r1)"

definition RingBuffer_peekNextAddItems :: "'a ring \<Rightarrow> nat option \<times> u32" where
  "RingBuffer_peekNextAddItems r =
     (if RingBuffer_isFull r then (None, 0)
      else let totalAvailElements = RingBuffer_getMaxItems r - RingBuffer_getNumItems r;
               flat = word_of_nat (m_endOfMemPtr r - m_tailPtr r);
               flat = (if flat > totalAvailElements then totalAvailElements else flat)
           in (Some (m_tailPtr r), flat))"

definition RingBuffer_addElements :: "'a ring \<Rightarrow> u32 \<Rightarrow> 'a ring" where
  "RingBuffer_addElements r numElementsAdded =
     (let r1 = r\<lparr>m_tailPtr := m_tailPtr r + unat numElementsAdded\<rparr>
      in if m_tailPtr r1 \<ge> m_endOfMemPtr r1 then r1\<lparr>m_tailPtr := 0\<rparr> else r1)"

definition RingBuffer_peekHead :: "'a ring \<Rightarrow> nat option" where
  "RingBuffer_peekHead r = (if RingBuffer_isEmpty r then None else Some (m_headPtr r))"

definition RingBuffer_peekTail :: "'a ring \<Rightarrow> nat option" where
  "RingBuffer_peekTail r =
     (if RingBuffer_isEmpty r then None
      else let prevElem = int (m_tailPtr r) - 1;
               prevElem = (if prevElem < 0 then int (m_endOfMemPtr r) - 1 else prevElem)
           in Some (nat prevElem))"

section \<open>Invariant and abstraction\<close>

definition ring_inv :: "'a ring \<Rightarrow> bool" where
  "ring_inv r \<longleftrightarrow>
     length (m_elements r) = m_endOfMemPtr r \<and>
     m_headPtr r < m_endOfMemPtr r \<and> m_tailPtr r < m_endOfMemPtr r"

definition ring_list :: "'a ring \<Rightarrow> 'a list" where
  "ring_list r =
     (if m_headPtr r \<le> m_tailPtr r
      then take (m_tailPtr r - m_headPtr r) (drop (m_headPtr r) (m_elements r))
      else drop (m_headPtr r) (m_elements r) @ take (m_tailPtr r) (m_elements r))"

text \<open>The capacity: one slot of the array always stays unused.\<close>

definition ring_cap :: "'a ring \<Rightarrow> nat" where
  "ring_cap r = m_endOfMemPtr r - 1"

lemmas ring_defs = RingBuffer_def RingBuffer_clearTheBuffer_def RingBuffer_isEmpty_def RingBuffer_isFull_def RingBuffer_add_def RingBuffer_remove_def
  RingBuffer_removeElements_def RingBuffer_addElements_def

lemma ring_inv_RingBuffer:
  "0 < n \<Longrightarrow> length mem = unat n \<Longrightarrow> ring_inv (RingBuffer n mem) \<and> ring_list (RingBuffer n mem) = []"
  by (simp add: ring_inv_def RingBuffer_def m_endOfMemPtr_def ring_list_def unat_gt_0 word_neq_0_conv)

lemma ring_inv_clear: "ring_inv r \<Longrightarrow> ring_inv (RingBuffer_clearTheBuffer r) \<and> ring_list (RingBuffer_clearTheBuffer r) = []"
  by (auto simp: ring_inv_def RingBuffer_clearTheBuffer_def m_endOfMemPtr_def ring_list_def)

lemma length_ring_list:
  "ring_inv r \<Longrightarrow> length (ring_list r) =
     (if m_headPtr r \<le> m_tailPtr r then m_tailPtr r - m_headPtr r
      else m_endOfMemPtr r - m_headPtr r + m_tailPtr r)"
  by (auto simp: ring_inv_def ring_list_def)

lemma length_ring_list_le: "ring_inv r \<Longrightarrow> length (ring_list r) \<le> ring_cap r"
  by (auto simp: length_ring_list ring_cap_def ring_inv_def)

lemma RingBuffer_isEmpty_iff: "ring_inv r \<Longrightarrow> RingBuffer_isEmpty r \<longleftrightarrow> ring_list r = []"
  by (auto simp: RingBuffer_isEmpty_def ring_list_def ring_inv_def)

lemma RingBuffer_isFull_iff: "ring_inv r \<Longrightarrow> RingBuffer_isFull r \<longleftrightarrow> length (ring_list r) = ring_cap r"
  by (auto simp: RingBuffer_isFull_def length_ring_list ring_cap_def ring_inv_def)

lemma RingBuffer_add_full: "ring_inv r \<Longrightarrow> length (ring_list r) = ring_cap r \<Longrightarrow>
   RingBuffer_add r x = Some (False, r)"
  by (simp add: RingBuffer_add_def RingBuffer_isFull_iff)

lemma RingBuffer_add_room:
  assumes inv: "ring_inv r" and room: "length (ring_list r) < ring_cap r"
  shows "\<exists>r'. RingBuffer_add r x = Some (True, r') \<and> ring_inv r' \<and>
              ring_list r' = ring_list r @ [x] \<and> ring_cap r' = ring_cap r"
proof -
  let ?h = "m_headPtr r" and ?t = "m_tailPtr r" and ?n = "m_endOfMemPtr r" and ?m = "m_elements r"
  let ?r = "r\<lparr>m_elements := ?m[?t := x], m_tailPtr := (if ?t + 1 \<ge> ?n then 0 else ?t + 1)\<rparr>"
  from inv have b: "length ?m = ?n" "?h < ?n" "?t < ?n" by (auto simp: ring_inv_def)
  have full: "\<not> RingBuffer_isFull r" using inv room by (simp add: RingBuffer_isFull_iff)
  have "RingBuffer_add r x = Some (True, ?r)"
    using full b by (simp add: RingBuffer_add_def Let_def m_endOfMemPtr_def)
  moreover have "ring_inv ?r" using b by (simp add: ring_inv_def m_endOfMemPtr_def)
  moreover have "ring_list ?r = ring_list r @ [x]"
  proof (cases "?h \<le> ?t")
    case True
    have "take (Suc ?t - ?h) (drop ?h (?m[?t := x])) = take (?t - ?h) (drop ?h ?m) @ [x]"
      using True b by (simp add: Suc_diff_le take_Suc_conv_app_nth drop_update_swap)
    moreover from this b True have "?t + 1 \<ge> ?n \<Longrightarrow> drop ?h (?m[?t := x]) = take (?t - ?h) (drop ?h ?m) @ [x]"
      by (metis Suc_eq_plus1 diff_le_mono length_drop length_list_update take_all)
    ultimately show ?thesis using True full b
      by (auto simp: ring_list_def RingBuffer_isFull_def)
  next
    case False
    with full b have "Suc ?t < ?h" "?t + 1 < ?n" by (auto simp: RingBuffer_isFull_def)
    with False b show ?thesis
      by (simp add: ring_list_def drop_update_cancel take_Suc_conv_app_nth)
  qed
  moreover have "ring_cap ?r = ring_cap r" by (simp add: ring_cap_def m_endOfMemPtr_def)
  ultimately show ?thesis by blast
qed

lemma RingBuffer_remove_empty: "ring_inv r \<Longrightarrow> ring_list r = [] \<Longrightarrow> RingBuffer_remove r = Some (None, r)"
  by (simp add: RingBuffer_remove_def RingBuffer_isEmpty_iff)

lemma RingBuffer_remove_first:
  assumes inv: "ring_inv r" and xs: "ring_list r = x # xs"
  shows "\<exists>r'. RingBuffer_remove r = Some (Some x, r') \<and> ring_inv r' \<and> ring_list r' = xs \<and>
              ring_cap r' = ring_cap r"
proof -
  let ?h = "m_headPtr r" and ?t = "m_tailPtr r" and ?n = "m_endOfMemPtr r" and ?m = "m_elements r"
  let ?r = "r\<lparr>m_headPtr := (if ?h + 1 \<ge> ?n then 0 else ?h + 1)\<rparr>"
  from inv have b: "length ?m = ?n" "?h < ?n" "?t < ?n" by (auto simp: ring_inv_def)
  have ne: "?h \<noteq> ?t" using RingBuffer_isEmpty_iff [OF inv] xs by (auto simp: RingBuffer_isEmpty_def)
  have split: "drop ?h ?m = ?m ! ?h # drop (Suc ?h) ?m" using b by (simp add: Cons_nth_drop_Suc)
  have parts: "?m ! ?h = x \<and> ring_list ?r = xs"
  proof (cases "?h \<le> ?t")
    case True
    with ne have "?h < ?t" by simp
    then obtain k where k: "?t - ?h = Suc k" "k = ?t - Suc ?h" by (metis Suc_diff_Suc)
    with True b \<open>?h < ?t\<close> xs show ?thesis by (auto simp: ring_list_def split)
  next
    case False
    with b xs show ?thesis by (auto simp: ring_list_def split)
  qed
  moreover have "RingBuffer_remove r = Some (Some (?m ! ?h), ?r)"
    using ne b by (simp add: RingBuffer_remove_def RingBuffer_isEmpty_def Let_def m_endOfMemPtr_def)
  moreover have "ring_inv ?r" using b by (simp add: ring_inv_def m_endOfMemPtr_def)
  moreover have "ring_cap ?r = ring_cap r" by (simp add: ring_cap_def m_endOfMemPtr_def)
  ultimately show ?thesis by blast
qed

section \<open>Counts\<close>

lemma RingBuffer_getNumItems_ok:
  assumes "ring_inv r"
  shows "unat (RingBuffer_getNumItems r) = length (ring_list r)"
proof -
  let ?h = "m_headPtr r" and ?t = "m_tailPtr r" and ?n = "unat (m_memoryNumElements r)"
  from assms have b: "?h < ?n" "?t < ?n" by (auto simp: ring_inv_def m_endOfMemPtr_def)
  have u: "unat (word_of_nat ?h :: u32) = ?h" "unat (word_of_nat ?t :: u32) = ?t"
    using b by (simp_all add: unat_of_nat_below [of _ "m_memoryNumElements r"])
  have less: "(word_of_nat ?t :: u32) < word_of_nat ?h \<longleftrightarrow> ?t < ?h"
    by (simp add: word_less_nat_alt u)
  show ?thesis
  proof (cases "?t < ?h")
    case True
    then have "word_of_nat ?t + m_memoryNumElements r - word_of_nat ?h = (word_of_nat (?t + ?n - ?h) :: u32)"
      using b by (simp add: of_nat_diff)
    moreover have "unat (word_of_nat (?t + ?n - ?h) :: u32) = ?t + ?n - ?h"
      by (rule unat_of_nat_below [of _ "m_memoryNumElements r"]) (use True b in simp)
    ultimately show ?thesis
      using True b assms by (simp add: RingBuffer_getNumItems_def less length_ring_list m_endOfMemPtr_def)
  next
    case False
    then have "word_of_nat ?t - word_of_nat ?h = (word_of_nat (?t - ?h) :: u32)"
      by (simp add: of_nat_diff)
    moreover have "unat (word_of_nat (?t - ?h) :: u32) = ?t - ?h"
      by (rule unat_of_nat_below [of _ "m_memoryNumElements r"]) (use b in simp)
    ultimately show ?thesis
      using False assms by (simp add: RingBuffer_getNumItems_def less length_ring_list)
  qed
qed

lemma RingBuffer_getMaxItems_ok:
  assumes "ring_inv r"
  shows "unat (RingBuffer_getMaxItems r) = ring_cap r"
proof -
  have "m_memoryNumElements r \<noteq> 0" using assms by (auto simp: ring_inv_def m_endOfMemPtr_def)
  then show ?thesis
    by (simp add: RingBuffer_getMaxItems_def ring_cap_def m_endOfMemPtr_def unat_minus_one)
qed

section \<open>Block access\<close>

text \<open>
  \<open>ring_poke r ys\<close> is the client writing \<open>ys\<close> through the pointer \<open>peekNextAddItems\<close>
  returned, before it calls \<open>addElements\<close>.
\<close>

definition ring_poke :: "'a ring \<Rightarrow> 'a list \<Rightarrow> 'a ring" where
  "ring_poke r ys = r\<lparr>m_elements := take (m_tailPtr r) (m_elements r) @ ys @
     drop (m_tailPtr r + length ys) (m_elements r)\<rparr>"

lemma peekNextAddItems_room:
  assumes inv: "ring_inv r" and p: "RingBuffer_peekNextAddItems r = (Some i, flat)"
  shows "i = m_tailPtr r" and "m_tailPtr r + unat flat \<le> m_endOfMemPtr r"
    and "length (ring_list r) + unat flat \<le> ring_cap r" and "0 < unat flat"
proof -
  let ?avail = "RingBuffer_getMaxItems r - RingBuffer_getNumItems r"
  let ?room = "word_of_nat (m_endOfMemPtr r - m_tailPtr r) :: u32"
  from p have i: "i = m_tailPtr r" and flat: "flat = (if ?room > ?avail then ?avail else ?room)"
    and nf: "\<not> RingBuffer_isFull r"
    by (auto simp: RingBuffer_peekNextAddItems_def Let_def split: if_splits)
  show "i = m_tailPtr r" by (rule i)
  have le: "length (ring_list r) \<le> ring_cap r" using inv by (rule length_ring_list_le)
  have avail: "unat ?avail = ring_cap r - length (ring_list r)"
    using inv le RingBuffer_getNumItems_ok RingBuffer_getMaxItems_ok
    by (metis unat_sub word_le_nat_alt)
  have room: "unat ?room = m_endOfMemPtr r - m_tailPtr r"
    unfolding m_endOfMemPtr_def by (rule unat_of_nat_below [of _ "m_memoryNumElements r"]) simp
  have eq: "unat flat = min (ring_cap r - length (ring_list r)) (m_endOfMemPtr r - m_tailPtr r)"
    by (simp add: flat word_less_nat_alt avail room min_def)
  show "m_tailPtr r + unat flat \<le> m_endOfMemPtr r"
    using inv by (auto simp: eq ring_inv_def)
  show "length (ring_list r) + unat flat \<le> ring_cap r"
    using le by (simp add: eq)
  show "0 < unat flat"
    using nf le inv RingBuffer_isFull_iff [OF inv] by (auto simp: eq ring_inv_def)
qed

lemma addElements_appends:
  assumes inv: "ring_inv r" and tl: "m_tailPtr r + length ys \<le> m_endOfMemPtr r"
    and room: "length (ring_list r) + length ys \<le> ring_cap r"
  shows "let r' = RingBuffer_addElements (ring_poke r ys) (word_of_nat (length ys))
         in ring_inv r' \<and> ring_list r' = ring_list r @ ys"
proof -
  let ?h = "m_headPtr r" and ?t = "m_tailPtr r" and ?n = "m_endOfMemPtr r" and ?m = "m_elements r"
  let ?m' = "take ?t ?m @ ys @ drop (?t + length ys) ?m"
  let ?r = "r\<lparr>m_elements := ?m', m_tailPtr := (if ?t + length ys \<ge> ?n then 0 else ?t + length ys)\<rparr>"
  from inv have b: "length ?m = ?n" "?h < ?n" "?t < ?n" by (auto simp: ring_inv_def)
  have len: "unat (word_of_nat (length ys) :: u32) = length ys"
    by (rule unat_of_nat_below [of _ "m_memoryNumElements r"]) (use tl in \<open>simp add: m_endOfMemPtr_def\<close>)
  have r: "RingBuffer_addElements (ring_poke r ys) (word_of_nat (length ys)) = ?r"
    by (simp add: RingBuffer_addElements_def ring_poke_def len Let_def m_endOfMemPtr_def)
  have "ring_inv ?r" using b tl by (auto simp: ring_inv_def m_endOfMemPtr_def)
  moreover have "ring_list ?r = ring_list r @ ys"
  proof (cases "?h \<le> ?t")
    case True
    have h: "?t + length ys \<ge> ?n \<Longrightarrow> 0 < ?h"
      using room True b inv by (auto simp: length_ring_list ring_cap_def)
    have "drop ?h ?m' = take (?t - ?h) (drop ?h ?m) @ ys @ drop (?t + length ys) ?m"
      using True b by (simp add: drop_take)
    moreover have "length (take (?t - ?h) (drop ?h ?m)) = ?t - ?h" using True b by simp
    ultimately show ?thesis using True h b tl
      by (auto simp: ring_list_def)
  next
    case False
    then have lt: "?t + length ys < ?h" using room b inv by (simp add: length_ring_list ring_cap_def)
    have "drop ?h ?m' = drop ?h ?m" using lt b by simp
    with False lt b show ?thesis by (simp add: ring_list_def)
  qed
  ultimately show ?thesis by (simp add: r Let_def)
qed

lemma peekNextRemoveItems_room:
  assumes inv: "ring_inv r" and p: "RingBuffer_peekNextRemoveItems r d = (Some i, flat)"
  shows "i = m_headPtr r" and "m_headPtr r + unat flat \<le> m_endOfMemPtr r"
    and "unat flat \<le> length (ring_list r)"
proof -
  let ?num = "RingBuffer_getNumItems r" and ?room = "word_of_nat (m_endOfMemPtr r - m_headPtr r) :: u32"
  from p have i: "i = m_headPtr r" and flat: "flat = (if ?room > ?num then ?num else ?room)"
    by (auto simp: RingBuffer_peekNextRemoveItems_def Let_def split: if_splits)
  show "i = m_headPtr r" by (rule i)
  have room: "unat ?room = m_endOfMemPtr r - m_headPtr r"
    unfolding m_endOfMemPtr_def by (rule unat_of_nat_below [of _ "m_memoryNumElements r"]) simp
  have eq: "unat flat = min (length (ring_list r)) (m_endOfMemPtr r - m_headPtr r)"
    using inv by (simp add: flat word_less_nat_alt RingBuffer_getNumItems_ok room min_def)
  show "m_headPtr r + unat flat \<le> m_endOfMemPtr r" and "unat flat \<le> length (ring_list r)"
    using inv by (auto simp: eq ring_inv_def)
qed

lemma removeElements_drops:
  assumes inv: "ring_inv r" and hd: "m_headPtr r + unat k \<le> m_endOfMemPtr r"
    and room: "unat k \<le> length (ring_list r)"
  shows "ring_inv (RingBuffer_removeElements r k) \<and>
         ring_list (RingBuffer_removeElements r k) = drop (unat k) (ring_list r) \<and>
         take (unat k) (ring_list r) = take (unat k) (drop (m_headPtr r) (m_elements r))"
proof -
  let ?h = "m_headPtr r" and ?t = "m_tailPtr r" and ?n = "m_endOfMemPtr r" and ?m = "m_elements r"
  let ?r = "r\<lparr>m_headPtr := (if ?h + unat k \<ge> ?n then 0 else ?h + unat k)\<rparr>"
  from inv have b: "length ?m = ?n" "?h < ?n" "?t < ?n" by (auto simp: ring_inv_def)
  have r: "RingBuffer_removeElements r k = ?r"
    by (simp add: RingBuffer_removeElements_def Let_def m_endOfMemPtr_def)
  have "ring_inv ?r" using b hd by (simp add: ring_inv_def m_endOfMemPtr_def)
  moreover have "ring_list ?r = drop (unat k) (ring_list r) \<and>
      take (unat k) (ring_list r) = take (unat k) (drop ?h ?m)"
    using b hd room inv
    by (cases "?h \<le> ?t") (auto simp: ring_list_def length_ring_list drop_take min_def add.commute
        split: if_splits)
  ultimately show ?thesis by (simp add: r)
qed

section \<open>The ring buffer is a bounded queue\<close>

interpretation rb: bounded_queue ring_inv ring_list ring_cap RingBuffer_add RingBuffer_remove
proof (unfold_locales, goal_cases)
  case (1 q)
  then show ?case by (rule length_ring_list_le)
next
  case (2 q x)
  then show ?case by (rule RingBuffer_add_full)
next
  case (3 q x)
  then show ?case by (rule RingBuffer_add_room)
next
  case (4 q)
  then show ?case by (rule RingBuffer_remove_empty)
next
  case (5 q x xs)
  then show ?case by (rule RingBuffer_remove_first)
qed

section \<open>Properties\<close>

text \<open>
  C17.  A ring buffer over an array of \<open>n\<close> elements is a first-in first-out queue of capacity
  \<open>n - 1\<close>: after any sequence of \<open>add\<close> and \<open>remove\<close> calls from the constructor on, no call
  has read or written outside the array, every call has returned what the bounded queue
  returns, and \<open>getNumItems\<close> and \<open>isFull\<close> agree with the queue's length.
\<close>

theorem ring_buffer_fifo:
  assumes "0 < n" and "length mem = unat n"
  shows "\<exists>r. run_queue_ops RingBuffer_add RingBuffer_remove (RingBuffer n mem) cs =
               Some (fst (fifo_ops (unat n - 1) [] cs), r) \<and>
             ring_list r = snd (fifo_ops (unat n - 1) [] cs) \<and>
             unat (RingBuffer_getNumItems r) = length (ring_list r) \<and>
             (RingBuffer_isFull r \<longleftrightarrow> length (ring_list r) = unat n - 1)"
proof -
  have init: "ring_inv (RingBuffer n mem)" "ring_list (RingBuffer n mem) = []"
    "ring_cap (RingBuffer n mem) = unat n - 1"
    using ring_inv_RingBuffer [OF assms] by (auto simp: ring_cap_def m_endOfMemPtr_def RingBuffer_def)
  with rb.ops_refine [OF init(1), of cs] show ?thesis
    using RingBuffer_getNumItems_ok RingBuffer_isFull_iff by fastforce
qed

theorem ring_buffer_fifo_witness:
  "\<exists>r. run_queue_ops RingBuffer_add RingBuffer_remove (RingBuffer 3 [0, 0, 0])
          [Enq (7::nat), Enq 8, Enq 9, Deq, Enq 9, Deq] =
         Some ([Accepted True, Accepted True, Accepted False, Item (Some 7), Accepted True, Item (Some 8)], r) \<and>
       ring_list r = [9] \<and> unat (RingBuffer_getNumItems r) = length (ring_list r) \<and>
       (RingBuffer_isFull r \<longleftrightarrow> length (ring_list r) = 2)"
  using ring_buffer_fifo [of 3 "[0, 0, 0 :: nat]" "[Enq 7, Enq 8, Enq 9, Deq, Enq 9, Deq]"]
  by (simp del: One_nat_def)

text \<open>
  C18.  The block interface moves data without loss.  Whatever a client writes through the
  pointer of \<open>peekNextAddItems\<close>, up to the returned number of elements, is appended in order
  by \<open>addElements\<close>; the elements a client reads through the pointer of
  \<open>peekNextRemoveItems\<close> are the oldest ones, and \<open>removeElements\<close> drops exactly them.  Both
  keep the invariant, and the returned blocks lie inside the array.
\<close>

theorem ring_buffer_blocks:
  assumes "ring_inv r"
  shows "(\<forall>i flat ys. RingBuffer_peekNextAddItems r = (Some i, flat) \<longrightarrow> length ys \<le> unat flat \<longrightarrow>
           i + length ys \<le> length (m_elements r) \<and>
           ring_inv (RingBuffer_addElements (ring_poke r ys) (word_of_nat (length ys))) \<and>
           ring_list (RingBuffer_addElements (ring_poke r ys) (word_of_nat (length ys))) = ring_list r @ ys)
       \<and> (\<forall>j flat d k. RingBuffer_peekNextRemoveItems r d = (Some j, flat) \<longrightarrow> k \<le> flat \<longrightarrow>
           j + unat k \<le> length (m_elements r) \<and>
           take (unat k) (drop j (m_elements r)) = take (unat k) (ring_list r) \<and>
           ring_inv (RingBuffer_removeElements r k) \<and>
           ring_list (RingBuffer_removeElements r k) = drop (unat k) (ring_list r))"
proof (intro conjI allI impI)
  fix i flat and ys :: "'a list"
  assume p: "RingBuffer_peekNextAddItems r = (Some i, flat)" and l: "length ys \<le> unat flat"
  note room = peekNextAddItems_room [OF assms p]
  from room l have fit: "m_tailPtr r + length ys \<le> m_endOfMemPtr r"
    "length (ring_list r) + length ys \<le> ring_cap r" by linarith+
  show "i + length ys \<le> length (m_elements r)" using fit room(1) assms by (simp add: ring_inv_def)
  show "ring_inv (RingBuffer_addElements (ring_poke r ys) (word_of_nat (length ys)))"
    and "ring_list (RingBuffer_addElements (ring_poke r ys) (word_of_nat (length ys))) = ring_list r @ ys"
    using addElements_appends [OF assms fit] by (simp_all add: Let_def)
next
  fix j flat d k
  assume p: "RingBuffer_peekNextRemoveItems r d = (Some j, flat)" and l: "k \<le> flat"
  note room = peekNextRemoveItems_room [OF assms p]
  from l have "unat k \<le> unat flat" by (simp add: word_le_nat_alt)
  with room have fit: "m_headPtr r + unat k \<le> m_endOfMemPtr r" "unat k \<le> length (ring_list r)"
    by linarith+
  show "j + unat k \<le> length (m_elements r)" using fit room(1) assms by (simp add: ring_inv_def)
  show "take (unat k) (drop j (m_elements r)) = take (unat k) (ring_list r)"
    and "ring_inv (RingBuffer_removeElements r k)"
    and "ring_list (RingBuffer_removeElements r k) = drop (unat k) (ring_list r)"
    using removeElements_drops [OF assms fit] room(1) by simp_all
qed

text \<open>A full wrap: head at 2 in an array of 4, one item stored, room for one element up to the end.\<close>

theorem ring_buffer_blocks_witness:
  "let r = \<lparr>m_headPtr = 2, m_tailPtr = 3, m_memoryNumElements = 4, m_elements = [0, 0, 5, 0 :: nat]\<rparr>
   in RingBuffer_peekNextAddItems r = (Some 3, 1) \<and>
      ring_list (RingBuffer_addElements (ring_poke r [6]) 1) = [5, 6] \<and>
      ring_inv (RingBuffer_removeElements r 1)"
proof -
  let ?r = "\<lparr>m_headPtr = 2, m_tailPtr = 3, m_memoryNumElements = 4, m_elements = [0, 0, 5, 0 :: nat]\<rparr>"
  have inv: "ring_inv ?r" by (simp add: ring_inv_def m_endOfMemPtr_def)
  have add: "RingBuffer_peekNextAddItems ?r = (Some 3, 1)"
    by (simp add: RingBuffer_peekNextAddItems_def RingBuffer_isFull_def RingBuffer_getNumItems_def
        RingBuffer_getMaxItems_def m_endOfMemPtr_def)
  have rem: "RingBuffer_peekNextRemoveItems ?r 0 = (Some 2, 1)"
    by (simp add: RingBuffer_peekNextRemoveItems_def RingBuffer_isEmpty_def RingBuffer_getNumItems_def
        m_endOfMemPtr_def)
  have list: "ring_list ?r = [5]" by (simp add: ring_list_def)
  have "ring_list (RingBuffer_addElements (ring_poke ?r [6]) (word_of_nat (length [6 :: nat]))) = [5, 6]"
    using conjunct1 [OF ring_buffer_blocks [OF inv], rule_format, OF add, of "[6]"] list by simp
  moreover have "ring_inv (RingBuffer_removeElements ?r 1)"
    using conjunct2 [OF ring_buffer_blocks [OF inv], rule_format, OF rem, of 1] by simp
  ultimately show ?thesis using add by (simp add: Let_def)
qed

end
