(* ===== verification/Ring_Concurrency.thy ===== *)
theory Ring_Concurrency
  imports Ring_Buffer "HOL-Library.Sublist"
begin

text \<open>
  The thread and interrupt safety note of \<^verbatim>\<open>src/src/Cpl/Container/RingBuffer.h\<close>: one producer
  calls \<open>add\<close> and one consumer calls \<open>remove\<close> without a lock.  Each call is cut into the
  memory accesses the source makes, and the accesses of the two sides interleave freely.

  The source advances a pointer with two assignments: \<open>++m_tailPtr\<close>, and then
  \<open>m_tailPtr = m_elements\<close> when the end is reached.  A compiler may keep the intermediate
  value in a register or store it.  The step relation takes this as a parameter: with
  \<open>coalesced\<close> the advance reaches memory as one store, without it as two.
\<close>

section \<open>Steps\<close>

datatype 'a producer_pc = P_idle | P_store 'a | P_inc 'a | P_wrap

datatype 'a consumer_pc = C_idle | C_load | C_inc 'a | C_wrap

text \<open>\<open>sent\<close> and \<open>received\<close> record the items published by the producer and taken by the consumer.\<close>

record 'a spsc =
  ring_of :: "'a ring"
  ppc :: "'a producer_pc"
  cpc :: "'a consumer_pc"
  sent :: "'a list"
  received :: "'a list"

definition advance :: "'a ring \<Rightarrow> nat \<Rightarrow> nat" where
  "advance r i = (if i + 1 \<ge> m_endOfMemPtr r then 0 else i + 1)"

inductive spsc_step :: "bool \<Rightarrow> 'a spsc \<Rightarrow> 'a spsc \<Rightarrow> bool" for coalesced where
  p_check: "ppc s = P_idle \<Longrightarrow> \<not> RingBuffer_isFull (ring_of s) \<Longrightarrow>
     spsc_step coalesced s (s\<lparr>ppc := P_store x\<rparr>)"
| p_store: "ppc s = P_store x \<Longrightarrow> r = ring_of s \<Longrightarrow> m_tailPtr r < length (m_elements r) \<Longrightarrow>
     spsc_step coalesced s
       (s\<lparr>ring_of := r\<lparr>m_elements := (m_elements r)[m_tailPtr r := x]\<rparr>, ppc := P_inc x\<rparr>)"
| p_advance: "coalesced \<Longrightarrow> ppc s = P_inc x \<Longrightarrow> r = ring_of s \<Longrightarrow>
     spsc_step coalesced s
       (s\<lparr>ring_of := r\<lparr>m_tailPtr := advance r (m_tailPtr r)\<rparr>, ppc := P_idle, sent := sent s @ [x]\<rparr>)"
| p_inc: "\<not> coalesced \<Longrightarrow> ppc s = P_inc x \<Longrightarrow> r = ring_of s \<Longrightarrow>
     spsc_step coalesced s
       (s\<lparr>ring_of := r\<lparr>m_tailPtr := m_tailPtr r + 1\<rparr>, ppc := P_wrap, sent := sent s @ [x]\<rparr>)"
| p_wrap: "ppc s = P_wrap \<Longrightarrow> r = ring_of s \<Longrightarrow>
     spsc_step coalesced s
       (s\<lparr>ring_of := (if m_tailPtr r \<ge> m_endOfMemPtr r then r\<lparr>m_tailPtr := 0\<rparr> else r), ppc := P_idle\<rparr>)"
| c_check: "cpc s = C_idle \<Longrightarrow> \<not> RingBuffer_isEmpty (ring_of s) \<Longrightarrow>
     spsc_step coalesced s (s\<lparr>cpc := C_load\<rparr>)"
| c_load: "cpc s = C_load \<Longrightarrow> r = ring_of s \<Longrightarrow> m_headPtr r < length (m_elements r) \<Longrightarrow>
     spsc_step coalesced s (s\<lparr>cpc := C_inc (m_elements r ! m_headPtr r)\<rparr>)"
| c_advance: "coalesced \<Longrightarrow> cpc s = C_inc x \<Longrightarrow> r = ring_of s \<Longrightarrow>
     spsc_step coalesced s
       (s\<lparr>ring_of := r\<lparr>m_headPtr := advance r (m_headPtr r)\<rparr>, cpc := C_idle, received := received s @ [x]\<rparr>)"
| c_inc: "\<not> coalesced \<Longrightarrow> cpc s = C_inc x \<Longrightarrow> r = ring_of s \<Longrightarrow>
     spsc_step coalesced s
       (s\<lparr>ring_of := r\<lparr>m_headPtr := m_headPtr r + 1\<rparr>, cpc := C_wrap, received := received s @ [x]\<rparr>)"
| c_wrap: "cpc s = C_wrap \<Longrightarrow> r = ring_of s \<Longrightarrow>
     spsc_step coalesced s
       (s\<lparr>ring_of := (if m_headPtr r \<ge> m_endOfMemPtr r then r\<lparr>m_headPtr := 0\<rparr> else r), cpc := C_idle\<rparr>)"

definition spsc_init :: "u32 \<Rightarrow> 'a list \<Rightarrow> 'a spsc" where
  "spsc_init n mem =
     \<lparr>ring_of = RingBuffer n mem, ppc = P_idle, cpc = C_idle, sent = [], received = []\<rparr>"

inductive spsc_reachable :: "bool \<Rightarrow> 'a spsc \<Rightarrow> 'a spsc \<Rightarrow> bool" for coalesced s0 where
  refl: "spsc_reachable coalesced s0 s0"
| step: "spsc_reachable coalesced s0 s \<Longrightarrow> spsc_step coalesced s t \<Longrightarrow> spsc_reachable coalesced s0 t"

inductive_simps coalesced_step: "spsc_step True s t"

section \<open>The invariant with coalesced stores\<close>

definition producer_inv :: "'a spsc \<Rightarrow> bool" where
  "producer_inv s = (case ppc s of
       P_idle \<Rightarrow> True
     | P_store x \<Rightarrow> length (ring_list (ring_of s)) < ring_cap (ring_of s)
     | P_inc x \<Rightarrow> length (ring_list (ring_of s)) < ring_cap (ring_of s) \<and>
                  m_elements (ring_of s) ! m_tailPtr (ring_of s) = x
     | P_wrap \<Rightarrow> False)"

definition consumer_inv :: "'a spsc \<Rightarrow> bool" where
  "consumer_inv s = (case cpc s of
       C_idle \<Rightarrow> True
     | C_load \<Rightarrow> ring_list (ring_of s) \<noteq> []
     | C_inc x \<Rightarrow> ring_list (ring_of s) \<noteq> [] \<and> hd (ring_list (ring_of s)) = x
     | C_wrap \<Rightarrow> False)"

definition spsc_inv :: "'a spsc \<Rightarrow> bool" where
  "spsc_inv s \<longleftrightarrow> ring_inv (ring_of s) \<and> producer_inv s \<and> consumer_inv s \<and>
     received s @ ring_list (ring_of s) = sent s"

lemma ring_list_store:
  "ring_inv r \<Longrightarrow> ring_list (r\<lparr>m_elements := (m_elements r)[m_tailPtr r := x]\<rparr>) = ring_list r"
  by (simp add: ring_list_def drop_update_cancel drop_update_swap)

lemma ring_inv_store:
  "ring_inv r \<Longrightarrow> ring_inv (r\<lparr>m_elements := (m_elements r)[m_tailPtr r := x]\<rparr>)"
  by (simp add: ring_inv_def m_endOfMemPtr_def)

text \<open>Advancing the tail over a stored element is what \<open>add\<close> does; advancing the head, \<open>remove\<close>.\<close>

lemma advance_tail:
  assumes inv: "ring_inv r" and room: "length (ring_list r) < ring_cap r"
    and x: "m_elements r ! m_tailPtr r = x"
  shows "ring_inv (r\<lparr>m_tailPtr := advance r (m_tailPtr r)\<rparr>)"
    and "ring_list (r\<lparr>m_tailPtr := advance r (m_tailPtr r)\<rparr>) = ring_list r @ [x]"
    and "ring_cap (r\<lparr>m_tailPtr := advance r (m_tailPtr r)\<rparr>) = ring_cap r"
proof -
  have "\<not> RingBuffer_isFull r" using inv room by (simp add: RingBuffer_isFull_iff)
  moreover have "m_tailPtr r < length (m_elements r)" using inv by (simp add: ring_inv_def)
  ultimately have "RingBuffer_add r x = Some (True, r\<lparr>m_tailPtr := advance r (m_tailPtr r)\<rparr>)"
    using x by (simp add: RingBuffer_add_def advance_def Let_def m_endOfMemPtr_def list_update_same_conv)
  with RingBuffer_add_room [OF inv room, of x]
  show "ring_inv (r\<lparr>m_tailPtr := advance r (m_tailPtr r)\<rparr>)"
    and "ring_list (r\<lparr>m_tailPtr := advance r (m_tailPtr r)\<rparr>) = ring_list r @ [x]"
    and "ring_cap (r\<lparr>m_tailPtr := advance r (m_tailPtr r)\<rparr>) = ring_cap r" by auto
qed

lemma advance_head:
  assumes inv: "ring_inv r" and xs: "ring_list r = x # xs"
  shows "ring_inv (r\<lparr>m_headPtr := advance r (m_headPtr r)\<rparr>)"
    and "ring_list (r\<lparr>m_headPtr := advance r (m_headPtr r)\<rparr>) = xs"
    and "ring_cap (r\<lparr>m_headPtr := advance r (m_headPtr r)\<rparr>) = ring_cap r"
    and "m_elements r ! m_headPtr r = x"
proof -
  have "\<not> RingBuffer_isEmpty r" using inv xs by (simp add: RingBuffer_isEmpty_iff)
  moreover have "m_headPtr r < length (m_elements r)" using inv by (simp add: ring_inv_def)
  ultimately have "RingBuffer_remove r =
      Some (Some (m_elements r ! m_headPtr r), r\<lparr>m_headPtr := advance r (m_headPtr r)\<rparr>)"
    by (simp add: RingBuffer_remove_def advance_def Let_def m_endOfMemPtr_def)
  with RingBuffer_remove_first [OF inv xs]
  show "ring_inv (r\<lparr>m_headPtr := advance r (m_headPtr r)\<rparr>)"
    and "ring_list (r\<lparr>m_headPtr := advance r (m_headPtr r)\<rparr>) = xs"
    and "ring_cap (r\<lparr>m_headPtr := advance r (m_headPtr r)\<rparr>) = ring_cap r"
    and "m_elements r ! m_headPtr r = x" by auto
qed

lemma spsc_step_inv:
  assumes "spsc_step True s t" and inv: "spsc_inv s"
  shows "spsc_inv t"
  using assms(1)
proof cases
  case (p_check x)
  with inv show ?thesis
    using length_ring_list_le [of "ring_of s"] RingBuffer_isFull_iff [of "ring_of s"]
    by (auto simp: spsc_inv_def producer_inv_def consumer_inv_def split: consumer_pc.splits)
next
  case (p_store x r)
  with inv show ?thesis
    by (auto simp: spsc_inv_def producer_inv_def consumer_inv_def ring_list_store ring_inv_store
        ring_cap_def m_endOfMemPtr_def split: consumer_pc.splits)
next
  case (p_advance x r)
  with inv have "ring_inv r" "length (ring_list r) < ring_cap r" "m_elements r ! m_tailPtr r = x"
    by (auto simp: spsc_inv_def producer_inv_def)
  from advance_tail [OF this] p_advance inv show ?thesis
    by (auto simp: spsc_inv_def producer_inv_def consumer_inv_def split: consumer_pc.splits)
next
  case (c_check)
  with inv show ?thesis
    using RingBuffer_isEmpty_iff [of "ring_of s"]
    by (auto simp: spsc_inv_def producer_inv_def consumer_inv_def split: producer_pc.splits)
next
  case (c_load r)
  with inv obtain x xs where "ring_list r = x # xs" "ring_inv r"
    by (auto simp: spsc_inv_def consumer_inv_def neq_Nil_conv)
  from advance_head(4) [OF this(2,1)] this c_load inv show ?thesis
    by (auto simp: spsc_inv_def producer_inv_def consumer_inv_def split: producer_pc.splits)
next
  case (c_advance x r)
  with inv obtain xs where xs: "ring_list r = x # xs" "ring_inv r"
    by (auto simp: spsc_inv_def consumer_inv_def neq_Nil_conv)
  from advance_head [OF xs(2,1)] xs c_advance inv show ?thesis
    by (auto simp: spsc_inv_def producer_inv_def consumer_inv_def split: producer_pc.splits)
qed (use inv in \<open>auto simp: spsc_inv_def producer_inv_def consumer_inv_def\<close>)

lemma spsc_init_inv: "0 < n \<Longrightarrow> length mem = unat n \<Longrightarrow> spsc_inv (spsc_init n mem)"
  using ring_inv_RingBuffer [of n mem]
  by (simp add: spsc_inv_def spsc_init_def producer_inv_def consumer_inv_def)

lemma spsc_cap: "spsc_step b s t \<Longrightarrow> ring_cap (ring_of t) = ring_cap (ring_of s)"
  by (erule spsc_step.cases) (auto simp: ring_cap_def m_endOfMemPtr_def)

lemma spsc_reachable_inv:
  assumes "spsc_reachable True (spsc_init n mem) s" and "0 < n" and "length mem = unat n"
  shows "spsc_inv s \<and> ring_cap (ring_of s) = unat n - 1"
  using assms(1)
proof (induction rule: spsc_reachable.induct)
  case refl
  show ?case using spsc_init_inv [OF assms(2,3)]
    by (simp add: spsc_init_def RingBuffer_def ring_cap_def m_endOfMemPtr_def)
next
  case (step s t)
  then show ?case using spsc_step_inv spsc_cap by metis
qed

section \<open>A run with two stores per advance\<close>

fun spsc_path :: "bool \<Rightarrow> 'a spsc \<Rightarrow> 'a spsc list \<Rightarrow> bool" where
  "spsc_path b s [] \<longleftrightarrow> True"
| "spsc_path b s (t # ts) \<longleftrightarrow> spsc_step b s t \<and> spsc_path b t ts"

lemma spsc_path_reachable:
  "spsc_reachable b s0 s \<Longrightarrow> spsc_path b s ts \<Longrightarrow> spsc_reachable b s0 (last (s # ts))"
proof (induction ts arbitrary: s)
  case (Cons t ts)
  from Cons.prems have "spsc_reachable b s0 t" "spsc_path b t ts"
    by (auto intro: spsc_reachable.step)
  from Cons.IH [OF this] show ?case by simp
qed simp

inductive_simps separate_step: "spsc_step False s t"

text \<open>A buffer of two elements, so of capacity one; the four components that change are given.\<close>

definition race_state :: "nat \<Rightarrow> nat \<Rightarrow> nat list \<Rightarrow> nat producer_pc \<Rightarrow> nat consumer_pc \<Rightarrow>
    nat list \<Rightarrow> nat list \<Rightarrow> nat spsc" where
  "race_state h t m p c xs ys =
     \<lparr>ring_of = \<lparr>m_headPtr = h, m_tailPtr = t, m_memoryNumElements = 2, m_elements = m\<rparr>,
      ppc = p, cpc = c, sent = xs, received = ys\<rparr>"

definition race_run :: "nat spsc list" where
  "race_run = [
     race_state 0 0 [0, 0] (P_store 1) C_idle [] [],
     race_state 0 0 [1, 0] (P_inc 1) C_idle [] [],
     race_state 0 1 [1, 0] P_wrap C_idle [1] [],
     race_state 0 1 [1, 0] P_idle C_idle [1] [],
     race_state 0 1 [1, 0] P_idle C_load [1] [],
     race_state 0 1 [1, 0] P_idle (C_inc 1) [1] [],
     race_state 1 1 [1, 0] P_idle C_wrap [1] [1],
     race_state 1 1 [1, 0] P_idle C_idle [1] [1],
     race_state 1 1 [1, 0] (P_store 2) C_idle [1] [1],
     race_state 1 1 [1, 2] (P_inc 2) C_idle [1] [1],
     race_state 1 2 [1, 2] P_wrap C_idle [1, 2] [1],
     race_state 1 2 [1, 2] P_wrap C_load [1, 2] [1],
     race_state 1 2 [1, 2] P_wrap (C_inc 2) [1, 2] [1],
     race_state 2 2 [1, 2] P_wrap C_wrap [1, 2] [1, 2],
     race_state 0 2 [1, 2] P_wrap C_idle [1, 2] [1, 2],
     race_state 0 2 [1, 2] P_wrap C_load [1, 2] [1, 2],
     race_state 0 2 [1, 2] P_wrap (C_inc 1) [1, 2] [1, 2],
     race_state 1 2 [1, 2] P_wrap C_wrap [1, 2] [1, 2, 1]]"

lemma race_run_path: "spsc_path False (spsc_init 2 [0, 0]) race_run"
  by (simp add: race_run_def race_state_def spsc_init_def RingBuffer_def separate_step
      RingBuffer_isFull_def RingBuffer_isEmpty_def m_endOfMemPtr_def)

section \<open>Properties\<close>

text \<open>
  C19.  With a coalesced pointer advance the ring buffer is safe for one producer and one
  consumer without a lock: in every interleaving the consumer receives a prefix of what the
  producer published, in order, never more than the capacity behind, and never an element
  that was not published; the array is never accessed out of range.
\<close>

theorem spsc_coalesced_fifo:
  assumes "0 < n" and "length mem = unat n"
    and "spsc_reachable True (spsc_init n mem) s"
  shows "prefix (received s) (sent s) \<and> length (sent s) - length (received s) \<le> unat n - 1 \<and>
         m_headPtr (ring_of s) < unat n \<and> m_tailPtr (ring_of s) < unat n"
proof -
  from spsc_reachable_inv [OF assms(3,1,2)] have inv: "spsc_inv s" and cap: "ring_cap (ring_of s) = unat n - 1"
    by blast+
  from inv have ring: "ring_inv (ring_of s)" and eq: "sent s = received s @ ring_list (ring_of s)"
    by (auto simp: spsc_inv_def)
  from ring assms(1) cap have end_eq: "m_endOfMemPtr (ring_of s) = unat n"
    by (auto simp: ring_cap_def ring_inv_def word_less_nat_alt)
  show ?thesis
    using length_ring_list_le [OF ring] ring by (simp add: eq cap ring_inv_def end_eq)
qed

lemma spsc_add:
  assumes "spsc_reachable True s0 s" and "ppc s = P_idle" and "\<not> RingBuffer_isFull (ring_of s)"
    and "m_tailPtr (ring_of s) < length (m_elements (ring_of s))"
  shows "\<exists>t. spsc_reachable True s0 t \<and> sent t = sent s @ [x] \<and> ppc t = P_idle"
proof -
  let ?s1 = "s\<lparr>ppc := P_store x\<rparr>"
  let ?s2 = "?s1\<lparr>ring_of := (ring_of ?s1)\<lparr>m_elements := (m_elements (ring_of ?s1))[m_tailPtr (ring_of ?s1) := x]\<rparr>,
                 ppc := P_inc x\<rparr>"
  let ?s3 = "?s2\<lparr>ring_of := (ring_of ?s2)\<lparr>m_tailPtr := advance (ring_of ?s2) (m_tailPtr (ring_of ?s2))\<rparr>,
                 ppc := P_idle, sent := sent ?s2 @ [x]\<rparr>"
  have "spsc_reachable True s0 ?s1"
    by (rule spsc_reachable.step [OF assms(1)]) (rule spsc_step.p_check [OF assms(2,3)])
  then have "spsc_reachable True s0 ?s2"
    by (rule spsc_reachable.step) (rule spsc_step.p_store, use assms(4) in simp_all)
  then have "spsc_reachable True s0 ?s3"
    by (rule spsc_reachable.step) (rule spsc_step.p_advance, simp_all)
  then show ?thesis by (intro exI [of _ ?s3]) simp
qed

theorem spsc_coalesced_fifo_witness:
  "\<exists>s. spsc_reachable True (spsc_init 3 [0, 0, 0 :: nat]) s \<and> sent s = [7] \<and>
       prefix (received s) (sent s) \<and> length (sent s) - length (received s) \<le> unat (3::u32) - 1 \<and>
       m_headPtr (ring_of s) < unat (3::u32) \<and> m_tailPtr (ring_of s) < unat (3::u32)"
proof -
  have "\<exists>t. spsc_reachable True (spsc_init 3 [0, 0, 0 :: nat]) t \<and>
      sent t = sent (spsc_init 3 [0, 0, 0 :: nat]) @ [7] \<and> ppc t = P_idle"
    by (rule spsc_add [OF spsc_reachable.refl])
      (simp_all add: spsc_init_def RingBuffer_def RingBuffer_isFull_def m_endOfMemPtr_def)
  then obtain s where s: "spsc_reachable True (spsc_init 3 [0, 0, 0 :: nat]) s" "sent s = [7]"
    by (auto simp: spsc_init_def)
  show ?thesis
    by (rule exI [of _ s], use s spsc_coalesced_fifo [OF _ _ s(1)] in simp)
qed

text \<open>
  When the two assignments of a pointer advance reach memory separately, the buffer is
  not safe for one producer and one consumer: while the producer's tail transiently points
  one past the array, the consumer takes the buffer for non-empty once too often and
  receives an element a second time that was published only once.
\<close>

theorem spsc_transient_pointer_race:
  "\<exists>s. spsc_reachable False (spsc_init 2 [0, 0 :: nat]) s \<and> sent s = [1, 2] \<and> received s = [1, 2, 1] \<and>
       \<not> prefix (received s) (sent s)"
  using spsc_path_reachable [OF spsc_reachable.refl race_run_path]
  by (intro exI [of _ "race_state 1 2 [1, 2] P_wrap C_wrap [1, 2] [1, 2, 1]"])
    (simp add: race_run_def race_state_def)

end
