(* ===== verification/Frame_Encoder.thy ===== *)
theory Frame_Encoder
  imports Prelude
begin

text \<open>
  The frame encoders of \<^verbatim>\<open>src/src/Cpl/Text/Frame\<close>: the common logic of \<^verbatim>\<open>Encoder_.cpp\<close> and its
  two stream subclasses, \<^verbatim>\<open>StreamEncoder.cpp\<close> (every character is written at once) and
  \<^verbatim>\<open>BlockEncoder.cpp\<close> (characters are collected in a block buffer).  The virtual methods \<open>start\<close>
  and \<open>append\<close> are dispatched on the kind of the encoder.  The output stream is a parameter:
  \<open>wr dst bs\<close> is the result of \<^verbatim>\<open>Cpl::Io::Output::write\<close> and the stream after the call.  Characters are bytes,
  as \<^verbatim>\<open>char\<close> is unsigned on the Arm targets.
\<close>

section \<open>State\<close>

datatype encoder_kind = Stream_encoder | Block_encoder

record frame_chars =
  m_sof :: u8
  m_eof :: u8
  m_esc :: u8

record encoder_cfg = frame_chars +
  m_appendNewline :: bool
  newline_standard :: bytes

record 'o encoder =
  e_inFrame :: bool
  e_dstPtr :: "'o option"
  e_buffer :: bytes
  e_bufferCount :: nat

type_synonym 'o writer = "'o \<Rightarrow> bytes \<Rightarrow> bool \<times> 'o"

definition write_dst :: "'o writer \<Rightarrow> 'o encoder \<Rightarrow> bytes \<Rightarrow> bool \<times> 'o encoder" where
  "write_dst wr e bs =
     (case e_dstPtr e of
        None \<Rightarrow> (False, e)
      | Some dst \<Rightarrow> let (ok, dst') = wr dst bs in (ok, e\<lparr>e_dstPtr := Some dst'\<rparr>))"

section \<open>Subclasses\<close>

definition StreamEncoder_append :: "'o writer \<Rightarrow> 'o encoder \<Rightarrow> u8 \<Rightarrow> bool \<times> 'o encoder" where
  "StreamEncoder_append wr e src = write_dst wr e [src]"

definition StreamEncoder_start_char :: "'o writer \<Rightarrow> 'o encoder \<Rightarrow> u8 \<Rightarrow> bool \<times> 'o encoder" where
  "StreamEncoder_start_char wr e src = write_dst wr e [src]"

definition StreamEncoder_start :: "'o encoder \<Rightarrow> bool \<times> 'o encoder" where
  "StreamEncoder_start e = (True, e)"

definition StreamEncoder_setOutput :: "'o encoder \<Rightarrow> 'o \<Rightarrow> 'o encoder" where
  "StreamEncoder_setOutput e newOutfd = e\<lparr>e_dstPtr := Some newOutfd\<rparr>"

text \<open>
  The block buffer has \<open>m_bufferSize\<close> bytes, the length of \<open>e_buffer\<close>; a full buffer is written
  out as a whole.
\<close>

definition BlockEncoder_appendToBlock :: "'o writer \<Rightarrow> 'o encoder \<Rightarrow> u8 \<Rightarrow> bool \<times> 'o encoder" where
  "BlockEncoder_appendToBlock wr e src =
     (if e_dstPtr e = None then (False, e)
      else
        let e1 = (if e_bufferCount e < length (e_buffer e)
                  then e\<lparr>e_buffer := (e_buffer e)[e_bufferCount e := src],
                         e_bufferCount := e_bufferCount e + 1\<rparr>
                  else e)
        in if e_bufferCount e1 \<ge> length (e_buffer e1)
           then write_dst wr (e1\<lparr>e_bufferCount := 0\<rparr>) (e_buffer e1)
           else (True, e1))"

definition BlockEncoder_start_char :: "'o writer \<Rightarrow> 'o encoder \<Rightarrow> u8 \<Rightarrow> bool \<times> 'o encoder" where
  "BlockEncoder_start_char wr e src = BlockEncoder_appendToBlock wr (e\<lparr>e_bufferCount := 0\<rparr>) src"

definition BlockEncoder_start :: "'o encoder \<Rightarrow> bool \<times> 'o encoder" where
  "BlockEncoder_start e = (True, e\<lparr>e_bufferCount := 0\<rparr>)"

definition BlockEncoder_append :: "'o writer \<Rightarrow> 'o encoder \<Rightarrow> u8 \<Rightarrow> bool \<times> 'o encoder" where
  "BlockEncoder_append wr e src = BlockEncoder_appendToBlock wr e src"

section \<open>Virtual dispatch\<close>

definition start_char :: "encoder_kind \<Rightarrow> 'o writer \<Rightarrow> 'o encoder \<Rightarrow> u8 \<Rightarrow> bool \<times> 'o encoder" where
  "start_char k = (case k of Stream_encoder \<Rightarrow> StreamEncoder_start_char | Block_encoder \<Rightarrow> BlockEncoder_start_char)"

definition start :: "encoder_kind \<Rightarrow> 'o encoder \<Rightarrow> bool \<times> 'o encoder" where
  "start k = (case k of Stream_encoder \<Rightarrow> StreamEncoder_start | Block_encoder \<Rightarrow> BlockEncoder_start)"

definition append_char :: "encoder_kind \<Rightarrow> 'o writer \<Rightarrow> 'o encoder \<Rightarrow> u8 \<Rightarrow> bool \<times> 'o encoder" where
  "append_char k = (case k of Stream_encoder \<Rightarrow> StreamEncoder_append | Block_encoder \<Rightarrow> BlockEncoder_append)"

section \<open>\<^verbatim>\<open>Encoder_.cpp\<close>\<close>

text \<open>
  A call out of protocol logs a fatal error; the model follows the path on which the handler
  returns, and the call reports false.
\<close>

definition Encoder_encodeChar :: "u8 \<Rightarrow> u8" where
  "Encoder_encodeChar charToBeEscaped = charToBeEscaped"

definition Encoder_startFrame ::
    "encoder_kind \<Rightarrow> 'o writer \<Rightarrow> 'x frame_chars_scheme \<Rightarrow> 'o encoder \<Rightarrow> bool \<times> 'o encoder" where
  "Encoder_startFrame k wr c e =
     (if e_inFrame e then (False, e)
      else
        let e1 = e\<lparr>e_inFrame := True\<rparr>
        in if m_sof c \<noteq> 0 then start_char k wr e1 (m_sof c) else start k e1)"

definition Encoder_output_char ::
    "encoder_kind \<Rightarrow> 'o writer \<Rightarrow> 'x frame_chars_scheme \<Rightarrow> 'o encoder \<Rightarrow> u8 \<Rightarrow> bool \<times> 'o encoder" where
  "Encoder_output_char k wr c e src =
     (if \<not> e_inFrame e then (False, e)
      else if m_esc c \<noteq> 0 \<and> (src = m_esc c \<or> src = m_eof c)
      then let (r1, e1) = append_char k wr e (m_esc c);
               (r2, e2) = append_char k wr e1 (Encoder_encodeChar src)
           in (r1 \<and> r2, e2)
      else append_char k wr e src)"

fun Encoder_output ::
    "encoder_kind \<Rightarrow> 'o writer \<Rightarrow> 'x frame_chars_scheme \<Rightarrow> 'o encoder \<Rightarrow> bytes \<Rightarrow> bool \<times> 'o encoder" where
  "Encoder_output k wr c e [] = (True, e)"
| "Encoder_output k wr c e (src # srcs) =
     (let (ok, e1) = Encoder_output_char k wr c e src
      in if ok then Encoder_output k wr c e1 srcs else (False, e1))"

definition Encoder_endFrame ::
    "encoder_kind \<Rightarrow> 'o writer \<Rightarrow> encoder_cfg \<Rightarrow> 'o encoder \<Rightarrow> bool \<times> 'o encoder" where
  "Encoder_endFrame k wr c e =
     (if \<not> e_inFrame e then (False, e)
      else
        let (ok, e1) = append_char k wr (e\<lparr>e_inFrame := False\<rparr>) (m_eof c)
        in if ok then
             if \<not> m_appendNewline c then (True, e1)
             else let (result, e2) = Encoder_output k wr c (e1\<lparr>e_inFrame := True\<rparr>) (newline_standard c)
                  in (result, e2\<lparr>e_inFrame := False\<rparr>)
           else (False, e1))"

definition BlockEncoder_endFrame :: "'o writer \<Rightarrow> encoder_cfg \<Rightarrow> 'o encoder \<Rightarrow> bool \<times> 'o encoder" where
  "BlockEncoder_endFrame wr c e =
     (let (result, e1) = Encoder_endFrame Block_encoder wr c e
      in if result then write_dst wr e1 (take (e_bufferCount e1) (e_buffer e1)) else (result, e1))"

definition endFrame ::
    "encoder_kind \<Rightarrow> 'o writer \<Rightarrow> encoder_cfg \<Rightarrow> 'o encoder \<Rightarrow> bool \<times> 'o encoder" where
  "endFrame k wr c e =
     (case k of Stream_encoder \<Rightarrow> Encoder_endFrame Stream_encoder wr c e
      | Block_encoder \<Rightarrow> BlockEncoder_endFrame wr c e)"

text \<open>A whole frame: start, payload in pieces, end; it stops at the first call that fails.\<close>

fun encode_pieces ::
    "encoder_kind \<Rightarrow> 'o writer \<Rightarrow> encoder_cfg \<Rightarrow> 'o encoder \<Rightarrow> bytes list \<Rightarrow> bool \<times> 'o encoder" where
  "encode_pieces k wr c e [] = (True, e)"
| "encode_pieces k wr c e (p # ps) =
     (let (ok, e1) = Encoder_output k wr c e p in if ok then encode_pieces k wr c e1 ps else (False, e1))"

definition encode_frame ::
    "encoder_kind \<Rightarrow> 'o writer \<Rightarrow> encoder_cfg \<Rightarrow> 'o encoder \<Rightarrow> bytes list \<Rightarrow> bool \<times> 'o encoder" where
  "encode_frame k wr c e ps =
     (let (r0, e0) = Encoder_startFrame k wr c e
      in if \<not> r0 then (False, e0)
         else let (r1, e1) = encode_pieces k wr c e0 ps
              in if \<not> r1 then (False, e1) else endFrame k wr c e1)"

section \<open>The encoded text\<close>

definition escape_char :: "'x frame_chars_scheme \<Rightarrow> u8 \<Rightarrow> bytes" where
  "escape_char c x = (if m_esc c \<noteq> 0 \<and> (x = m_esc c \<or> x = m_eof c) then [m_esc c, x] else [x])"

definition escape_text :: "'x frame_chars_scheme \<Rightarrow> bytes \<Rightarrow> bytes" where
  "escape_text c xs = concat (map (escape_char c) xs)"

definition frame_text :: "encoder_cfg \<Rightarrow> bytes \<Rightarrow> bytes" where
  "frame_text c xs =
     (if m_sof c \<noteq> 0 then [m_sof c] else []) @ escape_text c xs @ [m_eof c] @
     (if m_appendNewline c then escape_text c (newline_standard c) else [])"

text \<open>A stream that takes every byte, and what an encoder has sent to it or still holds in its block.\<close>

definition accept_all :: "bytes writer" where
  "accept_all dst bs = (True, dst @ bs)"

definition pending :: "encoder_kind \<Rightarrow> 'o encoder \<Rightarrow> bytes" where
  "pending k e = (case k of Stream_encoder \<Rightarrow> [] | Block_encoder \<Rightarrow> take (e_bufferCount e) (e_buffer e))"

definition encoder_ok :: "encoder_kind \<Rightarrow> bytes encoder \<Rightarrow> bool" where
  "encoder_ok k e \<longleftrightarrow> k = Block_encoder \<longrightarrow> e_bufferCount e < length (e_buffer e)"

definition produced :: "encoder_kind \<Rightarrow> bytes encoder \<Rightarrow> bytes option" where
  "produced k e = map_option (\<lambda>dst. dst @ pending k e) (e_dstPtr e)"

lemma list_update_last: "i < length xs \<Longrightarrow> length xs \<le> Suc i \<Longrightarrow> xs[i := x] = take i xs @ [x]"
  by (metis Suc_leI le_antisym length_list_update lessI nth_list_update_eq order_refl take_Suc_conv_app_nth
      take_all take_update_cancel)

lemma append_char_ok:
  assumes "encoder_ok k e" and "produced k e = Some w"
  shows "\<exists>e'. append_char k accept_all e x = (True, e') \<and> encoder_ok k e' \<and>
              produced k e' = Some (w @ [x]) \<and> e_inFrame e' = e_inFrame e"
  using assms
  by (cases k)
    (auto simp: append_char_def StreamEncoder_append_def BlockEncoder_append_def produced_def pending_def
      BlockEncoder_appendToBlock_def write_dst_def accept_all_def encoder_ok_def Let_def take_Suc_conv_app_nth list_update_last
      split: option.splits)

lemma output_char_ok:
  assumes "encoder_ok k e" and "produced k e = Some w" and "e_inFrame e"
  shows "\<exists>e'. Encoder_output_char k accept_all c e x = (True, e') \<and> encoder_ok k e' \<and>
              produced k e' = Some (w @ escape_char c x) \<and> e_inFrame e'"
proof (cases "m_esc c \<noteq> 0 \<and> (x = m_esc c \<or> x = m_eof c)")
  case True
  obtain e1 where e1: "append_char k accept_all e (m_esc c) = (True, e1)" "encoder_ok k e1"
    "produced k e1 = Some (w @ [m_esc c])" "e_inFrame e1" using append_char_ok [OF assms(1,2)] assms(3) by metis
  obtain e2 where "append_char k accept_all e1 x = (True, e2)" "encoder_ok k e2"
    "produced k e2 = Some ((w @ [m_esc c]) @ [x])" "e_inFrame e2"
    using append_char_ok [OF e1(2,3)] e1(4) by metis
  with True e1 assms(3) show ?thesis
    by (auto simp: Encoder_output_char_def escape_char_def Encoder_encodeChar_def)
next
  case False
  then show ?thesis
    using append_char_ok [OF assms(1,2), of x] assms(3) by (auto simp: Encoder_output_char_def escape_char_def)
qed

lemma output_ok:
  "encoder_ok k e \<Longrightarrow> produced k e = Some w \<Longrightarrow> e_inFrame e \<Longrightarrow>
   \<exists>e'. Encoder_output k accept_all c e xs = (True, e') \<and> encoder_ok k e' \<and>
        produced k e' = Some (w @ escape_text c xs) \<and> e_inFrame e'"
proof (induction xs arbitrary: e w)
  case (Cons x xs)
  obtain e1 where e1: "Encoder_output_char k accept_all c e x = (True, e1)" "encoder_ok k e1"
    "produced k e1 = Some (w @ escape_char c x)" "e_inFrame e1"
    using output_char_ok [OF Cons.prems] by metis
  from Cons.IH [OF e1(2,3,4)] e1(1) show ?case by (simp add: escape_text_def)
qed (simp add: escape_text_def)

lemma encode_pieces_ok:
  "encoder_ok k e \<Longrightarrow> produced k e = Some w \<Longrightarrow> e_inFrame e \<Longrightarrow>
   \<exists>e'. encode_pieces k accept_all c e ps = (True, e') \<and> encoder_ok k e' \<and>
        produced k e' = Some (w @ escape_text c (concat ps)) \<and> e_inFrame e'"
proof (induction ps arbitrary: e w)
  case (Cons p ps)
  obtain e1 where e1: "Encoder_output k accept_all c e p = (True, e1)" "encoder_ok k e1"
    "produced k e1 = Some (w @ escape_text c p)" "e_inFrame e1"
    using output_ok [OF Cons.prems] by metis
  from Cons.IH [OF e1(2,3,4)] e1(1) show ?case by (simp add: escape_text_def)
qed (simp add: escape_text_def)

text \<open>Between frames an encoder has sent all it was given; a block encoder needs a block of at least one byte.\<close>

definition encoder_idle :: "encoder_kind \<Rightarrow> bytes encoder \<Rightarrow> bytes \<Rightarrow> bool" where
  "encoder_idle k e w \<longleftrightarrow>
     \<not> e_inFrame e \<and> e_dstPtr e = Some w \<and> (k = Block_encoder \<longrightarrow> e_buffer e \<noteq> [])"

lemma startFrame_ok:
  assumes "encoder_idle k e w"
  shows "\<exists>e'. Encoder_startFrame k accept_all c e = (True, e') \<and> encoder_ok k e' \<and>
              produced k e' = Some (w @ (if m_sof c \<noteq> 0 then [m_sof c] else [])) \<and> e_inFrame e'"
proof -
  define e0 where "e0 = (case k of Stream_encoder \<Rightarrow> e\<lparr>e_inFrame := True\<rparr>
                         | Block_encoder \<Rightarrow> e\<lparr>e_inFrame := True, e_bufferCount := 0\<rparr>)"
  have e0: "encoder_ok k e0" "produced k e0 = Some w" "e_inFrame e0"
    using assms by (auto simp: e0_def encoder_ok_def produced_def pending_def encoder_idle_def split: encoder_kind.splits)
  have "Encoder_startFrame k accept_all c e =
      (if m_sof c \<noteq> 0 then append_char k accept_all e0 (m_sof c) else (True, e0))"
    using assms
    by (cases k) (simp_all add: Encoder_startFrame_def e0_def start_char_def start_def append_char_def
      StreamEncoder_start_char_def StreamEncoder_append_def BlockEncoder_start_char_def BlockEncoder_append_def
      StreamEncoder_start_def BlockEncoder_start_def encoder_idle_def)
  then show ?thesis
    using e0 append_char_ok [OF e0(1,2), of "m_sof c"] by auto
qed

lemma Encoder_endFrame_ok:
  assumes "encoder_ok k e" and "produced k e = Some w" and "e_inFrame e"
  shows "\<exists>e'. Encoder_endFrame k accept_all c e = (True, e') \<and> encoder_ok k e' \<and>
              produced k e' = Some (w @ [m_eof c] @
                (if m_appendNewline c then escape_text c (newline_standard c) else [])) \<and> \<not> e_inFrame e'"
proof -
  have inF: "encoder_ok k (d\<lparr>e_inFrame := b\<rparr>) = encoder_ok k d"
    "produced k (d\<lparr>e_inFrame := b\<rparr>) = produced k d" for b d
    by (simp_all add: encoder_ok_def produced_def pending_def split: encoder_kind.splits)
  obtain e1 where e1: "append_char k accept_all (e\<lparr>e_inFrame := False\<rparr>) (m_eof c) = (True, e1)"
    "encoder_ok k e1" "produced k e1 = Some (w @ [m_eof c])" "\<not> e_inFrame e1"
    using append_char_ok [of k "e\<lparr>e_inFrame := False\<rparr>" w "m_eof c"] assms inF by auto
  obtain e2 where "Encoder_output k accept_all c (e1\<lparr>e_inFrame := True\<rparr>) (newline_standard c) = (True, e2)"
    "encoder_ok k e2" "produced k e2 = Some ((w @ [m_eof c]) @ escape_text c (newline_standard c))"
    using output_ok [of k "e1\<lparr>e_inFrame := True\<rparr>" "w @ [m_eof c]" c "newline_standard c"] e1 inF by auto
  with e1 assms(3) inF show ?thesis by (simp add: Encoder_endFrame_def)
qed

lemma endFrame_ok:
  assumes "encoder_ok k e" and "produced k e = Some w" and "e_inFrame e"
  shows "\<exists>e'. endFrame k accept_all c e = (True, e') \<and>
              encoder_idle k e' (w @ [m_eof c] @
                (if m_appendNewline c then escape_text c (newline_standard c) else []))"
proof -
  obtain e1 where "Encoder_endFrame k accept_all c e = (True, e1)" "encoder_ok k e1" "\<not> e_inFrame e1"
    "produced k e1 = Some (w @ [m_eof c] @
                (if m_appendNewline c then escape_text c (newline_standard c) else []))"
    using Encoder_endFrame_ok [OF assms] by metis
  then show ?thesis
    by (cases k)
      (auto simp: endFrame_def BlockEncoder_endFrame_def write_dst_def accept_all_def produced_def
        pending_def encoder_idle_def encoder_ok_def)
qed

lemma encode_frame_idle:
  assumes "encoder_idle k e w"
  shows "\<exists>e'. encode_frame k accept_all c e ps = (True, e') \<and> encoder_idle k e' (w @ frame_text c (concat ps))"
proof -
  obtain e0 where e0: "Encoder_startFrame k accept_all c e = (True, e0)" "encoder_ok k e0" "e_inFrame e0"
    "produced k e0 = Some (w @ (if m_sof c \<noteq> 0 then [m_sof c] else []))"
    using startFrame_ok [OF assms] by metis
  obtain e1 where e1: "encode_pieces k accept_all c e0 ps = (True, e1)" "encoder_ok k e1" "e_inFrame e1"
    "produced k e1 = Some ((w @ (if m_sof c \<noteq> 0 then [m_sof c] else [])) @ escape_text c (concat ps))"
    using encode_pieces_ok [OF e0(2,4,3)] by metis
  from endFrame_ok [OF e1(2,4,3)] e0(1) e1(1) show ?thesis
    by (auto simp: encode_frame_def frame_text_def)
qed

section \<open>Properties\<close>

text \<open>
  Both encoders send the frame text: from an idle encoder on a stream that takes every
  byte, start, any pieces of payload and end succeed, and the stream receives the start
  character, the payload with its end and escape characters escaped, the end character and the optional
  newline; for the block encoder this holds for every block size of at least one byte, and
  nothing stays behind in the block.  The encoder is idle again afterwards.
\<close>
theorem encoders_send_frame_text:
  assumes "encoder_idle k e w"
  shows "\<exists>e'. encode_frame k accept_all c e ps = (True, e') \<and>
              encoder_idle k e' (w @ frame_text c (concat ps))"
  using assms by (rule encode_frame_idle)

definition sample_cfg :: encoder_cfg where
  "sample_cfg = \<lparr>m_sof = 0x2E, m_eof = 0x3B, m_esc = 0x7E, m_appendNewline = False, newline_standard = [0x0A]\<rparr>"

theorem encoders_send_frame_text_witness:
  "\<exists>e'. encode_frame Block_encoder accept_all sample_cfg
          \<lparr>e_inFrame = False, e_dstPtr = Some [], e_buffer = [0, 0], e_bufferCount = 0\<rparr> [[0x61, 0x3B], [0x62]] = (True, e') \<and>
        encoder_idle Block_encoder e' [0x2E, 0x61, 0x7E, 0x3B, 0x62, 0x3B]"
proof -
  have "encoder_idle Block_encoder \<lparr>e_inFrame = False, e_dstPtr = Some [], e_buffer = [0, 0], e_bufferCount = 0\<rparr> []"
    by (simp add: encoder_idle_def)
  from encoders_send_frame_text [OF this, of sample_cfg "[[0x61, 0x3B], [0x62]]"] show ?thesis
    by (simp add: frame_text_def escape_text_def escape_char_def sample_cfg_def)
qed

end
