(* ===== verification/Frame_Decoder.thy ===== *)
theory Frame_Decoder
  imports Frame_Encoder
begin

text \<open>
  The frame decoders of \<^verbatim>\<open>src/src/Cpl/Text/Frame\<close>: the scanner of \<^verbatim>\<open>Decoder_.cpp\<close> with the virtual
  methods of \<^verbatim>\<open>AsciiDecoder.h\<close>, \<^verbatim>\<open>StringDecoder.cpp\<close> and \<^verbatim>\<open>LineDecoder.h\<close>, dispatched on the kind of the
  decoder.  The raw input buffer, the read position and the number of unread characters are
  those of the code; the frame under construction is the list of the characters stored in
  the caller's buffer so far.  The input source is the sequence of the chunks its \<open>read\<close>
  calls return: an empty chunk is a call that found no data, the end of the sequence is a
  call that fails.
\<close>

section \<open>State\<close>

datatype decoder_kind =
    Ascii_decoder frame_chars bool
  | String_decoder frame_chars
  | Line_decoder u8

record decoder =
  m_dataLen :: nat
  m_dataPtr :: int
  m_buffer :: bytes
  m_inFrame :: bool
  m_escaping :: bool
  m_frame :: bytes
  m_illegal :: bool
  m_srcPtr :: "bytes list option"

definition m_frameSize :: "decoder \<Rightarrow> nat" where
  "m_frameSize d = length (m_frame d)"

definition cur_char :: "decoder \<Rightarrow> u8" where
  "cur_char d = m_buffer d ! nat (m_dataPtr d)"

definition advance_data :: "decoder \<Rightarrow> decoder" where
  "advance_data d = d\<lparr>m_dataLen := m_dataLen d - 1, m_dataPtr := m_dataPtr d + 1\<rparr>"

section \<open>Virtual methods\<close>

definition isEofOfFrame :: "decoder_kind \<Rightarrow> decoder \<Rightarrow> bool" where
  "isEofOfFrame k d =
     (case k of
        Ascii_decoder c restricted \<Rightarrow> cur_char d = m_eof c
      | String_decoder c \<Rightarrow> cur_char d = m_eof c
      | Line_decoder convertTabs \<Rightarrow> cur_char d = 0x0A \<or> cur_char d = 0x0D)"

definition isEscapeChar :: "decoder_kind \<Rightarrow> decoder \<Rightarrow> bool" where
  "isEscapeChar k d =
     (case k of
        Ascii_decoder c restricted \<Rightarrow> cur_char d = m_esc c
      | String_decoder c \<Rightarrow> cur_char d = m_esc c
      | Line_decoder convertTabs \<Rightarrow> False)"

definition convert_tab :: "u8 \<Rightarrow> decoder \<Rightarrow> decoder" where
  "convert_tab convertTabs d =
     (if cur_char d = 0x09 \<and> convertTabs \<noteq> 0x09
      then d\<lparr>m_buffer := (m_buffer d)[nat (m_dataPtr d) := convertTabs]\<rparr> else d)"

definition LineDecoder_isStartOfFrame :: "u8 \<Rightarrow> decoder \<Rightarrow> bool \<times> decoder" where
  "LineDecoder_isStartOfFrame convertTabs d =
     (let d1 = convert_tab convertTabs d;
          d2 = (if isEofOfFrame (Line_decoder convertTabs) d1 then d1\<lparr>m_illegal := False\<rparr> else d1)
      in if \<not> m_illegal d2 \<and> cur_char d2 \<ge> 0x20 \<and> cur_char d2 \<le> 0x7E
         then (True, d2\<lparr>m_dataPtr := m_dataPtr d2 - 1, m_dataLen := m_dataLen d2 + 1\<rparr>)
         else (False, d2))"

definition LineDecoder_isLegalCharacter :: "u8 \<Rightarrow> decoder \<Rightarrow> bool \<times> decoder" where
  "LineDecoder_isLegalCharacter convertTabs d =
     (let d1 = convert_tab convertTabs d
      in if isEofOfFrame (Line_decoder convertTabs) d1 then (True, d1\<lparr>m_illegal := False\<rparr>)
         else if cur_char d1 > 0x7E \<or> cur_char d1 < 0x20 then (False, d1\<lparr>m_illegal := True\<rparr>)
         else (True, d1))"

definition AsciiDecoder_isLegalCharacter :: "bool \<Rightarrow> u8 \<Rightarrow> bool" where
  "AsciiDecoder_isLegalCharacter restricted x \<longleftrightarrow> x < 0x80 \<and> (\<not> restricted \<or> (x \<le> 0x7E \<and> x \<ge> 0x20))"

definition isStartOfFrame :: "decoder_kind \<Rightarrow> decoder \<Rightarrow> bool \<times> decoder" where
  "isStartOfFrame k d =
     (case k of
        Ascii_decoder c restricted \<Rightarrow> (cur_char d = m_sof c, d)
      | String_decoder c \<Rightarrow> (cur_char d = m_sof c, d)
      | Line_decoder convertTabs \<Rightarrow> LineDecoder_isStartOfFrame convertTabs d)"

definition isLegalCharacter :: "decoder_kind \<Rightarrow> decoder \<Rightarrow> bool \<times> decoder" where
  "isLegalCharacter k d =
     (case k of
        Ascii_decoder c restricted \<Rightarrow> (AsciiDecoder_isLegalCharacter restricted (cur_char d), d)
      | String_decoder c \<Rightarrow> (cur_char d \<noteq> 0, d)
      | Line_decoder convertTabs \<Rightarrow> LineDecoder_isLegalCharacter convertTabs d)"

definition StreamDecoder_read :: "decoder \<Rightarrow> (bool \<times> decoder)" where
  "StreamDecoder_read d =
     (case m_srcPtr d of
        None \<Rightarrow> (False, d)
      | Some [] \<Rightarrow> (False, d)
      | Some (chunk # chunks) \<Rightarrow>
          (True, d\<lparr>m_buffer := chunk, m_dataLen := length chunk, m_srcPtr := Some chunks\<rparr>))"

section \<open>The scanner\<close>

definition Decoder_initializeFrame :: "decoder \<Rightarrow> decoder" where
  "Decoder_initializeFrame d = d\<lparr>m_inFrame := False, m_escaping := False, m_frame := []\<rparr>"

definition Decoder_decodeEscapedChar :: "u8 \<Rightarrow> u8" where
  "Decoder_decodeEscapedChar escapedChar = escapedChar"

lemma isStartOfFrame_len:
  "isStartOfFrame k d = (b, d') \<Longrightarrow>
   m_dataLen d' \<le> Suc (m_dataLen d) \<and> (\<not> b \<longrightarrow> m_dataLen d' = m_dataLen d)"
  by (auto simp: isStartOfFrame_def LineDecoder_isStartOfFrame_def convert_tab_def Let_def
      split: decoder_kind.splits if_splits)

lemma isLegalCharacter_len:
  "isLegalCharacter k d = (b, d') \<Longrightarrow> m_dataLen d' = m_dataLen d \<and> m_inFrame d' = m_inFrame d"
  by (auto simp: isLegalCharacter_def LineDecoder_isLegalCharacter_def convert_tab_def Let_def
      split: decoder_kind.splits if_splits)

text \<open>
  The character loop.  It returns whether a frame was completed, the characters in the
  caller's buffer and the decoder.
\<close>

function (sequential) Decoder_scan_loop :: "decoder_kind \<Rightarrow> nat \<Rightarrow> decoder \<Rightarrow> bool \<times> bytes \<times> decoder" where
  "Decoder_scan_loop k maxSize d =
     (if m_dataLen d = 0 then (False, m_frame d, d)
      else if \<not> m_inFrame d then
        (let (sof, d1) = isStartOfFrame k d
         in Decoder_scan_loop k maxSize (advance_data
              (if sof then d1\<lparr>m_inFrame := True, m_escaping := False, m_frame := []\<rparr> else d1)))
      else
        (let (legal, d1) = isLegalCharacter k d
         in if \<not> legal then Decoder_scan_loop k maxSize (advance_data (d1\<lparr>m_inFrame := False\<rparr>))
            else if \<not> m_escaping d1 then
              if isEofOfFrame k d1 then
                (let d2 = advance_data d1 in (True, m_frame d2, Decoder_initializeFrame d2))
              else if \<not> isEscapeChar k d1 then
                Decoder_scan_loop k maxSize (advance_data
                  (if m_frameSize d1 < maxSize then d1\<lparr>m_frame := m_frame d1 @ [cur_char d1]\<rparr>
                   else Decoder_initializeFrame d1))
              else Decoder_scan_loop k maxSize (advance_data (d1\<lparr>m_escaping := True\<rparr>))
            else
              Decoder_scan_loop k maxSize (advance_data
                (if m_frameSize d1 < maxSize
                 then d1\<lparr>m_escaping := False, m_frame := m_frame d1 @ [Decoder_decodeEscapedChar (cur_char d1)]\<rparr>
                 else Decoder_initializeFrame d1))))"
  by pat_completeness auto
termination
  by (relation "measure (\<lambda>(k, n, d). 2 * m_dataLen d + (if m_inFrame d then 0 else 1))")
    (auto simp: advance_data_def Decoder_initializeFrame_def
      dest!: isStartOfFrame_len [OF sym] isLegalCharacter_len [OF sym] split: if_splits)

declare Decoder_scan_loop.simps [simp del]

text \<open>One call of the four-argument \<open>scan\<close>: success, end of frame, frame characters, decoder.\<close>

definition Decoder_scan_step :: "decoder_kind \<Rightarrow> nat \<Rightarrow> decoder \<Rightarrow> bool \<times> bool \<times> bytes \<times> decoder" where
  "Decoder_scan_step k maxSize d =
     (let (ok, d1) = (if m_dataLen d = 0
                      then (let (r, d') = StreamDecoder_read d
                            in (r, if r then d'\<lparr>m_dataPtr := 0\<rparr> else d'))
                      else (True, d))
      in if \<not> ok then (False, False, m_frame d1, Decoder_initializeFrame (d1\<lparr>m_dataLen := 0\<rparr>))
         else let (eof, fr, d2) = Decoder_scan_loop k maxSize d1 in (True, eof, fr, d2))"

text \<open>
  The blocking \<open>scan\<close> repeats it until a frame is complete or a read fails; every repetition
  uses up the cached data or a chunk of the input.
\<close>

partial_function (option) Decoder_scan_all :: "decoder_kind \<Rightarrow> nat \<Rightarrow> decoder \<Rightarrow> (bool \<times> bytes \<times> decoder) option" where
  "Decoder_scan_all k maxSize d =
     (let (ok, eof, fr, d1) = Decoder_scan_step k maxSize d
      in if \<not> ok then Some (False, fr, d1)
         else if eof then Some (True, fr, d1)
         else Decoder_scan_all k maxSize d1)"

definition Decoder_scan :: "decoder_kind \<Rightarrow> nat \<Rightarrow> decoder \<Rightarrow> (bool \<times> bytes \<times> decoder) option" where
  "Decoder_scan k maxSize d = Decoder_scan_all k maxSize (Decoder_initializeFrame d)"

definition Decoder_oobRead :: "decoder \<Rightarrow> nat \<Rightarrow> bool \<times> bytes \<times> decoder" where
  "Decoder_oobRead d numBytes =
     (if m_inFrame d then (False, [], d)
      else
        let (ok, d1) = (if m_dataLen d = 0
                        then (let (r, d') = StreamDecoder_read d in (r, if r then d'\<lparr>m_dataPtr := 0\<rparr> else d'))
                        else (True, d))
        in if \<not> ok then (False, [], d1)
           else if numBytes > m_dataLen d1
           then (True, take (m_dataLen d1) (drop (nat (m_dataPtr d1)) (m_buffer d1)), d1\<lparr>m_dataLen := 0\<rparr>)
           else (True, take numBytes (drop (nat (m_dataPtr d1)) (m_buffer d1)),
                 d1\<lparr>m_dataLen := m_dataLen d1 - numBytes, m_dataPtr := m_dataPtr d1 + int numBytes\<rparr>))"

section \<open>The scanner as an automaton over characters\<close>

text \<open>
  For the two decoders with start, end and escape characters, the scanner is an automaton
  over the characters of the input, whatever buffers they arrive in: it ends in a state
  (\<open>Inl\<close>) or with a frame and the characters that follow it (\<open>Inr\<close>).
\<close>

fun feed :: "frame_chars \<Rightarrow> (u8 \<Rightarrow> bool) \<Rightarrow> nat \<Rightarrow> bool \<times> bool \<times> bytes \<Rightarrow> bytes \<Rightarrow>
             (bool \<times> bool \<times> bytes) + (bytes \<times> bytes)" where
  "feed c legal n st [] = Inl st"
| "feed c legal n (inF, esc, acc) (x # xs) =
     (if \<not> inF then feed c legal n (if x = m_sof c then (True, False, []) else (False, esc, acc)) xs
      else if \<not> legal x then feed c legal n (False, esc, acc) xs
      else if \<not> esc \<and> x = m_eof c then Inr (acc, xs)
      else if \<not> esc \<and> x = m_esc c then feed c legal n (True, True, acc) xs
      else feed c legal n (if length acc < n then (True, False, acc @ [x]) else (False, False, [])) xs)"

lemma feed_append:
  "feed c legal n st (xs @ ys) =
     (case feed c legal n st xs of Inl st' \<Rightarrow> feed c legal n st' ys | Inr (fr, rest) \<Rightarrow> Inr (fr, rest @ ys))"
  by (induction c legal n st xs rule: feed.induct) simp_all

definition framed :: "decoder_kind \<Rightarrow> frame_chars \<Rightarrow> (u8 \<Rightarrow> bool) \<Rightarrow> bool" where
  "framed k c legal \<longleftrightarrow>
     (\<exists>r. k = Ascii_decoder c r \<and> legal = AsciiDecoder_isLegalCharacter r) \<or>
     (k = String_decoder c \<and> legal = (\<lambda>x. x \<noteq> 0))"

definition unread :: "decoder \<Rightarrow> bytes" where
  "unread d = drop (nat (m_dataPtr d)) (m_buffer d)"

definition decoder_ok :: "decoder \<Rightarrow> bool" where
  "decoder_ok d \<longleftrightarrow> (m_dataLen d > 0 \<longrightarrow> 0 \<le> m_dataPtr d) \<and>
     (m_dataLen d = 0 \<or> nat (m_dataPtr d) + m_dataLen d = length (m_buffer d))"

definition cached :: "decoder \<Rightarrow> bytes" where
  "cached d = (if m_dataLen d = 0 then [] else unread d)"

definition scan_state :: "decoder \<Rightarrow> bool \<times> bool \<times> bytes" where
  "scan_state d = (m_inFrame d, m_escaping d, m_frame d)"

lemma framed_methods:
  assumes "framed k c legal"
  shows "isStartOfFrame k d = (cur_char d = m_sof c, d)" and "isLegalCharacter k d = (legal (cur_char d), d)"
    and "isEofOfFrame k d \<longleftrightarrow> cur_char d = m_eof c" and "isEscapeChar k d \<longleftrightarrow> cur_char d = m_esc c"
  using assms
  by (auto simp: framed_def isStartOfFrame_def isLegalCharacter_def isEofOfFrame_def isEscapeChar_def)

lemma cached_Cons:
  assumes "decoder_ok d" and "cached d = x # xs"
  shows "cur_char d = x" and "m_dataLen d > 0" and "decoder_ok (advance_data d)" and "cached (advance_data d) = xs"
proof -
  from assms have len: "m_dataLen d > 0" and ptr: "0 \<le> m_dataPtr d" and dr: "drop (nat (m_dataPtr d)) (m_buffer d) = x # xs"
    and tot: "nat (m_dataPtr d) + m_dataLen d = length (m_buffer d)"
    by (auto simp: cached_def unread_def decoder_ok_def split: if_splits)
  show "m_dataLen d > 0" by (rule len)
  from dr show "cur_char d = x" by (metis cur_char_def hd_drop_conv_nth list.sel(1) drop_eq_Nil not_le list.distinct(1))
  have n: "nat (m_dataPtr d + 1) = Suc (nat (m_dataPtr d))" using ptr by simp
  have tl: "drop (Suc (nat (m_dataPtr d))) (m_buffer d) = xs" using dr by (metis drop_Suc list.sel(3) tl_drop)
  show "decoder_ok (advance_data d)" using tot ptr len n by (auto simp: decoder_ok_def advance_data_def)
  have "length xs = m_dataLen d - 1" using tot dr by (metis add_diff_cancel_left' diff_Suc_1 length_Cons length_drop)
  then show "cached (advance_data d) = xs" using tl n by (auto simp: cached_def unread_def advance_data_def)
qed

lemma cached_Nil: "decoder_ok d \<Longrightarrow> cached d = [] \<longleftrightarrow> m_dataLen d = 0"
  by (auto simp: cached_def unread_def decoder_ok_def)

lemma cached_upd [simp]:
  "cached (d\<lparr>m_inFrame := b\<rparr>) = cached d" "cached (d\<lparr>m_escaping := b\<rparr>) = cached d"
  "cached (d\<lparr>m_frame := f\<rparr>) = cached d" "cached (Decoder_initializeFrame d) = cached d"
  "decoder_ok (d\<lparr>m_inFrame := b\<rparr>) = decoder_ok d" "decoder_ok (d\<lparr>m_escaping := b\<rparr>) = decoder_ok d"
  "cached (d\<lparr>m_illegal := b\<rparr>) = cached d" "decoder_ok (d\<lparr>m_illegal := b\<rparr>) = decoder_ok d"
  "decoder_ok (d\<lparr>m_frame := f\<rparr>) = decoder_ok d" "decoder_ok (Decoder_initializeFrame d) = decoder_ok d"
  by (simp_all add: cached_def unread_def decoder_ok_def Decoder_initializeFrame_def)

lemma advance_upd:
  "scan_state (advance_data d) = scan_state d" "m_srcPtr (advance_data d) = m_srcPtr d"
  by (simp_all add: advance_data_def scan_state_def)

lemma not_escaping: "\<not> m_escaping d \<Longrightarrow> d\<lparr>m_escaping := False, m_frame := f\<rparr> = d\<lparr>m_frame := f\<rparr>"
  by (cases d) simp

lemma advance_frame [simp]: "m_frame (advance_data d) = m_frame d"
  by (simp add: advance_data_def)

text \<open>The outcome of the character loop that the automaton predicts.\<close>

definition loop_result :: "decoder \<Rightarrow> bool \<times> bytes \<times> decoder \<Rightarrow> (bool \<times> bool \<times> bytes) + (bytes \<times> bytes) \<Rightarrow> bool" where
  "loop_result d r f \<longleftrightarrow>
     (case r of (eof, fr, d') \<Rightarrow>
        decoder_ok d' \<and> m_srcPtr d' = m_srcPtr d \<and>
        (case f of
           Inl st \<Rightarrow> \<not> eof \<and> scan_state d' = st \<and> cached d' = []
         | Inr (frm, rest) \<Rightarrow> eof \<and> fr = frm \<and> scan_state d' = (False, False, []) \<and> cached d' = rest))"

lemma loop_result_src: "m_srcPtr d1 = m_srcPtr d \<Longrightarrow> loop_result d1 r f = loop_result d r f"
  by (simp add: loop_result_def)

lemma scan_loop_feed:
  assumes k: "framed k c legal"
  shows "decoder_ok d \<Longrightarrow> loop_result d (Decoder_scan_loop k n d) (feed c legal n (scan_state d) (cached d))"
proof (induction "cached d" arbitrary: d)
  case Nil
  then have "m_dataLen d = 0" using cached_Nil by metis
  then show ?case
    using Nil by (simp add: loop_result_def Decoder_scan_loop.simps [of k n d] flip: Nil(1))
next
  case (Cons x xs)
  note cur = cached_Cons [OF Cons(3) Cons(2) [symmetric]]
  have step: "loop_result d (Decoder_scan_loop k n (advance_data d1)) (feed c legal n (scan_state d1) xs)"
    if "decoder_ok d1" and "cached d1 = x # xs" and "m_srcPtr d1 = m_srcPtr d" for d1
    using Cons(1) [of "advance_data d1"] cached_Cons [OF that(1,2)] that(3)
      loop_result_src [of "advance_data d1" d] by (simp add: advance_upd)
  let ?start = "d\<lparr>m_inFrame := True, m_escaping := False, m_frame := []\<rparr>"
  have loop: "Decoder_scan_loop k n d =
    (if \<not> m_inFrame d then Decoder_scan_loop k n (advance_data (if x = m_sof c then ?start else d))
     else if \<not> legal x then Decoder_scan_loop k n (advance_data (d\<lparr>m_inFrame := False\<rparr>))
     else if \<not> m_escaping d \<and> x = m_eof c then (True, m_frame d, Decoder_initializeFrame (advance_data d))
     else if \<not> m_escaping d \<and> x = m_esc c then Decoder_scan_loop k n (advance_data (d\<lparr>m_escaping := True\<rparr>))
     else Decoder_scan_loop k n (advance_data
       (if m_frameSize d < n then d\<lparr>m_escaping := False, m_frame := m_frame d @ [x]\<rparr>
        else Decoder_initializeFrame d)))"
    using cur(1,2)
    by (subst Decoder_scan_loop.simps, cases "m_inFrame d"; cases "legal x"; cases "m_escaping d")
      (simp_all add: framed_methods [OF k] Decoder_decodeEscapedChar_def Let_def not_escaping)
  have ok: "decoder_ok d" "cached d = x # xs" using Cons(2,3) by simp_all
  show ?case
  proof (cases "m_inFrame d")
    case False
    then show ?thesis
      using step [of d] step [of ?start] ok by (simp add: loop scan_state_def)
  next
    case inF: True
    show ?thesis
    proof (cases "legal x")
      case False
      then show ?thesis
        using step [of "d\<lparr>m_inFrame := False\<rparr>"] ok inF by (simp add: loop scan_state_def)
    next
      case True
      then show ?thesis
        using step [of "d\<lparr>m_escaping := True\<rparr>"] step [of "Decoder_initializeFrame d"]
          step [of "d\<lparr>m_escaping := False, m_frame := m_frame d @ [x]\<rparr>"] ok inF cur(3,4)
        by (simp add: loop scan_state_def m_frameSize_def)
          (auto simp: loop_result_def scan_state_def Decoder_initializeFrame_def advance_data_def)
    qed
  qed
qed

text \<open>All the input that is still to be scanned, and a bound on the calls that remain.\<close>

definition Decoder_scan_more :: "decoder \<Rightarrow> nat" where
  "Decoder_scan_more d =
     2 * (case m_srcPtr d of None \<Rightarrow> 0 | Some cs \<Rightarrow> length cs) + (if m_dataLen d = 0 then 0 else 1)"

definition input_left :: "decoder \<Rightarrow> bytes" where
  "input_left d = cached d @ (case m_srcPtr d of None \<Rightarrow> [] | Some cs \<Rightarrow> concat cs)"

lemma scan_step_feed:
  assumes k: "framed k c legal" and d: "decoder_ok d" and r: "Decoder_scan_step k n d = (ok, eof, fr, d')"
  shows "decoder_ok d' \<and>
    (if ok then
       (case feed c legal n (scan_state d) (input_left d) of
          Inl st \<Rightarrow> \<not> eof \<and> feed c legal n (scan_state d') (input_left d') = Inl st
        | Inr (frm, rest) \<Rightarrow>
            if eof then fr = frm \<and> input_left d' = rest \<and> scan_state d' = (False, False, [])
            else feed c legal n (scan_state d') (input_left d') = Inr (frm, rest))
       \<and> (\<not> eof \<longrightarrow> Decoder_scan_more d' < Decoder_scan_more d)
     else input_left d = [] \<and> input_left d' = [])"
proof -
  have main: "decoder_ok d' \<and>
       (case feed c legal n (scan_state d) (cached d1 @ tl') of
          Inl st \<Rightarrow> \<not> eof \<and> feed c legal n (scan_state d') (input_left d') = Inl st
        | Inr (frm, rest) \<Rightarrow>
            if eof then fr = frm \<and> input_left d' = rest \<and> scan_state d' = (False, False, [])
            else feed c legal n (scan_state d') (input_left d') = Inr (frm, rest)) \<and>
       (\<not> eof \<longrightarrow> m_dataLen d' = 0) \<and> m_srcPtr d' = m_srcPtr d1"
    if d1: "decoder_ok d1" "scan_state d1 = scan_state d" "tl' = (case m_srcPtr d1 of None \<Rightarrow> [] | Some cs \<Rightarrow> concat cs)"
      and l: "Decoder_scan_loop k n d1 = (eof, fr, d')" for d1 tl'
  proof -
    have lr: "loop_result d1 (eof, fr, d') (feed c legal n (scan_state d) (cached d1))"
      using scan_loop_feed [OF k d1(1), of n] l d1(2) by simp
    then have "m_srcPtr d' = m_srcPtr d1" by (simp add: loop_result_def)
    then have left: "input_left d' = cached d' @ tl'" by (simp add: input_left_def d1(3))
    show ?thesis
    proof (cases "feed c legal n (scan_state d) (cached d1)")
      case (Inl st)
      with lr left show ?thesis
        by (auto simp: feed_append loop_result_def cached_Nil split: sum.splits)
    next
      case (Inr res)
      with lr left show ?thesis
        by (auto simp: feed_append loop_result_def split: sum.splits prod.splits)
    qed
  qed
  show ?thesis
  proof (cases "m_dataLen d = 0")
    case False
    then have "Decoder_scan_loop k n d = (eof, fr, d')" and "ok"
      using r by (auto simp: Decoder_scan_step_def split: prod.splits)
    with main [OF d refl refl] False show ?thesis
      by (auto simp: input_left_def Decoder_scan_more_def split: sum.splits prod.splits)
  next
    case empty: True
    show ?thesis
    proof (cases "m_srcPtr d = None \<or> m_srcPtr d = Some []")
      case True
      then show ?thesis
        using r empty by (auto simp: Decoder_scan_step_def StreamDecoder_read_def input_left_def cached_def
            decoder_ok_def Decoder_initializeFrame_def split: option.splits)
    next
      case False
      then obtain ch cs where src: "m_srcPtr d = Some (ch # cs)" by (cases "m_srcPtr d"; cases "the (m_srcPtr d)") auto
      let ?d1 = "d\<lparr>m_buffer := ch, m_dataLen := length ch, m_srcPtr := Some cs, m_dataPtr := 0\<rparr>"
      have l: "Decoder_scan_loop k n ?d1 = (eof, fr, d')" and "ok"
        using r empty src by (auto simp: Decoder_scan_step_def StreamDecoder_read_def split: prod.splits)
      have "decoder_ok ?d1" and "scan_state ?d1 = scan_state d" and "cached ?d1 = ch"
        by (auto simp: decoder_ok_def scan_state_def cached_def unread_def)
      with main [OF this(1,2) refl l] src empty \<open>ok\<close> show ?thesis
        by (auto simp: input_left_def cached_def Decoder_scan_more_def split: sum.splits prod.splits)
    qed
  qed
qed

lemma scan_all_feed:
  assumes k: "framed k c legal"
  shows "decoder_ok d \<Longrightarrow>
    (case feed c legal n (scan_state d) (input_left d) of
       Inl st \<Rightarrow> \<exists>fr d'. Decoder_scan_all k n d = Some (False, fr, d') \<and> decoder_ok d' \<and> input_left d' = []
     | Inr (frm, rest) \<Rightarrow> \<exists>d'. Decoder_scan_all k n d = Some (True, frm, d') \<and> decoder_ok d' \<and>
                              scan_state d' = (False, False, []) \<and> input_left d' = rest)"
proof (induction d rule: measure_induct_rule [of Decoder_scan_more])
  case (less d)
  obtain ok eof fr d' where r: "Decoder_scan_step k n d = (ok, eof, fr, d')" by (metis prod_cases4)
  note step = scan_step_feed [OF k less.prems r]
  have unf: "Decoder_scan_all k n d =
      (if \<not> ok then Some (False, fr, d') else if eof then Some (True, fr, d') else Decoder_scan_all k n d')"
    by (subst Decoder_scan_all.simps) (simp add: r)
  show ?case
  proof (cases "ok \<and> \<not> eof")
    case False
    with step unf show ?thesis by (auto split: sum.splits prod.splits)
  next
    case True
    with step have "Decoder_scan_more d' < Decoder_scan_more d" "decoder_ok d'" by auto
    from less.IH [OF this] True step unf show ?thesis by (auto split: sum.splits prod.splits if_splits)
  qed
qed

section \<open>Round trip\<close>

lemma feed_payload:
  assumes esc: "m_esc c \<noteq> 0" "m_esc c \<noteq> m_eof c" and legal: "legal (m_esc c)" "legal (m_eof c)"
  shows "length acc + length xs \<le> n \<Longrightarrow> list_all legal xs \<Longrightarrow>
    feed c legal n (True, False, acc) (escape_text c xs @ m_eof c # rest) = Inr (acc @ xs, rest)"
proof (induction xs arbitrary: acc)
  case Nil
  with legal show ?case by (simp add: escape_text_def)
next
  case (Cons x xs)
  with Cons.IH [of "acc @ [x]"] esc legal show ?case
    by (auto simp: escape_text_def escape_char_def)
qed

lemma feed_junk:
  "m_sof c \<notin> set junk \<Longrightarrow> feed c legal n (False, e, a) (junk @ ys) = feed c legal n (False, e, a) ys"
  by (induction junk) auto

text \<open>
  What a decoder needs of the special characters: the escape character is in use and differs
  from the end character, and the decoder accepts both inside a frame.
\<close>

definition chars_ok :: "frame_chars \<Rightarrow> (u8 \<Rightarrow> bool) \<Rightarrow> bool" where
  "chars_ok c legal \<longleftrightarrow> m_esc c \<noteq> 0 \<and> m_esc c \<noteq> m_eof c \<and> legal (m_esc c) \<and> legal (m_eof c)"

lemma scan_frame:
  assumes k: "framed k c legal" and c: "chars_ok c legal" and d: "decoder_ok d"
    and inp: "input_left d = junk @ m_sof c # escape_text c xs @ m_eof c # rest"
    and junk: "m_sof c \<notin> set junk" and xs: "list_all legal xs" "length xs \<le> n"
  shows "\<exists>d'. Decoder_scan k n d = Some (True, xs, d') \<and> decoder_ok d' \<and> input_left d' = rest"
proof -
  let ?d = "Decoder_initializeFrame d"
  have "scan_state ?d = (False, False, [])" by (simp add: scan_state_def Decoder_initializeFrame_def)
  moreover have "input_left ?d = input_left d" by (simp add: input_left_def Decoder_initializeFrame_def cached_def unread_def)
  moreover have "feed c legal n (False, False, []) (input_left d) = Inr (xs, rest)"
    using feed_junk [OF junk, of legal n False "[]"] feed_payload [of c legal "[]" xs n rest] c xs
    by (simp add: inp chars_ok_def)
  ultimately show ?thesis
    using scan_all_feed [OF k, of ?d n] d by (auto simp: Decoder_scan_def)
qed

text \<open>Repeated calls of \<open>scan\<close>, as long as they find frames.\<close>

fun scan_frames :: "decoder_kind \<Rightarrow> nat \<Rightarrow> nat \<Rightarrow> decoder \<Rightarrow> bytes list option" where
  "scan_frames k n 0 d = Some []"
| "scan_frames k n (Suc m) d = do {
     (ok, fr, d') \<leftarrow> Decoder_scan k n d;
     if ok then do { frs \<leftarrow> scan_frames k n m d'; Some (fr # frs) } else Some []
   }"

lemma scan_frames_ok:
  assumes k: "framed k c legal" and c: "chars_ok c legal" and sep: "m_sof c \<notin> set sep"
  shows "decoder_ok d \<Longrightarrow>
    input_left d = junk @ concat (map (\<lambda>xs. m_sof c # escape_text c xs @ m_eof c # sep) msgs) \<Longrightarrow>
    m_sof c \<notin> set junk \<Longrightarrow> \<forall>xs\<in>set msgs. list_all legal xs \<and> length xs \<le> n \<Longrightarrow>
    scan_frames k n (length msgs) d = Some msgs"
proof (induction msgs arbitrary: d junk)
  case (Cons xs msgs)
  let ?rest = "sep @ concat (map (\<lambda>xs. m_sof c # escape_text c xs @ m_eof c # sep) msgs)"
  obtain d' where "Decoder_scan k n d = Some (True, xs, d')" "decoder_ok d'" "input_left d' = ?rest"
    using scan_frame [OF k c Cons.prems(1), of junk xs ?rest n] Cons.prems by auto
  with Cons.IH [of d' sep] sep Cons.prems(4) show ?case by simp
qed simp

text \<open>Several frames written one after the other.\<close>

fun encode_frames ::
    "encoder_kind \<Rightarrow> 'o writer \<Rightarrow> encoder_cfg \<Rightarrow> 'o encoder \<Rightarrow> bytes list list \<Rightarrow> bool \<times> 'o encoder" where
  "encode_frames k wr c e [] = (True, e)"
| "encode_frames k wr c e (ps # pss) =
     (let (ok, e1) = encode_frame k wr c e ps in if ok then encode_frames k wr c e1 pss else (False, e1))"

lemma encode_frames_idle:
  "encoder_idle k e w \<Longrightarrow>
   \<exists>e'. encode_frames k accept_all c e pss = (True, e') \<and>
        encoder_idle k e' (w @ concat (map (\<lambda>ps. frame_text c (concat ps)) pss))"
proof (induction pss arbitrary: e w)
  case (Cons ps pss)
  obtain e1 where "encode_frame k accept_all c e ps = (True, e1)" "encoder_idle k e1 (w @ frame_text c (concat ps))"
    using encode_frame_idle [OF Cons.prems] by metis
  with Cons.IH [of e1 "w @ frame_text c (concat ps)"] show ?case by simp
qed simp

section \<open>Lines\<close>

definition printable :: "u8 \<Rightarrow> bool" where
  "printable x \<longleftrightarrow> 0x20 \<le> x \<and> x \<le> 0x7E"

lemma printable_not: "printable x \<Longrightarrow> x \<noteq> 0x09 \<and> x \<noteq> 0x0A \<and> x \<noteq> 0x0D \<and> \<not> 0x7E < x \<and> \<not> x < 0x20"
  by (auto simp: printable_def not_less)

lemma line_start:
  assumes "decoder_ok d" and "cached d = x # xs" and "\<not> m_inFrame d" and "\<not> m_illegal d" and "printable x"
  shows "Decoder_scan_loop (Line_decoder t) n d =
         Decoder_scan_loop (Line_decoder t) n (d\<lparr>m_inFrame := True, m_escaping := False, m_frame := []\<rparr>)"
  using cached_Cons(1,2) [OF assms(1,2)] assms(3-5) printable_not [OF assms(5)]
  by (subst Decoder_scan_loop.simps)
    (simp add: isStartOfFrame_def LineDecoder_isStartOfFrame_def convert_tab_def isEofOfFrame_def
      printable_def advance_data_def)

lemma line_char:
  assumes "decoder_ok d" and "cached d = x # xs" and "m_inFrame d" and "\<not> m_escaping d" and "printable x"
    and "length (m_frame d) < n"
  shows "Decoder_scan_loop (Line_decoder t) n d =
         Decoder_scan_loop (Line_decoder t) n (advance_data (d\<lparr>m_frame := m_frame d @ [x]\<rparr>))"
  using cached_Cons(1,2) [OF assms(1,2)] assms(3-6) printable_not [OF assms(5)]
  by (subst Decoder_scan_loop.simps)
    (simp add: isLegalCharacter_def LineDecoder_isLegalCharacter_def convert_tab_def isEofOfFrame_def
      isEscapeChar_def m_frameSize_def)

lemma line_end:
  assumes "decoder_ok d" and "cached d = x # xs" and "m_inFrame d" and "\<not> m_escaping d" and "x = 0x0A \<or> x = 0x0D"
  shows "Decoder_scan_loop (Line_decoder t) n d =
         (True, m_frame d, Decoder_initializeFrame (advance_data (d\<lparr>m_illegal := False\<rparr>)))"
proof -
  let ?d = "d\<lparr>m_illegal := False\<rparr>"
  have cur: "cur_char d = 0x0A \<or> cur_char d = 0x0D" "m_dataLen d \<noteq> 0"
    using cached_Cons(1,2) [OF assms(1,2)] assms(5) by simp_all
  then have "convert_tab t d = d" by (auto simp: convert_tab_def)
  with cur(1) have "isLegalCharacter (Line_decoder t) d = (True, ?d)"
    by (simp add: isLegalCharacter_def LineDecoder_isLegalCharacter_def isEofOfFrame_def)
  moreover have "isEofOfFrame (Line_decoder t) ?d" "\<not> m_escaping ?d"
    using cur(1) assms(4) by (simp_all add: isEofOfFrame_def cur_char_def)
  moreover have "m_frame (advance_data ?d) = m_frame d" by (simp add: advance_data_def)
  ultimately show ?thesis
    using assms(3) cur(2)
    by (subst Decoder_scan_loop.simps) (simp only: if_False if_True Let_def split_conv not_True_eq_False not_False_eq_True)
qed

lemma line_payload:
  assumes "x = 0x0A \<or> x = 0x0D"
  shows "decoder_ok d \<Longrightarrow> cached d = xs @ x # rest \<Longrightarrow> m_inFrame d \<Longrightarrow> \<not> m_escaping d \<Longrightarrow>
    list_all printable xs \<Longrightarrow> length (m_frame d) + length xs \<le> n \<Longrightarrow>
    \<exists>d'. Decoder_scan_loop (Line_decoder t) n d = (True, m_frame d @ xs, d') \<and> decoder_ok d' \<and> cached d' = rest \<and>
         scan_state d' = (False, False, []) \<and> \<not> m_illegal d' \<and> m_srcPtr d' = m_srcPtr d"
proof (induction xs arbitrary: d)
  case Nil
  have c: "decoder_ok (d\<lparr>m_illegal := False\<rparr>)" "cached (d\<lparr>m_illegal := False\<rparr>) = x # rest"
    using Nil.prems by simp_all
  from Nil.prems line_end [OF _ _ _ _ assms, of d rest t n] cached_Cons(3,4) [OF c] show ?case
    by (auto simp: scan_state_def Decoder_initializeFrame_def advance_data_def)
next
  case (Cons y ys)
  let ?d = "d\<lparr>m_frame := m_frame d @ [y]\<rparr>"
  have c: "decoder_ok ?d" "cached ?d = y # (ys @ x # rest)" using Cons.prems by simp_all
  have "Decoder_scan_loop (Line_decoder t) n d = Decoder_scan_loop (Line_decoder t) n (advance_data ?d)"
    using Cons.prems by (intro line_char) auto
  with Cons.IH [of "advance_data ?d"] cached_Cons(3,4) [OF c] Cons.prems show ?case
    by (simp add: advance_data_def)
qed

section \<open>Room in the caller's buffer\<close>

text \<open>
  For every kind of decoder: the characters it accepts, and what holds of the decoder between two characters for a
  buffer of \<open>n\<close> bytes.  The line decoder knows no escape sequences.
\<close>

definition decodable :: "decoder_kind \<Rightarrow> u8 \<Rightarrow> bool" where
  "decodable k x \<longleftrightarrow>
     (case k of
        Ascii_decoder c restricted \<Rightarrow> AsciiDecoder_isLegalCharacter restricted x
      | String_decoder c \<Rightarrow> x \<noteq> 0
      | Line_decoder convertTabs \<Rightarrow> printable x)"

definition escapes :: "decoder_kind \<Rightarrow> bool" where
  "escapes k \<longleftrightarrow> (case k of Line_decoder convertTabs \<Rightarrow> False | _ \<Rightarrow> True)"

definition room_ok :: "decoder_kind \<Rightarrow> nat \<Rightarrow> decoder \<Rightarrow> bool" where
  "room_ok k n d \<longleftrightarrow> decoder_ok d \<and> length (m_frame d) \<le> n \<and> list_all (decodable k) (m_frame d) \<and> (m_escaping d \<longrightarrow> escapes k)"

lemma room_ok_init: "decoder_ok d \<Longrightarrow> room_ok k n (Decoder_initializeFrame d)"
  by (simp add: room_ok_def) (simp add: Decoder_initializeFrame_def)

lemma decoder_ok_advance: "decoder_ok d \<Longrightarrow> m_dataLen d \<noteq> 0 \<Longrightarrow> decoder_ok (advance_data d)"
  by (auto simp: decoder_ok_def advance_data_def nat_add_distrib)

lemma start_keeps:
  assumes "isStartOfFrame k d = (sof, d1)" and "decoder_ok d" and "m_dataLen d \<noteq> 0"
  shows "decoder_ok (advance_data d1)" "m_frame d1 = m_frame d" "m_escaping d1 = m_escaping d" "m_srcPtr d1 = m_srcPtr d"
proof -
  show "decoder_ok (advance_data d1)"
    using assms decoder_ok_advance [OF assms(2,3)]
    by (auto simp: isStartOfFrame_def LineDecoder_isStartOfFrame_def convert_tab_def decoder_ok_def advance_data_def Let_def
        split: decoder_kind.splits if_splits)
  show "m_frame d1 = m_frame d" "m_escaping d1 = m_escaping d" "m_srcPtr d1 = m_srcPtr d"
    using assms(1)
    by (auto simp: isStartOfFrame_def LineDecoder_isStartOfFrame_def convert_tab_def Let_def split: decoder_kind.splits if_splits)
qed

lemma legal_keeps:
  assumes "isLegalCharacter k d = (legal, d1)"
  shows "decoder_ok d1 = decoder_ok d" "m_frame d1 = m_frame d" "m_escaping d1 = m_escaping d" "m_srcPtr d1 = m_srcPtr d"
    and "legal \<Longrightarrow> escapes k \<or> \<not> isEofOfFrame k d1 \<Longrightarrow> decodable k (cur_char d1)" and "isEscapeChar k d1 \<Longrightarrow> escapes k"
proof -
  show "decoder_ok d1 = decoder_ok d" "m_frame d1 = m_frame d" "m_escaping d1 = m_escaping d" "m_srcPtr d1 = m_srcPtr d"
    using assms
    by (auto simp: isLegalCharacter_def LineDecoder_isLegalCharacter_def convert_tab_def decoder_ok_def Let_def
        split: decoder_kind.splits if_splits)
  show "legal \<Longrightarrow> escapes k \<or> \<not> isEofOfFrame k d1 \<Longrightarrow> decodable k (cur_char d1)"
    using assms
    by (auto simp: isLegalCharacter_def LineDecoder_isLegalCharacter_def decodable_def escapes_def isEofOfFrame_def printable_def
        cur_char_def Let_def split: decoder_kind.splits if_splits)
  show "isEscapeChar k d1 \<Longrightarrow> escapes k" by (simp add: isEscapeChar_def escapes_def split: decoder_kind.splits)
qed

text \<open>One turn of the character loop: it goes on with less input, or ends with the frame.\<close>

definition scan_weight :: "decoder \<Rightarrow> nat" where
  "scan_weight d = 2 * m_dataLen d + (if m_inFrame d then 0 else 1)"

definition goes_on :: "decoder_kind \<Rightarrow> nat \<Rightarrow> decoder \<Rightarrow> decoder \<Rightarrow> bool" where
  "goes_on k n d d2 \<longleftrightarrow> Decoder_scan_loop k n d = Decoder_scan_loop k n d2 \<and> room_ok k n d2 \<and> m_srcPtr d2 = m_srcPtr d \<and>
     scan_weight d2 < scan_weight d"

lemma goes_on_advance:
  assumes "Decoder_scan_loop k n d = Decoder_scan_loop k n (advance_data d2)" and "room_ok k n d2" and "m_dataLen d2 = m_dataLen d"
    and "m_dataLen d \<noteq> 0" and "m_srcPtr d2 = m_srcPtr d" and "m_inFrame d"
  shows "goes_on k n d (advance_data d2)"
  using assms decoder_ok_advance [of d2] unfolding goes_on_def
  by (simp add: room_ok_def advance_upd) (auto simp: advance_data_def scan_weight_def)

lemma start_char:
  assumes "room_ok k n d" and "m_dataLen d \<noteq> 0" and "\<not> m_inFrame d"
  shows "\<exists>d2. goes_on k n d d2"
proof -
  obtain sof d1 where s: "isStartOfFrame k d = (sof, d1)" by fastforce
  let ?d2 = "if sof then d1\<lparr>m_inFrame := True, m_escaping := False, m_frame := []\<rparr> else d1"
  have ok: "decoder_ok d" using assms(1) by (simp add: room_ok_def)
  have l: "Decoder_scan_loop k n d = Decoder_scan_loop k n (advance_data ?d2)"
    using assms(2,3) s by (simp add: Decoder_scan_loop.simps [of k n d])
  have "room_ok k n (advance_data ?d2)" "m_srcPtr (advance_data ?d2) = m_srcPtr d"
    using start_keeps [OF s ok assms(2)] assms(1) by (auto simp: room_ok_def advance_data_def decoder_ok_def)
  moreover have "scan_weight (advance_data ?d2) < scan_weight d"
    using isStartOfFrame_len [OF s] assms(2,3) by (auto simp: scan_weight_def advance_data_def)
  ultimately show ?thesis using l unfolding goes_on_def by blast
qed

lemma frame_char:
  assumes "room_ok k n d" and "m_dataLen d \<noteq> 0" and "m_inFrame d"
  shows "(\<exists>d2. goes_on k n d d2) \<or>
    (\<exists>d2. Decoder_scan_loop k n d = (True, m_frame d, d2) \<and> room_ok k n d2 \<and> m_srcPtr d2 = m_srcPtr d)"
proof -
  obtain legal d1 where s: "isLegalCharacter k d = (legal, d1)" by fastforce
  note keep = legal_keeps [OF s]
  have d1: "room_ok k n d1" "m_srcPtr d1 = m_srcPtr d" "m_dataLen d1 = m_dataLen d"
    using assms(1) keep(1-4) isLegalCharacter_len [OF s] by (simp_all add: room_ok_def)
  let ?store = "if m_frameSize d1 < n then d1\<lparr>m_escaping := False, m_frame := m_frame d1 @ [cur_char d1]\<rparr> else Decoder_initializeFrame d1"
  consider (illegal) "\<not> legal" | (eof) "legal" "\<not> m_escaping d1" "isEofOfFrame k d1"
    | (esc) "legal" "\<not> m_escaping d1" "\<not> isEofOfFrame k d1" "isEscapeChar k d1"
    | (store) "legal" "m_escaping d1 \<or> \<not> isEofOfFrame k d1 \<and> \<not> isEscapeChar k d1" by blast
  then show ?thesis
  proof cases
    case illegal
    have "goes_on k n d (advance_data (d1\<lparr>m_inFrame := False\<rparr>))"
      by (rule goes_on_advance) (use assms s d1 illegal in \<open>simp_all add: Decoder_scan_loop.simps [of k n d] room_ok_def\<close>)
    then show ?thesis by blast
  next
    case eof
    have "Decoder_scan_loop k n d = (True, m_frame d1, Decoder_initializeFrame (advance_data d1))"
      using assms(2,3) s eof by (simp add: Decoder_scan_loop.simps [of k n d])
    moreover have "room_ok k n (Decoder_initializeFrame (advance_data d1))"
      using d1(1,3) assms(2) decoder_ok_advance [of d1] by (intro room_ok_init) (simp add: room_ok_def)
    moreover have "m_srcPtr (Decoder_initializeFrame (advance_data d1)) = m_srcPtr d"
      using d1(2) by (simp add: Decoder_initializeFrame_def advance_data_def)
    ultimately show ?thesis using keep(2) by auto
  next
    case esc
    have "goes_on k n d (advance_data (d1\<lparr>m_escaping := True\<rparr>))"
      by (rule goes_on_advance) (use assms s d1 esc keep(6) in \<open>simp_all add: Decoder_scan_loop.simps [of k n d] room_ok_def\<close>)
    then show ?thesis by blast
  next
    case store
    have acc: "decodable k (cur_char d1)" using keep(5) store d1(1) by (auto simp: room_ok_def)
    have "room_ok k n ?store" using d1 acc room_ok_init [of d1 k n] by (auto simp: room_ok_def m_frameSize_def)
    moreover have "Decoder_scan_loop k n d = Decoder_scan_loop k n (advance_data ?store)"
      using assms(2,3) s store
      by (cases "m_escaping d1") (auto simp: Decoder_scan_loop.simps [of k n d] Decoder_decodeEscapedChar_def not_escaping)
    moreover have "m_dataLen ?store = m_dataLen d" "m_srcPtr ?store = m_srcPtr d"
      using d1 by (simp_all add: Decoder_initializeFrame_def)
    ultimately have "goes_on k n d (advance_data ?store)" using assms by (intro goes_on_advance)
    then show ?thesis by blast
  qed
qed

lemma scan_loop_room:
  assumes "room_ok k n d" and "Decoder_scan_loop k n d = (eof, fr, d')"
  shows "room_ok k n d' \<and> length fr \<le> n \<and> list_all (decodable k) fr \<and> m_srcPtr d' = m_srcPtr d \<and> (\<not> eof \<longrightarrow> m_dataLen d' = 0)"
  using assms
proof (induction d rule: measure_induct_rule [of scan_weight])
  case (less d)
  consider "m_dataLen d = 0" | d2 where "goes_on k n d d2"
    | d2 where "Decoder_scan_loop k n d = (True, m_frame d, d2)" "room_ok k n d2" "m_srcPtr d2 = m_srcPtr d"
    using start_char [OF less.prems(1)] frame_char [OF less.prems(1)] by blast
  then show ?case
  proof cases
    case 1
    then show ?thesis using less.prems by (auto simp: Decoder_scan_loop.simps [of k n d] room_ok_def)
  next
    case 2
    then show ?thesis using less.IH [of d2] less.prems(2) by (simp add: goes_on_def)
  next
    case 3
    then show ?thesis using less.prems by (simp add: room_ok_def)
  qed
qed

lemma scan_step_room:
  assumes "room_ok k n d" and "Decoder_scan_step k n d = (ok, eof, fr, d')"
  shows "room_ok k n d' \<and> length fr \<le> n \<and> list_all (decodable k) fr \<and>
    (if ok then \<not> eof \<longrightarrow> Decoder_scan_more d' < Decoder_scan_more d else input_left d' = [])"
proof (cases "m_dataLen d = 0 \<and> (m_srcPtr d = None \<or> m_srcPtr d = Some [])")
  case True
  let ?d = "Decoder_initializeFrame (d\<lparr>m_dataLen := 0\<rparr>)"
  have "Decoder_scan_step k n d = (False, False, m_frame d, ?d)"
    using True by (auto simp: Decoder_scan_step_def StreamDecoder_read_def)
  moreover have "room_ok k n ?d" by (rule room_ok_init) (simp add: decoder_ok_def)
  moreover have "input_left ?d = []" using True by (auto simp: input_left_def cached_def Decoder_initializeFrame_def)
  ultimately show ?thesis using assms by (auto simp: room_ok_def)
next
  case False
  define d1 where "d1 = (if m_dataLen d = 0 then case m_srcPtr d of Some (ch # cs) \<Rightarrow>
    d\<lparr>m_buffer := ch, m_dataLen := length ch, m_srcPtr := Some cs, m_dataPtr := 0\<rparr> else d)"
  have l: "Decoder_scan_loop k n d1 = (eof, fr, d')" and "ok"
    using assms(2) False
    by (auto simp: d1_def Decoder_scan_step_def StreamDecoder_read_def split: prod.splits option.splits list.splits if_splits)
  have "room_ok k n d1" using assms(1) False
    by (auto simp: d1_def room_ok_def decoder_ok_def split: option.splits list.splits)
  note r = scan_loop_room [OF this l]
  have "Decoder_scan_more d' < Decoder_scan_more d" if "\<not> eof"
    using r that False by (auto simp: d1_def Decoder_scan_more_def split: option.splits list.splits if_splits)
  then show ?thesis using r \<open>ok\<close> by simp
qed

lemma scan_all_room:
  "room_ok k n d \<Longrightarrow> \<exists>ok fr d'. Decoder_scan_all k n d = Some (ok, fr, d') \<and> room_ok k n d' \<and> length fr \<le> n \<and>
     list_all (decodable k) fr \<and> (\<not> ok \<longrightarrow> input_left d' = [])"
proof (induction d rule: measure_induct_rule [of Decoder_scan_more])
  case (less d)
  obtain ok eof fr d' where r: "Decoder_scan_step k n d = (ok, eof, fr, d')" by (metis prod_cases4)
  note step = scan_step_room [OF less.prems r]
  have "Decoder_scan_all k n d =
      (if \<not> ok then Some (False, fr, d') else if eof then Some (True, fr, d') else Decoder_scan_all k n d')"
    by (subst Decoder_scan_all.simps) (simp add: r)
  then show ?case using step less.IH [of d'] by (cases "ok \<and> \<not> eof") auto
qed

section \<open>Properties\<close>

text \<open>
  C13. What the encoders write, the decoders read back.  Payloads given in any pieces to a
  stream or block encoder (with any block size of at least one byte), written to a stream and
  read from it in chunks of any sizes, empty ones included, come out of successive calls of
  \<open>scan\<close> unchanged and in order.  The start, end and escape characters may occur in the
  payload; the decoder must accept its characters and have room for the longest one, and
  the optional newline between frames must not contain the start character.
\<close>
theorem frames_round_trip:
  assumes "encoder_idle ek e []" and "encode_frames ek accept_all cfg e pss = (ok, e')"
    and "framed k (frame_chars.truncate cfg) legal" and "chars_ok (frame_chars.truncate cfg) legal"
    and "m_sof cfg \<noteq> 0" and "m_appendNewline cfg \<longrightarrow> m_sof cfg \<notin> set (escape_text cfg (newline_standard cfg))"
    and "\<forall>ps\<in>set pss. list_all legal (concat ps) \<and> length (concat ps) \<le> n"
    and "m_dataLen d = 0" and "m_srcPtr d = Some chunks" and "e_dstPtr e' = Some (concat chunks)"
  shows "ok \<and> scan_frames k n (length pss) d = Some (map concat pss)"
proof -
  let ?c = "frame_chars.truncate cfg"
  let ?sep = "if m_appendNewline cfg then escape_text cfg (newline_standard cfg) else []"
  have trunc: "escape_text ?c = escape_text cfg" "m_sof ?c = m_sof cfg" "m_eof ?c = m_eof cfg"
    by (simp_all add: fun_eq_iff escape_text_def escape_char_def [abs_def] frame_chars.truncate_def cong: if_cong)
  from encode_frames_idle [OF assms(1)] assms(2,10)
  have "ok" and "concat chunks = concat (map (\<lambda>ps. frame_text cfg (concat ps)) pss)"
    by (auto simp: encoder_idle_def) (metis prod.inject option.inject)+
  moreover have "decoder_ok d" "input_left d = concat chunks"
    using assms(8,9) by (simp_all add: decoder_ok_def input_left_def cached_def)
  ultimately have "scan_frames k n (length (map concat pss)) d = Some (map concat pss)"
    using assms(5-7)
    by (intro scan_frames_ok [OF assms(3,4), of ?sep _ "[]"])
      (auto simp: trunc frame_text_def comp_def)
  with \<open>ok\<close> show ?thesis by simp
qed

definition fresh_decoder :: "bytes list \<Rightarrow> decoder" where
  "fresh_decoder chunks = \<lparr>m_dataLen = 0, m_dataPtr = 0, m_buffer = [], m_inFrame = False, m_escaping = False,
     m_frame = [], m_illegal = False, m_srcPtr = Some chunks\<rparr>"

definition sample_encoder :: "bytes encoder" where
  "sample_encoder = \<lparr>e_inFrame = False, e_dstPtr = Some [], e_buffer = [0, 0], e_bufferCount = 0\<rparr>"

theorem frames_round_trip_witness:
  "scan_frames (Ascii_decoder (frame_chars.truncate sample_cfg) True) 8 2
     (fresh_decoder [[0x2E, 0x61, 0x7E], [], [0x3B, 0x3B, 0x2E], [0x2E, 0x3B]]) = Some [[0x61, 0x3B], [0x2E]]"
proof -
  let ?c = "frame_chars.truncate sample_cfg"
  let ?chunks = "[[0x2E, 0x61, 0x7E], [], [0x3B, 0x3B, 0x2E], [0x2E, 0x3B]] :: bytes list"
  let ?pss = "[[[0x61], [0x3B]], [[0x2E]]] :: bytes list list"
  have idle: "encoder_idle Block_encoder sample_encoder []" by (simp add: encoder_idle_def sample_encoder_def)
  obtain e' where e': "encode_frames Block_encoder accept_all sample_cfg sample_encoder ?pss = (True, e')"
    "encoder_idle Block_encoder e' (concat (map (\<lambda>ps. frame_text sample_cfg (concat ps)) ?pss))"
    using encode_frames_idle [OF idle, of sample_cfg ?pss] by auto
  have dst: "e_dstPtr e' = Some (concat ?chunks)"
    using e'(2) by (simp add: encoder_idle_def frame_text_def escape_text_def escape_char_def sample_cfg_def)
  have fr: "framed (Ascii_decoder ?c True) ?c (AsciiDecoder_isLegalCharacter True)" by (auto simp: framed_def)
  have ok: "chars_ok ?c (AsciiDecoder_isLegalCharacter True)"
    by (simp add: chars_ok_def sample_cfg_def frame_chars.truncate_def AsciiDecoder_isLegalCharacter_def)
  have sof: "m_sof sample_cfg \<noteq> 0" and nl: "m_appendNewline sample_cfg \<longrightarrow>
      m_sof sample_cfg \<notin> set (escape_text sample_cfg (newline_standard sample_cfg))"
    by (simp_all add: sample_cfg_def)
  have fits: "\<forall>ps\<in>set ?pss. list_all (AsciiDecoder_isLegalCharacter True) (concat ps) \<and> length (concat ps) \<le> 8"
    by (simp add: AsciiDecoder_isLegalCharacter_def)
  have src: "m_dataLen (fresh_decoder ?chunks) = 0" "m_srcPtr (fresh_decoder ?chunks) = Some ?chunks"
    by (simp_all add: fresh_decoder_def)
  have "length ?pss = 2" and "map concat ?pss = [[0x61, 0x3B], [0x2E]]" by simp_all
  with frames_round_trip [OF idle e'(1) fr ok sof nl fits src dst] show ?thesis by (simp only: simp_thms)
qed

text \<open>
  C23. Whatever bytes arrive, in whatever chunks, a call of \<open>scan\<close> of any of the three decoders (ASCII, string and
  line) returns.  The characters it has stored in the caller's buffer, whether it reports a frame or ran out of input
  in the middle of one, are accepted by the decoder and not more than there is room for, and when it reports no
  frame the whole input has been read.  The same holds after every pass over the cached input: a call of the scan
  that returns at the end of a chunk keeps within the room.
\<close>
theorem scan_total_bounded:
  assumes "decoder_ok d"
  shows "(\<exists>ok fr d'. Decoder_scan k n d = Some (ok, fr, d') \<and> decoder_ok d' \<and>
           length fr \<le> n \<and> list_all (decodable k) fr \<and> (\<not> ok \<longrightarrow> input_left d' = [])) \<and>
         (room_ok k n d \<longrightarrow> (case Decoder_scan_step k n d of (ok, eof, fr, d') \<Rightarrow>
            length fr \<le> n \<and> list_all (decodable k) fr \<and> room_ok k n d'))"
proof
  have "room_ok k n (Decoder_initializeFrame d)" using assms by (simp add: room_ok_init)
  from scan_all_room [OF this] show "\<exists>ok fr d'. Decoder_scan k n d = Some (ok, fr, d') \<and> decoder_ok d' \<and>
      length fr \<le> n \<and> list_all (decodable k) fr \<and> (\<not> ok \<longrightarrow> input_left d' = [])"
    by (auto simp: Decoder_scan_def room_ok_def)
  show "room_ok k n d \<longrightarrow> (case Decoder_scan_step k n d of (ok, eof, fr, d') \<Rightarrow>
      length fr \<le> n \<and> list_all (decodable k) fr \<and> room_ok k n d')"
    using scan_step_room [of k n d] by (auto split: prod.split)
qed

text \<open>A frame that is too long for its buffer of one byte, and a line that is cut off by the end of the input.\<close>

theorem scan_total_bounded_witness:
  "(\<exists>ok fr d'. Decoder_scan (String_decoder (frame_chars.truncate sample_cfg)) 1 (fresh_decoder [[0x2E, 0x61], [0x62, 0x3B]]) =
      Some (ok, fr, d') \<and> length fr \<le> 1 \<and> list_all (\<lambda>x. x \<noteq> 0) fr \<and> (ok \<or> input_left d' = [])) \<and>
   (\<exists>ok fr d'. Decoder_scan (Line_decoder 0x20) 8 (fresh_decoder [[0x61, 0x09], [], [0x62]]) =
      Some (ok, fr, d') \<and> length fr \<le> 8 \<and> list_all printable fr \<and> (ok \<or> input_left d' = []))"
proof -
  have ok: "decoder_ok (fresh_decoder cs)" for cs by (simp add: decoder_ok_def fresh_decoder_def)
  have "decodable (String_decoder c) = (\<lambda>x. x \<noteq> 0)" "decodable (Line_decoder t) = printable" for c t
    by (auto simp: decodable_def)
  then show ?thesis
    using scan_total_bounded [OF ok, of "String_decoder (frame_chars.truncate sample_cfg)" 1 "[[0x2E, 0x61], [0x62, 0x3B]]"]
      scan_total_bounded [OF ok, of "Line_decoder 0x20" 8 "[[0x61, 0x09], [], [0x62]]"] by metis
qed

text \<open>
  The line decoder returns the lines: a line of printable characters that fits the buffer,
  ended by a carriage return or a newline, is reported as a frame without its ending, and the
  decoder goes on with the characters behind it.
\<close>
theorem line_decoder_lines:
  assumes "decoder_ok d" and "cached d = xs @ x # rest" and "\<not> m_illegal d"
    and "xs \<noteq> []" and "list_all printable xs" and "length xs \<le> n" and "x = 0x0A \<or> x = 0x0D"
  shows "\<exists>d'. Decoder_scan (Line_decoder t) n d = Some (True, xs, d') \<and> cached d' = rest \<and>
              decoder_ok d' \<and> \<not> m_illegal d' \<and> m_srcPtr d' = m_srcPtr d"
proof -
  let ?i = "Decoder_initializeFrame d"
  let ?s = "?i\<lparr>m_inFrame := True, m_escaping := False, m_frame := []\<rparr>"
  obtain y ys where xs: "xs = y # ys" using assms(4) by (cases xs) auto
  have i: "decoder_ok ?i" "cached ?i = y # (ys @ x # rest)" "\<not> m_inFrame ?i" "\<not> m_illegal ?i"
    using assms(1-3) by (simp_all add: xs) (simp_all add: Decoder_initializeFrame_def)
  have "printable y" using assms(5) by (simp add: xs)
  from line_start [OF i this, of t n] line_payload [OF assms(7), of ?s xs rest n t] i assms(5,6)
  obtain d' where "Decoder_scan_loop (Line_decoder t) n ?i = (True, xs, d')" "decoder_ok d'" "cached d' = rest"
    "\<not> m_illegal d'" "m_srcPtr d' = m_srcPtr ?i" by (auto simp: xs)
  moreover have "m_dataLen ?i > 0" using cached_Cons(2) [OF i(1,2)] .
  moreover have "m_srcPtr ?i = m_srcPtr d" by (simp add: Decoder_initializeFrame_def)
  ultimately show ?thesis
    unfolding Decoder_scan_def by (subst Decoder_scan_all.simps) (simp add: Decoder_scan_step_def)
qed

theorem line_decoder_lines_witness:
  "\<exists>d'. Decoder_scan (Line_decoder 0x09) 8
      ((fresh_decoder [])\<lparr>m_buffer := [0x61, 0x62, 0x0A, 0x63], m_dataLen := 4\<rparr>) = Some (True, [0x61, 0x62], d') \<and> cached d' = [0x63]"
proof -
  let ?d = "(fresh_decoder [])\<lparr>m_buffer := [0x61, 0x62, 0x0A, 0x63], m_dataLen := 4\<rparr>"
  have "decoder_ok ?d" and "cached ?d = [0x61, 0x62] @ 0x0A # [0x63]" and "\<not> m_illegal ?d"
    by (simp_all add: decoder_ok_def fresh_decoder_def cached_def unread_def)
  moreover have "list_all printable [0x61, 0x62]" by (simp add: printable_def)
  ultimately show ?thesis using line_decoder_lines [of ?d "[0x61, 0x62]" "0x0A" "[0x63]" 8 "0x09"] by auto
qed

end
