(* ===== verification/Nv_Storage.thy ===== *)
theory Nv_Storage
  imports Prelude
begin

text \<open>
  Non-volatile storage, from the chip upwards: the driver of the CAT24C512 EEPROM
  (\<^verbatim>\<open>src/src/Driver/NV/Onsemi/CAT24C512/Api.cpp\<close>), the driver that joins several devices into one address
  range (\<^verbatim>\<open>src/src/Driver/NV/Gang.cpp\<close>) and the region of a device that the persistent storage
  uses (\<^verbatim>\<open>src/src/Cpl/Persistent/NVAdapter.cpp\<close>).  The locale \<open>nv_device\<close> is the contract of
  \<^verbatim>\<open>Driver/NV/Api.h\<close>; the chip behind the I2C bus is a parameter whose documented behaviour is the
  locale \<open>eeprom_chip\<close>.  Offsets and sizes are \<^verbatim>\<open>size_t\<close> of 32 bits: natural numbers below
  \<open>2 ^ 32\<close>, with the wrap-around of the range checks written out.
\<close>

section \<open>Byte memories\<close>

definition patch :: "nat \<Rightarrow> bytes \<Rightarrow> bytes \<Rightarrow> bytes" where
  "patch off bs mem = take off mem @ bs @ drop (off + length bs) mem"

definition read_at :: "nat \<Rightarrow> nat \<Rightarrow> bytes \<Rightarrow> bytes" where
  "read_at off n mem = take n (drop off mem)"

definition size_add :: "nat \<Rightarrow> nat \<Rightarrow> nat" where
  "size_add a b = (a + b) mod 2 ^ 32"

lemma size_add_small [simp]: "a + b < 2 ^ 32 \<Longrightarrow> size_add a b = a + b"
  by (simp add: size_add_def)

lemma length_patch [simp]: "off + length bs \<le> length mem \<Longrightarrow> length (patch off bs mem) = length mem"
  by (simp add: patch_def)

lemma patch_Nil [simp]: "patch off [] mem = mem"
  by (simp add: patch_def)

lemma length_read_at [simp]: "off + n \<le> length mem \<Longrightarrow> length (read_at off n mem) = n"
  by (simp add: read_at_def)

lemma read_at_patch_same [simp]: "off \<le> length mem \<Longrightarrow> read_at off (length bs) (patch off bs mem) = bs"
  by (simp add: read_at_def patch_def)

lemma read_at_patch_before: "o1 + n \<le> off \<Longrightarrow> off \<le> length mem \<Longrightarrow> read_at o1 n (patch off bs mem) = read_at o1 n mem"
  by (auto simp: read_at_def patch_def drop_take)

lemma read_at_patch_after:
  "off + length bs \<le> o1 \<Longrightarrow> off + length bs \<le> length mem \<Longrightarrow> read_at o1 n (patch off bs mem) = read_at o1 n mem"
  by (simp add: read_at_def patch_def)

text \<open>Two adjacent writes are one write of the concatenation.\<close>

lemma patch_patch:
  assumes "off + length (xs @ ys) \<le> length mem"
  shows "patch (off + length xs) ys (patch off xs mem) = patch off (xs @ ys) mem"
  using assms by (simp add: patch_def ac_simps)

lemma patch_append_left:
  "off + length bs \<le> length xs \<Longrightarrow> patch off bs (xs @ ys) = patch off bs xs @ ys"
  by (simp add: patch_def)

lemma patch_append_right:
  "length xs \<le> off \<Longrightarrow> patch off bs (xs @ ys) = xs @ patch (off - length xs) bs ys"
  by (simp add: patch_def)

lemma patch_across:
  assumes "off \<le> length xs" and "length xs \<le> off + length bs"
  shows "patch off bs (xs @ ys) =
    patch off (take (length xs - off) bs) xs @ patch 0 (drop (length xs - off) bs) ys"
proof -
  have "bs = take (length xs - off) bs @ drop (length xs - off) bs" by simp
  moreover have "drop (off + length bs) (xs @ ys) = drop (length bs - (length xs - off)) ys"
    using assms by (simp add: add.commute)
  ultimately show ?thesis using assms by (simp add: patch_def)
qed

lemma read_at_append_left: "off + n \<le> length xs \<Longrightarrow> read_at off n (xs @ ys) = read_at off n xs"
  by (simp add: read_at_def)

lemma read_at_append_right: "length xs \<le> off \<Longrightarrow> read_at off n (xs @ ys) = read_at (off - length xs) n ys"
  by (simp add: read_at_def)

lemma read_at_across:
  assumes "off \<le> length xs" and "length xs \<le> off + n"
  shows "read_at off n (xs @ ys) = read_at off (length xs - off) xs @ read_at 0 (n - (length xs - off)) ys"
  using assms by (simp add: read_at_def)

lemma read_at_patch_inner:
  assumes "s + n \<le> length mem" and "off + length bs \<le> n"
  shows "read_at s n (patch (off + s) bs mem) = patch off bs (read_at s n mem)"
proof -
  define A B C where "A = take s mem" and "B = read_at s n mem" and "C = drop (s + n) mem"
  have mem: "mem = A @ B @ C" and len: "length A = s" "length B = n"
    using assms(1) by (simp_all add: A_def B_def C_def read_at_def add.commute flip: drop_drop)
  have "patch (off + s) bs mem = A @ patch off bs B @ C"
    using assms(2) len by (simp add: mem patch_append_right patch_append_left)
  moreover have "read_at s n (A @ patch off bs B @ C) = patch off bs B"
    using assms(2) len by (simp add: read_at_def)
  ultimately show ?thesis by (simp only: B_def)
qed

section \<open>The device contract\<close>

text \<open>
  A device has \<open>total\<close> bytes; while it is ready, reads and writes inside that range succeed and
  act on its cells as on an array, and accesses beyond it are refused and change nothing.
\<close>

locale nv_device =
  fixes total :: "'d \<Rightarrow> nat"
    and dwrite :: "'d \<Rightarrow> nat \<Rightarrow> bytes \<Rightarrow> bool \<times> 'd"
    and dread :: "'d \<Rightarrow> nat \<Rightarrow> nat \<Rightarrow> bytes option \<times> 'd"
    and cells :: "'d \<Rightarrow> bytes"
    and ready :: "'d \<Rightarrow> bool"
  assumes total_cells: "ready d \<Longrightarrow> length (cells d) = total d"
    and write_ok: "ready d \<Longrightarrow> off + length bs \<le> total d \<Longrightarrow> off + length bs < 2 ^ 32 \<Longrightarrow> off < total d \<Longrightarrow>
          \<exists>d'. dwrite d off bs = (True, d') \<and> ready d' \<and> total d' = total d \<and> cells d' = patch off bs (cells d)"
    and read_ok: "ready d \<Longrightarrow> off + n \<le> total d \<Longrightarrow> off + n < 2 ^ 32 \<Longrightarrow> off < total d \<Longrightarrow>
          \<exists>d'. dread d off n = (Some (read_at off n (cells d)), d') \<and> ready d' \<and> total d' = total d \<and> cells d' = cells d"
    and write_range: "ready d \<Longrightarrow> total d < off + length bs \<Longrightarrow> off + length bs < 2 ^ 32 \<Longrightarrow> dwrite d off bs = (False, d)"
    and read_range: "ready d \<Longrightarrow> total d < off + n \<Longrightarrow> off + n < 2 ^ 32 \<Longrightarrow> dread d off n = (None, d)"
begin

text \<open>What was written is read back.\<close>

lemma read_after_write:
  assumes "ready d" and "off + length bs \<le> total d" and "off + length bs < 2 ^ 32" and "off < total d"
  shows "\<exists>d1 d2. dwrite d off bs = (True, d1) \<and> dread d1 off (length bs) = (Some bs, d2) \<and>
                 ready d2 \<and> cells d2 = patch off bs (cells d)"
proof -
  obtain d1 where d1: "dwrite d off bs = (True, d1)" "ready d1" "total d1 = total d" "cells d1 = patch off bs (cells d)"
    using write_ok [OF assms] by blast
  obtain d2 where "dread d1 off (length bs) = (Some (read_at off (length bs) (cells d1)), d2)" "ready d2" "cells d2 = cells d1"
    using read_ok [of d1 off "length bs"] d1 assms by auto
  with d1 assms total_cells [OF assms(1)] show ?thesis by simp
qed

end

section \<open>The EEPROM driver\<close>

text \<open>
  The I2C bus and the chip: a write transaction and a read transaction to the device address,
  and the passing of one retry delay.
\<close>

record 'h i2c_bus =
  writeToDevice :: "'h \<Rightarrow> bytes \<Rightarrow> bool \<times> 'h"
  readFromDevice :: "'h \<Rightarrow> nat \<Rightarrow> bytes option \<times> 'h"
  sleep_ms :: "'h \<Rightarrow> nat \<Rightarrow> 'h"

record 'h cat24c512 =
  m_started :: bool
  m_i2c :: 'h

definition CAT24C512_NUM_PAGES :: nat where "CAT24C512_NUM_PAGES = 512"

definition CAT24C512_BYTES_PER_PAGE :: nat where "CAT24C512_BYTES_PER_PAGE = 128"

definition CAT24C512_MAX_WAIT_RETRIES :: nat where "CAT24C512_MAX_WAIT_RETRIES = 6"

definition CAT24C512_getTotalSize :: "'h cat24c512 \<Rightarrow> nat" where
  "CAT24C512_getTotalSize d = CAT24C512_NUM_PAGES * CAT24C512_BYTES_PER_PAGE"

definition CAT24C512_start :: "'h i2c_bus \<Rightarrow> 'h cat24c512 \<Rightarrow> bool \<times> 'h cat24c512" where
  "CAT24C512_start bus d =
     (if \<not> m_started d then
        case readFromDevice bus (m_i2c d) 1 of
          (Some _, h) \<Rightarrow> (True, d\<lparr>m_i2c := h, m_started := True\<rparr>)
        | (None, h) \<Rightarrow> (False, d\<lparr>m_i2c := h\<rparr>)
      else (False, d))"

definition CAT24C512_stop :: "'h cat24c512 \<Rightarrow> 'h cat24c512" where
  "CAT24C512_stop d = d\<lparr>m_started := False\<rparr>"

text \<open>The retry loops: one attempt, then as many more as the counter allows, with a delay before each.\<close>

fun CAT24C512_transact :: "'h i2c_bus \<Rightarrow> 'h \<Rightarrow> bytes \<Rightarrow> nat \<Rightarrow> bool \<times> 'h" where
  "CAT24C512_transact bus h buffer retryCount =
     (let (result, h1) = writeToDevice bus h buffer
      in if result then (True, h1)
         else let h2 = sleep_ms bus h1 CAT24C512_MAX_WAIT_RETRIES
              in case retryCount of 0 \<Rightarrow> (False, h2) | Suc n \<Rightarrow> CAT24C512_transact bus h2 buffer n)"

definition page_address :: "nat \<Rightarrow> bytes" where
  "page_address offset = [word_of_nat (offset div 256 mod 256), word_of_nat (offset mod 256)]"

definition CAT24C512_setReadOffsetPointer :: "'h i2c_bus \<Rightarrow> 'h \<Rightarrow> nat \<Rightarrow> bool \<times> 'h" where
  "CAT24C512_setReadOffsetPointer bus h newOffset =
     CAT24C512_transact bus h (page_address newOffset) CAT24C512_MAX_WAIT_RETRIES"

definition CAT24C512_writePage :: "'h i2c_bus \<Rightarrow> 'h \<Rightarrow> nat \<Rightarrow> bytes \<Rightarrow> bool \<times> 'h" where
  "CAT24C512_writePage bus h offset src =
     CAT24C512_transact bus h (page_address offset @ src) CAT24C512_MAX_WAIT_RETRIES"

function CAT24C512_write_pages :: "'h i2c_bus \<Rightarrow> 'h \<Rightarrow> nat \<Rightarrow> bytes \<Rightarrow> nat \<Rightarrow> bool \<times> 'h" where
  "CAT24C512_write_pages bus h dstOffset src bytesRemainingInPage =
     (if src = [] then (True, h)
      else
        let bytesToWrite = (if length src > bytesRemainingInPage then bytesRemainingInPage else length src);
            (ok, h1) = CAT24C512_writePage bus h dstOffset (take bytesToWrite src)
        in if \<not> ok then (False, h1)
           else CAT24C512_write_pages bus h1 (dstOffset + bytesToWrite) (drop bytesToWrite src) CAT24C512_BYTES_PER_PAGE)"
  by pat_completeness auto
termination
  by (relation "measure (\<lambda>(bus, h, off, src, n). 2 * length src + (if n = 0 then 1 else 0))")
    (auto simp: CAT24C512_BYTES_PER_PAGE_def)

definition CAT24C512_write :: "'h i2c_bus \<Rightarrow> 'h cat24c512 \<Rightarrow> nat \<Rightarrow> bytes \<Rightarrow> bool \<times> 'h cat24c512" where
  "CAT24C512_write bus d dstOffset src =
     (if \<not> m_started d \<or> size_add dstOffset (length src) > CAT24C512_NUM_PAGES * CAT24C512_BYTES_PER_PAGE
      then (False, d)
      else
        let startPage = dstOffset div CAT24C512_BYTES_PER_PAGE;
            bytesRemainingInPage = (startPage + 1) * CAT24C512_BYTES_PER_PAGE - dstOffset;
            (ok, h) = CAT24C512_write_pages bus (m_i2c d) dstOffset src bytesRemainingInPage
        in (ok, d\<lparr>m_i2c := h\<rparr>))"

definition CAT24C512_read :: "'h i2c_bus \<Rightarrow> 'h cat24c512 \<Rightarrow> nat \<Rightarrow> nat \<Rightarrow> bytes option \<times> 'h cat24c512" where
  "CAT24C512_read bus d srcOffset numBytes =
     (if \<not> m_started d \<or> size_add srcOffset numBytes > CAT24C512_NUM_PAGES * CAT24C512_BYTES_PER_PAGE
      then (None, d)
      else
        let (ok, h) = CAT24C512_setReadOffsetPointer bus (m_i2c d) srcOffset
        in if \<not> ok then (None, d\<lparr>m_i2c := h\<rparr>)
           else let (r, h1) = readFromDevice bus h numBytes in (r, d\<lparr>m_i2c := h1\<rparr>))"

declare CAT24C512_transact.simps [simp del] CAT24C512_write_pages.simps [simp del]

text \<open>
  The documented behaviour of the chip: an address pointer, an array of cells, and a write
  cycle during which it does not acknowledge.  A write transaction stays inside one page;
  the write cycle ends within the retries of the driver.
\<close>

locale eeprom_chip =
  fixes bus :: "'h i2c_bus"
    and chip_cells :: "'h \<Rightarrow> bytes"
    and pointer :: "'h \<Rightarrow> nat"
    and busy :: "'h \<Rightarrow> nat"
    and alive :: "'h \<Rightarrow> bool"
  assumes chip_size: "alive h \<Longrightarrow> length (chip_cells h) = 65536"
    and busy_bound: "alive h \<Longrightarrow> busy h \<le> 6"
    and nack: "alive h \<Longrightarrow> busy h > 0 \<Longrightarrow> writeToDevice bus h bs = (False, h)"
    and delay: "alive h \<Longrightarrow> n > 0 \<Longrightarrow>
          alive (sleep_ms bus h n) \<and> chip_cells (sleep_ms bus h n) = chip_cells h \<and> busy (sleep_ms bus h n) \<le> busy h - 1"
    and set_pointer: "alive h \<Longrightarrow> busy h = 0 \<Longrightarrow> off < 65536 \<Longrightarrow>
          \<exists>h'. writeToDevice bus h (page_address off) = (True, h') \<and> alive h' \<and> chip_cells h' = chip_cells h \<and>
               pointer h' = off \<and> busy h' = 0"
    and write_page: "alive h \<Longrightarrow> busy h = 0 \<Longrightarrow> off < 65536 \<Longrightarrow> bs \<noteq> [] \<Longrightarrow> off mod 128 + length bs \<le> 128 \<Longrightarrow>
          \<exists>h'. writeToDevice bus h (page_address off @ bs) = (True, h') \<and> alive h' \<and>
               chip_cells h' = patch off bs (chip_cells h)"
    and read_seq: "alive h \<Longrightarrow> busy h = 0 \<Longrightarrow> pointer h + n \<le> 65536 \<Longrightarrow>
          \<exists>h'. readFromDevice bus h n = (Some (read_at (pointer h) n (chip_cells h)), h') \<and> alive h' \<and>
               chip_cells h' = chip_cells h"
begin

lemma transact_when_ready:
  assumes ok: "\<And>h0. alive h0 \<Longrightarrow> busy h0 = 0 \<Longrightarrow> chip_cells h0 = chip_cells h \<Longrightarrow>
    \<exists>h1. writeToDevice bus h0 bs = (True, h1) \<and> P h1"
  shows "alive h0 \<Longrightarrow> chip_cells h0 = chip_cells h \<Longrightarrow> busy h0 \<le> k \<Longrightarrow>
    \<exists>h1. CAT24C512_transact bus h0 bs k = (True, h1) \<and> P h1"
proof (induction k arbitrary: h0)
  case 0
  with ok [of h0] show ?case by (subst CAT24C512_transact.simps) auto
next
  case (Suc k)
  show ?case
  proof (cases "busy h0 = 0")
    case True
    with ok [of h0] Suc.prems show ?thesis by (subst CAT24C512_transact.simps) auto
  next
    case False
    let ?h = "sleep_ms bus h0 CAT24C512_MAX_WAIT_RETRIES"
    have "busy ?h \<le> k" "chip_cells ?h = chip_cells h" "alive ?h"
      using delay [of h0 CAT24C512_MAX_WAIT_RETRIES] Suc.prems False by (auto simp: CAT24C512_MAX_WAIT_RETRIES_def)
    with Suc.IH [of ?h] nack [of h0 bs] False Suc.prems(1) show ?thesis by (subst CAT24C512_transact.simps) simp
  qed
qed

lemma writePage_ok:
  assumes "alive h" and "off < 65536" and "bs \<noteq> []" and "off mod 128 + length bs \<le> 128"
  shows "\<exists>h1. CAT24C512_writePage bus h off bs = (True, h1) \<and>
              (alive h1 \<and> chip_cells h1 = patch off bs (chip_cells h))"
  unfolding CAT24C512_writePage_def
proof (rule transact_when_ready [where h = h])
  fix h0 assume "alive h0" and "busy h0 = 0" and "chip_cells h0 = chip_cells h"
  then show "\<exists>h1. writeToDevice bus h0 (page_address off @ bs) = (True, h1) \<and>
      (alive h1 \<and> chip_cells h1 = patch off bs (chip_cells h))"
    using write_page [of h0 off bs] assms by simp
qed (use assms(1) busy_bound in \<open>simp_all add: CAT24C512_MAX_WAIT_RETRIES_def\<close>)

lemma setReadOffsetPointer_ok:
  assumes "alive h" and "off < 65536"
  shows "\<exists>h1. CAT24C512_setReadOffsetPointer bus h off = (True, h1) \<and>
              (alive h1 \<and> chip_cells h1 = chip_cells h \<and> pointer h1 = off \<and> busy h1 = 0)"
  unfolding CAT24C512_setReadOffsetPointer_def
proof (rule transact_when_ready [where h = h])
  fix h0 assume "alive h0" and "busy h0 = 0" and "chip_cells h0 = chip_cells h"
  then show "\<exists>h1. writeToDevice bus h0 (page_address off) = (True, h1) \<and>
      (alive h1 \<and> chip_cells h1 = chip_cells h \<and> pointer h1 = off \<and> busy h1 = 0)"
    using set_pointer [of h0 off] assms by simp
qed (use assms(1) busy_bound in \<open>simp_all add: CAT24C512_MAX_WAIT_RETRIES_def\<close>)

text \<open>The page loop writes the whole source, page by page.\<close>

lemma write_pages_ok:
  "alive h \<Longrightarrow> off + length src \<le> 65536 \<Longrightarrow> 0 < room \<Longrightarrow> off mod 128 + room = 128 \<Longrightarrow>
   \<exists>h1. CAT24C512_write_pages bus h off src room = (True, h1) \<and> alive h1 \<and> chip_cells h1 = patch off src (chip_cells h)"
proof (induction "length src" arbitrary: off src room h rule: less_induct)
  case less
  show ?case
  proof (cases "src = []")
    case True
    with less.prems show ?thesis by (simp add: CAT24C512_write_pages.simps)
  next
    case False
    define n where "n = (if length src > room then room else length src)"
    have n: "0 < n" "n \<le> length src" "off mod 128 + n \<le> 128" "n < length src \<longrightarrow> n = room"
      using False less.prems by (auto simp: n_def)
    obtain h1 where h1: "CAT24C512_writePage bus h off (take n src) = (True, h1)" "alive h1"
      "chip_cells h1 = patch off (take n src) (chip_cells h)"
      using writePage_ok [of h off "take n src"] n False less.prems by auto
    have "(off + n) mod 128 = 0" if "drop n src \<noteq> []"
    proof -
      from that n have "n = room" by auto
      with less.prems(4) have "(off mod 128 + n) mod 128 = 0" by auto
      then show ?thesis by (simp add: mod_add_left_eq)
    qed
    then have "\<exists>h2. CAT24C512_write_pages bus h1 (off + n) (drop n src) 128 = (True, h2) \<and> alive h2 \<and>
        chip_cells h2 = patch (off + n) (drop n src) (chip_cells h1)"
      using less.hyps [of "drop n src" h1 "off + n" 128] less.prems n h1(2)
      by (cases "drop n src = []") (auto simp: CAT24C512_write_pages.simps [of _ _ _ "[]"])
    moreover have "patch (off + n) (drop n src) (patch off (take n src) (chip_cells h)) = patch off src (chip_cells h)"
      using patch_patch [of off "take n src" "drop n src" "chip_cells h"] less.prems n chip_size [of h] by simp
    ultimately show ?thesis
      using h1 False by (subst CAT24C512_write_pages.simps) (auto simp: n_def CAT24C512_BYTES_PER_PAGE_def)
  qed
qed

end

text \<open>The driver makes the chip a device of 64 kilobytes.\<close>

lemmas cat_sizes = CAT24C512_getTotalSize_def CAT24C512_NUM_PAGES_def CAT24C512_BYTES_PER_PAGE_def

sublocale eeprom_chip \<subseteq> cat: nv_device CAT24C512_getTotalSize "CAT24C512_write bus" "CAT24C512_read bus"
  "\<lambda>d. chip_cells (m_i2c d)" "\<lambda>d. m_started d \<and> alive (m_i2c d)"
proof (unfold_locales, goal_cases)
  case (1 d)
  then show ?case by (simp add: chip_size cat_sizes)
next
  case (2 d off bs)
  have "off mod 128 + ((off div 128 + 1) * 128 - off) = 128"
    by (simp add: minus_mod_eq_mult_div [symmetric] algebra_simps)
  moreover have "off mod 128 < 128" by simp
  ultimately have "\<exists>h1. CAT24C512_write_pages bus (m_i2c d) off bs ((off div 128 + 1) * 128 - off) = (True, h1) \<and>
      alive h1 \<and> chip_cells h1 = patch off bs (chip_cells (m_i2c d))"
    using 2 by (intro write_pages_ok) (auto simp: cat_sizes)
  with 2 show ?case by (auto simp: CAT24C512_write_def cat_sizes)
next
  case (3 d off n)
  then have off: "off < 65536" "off + n \<le> 65536" "alive (m_i2c d)" by (simp_all add: cat_sizes)
  obtain h where h: "CAT24C512_setReadOffsetPointer bus (m_i2c d) off = (True, h)" "alive h"
    "chip_cells h = chip_cells (m_i2c d)" "pointer h = off" "busy h = 0"
    using setReadOffsetPointer_ok [OF off(3,1)] by blast
  with read_seq [of h n] off 3 show ?case by (auto simp: CAT24C512_read_def cat_sizes)
qed (simp_all add: CAT24C512_write_def CAT24C512_read_def CAT24C512_getTotalSize_def)

section \<open>Several devices as one\<close>

record 'd gang =
  g_drivers :: "'d list"
  g_numPages :: nat
  g_pageSize :: nat
  g_totalSize :: nat
  g_started :: bool

text \<open>The interface of a driver, \<^verbatim>\<open>Driver/NV/Api.h\<close>.\<close>

record 'd nv_api =
  nv_start :: "'d \<Rightarrow> bool \<times> 'd"
  nv_stop :: "'d \<Rightarrow> 'd"
  nv_write :: "'d \<Rightarrow> nat \<Rightarrow> bytes \<Rightarrow> bool \<times> 'd"
  nv_read :: "'d \<Rightarrow> nat \<Rightarrow> nat \<Rightarrow> bytes option \<times> 'd"
  nv_getPageSize :: "'d \<Rightarrow> nat"
  nv_getTotalSize :: "'d \<Rightarrow> nat"

fun Gang_sizes :: "'d nv_api \<Rightarrow> 'd list \<Rightarrow> nat \<times> nat \<Rightarrow> nat \<times> nat" where
  "Gang_sizes api [] (tot, page) = (tot, page)"
| "Gang_sizes api (d # ds) (tot, page) =
     Gang_sizes api ds
       (size_add tot (nv_getTotalSize api d), if nv_getPageSize api d < page then nv_getPageSize api d else page)"

definition Gang :: "'d nv_api \<Rightarrow> 'd list \<Rightarrow> 'd gang" where
  "Gang api drivers =
     (let (tot, page) = Gang_sizes api drivers (0, 2 ^ 32 - 1)
      in if page \<noteq> 0 \<and> page \<noteq> 2 ^ 32 - 1
         then \<lparr>g_drivers = drivers, g_numPages = tot div page, g_pageSize = page, g_totalSize = tot, g_started = False\<rparr>
         else \<lparr>g_drivers = drivers, g_numPages = 0, g_pageSize = 0, g_totalSize = tot, g_started = False\<rparr>)"

fun Gang_start_all :: "'d nv_api \<Rightarrow> 'd list \<Rightarrow> bool \<times> 'd list" where
  "Gang_start_all api [] = (True, [])"
| "Gang_start_all api (d # ds) =
     (let (ok, d') = nv_start api d
      in if \<not> ok then (False, d' # ds)
         else let (ok', ds') = Gang_start_all api ds in (ok', d' # ds'))"

definition Gang_start :: "'d nv_api \<Rightarrow> 'd gang \<Rightarrow> bool \<times> 'd gang" where
  "Gang_start api g =
     (if \<not> g_started g then
        let (ok, ds) = Gang_start_all api (g_drivers g)
        in (ok, g\<lparr>g_drivers := ds, g_started := ok\<rparr>)
      else (False, g))"

definition Gang_stop :: "'d nv_api \<Rightarrow> 'd gang \<Rightarrow> 'd gang" where
  "Gang_stop api g =
     (if g_started g then g\<lparr>g_started := False, g_drivers := map (nv_stop api) (g_drivers g)\<rparr> else g)"

text \<open>\<open>driverWrite\<close>: how many bytes go to this driver, and its result.\<close>

definition Gang_driverWrite :: "'d nv_api \<Rightarrow> 'd \<Rightarrow> nat \<Rightarrow> bytes \<Rightarrow> bool \<times> 'd \<times> bytes" where
  "Gang_driverWrite api d off src =
     (let n = (if size_add off (length src) > nv_getTotalSize api d then nv_getTotalSize api d - off else length src);
          (result, d') = nv_write api d off (take n src)
      in (result, d', drop n src))"

fun Gang_write_from :: "'d nv_api \<Rightarrow> 'd list \<Rightarrow> nat \<Rightarrow> bytes \<Rightarrow> bool \<times> 'd list" where
  "Gang_write_from api [] off src = (src = [], [])"
| "Gang_write_from api (d # ds) off src =
     (if src = [] then (True, d # ds)
      else let (result, d', rest) = Gang_driverWrite api d off src
           in if \<not> result then (False, d' # ds)
              else let (ok, ds') = Gang_write_from api ds 0 rest in (ok, d' # ds'))"

fun Gang_write_search :: "'d nv_api \<Rightarrow> 'd list \<Rightarrow> nat \<Rightarrow> nat \<Rightarrow> nat \<Rightarrow> bytes \<Rightarrow> bool \<times> 'd list" where
  "Gang_write_search api [] beginOffset endOffset dstOffset src = (False, [])"
| "Gang_write_search api (d # ds) beginOffset endOffset dstOffset src =
     (let endOffset' = size_add endOffset (nv_getTotalSize api d)
      in if dstOffset < endOffset' then Gang_write_from api (d # ds) (dstOffset - beginOffset) src
         else let (ok, ds') = Gang_write_search api ds (size_add beginOffset (nv_getTotalSize api d)) endOffset' dstOffset src
              in (ok, d # ds'))"

definition Gang_write :: "'d nv_api \<Rightarrow> 'd gang \<Rightarrow> nat \<Rightarrow> bytes \<Rightarrow> bool \<times> 'd gang" where
  "Gang_write api g dstOffset src =
     (if \<not> g_started g \<or> size_add dstOffset (length src) > g_totalSize g then (False, g)
      else let (ok, ds) = Gang_write_search api (g_drivers g) 0 0 dstOffset src in (ok, g\<lparr>g_drivers := ds\<rparr>))"

definition Gang_driverRead :: "'d nv_api \<Rightarrow> 'd \<Rightarrow> nat \<Rightarrow> nat \<Rightarrow> bytes option \<times> 'd \<times> nat" where
  "Gang_driverRead api d off numBytes =
     (let n = (if size_add off numBytes > nv_getTotalSize api d then nv_getTotalSize api d - off else numBytes);
          (result, d') = nv_read api d off n
      in (result, d', numBytes - n))"

fun Gang_read_from :: "'d nv_api \<Rightarrow> 'd list \<Rightarrow> nat \<Rightarrow> nat \<Rightarrow> bytes option \<times> 'd list" where
  "Gang_read_from api [] off numBytes = (if numBytes = 0 then Some [] else None, [])"
| "Gang_read_from api (d # ds) off numBytes =
     (if numBytes = 0 then (Some [], d # ds)
      else let (result, d', rest) = Gang_driverRead api d off numBytes
           in case result of
                None \<Rightarrow> (None, d' # ds)
              | Some bs \<Rightarrow> let (r, ds') = Gang_read_from api ds 0 rest in (map_option ((@) bs) r, d' # ds'))"

fun Gang_read_search :: "'d nv_api \<Rightarrow> 'd list \<Rightarrow> nat \<Rightarrow> nat \<Rightarrow> nat \<Rightarrow> nat \<Rightarrow> bytes option \<times> 'd list" where
  "Gang_read_search api [] beginOffset endOffset srcOffset numBytes = (None, [])"
| "Gang_read_search api (d # ds) beginOffset endOffset srcOffset numBytes =
     (let endOffset' = size_add endOffset (nv_getTotalSize api d)
      in if srcOffset < endOffset' then Gang_read_from api (d # ds) (srcOffset - beginOffset) numBytes
         else let (r, ds') = Gang_read_search api ds (size_add beginOffset (nv_getTotalSize api d)) endOffset' srcOffset numBytes
              in (r, d # ds'))"

definition Gang_read :: "'d nv_api \<Rightarrow> 'd gang \<Rightarrow> nat \<Rightarrow> nat \<Rightarrow> bytes option \<times> 'd gang" where
  "Gang_read api g srcOffset numBytes =
     (if \<not> g_started g \<or> size_add srcOffset numBytes > g_totalSize g then (None, g)
      else let (r, ds) = Gang_read_search api (g_drivers g) 0 0 srcOffset numBytes in (r, g\<lparr>g_drivers := ds\<rparr>))"

text \<open>The bytes of a list of devices in sequence; a gang is ready when its devices are and none is empty.\<close>

context nv_device
begin

definition all_cells :: "'d list \<Rightarrow> bytes" where
  "all_cells ds = concat (map cells ds)"

definition gang_total :: "'d list \<Rightarrow> nat" where
  "gang_total ds = sum_list (map total ds)"

definition devices_ready :: "'d list \<Rightarrow> bool" where
  "devices_ready ds \<longleftrightarrow> (\<forall>d\<in>set ds. ready d \<and> 0 < total d)"

definition gang_ready :: "'d gang \<Rightarrow> bool" where
  "gang_ready g \<longleftrightarrow> g_started g \<and> devices_ready (g_drivers g) \<and>
     g_totalSize g = gang_total (g_drivers g) \<and> gang_total (g_drivers g) < 2 ^ 32"

definition first_fits :: "'d list \<Rightarrow> nat \<Rightarrow> bool" where
  "first_fits ds off \<longleftrightarrow> (case ds of [] \<Rightarrow> off = 0 | d # _ \<Rightarrow> off < total d)"

definition serves :: "'d nv_api \<Rightarrow> bool" where
  "serves api \<longleftrightarrow> nv_write api = dwrite \<and> nv_read api = dread \<and> nv_getTotalSize api = total"

lemma length_all_cells: "devices_ready ds \<Longrightarrow> length (all_cells ds) = gang_total ds"
  by (induction ds) (auto simp: devices_ready_def all_cells_def gang_total_def total_cells)

lemma write_from_ok:
  assumes "serves api"
  shows "devices_ready ds \<Longrightarrow> first_fits ds off \<Longrightarrow> off + length src \<le> gang_total ds \<Longrightarrow> gang_total ds < 2 ^ 32 \<Longrightarrow>
    \<exists>ds'. Gang_write_from api ds off src = (True, ds') \<and> devices_ready ds' \<and> gang_total ds' = gang_total ds \<and>
          all_cells ds' = patch off src (all_cells ds)"
proof (induction ds arbitrary: off src)
  case Nil
  then show ?case by (simp add: gang_total_def)
next
  case (Cons d ds)
  show ?case
  proof (cases "src = []")
    case True
    with Cons.prems show ?thesis by simp
  next
    case False
    define n where "n = (if off + length src > total d then total d - off else length src)"
    have d: "ready d" "0 < total d" "devices_ready ds" and off: "off < total d"
      using Cons.prems by (auto simp: devices_ready_def first_fits_def)
    have tot: "gang_total (d # ds) = total d + gang_total ds" by (simp add: gang_total_def)
    have n: "n \<le> length src" "off + n \<le> total d" "length (take n src) = n"
      using off by (auto simp: n_def)
    obtain d' where d': "dwrite d off (take n src) = (True, d')" "ready d'" "total d' = total d"
      "cells d' = patch off (take n src) (cells d)"
      using write_ok [of d off "take n src"] d off n Cons.prems(4) tot by auto
    have "length (drop n src) \<le> gang_total ds" using Cons.prems(3) tot n by (auto simp: n_def)
    moreover have "first_fits ds 0" using d(3) by (auto simp: first_fits_def devices_ready_def split: list.split)
    ultimately obtain ds' where ds': "Gang_write_from api ds 0 (drop n src) = (True, ds')" "devices_ready ds'"
      "gang_total ds' = gang_total ds" "all_cells ds' = patch 0 (drop n src) (all_cells ds)"
      using Cons.IH [of 0 "drop n src"] d(3) Cons.prems(4) tot by auto
    have "patch off src (all_cells (d # ds)) = patch off (take n src) (cells d) @ patch 0 (drop n src) (all_cells ds)"
    proof (cases "off + length src > total d")
      case True
      then show ?thesis
        using patch_across [of off "cells d" src "all_cells ds"] off total_cells [OF d(1)]
        by (simp add: n_def all_cells_def)
    next
      case False
      then show ?thesis
        using patch_append_left [of off src "cells d" "all_cells ds"] total_cells [OF d(1)]
        by (simp add: n_def all_cells_def)
    qed
    moreover have "Gang_driverWrite api d off src = (True, d', drop n src)"
    proof -
      have "n = (if size_add off (length src) > nv_getTotalSize api d then nv_getTotalSize api d - off else length src)"
        using Cons.prems(3,4) assms by (simp add: n_def serves_def)
      then show ?thesis
        using d'(1) assms by (simp only: Gang_driverWrite_def Let_def serves_def split_conv)
    qed
    moreover have "devices_ready (d' # ds')" "gang_total (d' # ds') = gang_total (d # ds)"
      using ds' d' d by (simp_all add: devices_ready_def gang_total_def)
    ultimately show ?thesis
      using d' ds' False by (simp add: all_cells_def)
  qed
qed

lemma write_search_ok:
  assumes "serves api"
  shows "devices_ready ds \<Longrightarrow> b \<le> off \<Longrightarrow> off < b + gang_total ds \<Longrightarrow> off - b + length src \<le> gang_total ds \<Longrightarrow>
    b + gang_total ds < 2 ^ 32 \<Longrightarrow>
    \<exists>ds'. Gang_write_search api ds b b off src = (True, ds') \<and> devices_ready ds' \<and> gang_total ds' = gang_total ds \<and>
          all_cells ds' = patch (off - b) src (all_cells ds)"
proof (induction ds arbitrary: b)
  case Nil
  then show ?case by (simp add: gang_total_def)
next
  case (Cons d ds)
  have tot: "gang_total (d # ds) = total d + gang_total ds" by (simp add: gang_total_def)
  have sa: "size_add b (total d) = b + total d" using Cons.prems(5) tot by simp
  have api: "nv_getTotalSize api = total" using assms by (simp add: serves_def)
  show ?case
  proof (cases "off < b + total d")
    case True
    then show ?thesis
      using write_from_ok [OF assms Cons.prems(1), of "off - b" src] Cons.prems
      by (simp add: sa api first_fits_def)
  next
    case False
    have d: "ready d" "devices_ready ds" using Cons.prems(1) by (simp_all add: devices_ready_def)
    have le: "off - (b + total d) + length src \<le> gang_total ds"
      using Cons.prems(2,4) False tot by linarith
    obtain ds' where "Gang_write_search api ds (b + total d) (b + total d) off src = (True, ds')" "devices_ready ds'"
      "gang_total ds' = gang_total ds" "all_cells ds' = patch (off - (b + total d)) src (all_cells ds)"
      using Cons.IH [of "b + total d"] Cons.prems(2-5) d False tot le by auto
    moreover have "patch (off - b) src (all_cells (d # ds)) = cells d @ patch (off - (b + total d)) src (all_cells ds)"
      using False total_cells [OF d(1)] patch_append_right [of "cells d" "off - b" src "all_cells ds"]
      by (simp add: all_cells_def)
    ultimately show ?thesis
      using False Cons.prems(1) by (simp add: sa api all_cells_def gang_total_def devices_ready_def)
  qed
qed

lemma read_from_ok:
  assumes "serves api"
  shows "devices_ready ds \<Longrightarrow> first_fits ds off \<Longrightarrow> off + n \<le> gang_total ds \<Longrightarrow> gang_total ds < 2 ^ 32 \<Longrightarrow>
    \<exists>ds'. Gang_read_from api ds off n = (Some (read_at off n (all_cells ds)), ds') \<and> devices_ready ds' \<and>
          gang_total ds' = gang_total ds \<and> all_cells ds' = all_cells ds"
proof (induction ds arbitrary: off n)
  case Nil
  then show ?case by (simp add: gang_total_def read_at_def)
next
  case (Cons d ds)
  show ?case
  proof (cases "n = 0")
    case True
    with Cons.prems show ?thesis by (simp add: read_at_def)
  next
    case False
    define m where "m = (if off + n > total d then total d - off else n)"
    have d: "ready d" "0 < total d" "devices_ready ds" and off: "off < total d"
      using Cons.prems by (auto simp: devices_ready_def first_fits_def)
    have tot: "gang_total (d # ds) = total d + gang_total ds" by (simp add: gang_total_def)
    have m: "m \<le> n" "off + m \<le> total d" using off by (auto simp: m_def)
    obtain d' where d': "dread d off m = (Some (read_at off m (cells d)), d')" "ready d'" "total d' = total d" "cells d' = cells d"
      using read_ok [of d off m] d off m Cons.prems(4) tot by auto
    have "n - m \<le> gang_total ds" using Cons.prems(3) tot by (auto simp: m_def)
    moreover have "first_fits ds 0" using d(3) by (auto simp: first_fits_def devices_ready_def split: list.split)
    ultimately obtain ds' where ds': "Gang_read_from api ds 0 (n - m) = (Some (read_at 0 (n - m) (all_cells ds)), ds')"
      "devices_ready ds'" "gang_total ds' = gang_total ds" "all_cells ds' = all_cells ds"
      using Cons.IH [of 0 "n - m"] d(3) Cons.prems(4) tot by auto
    have "read_at off n (all_cells (d # ds)) = read_at off m (cells d) @ read_at 0 (n - m) (all_cells ds)"
    proof (cases "off + n > total d")
      case True
      then show ?thesis
        using read_at_across [of off "cells d" n "all_cells ds"] off total_cells [OF d(1)]
        by (simp add: m_def all_cells_def)
    next
      case False
      then show ?thesis
        using read_at_append_left [of off n "cells d" "all_cells ds"] total_cells [OF d(1)]
        by (simp add: m_def all_cells_def read_at_def)
    qed
    moreover have "Gang_driverRead api d off n = (Some (read_at off m (cells d)), d', n - m)"
    proof -
      have "m = (if size_add off n > nv_getTotalSize api d then nv_getTotalSize api d - off else n)"
        using Cons.prems(3,4) assms by (simp add: m_def serves_def)
      then show ?thesis
        using d'(1) assms by (simp only: Gang_driverRead_def Let_def serves_def split_conv)
    qed
    moreover have "devices_ready (d' # ds')" "gang_total (d' # ds') = gang_total (d # ds)" "all_cells (d' # ds') = all_cells (d # ds)"
      using ds' d' d by (simp_all add: devices_ready_def gang_total_def all_cells_def)
    ultimately show ?thesis
      using d' ds' False by simp
  qed
qed

lemma read_search_ok:
  assumes "serves api"
  shows "devices_ready ds \<Longrightarrow> b \<le> off \<Longrightarrow> off < b + gang_total ds \<Longrightarrow> off - b + n \<le> gang_total ds \<Longrightarrow>
    b + gang_total ds < 2 ^ 32 \<Longrightarrow>
    \<exists>ds'. Gang_read_search api ds b b off n = (Some (read_at (off - b) n (all_cells ds)), ds') \<and> devices_ready ds' \<and>
          gang_total ds' = gang_total ds \<and> all_cells ds' = all_cells ds"
proof (induction ds arbitrary: b)
  case Nil
  then show ?case by (simp add: gang_total_def)
next
  case (Cons d ds)
  have tot: "gang_total (d # ds) = total d + gang_total ds" by (simp add: gang_total_def)
  have sa: "size_add b (total d) = b + total d" using Cons.prems(5) tot by simp
  have api: "nv_getTotalSize api = total" using assms by (simp add: serves_def)
  show ?case
  proof (cases "off < b + total d")
    case True
    then show ?thesis
      using read_from_ok [OF assms Cons.prems(1), of "off - b" n] Cons.prems
      by (simp add: sa api first_fits_def)
  next
    case False
    have d: "ready d" "devices_ready ds" using Cons.prems(1) by (simp_all add: devices_ready_def)
    have le: "off - (b + total d) + n \<le> gang_total ds"
      using Cons.prems(2,4) False tot by linarith
    obtain ds' where "Gang_read_search api ds (b + total d) (b + total d) off n =
        (Some (read_at (off - (b + total d)) n (all_cells ds)), ds')" "devices_ready ds'"
      "gang_total ds' = gang_total ds" "all_cells ds' = all_cells ds"
      using Cons.IH [of "b + total d"] Cons.prems(2-5) d False tot le by auto
    moreover have "read_at (off - b) n (all_cells (d # ds)) = read_at (off - (b + total d)) n (all_cells ds)"
      using False total_cells [OF d(1)] read_at_append_right [of "cells d" "off - b" n "all_cells ds"]
      by (simp add: all_cells_def)
    ultimately show ?thesis
      using False Cons.prems(1) by (simp add: sa api all_cells_def gang_total_def devices_ready_def)
  qed
qed

text \<open>A gang of devices is a device: the devices' bytes in sequence.\<close>

lemma gang_device:
  assumes "serves api"
  shows "nv_device g_totalSize (Gang_write api) (Gang_read api) (\<lambda>g. all_cells (g_drivers g)) gang_ready"
proof (unfold_locales, goal_cases)
  case (1 g)
  then show ?case by (simp add: gang_ready_def length_all_cells)
next
  case (2 g off bs)
  then show ?case
    using write_search_ok [OF assms, of "g_drivers g" 0 off bs] by (auto simp: gang_ready_def Gang_write_def)
next
  case (3 g off n)
  then show ?case
    using read_search_ok [OF assms, of "g_drivers g" 0 off n] by (auto simp: gang_ready_def Gang_read_def)
next
  case (4 g off bs)
  then show ?case by (simp add: Gang_write_def)
next
  case (5 g off n)
  then show ?case by (simp add: Gang_read_def)
qed

end

section \<open>Regions\<close>

record nv_region =
  m_startAddress :: nat
  m_regionLength :: nat

text \<open>\<^verbatim>\<open>NVAdapter\<close>; a failed assertion (an empty transfer) is \<open>None\<close>, and a read returns the bytes it got.\<close>

definition NVAdapter_write :: "'d nv_api \<Rightarrow> nv_region \<Rightarrow> 'd \<Rightarrow> nat \<Rightarrow> bytes \<Rightarrow> (bool \<times> 'd) option" where
  "NVAdapter_write api rg d offset srcData = do {
     c_assert (length srcData > 0);
     if size_add offset (length srcData) > m_regionLength rg then Some (False, d)
     else Some (nv_write api d (size_add offset (m_startAddress rg)) srcData)
   }"

definition NVAdapter_read :: "'d nv_api \<Rightarrow> nv_region \<Rightarrow> 'd \<Rightarrow> nat \<Rightarrow> nat \<Rightarrow> (bytes \<times> 'd) option" where
  "NVAdapter_read api rg d offset bytesToRead = do {
     c_assert (bytesToRead > 0);
     if size_add offset bytesToRead > m_regionLength rg then Some ([], d)
     else let (r, d') = nv_read api d (size_add offset (m_startAddress rg)) bytesToRead
          in Some (case r of Some bs \<Rightarrow> bs | None \<Rightarrow> [], d')
   }"

text \<open>The contract of \<^verbatim>\<open>RegionMedia.h\<close> that the chunks rely on.\<close>

locale region_media =
  fixes region_length :: nat
    and rwrite :: "'r \<Rightarrow> nat \<Rightarrow> bytes \<Rightarrow> (bool \<times> 'r) option"
    and rread :: "'r \<Rightarrow> nat \<Rightarrow> nat \<Rightarrow> (bytes \<times> 'r) option"
    and rbytes :: "'r \<Rightarrow> bytes"
    and rready :: "'r \<Rightarrow> bool"
  assumes region_bytes: "rready r \<Longrightarrow> length (rbytes r) = region_length"
    and region_limit: "region_length < 2 ^ 32"
    and rwrite_ok: "rready r \<Longrightarrow> bs \<noteq> [] \<Longrightarrow> off + length bs \<le> region_length \<Longrightarrow>
          \<exists>r'. rwrite r off bs = Some (True, r') \<and> rready r' \<and> rbytes r' = patch off bs (rbytes r)"
    and rread_ok: "rready r \<Longrightarrow> 0 < n \<Longrightarrow> off + n \<le> region_length \<Longrightarrow>
          \<exists>r'. rread r off n = Some (read_at off n (rbytes r), r') \<and> rready r' \<and> rbytes r' = rbytes r"
    and rread_range: "rready r \<Longrightarrow> region_length < off + n \<Longrightarrow> off + n < 2 ^ 32 \<Longrightarrow> 0 < n \<Longrightarrow> rread r off n = Some ([], r)"

context nv_device
begin

lemma adapter_region:
  assumes "serves api" and fit: "m_startAddress rg + m_regionLength rg < 2 ^ 32"
  shows "region_media (m_regionLength rg) (NVAdapter_write api rg) (NVAdapter_read api rg)
    (\<lambda>d. read_at (m_startAddress rg) (m_regionLength rg) (cells d))
    (\<lambda>d. ready d \<and> m_startAddress rg + m_regionLength rg \<le> total d)"
proof (unfold_locales, goal_cases)
  case (1 d)
  then show ?case by (simp add: total_cells)
next
  case 2
  then show ?case using fit by simp
next
  case (3 d bs off)
  let ?s = "m_startAddress rg" and ?n = "m_regionLength rg"
  have "0 < length bs" using 3 by simp
  with 3 have "off + ?s < total d" by linarith
  then obtain d' where d': "dwrite d (off + ?s) bs = (True, d')" "ready d'" "total d' = total d"
    "cells d' = patch (off + ?s) bs (cells d)"
    using write_ok [of d "off + ?s" bs] 3 fit by auto
  moreover have "read_at ?s ?n (patch (off + ?s) bs (cells d)) = patch off bs (read_at ?s ?n (cells d))"
    using 3 total_cells [of d] by (intro read_at_patch_inner) simp_all
  moreover have "size_add off (length bs) = off + length bs" "size_add off ?s = off + ?s" using 3 fit by simp_all
  ultimately show ?case using 3 assms(1) by (simp add: NVAdapter_write_def serves_def)
next
  case (4 d n off)
  let ?s = "m_startAddress rg" and ?n = "m_regionLength rg"
  obtain d' where d': "dread d (off + ?s) n = (Some (read_at (off + ?s) n (cells d)), d')" "ready d'" "total d' = total d"
    "cells d' = cells d" using read_ok [of d "off + ?s" n] 4 fit by auto
  moreover have "read_at (off + ?s) n (cells d) = read_at off n (read_at ?s ?n (cells d))"
    using 4 by (simp add: read_at_def drop_take add.commute)
  moreover have "size_add off n = off + n" "size_add off ?s = off + ?s" using 4 fit by simp_all
  ultimately show ?case using 4 assms(1) by (simp add: NVAdapter_read_def serves_def)
next
  case (5 d off n)
  then show ?case by (simp add: NVAdapter_read_def)
qed

end

section \<open>A chip\<close>

text \<open>A chip that behaves as documented, with a write cycle of five delays.\<close>

record chip =
  ch_cells :: bytes
  ch_pointer :: nat
  ch_busy :: nat

definition chip_write :: "chip \<Rightarrow> bytes \<Rightarrow> bool \<times> chip" where
  "chip_write h bs =
     (if ch_busy h > 0 then (False, h)
      else case bs of
             a # b # ds \<Rightarrow>
               let off = unat a * 256 + unat b
               in if ds = [] then (True, h\<lparr>ch_pointer := off\<rparr>)
                  else (True, h\<lparr>ch_cells := patch off ds (ch_cells h), ch_busy := 5\<rparr>)
           | _ \<Rightarrow> (False, h))"

definition chip_bus :: "chip i2c_bus" where
  "chip_bus = \<lparr>writeToDevice = chip_write,
     readFromDevice = (\<lambda>h n. if ch_busy h > 0 then (None, h) else (Some (read_at (ch_pointer h) n (ch_cells h)), h)),
     sleep_ms = (\<lambda>h n. h\<lparr>ch_busy := ch_busy h - 1\<rparr>)\<rparr>"

lemma page_address_decode:
  "off < 65536 \<Longrightarrow>
   \<exists>a b. page_address off = [a, b] \<and> unat a * 256 + unat b = off"
proof -
  assume off: "off < 65536"
  have "unat (word_of_nat (off div 256 mod 256) :: u8) = off div 256 mod 256"
    "unat (word_of_nat (off mod 256) :: u8) = off mod 256"
    by (simp_all add: unat_of_nat_small)
  moreover have "off div 256 mod 256 * 256 + off mod 256 = off" using off by (simp add: div_mult_mod_eq)
  ultimately show ?thesis by (simp add: page_address_def)
qed

interpretation ref: eeprom_chip chip_bus ch_cells ch_pointer ch_busy
  "\<lambda>h. length (ch_cells h) = 65536 \<and> ch_busy h \<le> 6"
proof (unfold_locales, goal_cases)
  case (5 h off)
  then show ?case using page_address_decode [of off] by (auto simp: chip_bus_def chip_write_def)
next
  case (6 h off bs)
  then have "off + length bs \<le> 65536"
  proof -
    have "off div 128 < 512" using 6 by simp
    moreover have "off = off div 128 * 128 + off mod 128" by simp
    ultimately show ?thesis using 6(5) by linarith
  qed
  then show ?case using 6 page_address_decode [of off] by (auto simp: chip_bus_def chip_write_def Let_def)
qed (auto simp: chip_bus_def chip_write_def)

section \<open>Properties\<close>

definition cat_api :: "'h i2c_bus \<Rightarrow> 'h cat24c512 nv_api" where
  "cat_api bus = \<lparr>nv_start = CAT24C512_start bus, nv_stop = CAT24C512_stop, nv_write = CAT24C512_write bus,
     nv_read = CAT24C512_read bus, nv_getPageSize = (\<lambda>_. CAT24C512_BYTES_PER_PAGE),
     nv_getTotalSize = CAT24C512_getTotalSize\<rparr>"

context eeprom_chip
begin

lemma cat_device:
  "nv_device CAT24C512_getTotalSize (CAT24C512_write bus) (CAT24C512_read bus)
     (\<lambda>d. chip_cells (m_i2c d)) (\<lambda>d. m_started d \<and> alive (m_i2c d))"
  by (rule cat.nv_device_axioms)

lemma cat_serves: "cat.serves (cat_api bus)"
  by (simp add: cat.serves_def cat_api_def)

lemma cat_gang_device:
  "nv_device g_totalSize (Gang_write (cat_api bus)) (Gang_read (cat_api bus))
     (\<lambda>g. cat.all_cells (g_drivers g)) cat.gang_ready"
  by (rule cat.gang_device [OF cat_serves])

lemma cat_array:
  assumes "m_started d" and "alive (m_i2c d)" and "off < 65536" and "off + length bs < 2 ^ 32"
  shows "if off + length bs \<le> 65536
         then \<exists>d1 d2. CAT24C512_write bus d off bs = (True, d1) \<and>
                chip_cells (m_i2c d1) = patch off bs (chip_cells (m_i2c d)) \<and>
                CAT24C512_read bus d1 off (length bs) = (Some bs, d2) \<and> chip_cells (m_i2c d2) = chip_cells (m_i2c d1)
         else CAT24C512_write bus d off bs = (False, d) \<and> CAT24C512_read bus d off (length bs) = (None, d)"
proof -
  have tot: "CAT24C512_getTotalSize x = 65536" for x :: "'h cat24c512" by (simp add: cat_sizes)
  show ?thesis
  proof (cases "off + length bs \<le> 65536")
    case True
    obtain d1 where d1: "CAT24C512_write bus d off bs = (True, d1)" "m_started d1" "alive (m_i2c d1)"
      "chip_cells (m_i2c d1) = patch off bs (chip_cells (m_i2c d))"
      using cat.write_ok [of d off bs] assms True by (auto simp: tot)
    moreover obtain d2 where "CAT24C512_read bus d1 off (length bs) =
        (Some (read_at off (length bs) (chip_cells (m_i2c d1))), d2)" "chip_cells (m_i2c d2) = chip_cells (m_i2c d1)"
      using cat.read_ok [of d1 off "length bs"] d1 assms True by (auto simp: tot)
    ultimately show ?thesis using True assms chip_size [of "m_i2c d"] by simp
  next
    case False
    then show ?thesis
      using cat.write_range [of d off bs] cat.read_range [of d off "length bs"] assms by (simp add: tot)
  qed
qed

text \<open>Several chips behind a gang driver are one array.\<close>

definition gang_cells :: "'h cat24c512 gang \<Rightarrow> bytes" where
  "gang_cells g = concat (map (\<lambda>d. chip_cells (m_i2c d)) (g_drivers g))"

lemma cat_gang_ready:
  assumes "g_started g" and "\<forall>d\<in>set (g_drivers g). m_started d \<and> alive (m_i2c d)"
    and "g_totalSize g = 65536 * length (g_drivers g)" and "length (g_drivers g) < 65536"
  shows "cat.gang_ready g"
proof -
  have "map CAT24C512_getTotalSize ds = replicate (length ds) 65536" for ds :: "'h cat24c512 list"
    by (induction ds) (simp_all add: cat_sizes)
  then have "cat.gang_total (g_drivers g) = 65536 * length (g_drivers g)"
    by (simp add: cat.gang_total_def sum_list_replicate)
  with assms show ?thesis
    by (simp add: cat.gang_ready_def cat.devices_ready_def) (simp add: cat_sizes)
qed

lemma cat_gang_array:
  assumes "cat.gang_ready g" and "off < g_totalSize g" and "off + length bs \<le> g_totalSize g"
  shows "\<exists>g1 g2. Gang_write (cat_api bus) g off bs = (True, g1) \<and>
           gang_cells g1 = patch off bs (gang_cells g) \<and>
           Gang_read (cat_api bus) g1 off (length bs) = (Some bs, g2) \<and> gang_cells g2 = gang_cells g1"
proof -
  note dev = cat_gang_device
  have cells: "cat.all_cells (g_drivers x) = gang_cells x" for x by (simp add: gang_cells_def cat.all_cells_def)
  have lim: "off + length bs < 2 ^ 32" using assms by (simp add: cat.gang_ready_def)
  obtain g1 where g1: "Gang_write (cat_api bus) g off bs = (True, g1)" "cat.gang_ready g1" "g_totalSize g1 = g_totalSize g"
    "gang_cells g1 = patch off bs (gang_cells g)"
    using nv_device.write_ok [OF dev assms(1,3) lim assms(2)] by (auto simp: cells)
  moreover obtain g2 where "Gang_read (cat_api bus) g1 off (length bs) = (Some (read_at off (length bs) (gang_cells g1)), g2)"
    "gang_cells g2 = gang_cells g1"
    using nv_device.read_ok [OF dev g1(2), of off "length bs"] assms lim g1(3) by (auto simp: cells)
  moreover have "length (gang_cells g) = g_totalSize g"
    using nv_device.total_cells [OF dev assms(1)] by (simp add: cells)
  ultimately show ?thesis using assms by simp
qed

end

text \<open>
  C24. On a chip that behaves as documented, the EEPROM driver is an array of 64 kilobytes: a
  write anywhere inside it, across any number of pages and while an earlier write cycle is still
  running, stores exactly the given bytes, and a read returns them; a started driver refuses an
  access that ends beyond the array.
\<close>
theorem eeprom_driver_is_array:
  assumes "eeprom_chip bus cc ptr busy alive" and "m_started d" and "alive (m_i2c d)"
    and "off < 65536" and "off + length bs < 2 ^ 32"
  shows "if off + length bs \<le> 65536
         then \<exists>d1 d2. CAT24C512_write bus d off bs = (True, d1) \<and>
                cc (m_i2c d1) = patch off bs (cc (m_i2c d)) \<and>
                CAT24C512_read bus d1 off (length bs) = (Some bs, d2) \<and> cc (m_i2c d2) = cc (m_i2c d1)
         else CAT24C512_write bus d off bs = (False, d) \<and> CAT24C512_read bus d off (length bs) = (None, d)"
  using eeprom_chip.cat_array [OF assms] .

definition blank_chip :: chip where
  "blank_chip = \<lparr>ch_cells = replicate 65536 0xFF, ch_pointer = 0, ch_busy = 3\<rparr>"

theorem eeprom_driver_is_array_witness:
  "\<exists>d1 d2. CAT24C512_write chip_bus \<lparr>m_started = True, m_i2c = blank_chip\<rparr> 127 [1, 2, 3] = (True, d1) \<and>
     CAT24C512_read chip_bus d1 127 3 = (Some [1, 2, 3], d2)"
proof -
  have "length (ch_cells (m_i2c \<lparr>m_started = True, m_i2c = blank_chip\<rparr>)) = 65536 \<and> ch_busy (m_i2c \<lparr>m_started = True, m_i2c = blank_chip\<rparr>) \<le> 6"
    by (simp add: blank_chip_def)
  from eeprom_driver_is_array [OF ref.eeprom_chip_axioms _ this, of 127 "[1, 2, 3]"] show ?thesis
    by (auto simp: numeral_3_eq_3)
qed

text \<open>
  A gang of EEPROMs is one array: with every device started and the total size the sum of
  the sizes, a write at any offset, also one that spans several devices, stores exactly the
  given bytes in the concatenation of the devices, and a read returns them.
\<close>
theorem gang_of_eeproms_is_array:
  assumes "eeprom_chip bus cc ptr busy alive"
    and "g_started g" and "\<forall>d\<in>set (g_drivers g). m_started d \<and> alive (m_i2c d)"
    and "g_totalSize g = 65536 * length (g_drivers g)" and "length (g_drivers g) < 65536"
    and "off < g_totalSize g" and "off + length bs \<le> g_totalSize g"
  shows "\<exists>g1 g2. Gang_write (cat_api bus) g off bs = (True, g1) \<and>
           concat (map (\<lambda>d. cc (m_i2c d)) (g_drivers g1)) = patch off bs (concat (map (\<lambda>d. cc (m_i2c d)) (g_drivers g))) \<and>
           Gang_read (cat_api bus) g1 off (length bs) = (Some bs, g2)"
  using eeprom_chip.cat_gang_array [OF assms(1) eeprom_chip.cat_gang_ready [OF assms(1-5)] assms(6,7)]
  by (auto simp: eeprom_chip.gang_cells_def [OF assms(1)])

text \<open>Two chips; the write covers the last two bytes of the first and the first of the second.\<close>

definition two_chips :: "chip cat24c512 gang" where
  "two_chips = \<lparr>g_drivers = replicate 2 \<lparr>m_started = True, m_i2c = blank_chip\<rparr>, g_numPages = 1024, g_pageSize = 128,
     g_totalSize = 131072, g_started = True\<rparr>"

theorem gang_of_eeproms_is_array_witness:
  "\<exists>g1 g2. Gang_write (cat_api chip_bus) two_chips 65534 [7, 8, 9] = (True, g1) \<and>
     Gang_read (cat_api chip_bus) g1 65534 3 = (Some [7, 8, 9], g2)"
proof -
  have "g_started two_chips" and "g_totalSize two_chips = 65536 * length (g_drivers two_chips)"
    and "length (g_drivers two_chips) < 65536"
    and "\<forall>d\<in>set (g_drivers two_chips). m_started d \<and> length (ch_cells (m_i2c d)) = 65536 \<and> ch_busy (m_i2c d) \<le> 6"
    by (simp_all add: two_chips_def) (simp add: blank_chip_def)
  from gang_of_eeproms_is_array [OF ref.eeprom_chip_axioms this(1,4,2,3), of 65534 "[7, 8, 9]"] show ?thesis
    by (auto simp: two_chips_def numeral_3_eq_3)
qed

end
