(* ===== verification/Checksums.thy ===== *)
theory Checksums
  imports Prelude
begin

unbundle bit_operations_syntax

text \<open>
  The checksums of \<^verbatim>\<open>src/src/Cpl/Checksum\<close>: the table-driven CRC-CCITT
  (\<^verbatim>\<open>Crc16CcittFast.cpp\<close>), the table-driven Ethernet CRC (\<^verbatim>\<open>Crc32EthernetFast.cpp\<close>) and the
  Fletcher checksum (\<^verbatim>\<open>Fletcher16.cpp\<close>).  The tables are the ones of the source, entry by
  entry.  The reference is long division by the generator polynomial, one bit at a time
  (\<open>crc_bit\<close>, \<open>crc_byte\<close>); the locale \<open>checksum\<close> states the contract of \<^verbatim>\<open>Api16.h\<close> and
  \<^verbatim>\<open>Api32.h\<close> and is interpreted by all three.
\<close>

section \<open>CRC-CCITT, 16 bits\<close>

definition crc16_table :: "u16 list" where
  "crc16_table = [
     0x0000, 0x1021, 0x2042, 0x3063, 0x4084, 0x50a5, 0x60c6, 0x70e7,
     0x8108, 0x9129, 0xa14a, 0xb16b, 0xc18c, 0xd1ad, 0xe1ce, 0xf1ef,
     0x1231, 0x0210, 0x3273, 0x2252, 0x52b5, 0x4294, 0x72f7, 0x62d6,
     0x9339, 0x8318, 0xb37b, 0xa35a, 0xd3bd, 0xc39c, 0xf3ff, 0xe3de,
     0x2462, 0x3443, 0x0420, 0x1401, 0x64e6, 0x74c7, 0x44a4, 0x5485,
     0xa56a, 0xb54b, 0x8528, 0x9509, 0xe5ee, 0xf5cf, 0xc5ac, 0xd58d,
     0x3653, 0x2672, 0x1611, 0x0630, 0x76d7, 0x66f6, 0x5695, 0x46b4,
     0xb75b, 0xa77a, 0x9719, 0x8738, 0xf7df, 0xe7fe, 0xd79d, 0xc7bc,
     0x48c4, 0x58e5, 0x6886, 0x78a7, 0x0840, 0x1861, 0x2802, 0x3823,
     0xc9cc, 0xd9ed, 0xe98e, 0xf9af, 0x8948, 0x9969, 0xa90a, 0xb92b,
     0x5af5, 0x4ad4, 0x7ab7, 0x6a96, 0x1a71, 0x0a50, 0x3a33, 0x2a12,
     0xdbfd, 0xcbdc, 0xfbbf, 0xeb9e, 0x9b79, 0x8b58, 0xbb3b, 0xab1a,
     0x6ca6, 0x7c87, 0x4ce4, 0x5cc5, 0x2c22, 0x3c03, 0x0c60, 0x1c41,
     0xedae, 0xfd8f, 0xcdec, 0xddcd, 0xad2a, 0xbd0b, 0x8d68, 0x9d49,
     0x7e97, 0x6eb6, 0x5ed5, 0x4ef4, 0x3e13, 0x2e32, 0x1e51, 0x0e70,
     0xff9f, 0xefbe, 0xdfdd, 0xcffc, 0xbf1b, 0xaf3a, 0x9f59, 0x8f78,
     0x9188, 0x81a9, 0xb1ca, 0xa1eb, 0xd10c, 0xc12d, 0xf14e, 0xe16f,
     0x1080, 0x00a1, 0x30c2, 0x20e3, 0x5004, 0x4025, 0x7046, 0x6067,
     0x83b9, 0x9398, 0xa3fb, 0xb3da, 0xc33d, 0xd31c, 0xe37f, 0xf35e,
     0x02b1, 0x1290, 0x22f3, 0x32d2, 0x4235, 0x5214, 0x6277, 0x7256,
     0xb5ea, 0xa5cb, 0x95a8, 0x8589, 0xf56e, 0xe54f, 0xd52c, 0xc50d,
     0x34e2, 0x24c3, 0x14a0, 0x0481, 0x7466, 0x6447, 0x5424, 0x4405,
     0xa7db, 0xb7fa, 0x8799, 0x97b8, 0xe75f, 0xf77e, 0xc71d, 0xd73c,
     0x26d3, 0x36f2, 0x0691, 0x16b0, 0x6657, 0x7676, 0x4615, 0x5634,
     0xd94c, 0xc96d, 0xf90e, 0xe92f, 0x99c8, 0x89e9, 0xb98a, 0xa9ab,
     0x5844, 0x4865, 0x7806, 0x6827, 0x18c0, 0x08e1, 0x3882, 0x28a3,
     0xcb7d, 0xdb5c, 0xeb3f, 0xfb1e, 0x8bf9, 0x9bd8, 0xabbb, 0xbb9a,
     0x4a75, 0x5a54, 0x6a37, 0x7a16, 0x0af1, 0x1ad0, 0x2ab3, 0x3a92,
     0xfd2e, 0xed0f, 0xdd6c, 0xcd4d, 0xbdaa, 0xad8b, 0x9de8, 0x8dc9,
     0x7c26, 0x6c07, 0x5c64, 0x4c45, 0x3ca2, 0x2c83, 0x1ce0, 0x0cc1,
     0xef1f, 0xff3e, 0xcf5d, 0xdf7c, 0xaf9b, 0xbfba, 0x8fd9, 0x9ff8,
     0x6e17, 0x7e36, 0x4e55, 0x5e74, 0x2e93, 0x3eb2, 0x0ed1, 0x1ef0]"

definition Crc16_reset :: u16 where
  "Crc16_reset = NOT 0"

definition Crc16_step :: "u16 \<Rightarrow> u8 \<Rightarrow> u16" where
  "Crc16_step m_crc byte =
     crc16_table ! unat ((drop_bit 8 m_crc XOR ucast byte) AND 0xff) XOR push_bit 8 m_crc"

fun Crc16_accumulate :: "u16 \<Rightarrow> bytes \<Rightarrow> u16" where
  "Crc16_accumulate m_crc [] = m_crc"
| "Crc16_accumulate m_crc (b # bs) = Crc16_accumulate (Crc16_step m_crc b) bs"

text \<open>
  \<open>finalize\<close> returns the checksum value; where a destination buffer is given (the flag), the
  second component is what it writes there.
\<close>

definition Crc16_finalize :: "u16 \<Rightarrow> bool \<Rightarrow> u16 \<times> bytes" where
  "Crc16_finalize m_crc destBuffer =
     (m_crc,
      if destBuffer then [ucast (drop_bit 8 m_crc AND 0xFF), ucast (m_crc AND 0xFF)] else [])"

definition Crc16_isOkay :: "u16 \<Rightarrow> bool" where
  "Crc16_isOkay m_crc \<longleftrightarrow> m_crc = 0"

section \<open>Ethernet CRC, 32 bits\<close>

definition crc32_table :: "u32 list" where
  "crc32_table = [
     0x00000000, 0x04c11db7, 0x09823b6e, 0x0d4326d9, 0x130476dc, 0x17c56b6b, 0x1a864db2, 0x1e475005,
     0x2608edb8, 0x22c9f00f, 0x2f8ad6d6, 0x2b4bcb61, 0x350c9b64, 0x31cd86d3, 0x3c8ea00a, 0x384fbdbd,
     0x4c11db70, 0x48d0c6c7, 0x4593e01e, 0x4152fda9, 0x5f15adac, 0x5bd4b01b, 0x569796c2, 0x52568b75,
     0x6a1936c8, 0x6ed82b7f, 0x639b0da6, 0x675a1011, 0x791d4014, 0x7ddc5da3, 0x709f7b7a, 0x745e66cd,
     0x9823b6e0, 0x9ce2ab57, 0x91a18d8e, 0x95609039, 0x8b27c03c, 0x8fe6dd8b, 0x82a5fb52, 0x8664e6e5,
     0xbe2b5b58, 0xbaea46ef, 0xb7a96036, 0xb3687d81, 0xad2f2d84, 0xa9ee3033, 0xa4ad16ea, 0xa06c0b5d,
     0xd4326d90, 0xd0f37027, 0xddb056fe, 0xd9714b49, 0xc7361b4c, 0xc3f706fb, 0xceb42022, 0xca753d95,
     0xf23a8028, 0xf6fb9d9f, 0xfbb8bb46, 0xff79a6f1, 0xe13ef6f4, 0xe5ffeb43, 0xe8bccd9a, 0xec7dd02d,
     0x34867077, 0x30476dc0, 0x3d044b19, 0x39c556ae, 0x278206ab, 0x23431b1c, 0x2e003dc5, 0x2ac12072,
     0x128e9dcf, 0x164f8078, 0x1b0ca6a1, 0x1fcdbb16, 0x018aeb13, 0x054bf6a4, 0x0808d07d, 0x0cc9cdca,
     0x7897ab07, 0x7c56b6b0, 0x71159069, 0x75d48dde, 0x6b93dddb, 0x6f52c06c, 0x6211e6b5, 0x66d0fb02,
     0x5e9f46bf, 0x5a5e5b08, 0x571d7dd1, 0x53dc6066, 0x4d9b3063, 0x495a2dd4, 0x44190b0d, 0x40d816ba,
     0xaca5c697, 0xa864db20, 0xa527fdf9, 0xa1e6e04e, 0xbfa1b04b, 0xbb60adfc, 0xb6238b25, 0xb2e29692,
     0x8aad2b2f, 0x8e6c3698, 0x832f1041, 0x87ee0df6, 0x99a95df3, 0x9d684044, 0x902b669d, 0x94ea7b2a,
     0xe0b41de7, 0xe4750050, 0xe9362689, 0xedf73b3e, 0xf3b06b3b, 0xf771768c, 0xfa325055, 0xfef34de2,
     0xc6bcf05f, 0xc27dede8, 0xcf3ecb31, 0xcbffd686, 0xd5b88683, 0xd1799b34, 0xdc3abded, 0xd8fba05a,
     0x690ce0ee, 0x6dcdfd59, 0x608edb80, 0x644fc637, 0x7a089632, 0x7ec98b85, 0x738aad5c, 0x774bb0eb,
     0x4f040d56, 0x4bc510e1, 0x46863638, 0x42472b8f, 0x5c007b8a, 0x58c1663d, 0x558240e4, 0x51435d53,
     0x251d3b9e, 0x21dc2629, 0x2c9f00f0, 0x285e1d47, 0x36194d42, 0x32d850f5, 0x3f9b762c, 0x3b5a6b9b,
     0x0315d626, 0x07d4cb91, 0x0a97ed48, 0x0e56f0ff, 0x1011a0fa, 0x14d0bd4d, 0x19939b94, 0x1d528623,
     0xf12f560e, 0xf5ee4bb9, 0xf8ad6d60, 0xfc6c70d7, 0xe22b20d2, 0xe6ea3d65, 0xeba91bbc, 0xef68060b,
     0xd727bbb6, 0xd3e6a601, 0xdea580d8, 0xda649d6f, 0xc423cd6a, 0xc0e2d0dd, 0xcda1f604, 0xc960ebb3,
     0xbd3e8d7e, 0xb9ff90c9, 0xb4bcb610, 0xb07daba7, 0xae3afba2, 0xaafbe615, 0xa7b8c0cc, 0xa379dd7b,
     0x9b3660c6, 0x9ff77d71, 0x92b45ba8, 0x9675461f, 0x8832161a, 0x8cf30bad, 0x81b02d74, 0x857130c3,
     0x5d8a9099, 0x594b8d2e, 0x5408abf7, 0x50c9b640, 0x4e8ee645, 0x4a4ffbf2, 0x470cdd2b, 0x43cdc09c,
     0x7b827d21, 0x7f436096, 0x7200464f, 0x76c15bf8, 0x68860bfd, 0x6c47164a, 0x61043093, 0x65c52d24,
     0x119b4be9, 0x155a565e, 0x18197087, 0x1cd86d30, 0x029f3d35, 0x065e2082, 0x0b1d065b, 0x0fdc1bec,
     0x3793a651, 0x3352bbe6, 0x3e119d3f, 0x3ad08088, 0x2497d08d, 0x2056cd3a, 0x2d15ebe3, 0x29d4f654,
     0xc5a92679, 0xc1683bce, 0xcc2b1d17, 0xc8ea00a0, 0xd6ad50a5, 0xd26c4d12, 0xdf2f6bcb, 0xdbee767c,
     0xe3a1cbc1, 0xe760d676, 0xea23f0af, 0xeee2ed18, 0xf0a5bd1d, 0xf464a0aa, 0xf9278673, 0xfde69bc4,
     0x89b8fd09, 0x8d79e0be, 0x803ac667, 0x84fbdbd0, 0x9abc8bd5, 0x9e7d9662, 0x933eb0bb, 0x97ffad0c,
     0xafb010b1, 0xab710d06, 0xa6322bdf, 0xa2f33668, 0xbcb4666d, 0xb8757bda, 0xb5365d03, 0xb1f740b4]"

definition Crc32_reset :: u32 where
  "Crc32_reset = NOT 0"

definition Crc32_step :: "u32 \<Rightarrow> u8 \<Rightarrow> u32" where
  "Crc32_step m_crc byte =
     (let temp = byte XOR ucast (drop_bit 24 m_crc) in crc32_table ! unat temp XOR push_bit 8 m_crc)"

fun Crc32_accumulate :: "u32 \<Rightarrow> bytes \<Rightarrow> u32" where
  "Crc32_accumulate m_crc [] = m_crc"
| "Crc32_accumulate m_crc (b # bs) = Crc32_accumulate (Crc32_step m_crc b) bs"

definition Crc32_finalize :: "u32 \<Rightarrow> bool \<Rightarrow> u32 \<times> bytes" where
  "Crc32_finalize m_crc destBuffer =
     (m_crc,
      if destBuffer
      then [ucast (drop_bit 24 m_crc AND 0xFF), ucast (drop_bit 16 m_crc AND 0xFF),
            ucast (drop_bit 8 m_crc AND 0xFF), ucast (m_crc AND 0xFF)]
      else [])"

definition Crc32_isOkay :: "u32 \<Rightarrow> bool" where
  "Crc32_isOkay m_crc \<longleftrightarrow> m_crc = 0"

section \<open>Fletcher checksum\<close>

record fletcher16 =
  m_sum1 :: u8
  m_sum2 :: u8

definition Fletcher16_reset :: fletcher16 where
  "Fletcher16_reset = \<lparr>m_sum1 = 0, m_sum2 = 0\<rparr>"

definition Fletcher16_step :: "fletcher16 \<Rightarrow> u8 \<Rightarrow> fletcher16" where
  "Fletcher16_step f byte =
     (let sum1 = ucast ((ucast (m_sum1 f) + ucast byte :: u16) mod 255) :: u8;
          sum2 = ucast ((ucast (m_sum2 f) + ucast sum1 :: u16) mod 255) :: u8
      in f\<lparr>m_sum1 := sum1, m_sum2 := sum2\<rparr>)"

fun Fletcher16_accumulate :: "fletcher16 \<Rightarrow> bytes \<Rightarrow> fletcher16" where
  "Fletcher16_accumulate f [] = f"
| "Fletcher16_accumulate f (b # bs) = Fletcher16_accumulate (Fletcher16_step f b) bs"

definition Fletcher16_finalize :: "fletcher16 \<Rightarrow> bool \<Rightarrow> u16 \<times> bytes" where
  "Fletcher16_finalize f destBuffer =
     (let sumlo = ucast (255 - (ucast (m_sum1 f) + ucast (m_sum2 f) :: u16) mod 255) :: u8;
          sumhi = ucast (255 - (ucast (m_sum1 f) + ucast sumlo :: u16) mod 255) :: u8
      in (ucast sumlo + push_bit 8 (ucast sumhi), if destBuffer then [sumlo, sumhi] else []))"

definition Fletcher16_isOkay :: "fletcher16 \<Rightarrow> bool" where
  "Fletcher16_isOkay f \<longleftrightarrow> m_sum1 f = 0 \<and> m_sum2 f = 0"

section \<open>Reference: division by the generator, bit by bit\<close>

definition crc_bit :: "'a::len word \<Rightarrow> 'a word \<Rightarrow> 'a word" where
  "crc_bit poly c = (if bit c (LENGTH('a) - 1) then push_bit 1 c XOR poly else push_bit 1 c)"

definition crc_byte :: "'a::len word \<Rightarrow> 'a word \<Rightarrow> u8 \<Rightarrow> 'a word" where
  "crc_byte poly c b = (crc_bit poly ^^ 8) (c XOR push_bit (LENGTH('a) - 8) (ucast b))"

fun crc_ref :: "'a::len word \<Rightarrow> 'a word \<Rightarrow> bytes \<Rightarrow> 'a word" where
  "crc_ref poly c [] = c"
| "crc_ref poly c (b # bs) = crc_ref poly (crc_byte poly c b) bs"

lemma crc_bit_low:
  fixes x :: "'a::len word"
  assumes "\<not> bit x (LENGTH('a) - 1)"
  shows "crc_bit p x = push_bit 1 x"
  using assms by (simp only: crc_bit_def if_False)

lemma bit_crc_bit:
  fixes x :: "'a::len word"
  shows "bit (crc_bit p x) n \<longleftrightarrow>
    n < LENGTH('a) \<and> ((0 < n \<and> bit x (n - 1)) \<noteq> (bit x (LENGTH('a) - 1) \<and> bit p n))"
proof (cases "bit x (LENGTH('a) - 1)")
  case True
  then have "crc_bit p x = push_bit 1 x XOR p" by (simp only: crc_bit_def if_True)
  with True show ?thesis
    by (auto simp only: bit_xor_iff bit_push_bit_iff possible_bit_word dest: bit_imp_le_length)
next
  case False
  then have "crc_bit p x = push_bit 1 x" by (rule crc_bit_low)
  with False show ?thesis by (auto simp only: bit_push_bit_iff possible_bit_word dest: bit_imp_le_length)
qed

lemma crc_bit_xor: "crc_bit p (x XOR y) = crc_bit p x XOR crc_bit p y"
  by (rule bit_word_eqI) (auto simp: bit_crc_bit bit_xor_iff)

lemma crc_bits_xor: "(crc_bit p ^^ n) (x XOR y) = (crc_bit p ^^ n) x XOR (crc_bit p ^^ n) y"
  by (induction n) (simp_all add: crc_bit_xor)

lemma crc_bit_0 [simp]: "crc_bit p 0 = 0"
  by (rule bit_word_eqI) (simp add: bit_crc_bit)

lemma crc_bits_0 [simp]: "(crc_bit p ^^ n) 0 = 0"
  by (induction n) simp_all

lemma word_xor_cancel [simp]:
  fixes x y z :: "'a::len word"
  shows "x XOR z = y XOR z \<longleftrightarrow> x = y" and "z XOR x = z XOR y \<longleftrightarrow> x = y"
  by (auto simp: bit_eq_iff bit_xor_iff)

lemma xor_eq_0_D:
  fixes x y :: "'a::len word"
  shows "x XOR y = 0 \<Longrightarrow> x = y"
  by (metis word_xor_cancel(2) xor_self_eq)

text \<open>A polynomial with a constant term makes one division step injective.\<close>

lemma crc_bit_eq_0:
  fixes p x :: "'a::len word"
  assumes p: "bit p 0" and z: "crc_bit p x = 0"
  shows "x = 0"
proof -
  have b: "\<not> bit (crc_bit p x) n" for n by (simp add: z)
  from b [of 0] p have top: "\<not> bit x (LENGTH('a) - 1)" by (simp add: bit_crc_bit)
  show ?thesis
  proof (rule bit_word_eqI)
    fix n assume "n < LENGTH('a)"
    with top b [of "Suc n"] show "bit x n \<longleftrightarrow> bit 0 n"
      by (cases "n = LENGTH('a) - 1") (auto simp: bit_crc_bit)
  qed
qed

lemma crc_bits_inj:
  assumes "bit p 0" and "(crc_bit p ^^ n) x = (crc_bit p ^^ n) y"
  shows "x = y"
proof -
  have zero: "(crc_bit p ^^ n) z = 0 \<Longrightarrow> z = 0" for n z
    by (induction n) (auto dest: crc_bit_eq_0 [OF assms(1)])
  from assms(2) have "(crc_bit p ^^ n) (x XOR y) = 0" by (simp add: crc_bits_xor)
  then show ?thesis by (blast dest: zero xor_eq_0_D)
qed

text \<open>Shifting only zeros out at the top is a plain shift.\<close>

lemma crc_bits_low:
  fixes x :: "'a::len word"
  assumes "\<And>i. LENGTH('a) - k \<le> i \<Longrightarrow> \<not> bit x i" and "k \<le> LENGTH('a)"
  shows "(crc_bit p ^^ k) x = push_bit k x"
  using assms
proof (induction k)
  case (Suc k)
  then have IH: "(crc_bit p ^^ k) x = push_bit k x" by simp
  have "\<not> bit (push_bit k x) (LENGTH('a) - 1)"
    using Suc.prems(1) [of "LENGTH('a) - 1 - k"] by (auto simp: bit_push_bit_iff)
  then have "crc_bit p (push_bit k x) = push_bit (1 + k) x"
    by (subst crc_bit_low) (simp_all only: push_bit_push_bit not_False_eq_True)
  with IH show ?case by simp
qed simp

text \<open>
  The identity behind the table: eight division steps depend on the top byte and the data
  byte only through their exclusive or; the rest is shifted.
\<close>

lemma crc_byte_split:
  fixes c :: "'a::len word"
  assumes "8 \<le> LENGTH('a)"
  shows "crc_byte p c b =
    (crc_bit p ^^ 8) (push_bit (LENGTH('a) - 8) (ucast (b XOR ucast (drop_bit (LENGTH('a) - 8) c)))) XOR
    push_bit 8 c"
proof -
  let ?L = "LENGTH('a) - 8"
  have "c XOR push_bit ?L (ucast b) =
      push_bit ?L (ucast (b XOR ucast (drop_bit ?L c))) XOR take_bit ?L c"
    using assms
    by (intro bit_word_eqI)
      (auto simp: bit_xor_iff bit_push_bit_iff bit_take_bit_iff bit_ucast_iff bit_drop_bit_eq)
  moreover have "(crc_bit p ^^ 8) (take_bit ?L c) = push_bit 8 (take_bit ?L c)"
    using assms by (intro crc_bits_low) (auto simp: bit_take_bit_iff)
  moreover have "push_bit 8 (take_bit ?L c) = push_bit 8 c"
    by (intro bit_word_eqI) (auto simp: bit_push_bit_iff bit_take_bit_iff)
  ultimately show ?thesis by (simp add: crc_byte_def crc_bits_xor)
qed

lemma crc_byte_inj_crc:
  assumes "bit p 0" and "crc_byte p c b = crc_byte p d b"
  shows "c = d"
proof -
  have "c XOR push_bit (LENGTH('a) - 8) (ucast b) = d XOR push_bit (LENGTH('a) - 8) (ucast b)"
    by (rule crc_bits_inj [OF assms(1), where n = 8]) (use assms(2) in \<open>simp only: crc_byte_def\<close>)
  then show ?thesis by simp
qed

lemma crc_byte_inj_byte:
  fixes c :: "'a::len word"
  assumes "bit p 0" and L: "8 \<le> LENGTH('a)" and "crc_byte p c a = crc_byte p c b"
  shows "a = b"
proof -
  let ?L = "LENGTH('a) - 8"
  have "c XOR push_bit ?L (ucast a) = c XOR push_bit ?L (ucast b)"
    by (rule crc_bits_inj [OF assms(1), where n = 8]) (use assms(3) in \<open>simp only: crc_byte_def\<close>)
  then have eq: "push_bit ?L (ucast a :: 'a word) = push_bit ?L (ucast b)"
    by (simp only: word_xor_cancel)
  have mask: "bit (push_bit ?L (ucast d :: 'a word)) (?L + n) \<longleftrightarrow> bit d n" if "n < 8" for d :: u8 and n
    using that L by (auto simp: bit_push_bit_iff bit_ucast_iff)
  show ?thesis
  proof (rule bit_word_eqI)
    fix n assume "n < LENGTH(8)"
    then have n: "n < 8" by simp
    show "bit a n \<longleftrightarrow> bit b n" using mask [OF n, of a] mask [OF n, of b] by (simp add: eq)
  qed
qed

section \<open>The tables\<close>

text \<open>
  A table is the one of a polynomial when entry 0 is 0, entry \<open>2 i\<close> is one division step of
  entry \<open>i\<close>, and entry \<open>2 i + 1\<close> adds the polynomial to it.
\<close>

definition crc_pair :: "'a::len word \<Rightarrow> 'a word \<Rightarrow> 'a word list" where
  "crc_pair p x = [crc_bit p x, crc_bit p x XOR p]"

definition crc_table_of :: "'a::len word \<Rightarrow> 'a word list \<Rightarrow> bool" where
  "crc_table_of p t \<longleftrightarrow>
     length t = 256 \<and> t ! 0 = 0 \<and> t = concat (map (crc_pair p) (take 128 t))"

lemma crc32_table_pairs: "crc_table_of 0x04C11DB7 crc32_table"
  by (simp add: crc_table_of_def crc32_table_def crc_pair_def crc_bit_def)

lemma crc16_table_pairs: "crc_table_of 0x1021 crc16_table"
  by (simp add: crc_table_of_def crc16_table_def crc_pair_def crc_bit_def)

lemma nth_concat_pairs:
  "i < length xs \<Longrightarrow>
   concat (map (crc_pair p) xs) ! (2 * i) = crc_bit p (xs ! i) \<and>
   concat (map (crc_pair p) xs) ! (2 * i + 1) = crc_bit p (xs ! i) XOR p"
proof (induction xs arbitrary: i)
  case (Cons x xs)
  then show ?case by (cases i) (auto simp: crc_pair_def)
qed simp

lemma crc_bits_one:
  assumes L: "8 \<le> LENGTH('a::len)"
  shows "(crc_bit p ^^ 8) (push_bit (LENGTH('a) - 8) (1 :: 'a word)) = p"
proof -
  let ?L = "LENGTH('a) - 8"
  have "(crc_bit p ^^ 7) (push_bit ?L 1) = push_bit 7 (push_bit ?L 1)"
    using L by (intro crc_bits_low) (auto simp only: bit_push_bit_iff bit_1_iff)
  moreover have "push_bit 7 (push_bit ?L (1 :: 'a word)) = push_bit (LENGTH('a) - 1) 1"
    using L by (simp only: push_bit_push_bit) (simp add: algebra_simps)
  moreover have "crc_bit p (push_bit (LENGTH('a) - 1) 1) = p"
    proof (rule bit_word_eqI)
    fix n assume n: "n < LENGTH('a)"
    have top: "bit (push_bit (LENGTH('a) - 1) (1 :: 'a word)) m \<longleftrightarrow> m = LENGTH('a) - 1"
      if "m < LENGTH('a)" for m
      using that by (auto simp: bit_push_bit_iff bit_1_iff simp del: push_bit_of_1)
    show "bit (crc_bit p (push_bit (LENGTH('a) - 1) 1)) n = bit p n"
      using n top [of "n - 1"] top [of "LENGTH('a) - 1"] by (auto simp: bit_crc_bit simp del: push_bit_of_1)
  qed
  moreover have "(8 :: nat) = Suc 7" by simp
  ultimately show ?thesis by (metis funpow.simps(2) comp_apply)
qed

lemma crc_bits_double:
  assumes L: "8 \<le> LENGTH('a::len)" and j: "j < 128"
  shows "(crc_bit p ^^ 8) (push_bit (LENGTH('a) - 8) (word_of_nat (2 * j) :: 'a word)) =
    crc_bit p ((crc_bit p ^^ 8) (push_bit (LENGTH('a) - 8) (word_of_nat j)))"
proof -
  let ?L = "LENGTH('a) - 8" and ?w = "word_of_nat j :: 'a word"
  have small: "\<not> bit ?w m" if "7 \<le> m" for m
  proof -
    have "take_bit 7 j = j" using j by (simp add: take_bit_nat_eq_self)
    then have "\<not> bit j m" using that by (metis bit_take_bit_iff not_le)
    then show ?thesis by (simp add: bit_of_nat_iff)
  qed
  have "crc_bit p (push_bit ?L ?w) = push_bit 1 (push_bit ?L ?w)"
    using L small by (intro crc_bit_low) (simp add: bit_push_bit_iff)
  also have "\<dots> = push_bit ?L (push_bit 1 ?w)" by (simp only: push_bit_push_bit add.commute)
  also have "push_bit 1 ?w = word_of_nat (2 * j)" by (simp add: push_bit_eq_mult mult.commute)
  finally have "crc_bit p (push_bit ?L ?w) = push_bit ?L (word_of_nat (2 * j))" .
  then show ?thesis by (metis funpow_swap1)
qed

lemma table_entry:
  fixes t :: "'a::len word list"
  assumes t: "crc_table_of p t" and L: "8 \<le> LENGTH('a)"
  shows "i < 256 \<Longrightarrow> t ! i = (crc_bit p ^^ 8) (push_bit (LENGTH('a) - 8) (word_of_nat i))"
proof (induction i rule: less_induct)
  case (less i)
  let ?L = "LENGTH('a) - 8" and ?f = "crc_bit p ^^ 8"
  have rec: "t ! (2 * j) = crc_bit p (t ! j) \<and> t ! (2 * j + 1) = crc_bit p (t ! j) XOR p" if "j < 128" for j
  proof -
    have "length t = 256" and pairs: "concat (map (crc_pair p) (take 128 t)) = t"
      using t by (simp_all add: crc_table_of_def)
    then show ?thesis using nth_concat_pairs [of j "take 128 t" p] that unfolding pairs by simp
  qed
  have even: "t ! (2 * j) = ?f (push_bit ?L (word_of_nat (2 * j)))" if "2 * j = i \<or> 2 * j + 1 = i" "j < 128" for j
  proof (cases "j = 0")
    case True then show ?thesis using t by (simp add: crc_table_of_def)
  next
    case False
    then show ?thesis using that less.IH [of j] rec [of j] crc_bits_double [OF L, of j p] by auto
  qed
  show ?case
  proof (cases "even i")
    case True
    then show ?thesis using even [of "i div 2"] less.prems by auto
  next
    case False
    then obtain j where i: "i = 2 * j + 1" by (rule oddE)
    then have j: "j < 128" using less.prems by simp
    have "push_bit ?L (word_of_nat i :: 'a word) = push_bit ?L (word_of_nat (2 * j)) XOR push_bit ?L 1"
    proof -
      have "word_of_nat i = (word_of_nat (2 * j) XOR 1 :: 'a word)"
        by (simp add: i xor_one_eq)
      then show ?thesis by (simp only: push_bit_xor)
    qed
    then have "?f (push_bit ?L (word_of_nat i)) = t ! (2 * j) XOR p"
      using even [of j] i j crc_bits_one [OF L, of p] by (simp only: crc_bits_xor) simp
    then show ?thesis using rec [OF j] i by simp
  qed
qed

section \<open>The table-driven CRCs are the division\<close>

lemma Crc16_step_ref: "Crc16_step c b = crc_byte 0x1021 c b"
proof -
  let ?i = "b XOR ucast (drop_bit 8 c) :: u8"
  have "(drop_bit 8 c XOR ucast b) AND 0xff = (ucast ?i :: u16)"
  proof (rule bit_word_eqI)
    fix n assume "n < LENGTH(16)"
    then have "n < 16" by simp
    have m: "(0xff :: u16) = mask 8" by (simp add: mask_eq_exp_minus_1)
    show "bit ((drop_bit 8 c XOR ucast b) AND 0xff) n = bit (ucast ?i :: u16) n"
      unfolding m using \<open>n < 16\<close> by (auto simp: bit_simps dest: bit_imp_le_length)
  qed
  moreover have "unat (ucast ?i :: u16) = unat ?i" using unat_bound [of ?i]
    by (simp add: unsigned_ucast_eq take_bit_nat_eq_self)
  moreover have "crc16_table ! unat ?i = (crc_bit 0x1021 ^^ 8) (push_bit 8 (word_of_nat (unat ?i)))"
    using table_entry [OF crc16_table_pairs, of "unat ?i"] unat_bound [of ?i] by simp
  moreover have "word_of_nat (unat ?i) = (ucast ?i :: u16)" by simp
  ultimately show ?thesis using crc_byte_split [of "0x1021 :: u16" c b] by (simp add: Crc16_step_def)
qed

lemma Crc32_step_ref: "Crc32_step c b = crc_byte 0x04C11DB7 c b"
proof -
  let ?i = "b XOR ucast (drop_bit 24 c) :: u8"
  have "crc32_table ! unat ?i = (crc_bit 0x04C11DB7 ^^ 8) (push_bit 24 (word_of_nat (unat ?i)))"
    using table_entry [OF crc32_table_pairs, of "unat ?i"] unat_bound [of ?i] by simp
  moreover have "word_of_nat (unat ?i) = (ucast ?i :: u32)" by simp
  ultimately show ?thesis
    using crc_byte_split [of "0x04C11DB7 :: u32" c b] by (simp add: Crc32_step_def Let_def)
qed

lemma Crc16_accumulate_foldl: "Crc16_accumulate c bs = foldl Crc16_step c bs"
  by (induction bs arbitrary: c) simp_all

lemma Crc32_accumulate_foldl: "Crc32_accumulate c bs = foldl Crc32_step c bs"
  by (induction bs arbitrary: c) simp_all

lemma Fletcher16_accumulate_foldl: "Fletcher16_accumulate f bs = foldl Fletcher16_step f bs"
  by (induction bs arbitrary: f) simp_all

lemma crc_ref_foldl: "crc_ref p c bs = foldl (crc_byte p) c bs"
  by (induction bs arbitrary: c) simp_all

text \<open>Feeding back the top byte of the remainder shifts it out.\<close>

lemma crc_byte_top:
  fixes c :: "'a::len word"
  assumes "8 \<le> LENGTH('a)"
  shows "crc_byte p c (ucast (drop_bit (LENGTH('a) - 8) c)) = push_bit 8 c"
  using assms by (simp add: crc_byte_split)

lemma ucast_and_FF: "(ucast (x AND 0xFF :: 'a::len word) :: u8) = ucast x"
proof (rule bit_word_eqI)
  fix n assume "n < LENGTH(8)"
  then have n: "n < 8" by simp
  have m: "(0xFF :: 'a word) = mask 8" by (simp add: mask_eq_exp_minus_1)
  show "bit (ucast (x AND 0xFF) :: u8) n = bit (ucast x :: u8) n"
    unfolding m using n by (auto simp: bit_simps dest: bit_imp_le_length)
qed

lemma Crc16_final: "foldl Crc16_step c (snd (Crc16_finalize c True)) = 0"
proof -
  have lo: "ucast c = (ucast (drop_bit 8 (push_bit 8 c)) :: u8)"
    by (rule bit_word_eqI) (simp add: bit_simps)
  have *: "Crc16_step d (ucast (drop_bit 8 d)) = push_bit 8 d" for d
    using crc_byte_top [of "0x1021 :: u16" d] by (simp add: Crc16_step_ref)
  have "push_bit 8 (push_bit 8 c) = 0"
    by (rule bit_word_eqI) (simp add: bit_simps)
  then show ?thesis
    by (simp only: Crc16_finalize_def ucast_and_FF lo * if_True snd_conv foldl.simps)
qed

lemma Crc32_final: "foldl Crc32_step c (snd (Crc32_finalize c True)) = 0"
proof -
  have 2: "ucast (drop_bit 16 c) = (ucast (drop_bit 24 (push_bit 8 c)) :: u8)"
    by (rule bit_word_eqI) (simp add: bit_simps)
  have 3: "ucast (drop_bit 8 c) = (ucast (drop_bit 24 (push_bit 8 (push_bit 8 c))) :: u8)"
    by (rule bit_word_eqI) (simp add: bit_simps)
  have 4: "ucast c = (ucast (drop_bit 24 (push_bit 8 (push_bit 8 (push_bit 8 c)))) :: u8)"
    by (rule bit_word_eqI) (simp add: bit_simps)
  have *: "Crc32_step d (ucast (drop_bit 24 d)) = push_bit 8 d" for d
    using crc_byte_top [of "0x04C11DB7 :: u32" d] by (simp add: Crc32_step_ref)
  have "push_bit 8 (push_bit 8 (push_bit 8 (push_bit 8 c))) = 0"
    by (rule bit_word_eqI) (simp add: bit_simps)
  then show ?thesis
    by (simp only: Crc32_finalize_def ucast_and_FF 2 3 4 * if_True snd_conv foldl.simps)
qed

section \<open>Fletcher sums as numbers\<close>

lemma unat_ucast_8_16: "unat (ucast (b :: u8) :: u16) = unat b"
  using unat_bound [of b] by (simp add: unsigned_ucast_eq take_bit_nat_eq_self)

lemma unat_mod_255:
  fixes a b :: u8
  shows "unat (ucast ((ucast a + ucast b :: u16) mod 255) :: u8) = (unat a + unat b) mod 255"
proof -
  have lt: "unat a < 256" "unat b < 256" using unat_bound [of a] unat_bound [of b] by simp_all
  then have "unat (ucast a + ucast b :: u16) = unat a + unat b"
    by (simp add: unat_word_ariths unat_ucast_8_16)
  then have "unat ((ucast a + ucast b :: u16) mod 255) = (unat a + unat b) mod 255"
    by (simp add: unat_mod)
  moreover have "(unat a + unat b) mod 255 < 256"
    by (rule less_trans [of _ 255]) simp_all
  ultimately show ?thesis by (simp add: unsigned_ucast_eq take_bit_nat_eq_self)
qed

lemma unat_255_minus:
  fixes a b :: u8
  shows "unat (ucast (255 - (ucast a + ucast b :: u16) mod 255) :: u8) = 255 - (unat a + unat b) mod 255"
proof -
  let ?r = "(ucast a + ucast b :: u16) mod 255"
  have r: "unat ?r = (unat a + unat b) mod 255"
    using unat_bound [of a] unat_bound [of b] by (simp add: unat_mod unat_word_ariths unat_ucast_8_16)
  have le: "(unat a + unat b) mod 255 \<le> 255"
    by (rule less_imp_le) simp
  then have "unat (255 - ?r) = 255 - (unat a + unat b) mod 255"
    by (subst unat_sub) (simp_all add: word_le_nat_alt r)
  then show ?thesis by (simp add: unsigned_ucast_eq take_bit_nat_eq_self)
qed

definition fletcher_inv :: "fletcher16 \<Rightarrow> bool" where
  "fletcher_inv f \<longleftrightarrow> unat (m_sum1 f) < 255 \<and> unat (m_sum2 f) < 255"

lemma unat_Fletcher16_step:
  "unat (m_sum1 (Fletcher16_step f b)) = (unat (m_sum1 f) + unat b) mod 255"
  "unat (m_sum2 (Fletcher16_step f b)) = (unat (m_sum2 f) + unat (m_sum1 f) + unat b) mod 255"
  by (simp_all add: Fletcher16_step_def Let_def unat_mod_255 mod_add_right_eq add.assoc)

lemma fletcher_eqI:
  "unat (m_sum1 f) = unat (m_sum1 g) \<Longrightarrow> unat (m_sum2 f) = unat (m_sum2 g) \<Longrightarrow> f = (g :: fletcher16)"
  by (cases f; cases g) (simp add: word_unat_eq_iff)

lemma fletcher_inv_step: "fletcher_inv (Fletcher16_step f b)"
  by (simp add: fletcher_inv_def unat_Fletcher16_step)

lemma mod_add_cancel:
  fixes a b c n :: nat
  assumes "(a + c) mod n = (b + c) mod n"
  shows "a mod n = b mod n"
proof -
  have "(int a + int c) mod int n = (int b + int c) mod int n"
    using assms by (simp flip: of_nat_add of_nat_mod)
  then have "int a mod int n = int b mod int n" by (simp add: mod_eq_dvd_iff)
  then show ?thesis by (simp flip: of_nat_mod)
qed

lemma mod_cancel_255: "a < 255 \<Longrightarrow> b < 255 \<Longrightarrow> (a + c) mod 255 = (b + c) mod 255 \<Longrightarrow> a = (b :: nat)"
  using mod_add_cancel [of a c 255 b] by simp

lemma Fletcher16_final:
  "fletcher_inv f \<Longrightarrow>
   foldl Fletcher16_step f (snd (Fletcher16_finalize f True)) = Fletcher16_reset"
proof (rule fletcher_eqI)
  assume "fletcher_inv f"
  let ?a = "unat (m_sum1 f)" and ?b = "unat (m_sum2 f)"
  let ?lo = "255 - (?a + ?b) mod 255"
  let ?hi = "255 - (?a + ?lo) mod 255"
  let ?g = "foldl Fletcher16_step f (snd (Fletcher16_finalize f True))"
  have "unat (m_sum1 ?g) = ((?a + ?lo) mod 255 + ?hi) mod 255"
    by (simp add: Fletcher16_finalize_def Let_def unat_Fletcher16_step unat_255_minus)
  moreover have "unat (m_sum2 ?g) = ((?b + ?a + ?lo) mod 255 + (?a + ?lo) mod 255 + ?hi) mod 255"
    by (simp add: Fletcher16_finalize_def Let_def unat_Fletcher16_step unat_255_minus)
  moreover have "(?a + ?lo) mod 255 + ?hi = 255" by simp
  moreover have "(?b + ?a + ?lo) mod 255 = 0"
    by (metis add.commute le_add_diff_inverse less_imp_le_nat mod_add_left_eq mod_less_divisor mod_self zero_less_numeral)
  ultimately show "unat (m_sum1 ?g) = unat (m_sum1 Fletcher16_reset)"
    and "unat (m_sum2 ?g) = unat (m_sum2 Fletcher16_reset)"
    by (simp_all add: Fletcher16_reset_def)
qed

section \<open>The checksum contract\<close>

text \<open>
  What \<^verbatim>\<open>Api16.h\<close> and \<^verbatim>\<open>Api32.h\<close> promise: a checksum is a state machine over bytes; the bytes
  \<open>finalize\<close> appends lead to the only state that \<open>isOkay\<close> accepts.  The predicate \<open>confused\<close>
  names the pairs of bytes the checksum cannot tell apart.
\<close>

locale checksum =
  fixes init :: 's
    and byte_step :: "'s \<Rightarrow> u8 \<Rightarrow> 's"
    and check_bytes :: "'s \<Rightarrow> bytes"
    and okay :: "'s \<Rightarrow> bool"
    and inv :: "'s \<Rightarrow> bool"
    and confused :: "u8 \<Rightarrow> u8 \<Rightarrow> bool"
  assumes inv_init: "inv init"
    and inv_step: "inv s \<Longrightarrow> inv (byte_step s b)"
    and state_injective: "inv s \<Longrightarrow> inv t \<Longrightarrow> byte_step s b = byte_step t b \<Longrightarrow> s = t"
    and byte_injective: "inv s \<Longrightarrow> byte_step s a = byte_step s b \<Longrightarrow> confused a b"
    and okay_unique: "inv s \<Longrightarrow> inv t \<Longrightarrow> okay s \<Longrightarrow> okay t \<Longrightarrow> s = t"
    and check_okay: "inv s \<Longrightarrow> okay (foldl byte_step s (check_bytes s))"
begin

definition digest :: "bytes \<Rightarrow> 's" where
  "digest bs = foldl byte_step init bs"

lemma inv_foldl: "inv s \<Longrightarrow> inv (foldl byte_step s bs)"
  by (induction bs arbitrary: s) (simp_all add: inv_step)

lemma inv_digest: "inv (digest bs)"
  by (simp add: digest_def inv_foldl inv_init)

lemma verify: "okay (digest (msg @ check_bytes (digest msg)))"
  using check_okay [OF inv_digest] by (simp add: digest_def)

lemma foldl_injective:
  "inv s \<Longrightarrow> inv t \<Longrightarrow> foldl byte_step s bs = foldl byte_step t bs \<Longrightarrow> s = t"
proof (induction bs arbitrary: s t)
  case (Cons b bs)
  then show ?case using inv_step state_injective by (metis foldl_Cons)
qed simp

lemma single_byte_detected:
  assumes "okay (digest (xs @ a # ys))" and "\<not> confused a b"
  shows "\<not> okay (digest (xs @ b # ys))"
proof
  assume "okay (digest (xs @ b # ys))"
  then have "digest (xs @ a # ys) = digest (xs @ b # ys)"
    using assms okay_unique inv_digest by blast
  then have "byte_step (digest xs) a = byte_step (digest xs) b"
    using foldl_injective inv_step inv_digest by (simp add: digest_def)
  then show False using byte_injective inv_digest assms(2) by blast
qed

end

interpretation c16: checksum Crc16_reset Crc16_step "\<lambda>c. snd (Crc16_finalize c True)" Crc16_isOkay
  "\<lambda>_. True" "(=)"
proof (unfold_locales, goal_cases)
  case (3 s t b) then show ?case
    using crc_byte_inj_crc [of "0x1021 :: u16" s b t] by (simp only: Crc16_step_ref bit_0) simp
next
  case (4 s a b) then show ?case
    using crc_byte_inj_byte [of "0x1021 :: u16" s a b] by (simp only: Crc16_step_ref bit_0) simp
qed (simp_all add: Crc16_isOkay_def Crc16_final)

interpretation c32: checksum Crc32_reset Crc32_step "\<lambda>c. snd (Crc32_finalize c True)" Crc32_isOkay
  "\<lambda>_. True" "(=)"
proof (unfold_locales, goal_cases)
  case (3 s t b) then show ?case
    using crc_byte_inj_crc [of "0x04C11DB7 :: u32" s b t] by (simp only: Crc32_step_ref bit_0) simp
next
  case (4 s a b) then show ?case
    using crc_byte_inj_byte [of "0x04C11DB7 :: u32" s a b] by (simp only: Crc32_step_ref bit_0) simp
qed (simp_all add: Crc32_isOkay_def Crc32_final)

text \<open>The Fletcher sums are modulo 255: the bytes 0 and 255 are the same to them.\<close>

interpretation fl: checksum Fletcher16_reset Fletcher16_step "\<lambda>f. snd (Fletcher16_finalize f True)"
  Fletcher16_isOkay fletcher_inv "\<lambda>a b. unat a mod 255 = unat b mod 255"
proof (unfold_locales, goal_cases)
  case 1 show ?case by (simp add: fletcher_inv_def Fletcher16_reset_def)
next
  case (2 s b) show ?case by (rule fletcher_inv_step)
next
  case (3 s t b)
  then have "unat (m_sum1 s) = unat (m_sum1 t)"
    using mod_cancel_255 [of "unat (m_sum1 s)" "unat (m_sum1 t)" "unat b"]
    by (metis fletcher_inv_def unat_Fletcher16_step(1))
  moreover from this 3 have "unat (m_sum2 s) = unat (m_sum2 t)"
    using mod_cancel_255 [of "unat (m_sum2 s)" "unat (m_sum2 t)" "unat (m_sum1 t) + unat b"]
    by (metis fletcher_inv_def unat_Fletcher16_step(2) add.assoc)
  ultimately show ?case by (rule fletcher_eqI)
next
  case (4 s a b)
  then have "(unat (m_sum1 s) + unat a) mod 255 = (unat (m_sum1 s) + unat b) mod 255"
    by (metis unat_Fletcher16_step(1))
  then show ?case using mod_add_cancel [of "unat a" "unat (m_sum1 s)" 255 "unat b"] by (simp only: add.commute)
next
  case (5 s t) then show ?case by (simp add: Fletcher16_isOkay_def fletcher_eqI)
next
  case (6 s) then show ?case
    by (simp add: Fletcher16_final) (simp add: Fletcher16_isOkay_def Fletcher16_reset_def)
qed

section \<open>Properties\<close>

text \<open>
  C14. The two table-driven CRC routines compute the remainder of the bit-by-bit division by
  their generator polynomials (x16 + x12 + x5 + 1, and the Ethernet polynomial), from any
  start value, on messages of any length; in particular all 512 table entries are right.
\<close>
theorem crc_tables_are_division:
  "Crc16_accumulate c16 msg = crc_ref 0x1021 c16 msg \<and>
   Crc32_accumulate c32 msg = crc_ref 0x04C11DB7 c32 msg"
proof -
  have "Crc16_step = crc_byte 0x1021" and "Crc32_step = crc_byte 0x04C11DB7"
    by (rule ext, rule ext, rule Crc16_step_ref) (rule ext, rule ext, rule Crc32_step_ref)
  then show ?thesis by (simp only: Crc16_accumulate_foldl Crc32_accumulate_foldl crc_ref_foldl)
qed

text \<open>
  C20. Generating and verifying fit together for the three checksums: a message followed by
  the bytes \<open>finalize\<close> wrote is accepted by \<open>isOkay\<close>, in whatever pieces the message was
  accumulated.
\<close>
theorem checksums_verify:
  "Crc16_isOkay (Crc16_accumulate Crc16_reset
     (concat msgs @ snd (Crc16_finalize (foldl Crc16_accumulate Crc16_reset msgs) True))) \<and>
   Crc32_isOkay (Crc32_accumulate Crc32_reset
     (concat msgs @ snd (Crc32_finalize (foldl Crc32_accumulate Crc32_reset msgs) True))) \<and>
   Fletcher16_isOkay (Fletcher16_accumulate Fletcher16_reset
     (concat msgs @ snd (Fletcher16_finalize (foldl Fletcher16_accumulate Fletcher16_reset msgs) True)))"
proof -
  have "foldl Crc16_accumulate c msgs = foldl Crc16_step c (concat msgs)" for c
    by (induction msgs arbitrary: c) (simp_all add: Crc16_accumulate_foldl)
  moreover have "foldl Crc32_accumulate d msgs = foldl Crc32_step d (concat msgs)" for d
    by (induction msgs arbitrary: d) (simp_all add: Crc32_accumulate_foldl)
  moreover have "foldl Fletcher16_accumulate f msgs = foldl Fletcher16_step f (concat msgs)" for f
    by (induction msgs arbitrary: f) (simp_all add: Fletcher16_accumulate_foldl)
  ultimately show ?thesis
    using c16.verify [of "concat msgs"] c32.verify [of "concat msgs"] fl.verify [of "concat msgs"]
    by (simp only: c16.digest_def c32.digest_def fl.digest_def Crc16_accumulate_foldl
        Crc32_accumulate_foldl Fletcher16_accumulate_foldl simp_thms)
qed

text \<open>
  C21. Every change of a single byte of an accepted message (checksum bytes included) is
  detected by both CRCs; the Fletcher checksum detects it unless the two bytes are 0 and 255,
  the pair that is equal modulo 255.
\<close>
theorem single_byte_corruption_detected:
  assumes "a \<noteq> b"
  shows "\<not> (Crc16_isOkay (Crc16_accumulate Crc16_reset (xs @ a # ys)) \<and>
            Crc16_isOkay (Crc16_accumulate Crc16_reset (xs @ b # ys))) \<and>
         \<not> (Crc32_isOkay (Crc32_accumulate Crc32_reset (xs @ a # ys)) \<and>
            Crc32_isOkay (Crc32_accumulate Crc32_reset (xs @ b # ys))) \<and>
         (Fletcher16_isOkay (Fletcher16_accumulate Fletcher16_reset (xs @ a # ys)) \<and>
          Fletcher16_isOkay (Fletcher16_accumulate Fletcher16_reset (xs @ b # ys)) \<longrightarrow>
          {unat a, unat b} = {0, 255})"
proof -
  have "{unat a, unat b} = {0, 255}" if "unat a mod 255 = unat b mod 255"
  proof -
    have "unat a < 256" "unat b < 256" "unat a \<noteq> unat b"
      using unat_bound [of a] unat_bound [of b] assms by (simp_all add: word_unat_eq_iff)
    moreover have "x mod 255 = (if x = 255 then 0 else x)" if "x < 256" for x :: nat
      using that by auto
    ultimately show ?thesis using that by (auto split: if_splits)
  qed
  then have f: "Fletcher16_isOkay (fl.digest (xs @ a # ys)) \<and> Fletcher16_isOkay (fl.digest (xs @ b # ys)) \<longrightarrow>
      {unat a, unat b} = {0, 255}"
    using fl.single_byte_detected [of xs a ys b]
    by (cases "unat a mod 255 = unat b mod 255") (simp only: simp_thms, iprover)
  have "\<not> (Crc16_isOkay (c16.digest (xs @ a # ys)) \<and> Crc16_isOkay (c16.digest (xs @ b # ys)))"
    using c16.single_byte_detected [OF _ assms, of xs ys] by iprover
  moreover have "\<not> (Crc32_isOkay (c32.digest (xs @ a # ys)) \<and> Crc32_isOkay (c32.digest (xs @ b # ys)))"
    using c32.single_byte_detected [OF _ assms, of xs ys] by iprover
  ultimately show ?thesis
    unfolding c16.digest_def c32.digest_def fl.digest_def Crc16_accumulate_foldl
      Crc32_accumulate_foldl Fletcher16_accumulate_foldl using f [unfolded fl.digest_def] by (intro conjI)
qed

text \<open>The codeword of the message with the byte 1, and the same with the byte 2 in its place.\<close>
theorem single_byte_corruption_detected_witness:
  "Fletcher16_isOkay (Fletcher16_accumulate Fletcher16_reset ([] @ 1 # [253, 1])) \<and>
   \<not> Fletcher16_isOkay (Fletcher16_accumulate Fletcher16_reset ([] @ 2 # [253, 1]))"
proof -
  have ok: "Fletcher16_isOkay (Fletcher16_accumulate Fletcher16_reset ([] @ 1 # [253, 1]))"
    by (simp add: Fletcher16_isOkay_def Fletcher16_reset_def Fletcher16_step_def)
  have "(1 :: u8) \<noteq> 2" by simp
  from single_byte_corruption_detected [OF this, of "[]" "[253, 1]"] ok show ?thesis by auto
qed

end
