(* ===== verification/Chunks.thy ===== *)
theory Chunks
  imports Nv_Storage Checksums
begin

text \<open>
  The chunks of the persistent storage (\<^verbatim>\<open>src/src/Cpl/Persistent\<close>): \<^verbatim>\<open>CrcChunk.cpp\<close> stores the data of a
  record with its length and a CRC, \<^verbatim>\<open>MirroredChunk.cpp\<close> stores two copies with a transaction number each, so
  that the newest intact copy can be found after a power failure.  The region media are parameters
  with the contract \<open>region_media\<close>, which the NV adapter satisfies; the record that provides
  and takes the data (\<^verbatim>\<open>Payload.h\<close>) is a parameter too.  \<^verbatim>\<open>size_t\<close> has 32 bits and is stored with
  its low byte first.
\<close>

section \<open>Parameters: media and records\<close>

record 'r media =
  getRegionLength :: nat
  region_write :: "'r \<Rightarrow> nat \<Rightarrow> bytes \<Rightarrow> (bool \<times> 'r) option"
  region_read :: "'r \<Rightarrow> nat \<Rightarrow> nat \<Rightarrow> (bytes \<times> 'r) option"

record payload =
  getData :: "nat \<Rightarrow> bytes"
  putData :: "bytes \<Rightarrow> bool"

definition WORK_BUFFER_SIZE :: nat where "WORK_BUFFER_SIZE = 1024"

definition CRC_SIZE :: nat where "CRC_SIZE = 4"

definition zero_buffer :: bytes where "zero_buffer = replicate WORK_BUFFER_SIZE 0"

text \<open>
  The record fills the work buffer; a record that hands over more than the buffer holds
  overruns it, which is \<open>None\<close>.
\<close>

definition fill_buffer :: "bytes \<Rightarrow> bytes \<Rightarrow> bytes option" where
  "fill_buffer bs work = do { c_assert (length bs \<le> WORK_BUFFER_SIZE); Some (patch 0 bs work) }"

section \<open>\<^verbatim>\<open>CrcChunk.cpp\<close>\<close>

record 'r crc_chunk =
  m_region :: 'r
  m_dataLen :: u32
  g_workBuffer :: bytes

definition CrcChunk_FRAME_OVERHEAD :: u32 where "CrcChunk_FRAME_OVERHEAD = 8"

definition CrcChunk_start :: "'r media \<Rightarrow> 'r crc_chunk \<Rightarrow> 'r crc_chunk" where
  "CrcChunk_start md c = c\<lparr>m_dataLen := word_of_nat (getRegionLength md) - CrcChunk_FRAME_OVERHEAD\<rparr>"

definition CrcChunk_getMetadataLength :: u32 where
  "CrcChunk_getMetadataLength = CrcChunk_FRAME_OVERHEAD"

definition CrcChunk_pushToRecord :: "payload \<Rightarrow> 'r crc_chunk \<Rightarrow> bool \<times> bytes" where
  "CrcChunk_pushToRecord dst c =
     (let data = take (unat (m_dataLen c)) (g_workBuffer c) in (putData dst data, data))"

definition CrcChunk_pullFromRecord :: "payload \<Rightarrow> 'r crc_chunk \<Rightarrow> (nat \<times> 'r crc_chunk) option" where
  "CrcChunk_pullFromRecord src c = do {
     let bs = getData src (unat (m_dataLen c));
     work \<leftarrow> fill_buffer bs (g_workBuffer c);
     Some (length bs, c\<lparr>g_workBuffer := work\<rparr>)
   }"

text \<open>
  The loop that reads the data and the CRC.  As in the code, every piece is stored at the start
  of the buffer, and the CRC runs over the piece.
\<close>

partial_function (option) read_pieces ::
    "'r media \<Rightarrow> 'r \<Rightarrow> bytes \<Rightarrow> u32 \<Rightarrow> nat \<Rightarrow> nat \<Rightarrow> (u32 \<times> bytes \<times> 'r) option" where
  "read_pieces md r work crc offset dataRemaining =
     (if dataRemaining = 0 then Some (crc, work, r)
      else do {
        (bs, r1) \<leftarrow> region_read md r offset dataRemaining;
        if bs = [] then Some (crc, work, r1)
        else let work1 = patch 0 bs work
             in read_pieces md r1 work1 (Crc32_accumulate crc (take (length bs) work1))
                  (offset + length bs) (dataRemaining - length bs)
      })"

definition CrcChunk_loadData ::
    "'r media \<Rightarrow> payload \<Rightarrow> nat \<Rightarrow> 'r crc_chunk \<Rightarrow> (bool \<times> bytes option \<times> 'r crc_chunk) option" where
  "CrcChunk_loadData md dst index c = do {
     (lb, r1) \<leftarrow> region_read md (m_region c) index 4;
     if length lb = 4 then do {
       let datalen = (le_word lb :: u32);
       let dataRemaining = datalen + word_of_nat CRC_SIZE;
       if unat dataRemaining \<le> WORK_BUFFER_SIZE \<and> datalen < dataRemaining then do {
         (crc, work, r2) \<leftarrow> read_pieces md r1 (g_workBuffer c)
            (Crc32_accumulate Crc32_reset (le_bytes 4 datalen)) (index + 4) (unat dataRemaining);
         if Crc32_isOkay crc then do {
           let c1 = c\<lparr>m_region := r2, g_workBuffer := work, m_dataLen := datalen\<rparr>;
           let (result, data) = CrcChunk_pushToRecord dst c1;
           Some (result, Some data, c1)
         } else Some (False, None, c\<lparr>m_region := r2, g_workBuffer := work\<rparr>)
       } else Some (False, None, c\<lparr>m_region := r1\<rparr>)
     } else Some (False, None, c\<lparr>m_region := r1\<rparr>)
   }"

text \<open>The bytes of the CRC, corrupted when the record is erased.\<close>

definition crc_field :: "u32 \<Rightarrow> bool \<Rightarrow> bytes" where
  "crc_field crc invalidate =
     (let crcBuffer = snd (Crc32_finalize crc True)
      in if invalidate then crcBuffer[0 := crcBuffer ! 0 XOR 0xA5] else crcBuffer)"

definition CrcChunk_updateData ::
    "'r media \<Rightarrow> payload \<Rightarrow> nat \<Rightarrow> bool \<Rightarrow> 'r crc_chunk \<Rightarrow> (bool \<times> 'r crc_chunk) option" where
  "CrcChunk_updateData md src index invalidate c = do {
     let c0 = c\<lparr>g_workBuffer := zero_buffer\<rparr>;
     (len, c1) \<leftarrow> CrcChunk_pullFromRecord src c0;
     if len = 0 then Some (False, c1)
     else do {
       let c2 = (if invalidate then c1\<lparr>g_workBuffer := zero_buffer\<rparr> else c1)\<lparr>m_dataLen := word_of_nat len\<rparr>;
       let lenBytes = le_bytes 4 (m_dataLen c2);
       let data = take (unat (m_dataLen c2)) (g_workBuffer c2);
       (w1, r1) \<leftarrow> region_write md (m_region c2) index lenBytes;
       (w2, r2) \<leftarrow> region_write md r1 (index + 4) data;
       let crc = Crc32_accumulate (Crc32_accumulate Crc32_reset lenBytes) data;
       (w3, r3) \<leftarrow> region_write md r2 (index + 4 + unat (m_dataLen c2)) (crc_field crc invalidate);
       Some (w1 \<and> w2 \<and> w3, c2\<lparr>m_region := r3\<rparr>)
     }
   }"

section \<open>\<^verbatim>\<open>MirroredChunk.cpp\<close>\<close>

datatype copy = Copy_A | Copy_B

record 'r mirrored_chunk =
  m_regionA :: 'r
  m_regionB :: 'r
  m_transId :: u64
  m_mirrorLen :: u32
  m_currentRegion :: "copy option"
  g_mirrorBuffer :: bytes

definition MirroredChunk_FRAME_OVERHEAD :: u32 where "MirroredChunk_FRAME_OVERHEAD = 16"

definition MirroredChunk_start :: "'r mirrored_chunk \<Rightarrow> 'r mirrored_chunk" where
  "MirroredChunk_start c = c\<lparr>m_transId := 0, m_currentRegion := None, m_mirrorLen := 0\<rparr>"

definition MirroredChunk_getMetadataLength :: u32 where
  "MirroredChunk_getMetadataLength = MirroredChunk_FRAME_OVERHEAD"

text \<open>
  \<open>getTransactionId\<close> returns the transaction number (zero where the copy is not intact), the data
  length it read (unset where it could not be read), the work buffer and the region.
\<close>

definition MirroredChunk_getTransactionId ::
    "'r media \<Rightarrow> 'r \<Rightarrow> bytes \<Rightarrow> nat \<Rightarrow> (u64 \<times> u32 \<times> bytes \<times> 'r) option" where
  "MirroredChunk_getTransactionId md r work index = do {
     (tb, r1) \<leftarrow> region_read md r index 8;
     if length tb = 8 then do {
       (lb, r2) \<leftarrow> region_read md r1 (index + 8) 4;
       if length lb = 4 then do {
         let transId = (le_word tb :: u64);
         let dataLen = (le_word lb :: u32);
         let dataRemaining = dataLen + word_of_nat CRC_SIZE;
         if unat dataRemaining \<le> WORK_BUFFER_SIZE \<and> dataLen < dataRemaining then do {
           (crc, work1, r3) \<leftarrow> read_pieces md r2 work
              (Crc32_accumulate (Crc32_accumulate Crc32_reset (le_bytes 8 transId)) (le_bytes 4 dataLen))
              (index + 12) (unat dataRemaining);
           Some (if Crc32_isOkay crc then transId else 0, dataLen, work1, r3)
         } else Some (0, dataLen, work, r2)
       } else Some (0, 0, work, r2)
     } else Some (0, 0, work, r1)
   }"

definition MirroredChunk_pushToRecord :: "payload \<Rightarrow> 'r mirrored_chunk \<Rightarrow> bool \<times> bytes" where
  "MirroredChunk_pushToRecord dst c =
     (let data = take (unat (m_mirrorLen c)) (g_mirrorBuffer c) in (putData dst data, data))"

definition MirroredChunk_loadData ::
    "'r media \<Rightarrow> payload \<Rightarrow> nat \<Rightarrow> 'r mirrored_chunk \<Rightarrow> (bool \<times> bytes option \<times> 'r mirrored_chunk) option" where
  "MirroredChunk_loadData md dst index c = do {
     (transA, dataLenA, work1, rA) \<leftarrow> MirroredChunk_getTransactionId md (m_regionA c) (g_mirrorBuffer c) index;
     (transB, dataLenB, work2, rB) \<leftarrow> MirroredChunk_getTransactionId md (m_regionB c) work1 index;
     let c0 = c\<lparr>m_regionA := rA, m_regionB := rB, g_mirrorBuffer := work2\<rparr>;
     (result, data, c1) \<leftarrow>
       (if transA = 0 \<and> transB = 0 then
          Some (False, None, c0\<lparr>m_currentRegion := Some Copy_A, m_transId := 0,
                 m_mirrorLen := word_of_nat (getRegionLength md) - MirroredChunk_FRAME_OVERHEAD\<rparr>)
        else if transA > transB then
          let c1 = c0\<lparr>m_currentRegion := Some Copy_A, m_transId := transA, m_mirrorLen := dataLenA\<rparr>;
              (result, data) = MirroredChunk_pushToRecord dst c1
          in Some (result, Some data, c1)
        else
          let c1 = c0\<lparr>m_currentRegion := Some Copy_B, m_transId := transB, m_mirrorLen := dataLenB\<rparr>;
              (result, data) = MirroredChunk_pushToRecord dst c1
          in Some (result, Some data, c1));
     c_assert (unat (m_mirrorLen c1) \<le> getRegionLength md);
     Some (result, data, c1)
   }"

definition current_region :: "'r mirrored_chunk \<Rightarrow> copy \<Rightarrow> 'r" where
  "current_region c k = (case k of Copy_A \<Rightarrow> m_regionA c | Copy_B \<Rightarrow> m_regionB c)"

definition set_region :: "'r mirrored_chunk \<Rightarrow> copy \<Rightarrow> 'r \<Rightarrow> 'r mirrored_chunk" where
  "set_region c k r = (case k of Copy_A \<Rightarrow> c\<lparr>m_regionA := r\<rparr> | Copy_B \<Rightarrow> c\<lparr>m_regionB := r\<rparr>)"

definition other_copy :: "copy \<Rightarrow> copy" where
  "other_copy k = (if k = Copy_A then Copy_B else Copy_A)"

text \<open>One pass of the loop of \<open>updateData\<close>: the other region becomes current and is written.\<close>

definition MirroredChunk_write_copy ::
    "'r media \<Rightarrow> nat \<Rightarrow> bool \<Rightarrow> 'r mirrored_chunk \<Rightarrow> (bool \<times> 'r mirrored_chunk) option" where
  "MirroredChunk_write_copy md index invalidate c = do {
     cur \<leftarrow> m_currentRegion c;
     let k = other_copy cur;
     let c1 = c\<lparr>m_currentRegion := Some k, m_transId := m_transId c + 1\<rparr>;
     let tBytes = le_bytes 8 (m_transId c1);
     let lenBytes = le_bytes 4 (m_mirrorLen c1);
     let data = take (unat (m_mirrorLen c1)) (g_mirrorBuffer c1);
     (w1, r1) \<leftarrow> region_write md (current_region c1 k) index tBytes;
     (w2, r2) \<leftarrow> region_write md r1 (index + 8) lenBytes;
     (w3, r3) \<leftarrow> region_write md r2 (index + 12) data;
     let crc = Crc32_accumulate (Crc32_accumulate (Crc32_accumulate Crc32_reset tBytes) lenBytes) data;
     (w4, r4) \<leftarrow> region_write md r3 (index + 12 + unat (m_mirrorLen c1)) (crc_field crc invalidate);
     Some (w1 \<and> w2 \<and> w3 \<and> w4, set_region c1 k r4)
   }"

definition MirroredChunk_updateData ::
    "'r media \<Rightarrow> payload \<Rightarrow> nat \<Rightarrow> bool \<Rightarrow> 'r mirrored_chunk \<Rightarrow> (bool \<times> 'r mirrored_chunk) option" where
  "MirroredChunk_updateData md src index invalidate c = do {
     c_assert (m_currentRegion c \<noteq> None);
     let bs = getData src (unat (m_mirrorLen c));
     work \<leftarrow> fill_buffer bs zero_buffer;
     if bs = [] then Some (False, c\<lparr>g_mirrorBuffer := work\<rparr>)
     else do {
       let c1 = c\<lparr>g_mirrorBuffer := (if invalidate then zero_buffer else work), m_mirrorLen := word_of_nat (length bs)\<rparr>;
       (result1, c2) \<leftarrow> MirroredChunk_write_copy md index invalidate c1;
       (result2, c3) \<leftarrow> MirroredChunk_write_copy md index invalidate c2;
       Some (result2, c3)
     }
   }"

section \<open>Images on the media\<close>

lemma Crc32_accumulate_append [simp]: "Crc32_accumulate c (xs @ ys) = Crc32_accumulate (Crc32_accumulate c xs) ys"
  by (simp add: Crc32_accumulate_foldl)

lemma length_crc_field [simp]: "length (crc_field crc era) = 4"
  by (simp add: crc_field_def Crc32_finalize_def Let_def)

text \<open>A header, the data and the CRC field over both, as the two chunks write them.\<close>

definition chunk_image :: "bytes \<Rightarrow> bytes \<Rightarrow> bool \<Rightarrow> bytes" where
  "chunk_image hdr data era = hdr @ data @ crc_field (Crc32_accumulate Crc32_reset (hdr @ data)) era"

lemma length_chunk_image [simp]: "length (chunk_image hdr data era) = length hdr + length data + 4"
  by (simp add: chunk_image_def)

lemma intact_image: "Crc32_isOkay (Crc32_accumulate Crc32_reset (chunk_image hdr data False))"
  using c32.verify [of "hdr @ data"]
  by (simp add: chunk_image_def crc_field_def c32.digest_def Crc32_accumulate_foldl)

lemma erased_image: "\<not> Crc32_isOkay (Crc32_accumulate Crc32_reset (chunk_image hdr data True))"
proof -
  let ?c = "foldl Crc32_step Crc32_reset (hdr @ data)"
  obtain a ys where f: "snd (Crc32_finalize ?c True) = a # ys" by (simp add: Crc32_finalize_def)
  have ne: "a \<noteq> a XOR 0xA5"
  proof
    assume "a = a XOR 0xA5"
    then have "a XOR 0 = a XOR 0xA5" by simp
    then show False by (simp only: word_xor_cancel) simp
  qed
  have ok: "Crc32_isOkay (c32.digest ((hdr @ data) @ a # ys))"
    using c32.verify [of "hdr @ data"] by (simp only: f c32.digest_def)
  have "crc_field ?c True = (a XOR 0xA5) # ys" by (simp only: crc_field_def f Let_def if_True) simp
  then have "chunk_image hdr data True = (hdr @ data) @ (a XOR 0xA5) # ys"
    by (simp only: chunk_image_def Crc32_accumulate_foldl append_assoc)
  with c32.single_byte_detected [OF ok ne] show ?thesis
    by (simp only: Crc32_accumulate_foldl c32.digest_def not_False_eq_True)
qed

text \<open>A change of one byte of an intact image is detected.\<close>

lemma damaged_image:
  assumes "chunk_image hdr data False = xs @ a # ys" and "a \<noteq> b"
  shows "\<not> Crc32_isOkay (Crc32_accumulate Crc32_reset (xs @ b # ys))"
proof -
  have "Crc32_isOkay (c32.digest (xs @ a # ys))"
    using intact_image [of hdr data] by (simp only: assms(1) c32.digest_def Crc32_accumulate_foldl)
  from c32.single_byte_detected [OF this assms(2)] show ?thesis
    by (simp only: c32.digest_def Crc32_accumulate_foldl not_False_eq_True)
qed

text \<open>The header of a copy of the mirrored chunk has the transaction number in front of the length.\<close>

definition mirror_header :: "u64 \<Rightarrow> nat \<Rightarrow> bytes" where
  "mirror_header tr n = le_bytes 8 tr @ le_bytes 4 (word_of_nat n :: u32)"

lemma length_mirror_header [simp]: "length (mirror_header tr n) = 12"
  by (simp add: mirror_header_def)

context region_media
begin

definition media_of :: "'r media \<Rightarrow> bool" where
  "media_of md \<longleftrightarrow> getRegionLength md = region_length \<and> region_write md = rwrite \<and> region_read md = rread"

lemma read_pieces_whole:
  assumes md: "media_of md" and r: "rready r" and n: "0 < n" "off + n \<le> region_length" "n \<le> length work"
  shows "\<exists>r'. read_pieces md r work crc off n =
      Some (Crc32_accumulate crc (read_at off n (rbytes r)), patch 0 (read_at off n (rbytes r)) work, r') \<and>
      rready r' \<and> rbytes r' = rbytes r"
proof -
  let ?bs = "read_at off n (rbytes r)"
  obtain r' where r': "rread r off n = Some (?bs, r')" "rready r'" "rbytes r' = rbytes r"
    using rread_ok [OF r n(1,2)] by blast
  have len: "length ?bs = n" using region_bytes [OF r] n(2) by simp
  then have ne: "?bs \<noteq> []" and "take n (patch 0 ?bs work) = ?bs" using n by (auto simp: patch_def)
  then show ?thesis
    using md r' len n
    by (subst read_pieces.simps) (simp add: media_of_def read_pieces.simps [of _ _ _ _ _ 0])
qed

text \<open>Adjacent non-empty writes act as one.\<close>

lemma rwrite_more:
  assumes "rready r" and "bs \<noteq> []" and "off + length (xs @ bs) \<le> region_length"
    and "rbytes r = patch off xs mem" and "length mem = region_length"
  shows "\<exists>r'. rwrite r (off + length xs) bs = Some (True, r') \<and> rready r' \<and> rbytes r' = patch off (xs @ bs) mem"
  using rwrite_ok [OF assms(1,2), of "off + length xs"] assms patch_patch [of off xs bs mem] by auto

lemma write_crc_image:
  assumes md: "media_of md" and r: "rready (m_region c)"
    and data: "getData src (unat (m_dataLen c)) = bs" "bs \<noteq> []" "length bs + 4 \<le> WORK_BUFFER_SIZE"
    and fit: "index + 8 + length bs \<le> region_length"
  shows "\<exists>c'. CrcChunk_updateData md src index era c = Some (True, c') \<and> rready (m_region c') \<and>
      rbytes (m_region c') =
        patch index (chunk_image (le_bytes 4 (word_of_nat (length bs) :: u32)) (if era then replicate (length bs) 0 else bs) era)
          (rbytes (m_region c))"
proof -
  let ?h = "le_bytes 4 (word_of_nat (length bs) :: u32)"
  define d where "d = (if era then replicate (length bs) 0 else bs)"
  let ?crc = "Crc32_accumulate (Crc32_accumulate Crc32_reset ?h) d"
  let ?mem = "rbytes (m_region c)"
  have d: "d \<noteq> []" "length d = length bs" using data(2) by (simp_all add: d_def)
  have len: "unat (word_of_nat (length bs) :: u32) = length bs"
    using data(3) by (intro unat_of_nat_small) (simp add: WORK_BUFFER_SIZE_def)
  have mem: "length ?mem = region_length" using region_bytes [OF r] .
  have h: "?h \<noteq> []" and cf: "crc_field ?crc era \<noteq> []"
    using length_le_bytes [of 4 "word_of_nat (length bs) :: u32"] length_crc_field [of ?crc era]
    by (metis list.size(3) zero_neq_numeral)+
  obtain r1 where r1: "rwrite (m_region c) index ?h = Some (True, r1)" "rready r1" "rbytes r1 = patch index ?h ?mem"
    using rwrite_ok [OF r h, of index] fit by auto
  obtain r2 where r2: "rwrite r1 (index + 4) d = Some (True, r2)" "rready r2" "rbytes r2 = patch index (?h @ d) ?mem"
    using rwrite_more [OF r1(2) d(1) _ r1(3) mem] d fit by auto
  obtain r3 where r3: "rwrite r2 (index + 4 + length bs) (crc_field ?crc era) = Some (True, r3)" "rready r3"
    "rbytes r3 = patch index ((?h @ d) @ crc_field ?crc era) ?mem"
    using rwrite_more [OF r2(2) cf _ r2(3) mem] d fit by (auto simp: add.assoc)
  have buf: "take (length bs) (if era then zero_buffer else patch 0 bs zero_buffer) = d"
    using data(3) by (simp add: zero_buffer_def patch_def WORK_BUFFER_SIZE_def d_def)
  have "CrcChunk_updateData md src index era c =
      Some (True, c\<lparr>g_workBuffer := (if era then zero_buffer else patch 0 bs zero_buffer),
                     m_dataLen := word_of_nat (length bs), m_region := r3\<rparr>)"
    using md data r1(1) r2(1) r3(1) len buf
    by (cases era) (simp_all add: CrcChunk_updateData_def CrcChunk_pullFromRecord_def fill_buffer_def media_of_def Let_def)
  then show ?thesis using r3(2,3) by (simp add: chunk_image_def d_def)
qed

lemma load_crc_image:
  assumes md: "media_of md" and r: "rready (m_region c)" and w: "length (g_workBuffer c) = WORK_BUFFER_SIZE"
    and len: "length bs + 4 \<le> WORK_BUFFER_SIZE" and fit: "index + 8 + length bs \<le> region_length"
    and img: "read_at index (8 + length bs) (rbytes (m_region c)) = le_bytes 4 (word_of_nat (length bs) :: u32) @ bs @ crcf"
  shows "\<exists>c'. CrcChunk_loadData md dst index c =
      (if Crc32_isOkay (Crc32_accumulate Crc32_reset (le_bytes 4 (word_of_nat (length bs) :: u32) @ bs @ crcf))
       then Some (putData dst bs, Some bs, c') else Some (False, None, c')) \<and>
      rready (m_region c') \<and> rbytes (m_region c') = rbytes (m_region c)"
proof -
  let ?n = "word_of_nat (length bs) :: u32"
  let ?h = "le_bytes 4 ?n"
  let ?mem = "rbytes (m_region c)"
  have n: "unat ?n = length bs" using len by (intro unat_of_nat_small) (simp add: WORK_BUFFER_SIZE_def)
  have rem: "unat (?n + word_of_nat CRC_SIZE) = length bs + 4"
    using len by (simp add: CRC_SIZE_def WORK_BUFFER_SIZE_def unat_word_ariths n)
  then have lt: "?n < ?n + word_of_nat CRC_SIZE" by (simp add: word_less_nat_alt n)
  have crcf: "length crcf = 4"
    using arg_cong [OF img, of length] fit region_bytes [OF r] by simp
  have "read_at index 4 ?mem = take 4 (read_at index (8 + length bs) ?mem)" by (simp add: read_at_def)
  then have hd: "read_at index 4 ?mem = ?h" by (simp only: img) simp
  have "read_at (index + 4) (length bs + 4) ?mem = drop 4 (read_at index (8 + length bs) ?mem)"
    by (simp add: read_at_def drop_take add.commute)
  then have rest: "read_at (index + 4) (length bs + 4) ?mem = bs @ crcf" by (simp only: img) simp
  obtain r1 where r1: "rread (m_region c) index 4 = Some (?h, r1)" "rready r1" "rbytes r1 = ?mem"
    using rread_ok [OF r, of 4 index] fit hd by auto
  obtain r2 where r2: "read_pieces md r1 (g_workBuffer c) (Crc32_accumulate Crc32_reset ?h) (index + 4) (length bs + 4) =
      Some (Crc32_accumulate (Crc32_accumulate Crc32_reset ?h) (bs @ crcf), patch 0 (bs @ crcf) (g_workBuffer c), r2)"
    "rready r2" "rbytes r2 = ?mem"
    using read_pieces_whole [OF md r1(2), of "length bs + 4" "index + 4" "g_workBuffer c"] fit w len rest r1(3)
    by (auto simp: add.assoc)
  have "take (length bs) (patch 0 (bs @ crcf) (g_workBuffer c)) = bs" by (simp add: patch_def)
  then show ?thesis
    using md r1 r2 rem lt len crcf n
    by (simp add: CrcChunk_loadData_def media_of_def le_word32 CrcChunk_pushToRecord_def Let_def)
qed

text \<open>The same for a copy of the mirrored chunk.\<close>

lemma write_copy_image:
  assumes md: "media_of md" and cur: "m_currentRegion c = Some k" and rk: "rready (current_region c (other_copy k))"
    and data: "take (length bs) (g_mirrorBuffer c) = bs" "bs \<noteq> []" "m_mirrorLen c = word_of_nat (length bs)"
      "length bs + 4 \<le> WORK_BUFFER_SIZE"
    and fit: "index + 16 + length bs \<le> region_length"
  shows "\<exists>r'. MirroredChunk_write_copy md index era c =
      Some (True, set_region (c\<lparr>m_currentRegion := Some (other_copy k), m_transId := m_transId c + 1\<rparr>) (other_copy k) r') \<and>
      rready r' \<and> rbytes r' = patch index (chunk_image (mirror_header (m_transId c + 1) (length bs)) bs era)
        (rbytes (current_region c (other_copy k)))"
proof -
  let ?t = "le_bytes 8 (m_transId c + 1)" and ?h = "le_bytes 4 (word_of_nat (length bs) :: u32)"
  let ?r = "current_region c (other_copy k)"
  let ?mem = "rbytes ?r"
  let ?crc = "Crc32_accumulate (Crc32_accumulate (Crc32_accumulate Crc32_reset ?t) ?h) bs"
  have len: "unat (word_of_nat (length bs) :: u32) = length bs"
    using data(4) by (intro unat_of_nat_small) (simp add: WORK_BUFFER_SIZE_def)
  have mem: "length ?mem = region_length" using region_bytes [OF rk] .
  have ne: "?t \<noteq> []" "?h \<noteq> []" "crc_field ?crc era \<noteq> []"
    using length_le_bytes [of 8 "m_transId c + 1"] length_le_bytes [of 4 "word_of_nat (length bs) :: u32"]
      length_crc_field [of ?crc era] by (metis list.size(3) zero_neq_numeral)+
  obtain r1 where r1: "rwrite ?r index ?t = Some (True, r1)" "rready r1" "rbytes r1 = patch index ?t ?mem"
    using rwrite_ok [OF rk ne(1), of index] fit by auto
  obtain r2 where r2: "rwrite r1 (index + 8) ?h = Some (True, r2)" "rready r2" "rbytes r2 = patch index (?t @ ?h) ?mem"
    using rwrite_more [OF r1(2) ne(2) _ r1(3) mem] fit by auto
  obtain r3 where r3: "rwrite r2 (index + 12) bs = Some (True, r3)" "rready r3"
    "rbytes r3 = patch index ((?t @ ?h) @ bs) ?mem"
    using rwrite_more [OF r2(2) data(2) _ r2(3) mem] fit by auto
  obtain r4 where r4: "rwrite r3 (index + 12 + length bs) (crc_field ?crc era) = Some (True, r4)" "rready r4"
    "rbytes r4 = patch index (((?t @ ?h) @ bs) @ crc_field ?crc era) ?mem"
    using rwrite_more [OF r3(2) ne(3) _ r3(3) mem] fit by (auto simp: add.assoc)
  have cr: "current_region (c\<lparr>m_currentRegion := x, m_transId := y\<rparr>) z = current_region c z" for x y z
    by (simp add: current_region_def split: copy.split)
  have "MirroredChunk_write_copy md index era c =
      Some (True, set_region (c\<lparr>m_currentRegion := Some (other_copy k), m_transId := m_transId c + 1\<rparr>) (other_copy k) r4)"
    using md cur data len r1(1) r2(1) r3(1) r4(1)
    by (simp add: MirroredChunk_write_copy_def media_of_def cr Let_def)
  then show ?thesis using r4(2,3) by (intro exI [of _ r4]) (simp add: chunk_image_def mirror_header_def)
qed

lemma transaction_of_image:
  assumes md: "media_of md" and r: "rready r" and w: "length work = WORK_BUFFER_SIZE"
    and len: "length bs + 4 \<le> WORK_BUFFER_SIZE" and fit: "index + 16 + length bs \<le> region_length"
    and img: "read_at index (16 + length bs) (rbytes r) = mirror_header tr (length bs) @ bs @ crcf"
  shows "\<exists>r'. MirroredChunk_getTransactionId md r work index =
      Some (if Crc32_isOkay (Crc32_accumulate Crc32_reset (mirror_header tr (length bs) @ bs @ crcf)) then tr else 0,
            word_of_nat (length bs), patch 0 (bs @ crcf) work, r') \<and>
      rready r' \<and> rbytes r' = rbytes r"
proof -
  let ?n = "word_of_nat (length bs) :: u32"
  let ?t = "le_bytes 8 tr" and ?h = "le_bytes 4 ?n"
  have n: "unat ?n = length bs" using len by (intro unat_of_nat_small) (simp add: WORK_BUFFER_SIZE_def)
  have rem: "unat (?n + word_of_nat CRC_SIZE) = length bs + 4"
    using len by (simp add: CRC_SIZE_def WORK_BUFFER_SIZE_def unat_word_ariths n)
  then have lt: "?n < ?n + word_of_nat CRC_SIZE" by (simp add: word_less_nat_alt n)
  have crcf: "length crcf = 4"
    using arg_cong [OF img, of length] fit region_bytes [OF r] by simp
  have "read_at index 8 (rbytes r) = take 8 (read_at index (16 + length bs) (rbytes r))" by (simp add: read_at_def)
  then have tb: "read_at index 8 (rbytes r) = ?t" by (simp only: img) (simp add: mirror_header_def)
  have "read_at (index + 8) 4 (rbytes r) = take 4 (drop 8 (read_at index (16 + length bs) (rbytes r)))"
    by (simp add: read_at_def drop_take add.commute)
  then have lb: "read_at (index + 8) 4 (rbytes r) = ?h" by (simp only: img) (simp add: mirror_header_def)
  have "read_at (index + 12) (length bs + 4) (rbytes r) = drop 12 (read_at index (16 + length bs) (rbytes r))"
    by (simp add: read_at_def drop_take add.commute)
  then have rest: "read_at (index + 12) (length bs + 4) (rbytes r) = bs @ crcf" by (simp only: img) (simp add: mirror_header_def)
  obtain r1 where r1: "rread r index 8 = Some (?t, r1)" "rready r1" "rbytes r1 = rbytes r"
    using rread_ok [OF r, of 8 index] fit tb by auto
  obtain r2 where r2: "rread r1 (index + 8) 4 = Some (?h, r2)" "rready r2" "rbytes r2 = rbytes r"
    using rread_ok [OF r1(2), of 4 "index + 8"] fit lb r1(3) by auto
  obtain r3 where r3: "read_pieces md r2 work (Crc32_accumulate (Crc32_accumulate Crc32_reset ?t) ?h) (index + 12) (length bs + 4) =
      Some (Crc32_accumulate (Crc32_accumulate (Crc32_accumulate Crc32_reset ?t) ?h) (bs @ crcf), patch 0 (bs @ crcf) work, r3)"
    "rready r3" "rbytes r3 = rbytes r"
    using read_pieces_whole [OF md r2(2), of "length bs + 4" "index + 12" work] fit w len rest r2(3)
    by (auto simp: add.assoc)
  show ?thesis
    using md r1 r2 r3 rem lt len
    by (simp add: MirroredChunk_getTransactionId_def media_of_def le_word32 le_word64 mirror_header_def Let_def)
qed

text \<open>Reading back a patch.\<close>

lemma read_at_image:
  assumes "rbytes r = patch index img mem" and "length mem = region_length" and "index + length img \<le> region_length"
  shows "read_at index (length img) (rbytes r) = img"
  using assms by simp

lemma crc_chunk_save_load:
  assumes md: "media_of md" and r: "rready (m_region c)"
    and data: "getData src (unat (m_dataLen c)) = bs" "bs \<noteq> []" "length bs + 4 \<le> WORK_BUFFER_SIZE"
    and fit: "index + 8 + length bs \<le> region_length"
    and w: "length work = WORK_BUFFER_SIZE"
  shows "\<exists>c1 c2. CrcChunk_updateData md src index era c = Some (True, c1) \<and>
      CrcChunk_loadData md dst index \<lparr>m_region = m_region c1, m_dataLen = n, g_workBuffer = work\<rparr> =
        Some (if era then False else putData dst bs, if era then None else Some bs, c2)"
proof -
  let ?d = "if era then replicate (length bs) 0 else bs"
  let ?img = "chunk_image (le_bytes 4 (word_of_nat (length bs) :: u32)) ?d era"
  obtain c1 where c1: "CrcChunk_updateData md src index era c = Some (True, c1)" "rready (m_region c1)"
    "rbytes (m_region c1) = patch index ?img (rbytes (m_region c))"
    using write_crc_image [OF md r data fit] by blast
  let ?c = "\<lparr>m_region = m_region c1, m_dataLen = n, g_workBuffer = work\<rparr>"
  have len: "length ?d = length bs" by simp
  have img: "read_at index (8 + length ?d) (rbytes (m_region ?c)) =
      le_bytes 4 (word_of_nat (length ?d) :: u32) @ ?d @
      crc_field (Crc32_accumulate Crc32_reset (le_bytes 4 (word_of_nat (length bs) :: u32) @ ?d)) era"
    using read_at_image [OF c1(3) region_bytes [OF r]] fit by (simp add: chunk_image_def len add.commute)
  have ok: "Crc32_isOkay (Crc32_accumulate Crc32_reset ?img) \<longleftrightarrow> \<not> era"
    using intact_image erased_image by (cases era) simp_all
  have "\<exists>c2. CrcChunk_loadData md dst index ?c =
      (if Crc32_isOkay (Crc32_accumulate Crc32_reset ?img) then Some (putData dst ?d, Some ?d, c2) else Some (False, None, c2))"
    using load_crc_image [OF md _ _ _ _ img, of dst] c1(2) w data(3) fit len
    by (auto simp: chunk_image_def)
  then show ?thesis using c1(1) ok by (cases era) auto
qed

text \<open>One damaged byte behind the length field.\<close>

lemma crc_chunk_damage:
  assumes md: "media_of md" and r: "rready (m_region c)" and w: "length (g_workBuffer c) = WORK_BUFFER_SIZE"
    and len: "length bs + 4 \<le> WORK_BUFFER_SIZE" and fit: "index + 8 + length bs \<le> region_length"
    and img: "read_at index (8 + length bs) (rbytes (m_region c)) = img0[i := b]"
    and im0: "img0 = chunk_image (le_bytes 4 (word_of_nat (length bs) :: u32)) bs False"
    and i: "4 \<le> i" "i < length img0" "img0 ! i \<noteq> b"
  shows "\<exists>c'. CrcChunk_loadData md dst index c = Some (False, None, c')"
proof -
  let ?h = "le_bytes 4 (word_of_nat (length bs) :: u32)"
  define tl' where "tl' = drop 4 (img0[i := b])"
  have hd: "take 4 (img0[i := b]) = ?h" using i(1) by (simp add: im0 chunk_image_def)
  then have split: "img0[i := b] = ?h @ tl'" by (metis append_take_drop_id tl'_def)
  have len': "length tl' = length bs + 4" by (simp add: tl'_def im0)
  define bs' where "bs' = take (length bs) tl'"
  define crcf where "crcf = drop (length bs) tl'"
  have lb: "length bs' = length bs" by (simp add: bs'_def len')
  have im: "read_at index (8 + length bs') (rbytes (m_region c)) = le_bytes 4 (word_of_nat (length bs') :: u32) @ bs' @ crcf"
    using img split lb by (simp add: bs'_def crcf_def)
  have "\<not> Crc32_isOkay (Crc32_accumulate Crc32_reset (take i img0 @ b # drop (Suc i) img0))"
    using i(2,3) id_take_nth_drop [OF i(2)] by (intro damaged_image [of _ bs _ "img0 ! i"]) (auto simp: im0)
  moreover have "take i img0 @ b # drop (Suc i) img0 = ?h @ bs' @ crcf"
    using i(2) split by (simp add: upd_conv_take_nth_drop bs'_def crcf_def)
  ultimately have "\<not> Crc32_isOkay (Crc32_accumulate Crc32_reset (?h @ bs' @ crcf))" by simp
  with load_crc_image [OF md r w _ _ im, of dst] lb len fit show ?thesis by auto
qed

lemma set_region_simps:
  "m_regionA (set_region c k r) = (if k = Copy_A then r else m_regionA c)"
  "m_regionB (set_region c k r) = (if k = Copy_B then r else m_regionB c)"
  "m_currentRegion (set_region c k r) = m_currentRegion c" "m_transId (set_region c k r) = m_transId c"
  "m_mirrorLen (set_region c k r) = m_mirrorLen c" "g_mirrorBuffer (set_region c k r) = g_mirrorBuffer c"
  by (cases k; simp add: set_region_def)+

text \<open>After an update both regions hold an image of the same data, one transaction apart.\<close>

lemma mirror_update:
  fixes era :: bool
  assumes md: "media_of md" and A: "rready (m_regionA c)" and B: "rready (m_regionB c)"
    and cur: "m_currentRegion c = Some k"
    and data: "getData src (unat (m_mirrorLen c)) = bs" "bs \<noteq> []" "length bs + 4 \<le> WORK_BUFFER_SIZE"
    and fit: "index + 16 + length bs \<le> region_length"
  defines "d \<equiv> if era then replicate (length bs) 0 else bs"
  shows "\<exists>c1 memA memB. MirroredChunk_updateData md src index era c = Some (True, c1) \<and>
      rready (m_regionA c1) \<and> rready (m_regionB c1) \<and> length memA = region_length \<and> length memB = region_length \<and>
      rbytes (m_regionA c1) = patch index (chunk_image (mirror_header (m_transId c + (if k = Copy_A then 2 else 1)) (length d)) d era) memA \<and>
      rbytes (m_regionB c1) = patch index (chunk_image (mirror_header (m_transId c + (if k = Copy_B then 2 else 1)) (length d)) d era) memB"
proof -
  define buf where "buf = (if era then zero_buffer else patch 0 bs zero_buffer)"
  define c0 where "c0 = c\<lparr>g_mirrorBuffer := buf, m_mirrorLen := word_of_nat (length bs)\<rparr>"
  have d: "d \<noteq> []" "length d = length bs" using data(2) by (simp_all add: d_def)
  have "take (length d) buf = d"
    using data(3) by (simp add: zero_buffer_def patch_def WORK_BUFFER_SIZE_def d_def buf_def)
  then have c0: "take (length d) (g_mirrorBuffer c0) = d" "m_mirrorLen c0 = word_of_nat (length d)"
    "m_currentRegion c0 = Some k" "m_transId c0 = m_transId c" "current_region c0 j = current_region c j" for j
    using d cur by (simp_all add: c0_def current_region_def split: copy.split)
  have rdy: "rready (current_region c0 (other_copy k))" "length d + 4 \<le> WORK_BUFFER_SIZE" "index + 16 + length d \<le> region_length"
    using A B data(3) fit d by (simp_all add: c0_def current_region_def split: copy.split)
  obtain r1 where r1: "MirroredChunk_write_copy md index era c0 =
      Some (True, set_region (c0\<lparr>m_currentRegion := Some (other_copy k), m_transId := m_transId c0 + 1\<rparr>) (other_copy k) r1)"
    "rready r1" "rbytes r1 = patch index (chunk_image (mirror_header (m_transId c0 + 1) (length d)) d era)
        (rbytes (current_region c0 (other_copy k)))"
    using write_copy_image [OF md c0(3) rdy(1) c0(1) d(1) c0(2) rdy(2,3), of era] by blast
  define c1 where "c1 = set_region (c0\<lparr>m_currentRegion := Some (other_copy k), m_transId := m_transId c0 + 1\<rparr>) (other_copy k) r1"
  have oo: "other_copy (other_copy k) = k" "other_copy k \<noteq> k" by (cases k; simp add: other_copy_def)+
  have c1: "take (length d) (g_mirrorBuffer c1) = d" "m_mirrorLen c1 = word_of_nat (length d)"
    "m_currentRegion c1 = Some (other_copy k)" "m_transId c1 = m_transId c + 1" "current_region c1 k = current_region c k"
    using c0 oo by (simp_all add: c1_def set_region_simps current_region_def split: copy.split)
      (auto simp: c0_def)
  have rk: "rready (current_region c1 (other_copy (other_copy k)))"
    unfolding oo c1(5) using A B by (simp add: current_region_def split: copy.split)
  obtain r2 where r2: "MirroredChunk_write_copy md index era c1 =
      Some (True, set_region (c1\<lparr>m_currentRegion := Some k, m_transId := m_transId c1 + 1\<rparr>) k r2)"
    "rready r2" "rbytes r2 = patch index (chunk_image (mirror_header (m_transId c1 + 1) (length d)) d era)
        (rbytes (current_region c k))"
    using write_copy_image [OF md c1(3) rk c1(1) d(1) c1(2) rdy(2,3), of era] by (auto simp: oo c1)
  let ?c2 = "set_region (c1\<lparr>m_currentRegion := Some k, m_transId := m_transId c1 + 1\<rparr>) k r2"
  have upd: "MirroredChunk_updateData md src index era c = Some (True, ?c2)"
    using r1(1) r2(1) data cur
    by (simp add: MirroredChunk_updateData_def fill_buffer_def c0_def buf_def c1_def Let_def)
  have "m_regionA ?c2 = (if k = Copy_A then r2 else r1)" "m_regionB ?c2 = (if k = Copy_B then r2 else r1)"
    by (cases k; simp add: set_region_simps c1_def other_copy_def)+
  moreover have "length (rbytes (current_region c k)) = region_length" "length (rbytes (current_region c0 (other_copy k))) = region_length"
    using region_bytes A B rdy(1) by (auto simp: current_region_def split: copy.splits)
  ultimately show ?thesis
    using upd r1(2,3) r2(2,3) c0(4) c1(4)
    by (intro exI [of _ ?c2] exI [of _ "rbytes (if k = Copy_A then current_region c k else current_region c0 (other_copy k))"]
        exI [of _ "rbytes (if k = Copy_B then current_region c k else current_region c0 (other_copy k))"])
      (cases k; simp add: add.assoc)
qed

text \<open>
  Loading two copies of the same length.  The work buffer ends up with the data of copy B,
  because B is examined last.
\<close>

lemma mirror_load:
  assumes md: "media_of md" and A: "rready (m_regionA c)" and B: "rready (m_regionB c)"
    and w: "length (g_mirrorBuffer c) = WORK_BUFFER_SIZE"
    and len: "length xs = length ys" "length ys + 4 \<le> WORK_BUFFER_SIZE" and fit: "index + 16 + length ys \<le> region_length"
    and imgA: "read_at index (16 + length ys) (rbytes (m_regionA c)) = mirror_header ta (length ys) @ xs @ crcA"
    and imgB: "read_at index (16 + length ys) (rbytes (m_regionB c)) = mirror_header tb (length ys) @ ys @ crcB"
  defines "okA \<equiv> ta \<noteq> 0 \<and> Crc32_isOkay (Crc32_accumulate Crc32_reset (mirror_header ta (length ys) @ xs @ crcA))"
    and "okB \<equiv> tb \<noteq> 0 \<and> Crc32_isOkay (Crc32_accumulate Crc32_reset (mirror_header tb (length ys) @ ys @ crcB))"
  shows "\<exists>c'. MirroredChunk_loadData md dst index c =
      (if okA \<or> okB then Some (putData dst ys, Some ys, c') else Some (False, None, c')) \<and>
      ((okA \<or> okB) \<longrightarrow> m_currentRegion c' = Some (if okA \<and> (\<not> okB \<or> tb < ta) then Copy_A else Copy_B))"
proof -
  let ?n = "word_of_nat (length ys) :: u32"
  have n: "unat ?n = length ys" using len by (intro unat_of_nat_small) (simp add: WORK_BUFFER_SIZE_def)
  define TA where "TA = (if Crc32_isOkay (Crc32_accumulate Crc32_reset (mirror_header ta (length ys) @ xs @ crcA)) then ta else 0)"
  define TB where "TB = (if Crc32_isOkay (Crc32_accumulate Crc32_reset (mirror_header tb (length ys) @ ys @ crcB)) then tb else 0)"
  have ok: "okA \<longleftrightarrow> TA \<noteq> 0" "okB \<longleftrightarrow> TB \<noteq> 0" by (auto simp only: okA_def okB_def TA_def TB_def split: if_splits)
  have newer: "okA \<and> (\<not> okB \<or> tb < ta) \<longleftrightarrow> TB < TA"
  proof -
    have "okA \<Longrightarrow> TA = ta" "okB \<Longrightarrow> TB = tb" by (simp_all only: okA_def okB_def TA_def TB_def if_True)
    then show ?thesis using ok by (cases okA; cases okB) (simp_all add: word_gt_0)
  qed
  have lcA: "length crcA = 4" using arg_cong [OF imgA, of length] len fit region_bytes [OF A] by simp
  have lcB: "length crcB = 4" using arg_cong [OF imgB, of length] len fit region_bytes [OF B] by simp
  obtain rA where rA: "MirroredChunk_getTransactionId md (m_regionA c) (g_mirrorBuffer c) index =
      Some (TA, ?n, patch 0 (xs @ crcA) (g_mirrorBuffer c), rA)"
    using transaction_of_image [OF md A w, of xs index ta crcA] len fit imgA by (simp only: TA_def) auto
  have w1: "length (patch 0 (xs @ crcA) (g_mirrorBuffer c)) = WORK_BUFFER_SIZE" using w len lcA by simp
  obtain rB where rB: "MirroredChunk_getTransactionId md (m_regionB c) (patch 0 (xs @ crcA) (g_mirrorBuffer c)) index =
      Some (TB, ?n, patch 0 (ys @ crcB) (patch 0 (xs @ crcA) (g_mirrorBuffer c)), rB)"
    using transaction_of_image [OF md B w1, of ys index tb crcB] len fit imgB by (simp only: TB_def) auto
  have buf: "take (length ys) (patch 0 (ys @ crcB) m) = ys" for m by (simp add: patch_def)
  have lim: "unat (word_of_nat region_length - MirroredChunk_FRAME_OVERHEAD :: u32) \<le> region_length"
  proof -
    have "unat (word_of_nat region_length :: u32) = region_length" using region_limit by (intro unat_of_nat_small) simp
    then show ?thesis using fit by (subst unat_sub) (simp_all add: MirroredChunk_FRAME_OVERHEAD_def word_le_nat_alt)
  qed
  have "length ys \<le> region_length" using fit by simp
  then show ?thesis
    unfolding newer unfolding ok
    using md rA rB n lim buf
    by (cases "TA = 0 \<and> TB = 0"; cases "TB < TA")
      (simp_all add: MirroredChunk_loadData_def media_of_def MirroredChunk_pushToRecord_def Let_def)
qed

text \<open>Saving, and loading after a restart.\<close>

lemma mirror_save_load:
  assumes md: "media_of md" and AB: "rready (m_regionA c)" "rready (m_regionB c)"
    and cur: "m_currentRegion c = Some k" and tid: "unat (m_transId c) + 2 < 2 ^ 64"
    and data: "getData src (unat (m_mirrorLen c)) = bs" "bs \<noteq> []" "length bs + 4 \<le> WORK_BUFFER_SIZE"
    and fit: "index + 16 + length bs \<le> region_length"
    and w: "length (g_mirrorBuffer fresh) = WORK_BUFFER_SIZE"
  shows "\<exists>c1 c2. MirroredChunk_updateData md src index era c = Some (True, c1) \<and>
      MirroredChunk_loadData md dst index
        (MirroredChunk_start fresh\<lparr>m_regionA := m_regionA c1, m_regionB := m_regionB c1\<rparr>) =
        Some (if era then False else putData dst bs, if era then None else Some bs, c2)"
proof -
  define d where "d = (if era then replicate (length bs) 0 else bs)"
  define ta where "ta = m_transId c + (if k = Copy_A then 2 else 1)"
  define tb where "tb = m_transId c + (if k = Copy_B then 2 else 1)"
  have len: "length d = length bs" by (simp add: d_def)
  have nz: "m_transId c + 1 \<noteq> 0" "m_transId c + 2 \<noteq> 0"
    using tid by (simp_all add: unat_eq_0 [symmetric] unat_word_ariths unat_eq_zero flip: unat_0_iff)
  then have tnz: "ta \<noteq> 0" "tb \<noteq> 0" by (simp_all add: ta_def tb_def)
  obtain c1 memA memB where c1: "MirroredChunk_updateData md src index era c = Some (True, c1)"
    "rready (m_regionA c1)" "rready (m_regionB c1)" "length memA = region_length" "length memB = region_length"
    "rbytes (m_regionA c1) = patch index (chunk_image (mirror_header ta (length d)) d era) memA"
    "rbytes (m_regionB c1) = patch index (chunk_image (mirror_header tb (length d)) d era) memB"
    using mirror_update [OF md AB cur data fit, of era] unfolding d_def [symmetric] ta_def [symmetric] tb_def [symmetric] by blast
  let ?c = "MirroredChunk_start fresh\<lparr>m_regionA := m_regionA c1, m_regionB := m_regionB c1\<rparr>"
  define crc where "crc t = crc_field (Crc32_accumulate Crc32_reset (mirror_header t (length d) @ d)) era" for t
  have img: "chunk_image (mirror_header t (length d)) d era = mirror_header t (length d) @ d @ crc t" for t
    by (simp only: chunk_image_def crc_def)
  have ilen: "length (chunk_image (mirror_header t (length d)) d era) = 16 + length d" for t by simp
  have "read_at index (16 + length d) (rbytes (m_regionA ?c)) = mirror_header ta (length d) @ d @ crc ta"
    "read_at index (16 + length d) (rbytes (m_regionB ?c)) = mirror_header tb (length d) @ d @ crc tb"
    using c1(4-7) fit read_at_patch_same [of index memA "chunk_image (mirror_header ta (length d)) d era"]
      read_at_patch_same [of index memB "chunk_image (mirror_header tb (length d)) d era"]
    unfolding ilen by (simp_all add: img)
  from mirror_load [OF md _ _ _ refl _ _ this, of dst] c1(2,3) w data(3) fit len
  obtain c2 where c2: "MirroredChunk_loadData md dst index ?c =
      (if okc ta \<or> okc tb then Some (putData dst d, Some d, c2) else Some (False, None, c2))"
    if "okc = (\<lambda>t. t \<noteq> 0 \<and> Crc32_isOkay (Crc32_accumulate Crc32_reset (mirror_header t (length d) @ d @ crc t)))" for okc
    by (auto simp: MirroredChunk_start_def)
  have "Crc32_isOkay (Crc32_accumulate Crc32_reset (mirror_header t (length d) @ d @ crc t)) \<longleftrightarrow> \<not> era" for t
    unfolding img [symmetric] using intact_image erased_image by (cases era) simp_all
  with c2 [OF refl] tnz have "MirroredChunk_loadData md dst index ?c =
      (if \<not> era then Some (putData dst d, Some d, c2) else Some (False, None, c2))" by simp
  with c1(1) show ?thesis by (cases era) (auto simp: d_def)
qed

end

section \<open>Properties\<close>

text \<open>
  The NV adapter over the EEPROM driver keeps the contract, here for a region of 64 bytes at
  address 1000.
\<close>

definition record_region :: nv_region where
  "record_region = \<lparr>m_startAddress = 1000, m_regionLength = 64\<rparr>"

interpretation rec: region_media "m_regionLength record_region" "NVAdapter_write (cat_api chip_bus) record_region"
  "NVAdapter_read (cat_api chip_bus) record_region"
  "\<lambda>d. read_at (m_startAddress record_region) (m_regionLength record_region) (ch_cells (m_i2c d))"
  "\<lambda>d. (m_started d \<and> length (ch_cells (m_i2c d)) = 65536 \<and> ch_busy (m_i2c d) \<le> 6) \<and>
     m_startAddress record_region + m_regionLength record_region \<le> CAT24C512_getTotalSize d"
  by (rule ref.cat.adapter_region [OF ref.cat_serves]) (simp add: record_region_def)

definition record_media :: "chip cat24c512 media" where
  "record_media = \<lparr>getRegionLength = m_regionLength record_region,
     region_write = NVAdapter_write (cat_api chip_bus) record_region,
     region_read = NVAdapter_read (cat_api chip_bus) record_region\<rparr>"

definition chip_with :: "bytes \<Rightarrow> chip cat24c512" where
  "chip_with bs = \<lparr>m_started = True, m_i2c = \<lparr>ch_cells = replicate 1000 0xFF @ bs @ replicate (64536 - length bs) 0xFF,
     ch_pointer = 0, ch_busy = 0\<rparr>\<rparr>"

lemma chip_with_ready:
  assumes "length bs \<le> 64"
  shows "(m_started (chip_with bs) \<and> length (ch_cells (m_i2c (chip_with bs))) = 65536 \<and> ch_busy (m_i2c (chip_with bs)) \<le> 6) \<and>
     m_startAddress record_region + m_regionLength record_region \<le> CAT24C512_getTotalSize (chip_with bs)"
  using assms by (simp add: chip_with_def record_region_def) (simp add: cat_sizes)

lemma chip_with_bytes:
  assumes "length bs \<le> 64"
  shows "read_at 0 (length bs) (read_at (m_startAddress record_region) (m_regionLength record_region) (ch_cells (m_i2c (chip_with bs)))) = bs"
  using assms by (simp add: chip_with_def record_region_def read_at_def)

definition sample :: payload where
  "sample = \<lparr>getData = (\<lambda>_. [1, 2, 3]), putData = (\<lambda>_. True)\<rparr>"

text \<open>
  What a CRC chunk has saved it loads: on media that keep the region contract, saving a
  record of at most 1020 bytes that fits the region succeeds, and loading it, with any contents of
  the work buffer and any remembered length (as after a restart), hands exactly those bytes
  to the record.  A record saved with \<open>invalidate\<close> is rejected when it is loaded.
\<close>
theorem crc_chunk_round_trip:
  assumes "region_media len wr rd rb ok" and "ok (m_region c)"
    and "getData src (unat (m_dataLen c)) = bs" and "bs \<noteq> []" and "length bs + 4 \<le> WORK_BUFFER_SIZE"
    and "index + 8 + length bs \<le> len" and "length work = WORK_BUFFER_SIZE"
  shows "\<exists>c1 c2. CrcChunk_updateData \<lparr>getRegionLength = len, region_write = wr, region_read = rd\<rparr> src index era c = Some (True, c1) \<and>
      CrcChunk_loadData \<lparr>getRegionLength = len, region_write = wr, region_read = rd\<rparr> dst index
        \<lparr>m_region = m_region c1, m_dataLen = n, g_workBuffer = work\<rparr> =
        Some (if era then False else putData dst bs, if era then None else Some bs, c2)"
  by (rule region_media.crc_chunk_save_load [OF assms(1) _ assms(2-7)])
    (simp add: region_media.media_of_def [OF assms(1)])

theorem crc_chunk_round_trip_witness:
  "\<exists>c1 c2. CrcChunk_updateData record_media sample 0 False
       \<lparr>m_region = chip_with [], m_dataLen = 56, g_workBuffer = zero_buffer\<rparr> = Some (True, c1) \<and>
     CrcChunk_loadData record_media sample 0 \<lparr>m_region = m_region c1, m_dataLen = 0, g_workBuffer = zero_buffer\<rparr> =
       Some (True, Some [1, 2, 3], c2)"
  using crc_chunk_round_trip [OF rec.region_media_axioms, of "\<lparr>m_region = chip_with [], m_dataLen = 56, g_workBuffer = zero_buffer\<rparr>"
      sample "[1, 2, 3]" 0 zero_buffer False sample 0] chip_with_ready [of "[]"]
  by (simp add: record_media_def record_region_def sample_def WORK_BUFFER_SIZE_def zero_buffer_def)

text \<open>
  C25. A CRC chunk rejects a damaged copy: when any one byte of a saved record behind its length
  field, data or CRC, has another value on the media, loading reports a failure and hands nothing
  to the record.
\<close>
theorem crc_chunk_detects_damage:
  assumes "region_media len wr rd rb ok" and "ok (m_region c)" and "length (g_workBuffer c) = WORK_BUFFER_SIZE"
    and "length bs + 4 \<le> WORK_BUFFER_SIZE" and "index + 8 + length bs \<le> len"
    and "read_at index (8 + length bs) (rb (m_region c)) = img0[i := b]"
    and "img0 = chunk_image (le_bytes 4 (word_of_nat (length bs) :: u32)) bs False"
    and "4 \<le> i" and "i < length img0" and "img0 ! i \<noteq> b"
  shows "\<exists>c'. CrcChunk_loadData \<lparr>getRegionLength = len, region_write = wr, region_read = rd\<rparr> dst index c =
    Some (False, None, c')"
  by (rule region_media.crc_chunk_damage [OF assms(1) _ assms(2-10)])
    (simp add: region_media.media_of_def [OF assms(1)])

theorem crc_chunk_detects_damage_witness:
  "\<exists>c'. CrcChunk_loadData record_media sample 0
     \<lparr>m_region = chip_with ((chunk_image (le_bytes 4 (3 :: u32)) [1, 2, 3] False)[4 := 9]), m_dataLen = 0, g_workBuffer = zero_buffer\<rparr> =
       Some (False, None, c')"
proof -
  let ?img = "chunk_image (le_bytes 4 (3 :: u32)) [1, 2, 3] False"
  have hd: "?img ! 4 = 1" by (simp add: chunk_image_def nth_append)
  have "read_at 0 (8 + length [1, 2, 3 :: u8]) (read_at (m_startAddress record_region) (m_regionLength record_region)
      (ch_cells (m_i2c (chip_with (?img[4 := 9]))))) = ?img[4 := 9]"
    using chip_with_bytes [of "?img[4 := 9]"] by (simp add: numeral_eq_Suc)
  then have img: "read_at 0 (8 + 3) (read_at (m_startAddress record_region) (m_regionLength record_region)
      (ch_cells (m_i2c (chip_with (?img[4 := 9]))))) = ?img[4 := 9]" by simp
  have n: "length [1, 2, 3 :: u8] = 3" "word_of_nat 3 = (3 :: u32)" by simp_all
  let ?c = "\<lparr>m_region = chip_with (?img[4 := 9]), m_dataLen = 0 :: u32, g_workBuffer = zero_buffer\<rparr>"
  have "(m_started (m_region ?c) \<and> length (ch_cells (m_i2c (m_region ?c))) = 65536 \<and> ch_busy (m_i2c (m_region ?c)) \<le> 6) \<and>
     m_startAddress record_region + m_regionLength record_region \<le> CAT24C512_getTotalSize (m_region ?c)"
    using chip_with_ready [of "?img[4 := 9]"] by simp
  note detected = crc_chunk_detects_damage [OF rec.region_media_axioms this, of "[1, 2, 3]" 0 ?img 4 9 sample,
      unfolded n, folded record_media_def]
  show ?thesis
    by (rule detected) (use img hd in \<open>simp_all add: WORK_BUFFER_SIZE_def zero_buffer_def record_region_def\<close>)
qed

text \<open>
  C26. What a mirrored chunk has saved it loads: on media that keep the region contract and while
  the 64-bit transaction number does not wrap, saving a record that fits both regions
  succeeds, and loading it after a restart hands exactly those bytes to the record.  A
  record saved with \<open>invalidate\<close> is rejected when it is loaded.
\<close>
theorem mirrored_round_trip:
  fixes md :: "'r media"
  assumes "region_media len wr rd rb ok" and "md = \<lparr>getRegionLength = len, region_write = wr, region_read = rd\<rparr>"
    and "ok (m_regionA c)" and "ok (m_regionB c)" and "m_currentRegion c = Some k" and "unat (m_transId c) + 2 < 2 ^ 64"
    and "getData src (unat (m_mirrorLen c)) = bs" and "bs \<noteq> []" and "length bs + 4 \<le> WORK_BUFFER_SIZE"
    and "index + 16 + length bs \<le> len" and "length (g_mirrorBuffer fresh) = WORK_BUFFER_SIZE"
  shows "\<exists>c1 c2. MirroredChunk_updateData md src index era c = Some (True, c1) \<and>
      MirroredChunk_loadData md dst index
        (MirroredChunk_start fresh\<lparr>m_regionA := m_regionA c1, m_regionB := m_regionB c1\<rparr>) =
        Some (if era then False else putData dst bs, if era then None else Some bs, c2)"
  by (rule region_media.mirror_save_load [OF assms(1) _ assms(3-11)])
    (simp add: region_media.media_of_def [OF assms(1)] assms(2))

theorem mirrored_round_trip_witness:
  "\<exists>c1 c2. MirroredChunk_updateData record_media sample 0 False \<lparr>m_regionA = chip_with [], m_regionB = chip_with [], m_transId = 0,
       m_mirrorLen = 48, m_currentRegion = Some Copy_A, g_mirrorBuffer = zero_buffer\<rparr> = Some (True, c1) \<and>
     MirroredChunk_loadData record_media sample 0 (MirroredChunk_start \<lparr>m_regionA = m_regionA c1, m_regionB = m_regionB c1,
       m_transId = 7, m_mirrorLen = 0, m_currentRegion = None, g_mirrorBuffer = zero_buffer\<rparr>) = Some (True, Some [1, 2, 3], c2)"
  using mirrored_round_trip [OF rec.region_media_axioms refl, of "\<lparr>m_regionA = chip_with [], m_regionB = chip_with [], m_transId = 0,
       m_mirrorLen = 48, m_currentRegion = Some Copy_A, g_mirrorBuffer = zero_buffer\<rparr>" Copy_A sample "[1, 2, 3]" 0
       "\<lparr>m_regionA = chip_with [], m_regionB = chip_with [], m_transId = 7, m_mirrorLen = 0, m_currentRegion = None, g_mirrorBuffer = zero_buffer\<rparr>"
       False sample] chip_with_ready [of "[]"]
  by (simp add: record_media_def record_region_def sample_def WORK_BUFFER_SIZE_def zero_buffer_def MirroredChunk_start_def)

text \<open>
  C27. What loading a mirrored chunk delivers: of two copies of the same length, the load succeeds
  when at least one is intact and picks the intact one with the larger transaction number as the
  current region, but the bytes it hands to the record are those of copy B in every case, because
  both copies are read into one work buffer and B is read last.  So when B was torn by a power
  failure and A is intact, the torn bytes are delivered as valid.
\<close>
theorem mirrored_load_delivers_copy_B:
  fixes md :: "'r media"
  assumes "region_media len wr rd rb ok" and "md = \<lparr>getRegionLength = len, region_write = wr, region_read = rd\<rparr>"
    and "ok (m_regionA c)" and "ok (m_regionB c)" and "length (g_mirrorBuffer c) = WORK_BUFFER_SIZE"
    and "length xs = length ys" and "length ys + 4 \<le> WORK_BUFFER_SIZE" and "index + 16 + length ys \<le> len"
    and "read_at index (16 + length ys) (rb (m_regionA c)) = mirror_header ta (length ys) @ xs @ crcA"
    and "read_at index (16 + length ys) (rb (m_regionB c)) = mirror_header tb (length ys) @ ys @ crcB"
    and "okA \<longleftrightarrow> ta \<noteq> 0 \<and> Crc32_isOkay (Crc32_accumulate Crc32_reset (mirror_header ta (length ys) @ xs @ crcA))"
    and "okB \<longleftrightarrow> tb \<noteq> 0 \<and> Crc32_isOkay (Crc32_accumulate Crc32_reset (mirror_header tb (length ys) @ ys @ crcB))"
  shows "\<exists>c'. MirroredChunk_loadData md dst index c =
      (if okA \<or> okB then Some (putData dst ys, Some ys, c') else Some (False, None, c')) \<and>
      ((okA \<or> okB) \<longrightarrow> m_currentRegion c' = Some (if okA \<and> (\<not> okB \<or> tb < ta) then Copy_A else Copy_B))"
proof -
  have "region_media.media_of len wr rd md" by (simp add: region_media.media_of_def [OF assms(1)] assms(2))
  from region_media.mirror_load [OF assms(1) this assms(3-10)] show ?thesis by (simp only: assms(11,12))
qed

text \<open>A copy A with transaction 2 and data 1, 2, 3 is intact, copy B with data 7, 7, 7 has a wrong CRC.\<close>

theorem mirrored_load_delivers_copy_B_witness:
  "\<exists>c'. MirroredChunk_loadData record_media sample 0
     \<lparr>m_regionA = chip_with (chunk_image (mirror_header 2 3) [1, 2, 3] False),
      m_regionB = chip_with (chunk_image (mirror_header 3 3) [7, 7, 7] True),
      m_transId = 0, m_mirrorLen = 0, m_currentRegion = None, g_mirrorBuffer = zero_buffer\<rparr> = Some (True, Some [7, 7, 7], c') \<and>
     m_currentRegion c' = Some Copy_A"
proof -
  let ?A = "chunk_image (mirror_header 2 3) [1, 2, 3] False" and ?B = "chunk_image (mirror_header 3 3) [7, 7, 7] True"
  let ?rd = "\<lambda>d. read_at (m_startAddress record_region) (m_regionLength record_region) (ch_cells (m_i2c d))"
  define crcA where "crcA = crc_field (Crc32_accumulate Crc32_reset (mirror_header 2 3 @ [1, 2, 3])) False"
  define crcB where "crcB = crc_field (Crc32_accumulate Crc32_reset (mirror_header 3 3 @ [7, 7, 7])) True"
  have A: "?A = mirror_header 2 3 @ [1, 2, 3] @ crcA" by (simp only: chunk_image_def crcA_def)
  have B: "?B = mirror_header 3 3 @ [7, 7, 7] @ crcB" by (simp only: chunk_image_def crcB_def)
  have n: "length [7, 7, 7 :: u8] = 3" by simp
  have rA: "read_at 0 (16 + 3) (?rd (chip_with ?A)) = mirror_header 2 3 @ [1, 2, 3] @ crcA"
    using chip_with_bytes [of ?A] unfolding A [symmetric] by simp
  have rB: "read_at 0 (16 + 3) (?rd (chip_with ?B)) = mirror_header 3 3 @ [7, 7, 7] @ crcB"
    using chip_with_bytes [of ?B] unfolding B [symmetric] by simp
  have okA: "Crc32_isOkay (Crc32_accumulate Crc32_reset (mirror_header 2 3 @ [1, 2, 3] @ crcA))"
    unfolding A [symmetric] by (rule intact_image)
  have okB: "\<not> Crc32_isOkay (Crc32_accumulate Crc32_reset (mirror_header 3 3 @ [7, 7, 7] @ crcB))"
    unfolding B [symmetric] by (rule erased_image)
  let ?c = "\<lparr>m_regionA = chip_with ?A, m_regionB = chip_with ?B, m_transId = 0, m_mirrorLen = 0, m_currentRegion = None,
     g_mirrorBuffer = zero_buffer\<rparr>"
  have "(m_started (m_regionA ?c) \<and> length (ch_cells (m_i2c (m_regionA ?c))) = 65536 \<and> ch_busy (m_i2c (m_regionA ?c)) \<le> 6) \<and>
     m_startAddress record_region + m_regionLength record_region \<le> CAT24C512_getTotalSize (m_regionA ?c)"
    "(m_started (m_regionB ?c) \<and> length (ch_cells (m_i2c (m_regionB ?c))) = 65536 \<and> ch_busy (m_i2c (m_regionB ?c)) \<le> 6) \<and>
     m_startAddress record_region + m_regionLength record_region \<le> CAT24C512_getTotalSize (m_regionB ?c)"
    using chip_with_ready [of ?A] chip_with_ready [of ?B] by simp_all
  note B_delivered = mirrored_load_delivers_copy_B [OF rec.region_media_axioms refl this, of "[1, 2, 3]" "[7, 7, 7]" 0 2 crcA 3 crcB True False sample,
    unfolded n]
  have "\<exists>c'. MirroredChunk_loadData record_media sample 0 ?c = Some (putData sample [7, 7, 7], Some [7, 7, 7], c') \<and>
      m_currentRegion c' = Some Copy_A"
    using B_delivered rA rB okA okB unfolding record_media_def [symmetric]
    by (simp add: WORK_BUFFER_SIZE_def zero_buffer_def record_region_def)
  then show ?thesis by (simp add: sample_def)
qed

end
