(* ===== verification/Md5.thy ===== *)
theory Md5
  imports Prelude
begin

unbundle bit_operations_syntax

text \<open>
  The MD5 message digest of \<^verbatim>\<open>src/src/Cpl/Checksum/md5_aladdin_.c\<close> and its wrapper \<^verbatim>\<open>Md5Aladdin.cpp\<close>.  The
  64 operations on a block are the unrolled ones of the source; the reference is the loop of RFC
  1321 with the table written out (\<open>rfc_sched\<close>, \<open>rfc_block\<close>, \<open>rfc_digest\<close>).
\<close>

section \<open>One block\<close>

type_synonym md5_regs = "u32 \<times> u32 \<times> u32 \<times> u32"

definition ROTATE_LEFT :: "u32 \<Rightarrow> nat \<Rightarrow> u32" where
  "ROTATE_LEFT x n = push_bit n x OR drop_bit (32 - n) x"

definition md5_F :: "u32 \<Rightarrow> u32 \<Rightarrow> u32 \<Rightarrow> u32" where
  "md5_F x y z = (x AND y) OR (NOT x AND z)"

definition md5_G :: "u32 \<Rightarrow> u32 \<Rightarrow> u32 \<Rightarrow> u32" where
  "md5_G x y z = (x AND z) OR (y AND NOT z)"

definition md5_H :: "u32 \<Rightarrow> u32 \<Rightarrow> u32 \<Rightarrow> u32" where
  "md5_H x y z = x XOR y XOR z"

definition md5_I :: "u32 \<Rightarrow> u32 \<Rightarrow> u32 \<Rightarrow> u32" where
  "md5_I x y z = y XOR (x OR NOT z)"

definition md5_SET :: "(u32 \<Rightarrow> u32 \<Rightarrow> u32 \<Rightarrow> u32) \<Rightarrow> u32 \<Rightarrow> u32 \<Rightarrow> u32 \<Rightarrow> u32 \<Rightarrow> u32 \<Rightarrow> nat \<Rightarrow> u32 \<Rightarrow> u32" where
  "md5_SET f a b c d x s Ti = (let t = a + f b c d + x + Ti in ROTATE_LEFT t s + b)"

definition T_MASK :: u32 where "T_MASK = NOT 0"

definition md5_T :: "u32 list" where
  "md5_T = [
     T_MASK XOR 0x28955b87, T_MASK XOR 0x173848a9, 0x242070db, T_MASK XOR 0x3e423111,
     T_MASK XOR 0x0a83f050, 0x4787c62a, T_MASK XOR 0x57cfb9ec, T_MASK XOR 0x02b96afe,
     0x698098d8, T_MASK XOR 0x74bb0850, T_MASK XOR 0x0000a44e, T_MASK XOR 0x76a32841,
     0x6b901122, T_MASK XOR 0x02678e6c, T_MASK XOR 0x5986bc71, 0x49b40821,
     T_MASK XOR 0x09e1da9d, T_MASK XOR 0x3fbf4cbf, 0x265e5a51, T_MASK XOR 0x16493855,
     T_MASK XOR 0x29d0efa2, 0x02441453, T_MASK XOR 0x275e197e, T_MASK XOR 0x182c0437,
     0x21e1cde6, T_MASK XOR 0x3cc8f829, T_MASK XOR 0x0b2af278, 0x455a14ed,
     T_MASK XOR 0x561c16fa, T_MASK XOR 0x03105c07, 0x676f02d9, T_MASK XOR 0x72d5b375,
     T_MASK XOR 0x0005c6bd, T_MASK XOR 0x788e097e, 0x6d9d6122, T_MASK XOR 0x021ac7f3,
     T_MASK XOR 0x5b4115bb, 0x4bdecfa9, T_MASK XOR 0x0944b49f, T_MASK XOR 0x4140438f,
     0x289b7ec6, T_MASK XOR 0x155ed805, T_MASK XOR 0x2b10cf7a, 0x04881d05,
     T_MASK XOR 0x262b2fc6, T_MASK XOR 0x1924661a, 0x1fa27cf8, T_MASK XOR 0x3b53a99a,
     T_MASK XOR 0x0bd6ddbb, 0x432aff97, T_MASK XOR 0x546bdc58, T_MASK XOR 0x036c5fc6,
     0x655b59c3, T_MASK XOR 0x70f3336d, T_MASK XOR 0x00100b82, T_MASK XOR 0x7a7ba22e,
     0x6fa87e4f, T_MASK XOR 0x01d3191f, T_MASK XOR 0x5cfebceb, 0x4e0811a1,
     T_MASK XOR 0x08ac817d, T_MASK XOR 0x42c50dca, 0x2ad7d2bb, T_MASK XOR 0x14792c6e]"

definition md5_round1 :: "u32 list \<Rightarrow> md5_regs \<Rightarrow> md5_regs" where
  "md5_round1 X = (\<lambda>(a, b, c, d).
     let a = md5_SET md5_F a b c d (X ! 0) 7 (md5_T ! 0) in
     let d = md5_SET md5_F d a b c (X ! 1) 12 (md5_T ! 1) in
     let c = md5_SET md5_F c d a b (X ! 2) 17 (md5_T ! 2) in
     let b = md5_SET md5_F b c d a (X ! 3) 22 (md5_T ! 3) in
     let a = md5_SET md5_F a b c d (X ! 4) 7 (md5_T ! 4) in
     let d = md5_SET md5_F d a b c (X ! 5) 12 (md5_T ! 5) in
     let c = md5_SET md5_F c d a b (X ! 6) 17 (md5_T ! 6) in
     let b = md5_SET md5_F b c d a (X ! 7) 22 (md5_T ! 7) in
     let a = md5_SET md5_F a b c d (X ! 8) 7 (md5_T ! 8) in
     let d = md5_SET md5_F d a b c (X ! 9) 12 (md5_T ! 9) in
     let c = md5_SET md5_F c d a b (X ! 10) 17 (md5_T ! 10) in
     let b = md5_SET md5_F b c d a (X ! 11) 22 (md5_T ! 11) in
     let a = md5_SET md5_F a b c d (X ! 12) 7 (md5_T ! 12) in
     let d = md5_SET md5_F d a b c (X ! 13) 12 (md5_T ! 13) in
     let c = md5_SET md5_F c d a b (X ! 14) 17 (md5_T ! 14) in
     let b = md5_SET md5_F b c d a (X ! 15) 22 (md5_T ! 15) in
     (a, b, c, d))"

definition md5_round2 :: "u32 list \<Rightarrow> md5_regs \<Rightarrow> md5_regs" where
  "md5_round2 X = (\<lambda>(a, b, c, d).
     let a = md5_SET md5_G a b c d (X ! 1) 5 (md5_T ! 16) in
     let d = md5_SET md5_G d a b c (X ! 6) 9 (md5_T ! 17) in
     let c = md5_SET md5_G c d a b (X ! 11) 14 (md5_T ! 18) in
     let b = md5_SET md5_G b c d a (X ! 0) 20 (md5_T ! 19) in
     let a = md5_SET md5_G a b c d (X ! 5) 5 (md5_T ! 20) in
     let d = md5_SET md5_G d a b c (X ! 10) 9 (md5_T ! 21) in
     let c = md5_SET md5_G c d a b (X ! 15) 14 (md5_T ! 22) in
     let b = md5_SET md5_G b c d a (X ! 4) 20 (md5_T ! 23) in
     let a = md5_SET md5_G a b c d (X ! 9) 5 (md5_T ! 24) in
     let d = md5_SET md5_G d a b c (X ! 14) 9 (md5_T ! 25) in
     let c = md5_SET md5_G c d a b (X ! 3) 14 (md5_T ! 26) in
     let b = md5_SET md5_G b c d a (X ! 8) 20 (md5_T ! 27) in
     let a = md5_SET md5_G a b c d (X ! 13) 5 (md5_T ! 28) in
     let d = md5_SET md5_G d a b c (X ! 2) 9 (md5_T ! 29) in
     let c = md5_SET md5_G c d a b (X ! 7) 14 (md5_T ! 30) in
     let b = md5_SET md5_G b c d a (X ! 12) 20 (md5_T ! 31) in
     (a, b, c, d))"

definition md5_round3 :: "u32 list \<Rightarrow> md5_regs \<Rightarrow> md5_regs" where
  "md5_round3 X = (\<lambda>(a, b, c, d).
     let a = md5_SET md5_H a b c d (X ! 5) 4 (md5_T ! 32) in
     let d = md5_SET md5_H d a b c (X ! 8) 11 (md5_T ! 33) in
     let c = md5_SET md5_H c d a b (X ! 11) 16 (md5_T ! 34) in
     let b = md5_SET md5_H b c d a (X ! 14) 23 (md5_T ! 35) in
     let a = md5_SET md5_H a b c d (X ! 1) 4 (md5_T ! 36) in
     let d = md5_SET md5_H d a b c (X ! 4) 11 (md5_T ! 37) in
     let c = md5_SET md5_H c d a b (X ! 7) 16 (md5_T ! 38) in
     let b = md5_SET md5_H b c d a (X ! 10) 23 (md5_T ! 39) in
     let a = md5_SET md5_H a b c d (X ! 13) 4 (md5_T ! 40) in
     let d = md5_SET md5_H d a b c (X ! 0) 11 (md5_T ! 41) in
     let c = md5_SET md5_H c d a b (X ! 3) 16 (md5_T ! 42) in
     let b = md5_SET md5_H b c d a (X ! 6) 23 (md5_T ! 43) in
     let a = md5_SET md5_H a b c d (X ! 9) 4 (md5_T ! 44) in
     let d = md5_SET md5_H d a b c (X ! 12) 11 (md5_T ! 45) in
     let c = md5_SET md5_H c d a b (X ! 15) 16 (md5_T ! 46) in
     let b = md5_SET md5_H b c d a (X ! 2) 23 (md5_T ! 47) in
     (a, b, c, d))"

definition md5_round4 :: "u32 list \<Rightarrow> md5_regs \<Rightarrow> md5_regs" where
  "md5_round4 X = (\<lambda>(a, b, c, d).
     let a = md5_SET md5_I a b c d (X ! 0) 6 (md5_T ! 48) in
     let d = md5_SET md5_I d a b c (X ! 7) 10 (md5_T ! 49) in
     let c = md5_SET md5_I c d a b (X ! 14) 15 (md5_T ! 50) in
     let b = md5_SET md5_I b c d a (X ! 5) 21 (md5_T ! 51) in
     let a = md5_SET md5_I a b c d (X ! 12) 6 (md5_T ! 52) in
     let d = md5_SET md5_I d a b c (X ! 3) 10 (md5_T ! 53) in
     let c = md5_SET md5_I c d a b (X ! 10) 15 (md5_T ! 54) in
     let b = md5_SET md5_I b c d a (X ! 1) 21 (md5_T ! 55) in
     let a = md5_SET md5_I a b c d (X ! 8) 6 (md5_T ! 56) in
     let d = md5_SET md5_I d a b c (X ! 15) 10 (md5_T ! 57) in
     let c = md5_SET md5_I c d a b (X ! 6) 15 (md5_T ! 58) in
     let b = md5_SET md5_I b c d a (X ! 13) 21 (md5_T ! 59) in
     let a = md5_SET md5_I a b c d (X ! 4) 6 (md5_T ! 60) in
     let d = md5_SET md5_I d a b c (X ! 11) 10 (md5_T ! 61) in
     let c = md5_SET md5_I c d a b (X ! 2) 15 (md5_T ! 62) in
     let b = md5_SET md5_I b c d a (X ! 9) 21 (md5_T ! 63) in
     (a, b, c, d))"

text \<open>
  The words of a block: on a little-endian machine the block is read as an array of words, on a
  big-endian one they are put together from the bytes.
\<close>

definition md5_words_le :: "bytes \<Rightarrow> u32 list" where
  "md5_words_le data = map (\<lambda>i. le_word (take 4 (drop (4 * i) data))) [0..<16]"

definition md5_words_be :: "bytes \<Rightarrow> u32 list" where
  "md5_words_be data = map (\<lambda>i. ucast (data ! (4 * i)) + push_bit 8 (ucast (data ! (4 * i + 1))) +
     push_bit 16 (ucast (data ! (4 * i + 2))) + push_bit 24 (ucast (data ! (4 * i + 3)))) [0..<16]"

definition md5_process :: "bool \<Rightarrow> md5_regs \<Rightarrow> bytes \<Rightarrow> md5_regs" where
  "md5_process little_endian abcd data =
     (let X = (if little_endian then md5_words_le data else md5_words_be data);
          (a, b, c, d) = md5_round4 X (md5_round3 X (md5_round2 X (md5_round1 X abcd)));
          (a0, b0, c0, d0) = abcd
      in (a0 + a, b0 + b, c0 + c, d0 + d))"

section \<open>The digest of a message\<close>

record md5_state =
  count0 :: u32
  count1 :: u32
  abcd :: md5_regs
  buf :: bytes

definition md5_init :: "md5_state \<Rightarrow> md5_state" where
  "md5_init pms = pms\<lparr>count0 := 0, count1 := 0,
     abcd := (0x67452301, T_MASK XOR 0x10325476, T_MASK XOR 0x67452301, 0x10325476)\<rparr>"

text \<open>The loop over the full blocks: the registers, and the bytes that are left.\<close>

function md5_full_blocks :: "bool \<Rightarrow> md5_regs \<Rightarrow> bytes \<Rightarrow> md5_regs \<times> bytes" where
  "md5_full_blocks le r p =
     (if length p \<ge> 64 then md5_full_blocks le (md5_process le r (take 64 p)) (drop 64 p) else (r, p))"
  by pat_completeness auto
termination
  by (relation "measure (\<lambda>(le, r, p). length p)") auto

declare md5_full_blocks.simps [simp del]

definition mem_copy :: "nat \<Rightarrow> bytes \<Rightarrow> bytes \<Rightarrow> bytes" where
  "mem_copy off src dst = take off dst @ src @ drop (off + length src) dst"

text \<open>
  The number of bytes is the length of the data; it is an \<^verbatim>\<open>int\<close> in the source.  The count of
  bits has two words; the full blocks that the data still hold are processed where they are, and
  what is left is kept for the next call.
\<close>

definition md5_add_count :: "md5_state \<Rightarrow> nat \<Rightarrow> md5_state" where
  "md5_add_count pms nbytes =
     (let nbits = push_bit 3 (word_of_nat nbytes) :: u32;
          c1 = count1 pms + word_of_nat (nbytes div 2 ^ 29);
          c0 = count0 pms + nbits
      in pms\<lparr>count0 := c0, count1 := (if c0 < nbits then c1 + 1 else c1)\<rparr>)"

definition md5_run_blocks :: "bool \<Rightarrow> md5_state \<Rightarrow> bytes \<Rightarrow> md5_state" where
  "md5_run_blocks le pms p =
     (let (r, left) = md5_full_blocks le (abcd pms) p;
          pms = pms\<lparr>abcd := r\<rparr>
      in if left \<noteq> [] then pms\<lparr>buf := mem_copy 0 left (buf pms)\<rparr> else pms)"

definition md5_append :: "bool \<Rightarrow> md5_state \<Rightarrow> bytes \<Rightarrow> md5_state" where
  "md5_append le pms data =
     (let nbytes = length data;
          offset = unat (drop_bit 3 (count0 pms) AND 63)
      in if nbytes = 0 then pms
         else
           let pms = md5_add_count pms nbytes
           in if offset \<noteq> 0
              then let copy = (if offset + nbytes > 64 then 64 - offset else nbytes);
                       pms = pms\<lparr>buf := mem_copy offset (take copy data) (buf pms)\<rparr>
                   in if offset + copy < 64 then pms
                      else md5_run_blocks le (pms\<lparr>abcd := md5_process le (abcd pms) (buf pms)\<rparr>) (drop copy data)
              else md5_run_blocks le pms data)"

definition md5_pad :: bytes where
  "md5_pad = 0x80 # replicate 63 0"

fun md5_regs_word :: "md5_regs \<Rightarrow> nat \<Rightarrow> u32" where
  "md5_regs_word (a, b, c, d) i = (if i = 0 then a else if i = 1 then b else if i = 2 then c else d)"

definition md5_finish :: "bool \<Rightarrow> md5_state \<Rightarrow> bytes \<times> md5_state" where
  "md5_finish le pms =
     (let data = map (\<lambda>i. ucast (drop_bit (i mod 4 * 8) (if i div 4 = 0 then count0 pms else count1 pms))) [0..<8];
          pms = md5_append le pms (take (unat ((55 - drop_bit 3 (count0 pms)) AND 63) + 1) md5_pad);
          pms = md5_append le pms data
      in (map (\<lambda>i. ucast (drop_bit (i mod 4 * 8) (md5_regs_word (abcd pms) (i div 4)))) [0..<16], pms))"

text \<open>\<^verbatim>\<open>Md5Aladdin\<close>, without the conversion to a string.\<close>

record md5_aladdin =
  md5_m_state :: md5_state
  md5_m_result :: bytes

definition Md5Aladdin_reset :: "md5_aladdin \<Rightarrow> md5_aladdin" where
  "Md5Aladdin_reset h = h\<lparr>md5_m_state := md5_init (md5_m_state h)\<rparr>"

definition Md5Aladdin_accumulate :: "bool \<Rightarrow> md5_aladdin \<Rightarrow> bytes \<Rightarrow> md5_aladdin" where
  "Md5Aladdin_accumulate le h bs = h\<lparr>md5_m_state := md5_append le (md5_m_state h) bs\<rparr>"

definition Md5Aladdin_finalize :: "bool \<Rightarrow> md5_aladdin \<Rightarrow> bytes \<times> md5_aladdin" where
  "Md5Aladdin_finalize le h =
     (let (digest, st) = md5_finish le (md5_m_state h)
      in (digest, h\<lparr>md5_m_state := st, md5_m_result := digest\<rparr>))"

section \<open>RFC 1321\<close>

definition rfc_K :: "u32 list" where
  "rfc_K = [
     0xd76aa478, 0xe8c7b756, 0x242070db, 0xc1bdceee,
     0xf57c0faf, 0x4787c62a, 0xa8304613, 0xfd469501,
     0x698098d8, 0x8b44f7af, 0xffff5bb1, 0x895cd7be,
     0x6b901122, 0xfd987193, 0xa679438e, 0x49b40821,
     0xf61e2562, 0xc040b340, 0x265e5a51, 0xe9b6c7aa,
     0xd62f105d, 0x02441453, 0xd8a1e681, 0xe7d3fbc8,
     0x21e1cde6, 0xc33707d6, 0xf4d50d87, 0x455a14ed,
     0xa9e3e905, 0xfcefa3f8, 0x676f02d9, 0x8d2a4c8a,
     0xfffa3942, 0x8771f681, 0x6d9d6122, 0xfde5380c,
     0xa4beea44, 0x4bdecfa9, 0xf6bb4b60, 0xbebfbc70,
     0x289b7ec6, 0xeaa127fa, 0xd4ef3085, 0x04881d05,
     0xd9d4d039, 0xe6db99e5, 0x1fa27cf8, 0xc4ac5665,
     0xf4292244, 0x432aff97, 0xab9423a7, 0xfc93a039,
     0x655b59c3, 0x8f0ccc92, 0xffeff47d, 0x85845dd1,
     0x6fa87e4f, 0xfe2ce6e0, 0xa3014314, 0x4e0811a1,
     0xf7537e82, 0xbd3af235, 0x2ad7d2bb, 0xeb86d391]"

definition rfc_sched :: "nat \<Rightarrow> (u32 \<Rightarrow> u32 \<Rightarrow> u32 \<Rightarrow> u32) \<times> nat \<times> nat \<times> u32" where
  "rfc_sched i =
     (if i < 16 then (md5_F, i, [7, 12, 17, 22] ! (i mod 4), rfc_K ! i)
      else if i < 32 then (md5_G, (5 * i + 1) mod 16, [5, 9, 14, 20] ! (i mod 4), rfc_K ! i)
      else if i < 48 then (md5_H, (3 * i + 5) mod 16, [4, 11, 16, 23] ! (i mod 4), rfc_K ! i)
      else (md5_I, (7 * i) mod 16, [6, 10, 15, 21] ! (i mod 4), rfc_K ! i))"

definition rfc_op :: "u32 list \<Rightarrow> md5_regs \<Rightarrow> (u32 \<Rightarrow> u32 \<Rightarrow> u32 \<Rightarrow> u32) \<times> nat \<times> nat \<times> u32 \<Rightarrow> md5_regs" where
  "rfc_op M = (\<lambda>(a, b, c, d) (f, k, s, t). (d, b + word_rotl s (a + f b c d + M ! k + t), b, c))"

definition rfc_block :: "md5_regs \<Rightarrow> bytes \<Rightarrow> md5_regs" where
  "rfc_block = (\<lambda>(a0, b0, c0, d0) block.
     let (a, b, c, d) = foldl (rfc_op (md5_words_le block)) (a0, b0, c0, d0) (map rfc_sched [0..<64])
     in (a0 + a, b0 + b, c0 + c, d0 + d))"

function rfc_absorb :: "md5_regs \<Rightarrow> bytes \<Rightarrow> md5_regs \<times> bytes" where
  "rfc_absorb r m = (if length m < 64 then (r, m) else rfc_absorb (rfc_block r (take 64 m)) (drop 64 m))"
  by pat_completeness auto
termination
  by (relation "measure (\<lambda>(r, m). length m)") auto

declare rfc_absorb.simps [simp del]

definition rfc_padded :: "bytes \<Rightarrow> bytes" where
  "rfc_padded m = m @ 0x80 # replicate ((119 - length m mod 64) mod 64) 0 @ le_bytes 8 (word_of_nat (8 * length m) :: u64)"

definition rfc_start :: md5_regs where
  "rfc_start = (0x67452301, 0xefcdab89, 0x98badcfe, 0x10325476)"

definition rfc_digest :: "bytes \<Rightarrow> bytes" where
  "rfc_digest m = (let ((a, b, c, d), rest) = rfc_absorb rfc_start (rfc_padded m)
     in le_bytes 4 a @ le_bytes 4 b @ le_bytes 4 c @ le_bytes 4 d)"

section \<open>The unrolled block is the loop\<close>

lemma md5_T_is_rfc_K: "md5_T = rfc_K"
  by (simp add: md5_T_def rfc_K_def T_MASK_def)

lemma rotate_is_rotl: "0 < n \<Longrightarrow> n < 32 \<Longrightarrow> ROTATE_LEFT x n = word_rotl n x"
proof (rule bit_word_eqI)
  fix m assume n: "0 < n" "n < 32" and m: "m < LENGTH(32)"
  show "bit (ROTATE_LEFT x n) m = bit (word_rotl n x) m"
  proof (cases "n \<le> m")
    case True
    then have "(m + (32 - n)) mod 32 = m - n" using n m by (simp add: mod_if)
    moreover have "\<not> bit x (32 - n + m)" using True n by (auto dest: bit_imp_le_length)
    ultimately show ?thesis using True n m by (auto simp: ROTATE_LEFT_def bit_simps)
  next
    case False
    then have "(m + (32 - n)) mod 32 = 32 - n + m" using n m by simp
    then show ?thesis using False n m by (auto simp: ROTATE_LEFT_def bit_simps)
  qed
qed
text \<open>One operation of the loop, as the macro, with the new value named once.\<close>

lemma rfc_op_let:
  assumes "0 < s" "s < 32"
  shows "foldl (rfc_op M) (a, b, c, d) ((f, k, s, t) # ops) =
    (let a = md5_SET f a b c d (M ! k) s t in foldl (rfc_op M) (d, a, b, c) ops)"
  using assms by (simp add: rfc_op_def md5_SET_def Let_def rotate_is_rotl add.commute)

lemma foldl_Nil_regs: "foldl (rfc_op M) (a, b, c, d) [] = (a, b, c, d)"
  by simp

lemma upt_split64: "[0..<64] = [0..<16] @ [16..<32] @ [32..<48] @ [48..<64]"
  by (simp add: upt_rec)

text \<open>The operations of the four rounds, as the loop computes them.\<close>

lemma rfc_sched1: "map rfc_sched [0..<16] = [
     (md5_F, 0, 7, rfc_K ! 0), (md5_F, 1, 12, rfc_K ! 1), (md5_F, 2, 17, rfc_K ! 2), (md5_F, 3, 22, rfc_K ! 3),
     (md5_F, 4, 7, rfc_K ! 4), (md5_F, 5, 12, rfc_K ! 5), (md5_F, 6, 17, rfc_K ! 6), (md5_F, 7, 22, rfc_K ! 7),
     (md5_F, 8, 7, rfc_K ! 8), (md5_F, 9, 12, rfc_K ! 9), (md5_F, 10, 17, rfc_K ! 10), (md5_F, 11, 22, rfc_K ! 11),
     (md5_F, 12, 7, rfc_K ! 12), (md5_F, 13, 12, rfc_K ! 13), (md5_F, 14, 17, rfc_K ! 14), (md5_F, 15, 22, rfc_K ! 15)]"
  by (simp add: rfc_sched_def upt_rec) (simp add: numeral_eq_Suc)

lemma rfc_sched2: "map rfc_sched [16..<32] = [
     (md5_G, 1, 5, rfc_K ! 16), (md5_G, 6, 9, rfc_K ! 17), (md5_G, 11, 14, rfc_K ! 18), (md5_G, 0, 20, rfc_K ! 19),
     (md5_G, 5, 5, rfc_K ! 20), (md5_G, 10, 9, rfc_K ! 21), (md5_G, 15, 14, rfc_K ! 22), (md5_G, 4, 20, rfc_K ! 23),
     (md5_G, 9, 5, rfc_K ! 24), (md5_G, 14, 9, rfc_K ! 25), (md5_G, 3, 14, rfc_K ! 26), (md5_G, 8, 20, rfc_K ! 27),
     (md5_G, 13, 5, rfc_K ! 28), (md5_G, 2, 9, rfc_K ! 29), (md5_G, 7, 14, rfc_K ! 30), (md5_G, 12, 20, rfc_K ! 31)]"
  by (simp add: rfc_sched_def upt_rec)

lemma rfc_sched3: "map rfc_sched [32..<48] = [
     (md5_H, 5, 4, rfc_K ! 32), (md5_H, 8, 11, rfc_K ! 33), (md5_H, 11, 16, rfc_K ! 34), (md5_H, 14, 23, rfc_K ! 35),
     (md5_H, 1, 4, rfc_K ! 36), (md5_H, 4, 11, rfc_K ! 37), (md5_H, 7, 16, rfc_K ! 38), (md5_H, 10, 23, rfc_K ! 39),
     (md5_H, 13, 4, rfc_K ! 40), (md5_H, 0, 11, rfc_K ! 41), (md5_H, 3, 16, rfc_K ! 42), (md5_H, 6, 23, rfc_K ! 43),
     (md5_H, 9, 4, rfc_K ! 44), (md5_H, 12, 11, rfc_K ! 45), (md5_H, 15, 16, rfc_K ! 46), (md5_H, 2, 23, rfc_K ! 47)]"
  by (simp add: rfc_sched_def upt_rec)

lemma rfc_sched4: "map rfc_sched [48..<64] = [
     (md5_I, 0, 6, rfc_K ! 48), (md5_I, 7, 10, rfc_K ! 49), (md5_I, 14, 15, rfc_K ! 50), (md5_I, 5, 21, rfc_K ! 51),
     (md5_I, 12, 6, rfc_K ! 52), (md5_I, 3, 10, rfc_K ! 53), (md5_I, 10, 15, rfc_K ! 54), (md5_I, 1, 21, rfc_K ! 55),
     (md5_I, 8, 6, rfc_K ! 56), (md5_I, 15, 10, rfc_K ! 57), (md5_I, 6, 15, rfc_K ! 58), (md5_I, 13, 21, rfc_K ! 59),
     (md5_I, 4, 6, rfc_K ! 60), (md5_I, 11, 10, rfc_K ! 61), (md5_I, 2, 15, rfc_K ! 62), (md5_I, 9, 21, rfc_K ! 63)]"
  by (simp add: rfc_sched_def upt_rec)

lemma round_shifts: "0 < (4::nat)" "(4::nat) < 32" "0 < (5::nat)" "(5::nat) < 32" "0 < (6::nat)" "(6::nat) < 32"
  "0 < (7::nat)" "(7::nat) < 32" "0 < (9::nat)" "(9::nat) < 32" "0 < (10::nat)" "(10::nat) < 32" "0 < (11::nat)" "(11::nat) < 32"
  "0 < (12::nat)" "(12::nat) < 32" "0 < (14::nat)" "(14::nat) < 32" "0 < (15::nat)" "(15::nat) < 32" "0 < (16::nat)" "(16::nat) < 32"
  "0 < (17::nat)" "(17::nat) < 32" "0 < (20::nat)" "(20::nat) < 32" "0 < (21::nat)" "(21::nat) < 32" "0 < (22::nat)" "(22::nat) < 32"
  "0 < (23::nat)" "(23::nat) < 32"
  by simp_all

lemmas round_lets = rfc_op_let [OF round_shifts(1,2)] rfc_op_let [OF round_shifts(3,4)] rfc_op_let [OF round_shifts(5,6)]
  rfc_op_let [OF round_shifts(7,8)] rfc_op_let [OF round_shifts(9,10)] rfc_op_let [OF round_shifts(11,12)]
  rfc_op_let [OF round_shifts(13,14)] rfc_op_let [OF round_shifts(15,16)] rfc_op_let [OF round_shifts(17,18)]
  rfc_op_let [OF round_shifts(19,20)] rfc_op_let [OF round_shifts(21,22)] rfc_op_let [OF round_shifts(23,24)]
  rfc_op_let [OF round_shifts(25,26)] rfc_op_let [OF round_shifts(27,28)] rfc_op_let [OF round_shifts(29,30)]
  rfc_op_let [OF round_shifts(31,32)] foldl_Nil_regs

lemma round1_is_rfc: "md5_round1 X r = foldl (rfc_op X) r (map rfc_sched [0..<16])"
  by (cases r) (simp only: rfc_sched1 round_lets md5_round1_def md5_T_is_rfc_K prod.case)

lemma round2_is_rfc: "md5_round2 X r = foldl (rfc_op X) r (map rfc_sched [16..<32])"
  by (cases r) (simp only: rfc_sched2 round_lets md5_round2_def md5_T_is_rfc_K prod.case)

lemma round3_is_rfc: "md5_round3 X r = foldl (rfc_op X) r (map rfc_sched [32..<48])"
  by (cases r) (simp only: rfc_sched3 round_lets md5_round3_def md5_T_is_rfc_K prod.case)

lemma round4_is_rfc: "md5_round4 X r = foldl (rfc_op X) r (map rfc_sched [48..<64])"
  by (cases r) (simp only: rfc_sched4 round_lets md5_round4_def md5_T_is_rfc_K prod.case)


lemma rounds_are_rfc:
  "md5_round4 X (md5_round3 X (md5_round2 X (md5_round1 X r))) = foldl (rfc_op X) r (map rfc_sched [0..<64])"
  by (simp only: upt_split64 map_append foldl_append round1_is_rfc round2_is_rfc round3_is_rfc round4_is_rfc)

text \<open>Both ways to read a block give the same words.\<close>

lemma take4: "k + 4 \<le> length xs \<Longrightarrow> take 4 (drop k xs) = [xs ! k, xs ! (k + 1), xs ! (k + 2), xs ! (k + 3)]"
  by (rule nth_equalityI) (auto simp: less_Suc_eq numeral_eq_Suc)

lemma byte_plus: "(ucast (a :: u8) :: u32) + push_bit 8 w = ucast a OR push_bit 8 w"
  by (rule disjunctive_add_eq_or) (rule bit_word_eqI, auto simp: bit_simps dest: bit_imp_le_length)

lemma le_word_four:
  "(le_word [a, b, c, d] :: u32) = ucast a + push_bit 8 (ucast b) + push_bit 16 (ucast c) + push_bit 24 (ucast d)"
proof -
  have "(le_word [a, b, c, d] :: u32) = ucast a + push_bit 8 (ucast b + push_bit 8 (ucast c + push_bit 8 (ucast d)))"
    by (simp only: byte_plus le_word.simps push_bit_of_0 or.right_neutral)
  also have "\<dots> = ucast a + push_bit 8 (ucast b) + push_bit 16 (ucast c) + push_bit 24 (ucast d)"
    by (simp add: push_bit_eq_mult ring_distribs)
  finally show ?thesis .
qed
lemma words_be_le:
  assumes "length data = 64"
  shows "md5_words_be data = md5_words_le data"
proof -
  have "take 4 (drop (4 * i) data) = [data ! (4 * i), data ! (4 * i + 1), data ! (4 * i + 2), data ! (4 * i + 3)]" if "i < 16" for i
    using that assms by (intro take4) simp
  then show ?thesis
    unfolding md5_words_be_def md5_words_le_def
    by (intro map_cong refl) (simp only: le_word_four set_upt atLeastLessThan_iff)
qed

lemma process_is_rfc_block: "length data = 64 \<Longrightarrow> md5_process le r data = rfc_block r data"
  by (cases r) (simp add: md5_process_def rfc_block_def words_be_le rounds_are_rfc)

section \<open>Streaming\<close>

lemma full_blocks_is_absorb: "md5_full_blocks le r p = rfc_absorb r p"
  by (induction le r p rule: md5_full_blocks.induct)
    (subst md5_full_blocks.simps, subst rfc_absorb.simps, simp add: process_is_rfc_block)

lemma absorb_append: "rfc_absorb r (xs @ ys) = (case rfc_absorb r xs of (r', rest) \<Rightarrow> rfc_absorb r' (rest @ ys))"
proof (induction r xs rule: rfc_absorb.induct)
  case (1 r m)
  show ?case
  proof (cases "length m < 64")
    case True
    then show ?thesis by (simp add: rfc_absorb.simps [of r m])
  next
    case False
    then show ?thesis using 1 by (simp add: rfc_absorb.simps [of r m] rfc_absorb.simps [of r "m @ ys"])
  qed
qed

lemma absorb_block: "length b = 64 \<Longrightarrow> rfc_absorb r (b @ ys) = rfc_absorb (rfc_block r b) ys"
  by (subst rfc_absorb.simps) simp

lemma absorb_short: "length m < 64 \<Longrightarrow> rfc_absorb r m = (r, m)"
  by (subst rfc_absorb.simps) simp

lemma length_rest: "rfc_absorb r m = (r', rest) \<Longrightarrow> length rest = length m mod 64"
proof (induction r m rule: rfc_absorb.induct)
  case (1 r m)
  then show ?case by (cases "length m < 64") (auto simp: rfc_absorb.simps [of r m] mod_if)
qed

text \<open>What the state holds after the bytes \<open>m\<close>.\<close>

definition md5_holds :: "md5_state \<Rightarrow> bytes \<Rightarrow> bool" where
  "md5_holds st m \<longleftrightarrow>
     rfc_absorb rfc_start m = (abcd st, take (length m mod 64) (buf st)) \<and> length (buf st) = 64 \<and>
     count0 st = word_of_nat (8 * length m) \<and> count1 st = word_of_nat (8 * length m div 2 ^ 32)"

lemma init_holds: "length (buf st) = 64 \<Longrightarrow> md5_holds (md5_init st) []"
  by (simp add: md5_holds_def md5_init_def absorb_short rfc_start_def T_MASK_def)

lemma offset_of_count: "unat (drop_bit 3 (word_of_nat (8 * n) :: u32) AND 63) = n mod 64"
proof -
  have "(63 :: u32) = mask 6" by (simp add: mask_eq_decr_exp)
  then have "unat (drop_bit 3 (word_of_nat (8 * n) :: u32) AND 63) = 8 * n mod 2 ^ 32 div 8 mod 64"
    by (simp only: take_bit_eq_mask [symmetric] unsigned_take_bit_eq unsigned_drop_bit_eq unat_of_nat)
      (simp add: take_bit_eq_mod drop_bit_eq_div)
  also have "\<dots> = n mod 2 ^ 29 mod 64"
  proof -
    have "8 * n mod 2 ^ 32 = 8 * (n mod 2 ^ 29)" using mult_mod_right [of 8 n "2 ^ 29"] by simp
    then show ?thesis by simp
  qed
  also have "\<dots> = n mod 64" by (rule mod_mod_cancel) simp
  finally show ?thesis .
qed

text \<open>The bit count in two words, with the carry.\<close>

lemma count_carry:
  fixes len n :: nat
  defines "nbits \<equiv> push_bit 3 (word_of_nat n) :: u32"
  defines "c0 \<equiv> word_of_nat (8 * len) + nbits"
  shows "c0 = word_of_nat (8 * (len + n))"
    and "(if c0 < nbits then word_of_nat (8 * len div 2 ^ 32) + word_of_nat (n div 2 ^ 29) + 1
          else word_of_nat (8 * len div 2 ^ 32) + word_of_nat (n div 2 ^ 29)) = (word_of_nat (8 * (len + n) div 2 ^ 32) :: u32)"
proof -
  have nb: "nbits = word_of_nat (8 * n)" by (simp add: nbits_def push_bit_eq_mult)
  show c0: "c0 = word_of_nat (8 * (len + n))" by (simp add: c0_def nb ring_distribs)
  have len32: "(2 :: nat) ^ LENGTH(32) = 2 ^ 32" by simp
  let ?a = "8 * len mod 2 ^ 32" and ?b = "8 * n mod 2 ^ 32"
  have "c0 < nbits \<longleftrightarrow> (?a + ?b) mod 2 ^ 32 < ?b"
    by (simp only: word_less_nat_alt c0 nb unat_of_nat distrib_left mod_add_eq len32)
  also have "\<dots> \<longleftrightarrow> 2 ^ 32 \<le> ?a + ?b"
  proof -
    have wrap: "(a + b) mod 2 ^ 32 < b \<longleftrightarrow> 2 ^ 32 \<le> a + b" if "a < 2 ^ 32" "b < 2 ^ 32" for a b :: nat
      using that by (cases "a + b < 2 ^ 32") (auto simp: mod_if [of "a + b"])
    show ?thesis by (rule wrap) simp_all
  qed
  finally have carry: "c0 < nbits \<longleftrightarrow> 2 ^ 32 \<le> ?a + ?b" .
  have "8 * n div 2 ^ 32 = n div 2 ^ 29" by (simp add: div_mult2_eq [symmetric])
  moreover have "8 * (len + n) div 2 ^ 32 = 8 * len div 2 ^ 32 + 8 * n div 2 ^ 32 + (?a + ?b) div 2 ^ 32"
    by (subst distrib_left) (rule div_add1_eq)
  moreover have "(?a + ?b) div 2 ^ 32 = (if 2 ^ 32 \<le> ?a + ?b then 1 else 0)"
  proof -
    have quot: "(a + b) div 2 ^ 32 = (if 2 ^ 32 \<le> a + b then 1 else 0)" if "a < 2 ^ 32" "b < 2 ^ 32" for a b :: nat
      using that by (cases "a + b < 2 ^ 32") (auto intro: div_nat_eqI)
    show ?thesis by (rule quot) simp_all
  qed
  ultimately show "(if c0 < nbits then word_of_nat (8 * len div 2 ^ 32) + word_of_nat (n div 2 ^ 29) + 1
      else word_of_nat (8 * len div 2 ^ 32) + word_of_nat (n div 2 ^ 29)) = (word_of_nat (8 * (len + n) div 2 ^ 32) :: u32)"
    unfolding carry by (simp del: add.assoc add: add.commute)
qed

lemma length_mem_copy [simp]: "off + length src \<le> length dst \<Longrightarrow> length (mem_copy off src dst) = length dst"
  by (simp add: mem_copy_def)

lemma take_mem_copy: "off + length src \<le> length dst \<Longrightarrow> take (off + length src) (mem_copy off src dst) = take off dst @ src"
  by (simp add: mem_copy_def)

lemma add_count_holds:
  assumes "md5_holds st m"
  shows "md5_add_count st n = st\<lparr>count0 := word_of_nat (8 * (length m + n)), count1 := word_of_nat (8 * (length m + n) div 2 ^ 32)\<rparr>"
proof -
  have c: "count0 st = word_of_nat (8 * length m)" "count1 st = word_of_nat (8 * length m div 2 ^ 32)"
    using assms by (simp_all add: md5_holds_def)
  show ?thesis unfolding md5_add_count_def Let_def c unfolding count_carry(2) unfolding count_carry(1) ..
qed

lemma run_blocks_holds:
  assumes run: "st' = md5_run_blocks le st p" and b: "length (buf st) = 64"
    and all: "rfc_absorb rfc_start m = rfc_absorb (abcd st) p"
    and c: "count0 st = word_of_nat (8 * length m)" "count1 st = word_of_nat (8 * length m div 2 ^ 32)"
  shows "md5_holds st' m"
proof -
  obtain r rest where r: "rfc_absorb (abcd st) p = (r, rest)" by (cases "rfc_absorb (abcd st) p")
  then have len: "length rest = length m mod 64" using length_rest [of rfc_start m] all by simp
  then have "length rest < 64" by simp
  then have "st' = (if rest \<noteq> [] then st\<lparr>abcd := r, buf := mem_copy 0 rest (buf st)\<rparr> else st\<lparr>abcd := r\<rparr>)"
    by (simp add: run md5_run_blocks_def full_blocks_is_absorb r)
  moreover have "take (length rest) (mem_copy 0 rest (buf st)) = rest" by (simp add: mem_copy_def)
  ultimately show ?thesis
    using all r b c len \<open>length rest < 64\<close> by (cases "rest = []") (simp_all add: md5_holds_def)
qed

text \<open>
  The three ways through \<open>md5_append\<close> keep what the state holds: the data end inside the block
  that is being filled, they complete it, or no block was begun.
\<close>

lemma append_holds:
  assumes st: "md5_holds st m"
  shows "md5_holds (md5_append le st data) (m @ data)"
proof (cases "data = []")
  case True
  then show ?thesis using st by (simp add: md5_append_def)
next
  case ne: False
  define k where "k = length m mod 64"
  define st1 where "st1 = md5_add_count st (length data)"
  have b: "length (buf st) = 64" and ab: "rfc_absorb rfc_start m = (abcd st, take k (buf st))"
    and c: "count0 st = word_of_nat (8 * length m)"
    using st by (simp_all add: md5_holds_def k_def)
  have off: "unat (drop_bit 3 (count0 st) AND 63) = k" unfolding c k_def by (rule offset_of_count)
  have k64: "k < 64" by (simp add: k_def)
  have st1: "buf st1 = buf st" "abcd st1 = abcd st" "count0 st1 = word_of_nat (8 * length (m @ data))"
    "count1 st1 = word_of_nat (8 * length (m @ data) div 2 ^ 32)"
    using add_count_holds [OF st, of "length data"] by (simp_all add: st1_def)
  have all: "rfc_absorb rfc_start (m @ data) = rfc_absorb (abcd st) (take k (buf st) @ data)"
    by (subst absorb_append) (simp add: ab)
  consider "k \<noteq> 0" "k + length data < 64" | "k \<noteq> 0" "64 \<le> k + length data" | "k = 0" by linarith
  then show ?thesis
  proof cases
    case 1
    then have "md5_append le st data = st1\<lparr>buf := mem_copy k data (buf st)\<rparr>"
      using ne off by (simp add: md5_append_def Let_def st1_def [symmetric] st1)
    moreover have "length (m @ data) mod 64 = k + length data" using 1 by (metis k_def length_append mod_add_left_eq mod_less)
    moreover have "rfc_absorb rfc_start (m @ data) = (abcd st, take k (buf st) @ data)"
      unfolding all using 1 b by (intro absorb_short) simp
    ultimately show ?thesis using 1 b st1 take_mem_copy [of k data "buf st"] by (simp add: md5_holds_def)
  next
    case 2
    let ?b = "mem_copy k (take (64 - k) data) (buf st)"
    have lb: "length ?b = 64" using 2 b k64 by simp
    have "take (k + (64 - k)) ?b = take k (buf st) @ take (64 - k) data"
      using take_mem_copy [of k "take (64 - k) data" "buf st"] 2 b k64 by simp
    then have bb: "?b = take k (buf st) @ take (64 - k) data" using lb k64 by simp
    have "(if 64 < k + length data then 64 - k else length data) = 64 - k" using 2 by auto
    then have app: "md5_append le st data = md5_run_blocks le (st1\<lparr>buf := ?b, abcd := md5_process le (abcd st) ?b\<rparr>) (drop (64 - k) data)"
      using ne off 2 k64 by (simp add: md5_append_def Let_def st1_def [symmetric] st1)
    have "rfc_absorb rfc_start (m @ data) = rfc_absorb (rfc_block (abcd st) ?b) (drop (64 - k) data)"
      unfolding all using absorb_block [OF lb, of "abcd st" "drop (64 - k) data"] by (simp add: bb)
    then show ?thesis by (intro run_blocks_holds [OF app]) (simp_all add: process_is_rfc_block lb st1)
  next
    case 3
    then have app: "md5_append le st data = md5_run_blocks le st1 data"
      using ne off by (simp add: md5_append_def Let_def st1_def [symmetric])
    show ?thesis using all 3 by (intro run_blocks_holds [OF app]) (simp_all add: b st1)
  qed
qed

lemma low_bits_diff:
  fixes a b :: "'a::len word"
  assumes "k \<le> LENGTH('a)"
  shows "take_bit k (a - b) = take_bit k (a - take_bit k b)"
proof -
  have "(2 :: int) ^ k dvd 2 ^ LENGTH('a)" using assms by (rule le_imp_power_dvd)
  then have "uint (take_bit k (a - c)) = (uint a - uint c) mod 2 ^ k" for c
    by (simp only: unsigned_take_bit_eq uint_word_ariths) (simp only: take_bit_eq_mod mod_mod_cancel)
  then have "uint (take_bit k (a - b)) = uint (take_bit k (a - take_bit k b))"
    by (simp only: unsigned_take_bit_eq) (simp only: take_bit_eq_mod mod_diff_right_eq)
  then show ?thesis by (simp add: word_uint_eqI)
qed
text \<open>The padding and the length that \<open>md5_finish\<close> appends are those of the RFC.\<close>

lemma pad_length: "unat ((55 - drop_bit 3 (word_of_nat (8 * n) :: u32)) AND 63) = (119 - n mod 64) mod 64"
proof -
  have m: "(63 :: u32) = mask 6" by (simp add: mask_eq_decr_exp)
  define w where "w = drop_bit 3 (word_of_nat (8 * n) :: u32)"
  have inv: "word_of_nat (unat x) = x" for x :: u32 by simp
  have o1: "take_bit 6 w = word_of_nat (n mod 64)"
    using offset_of_count [of n] unfolding m w_def take_bit_eq_mask [symmetric] by (metis inv)
  have "take_bit 6 (55 - w) = take_bit 6 (55 - take_bit 6 w)"
    by (rule low_bits_diff) simp
  also have "\<dots> = take_bit 6 (word_of_nat (119 - n mod 64))"
  proof -
    have "n mod 64 < 64" by simp
    then have "(word_of_nat (119 - n mod 64) :: u32) = 55 - word_of_nat (n mod 64) + 64" by (simp add: of_nat_diff)
    moreover have "take_bit 6 (x + 64) = take_bit 6 (x :: u32)" for x
    proof -
      have "take_bit 6 (- 64 :: u32) = 0" by simp
      then show ?thesis using low_bits_diff [of 6 x "- 64"] by simp
    qed
    ultimately show ?thesis by (simp only: o1)
  qed
  finally have "unat (take_bit 6 (55 - w)) = take_bit 6 (unat (word_of_nat (119 - n mod 64) :: u32))"
    by (simp only: unsigned_take_bit_eq)
  then show ?thesis
    unfolding m w_def take_bit_eq_mask [symmetric] by (subst (asm) unat_of_nat_small) (simp_all add: take_bit_eq_mod)
qed

lemma le_bytes4: "le_bytes 4 w = [ucast w, ucast (drop_bit 8 w), ucast (drop_bit 16 w), ucast (drop_bit 24 w)]"
  by (simp add: eval_nat_numeral)

lemma length_bytes: "map (\<lambda>i. ucast (drop_bit (i mod 4 * 8) (if i div 4 = 0 then c0 else c1 :: u32))) [0..<8] = le_bytes 4 c0 @ le_bytes 4 c1"
  by (simp add: upt_rec le_bytes4)

lemma le_bytes_append: "le_bytes (i + j) w = le_bytes i w @ le_bytes j (drop_bit (8 * i) w)"
  by (induction i arbitrary: w) (simp_all add: add.commute)

lemma le_bytes_count: "le_bytes 8 (word_of_nat n :: u64) = le_bytes 4 (word_of_nat n :: u32) @ le_bytes 4 (word_of_nat (n div 2 ^ 32) :: u32)"
proof -
  have byte: "(ucast (drop_bit i (word_of_nat n :: u64)) :: u8) = ucast (drop_bit i (word_of_nat n :: u32))" if "i + 8 \<le> 32" for i
    using that by (intro bit_word_eqI) (simp add: bit_simps)
  have high: "(ucast (drop_bit i (drop_bit 32 (word_of_nat n :: u64))) :: u8) = ucast (drop_bit i (word_of_nat (n div 2 ^ 32) :: u32))"
    if "i + 8 \<le> 32" for i
    using that unfolding drop_bit_eq_div [symmetric] by (intro bit_word_eqI) (simp add: bit_simps ac_simps)
  have "le_bytes 8 (word_of_nat n :: u64) = le_bytes 4 (word_of_nat n :: u64) @ le_bytes 4 (drop_bit 32 (word_of_nat n :: u64))"
    using le_bytes_append [of 4 4 "word_of_nat n :: u64"] by simp
  then show ?thesis
    using byte [of 0] byte [of 8] byte [of 16] byte [of 24] high [of 0] high [of 8] high [of 16] high [of 24]
    by (simp add: le_bytes4)
qed

lemma digest_bytes: "map (\<lambda>i. ucast (drop_bit (i mod 4 * 8) (md5_regs_word (a, b, c, d) (i div 4)))) [0..<16] =
    le_bytes 4 a @ le_bytes 4 b @ le_bytes 4 c @ le_bytes 4 d"
  by (simp add: upt_rec le_bytes4)

lemma finish_is_rfc:
  assumes "md5_holds st m"
  shows "fst (md5_finish le st) = rfc_digest m"
proof -
  have c: "count0 st = word_of_nat (8 * length m)" "count1 st = word_of_nat (8 * length m div 2 ^ 32)"
    using assms by (simp_all add: md5_holds_def)
  let ?k = "(119 - length m mod 64) mod 64"
  have pad: "take (?k + 1) md5_pad = 0x80 # replicate ?k 0" by (simp add: md5_pad_def min_def less_imp_le)
  let ?st = "md5_append le (md5_append le st (0x80 # replicate ?k 0)) (le_bytes 8 (word_of_nat (8 * length m) :: u64))"
  obtain a b c' d where r: "abcd ?st = (a, b, c', d)" by (cases "abcd ?st")
  have "md5_holds ?st (rfc_padded m)"
    using append_holds [OF append_holds [OF assms, of le "0x80 # replicate ?k 0"], of le "le_bytes 8 (word_of_nat (8 * length m) :: u64)"]
    by (simp only: rfc_padded_def append_assoc append_Cons)
  then obtain rest where "rfc_absorb rfc_start (rfc_padded m) = ((a, b, c', d), rest)" unfolding md5_holds_def r by blast
  moreover have "fst (md5_finish le st) = le_bytes 4 a @ le_bytes 4 b @ le_bytes 4 c' @ le_bytes 4 d"
    unfolding md5_finish_def Let_def length_bytes c pad_length pad le_bytes_count [symmetric] r digest_bytes by simp
  ultimately show ?thesis by (simp add: rfc_digest_def)
qed

lemma pieces_hold: "md5_holds st m \<Longrightarrow> md5_holds (foldl (md5_append le) st pieces) (m @ concat pieces)"
  by (induction pieces arbitrary: st m) (use append_holds in \<open>fastforce simp: append_assoc [symmetric] simp del: append_assoc\<close>)+

section \<open>Properties\<close>

text \<open>
  C6. The digest is MD5: after a reset, a message given in any pieces (of a length an \<^verbatim>\<open>int\<close> holds
  with room for a block), on a little-endian or a big-endian machine, whatever the object held
  before, has the digest of RFC 1321, with the padding and the 64-bit length of the RFC.
\<close>
theorem md5_is_rfc1321:
  assumes "length (buf (md5_m_state h)) = 64" and "\<forall>p\<in>set pieces. length p < 2 ^ 31 - 64"
  shows "fst (Md5Aladdin_finalize le (foldl (Md5Aladdin_accumulate le) (Md5Aladdin_reset h) pieces)) = rfc_digest (concat pieces)"
proof -
  have "md5_m_state (foldl (Md5Aladdin_accumulate le) g pieces) = foldl (md5_append le) (md5_m_state g) pieces" for g
    by (induction pieces arbitrary: g) (simp_all add: Md5Aladdin_accumulate_def)
  moreover have "md5_holds (foldl (md5_append le) (md5_init (md5_m_state h)) pieces) (concat pieces)"
    using pieces_hold [OF init_holds [OF assms(1)]] by simp
  ultimately show ?thesis
    by (simp add: Md5Aladdin_finalize_def Md5Aladdin_reset_def finish_is_rfc split: prod.split)
      (metis finish_is_rfc fst_conv)
qed

theorem md5_is_rfc1321_witness:
  "fst (Md5Aladdin_finalize True (foldl (Md5Aladdin_accumulate True)
     (Md5Aladdin_reset \<lparr>md5_m_state = \<lparr>count0 = 5, count1 = 7, abcd = (0, 0, 0, 0), buf = replicate 64 0xFF\<rparr>, md5_m_result = []\<rparr>)
     [[0x61], [0x62, 0x63]])) =
   rfc_digest [0x61, 0x62, 0x63]"
  using md5_is_rfc1321 [of "\<lparr>md5_m_state = \<lparr>count0 = 5, count1 = 7, abcd = (0, 0, 0, 0), buf = replicate 64 0xFF\<rparr>, md5_m_result = []\<rparr>"
      "[[0x61], [0x62, 0x63]]" True] by simp

text \<open>
  The unrolled block function is the loop of the RFC: the 64 operations of the source, with
  its complemented constants, give on every block and every start value the result of the loop over
  the schedule of the RFC, also where the words are put together byte by byte.
\<close>
theorem md5_block_is_rfc_loop:
  assumes "length data = 64"
  shows "md5_process le r data = rfc_block r data"
  by (rule process_is_rfc_block [OF assms])

theorem md5_block_is_rfc_loop_witness:
  "md5_process False (1, 2, 3, 4) (replicate 64 0x5A) = rfc_block (1, 2, 3, 4) (replicate 64 0x5A)"
  by (rule md5_block_is_rfc_loop) simp

end
