(* ===== verification/Timers.thy ===== *)
theory Timers
  imports Prelude
begin

text \<open>
  Software timers (\<^verbatim>\<open>src/src/Cpl/System/Timer.cpp\<close>, \<^verbatim>\<open>TimerManager.cpp\<close>).  The manager keeps the active
  timers in the order in which they expire, the count of each being relative to the one before
  it.  The two lists are represented by their sequences (the lists themselves are the templates
  of the theory on \<^verbatim>\<open>DList.h\<close>), the counts of the timers by a function.  \<^verbatim>\<open>unsigned long\<close> has 32
  bits.  What an expiration callback does is a parameter: the timers it starts and
  stops, in order, with the clock readings those calls make.
\<close>

section \<open>State\<close>

record timer_manager =
  m_counters :: "addr list"
  m_pendingAttach :: "addr list"
  m_timeMark :: u32
  m_timeNow :: u32
  m_inTickCall :: bool
  m_count :: "addr \<Rightarrow> u32"

definition TimerManager :: "(addr \<Rightarrow> u32) \<Rightarrow> timer_manager" where
  "TimerManager c = \<lparr>m_counters = [], m_pendingAttach = [], m_timeMark = 0, m_timeNow = 0, m_inTickCall = False, m_count = c\<rparr>"

definition TimerManager_startManager :: "u32 \<Rightarrow> timer_manager \<Rightarrow> timer_manager" where
  "TimerManager_startManager now s = s\<lparr>m_timeMark := now\<rparr>"

definition TimerManager_areActiveTimers :: "timer_manager \<Rightarrow> bool" where
  "TimerManager_areActiveTimers s \<longleftrightarrow> m_counters s = []"

definition deltaMilliseconds :: "u32 \<Rightarrow> u32 \<Rightarrow> u32" where
  "deltaMilliseconds startTime endTime = endTime - startTime"

definition Timer_decrement :: "addr \<Rightarrow> u32 \<Rightarrow> timer_manager \<Rightarrow> timer_manager" where
  "Timer_decrement t milliseconds s = s\<lparr>m_count := (m_count s)(t := m_count s t - milliseconds)\<rparr>"

definition Timer_increment :: "addr \<Rightarrow> u32 \<Rightarrow> timer_manager \<Rightarrow> timer_manager" where
  "Timer_increment t milliseconds s = s\<lparr>m_count := (m_count s)(t := m_count s t + milliseconds)\<rparr>"

section \<open>The active list\<close>

text \<open>The insertion walks the list, with the part behind the current position still to visit.\<close>

fun add_walk :: "addr \<Rightarrow> addr list \<Rightarrow> timer_manager \<Rightarrow> addr list \<times> timer_manager" where
  "add_walk client [] s = ([client], s)"
| "add_walk client (counter # rest) s =
     (if m_count s client < m_count s counter
      then (client # counter # rest, Timer_decrement counter (m_count s client) s)
      else let s1 = Timer_decrement client (m_count s counter) s
           in if m_count s1 client = 0 then (counter # client # rest, s1)
              else let (xs, s2) = add_walk client rest s1 in (counter # xs, s2))"

definition TimerManager_addToActiveList :: "addr \<Rightarrow> timer_manager \<Rightarrow> timer_manager" where
  "TimerManager_addToActiveList client s =
     (let (xs, s1) = add_walk client (m_counters s) s in s1\<lparr>m_counters := xs\<rparr>)"

definition TimerManager_attach :: "addr \<Rightarrow> timer_manager \<Rightarrow> timer_manager" where
  "TimerManager_attach client s =
     (if m_inTickCall s then s\<lparr>m_pendingAttach := m_pendingAttach s @ [client]\<rparr>
      else TimerManager_addToActiveList client s)"

fun next_of :: "addr \<Rightarrow> addr list \<Rightarrow> addr option" where
  "next_of x [] = None"
| "next_of x (y # ys) = (if x = y then (case ys of [] \<Rightarrow> None | z # _ \<Rightarrow> Some z) else next_of x ys)"

definition TimerManager_detach :: "addr \<Rightarrow> timer_manager \<Rightarrow> bool \<times> timer_manager" where
  "TimerManager_detach client s =
     (if client \<in> set (m_pendingAttach s)
      then (True, s\<lparr>m_pendingAttach := remove1 client (m_pendingAttach s)\<rparr>)
      else if client \<in> set (m_counters s)
      then let s1 = (case next_of client (m_counters s) of
                       None \<Rightarrow> s | Some n \<Rightarrow> Timer_increment n (m_count s client) s)
           in (True, s1\<lparr>m_counters := remove1 client (m_counters s)\<rparr>)
      else (False, s))"

definition TimerManager_msecToCounts :: "u32 \<Rightarrow> u32 \<Rightarrow> timer_manager \<Rightarrow> u32" where
  "TimerManager_msecToCounts milliseconds now s = milliseconds + deltaMilliseconds (m_timeNow s) now"

section \<open>Timers\<close>

definition Timer_start :: "addr \<Rightarrow> u32 \<Rightarrow> u32 \<Rightarrow> timer_manager \<Rightarrow> timer_manager" where
  "Timer_start t duration now s =
     (let s1 = snd (TimerManager_detach t s);
          s2 = s1\<lparr>m_count := (m_count s1)(t := TimerManager_msecToCounts duration now s1)\<rparr>
      in TimerManager_attach t s2)"

definition Timer_stop :: "addr \<Rightarrow> timer_manager \<Rightarrow> timer_manager" where
  "Timer_stop t s = snd (TimerManager_detach t s)"

text \<open>What a callback does with timers, and what is recorded of a run.\<close>

datatype timer_call = Start addr u32 u32 | Stop addr

datatype timer_event = Expired addr | Called timer_call

fun run_call :: "timer_call \<Rightarrow> timer_manager \<Rightarrow> timer_manager" where
  "run_call (Start t duration now) s = Timer_start t duration now s"
| "run_call (Stop t) s = Timer_stop t s"

fun run_calls :: "timer_call list \<Rightarrow> timer_manager \<Rightarrow> timer_manager" where
  "run_calls [] s = s"
| "run_calls (c # cs) s = run_calls cs (run_call c s)"

type_synonym 'w callback = "addr \<Rightarrow> 'w \<Rightarrow> timer_call list \<times> 'w"

section \<open>Ticks\<close>

partial_function (option) TimerManager_expire_all ::
    "'w callback \<Rightarrow> 'w \<Rightarrow> timer_manager \<Rightarrow> (timer_event list \<times> 'w \<times> timer_manager) option" where
  "TimerManager_expire_all expired w s =
     (case m_counters s of
        [] \<Rightarrow> Some ([], w, s)
      | counter # rest \<Rightarrow>
          if m_count s counter = 0 then do {
            let (calls, w1) = expired counter w;
            (log, w2, s2) \<leftarrow> TimerManager_expire_all expired w1 (run_calls calls (s\<lparr>m_counters := rest\<rparr>));
            Some (Expired counter # map Called calls @ log, w2, s2)
          } else Some ([], w, s))"

partial_function (option) TimerManager_tick_loop ::
    "'w callback \<Rightarrow> 'w \<Rightarrow> u32 \<Rightarrow> timer_manager \<Rightarrow> (timer_event list \<times> 'w \<times> timer_manager) option" where
  "TimerManager_tick_loop expired w msec s =
     (if msec = 0 then Some ([], w, s)
      else case m_counters s of
        [] \<Rightarrow> Some ([], w, s)
      | counter # rest \<Rightarrow> do {
          let nextCount = m_count s counter;
          let (s1, msec1) = (if msec \<le> nextCount then (Timer_decrement counter msec s, 0)
                             else (Timer_decrement counter nextCount s, msec - nextCount));
          (log1, w1, s2) \<leftarrow> TimerManager_expire_all expired w s1;
          (log2, w2, s3) \<leftarrow> TimerManager_tick_loop expired w1 msec1 s2;
          Some (log1 @ log2, w2, s3)
        })"

definition TimerManager_tick ::
    "'w callback \<Rightarrow> 'w \<Rightarrow> u32 \<Rightarrow> timer_manager \<Rightarrow> (timer_event list \<times> 'w \<times> timer_manager) option" where
  "TimerManager_tick expired w msec s = TimerManager_tick_loop expired w msec (s\<lparr>m_inTickCall := True\<rparr>)"

fun add_pending :: "addr list \<Rightarrow> timer_manager \<Rightarrow> timer_manager" where
  "add_pending [] s = s\<lparr>m_pendingAttach := []\<rparr>"
| "add_pending (p # ps) s = add_pending ps (TimerManager_addToActiveList p (s\<lparr>m_pendingAttach := ps\<rparr>))"

definition TimerManager_tickComplete :: "timer_manager \<Rightarrow> timer_manager" where
  "TimerManager_tickComplete s = (add_pending (m_pendingAttach s) s)\<lparr>m_inTickCall := False\<rparr>"

definition TimerManager_processTimers ::
    "'w callback \<Rightarrow> 'w \<Rightarrow> u32 \<Rightarrow> timer_manager \<Rightarrow> (timer_event list \<times> 'w \<times> timer_manager) option" where
  "TimerManager_processTimers expired w now s = do {
     let s1 = s\<lparr>m_timeNow := now\<rparr>;
     let deltaTime = deltaMilliseconds (m_timeMark s1) (m_timeNow s1);
     (log, w1, s2) \<leftarrow> TimerManager_tick expired w deltaTime s1;
     Some (log, w1, TimerManager_tickComplete (s2\<lparr>m_timeMark := m_timeNow s2\<rparr>))
   }"

section \<open>Remaining times\<close>

text \<open>The time that remains of a timer is the sum of the counts up to it.\<close>

fun remaining_in :: "(addr \<Rightarrow> u32) \<Rightarrow> addr list \<Rightarrow> addr \<Rightarrow> nat" where
  "remaining_in c [] x = 0"
| "remaining_in c (y # ys) x = unat (c y) + (if x = y then 0 else remaining_in c ys x)"

abbreviation remaining :: "timer_manager \<Rightarrow> addr \<Rightarrow> nat" where
  "remaining s x \<equiv> remaining_in (m_count s) (m_counters s) x"

definition timers_ok :: "timer_manager \<Rightarrow> bool" where
  "timers_ok s \<longleftrightarrow> distinct (m_counters s @ m_pendingAttach s) \<and> (\<forall>x\<in>set (m_counters s). remaining s x < 2 ^ 32)"

lemma remaining_cong: "(\<And>y. y \<in> set xs \<Longrightarrow> c y = c' y) \<Longrightarrow> x \<in> set xs \<Longrightarrow> remaining_in c xs x = remaining_in c' xs x"
  by (induction xs) auto

lemmas timer_step_defs = Timer_decrement_def Timer_increment_def

text \<open>An inserted timer has the time it was given, and the others keep theirs.\<close>

definition inserted :: "addr \<Rightarrow> addr list \<Rightarrow> timer_manager \<Rightarrow> addr list \<Rightarrow> timer_manager \<Rightarrow> bool" where
  "inserted x xs s ys s' \<longleftrightarrow>
     set ys = insert x (set xs) \<and> distinct ys \<and> remaining_in (m_count s') ys x = unat (m_count s x) \<and>
     (\<forall>z\<in>set xs. remaining_in (m_count s') ys z = remaining_in (m_count s) xs z) \<and>
     (\<exists>c. s' = s\<lparr>m_count := c\<rparr> \<and> (\<forall>z. z \<notin> insert x (set xs) \<longrightarrow> c z = m_count s z))"

lemma add_walk_inserts:
  "x \<notin> set xs \<Longrightarrow> distinct xs \<Longrightarrow> add_walk x xs s = (ys, s') \<Longrightarrow> inserted x xs s ys s'"
proof (induction x xs s arbitrary: ys s' rule: add_walk.induct)
  case (1 client s)
  then show ?case by (auto simp: inserted_def intro: exI [of _ "m_count s"])
next
  case (2 client counter rest s)
  note ne = \<open>client \<notin> set (counter # rest)\<close> and dist = \<open>distinct (counter # rest)\<close>
  show ?case
  proof (cases "m_count s client < m_count s counter")
    case True
    then have "unat (m_count s counter - m_count s client) + unat (m_count s client) = unat (m_count s counter)"
      by (simp add: unat_sub less_imp_le word_less_nat_alt)
    moreover have "z \<in> set rest \<Longrightarrow> remaining_in ((m_count s)(counter := v)) rest z = remaining_in (m_count s) rest z" for z v
      using dist by (intro remaining_cong) auto
    ultimately show ?thesis
      using 2(2-4) True by (auto simp: inserted_def timer_step_defs)
  next
    case False
    define s1 where "s1 = Timer_decrement client (m_count s counter) s"
    have c1: "m_count s1 client = m_count s client - m_count s counter" "z \<noteq> client \<Longrightarrow> m_count s1 z = m_count s z" for z
      by (simp_all add: s1_def timer_step_defs)
    have upd: "s1 = s\<lparr>m_count := m_count s1\<rparr>" by (simp add: s1_def timer_step_defs)
    have sub: "unat (m_count s1 client) + unat (m_count s counter) = unat (m_count s client)"
      using False by (simp add: c1 unat_sub word_le_nat_alt not_less)
    have rest: "z \<in> set rest \<Longrightarrow> remaining_in (m_count s1) rest z = remaining_in (m_count s) rest z" for z
      using ne by (intro remaining_cong) (auto intro!: c1(2))
    show ?thesis
    proof (cases "m_count s1 client = 0")
      case True
      then have "ys = counter # client # rest" "s' = s1" using 2(4) False by (simp_all add: s1_def Let_def)
      with True sub ne dist c1 rest upd show ?thesis by (auto simp: inserted_def intro!: exI [of _ "m_count s1"])
    next
      case ne0: False
      obtain zs s2 where w: "add_walk client rest s1 = (zs, s2)" by (cases "add_walk client rest s1")
      then have ys: "ys = counter # zs" "s' = s2" using 2(4) False ne0 by (simp_all add: s1_def Let_def)
      have "inserted client rest s1 zs s2"
        using 2(1) [OF False s1_def ne0 _ _ w] ne dist by simp
      then obtain c where c: "s2 = s1\<lparr>m_count := c\<rparr>" "\<forall>z. z \<notin> insert client (set rest) \<longrightarrow> c z = m_count s1 z"
        "set zs = insert client (set rest)" "distinct zs" "remaining_in c zs client = unat (m_count s1 client)"
        "\<forall>z\<in>set rest. remaining_in c zs z = remaining_in (m_count s1) rest z"
        unfolding inserted_def by auto
      have "c counter = m_count s counter" using c(2) ne dist c1 by auto
      moreover have "s2 = s\<lparr>m_count := c\<rparr>" using c(1) upd by (metis timer_manager.surjective timer_manager.update_convs(6))
      ultimately show ?thesis
        using sub ne dist c c1 rest unfolding inserted_def ys by (auto intro!: exI [of _ c])
    qed
  qed
qed

text \<open>Removing a timer gives its time to the one behind it, so that the others keep theirs.\<close>

lemma next_of_in: "next_of x xs = Some n \<Longrightarrow> n \<in> set xs"
  by (induction xs) (auto split: if_splits list.splits)

lemma remaining_remove1:
  assumes "distinct xs" and "x \<in> set xs" and "\<forall>z\<in>set xs. remaining_in c xs z < 2 ^ 32"
    and "z \<in> set xs" and "z \<noteq> x"
  shows "remaining_in (case next_of x xs of None \<Rightarrow> c | Some n \<Rightarrow> c(n := c n + c x)) (remove1 x xs) z = remaining_in c xs z"
  using assms
proof (induction xs)
  case (Cons y ys)
  show ?case
  proof (cases "x = y")
    case True
    then obtain n zs where ys: "ys = n # zs" using Cons.prems by (cases ys) auto
    have "unat (c y) + unat (c n) < 2 ^ 32" using Cons.prems(3) ys Cons.prems(1) by (auto split: if_splits)
    then have "unat (c n + c y) = unat (c n) + unat (c y)" by (intro unat_add_lem [THEN iffD1]) simp
    moreover have "remaining_in (c(n := c n + c y)) zs z = remaining_in c zs z" if "z \<noteq> n"
      using that Cons.prems ys True by (intro remaining_cong) auto
    ultimately show ?thesis using Cons.prems ys True by (auto simp: fun_upd_def)
  next
    case False
    have "\<forall>z\<in>set ys. remaining_in c ys z < 2 ^ 32"
      using Cons.prems(1,3) by (auto split: if_splits dest!: bspec)
    then have IH: "z \<noteq> y \<Longrightarrow> remaining_in (case next_of x ys of None \<Rightarrow> c | Some n \<Rightarrow> c(n := c n + c x)) (remove1 x ys) z = remaining_in c ys z"
      using Cons False by auto
    have "(case next_of x ys of None \<Rightarrow> c | Some n \<Rightarrow> c(n := c n + c x)) y = c y"
      using Cons.prems(1) next_of_in [of x ys] by (auto split: option.split)
    with IH False show ?thesis by auto
  qed
qed simp

section \<open>What a tick does\<close>

fun about :: "timer_call \<Rightarrow> addr" where
  "about (Start t d now) = t"
| "about (Stop t) = t"

fun expired_in :: "timer_event list \<Rightarrow> addr list" where
  "expired_in [] = []"
| "expired_in (Expired x # es) = x # expired_in es"
| "expired_in (Called c # es) = expired_in es"

fun last_call :: "addr \<Rightarrow> timer_event list \<Rightarrow> timer_call option" where
  "last_call x [] = None"
| "last_call x (e # es) =
     (case last_call x es of
        Some c \<Rightarrow> Some c
      | None \<Rightarrow> (case e of Called c \<Rightarrow> (if about c = x then Some c else None) | Expired y \<Rightarrow> None))"

text \<open>No timer expires twice, and none expires after it was stopped or started again.\<close>

fun well_logged :: "timer_event list \<Rightarrow> bool" where
  "well_logged [] \<longleftrightarrow> True"
| "well_logged (Expired x # es) \<longleftrightarrow> x \<notin> set (expired_in es) \<and> well_logged es"
| "well_logged (Called c # es) \<longleftrightarrow> about c \<notin> set (expired_in es) \<and> well_logged es"

lemma expired_in_append [simp]: "expired_in (xs @ ys) = expired_in xs @ expired_in ys"
  by (induction xs rule: expired_in.induct) simp_all

lemma last_call_append [simp]:
  "last_call x (xs @ ys) = (case last_call x ys of Some c \<Rightarrow> Some c | None \<Rightarrow> last_call x xs)"
  by (induction xs) (auto split: option.splits)

lemma last_call_about: "last_call x es = Some c \<Longrightarrow> about c = x"
  by (induction es) (auto split: option.splits timer_event.splits if_splits)

lemma well_logged_append:
  "well_logged xs \<Longrightarrow> well_logged ys \<Longrightarrow> (\<And>x. x \<in> set (expired_in xs) \<or> last_call x xs \<noteq> None \<Longrightarrow> x \<notin> set (expired_in ys)) \<Longrightarrow>
   well_logged (xs @ ys)"
proof (induction xs rule: well_logged.induct)
  case (3 c es)
  then have "about c \<notin> set (expired_in ys)" by (auto split: option.splits)
  moreover have "well_logged (es @ ys)"
  proof (rule 3(1))
    fix x assume "x \<in> set (expired_in es) \<or> last_call x es \<noteq> None"
    then show "x \<notin> set (expired_in ys)" using 3(4) [of x] by auto
  qed (use 3 in simp_all)
  ultimately show ?case using 3 by simp
next
  case (2 x es)
  have "well_logged (es @ ys)"
  proof (rule 2(1))
    fix y assume "y \<in> set (expired_in es) \<or> last_call y es \<noteq> None"
    then show "y \<notin> set (expired_in ys)" using 2(4) [of y] by auto
  qed (use 2 in simp_all)
  then show ?case using 2 by simp
qed simp

text \<open>What a part of a tick that consumes \<open>m\<close> milliseconds may do to the manager.\<close>

definition pending_after :: "timer_manager \<Rightarrow> timer_event list \<Rightarrow> timer_manager \<Rightarrow> addr \<Rightarrow> bool" where
  "pending_after s log s' x \<longleftrightarrow>
     (case last_call x log of
        None \<Rightarrow> (x \<in> set (m_pendingAttach s') \<longleftrightarrow> x \<in> set (m_pendingAttach s)) \<and>
                (x \<in> set (m_pendingAttach s) \<longrightarrow> m_count s' x = m_count s x)
      | Some (Start t d now) \<Rightarrow> x \<in> set (m_pendingAttach s') \<and> m_count s' x = d + (now - m_timeNow s)
      | Some (Stop t) \<Rightarrow> x \<notin> set (m_pendingAttach s'))"

definition tick_part :: "timer_manager \<Rightarrow> nat \<Rightarrow> timer_event list \<Rightarrow> timer_manager \<Rightarrow> bool" where
  "tick_part s m log s' \<longleftrightarrow>
     timers_ok s' \<and> m_inTickCall s' \<and> m_timeMark s' = m_timeMark s \<and> m_timeNow s' = m_timeNow s \<and>
     length (m_counters s') \<le> length (m_counters s) \<and>
     (\<forall>z\<in>set (m_counters s'). z \<in> set (m_counters s) \<and> remaining s z = remaining s' z + m \<and>
        last_call z log = None \<and> z \<notin> set (expired_in log)) \<and>
     (\<forall>z\<in>set (expired_in log). z \<in> set (m_counters s) \<and> remaining s z \<le> m) \<and>
     (\<forall>z\<in>set (m_counters s). z \<in> set (m_counters s') \<or> z \<in> set (expired_in log) \<or> last_call z log \<noteq> None) \<and>
     sorted (map (remaining s) (expired_in log)) \<and> well_logged log \<and> (\<forall>x. pending_after s log s' x)"

lemma tick_part_nil: "timers_ok s \<Longrightarrow> m_inTickCall s \<Longrightarrow> tick_part s 0 [] s"
  by (simp add: tick_part_def pending_after_def)

lemma pending_after_trans:
  assumes "pending_after s log1 s1 x" and "pending_after s1 log2 s2 x" and "m_timeNow s1 = m_timeNow s"
  shows "pending_after s (log1 @ log2) s2 x"
proof (cases "last_call x log2")
  case None
  show ?thesis
  proof (cases "last_call x log1")
    case None
    with \<open>last_call x log2 = None\<close> assms show ?thesis by (simp add: pending_after_def)
  next
    case (Some c)
    with None assms show ?thesis by (cases c) (simp_all add: pending_after_def)
  qed
next
  case (Some c)
  with assms show ?thesis by (cases c) (simp_all add: pending_after_def)
qed

lemma tick_part_trans:
  assumes a: "tick_part s m log1 s1" and b: "tick_part s1 n log2 s2"
  shows "tick_part s (m + n) (log1 @ log2) s2"
proof -
  note A = a [unfolded tick_part_def] and B = b [unfolded tick_part_def]
  have e2: "z \<in> set (m_counters s) \<and> remaining s z = remaining s1 z + m \<and> remaining s1 z \<le> n \<and> last_call z log1 = None \<and> z \<notin> set (expired_in log1)"
    if "z \<in> set (expired_in log2)" for z
    using A B that by blast
  have meq: "map (remaining s) (expired_in log2) = map (\<lambda>z. remaining s1 z + m) (expired_in log2)" using e2 by simp
  have "sorted (map (remaining s) (expired_in log2))" unfolding meq using B by (simp add: sorted_map)
  moreover have "remaining s x \<le> remaining s y" if "x \<in> set (expired_in log1)" "y \<in> set (expired_in log2)" for x y
    using A e2 [OF that(2)] that(1) by auto
  ultimately have "sorted (map (remaining s) (expired_in (log1 @ log2)))" using A by (simp add: sorted_append)
  moreover have "well_logged (log1 @ log2)" using A B e2 by (intro well_logged_append) auto
  moreover have "pending_after s (log1 @ log2) s2 x" for x
    using A B by (intro pending_after_trans [of s log1 s1 x log2 s2]) simp_all
  ultimately show ?thesis
    unfolding tick_part_def using A B e2 by (auto split: option.splits)
qed


text \<open>The steps of a tick: the head is counted down, a timer at zero is taken out, a callback makes a call.\<close>

lemma remaining_head: "x \<in> set (y # ys) \<Longrightarrow> unat (c y) \<le> remaining_in c (y # ys) x"
  by simp

lemma tick_part_decrement:
  assumes ok: "timers_ok s" "m_inTickCall s" and head: "m_counters s = counter # rest" and m: "m \<le> m_count s counter"
  shows "tick_part s (unat m) [] (Timer_decrement counter m s)"
proof -
  let ?s = "Timer_decrement counter m s"
  have sub: "unat (m_count s counter - m) + unat m = unat (m_count s counter)" using m by (simp add: unat_sub word_le_nat_alt)
  have dist: "counter \<notin> set rest" "counter \<notin> set (m_pendingAttach s)" using ok head by (auto simp: timers_ok_def)
  have rest: "remaining_in ((m_count s)(counter := v)) rest z = remaining_in (m_count s) rest z" if "z \<in> set rest" for z v
    using that dist by (intro remaining_cong) auto
  have rem: "remaining s z = remaining ?s z + unat m" if "z \<in> set (m_counters s)" for z
    using that sub head rest by (auto simp: Timer_decrement_def)
  then have "timers_ok ?s" using ok by (auto simp: timers_ok_def Timer_decrement_def dest!: bspec)
  then show ?thesis
    using ok rem dist by (auto simp: tick_part_def pending_after_def) (auto simp: Timer_decrement_def)
qed

lemma tick_part_expire:
  assumes ok: "timers_ok s" "m_inTickCall s" and head: "m_counters s = counter # rest" and z: "m_count s counter = 0"
  shows "tick_part s 0 [Expired counter] (s\<lparr>m_counters := rest\<rparr>)"
proof -
  have "timers_ok (s\<lparr>m_counters := rest\<rparr>)" using ok head z by (auto simp: timers_ok_def split: if_splits)
  then show ?thesis
    using ok head z by (auto simp: tick_part_def pending_after_def timers_ok_def split: if_splits)
qed

lemma detach_correct:
  assumes ok: "timers_ok s" and d: "TimerManager_detach x s = (b, s')"
  shows "timers_ok s'" and "set (m_counters s') = set (m_counters s) - {x}"
    and "set (m_pendingAttach s') = set (m_pendingAttach s) - {x}"
    and "z \<in> set (m_counters s') \<Longrightarrow> remaining s' z = remaining s z"
    and "z \<notin> set (m_counters s) \<Longrightarrow> m_count s' z = m_count s z"
    and "m_inTickCall s' = m_inTickCall s" and "m_timeMark s' = m_timeMark s" and "m_timeNow s' = m_timeNow s"
    and "length (m_counters s') \<le> length (m_counters s)"
proof -
  have dist: "distinct (m_counters s)" "distinct (m_pendingAttach s)" "set (m_counters s) \<inter> set (m_pendingAttach s) = {}"
    and lim: "\<forall>z\<in>set (m_counters s). remaining s z < 2 ^ 32" using ok by (auto simp: timers_ok_def)
  consider "x \<in> set (m_pendingAttach s)" | "x \<notin> set (m_pendingAttach s)" "x \<in> set (m_counters s)"
    | "x \<notin> set (m_pendingAttach s)" "x \<notin> set (m_counters s)" by blast
  then have "timers_ok s' \<and> set (m_counters s') = set (m_counters s) - {x} \<and> set (m_pendingAttach s') = set (m_pendingAttach s) - {x} \<and>
    (\<forall>z\<in>set (m_counters s'). remaining s' z = remaining s z) \<and> (\<forall>z. z \<notin> set (m_counters s) \<longrightarrow> m_count s' z = m_count s z) \<and>
    m_inTickCall s' = m_inTickCall s \<and> m_timeMark s' = m_timeMark s \<and> m_timeNow s' = m_timeNow s \<and>
    length (m_counters s') \<le> length (m_counters s)"
  proof cases
    case 1
    then have "s' = s\<lparr>m_pendingAttach := remove1 x (m_pendingAttach s)\<rparr>" using d by (simp add: TimerManager_detach_def)
    then show ?thesis using 1 ok dist by (auto simp: timers_ok_def)
  next
    case 2
    define c where "c = (case next_of x (m_counters s) of None \<Rightarrow> m_count s | Some n \<Rightarrow> (m_count s)(n := m_count s n + m_count s x))"
    have s': "s' = s\<lparr>m_count := c, m_counters := remove1 x (m_counters s)\<rparr>"
      using d 2 by (auto simp: TimerManager_detach_def c_def Timer_increment_def Let_def split: option.splits)
    have rem: "remaining s' z = remaining s z" if "z \<in> set (remove1 x (m_counters s))" for z
      using remaining_remove1 [OF dist(1) 2(2) lim, of z] that dist(1) unfolding s' c_def by (cases "z = x") auto
    have "c z = m_count s z" if "z \<notin> set (m_counters s)" for z
      using that next_of_in [of x "m_counters s"] by (auto simp: c_def split: option.splits)
    moreover have "timers_ok s'" using rem dist lim unfolding timers_ok_def by (auto simp: s')
    ultimately show ?thesis using 2 dist rem by (auto simp: s' length_remove1)
  next
    case 3
    then show ?thesis using d ok by (auto simp: TimerManager_detach_def)
  qed
  then show "timers_ok s'" and "set (m_counters s') = set (m_counters s) - {x}"
    and "set (m_pendingAttach s') = set (m_pendingAttach s) - {x}"
    and "z \<in> set (m_counters s') \<Longrightarrow> remaining s' z = remaining s z"
    and "z \<notin> set (m_counters s) \<Longrightarrow> m_count s' z = m_count s z"
    and "m_inTickCall s' = m_inTickCall s" and "m_timeMark s' = m_timeMark s" and "m_timeNow s' = m_timeNow s"
    and "length (m_counters s') \<le> length (m_counters s)" by auto
qed

lemma tick_part_call:
  assumes ok: "timers_ok s" "m_inTickCall s"
  shows "tick_part s 0 [Called c] (run_call c s)"
proof -
  obtain b s1 where d: "TimerManager_detach (about c) s = (b, s1)" by (cases "TimerManager_detach (about c) s")
  note D = detach_correct [OF ok(1) d]
  show ?thesis
  proof (cases c)
    case (Stop t)
    then have "run_call c s = s1" using d by (simp add: Timer_stop_def)
    moreover have "pending_after s [Called c] s1 x" for x
      using D(3,5) ok Stop by (auto simp: pending_after_def timers_ok_def)
    ultimately show ?thesis using D ok Stop by (auto simp: tick_part_def)
  next
    case (Start t duration now)
    let ?n = "duration + (now - m_timeNow s)"
    let ?s = "s1\<lparr>m_count := (m_count s1)(t := ?n), m_pendingAttach := m_pendingAttach s1 @ [t]\<rparr>"
    have r: "run_call c s = ?s"
      using d Start ok D(6,8)
      by (simp add: Timer_start_def TimerManager_attach_def TimerManager_msecToCounts_def deltaMilliseconds_def)
    have rem: "remaining ?s z = remaining s z" if "z \<in> set (m_counters s1)" for z
    proof -
      have "remaining ?s z = remaining s1 z" using that D(2) Start by (simp, intro remaining_cong) auto
      then show ?thesis using D(4) [OF that] by simp
    qed
    have "timers_ok ?s" using D(1-4) Start rem ok by (auto simp: timers_ok_def)
    moreover have "pending_after s [Called c] ?s x" for x
      using D(3,5) ok Start by (auto simp: pending_after_def timers_ok_def)
    ultimately show ?thesis unfolding r using D ok Start rem by (auto simp: tick_part_def)
  qed
qed

lemma tick_part_calls: "timers_ok s \<Longrightarrow> m_inTickCall s \<Longrightarrow> tick_part s 0 (map Called cs) (run_calls cs s)"
proof (induction cs arbitrary: s)
  case (Cons c cs)
  note c = tick_part_call [OF Cons.prems, of c]
  then have "tick_part (run_call c s) 0 (map Called cs) (run_calls cs (run_call c s))"
    by (intro Cons.IH) (simp_all add: tick_part_def)
  from tick_part_trans [OF c this] show ?case by simp
qed (simp add: tick_part_nil)

text \<open>The loop over the timers at zero returns, and leaves no timer at zero.\<close>

lemma expire_all_returns:
  assumes "timers_ok s" and "m_inTickCall s"
  shows "\<exists>log w' s'. TimerManager_expire_all expired w s = Some (log, w', s') \<and> tick_part s 0 log s' \<and>
    (\<forall>z\<in>set (m_counters s'). 0 < remaining s' z) \<and>
    (\<forall>counter rest. m_counters s = counter # rest \<and> m_count s counter = 0 \<longrightarrow> length (m_counters s') < length (m_counters s))"
  using assms
proof (induction "length (m_counters s)" arbitrary: s w rule: less_induct)
  case less
  show ?case
  proof (cases "m_counters s")
    case Nil
    then show ?thesis using less.prems by (subst TimerManager_expire_all.simps) (simp add: tick_part_nil)
  next
    case (Cons counter rest)
    show ?thesis
    proof (cases "m_count s counter = 0")
      case False
      then have "0 < unat (m_count s counter)" by (simp add: unat_gt_0)
      then have "\<forall>z\<in>set (m_counters s). 0 < remaining s z" using Cons by auto
      then show ?thesis
        using False Cons less.prems by (subst TimerManager_expire_all.simps) (simp add: tick_part_nil)
    next
      case True
      obtain calls w1 where e: "expired counter w = (calls, w1)" by (cases "expired counter w")
      let ?s0 = "s\<lparr>m_counters := rest\<rparr>" and ?s1 = "run_calls calls (s\<lparr>m_counters := rest\<rparr>)"
      have p0: "tick_part s 0 [Expired counter] ?s0" by (rule tick_part_expire [OF less.prems Cons True])
      then have p1: "tick_part ?s0 0 (map Called calls) ?s1" by (intro tick_part_calls) (simp_all add: tick_part_def)
      then have len: "length (m_counters ?s1) < length (m_counters s)" using Cons by (simp add: tick_part_def)
      from p1 have "timers_ok ?s1" "m_inTickCall ?s1" by (simp_all add: tick_part_def)
      from less.hyps [OF len this, of w1] obtain log w' s' where
        IH: "TimerManager_expire_all expired w1 ?s1 = Some (log, w', s')" "tick_part ?s1 0 log s'"
        "\<forall>z\<in>set (m_counters s'). 0 < remaining s' z" by blast
      have "tick_part s 0 (Expired counter # map Called calls @ log) s'"
        using tick_part_trans [OF tick_part_trans [OF p0 p1] IH(2)] by simp
      moreover have "TimerManager_expire_all expired w s = Some (Expired counter # map Called calls @ log, w', s')"
        using Cons True e IH(1) by (subst TimerManager_expire_all.simps) simp
      moreover have "length (m_counters s') < length (m_counters s)" using IH(2) len by (simp add: tick_part_def)
      ultimately show ?thesis using IH(3) by blast
    qed
  qed
qed

lemma tick_loop_returns:
  assumes "timers_ok s" and "m_inTickCall s"
  shows "\<exists>log w' s'. TimerManager_tick_loop expired w msec s = Some (log, w', s') \<and> tick_part s (unat msec) log s' \<and>
    (msec \<noteq> 0 \<longrightarrow> (\<forall>z\<in>set (m_counters s'). 0 < remaining s' z))"
  using assms
proof (induction "length (m_counters s)" arbitrary: s w msec rule: less_induct)
  case less
  consider "msec = 0" | "msec \<noteq> 0" "m_counters s = []" | counter rest where "msec \<noteq> 0" "m_counters s = counter # rest"
    by (cases "m_counters s") auto
  then show ?case
  proof cases
    case 1
    then show ?thesis using less.prems by (subst TimerManager_tick_loop.simps) (simp add: tick_part_nil)
  next
    case 2
    then have "tick_part s (unat msec) [] s" using less.prems by (simp add: tick_part_def pending_after_def)
    with 2 show ?thesis by (subst TimerManager_tick_loop.simps) simp
  next
    case 3
    define m where "m = (if msec \<le> m_count s counter then msec else m_count s counter)"
    define s1 where "s1 = Timer_decrement counter m s"
    have "m \<le> m_count s counter" "m \<le> msec" by (auto simp: m_def)
    have p0: "tick_part s (unat m) [] s1"
      unfolding s1_def by (rule tick_part_decrement [OF less.prems 3(2) \<open>m \<le> m_count s counter\<close>])
    then have s1: "timers_ok s1" "m_inTickCall s1" by (simp_all add: tick_part_def)
    obtain log1 w1 s2 where e: "TimerManager_expire_all expired w s1 = Some (log1, w1, s2)" "tick_part s1 0 log1 s2"
      "\<forall>z\<in>set (m_counters s2). 0 < remaining s2 z"
      "\<forall>counter rest. m_counters s1 = counter # rest \<and> m_count s1 counter = 0 \<longrightarrow> length (m_counters s2) < length (m_counters s1)"
      using expire_all_returns [OF s1, of expired w] by blast
    have s2: "timers_ok s2" "m_inTickCall s2" using e(2) by (simp_all add: tick_part_def)
    have p1: "tick_part s (unat m) log1 s2" using tick_part_trans [OF p0 e(2)] by simp
    have loop: "TimerManager_tick_loop expired w msec s =
        map_option (\<lambda>(log2, w2, s3). (log1 @ log2, w2, s3)) (TimerManager_tick_loop expired w1 (msec - m) s2)"
      using 3 e(1) by (subst TimerManager_tick_loop.simps)
        (auto simp: m_def s1_def split: option.splits intro!: arg_cong [where f = "map_option _"] simp: map_option_case bind_eq_None_conv)
    have rest: "unat (msec - m) + unat m = unat msec" using \<open>m \<le> msec\<close> by (simp add: unat_sub word_le_nat_alt)
    have "\<exists>log2 w2 s3. TimerManager_tick_loop expired w1 (msec - m) s2 = Some (log2, w2, s3) \<and>
        tick_part s2 (unat (msec - m)) log2 s3 \<and> (\<forall>z\<in>set (m_counters s3). 0 < remaining s3 z)"
    proof (cases "msec - m = 0")
      case True
      then show ?thesis using s2 e(3) by (subst TimerManager_tick_loop.simps) (simp add: tick_part_nil)
    next
      case False
      then have "m = m_count s counter" by (auto simp: m_def split: if_splits)
      then have "length (m_counters s2) < length (m_counters s)"
        using e(4) 3(2) by (auto simp: s1_def Timer_decrement_def)
      from less.hyps [OF this s2, of w1 "msec - m"] False show ?thesis by blast
    qed
    then obtain log2 w2 s3 where r: "TimerManager_tick_loop expired w1 (msec - m) s2 = Some (log2, w2, s3)"
      "tick_part s2 (unat (msec - m)) log2 s3" "\<forall>z\<in>set (m_counters s3). 0 < remaining s3 z" by blast
    from tick_part_trans [OF p1 r(2)] rest have "tick_part s (unat msec) (log1 @ log2) s3" by (simp add: add.commute)
    with loop r show ?thesis by auto
  qed
qed

section \<open>Attaching and the end of a tick\<close>

lemma addToActiveList_correct:
  assumes "timers_ok s" and "x \<notin> set (m_counters s)" and "x \<notin> set (m_pendingAttach s)"
  shows "\<exists>ys c. TimerManager_addToActiveList x s = s\<lparr>m_count := c, m_counters := ys\<rparr> \<and>
    set ys = insert x (set (m_counters s)) \<and> distinct ys \<and> remaining_in c ys x = unat (m_count s x) \<and>
    (\<forall>z\<in>set (m_counters s). remaining_in c ys z = remaining s z) \<and>
    (\<forall>z. z \<notin> insert x (set (m_counters s)) \<longrightarrow> c z = m_count s z)"
proof -
  obtain ys s' where w: "add_walk x (m_counters s) s = (ys, s')" by (cases "add_walk x (m_counters s) s")
  have i: "inserted x (m_counters s) s ys s'" using add_walk_inserts [OF _ _ w] assms by (simp add: timers_ok_def)
  then obtain c where c: "s' = s\<lparr>m_count := c\<rparr>" "\<forall>z. z \<notin> insert x (set (m_counters s)) \<longrightarrow> c z = m_count s z"
    unfolding inserted_def by blast
  with w i show ?thesis
    by (intro exI [of _ ys] exI [of _ c]) (simp add: inserted_def TimerManager_addToActiveList_def)
qed

lemma add_pending_correct:
  assumes "timers_ok s" and "m_pendingAttach s = ps"
  shows "\<exists>ys c. add_pending ps s = s\<lparr>m_count := c, m_counters := ys, m_pendingAttach := []\<rparr> \<and>
    set ys = set ps \<union> set (m_counters s) \<and> distinct ys \<and>
    (\<forall>z\<in>set ps. remaining_in c ys z = unat (m_count s z)) \<and> (\<forall>z\<in>set (m_counters s). remaining_in c ys z = remaining s z)"
  using assms
proof (induction ps arbitrary: s)
  case Nil
  then show ?case by (auto simp: timers_ok_def intro!: exI [of _ "m_counters s"] exI [of _ "m_count s"])
next
  case (Cons p ps)
  let ?s = "s\<lparr>m_pendingAttach := ps\<rparr>"
  have "timers_ok ?s" "p \<notin> set (m_counters ?s)" "p \<notin> set (m_pendingAttach ?s)" using Cons.prems by (auto simp: timers_ok_def)
  from addToActiveList_correct [OF this] obtain ys c where a:
    "TimerManager_addToActiveList p ?s = ?s\<lparr>m_count := c, m_counters := ys\<rparr>" "set ys = insert p (set (m_counters s))"
    "distinct ys" "remaining_in c ys p = unat (m_count s p)" "\<forall>z\<in>set (m_counters s). remaining_in c ys z = remaining s z"
    "\<forall>z. z \<notin> insert p (set (m_counters s)) \<longrightarrow> c z = m_count s z" by auto
  let ?t = "?s\<lparr>m_count := c, m_counters := ys\<rparr>"
  have lim: "unat (m_count s p) < 2 ^ 32" using unat_bound [of "m_count s p"] by simp
  have "timers_ok ?t"
    using Cons.prems a(2-5) lim by (auto simp: timers_ok_def)
  from Cons.IH [OF this] obtain zs d where b: "add_pending ps ?t = ?t\<lparr>m_count := d, m_counters := zs, m_pendingAttach := []\<rparr>"
    "set zs = set ps \<union> set ys" "distinct zs" "\<forall>z\<in>set ps. remaining_in d zs z = unat (c z)"
    "\<forall>z\<in>set ys. remaining_in d zs z = remaining_in c ys z" by auto
  have "\<forall>z\<in>set ps. c z = m_count s z" using Cons.prems a(6) by (auto simp: timers_ok_def)
  then show ?case
    using a b by (intro exI [of _ zs] exI [of _ d]) (auto simp: a(1))
qed

definition idle :: "timer_manager \<Rightarrow> bool" where
  "idle s \<longleftrightarrow> timers_ok s \<and> m_pendingAttach s = [] \<and> \<not> m_inTickCall s"

text \<open>A run of the manager that consumes \<open>m\<close> milliseconds.\<close>

definition timers_advance :: "timer_manager \<Rightarrow> u32 \<Rightarrow> timer_event list \<Rightarrow> timer_manager \<Rightarrow> bool" where
  "timers_advance s now log s' \<longleftrightarrow>
     idle s' \<and> m_timeMark s' = now \<and> m_timeNow s' = now \<and> well_logged log \<and>
     sorted (map (remaining s) (expired_in log)) \<and>
     (\<forall>z\<in>set (expired_in log). z \<in> set (m_counters s) \<and> remaining s z \<le> unat (now - m_timeMark s)) \<and>
     (\<forall>z. case last_call z log of
        None \<Rightarrow>
          (if z \<in> set (m_counters s) \<and> unat (now - m_timeMark s) < remaining s z
           then z \<in> set (m_counters s') \<and> remaining s' z + unat (now - m_timeMark s) = remaining s z \<and> z \<notin> set (expired_in log)
           else z \<notin> set (m_counters s') \<and> (z \<in> set (m_counters s) \<longrightarrow> z \<in> set (expired_in log)))
      | Some (Start t d tm) \<Rightarrow> z \<in> set (m_counters s') \<and> remaining s' z = unat (d + (tm - now))
      | Some (Stop t) \<Rightarrow> z \<notin> set (m_counters s'))"

lemma processTimers_correct:
  assumes idle: "idle s" and now: "now \<noteq> m_timeMark s"
  shows "\<exists>log w' s'. TimerManager_processTimers expired w now s = Some (log, w', s') \<and> timers_advance s now log s'"
proof -
  define m where "m = now - m_timeMark s"
  have m: "m \<noteq> 0" using now by (simp add: m_def)
  let ?s0 = "s\<lparr>m_timeNow := now, m_inTickCall := True\<rparr>"
  have "timers_ok ?s0" "m_inTickCall ?s0" using idle by (auto simp: idle_def timers_ok_def)
  from tick_loop_returns [OF this, of expired w m] obtain log w' s1 where
    t: "TimerManager_tick_loop expired w m ?s0 = Some (log, w', s1)" "tick_part ?s0 (unat m) log s1"
      "\<forall>z\<in>set (m_counters s1). 0 < remaining s1 z" using m by blast
  let ?s2 = "s1\<lparr>m_timeMark := m_timeNow s1\<rparr>"
  have T: "timers_ok s1" "m_timeNow s1 = now"
    "\<And>z. z \<in> set (m_counters s1) \<Longrightarrow> z \<in> set (m_counters s) \<and> remaining s z = remaining s1 z + unat m \<and> last_call z log = None \<and> z \<notin> set (expired_in log)"
    "\<forall>z\<in>set (expired_in log). z \<in> set (m_counters s) \<and> remaining s z \<le> unat m"
    "\<forall>z\<in>set (m_counters s). z \<in> set (m_counters s1) \<or> z \<in> set (expired_in log) \<or> last_call z log \<noteq> None"
    "sorted (map (remaining s) (expired_in log))" "well_logged log" "\<And>x. pending_after ?s0 log s1 x"
    using t(2) unfolding tick_part_def by auto
  have "timers_ok ?s2" using T(1) by (simp add: timers_ok_def)
  from add_pending_correct [OF this refl] obtain ys c where
    a: "add_pending (m_pendingAttach s1) ?s2 = ?s2\<lparr>m_count := c, m_counters := ys, m_pendingAttach := []\<rparr>"
      "set ys = set (m_pendingAttach s1) \<union> set (m_counters s1)" "distinct ys"
      "\<forall>z\<in>set (m_pendingAttach s1). remaining_in c ys z = unat (m_count s1 z)"
      "\<forall>z\<in>set (m_counters s1). remaining_in c ys z = remaining s1 z" by auto
  define s' where "s' = ?s2\<lparr>m_count := c, m_counters := ys, m_pendingAttach := [], m_inTickCall := False\<rparr>"
  have run: "TimerManager_processTimers expired w now s = Some (log, w', s')"
    using t(1) a(1) by (simp add: TimerManager_processTimers_def TimerManager_tick_def TimerManager_tickComplete_def
        deltaMilliseconds_def m_def s'_def)
  have bound: "remaining s' z < 2 ^ 32" if "z \<in> set ys" for z
    using that a(2,4,5) T(1) unat_bound [of "m_count s1 z"] by (auto simp: s'_def timers_ok_def)
  have "idle s'" unfolding idle_def timers_ok_def using a(3) bound by (simp add: s'_def)
  moreover have "case last_call z log of
        None \<Rightarrow>
          (if z \<in> set (m_counters s) \<and> unat m < remaining s z
           then z \<in> set (m_counters s') \<and> remaining s' z + unat m = remaining s z \<and> z \<notin> set (expired_in log)
           else z \<notin> set (m_counters s') \<and> (z \<in> set (m_counters s) \<longrightarrow> z \<in> set (expired_in log)))
      | Some (Start t d tm) \<Rightarrow> z \<in> set (m_counters s') \<and> remaining s' z = unat (d + (tm - now))
      | Some (Stop t) \<Rightarrow> z \<notin> set (m_counters s')" for z
  proof (cases "last_call z log")
    case None
    then have pend: "z \<notin> set (m_pendingAttach s1)" using T(8) [of z] idle by (simp add: pending_after_def idle_def)
    show ?thesis
    proof (cases "z \<in> set (m_counters s1)")
      case True
      then show ?thesis using None T(3) [OF True] a(2,5) t(3) by (auto simp: s'_def)
    next
      case False
      then have "z \<notin> set ys" using pend a(2) by simp
      moreover have "z \<in> set (m_counters s) \<Longrightarrow> z \<in> set (expired_in log) \<and> remaining s z \<le> unat m"
        using None False T(4,5) by auto
      ultimately show ?thesis using None by (auto simp: s'_def)
    qed
  next
    case (Some call)
    then have "z \<notin> set (m_counters s1)" using T(3) [of z] by auto
    then show ?thesis
      using Some T(8) [of z] a(2,4) by (cases call) (auto simp: pending_after_def s'_def)
  qed
  moreover have "m_timeMark s' = now" "m_timeNow s' = now" by (simp_all add: s'_def T(2))
  ultimately have "timers_advance s now log s'"
    using T(4,6,7) unfolding timers_advance_def m_def by blast
  with run show ?thesis by blast
qed

lemma start_correct:
  assumes idle: "idle s"
  shows "idle (Timer_start t d now s)" and "t \<in> set (m_counters (Timer_start t d now s))"
    and "remaining (Timer_start t d now s) t = unat (d + (now - m_timeNow s))"
    and "set (m_counters (Timer_start t d now s)) = insert t (set (m_counters s))"
    and "z \<in> set (m_counters s) \<Longrightarrow> z \<noteq> t \<Longrightarrow> remaining (Timer_start t d now s) z = remaining s z"
    and "m_timeMark (Timer_start t d now s) = m_timeMark s" and "m_timeNow (Timer_start t d now s) = m_timeNow s"
proof -
  obtain b s1 where dt: "TimerManager_detach t s = (b, s1)" by (cases "TimerManager_detach t s")
  have ok: "timers_ok s" using idle by (simp add: idle_def)
  note D = detach_correct [OF ok dt]
  have p1: "m_pendingAttach s1 = []" using D(3) idle by (simp add: idle_def)
  let ?n = "d + (now - m_timeNow s)"
  let ?s2 = "s1\<lparr>m_count := (m_count s1)(t := ?n)\<rparr>"
  have keep: "remaining ?s2 z = remaining s1 z" if "z \<in> set (m_counters s1)" for z
    using that D(2) by (simp, intro remaining_cong) auto
  have ok2: "timers_ok ?s2" using D(1) keep by (auto simp: timers_ok_def)
  obtain ys c where a: "TimerManager_addToActiveList t ?s2 = ?s2\<lparr>m_count := c, m_counters := ys\<rparr>"
    "set ys = insert t (set (m_counters s1))" "distinct ys" "remaining_in c ys t = unat ?n"
    "\<forall>z\<in>set (m_counters s1). remaining_in c ys z = remaining s1 z"
    using addToActiveList_correct [OF ok2, of t] D(2,3) p1 keep by auto
  have st: "Timer_start t d now s = s1\<lparr>m_count := c, m_counters := ys\<rparr>"
    using dt D(6,8) idle a(1)
    by (simp add: Timer_start_def TimerManager_attach_def TimerManager_msecToCounts_def deltaMilliseconds_def idle_def)
  have bound: "remaining_in c ys z < 2 ^ 32" if "z \<in> set ys" for z
    using that a(2,4,5) D(1) unat_bound [of ?n] by (auto simp: timers_ok_def)
  show "idle (Timer_start t d now s)"
    unfolding st idle_def timers_ok_def using a(3) bound p1 D(6) idle by (simp add: idle_def)
  show "t \<in> set (m_counters (Timer_start t d now s))" "remaining (Timer_start t d now s) t = unat ?n"
    "set (m_counters (Timer_start t d now s)) = insert t (set (m_counters s))"
    "m_timeMark (Timer_start t d now s) = m_timeMark s" "m_timeNow (Timer_start t d now s) = m_timeNow s"
    unfolding st using a(2,4) D by auto
  show "remaining (Timer_start t d now s) z = remaining s z" if "z \<in> set (m_counters s)" "z \<noteq> t"
    unfolding st using a(5) D(2,4) that by auto
qed

section \<open>Properties\<close>

text \<open>
  C7. Timers expire when they are due and never after they were stopped.  A call of
  \<open>processTimers\<close> at a later clock value returns, whatever the expiration callbacks start and stop.
  Of the timers that no callback touches, those whose remaining time is at most the elapsed time
  expire and leave the list, and the others stay with exactly the elapsed time taken off; timers expire in
  the order of their remaining times, at most once, never early, and never after a callback has
  stopped or restarted them; a timer that a callback starts waits for its full duration
  from the time of that call; all clock arithmetic may wrap.
\<close>
theorem timers_expire_when_due:
  assumes "idle s" and "now \<noteq> m_timeMark s"
  shows "\<exists>log w' s'. TimerManager_processTimers expired w now s = Some (log, w', s') \<and> timers_advance s now log s'"
  by (rule processTimers_correct [OF assms])

definition two_timers :: timer_manager where
  "two_timers = \<lparr>m_counters = [1, 2], m_pendingAttach = [], m_timeMark = 100, m_timeNow = 100, m_inTickCall = False,
     m_count = (\<lambda>_. 0)(1 := 5, 2 := 7)\<rparr>"

lemma two_timers_idle: "idle two_timers"
  by (simp add: idle_def timers_ok_def two_timers_def)

theorem timers_expire_when_due_witness:
  "\<exists>log w' s'. TimerManager_processTimers (\<lambda>t w. ([Start t 20 106], w + 1)) (0 :: nat) 106 two_timers = Some (log, w', s') \<and>
     timers_advance two_timers 106 log s'"
  by (rule timers_expire_when_due [OF two_timers_idle]) (simp add: two_timers_def)

text \<open>
  C28. Starting a timer between two runs of the manager schedules it exactly: it expires once the
  clock has moved by the duration from the time of the call (the elapsed time since the
  last run included, modulo the width of the clock), all other timers keep their remaining times, and
  a running timer is rescheduled rather than entered twice.
\<close>
theorem timer_start_schedules:
  assumes "idle s" and "m_timeNow s = m_timeMark s" and "unat d + unat (now - m_timeMark s) < 2 ^ 32"
  shows "idle (Timer_start t d now s) \<and>
    set (m_counters (Timer_start t d now s)) = insert t (set (m_counters s)) \<and>
    remaining (Timer_start t d now s) t = unat d + unat (now - m_timeMark s) \<and>
    (\<forall>z\<in>set (m_counters s). z \<noteq> t \<longrightarrow> remaining (Timer_start t d now s) z = remaining s z)"
  using start_correct [OF assms(1), where t = t and d = d and now = now] assms(2,3) by (simp add: unat_add_lem [THEN iffD1])

theorem timer_start_schedules_witness:
  "remaining (Timer_start 3 8 103 two_timers) 3 = 11 \<and> remaining (Timer_start 3 8 103 two_timers) 2 = 12"
  using timer_start_schedules [OF two_timers_idle, of 8 103 3] by (simp add: two_timers_def)

text \<open>
  Before the first run of a manager the reference of the conversion is zero and not the time
  at which the manager was started: a timer started at \<open>now\<close> then waits until the clock has moved
  by \<open>d + now\<close> since the start of the manager.
\<close>

lemma first_start_is_late:
  "remaining (Timer_start t d now (TimerManager_startManager boot (TimerManager c))) t = unat (d + now)"
proof -
  have "idle (TimerManager_startManager boot (TimerManager c))"
    by (simp add: idle_def timers_ok_def TimerManager_startManager_def TimerManager_def)
  from start_correct(3) [OF this, of t d now] show ?thesis by (simp add: TimerManager_startManager_def TimerManager_def)
qed

end
