(* ===== verification/Elapsed_Time.thy ===== *)
theory Elapsed_Time
  imports Prelude
begin

text \<open>
  Elapsed time with millisecond precision (\<^verbatim>\<open>src/src/Cpl/System/ElapsedTime.h\<close> and \<^verbatim>\<open>.cpp\<close>) and the
  periodic scheduler (\<^verbatim>\<open>PeriodicScheduler.cpp\<close>).  \<^verbatim>\<open>unsigned long\<close> has 32 bits, the thousandths have 16.
  \<open>flat\<close> is the number of milliseconds that a value stands for; the readings of the clock that the
  scheduler makes are a parameter.
\<close>

section \<open>\<^verbatim>\<open>Precision_T\<close>\<close>

record precision =
  m_seconds :: u32
  m_thousandths :: u16

definition Precision_eq :: "precision \<Rightarrow> precision \<Rightarrow> bool" where
  "Precision_eq a other \<longleftrightarrow> m_seconds a = m_seconds other \<and> m_thousandths a = m_thousandths other"

definition Precision_add :: "precision \<Rightarrow> precision \<Rightarrow> precision" where
  "Precision_add a x =
     (let th = m_thousandths a + m_thousandths x
      in \<lparr>m_seconds = m_seconds a + (m_seconds x + ucast (th div 1000)), m_thousandths = th mod 1000\<rparr>)"

definition Precision_gt :: "precision \<Rightarrow> precision \<Rightarrow> bool" where
  "Precision_gt a other \<longleftrightarrow> m_seconds a > m_seconds other \<or>
     (m_seconds a = m_seconds other \<and> m_thousandths a > m_thousandths other)"

definition Precision_ge :: "precision \<Rightarrow> precision \<Rightarrow> bool" where
  "Precision_ge a other \<longleftrightarrow> Precision_eq a other \<or> Precision_gt a other"

definition Precision_lt :: "precision \<Rightarrow> precision \<Rightarrow> bool" where
  "Precision_lt a other \<longleftrightarrow> m_seconds a < m_seconds other \<or>
     (m_seconds a = m_seconds other \<and> m_thousandths a < m_thousandths other)"

definition Precision_le :: "precision \<Rightarrow> precision \<Rightarrow> bool" where
  "Precision_le a other \<longleftrightarrow> Precision_eq a other \<or> Precision_lt a other"

definition Precision_setFromMilliseconds :: "u32 \<Rightarrow> precision" where
  "Precision_setFromMilliseconds ms = \<lparr>m_seconds = ms div 1000, m_thousandths = ucast (ms mod 1000)\<rparr>"

text \<open>The product is formed in 32 bits and only then widened to the 64 bits of the result.\<close>

definition Precision_asFlatTime :: "precision \<Rightarrow> u64" where
  "Precision_asFlatTime a = ucast (m_seconds a * 1000 + ucast (m_thousandths a))"

definition Precision_setFlatTime :: "u64 \<Rightarrow> precision" where
  "Precision_setFlatTime t = \<lparr>m_seconds = ucast (t div 1000), m_thousandths = ucast (t mod 1000)\<rparr>"

definition deltaPrecision :: "precision \<Rightarrow> precision \<Rightarrow> precision" where
  "deltaPrecision startTime endTime =
     (let sec = m_seconds endTime - m_seconds startTime;
          th = m_thousandths endTime - m_thousandths startTime
      in if th > 0x7FFF then \<lparr>m_seconds = sec - 1, m_thousandths = th + 1000\<rparr>
         else \<lparr>m_seconds = sec, m_thousandths = th\<rparr>)"

definition expiredPrecision :: "precision \<Rightarrow> precision \<Rightarrow> precision \<Rightarrow> bool" where
  "expiredPrecision timeMarker duration currentTime =
     (let delta = deltaPrecision timeMarker currentTime
      in m_seconds delta > m_seconds duration \<or>
         (m_seconds delta = m_seconds duration \<and> m_thousandths delta \<ge> m_thousandths duration))"

section \<open>\<^verbatim>\<open>PeriodicScheduler\<close>\<close>

record interval =
  duration :: precision
  timeMarker :: precision

text \<open>The optional functions of the application, as whether they were given; the defaults are null pointers.\<close>

record scheduler =
  m_intervals :: "interval list"
  m_reportSlippage :: bool
  m_beginThreadFunc :: bool
  m_endThreadFunc :: bool
  m_firstExecution :: bool

datatype schedule_event = Callback nat precision precision | Slippage nat precision precision

definition PeriodicScheduler :: "interval list option \<Rightarrow> bool \<Rightarrow> bool \<Rightarrow> bool \<Rightarrow> bool \<Rightarrow> scheduler option" where
  "PeriodicScheduler intervals beginThreadProcessing endThreadProcessing slippageFunc nowFunc = do {
     c_assert (intervals \<noteq> None);
     c_assert nowFunc;
     Some \<lparr>m_intervals = the intervals, m_reportSlippage = slippageFunc, m_beginThreadFunc = beginThreadProcessing,
           m_endThreadFunc = endThreadProcessing, m_firstExecution = True\<rparr>
   }"

text \<open>The hooks of the thread: the time they are called with, when there is one.\<close>

definition PeriodicScheduler_beginLoop :: "precision \<Rightarrow> scheduler \<Rightarrow> precision option" where
  "PeriodicScheduler_beginLoop now s = (if m_beginThreadFunc s then Some now else None)"

definition PeriodicScheduler_endLoop :: "precision \<Rightarrow> scheduler \<Rightarrow> precision option" where
  "PeriodicScheduler_endLoop now s = (if m_endThreadFunc s then Some now else None)"

definition PeriodicScheduler_setTimeMarker :: "interval \<Rightarrow> precision \<Rightarrow> interval" where
  "PeriodicScheduler_setTimeMarker iv currentTick =
     (let d = Precision_asFlatTime (duration iv)
      in if d = 0 then iv\<lparr>timeMarker := currentTick\<rparr>
         else iv\<lparr>timeMarker := Precision_setFlatTime (Precision_asFlatTime currentTick div d * d)\<rparr>)"

text \<open>The body of the loop for interval \<open>i\<close>, with the reading of the clock it makes.\<close>

definition PeriodicScheduler_interval :: "bool \<Rightarrow> bool \<Rightarrow> nat \<Rightarrow> precision \<Rightarrow> interval \<Rightarrow> schedule_event list \<times> interval" where
  "PeriodicScheduler_interval first report i currentTick iv =
     (let iv = (if first then PeriodicScheduler_setTimeMarker iv currentTick else iv)
      in if expiredPrecision (timeMarker iv) (duration iv) currentTick
         then let iv = iv\<lparr>timeMarker := Precision_add (timeMarker iv) (duration iv)\<rparr>;
                  ran = Callback i currentTick (timeMarker iv)
              in if expiredPrecision (timeMarker iv) (duration iv) currentTick
                 then (ran # (if report then [Slippage i currentTick (timeMarker iv)] else []), PeriodicScheduler_setTimeMarker iv currentTick)
                 else ([ran], iv)
         else ([], iv))"

fun PeriodicScheduler_scan :: "bool \<Rightarrow> bool \<Rightarrow> (nat \<Rightarrow> precision) \<Rightarrow> nat \<Rightarrow> interval list \<Rightarrow> schedule_event list \<times> interval list" where
  "PeriodicScheduler_scan first report nowFunc i [] = ([], [])"
| "PeriodicScheduler_scan first report nowFunc i (iv # ivs) =
     (let (es, iv') = PeriodicScheduler_interval first report i (nowFunc i) iv;
          (fs, ivs') = PeriodicScheduler_scan first report nowFunc (Suc i) ivs
      in (es @ fs, iv' # ivs'))"

definition PeriodicScheduler_executeScheduler ::
    "(nat \<Rightarrow> precision) \<Rightarrow> scheduler \<Rightarrow> bool \<times> schedule_event list \<times> scheduler" where
  "PeriodicScheduler_executeScheduler nowFunc s =
     (let (es, ivs) = PeriodicScheduler_scan (m_firstExecution s) (m_reportSlippage s) nowFunc 0 (m_intervals s)
      in (es \<noteq> [], es, s\<lparr>m_intervals := ivs, m_firstExecution := False\<rparr>))"

section \<open>Milliseconds\<close>

definition flat :: "precision \<Rightarrow> nat" where
  "flat a = unat (m_seconds a) * 1000 + unat (m_thousandths a)"

definition valid_time :: "precision \<Rightarrow> bool" where
  "valid_time a \<longleftrightarrow> unat (m_thousandths a) < 1000"

text \<open>The range of a \<^verbatim>\<open>Precision_T\<close>, where it rolls over.\<close>

definition roll_over :: nat where
  "roll_over = 2 ^ 32 * 1000"

lemma flat_less: "valid_time a \<Longrightarrow> flat a < roll_over"
  using unat_bound [of "m_seconds a"] by (simp add: flat_def valid_time_def roll_over_def)

lemma lex_milliseconds:
  fixes s t x y :: nat
  assumes "x < 1000" "y < 1000"
  shows "s * 1000 + x < t * 1000 + y \<longleftrightarrow> s < t \<or> s = t \<and> x < y" and "s * 1000 + x = t * 1000 + y \<longleftrightarrow> s = t \<and> x = y"
  using assms by (cases s t rule: linorder_cases; auto)+

lemma flat_order:
  assumes "valid_time a" "valid_time b"
  shows "Precision_lt a b \<longleftrightarrow> flat a < flat b" and "Precision_gt a b \<longleftrightarrow> flat a > flat b"
    and "Precision_eq a b \<longleftrightarrow> flat a = flat b"
proof -
  have A: "unat (m_thousandths a) < 1000" and B: "unat (m_thousandths b) < 1000" using assms by (simp_all add: valid_time_def)
  show "Precision_lt a b \<longleftrightarrow> flat a < flat b" "Precision_gt a b \<longleftrightarrow> flat a > flat b"
    "Precision_eq a b \<longleftrightarrow> flat a = flat b"
    unfolding Precision_lt_def Precision_gt_def Precision_eq_def flat_def word_less_nat_alt word_unat_eq_iff
    using A B by (auto simp: lex_milliseconds)
qed

lemma unat_ucast_widen: "LENGTH('a) \<le> LENGTH('b) \<Longrightarrow> unat (ucast (w :: 'a::len word) :: 'b::len word) = unat w"
  by (simp add: unsigned_ucast_eq) (metis order_less_le_trans power_increasing_iff one_less_numeral_iff semiring_norm(76) take_bit_nat_eq_self unat_bound)

lemma mod_of_milliseconds:
  fixes q r m :: nat
  assumes "r < 1000"
  shows "(q * 1000 + r) mod (1000 * m) = q mod m * 1000 + r"
proof -
  have d: "(q * 1000 + r) div 1000 = q" "(q * 1000 + r) mod 1000 = r" using assms by simp_all
  show ?thesis unfolding mod_mult2_eq d by (rule arg_cong [OF mult.commute])
qed

lemma add_flat:
  assumes "valid_time a" and "valid_time x"
  shows "valid_time (Precision_add a x)" and "flat (Precision_add a x) = (flat a + flat x) mod roll_over"
proof -
  let ?t = "unat (m_thousandths a) + unat (m_thousandths x)"
  have t: "?t < 2000" using assms by (simp add: valid_time_def)
  then have th: "unat (m_thousandths a + m_thousandths x) = ?t" by (simp add: unat_word_ariths)
  have carry: "unat (ucast ((m_thousandths a + m_thousandths x) div 1000) :: u32) = ?t div 1000"
    using t by (simp add: unat_ucast_widen unat_div th)
  have low: "unat ((m_thousandths a + m_thousandths x) mod 1000) = ?t mod 1000" by (simp only: unat_mod th) simp
  show "valid_time (Precision_add a x)" by (simp add: valid_time_def Precision_add_def Let_def low)
  have "flat (Precision_add a x) =
      (unat (m_seconds a) + (unat (m_seconds x) + ?t div 1000)) mod 2 ^ 32 * 1000 + ?t mod 1000"
  proof -
    define w where "w = (ucast ((m_thousandths a + m_thousandths x) div 1000) :: u32)"
    have "unat (m_seconds a + (m_seconds x + w)) = (unat (m_seconds a) + (unat (m_seconds x) + unat w)) mod 2 ^ 32"
      by (simp add: unat_word_ariths mod_add_right_eq)
    then show ?thesis using carry unfolding w_def [symmetric]
      by (simp add: flat_def Precision_add_def Let_def low w_def [symmetric])
  qed
  also have "\<dots> = (flat a + flat x) mod roll_over"
  proof -
    let ?s = "unat (m_seconds a) + (unat (m_seconds x) + ?t div 1000)"
    have "flat a + flat x = ?s * 1000 + ?t mod 1000" by (simp add: flat_def)
    moreover have "(?s * 1000 + ?t mod 1000) mod (1000 * 2 ^ 32) = ?s mod 2 ^ 32 * 1000 + ?t mod 1000"
      by (rule mod_of_milliseconds) simp
    ultimately show ?thesis by (simp add: roll_over_def mult.commute)
  qed
  finally show "flat (Precision_add a x) = (flat a + flat x) mod roll_over" .
qed


text \<open>Differences, with the borrow recognised by the wrapped thousandths.\<close>

lemma delta_thousandths:
  assumes "valid_time a" and "valid_time b"
  shows "m_thousandths b - m_thousandths a > 0x7FFF \<longleftrightarrow> unat (m_thousandths b) < unat (m_thousandths a)"
    and "valid_time (deltaPrecision a b)"
proof -
  let ?x = "unat (m_thousandths a)" and ?y = "unat (m_thousandths b)"
  have x: "?x < 1000" and y: "?y < 1000" using assms by (simp_all add: valid_time_def)
  have d: "unat (m_thousandths b - m_thousandths a) = (if ?x \<le> ?y then ?y - ?x else ?y + 65536 - ?x)"
    by (subst unat_sub_if') simp
  show borrow: "m_thousandths b - m_thousandths a > 0x7FFF \<longleftrightarrow> ?y < ?x"
    using x y by (simp only: word_less_nat_alt d) auto
  have "unat (m_thousandths b - m_thousandths a + 1000) = ?y + 1000 - ?x" if "?y < ?x"
  proof -
    have "?y + 65536 - ?x + 1000 = (?y + 1000 - ?x) + 65536" using that x by linarith
    moreover have "?y + 1000 - ?x < 65536" using y by linarith
    moreover have "unat (m_thousandths b - m_thousandths a + 1000) = (?y + 65536 - ?x + 1000) mod 65536"
      using that by (subst unat_word_ariths, subst d) simp
    ultimately show ?thesis by (metis mod_add_self2 mod_less)
  qed
  then show "valid_time (deltaPrecision a b)"
    using x y d borrow by (auto simp: valid_time_def deltaPrecision_def Let_def)
qed

lemma add_delta:
  assumes a: "valid_time a" and b: "valid_time b"
  shows "Precision_add a (deltaPrecision a b) = b"
proof -
  have y: "unat (m_thousandths b) < 1000" using b by (simp add: valid_time_def)
  have div0: "m_thousandths b div 1000 = 0" "m_thousandths b mod 1000 = m_thousandths b"
    using y by (simp_all add: word_unat_eq_iff unat_div unat_mod)
  have "unat (m_thousandths b + 1000) = unat (m_thousandths b) + 1000" using y by (simp add: unat_word_ariths)
  then have div1: "(m_thousandths b + 1000) div 1000 = 1" "(m_thousandths b + 1000) mod 1000 = m_thousandths b"
    using y by (simp_all add: word_unat_eq_iff unat_div unat_mod)
  show ?thesis
  proof (cases "m_thousandths b - m_thousandths a > 0x7FFF")
    case True
    moreover have "m_thousandths a + (m_thousandths b - m_thousandths a + 1000) = m_thousandths b + 1000" by simp
    ultimately show ?thesis by (simp add: Precision_add_def deltaPrecision_def Let_def div1)
  next
    case False
    then show ?thesis by (simp add: Precision_add_def deltaPrecision_def Let_def div0)
  qed
qed

lemma delta_flat:
  assumes a: "valid_time a" and b: "valid_time b"
  shows "flat (deltaPrecision a b) = (flat b + roll_over - flat a) mod roll_over"
proof -
  let ?d = "flat (deltaPrecision a b)"
  have v: "valid_time (deltaPrecision a b)" by (rule delta_thousandths(2) [OF a b])
  have "flat b = (flat a + ?d) mod roll_over" using add_flat(2) [OF a v] by (simp add: add_delta [OF a b])
  then show ?thesis
    using flat_less [OF a] flat_less [OF b] flat_less [OF v] by (simp add: mod_if [of "_ + _"] split: if_splits)
qed

lemma expired_flat:
  assumes "valid_time m" and "valid_time d" and "valid_time now"
  shows "expiredPrecision m d now \<longleftrightarrow> flat d \<le> (flat now + roll_over - flat m) mod roll_over"
proof -
  have v: "valid_time (deltaPrecision m now)" by (rule delta_thousandths(2) [OF assms(1,3)])
  have "expiredPrecision m d now \<longleftrightarrow> Precision_lt d (deltaPrecision m now) \<or> Precision_eq d (deltaPrecision m now)"
    by (auto simp: expiredPrecision_def Precision_lt_def Precision_eq_def Let_def order_le_less)
  also have "\<dots> \<longleftrightarrow> flat d \<le> flat (deltaPrecision m now)" using flat_order [OF assms(2) v] by auto
  finally show ?thesis by (simp only: delta_flat [OF assms(1,3)])
qed

text \<open>Flat times below the 32-bit limit.\<close>

lemma asFlatTime_flat:
  assumes "flat a < 2 ^ 32"
  shows "unat (Precision_asFlatTime a) = flat a"
proof -
  have "unat (m_seconds a * 1000 + ucast (m_thousandths a)) = flat a mod 2 ^ 32"
    by (simp add: unat_word_ariths unat_ucast_widen flat_def mod_add_left_eq)
  then show ?thesis using assms by (simp add: Precision_asFlatTime_def unat_ucast_widen)
qed

lemma setFlatTime_flat:
  assumes "unat t < 2 ^ 32"
  shows "valid_time (Precision_setFlatTime t)" and "flat (Precision_setFlatTime t) = unat t"
proof -
  have "unat (ucast (t mod 1000) :: u16) = unat t mod 1000"
    by (simp add: unsigned_ucast_eq unat_mod take_bit_eq_mod)
  moreover have "unat (ucast (t div 1000) :: u32) = unat t div 1000"
    using assms by (simp add: unsigned_ucast_eq unat_div take_bit_eq_mod)
  ultimately show "valid_time (Precision_setFlatTime t)" "flat (Precision_setFlatTime t) = unat t"
    by (simp_all add: valid_time_def flat_def Precision_setFlatTime_def)
qed

section \<open>Boundaries of the scheduler\<close>

text \<open>The most recent boundary of an interval at a time.\<close>

definition boundary :: "nat \<Rightarrow> nat \<Rightarrow> nat" where
  "boundary d t = t div d * d"

definition interval_ok :: "interval \<Rightarrow> bool" where
  "interval_ok iv \<longleftrightarrow> valid_time (duration iv) \<and> 0 < flat (duration iv) \<and> flat (duration iv) < 2 ^ 32"

definition clock_ok :: "precision \<Rightarrow> bool" where
  "clock_ok t \<longleftrightarrow> valid_time t \<and> flat t < 2 ^ 32"

text \<open>The marker of an interval is the boundary at the time \<open>t\<close>.\<close>

definition marked_at :: "interval \<Rightarrow> nat \<Rightarrow> bool" where
  "marked_at iv t \<longleftrightarrow> interval_ok iv \<and> valid_time (timeMarker iv) \<and> flat (timeMarker iv) = boundary (flat (duration iv)) t"

lemma boundary_le: "boundary d t \<le> t"
  by (simp add: boundary_def)

lemma boundary_next: "0 < d \<Longrightarrow> t < boundary d t + d"
  using mod_less_divisor [of d t] div_mult_mod_eq [of t d] unfolding boundary_def by linarith

lemma boundary_unique: "0 < d \<Longrightarrow> k * d \<le> t \<Longrightarrow> t < k * d + d \<Longrightarrow> boundary d t = k * d"
proof -
  assume "0 < d" "k * d \<le> t" "t < k * d + d"
  then have "t div d = k" by (intro div_nat_eqI) (simp_all add: mult.commute)
  then show ?thesis by (simp add: boundary_def)
qed

lemma setTimeMarker_marks:
  assumes "interval_ok iv" and "clock_ok now"
  shows "marked_at (PeriodicScheduler_setTimeMarker iv now) (flat now)"
    and "duration (PeriodicScheduler_setTimeMarker iv now) = duration iv"
proof -
  let ?d = "Precision_asFlatTime (duration iv)" and ?n = "Precision_asFlatTime now"
  have u: "unat ?d = flat (duration iv)" "unat ?n = flat now"
    using assms by (simp_all add: interval_ok_def clock_ok_def asFlatTime_flat)
  have "?d \<noteq> 0" using assms u(1) by (auto simp: interval_ok_def)
  moreover have b: "unat (?n div ?d * ?d) = boundary (flat (duration iv)) (flat now)"
  proof -
    have "flat now div flat (duration iv) * flat (duration iv) \<le> flat now" by simp
    also have "\<dots> < 2 ^ 64" using assms by (simp add: clock_ok_def)
    finally show ?thesis by (simp add: unat_word_ariths(2) unat_div u boundary_def)
  qed
  moreover have "unat (?n div ?d * ?d) < 2 ^ 32"
    using b boundary_le [of "flat (duration iv)" "flat now"] assms by (simp add: clock_ok_def)
  ultimately show "marked_at (PeriodicScheduler_setTimeMarker iv now) (flat now)"
    "duration (PeriodicScheduler_setTimeMarker iv now) = duration iv"
    using assms(1) setFlatTime_flat [of "?n div ?d * ?d"]
    by (simp_all add: PeriodicScheduler_setTimeMarker_def Let_def marked_at_def interval_ok_def)
qed

lemma expired_since:
  assumes "interval_ok iv" and "clock_ok now" and "valid_time m" and "flat m \<le> flat now"
  shows "expiredPrecision m (duration iv) now \<longleftrightarrow> flat m + flat (duration iv) \<le> flat now"
proof -
  have "flat now < roll_over" using assms(2) flat_less by (simp add: clock_ok_def)
  then have "(flat now + roll_over - flat m) mod roll_over = flat now - flat m"
  proof -
    have "flat now + roll_over - flat m = (flat now - flat m) + roll_over" using assms(4) by linarith
    moreover have "flat now - flat m < roll_over" using \<open>flat now < roll_over\<close> by linarith
    ultimately show ?thesis by (simp only: mod_add_self2 mod_less)
  qed
  then show ?thesis using expired_flat [of m "duration iv" now] assms by (auto simp: interval_ok_def clock_ok_def)
qed

text \<open>One interval: whatever the marker was, it ends at the boundary of the present time.\<close>

lemma interval_step:
  assumes iv: "marked_at iv t" and now: "clock_ok now" "t \<le> flat now"
  defines "d \<equiv> flat (duration iv)"
  shows "\<exists>m iv'. PeriodicScheduler_interval False report i now iv =
      (if boundary d (flat now) = boundary d t then []
       else if boundary d (flat now) = boundary d t + d then [Callback i now m]
       else Callback i now m # (if report then [Slippage i now m] else []), iv') \<and>
    flat m = boundary d t + d \<and> marked_at iv' (flat now) \<and> duration iv' = duration iv"
proof -
  let ?m = "timeMarker iv"
  let ?iv = "iv\<lparr>timeMarker := Precision_add (timeMarker iv) (duration iv)\<rparr>"
  have ok: "interval_ok iv" and vm: "valid_time ?m" and fm: "flat ?m = boundary d t" and d0: "0 < d"
    and vd: "valid_time (duration iv)" "d < 2 ^ 32"
    using iv by (simp_all add: marked_at_def interval_ok_def d_def)
  have le: "flat ?m \<le> flat now" using fm boundary_le [of d t] now(2) by simp
  have "boundary d t + d < roll_over"
    using fm le now(1) vd by (simp add: clock_ok_def roll_over_def)
  then have fa: "flat (Precision_add ?m (duration iv)) = boundary d t + d" "valid_time (Precision_add ?m (duration iv))"
    using add_flat [OF vm vd(1)] fm by (simp_all add: d_def)
  have exp: "expiredPrecision ?m (duration iv) now \<longleftrightarrow> boundary d t + d \<le> flat now"
    using expired_since [OF ok now(1) vm le] fm by (simp add: d_def)
  have slip: "expiredPrecision (timeMarker ?iv) (duration ?iv) now \<longleftrightarrow> boundary d t + d + d \<le> flat now" if "boundary d t + d \<le> flat now"
    using expired_since [OF ok now(1) fa(2)] that fa(1) by (simp add: d_def)
  have q: "boundary d t = t div d * d" "boundary d t + d = (t div d + 1) * d" by (simp_all add: boundary_def)
  consider "flat now < boundary d t + d" | "boundary d t + d \<le> flat now" "flat now < boundary d t + d + d"
    | "boundary d t + d + d \<le> flat now" by linarith
  then show ?thesis
  proof cases
    case 1
    then have "boundary d (flat now) = boundary d t"
      using boundary_unique [of d "t div d" "flat now"] d0 le fm q by simp
    then show ?thesis
      using 1 exp iv fa d0 by (intro exI [of _ "timeMarker ?iv"] exI [of _ iv])
        (simp add: PeriodicScheduler_interval_def marked_at_def d_def)
  next
    case 2
    then have b: "boundary d (flat now) = boundary d t + d"
      using boundary_unique [of d "t div d + 1" "flat now"] d0 q by simp
    then show ?thesis
      using 2 exp slip fa d0 ok by (intro exI [of _ "timeMarker ?iv"] exI [of _ ?iv])
        (simp add: PeriodicScheduler_interval_def Let_def marked_at_def interval_ok_def d_def)
  next
    case 3
    then have "boundary d (flat now) \<noteq> boundary d t" "boundary d (flat now) \<noteq> boundary d t + d"
      using boundary_next [OF d0, of "flat now"] d0 by linarith+
    moreover have "interval_ok ?iv" using ok by (simp add: interval_ok_def)
    note S = setTimeMarker_marks [OF this now(1)]
    ultimately show ?thesis
      using 3 exp slip fa d0 S by (intro exI [of _ "timeMarker ?iv"] exI [of _ "PeriodicScheduler_setTimeMarker ?iv now"])
        (simp add: PeriodicScheduler_interval_def Let_def)
  qed
qed

lemma interval_first:
  assumes ok: "interval_ok iv" and now: "clock_ok now"
  shows "PeriodicScheduler_interval True report i now iv = ([], PeriodicScheduler_setTimeMarker iv now)"
proof -
  let ?iv = "PeriodicScheduler_setTimeMarker iv now"
  note S = setTimeMarker_marks [OF ok now]
  have m: "valid_time (timeMarker ?iv)" "flat (timeMarker ?iv) = boundary (flat (duration iv)) (flat now)" "interval_ok ?iv"
    using S by (simp_all add: marked_at_def)
  have "\<not> expiredPrecision (timeMarker ?iv) (duration ?iv) now"
    using expired_since [OF m(3) now m(1)] m(2) boundary_le boundary_next [of "flat (duration iv)" "flat now"] ok S(2)
    by (simp add: interval_ok_def)
  then show ?thesis by (simp add: PeriodicScheduler_interval_def)
qed

text \<open>The whole scan, interval by interval.\<close>

lemma scan_intervals:
  "PeriodicScheduler_scan first report nowFunc i ivs =
    (concat (map (\<lambda>j. fst (PeriodicScheduler_interval first report (i + j) (nowFunc (i + j)) (ivs ! j))) [0..<length ivs]),
     map (\<lambda>j. snd (PeriodicScheduler_interval first report (i + j) (nowFunc (i + j)) (ivs ! j))) [0..<length ivs])"
proof (induction ivs arbitrary: i)
  case (Cons iv ivs)
  have "[0..<length (iv # ivs)] = 0 # map Suc [0..<length ivs]"
    by (simp only: list.size add_Suc_right add_0_right upt_conv_Cons zero_less_Suc map_Suc_upt)
  then show ?case by (simp add: Cons o_def split: prod.split)
qed simp

fun of_interval :: "schedule_event \<Rightarrow> nat" where
  "of_interval (Callback i now m) = i"
| "of_interval (Slippage i now m) = i"

lemma interval_events: "e \<in> set (fst (PeriodicScheduler_interval first report i now iv)) \<Longrightarrow> of_interval e = i"
  by (auto simp: PeriodicScheduler_interval_def Let_def split: if_splits)

lemma filter_concat_map:
  assumes "\<And>k e. e \<in> set (f k) \<Longrightarrow> g e = k" and "j < n"
  shows "filter (\<lambda>e. g e = j) (concat (map f [0..<n])) = f j"
  using assms(2)
proof (induction n)
  case (Suc n)
  have own: "filter (\<lambda>e. g e = j) (f k) = (if k = j then f j else [])" for k
    using assms(1) by (auto simp: filter_id_conv filter_empty_conv)
  have none: "filter (\<lambda>e. g e = j) (concat (map f [0..<m])) = []" if "m \<le> j" for m
    using assms(1) that by (auto simp: filter_empty_conv)
  show ?case using Suc own none [of n] by (cases "j = n") auto
qed simp

section \<open>Properties\<close>

text \<open>
  C29. Time values are numbers of milliseconds modulo the range of the type: with the thousandths
  below 1000, sums and differences are those of the milliseconds, with roll over, and stay in that
  form; the comparisons are those of the numbers, and a duration has expired exactly when
  the time since the marker, across a roll over too, has reached it.
\<close>
theorem precision_is_modular_time:
  assumes "valid_time a" and "valid_time b" and "valid_time c"
  shows "valid_time (Precision_add a b) \<and> flat (Precision_add a b) = (flat a + flat b) mod roll_over \<and>
    valid_time (deltaPrecision a b) \<and> flat (deltaPrecision a b) = (flat b + roll_over - flat a) mod roll_over \<and>
    (Precision_lt a b \<longleftrightarrow> flat a < flat b) \<and> (Precision_ge a b \<longleftrightarrow> flat b \<le> flat a) \<and>
    (expiredPrecision a b c \<longleftrightarrow> flat b \<le> (flat c + roll_over - flat a) mod roll_over)"
  using add_flat [OF assms(1,2)] delta_thousandths(2) [OF assms(1,2)] delta_flat [OF assms(1,2)]
    flat_order [OF assms(1,2)] expired_flat [OF assms]
  by (auto simp: Precision_ge_def)

theorem precision_is_modular_time_witness:
  "flat (deltaPrecision \<lparr>m_seconds = 0xFFFFFFFF, m_thousandths = 900\<rparr> \<lparr>m_seconds = 0, m_thousandths = 100\<rparr>) = 200"
  using precision_is_modular_time [of "\<lparr>m_seconds = 0xFFFFFFFF, m_thousandths = 900\<rparr>" "\<lparr>m_seconds = 0, m_thousandths = 100\<rparr>"
      "\<lparr>m_seconds = 0, m_thousandths = 0\<rparr>"]
  by (simp add: valid_time_def flat_def roll_over_def)

text \<open>
  C30. The scheduler keeps every interval on its boundaries.  For an interval whose duration is not zero and below
  2 to the power of 32 milliseconds, and a clock that has not passed 2 to the power of 32 milliseconds: when the
  marker of the interval is the boundary (the largest multiple of its duration) at the time it was last run, running
  it at a later time calls it back exactly when a boundary has been passed, with the first boundary passed,
  leaves the marker on the present boundary, and, when the application has given a function for it,
  reports a slippage exactly when more than one boundary was passed; without that function nothing is reported. The
  first run only sets the markers.
\<close>
theorem scheduler_keeps_boundaries:
  assumes "PeriodicScheduler_executeScheduler nowFunc s = (b, es, s')" and "j < length (m_intervals s)"
    and "clock_ok (nowFunc j)" and "interval_ok (m_intervals s ! j)"
    and "m_firstExecution s \<or> marked_at (m_intervals s ! j) t \<and> t \<le> flat (nowFunc j)"
  shows "j < length (m_intervals s') \<and> marked_at (m_intervals s' ! j) (flat (nowFunc j)) \<and>
    duration (m_intervals s' ! j) = duration (m_intervals s ! j) \<and> \<not> m_firstExecution s' \<and>
    (let d = flat (duration (m_intervals s ! j)); mine = filter (\<lambda>e. of_interval e = j) es
     in if m_firstExecution s \<or> boundary d (flat (nowFunc j)) = boundary d t then mine = []
        else \<exists>m. flat m = boundary d t + d \<and>
          mine = (if boundary d (flat (nowFunc j)) = boundary d t + d then [Callback j (nowFunc j) m]
                  else Callback j (nowFunc j) m # (if m_reportSlippage s then [Slippage j (nowFunc j) m] else [])))"
proof -
  let ?f = "m_firstExecution s" and ?ivs = "m_intervals s"
  let ?g = "\<lambda>j. PeriodicScheduler_interval ?f (m_reportSlippage s) j (nowFunc j) (?ivs ! j)"
  have r: "es = concat (map (\<lambda>j. fst (?g j)) [0..<length ?ivs])"
    "s' = s\<lparr>m_intervals := map (\<lambda>j. snd (?g j)) [0..<length ?ivs], m_firstExecution := False\<rparr>"
    using assms(1) by (simp_all add: PeriodicScheduler_executeScheduler_def scan_intervals [of _ _ _ 0])
  have part: "filter (\<lambda>e. of_interval e = j) es = fst (?g j)"
    unfolding r(1) by (rule filter_concat_map) (use assms(2) interval_events in auto)
  have ivj: "m_intervals s' ! j = snd (?g j)" "j < length (m_intervals s')" using assms(2) by (simp_all add: r(2))
  show ?thesis
  proof (cases ?f)
    case True
    then show ?thesis
      using part ivj interval_first [OF assms(4,3), of "m_reportSlippage s" j] setTimeMarker_marks [OF assms(4,3)] by (simp add: r(2) Let_def)
  next
    case False
    then have m: "marked_at (?ivs ! j) t" "t \<le> flat (nowFunc j)" using assms(5) by simp_all
    show ?thesis
      using interval_step [OF m(1) assms(3) m(2), of "m_reportSlippage s" j] part ivj False by (auto simp: Let_def r(2))
  qed
qed

text \<open>An interval of 100 ms last run at 250 ms, run again at 420 ms: the boundary at 300 is served late.\<close>

theorem scheduler_keeps_boundaries_witness:
  "\<exists>b es s' m. PeriodicScheduler_executeScheduler (\<lambda>_. \<lparr>m_seconds = 0, m_thousandths = 420\<rparr>)
     \<lparr>m_intervals = [\<lparr>duration = \<lparr>m_seconds = 0, m_thousandths = 100\<rparr>, timeMarker = \<lparr>m_seconds = 0, m_thousandths = 200\<rparr>\<rparr>],
       m_reportSlippage = True, m_beginThreadFunc = False, m_endThreadFunc = False, m_firstExecution = False\<rparr> =
       (b, es, s') \<and> flat (timeMarker (m_intervals s' ! 0)) = 400 \<and> flat m = 300 \<and>
     filter (\<lambda>e. of_interval e = 0) es =
       [Callback 0 \<lparr>m_seconds = 0, m_thousandths = 420\<rparr> m, Slippage 0 \<lparr>m_seconds = 0, m_thousandths = 420\<rparr> m]"
proof -
  let ?s = "\<lparr>m_intervals = [\<lparr>duration = \<lparr>m_seconds = 0, m_thousandths = 100\<rparr>, timeMarker = \<lparr>m_seconds = 0, m_thousandths = 200\<rparr>\<rparr>],
       m_reportSlippage = True, m_beginThreadFunc = False, m_endThreadFunc = False, m_firstExecution = False\<rparr>"
  let ?now = "\<lambda>_ :: nat. \<lparr>m_seconds = 0, m_thousandths = 420\<rparr>"
  obtain b es s' where r: "PeriodicScheduler_executeScheduler ?now ?s = (b, es, s')"
    by (cases "PeriodicScheduler_executeScheduler ?now ?s")
  have "clock_ok (?now 0)" "interval_ok (m_intervals ?s ! 0)" "marked_at (m_intervals ?s ! 0) 250"
    by (simp_all add: clock_ok_def valid_time_def interval_ok_def marked_at_def flat_def boundary_def)
  with scheduler_keeps_boundaries [OF r, of 0 250] r show ?thesis
    by (auto simp: flat_def boundary_def marked_at_def)
qed

text \<open>
  \<open>asFlatTime\<close> forms the milliseconds in 32 bits: after 4294968 seconds, about 50 days, the number is
  too small by a multiple of 2 to the power of 32.
\<close>

lemma asFlatTime_wraps: "unat (Precision_asFlatTime \<lparr>m_seconds = 4294968, m_thousandths = 0\<rparr>) = 704"
  by (simp add: Precision_asFlatTime_def unat_ucast_widen)

end
