(* ===== verification/Stacks.thy ===== *)
theory Stacks
  imports Prelude
begin

text \<open>
  The stack of fixed depth (\<^verbatim>\<open>src/src/Cpl/Container/Stack.h\<close>).  The locale \<open>bounded_stack\<close> is the
  contract its users rely on, over the list of the contents with the top first; the array with a count
  of the source satisfies it.
\<close>

section \<open>\<^verbatim>\<open>Stack.h\<close>\<close>

record 'a stack =
  stk_count :: nat
  stk_maxItems :: nat
  stk_elements :: "'a list"

definition Stack :: "nat \<Rightarrow> 'a list \<Rightarrow> 'a stack" where
  "Stack maxElements memory = \<lparr>stk_count = 0, stk_maxItems = maxElements, stk_elements = memory\<rparr>"

definition Stack_isEmpty :: "'a stack \<Rightarrow> bool" where
  "Stack_isEmpty s \<longleftrightarrow> stk_count s = 0"

definition Stack_isFull :: "'a stack \<Rightarrow> bool" where
  "Stack_isFull s \<longleftrightarrow> stk_count s = stk_maxItems s"

definition Stack_clearTheStack :: "'a stack \<Rightarrow> 'a stack" where
  "Stack_clearTheStack s = s\<lparr>stk_count := 0\<rparr>"

text \<open>An access outside the memory is \<open>None\<close>.\<close>

definition Stack_push :: "'a stack \<Rightarrow> 'a \<Rightarrow> (bool \<times> 'a stack) option" where
  "Stack_push s item =
     (if Stack_isFull s then Some (False, s)
      else do {
        c_assert (stk_count s < length (stk_elements s));
        Some (True, s\<lparr>stk_elements := (stk_elements s)[stk_count s := item], stk_count := stk_count s + 1\<rparr>)
      })"

definition Stack_pop :: "'a stack \<Rightarrow> ('a option \<times> 'a stack) option" where
  "Stack_pop s =
     (if Stack_isEmpty s then Some (None, s)
      else do {
        let s1 = s\<lparr>stk_count := stk_count s - 1\<rparr>;
        c_assert (stk_count s1 < length (stk_elements s1));
        Some (Some (stk_elements s1 ! stk_count s1), s1)
      })"

definition Stack_discard :: "'a stack \<Rightarrow> bool \<times> 'a stack" where
  "Stack_discard s = (if Stack_isEmpty s then (False, s) else (True, s\<lparr>stk_count := stk_count s - 1\<rparr>))"

definition Stack_peekTop :: "'a stack \<Rightarrow> 'a option option" where
  "Stack_peekTop s =
     (if Stack_isEmpty s then Some None
      else do {
        c_assert (stk_count s - 1 < length (stk_elements s));
        Some (Some (stk_elements s ! (stk_count s - 1)))
      })"

definition Stack_getNumItems :: "'a stack \<Rightarrow> nat" where
  "Stack_getNumItems s = stk_count s"

definition Stack_getMaxItems :: "'a stack \<Rightarrow> nat" where
  "Stack_getMaxItems s = stk_maxItems s"

section \<open>The contract\<close>

text \<open>A sequence of calls, and the same on a list with a limit.\<close>

datatype 'a stack_call = Push 'a | Pop | Peek

fun stack_run :: "('s \<Rightarrow> 'a \<Rightarrow> (bool \<times> 's) option) \<Rightarrow> ('s \<Rightarrow> ('a option \<times> 's) option) \<Rightarrow> ('s \<Rightarrow> 'a option option) \<Rightarrow>
    'a stack_call list \<Rightarrow> 's \<Rightarrow> ('a option list \<times> 's) option" where
  "stack_run push pop peek [] s = Some ([], s)"
| "stack_run push pop peek (Push x # ops) s = do {
     (ok, s1) \<leftarrow> push s x; (out, s2) \<leftarrow> stack_run push pop peek ops s1; Some ((if ok then Some x else None) # out, s2) }"
| "stack_run push pop peek (Pop # ops) s = do {
     (r, s1) \<leftarrow> pop s; (out, s2) \<leftarrow> stack_run push pop peek ops s1; Some (r # out, s2) }"
| "stack_run push pop peek (Peek # ops) s = do {
     r \<leftarrow> peek s; (out, s2) \<leftarrow> stack_run push pop peek ops s; Some (r # out, s2) }"

fun list_run :: "nat \<Rightarrow> 'a stack_call list \<Rightarrow> 'a list \<Rightarrow> 'a option list \<times> 'a list" where
  "list_run cap [] xs = ([], xs)"
| "list_run cap (Push x # ops) xs =
     (if length xs < cap then let (out, ys) = list_run cap ops (x # xs) in (Some x # out, ys)
      else let (out, ys) = list_run cap ops xs in (None # out, ys))"
| "list_run cap (Pop # ops) xs =
     (case xs of [] \<Rightarrow> let (out, ys) = list_run cap ops [] in (None # out, ys)
      | x # xs' \<Rightarrow> let (out, ys) = list_run cap ops xs' in (Some x # out, ys))"
| "list_run cap (Peek # ops) xs =
     (let (out, ys) = list_run cap ops xs in ((case xs of [] \<Rightarrow> None | x # xs' \<Rightarrow> Some x) # out, ys))"

locale bounded_stack =
  fixes push :: "'s \<Rightarrow> 'a \<Rightarrow> (bool \<times> 's) option"
    and pop :: "'s \<Rightarrow> ('a option \<times> 's) option"
    and peek :: "'s \<Rightarrow> 'a option option"
    and contents :: "'s \<Rightarrow> 'a list"
    and capacity :: "'s \<Rightarrow> nat"
    and okay :: "'s \<Rightarrow> bool"
  assumes push_room: "okay s \<Longrightarrow> length (contents s) < capacity s \<Longrightarrow>
      \<exists>s'. push s x = Some (True, s') \<and> okay s' \<and> contents s' = x # contents s \<and> capacity s' = capacity s"
    and push_full: "okay s \<Longrightarrow> length (contents s) = capacity s \<Longrightarrow> push s x = Some (False, s)"
    and pop_top: "okay s \<Longrightarrow> contents s = x # xs \<Longrightarrow>
      \<exists>s'. pop s = Some (Some x, s') \<and> okay s' \<and> contents s' = xs \<and> capacity s' = capacity s"
    and pop_empty: "okay s \<Longrightarrow> contents s = [] \<Longrightarrow> pop s = Some (None, s)"
    and peek_top: "okay s \<Longrightarrow> peek s = Some (case contents s of [] \<Rightarrow> None | x # xs \<Rightarrow> Some x)"
    and depth: "okay s \<Longrightarrow> length (contents s) \<le> capacity s"
begin

lemma run_is_list_run:
  assumes "okay s"
  shows "\<exists>s'. stack_run push pop peek ops s = Some (fst (list_run (capacity s) ops (contents s)), s') \<and> okay s' \<and>
    contents s' = snd (list_run (capacity s) ops (contents s)) \<and> capacity s' = capacity s"
  using assms
proof (induction ops arbitrary: s)
  case (Cons c ops)
  note peek = peek_top [OF Cons.prems]
  show ?case
  proof (cases c)
    case (Push x)
    show ?thesis
    proof (cases "length (contents s) < capacity s")
      case True
      from push_room [OF Cons.prems True, of x] obtain s1 where s1: "push s x = Some (True, s1)" "okay s1"
        "contents s1 = x # contents s" "capacity s1 = capacity s" by blast
      from Cons.IH [OF s1(2)] s1 True Push show ?thesis by (auto simp: case_prod_beta)
    next
      case False
      then have "push s x = Some (False, s)" using push_full [OF Cons.prems] depth [OF Cons.prems] by simp
      with Cons.IH [OF Cons.prems] False Push show ?thesis by (auto simp: case_prod_beta)
    qed
  next
    case Pop
    show ?thesis
    proof (cases "contents s")
      case Nil
      with pop_empty [OF Cons.prems] Cons.IH [OF Cons.prems] Pop show ?thesis by (auto simp: case_prod_beta)
    next
      case c: (Cons x xs)
      from pop_top [OF Cons.prems c] obtain s1 where s1: "pop s = Some (Some x, s1)" "okay s1" "contents s1 = xs" "capacity s1 = capacity s" by blast
      from Cons.IH [OF s1(2)] s1 c Pop show ?thesis by (auto simp: case_prod_beta)
    qed
  next
    case Peek
    with peek Cons.IH [OF Cons.prems] show ?thesis by (auto simp: case_prod_beta)
  qed
qed simp

end

section \<open>The array satisfies it\<close>

definition stack_ok :: "'a stack \<Rightarrow> bool" where
  "stack_ok s \<longleftrightarrow> length (stk_elements s) = stk_maxItems s \<and> stk_count s \<le> stk_maxItems s"

definition stack_contents :: "'a stack \<Rightarrow> 'a list" where
  "stack_contents s = rev (take (stk_count s) (stk_elements s))"

lemma take_top: "0 < n \<Longrightarrow> n \<le> length xs \<Longrightarrow> take n xs = take (n - 1) xs @ [xs ! (n - 1)]"
  using take_Suc_conv_app_nth [of "n - 1" xs] by simp

interpretation astack: bounded_stack Stack_push Stack_pop Stack_peekTop stack_contents stk_maxItems stack_ok
proof (unfold_locales, goal_cases)
  case (1 s x)
  then show ?case by (simp add: Stack_push_def Stack_isFull_def stack_ok_def stack_contents_def take_Suc_conv_app_nth)
next
  case (2 s x)
  then show ?case by (simp add: Stack_push_def Stack_isFull_def stack_ok_def stack_contents_def)
next
  case (3 s x xs)
  then have n: "0 < stk_count s" "stk_count s \<le> length (stk_elements s)"
    by (cases "stk_count s"; simp add: stack_ok_def stack_contents_def)+
  then have "stk_count s - 1 < length (stk_elements s)" by linarith
  with 3 n show ?case
    using take_top [OF n] by (auto simp: Stack_pop_def Stack_isEmpty_def stack_ok_def stack_contents_def Let_def)
next
  case (4 s)
  then show ?case by (auto simp: Stack_pop_def Stack_isEmpty_def stack_ok_def stack_contents_def)
next
  case (5 s)
  show ?case
  proof (cases "stk_count s = 0")
    case False
    then have n: "0 < stk_count s" "stk_count s \<le> length (stk_elements s)" using 5 by (auto simp: stack_ok_def)
    moreover from n have "stk_count s - 1 < length (stk_elements s)" by linarith
    ultimately show ?thesis using take_top [OF n] by (simp add: Stack_peekTop_def Stack_isEmpty_def stack_contents_def)
  qed (simp add: Stack_peekTop_def Stack_isEmpty_def stack_contents_def)
next
  case (6 s)
  then show ?case by (simp add: stack_ok_def stack_contents_def)
qed

section \<open>Properties\<close>

text \<open>
  The stack is a list with a limit: from its construction over a memory of \<open>n\<close> elements, any
  sequence of \<open>push\<close>, \<open>pop\<close> and \<open>peekTop\<close> calls returns what a last-in first-out list of at most
  \<open>n\<close> elements returns, stays inside the memory, refuses a push when it is full and a pop
  when it is empty.
\<close>
theorem stack_is_bounded_list:
  assumes "length memory = n"
  shows "\<exists>s. stack_run Stack_push Stack_pop Stack_peekTop calls (Stack n memory) = Some (fst (list_run n calls []), s) \<and>
    Stack_getNumItems s = length (snd (list_run n calls [])) \<and> Stack_getNumItems s \<le> n \<and>
    (Stack_isEmpty s \<longleftrightarrow> snd (list_run n calls []) = []) \<and> (Stack_isFull s \<longleftrightarrow> length (snd (list_run n calls [])) = n)"
proof -
  have s: "stack_ok (Stack n memory)" "stack_contents (Stack n memory) = []" "stk_maxItems (Stack n memory) = n"
    using assms by (simp_all add: stack_ok_def stack_contents_def Stack_def)
  obtain s' where "stack_run Stack_push Stack_pop Stack_peekTop calls (Stack n memory) = Some (fst (list_run n calls []), s')"
    "stack_ok s'" "stack_contents s' = snd (list_run n calls [])" "stk_maxItems s' = n"
    using astack.run_is_list_run [OF s(1), of calls] s by auto
  moreover from this(2,3) have "length (snd (list_run n calls [])) = stk_count s'"
    by (metis length_rev length_take min.absorb2 stack_contents_def stack_ok_def)
  ultimately show ?thesis
    by (auto simp: Stack_getNumItems_def stack_ok_def Stack_isEmpty_def Stack_isFull_def)
qed

theorem stack_is_bounded_list_witness:
  "\<exists>s. stack_run Stack_push Stack_pop Stack_peekTop [Push 7, Push 8, Push 9, Peek, Pop, Pop, Pop] (Stack 2 [0, 0 :: nat]) =
     Some ([Some 7, Some 8, None, Some 8, Some 8, Some 7, None], s) \<and> Stack_isEmpty s"
  using stack_is_bounded_list [of "[0, 0 :: nat]" 2 "[Push 7, Push 8, Push 9, Peek, Pop, Pop, Pop]"] by auto

end
