(* ===== verification/Expression_Parser.thy ===== *)
theory Expression_Parser
  imports Stacks "HOL-Library.Sublist"
begin

text \<open>
  The evaluator of integer expressions (\<^verbatim>\<open>src/src/Cpl/Math/IntegerExpressionParser.h\<close>), an operator
  precedence parser, for a signed or unsigned type at least as wide as \<^verbatim>\<open>int\<close> (a narrower one would be promoted).  The
  stack of operators is represented by its contents with the top first; lemma \<open>stack_push_array\<close> relates it to
  the array of \<^verbatim>\<open>Stack.h\<close>.  What C++ leaves undefined (a shift by the width or more, an overflow of a signed
  type) or to the implementation (a shift of a negative number) has the value the compiled code happens to produce,
  a parameter about which nothing is known.  The recursion of \<open>parseValue\<close> and \<open>parseExpr\<close> is one partial
  function over the three places where it can be, and not returning is \<open>None\<close>; a result parameter that is not
  assigned is \<open>None\<close> inside it.
\<close>

section \<open>Operators\<close>

datatype oper = OPERATOR_NULL | OPERATOR_BITWISE_OR | OPERATOR_BITWISE_XOR | OPERATOR_BITWISE_AND
  | OPERATOR_BITWISE_SHL | OPERATOR_BITWISE_SHR | OPERATOR_ADDITION | OPERATOR_SUBTRACTION
  | OPERATOR_MULTIPLICATION | OPERATOR_DIVISION | OPERATOR_MODULO | OPERATOR_POWER | OPERATOR_EXPONENT

record operator =
  op_code :: oper
  op_precedence :: nat
  op_associativity :: char

definition null_operator :: operator where
  "null_operator = \<lparr>op_code = OPERATOR_NULL, op_precedence = 0, op_associativity = CHR ''L''\<rparr>"

definition MAX_STACK_SIZE :: nat where "MAX_STACK_SIZE = 20"

section \<open>Arithmetic of the template argument\<close>

record 'v int_type =
  is_signed :: bool
  undef :: "oper \<Rightarrow> 'v \<Rightarrow> 'v \<Rightarrow> 'v"

definition int_val :: "'a::len word int_type \<Rightarrow> 'a word \<Rightarrow> int" where
  "int_val ty x = (if is_signed ty then sint x else uint x)"

definition fits :: "'a::len word int_type \<Rightarrow> int \<Rightarrow> bool" where
  "fits ty i \<longleftrightarrow> (if is_signed ty then - (2 ^ (LENGTH('a) - 1)) \<le> i \<and> i < 2 ^ (LENGTH('a) - 1)
                   else 0 \<le> i \<and> i < 2 ^ LENGTH('a))"

text \<open>The result \<open>i\<close> of an operation: unsigned types wrap around, the overflow of a signed type is undefined.\<close>

definition wrapped :: "'a::len word int_type \<Rightarrow> oper \<Rightarrow> 'a word \<Rightarrow> 'a word \<Rightarrow> int \<Rightarrow> 'a word" where
  "wrapped ty c x y i = (if is_signed ty \<and> \<not> fits ty i then undef ty c x y else word_of_int i)"

definition ty_add :: "'a::len word int_type \<Rightarrow> 'a word \<Rightarrow> 'a word \<Rightarrow> 'a word" where
  "ty_add ty x y = wrapped ty OPERATOR_ADDITION x y (int_val ty x + int_val ty y)"

definition ty_sub :: "'a::len word int_type \<Rightarrow> 'a word \<Rightarrow> 'a word \<Rightarrow> 'a word" where
  "ty_sub ty x y = wrapped ty OPERATOR_SUBTRACTION x y (int_val ty x - int_val ty y)"

definition ty_mul :: "'a::len word int_type \<Rightarrow> 'a word \<Rightarrow> 'a word \<Rightarrow> 'a word" where
  "ty_mul ty x y = wrapped ty OPERATOR_MULTIPLICATION x y (int_val ty x * int_val ty y)"

definition shift_count_ok :: "'a::len word int_type \<Rightarrow> 'a word \<Rightarrow> 'a word \<Rightarrow> bool" where
  "shift_count_ok ty x y \<longleftrightarrow> 0 \<le> int_val ty y \<and> int_val ty y < int LENGTH('a) \<and> 0 \<le> int_val ty x"

definition ty_shl :: "'a::len word int_type \<Rightarrow> 'a word \<Rightarrow> 'a word \<Rightarrow> 'a word" where
  "ty_shl ty x y =
     (if shift_count_ok ty x y then wrapped ty OPERATOR_BITWISE_SHL x y (int_val ty x * 2 ^ nat (int_val ty y))
      else undef ty OPERATOR_BITWISE_SHL x y)"

definition ty_shr :: "'a::len word int_type \<Rightarrow> 'a word \<Rightarrow> 'a word \<Rightarrow> 'a word" where
  "ty_shr ty x y =
     (if shift_count_ok ty x y then drop_bit (unat y) x else undef ty OPERATOR_BITWISE_SHR x y)"

text \<open>Division of C++ cuts off towards zero, and the sign of a remainder is that of the dividend.\<close>

definition cut_div :: "int \<Rightarrow> int \<Rightarrow> int" where
  "cut_div i j = sgn i * sgn j * (\<bar>i\<bar> div \<bar>j\<bar>)"

definition ty_div :: "'a::len word int_type \<Rightarrow> 'a word \<Rightarrow> 'a word \<Rightarrow> 'a word" where
  "ty_div ty x y = wrapped ty OPERATOR_DIVISION x y (cut_div (int_val ty x) (int_val ty y))"

definition ty_mod :: "'a::len word int_type \<Rightarrow> 'a word \<Rightarrow> 'a word \<Rightarrow> 'a word" where
  "ty_mod ty x y =
     (let q = cut_div (int_val ty x) (int_val ty y)
      in if is_signed ty \<and> \<not> fits ty q then undef ty OPERATOR_MODULO x y
         else word_of_int (int_val ty x - int_val ty y * q))"

section \<open>Calculation\<close>

text \<open>\<open>pow\<close>: on a positive \<open>n\<close> the division and the remainder by 2 are those of an unsigned type.\<close>

function IEP_pow_loop :: "'a::len word int_type \<Rightarrow> 'a word \<Rightarrow> 'a word \<Rightarrow> 'a word \<Rightarrow> 'a word" where
  "IEP_pow_loop ty res x n =
     (if int_val ty n > 0 then
        let res = (if n mod 2 \<noteq> 0 then ty_mul ty res x else res);
            n = (if n mod 2 \<noteq> 0 then n - 1 else n) div 2
        in IEP_pow_loop ty res (if int_val ty n > 0 then ty_mul ty x x else x) n
      else res)"
  by pat_completeness auto
termination
proof (relation "measure (\<lambda>(ty, res, x, n). unat n)", simp)
  fix ty :: "'a word int_type" and res x n r m :: "'a word"
  assume "0 < int_val ty n"
  then have n: "0 < n" by (cases "n = 0") (auto simp: int_val_def word_neq_0_conv split: if_splits)
  assume m: "m = (if n mod 2 \<noteq> 0 then n - 1 else n) div 2"
  let ?k = "if n mod 2 \<noteq> 0 then n - 1 else n"
  have k: "unat ?k \<le> unat n" using n by (auto simp: unat_minus_one)
  have two: "unat (2 :: 'a word) \<noteq> 1"
  proof
    assume "unat (2 :: 'a word) = 1"
    then have "(2 :: 'a word) = 1" by (simp only: word_unat_eq_iff unat_1)
    then have "(1 :: 'a word) + 1 = 1 + 0" by simp
    then show False by (simp only: add_left_cancel) simp
  qed
  have "unat ?k div unat (2 :: 'a word) < unat n"
  proof (cases "unat (2 :: 'a word) = 0")
    case False
    then have "2 \<le> unat (2 :: 'a word)" using two by linarith
    then have "unat ?k div unat (2 :: 'a word) \<le> unat ?k div 2" by (intro div_le_mono2) simp_all
    also have "\<dots> < unat n" using k n by (auto simp: word_less_nat_alt)
    finally show ?thesis .
  qed (use n in \<open>simp add: word_less_nat_alt\<close>)
  then have "unat m < unat n" by (simp only: m unat_div)
  then show "((ty, r, if 0 < int_val ty m then ty_mul ty x x else x, m), ty, res, x, n) \<in> measure (\<lambda>(ty, res, x, n). unat n)" by simp
qed

declare IEP_pow_loop.simps [simp del]

definition IEP_pow :: "'a::len word int_type \<Rightarrow> 'a word \<Rightarrow> 'a word \<Rightarrow> 'a word" where
  "IEP_pow ty x n = IEP_pow_loop ty 1 x n"

text \<open>\<open>calculate\<close>: the new value, or the failure of a division by zero or an unknown operator.\<close>

fun IEP_calculate :: "'a::len word int_type \<Rightarrow> 'a word \<Rightarrow> 'a word \<Rightarrow> oper \<Rightarrow> 'a word option" where
  "IEP_calculate ty v1 v2 OPERATOR_BITWISE_OR = Some (v1 OR v2)"
| "IEP_calculate ty v1 v2 OPERATOR_BITWISE_XOR = Some (v1 XOR v2)"
| "IEP_calculate ty v1 v2 OPERATOR_BITWISE_AND = Some (v1 AND v2)"
| "IEP_calculate ty v1 v2 OPERATOR_BITWISE_SHL = Some (ty_shl ty v1 v2)"
| "IEP_calculate ty v1 v2 OPERATOR_BITWISE_SHR = Some (ty_shr ty v1 v2)"
| "IEP_calculate ty v1 v2 OPERATOR_ADDITION = Some (ty_add ty v1 v2)"
| "IEP_calculate ty v1 v2 OPERATOR_SUBTRACTION = Some (ty_sub ty v1 v2)"
| "IEP_calculate ty v1 v2 OPERATOR_MULTIPLICATION = Some (ty_mul ty v1 v2)"
| "IEP_calculate ty v1 v2 OPERATOR_POWER = Some (IEP_pow ty v1 v2)"
| "IEP_calculate ty v1 v2 OPERATOR_EXPONENT = Some (ty_mul ty v1 (IEP_pow ty 10 v2))"
| "IEP_calculate ty v1 v2 OPERATOR_DIVISION = (if v2 \<noteq> 0 then Some (ty_div ty v1 v2) else None)"
| "IEP_calculate ty v1 v2 OPERATOR_MODULO = (if v2 \<noteq> 0 then Some (ty_mod ty v1 v2) else None)"
| "IEP_calculate ty v1 v2 OPERATOR_NULL = None"

section \<open>The text\<close>

record 'v parser =
  m_expr :: string
  m_index :: nat
  m_stack :: "(operator \<times> 'v) list"

definition isEnd :: "'v parser \<Rightarrow> bool" where
  "isEnd p \<longleftrightarrow> m_index p \<ge> length (m_expr p)"

definition getCharacter :: "'v parser \<Rightarrow> char" where
  "getCharacter p = (if \<not> isEnd p then m_expr p ! m_index p else CHR 0x00)"

definition skip_char :: "'v parser \<Rightarrow> 'v parser" where
  "skip_char p = p\<lparr>m_index := m_index p + 1\<rparr>"

definition is_space :: "char \<Rightarrow> bool" where
  "is_space c \<longleftrightarrow> c \<in> {CHR '' '', CHR 0x09, CHR 0x0A, CHR 0x0B, CHR 0x0C, CHR 0x0D}"

function eatSpaces :: "'v parser \<Rightarrow> 'v parser" where
  "eatSpaces p = (if is_space (getCharacter p) then eatSpaces (skip_char p) else p)"
  by pat_completeness auto
termination
  by (relation "measure (\<lambda>p. length (m_expr p) - m_index p)")
    (auto simp: getCharacter_def isEnd_def skip_char_def is_space_def split: if_splits)

declare eatSpaces.simps [simp del]

definition mk_op :: "oper \<Rightarrow> nat \<Rightarrow> char \<Rightarrow> operator" where
  "mk_op opr prec assoc = \<lparr>op_code = opr, op_precedence = prec, op_associativity = assoc\<rparr>"

text \<open>\<open>parseOp\<close>: the operator, \<open>None\<close> for a syntax error, and the parser behind it.\<close>

definition parseOp :: "'v parser \<Rightarrow> operator option \<times> 'v parser" where
  "parseOp p0 =
     (let p = eatSpaces p0; c = getCharacter p; p1 = skip_char p
      in if c = CHR ''|'' then (Some (mk_op OPERATOR_BITWISE_OR 4 CHR ''L''), p1)
         else if c = CHR ''^'' then (Some (mk_op OPERATOR_BITWISE_XOR 5 CHR ''L''), p1)
         else if c = CHR ''&'' then (Some (mk_op OPERATOR_BITWISE_AND 6 CHR ''L''), p1)
         else if c = CHR ''<'' then
           (if getCharacter p1 = CHR ''<'' then (Some (mk_op OPERATOR_BITWISE_SHL 9 CHR ''L''), skip_char p1) else (None, p1))
         else if c = CHR ''>'' then
           (if getCharacter p1 = CHR ''>'' then (Some (mk_op OPERATOR_BITWISE_SHR 9 CHR ''L''), skip_char p1) else (None, p1))
         else if c = CHR ''+'' then (Some (mk_op OPERATOR_ADDITION 10 CHR ''L''), p1)
         else if c = CHR ''-'' then (Some (mk_op OPERATOR_SUBTRACTION 10 CHR ''L''), p1)
         else if c = CHR ''/'' then (Some (mk_op OPERATOR_DIVISION 20 CHR ''L''), p1)
         else if c = CHR ''%'' then (Some (mk_op OPERATOR_MODULO 20 CHR ''L''), p1)
         else if c = CHR ''*'' then
           (if getCharacter p1 \<noteq> CHR ''*'' then (Some (mk_op OPERATOR_MULTIPLICATION 20 CHR ''L''), p1)
            else (Some (mk_op OPERATOR_POWER 30 CHR ''R''), skip_char p1))
         else if c = CHR ''e'' then (Some (mk_op OPERATOR_EXPONENT 40 CHR ''R''), p1)
         else if c = CHR ''E'' then (Some (mk_op OPERATOR_EXPONENT 40 CHR ''R''), p1)
         else (Some null_operator, p))"

definition toInteger :: "char \<Rightarrow> 'a::len word" where
  "toInteger c =
     (let k = of_char c :: nat
      in if 48 \<le> k \<and> k \<le> 57 then word_of_nat (k - 48)
         else if 97 \<le> k \<and> k \<le> 102 then word_of_nat (k - 97 + 10)
         else if 65 \<le> k \<and> k \<le> 70 then word_of_nat (k - 65 + 10)
         else 16)"

text \<open>
  The loops of \<open>parseDecimal\<close> and \<open>parseHex\<close>, for the largest digit they accept and their base.  At
  the end of the text the digit is 16, so that the test for the end changes nothing.
\<close>

function digits_loop :: "'a::len word int_type \<Rightarrow> 'a word \<Rightarrow> 'a word \<Rightarrow> 'a word \<Rightarrow> 'a word parser \<Rightarrow> 'a word \<times> 'a word parser" where
  "digits_loop ty largest base v p =
     (let d = toInteger (getCharacter p)
      in if d \<le> largest \<and> \<not> isEnd p then digits_loop ty largest base (ty_add ty (ty_mul ty v base) d) (skip_char p) else (v, p))"
  by pat_completeness auto
termination
  by (relation "measure (\<lambda>(ty, l, b, v, p). length (m_expr p) - m_index p)")
    (auto simp: getCharacter_def isEnd_def skip_char_def)

declare digits_loop.simps [simp del]

definition parseDecimal :: "'a::len word int_type \<Rightarrow> 'a word parser \<Rightarrow> 'a word \<times> 'a word parser" where
  "parseDecimal ty p = digits_loop ty 9 10 0 p"

definition parseHex :: "'a::len word int_type \<Rightarrow> 'a word parser \<Rightarrow> 'a word \<times> 'a word parser" where
  "parseHex ty p = digits_loop ty 0xf 0x10 0 (p\<lparr>m_index := m_index p + 2\<rparr>)"

definition isHex :: "'a::len word parser \<Rightarrow> bool" where
  "isHex p =
     (if m_index p + 2 < length (m_expr p)
      then let x = m_expr p ! (m_index p + 1); h = m_expr p ! (m_index p + 2)
           in (x = CHR ''x'' \<or> x = CHR ''X'') \<and> (toInteger h :: 'a word) \<le> 0xf
      else False)"

section \<open>Values and expressions\<close>

definition stack_push :: "(operator \<times> 'v) \<Rightarrow> 'v parser \<Rightarrow> bool \<times> 'v parser" where
  "stack_push x p =
     (if length (m_stack p) = MAX_STACK_SIZE then (False, p) else (True, p\<lparr>m_stack := x # m_stack p\<rparr>))"

lemma stack_push_array:
  assumes "stack_ok s" and "stk_maxItems s = MAX_STACK_SIZE" and "stack_contents s = m_stack p"
  shows "\<exists>s'. Stack_push s x = Some (fst (stack_push x p), s') \<and> stack_ok s' \<and> stk_maxItems s' = MAX_STACK_SIZE \<and>
    stack_contents s' = m_stack (snd (stack_push x p))"
proof (cases "length (m_stack p) = MAX_STACK_SIZE")
  case True
  then show ?thesis using astack.push_full [OF assms(1), of x] assms by (auto simp: stack_push_def)
next
  case False
  then show ?thesis using astack.push_room [OF assms(1), of x] astack.depth [OF assms(1)] assms by (auto simp: stack_push_def)
qed

definition must_reduce :: "operator \<Rightarrow> operator \<Rightarrow> bool" where
  "must_reduce opr topOp \<longleftrightarrow> op_precedence opr < op_precedence topOp \<or>
     (op_precedence opr = op_precedence topOp \<and> op_associativity opr = CHR ''L'')"

text \<open>
  The inner loop of \<open>parseExpr\<close> over the stack: the value of the expression (\<open>Done\<close>), a failure, or
  the value with which to go on, each with the stack that is left.
\<close>

datatype 'v reduced = Done 'v | Failed | Shift 'v

fun reduce_stack :: "'a::len word int_type \<Rightarrow> operator \<Rightarrow> 'a word \<Rightarrow> (operator \<times> 'a word) list \<Rightarrow> 'a word reduced \<times> (operator \<times> 'a word) list" where
  "reduce_stack ty opr value [] = (Failed, [])"
| "reduce_stack ty opr value ((topOp, topValue) # stk) =
     (if must_reduce opr topOp then
        if op_code topOp = OPERATOR_NULL then (Done value, stk)
        else case IEP_calculate ty topValue value (op_code topOp) of
               None \<Rightarrow> (Failed, (topOp, topValue) # stk)
             | Some v \<Rightarrow> reduce_stack ty opr v stk
      else (Shift value, (topOp, topValue) # stk))"

datatype 'v place = At_value | At_expr | At_operator 'v

partial_function (option) parse_run ::
    "'a::len word int_type \<Rightarrow> 'a word place \<Rightarrow> 'a word parser \<Rightarrow> ('a word option \<times> 'a word parser) option" where
  "parse_run ty place p =
     (case place of
        At_value \<Rightarrow>
          (let p = eatSpaces p; c = getCharacter p; p1 = skip_char p
           in if c = CHR ''0'' then
                let (v, p2) = (if isHex p then parseHex ty p else parseDecimal ty p) in Some (Some v, p2)
              else if c \<in> set ''123456789'' then
                let (v, p2) = parseDecimal ty p in Some (Some v, p2)
              else if c = CHR ''('' then do {
                (r, p2) \<leftarrow> parse_run ty At_expr p1;
                case r of None \<Rightarrow> Some (None, p2)
                | Some v \<Rightarrow>
                    let p3 = eatSpaces p2
                    in if getCharacter p3 \<noteq> CHR '')'' then Some (None, p3) else Some (Some v, skip_char p3)
              }
              else if c = CHR ''~'' then do {
                (r, p2) \<leftarrow> parse_run ty At_value p1;
                case r of None \<Rightarrow> Some (None, p2) | Some v \<Rightarrow> Some (Some (NOT v), p2)
              }
              else if c = CHR ''+'' then do {
                (r, p2) \<leftarrow> parse_run ty At_value p1;
                case r of None \<Rightarrow> Some (None, p2) | Some v \<Rightarrow> Some (Some v, p2)
              }
              else if c = CHR ''-'' then do {
                (r, p2) \<leftarrow> parse_run ty At_value p1;
                case r of None \<Rightarrow> Some (None, p2) | Some v \<Rightarrow> Some (Some (ty_mul ty v (- 1)), p2)
              }
              else if \<not> isEnd p then Some (None, p) else Some (Some 0, p))
      | At_expr \<Rightarrow> do {
          let (pushed, p1) = stack_push (null_operator, 0) p;
          (r, p2) \<leftarrow> parse_run ty At_value p1;
          case r of None \<Rightarrow> Some (None, p2) | Some v \<Rightarrow> parse_run ty (At_operator v) p2
        }
      | At_operator v \<Rightarrow>
          (if m_stack p = [] then Some (None, p)
           else case parseOp p of
             (None, p1) \<Rightarrow> Some (None, p1)
           | (Some opr, p1) \<Rightarrow>
               (case reduce_stack ty opr v (m_stack p1) of
                  (Done v1, stk) \<Rightarrow> Some (Some v1, p1\<lparr>m_stack := stk\<rparr>)
                | (Failed, stk) \<Rightarrow> Some (None, p1\<lparr>m_stack := stk\<rparr>)
                | (Shift v1, stk) \<Rightarrow>
                    (let (pushed, p2) = stack_push (opr, v1) (p1\<lparr>m_stack := stk\<rparr>)
                     in if \<not> pushed then Some (None, p2)
                        else do {
                          (r, p3) \<leftarrow> parse_run ty At_value p2;
                          case r of None \<Rightarrow> Some (None, p3) | Some v2 \<Rightarrow> parse_run ty (At_operator v2) p3
                        }))))"

text \<open>The recursive equation at each of the three places.\<close>

lemma parse_value_eq [code]:
  "parse_run ty At_value p =
          (let p = eatSpaces p; c = getCharacter p; p1 = skip_char p
           in if c = CHR ''0'' then
                let (v, p2) = (if isHex p then parseHex ty p else parseDecimal ty p) in Some (Some v, p2)
              else if c \<in> set ''123456789'' then
                let (v, p2) = parseDecimal ty p in Some (Some v, p2)
              else if c = CHR ''('' then do {
                (r, p2) \<leftarrow> parse_run ty At_expr p1;
                case r of None \<Rightarrow> Some (None, p2)
                | Some v \<Rightarrow>
                    let p3 = eatSpaces p2
                    in if getCharacter p3 \<noteq> CHR '')'' then Some (None, p3) else Some (Some v, skip_char p3)
              }
              else if c = CHR ''~'' then do {
                (r, p2) \<leftarrow> parse_run ty At_value p1;
                case r of None \<Rightarrow> Some (None, p2) | Some v \<Rightarrow> Some (Some (NOT v), p2)
              }
              else if c = CHR ''+'' then do {
                (r, p2) \<leftarrow> parse_run ty At_value p1;
                case r of None \<Rightarrow> Some (None, p2) | Some v \<Rightarrow> Some (Some v, p2)
              }
              else if c = CHR ''-'' then do {
                (r, p2) \<leftarrow> parse_run ty At_value p1;
                case r of None \<Rightarrow> Some (None, p2) | Some v \<Rightarrow> Some (Some (ty_mul ty v (- 1)), p2)
              }
              else if \<not> isEnd p then Some (None, p) else Some (Some 0, p))"
  by (subst parse_run.simps) (simp only: place.case)

lemma parse_expr_eq [code]:
  "parse_run ty At_expr p = do {
          let (pushed, p1) = stack_push (null_operator, 0) p;
          (r, p2) \<leftarrow> parse_run ty At_value p1;
          case r of None \<Rightarrow> Some (None, p2) | Some v \<Rightarrow> parse_run ty (At_operator v) p2
        }"
  by (subst parse_run.simps) (simp only: place.case)

lemma parse_operator_eq [code]:
  "parse_run ty (At_operator v) p =
          (if m_stack p = [] then Some (None, p)
           else case parseOp p of
             (None, p1) \<Rightarrow> Some (None, p1)
           | (Some opr, p1) \<Rightarrow>
               (case reduce_stack ty opr v (m_stack p1) of
                  (Done v1, stk) \<Rightarrow> Some (Some v1, p1\<lparr>m_stack := stk\<rparr>)
                | (Failed, stk) \<Rightarrow> Some (None, p1\<lparr>m_stack := stk\<rparr>)
                | (Shift v1, stk) \<Rightarrow>
                    (let (pushed, p2) = stack_push (opr, v1) (p1\<lparr>m_stack := stk\<rparr>)
                     in if \<not> pushed then Some (None, p2)
                        else do {
                          (r, p3) \<leftarrow> parse_run ty At_value p2;
                          case r of None \<Rightarrow> Some (None, p3) | Some v2 \<Rightarrow> parse_run ty (At_operator v2) p3
                        })))"
  by (subst parse_run.simps) (simp only: place.case)

definition parseValue :: "'a::len word int_type \<Rightarrow> 'a word parser \<Rightarrow> ('a word option \<times> 'a word parser) option" where
  "parseValue ty p = parse_run ty At_value p"

definition parseExpr :: "'a::len word int_type \<Rightarrow> 'a word parser \<Rightarrow> ('a word option \<times> 'a word parser) option" where
  "parseExpr ty p = parse_run ty At_expr p"

text \<open>\<open>eval\<close>: whether the expression was evaluated, and the result parameter, which is 0 until it is assigned.\<close>

definition IEP_eval :: "'a::len word int_type \<Rightarrow> string \<Rightarrow> (bool \<times> 'a word) option" where
  "IEP_eval ty expressionAsText = do {
     let result = 0;
     (r, p) \<leftarrow> parseExpr ty \<lparr>m_expr = expressionAsText, m_index = 0, m_stack = []\<rparr>;
     case r of None \<Rightarrow> Some (False, result) | Some v \<Rightarrow> Some (True, v)
   }"

section \<open>The parser returns\<close>

definition rem :: "'v parser \<Rightarrow> nat" where
  "rem p = length (m_expr p) - m_index p"

text \<open>What moving on in the text leaves as it is.\<close>

definition moved :: "'v parser \<Rightarrow> 'v parser \<Rightarrow> bool" where
  "moved p p' \<longleftrightarrow> m_expr p' = m_expr p \<and> m_stack p' = m_stack p \<and> rem p' \<le> rem p"

lemma moved_refl [simp]: "moved p p"
  by (simp add: moved_def)

lemma moved_trans: "moved p q \<Longrightarrow> moved q r \<Longrightarrow> moved p r"
  by (simp add: moved_def)

lemma moved_skip [simp]: "moved p (skip_char p)"
  by (simp add: moved_def skip_char_def rem_def)

lemma rem_skip: "getCharacter p \<noteq> CHR 0x00 \<Longrightarrow> rem (skip_char p) < rem p"
  by (auto simp: rem_def skip_char_def getCharacter_def isEnd_def split: if_splits)

lemma moved_eatSpaces [simp]: "moved p (eatSpaces p)"
proof (induction p rule: eatSpaces.induct)
  case (1 p)
  then show ?case by (subst eatSpaces.simps) (auto intro: moved_trans [OF moved_skip])
qed

lemma moved_digits: "digits_loop ty l b v p = (v', p') \<Longrightarrow> moved p p'"
proof (induction ty l b v p rule: digits_loop.induct)
  case (1 ty l b v p)
  then show ?case
    by (cases "toInteger (getCharacter p) \<le> l \<and> \<not> isEnd p")
      (auto simp: digits_loop.simps [of ty l b v p] Let_def intro: moved_trans [OF moved_skip])
qed

lemma moved_numbers: "parseDecimal ty p = (v, p') \<Longrightarrow> moved p p'" "parseHex ty p = (v, p') \<Longrightarrow> moved p p'"
proof -
  show "parseDecimal ty p = (v, p') \<Longrightarrow> moved p p'" by (simp add: parseDecimal_def moved_digits)
  have "moved p (p\<lparr>m_index := m_index p + 2\<rparr>)" by (simp add: moved_def rem_def)
  then show "parseHex ty p = (v, p') \<Longrightarrow> moved p p'" unfolding parseHex_def by (metis moved_digits moved_trans)
qed

lemma parseOp_moves:
  assumes "parseOp p = (r, p')"
  shows "moved p p'" and "r = Some null_operator \<or> rem p' < rem p"
proof -
  let ?p = "eatSpaces p"
  have m: "moved ?p (skip_char ?p)" "moved ?p (skip_char (skip_char ?p))" by (auto intro: moved_trans [OF moved_skip])
  have cases: "p' = ?p \<and> r = Some null_operator \<or> (p' = skip_char ?p \<or> p' = skip_char (skip_char ?p)) \<and> getCharacter ?p \<noteq> CHR 0x00"
    using assms by (auto simp: parseOp_def Let_def split: if_splits)
  then show "moved p p'" using m by (auto intro: moved_trans [OF moved_eatSpaces])
  have "rem ?p \<le> rem p" using moved_eatSpaces [of p] by (simp add: moved_def)
  moreover have "rem (skip_char (skip_char ?p)) \<le> rem (skip_char ?p)" using moved_skip [of "skip_char ?p"] by (simp add: moved_def)
  ultimately show "r = Some null_operator \<or> rem p' < rem p" using cases rem_skip [of ?p] by auto
qed

lemma reduce_null: "reduce_stack ty null_operator v stk \<noteq> (Shift w, stk')"
  by (induction ty null_operator v stk rule: reduce_stack.induct)
    (auto simp: must_reduce_def null_operator_def split: option.split)

lemma reduce_length: "reduce_stack ty opr v stk = (r, stk') \<Longrightarrow> length stk' \<le> length stk"
  by (induction ty opr v stk rule: reduce_stack.induct) (auto split: if_splits option.splits)

text \<open>A run returns, does not move back, and keeps the stack within its size.\<close>

definition returns :: "'a::len word int_type \<Rightarrow> 'a word place \<Rightarrow> 'a word parser \<Rightarrow> bool" where
  "returns ty place p \<longleftrightarrow> (\<exists>r p'. parse_run ty place p = Some (r, p') \<and> m_expr p' = m_expr p \<and> rem p' \<le> rem p \<and>
     length (m_stack p') \<le> MAX_STACK_SIZE)"

fun place_rank :: "'v place \<Rightarrow> nat" where
  "place_rank At_value = 0"
| "place_rank (At_operator v) = 1"
| "place_rank At_expr = 2"

lemma returnsI:
  "parse_run ty place p = Some (r, p') \<Longrightarrow> m_expr p' = m_expr p \<Longrightarrow> rem p' \<le> rem p \<Longrightarrow> length (m_stack p') \<le> MAX_STACK_SIZE \<Longrightarrow>
   returns ty place p"
  by (auto simp: returns_def)

lemma parse_run_returns:
  fixes p :: "'a::len word parser"
  assumes "length (m_stack p) \<le> MAX_STACK_SIZE"
  shows "returns ty place p"
  using assms
proof (induction "3 * rem p + place_rank place" arbitrary: place p rule: less_induct)
  case less
  note IH = less.hyps
  show ?case
  proof (cases place)
    case At_value
    define q where "q = eatSpaces p"
    have q: "moved p q" "moved p (skip_char q)" unfolding q_def by (auto intro: moved_trans [OF moved_eatSpaces])
    have unary: "\<exists>r p2. parse_run ty pl (skip_char q) = Some (r, p2) \<and> m_expr p2 = m_expr p \<and> rem p2 \<le> rem p \<and> length (m_stack p2) \<le> MAX_STACK_SIZE"
      if "getCharacter q \<noteq> CHR 0x00" for pl
    proof -
      have "rem (skip_char q) < rem p" using rem_skip [OF that] q(1) by (simp add: moved_def)
      then have "returns ty pl (skip_char q)"
        using IH [of "skip_char q" pl] less.prems q(2) by (cases pl) (auto simp: moved_def)
      then show ?thesis using q(2) by (auto simp: returns_def moved_def)
    qed
    have stk: "length (m_stack p') \<le> MAX_STACK_SIZE" if "moved p p'" for p' using that less.prems by (simp add: moved_def)
    let ?c = "getCharacter q"
    consider "?c = CHR ''0''" | "?c \<in> set ''123456789''" | "?c = CHR ''(''" | "?c = CHR ''~''" | "?c = CHR ''+''" | "?c = CHR ''-''"
      | "?c \<notin> set ''0123456789(~+-''" by auto
    then show ?thesis unfolding At_value
    proof cases
      case 1
      obtain v p' where v: "(if isHex q then parseHex ty q else parseDecimal ty q) = (v, p')" by fastforce
      then have "moved p p'" using moved_numbers q(1) moved_trans by (metis (full_types))
      with v 1 stk show "returns ty At_value p"
        by (intro returnsI [of _ _ _ "Some v" p']) (subst parse_run.simps, simp_all add: q_def [symmetric] Let_def moved_def)
    next
      case 2
      obtain v p' where v: "parseDecimal ty q = (v, p')" by fastforce
      then have "moved p p'" using moved_numbers(1) q(1) moved_trans by blast
      with v 2 stk show "returns ty At_value p"
        by (intro returnsI [of _ _ _ "Some v" p']) (subst parse_run.simps, auto simp: q_def [symmetric] Let_def moved_def)
    next
      case 3
      obtain r p2 where v: "parse_run ty At_expr (skip_char q) = Some (r, p2)" "m_expr p2 = m_expr p" "rem p2 \<le> rem p"
        "length (m_stack p2) \<le> MAX_STACK_SIZE" using unary [of At_expr] 3 by auto
      have m: "moved p2 (eatSpaces p2)" "moved p2 (skip_char (eatSpaces p2))" by (auto intro: moved_trans [OF moved_eatSpaces])
      have "\<exists>r p'. parse_run ty At_value p = Some (r, p') \<and> (p' = p2 \<or> p' = eatSpaces p2 \<or> p' = skip_char (eatSpaces p2))"
        using 3 v(1) by (subst parse_run.simps) (cases r; auto simp: q_def [symmetric] Let_def)
      then show "returns ty At_value p" using m v by (auto simp: returns_def moved_def)
    next
      case 4
      then show "returns ty At_value p"
        using unary [of At_value]
        by (auto simp: returns_def parse_run.simps [of ty At_value p] q_def [symmetric] Let_def split: option.split)
    next
      case 5
      then show "returns ty At_value p"
        using unary [of At_value]
        by (auto simp: returns_def parse_run.simps [of ty At_value p] q_def [symmetric] Let_def split: option.split)
    next
      case 6
      then show "returns ty At_value p"
        using unary [of At_value]
        by (auto simp: returns_def parse_run.simps [of ty At_value p] q_def [symmetric] Let_def split: option.split)
    next
      case 7
      then show "returns ty At_value p"
        using q(1) stk [of q] by (auto simp: returns_def parse_run.simps [of ty At_value p] q_def [symmetric] Let_def moved_def)
    qed
  next
    case At_expr
    obtain b p1 where s: "stack_push (null_operator, 0 :: 'a word) p = (b, p1)" by fastforce
    then have p1: "m_expr p1 = m_expr p" "rem p1 = rem p" "length (m_stack p1) \<le> MAX_STACK_SIZE"
      using less.prems by (auto simp: stack_push_def rem_def split: if_splits)
    then have "returns ty At_value p1" using IH [of p1 At_value] At_expr by simp
    then obtain r p2 where v: "parse_run ty At_value p1 = Some (r, p2)" "m_expr p2 = m_expr p" "rem p2 \<le> rem p"
      "length (m_stack p2) \<le> MAX_STACK_SIZE" using p1 by (auto simp: returns_def)
    then have "returns ty (At_operator (the r)) p2" using IH [of p2 "At_operator (the r)"] At_expr by simp
    with s v show ?thesis
      by (cases r) (auto simp: returns_def parse_run.simps [of ty At_expr p] At_expr)
  next
    case (At_operator v)
    show ?thesis
    proof (cases "m_stack p = []")
      case True
      then show ?thesis using At_operator less.prems by (auto simp: returns_def parse_run.simps [of ty "At_operator v" p])
    next
      case False
      obtain r p1 where o: "parseOp p = (r, p1)" by fastforce
      note m = parseOp_moves [OF o]
      have p1: "m_expr p1 = m_expr p" "rem p1 \<le> rem p" "length (m_stack p1) \<le> MAX_STACK_SIZE"
        using m(1) less.prems by (simp_all add: moved_def)
      show ?thesis
      proof (cases r)
        case None
        then show ?thesis using False o p1 At_operator by (auto simp: returns_def parse_run.simps [of ty "At_operator v" p])
      next
        case (Some opr)
        obtain res stk where red: "reduce_stack ty opr v (m_stack p1) = (res, stk)" by fastforce
        have len: "length stk \<le> MAX_STACK_SIZE" using reduce_length [OF red] p1(3) by simp
        show ?thesis
        proof (cases "\<exists>w. res = Shift w")
          case False
          then show ?thesis
            using \<open>m_stack p \<noteq> []\<close> o p1 At_operator Some red len
            by (cases res) (auto simp: returns_def parse_run.simps [of ty "At_operator v" p] rem_def)
        next
          case True
          then obtain w where w: "res = Shift w" by blast
          then have "opr \<noteq> null_operator" using red reduce_null by metis
          then have less_rem: "rem p1 < rem p" using m(2) Some by simp
          obtain b p2 where s: "stack_push (opr, w) (p1\<lparr>m_stack := stk\<rparr>) = (b, p2)" by fastforce
          then have p2: "m_expr p2 = m_expr p" "rem p2 = rem p1" "length (m_stack p2) \<le> MAX_STACK_SIZE"
            using p1 len by (auto simp: stack_push_def rem_def split: if_splits)
          then have "returns ty At_value p2" using IH [of p2 At_value] less_rem by simp
          then obtain r2 p3 where v: "parse_run ty At_value p2 = Some (r2, p3)" "m_expr p3 = m_expr p" "rem p3 \<le> rem p1"
            "length (m_stack p3) \<le> MAX_STACK_SIZE" using p2 by (auto simp: returns_def)
          then have "returns ty (At_operator (the r2)) p3" using IH [of p3 "At_operator (the r2)"] less_rem At_operator by simp
          with \<open>m_stack p \<noteq> []\<close> o p1 p2 At_operator Some red w s v less_rem show ?thesis
            by (cases b; cases r2) (auto simp: returns_def parse_run.simps [of ty "At_operator v" p])
        qed
      qed
    qed
  qed
qed

end
