(* ===== verification/Expression_Texts.thy ===== *)
theory Expression_Texts
  imports Expression_Parser
begin

text \<open>
  What the integer expression parser computes: the value of an expression from any of its texts, for signed and
  unsigned types.
\<close>

section \<open>Expressions and their texts\<close>

text \<open>
  A syntax tree with its layout: the white space in front of every token is part of the tree, and so are the
  parentheses, needed or not.  A number is a sequence of decimal digits, leading zeros included.
\<close>

datatype unary = Complement | Positive | Negative

datatype expr = Number string "nat list" | Unary string unary expr | Paren string expr string | Binary expr string oper expr

fun op_symbol :: "oper \<Rightarrow> string" where
  "op_symbol OPERATOR_BITWISE_OR = ''|''"
| "op_symbol OPERATOR_BITWISE_XOR = ''^''"
| "op_symbol OPERATOR_BITWISE_AND = ''&''"
| "op_symbol OPERATOR_BITWISE_SHL = ''<<''"
| "op_symbol OPERATOR_BITWISE_SHR = ''>>''"
| "op_symbol OPERATOR_ADDITION = ''+''"
| "op_symbol OPERATOR_SUBTRACTION = ''-''"
| "op_symbol OPERATOR_MULTIPLICATION = ''*''"
| "op_symbol OPERATOR_DIVISION = ''/''"
| "op_symbol OPERATOR_MODULO = ''%''"
| "op_symbol OPERATOR_POWER = ''**''"
| "op_symbol OPERATOR_EXPONENT = ''e''"
| "op_symbol OPERATOR_NULL = []"

text \<open>The usual precedences; the two powers associate to the right.\<close>

fun precedence_of :: "oper \<Rightarrow> nat" where
  "precedence_of OPERATOR_BITWISE_OR = 4"
| "precedence_of OPERATOR_BITWISE_XOR = 5"
| "precedence_of OPERATOR_BITWISE_AND = 6"
| "precedence_of OPERATOR_BITWISE_SHL = 9"
| "precedence_of OPERATOR_BITWISE_SHR = 9"
| "precedence_of OPERATOR_ADDITION = 10"
| "precedence_of OPERATOR_SUBTRACTION = 10"
| "precedence_of OPERATOR_MULTIPLICATION = 20"
| "precedence_of OPERATOR_DIVISION = 20"
| "precedence_of OPERATOR_MODULO = 20"
| "precedence_of OPERATOR_POWER = 30"
| "precedence_of OPERATOR_EXPONENT = 40"
| "precedence_of OPERATOR_NULL = 0"

definition right_assoc :: "oper \<Rightarrow> bool" where
  "right_assoc c \<longleftrightarrow> c = OPERATOR_POWER \<or> c = OPERATOR_EXPONENT"

definition operator_of :: "oper \<Rightarrow> operator" where
  "operator_of c = mk_op c (precedence_of c) (if right_assoc c then CHR ''R'' else CHR ''L'')"

fun unary_symbol :: "unary \<Rightarrow> char" where
  "unary_symbol Complement = CHR ''~''"
| "unary_symbol Positive = CHR ''+''"
| "unary_symbol Negative = CHR ''-''"

text \<open>
  The value of an expression: a value of the type, a reported failure, or nothing that C++ defines.  The operations
  are those of the integers the operands stand for; a result is taken modulo the range of an unsigned type and has to
  fit into a signed one.
\<close>

datatype 'v ev = Val 'v | Fail | Undef

fun ev_bind :: "'v ev \<Rightarrow> ('v \<Rightarrow> 'w ev) \<Rightarrow> 'w ev" where
  "ev_bind (Val v) f = f v"
| "ev_bind Fail f = Fail"
| "ev_bind Undef f = Undef"

definition norm :: "'a::len word int_type \<Rightarrow> int \<Rightarrow> 'a word ev" where
  "norm ty i = (if is_signed ty \<and> \<not> fits ty i then Undef else Val (word_of_int i))"

fun unary_value :: "'a::len word int_type \<Rightarrow> unary \<Rightarrow> 'a word \<Rightarrow> 'a word ev" where
  "unary_value ty Complement v = Val (NOT v)"
| "unary_value ty Positive v = Val v"
| "unary_value ty Negative v = norm ty (- int_val ty v)"

fun int_oper :: "'a::len word int_type \<Rightarrow> int \<Rightarrow> int \<Rightarrow> oper \<Rightarrow> 'a word ev" where
  "int_oper ty i j OPERATOR_BITWISE_OR = Val (word_of_int (i OR j))"
| "int_oper ty i j OPERATOR_BITWISE_XOR = Val (word_of_int (i XOR j))"
| "int_oper ty i j OPERATOR_BITWISE_AND = Val (word_of_int (i AND j))"
| "int_oper (ty :: 'a word int_type) i j OPERATOR_BITWISE_SHL =
     (if 0 \<le> i \<and> 0 \<le> j \<and> j < int LENGTH('a) then norm ty (i * 2 ^ nat j) else Undef)"
| "int_oper (ty :: 'a word int_type) i j OPERATOR_BITWISE_SHR =
     (if 0 \<le> i \<and> 0 \<le> j \<and> j < int LENGTH('a) then Val (word_of_int (i div 2 ^ nat j)) else Undef)"
| "int_oper ty i j OPERATOR_ADDITION = norm ty (i + j)"
| "int_oper ty i j OPERATOR_SUBTRACTION = norm ty (i - j)"
| "int_oper ty i j OPERATOR_MULTIPLICATION = norm ty (i * j)"
| "int_oper ty i j OPERATOR_POWER = norm ty (i ^ nat j)"
| "int_oper ty i j OPERATOR_EXPONENT =
     (if is_signed ty \<and> \<not> fits ty (10 ^ nat j) then Undef else norm ty (i * 10 ^ nat j))"
| "int_oper ty i j OPERATOR_DIVISION = (if j = 0 then Fail else norm ty (cut_div i j))"
| "int_oper ty i j OPERATOR_MODULO =
     (if j = 0 then Fail else if is_signed ty \<and> \<not> fits ty (cut_div i j) then Undef
      else Val (word_of_int (i - j * cut_div i j)))"
| "int_oper ty i j OPERATOR_NULL = Fail"

definition oper_value :: "'a::len word int_type \<Rightarrow> 'a word \<Rightarrow> 'a word \<Rightarrow> oper \<Rightarrow> 'a word ev" where
  "oper_value ty x y c = int_oper ty (int_val ty x) (int_val ty y) c"

definition number_value :: "nat list \<Rightarrow> nat" where
  "number_value ds = foldl (\<lambda>v d. v * 10 + d) 0 ds"

fun expr_value :: "'a::len word int_type \<Rightarrow> expr \<Rightarrow> 'a word ev" where
  "expr_value ty (Number sp ds) = norm ty (int (number_value ds))"
| "expr_value ty (Unary sp u e) = ev_bind (expr_value ty e) (unary_value ty u)"
| "expr_value ty (Paren sp e sp') = expr_value ty e"
| "expr_value ty (Binary a sp c b) = ev_bind (expr_value ty a) (\<lambda>x. ev_bind (expr_value ty b) (\<lambda>y. oper_value ty x y c))"

fun level :: "expr \<Rightarrow> nat" where
  "level (Binary a sp c b) = precedence_of c"
| "level e = 50"

definition digit_char :: "nat \<Rightarrow> char" where
  "digit_char d = char_of (48 + d)"

fun render :: "expr \<Rightarrow> string" where
  "render (Number sp ds) = sp @ map digit_char ds"
| "render (Unary sp u e) = sp @ [unary_symbol u] @ render e"
| "render (Paren sp e sp') = sp @ ''('' @ render e @ sp' @ '')''"
| "render (Binary a sp c b) = render a @ sp @ op_symbol c @ render b"

text \<open>The stack entries an expression needs.\<close>

fun depth :: "expr \<Rightarrow> nat" where
  "depth (Number sp ds) = 0"
| "depth (Unary sp u e) = depth e"
| "depth (Paren sp e sp') = Suc (depth e)"
| "depth (Binary a sp c b) = max (depth a) (Suc (depth b))"

abbreviation blank :: "string \<Rightarrow> bool" where
  "blank sp \<equiv> \<forall>c\<in>set sp. is_space c"

text \<open>
  The grammar: only white space where white space is, digits in numbers, and operands that bind more tightly than the
  operator they stand at, or as tightly on the side to which it associates.
\<close>

fun wf_expr :: "expr \<Rightarrow> bool" where
  "wf_expr (Number sp ds) \<longleftrightarrow> blank sp \<and> ds \<noteq> [] \<and> (\<forall>d\<in>set ds. d < 10)"
| "wf_expr (Unary sp u e) \<longleftrightarrow> blank sp \<and> wf_expr e \<and> level e = 50"
| "wf_expr (Paren sp e sp') \<longleftrightarrow> blank sp \<and> blank sp' \<and> wf_expr e"
| "wf_expr (Binary a sp c b) \<longleftrightarrow> blank sp \<and> c \<noteq> OPERATOR_NULL \<and> wf_expr a \<and> wf_expr b \<and>
     (precedence_of c < level a \<or> precedence_of c = level a \<and> \<not> right_assoc c) \<and>
     (precedence_of c < level b \<or> precedence_of c = level b \<and> right_assoc c)"

section \<open>The operations\<close>

lemma two_word: "2 \<le> LENGTH('a::len) \<Longrightarrow> unat (2 :: 'a word) = 2"
  using power_increasing [of 2 "LENGTH('a)" "2 :: nat"] unat_of_nat_small [of 2, where 'a = 'a] by simp

lemma word_of_int_val [simp]: "word_of_int (int_val ty x) = x"
  by (simp add: int_val_def)

lemma int_val_fits: "fits ty i \<Longrightarrow> int_val ty (word_of_int i) = i"
  by (auto simp: int_val_def fits_def signed_of_int uint_word_of_int signed_take_bit_int_eq_self split: if_splits)

lemma fits_int_val [simp]: "fits ty (int_val ty x)"
  using sint_greater_eq [of x] sint_less [of x] by (simp add: fits_def int_val_def)

lemma norm_wrapped: "norm ty i = Val v \<Longrightarrow> wrapped ty c x y i = v"
  by (auto simp: norm_def wrapped_def split: if_splits)

lemma unsigned_mul: "\<not> is_signed ty \<Longrightarrow> ty_mul ty x y = x * y"
  by (simp add: ty_mul_def wrapped_def int_val_def)

lemma signed_mul:
  assumes "is_signed ty" "fits ty (sint x * sint y)" shows "ty_mul ty x y = x * y" "sint (x * y) = sint x * sint y"
proof -
  show r: "ty_mul ty x y = x * y" using assms by (simp add: ty_mul_def wrapped_def int_val_def)
  have "x * y = word_of_int (sint x * sint y)" by simp
  with int_val_fits [OF assms(2)] assms(1) show "sint (x * y) = sint x * sint y" by (simp only: int_val_def if_True)
qed

subsection \<open>Powers\<close>

text \<open>One turn of the loop: the exponent is halved.\<close>

lemma halved:
  fixes n :: "'a::len word"
  assumes "2 \<le> LENGTH('a)" "n \<noteq> 0"
  shows "n mod 2 \<noteq> 0 \<longleftrightarrow> odd (unat n)" "unat ((if n mod 2 \<noteq> 0 then n - 1 else n) div 2) = unat n div 2"
proof -
  note two = two_word [OF assms(1)]
  show odd: "n mod 2 \<noteq> 0 \<longleftrightarrow> odd (unat n)"
    using two by (simp add: word_unat_eq_iff unat_mod odd_iff_mod_2_eq_one)
  show "unat ((if n mod 2 \<noteq> 0 then n - 1 else n) div 2) = unat n div 2"
    using odd two assms(2) by (auto simp: unat_div unat_minus_one elim!: oddE)
qed

lemma power_halved: "(x :: 'b::comm_monoid_mult) ^ n = (if odd n then x else 1) * (x * x) ^ (n div 2)"
  by (cases "odd n") (auto elim!: oddE evenE simp: power_mult power2_eq_square power_mult_distrib)

lemma pow_loop_unsigned:
  fixes x :: "'a::len word"
  assumes "2 \<le> LENGTH('a)" "\<not> is_signed ty"
  shows "IEP_pow_loop ty res x n = res * x ^ unat n"
  using assms(2)
proof (induction ty res x n rule: IEP_pow_loop.induct)
  case (1 ty res x n)
  have pos: "0 < int_val ty k \<longleftrightarrow> k \<noteq> 0" for k :: "'a word"
    using 1(2) by (simp add: int_val_def word_neq_0_conv word_less_def)
  show ?case
  proof (cases "n = 0")
    case True
    then show ?thesis using pos by (subst IEP_pow_loop.simps) simp
  next
    case False
    let ?m = "(if n mod 2 \<noteq> 0 then n - 1 else n) div 2"
    note half = halved [OF assms(1) False]
    have "IEP_pow_loop ty res x n = (if n mod 2 \<noteq> 0 then res * x else res) * (if ?m \<noteq> 0 then x * x else x) ^ unat ?m"
      using 1(1) [OF _ refl refl] 1(2) False pos by (subst IEP_pow_loop.simps) (simp add: unsigned_mul Let_def)
    also have "(if ?m \<noteq> 0 then x * x else x) ^ unat ?m = (x * x) ^ (unat n div 2)"
      unfolding half(2) [symmetric] by (cases "?m = 0") simp_all
    finally show ?thesis using power_halved [of x "unat n"] half(1) by (simp add: mult.assoc)
  qed
qed

text \<open>
  For a signed type the products on the way stay in range when the power does: their absolute values are not
  larger, and the one value whose negative does not fit is only met at the end.
\<close>

definition pow_inv :: "int \<Rightarrow> int \<Rightarrow> bool" where
  "pow_inv r x \<longleftrightarrow> (r = 0 \<longrightarrow> x = 0) \<and> (\<bar>r\<bar> = 1 \<longrightarrow> r = 1 \<or> \<bar>x\<bar> = 1)"

lemma abs_mult_ge: "b \<noteq> 0 \<Longrightarrow> \<bar>a\<bar> \<le> \<bar>a * b\<bar>" for a b :: int
proof -
  assume "b \<noteq> 0"
  then have "\<bar>a\<bar> * 1 \<le> \<bar>a\<bar> * \<bar>b\<bar>" by (intro mult_left_mono) arith+
  then show ?thesis by (simp add: abs_mult)
qed

lemma signed_fits: "is_signed ty \<Longrightarrow> fits (ty :: 'a::len word int_type) i \<longleftrightarrow> - (2 ^ (LENGTH('a) - 1)) \<le> i \<and> i < 2 ^ (LENGTH('a) - 1)"
  by (simp add: fits_def)

lemma odd_step_fits:
  assumes "is_signed ty" "fits ty (r * x * (x * x) ^ k)"
  shows "fits ty (r * x)"
proof (cases "x = 0")
  case True
  then show ?thesis using assms(1) by (simp add: signed_fits)
next
  case False
  then have ne: "(x * x) ^ k \<noteq> 0" and pos: "0 < (x * x) ^ k" by (auto simp: zero_less_mult_iff intro!: zero_less_power)
  note le = abs_mult_ge [OF ne, of "r * x"]
  show ?thesis
  proof (cases "\<bar>r * x\<bar> = \<bar>r * x * (x * x) ^ k\<bar>")
    case True
    then have "\<bar>r * x\<bar> * 1 = \<bar>r * x\<bar> * (x * x) ^ k" using pos by (simp add: abs_mult)
    then have "r * x = 0 \<or> (x * x) ^ k = 1" by (simp only: mult_cancel_left abs_eq_0_iff) auto
    then have "r * x * (x * x) ^ k = r * x" by (elim disjE) (simp_all only: mult_zero_left mult_1_right)
    then show ?thesis using assms(2) by (simp only:)
  next
    case False
    then show ?thesis using le assms by (auto simp: signed_fits abs_if split: if_splits)
  qed
qed

lemma square_fits:
  assumes "is_signed ty" "fits ty (r * (x * x) ^ k)" "0 < k" "pow_inv r x" "2 \<le> LENGTH('a)"
  shows "fits (ty :: 'a::len word int_type) (x * x)"
proof (rule ccontr)
  let ?M = "2 ^ (LENGTH('a) - 1) :: int"
  assume "\<not> fits ty (x * x)"
  moreover have "0 \<le> x * x" by simp
  moreover have "0 < ?M" by simp
  ultimately have M: "?M \<le> x * x" using assms(1) by (simp only: signed_fits) linarith
  have "2 ^ 1 \<le> ?M" using assms(5) by (intro power_increasing) simp_all
  with M have big: "1 < x * x" by simp
  then have x: "x \<noteq> 0" "\<bar>x\<bar> \<noteq> 1" by (auto simp: abs_if split: if_splits)
  have "(x * x) ^ 1 \<le> (x * x) ^ k" using big assms(3) by (intro power_increasing) simp_all
  with M have P: "?M \<le> (x * x) ^ k" by simp
  have F: "- ?M \<le> r * (x * x) ^ k" "r * (x * x) ^ k < ?M" using assms(1,2) by (simp_all add: signed_fits)
  consider "1 \<le> r" | "r = 0" | "r = - 1" | "r \<le> - 2" by linarith
  then show False
  proof cases
    case 1
    then have "1 * (x * x) ^ k \<le> r * (x * x) ^ k" using P \<open>0 < ?M\<close> by (intro mult_right_mono) linarith+
    with P F(2) show False by linarith
  next
    case 4
    then have "r * (x * x) ^ k \<le> - 2 * (x * x) ^ k" using P \<open>0 < ?M\<close> by (intro mult_right_mono) linarith+
    with P F(1) \<open>0 < ?M\<close> show False by linarith
  qed (use assms(4) x in \<open>auto simp: pow_inv_def\<close>)
qed

lemma pow_inv_step:
  assumes "pow_inv r x"
  shows "pow_inv (if b then r * x else r) x" "pow_inv (if b then r * x else r) (x * x)"
proof -
  have one: "\<bar>r * x\<bar> = 1 \<Longrightarrow> \<bar>x\<bar> = 1" using abs_zmult_eq_1 [of x r] by (simp add: mult.commute)
  then show keep: "pow_inv (if b then r * x else r) x" using assms by (auto simp: pow_inv_def)
  have "\<bar>x\<bar> = 1 \<Longrightarrow> \<bar>x * x\<bar> = 1" by (simp add: abs_mult)
  then show "pow_inv (if b then r * x else r) (x * x)" using keep by (auto simp: pow_inv_def)
qed

lemma sint_nonneg: "0 \<le> sint n \<Longrightarrow> sint n = int (unat n)"
proof -
  assume "0 \<le> sint n"
  moreover have "sint n < 2 ^ LENGTH('a)" for n :: "'a::len word"
    by (rule less_le_trans [OF sint_less power_increasing]) simp_all
  ultimately have "uint n = sint n" by (simp add: uint_sint take_bit_int_eq_self)
  then show ?thesis by simp
qed

lemma sint_small:
  fixes m :: "'a::len word"
  assumes "2 * unat m < 2 ^ LENGTH('a)" shows "sint m = int (unat m)"
proof -
  have "(2 :: nat) ^ LENGTH('a) = 2 * 2 ^ (LENGTH('a) - 1)" by (simp flip: power_Suc)
  with assms have "unat m < 2 ^ (LENGTH('a) - 1)" by simp
  then have "int (unat m) < 2 ^ (LENGTH('a) - 1)" by (metis of_nat_less_iff of_nat_numeral of_nat_power)
  then have "signed_take_bit (LENGTH('a) - 1) (uint m) = uint m"
    by (intro signed_take_bit_int_eq_self) (auto intro: order_trans [of _ 0])
  then show ?thesis by (simp add: sint_uint)
qed

lemma pow_loop_signed:
  fixes x :: "'a::len word"
  assumes "2 \<le> LENGTH('a)" "is_signed ty" "pow_inv (sint res) (sint x)" "fits ty (sint res * sint x ^ nat (sint n))"
  shows "IEP_pow_loop ty res x n = word_of_int (sint res * sint x ^ nat (sint n))"
  using assms(2-)
proof (induction ty res x n rule: IEP_pow_loop.induct)
  case (1 ty res x n)
  have val: "int_val ty k = sint k" for k :: "'a word" using 1(2) by (simp add: int_val_def)
  show ?case
  proof (cases "0 < sint n")
    case False
    then show ?thesis by (subst IEP_pow_loop.simps) (simp add: val)
  next
    case True
    then have un: "nat (sint n) = unat n" "n \<noteq> 0" using sint_nonneg [of n] by auto
    define m where "m = (if n mod 2 \<noteq> 0 then n - 1 else n) div 2"
    define r where "r = (if odd (unat n) then sint res * sint x else sint res)"
    define R where "R = (if n mod 2 \<noteq> 0 then ty_mul ty res x else res)"
    define X where "X = (if 0 < int_val ty m then ty_mul ty x x else x)"
    note half = halved [OF assms(1) un(2), folded m_def]
    have "2 * unat m < 2 ^ LENGTH('a)" using half(2) unat_bound [of n] by linarith
    then have sm: "sint m = int (unat m)" by (rule sint_small)
    have F: "sint res * sint x ^ unat n = r * (sint x * sint x) ^ unat m"
      using power_halved [of "sint x" "unat n"] by (simp add: r_def half(2))
    have fit: "fits ty (r * (sint x * sint x) ^ unat m)" using 1(4) un(1) F by simp
    have rR: "sint R = r"
    proof (cases "odd (unat n)")
      case True
      with fit have "fits ty (sint res * sint x * (sint x * sint x) ^ unat m)" by (simp only: r_def if_True simp_thms)
      from signed_mul [OF 1(2) odd_step_fits [OF 1(2) this]] True half(1) show ?thesis
        by (simp only: R_def r_def if_True simp_thms)
    qed (use half(1) in \<open>simp add: R_def r_def\<close>)
    have inv: "pow_inv r (sint x)" "pow_inv r (sint x * sint x)" unfolding r_def by (rule pow_inv_step [OF 1(3)])+
    have X: "sint X = sint x * sint x" if "m \<noteq> 0"
    proof -
      have "0 < unat m" using that by (simp add: unat_gt_0)
      from signed_mul [OF 1(2) square_fits [OF 1(2) fit this inv(1) assms(1)]] \<open>0 < unat m\<close> sm show ?thesis
        by (simp only: X_def val of_nat_0_less_iff if_True)
    qed
    have "IEP_pow_loop ty res x n = IEP_pow_loop ty R X m"
      using True by (subst IEP_pow_loop.simps) (simp add: val Let_def m_def R_def X_def)
    also have "\<dots> = word_of_int (sint R * sint X ^ nat (sint m))"
      unfolding R_def X_def m_def
    proof (rule 1(1) [OF _ refl refl], fold R_def m_def, fold X_def)
      show "pow_inv (sint R) (sint X)" using rR X inv sm by (cases "m = 0") (simp_all add: X_def val)
      show "fits ty (sint R * sint X ^ nat (sint m))" using rR X fit sm by (cases "m = 0") simp_all
    qed (use True 1(2) val in simp_all)
    also have "sint R * sint X ^ nat (sint m) = r * (sint x * sint x) ^ unat m"
      using rR X sm by (cases "m = 0") simp_all
    finally show ?thesis using F un(1) by simp
  qed
qed

lemma pow_value:
  fixes x y :: "'a::len word"
  assumes "2 \<le> LENGTH('a)" "norm ty (int_val ty x ^ nat (int_val ty y)) = Val v"
  shows "IEP_pow ty x y = v"
proof (cases "is_signed ty")
  case True
  then have "fits ty (sint x ^ nat (sint y))" "v = word_of_int (sint x ^ nat (sint y))"
    using assms(2) by (auto simp: norm_def int_val_def split: if_splits)
  moreover have one: "sint (1 :: 'a word) = 1" using assms(1) by simp
  ultimately show ?thesis
    using pow_loop_signed [OF assms(1) True, of 1 x y] by (simp add: IEP_pow_def pow_inv_def)
next
  case False
  then have "v = word_of_int (uint x ^ unat y)" using assms(2) by (simp add: norm_def int_val_def)
  then show ?thesis using pow_loop_unsigned [OF assms(1) False] by (simp add: IEP_pow_def)
qed

lemma ten_value: "5 \<le> LENGTH('a::len) \<Longrightarrow> int_val ty (10 :: 'a word) = 10"
proof -
  assume "5 \<le> LENGTH('a)"
  then have "(2 :: int) ^ 4 \<le> 2 ^ (LENGTH('a) - 1)" "(2 :: int) ^ 5 \<le> 2 ^ LENGTH('a)" by (intro power_increasing; simp)+
  then have "fits ty (10 :: int)" by (simp add: fits_def)
  from int_val_fits [OF this] show ?thesis by simp
qed

lemma shr_value:
  fixes x y :: "'a::len word"
  assumes "0 \<le> int_val ty x" "0 \<le> int_val ty y"
  shows "drop_bit (unat y) x = word_of_int (int_val ty x div 2 ^ nat (int_val ty y))"
proof -
  have "int_val ty z = int (unat z)" if "0 \<le> int_val ty z" for z
    using that sint_nonneg [of z] by (auto simp: int_val_def split: if_splits)
  then have "int_val ty x = int (unat x)" "nat (int_val ty y) = unat y" using assms by (metis nat_int)+
  moreover have "drop_bit (unat y) x = word_of_nat (unat x div 2 ^ unat y)"
    unfolding word_unat_eq_iff unat_drop_bit_eq drop_bit_nat_def
    by (rule unat_of_nat_small [symmetric], rule le_less_trans [OF div_le_dividend unat_bound])
  moreover have "int (unat x) div 2 ^ unat y = int (unat x div 2 ^ unat y)" by (simp add: zdiv_int)
  ultimately show ?thesis by (simp only: of_int_of_nat_eq)
qed

lemma zero_val: "int_val ty y = 0 \<longleftrightarrow> y = (0 :: 'a::len word)"
proof
  assume "int_val ty y = 0"
  then have "word_of_int (int_val ty y) = (0 :: 'a word)" by simp
  then show "y = 0" by simp
qed (simp add: int_val_def)

text \<open>What \<open>calculate\<close> has to do with a value of an operation.\<close>

definition computes :: "'v ev \<Rightarrow> 'v option \<Rightarrow> bool" where
  "computes w r \<longleftrightarrow> (case w of Val v \<Rightarrow> r = Some v | Fail \<Rightarrow> r = None | Undef \<Rightarrow> True)"

lemma computes_norm: "computes (norm ty i) (Some (wrapped ty c x y i))"
  by (simp add: computes_def norm_def wrapped_def)

lemma exponent_value:
  fixes x y :: "'a::len word"
  assumes "5 \<le> LENGTH('a)" "\<not> (is_signed ty \<and> \<not> fits ty (10 ^ nat (int_val ty y)))"
  shows "computes (norm ty (int_val ty x * 10 ^ nat (int_val ty y))) (Some (ty_mul ty x (IEP_pow ty 10 y)))"
proof -
  let ?p = "10 ^ nat (int_val ty y) :: int"
  have two: "2 \<le> LENGTH('a)" using assms(1) by simp
  have pow: "IEP_pow ty 10 y = word_of_int ?p"
    using pow_value [OF two, of ty 10 y "word_of_int ?p"] assms(2) by (simp add: norm_def ten_value [OF assms(1)])
  show ?thesis
  proof (cases "is_signed ty")
    case True
    then have "int_val ty (IEP_pow ty 10 y) = ?p" using int_val_fits [of ty ?p] assms(2) pow by simp
    then show ?thesis by (simp add: ty_mul_def computes_norm)
  next
    case False
    then show ?thesis by (simp add: unsigned_mul pow computes_def norm_def)
  qed
qed

lemma calculate_value:
  fixes x y :: "'a::len word"
  assumes "5 \<le> LENGTH('a)"
  shows "computes (oper_value ty x y c) (IEP_calculate ty x y c)"
proof (cases c)
  case OPERATOR_POWER
  then show ?thesis
    using pow_value [of ty x y] assms by (auto simp: oper_value_def computes_def norm_def)
next
  case OPERATOR_EXPONENT
  then show ?thesis using exponent_value [OF assms, of ty y x] by (auto simp: oper_value_def computes_def)
next
  case OPERATOR_BITWISE_SHR
  then show ?thesis using shr_value [of ty x y] by (auto simp: oper_value_def computes_def ty_shr_def shift_count_ok_def)
next
  case OPERATOR_BITWISE_SHL
  then show ?thesis by (simp add: oper_value_def ty_shl_def shift_count_ok_def computes_norm) (simp add: computes_def)
next
  case OPERATOR_DIVISION
  then show ?thesis by (simp add: oper_value_def ty_div_def computes_norm zero_val) (simp add: computes_def)
next
  case OPERATOR_MODULO
  then show ?thesis by (simp add: oper_value_def ty_mod_def Let_def zero_val computes_def)
qed (simp_all add: oper_value_def computes_norm ty_add_def ty_sub_def ty_mul_def,
     simp_all add: computes_def of_int_or_eq of_int_xor_eq of_int_and_eq)

section \<open>Positions in a text\<close>

definition pos :: "string \<Rightarrow> (operator \<times> 'v) list \<Rightarrow> string \<Rightarrow> 'v parser" where
  "pos E stk r = \<lparr>m_expr = E, m_index = length E - length r, m_stack = stk\<rparr>"

lemma pos_stack [simp]: "m_stack (pos E stk r) = stk" "(pos E stk r)\<lparr>m_stack := s\<rparr> = pos E s r"
  by (simp_all add: pos_def)

lemma suffix_drop: "suffix (xs @ r) E \<Longrightarrow> suffix r E"
  by (auto simp: suffix_def)

lemma suffix_tl: "suffix (c # r) E \<Longrightarrow> suffix r E"
  by (metis suffix_ConsD)

lemma getCharacter_pos: "suffix (c # r) E \<Longrightarrow> getCharacter (pos E s (c # r)) = c"
  by (auto simp: suffix_def getCharacter_def isEnd_def pos_def nth_append)

lemma getCharacter_end: "getCharacter (pos E s []) = CHR 0x00" "isEnd (pos E s [])"
  by (simp_all add: getCharacter_def isEnd_def pos_def)

lemma isEnd_pos: "suffix (c # r) E \<Longrightarrow> \<not> isEnd (pos E s (c # r))"
  by (auto simp: suffix_def isEnd_def pos_def)

lemma skip_pos: "suffix (c # r) E \<Longrightarrow> skip_char (pos E s (c # r)) = pos E s r"
  by (auto simp: suffix_def skip_char_def pos_def)

lemmas pos_simps = getCharacter_pos getCharacter_end isEnd_pos skip_pos

lemma eatSpaces_pos:
  assumes "\<forall>c\<in>set sp. is_space c" and "suffix (sp @ r) E" and "r = [] \<or> \<not> is_space (hd r)"
  shows "eatSpaces (pos E s (sp @ r)) = pos E s r"
  using assms
proof (induction sp)
  case Nil
  have "\<not> is_space (getCharacter (pos E s r))"
    using Nil by (cases r) (auto simp: pos_simps is_space_def)
  then show ?case by (subst eatSpaces.simps) simp
next
  case (Cons c sp)
  then have "suffix (sp @ r) E" by (auto dest: suffix_tl)
  with Cons show ?case by (subst eatSpaces.simps) (simp add: pos_simps)
qed

lemma parseOp_table:
  assumes "eatSpaces p = q"
  shows "getCharacter q = CHR ''|'' \<Longrightarrow> parseOp p = (Some (operator_of OPERATOR_BITWISE_OR), skip_char q)"
  and "getCharacter q = CHR ''^'' \<Longrightarrow> parseOp p = (Some (operator_of OPERATOR_BITWISE_XOR), skip_char q)"
  and "getCharacter q = CHR ''&'' \<Longrightarrow> parseOp p = (Some (operator_of OPERATOR_BITWISE_AND), skip_char q)"
  and "getCharacter q = CHR ''+'' \<Longrightarrow> parseOp p = (Some (operator_of OPERATOR_ADDITION), skip_char q)"
  and "getCharacter q = CHR ''-'' \<Longrightarrow> parseOp p = (Some (operator_of OPERATOR_SUBTRACTION), skip_char q)"
  and "getCharacter q = CHR ''/'' \<Longrightarrow> parseOp p = (Some (operator_of OPERATOR_DIVISION), skip_char q)"
  and "getCharacter q = CHR ''%'' \<Longrightarrow> parseOp p = (Some (operator_of OPERATOR_MODULO), skip_char q)"
  and "getCharacter q = CHR ''e'' \<Longrightarrow> parseOp p = (Some (operator_of OPERATOR_EXPONENT), skip_char q)"
  and "getCharacter q = CHR ''<'' \<Longrightarrow> getCharacter (skip_char q) = CHR ''<'' \<Longrightarrow> parseOp p = (Some (operator_of OPERATOR_BITWISE_SHL), skip_char (skip_char q))"
  and "getCharacter q = CHR ''>'' \<Longrightarrow> getCharacter (skip_char q) = CHR ''>'' \<Longrightarrow> parseOp p = (Some (operator_of OPERATOR_BITWISE_SHR), skip_char (skip_char q))"
  and "getCharacter q = CHR ''*'' \<Longrightarrow> getCharacter (skip_char q) = CHR ''*'' \<Longrightarrow> parseOp p = (Some (operator_of OPERATOR_POWER), skip_char (skip_char q))"
  and "getCharacter q = CHR ''*'' \<Longrightarrow> getCharacter (skip_char q) \<noteq> CHR ''*'' \<Longrightarrow> parseOp p = (Some (operator_of OPERATOR_MULTIPLICATION), skip_char q)"
  and "getCharacter q = CHR 0x00 \<Longrightarrow> parseOp p = (Some null_operator, q)"
  and "getCharacter q = CHR '')'' \<Longrightarrow> parseOp p = (Some null_operator, q)"
  by (simp_all add: parseOp_def Let_def assms operator_of_def right_assoc_def)

lemma parseOp_symbol:
  assumes "\<forall>c\<in>set sp. is_space c" and "suffix (sp @ op_symbol c @ r) E" and "c \<noteq> OPERATOR_NULL"
    and "r = [] \<or> hd r \<noteq> CHR ''*''"
  shows "parseOp (pos E s (sp @ op_symbol c @ r)) = (Some (operator_of c), pos E s r)"
proof -
  have "\<not> is_space (hd (op_symbol c @ r))" "op_symbol c @ r \<noteq> []" using assms(3) by (cases c; simp add: is_space_def)+
  then have e: "eatSpaces (pos E s (sp @ op_symbol c @ r)) = pos E s (op_symbol c @ r)"
    using assms(1,2) by (intro eatSpaces_pos) auto
  have suf: "suffix (op_symbol c @ r) E" "suffix r E" using assms(2) by (auto dest: suffix_drop)
  have star: "getCharacter (pos E s r) \<noteq> CHR ''*''" using assms(4) suf by (cases r) (auto simp: pos_simps)
  obtain x t where t: "op_symbol c @ r = x # t" using \<open>op_symbol c @ r \<noteq> []\<close> by (cases "op_symbol c @ r") auto
  have x: "getCharacter (pos E s (op_symbol c @ r)) = x" and k: "skip_char (pos E s (op_symbol c @ r)) = pos E s t"
    using suf(1) unfolding t by (simp_all add: pos_simps)
  have t2: "getCharacter (pos E s t) = hd t \<and> skip_char (pos E s t) = pos E s (tl t)" if "t \<noteq> []"
    using suf(1) that unfolding t by (cases t) (auto simp: pos_simps dest: suffix_tl)
  define P where "P = parseOp (pos E s (sp @ op_symbol c @ r))"
  note p = parseOp_table [OF e, unfolded x k, folded P_def]
  have "P = (Some (operator_of c), pos E s r)"
  proof (cases "length (op_symbol c) = 1")
    case True
    then have tr: "t = r" and "[x] = op_symbol c" using t by (cases "op_symbol c"; simp)+
    then have x: "op_symbol c = [x]" by simp
    show ?thesis
    proof (cases c)
      case OPERATOR_BITWISE_OR
      then show ?thesis using x p(1) tr by simp
    next
      case OPERATOR_BITWISE_XOR
      then show ?thesis using x p(2) tr by simp
    next
      case OPERATOR_BITWISE_AND
      then show ?thesis using x p(3) tr by simp
    next
      case OPERATOR_ADDITION
      then show ?thesis using x p(4) tr by simp
    next
      case OPERATOR_SUBTRACTION
      then show ?thesis using x p(5) tr by simp
    next
      case OPERATOR_DIVISION
      then show ?thesis using x p(6) tr by simp
    next
      case OPERATOR_MODULO
      then show ?thesis using x p(7) tr by simp
    next
      case OPERATOR_EXPONENT
      then show ?thesis using x p(8) tr by simp
    next
      case OPERATOR_MULTIPLICATION
      then show ?thesis using x p(12) star tr by simp
    qed (use assms(3) True in simp_all)
  next
    case False
    then have "t = x # r \<and> c \<in> {OPERATOR_BITWISE_SHL, OPERATOR_BITWISE_SHR, OPERATOR_POWER} \<and> op_symbol c = [x, x]"
      using t assms(3) by (cases c) auto
    then show ?thesis using t2 by (auto simp: p)
  qed
  then show ?thesis by (simp add: P_def)
qed

lemma parseOp_none:
  assumes "\<forall>c\<in>set sp. is_space c" and "suffix (sp @ r) E" and "r = [] \<or> hd r = CHR '')''"
  shows "parseOp (pos E s (sp @ r)) = (Some null_operator, pos E s r)"
proof -
  have "r = [] \<or> \<not> is_space (hd r)" using assms(3) by (auto simp: is_space_def)
  then have e: "eatSpaces (pos E s (sp @ r)) = pos E s r" by (rule eatSpaces_pos [OF assms(1,2)])
  have "getCharacter (pos E s r) = CHR 0x00 \<or> getCharacter (pos E s r) = CHR '')''"
    using suffix_drop [OF assms(2)] assms(3) by (cases r) (auto simp: pos_simps)
  then show ?thesis using parseOp_table(13,14) [OF e] parseOp_table(12) [OF e] by blast
qed

section \<open>Numbers\<close>

lemma small_word: "n < 2 ^ LENGTH('a::len) \<Longrightarrow> k < 2 ^ LENGTH('a) \<Longrightarrow> (word_of_nat n :: 'a word) \<le> word_of_nat k \<longleftrightarrow> n \<le> k"
  by (simp add: word_le_nat_alt unat_of_nat_small)

lemma width_bound: "5 \<le> LENGTH('a::len) \<Longrightarrow> k < 32 \<Longrightarrow> k < (2 :: nat) ^ LENGTH('a)"
  using power_increasing [of 5 "LENGTH('a)" "2 :: nat"] by simp

lemma toInteger_digit: "d < 10 \<Longrightarrow> toInteger (digit_char d) = (word_of_nat d :: 'a::len word)"
  by (simp add: toInteger_def digit_char_def Let_def)

lemma digit_chars_all: "map digit_char [0..<10] = ''0123456789''"
  by code_simp

lemma digit_chars: 
  assumes "d < 10"
  shows "digit_char d \<in> set ''0123456789''" and "digit_char d = CHR ''0'' \<longleftrightarrow> d = 0"
proof -
  have *: "digit_char d = ''0123456789'' ! d" using assms unfolding digit_chars_all [symmetric] by simp
  have "d < length ''0123456789''" using assms by simp
  then show "digit_char d \<in> set ''0123456789''" unfolding * by (rule nth_mem)
  have "distinct ''0123456789''" by simp
  then show "digit_char d = CHR ''0'' \<longleftrightarrow> d = 0"
    unfolding * using nth_eq_iff_index_eq [of "''0123456789''" d 0] assms by simp
qed

lemma toInteger_other:
  assumes "5 \<le> LENGTH('a::len)" and "c \<notin> set ''0123456789''"
  shows "\<not> (toInteger c :: 'a word) \<le> 9"
proof -
  let ?k = "of_char c :: nat"
  have "c = char_of ?k" by simp
  then have k: "\<not> (48 \<le> ?k \<and> ?k \<le> 57)"
  proof (rule contrapos_pn)
    assume "48 \<le> ?k \<and> ?k \<le> 57"
    then have "?k - 48 < 10" "c = digit_char (?k - 48)" by (auto simp: digit_char_def)
    then have "c \<in> set ''0123456789''" using digit_chars by metis
    with assms(2) show "c \<noteq> char_of ?k" by simp
  qed
  obtain n where n: "toInteger c = (word_of_nat n :: 'a word)" "10 \<le> n" "n \<le> 16"
  proof (cases "97 \<le> ?k \<and> ?k \<le> 102")
    case True
    then show ?thesis using k by (intro that [of "?k - 97 + 10"]) (auto simp: toInteger_def)
  next
    case False
    show ?thesis
    proof (cases "65 \<le> ?k \<and> ?k \<le> 70")
      case True
      then show ?thesis using k False by (intro that [of "?k - 65 + 10"]) (auto simp: toInteger_def)
    next
      case F: False
      have "toInteger c = (16 :: 'a word)" unfolding toInteger_def Let_def by (simp only: k False F if_False)
      then show ?thesis by (intro that [of 16]) simp_all
    qed
  qed
  have "(9 :: 'a word) = word_of_nat 9" by simp
  then show ?thesis
    unfolding n(1) using small_word [of n 9, where 'a = 'a] width_bound [OF assms(1), of n] width_bound [OF assms(1), of 9] n by simp
qed

lemma digits_parsed:
  fixes v :: "'a::len word"
  assumes w: "5 \<le> LENGTH('a)" and ds: "\<forall>d\<in>set ds. d < 10" and r: "r = [] \<or> hd r \<notin> set ''0123456789''"
    and suf: "suffix (map digit_char ds @ r) E"
  shows "digits_loop ty 9 10 v (pos E s (map digit_char ds @ r)) =
    (foldl (\<lambda>v d. ty_add ty (ty_mul ty v 10) (word_of_nat d)) v ds, pos E s r)"
  using ds suf
proof (induction ds arbitrary: v)
  case Nil
  then have "isEnd (pos E s r) \<or> \<not> toInteger (getCharacter (pos E s r)) \<le> (9 :: 'a word)"
    using r toInteger_other [OF w, of "hd r"] by (cases r) (auto simp: pos_simps)
  then show ?case by (subst digits_loop.simps) (auto simp: Let_def)
next
  case (Cons d ds)
  have "(word_of_nat d :: 'a word) \<le> 9"
    using small_word [of d 9, where 'a = 'a] width_bound [OF w, of d] width_bound [OF w, of 9] Cons.prems by simp
  moreover have "suffix (map digit_char ds @ r) E" using Cons.prems by (auto dest: suffix_tl)
  ultimately show ?case
    using Cons by (subst digits_loop.simps) (simp add: pos_simps toInteger_digit Let_def)
qed

text \<open>The digits add up to the number, which bounds all the values on the way to it.\<close>

lemma number_mono: "(k :: nat) \<le> foldl (\<lambda>v d. v * 10 + d) k ds"
proof (induction ds arbitrary: k)
  case (Cons d ds)
  have "k \<le> k * 10 + d" by simp
  also have "\<dots> \<le> foldl (\<lambda>v d. v * 10 + d) (k * 10 + d) ds" by (rule Cons)
  finally show ?case by simp
qed simp

lemma fits_below: "fits ty (int n) \<Longrightarrow> k \<le> n \<Longrightarrow> fits ty (int k)"
  by (auto simp: fits_def intro: order_trans [of _ 0] split: if_splits)

lemma digits_value:
  assumes "5 \<le> LENGTH('a::len)" "norm ty (int (foldl (\<lambda>v d. v * 10 + d) k ds)) = Val (w :: 'a word)" "\<forall>d\<in>set ds. d < 10"
  shows "foldl (\<lambda>v d. ty_add ty (ty_mul ty v 10) (word_of_nat d)) (word_of_nat k) ds = w"
  using assms(2,3)
proof (induction ds arbitrary: k)
  case Nil
  then show ?case by (auto simp: norm_def split: if_splits)
next
  case (Cons d ds)
  have "ty_add ty (ty_mul ty (word_of_nat k) 10) (word_of_nat d) = (word_of_nat (k * 10 + d) :: 'a word)"
  proof (cases "is_signed ty")
    case True
    then have fit: "fits ty (int (foldl (\<lambda>v d. v * 10 + d) (k * 10 + d) ds))"
      using Cons.prems(1) by (auto simp: norm_def split: if_splits)
    have le: "k * 10 + d \<le> foldl (\<lambda>v d. v * 10 + d) (k * 10 + d) ds" by (rule number_mono)
    have f: "fits ty (int n)" if "n \<le> k * 10 + d" for n using fits_below [OF fit] le that by simp
    have v: "int_val ty (word_of_nat n) = int n" if "n \<le> k * 10 + d" for n
      using int_val_fits [OF f [OF that]] by (simp only: of_int_of_nat_eq)
    have "ty_mul ty (word_of_nat k) 10 = word_of_nat (k * 10)"
      using v [of k] f [of "k * 10"] by (simp add: ty_mul_def wrapped_def ten_value [OF assms(1)])
    then show ?thesis using v [of "k * 10"] v [of d] f [of "k * 10 + d"] by (simp add: ty_add_def wrapped_def)
  qed (simp add: unsigned_mul ty_add_def wrapped_def int_val_def)
  then show ?case using Cons.IH [of "k * 10 + d"] Cons.prems by (simp del: of_nat_add of_nat_mult of_nat_Suc)
qed

text \<open>A text behind a number that does not continue it.\<close>

definition clean :: "string \<Rightarrow> bool" where
  "clean r \<longleftrightarrow> r = [] \<or> hd r \<notin> set ''0123456789xX''"

lemma parse_value_number:
  assumes "eatSpaces p = q" and "getCharacter q \<in> set ''0123456789''" and "getCharacter q = CHR ''0'' \<Longrightarrow> \<not> isHex q"
  shows "parse_run ty At_value p = (case parseDecimal ty q of (v, p2) \<Rightarrow> Some (Some v, p2))"
  using assms(2,3) by (cases "getCharacter q = CHR ''0''") (simp_all add: parse_value_eq Let_def assms(1))

lemma number_parsed:
  assumes w: "5 \<le> LENGTH('a::len)" and wf: "wf_expr (Number sp ds)" and r: "clean r"
    and suf: "suffix (render (Number sp ds) @ r) E" and v: "expr_value ty (Number sp ds) = Val (v :: 'a word)"
  shows "parse_run ty At_value (pos E s (render (Number sp ds) @ r)) = Some (Some v, pos E s r)"
proof -
  let ?t = "map digit_char ds @ r"
  from wf have sp: "blank sp" and all: "\<forall>d\<in>set ds. d < 10" by simp_all
  from wf obtain d ds' where dd: "ds = d # ds'" by (cases ds) auto
  have d: "d < 10" using all dd by simp
  have suf': "suffix ?t E" using suf by (auto dest: suffix_drop)
  have sps: "\<not> is_space (hd ?t)" using digit_chars [OF d] dd by (auto simp: is_space_def)
  have e: "eatSpaces (pos E s (render (Number sp ds) @ r)) = pos E s ?t"
    using eatSpaces_pos [OF sp, of ?t E s] suf sps dd by simp
  have c: "getCharacter (pos E s ?t) = digit_char d" using suf' dd by (simp add: pos_simps)
  have dec: "parseDecimal ty (pos E s ?t) = (v, pos E s r)"
    unfolding parseDecimal_def
    using digits_parsed [OF w all, of r E ty 0 s] digits_value [OF w, of ty 0 ds v] r suf' v all
    by (auto simp: clean_def number_value_def)
  have "\<not> isHex (pos E s ?t)" if "d = 0"
  proof -
    have x: "hd (map digit_char ds' @ r) \<notin> set ''xX''" if "map digit_char ds' @ r \<noteq> []"
    proof (cases ds')
      case (Cons d' _)
      then have "digit_char d' \<in> set ''0123456789''" using all dd digit_chars(1) by simp
      then show ?thesis using Cons by auto
    qed (use r that in \<open>auto simp: clean_def\<close>)
    have t: "?t = CHR ''0'' # map digit_char ds' @ r" using dd that digit_chars(2) [of 0] by simp
    have "m_index (pos E s ?t) + 2 < length (m_expr (pos E s ?t)) \<Longrightarrow>
      m_expr (pos E s ?t) ! (m_index (pos E s ?t) + 1) = hd (map digit_char ds' @ r) \<and> map digit_char ds' @ r \<noteq> []"
      using suf' unfolding t by (cases "map digit_char ds' @ r") (auto simp: suffix_def pos_def nth_append)
    then show ?thesis using x by (auto simp: isHex_def Let_def)
  qed
  then show ?thesis using parse_value_number [OF e] c dec digit_chars [OF d] by simp
qed

section \<open>Expressions are evaluated\<close>

text \<open>A value and what stands behind it, as \<open>parseExpr\<close> reads them after an operator.\<close>

definition then_op :: "'a::len word int_type \<Rightarrow> 'a word parser \<Rightarrow> ('a word option \<times> 'a word parser) option" where
  "then_op ty p = do {
     (r, p2) \<leftarrow> parse_run ty At_value p;
     case r of None \<Rightarrow> Some (None, p2) | Some v \<Rightarrow> parse_run ty (At_operator v) p2
   }"

text \<open>
  What a result has to do with the value of an expression: it is the value and the position behind it, or a failure;
  nothing is said of an undefined one.
\<close>

definition value_read :: "'v ev \<Rightarrow> 'v parser \<Rightarrow> ('v option \<times> 'v parser) option \<Rightarrow> bool" where
  "value_read w p res \<longleftrightarrow>
     (case w of Val v \<Rightarrow> res = Some (Some v, p) | Fail \<Rightarrow> (\<exists>p'. res = Some (None, p')) | Undef \<Rightarrow> True)"

definition operand_read :: "'a::len word int_type \<Rightarrow> 'a word ev \<Rightarrow> 'a word parser \<Rightarrow> ('a word option \<times> 'a word parser) option \<Rightarrow> bool" where
  "operand_read ty w p res \<longleftrightarrow>
     (case w of Val v \<Rightarrow> res = parse_run ty (At_operator v) p | Fail \<Rightarrow> (\<exists>p'. res = Some (None, p')) | Undef \<Rightarrow> True)"

lemma operand_of_value: "value_read w q (parse_run ty At_value p) \<Longrightarrow> operand_read ty w q (then_op ty p)"
  by (auto simp: value_read_def operand_read_def then_op_def split: ev.splits)

text \<open>The operator \<open>d\<close> reduces the expression before it; the expression is not reduced into the operator \<open>t\<close>.\<close>

definition closes :: "oper \<Rightarrow> expr \<Rightarrow> bool" where
  "closes d e \<longleftrightarrow> precedence_of d < level e \<or> precedence_of d = level e \<and> \<not> right_assoc d"

definition stays :: "oper \<Rightarrow> expr \<Rightarrow> bool" where
  "stays t e \<longleftrightarrow> precedence_of t < level e \<or> precedence_of t = level e \<and> right_assoc t"

lemma right_assoc_precedence: "right_assoc c \<longleftrightarrow> 30 \<le> precedence_of c"
  by (cases c) (simp_all add: right_assoc_def)

lemma must_reduce_operator: "must_reduce (operator_of d) (operator_of c) \<longleftrightarrow> precedence_of d < precedence_of c \<or> precedence_of d = precedence_of c \<and> \<not> right_assoc d"
  by (simp add: must_reduce_def operator_of_def mk_op_def)

lemma precedence_bounds: "precedence_of c < 50" "0 < precedence_of c \<longleftrightarrow> c \<noteq> OPERATOR_NULL"
  by (cases c; simp)+

lemma level_pos: "wf_expr e \<Longrightarrow> 0 < level e"
  by (cases e) (auto simp: precedence_bounds)

lemma null_operator_of: "null_operator = operator_of OPERATOR_NULL"
  by (simp add: null_operator_def operator_of_def mk_op_def right_assoc_def)

lemma op_code_of: "op_code (operator_of c) = c"
  by (simp add: operator_of_def mk_op_def)

lemma null_fits: "wf_expr e \<Longrightarrow> stays OPERATOR_NULL e" "wf_expr e \<Longrightarrow> closes OPERATOR_NULL e"
  using level_pos [of e] by (simp_all add: stays_def closes_def)

text \<open>The operator that stands in front of a text; none at its end or in front of a parenthesis.\<close>

definition op_ahead :: "string \<Rightarrow> oper \<Rightarrow> string \<Rightarrow> bool" where
  "op_ahead r d r' \<longleftrightarrow>
     (\<exists>sp. blank sp \<and> r = sp @ op_symbol d @ r' \<and>
        (if d = OPERATOR_NULL then r' = [] \<or> hd r' = CHR '')'' else r' = [] \<or> hd r' \<noteq> CHR ''*''))"

lemma op_ahead_parsed:
  assumes "op_ahead r d r'" and "suffix r E"
  shows "parseOp (pos E s r) = (Some (operator_of d), pos E s r')"
proof (cases "d = OPERATOR_NULL")
  case True
  then show ?thesis using assms parseOp_none [of _ r' E s] by (auto simp: op_ahead_def null_operator_of)
next
  case False
  then show ?thesis using assms parseOp_symbol [of _ d r' E s] by (auto simp: op_ahead_def)
qed

lemma op_ahead_clean: "op_ahead r d r' \<Longrightarrow> clean r"
proof -
  assume "op_ahead r d r'"
  then obtain sp where sp: "blank sp" "r = sp @ op_symbol d @ r'"
    and e: "d = OPERATOR_NULL \<Longrightarrow> r' = [] \<or> hd r' = CHR '')''" by (auto simp: op_ahead_def split: if_splits)
  show "clean r"
  proof (cases sp)
    case Nil
    then show ?thesis using sp e by (cases d) (auto simp: clean_def)
  next
    case (Cons a list)
    then show ?thesis using sp by (auto simp: clean_def is_space_def)
  qed
qed

text \<open>One turn of the loop over the operators.\<close>

lemma operator_turn:
  assumes "op_ahead r d r'" and "suffix r E" and "stk \<noteq> []"
  shows "parse_run ty (At_operator v) (pos E stk r) =
    (case reduce_stack ty (operator_of d) v stk of
       (Done w, s) \<Rightarrow> Some (Some w, pos E s r')
     | (Failed, s) \<Rightarrow> Some (None, pos E s r')
     | (Shift w, s) \<Rightarrow>
         if length s = MAX_STACK_SIZE then Some (None, pos E s r') else then_op ty (pos E ((operator_of d, w) # s) r'))"
  using assms op_ahead_parsed [OF assms(1,2), of stk]
  by (simp add: parse_operator_eq then_op_def stack_push_def split: reduced.split prod.split)

lemma expr_turn:
  assumes "length stk < MAX_STACK_SIZE"
  shows "parse_run ty At_expr (pos E stk r) = then_op ty (pos E ((operator_of OPERATOR_NULL, 0) # stk) r)"
  using assms by (simp add: parse_expr_eq then_op_def stack_push_def null_operator_of)

lemma closing_turn:
  assumes "op_ahead r OPERATOR_NULL r'" and "suffix r E"
  shows "parse_run ty (At_operator v) (pos E ((operator_of OPERATOR_NULL, z) # stk) r) = Some (Some v, pos E stk r')"
  using operator_turn [OF assms, of "(operator_of OPERATOR_NULL, z) # stk" ty v]
  by (simp add: must_reduce_operator right_assoc_def op_code_of)

text \<open>The two sides of a binary operator.\<close>

lemma binary_read:
  fixes x y :: "'a::len word ev"
  assumes w: "5 \<le> LENGTH('a)" and c: "c \<noteq> OPERATOR_NULL"
    and a: "operand_read ty x (pos E ((operator_of t, z) # stk) ra) res" and ra: "op_ahead ra c rb" "suffix ra E"
    and b: "\<And>v. x = Val v \<Longrightarrow>
      operand_read ty y (pos E ((operator_of c, v) # (operator_of t, z) # stk) r) (then_op ty (pos E ((operator_of c, v) # (operator_of t, z) # stk) rb))"
    and r: "op_ahead r d r'" "suffix r E"
    and len: "Suc (length stk) < MAX_STACK_SIZE"
    and stays: "\<not> must_reduce (operator_of c) (operator_of t)"
    and closes: "must_reduce (operator_of d) (operator_of c)"
  shows "operand_read ty (ev_bind x (\<lambda>u. ev_bind y (\<lambda>v. oper_value ty u v c))) (pos E ((operator_of t, z) # stk) r) res"
proof (cases x)
  case (Val u)
  have "res = then_op ty (pos E ((operator_of c, u) # (operator_of t, z) # stk) rb)"
    using a len stays operator_turn [OF ra, of "(operator_of t, z) # stk" ty u] by (simp add: Val operand_read_def)
  then have o: "operand_read ty y (pos E ((operator_of c, u) # (operator_of t, z) # stk) r) res" using b [OF Val] by simp
  show ?thesis
  proof (cases y)
    case y: (Val v)
    have "computes (oper_value ty u v c) (IEP_calculate ty u v c)" by (rule calculate_value [OF w])
    with y show ?thesis
      using o Val c closes operator_turn [OF r, of "(operator_of c, u) # (operator_of t, z) # stk" ty v] operator_turn [OF r, of "(operator_of t, z) # stk" ty]
      by (cases "oper_value ty u v c") (simp_all add: operand_read_def op_code_of computes_def)
  qed (use o Val in \<open>simp_all add: operand_read_def\<close>)
qed (use a in \<open>simp_all add: operand_read_def\<close>)

lemma parse_value_eq1:
  assumes "blank sp" and "suffix (sp @ x # r) E" and "\<not> is_space x"
  shows "eatSpaces (pos E s (sp @ x # r)) = pos E s (x # r)" "getCharacter (pos E s (x # r)) = x"
    "skip_char (pos E s (x # r)) = pos E s r"
  using assms eatSpaces_pos [OF assms(1,2), of s] suffix_drop [OF assms(2)] by (simp_all add: pos_simps)

lemma paren_read:
  assumes sp: "blank sp" "blank sp'" and suf: "suffix (sp @ CHR ''('' # t @ sp' @ CHR '')'' # r) E"
    and len: "length stk < MAX_STACK_SIZE"
    and read: "operand_read ty w (pos E ((operator_of OPERATOR_NULL, 0) # stk) (sp' @ CHR '')'' # r))
      (then_op ty (pos E ((operator_of OPERATOR_NULL, 0) # stk) (t @ sp' @ CHR '')'' # r)))"
  shows "value_read w (pos E stk r) (parse_run ty At_value (pos E stk (sp @ CHR ''('' # t @ sp' @ CHR '')'' # r)))"
proof -
  let ?r = "sp' @ CHR '')'' # r"
  have suf2: "suffix ?r E" using suf by (metis append_Cons append_assoc suffix_drop)
  have ahead: "op_ahead ?r OPERATOR_NULL (CHR '')'' # r)" using sp by (auto simp: op_ahead_def)
  note o = parse_value_eq1 [OF sp(1) suf, of stk]
  note q = parse_value_eq1 [of "[]" "CHR '')''" r E stk]
  have v: "parse_run ty At_value (pos E stk (sp @ CHR ''('' # t @ ?r)) = do {
      (s, p2) \<leftarrow> then_op ty (pos E ((operator_of OPERATOR_NULL, 0) # stk) (t @ ?r));
      case s of None \<Rightarrow> Some (None, p2)
      | Some v \<Rightarrow>
          let p3 = eatSpaces p2
          in if getCharacter p3 \<noteq> CHR '')'' then Some (None, p3) else Some (Some v, skip_char p3) }"
    unfolding parse_value_eq [of ty "pos E stk (sp @ CHR ''('' # t @ ?r)"] Let_def
    using o expr_turn [OF len, of ty E "t @ ?r"] by (simp add: is_space_def)
  show ?thesis
  proof (cases w)
    case (Val u)
    then have "then_op ty (pos E ((operator_of OPERATOR_NULL, 0) # stk) (t @ ?r)) = Some (Some u, pos E stk (CHR '')'' # r))"
      using read closing_turn [OF ahead suf2] by (simp add: operand_read_def)
    then show ?thesis using Val q suffix_drop [OF suf2] by (simp add: v value_read_def is_space_def)
  qed (use read in \<open>auto simp: v value_read_def operand_read_def\<close>)
qed

text \<open>The unary operators; the minus sign multiplies by -1.\<close>

fun unary_code :: "'a::len word int_type \<Rightarrow> unary \<Rightarrow> 'a word \<Rightarrow> 'a word" where
  "unary_code ty Complement v = NOT v"
| "unary_code ty Positive v = v"
| "unary_code ty Negative v = ty_mul ty v (- 1)"

lemma unary_computed: "2 \<le> LENGTH('a) \<Longrightarrow> computes (unary_value ty u v) (Some (unary_code ty u (v :: 'a::len word)))"
proof (cases u)
  case Negative
  assume "2 \<le> LENGTH('a)"
  then show ?thesis unfolding Negative
    by (cases "is_signed ty")
      (auto simp: computes_def norm_def unsigned_mul ty_mul_def wrapped_def int_val_def)
qed (simp_all add: computes_def)

lemma unary_read:
  assumes w: "2 \<le> LENGTH('a)" and sp: "blank sp" and suf: "suffix (sp @ unary_symbol u # t) E"
    and read: "value_read w q (parse_run ty At_value (pos E stk t))"
  shows "value_read (ev_bind w (unary_value (ty :: 'a::len word int_type) u)) q (parse_run ty At_value (pos E stk (sp @ unary_symbol u # t)))"
proof -
  have ns: "\<not> is_space (unary_symbol u)" by (cases u) (simp_all add: is_space_def)
  note o = parse_value_eq1 [OF sp suf ns, of stk]
  have "parse_run ty At_value (pos E stk (sp @ unary_symbol u # t)) = do {
      (r, p2) \<leftarrow> parse_run ty At_value (pos E stk t);
      case r of None \<Rightarrow> Some (None, p2) | Some v \<Rightarrow> Some (Some (unary_code ty u v), p2) }"
    unfolding parse_value_eq [of ty "pos E stk (sp @ unary_symbol u # t)"] Let_def o by (cases u) (simp_all cong: if_cong option.case_cong)
  then show ?thesis using read unary_computed [OF w, of ty u "case w of Val v \<Rightarrow> v"]
    by (cases w) (auto simp: value_read_def computes_def split: ev.splits)
qed

lemma render_head: "wf_expr e \<Longrightarrow> \<exists>x t. render e = x # t \<and> x \<noteq> CHR ''*''"
proof (induction e)
  case (Number sp ds)
  then obtain d ds' where ds: "ds = d # ds'" by (cases ds) auto
  moreover have "digit_char d \<noteq> CHR ''*''" using digit_chars(1) [of d] Number ds by auto
  ultimately show ?case using Number by (cases sp) (auto simp: is_space_def)
next
  case (Unary sp u e)
  then show ?case by (cases sp; cases u) (auto simp: is_space_def)
next
  case (Paren sp e sp')
  then show ?case by (cases sp) (auto simp: is_space_def)
qed auto

lemma binary_ahead:
  assumes "c \<noteq> OPERATOR_NULL" and "wf_expr e" and "blank sp"
  shows "op_ahead (sp @ op_symbol c @ render e @ r) c (render e @ r)"
  using assms render_head [OF assms(2)] unfolding op_ahead_def by (intro exI [of _ sp]) auto

text \<open>An expression in a text is read as an operand, and one that is no binary operation as a value.\<close>

definition expr_read :: "'a::len word int_type \<Rightarrow> expr \<Rightarrow> bool" where
  "expr_read ty e \<longleftrightarrow>
     (\<forall>E t z stk r d r'. suffix (render e @ r) E \<longrightarrow> op_ahead r d r' \<longrightarrow> stays t e \<longrightarrow> closes d e \<longrightarrow>
        Suc (length stk) + depth e \<le> MAX_STACK_SIZE \<longrightarrow>
        operand_read ty (expr_value ty e) (pos E ((operator_of t, z) # stk) r) (then_op ty (pos E ((operator_of t, z) # stk) (render e @ r)))) \<and>
     (\<forall>E stk r. level e = 50 \<longrightarrow> suffix (render e @ r) E \<longrightarrow> clean r \<longrightarrow> length stk + depth e \<le> MAX_STACK_SIZE \<longrightarrow>
        value_read (expr_value ty e) (pos E stk r) (parse_run ty At_value (pos E stk (render e @ r))))"

lemma expr_readD:
  assumes "expr_read ty e" and "suffix (render e @ r) E"
  shows "op_ahead r d r' \<Longrightarrow> stays t e \<Longrightarrow> closes d e \<Longrightarrow> Suc (length stk) + depth e \<le> MAX_STACK_SIZE \<Longrightarrow>
      operand_read ty (expr_value ty e) (pos E ((operator_of t, z) # stk) r) (then_op ty (pos E ((operator_of t, z) # stk) (render e @ r)))"
    and "level e = 50 \<Longrightarrow> clean r \<Longrightarrow> length stk' + depth e \<le> MAX_STACK_SIZE \<Longrightarrow>
      value_read (expr_value ty e) (pos E stk' r) (parse_run ty At_value (pos E stk' (render e @ r)))"
  using assms unfolding expr_read_def by blast+

lemma expr_read_value:
  assumes "level e = 50"
    and "\<And>E stk r. suffix (render e @ r) E \<Longrightarrow> clean r \<Longrightarrow> length stk + depth e \<le> MAX_STACK_SIZE \<Longrightarrow>
      value_read (expr_value ty e) (pos E stk r) (parse_run ty At_value (pos E stk (render e @ r)))"
  shows "expr_read ty e"
  unfolding expr_read_def using assms op_ahead_clean by (auto intro!: operand_of_value)

lemma number_read:
  assumes "5 \<le> LENGTH('a)" and "wf_expr (Number sp ds)"
  shows "expr_read (ty :: 'a::len word int_type) (Number sp ds)"
proof (rule expr_read_value)
  fix E r and stk :: "(operator \<times> 'a word) list"
  assume suf: "suffix (render (Number sp ds) @ r) E" and r: "clean r"
  show "value_read (expr_value ty (Number sp ds)) (pos E stk r) (parse_run ty At_value (pos E stk (render (Number sp ds) @ r)))"
  proof (cases "expr_value ty (Number sp ds)")
    case (Val v)
    then show ?thesis using number_parsed [OF assms r suf Val, of stk] by (simp only: value_read_def ev.case)
  qed (simp_all add: value_read_def norm_def split: if_splits)
qed simp

lemma unary_expr_read:
  assumes w: "5 \<le> LENGTH('a)" and wf: "wf_expr (Unary sp u e)" and IH: "expr_read (ty :: 'a::len word int_type) e"
  shows "expr_read ty (Unary sp u e)"
proof (rule expr_read_value)
  fix E r and stk :: "(operator \<times> 'a word) list"
  assume a: "suffix (render (Unary sp u e) @ r) E" "clean r" "length stk + depth (Unary sp u e) \<le> MAX_STACK_SIZE"
  have suf: "suffix (sp @ unary_symbol u # render e @ r) E" using a(1) by simp
  then have "suffix (render e @ r) E" by (metis suffix_drop suffix_tl)
  then have "value_read (expr_value ty e) (pos E stk r) (parse_run ty At_value (pos E stk (render e @ r)))"
    using a(2,3) wf expr_readD(2) [OF IH, of r E stk] by simp
  with unary_read [OF _ _ suf this] w wf
  show "value_read (expr_value ty (Unary sp u e)) (pos E stk r) (parse_run ty At_value (pos E stk (render (Unary sp u e) @ r)))"
    by simp
qed simp

lemma paren_expr_read:
  assumes wf: "wf_expr (Paren sp e sp')" and IH: "expr_read ty e"
  shows "expr_read ty (Paren sp e sp')"
proof (rule expr_read_value)
  fix E r and stk :: "(operator \<times> 'a word) list"
  assume a: "suffix (render (Paren sp e sp') @ r) E" "length stk + depth (Paren sp e sp') \<le> MAX_STACK_SIZE"
  have suf: "suffix (sp @ CHR ''('' # render e @ sp' @ CHR '')'' # r) E" using a(1) by simp
  then have suf1: "suffix (render e @ sp' @ CHR '')'' # r) E" by (metis suffix_drop suffix_tl)
  have ahead: "op_ahead (sp' @ CHR '')'' # r) OPERATOR_NULL (CHR '')'' # r)" using wf by (auto simp: op_ahead_def)
  have "operand_read ty (expr_value ty e) (pos E ((operator_of OPERATOR_NULL, 0) # stk) (sp' @ CHR '')'' # r))
     (then_op ty (pos E ((operator_of OPERATOR_NULL, 0) # stk) (render e @ sp' @ CHR '')'' # r)))"
    using expr_readD(1) [OF IH suf1 ahead] a(2) null_fits [of e] wf by simp
  from paren_read [OF _ _ suf _ this] a(2) wf
  show "value_read (expr_value ty (Paren sp e sp')) (pos E stk r) (parse_run ty At_value (pos E stk (render (Paren sp e sp') @ r)))"
    by simp
qed simp

lemma binary_expr_read:
  assumes w: "5 \<le> LENGTH('a)" and wf: "wf_expr (Binary a sp c b)"
    and IH: "expr_read (ty :: 'a::len word int_type) a" "expr_read ty b"
  shows "expr_read ty (Binary a sp c b)"
proof -
  have "operand_read ty (expr_value ty (Binary a sp c b)) (pos E ((operator_of t, z) # stk) r)
      (then_op ty (pos E ((operator_of t, z) # stk) (render (Binary a sp c b) @ r)))"
    if suf: "suffix (render (Binary a sp c b) @ r) E" and r: "op_ahead r d r'"
      and t: "stays t (Binary a sp c b)" and d: "closes d (Binary a sp c b)"
      and len: "Suc (length stk) + depth (Binary a sp c b) \<le> MAX_STACK_SIZE" for E t d r r' z stk
  proof -
    have c: "c \<noteq> OPERATOR_NULL" and sp: "blank sp" and wfb: "wf_expr b" using wf by simp_all
    have sa: "suffix (render a @ sp @ op_symbol c @ render b @ r) E" using suf by simp
    have sb: "suffix (sp @ op_symbol c @ render b @ r) E" by (rule suffix_drop [OF sa])
    have sr: "suffix (render b @ r) E" "suffix r E" using suffix_drop [OF suffix_drop [OF sb]] by (auto dest: suffix_drop)
    note ahead = binary_ahead [OF c wfb sp, of r]
    have pa: "stays t a" "closes c a" using t wf by (auto simp: stays_def closes_def right_assoc_precedence)
    have pb: "stays c b" "closes d b" using d wf by (auto simp: stays_def closes_def right_assoc_precedence)
    have la: "Suc (length stk) + depth a \<le> MAX_STACK_SIZE"
      and lb: "Suc (length ((operator_of t, z) # stk)) + depth b \<le> MAX_STACK_SIZE" using len by simp_all
    have "Suc (length stk) < MAX_STACK_SIZE" using lb by simp
    moreover have "\<not> must_reduce (operator_of c) (operator_of t)" "must_reduce (operator_of d) (operator_of c)"
      using t d by (auto simp: must_reduce_operator stays_def closes_def right_assoc_precedence)
    ultimately have "operand_read ty (ev_bind (expr_value ty a) (\<lambda>u. ev_bind (expr_value ty b) (\<lambda>v. oper_value ty u v c)))
        (pos E ((operator_of t, z) # stk) r) (then_op ty (pos E ((operator_of t, z) # stk) (render a @ sp @ op_symbol c @ render b @ r)))"
      using binary_read [OF w c expr_readD(1) [OF IH(1) sa ahead pa la] ahead sb _ r sr(2)]
        expr_readD(1) [OF IH(2) sr(1) r pb, of "(operator_of t, z) # stk"] lb by simp
    then show ?thesis by simp
  qed
  then show ?thesis using precedence_bounds(1) [of c] unfolding expr_read_def by simp
qed

lemma expressions_are_read: "5 \<le> LENGTH('a) \<Longrightarrow> wf_expr e \<Longrightarrow> expr_read (ty :: 'a::len word int_type) e"
proof (induction e)
  case (Number sp ds)
  then show ?case by (rule number_read)
next
  case (Unary sp u e)
  then show ?case by (intro unary_expr_read) simp_all
next
  case (Paren sp e sp')
  then show ?case by (intro paren_expr_read) simp_all
next
  case (Binary a sp c b)
  then show ?case by (intro binary_expr_read) simp_all
qed

section \<open>Evaluation\<close>

text \<open>
  C12. For a signed or an unsigned type at least as wide as \<^verbatim>\<open>int\<close>: the text of an expression over decimal numbers,
  with its parentheses, needed or not, and white space of its own in front of every token and at its end,
  evaluates to the value of the expression in the arithmetic of the type, and an expression that divides by
  zero is reported as a failure.  Expressions with an operation that C++ does not define (a shift by the width
  or more or of a negative number, an overflow of a signed type) have no value here, and nothing is said of
  them.  The expression may need at most the 20 entries of the stack.\<close>

theorem integer_expressions_evaluate:
  fixes ty :: "'a::len word int_type"
  assumes w: "32 \<le> LENGTH('a)" and trail: "blank trail"
    and e: "wf_expr e" "Suc (depth e) \<le> MAX_STACK_SIZE"
  shows "case expr_value ty e of
      Val v \<Rightarrow> IEP_eval ty (render e @ trail) = Some (True, v)
    | Fail \<Rightarrow> IEP_eval ty (render e @ trail) = Some (False, 0)
    | Undef \<Rightarrow> True"
proof -
  let ?E = "render e @ trail"
  have start: "parseExpr ty \<lparr>m_expr = ?E, m_index = 0, m_stack = []\<rparr> = then_op ty (pos ?E [(operator_of OPERATOR_NULL, 0)] ?E)"
    using expr_turn [of "[]" ty ?E ?E] by (simp add: parseExpr_def pos_def MAX_STACK_SIZE_def)
  have ahead: "op_ahead trail OPERATOR_NULL []" using trail by (auto simp: op_ahead_def)
  have "expr_read ty e" using expressions_are_read [of e ty] w e(1) by simp
  from expr_readD(1) [OF this _ ahead, of ?E OPERATOR_NULL "[]"]
  have read: "operand_read ty (expr_value ty e) (pos ?E [(operator_of OPERATOR_NULL, 0)] trail)
      (then_op ty (pos ?E [(operator_of OPERATOR_NULL, 0)] ?E))"
    using null_fits [OF e(1)] e(2) by simp
  have "suffix trail ?E" using suffix_drop [of "render e" trail ?E] by simp
  from closing_turn [OF ahead this, of ty] read show ?thesis
    by (auto simp: IEP_eval_def start operand_read_def split: ev.split)
qed

text \<open>On concrete texts, for the values \<open>int\<close> and \<open>unsigned\<close> of 32 bits.\<close>

definition sample_int :: "32 word int_type" where
  "sample_int = \<lparr>is_signed = True, undef = (\<lambda>_ _ _. 0)\<rparr>"

definition sample_unsigned :: "32 word int_type" where
  "sample_unsigned = \<lparr>is_signed = False, undef = (\<lambda>_ _ _. 0)\<rparr>"

definition sample_expr :: expr where
  "sample_expr =
     Binary (Binary (Binary (Number '' '' [2]) '' '' OPERATOR_POWER (Number [] [0, 3])) [] OPERATOR_MULTIPLICATION
       (Binary (Paren '' '' (Paren [] (Binary (Number [] [3]) '' '' OPERATOR_SUBTRACTION (Number '' '' [4, 4])) []) '' '')
          '' '' OPERATOR_EXPONENT (Number '' '' [1]))) [] OPERATOR_DIVISION (Unary '' '' Negative (Number [] [7]))"

definition sample_quotient :: expr where
  "sample_quotient = Binary (Number [] [7]) [] OPERATOR_DIVISION (Paren [] (Binary (Number [] [3]) [] OPERATOR_SUBTRACTION (Number [] [3])) [])"

theorem integer_expressions_evaluate_witness:
  "IEP_eval sample_int '' 2 **03* ((3 - 44) ) e 1/ -7 '' = Some (True, 468) \<and>
   IEP_eval sample_unsigned ''7/(3-3) '' = Some (False, 0)"
proof -
  have d: "Suc (depth sample_expr) \<le> MAX_STACK_SIZE" "wf_expr sample_expr" "blank '' ''"
    "Suc (depth sample_quotient) \<le> MAX_STACK_SIZE" "wf_expr sample_quotient" by code_simp+
  have t: "render sample_expr @ '' '' = '' 2 **03* ((3 - 44) ) e 1/ -7 ''" "render sample_quotient @ '' '' = ''7/(3-3) ''" by code_simp+
  have v: "expr_value sample_int sample_expr = Val 468" "expr_value sample_unsigned sample_quotient = Fail" by code_simp+
  show ?thesis
    using integer_expressions_evaluate [of "'' ''" sample_expr sample_int] integer_expressions_evaluate [of "'' ''" sample_quotient sample_unsigned] d v
    unfolding t by simp
qed

text \<open>
  C31. The parser comes to an end from every one of its states, for every text, well-formed or not: a call for a
  value, an expression or the rest of an expression behind a value, at any position and with any contents of
  the stack of operators within its 20 entries, returns, has not changed the text or made longer what is left of it,
  and leaves the stack within its 20 entries.  The stack is within them during the run, too: the two operations that
  change it, a push and the reduction by an operator, keep it there.  So every text is evaluated or rejected
  by \<open>eval\<close>.\<close>

theorem integer_parser_total:
  fixes ty :: "'a::len word int_type"
  assumes "length (m_stack p) \<le> MAX_STACK_SIZE"
  shows "(\<exists>r p'. parse_run ty place p = Some (r, p') \<and> m_expr p' = m_expr p \<and> rem p' \<le> rem p \<and>
      length (m_stack p') \<le> MAX_STACK_SIZE) \<and>
    length (m_stack (snd (stack_push x p))) \<le> MAX_STACK_SIZE \<and>
    length (snd (reduce_stack ty opr v (m_stack p))) \<le> MAX_STACK_SIZE \<and>
    (\<exists>ok v. IEP_eval ty s = Some (ok, v))"
proof (intro conjI)
  show "\<exists>r p'. parse_run ty place p = Some (r, p') \<and> m_expr p' = m_expr p \<and> rem p' \<le> rem p \<and> length (m_stack p') \<le> MAX_STACK_SIZE"
    using parse_run_returns [OF assms, of ty place] by (simp add: returns_def)
  show "length (m_stack (snd (stack_push x p))) \<le> MAX_STACK_SIZE" using assms by (simp add: stack_push_def)
  show "length (snd (reduce_stack ty opr v (m_stack p))) \<le> MAX_STACK_SIZE"
    using assms reduce_length [OF prod.collapse [symmetric], of ty opr v "m_stack p"] by simp
  show "\<exists>ok v. IEP_eval ty s = Some (ok, v)"
    using parse_run_returns [of "\<lparr>m_expr = s, m_index = 0, m_stack = []\<rparr>" ty At_expr]
    by (auto simp: returns_def IEP_eval_def parseExpr_def split: option.split)
qed

text \<open>A text of open parentheses only.\<close>

theorem integer_parser_total_witness:
  "length (m_stack \<lparr>m_expr = replicate 21 CHR ''('', m_index = 1, m_stack = [(null_operator, 0 :: 32 word)]\<rparr>) \<le> MAX_STACK_SIZE \<and>
   (\<exists>r p'. parse_run sample_int At_expr \<lparr>m_expr = replicate 21 CHR ''('', m_index = 1, m_stack = [(null_operator, 0)]\<rparr> = Some (r, p') \<and>
      length (m_stack p') \<le> MAX_STACK_SIZE)"
proof -
  let ?p = "\<lparr>m_expr = replicate 21 CHR ''('', m_index = 1, m_stack = [(null_operator, 0 :: 32 word)]\<rparr>"
  have s: "length (m_stack ?p) \<le> MAX_STACK_SIZE" by (simp add: MAX_STACK_SIZE_def)
  with integer_parser_total [OF s, of sample_int At_expr] show ?thesis by blast
qed

text \<open>A text that goes on behind the expression is evaluated up to there, and a missing last operand counts as 0.\<close>

lemma trailing_text_ignored:
  "IEP_eval sample_unsigned ''1+2)'' = Some (True, 3)" "IEP_eval sample_int ''1+'' = Some (True, 1)"
  by code_simp+

end
