(* ===== verification/Duty_Cycle.thy ===== *)
theory Duty_Cycle
  imports Complex_Main Elapsed_Time
begin

text \<open>
  The on and off times of an equipment cycle (\<^verbatim>\<open>src/src/Storm/Utils/DutyCycle.cpp\<close>, with the comparison of
  \<^verbatim>\<open>src/src/Cpl/Math/real.h\<close>).  A finite \<^verbatim>\<open>float\<close> is a rational number and a value that is not a number is
  \<open>None\<close>.  The rounding of every result to the type and the conversion of a \<^verbatim>\<open>float\<close> to a
  32-bit integer belong to the floating-point unit and are parameters; the comparison
  operators of the code are exact.
\<close>

section \<open>Floating point\<close>

record float_unit =
  fround :: "rat \<Rightarrow> rat"
  fcast :: "rat option \<Rightarrow> u32"

definition FLT_EPSILON :: rat where "FLT_EPSILON = 1 / 8388608"

text \<open>\<open>almostEquals\<close> for numbers, and \<open>areFloatsEqual\<close>, which is false for a NaN.\<close>

definition almostEquals :: "float_unit \<Rightarrow> rat \<Rightarrow> rat \<Rightarrow> rat \<Rightarrow> bool" where
  "almostEquals fu a b epsilon =
     (if a = b then True
      else let diff = \<bar>fround fu (a - b)\<bar>
           in if (a = 0 \<or> b = 0) \<and> diff < epsilon then diff < fround fu (epsilon * epsilon)
              else fround fu (diff / fround fu (\<bar>a\<bar> + \<bar>b\<bar>)) < epsilon)"

definition areFloatsEqual :: "float_unit \<Rightarrow> rat option \<Rightarrow> rat \<Rightarrow> bool" where
  "areFloatsEqual fu a b = (case a of None \<Rightarrow> False | Some x \<Rightarrow> almostEquals fu x b FLT_EPSILON)"

section \<open>\<^verbatim>\<open>DutyCycle.cpp\<close>\<close>

datatype cph = e2CPH | e3CPH | e4CPH | e5CPH | e6CPH | eNUM_OPTIONS

fun k_table :: "cph \<Rightarrow> rat" where
  "k_table e2CPH = 450"
| "k_table e3CPH = 300"
| "k_table e4CPH = 225"
| "k_table e5CPH = 180"
| "k_table e6CPH = 150"
| "k_table eNUM_OPTIONS = 0"

fun maxMinimumTimeLimits :: "cph \<Rightarrow> u32" where
  "maxMinimumTimeLimits e2CPH = 900"
| "maxMinimumTimeLimits e3CPH = 600"
| "maxMinimumTimeLimits e4CPH = 450"
| "maxMinimumTimeLimits e5CPH = 360"
| "maxMinimumTimeLimits e6CPH = 300"
| "maxMinimumTimeLimits eNUM_OPTIONS = 0"

text \<open>A division by a range of zero is infinite, or not a number.\<close>

definition normalizePv :: "float_unit \<Rightarrow> rat \<Rightarrow> rat \<Rightarrow> rat \<Rightarrow> rat option" where
  "normalizePv fu pvVar pvLowerBound pvUpperBound =
     (let range = fround fu (pvUpperBound - pvLowerBound)
      in if pvVar < pvLowerBound then Some 0
         else if range = 0 then (if fround fu (pvVar - pvLowerBound) = 0 then None else Some 1)
         else let pv = fround fu (fround fu (pvVar - pvLowerBound) / range)
              in Some (if pv > 1 then 1 else pv))"

definition DutyCycle_getMaximumMinOnTime :: "cph \<Rightarrow> u32 option" where
  "DutyCycle_getMaximumMinOnTime cyclesPerHour = do {
     c_assert (cyclesPerHour \<noteq> eNUM_OPTIONS);
     Some (maxMinimumTimeLimits cyclesPerHour)
   }"

definition DutyCycle_getMaximumMinOffTime :: "cph \<Rightarrow> u32 option" where
  "DutyCycle_getMaximumMinOffTime cyclesPerHour = do {
     c_assert (cyclesPerHour \<noteq> eNUM_OPTIONS);
     Some (maxMinimumTimeLimits cyclesPerHour)
   }"

definition DutyCycle_calculateOffTime :: "float_unit \<Rightarrow> rat \<Rightarrow> u32 \<Rightarrow> cph \<Rightarrow> rat \<Rightarrow> rat \<Rightarrow> u32 option" where
  "DutyCycle_calculateOffTime fu pvVar minOffTime cyclesPerHour pvLowerBound pvUpperBound = do {
     c_assert (cyclesPerHour \<noteq> eNUM_OPTIONS);
     let pv = normalizePv fu pvVar pvLowerBound pvUpperBound;
     let cycleTime = (if \<not> areFloatsEqual fu pv 0
                      then fcast fu (map_option (\<lambda>pv. fround fu (k_table cyclesPerHour / pv)) pv) else 0xFFFFFFFF);
     timeLimit \<leftarrow> DutyCycle_getMaximumMinOffTime cyclesPerHour;
     let minOffTime = (if minOffTime > timeLimit then timeLimit else minOffTime);
     Some (if cycleTime < minOffTime then minOffTime else cycleTime)
   }"

definition DutyCycle_calculateOnTime :: "float_unit \<Rightarrow> rat \<Rightarrow> u32 \<Rightarrow> cph \<Rightarrow> rat \<Rightarrow> rat \<Rightarrow> u32 option" where
  "DutyCycle_calculateOnTime fu pvVar minOnTime cyclesPerHour pvLowerBound pvUpperBound = do {
     c_assert (cyclesPerHour \<noteq> eNUM_OPTIONS);
     let pv = normalizePv fu pvVar pvLowerBound pvUpperBound;
     let divisor = map_option (\<lambda>pv. fround fu (1 - pv)) pv;
     let cycleTime = (if \<not> areFloatsEqual fu divisor 0
                      then fcast fu (map_option (\<lambda>d. fround fu (k_table cyclesPerHour / d)) divisor) else 0xFFFFFFFF);
     timeLimit \<leftarrow> DutyCycle_getMaximumMinOnTime cyclesPerHour;
     let minOnTime = (if minOnTime > timeLimit then timeLimit else minOnTime);
     Some (if cycleTime < minOnTime then minOnTime else cycleTime)
   }"

section \<open>Bounds\<close>

text \<open>
  What the floating-point unit does by IEEE 754: rounding is monotonic and keeps whole numbers
  of up to 24 bits, a rounded number is not changed by rounding, and a conversion of a number in the range of the integer type drops the fraction.
\<close>

definition ieee :: "float_unit \<Rightarrow> bool" where
  "ieee fu \<longleftrightarrow> mono (fround fu) \<and> (\<forall>n :: int. \<bar>n\<bar> \<le> 16777216 \<longrightarrow> fround fu (of_int n) = of_int n) \<and>
     (\<forall>x. fround fu (fround fu x) = fround fu x) \<and> fround fu (FLT_EPSILON * FLT_EPSILON) \<le> FLT_EPSILON \<and>
     (\<forall>x. 0 \<le> x \<longrightarrow> x < 4294967296 \<longrightarrow> fcast fu (Some x) = word_of_int \<lfloor>x\<rfloor>)"

lemma round_keeps:
  assumes "ieee fu" and "\<bar>n\<bar> \<le> 16777216"
  shows "x \<le> of_int n \<Longrightarrow> fround fu x \<le> of_int n" and "of_int n \<le> x \<Longrightarrow> of_int n \<le> fround fu x"
proof -
  have m: "mono (fround fu)" and k: "fround fu (of_int n) = of_int n" using assms by (simp_all add: ieee_def)
  show "x \<le> of_int n \<Longrightarrow> fround fu x \<le> of_int n" "of_int n \<le> x \<Longrightarrow> of_int n \<le> fround fu x"
    using monoD [OF m] k by metis+
qed

lemma normalized:
  assumes "ieee fu" and "lo < hi" and "normalizePv fu x lo hi = Some pv"
  shows "0 \<le> pv \<and> pv \<le> 1"
proof (cases "x < lo \<or> fround fu (hi - lo) = 0")
  case True
  then show ?thesis using assms(3) by (auto simp: normalizePv_def Let_def split: if_splits)
next
  case False
  have "0 \<le> fround fu (x - lo)" "0 \<le> fround fu (hi - lo)"
    using False assms(2) round_keeps(2) [OF assms(1), of 0] by simp_all
  then have "0 \<le> fround fu (fround fu (x - lo) / fround fu (hi - lo))"
    using round_keeps(2) [OF assms(1), of 0] by simp
  then show ?thesis using False assms(3) by (auto simp: normalizePv_def Let_def split: if_splits)
qed

text \<open>A time that is the quotient of the constant and a share of the load.\<close>

lemma cycle_time_bound:
  assumes "ieee fu" and "0 < d" "d \<le> 1" and c: "c \<noteq> eNUM_OPTIONS" and r: "fround fu (k_table c / d) < 4294967296"
  shows "k_table c \<le> of_nat (unat (fcast fu (Some (fround fu (k_table c / d)))))"
proof -
  obtain n :: int where n: "k_table c = of_int n" "150 \<le> n" "n \<le> 450"
  proof (rule that [of "\<lfloor>k_table c\<rfloor>"])
  qed (use c in \<open>cases c; simp\<close>)+
  have "of_int n \<le> k_table c / d" using n assms(2,3) by (simp add: field_simps mult_left_le)
  then have ge: "of_int n \<le> fround fu (k_table c / d)" using n by (intro round_keeps(2) [OF assms(1)]) auto
  let ?q = "\<lfloor>fround fu (k_table c / d)\<rfloor>"
  have q: "n \<le> ?q" "?q < 4294967296" using ge r by (simp_all add: le_floor_iff floor_less_iff)
  have "(0 :: rat) \<le> of_int n" using n(2) by simp
  then have "0 \<le> fround fu (k_table c / d)" using ge by linarith
  then have c: "fcast fu (Some (fround fu (k_table c / d))) = word_of_int ?q" using assms(1) r unfolding ieee_def by blast
  have u: "unat (word_of_int z :: u32) = nat z" if "0 \<le> z" "z < 4294967296" for z
    using that by (simp add: unat_eq_nat_uint uint_word_of_int)
  have "unat (word_of_int ?q :: u32) = nat ?q" by (rule u) (use q n(2) in linarith)+
  moreover have "n \<le> int (nat ?q)" using q(1) n(2) by linarith
  then have "(of_int n :: rat) \<le> of_int (int (nat ?q))" by (simp only: of_int_le_iff)
  ultimately have "of_int n \<le> (of_nat (unat (word_of_int ?q :: u32)) :: rat)" by (simp only: of_int_of_nat_eq)
  then show ?thesis unfolding c by (simp only: n(1))
qed

text \<open>Larger shares of the load are normalised to larger values.\<close>

lemma normalize_mono:
  assumes "ieee fu" and "lo < hi" and "x \<le> y" and "normalizePv fu x lo hi = Some p" and "normalizePv fu y lo hi = Some q"
  shows "p \<le> q"
proof (cases "x < lo")
  case True
  then have "p = 0" using assms(4) by (simp add: normalizePv_def Let_def)
  then show ?thesis using normalized [OF assms(1,2,5)] by simp
next
  case False
  let ?r = "fround fu (hi - lo)"
  have m: "mono (fround fu)" using assms(1) by (simp add: ieee_def)
  have d: "fround fu (x - lo) \<le> fround fu (y - lo)" using assms(3) by (intro monoD [OF m]) simp
  have r: "0 \<le> ?r" using assms(2) round_keeps(2) [OF assms(1), of 0] by simp
  then have "fround fu (fround fu (x - lo) / ?r) \<le> fround fu (fround fu (y - lo) / ?r)"
    by (intro monoD [OF m] divide_right_mono d)
  then show ?thesis using False assms(3-5) by (auto simp: normalizePv_def Let_def split: if_splits)
qed

lemma close_to_zero:
  assumes "ieee fu" and "fround fu p = p" and "0 \<le> p"
  shows "areFloatsEqual fu (Some p) 0 \<longleftrightarrow> p = 0 \<or> p < fround fu (FLT_EPSILON * FLT_EPSILON)"
proof -
  have "fround fu (p / p) = 1" if "p \<noteq> 0" using that assms(1) spec [of "\<lambda>n :: int. \<bar>n\<bar> \<le> 16777216 \<longrightarrow> fround fu (of_int n) = of_int n" 1]
    by (simp add: ieee_def)
  moreover have "(FLT_EPSILON :: rat) < 1" by (simp add: FLT_EPSILON_def)
  moreover have "fround fu (FLT_EPSILON * FLT_EPSILON) \<le> FLT_EPSILON" using assms(1) by (simp add: ieee_def)
  ultimately show ?thesis using assms(2,3) by (auto simp: areFloatsEqual_def almostEquals_def Let_def)
qed

lemma fcast_mono:
  assumes "ieee fu" and "0 \<le> x" "x \<le> y" "y < 4294967296"
  shows "fcast fu (Some x) \<le> fcast fu (Some y)"
proof -
  have "fcast fu (Some z) = word_of_int \<lfloor>z\<rfloor>" if "0 \<le> z" "z < 4294967296" for z using assms(1) that unfolding ieee_def by blast
  moreover have "0 \<le> \<lfloor>x\<rfloor>" "\<lfloor>x\<rfloor> \<le> \<lfloor>y\<rfloor>" "\<lfloor>y\<rfloor> < 4294967296" using assms(2-4) by (simp_all add: floor_mono floor_less_iff)
  ultimately show ?thesis using assms by (simp add: word_le_def uint_word_of_int)
qed

text \<open>The time for a share \<open>d\<close> of the load, with the largest time for a share of nothing.\<close>

definition share_time :: "float_unit \<Rightarrow> cph \<Rightarrow> rat \<Rightarrow> u32" where
  "share_time fu c d = (if areFloatsEqual fu (Some d) 0 then 0xFFFFFFFF else fcast fu (Some (fround fu (k_table c / d))))"

definition share_ok :: "float_unit \<Rightarrow> cph \<Rightarrow> rat \<Rightarrow> bool" where
  "share_ok fu c d \<longleftrightarrow> 0 \<le> d \<and> d \<le> 1 \<and> fround fu d = d \<and> (areFloatsEqual fu (Some d) 0 \<or> fround fu (k_table c / d) < 4294967296)"

lemma share_time_bound:
  assumes "ieee fu" and "c \<noteq> eNUM_OPTIONS" and "share_ok fu c d"
  shows "k_table c \<le> of_nat (unat (share_time fu c d))"
proof (cases "areFloatsEqual fu (Some d) 0")
  case True
  then show ?thesis by (cases c) (simp_all add: share_time_def)
next
  case False
  then have "0 < d" using assms(3) by (cases "d = 0") (auto simp: share_ok_def areFloatsEqual_def almostEquals_def)
  then show ?thesis using cycle_time_bound [OF assms(1) _ _ assms(2)] assms(3) False by (simp add: share_time_def share_ok_def)
qed

lemma share_time_antimono:
  assumes "ieee fu" and "c \<noteq> eNUM_OPTIONS" and "share_ok fu c d" "share_ok fu c e" and "d \<le> e"
  shows "share_time fu c e \<le> share_time fu c d"
proof (cases "areFloatsEqual fu (Some d) 0")
  case True
  have "w \<le> (0xFFFFFFFF :: u32)" for w
    using unat_bound [of w] by (simp add: word_le_nat_alt)
  then show ?thesis using True by (simp add: share_time_def)
next
  case False
  have e: "\<not> areFloatsEqual fu (Some e) 0"
    using False assms by (auto simp: close_to_zero share_ok_def)
  have "0 < d" using False assms(3) by (cases "d = 0") (auto simp: share_ok_def areFloatsEqual_def almostEquals_def)
  moreover have k: "0 \<le> k_table c" by (cases c) simp_all
  ultimately have "k_table c / e \<le> k_table c / d" using assms(5) by (intro divide_left_mono) auto
  then have "fround fu (k_table c / e) \<le> fround fu (k_table c / d)" using assms(1) by (simp add: ieee_def mono_def)
  moreover have "0 \<le> fround fu (k_table c / e)" using round_keeps(2) [OF assms(1), of 0 "k_table c / e"] k \<open>0 < d\<close> assms(5) by simp
  ultimately show ?thesis
    using fcast_mono [OF assms(1)] False e assms(3,4) by (simp add: share_time_def share_ok_def)
qed

section \<open>The times\<close>

text \<open>
  The normalised load of a stage and the rest to the full load, in the range of the conversions:
  the quotients that are converted to integers have to stay below \<open>2\<^sup>3\<^sup>2\<close>.
\<close>

definition load_ok :: "float_unit \<Rightarrow> cph \<Rightarrow> rat \<Rightarrow> rat \<Rightarrow> rat \<Rightarrow> bool" where
  "load_ok fu c lo hi x \<longleftrightarrow> (case normalizePv fu x lo hi of None \<Rightarrow> False | Some p \<Rightarrow> share_ok fu c p \<and> share_ok fu c (fround fu (1 - p)))"

lemma max_word: "(if a < m then m else a) = (max a m :: 'a::linorder)" "(if m > l then l else m) = (min m l :: 'a)"
  by (auto simp: max_def min_def)

lemma off_time_share:
  assumes "c \<noteq> eNUM_OPTIONS" and "normalizePv fu x lo hi = Some p"
  shows "DutyCycle_calculateOffTime fu x m c lo hi = Some (max (share_time fu c p) (min m (maxMinimumTimeLimits c)))"
  using assms unfolding DutyCycle_calculateOffTime_def DutyCycle_getMaximumMinOffTime_def Let_def max_word
  by (simp add: share_time_def)

lemma on_time_share:
  assumes "c \<noteq> eNUM_OPTIONS" and "normalizePv fu x lo hi = Some p"
  shows "DutyCycle_calculateOnTime fu x m c lo hi = Some (max (share_time fu c (fround fu (1 - p))) (min m (maxMinimumTimeLimits c)))"
  using assms unfolding DutyCycle_calculateOnTime_def DutyCycle_getMaximumMinOnTime_def Let_def max_word
  by (simp add: share_time_def)

text \<open>
  C33. On a floating-point unit that follows IEEE 754, for every cycles-per-hour setting and every load in the
  range of the conversions, the off and the on time of a cycle are at least the time of the setting (150
  to 450 seconds, so never zero) and at least the configured minimum, as far as the setting allows it; and
  with a larger load the off time does not get longer and the on time does not get shorter.
\<close>
theorem duty_cycle_times:
  assumes "ieee fu" and "c \<noteq> eNUM_OPTIONS" and "lo < hi" and "x \<le> y" and "load_ok fu c lo hi x" "load_ok fu c lo hi y"
  shows "\<exists>off off' on on'.
    DutyCycle_calculateOffTime fu x m c lo hi = Some off \<and> DutyCycle_calculateOffTime fu y m c lo hi = Some off' \<and>
    DutyCycle_calculateOnTime fu x m c lo hi = Some on \<and> DutyCycle_calculateOnTime fu y m c lo hi = Some on' \<and>
    off' \<le> off \<and> on \<le> on' \<and>
    (\<forall>t\<in>{off, off', on, on'}. k_table c \<le> of_nat (unat t) \<and> min m (maxMinimumTimeLimits c) \<le> t)"
proof -
  obtain p q where p: "normalizePv fu x lo hi = Some p" and q: "normalizePv fu y lo hi = Some q"
    using assms(5,6) by (auto simp: load_ok_def split: option.splits)
  have s: "share_ok fu c p" "share_ok fu c q" "share_ok fu c (fround fu (1 - p))" "share_ok fu c (fround fu (1 - q))"
    using assms(5,6) p q by (simp_all add: load_ok_def)
  have le: "p \<le> q" by (rule normalize_mono [OF assms(1,3,4) p q])
  then have le': "fround fu (1 - q) \<le> fround fu (1 - p)" using assms(1) by (simp add: ieee_def mono_def)
  note times = off_time_share [OF assms(2) p] off_time_share [OF assms(2) q] on_time_share [OF assms(2) p] on_time_share [OF assms(2) q]
  have mono: "share_time fu c q \<le> share_time fu c p" "share_time fu c (fround fu (1 - p)) \<le> share_time fu c (fround fu (1 - q))"
    using share_time_antimono [OF assms(1,2)] s le le' by blast+
  have bound: "k_table c \<le> of_nat (unat (max (share_time fu c d) w))" if "share_ok fu c d" for d w
  proof -
    have "k_table c \<le> of_nat (unat (share_time fu c d))" by (rule share_time_bound [OF assms(1,2) that])
    also have "\<dots> \<le> of_nat (unat (max (share_time fu c d) w))" by (rule of_nat_mono) (simp add: max_def word_le_nat_alt)
    finally show ?thesis .
  qed
  show ?thesis unfolding times using mono bound s by (auto simp: max.coboundedI1)
qed

theorem duty_cycle_times_witness:
  "\<exists>off off' on on'.
    DutyCycle_calculateOffTime \<lparr>fround = id, fcast = \<lambda>x. word_of_int \<lfloor>the x\<rfloor>\<rparr> 25 300 e3CPH 0 100 = Some off \<and>
    DutyCycle_calculateOffTime \<lparr>fround = id, fcast = \<lambda>x. word_of_int \<lfloor>the x\<rfloor>\<rparr> 50 300 e3CPH 0 100 = Some off' \<and>
    DutyCycle_calculateOnTime \<lparr>fround = id, fcast = \<lambda>x. word_of_int \<lfloor>the x\<rfloor>\<rparr> 25 300 e3CPH 0 100 = Some on \<and>
    DutyCycle_calculateOnTime \<lparr>fround = id, fcast = \<lambda>x. word_of_int \<lfloor>the x\<rfloor>\<rparr> 50 300 e3CPH 0 100 = Some on' \<and>
    off' \<le> off \<and> on \<le> on' \<and> 300 \<le> on"
proof -
  let ?fu = "\<lparr>fround = id, fcast = \<lambda>x. word_of_int \<lfloor>the x :: rat\<rfloor>\<rparr>"
  have "ieee ?fu" by (simp add: ieee_def mono_def FLT_EPSILON_def)
  moreover have "load_ok ?fu e3CPH 0 100 25" "load_ok ?fu e3CPH 0 100 50"
    by (simp_all add: load_ok_def normalizePv_def share_ok_def areFloatsEqual_def almostEquals_def FLT_EPSILON_def)
  ultimately obtain off off' on on' where t:
    "DutyCycle_calculateOffTime ?fu 25 300 e3CPH 0 100 = Some off" "DutyCycle_calculateOffTime ?fu 50 300 e3CPH 0 100 = Some off'"
    "DutyCycle_calculateOnTime ?fu 25 300 e3CPH 0 100 = Some on" "DutyCycle_calculateOnTime ?fu 50 300 e3CPH 0 100 = Some on'"
    "off' \<le> off" "on \<le> on'" "min 300 (maxMinimumTimeLimits e3CPH) \<le> on"
    using duty_cycle_times [of ?fu e3CPH 0 100 25 50 300] by fastforce
  moreover from t(7) have "300 \<le> on" by (simp add: min_def)
  ultimately show ?thesis by blast
qed

end
