(* ===== verification/Stage_Fsm.thy ===== *)
theory Stage_Fsm
  imports Duty_Cycle
begin

text \<open>
  The state machine of an equipment stage of the thermostat: the generated machine
  (\<^verbatim>\<open>src/src/Storm/Component/Equipment/Stage/Fsm_.cpp\<close>), its event queue (\<^verbatim>\<open>FsmEventQueue_.cpp\<close>), the
  actions and guards (\<^verbatim>\<open>Basic.cpp\<close>) and the two concrete stages (\<^verbatim>\<open>BasicCooling.cpp\<close>,
  \<^verbatim>\<open>BasicIndoorHeat.cpp\<close>).

  Stages notify each other, so the model is a plant: the list of the stages, where a pointer to a stage is its
  position, and the one object \<^verbatim>\<open>Args_T\<close> that exists during a call, with its address.  A stage
  keeps a pointer to the arguments of an earlier call; a use of it fails unless it points to the present object.
  An action takes the function with which it generates events, and the run of the machine ties the knot.
\<close>

section \<open>Data\<close>

datatype cycle_status = eOFF | eON_CYCLE | eOFF_CYCLE | eTRANSITIONING_UP | eTRANSITIONING_DOWN

datatype operating_mode = OM_eOFF | OM_eCOOLING | OM_eHEATING | OM_eID_HEATING | OM_eUNKNOWN

text \<open>The types of the units; an \<^verbatim>\<open>int\<close> that is not in the enumeration is unsupported.\<close>

datatype idu_type = eAIR_HANDLER | eFURNACE | IDU_unsupported

datatype odu_type = eAC | eHP | ODU_unsupported

record stage_config =
  lowerBound :: rat
  upperBound :: rat
  minIndoorFan :: u16
  maxIndoorFan :: u16
  minOnTime :: u32
  minOffTime :: u32
  cfg_cph :: cph

record system_config =
  cfg_stages :: "stage_config list"
  currentOpMode :: operating_mode
  outdoorUnitType :: odu_type
  indoorUnitType :: idu_type
  numCompressorStages :: u16
  numIndoorStages :: u16
  totalStages :: u16
  fanContinuousSpeed :: u16
  cfg_gain :: rat
  cfg_reset :: rat
  cfg_maxPvOut :: rat

record virtual_outputs =
  indoorFan :: u16
  indoorFanCont :: u16
  indoorStages :: "u16 list"
  outdoorFan :: u16
  outdoorStages :: "u16 list"
  sovInHeating :: bool

record cycle_info =
  beginOnTime :: precision
  beginOffTime :: precision
  ci_onTime :: u32
  ci_offTime :: u32
  ci_mode :: cycle_status

record args =
  pvOut :: rat
  systemConfig :: system_config
  currentInterval :: precision
  outdoorUnitBeginOffTime :: precision
  indoorUnitBeginOffTime :: precision
  defeatEquipMinOffTime :: bool
  abortOnOffCycle :: bool
  vOutputs :: virtual_outputs
  cycleInfo :: cycle_info
  systemOn :: bool

definition VIRTUAL_OUTPUTS_OFF :: u16 where "VIRTUAL_OUTPUTS_OFF = 0"

definition VIRTUAL_OUTPUTS_ON :: u16 where "VIRTUAL_OUTPUTS_ON = 1000"

datatype states = OffTime | Active | SupplementingNextStage | OnTime | Off | Cycling | OnCycle | StartingOn
  | TransitioningFromLowerStage | OffCycle | StartingOff | TransitioningBackToLowerStage | NUM_STATES

datatype fsm_event = Fsm_evBackTransitionCompleted | Fsm_evLessCapacityNeeded | Fsm_evOnRequest | Fsm_evOffModeRequest
  | Fsm_evStartingOnTimeExpired | Fsm_evStartingOffTimeExpired | Fsm_evOffTimeExpired | Fsm_evExcessCapacity
  | Fsm_evOnTimeExpired | Fsm_evFromTransitionCompleted | Fsm_evNeedMoreCapacity | FSM_NO_MSG

record state_vars =
  stateVar :: states
  stateVarActive :: states
  stateVarCycling :: states
  stateVarOnCycle :: states
  stateVarOffCycle :: states

text \<open>The concrete class, for the indoor heat with its member \<open>m_controlFan\<close>.\<close>

datatype stage_class = BasicCooling | BasicIndoorHeat bool

record stage =
  stg_class :: stage_class
  m_initialized :: bool
  stateVars :: state_vars
  m_eventQue :: "fsm_event list"
  m_processingFsmEvent :: bool
  m_systemIndex :: nat
  m_outIndex :: nat
  m_startTime :: precision
  m_args :: ptr
  m_nextStage :: ptr
  m_prevStage :: ptr
  m_startInOffCycle :: bool
  m_supplemented :: bool
  m_requestSupplementStartInOnCycle :: bool
  m_requestOffStartInOnCycle :: bool

record plant =
  the_stages :: "stage list"
  args_at :: addr
  the_args :: args

type_synonym generator = "nat \<Rightarrow> fsm_event \<Rightarrow> plant \<Rightarrow> plant option"

definition stg :: "plant \<Rightarrow> nat \<Rightarrow> stage" where
  "stg p i = the_stages p ! i"

definition upd_stg :: "nat \<Rightarrow> (stage \<Rightarrow> stage) \<Rightarrow> plant \<Rightarrow> plant" where
  "upd_stg i f p = p\<lparr>the_stages := (the_stages p)[i := f (the_stages p ! i)]\<rparr>"

definition upd_args :: "(args \<Rightarrow> args) \<Rightarrow> plant \<Rightarrow> plant" where
  "upd_args f p = p\<lparr>the_args := f (the_args p)\<rparr>"

definition upd_outputs :: "(virtual_outputs \<Rightarrow> virtual_outputs) \<Rightarrow> plant \<Rightarrow> plant" where
  "upd_outputs f = upd_args (\<lambda>a. a\<lparr>vOutputs := f (vOutputs a)\<rparr>)"

definition upd_cycle :: "(cycle_info \<Rightarrow> cycle_info) \<Rightarrow> plant \<Rightarrow> plant" where
  "upd_cycle f = upd_args (\<lambda>a. a\<lparr>cycleInfo := f (cycleInfo a)\<rparr>)"

text \<open>\<open>m_args\<close> is not null and points to the arguments that exist.\<close>

definition use_args :: "nat \<Rightarrow> plant \<Rightarrow> unit option" where
  "use_args i p = c_assert (m_args (stg p i) = Some (args_at p))"

section \<open>The concrete stages\<close>

definition stageOff :: "nat \<Rightarrow> plant \<Rightarrow> plant option" where
  "stageOff i p = do {
     use_args i p;
     p \<leftarrow> (case stg_class (stg p i) of
            BasicCooling \<Rightarrow> do {
              c_assert (m_outIndex (stg p i) < length (outdoorStages (vOutputs (the_args p))));
              Some (upd_outputs (\<lambda>v. v\<lparr>outdoorStages := (outdoorStages v)[m_outIndex (stg p i) := VIRTUAL_OUTPUTS_OFF]\<rparr>) p)
            }
          | BasicIndoorHeat controlFan \<Rightarrow> do {
              c_assert (m_outIndex (stg p i) < length (indoorStages (vOutputs (the_args p))));
              Some (upd_outputs (\<lambda>v. v\<lparr>indoorStages := (indoorStages v)[m_outIndex (stg p i) := VIRTUAL_OUTPUTS_OFF]\<rparr>) p)
            });
     if m_systemIndex (stg p i) = 0 then Some (upd_outputs (\<lambda>v. v\<lparr>indoorFan := VIRTUAL_OUTPUTS_OFF\<rparr>) p) else Some p
   }"

definition stageOn :: "nat \<Rightarrow> plant \<Rightarrow> plant option" where
  "stageOn i p = do {
     use_args i p;
     case stg_class (stg p i) of
       BasicCooling \<Rightarrow> do {
         c_assert (m_outIndex (stg p i) < length (outdoorStages (vOutputs (the_args p))));
         let p = upd_outputs (\<lambda>v. v\<lparr>outdoorStages := (outdoorStages v)[m_outIndex (stg p i) := VIRTUAL_OUTPUTS_ON]\<rparr>) p;
         if m_systemIndex (stg p i) = 0 then Some (upd_outputs (\<lambda>v. v\<lparr>indoorFan := VIRTUAL_OUTPUTS_ON\<rparr>) p) else Some p
       }
     | BasicIndoorHeat controlFan \<Rightarrow> do {
         c_assert (m_outIndex (stg p i) < length (indoorStages (vOutputs (the_args p))));
         let p = upd_outputs (\<lambda>v. v\<lparr>indoorStages := (indoorStages v)[m_outIndex (stg p i) := VIRTUAL_OUTPUTS_ON]\<rparr>) p;
         if m_systemIndex (stg p i) = 0
         then Some (upd_outputs (\<lambda>v. v\<lparr>indoorFan := (if controlFan then VIRTUAL_OUTPUTS_ON else VIRTUAL_OUTPUTS_OFF)\<rparr>) p)
         else Some p
       }
   }"

section \<open>Actions and guards (\<^verbatim>\<open>Basic.cpp\<close>)\<close>

definition initializeStage :: "nat \<Rightarrow> plant \<Rightarrow> plant" where
  "initializeStage i = upd_stg i (\<lambda>s. s\<lparr>m_startInOffCycle := False, m_supplemented := False, m_nextStage := None, m_prevStage := None,
     m_args := None, m_requestOffStartInOnCycle := True, m_requestSupplementStartInOnCycle := True,
     m_startTime := \<lparr>m_seconds = 0, m_thousandths = 0\<rparr>\<rparr>)"

text \<open>The parts of \<open>notifyAsActiveStage_\<close> and \<open>notifyAsExitingSupplmenting_\<close> of the notified stage \<open>j\<close>.\<close>

definition notifyAsActiveStage_by :: "generator \<Rightarrow> nat \<Rightarrow> addr \<Rightarrow> nat \<Rightarrow> bool \<Rightarrow> plant \<Rightarrow> plant option" where
  "notifyAsActiveStage_by gen j a previousStage startInOnCycle p = do {
     c_assert (j < length (the_stages p));
     gen j Fsm_evOnRequest (upd_stg j (\<lambda>s. s\<lparr>m_args := Some a, m_startInOffCycle := \<not> startInOnCycle, m_supplemented := True,
       m_nextStage := None, m_prevStage := Some previousStage\<rparr>) p)
   }"

definition notifyAsExitingSupplmenting_by :: "generator \<Rightarrow> nat \<Rightarrow> addr \<Rightarrow> bool \<Rightarrow> plant \<Rightarrow> plant option" where
  "notifyAsExitingSupplmenting_by gen j a startInOnCycle p = do {
     c_assert (j < length (the_stages p));
     gen j Fsm_evLessCapacityNeeded (upd_stg j (\<lambda>s. s\<lparr>m_args := Some a, m_startInOffCycle := \<not> startInOnCycle, m_nextStage := None\<rparr>) p)
   }"

definition enterSupplementing :: "generator \<Rightarrow> nat \<Rightarrow> plant \<Rightarrow> plant option" where
  "enterSupplementing gen i p = do {
     use_args i p;
     j \<leftarrow> m_nextStage (stg p i);
     p \<leftarrow> notifyAsActiveStage_by gen j (args_at p) i (m_requestSupplementStartInOnCycle (stg p i)) p;
     stageOn i p
   }"

definition notifyLowerStage :: "generator \<Rightarrow> nat \<Rightarrow> plant \<Rightarrow> plant option" where
  "notifyLowerStage gen i p = do {
     use_args i p;
     j \<leftarrow> m_prevStage (stg p i);
     p \<leftarrow> notifyAsExitingSupplmenting_by gen j (args_at p) (m_requestOffStartInOnCycle (stg p i)) p;
     Some (upd_stg i (\<lambda>s. s\<lparr>m_prevStage := None, m_supplemented := False\<rparr>) p)
   }"

definition startOnTime :: "nat \<Rightarrow> plant \<Rightarrow> plant option" where
  "startOnTime i p = do { use_args i p; Some (upd_stg i (\<lambda>s. s\<lparr>m_startTime := currentInterval (the_args p)\<rparr>) p) }"

definition startOffTime :: "nat \<Rightarrow> plant \<Rightarrow> plant option" where
  "startOffTime i p = do { use_args i p; Some (upd_stg i (\<lambda>s. s\<lparr>m_startTime := currentInterval (the_args p)\<rparr>) p) }"

definition initializeBackTransition :: "generator \<Rightarrow> nat \<Rightarrow> plant \<Rightarrow> plant option" where
  "initializeBackTransition gen i p = gen i Fsm_evBackTransitionCompleted p"

definition initializeFromTransition :: "generator \<Rightarrow> nat \<Rightarrow> plant \<Rightarrow> plant option" where
  "initializeFromTransition gen i p = gen i Fsm_evFromTransitionCompleted p"

definition checkOffTime :: "float_unit \<Rightarrow> generator \<Rightarrow> nat \<Rightarrow> plant \<Rightarrow> plant option" where
  "checkOffTime fu gen i p = do {
     use_args i p;
     if ci_mode (cycleInfo (the_args p)) = eOFF_CYCLE then do {
       c_assert (m_systemIndex (stg p i) < length (cfg_stages (systemConfig (the_args p))));
       let c = cfg_stages (systemConfig (the_args p)) ! m_systemIndex (stg p i);
       t \<leftarrow> DutyCycle_calculateOffTime fu (pvOut (the_args p)) (minOffTime c) (cfg_cph c) (lowerBound c) (upperBound c);
       let p = upd_cycle (\<lambda>ci. ci\<lparr>ci_offTime := t\<rparr>) p;
       if expiredPrecision (m_startTime (stg p i)) \<lparr>m_seconds = t, m_thousandths = 0\<rparr> (currentInterval (the_args p)) \<or> abortOnOffCycle (the_args p)
       then gen i Fsm_evOffTimeExpired (upd_args (\<lambda>a. a\<lparr>abortOnOffCycle := False\<rparr>) p)
       else Some p
     } else Some p
   }"

definition checkOnTime :: "float_unit \<Rightarrow> generator \<Rightarrow> nat \<Rightarrow> plant \<Rightarrow> plant option" where
  "checkOnTime fu gen i p = do {
     use_args i p;
     if ci_mode (cycleInfo (the_args p)) = eON_CYCLE then do {
       c_assert (m_systemIndex (stg p i) < length (cfg_stages (systemConfig (the_args p))));
       let c = cfg_stages (systemConfig (the_args p)) ! m_systemIndex (stg p i);
       t \<leftarrow> DutyCycle_calculateOnTime fu (pvOut (the_args p)) (minOnTime c) (cfg_cph c) (lowerBound c) (upperBound c);
       let p = upd_cycle (\<lambda>ci. ci\<lparr>ci_onTime := t\<rparr>) p;
       if expiredPrecision (m_startTime (stg p i)) \<lparr>m_seconds = t, m_thousandths = 0\<rparr> (currentInterval (the_args p)) \<or> abortOnOffCycle (the_args p)
       then gen i Fsm_evOnTimeExpired (upd_args (\<lambda>a. a\<lparr>abortOnOffCycle := False\<rparr>) p)
       else Some p
     } else Some p
   }"

definition startingStageOff :: "float_unit \<Rightarrow> generator \<Rightarrow> nat \<Rightarrow> plant \<Rightarrow> plant option" where
  "startingStageOff fu gen i p = do {
     use_args i p;
     p \<leftarrow> stageOff i p;
     let p = upd_cycle (\<lambda>ci. ci\<lparr>beginOffTime := m_startTime (stg p i), ci_mode := eOFF_CYCLE\<rparr>) p;
     p \<leftarrow> checkOffTime fu gen i p;
     gen i Fsm_evStartingOffTimeExpired p
   }"

definition startingStageOn :: "float_unit \<Rightarrow> generator \<Rightarrow> nat \<Rightarrow> plant \<Rightarrow> plant option" where
  "startingStageOn fu gen i p = do {
     use_args i p;
     p \<leftarrow> stageOn i p;
     let p = upd_cycle (\<lambda>ci. ci\<lparr>beginOnTime := m_startTime (stg p i), ci_mode := eON_CYCLE\<rparr>) p;
     p \<leftarrow> checkOnTime fu gen i p;
     gen i Fsm_evStartingOnTimeExpired p
   }"

definition shutdownStage :: "nat \<Rightarrow> plant \<Rightarrow> plant option" where
  "shutdownStage i p = do {
     use_args i p;
     p \<leftarrow> stageOff i p;
     if m_systemIndex (stg p i) = 0
     then Some (upd_cycle (\<lambda>ci. ci\<lparr>ci_mode := eOFF\<rparr>) (upd_args (\<lambda>a. a\<lparr>systemOn := False\<rparr>) p))
     else Some p
   }"

text \<open>\<open>Basic::initializeActive\<close>, which \<open>BasicCooling\<close> extends.\<close>

definition initializeActive :: "nat \<Rightarrow> plant \<Rightarrow> plant option" where
  "initializeActive i p = do {
     p \<leftarrow> stageOff i p;
     let p = (if m_systemIndex (stg p i) = 0 then upd_args (\<lambda>a. a\<lparr>systemOn := True\<rparr>) p else p);
     Some (case stg_class (stg p i) of
             BasicCooling \<Rightarrow> upd_outputs (\<lambda>v. v\<lparr>sovInHeating := False\<rparr>) p
           | BasicIndoorHeat controlFan \<Rightarrow> p)
   }"

section \<open>The machine (\<^verbatim>\<open>Fsm_.cpp\<close>)\<close>

text \<open>The choice at the entry of the state \<open>Cycling\<close>.\<close>

definition Fsm_enterCycling :: "float_unit \<Rightarrow> generator \<Rightarrow> nat \<Rightarrow> state_vars \<Rightarrow> plant \<Rightarrow> (state_vars \<times> plant) option" where
  "Fsm_enterCycling fu gen i sv p =
     (if m_startInOffCycle (stg p i) then do {
        p \<leftarrow> startOffTime i p;
        p \<leftarrow> startingStageOff fu gen i p;
        Some (sv\<lparr>stateVarCycling := OffCycle, stateVarOffCycle := StartingOff\<rparr>, p)
      } else do {
        p \<leftarrow> startOnTime i p;
        p \<leftarrow> startingStageOn fu gen i p;
        Some (sv\<lparr>stateVarCycling := OnCycle, stateVarOnCycle := StartingOn\<rparr>, p)
      })"

text \<open>Each part of the switch: whether the event was consumed, the state variables and the plant.\<close>

definition Fsm_Off :: "float_unit \<Rightarrow> generator \<Rightarrow> nat \<Rightarrow> fsm_event \<Rightarrow> state_vars \<Rightarrow> plant \<Rightarrow> (bool \<times> state_vars \<times> plant) option" where
  "Fsm_Off fu gen i msg sv p =
     (if msg = Fsm_evOnRequest then
        if m_supplemented (stg p i) then do {
          p \<leftarrow> initializeFromTransition gen i p;
          Some (True, sv\<lparr>stateVar := Active, stateVarActive := TransitioningFromLowerStage\<rparr>, p)
        } else do {
          p \<leftarrow> initializeActive i p;
          (sv, p) \<leftarrow> Fsm_enterCycling fu gen i (sv\<lparr>stateVar := Active, stateVarActive := Cycling\<rparr>) p;
          Some (True, sv, p)
        }
      else Some (False, sv, p))"

definition Fsm_OnCycle :: "float_unit \<Rightarrow> generator \<Rightarrow> nat \<Rightarrow> fsm_event \<Rightarrow> state_vars \<Rightarrow> plant \<Rightarrow> (bool \<times> state_vars \<times> plant) option" where
  "Fsm_OnCycle fu gen i msg sv p = do {
     (evConsumed, sv, p) \<leftarrow>
       (if stateVarOnCycle sv = OnTime then do { p \<leftarrow> checkOnTime fu gen i p; Some (False, sv, p) }
        else if stateVarOnCycle sv = StartingOn \<and> msg = Fsm_evStartingOnTimeExpired
        then do { p \<leftarrow> stageOn i p; Some (True, sv\<lparr>stateVarOnCycle := OnTime\<rparr>, p) }
        else Some (False, sv, p));
     if \<not> evConsumed \<and> msg = Fsm_evOnTimeExpired then do {
       p \<leftarrow> startOffTime i p;
       p \<leftarrow> startingStageOff fu gen i p;
       Some (True, sv\<lparr>stateVarCycling := OffCycle, stateVarOffCycle := StartingOff\<rparr>, p)
     } else Some (evConsumed, sv, p)
   }"

definition Fsm_OffCycle :: "float_unit \<Rightarrow> generator \<Rightarrow> nat \<Rightarrow> fsm_event \<Rightarrow> state_vars \<Rightarrow> plant \<Rightarrow> (bool \<times> state_vars \<times> plant) option" where
  "Fsm_OffCycle fu gen i msg sv p = do {
     (evConsumed, sv, p) \<leftarrow>
       (if stateVarOffCycle sv = StartingOff \<and> msg = Fsm_evStartingOffTimeExpired
        then do { p \<leftarrow> stageOff i p; Some (True, sv\<lparr>stateVarOffCycle := OffTime\<rparr>, p) }
        else if stateVarOffCycle sv = OffTime then do { p \<leftarrow> checkOffTime fu gen i p; Some (False, sv, p) }
        else Some (False, sv, p));
     if \<not> evConsumed \<and> msg = Fsm_evOffTimeExpired then do {
       p \<leftarrow> startOnTime i p;
       p \<leftarrow> startingStageOn fu gen i p;
       Some (True, sv\<lparr>stateVarCycling := OnCycle, stateVarOnCycle := StartingOn\<rparr>, p)
     } else Some (evConsumed, sv, p)
   }"

definition Fsm_Cycling :: "float_unit \<Rightarrow> generator \<Rightarrow> nat \<Rightarrow> fsm_event \<Rightarrow> state_vars \<Rightarrow> plant \<Rightarrow> (bool \<times> state_vars \<times> plant) option" where
  "Fsm_Cycling fu gen i msg sv p = do {
     (evConsumed, sv, p) \<leftarrow>
       (if stateVarCycling sv = OnCycle then Fsm_OnCycle fu gen i msg sv p
        else if stateVarCycling sv = OffCycle then Fsm_OffCycle fu gen i msg sv p
        else Some (False, sv, p));
     if evConsumed then Some (True, sv, p)
     else if msg = Fsm_evExcessCapacity then
       if m_supplemented (stg p i) then do {
         p \<leftarrow> initializeBackTransition gen i p;
         Some (True, sv\<lparr>stateVarActive := TransitioningBackToLowerStage\<rparr>, p)
       } else do {
         p \<leftarrow> shutdownStage i p;
         Some (True, sv\<lparr>stateVar := Off\<rparr>, p)
       }
     else if msg = Fsm_evNeedMoreCapacity then do {
       p \<leftarrow> enterSupplementing gen i p;
       Some (True, sv\<lparr>stateVar := SupplementingNextStage\<rparr>, p)
     } else Some (False, sv, p)
   }"

definition Fsm_Active :: "float_unit \<Rightarrow> generator \<Rightarrow> nat \<Rightarrow> fsm_event \<Rightarrow> state_vars \<Rightarrow> plant \<Rightarrow> (bool \<times> state_vars \<times> plant) option" where
  "Fsm_Active fu gen i msg sv p = do {
     (evConsumed, sv, p) \<leftarrow>
       (if stateVarActive sv = Cycling then Fsm_Cycling fu gen i msg sv p
        else if stateVarActive sv = TransitioningFromLowerStage \<and> msg = Fsm_evFromTransitionCompleted then do {
          (sv, p) \<leftarrow> Fsm_enterCycling fu gen i (sv\<lparr>stateVarActive := Cycling\<rparr>) p;
          Some (True, sv, p)
        }
        else if stateVarActive sv = TransitioningBackToLowerStage \<and> msg = Fsm_evBackTransitionCompleted then do {
          p \<leftarrow> notifyLowerStage gen i p;
          p \<leftarrow> shutdownStage i p;
          Some (True, sv\<lparr>stateVar := Off, stateVarActive := Cycling\<rparr>, p)
        }
        else Some (False, sv, p));
     if \<not> evConsumed \<and> msg = Fsm_evOffModeRequest
     then Some (True, sv\<lparr>stateVar := Off\<rparr>, initializeStage i p)
     else Some (evConsumed, sv, p)
   }"

definition Fsm_Supplementing :: "float_unit \<Rightarrow> generator \<Rightarrow> nat \<Rightarrow> fsm_event \<Rightarrow> state_vars \<Rightarrow> plant \<Rightarrow> (bool \<times> state_vars \<times> plant) option" where
  "Fsm_Supplementing fu gen i msg sv p =
     (if msg = Fsm_evLessCapacityNeeded then do {
        (sv, p) \<leftarrow> Fsm_enterCycling fu gen i (sv\<lparr>stateVarActive := Cycling\<rparr>) p;
        Some (True, sv\<lparr>stateVar := Active\<rparr>, p)
      }
      else if msg = Fsm_evOffModeRequest then Some (True, sv\<lparr>stateVar := Off\<rparr>, initializeStage i p)
      else Some (False, sv, p))"

definition Fsm_processEvent :: "float_unit \<Rightarrow> generator \<Rightarrow> nat \<Rightarrow> fsm_event \<Rightarrow> plant \<Rightarrow> (bool \<times> plant) option" where
  "Fsm_processEvent fu gen i msg p =
     (if \<not> m_initialized (stg p i) then Some (False, p)
      else do {
        let sv = stateVars (stg p i);
        (evConsumed, sv, p) \<leftarrow>
          (if stateVar sv = Off then Fsm_Off fu gen i msg sv p
           else if stateVar sv = Active then Fsm_Active fu gen i msg sv p
           else if stateVar sv = SupplementingNextStage then Fsm_Supplementing fu gen i msg sv p
           else Some (False, sv, p));
        Some (evConsumed, upd_stg i (\<lambda>s. s\<lparr>stateVars := sv\<rparr>) p)
      })"

lemmas fsm_defs = Fsm_processEvent_def Fsm_Supplementing_def Fsm_Active_def Fsm_Cycling_def Fsm_OffCycle_def Fsm_OnCycle_def
  Fsm_Off_def Fsm_enterCycling_def

lemmas action_defs = initializeActive_def shutdownStage_def startingStageOn_def startingStageOff_def checkOnTime_def checkOffTime_def
  initializeFromTransition_def initializeBackTransition_def startOffTime_def startOnTime_def notifyLowerStage_def enterSupplementing_def
  notifyAsActiveStage_by_def notifyAsExitingSupplmenting_by_def

text \<open>
  The queue (\<^verbatim>\<open>FsmEventQueue_.cpp\<close>), a ring buffer over 8 elements, which holds 7 events: \<open>Inl (i, msg)\<close> is
  \<open>generateEvent\<close> of stage \<open>i\<close>, where a full queue is a fatal error, and \<open>Inr i\<close> its loop.
\<close>

definition QUEUE_SIZE :: nat where "QUEUE_SIZE = 8"

lemma processEvent_mono [partial_function_mono]:
  assumes "\<And>j e q. mono_option (\<lambda>f. G f j e q)"
  shows "mono_option (\<lambda>f. Fsm_processEvent fu (G f) i msg p)"
  unfolding fsm_defs action_defs Let_def split_def
  by (intro partial_function_mono assms)

partial_function (option) Fsm_run :: "float_unit \<Rightarrow> (nat \<times> fsm_event) + nat \<Rightarrow> plant \<Rightarrow> plant option" where
  "Fsm_run fu call p =
     (case call of
        Inl im \<Rightarrow> do {
          let i = fst im;
          c_assert (i < length (the_stages p));
          c_assert (length (m_eventQue (stg p i)) < QUEUE_SIZE - 1);
          let p = upd_stg i (\<lambda>s. s\<lparr>m_eventQue := m_eventQue s @ [snd im]\<rparr>) p;
          if \<not> m_processingFsmEvent (stg p i) then do {
            p \<leftarrow> Fsm_run fu (Inr i) (upd_stg i (\<lambda>s. s\<lparr>m_processingFsmEvent := True\<rparr>) p);
            Some (upd_stg i (\<lambda>s. s\<lparr>m_processingFsmEvent := False\<rparr>) p)
          } else Some p
        }
      | Inr i \<Rightarrow>
          (case m_eventQue (stg p i) of
             [] \<Rightarrow> Some p
           | msg # que \<Rightarrow> do {
               r \<leftarrow> Fsm_processEvent fu (\<lambda>j e. Fsm_run fu (Inl (j, e))) i msg (upd_stg i (\<lambda>s. s\<lparr>m_eventQue := que\<rparr>) p);
               Fsm_run fu (Inr i) (snd r)
             }))"

definition generateEvent :: "float_unit \<Rightarrow> generator" where
  "generateEvent fu i msg = Fsm_run fu (Inl (i, msg))"


section \<open>Requests and queries (\<^verbatim>\<open>Basic.cpp\<close>)\<close>

definition Basic :: "stage_class \<Rightarrow> nat \<Rightarrow> nat \<Rightarrow> stage" where
  "Basic cls systemStageIndex outputStageIndex =
     \<lparr>stg_class = cls, m_initialized = True,
      stateVars = \<lparr>stateVar = Off, stateVarActive = Cycling, stateVarCycling = OnCycle, stateVarOnCycle = StartingOn, stateVarOffCycle = StartingOff\<rparr>,
      m_eventQue = [], m_processingFsmEvent = False, m_systemIndex = systemStageIndex, m_outIndex = outputStageIndex,
      m_startTime = \<lparr>m_seconds = 0, m_thousandths = 0\<rparr>, m_args = None, m_nextStage = None, m_prevStage = None,
      m_startInOffCycle = False, m_supplemented = False, m_requestSupplementStartInOnCycle = True, m_requestOffStartInOnCycle = True\<rparr>"

definition Basic_reconfigure :: "nat \<Rightarrow> nat \<Rightarrow> nat \<Rightarrow> plant \<Rightarrow> plant" where
  "Basic_reconfigure i systemStageIndex outputStageIndex = upd_stg i (\<lambda>s. s\<lparr>m_systemIndex := systemStageIndex, m_outIndex := outputStageIndex\<rparr>)"

definition Basic_requestOn :: "float_unit \<Rightarrow> nat \<Rightarrow> bool \<Rightarrow> plant \<Rightarrow> plant option" where
  "Basic_requestOn fu i startInOnCycle p =
     generateEvent fu i Fsm_evOnRequest
       (upd_stg i (\<lambda>s. s\<lparr>m_args := Some (args_at p), m_startInOffCycle := \<not> startInOnCycle, m_supplemented := False\<rparr>) p)"

definition Basic_requestAsSupplement :: "float_unit \<Rightarrow> nat \<Rightarrow> nat \<Rightarrow> bool \<Rightarrow> plant \<Rightarrow> plant option" where
  "Basic_requestAsSupplement fu i nextStage startNextStageInOnCycle p =
     generateEvent fu i Fsm_evNeedMoreCapacity
       (upd_stg i (\<lambda>s. s\<lparr>m_args := Some (args_at p), m_requestSupplementStartInOnCycle := startNextStageInOnCycle, m_nextStage := Some nextStage\<rparr>) p)"

definition Basic_requestModeToOff :: "float_unit \<Rightarrow> nat \<Rightarrow> plant \<Rightarrow> plant option" where
  "Basic_requestModeToOff fu i p = generateEvent fu i Fsm_evOffModeRequest p"

definition Basic_requestOff :: "float_unit \<Rightarrow> nat \<Rightarrow> bool \<Rightarrow> plant \<Rightarrow> plant option" where
  "Basic_requestOff fu i startLowerStageInOnCycle p =
     generateEvent fu i Fsm_evExcessCapacity
       (upd_stg i (\<lambda>s. s\<lparr>m_args := Some (args_at p), m_requestOffStartInOnCycle := startLowerStageInOnCycle\<rparr>) p)"

definition Basic_execute :: "float_unit \<Rightarrow> nat \<Rightarrow> plant \<Rightarrow> plant option" where
  "Basic_execute fu i p = generateEvent fu i FSM_NO_MSG (upd_stg i (\<lambda>s. s\<lparr>m_args := Some (args_at p)\<rparr>) p)"

definition isInActive :: "stage \<Rightarrow> bool" where
  "isInActive s \<longleftrightarrow> stateVar (stateVars s) = Active"

definition isInSupplementingNextStage :: "stage \<Rightarrow> bool" where
  "isInSupplementingNextStage s \<longleftrightarrow> stateVar (stateVars s) = SupplementingNextStage"

definition isInOff :: "stage \<Rightarrow> bool" where
  "isInOff s \<longleftrightarrow> stateVar (stateVars s) = Off"

definition isInCycling :: "stage \<Rightarrow> bool" where
  "isInCycling s \<longleftrightarrow> stateVarActive (stateVars s) = Cycling \<and> stateVar (stateVars s) = Active"

definition isInOnCycle :: "stage \<Rightarrow> bool" where
  "isInOnCycle s \<longleftrightarrow> stateVarCycling (stateVars s) = OnCycle \<and> stateVarActive (stateVars s) = Cycling \<and> stateVar (stateVars s) = Active"

definition isInOffCycle :: "stage \<Rightarrow> bool" where
  "isInOffCycle s \<longleftrightarrow> stateVarCycling (stateVars s) = OffCycle \<and> stateVarActive (stateVars s) = Cycling \<and> stateVar (stateVars s) = Active"

definition isInTransitioningFromLowerStage :: "stage \<Rightarrow> bool" where
  "isInTransitioningFromLowerStage s \<longleftrightarrow> stateVarActive (stateVars s) = TransitioningFromLowerStage \<and> stateVar (stateVars s) = Active"

definition isInTransitioningBackToLowerStage :: "stage \<Rightarrow> bool" where
  "isInTransitioningBackToLowerStage s \<longleftrightarrow> stateVarActive (stateVars s) = TransitioningBackToLowerStage \<and> stateVar (stateVars s) = Active"

text \<open>\<open>isTransitioningFromLowerStage\<close> asks for the other transition.\<close>

definition Basic_isTransitioningFromLowerStage :: "stage \<Rightarrow> bool" where
  "Basic_isTransitioningFromLowerStage s \<longleftrightarrow> isInTransitioningBackToLowerStage s"

definition Basic_isTransitioningBackToLowerStage :: "stage \<Rightarrow> bool" where
  "Basic_isTransitioningBackToLowerStage s \<longleftrightarrow> isInTransitioningBackToLowerStage s"

section \<open>Steps of the run\<close>

lemma run_generate [code]:
  "Fsm_run fu (Inl im) p = do {
     let i = fst im;
     c_assert (i < length (the_stages p));
     c_assert (length (m_eventQue (stg p i)) < QUEUE_SIZE - 1);
     let p = upd_stg i (\<lambda>s. s\<lparr>m_eventQue := m_eventQue s @ [snd im]\<rparr>) p;
     if \<not> m_processingFsmEvent (stg p i) then do {
       p \<leftarrow> Fsm_run fu (Inr i) (upd_stg i (\<lambda>s. s\<lparr>m_processingFsmEvent := True\<rparr>) p);
       Some (upd_stg i (\<lambda>s. s\<lparr>m_processingFsmEvent := False\<rparr>) p)
     } else Some p
   }"
  by (subst Fsm_run.simps) (simp only: sum.case)

lemma run_drain [code]:
  "Fsm_run fu (Inr i) p =
     (case m_eventQue (stg p i) of
        [] \<Rightarrow> Some p
      | msg # que \<Rightarrow> do {
          r \<leftarrow> Fsm_processEvent fu (generateEvent fu) i msg (upd_stg i (\<lambda>s. s\<lparr>m_eventQue := que\<rparr>) p);
          Fsm_run fu (Inr i) (snd r)
        })"
proof -
  have "generateEvent fu = (\<lambda>j e. Fsm_run fu (Inl (j, e)))" by (intro ext) (simp add: generateEvent_def)
  then show ?thesis by (subst Fsm_run.simps) (simp only: sum.case)
qed

end
