(* ===== verification/Stage_Runs.thy ===== *)
theory Stage_Runs
  imports Stage_Fsm
begin

text \<open>
  What the calls of a stage do: every request returns, whatever the clock and the load are, and leaves the
  machines of the stages it concerns settled (no event waiting, no transition under way).
\<close>

section \<open>Parts of the plant\<close>

lemma stg_upd_stg: "i < length (the_stages p) \<Longrightarrow> stg (upd_stg i f p) j = (if i = j then f (stg p i) else stg p j)"
  by (simp add: stg_def upd_stg_def)

lemma plant_parts [simp]:
  "length (the_stages (upd_stg i f p)) = length (the_stages p)" "args_at (upd_stg i f p) = args_at p" "the_args (upd_stg i f p) = the_args p"
  "the_stages (upd_args g p) = the_stages p" "args_at (upd_args g p) = args_at p" "the_args (upd_args g p) = g (the_args p)"
  "stg (upd_args g p) j = stg p j"
  by (simp_all add: upd_stg_def upd_args_def stg_def)

lemma outputs_parts [simp]:
  "the_stages (upd_outputs h p) = the_stages p" "args_at (upd_outputs h p) = args_at p" "stg (upd_outputs h p) j = stg p j"
  "the_args (upd_outputs h p) = (the_args p)\<lparr>vOutputs := h (vOutputs (the_args p))\<rparr>"
  by (simp_all add: upd_outputs_def)

lemma cycle_parts [simp]:
  "the_stages (upd_cycle h p) = the_stages p" "args_at (upd_cycle h p) = args_at p" "stg (upd_cycle h p) j = stg p j"
  "the_args (upd_cycle h p) = (the_args p)\<lparr>cycleInfo := h (cycleInfo (the_args p))\<rparr>"
  by (simp_all add: upd_cycle_def)

lemma upd_stg_same: "f (stg p i) = stg p i \<Longrightarrow> upd_stg i f p = p"
  by (cases p) (simp add: upd_stg_def stg_def list_update_same_conv linorder_not_less [symmetric])

text \<open>The output of a stage: whether it is an outdoor unit, and its position.\<close>

definition slot :: "stage \<Rightarrow> bool \<times> nat" where
  "slot s = (stg_class s = BasicCooling, m_outIndex s)"

definition slot_ok :: "args \<Rightarrow> bool \<times> nat \<Rightarrow> bool" where
  "slot_ok a x \<longleftrightarrow> snd x < length (if fst x then outdoorStages (vOutputs a) else indoorStages (vOutputs a))"

definition output_at :: "args \<Rightarrow> bool \<times> nat \<Rightarrow> u16" where
  "output_at a x = (if fst x then outdoorStages (vOutputs a) else indoorStages (vOutputs a)) ! snd x"

definition inputs :: "args \<Rightarrow> rat \<times> system_config \<times> precision \<times> precision \<times> precision \<times> bool" where
  "inputs a = (pvOut a, systemConfig a, currentInterval a, outdoorUnitBeginOffTime a, indoorUnitBeginOffTime a, defeatEquipMinOffTime a)"

definition static :: "stage \<Rightarrow> stage_class \<times> bool \<times> nat \<times> nat" where
  "static s = (stg_class s, m_initialized s, m_systemIndex s, m_outIndex s)"

lemma static_slot: "static s = static t \<Longrightarrow> slot s = slot t"
  by (simp add: static_def slot_def)

lemma parts_of_args [simp]:
  "output_at (a\<lparr>cycleInfo := c\<rparr>) x = output_at a x" "output_at (a\<lparr>abortOnOffCycle := b\<rparr>) x = output_at a x" "output_at (a\<lparr>systemOn := b\<rparr>) x = output_at a x"
  "slot_ok (a\<lparr>cycleInfo := c\<rparr>) x = slot_ok a x" "slot_ok (a\<lparr>abortOnOffCycle := b\<rparr>) x = slot_ok a x" "slot_ok (a\<lparr>systemOn := b\<rparr>) x = slot_ok a x"
  "inputs (a\<lparr>cycleInfo := c\<rparr>) = inputs a" "inputs (a\<lparr>abortOnOffCycle := b\<rparr>) = inputs a" "inputs (a\<lparr>systemOn := b\<rparr>) = inputs a"
  by (simp_all add: output_at_def slot_ok_def inputs_def)

text \<open>A step that concerns stage \<open>i\<close> only.\<close>

definition frame :: "nat \<Rightarrow> plant \<Rightarrow> plant \<Rightarrow> bool" where
  "frame i p p' \<longleftrightarrow> length (the_stages p') = length (the_stages p) \<and> (\<forall>k. k \<noteq> i \<longrightarrow> stg p' k = stg p k) \<and>
     static (stg p' i) = static (stg p i) \<and> args_at p' = args_at p \<and> inputs (the_args p') = inputs (the_args p) \<and>
     (abortOnOffCycle (the_args p') \<longrightarrow> abortOnOffCycle (the_args p)) \<and>
     (\<forall>x. slot_ok (the_args p') x = slot_ok (the_args p) x) \<and>
     (\<forall>x. x \<noteq> slot (stg p i) \<longrightarrow> output_at (the_args p') x = output_at (the_args p) x)"

lemma frameD:
  assumes "frame i p p'"
  shows "length (the_stages p') = length (the_stages p)" and "k \<noteq> i \<Longrightarrow> stg p' k = stg p k" and "static (stg p' k) = static (stg p k)"
    and "args_at p' = args_at p" and "inputs (the_args p') = inputs (the_args p)"
    and "abortOnOffCycle (the_args p') \<Longrightarrow> abortOnOffCycle (the_args p)"
    and "slot_ok (the_args p') x = slot_ok (the_args p) x"
    and "x \<noteq> slot (stg p i) \<Longrightarrow> output_at (the_args p') x = output_at (the_args p) x"
  using assms unfolding frame_def by (cases "k = i"; blast | metis)+

lemma frame_refl [simp]: "frame i p p"
  by (simp add: frame_def)

lemma frame_trans [trans]: "frame i p q \<Longrightarrow> frame i q r \<Longrightarrow> frame i p r"
  unfolding frame_def using static_slot by metis

lemma frame_upd_stg:
  assumes "\<And>s. static (f s) = static s" and "i < length (the_stages p)"
  shows "frame i p (upd_stg i f p)"
  using assms by (simp add: frame_def stg_upd_stg)

lemma frame_upd_cycle: "frame i p (upd_cycle h p)"
  by (simp add: frame_def)

lemma frame_abort: "frame i p (upd_args (\<lambda>a. a\<lparr>abortOnOffCycle := False\<rparr>) p)"
  by (simp add: frame_def)

lemma frame_systemOn: "frame i p (upd_args (\<lambda>a. a\<lparr>systemOn := b\<rparr>) p)"
  by (simp add: frame_def)

section \<open>The outputs\<close>

definition turn :: "nat \<Rightarrow> u16 \<Rightarrow> u16 \<Rightarrow> plant \<Rightarrow> plant" where
  "turn i v fan p =
     (let p1 = upd_outputs (\<lambda>w. if stg_class (stg p i) = BasicCooling then w\<lparr>outdoorStages := (outdoorStages w)[m_outIndex (stg p i) := v]\<rparr>
                              else w\<lparr>indoorStages := (indoorStages w)[m_outIndex (stg p i) := v]\<rparr>) p
      in if m_systemIndex (stg p i) = 0 then upd_outputs (\<lambda>w. w\<lparr>indoorFan := fan\<rparr>) p1 else p1)"

definition fan_on :: "stage \<Rightarrow> u16" where
  "fan_on s = (case stg_class s of BasicCooling \<Rightarrow> VIRTUAL_OUTPUTS_ON | BasicIndoorHeat c \<Rightarrow> if c then VIRTUAL_OUTPUTS_ON else VIRTUAL_OUTPUTS_OFF)"

lemma turn_parts [simp]:
  "the_stages (turn i v fan p) = the_stages p" "args_at (turn i v fan p) = args_at p" "stg (turn i v fan p) j = stg p j"
  "cycleInfo (the_args (turn i v fan p)) = cycleInfo (the_args p)" "abortOnOffCycle (the_args (turn i v fan p)) = abortOnOffCycle (the_args p)"
  "inputs (the_args (turn i v fan p)) = inputs (the_args p)" "systemOn (the_args (turn i v fan p)) = systemOn (the_args p)"
  by (simp_all add: turn_def Let_def inputs_def)

lemma turn_slots [simp]: "slot_ok (the_args (turn i v fan p)) x = slot_ok (the_args p) x"
  by (simp add: turn_def Let_def slot_ok_def)

lemma turn_output:
  "slot_ok (the_args p) (slot (stg p i)) \<Longrightarrow> output_at (the_args (turn i v fan p)) x = (if x = slot (stg p i) then v else output_at (the_args p) x)"
  by (cases x) (auto simp: turn_def Let_def slot_ok_def output_at_def slot_def nth_list_update)

lemma frame_turn: "slot_ok (the_args p) (slot (stg p i)) \<Longrightarrow> frame i p (turn i v fan p)"
  by (simp add: frame_def turn_output)

lemma stageOff_turn:
  "m_args (stg p i) = Some (args_at p) \<Longrightarrow> slot_ok (the_args p) (slot (stg p i)) \<Longrightarrow>
   stageOff i p = Some (turn i VIRTUAL_OUTPUTS_OFF VIRTUAL_OUTPUTS_OFF p)"
  by (cases "stg_class (stg p i)") (simp_all add: stageOff_def use_args_def slot_ok_def slot_def turn_def Let_def)

lemma stageOn_turn:
  "m_args (stg p i) = Some (args_at p) \<Longrightarrow> slot_ok (the_args p) (slot (stg p i)) \<Longrightarrow>
   stageOn i p = Some (turn i VIRTUAL_OUTPUTS_ON (fan_on (stg p i)) p)"
  by (cases "stg_class (stg p i)") (simp_all add: stageOn_def use_args_def slot_ok_def slot_def turn_def Let_def fan_on_def)

section \<open>Times\<close>

text \<open>A stage with its place in the configuration, and with times that are not zero.\<close>

definition onT :: "float_unit \<Rightarrow> args \<Rightarrow> nat \<Rightarrow> u32 option" where
  "onT fu a n = (let c = cfg_stages (systemConfig a) ! n in DutyCycle_calculateOnTime fu (pvOut a) (minOnTime c) (cfg_cph c) (lowerBound c) (upperBound c))"

definition offT :: "float_unit \<Rightarrow> args \<Rightarrow> nat \<Rightarrow> u32 option" where
  "offT fu a n = (let c = cfg_stages (systemConfig a) ! n in DutyCycle_calculateOffTime fu (pvOut a) (minOffTime c) (cfg_cph c) (lowerBound c) (upperBound c))"

definition times_ok :: "float_unit \<Rightarrow> args \<Rightarrow> nat \<Rightarrow> bool" where
  "times_ok fu a n \<longleftrightarrow> n < length (cfg_stages (systemConfig a)) \<and> onT fu a n \<notin> {None, Some 0} \<and> offT fu a n \<notin> {None, Some 0}"

lemma times_inputs: "inputs a = inputs b \<Longrightarrow> times_ok fu a n = times_ok fu b n"
  by (simp add: inputs_def times_ok_def onT_def offT_def)

definition ready :: "float_unit \<Rightarrow> nat \<Rightarrow> plant \<Rightarrow> bool" where
  "ready fu i p \<longleftrightarrow> i < length (the_stages p) \<and> m_initialized (stg p i) \<and> slot_ok (the_args p) (slot (stg p i)) \<and>
     times_ok fu (the_args p) (m_systemIndex (stg p i))"

lemma ready_frame: "frame i p p' \<Longrightarrow> ready fu k p' = ready fu k p"
proof -
  assume f: "frame i p p'"
  note s = frameD(3) [OF f, of k]
  have "times_ok fu (the_args p') n = times_ok fu (the_args p) n" for n using frameD(5) [OF f] by (rule times_inputs)
  moreover note frameD(1) [OF f] frameD(7) [OF f]
  moreover have "m_initialized (stg p' k) = m_initialized (stg p k)" "m_systemIndex (stg p' k) = m_systemIndex (stg p k)"
    using s by (simp_all add: static_def)
  ultimately show ?thesis using static_slot [OF s] by (simp add: ready_def)
qed

lemma not_expired_now: "t \<noteq> 0 \<Longrightarrow> \<not> expiredPrecision now \<lparr>m_seconds = t, m_thousandths = 0\<rparr> now"
  by (simp add: expiredPrecision_def deltaPrecision_def Let_def word_gt_0)

section \<open>Events\<close>

text \<open>A stage at work: its arguments are there, and it takes events from its queue.\<close>

definition at_work :: "float_unit \<Rightarrow> nat \<Rightarrow> plant \<Rightarrow> bool" where
  "at_work fu i p \<longleftrightarrow> ready fu i p \<and> m_args (stg p i) = Some (args_at p) \<and> m_processingFsmEvent (stg p i)"

lemma at_work_frame:
  "frame i p p' \<Longrightarrow> at_work fu i p \<Longrightarrow> m_args (stg p' i) = m_args (stg p i) \<Longrightarrow>
   m_processingFsmEvent (stg p' i) = m_processingFsmEvent (stg p i) \<Longrightarrow> at_work fu i p'"
  using frameD(4) by (auto simp: at_work_def ready_frame)

lemma generate_busy:
  "i < length (the_stages p) \<Longrightarrow> m_processingFsmEvent (stg p i) \<Longrightarrow> length (m_eventQue (stg p i)) < 7 \<Longrightarrow>
   generateEvent fu i e p = Some (upd_stg i (\<lambda>s. s\<lparr>m_eventQue := m_eventQue s @ [e]\<rparr>) p)"
  by (simp add: generateEvent_def run_generate QUEUE_SIZE_def stg_upd_stg)

text \<open>The two halves of a cycle, to treat them alike.\<close>

definition expired_ev :: "bool \<Rightarrow> fsm_event" where
  "expired_ev on = (if on then Fsm_evOnTimeExpired else Fsm_evOffTimeExpired)"

definition starting_ev :: "bool \<Rightarrow> fsm_event" where
  "starting_ev on = (if on then Fsm_evStartingOnTimeExpired else Fsm_evStartingOffTimeExpired)"

definition half_mode :: "bool \<Rightarrow> cycle_status" where
  "half_mode on = (if on then eON_CYCLE else eOFF_CYCLE)"

definition half_out :: "bool \<Rightarrow> u16" where
  "half_out on = (if on then VIRTUAL_OUTPUTS_ON else VIRTUAL_OUTPUTS_OFF)"

definition check_half :: "float_unit \<Rightarrow> bool \<Rightarrow> nat \<Rightarrow> plant \<Rightarrow> plant option" where
  "check_half fu on i p = (if on then checkOnTime fu (generateEvent fu) i p else checkOffTime fu (generateEvent fu) i p)"

definition starting_half :: "float_unit \<Rightarrow> bool \<Rightarrow> nat \<Rightarrow> plant \<Rightarrow> plant option" where
  "starting_half fu on i p = (if on then startingStageOn fu (generateEvent fu) i p else startingStageOff fu (generateEvent fu) i p)"

lemmas half_defs = expired_ev_def starting_ev_def half_mode_def half_out_def

text \<open>The half-cycle ends: the time has come, or the white-box flag asks for it.\<close>

definition half_over :: "float_unit \<Rightarrow> bool \<Rightarrow> nat \<Rightarrow> plant \<Rightarrow> bool" where
  "half_over fu on i p \<longleftrightarrow> abortOnOffCycle (the_args p) \<or>
     expiredPrecision (m_startTime (stg p i))
       \<lparr>m_seconds = the (if on then onT fu (the_args p) (m_systemIndex (stg p i)) else offT fu (the_args p) (m_systemIndex (stg p i))), m_thousandths = 0\<rparr>
       (currentInterval (the_args p))"

lemma check_half_eq:
  assumes w: "at_work fu i p" and q: "length (m_eventQue (stg p i)) < 7"
  shows "check_half fu on i p =
    (if ci_mode (cycleInfo (the_args p)) \<noteq> half_mode on then Some p
     else let t = the (if on then onT fu (the_args p) (m_systemIndex (stg p i)) else offT fu (the_args p) (m_systemIndex (stg p i)));
              p1 = upd_cycle (\<lambda>c. if on then c\<lparr>ci_onTime := t\<rparr> else c\<lparr>ci_offTime := t\<rparr>) p
          in if half_over fu on i p
             then Some (upd_stg i (\<lambda>s. s\<lparr>m_eventQue := m_eventQue s @ [expired_ev on]\<rparr>) (upd_args (\<lambda>a. a\<lparr>abortOnOffCycle := False\<rparr>) p1))
             else Some p1)"
proof -
  have i: "i < length (the_stages p)" and a: "m_args (stg p i) = Some (args_at p)" and b: "m_processingFsmEvent (stg p i)"
    and t: "times_ok fu (the_args p) (m_systemIndex (stg p i))" using w by (simp_all add: at_work_def ready_def)
  obtain t1 t2 where "onT fu (the_args p) (m_systemIndex (stg p i)) = Some t1" "offT fu (the_args p) (m_systemIndex (stg p i)) = Some t2"
    using t by (auto simp: times_ok_def)
  then show ?thesis
    using i a b q t
    by (cases on) (auto simp: check_half_def checkOnTime_def checkOffTime_def use_args_def half_over_def half_defs Let_def times_ok_def onT_def offT_def generate_busy)
qed

text \<open>A check leaves everything as it is but the calculated time and the flag, and may post the end of the half-cycle.\<close>

lemma check_half_result:
  assumes w: "at_work fu i p" and q: "length (m_eventQue (stg p i)) < 7"
  obtains p' es where "check_half fu on i p = Some p'" "frame i p p'" "stg p' i = (stg p i)\<lparr>m_eventQue := m_eventQue (stg p i) @ es\<rparr>"
    "es = [] \<or> es = [expired_ev on]" "\<And>x. output_at (the_args p') x = output_at (the_args p) x"
    "ci_mode (cycleInfo (the_args p')) = ci_mode (cycleInfo (the_args p))" "systemOn (the_args p') = systemOn (the_args p)"
    "es \<noteq> [] \<Longrightarrow> \<not> abortOnOffCycle (the_args p') \<and> half_over fu on i p \<and> ci_mode (cycleInfo (the_args p)) = half_mode on"
    "es = [] \<Longrightarrow> ci_mode (cycleInfo (the_args p)) = half_mode on \<Longrightarrow> \<not> half_over fu on i p"
proof -
  have i: "i < length (the_stages p)" using w by (simp add: at_work_def ready_def)
  show ?thesis
  proof (cases "ci_mode (cycleInfo (the_args p)) = half_mode on")
    case False
    then show ?thesis using that [of p "[]"] check_half_eq [OF w q, of on] by simp
  next
    case True
    define t where "t = the (if on then onT fu (the_args p) (m_systemIndex (stg p i)) else offT fu (the_args p) (m_systemIndex (stg p i)))"
    define p1 where "p1 = upd_cycle (\<lambda>c. if on then c\<lparr>ci_onTime := t\<rparr> else c\<lparr>ci_offTime := t\<rparr>) p"
    have f1: "frame i p p1" unfolding p1_def by (rule frame_upd_cycle)
    have p1: "stg p1 i = stg p i" "\<And>x. output_at (the_args p1) x = output_at (the_args p) x" "systemOn (the_args p1) = systemOn (the_args p)"
      "ci_mode (cycleInfo (the_args p1)) = ci_mode (cycleInfo (the_args p))"
      by (simp_all add: p1_def)
    note eq = check_half_eq [OF w q, of on, unfolded Let_def, folded t_def, folded p1_def]
    show ?thesis
    proof (cases "half_over fu on i p")
      case over: True
      define p2 where "p2 = upd_args (\<lambda>a. a\<lparr>abortOnOffCycle := False\<rparr>) p1"
      define p3 where "p3 = upd_stg i (\<lambda>s. s\<lparr>m_eventQue := m_eventQue s @ [expired_ev on]\<rparr>) p2"
      have i2: "i < length (the_stages p2)" using i by (simp add: p2_def p1_def)
      have "frame i p p3"
        using f1 frame_abort [of i p1] frame_upd_stg [OF _ i2, of "\<lambda>s. s\<lparr>m_eventQue := m_eventQue s @ [expired_ev on]\<rparr>"]
        unfolding p3_def p2_def [symmetric] by (auto simp: static_def intro: frame_trans)
      moreover have "check_half fu on i p = Some p3" using True over by (simp add: eq p3_def p2_def)
      ultimately show ?thesis
        using True over p1 i2 by (intro that [of p3 "[expired_ev on]"]) (simp_all add: p3_def p2_def stg_upd_stg)
    next
      case False
      then show ?thesis using True eq f1 p1 by (intro that [of p1 "[]"]) simp_all
    qed
  qed
qed

text \<open>What a stage remembers of its requests.\<close>

definition links :: "stage \<Rightarrow> ptr \<times> ptr \<times> ptr \<times> bool \<times> bool \<times> bool \<times> bool \<times> bool" where
  "links s = (m_args s, m_nextStage s, m_prevStage s, m_startInOffCycle s, m_supplemented s,
     m_requestSupplementStartInOnCycle s, m_requestOffStartInOnCycle s, m_processingFsmEvent s)"

definition kept :: "nat \<Rightarrow> plant \<Rightarrow> plant \<Rightarrow> bool" where
  "kept i p p' \<longleftrightarrow> frame i p p' \<and> links (stg p' i) = links (stg p i)"

lemma kept_refl [simp]: "kept i p p"
  by (simp add: kept_def)

lemma kept_trans [trans]: "kept i p q \<Longrightarrow> kept i q r \<Longrightarrow> kept i p r"
  using frame_trans by (auto simp: kept_def)

lemma kept_at_work: "kept i p p' \<Longrightarrow> at_work fu i p \<Longrightarrow> at_work fu i p'"
  by (rule at_work_frame) (simp_all add: kept_def links_def)

lemma kept_upd_stg:
  assumes "\<And>s. static (f s) = static s" "\<And>s. links (f s) = links s" and "i < length (the_stages p)"
  shows "kept i p (upd_stg i f p)"
  using assms frame_upd_stg [OF assms(1,3)] by (simp add: kept_def stg_upd_stg)

lemma kept_que: "i < length (the_stages p) \<Longrightarrow> kept i p (upd_stg i (\<lambda>s. s\<lparr>m_eventQue := g s\<rparr>) p)"
  by (rule kept_upd_stg) (simp_all add: static_def links_def)

lemma kept_stateVars: "i < length (the_stages p) \<Longrightarrow> kept i p (upd_stg i (\<lambda>s. s\<lparr>stateVars := g s\<rparr>) p)"
  by (rule kept_upd_stg) (simp_all add: static_def links_def)

lemma kept_startTime: "i < length (the_stages p) \<Longrightarrow> kept i p (upd_stg i (\<lambda>s. s\<lparr>m_startTime := g s\<rparr>) p)"
  by (rule kept_upd_stg) (simp_all add: static_def links_def)

lemma kept_turn: "slot_ok (the_args p) (slot (stg p i)) \<Longrightarrow> kept i p (turn i v fan p)"
  using frame_turn by (simp add: kept_def)

lemma kept_cycle: "kept i p (upd_cycle h p)"
  using frame_upd_cycle by (simp add: kept_def)

lemma at_workD:
  assumes "at_work fu i p"
  shows "i < length (the_stages p)" "m_args (stg p i) = Some (args_at p)" "m_processingFsmEvent (stg p i)" "m_initialized (stg p i)"
    "slot_ok (the_args p) (slot (stg p i))" "times_ok fu (the_args p) (m_systemIndex (stg p i))" "use_args i p = Some ()"
  using assms by (simp_all add: at_work_def ready_def use_args_def)

lemma starting_half_result:
  assumes w: "at_work fu i p" and q: "length (m_eventQue (stg p i)) < 6" and now: "m_startTime (stg p i) = currentInterval (the_args p)"
  obtains p' where "starting_half fu on i p = Some p'" "kept i p p'"
    "stg p' i = (stg p i)\<lparr>m_eventQue := m_eventQue (stg p i) @ (if abortOnOffCycle (the_args p) then [expired_ev on] else []) @ [starting_ev on]\<rparr>"
    "output_at (the_args p') (slot (stg p i)) = half_out on" "ci_mode (cycleInfo (the_args p')) = half_mode on"
    "\<not> abortOnOffCycle (the_args p')" "systemOn (the_args p') = systemOn (the_args p)"
proof -
  note d = at_workD [OF w]
  define p1 where "p1 = turn i (half_out on) (if on then fan_on (stg p i) else VIRTUAL_OUTPUTS_OFF) p"
  define p2 where "p2 = upd_cycle (\<lambda>ci. if on then ci\<lparr>beginOnTime := m_startTime (stg p1 i), ci_mode := eON_CYCLE\<rparr>
                                        else ci\<lparr>beginOffTime := m_startTime (stg p1 i), ci_mode := eOFF_CYCLE\<rparr>) p1"
  have p1: "kept i p p1" unfolding p1_def by (rule kept_turn [OF d(5)])
  then have k2: "kept i p p2" unfolding p2_def using kept_cycle kept_trans by blast
  have p2: "stg p2 i = stg p i" "ci_mode (cycleInfo (the_args p2)) = half_mode on" "abortOnOffCycle (the_args p2) = abortOnOffCycle (the_args p)"
    "output_at (the_args p2) (slot (stg p i)) = half_out on" "systemOn (the_args p2) = systemOn (the_args p)" "currentInterval (the_args p2) = currentInterval (the_args p)"
    using turn_output [OF d(5)] turn_parts(6) [of i "half_out on" _ p] by (simp_all add: p2_def p1_def half_defs inputs_def)
  have w2: "at_work fu i p2" by (rule kept_at_work [OF k2 w])
  have q2: "length (m_eventQue (stg p2 i)) < 7" using q p2(1) by simp
  have start: "starting_half fu on i p = do { p3 \<leftarrow> check_half fu on i p2; generateEvent fu i (starting_ev on) p3 }"
    using d(7) stageOn_turn [OF d(2,5)] stageOff_turn [OF d(2,5)]
    by (cases on) (simp_all add: starting_half_def startingStageOn_def startingStageOff_def check_half_def p1_def p2_def half_defs Let_def)
  obtain p3 es where c: "check_half fu on i p2 = Some p3" "frame i p2 p3" "stg p3 i = (stg p2 i)\<lparr>m_eventQue := m_eventQue (stg p2 i) @ es\<rparr>"
    "es = [] \<or> es = [expired_ev on]" "\<And>x. output_at (the_args p3) x = output_at (the_args p2) x"
    "ci_mode (cycleInfo (the_args p3)) = ci_mode (cycleInfo (the_args p2))" "systemOn (the_args p3) = systemOn (the_args p2)"
    "es \<noteq> [] \<Longrightarrow> \<not> abortOnOffCycle (the_args p3) \<and> half_over fu on i p2 \<and> ci_mode (cycleInfo (the_args p2)) = half_mode on"
    "es = [] \<Longrightarrow> ci_mode (cycleInfo (the_args p2)) = half_mode on \<Longrightarrow> \<not> half_over fu on i p2"
    using check_half_result [OF w2 q2, of on thesis] by blast
  have "the (if on then onT fu (the_args p2) (m_systemIndex (stg p2 i)) else offT fu (the_args p2) (m_systemIndex (stg p2 i))) \<noteq> 0"
    using at_workD(6) [OF w2] by (auto simp: times_ok_def)
  then have over: "half_over fu on i p2 \<longleftrightarrow> abortOnOffCycle (the_args p)"
    using not_expired_now p2 now by (simp add: half_over_def)
  then have es: "es = (if abortOnOffCycle (the_args p) then [expired_ev on] else [])" and ab: "\<not> abortOnOffCycle (the_args p3)"
    using c(4,8,9) p2 frameD(6) [OF c(2)] by (auto split: if_splits)
  have k3: "kept i p p3" using k2 c(2,3) by (auto simp: kept_def links_def intro: frame_trans)
  have i3: "i < length (the_stages p3)" "m_processingFsmEvent (stg p3 i)" using at_workD [OF kept_at_work [OF k3 w]] by simp_all
  have q3: "length (m_eventQue (stg p3 i)) < 7" using q c(3,4) p2(1) by auto
  define p4 where "p4 = upd_stg i (\<lambda>s. s\<lparr>m_eventQue := m_eventQue s @ [starting_ev on]\<rparr>) p3"
  have "kept i p p4" using k3 kept_que [OF i3(1), of "\<lambda>s. m_eventQue s @ [starting_ev on]"] unfolding p4_def by (rule kept_trans)
  moreover have "starting_half fu on i p = Some p4" using start c(1) generate_busy [OF i3 q3] by (simp add: p4_def)
  ultimately show ?thesis
    using c(3,5-7) p2 es ab i3 by (intro that [of p4]) (simp_all add: p4_def stg_upd_stg)
qed

section \<open>Half-cycles\<close>

text \<open>The state variables in a half-cycle, at its start or in its main state.\<close>

definition in_half :: "bool \<Rightarrow> bool \<Rightarrow> state_vars \<Rightarrow> bool" where
  "in_half on main sv \<longleftrightarrow> stateVar sv = Active \<and> stateVarActive sv = Cycling \<and>
     (if on then stateVarCycling sv = OnCycle \<and> stateVarOnCycle sv = (if main then OnTime else StartingOn)
      else stateVarCycling sv = OffCycle \<and> stateVarOffCycle sv = (if main then OffTime else StartingOff))"

definition to_start :: "bool \<Rightarrow> state_vars \<Rightarrow> state_vars" where
  "to_start on sv = (if on then sv\<lparr>stateVarCycling := OnCycle, stateVarOnCycle := StartingOn\<rparr>
                     else sv\<lparr>stateVarCycling := OffCycle, stateVarOffCycle := StartingOff\<rparr>)"

definition to_main :: "bool \<Rightarrow> state_vars \<Rightarrow> state_vars" where
  "to_main on sv = (if on then sv\<lparr>stateVarOnCycle := OnTime\<rparr> else sv\<lparr>stateVarOffCycle := OffTime\<rparr>)"

lemma in_half_to:
  "stateVar sv = Active \<Longrightarrow> stateVarActive sv = Cycling \<Longrightarrow> in_half on False (to_start on sv)"
  "in_half on False sv \<Longrightarrow> in_half on True (to_main on sv)" "in_half on m sv \<Longrightarrow> in_half on' False (to_start on' sv)"
  by (auto simp: in_half_def to_start_def to_main_def)

lemma upd_same_vars: "i < length (the_stages p) \<Longrightarrow> upd_stg i (\<lambda>s. s\<lparr>stateVars := stateVars (stg p i)\<rparr>) p = p"
  by (rule upd_stg_same) simp

lemma process_ignored:
  assumes w: "at_work fu i p" and h: "in_half on False (stateVars (stg p i))" and e: "e \<in> {expired_ev (\<not> on), starting_ev (\<not> on)}"
  shows "Fsm_processEvent fu (generateEvent fu) i e p = Some (False, p)"
  using at_workD [OF w] h e upd_same_vars [of i p]
  by (cases on) (auto simp: Fsm_processEvent_def Fsm_Active_def Fsm_Cycling_def Fsm_OnCycle_def Fsm_OffCycle_def in_half_def half_defs Let_def)

lemma process_started:
  assumes w: "at_work fu i p" and h: "in_half on False (stateVars (stg p i))"
  shows "\<exists>fan. Fsm_processEvent fu (generateEvent fu) i (starting_ev on) p =
    Some (True, upd_stg i (\<lambda>s. s\<lparr>stateVars := to_main on (stateVars (stg p i))\<rparr>) (turn i (half_out on) fan p))"
  using at_workD [OF w] h stageOn_turn [of p i] stageOff_turn [of p i]
  by (cases on) (auto simp: Fsm_processEvent_def Fsm_Active_def Fsm_Cycling_def Fsm_OnCycle_def Fsm_OffCycle_def in_half_def to_main_def half_defs Let_def)

text \<open>The end of a half-cycle starts the other one; in the main state the time is checked before.\<close>

definition start_half :: "float_unit \<Rightarrow> bool \<Rightarrow> nat \<Rightarrow> plant \<Rightarrow> plant option" where
  "start_half fu on i p = starting_half fu on i (upd_stg i (\<lambda>s. s\<lparr>m_startTime := currentInterval (the_args p)\<rparr>) p)"

lemma process_over:
  assumes w: "at_work fu i p" and h: "in_half on m (stateVars (stg p i))" and q: "length (m_eventQue (stg p i)) < 7"
  shows "Fsm_processEvent fu (generateEvent fu) i (expired_ev on) p = do {
    p1 \<leftarrow> (if m then check_half fu on i p else Some p);
    p2 \<leftarrow> start_half fu (\<not> on) i p1;
    Some (True, upd_stg i (\<lambda>s. s\<lparr>stateVars := to_start (\<not> on) (stateVars (stg p i))\<rparr>) p2)
  }"
proof -
  obtain p1 es where p1: "check_half fu on i p = Some p1" "frame i p p1" "stg p1 i = (stg p i)\<lparr>m_eventQue := m_eventQue (stg p i) @ es\<rparr>"
    using check_half_result [OF w q, of on thesis] by blast
  have "use_args i p1 = Some ()" using p1 at_workD [OF w] frameD(4) [OF p1(2)] by (simp add: use_args_def)
  moreover have "use_args i p = Some ()" by (rule at_workD(7) [OF w])
  ultimately show ?thesis
    using at_workD(4) [OF w] h p1(1)
    by (cases on; cases m) (simp_all add: Fsm_processEvent_def Fsm_Active_def Fsm_Cycling_def Fsm_OnCycle_def Fsm_OffCycle_def in_half_def
        to_start_def half_defs check_half_def start_half_def starting_half_def startOnTime_def startOffTime_def Let_def)
qed

section \<open>The machine settles\<close>

definition settled :: "nat \<Rightarrow> bool \<Rightarrow> plant \<Rightarrow> bool" where
  "settled i on p \<longleftrightarrow> in_half on True (stateVars (stg p i)) \<and> m_eventQue (stg p i) = [] \<and>
     output_at (the_args p) (slot (stg p i)) = half_out on \<and> ci_mode (cycleInfo (the_args p)) = half_mode on"

lemma drain_empty: "m_eventQue (stg p i) = [] \<Longrightarrow> Fsm_run fu (Inr i) p = Some p"
  by (simp add: run_drain)

lemma drain_next:
  "m_eventQue (stg p i) = e # es \<Longrightarrow>
   Fsm_processEvent fu (generateEvent fu) i e (upd_stg i (\<lambda>s. s\<lparr>m_eventQue := es\<rparr>) p) = Some (b, p') \<Longrightarrow>
   Fsm_run fu (Inr i) p = Fsm_run fu (Inr i) p'"
  by (simp add: run_drain [of fu i p])

text \<open>At the start of a half-cycle, behind what is left of the one before.\<close>

lemma drain_start:
  assumes "at_work fu i p" and "in_half on False (stateVars (stg p i))" and "m_eventQue (stg p i) = es @ [starting_ev on]"
    and "set es \<subseteq> {expired_ev (\<not> on), starting_ev (\<not> on)}" and "ci_mode (cycleInfo (the_args p)) = half_mode on"
  shows "\<exists>p'. Fsm_run fu (Inr i) p = Some p' \<and> kept i p p' \<and> settled i on p' \<and> systemOn (the_args p') = systemOn (the_args p)"
  using assms
proof (induction es arbitrary: p)
  case Nil
  let ?p = "upd_stg i (\<lambda>s. s\<lparr>m_eventQue := []\<rparr>) p"
  note i = at_workD(1) [OF Nil.prems(1)]
  have k: "kept i p ?p" by (rule kept_que [OF i])
  then have w: "at_work fu i ?p" using Nil.prems(1) by (rule kept_at_work)
  have h: "in_half on False (stateVars (stg ?p i))" using Nil.prems(2) i by (simp add: stg_upd_stg)
  obtain fan where f: "Fsm_processEvent fu (generateEvent fu) i (starting_ev on) ?p =
      Some (True, upd_stg i (\<lambda>s. s\<lparr>stateVars := to_main on (stateVars (stg ?p i))\<rparr>) (turn i (half_out on) fan ?p))"
    using process_started [OF w h] by blast
  define p1 where "p1 = turn i (half_out on) fan ?p"
  define p2 where "p2 = upd_stg i (\<lambda>s. s\<lparr>stateVars := to_main on (stateVars (stg ?p i))\<rparr>) p1"
  have k1: "kept i p p1" using k kept_turn [OF at_workD(5) [OF w]] unfolding p1_def by (rule kept_trans)
  have i1: "i < length (the_stages p1)" using i by (simp add: p1_def)
  have k2: "kept i p p2" unfolding p2_def by (rule kept_trans [OF k1 kept_stateVars [OF i1]])
  have "Fsm_run fu (Inr i) p = Fsm_run fu (Inr i) p2"
    using drain_next [OF _ f [folded p1_def, folded p2_def]] Nil.prems(3) by simp
  moreover have s2: "stg p2 i = (stg p i)\<lparr>m_eventQue := [], stateVars := to_main on (stateVars (stg p i))\<rparr>"
    using i i1 by (simp add: p2_def p1_def stg_upd_stg)
  moreover have "output_at (the_args p2) (slot (stg p2 i)) = half_out on"
  proof -
    have "slot (stg p2 i) = slot (stg ?p i)" using i s2 by (simp add: slot_def stg_upd_stg)
    then show ?thesis using turn_output [OF at_workD(5) [OF w]] by (simp add: p2_def p1_def)
  qed
  ultimately have "settled i on p2" using Nil.prems(2,5) in_half_to(2) by (simp add: settled_def p2_def p1_def)
  moreover have "Fsm_run fu (Inr i) p = Some p2" using \<open>Fsm_run fu (Inr i) p = Fsm_run fu (Inr i) p2\<close> s2 drain_empty by simp
  ultimately show ?case using k2 by (auto simp: p2_def p1_def)
next
  case (Cons e es)
  let ?p = "upd_stg i (\<lambda>s. s\<lparr>m_eventQue := es @ [starting_ev on]\<rparr>) p"
  note i = at_workD(1) [OF Cons.prems(1)]
  have k: "kept i p ?p" by (rule kept_que [OF i])
  then have w: "at_work fu i ?p" using Cons.prems(1) by (rule kept_at_work)
  have h: "in_half on False (stateVars (stg ?p i))" using Cons.prems(2) i by (simp add: stg_upd_stg)
  have "Fsm_processEvent fu (generateEvent fu) i e ?p = Some (False, ?p)" using process_ignored [OF w h] Cons.prems(4) by simp
  then have "Fsm_run fu (Inr i) p = Fsm_run fu (Inr i) ?p" using drain_next Cons.prems(3) by simp
  moreover obtain p' where "Fsm_run fu (Inr i) ?p = Some p'" "kept i ?p p'" "settled i on p'" "systemOn (the_args p') = systemOn (the_args ?p)"
    using Cons.IH [OF w h] Cons.prems(4,5) i by (auto simp: stg_upd_stg)
  ultimately show ?case using kept_trans [OF k] by auto
qed

lemma start_half_result:
  assumes w: "at_work fu i p" and q: "length (m_eventQue (stg p i)) < 6"
  obtains p' where "start_half fu on i p = Some p'" "kept i p p'"
    "m_eventQue (stg p' i) = m_eventQue (stg p i) @ (if abortOnOffCycle (the_args p) then [expired_ev on] else []) @ [starting_ev on]"
    "stateVars (stg p' i) = stateVars (stg p i)" "m_startTime (stg p' i) = currentInterval (the_args p)"
    "ci_mode (cycleInfo (the_args p')) = half_mode on" "\<not> abortOnOffCycle (the_args p')" "systemOn (the_args p') = systemOn (the_args p)"
proof -
  let ?p = "upd_stg i (\<lambda>s. s\<lparr>m_startTime := currentInterval (the_args p)\<rparr>) p"
  note i = at_workD(1) [OF w]
  have k: "kept i p ?p" by (rule kept_startTime [OF i])
  have w': "at_work fu i ?p" by (rule kept_at_work [OF k w])
  obtain p' where p': "starting_half fu on i ?p = Some p'" "kept i ?p p'"
    "stg p' i = (stg ?p i)\<lparr>m_eventQue := m_eventQue (stg ?p i) @ (if abortOnOffCycle (the_args ?p) then [expired_ev on] else []) @ [starting_ev on]\<rparr>"
    "ci_mode (cycleInfo (the_args p')) = half_mode on" "\<not> abortOnOffCycle (the_args p')" "systemOn (the_args p') = systemOn (the_args ?p)"
    using starting_half_result [OF w', of on thesis] q i by (auto simp: stg_upd_stg)
  show ?thesis
    using p' kept_trans [OF k p'(2)] i by (intro that [of p']) (simp_all add: start_half_def stg_upd_stg)
qed

lemma drain_over:
  assumes w: "at_work fu i p" and h: "in_half on m (stateVars (stg p i))" and q: "m_eventQue (stg p i) = expired_ev on # es"
    "set es \<subseteq> {expired_ev on, starting_ev on}" "length es < 4" and ab: "\<not> abortOnOffCycle (the_args p)"
  shows "\<exists>p'. Fsm_run fu (Inr i) p = Some p' \<and> kept i p p' \<and> settled i (\<not> on) p' \<and> systemOn (the_args p') = systemOn (the_args p)"
proof -
  define p0 where "p0 = upd_stg i (\<lambda>s. s\<lparr>m_eventQue := es\<rparr>) p"
  note i = at_workD(1) [OF w]
  have k0: "kept i p p0" unfolding p0_def by (rule kept_que [OF i])
  have w0: "at_work fu i p0" by (rule kept_at_work [OF k0 w])
  have p0: "stateVars (stg p0 i) = stateVars (stg p i)" "m_eventQue (stg p0 i) = es" "the_args p0 = the_args p" using i by (simp_all add: p0_def stg_upd_stg)
  obtain p1 es1 where p1: "(if m then check_half fu on i p0 else Some p0) = Some p1" "kept i p0 p1"
    "stateVars (stg p1 i) = stateVars (stg p i)" "m_eventQue (stg p1 i) = es @ es1" "es1 = [] \<or> es1 = [expired_ev on]"
    "systemOn (the_args p1) = systemOn (the_args p)"
  proof (cases m)
    case True
    obtain p1 es1 where "check_half fu on i p0 = Some p1" "frame i p0 p1" "stg p1 i = (stg p0 i)\<lparr>m_eventQue := m_eventQue (stg p0 i) @ es1\<rparr>"
      "es1 = [] \<or> es1 = [expired_ev on]" "systemOn (the_args p1) = systemOn (the_args p0)"
      using check_half_result [OF w0, of on thesis] p0(2) q(3) by auto
    then show ?thesis using True p0 by (intro that [of p1 es1]) (simp_all add: kept_def links_def)
  qed (use p0 in \<open>auto intro: that [of p0 "[]"]\<close>)
  have k1: "kept i p p1" using k0 p1(2) by (rule kept_trans)
  then have w1: "at_work fu i p1" using w by (rule kept_at_work)
  have ab1: "\<not> abortOnOffCycle (the_args p1)" using k1 ab frameD(6) by (auto simp: kept_def)
  obtain p2 where p2: "start_half fu (\<not> on) i p1 = Some p2" "kept i p1 p2" "m_eventQue (stg p2 i) = (es @ es1) @ [starting_ev (\<not> on)]"
    "ci_mode (cycleInfo (the_args p2)) = half_mode (\<not> on)" "systemOn (the_args p2) = systemOn (the_args p1)"
    using start_half_result [OF w1, of "\<not> on" thesis] p1(4,5) q(3) ab1 by auto
  define p3 where "p3 = upd_stg i (\<lambda>s. s\<lparr>stateVars := to_start (\<not> on) (stateVars (stg p0 i))\<rparr>) p2"
  have k2: "kept i p p2" using k1 p2(2) by (rule kept_trans)
  have i2: "i < length (the_stages p2)" using at_workD(1) [OF kept_at_work [OF k2 w]] .
  have k3: "kept i p p3" unfolding p3_def by (rule kept_trans [OF k2 kept_stateVars [OF i2]])
  have "Fsm_processEvent fu (generateEvent fu) i (expired_ev on) p0 = Some (True, p3)"
    using process_over [OF w0, of on m] h p0 q(3) p1(1) p2(1) by (simp add: p3_def)
  then have "Fsm_run fu (Inr i) p = Fsm_run fu (Inr i) p3" using drain_next [OF q(1)] by (simp add: p0_def)
  moreover have "\<exists>p'. Fsm_run fu (Inr i) p3 = Some p' \<and> kept i p3 p' \<and> settled i (\<not> on) p' \<and> systemOn (the_args p') = systemOn (the_args p3)"
  proof (rule drain_start [OF kept_at_work [OF k3 w], where es = "es @ es1"])
    show "in_half (\<not> on) False (stateVars (stg p3 i))" using h p0(1) i2 by (simp add: p3_def stg_upd_stg in_half_to(3))
  qed (use p2 i2 q(2) p1(5) in \<open>auto simp: p3_def stg_upd_stg\<close>)
  ultimately show ?thesis using kept_trans [OF k3] p1(6) p2(5) by (auto simp: p3_def)
qed

text \<open>Entering the state \<open>Cycling\<close>.\<close>

lemma enterCycling_eq:
  assumes "use_args i p = Some ()"
  shows "Fsm_enterCycling fu (generateEvent fu) i sv p = do {
    p' \<leftarrow> start_half fu (\<not> m_startInOffCycle (stg p i)) i p;
    Some (to_start (\<not> m_startInOffCycle (stg p i)) sv, p')
  }"
  using assms by (simp add: Fsm_enterCycling_def start_half_def starting_half_def startOnTime_def startOffTime_def to_start_def)

lemma enter_settles:
  assumes w: "at_work fu i p" and q: "m_eventQue (stg p i) = []" and sv: "stateVarActive sv = Cycling"
  shows "\<exists>sv1 p1 p'. Fsm_enterCycling fu (generateEvent fu) i sv p = Some (sv1, p1) \<and> stateVar sv1 = stateVar sv \<and>
    Fsm_run fu (Inr i) (upd_stg i (\<lambda>s. s\<lparr>stateVars := sv1\<lparr>stateVar := Active\<rparr>\<rparr>) p1) = Some p' \<and> kept i p p' \<and>
    settled i (m_startInOffCycle (stg p i) = abortOnOffCycle (the_args p)) p' \<and>
    systemOn (the_args p') = systemOn (the_args p)"
proof -
  define on where "on = (\<not> m_startInOffCycle (stg p i))"
  obtain p1 where p1: "start_half fu on i p = Some p1" "kept i p p1"
    "m_eventQue (stg p1 i) = (if abortOnOffCycle (the_args p) then [expired_ev on] else []) @ [starting_ev on]"
    "ci_mode (cycleInfo (the_args p1)) = half_mode on" "\<not> abortOnOffCycle (the_args p1)" "systemOn (the_args p1) = systemOn (the_args p)"
    using start_half_result [OF w, of on thesis] q by auto
  define sv1 where "sv1 = to_start on sv"
  define p2 where "p2 = upd_stg i (\<lambda>s. s\<lparr>stateVars := sv1\<lparr>stateVar := Active\<rparr>\<rparr>) p1"
  have i1: "i < length (the_stages p1)" using at_workD(1) [OF kept_at_work [OF p1(2) w]] .
  have k2: "kept i p p2" unfolding p2_def by (rule kept_trans [OF p1(2) kept_stateVars [OF i1]])
  have w2: "at_work fu i p2" by (rule kept_at_work [OF k2 w])
  have h: "in_half on False (stateVars (stg p2 i))" using sv i1 by (simp add: p2_def sv1_def stg_upd_stg in_half_def to_start_def)
  let ?on = "m_startInOffCycle (stg p i) = abortOnOffCycle (the_args p)"
  have "\<exists>p'. Fsm_run fu (Inr i) p2 = Some p' \<and> kept i p2 p' \<and> settled i ?on p' \<and> systemOn (the_args p') = systemOn (the_args p2)"
  proof (cases "abortOnOffCycle (the_args p)")
    case True
    then show ?thesis using drain_over [OF w2 h, of "[starting_ev on]"] p1 i1 by (auto simp: p2_def stg_upd_stg on_def)
  next
    case False
    then show ?thesis using drain_start [OF w2 h, of "[]"] p1 i1 by (auto simp: p2_def stg_upd_stg on_def)
  qed
  then obtain p' where "Fsm_run fu (Inr i) p2 = Some p'" "kept i p2 p'" "settled i ?on p'" "systemOn (the_args p') = systemOn (the_args p2)" by blast
  moreover have "Fsm_enterCycling fu (generateEvent fu) i sv p = Some (sv1, p1)"
    using enterCycling_eq [OF at_workD(7) [OF w]] p1(1) by (simp add: on_def sv1_def)
  moreover have "stateVar sv1 = stateVar sv" by (simp add: sv1_def to_start_def)
  ultimately show ?thesis using kept_trans [OF k2] p1(6) unfolding p2_def by auto
qed

section \<open>Requests\<close>

definition idle :: "nat \<Rightarrow> plant \<Rightarrow> bool" where
  "idle i p \<longleftrightarrow> \<not> m_processingFsmEvent (stg p i) \<and> m_eventQue (stg p i) = []"

definition engaged :: "nat \<Rightarrow> plant \<Rightarrow> plant" where
  "engaged i = upd_stg i (\<lambda>s. s\<lparr>m_processingFsmEvent := True\<rparr>)"

definition release :: "nat \<Rightarrow> plant \<Rightarrow> plant" where
  "release i = upd_stg i (\<lambda>s. s\<lparr>m_processingFsmEvent := False\<rparr>)"

lemma upd_stg_upd_stg: "upd_stg i f (upd_stg i g p) = upd_stg i (\<lambda>s. f (g s)) p"
  by (cases "i < length (the_stages p)") (simp_all add: upd_stg_def list_update_beyond)

lemma upd_stg_cong: "f (stg p i) = g (stg p i) \<Longrightarrow> upd_stg i f p = upd_stg i g p"
  by (simp add: upd_stg_def stg_def)

lemma generate_idle:
  assumes i: "i < length (the_stages p)" and "idle i p"
    and e: "Fsm_processEvent fu (generateEvent fu) i e (engaged i p) = Some (b, p2)" and d: "Fsm_run fu (Inr i) p2 = Some p3"
  shows "generateEvent fu i e p = Some (release i p3)"
proof -
  let ?q = "upd_stg i (\<lambda>s. s\<lparr>m_processingFsmEvent := True\<rparr>) (upd_stg i (\<lambda>s. s\<lparr>m_eventQue := m_eventQue s @ [e]\<rparr>) p)"
  have q: "m_eventQue (stg ?q i) = [e]" using assms(1,2) by (simp add: stg_upd_stg idle_def)
  have "upd_stg i (\<lambda>s. s\<lparr>m_eventQue := []\<rparr>) ?q = engaged i p"
    unfolding engaged_def upd_stg_upd_stg using assms(2) by (intro upd_stg_cong) (simp add: idle_def)
  then have "Fsm_run fu (Inr i) ?q = Some p3" using drain_next [OF q] e d by simp
  then show ?thesis using assms(1,2) by (simp add: generateEvent_def run_generate QUEUE_SIZE_def idle_def stg_upd_stg release_def)
qed

lemma engaged_parts:
  assumes "i < length (the_stages p)"
  shows "stg (engaged i p) k = (if k = i then (stg p i)\<lparr>m_processingFsmEvent := True\<rparr> else stg p k)" "the_args (engaged i p) = the_args p"
    "args_at (engaged i p) = args_at p" "length (the_stages (engaged i p)) = length (the_stages p)"
    "stg (release i p) k = (if k = i then (stg p i)\<lparr>m_processingFsmEvent := False\<rparr> else stg p k)" "the_args (release i p) = the_args p"
    "args_at (release i p) = args_at p" "length (the_stages (release i p)) = length (the_stages p)"
  using assms by (simp_all add: engaged_def release_def stg_upd_stg)

lemma frame_busy: "i < length (the_stages p) \<Longrightarrow> frame i p (engaged i p)" "i < length (the_stages p) \<Longrightarrow> frame i p (release i p)"
  unfolding engaged_def release_def by (rule frame_upd_stg; simp add: static_def)+

lemma at_work_busy: "ready fu i p \<Longrightarrow> m_args (stg p i) = Some (args_at p) \<Longrightarrow> at_work fu i (engaged i p)"
proof -
  assume r: "ready fu i p" and a: "m_args (stg p i) = Some (args_at p)"
  then have i: "i < length (the_stages p)" by (simp add: ready_def)
  have "ready fu i (engaged i p)" using ready_frame [OF frame_busy(1) [OF i]] r by simp
  then show ?thesis using a by (simp add: at_work_def engaged_parts [OF i])
qed

lemma frame_release:
  assumes "i < length (the_stages p)" and "frame i (engaged i p) p3"
  shows "frame i p (release i p3)"
proof -
  have "i < length (the_stages p3)" using frameD(1) [OF assms(2)] assms(1) by (simp add: engaged_parts)
  then show ?thesis using frame_busy(1) [OF assms(1)] assms(2) frame_busy(2) frame_trans by metis
qed

lemma kept_release:
  assumes i: "i < length (the_stages p)" and "idle i p" and k: "kept i (engaged i p) p3"
  shows "kept i p (release i p3)"
proof -
  have i3: "i < length (the_stages p3)" using k frameD(1) [of i "engaged i p" p3] i by (simp add: kept_def engaged_parts)
  show ?thesis
    using k frame_release [OF i] assms(2) by (auto simp: kept_def engaged_parts [OF i] engaged_parts [OF i3] links_def idle_def)
qed

lemma settled_release: "i < length (the_stages p) \<Longrightarrow> settled i on (release i p) = settled i on p"
  by (simp add: settled_def engaged_parts slot_def)

lemma stateVar_same: "stateVar sv = x \<Longrightarrow> sv\<lparr>stateVar := x\<rparr> = sv"
  by (cases sv) simp

text \<open>From off, and from supplementing a higher stage, into a cycle.\<close>

lemma on_request_first:
  assumes r: "ready fu i p" and d: "idle i p" and a: "m_args (stg p i) = Some (args_at p)"
    and off: "stateVar (stateVars (stg p i)) = Off" and s: "\<not> m_supplemented (stg p i)"
  shows "\<exists>p'. generateEvent fu i Fsm_evOnRequest p = Some p' \<and> kept i p p' \<and>
    settled i (m_startInOffCycle (stg p i) = abortOnOffCycle (the_args p)) p'"
proof -
  let ?p = "engaged i p"
  have i: "i < length (the_stages p)" using r by (simp add: ready_def)
  note w = at_work_busy [OF r a] and b = engaged_parts [OF i]
  define q where "q = turn i VIRTUAL_OUTPUTS_OFF VIRTUAL_OUTPUTS_OFF ?p"
  define q1 where "q1 = (if m_systemIndex (stg q i) = 0 then upd_args (\<lambda>a. a\<lparr>systemOn := True\<rparr>) q else q)"
  define q2 where "q2 = (case stg_class (stg q1 i) of BasicCooling \<Rightarrow> upd_outputs (\<lambda>v. v\<lparr>sovInHeating := False\<rparr>) q1 | BasicIndoorHeat controlFan \<Rightarrow> q1)"
  have k: "kept i ?p q" unfolding q_def by (rule kept_turn [OF at_workD(5) [OF w]])
  have "kept i q q1" using frame_systemOn by (simp add: q1_def kept_def)
  moreover have "kept i q1 q2" by (simp add: q2_def kept_def frame_def inputs_def slot_ok_def output_at_def split: stage_class.split)
  ultimately have k2: "kept i ?p q2" using k kept_trans by blast
  have eq: "initializeActive i ?p = Some q2"
    using stageOff_turn [of ?p i] at_workD(2,5) [OF w] by (simp add: initializeActive_def q_def q1_def q2_def Let_def split: stage_class.split)
  have q2: "stg q2 i = (stg p i)\<lparr>m_processingFsmEvent := True\<rparr>" "abortOnOffCycle (the_args q2) = abortOnOffCycle (the_args p)"
    by (simp_all add: q2_def q1_def q_def b split: stage_class.split)
  let ?sv = "(stateVars (stg p i))\<lparr>stateVar := Active, stateVarActive := Cycling\<rparr>"
  have "m_eventQue (stg q2 i) = []" using q2 d by (simp add: idle_def)
  then obtain sv1 p1 p' where e: "Fsm_enterCycling fu (generateEvent fu) i ?sv q2 = Some (sv1, p1)" "stateVar sv1 = Active"
    "Fsm_run fu (Inr i) (upd_stg i (\<lambda>s. s\<lparr>stateVars := sv1\<lparr>stateVar := Active\<rparr>\<rparr>) p1) = Some p'" "kept i q2 p'"
    "settled i (m_startInOffCycle (stg p i) = abortOnOffCycle (the_args p)) p'"
    using enter_settles [OF kept_at_work [OF k2 w], of ?sv] q2 by auto
  have "Fsm_processEvent fu (generateEvent fu) i Fsm_evOnRequest ?p = Some (True, upd_stg i (\<lambda>s. s\<lparr>stateVars := sv1\<rparr>) p1)"
    using at_workD(4) [OF w] off s eq e(1) by (simp add: Fsm_processEvent_def Fsm_Off_def b Let_def)
  then have "generateEvent fu i Fsm_evOnRequest p = Some (release i p')"
    using generate_idle [OF i d] e(2,3) by (simp add: stateVar_same)
  moreover have "kept i p (release i p')" by (rule kept_release [OF i d kept_trans [OF k2 e(4)]])
  moreover have "i < length (the_stages p')" using at_workD(1) [OF kept_at_work [OF kept_trans [OF k2 e(4)] w]] .
  ultimately show ?thesis using e(5) by (auto simp: settled_release)
qed

lemma on_request_next:
  assumes r: "ready fu i p" and d: "idle i p" and a: "m_args (stg p i) = Some (args_at p)"
    and off: "stateVar (stateVars (stg p i)) = Off" and s: "m_supplemented (stg p i)"
  shows "\<exists>p'. generateEvent fu i Fsm_evOnRequest p = Some p' \<and> kept i p p' \<and>
    settled i (m_startInOffCycle (stg p i) = abortOnOffCycle (the_args p)) p' \<and> systemOn (the_args p') = systemOn (the_args p)"
proof -
  let ?p = "engaged i p"
  have i: "i < length (the_stages p)" using r by (simp add: ready_def)
  note w = at_work_busy [OF r a] and b = engaged_parts [OF i]
  let ?sv = "(stateVars (stg p i))\<lparr>stateVar := Active, stateVarActive := TransitioningFromLowerStage\<rparr>"
  define q where "q = upd_stg i (\<lambda>s. s\<lparr>stateVars := ?sv\<rparr>) (upd_stg i (\<lambda>s. s\<lparr>m_eventQue := m_eventQue s @ [Fsm_evFromTransitionCompleted]\<rparr>) ?p)"
  define q1 where "q1 = upd_stg i (\<lambda>s. s\<lparr>stateVars := ?sv, m_eventQue := []\<rparr>) ?p"
  have proc: "Fsm_processEvent fu (generateEvent fu) i Fsm_evOnRequest ?p = Some (True, q)"
    using at_workD(4) [OF w] off s generate_busy [of i ?p fu Fsm_evFromTransitionCompleted] i d
    by (simp add: Fsm_processEvent_def Fsm_Off_def initializeFromTransition_def b Let_def q_def idle_def)
  have que: "m_eventQue (stg q i) = [Fsm_evFromTransitionCompleted]" using i d by (simp add: q_def stg_upd_stg b idle_def)
  have "upd_stg i (\<lambda>s. s\<lparr>m_eventQue := []\<rparr>) q = q1" by (simp add: q_def q1_def upd_stg_upd_stg)
  note next1 = drain_next [OF que, of fu, unfolded this]
  have k: "kept i ?p q1" unfolding q1_def by (rule kept_upd_stg) (simp_all add: static_def links_def i b)
  then have w1: "at_work fu i q1" using w by (rule kept_at_work)
  have q1: "stg q1 i = (stg p i)\<lparr>m_processingFsmEvent := True, stateVars := ?sv, m_eventQue := []\<rparr>" "the_args q1 = the_args p"
    using i by (simp_all add: q1_def stg_upd_stg b)
  let ?sv2 = "?sv\<lparr>stateVarActive := Cycling\<rparr>"
  obtain sv1 p1 p' where e: "Fsm_enterCycling fu (generateEvent fu) i ?sv2 q1 = Some (sv1, p1)" "stateVar sv1 = Active"
    "Fsm_run fu (Inr i) (upd_stg i (\<lambda>s. s\<lparr>stateVars := sv1\<lparr>stateVar := Active\<rparr>\<rparr>) p1) = Some p'" "kept i q1 p'"
    "settled i (m_startInOffCycle (stg p i) = abortOnOffCycle (the_args p)) p'" "systemOn (the_args p') = systemOn (the_args p)"
    using enter_settles [OF w1, of ?sv2] q1 by auto
  have "Fsm_processEvent fu (generateEvent fu) i Fsm_evFromTransitionCompleted q1 = Some (True, upd_stg i (\<lambda>s. s\<lparr>stateVars := sv1\<rparr>) p1)"
    using at_workD(4) [OF w1] q1 e(1) by (simp add: Fsm_processEvent_def Fsm_Active_def Let_def)
  then have "Fsm_run fu (Inr i) q = Some p'" using next1 e(2,3) by (simp add: stateVar_same)
  then have "generateEvent fu i Fsm_evOnRequest p = Some (release i p')" using generate_idle [OF i d proc] by simp
  moreover have "kept i p (release i p')" by (rule kept_release [OF i d kept_trans [OF k e(4)]])
  moreover have "i < length (the_stages p')" using at_workD(1) [OF kept_at_work [OF kept_trans [OF k e(4)] w]] .
  ultimately show ?thesis using e(5,6) by (auto simp: settled_release engaged_parts)
qed

lemma less_capacity:
  assumes r: "ready fu i p" and d: "idle i p" and a: "m_args (stg p i) = Some (args_at p)"
    and sup: "stateVar (stateVars (stg p i)) = SupplementingNextStage"
  shows "\<exists>p'. generateEvent fu i Fsm_evLessCapacityNeeded p = Some p' \<and> kept i p p' \<and>
    settled i (m_startInOffCycle (stg p i) = abortOnOffCycle (the_args p)) p' \<and> systemOn (the_args p') = systemOn (the_args p)"
proof -
  let ?p = "engaged i p"
  have i: "i < length (the_stages p)" using r by (simp add: ready_def)
  note w = at_work_busy [OF r a] and b = engaged_parts [OF i]
  let ?sv = "(stateVars (stg p i))\<lparr>stateVarActive := Cycling\<rparr>"
  obtain sv1 p1 p' where e: "Fsm_enterCycling fu (generateEvent fu) i ?sv ?p = Some (sv1, p1)"
    "Fsm_run fu (Inr i) (upd_stg i (\<lambda>s. s\<lparr>stateVars := sv1\<lparr>stateVar := Active\<rparr>\<rparr>) p1) = Some p'" "kept i ?p p'"
    "settled i (m_startInOffCycle (stg p i) = abortOnOffCycle (the_args p)) p'" "systemOn (the_args p') = systemOn (the_args p)"
    using enter_settles [OF w, of ?sv] d by (auto simp: b idle_def)
  have "Fsm_processEvent fu (generateEvent fu) i Fsm_evLessCapacityNeeded ?p = Some (True, upd_stg i (\<lambda>s. s\<lparr>stateVars := sv1\<lparr>stateVar := Active\<rparr>\<rparr>) p1)"
    using at_workD(4) [OF w] sup e(1) by (simp add: Fsm_processEvent_def Fsm_Supplementing_def b Let_def)
  then have "generateEvent fu i Fsm_evLessCapacityNeeded p = Some (release i p')" using generate_idle [OF i d] e(2) by simp
  moreover have "kept i p (release i p')" by (rule kept_release [OF i d e(3)])
  moreover have "i < length (the_stages p')" using at_workD(1) [OF kept_at_work [OF e(3) w]] .
  ultimately show ?thesis using e(4,5) by (auto simp: settled_release engaged_parts)
qed

text \<open>A stage that cycles: its main states with their outputs, whatever the cycle information says.\<close>

definition cycles :: "nat \<Rightarrow> bool \<Rightarrow> plant \<Rightarrow> bool" where
  "cycles i on p \<longleftrightarrow> in_half on True (stateVars (stg p i)) \<and> m_eventQue (stg p i) = [] \<and> output_at (the_args p) (slot (stg p i)) = half_out on"

lemma settled_cycles: "settled i on p \<Longrightarrow> cycles i on p"
  by (simp add: settled_def cycles_def)

text \<open>Running a cycling stage: it changes to the other half exactly when its half-cycle is over.\<close>

lemma run_cycle:
  assumes r: "ready fu i p" and d: "idle i p" and a: "m_args (stg p i) = Some (args_at p)" and c: "cycles i on p"
    and e: "e = FSM_NO_MSG \<or> e = Fsm_evOnRequest"
  shows "\<exists>p'. generateEvent fu i e p = Some p' \<and> kept i p p' \<and> systemOn (the_args p') = systemOn (the_args p) \<and>
    (if ci_mode (cycleInfo (the_args p)) = half_mode on \<and> half_over fu on i p then settled i (\<not> on) p'
     else cycles i on p' \<and> ci_mode (cycleInfo (the_args p')) = ci_mode (cycleInfo (the_args p)))"
proof -
  let ?p = "engaged i p"
  have i: "i < length (the_stages p)" using r by (simp add: ready_def)
  note w = at_work_busy [OF r a] and b = engaged_parts [OF i]
  have q: "m_eventQue (stg ?p i) = []" "in_half on True (stateVars (stg ?p i))" using d c by (simp_all add: b idle_def cycles_def)
  obtain p1 es where p1: "check_half fu on i ?p = Some p1" "frame i ?p p1" "stg p1 i = (stg ?p i)\<lparr>m_eventQue := es\<rparr>"
    "es = [] \<or> es = [expired_ev on]" "\<And>x. output_at (the_args p1) x = output_at (the_args ?p) x"
    "ci_mode (cycleInfo (the_args p1)) = ci_mode (cycleInfo (the_args ?p))" "systemOn (the_args p1) = systemOn (the_args ?p)"
    "es \<noteq> [] \<Longrightarrow> \<not> abortOnOffCycle (the_args p1) \<and> half_over fu on i ?p \<and> ci_mode (cycleInfo (the_args ?p)) = half_mode on"
    "es = [] \<Longrightarrow> ci_mode (cycleInfo (the_args ?p)) = half_mode on \<Longrightarrow> \<not> half_over fu on i ?p"
    using check_half_result [OF w, of on thesis] q by auto
  have over: "half_over fu on i ?p = half_over fu on i p" by (simp add: half_over_def b)
  have k: "kept i ?p p1" using p1(2,3) by (simp add: kept_def links_def)
  have w1: "at_work fu i p1" by (rule kept_at_work [OF k w])
  have "Fsm_processEvent fu (generateEvent fu) i e ?p = Some (False, p1)"
    using at_workD(4) [OF w] q(2) p1(1,3) e upd_same_vars [OF at_workD(1) [OF w1]]
    by (cases on) (auto simp: Fsm_processEvent_def Fsm_Active_def Fsm_Cycling_def Fsm_OnCycle_def Fsm_OffCycle_def in_half_def check_half_def Let_def)
  note gen = generate_idle [OF i d this]
  show ?thesis
  proof (cases "es = []")
    case True
    then have "generateEvent fu i e p = Some (release i p1)" using gen drain_empty p1(3) by simp
    moreover have "cycles i on (release i p1)"
      using c p1(3,5) True by (simp add: cycles_def engaged_parts [OF at_workD(1) [OF w1]] b slot_def)
    ultimately show ?thesis
      using kept_release [OF i d k] p1(6,7,9) True over by (auto simp: b engaged_parts [OF at_workD(1) [OF w1]])
  next
    case False
    then have "m_eventQue (stg p1 i) = expired_ev on # []" using p1(3,4) by auto
    then obtain p' where p': "Fsm_run fu (Inr i) p1 = Some p'" "kept i p1 p'" "settled i (\<not> on) p'" "systemOn (the_args p') = systemOn (the_args p1)"
      using drain_over [OF w1, of on True "[]"] q(2) p1(3,8) False by auto
    have "i < length (the_stages p')" using at_workD(1) [OF kept_at_work [OF kept_trans [OF k p'(2)] w]] .
    then show ?thesis
      using gen [OF p'(1)] kept_release [OF i d kept_trans [OF k p'(2)]] p' p1(7,8) False over
      by (auto simp: settled_release engaged_parts b)
  qed
qed

lemma run_cycle_some:
  assumes "ready fu i p" and "idle i p" and "m_args (stg p i) = Some (args_at p)" and "cycles i on p" and "e = FSM_NO_MSG \<or> e = Fsm_evOnRequest"
  obtains p' on' where "generateEvent fu i e p = Some p'" "kept i p p'" "cycles i on' p'"
  using run_cycle [OF assms] by (auto split: if_splits intro: that settled_cycles)

text \<open>
  Other events in the main state of a cycle: the time is checked, the event is handled by \<open>Fsm_Cycling\<close>, and
  what the check posted is ignored by the state that follows.
\<close>

definition Fsm_leave :: "float_unit \<Rightarrow> nat \<Rightarrow> fsm_event \<Rightarrow> state_vars \<Rightarrow> plant \<Rightarrow> (bool \<times> state_vars \<times> plant) option" where
  "Fsm_leave fu i msg sv p =
     (if msg = Fsm_evExcessCapacity then
        if m_supplemented (stg p i) then do {
          p \<leftarrow> initializeBackTransition (generateEvent fu) i p;
          Some (True, sv\<lparr>stateVarActive := TransitioningBackToLowerStage\<rparr>, p)
        } else do { p \<leftarrow> shutdownStage i p; Some (True, sv\<lparr>stateVar := Off\<rparr>, p) }
      else if msg = Fsm_evNeedMoreCapacity then do {
        p \<leftarrow> enterSupplementing (generateEvent fu) i p;
        Some (True, sv\<lparr>stateVar := SupplementingNextStage\<rparr>, p)
      } else Some (False, sv, p))"

lemma checked_in_main:
  assumes w: "at_work fu i p" and h: "in_half on True (stateVars (stg p i))" and q: "m_eventQue (stg p i) = []"
  obtains p1 es where "check_half fu on i p = Some p1" "kept i p p1" "stg p1 i = (stg p i)\<lparr>m_eventQue := es\<rparr>" "es = [] \<or> es = [expired_ev on]"
    "\<And>x. output_at (the_args p1) x = output_at (the_args p) x" "systemOn (the_args p1) = systemOn (the_args p)"
    "\<And>msg. msg \<notin> {expired_ev on, starting_ev on} \<Longrightarrow>
      Fsm_Cycling fu (generateEvent fu) i msg (stateVars (stg p i)) p = Fsm_leave fu i msg (stateVars (stg p i)) p1"
proof -
  obtain p1 es where p1: "check_half fu on i p = Some p1" "frame i p p1" "stg p1 i = (stg p i)\<lparr>m_eventQue := es\<rparr>"
    "es = [] \<or> es = [expired_ev on]" "\<And>x. output_at (the_args p1) x = output_at (the_args p) x" "systemOn (the_args p1) = systemOn (the_args p)"
    using check_half_result [OF w, of on thesis] q by auto
  have "Fsm_Cycling fu (generateEvent fu) i msg (stateVars (stg p i)) p = Fsm_leave fu i msg (stateVars (stg p i)) p1"
    if "msg \<notin> {expired_ev on, starting_ev on}" for msg
    using h p1(1) that by (cases on) (auto simp: Fsm_Cycling_def Fsm_leave_def Fsm_OnCycle_def Fsm_OffCycle_def in_half_def check_half_def half_defs)
  then show ?thesis using p1 by (intro that [of p1 es]) (simp_all add: kept_def links_def)
qed

text \<open>A leftover event is ignored outside the cycle, and the queue is empty then.\<close>

lemma drain_left_over:
  assumes w: "ready fu i p" and q: "m_eventQue (stg p i) = [] \<or> m_eventQue (stg p i) = [expired_ev on]"
    and sv: "stateVar (stateVars (stg p i)) \<in> {Off, SupplementingNextStage}"
  shows "Fsm_run fu (Inr i) p = Some (upd_stg i (\<lambda>s. s\<lparr>m_eventQue := []\<rparr>) p)"
proof (cases "m_eventQue (stg p i)")
  case Nil
  then show ?thesis using upd_stg_same [of "\<lambda>s. s\<lparr>m_eventQue := []\<rparr>" p i] by (simp add: drain_empty)
next
  case (Cons e es)
  then have q': "m_eventQue (stg p i) = [expired_ev on]" using q by auto
  let ?p = "upd_stg i (\<lambda>s. s\<lparr>m_eventQue := []\<rparr>) p"
  have i: "i < length (the_stages p)" "m_initialized (stg p i)" using w by (simp_all add: ready_def)
  have "Fsm_processEvent fu (generateEvent fu) i (expired_ev on) ?p = Some (False, ?p)"
    using i sv upd_same_vars [of i ?p] by (auto simp: Fsm_processEvent_def Fsm_Off_def Fsm_Supplementing_def stg_upd_stg Let_def half_defs)
  then have "Fsm_run fu (Inr i) p = Fsm_run fu (Inr i) ?p" by (rule drain_next [OF q'])
  then show ?thesis using i by (simp add: drain_empty stg_upd_stg)
qed

definition is_off :: "nat \<Rightarrow> plant \<Rightarrow> bool" where
  "is_off i p \<longleftrightarrow> stateVar (stateVars (stg p i)) = Off \<and> m_eventQue (stg p i) = [] \<and> output_at (the_args p) (slot (stg p i)) = VIRTUAL_OUTPUTS_OFF"

definition supplements :: "nat \<Rightarrow> plant \<Rightarrow> bool" where
  "supplements i p \<longleftrightarrow> stateVar (stateVars (stg p i)) = SupplementingNextStage \<and> m_eventQue (stg p i) = [] \<and>
     output_at (the_args p) (slot (stg p i)) = VIRTUAL_OUTPUTS_ON"

lemma shutdown_result:
  assumes w: "at_work fu i p"
  obtains p' where "shutdownStage i p = Some p'" "kept i p p'" "the_stages p' = the_stages p"
    "output_at (the_args p') (slot (stg p i)) = VIRTUAL_OUTPUTS_OFF"
    "systemOn (the_args p') = (if m_systemIndex (stg p i) = 0 then False else systemOn (the_args p))"
proof -
  note d = at_workD [OF w]
  define p1 where "p1 = turn i VIRTUAL_OUTPUTS_OFF VIRTUAL_OUTPUTS_OFF p"
  define p2 where "p2 = (if m_systemIndex (stg p1 i) = 0 then upd_cycle (\<lambda>ci. ci\<lparr>ci_mode := eOFF\<rparr>) (upd_args (\<lambda>a. a\<lparr>systemOn := False\<rparr>) p1) else p1)"
  have "kept i p p1" unfolding p1_def by (rule kept_turn [OF d(5)])
  moreover have "kept i p1 p2" using frame_trans [OF frame_systemOn frame_upd_cycle] by (simp add: p2_def kept_def)
  ultimately have k: "kept i p p2" by (rule kept_trans)
  have "shutdownStage i p = Some p2" using d(7) stageOff_turn [OF d(2,5)] by (simp add: shutdownStage_def p1_def p2_def)
  with k show ?thesis using turn_output [OF d(5)] by (intro that [of p2]) (simp_all add: p2_def p1_def)
qed

lemma excess_first:
  assumes r: "ready fu i p" and d: "idle i p" and a: "m_args (stg p i) = Some (args_at p)" and c: "cycles i on p" and s: "\<not> m_supplemented (stg p i)"
  shows "\<exists>p'. generateEvent fu i Fsm_evExcessCapacity p = Some p' \<and> kept i p p' \<and> is_off i p'"
proof -
  let ?p = "engaged i p"
  have i: "i < length (the_stages p)" using r by (simp add: ready_def)
  note w = at_work_busy [OF r a] and b = engaged_parts [OF i]
  have q: "m_eventQue (stg ?p i) = []" "in_half on True (stateVars (stg ?p i))" using d c by (simp_all add: b idle_def cycles_def)
  obtain p1 es where p1: "check_half fu on i ?p = Some p1" "kept i ?p p1" "stg p1 i = (stg ?p i)\<lparr>m_eventQue := es\<rparr>" "es = [] \<or> es = [expired_ev on]"
    "\<And>msg. msg \<notin> {expired_ev on, starting_ev on} \<Longrightarrow>
      Fsm_Cycling fu (generateEvent fu) i msg (stateVars (stg ?p i)) ?p = Fsm_leave fu i msg (stateVars (stg ?p i)) p1"
    using checked_in_main [OF w q(2,1), of thesis] by blast
  have w1: "at_work fu i p1" by (rule kept_at_work [OF p1(2) w])
  obtain p2 where p2: "shutdownStage i p1 = Some p2" "kept i p1 p2" "the_stages p2 = the_stages p1" "output_at (the_args p2) (slot (stg p1 i)) = VIRTUAL_OUTPUTS_OFF"
    using shutdown_result [OF w1, of thesis] by blast
  let ?sv = "(stateVars (stg ?p i))\<lparr>stateVar := Off\<rparr>"
  define p3 where "p3 = upd_stg i (\<lambda>s. s\<lparr>stateVars := ?sv\<rparr>) p2"
  have i2: "i < length (the_stages p2)" using at_workD(1) [OF w1] p2(3) by simp
  have k3: "kept i ?p p3" unfolding p3_def by (rule kept_trans [OF kept_trans [OF p1(2) p2(2)] kept_stateVars [OF i2]])
  have "Fsm_processEvent fu (generateEvent fu) i Fsm_evExcessCapacity ?p = Some (True, p3)"
    using at_workD(4) [OF w] q(2) p1(3) p1(5) [of Fsm_evExcessCapacity] p2(1) s b(1) [of i]
    by (simp add: Fsm_processEvent_def Fsm_Active_def Fsm_leave_def in_half_def half_defs p3_def Let_def)
  note gen = generate_idle [OF i d this]
  have s3: "stg p3 i = (stg p i)\<lparr>m_processingFsmEvent := True, m_eventQue := es, stateVars := ?sv\<rparr>"
    using i2 p1(3) p2(3) stg_def [of p2 i] stg_def [of p1 i] by (simp add: p3_def stg_upd_stg b)
  define p4 where "p4 = upd_stg i (\<lambda>s. s\<lparr>m_eventQue := []\<rparr>) p3"
  have r3: "ready fu i p3" using kept_at_work [OF k3 w] by (simp add: at_work_def)
  then have i3: "i < length (the_stages p3)" by (simp add: ready_def)
  have run: "Fsm_run fu (Inr i) p3 = Some p4"
    using drain_left_over [OF r3, of on] p1(4) s3 by (auto simp: p4_def)
  have k4: "kept i ?p p4" unfolding p4_def by (rule kept_trans [OF k3 kept_que [OF i3]])
  have i4: "i < length (the_stages p4)" using i3 by (simp add: p4_def)
  have s5: "stg (release i p4) i = (stg p i)\<lparr>m_processingFsmEvent := False, m_eventQue := [], stateVars := ?sv\<rparr>"
  proof -
    have "stg p4 i = (stg p3 i)\<lparr>m_eventQue := []\<rparr>" using i3 by (simp add: p4_def stg_upd_stg)
    then show ?thesis using s3 by (simp add: engaged_parts(5) [OF i4])
  qed
  have "the_args (release i p4) = the_args p2" unfolding engaged_parts(6) [OF i4] by (simp add: p4_def p3_def)
  moreover have "slot (stg p1 i) = slot (stg p i)" using p1(3) by (simp add: slot_def b)
  ultimately have "is_off i (release i p4)" using p2(4) by (simp add: is_off_def s5) (simp add: slot_def)
  then show ?thesis using gen [OF run] kept_release [OF i d k4] by auto
qed

section \<open>Requests that concern two stages\<close>

definition frames :: "nat set \<Rightarrow> plant \<Rightarrow> plant \<Rightarrow> bool" where
  "frames S p p' \<longleftrightarrow> length (the_stages p') = length (the_stages p) \<and> (\<forall>k. k \<notin> S \<longrightarrow> stg p' k = stg p k) \<and>
     (\<forall>k. static (stg p' k) = static (stg p k)) \<and> args_at p' = args_at p \<and> inputs (the_args p') = inputs (the_args p) \<and>
     (\<forall>x. slot_ok (the_args p') x = slot_ok (the_args p) x) \<and>
     (\<forall>x. x \<notin> (\<lambda>k. slot (stg p k)) ` S \<longrightarrow> output_at (the_args p') x = output_at (the_args p) x)"

lemma frame_frames: "frame i p p' \<Longrightarrow> frames {i} p p'"
  unfolding frames_def by (simp add: frameD)

lemma framesD:
  assumes "frames S p p'"
  shows "length (the_stages p') = length (the_stages p)" and "k \<notin> S \<Longrightarrow> stg p' k = stg p k" and "static (stg p' k) = static (stg p k)"
    and "args_at p' = args_at p" and "inputs (the_args p') = inputs (the_args p)" and "slot_ok (the_args p') x = slot_ok (the_args p) x"
    and "x \<notin> (\<lambda>k. slot (stg p k)) ` S \<Longrightarrow> output_at (the_args p') x = output_at (the_args p) x"
  using assms unfolding frames_def by blast+

lemma frames_trans:
  assumes p: "frames S p q" and q: "frames T q r"
  shows "frames (S \<union> T) p r"
proof -
  have "slot (stg q k) = slot (stg p k)" for k by (rule static_slot [OF framesD(3) [OF p]])
  then have "x \<notin> (\<lambda>k. slot (stg p k)) ` (S \<union> T) \<Longrightarrow> output_at (the_args r) x = output_at (the_args p) x" for x
    using framesD(7) [OF p, of x] framesD(7) [OF q, of x] by (simp add: image_Un)
  then show ?thesis
    unfolding frames_def [of "S \<union> T"] by (simp add: framesD(1-6) [OF q] framesD(1-6) [OF p])
qed

lemma frames_mono: "frames S p p' \<Longrightarrow> S \<subseteq> T \<Longrightarrow> frames T p p'"
  unfolding frames_def by blast

lemma ready_frames: "frames S p p' \<Longrightarrow> ready fu k p' = ready fu k p"
proof -
  assume f: "frames S p p'"
  note s = framesD(3) [OF f, of k]
  have "times_ok fu (the_args p') n = times_ok fu (the_args p) n" for n using framesD(5) [OF f] by (rule times_inputs)
  moreover note framesD(1) [OF f] framesD(6) [OF f]
  moreover have "m_initialized (stg p' k) = m_initialized (stg p k)" "m_systemIndex (stg p' k) = m_systemIndex (stg p k)"
    using s by (simp_all add: static_def)
  ultimately show ?thesis using static_slot [OF s] by (simp add: ready_def)
qed

text \<open>Stage \<open>i\<close> makes the stage \<open>j\<close> above it the active one.\<close>

lemma need_more:
  assumes r: "ready fu i p" and d: "idle i p" and a: "m_args (stg p i) = Some (args_at p)" and c: "cycles i on p"
    and n: "m_nextStage (stg p i) = Some j" and ij: "i \<noteq> j" "slot (stg p i) \<noteq> slot (stg p j)"
    and rj: "ready fu j p" and dj: "idle j p" and oj: "is_off j p"
  shows "\<exists>p' on'. generateEvent fu i Fsm_evNeedMoreCapacity p = Some p' \<and> frames {i, j} p p' \<and> supplements i p' \<and> cycles j on' p' \<and>
    links (stg p' i) = links (stg p i) \<and>
    links (stg p' j) = links ((stg p j)\<lparr>m_args := Some (args_at p), m_startInOffCycle := \<not> m_requestSupplementStartInOnCycle (stg p i),
      m_supplemented := True, m_nextStage := None, m_prevStage := Some i\<rparr>)"
proof -
  let ?p = "engaged i p"
  have i: "i < length (the_stages p)" "j < length (the_stages p)" using r rj by (simp_all add: ready_def)
  note w = at_work_busy [OF r a] and b = engaged_parts [OF i(1)]
  have q: "m_eventQue (stg ?p i) = []" "in_half on True (stateVars (stg ?p i))" using d c by (simp_all add: b idle_def cycles_def)
  obtain p1 es where p1: "check_half fu on i ?p = Some p1" "kept i ?p p1" "stg p1 i = (stg ?p i)\<lparr>m_eventQue := es\<rparr>" "es = [] \<or> es = [expired_ev on]"
    "\<And>msg. msg \<notin> {expired_ev on, starting_ev on} \<Longrightarrow>
      Fsm_Cycling fu (generateEvent fu) i msg (stateVars (stg ?p i)) ?p = Fsm_leave fu i msg (stateVars (stg ?p i)) p1"
    using checked_in_main [OF w q(2,1), of thesis] by blast
  have f1: "frame i p p1" using frame_trans [OF frame_busy(1) [OF i(1)]] p1(2) by (simp add: kept_def)
  have w1: "at_work fu i p1" by (rule kept_at_work [OF p1(2) w])
  have j1: "j < length (the_stages p1)" "stg p1 j = stg p j" using frameD(1,2) [OF f1] i(2) ij by auto
  define g where "g = (\<lambda>s. s\<lparr>m_args := Some (args_at p1), m_startInOffCycle := \<not> m_requestSupplementStartInOnCycle (stg p i),
      m_supplemented := True, m_nextStage := None, m_prevStage := Some i\<rparr> :: stage)"
  define pj where "pj = upd_stg j g p1"
  have fj: "frame j p1 pj" unfolding pj_def by (rule frame_upd_stg [OF _ j1(1)]) (simp add: g_def static_def)
  have sj: "stg pj j = g (stg p j)" and aj: "args_at pj = args_at p1" using j1 by (simp_all add: pj_def stg_upd_stg)
  have "ready fu j pj" using rj ready_frame [OF f1] ready_frame [OF fj] by simp
  moreover have "idle j pj" "m_args (stg pj j) = Some (args_at pj)" "stateVar (stateVars (stg pj j)) = Off" "m_supplemented (stg pj j)"
    using dj oj by (simp_all add: sj aj idle_def is_off_def) (simp_all add: g_def)
  ultimately obtain p2 on' where p2: "generateEvent fu j Fsm_evOnRequest pj = Some p2" "kept j pj p2" "settled j on' p2"
    using on_request_next by blast
  have "frame j pj p2" using p2(2) by (simp add: kept_def)
  then have "frames ({i} \<union> ({j} \<union> {j})) p p2"
    by (rule frames_trans [OF frame_frames [OF f1] frames_trans [OF frame_frames [OF fj] frame_frames]])
  then have f2: "frames {i, j} p p2" by (simp add: insert_commute)
  have s2: "stg p2 i = (stg p i)\<lparr>m_processingFsmEvent := True, m_eventQue := es\<rparr>"
    using p2(2) frameD(2) [of j pj p2 i] frameD(2) [OF fj, of i] ij p1(3) by (simp add: kept_def b)
  have r2: "ready fu i p2" using ready_frames [OF f2] r by simp
  have a2: "args_at p2 = args_at p" by (rule framesD(4) [OF f2])
  define p3 where "p3 = turn i VIRTUAL_OUTPUTS_ON (fan_on (stg p2 i)) p2"
  have sl: "slot_ok (the_args p2) (slot (stg p2 i))" using r2 by (simp add: ready_def)
  have on: "stageOn i p2 = Some p3" unfolding p3_def by (rule stageOn_turn [OF _ sl]) (simp add: s2 a a2)
  let ?sv = "(stateVars (stg ?p i))\<lparr>stateVar := SupplementingNextStage\<rparr>"
  define p4 where "p4 = upd_stg i (\<lambda>s. s\<lparr>stateVars := ?sv\<rparr>) p3"
  have a1: "args_at p1 = args_at p" by (rule frameD(4) [OF f1])
  have "enterSupplementing (generateEvent fu) i p1 = Some p3"
    using at_workD(7) [OF w1] n j1(1) p2(1) on p1(3) a1
    by (simp add: enterSupplementing_def notifyAsActiveStage_by_def pj_def g_def b)
  then have proc: "Fsm_processEvent fu (generateEvent fu) i Fsm_evNeedMoreCapacity ?p = Some (True, p4)"
    using at_workD(4) [OF w] q(2) p1(5) [of Fsm_evNeedMoreCapacity]
    by (simp add: Fsm_processEvent_def Fsm_Active_def Fsm_leave_def in_half_def half_defs p4_def Let_def)
  have i3: "i < length (the_stages p3)" using r2 by (simp add: p3_def ready_def)
  have f4: "frame i p2 p4"
    using frame_trans [OF frame_turn [OF sl] frame_upd_stg] i3 unfolding p4_def p3_def by (simp add: static_def)
  have s4: "stg p4 i = (stg p i)\<lparr>m_processingFsmEvent := True, m_eventQue := es, stateVars := ?sv\<rparr>" "stg p4 j = stg p2 j"
    using i3 s2 ij by (simp_all add: p4_def stg_upd_stg p3_def)
  define p5 where "p5 = upd_stg i (\<lambda>s. s\<lparr>m_eventQue := []\<rparr>) p4"
  have r4: "ready fu i p4" using ready_frame [OF f4] r2 by simp
  then have i4: "i < length (the_stages p4)" by (simp add: ready_def)
  then have i5: "i < length (the_stages p5)" by (simp add: p5_def)
  have run: "Fsm_run fu (Inr i) p4 = Some p5" using drain_left_over [OF r4, of on] p1(4) s4 by (auto simp: p5_def)
  have gen: "generateEvent fu i Fsm_evNeedMoreCapacity p = Some (release i p5)" by (rule generate_idle [OF i(1) d proc run])
  have s5: "stg (release i p5) i = (stg p i)\<lparr>m_processingFsmEvent := False, m_eventQue := [], stateVars := ?sv\<rparr>" "stg (release i p5) j = stg p2 j"
  proof -
    have "stg p5 i = (stg p4 i)\<lparr>m_eventQue := []\<rparr>" "stg p5 j = stg p4 j" using i4 ij by (simp_all add: p5_def stg_upd_stg)
    then show "stg (release i p5) i = (stg p i)\<lparr>m_processingFsmEvent := False, m_eventQue := [], stateVars := ?sv\<rparr>" "stg (release i p5) j = stg p2 j"
      using s4 ij by (simp_all add: engaged_parts(5) [OF i5])
  qed
  have "frame i p4 p5" unfolding p5_def by (rule frame_upd_stg [OF _ i4]) (simp add: static_def)
  then have "frame i p4 (release i p5)" by (rule frame_trans [OF _ frame_busy(2) [OF i5]])
  then have "frames ({i, j} \<union> ({i} \<union> {i})) p (release i p5)"
    by (rule frames_trans [OF f2 frames_trans [OF frame_frames [OF f4] frame_frames]])
  then have fr: "frames {i, j} p (release i p5)" by (simp add: insert_commute)
  have slots: "slot (stg p2 i) = slot (stg p i)" "slot (stg p2 j) = slot (stg p j)" using framesD(3) [OF f2] static_slot by blast+
  have args5: "the_args (release i p5) = the_args p3" unfolding engaged_parts(6) [OF i5] by (simp add: p5_def p4_def)
  have "supplements i (release i p5)"
    using turn_output [OF sl] slots(1) by (simp add: supplements_def s5 args5 p3_def slot_def)
  moreover have "cycles j on' (release i p5)"
    using settled_cycles [OF p2(3)] turn_output [OF sl] slots ij(2) by (simp add: cycles_def s5 args5 p3_def)
  moreover have "links (stg (release i p5) i) = links (stg p i)" using d by (simp add: s5 links_def idle_def)
  moreover have "links (stg p2 j) = links (g (stg p j))" using p2(2) sj by (simp add: kept_def)
  ultimately show ?thesis using gen fr s5(2) a1 by (auto simp: g_def)
qed

text \<open>Stage \<open>i\<close> hands back to the stage \<open>j\<close> below it.\<close>

lemma process_back_ignored:
  assumes w: "at_work fu i p" and "stateVar (stateVars (stg p i)) = Active" and "stateVarActive (stateVars (stg p i)) = TransitioningBackToLowerStage"
  shows "Fsm_processEvent fu (generateEvent fu) i (expired_ev on) p = Some (False, p)"
  using at_workD [OF w] assms(2,3) upd_same_vars [of i p]
  by (cases on) (simp_all add: Fsm_processEvent_def Fsm_Active_def half_defs Let_def)

lemma drain_back:
  assumes w: "at_work fu i p" and sv: "stateVar (stateVars (stg p i)) = Active" "stateVarActive (stateVars (stg p i)) = TransitioningBackToLowerStage"
    and q: "m_eventQue (stg p i) = es @ [Fsm_evBackTransitionCompleted]" "es = [] \<or> es = [expired_ev on]"
  shows "Fsm_run fu (Inr i) p = do {
    r \<leftarrow> Fsm_processEvent fu (generateEvent fu) i Fsm_evBackTransitionCompleted (upd_stg i (\<lambda>s. s\<lparr>m_eventQue := []\<rparr>) p);
    Fsm_run fu (Inr i) (snd r)
  }"
proof (cases "es = []")
  case True
  then show ?thesis using q(1) run_drain [of fu i p] by simp
next
  case False
  let ?p = "upd_stg i (\<lambda>s. s\<lparr>m_eventQue := [Fsm_evBackTransitionCompleted]\<rparr>) p"
  note i = at_workD(1) [OF w]
  have es: "m_eventQue (stg p i) = [expired_ev on, Fsm_evBackTransitionCompleted]" using False q by auto
  have "at_work fu i ?p" by (rule kept_at_work [OF kept_que [OF i] w])
  then have "Fsm_processEvent fu (generateEvent fu) i (expired_ev on) ?p = Some (False, ?p)"
    by (rule process_back_ignored) (simp_all add: stg_upd_stg i sv)
  then have "Fsm_run fu (Inr i) p = Fsm_run fu (Inr i) ?p" by (rule drain_next [OF es])
  then show ?thesis using run_drain [of fu i ?p] i by (simp add: stg_upd_stg upd_stg_upd_stg)
qed

lemma notify_lower:
  assumes w: "at_work fu i p" and n: "m_prevStage (stg p i) = Some j" and ij: "i \<noteq> j"
    and rj: "ready fu j p" and dj: "idle j p" and sj: "stateVar (stateVars (stg p j)) = SupplementingNextStage"
  shows "\<exists>p' on. notifyLowerStage (generateEvent fu) i p = Some p' \<and> frames {i, j} p p' \<and> cycles j on p' \<and>
    stg p' i = (stg p i)\<lparr>m_prevStage := None, m_supplemented := False\<rparr> \<and>
    links (stg p' j) = links ((stg p j)\<lparr>m_args := Some (args_at p), m_startInOffCycle := \<not> m_requestOffStartInOnCycle (stg p i), m_nextStage := None\<rparr>)"
proof -
  have i: "i < length (the_stages p)" "j < length (the_stages p)" using at_workD(1) [OF w] rj by (simp_all add: ready_def)
  define g where "g = (\<lambda>s. s\<lparr>m_args := Some (args_at p), m_startInOffCycle := \<not> m_requestOffStartInOnCycle (stg p i), m_nextStage := None\<rparr> :: stage)"
  define pj where "pj = upd_stg j g p"
  have fj: "frame j p pj" unfolding pj_def by (rule frame_upd_stg [OF _ i(2)]) (simp add: g_def static_def)
  have s: "stg pj j = g (stg p j)" "args_at pj = args_at p" "stg pj i = stg p i" using i ij by (simp_all add: pj_def stg_upd_stg)
  have "ready fu j pj" using rj ready_frame [OF fj] by simp
  moreover have "idle j pj" "m_args (stg pj j) = Some (args_at pj)" "stateVar (stateVars (stg pj j)) = SupplementingNextStage"
    using dj sj by (simp_all add: s idle_def) (simp_all add: g_def)
  ultimately obtain p2 on where p2: "generateEvent fu j Fsm_evLessCapacityNeeded pj = Some p2" "kept j pj p2" "settled j on p2"
    using less_capacity by blast
  define p3 where "p3 = upd_stg i (\<lambda>s. s\<lparr>m_prevStage := None, m_supplemented := False\<rparr>) p2"
  have f2: "frame j p p2" using frame_trans [OF fj] p2(2) by (simp add: kept_def)
  have i2: "i < length (the_stages p2)" using frameD(1) [OF f2] i by simp
  have "frame i p2 p3" unfolding p3_def by (rule frame_upd_stg [OF _ i2]) (simp add: static_def)
  then have "frames ({j} \<union> {i}) p p3" by (rule frames_trans [OF frame_frames [OF f2] frame_frames])
  moreover have s3: "stg p3 i = (stg p i)\<lparr>m_prevStage := None, m_supplemented := False\<rparr>" "stg p3 j = stg p2 j" "the_args p3 = the_args p2"
    using i2 ij frameD(2) [OF f2, of i] by (simp_all add: p3_def stg_upd_stg)
  moreover have "notifyLowerStage (generateEvent fu) i p = Some p3"
    using at_workD(7) [OF w] n i p2(1) by (simp add: notifyLowerStage_def notifyAsExitingSupplmenting_by_def pj_def g_def p3_def)
  moreover have "cycles j on p3" using settled_cycles [OF p2(3)] by (simp add: cycles_def s3)
  moreover have "links (stg p3 j) = links (g (stg p j))" using p2(2) by (simp add: kept_def s s3)
  ultimately show ?thesis by (auto simp: g_def insert_commute)
qed

lemma excess_upper:
  assumes r: "ready fu i p" and d: "idle i p" and a: "m_args (stg p i) = Some (args_at p)" and c: "cycles i on p"
    and s: "m_supplemented (stg p i)" and n: "m_prevStage (stg p i) = Some j" and ij: "i \<noteq> j" "slot (stg p i) \<noteq> slot (stg p j)"
    and rj: "ready fu j p" and dj: "idle j p" and sj: "supplements j p"
  shows "\<exists>p' on'. generateEvent fu i Fsm_evExcessCapacity p = Some p' \<and> frames {i, j} p p' \<and> is_off i p' \<and> cycles j on' p' \<and>
    links (stg p' i) = links ((stg p i)\<lparr>m_prevStage := None, m_supplemented := False\<rparr>) \<and>
    links (stg p' j) = links ((stg p j)\<lparr>m_args := Some (args_at p), m_startInOffCycle := \<not> m_requestOffStartInOnCycle (stg p i), m_nextStage := None\<rparr>)"
proof -
  let ?p = "engaged i p"
  have i: "i < length (the_stages p)" using r by (simp add: ready_def)
  note w = at_work_busy [OF r a] and b = engaged_parts [OF i]
  have q: "m_eventQue (stg ?p i) = []" "in_half on True (stateVars (stg ?p i))" using d c by (simp_all add: b idle_def cycles_def)
  obtain p1 es where p1: "check_half fu on i ?p = Some p1" "kept i ?p p1" "stg p1 i = (stg ?p i)\<lparr>m_eventQue := es\<rparr>" "es = [] \<or> es = [expired_ev on]"
    "\<And>msg. msg \<notin> {expired_ev on, starting_ev on} \<Longrightarrow>
      Fsm_Cycling fu (generateEvent fu) i msg (stateVars (stg ?p i)) ?p = Fsm_leave fu i msg (stateVars (stg ?p i)) p1"
    using checked_in_main [OF w q(2,1), of thesis] by blast
  have w1: "at_work fu i p1" by (rule kept_at_work [OF p1(2) w])
  let ?sv = "(stateVars (stg ?p i))\<lparr>stateVarActive := TransitioningBackToLowerStage\<rparr>"
  define p2 where "p2 = upd_stg i (\<lambda>s. s\<lparr>stateVars := ?sv\<rparr>) (upd_stg i (\<lambda>s. s\<lparr>m_eventQue := m_eventQue s @ [Fsm_evBackTransitionCompleted]\<rparr>) p1)"
  have k2: "kept i ?p p2"
    unfolding p2_def upd_stg_upd_stg
    by (rule kept_trans [OF p1(2) kept_upd_stg]) (simp_all add: static_def links_def at_workD(1) [OF w1])
  have w2: "at_work fu i p2" by (rule kept_at_work [OF k2 w])
  have "generateEvent fu i Fsm_evBackTransitionCompleted p1 = Some (upd_stg i (\<lambda>s. s\<lparr>m_eventQue := m_eventQue s @ [Fsm_evBackTransitionCompleted]\<rparr>) p1)"
    by (rule generate_busy) (use at_workD [OF w1] p1(3,4) in auto)
  then have proc: "Fsm_processEvent fu (generateEvent fu) i Fsm_evExcessCapacity ?p = Some (True, p2)"
    using at_workD(4) [OF w] q(2) p1(3) p1(5) [of Fsm_evExcessCapacity] s
    by (simp add: Fsm_processEvent_def Fsm_Active_def Fsm_leave_def initializeBackTransition_def in_half_def half_defs p2_def Let_def b)
  have s2: "stg p2 i = (stg p i)\<lparr>m_processingFsmEvent := True, m_eventQue := es @ [Fsm_evBackTransitionCompleted], stateVars := ?sv\<rparr>"
    using at_workD(1) [OF w1] p1(3) by (simp add: p2_def stg_upd_stg b)
  define p3 where "p3 = upd_stg i (\<lambda>s. s\<lparr>m_eventQue := []\<rparr>) p2"
  have k3: "kept i ?p p3" unfolding p3_def by (rule kept_trans [OF k2 kept_que [OF at_workD(1) [OF w2]]])
  have w3: "at_work fu i p3" by (rule kept_at_work [OF k3 w])
  have s3: "stg p3 i = (stg p i)\<lparr>m_processingFsmEvent := True, m_eventQue := [], stateVars := ?sv\<rparr>"
    using s2 at_workD(1) [OF w2] by (simp add: p3_def stg_upd_stg)
  have f3: "frame i p p3" using frame_trans [OF frame_busy(1) [OF i]] k3 by (simp add: kept_def)
  have j3: "stg p3 j = stg p j" "ready fu j p3" using frameD(2) [OF f3, of j] ij ready_frame [OF f3] rj by auto
  obtain p4 on' where p4: "notifyLowerStage (generateEvent fu) i p3 = Some p4" "frames {i, j} p3 p4" "cycles j on' p4"
    "stg p4 i = (stg p3 i)\<lparr>m_prevStage := None, m_supplemented := False\<rparr>"
    "links (stg p4 j) = links ((stg p j)\<lparr>m_args := Some (args_at p), m_startInOffCycle := \<not> m_requestOffStartInOnCycle (stg p i), m_nextStage := None\<rparr>)"
    using notify_lower [OF w3, of j] n ij(1) j3 dj sj frameD(4) [OF f3] by (auto simp: s3 idle_def supplements_def)
  have w4: "at_work fu i p4"
    using ready_frames [OF p4(2)] w3 framesD(4) [OF p4(2)] by (simp add: at_work_def p4(4))
  obtain p5 where p5: "shutdownStage i p4 = Some p5" "kept i p4 p5" "the_stages p5 = the_stages p4" "output_at (the_args p5) (slot (stg p4 i)) = VIRTUAL_OUTPUTS_OFF"
    using shutdown_result [OF w4, of thesis] by blast
  have s5: "stg p5 k = stg p4 k" for k using p5(3) by (simp add: stg_def)
  let ?sv6 = "?sv\<lparr>stateVar := Off, stateVarActive := Cycling\<rparr>"
  define p6 where "p6 = upd_stg i (\<lambda>s. s\<lparr>stateVars := ?sv6\<rparr>) p5"
  have i5: "i < length (the_stages p5)" using at_workD(1) [OF w4] p5(3) by simp
  then have i6: "i < length (the_stages p6)" by (simp add: p6_def)
  have "Fsm_processEvent fu (generateEvent fu) i Fsm_evBackTransitionCompleted p3 = Some (True, p6)"
    using at_workD(4) [OF w3] q(2) p4(1) p5(1) by (simp add: Fsm_processEvent_def Fsm_Active_def s3 in_half_def p6_def Let_def b)
  moreover have s6: "stg p6 i = (stg p i)\<lparr>m_processingFsmEvent := True, m_eventQue := [], stateVars := ?sv6, m_prevStage := None, m_supplemented := False\<rparr>"
    "stg p6 j = stg p4 j"
    using i5 ij(1) by (simp_all add: p6_def stg_upd_stg s5 p4(4) s3)
  ultimately have run: "Fsm_run fu (Inr i) p2 = Some p6"
    using drain_back [OF w2, of es on] s2 q(2) p1(4) drain_empty [of p6 i] by (simp add: p3_def [symmetric] in_half_def b)
  have gen: "generateEvent fu i Fsm_evExcessCapacity p = Some (release i p6)" by (rule generate_idle [OF i d proc run])
  have s7: "stg (release i p6) i = (stg p i)\<lparr>m_processingFsmEvent := False, m_eventQue := [], stateVars := ?sv6, m_prevStage := None, m_supplemented := False\<rparr>"
    "stg (release i p6) j = stg p4 j" "the_args (release i p6) = the_args p5"
    using s6 ij(1) unfolding engaged_parts [OF i6] by (simp_all add: p6_def)
  have "frame i p5 p6" unfolding p6_def by (rule frame_upd_stg [OF _ i5]) (simp add: static_def)
  then have "frame i p4 (release i p6)"
    using frame_trans [OF _ frame_trans [OF _ frame_busy(2) [OF i6]]] p5(2) unfolding kept_def by blast
  then have "frames ({i} \<union> ({i, j} \<union> {i})) p (release i p6)"
    by (rule frames_trans [OF frame_frames [OF f3] frames_trans [OF p4(2) frame_frames]])
  then have fr: "frames {i, j} p (release i p6)" by (simp add: insert_commute)
  have slots: "slot (stg p4 i) = slot (stg p i)" "slot (stg p4 j) = slot (stg p j)" "slot (stg (release i p6) i) = slot (stg p i)"
    using static_slot [OF framesD(3) [OF p4(2)]] static_slot [OF framesD(3) [OF fr]] j3(1) s3 by (simp_all add: slot_def)
  have "is_off i (release i p6)" using p5(4) by (simp add: is_off_def slots) (simp add: s7)
  moreover have "cycles j on' (release i p6)"
    using p4(3) frameD(8) [of i p4 p5 "slot (stg p j)"] p5(2) slots ij(2) by (simp add: cycles_def s7 kept_def)
  ultimately show ?thesis using gen fr p4(5) d by (auto simp: s7 links_def idle_def)
qed

section \<open>Turning off with the operating mode\<close>

text \<open>Events that a stage ignores outside its cycle.\<close>

lemma ignored:
  assumes r: "i < length (the_stages p)" and d: "idle i p"
    and "stateVar (stateVars (stg p i)) = Off \<and> e \<noteq> Fsm_evOnRequest \<or>
      stateVar (stateVars (stg p i)) = SupplementingNextStage \<and> e \<notin> {Fsm_evLessCapacityNeeded, Fsm_evOffModeRequest}"
  shows "generateEvent fu i e p = Some p"
proof -
  let ?p = "engaged i p"
  note b = engaged_parts [OF r]
  have "upd_stg i (\<lambda>s. s\<lparr>stateVars := stateVars (stg p i)\<rparr>) ?p = ?p" by (rule upd_stg_same) (simp add: b)
  then have "Fsm_processEvent fu (generateEvent fu) i e ?p = Some (False, ?p)"
    using assms(3) by (auto simp: Fsm_processEvent_def Fsm_Off_def Fsm_Supplementing_def b Let_def)
  moreover have "Fsm_run fu (Inr i) ?p = Some ?p" using d by (intro drain_empty) (simp add: b idle_def)
  ultimately have "generateEvent fu i e p = Some (release i ?p)" by (rule generate_idle [OF r d])
  also have "release i ?p = p"
    unfolding release_def engaged_def upd_stg_upd_stg using d by (intro upd_stg_same) (simp add: idle_def)
  finally show ?thesis .
qed

text \<open>A stage that the mode has turned off: it forgets everything, and leaves its output to the new mode.\<close>

definition forgotten :: "nat \<Rightarrow> plant \<Rightarrow> bool" where
  "forgotten i p \<longleftrightarrow> stateVar (stateVars (stg p i)) = Off \<and> idle i p \<and> \<not> m_supplemented (stg p i)"

lemma initialize_frame: "i < length (the_stages p) \<Longrightarrow> frame i p (initializeStage i p)"
  unfolding initializeStage_def by (rule frame_upd_stg) (simp_all add: static_def)

lemma initialize_stage_at:
  "i < length (the_stages p) \<Longrightarrow> m_eventQue (stg (initializeStage i p) i) = m_eventQue (stg p i) \<and> \<not> m_supplemented (stg (initializeStage i p) i) \<and>
   the_args (initializeStage i p) = the_args p"
  by (simp add: initializeStage_def stg_upd_stg)

lemma forget_run:
  assumes r: "ready fu i p" and d: "idle i p" and f1: "frame i (engaged i p) p1"
    and q: "m_eventQue (stg p1 i) = [] \<or> m_eventQue (stg p1 i) = [expired_ev on]"
    and out: "\<And>x. output_at (the_args p1) x = output_at (the_args p) x"
    and proc: "Fsm_processEvent fu (generateEvent fu) i Fsm_evOffModeRequest (engaged i p) =
      Some (True, upd_stg i (\<lambda>s. s\<lparr>stateVars := sv\<rparr>) (initializeStage i p1))" and sv: "stateVar sv = Off"
  shows "\<exists>p'. generateEvent fu i Fsm_evOffModeRequest p = Some p' \<and> frame i p p' \<and> forgotten i p' \<and>
    (\<forall>x. output_at (the_args p') x = output_at (the_args p) x)"
proof -
  have i: "i < length (the_stages p)" using r by (simp add: ready_def)
  note b = engaged_parts [OF i]
  have i1: "i < length (the_stages p1)" using frameD(1) [OF f1] i by (simp add: b)
  define p2 where "p2 = initializeStage i p1"
  have f2: "frame i p1 p2" unfolding p2_def by (rule initialize_frame [OF i1])
  then have i2: "i < length (the_stages p2)" using frameD(1) [OF f2] i1 by simp
  define p3 where "p3 = upd_stg i (\<lambda>s. s\<lparr>stateVars := sv\<rparr>) p2"
  have f3: "frame i p2 p3" unfolding p3_def by (rule frame_upd_stg [OF _ i2]) (simp add: static_def)
  have f03: "frame i (engaged i p) p3" using frame_trans [OF f1 frame_trans [OF f2 f3]] .
  have r3: "ready fu i p3" using ready_frame [OF frame_trans [OF frame_busy(1) [OF i] f03]] r by simp
  have s3: "stg p3 i = (stg p2 i)\<lparr>stateVars := sv\<rparr>" "the_args p3 = the_args p1"
    using i2 initialize_stage_at [OF i1] by (simp_all add: p3_def stg_upd_stg p2_def)
  have q3: "m_eventQue (stg p3 i) = m_eventQue (stg p1 i)" "\<not> m_supplemented (stg p3 i)"
    using initialize_stage_at [OF i1] s3 by (simp_all add: p2_def)
  define p4 where "p4 = upd_stg i (\<lambda>s. s\<lparr>m_eventQue := []\<rparr>) p3"
  have i3: "i < length (the_stages p3)" using r3 by (simp add: ready_def)
  then have i4: "i < length (the_stages p4)" by (simp add: p4_def)
  have run: "Fsm_run fu (Inr i) p3 = Some p4" using drain_left_over [OF r3, of on] q q3(1) sv by (simp add: s3 p4_def)
  have gen: "generateEvent fu i Fsm_evOffModeRequest p = Some (release i p4)"
    by (rule generate_idle [OF i d proc [folded p2_def, folded p3_def] run])
  have f34: "frame i p3 p4" unfolding p4_def by (rule frame_upd_stg [OF _ i3]) (simp add: static_def)
  have "frame i p (release i p4)" by (rule frame_release [OF i frame_trans [OF f03 f34]])
  moreover have "stg (release i p4) i = (stg p3 i)\<lparr>m_eventQue := [], m_processingFsmEvent := False\<rparr>" "the_args (release i p4) = the_args p1"
    unfolding engaged_parts [OF i4] using i3 s3 by (simp_all add: p4_def stg_upd_stg)
  ultimately show ?thesis using gen sv s3 q3(2) out by (simp add: forgotten_def idle_def)
qed

lemma off_mode:
  assumes r: "ready fu i p" and d: "idle i p"
    and s: "stateVar (stateVars (stg p i)) = SupplementingNextStage \<or> m_args (stg p i) = Some (args_at p) \<and> in_half on True (stateVars (stg p i))"
  shows "\<exists>p'. generateEvent fu i Fsm_evOffModeRequest p = Some p' \<and> frame i p p' \<and> forgotten i p' \<and>
    (\<forall>x. output_at (the_args p') x = output_at (the_args p) x)"
proof -
  let ?p = "engaged i p"
  have i: "i < length (the_stages p)" "m_initialized (stg p i)" using r by (simp_all add: ready_def)
  note b = engaged_parts [OF i(1)]
  show ?thesis
  proof (cases "stateVar (stateVars (stg p i)) = SupplementingNextStage")
    case True
    then have "Fsm_processEvent fu (generateEvent fu) i Fsm_evOffModeRequest ?p =
        Some (True, upd_stg i (\<lambda>s. s\<lparr>stateVars := (stateVars (stg p i))\<lparr>stateVar := Off\<rparr>\<rparr>) (initializeStage i ?p))"
      using i by (simp add: Fsm_processEvent_def Fsm_Supplementing_def b Let_def)
    then show ?thesis using d by (intro forget_run [OF r d frame_refl]) (auto simp: b idle_def)
  next
    case False
    then have w: "at_work fu i ?p" using at_work_busy [OF r] s by simp
    have q: "m_eventQue (stg ?p i) = []" "in_half on True (stateVars (stg ?p i))" using d s False by (simp_all add: b idle_def)
    obtain p1 es where p1: "kept i ?p p1" "stg p1 i = (stg ?p i)\<lparr>m_eventQue := es\<rparr>" "es = [] \<or> es = [expired_ev on]"
      "\<And>x. output_at (the_args p1) x = output_at (the_args ?p) x"
      "\<And>msg. msg \<notin> {expired_ev on, starting_ev on} \<Longrightarrow>
        Fsm_Cycling fu (generateEvent fu) i msg (stateVars (stg ?p i)) ?p = Fsm_leave fu i msg (stateVars (stg ?p i)) p1"
      using checked_in_main [OF w q(2,1), of thesis] by blast
    have "Fsm_processEvent fu (generateEvent fu) i Fsm_evOffModeRequest ?p =
        Some (True, upd_stg i (\<lambda>s. s\<lparr>stateVars := (stateVars (stg ?p i))\<lparr>stateVar := Off\<rparr>\<rparr>) (initializeStage i p1))"
      using i q(2) p1(5) [of Fsm_evOffModeRequest]
      by (simp add: Fsm_processEvent_def Fsm_Active_def Fsm_leave_def in_half_def half_defs b Let_def)
    then show ?thesis using p1 by (intro forget_run [OF r d, of p1 on]) (auto simp: b kept_def)
  qed
qed

end
