(* ===== verification/Thermostat.thy ===== *)
theory Thermostat
  imports Stage_Runs
begin

text \<open>
  The control logic of the thermostat over the stages: indoor heating with up to three stages
  (\<^verbatim>\<open>src/src/Storm/Component/Equipment/IndoorHeating.cpp\<close>), cooling (\<^verbatim>\<open>Cooling.cpp\<close>), off (\<^verbatim>\<open>Off.cpp\<close>) and
  the component that calls them (\<^verbatim>\<open>src/src/Storm/Component/Control.cpp\<close>).  The values that \<^verbatim>\<open>Control\<close> reads from
  its model points are an input record, what it writes is the result.
\<close>

section \<open>\<^verbatim>\<open>IndoorHeating.cpp\<close>\<close>

definition TURN_ON_THRESHOLD :: rat where "TURN_ON_THRESHOLD = 5"
definition TURN_OFF_THRESHOLD :: rat where "TURN_OFF_THRESHOLD = 0"
definition TURN_ON_2ND_STAGE_THRESHOLD :: rat where "TURN_ON_2ND_STAGE_THRESHOLD = 115"
definition TURN_OFF_2ND_STAGE_THRESHOLD :: rat where "TURN_OFF_2ND_STAGE_THRESHOLD = 100"
definition TURN_ON_3RD_STAGE_THRESHOLD :: rat where "TURN_ON_3RD_STAGE_THRESHOLD = 215"
definition TURN_OFF_3RD_STAGE_THRESHOLD :: rat where "TURN_OFF_3RD_STAGE_THRESHOLD = 200"
definition MIN_INDOOR_HEATER_OFF_TIME_SEC :: u32 where "MIN_INDOOR_HEATER_OFF_TIME_SEC = 180"
definition MIN_COMPRESSOR_OFF_TIME_SEC :: u32 where "MIN_COMPRESSOR_OFF_TIME_SEC = 300"

text \<open>The minimum off time of the indoor unit is met, or is defeated.\<close>

definition indoor_off_time_met :: "args \<Rightarrow> bool" where
  "indoor_off_time_met a \<longleftrightarrow>
     expiredPrecision (indoorUnitBeginOffTime a) \<lparr>m_seconds = MIN_INDOOR_HEATER_OFF_TIME_SEC, m_thousandths = 0\<rparr> (currentInterval a) \<or>
     defeatEquipMinOffTime a"

text \<open>The request to turn off stage \<open>s\<close>, at position \<open>n\<close> of the configuration, when it is in an off cycle or met its minimum on time.\<close>

definition request_off_when_met :: "float_unit \<Rightarrow> nat \<Rightarrow> nat \<Rightarrow> plant \<Rightarrow> plant option" where
  "request_off_when_met fu s n p = do {
     c_assert (n < length (cfg_stages (systemConfig (the_args p))));
     let minOn = \<lparr>m_seconds = minOnTime (cfg_stages (systemConfig (the_args p)) ! n), m_thousandths = 0\<rparr>;
     if isInOffCycle (stg p s) \<or> expiredPrecision (beginOnTime (cycleInfo (the_args p))) minOn (currentInterval (the_args p))
     then Basic_requestOff fu s True p
     else Some p
   }"

definition IndoorHeating_singleStage :: "float_unit \<Rightarrow> nat \<Rightarrow> plant \<Rightarrow> (bool \<times> plant) option" where
  "IndoorHeating_singleStage fu s1 p =
     (if \<not> systemOn (the_args p) \<and> pvOut (the_args p) > TURN_ON_THRESHOLD then do {
        p \<leftarrow> (if indoor_off_time_met (the_args p) then Basic_requestOn fu s1 True p else Some p);
        Some (True, p)
      }
      else if isInActive (stg p s1) \<and> pvOut (the_args p) \<le> TURN_OFF_THRESHOLD then do {
        p \<leftarrow> request_off_when_met fu s1 0 p;
        Some (True, p)
      }
      else Some (False, p))"

text \<open>The request to bring in the next stage from stage \<open>s\<close>, in an on cycle or after the minimum off time.\<close>

definition request_next_when_met :: "float_unit \<Rightarrow> nat \<Rightarrow> nat \<Rightarrow> plant \<Rightarrow> plant option" where
  "request_next_when_met fu s nxt p =
     (if isInOnCycle (stg p s) \<or> isInOffCycle (stg p s) \<and> indoor_off_time_met (the_args p)
      then Basic_requestAsSupplement fu s nxt True p
      else Some p)"

definition request_two_stages :: "float_unit \<Rightarrow> nat \<Rightarrow> nat \<Rightarrow> plant \<Rightarrow> plant option" where
  "request_two_stages fu s1 s2 p =
     (if indoor_off_time_met (the_args p) then do {
        p \<leftarrow> Basic_requestOn fu s1 True p;
        Basic_requestAsSupplement fu s1 s2 True p
      } else Some p)"

definition IndoorHeating_secondStage :: "float_unit \<Rightarrow> nat \<Rightarrow> nat \<Rightarrow> plant \<Rightarrow> (bool \<times> plant) option" where
  "IndoorHeating_secondStage fu s1 s2 p =
     (if \<not> systemOn (the_args p) \<and> pvOut (the_args p) > TURN_ON_2ND_STAGE_THRESHOLD then do {
        p \<leftarrow> request_two_stages fu s1 s2 p;
        Some (True, p)
      }
      else if isInActive (stg p s1) \<and> pvOut (the_args p) > TURN_ON_2ND_STAGE_THRESHOLD then do {
        p \<leftarrow> request_next_when_met fu s1 s2 p;
        Some (True, p)
      }
      else if isInActive (stg p s2) \<and> pvOut (the_args p) \<le> TURN_OFF_2ND_STAGE_THRESHOLD then do {
        p \<leftarrow> request_off_when_met fu s2 1 p;
        Some (True, p)
      }
      else Some (False, p))"

definition IndoorHeating_thirdStage :: "float_unit \<Rightarrow> nat \<Rightarrow> nat \<Rightarrow> nat \<Rightarrow> plant \<Rightarrow> (bool \<times> plant) option" where
  "IndoorHeating_thirdStage fu s1 s2 s3 p =
     (if \<not> systemOn (the_args p) \<and> pvOut (the_args p) > TURN_ON_3RD_STAGE_THRESHOLD then do {
        p \<leftarrow> request_two_stages fu s1 s2 p;
        Some (True, p)
      }
      else if isInActive (stg p s1) \<and> pvOut (the_args p) > TURN_ON_3RD_STAGE_THRESHOLD then do {
        p \<leftarrow> request_next_when_met fu s1 s2 p;
        Some (True, p)
      }
      else if isInActive (stg p s2) \<and> pvOut (the_args p) > TURN_ON_3RD_STAGE_THRESHOLD then do {
        p \<leftarrow> request_next_when_met fu s2 s3 p;
        Some (True, p)
      }
      else if isInActive (stg p s3) \<and> pvOut (the_args p) \<le> TURN_OFF_3RD_STAGE_THRESHOLD then do {
        p \<leftarrow> request_off_when_met fu s3 2 p;
        Some (True, p)
      }
      else Some (False, p))"

definition IndoorHeating_executeActive :: "float_unit \<Rightarrow> nat \<Rightarrow> nat \<Rightarrow> nat \<Rightarrow> plant \<Rightarrow> (bool \<times> plant) option" where
  "IndoorHeating_executeActive fu s1 s2 s3 p =
     (if numIndoorStages (systemConfig (the_args p)) = 1 then do {
        (_, p) \<leftarrow> IndoorHeating_singleStage fu s1 p;
        p \<leftarrow> Basic_execute fu s1 p;
        Some (True, p)
      }
      else if numIndoorStages (systemConfig (the_args p)) = 2 then do {
        (tripped, p) \<leftarrow> IndoorHeating_secondStage fu s1 s2 p;
        (_, p) \<leftarrow> (if \<not> tripped then IndoorHeating_singleStage fu s1 p else Some (True, p));
        p \<leftarrow> Basic_execute fu s1 p;
        p \<leftarrow> Basic_execute fu s2 p;
        Some (True, p)
      }
      else if numIndoorStages (systemConfig (the_args p)) = 3 then do {
        (tripped, p) \<leftarrow> IndoorHeating_thirdStage fu s1 s2 s3 p;
        (tripped, p) \<leftarrow> (if \<not> tripped then IndoorHeating_secondStage fu s1 s2 p else Some (True, p));
        (_, p) \<leftarrow> (if \<not> tripped then IndoorHeating_singleStage fu s1 p else Some (True, p));
        p \<leftarrow> Basic_execute fu s1 p;
        p \<leftarrow> Basic_execute fu s2 p;
        p \<leftarrow> Basic_execute fu s3 p;
        Some (True, p)
      }
      else Some (False, p))"

definition IndoorHeating_executeOff :: "float_unit \<Rightarrow> nat \<Rightarrow> nat \<Rightarrow> nat \<Rightarrow> plant \<Rightarrow> (bool \<times> plant) option" where
  "IndoorHeating_executeOff fu s1 s2 s3 p = do {
     p \<leftarrow> Basic_requestModeToOff fu s1 p;
     p \<leftarrow> Basic_requestModeToOff fu s2 p;
     p \<leftarrow> Basic_requestModeToOff fu s3 p;
     Some (True, p)
   }"

definition IndoorHeating_reset :: "float_unit \<Rightarrow> nat \<Rightarrow> nat \<Rightarrow> nat \<Rightarrow> plant \<Rightarrow> plant option" where
  "IndoorHeating_reset fu s1 s2 s3 p = do {
     let p = Basic_reconfigure s3 2 2 (Basic_reconfigure s2 1 1 (Basic_reconfigure s1 0 0 p));
     p \<leftarrow> Basic_requestModeToOff fu s1 p;
     p \<leftarrow> Basic_requestModeToOff fu s2 p;
     Basic_requestModeToOff fu s3 p
   }"

section \<open>\<^verbatim>\<open>Cooling.cpp\<close> and \<^verbatim>\<open>Off.cpp\<close>\<close>

definition COOLING_TURN_ON_THRESHOLD :: rat where "COOLING_TURN_ON_THRESHOLD = 5"
definition COOLING_TURN_OFF_THRESHOLD :: rat where "COOLING_TURN_OFF_THRESHOLD = 0"

definition Cooling_singleStage :: "float_unit \<Rightarrow> nat \<Rightarrow> plant \<Rightarrow> (bool \<times> plant) option" where
  "Cooling_singleStage fu s1 p =
     (if \<not> systemOn (the_args p) \<and> pvOut (the_args p) > COOLING_TURN_ON_THRESHOLD then do {
        p \<leftarrow> (if expiredPrecision (outdoorUnitBeginOffTime (the_args p)) \<lparr>m_seconds = MIN_COMPRESSOR_OFF_TIME_SEC, m_thousandths = 0\<rparr>
                   (currentInterval (the_args p)) \<or> defeatEquipMinOffTime (the_args p)
              then Basic_requestOn fu s1 True p else Some p);
        Some (True, p)
      }
      else if isInActive (stg p s1) \<and> pvOut (the_args p) \<le> COOLING_TURN_OFF_THRESHOLD then do {
        p \<leftarrow> request_off_when_met fu s1 0 p;
        Some (True, p)
      }
      else Some (False, p))"

definition Cooling_executeActive :: "float_unit \<Rightarrow> nat \<Rightarrow> plant \<Rightarrow> (bool \<times> plant) option" where
  "Cooling_executeActive fu s1 p =
     (if numCompressorStages (systemConfig (the_args p)) = 1 then do {
        (_, p) \<leftarrow> Cooling_singleStage fu s1 p;
        p \<leftarrow> Basic_execute fu s1 p;
        Some (True, p)
      }
      else Some (False, p))"

definition Cooling_reset :: "float_unit \<Rightarrow> nat \<Rightarrow> plant \<Rightarrow> plant option" where
  "Cooling_reset fu s1 p = Basic_requestModeToOff fu s1 (Basic_reconfigure s1 0 0 p)"

definition setCapacityOff :: "virtual_outputs \<Rightarrow> virtual_outputs" where
  "setCapacityOff v = v\<lparr>indoorFan := 0, indoorStages := map (\<lambda>_. 0) (indoorStages v), outdoorFan := 0, outdoorStages := map (\<lambda>_. 0) (outdoorStages v)\<rparr>"

definition setSafeAllOff :: "virtual_outputs \<Rightarrow> virtual_outputs" where
  "setSafeAllOff v = (setCapacityOff v)\<lparr>indoorFanCont := 0\<rparr>"

definition Off_executeActive :: "plant \<Rightarrow> (bool \<times> plant) option" where
  "Off_executeActive p =
     (let p = upd_outputs setCapacityOff p;
          p = (if systemOn (the_args p) then upd_cycle (\<lambda>ci. ci\<lparr>beginOffTime := currentInterval (the_args p)\<rparr>) p else p)
      in Some (True, upd_args (\<lambda>a. a\<lparr>systemOn := False\<rparr>) (upd_cycle (\<lambda>ci. ci\<lparr>ci_mode := eOFF\<rparr>) p)))"

section \<open>\<^verbatim>\<open>Control.cpp\<close>\<close>

text \<open>The equipment a control component works with, by the positions of its stages.\<close>

datatype equipment = IndoorHeating nat nat nat | Cooling nat | EquipmentOff

definition getOperatingMode :: "equipment \<Rightarrow> operating_mode" where
  "getOperatingMode eq = (case eq of IndoorHeating _ _ _ \<Rightarrow> OM_eID_HEATING | Cooling _ \<Rightarrow> OM_eCOOLING | EquipmentOff \<Rightarrow> OM_eOFF)"

definition executeActive :: "float_unit \<Rightarrow> equipment \<Rightarrow> plant \<Rightarrow> (bool \<times> plant) option" where
  "executeActive fu eq p = (case eq of IndoorHeating s1 s2 s3 \<Rightarrow> IndoorHeating_executeActive fu s1 s2 s3 p
     | Cooling s1 \<Rightarrow> Cooling_executeActive fu s1 p | EquipmentOff \<Rightarrow> Off_executeActive p)"

definition executeOff :: "float_unit \<Rightarrow> equipment \<Rightarrow> plant \<Rightarrow> (bool \<times> plant) option" where
  "executeOff fu eq p = (case eq of IndoorHeating s1 s2 s3 \<Rightarrow> IndoorHeating_executeOff fu s1 s2 s3 p
     | Cooling s1 \<Rightarrow> do { p \<leftarrow> Basic_requestModeToOff fu s1 p; Some (True, p) } | EquipmentOff \<Rightarrow> Some (True, p))"

definition equipment_reset :: "float_unit \<Rightarrow> equipment \<Rightarrow> plant \<Rightarrow> plant option" where
  "equipment_reset fu eq p = (case eq of IndoorHeating s1 s2 s3 \<Rightarrow> IndoorHeating_reset fu s1 s2 s3 p
     | Cooling s1 \<Rightarrow> Cooling_reset fu s1 p | EquipmentOff \<Rightarrow> Some p)"

record control =
  m_equipment :: equipment
  m_sysCfgSequenceNumber :: u16
  ctl_stages :: "stage list"

text \<open>What the component reads: whether all model points are valid, their values in a new \<^verbatim>\<open>Args_T\<close> and its address, the sequence number.\<close>

record control_in =
  in_valid :: bool
  in_args :: args
  in_args_at :: addr
  in_sequence :: u16
  in_operatingModeChanged :: bool

datatype control_out = Nothing_written | Safe_all_off virtual_outputs | Written virtual_outputs cycle_info bool

definition Control_execute :: "float_unit \<Rightarrow> precision \<Rightarrow> control_in \<Rightarrow> control \<Rightarrow> (bool \<times> control_out \<times> control) option" where
  "Control_execute fu interval inp c =
     (if \<not> in_valid inp then Some (True, Nothing_written, c)
      else let p = \<lparr>the_stages = ctl_stages c, args_at = in_args_at inp, the_args = (in_args inp)\<lparr>currentInterval := interval\<rparr>\<rparr>
           in if currentOpMode (systemConfig (the_args p)) = getOperatingMode (m_equipment c) then do {
                (c, p) \<leftarrow>
                  (if in_sequence inp \<noteq> m_sysCfgSequenceNumber c \<or> in_operatingModeChanged inp then do {
                     let p = upd_outputs setCapacityOff (upd_cycle (\<lambda>ci. ci\<lparr>ci_mode := eOFF\<rparr>) (upd_args (\<lambda>a. a\<lparr>systemOn := False\<rparr>) p));
                     p \<leftarrow> equipment_reset fu (m_equipment c) p;
                     Some (c\<lparr>m_sysCfgSequenceNumber := in_sequence inp\<rparr>, p)
                   } else Some (c, p));
                (ok, p) \<leftarrow> executeActive fu (m_equipment c) p;
                if \<not> ok then Some (False, Safe_all_off (setSafeAllOff (vOutputs (in_args inp))), c\<lparr>ctl_stages := the_stages p\<rparr>)
                else Some (True, Written (vOutputs (the_args p)) (cycleInfo (the_args p)) (systemOn (the_args p)), c\<lparr>ctl_stages := the_stages p\<rparr>)
              }
              else do {
                (ok, p) \<leftarrow> executeOff fu (m_equipment c) p;
                Some (ok, Nothing_written, c\<lparr>ctl_stages := the_stages p\<rparr>)
              })"

end
