(* ===== verification/Control_Runs.thy ===== *)
theory Control_Runs
  imports Thermostat
begin

text \<open>
  The runs of a control component (\<^verbatim>\<open>src/src/Storm/Component/Control.cpp\<close>) over any equipment logic.  The locale states
  what \<^verbatim>\<open>Control::execute\<close> needs of \<open>reset\<close>, \<open>executeActive\<close> and \<open>executeOff\<close>; from it follows that every run returns
  with success, that it keeps the state of the equipment fit for the next run, and what it writes.  The indoor heating and
  the cooling are its instances.
\<close>

section \<open>States and inputs of a run\<close>

definition plant_of :: "control \<Rightarrow> addr \<Rightarrow> args \<Rightarrow> plant" where
  "plant_of c a ar = \<lparr>the_stages = ctl_stages c, args_at = a, the_args = ar\<rparr>"

text \<open>The configuration changed, or the operating mode: the equipment is reset.\<close>

definition to_reset :: "control \<Rightarrow> control_in \<Rightarrow> bool" where
  "to_reset c inp \<longleftrightarrow> in_sequence inp \<noteq> m_sysCfgSequenceNumber c \<or> in_operatingModeChanged inp"

text \<open>
  The state of a control between its runs: its stages are at rest, and after a run in its own mode they go with
  the outputs that run has written.
\<close>

definition control_fit :: "equipment \<Rightarrow> (plant \<Rightarrow> bool) \<Rightarrow> (plant \<Rightarrow> bool) \<Rightarrow> (virtual_outputs \<Rightarrow> u16 list) \<Rightarrow>
    addr \<Rightarrow> control \<Rightarrow> virtual_outputs \<Rightarrow> bool \<Rightarrow> bool" where
  "control_fit eq rest runs own a c v synced \<longleftrightarrow> m_equipment c = eq \<and> (\<forall>ar. rest (plant_of c a ar)) \<and>
     (synced \<longrightarrow> (\<forall>ar. own (vOutputs ar) = own v \<longrightarrow> runs (plant_of c a ar)))"

text \<open>
  The inputs of a run: a valid configuration; in the mode of the equipment also a number of stages it can run, and the outputs
  of the last run or a reset.
\<close>

definition input_fit :: "equipment \<Rightarrow> (args \<Rightarrow> bool) \<Rightarrow> (system_config \<Rightarrow> bool) \<Rightarrow> (virtual_outputs \<Rightarrow> u16 list) \<Rightarrow> nat \<Rightarrow>
    addr \<Rightarrow> control \<Rightarrow> virtual_outputs \<Rightarrow> bool \<Rightarrow> control_in \<Rightarrow> bool" where
  "input_fit eq cfg act own n a c v synced inp \<longleftrightarrow> in_args_at inp = a \<and>
     (in_valid inp \<longrightarrow> cfg (in_args inp) \<and> length (own (vOutputs (in_args inp))) = n \<and>
        (currentOpMode (systemConfig (in_args inp)) = getOperatingMode eq \<longrightarrow> act (systemConfig (in_args inp)) \<and>
           (if synced then own (vOutputs (in_args inp)) = own v else to_reset c inp)))"

definition outputs_after :: "control_out \<Rightarrow> virtual_outputs \<Rightarrow> virtual_outputs" where
  "outputs_after out v = (case out of Nothing_written \<Rightarrow> v | Safe_all_off w \<Rightarrow> w | Written w _ _ \<Rightarrow> w)"

definition synced_after :: "equipment \<Rightarrow> control_in \<Rightarrow> bool \<Rightarrow> bool" where
  "synced_after eq inp synced = (if in_valid inp then currentOpMode (systemConfig (in_args inp)) = getOperatingMode eq else synced)"

text \<open>What a run writes: its own outputs on or off, and the others as they were, or off after a reset.\<close>

definition out_fit :: "equipment \<Rightarrow> (virtual_outputs \<Rightarrow> u16 list) \<Rightarrow> (virtual_outputs \<Rightarrow> u16 list) \<Rightarrow> nat \<Rightarrow> control \<Rightarrow> control_in \<Rightarrow> control_out \<Rightarrow> bool" where
  "out_fit eq own other n c inp out \<longleftrightarrow>
     (if in_valid inp \<and> currentOpMode (systemConfig (in_args inp)) = getOperatingMode eq
      then \<exists>w ci on. out = Written w ci on \<and> length (own w) = n \<and> set (own w) \<subseteq> {VIRTUAL_OUTPUTS_OFF, VIRTUAL_OUTPUTS_ON} \<and>
        other w = (let w = other (vOutputs (in_args inp)) in if to_reset c inp then map (\<lambda>_. 0) w else w)
      else out = Nothing_written)"

section \<open>Equipment logics\<close>

locale equipment_logic =
  fixes eq :: equipment and rest runs :: "plant \<Rightarrow> bool" and own other :: "virtual_outputs \<Rightarrow> u16 list"
    and n :: nat and cfg :: "args \<Rightarrow> bool" and act :: "system_config \<Rightarrow> bool" and fu :: float_unit
  assumes runs_rest: "runs p \<Longrightarrow> rest p"
    and rest_args: "rest p \<Longrightarrow> rest (p\<lparr>the_args := ar\<rparr>)"
    and runs_args: "runs p \<Longrightarrow> own (vOutputs ar) = own (vOutputs (the_args p)) \<Longrightarrow> runs (p\<lparr>the_args := ar\<rparr>)"
    and runs_own: "runs p \<Longrightarrow> length (own (vOutputs (the_args p))) = n \<and> set (own (vOutputs (the_args p))) \<subseteq> {VIRTUAL_OUTPUTS_OFF, VIRTUAL_OUTPUTS_ON}"
    and own_off: "own (setCapacityOff v) = map (\<lambda>_. 0) (own v)"
    and other_off: "other (setCapacityOff v) = map (\<lambda>_. 0) (other v)"
    and cfg_inputs: "inputs a = inputs b \<Longrightarrow> cfg a \<Longrightarrow> cfg b"
    and cfg_now: "cfg a \<Longrightarrow> cfg (a\<lparr>currentInterval := t\<rparr>)"
    and reset_ok: "rest p \<Longrightarrow> cfg (the_args p) \<Longrightarrow> length (own (vOutputs (the_args p))) = n \<Longrightarrow> set (own (vOutputs (the_args p))) \<subseteq> {VIRTUAL_OUTPUTS_OFF} \<Longrightarrow>
      \<exists>p'. equipment_reset fu eq p = Some p' \<and> runs p' \<and> inputs (the_args p') = inputs (the_args p) \<and> args_at p' = args_at p \<and>
        other (vOutputs (the_args p')) = other (vOutputs (the_args p))"
    and active_ok: "runs p \<Longrightarrow> cfg (the_args p) \<Longrightarrow> act (systemConfig (the_args p)) \<Longrightarrow>
      \<exists>p'. executeActive fu eq p = Some (True, p') \<and> runs p' \<and> args_at p' = args_at p \<and> other (vOutputs (the_args p')) = other (vOutputs (the_args p))"
    and off_ok: "rest p \<Longrightarrow> cfg (the_args p) \<Longrightarrow> length (own (vOutputs (the_args p))) = n \<Longrightarrow>
      \<exists>p'. executeOff fu eq p = Some (True, p') \<and> rest p' \<and> args_at p' = args_at p"
begin

lemma fit_of_runs:
  assumes "runs p" and "args_at p = a" and "m_equipment c = eq"
  shows "control_fit eq rest runs own a (c\<lparr>ctl_stages := the_stages p\<rparr>) (vOutputs (the_args p)) True"
proof -
  have "plant_of (c\<lparr>ctl_stages := the_stages p\<rparr>) a ar = p\<lparr>the_args := ar\<rparr>" for ar using assms(2) by (simp add: plant_of_def)
  then show ?thesis using assms runs_args rest_args [OF runs_rest [OF assms(1)]] by (simp add: control_fit_def)
qed

text \<open>The equipment is brought into its state of use, by a reset or by the run before.\<close>

lemma prepared:
  assumes inv: "control_fit eq rest runs own a c v synced" and inp: "input_fit eq cfg act own n a c v synced inp"
    and valid: "in_valid inp" and mode: "currentOpMode (systemConfig (in_args inp)) = getOperatingMode eq"
    and p: "p = plant_of c a ((in_args inp)\<lparr>currentInterval := t\<rparr>)"
  shows "\<exists>c1 p1. (if to_reset c inp then do {
       let p = upd_outputs setCapacityOff (upd_cycle (\<lambda>ci. ci\<lparr>ci_mode := eOFF\<rparr>) (upd_args (\<lambda>a. a\<lparr>systemOn := False\<rparr>) p));
       p \<leftarrow> equipment_reset fu (m_equipment c) p;
       Some (c\<lparr>m_sysCfgSequenceNumber := in_sequence inp\<rparr>, p)
     } else Some (c, p)) = Some (c1, p1) \<and> runs p1 \<and> cfg (the_args p1) \<and> act (systemConfig (the_args p1)) \<and> args_at p1 = a \<and> m_equipment c1 = eq \<and>
     other (vOutputs (the_args p1)) = (let w = other (vOutputs (in_args inp)) in if to_reset c inp then map (\<lambda>_. 0) w else w)"
proof (cases "to_reset c inp")
  case True
  define q where "q = upd_outputs setCapacityOff (upd_cycle (\<lambda>ci. ci\<lparr>ci_mode := eOFF\<rparr>) (upd_args (\<lambda>a. a\<lparr>systemOn := False\<rparr>) p))"
  have q: "inputs (the_args q) = inputs (the_args p)" "args_at q = a" "vOutputs (the_args q) = setCapacityOff (vOutputs (in_args inp))"
    by (simp_all add: q_def p plant_of_def inputs_def upd_args_def)
  have "q = plant_of c a (the_args q)" by (simp add: q_def p plant_of_def upd_outputs_def upd_cycle_def upd_args_def)
  then have "rest q" using inv by (metis control_fit_def)
  moreover have "cfg (the_args p)" using inp valid cfg_now by (simp add: input_fit_def p plant_of_def)
  then have c: "cfg (the_args q)" using cfg_inputs q(1) by metis
  moreover have "length (own (vOutputs (the_args q))) = n" "set (own (vOutputs (the_args q))) \<subseteq> {VIRTUAL_OUTPUTS_OFF}"
    using inp valid by (auto simp: q(3) own_off input_fit_def VIRTUAL_OUTPUTS_OFF_def)
  ultimately obtain p' where p': "equipment_reset fu eq q = Some p'" "runs p'" "inputs (the_args p') = inputs (the_args q)" "args_at p' = args_at q"
    "other (vOutputs (the_args p')) = other (vOutputs (the_args q))" using reset_ok by blast
  have "systemConfig (the_args p') = systemConfig (in_args inp)" using p'(3) q(1) by (simp add: inputs_def p plant_of_def)
  moreover have "cfg (the_args p')" using cfg_inputs [OF p'(3) [symmetric] c] .
  ultimately show ?thesis
    using True p' q inp valid mode inv by (auto simp: q_def [symmetric] other_off input_fit_def control_fit_def Let_def)
next
  case False
  then have "synced" "own (vOutputs (in_args inp)) = own v" using inp valid mode by (auto simp: input_fit_def split: if_splits)
  then have "runs p" using inv by (simp add: control_fit_def p)
  then show ?thesis using False inv inp valid mode cfg_now by (simp add: control_fit_def input_fit_def p plant_of_def)
qed

lemma step:
  assumes inv: "control_fit eq rest runs own a c v synced" and inp: "input_fit eq cfg act own n a c v synced inp"
  shows "\<exists>out c'. Control_execute fu t inp c = Some (True, out, c') \<and>
    control_fit eq rest runs own a c' (outputs_after out v) (synced_after eq inp synced) \<and> out_fit eq own other n c inp out"
proof (cases "in_valid inp")
  case False
  then show ?thesis using inv by (simp add: Control_execute_def outputs_after_def synced_after_def out_fit_def)
next
  case valid: True
  define p where "p = plant_of c a ((in_args inp)\<lparr>currentInterval := t\<rparr>)"
  have p_eq: "\<lparr>the_stages = ctl_stages c, args_at = in_args_at inp, the_args = (in_args inp)\<lparr>currentInterval := t\<rparr>\<rparr> = p"
    using inp by (simp add: p_def plant_of_def input_fit_def)
  have eq: "m_equipment c = eq" and rp: "rest p" using inv by (simp_all add: control_fit_def p_def)
  have pm: "currentOpMode (systemConfig (the_args p)) = currentOpMode (systemConfig (in_args inp))" by (simp add: p_def plant_of_def)
  note exec = Control_execute_def [of fu t inp c, unfolded Let_def p_eq, folded to_reset_def]
  show ?thesis
  proof (cases "currentOpMode (systemConfig (in_args inp)) = getOperatingMode eq")
    case mode: True
    obtain c1 p1 where p1: "(if to_reset c inp then do {
       let p = upd_outputs setCapacityOff (upd_cycle (\<lambda>ci. ci\<lparr>ci_mode := eOFF\<rparr>) (upd_args (\<lambda>a. a\<lparr>systemOn := False\<rparr>) p));
       p \<leftarrow> equipment_reset fu (m_equipment c) p;
       Some (c\<lparr>m_sysCfgSequenceNumber := in_sequence inp\<rparr>, p)
     } else Some (c, p)) = Some (c1, p1)" "runs p1" "cfg (the_args p1)" "act (systemConfig (the_args p1))" "args_at p1 = a" "m_equipment c1 = eq"
     "other (vOutputs (the_args p1)) = (let w = other (vOutputs (in_args inp)) in if to_reset c inp then map (\<lambda>_. 0) w else w)"
      using prepared [OF inv inp valid mode p_def] by blast
    obtain p2 where p2: "executeActive fu eq p1 = Some (True, p2)" "runs p2" "args_at p2 = args_at p1"
      "other (vOutputs (the_args p2)) = other (vOutputs (the_args p1))" using active_ok [OF p1(2-4)] by blast
    have "Control_execute fu t inp c =
        Some (True, Written (vOutputs (the_args p2)) (cycleInfo (the_args p2)) (systemOn (the_args p2)), c1\<lparr>ctl_stages := the_stages p2\<rparr>)"
      unfolding exec using valid mode eq pm p1(1,6) p2(1) by (cases "to_reset c inp") (auto simp: Let_def bind_eq_Some_conv)
    moreover have "control_fit eq rest runs own a (c1\<lparr>ctl_stages := the_stages p2\<rparr>) (vOutputs (the_args p2)) True"
      using fit_of_runs [OF p2(2)] p2(3) p1(5,6) by simp
    ultimately show ?thesis
      using valid mode runs_own [OF p2(2)] p1(7) p2(4) by (simp add: outputs_after_def synced_after_def out_fit_def)
  next
    case mode: False
    have "cfg (the_args p)" "length (own (vOutputs (the_args p))) = n" using inp valid cfg_now by (simp_all add: input_fit_def p_def plant_of_def)
    then obtain p' where p': "executeOff fu eq p = Some (True, p')" "rest p'" "args_at p' = args_at p" using off_ok [OF rp] by blast
    have "Control_execute fu t inp c = Some (True, Nothing_written, c\<lparr>ctl_stages := the_stages p'\<rparr>)"
      unfolding exec using valid mode eq pm p'(1) by simp
    moreover have "plant_of (c\<lparr>ctl_stages := the_stages p'\<rparr>) a ar = p'\<lparr>the_args := ar\<rparr>" for ar
      using p'(3) by (simp add: plant_of_def p_def)
    ultimately show ?thesis
      using valid mode eq rest_args [OF p'(2)] by (simp add: outputs_after_def synced_after_def out_fit_def control_fit_def)
  qed
qed

end

end
