(* ===== verification/Thermostat_Inv.thy ===== *)
theory Thermostat_Inv
  imports Control_Runs
begin

text \<open>
  The invariant of the indoor heating: with \<open>n\<close> stages in use, the stages below the last one supplement it, the last one
  cycles, the others are off, and the outputs say the same.  Every request and every run of the control keeps it.
\<close>

section \<open>The invariant\<close>

definition at_level :: "nat \<Rightarrow> nat \<Rightarrow> plant \<Rightarrow> bool" where
  "at_level n i p \<longleftrightarrow> slot (stg p i) = (False, i) \<and> m_systemIndex (stg p i) = i \<and> m_initialized (stg p i) \<and> idle i p \<and>
     (i < n \<longrightarrow> m_args (stg p i) = Some (args_at p)) \<and> (m_supplemented (stg p i) \<longleftrightarrow> 0 < i \<and> i < n) \<and>
     (0 < i \<and> i < n \<longrightarrow> m_prevStage (stg p i) = Some (i - 1)) \<and>
     (if n \<le> i then is_off i p else if Suc i = n then \<exists>on. cycles i on p else supplements i p)"

definition heating :: "nat \<Rightarrow> plant \<Rightarrow> bool" where
  "heating n p \<longleftrightarrow> n \<le> 3 \<and> length (the_stages p) = 3 \<and> (\<forall>i<3. slot_ok (the_args p) (False, i)) \<and> (\<forall>i<3. at_level n i p)"

definition cfg_ok :: "float_unit \<Rightarrow> args \<Rightarrow> bool" where
  "cfg_ok fu a \<longleftrightarrow> (\<forall>i<3. times_ok fu a i)"

lemma heatingD:
  assumes "heating n p" and "i < 3"
  shows "at_level n i p" and "slot (stg p i) = (False, i)" and "i < length (the_stages p)" and "idle i p"
    and "cfg_ok fu (the_args p) \<Longrightarrow> ready fu i p"
  using assms by (auto simp: heating_def at_level_def ready_def cfg_ok_def)

lemma cfg_frames: "frames S p p' \<Longrightarrow> cfg_ok fu (the_args p') = cfg_ok fu (the_args p)"
  using times_inputs [OF framesD(5)] by (auto simp: cfg_ok_def)

lemma at_level_frames:
  assumes f: "frames S p p'" and "k \<notin> S" and "slot (stg p k) \<notin> (\<lambda>i. slot (stg p i)) ` S"
    and n: "(k < n \<longleftrightarrow> k < n') \<and> (Suc k = n \<longleftrightarrow> Suc k = n')" and "at_level n k p"
  shows "at_level n' k p'"
proof -
  have "stg p' k = stg p k" "args_at p' = args_at p" "output_at (the_args p') (slot (stg p k)) = output_at (the_args p) (slot (stg p k))"
    using framesD(2,4,7) [OF f] assms(2,3) by blast+
  then show ?thesis
    using n assms(5) by (auto simp: at_level_def idle_def is_off_def cycles_def supplements_def not_less [symmetric])
qed

lemma heating_frames:
  assumes h: "heating n p" and f: "frames S p p'" and S: "S \<subseteq> {..<3}" and n': "n' \<le> 3" and new: "\<And>i. i \<in> S \<Longrightarrow> at_level n' i p'"
    and old: "\<And>k. k < 3 \<Longrightarrow> k \<notin> S \<Longrightarrow> (k < n \<longleftrightarrow> k < n') \<and> (Suc k = n \<longleftrightarrow> Suc k = n')"
  shows "heating n' p'"
proof -
  have "at_level n' k p'" if "k < 3" for k
  proof (cases "k \<in> S")
    case False
    have "slot (stg p k) \<notin> (\<lambda>i. slot (stg p i)) ` S" using heatingD(2) [OF h] S that False by auto
    then show ?thesis using at_level_frames [OF f False _ old [OF that False]] heatingD(1) [OF h that] by blast
  qed (rule new)
  then show ?thesis using h n' framesD(1,6) [OF f] by (auto simp: heating_def)
qed

text \<open>The outputs of the stages, as the invariant has them.\<close>

lemma heating_active: "heating n p \<Longrightarrow> i < 3 \<Longrightarrow> isInActive (stg p i) \<Longrightarrow> n = Suc i"
  using heatingD(1) [of n p i] by (auto simp: at_level_def isInActive_def is_off_def supplements_def split: if_splits)

section \<open>Requests keep it\<close>

text \<open>What the requests store before they generate their event.\<close>

lemma heating_prepare:
  assumes h: "heating n p" and i: "i < 3"
    and f: "\<And>s. static (f s) = static s" "\<And>s. stateVars (f s) = stateVars s" "\<And>s. m_eventQue (f s) = m_eventQue s"
      "\<And>s. m_processingFsmEvent (f s) = m_processingFsmEvent s" "\<And>s. m_prevStage (f s) = m_prevStage s" "m_args (f (stg p i)) = Some (args_at p)"
      "m_supplemented (f (stg p i)) = m_supplemented (stg p i)"
  shows "heating n (upd_stg i f p)" and "frames {i} p (upd_stg i f p)"
proof -
  note d = heatingD [OF h i]
  have s: "stg (upd_stg i f p) i = f (stg p i)" using d(3) by (simp add: stg_upd_stg)
  show fr: "frames {i} p (upd_stg i f p)" by (rule frame_frames [OF frame_upd_stg [OF f(1) d(3)]])
  have sl: "slot (f (stg p i)) = slot (stg p i)" by (rule static_slot [OF f(1)])
  have st: "m_systemIndex (f (stg p i)) = m_systemIndex (stg p i)" "m_initialized (f (stg p i)) = m_initialized (stg p i)"
    using f(1) [of "stg p i"] by (simp_all add: static_def)
  have "at_level n i (upd_stg i f p)"
    using d(1) f(6,7) by (auto simp: at_level_def s sl st f idle_def is_off_def cycles_def supplements_def)
  moreover have "n \<le> 3" using h by (simp add: heating_def)
  ultimately show "heating n (upd_stg i f p)" using i by (intro heating_frames [OF h fr]) auto
qed

lemma kept_level:
  assumes "kept i p p'" and "at_level n i p" and "n' = n \<or> i = 0" and "m_args (stg p i) = Some (args_at p)" and "m_eventQue (stg p' i) = []"
    and "if n' \<le> i then is_off i p' else if Suc i = n' then \<exists>on. cycles i on p' else supplements i p'"
  shows "at_level n' i p'"
proof -
  have fr: "frame i p p'" and l: "links (stg p' i) = links (stg p i)" using assms(1) by (simp_all add: kept_def)
  note s = frameD(3) [OF fr, of i]
  have "m_systemIndex (stg p' i) = m_systemIndex (stg p i)" "m_initialized (stg p' i) = m_initialized (stg p i)" using s by (simp_all add: static_def)
  then show ?thesis
    using assms(2-6) l static_slot [OF s] frameD(4) [OF fr] by (auto simp: at_level_def idle_def links_def)
qed

lemma request_on:
  assumes h: "heating n p" and c: "cfg_ok fu (the_args p)"
  shows "\<exists>p'. Basic_requestOn fu 0 b p = Some p' \<and> heating (max 1 n) p' \<and> frames {0} p p'"
proof -
  define f where "f = (\<lambda>s. s\<lparr>m_args := Some (args_at p), m_startInOffCycle := \<not> b, m_supplemented := False\<rparr> :: stage)"
  define p1 where "p1 = upd_stg 0 f p"
  have "m_supplemented (stg p 0) = False" using heatingD(1) [OF h, of 0] by (simp add: at_level_def)
  then have h1: "heating n p1" and f1: "frames {0} p p1"
    unfolding p1_def by (intro heating_prepare [OF h]; simp add: f_def static_def)+
  have s1: "stg p1 0 = f (stg p 0)" "args_at p1 = args_at p" using heatingD(3) [OF h, of 0] by (simp_all add: p1_def stg_upd_stg)
  note d = heatingD [OF h1, of 0]
  have r: "ready fu 0 p1" using d(5) c cfg_frames [OF f1] by simp
  have a: "m_args (stg p1 0) = Some (args_at p1)" "\<not> m_supplemented (stg p1 0)" by (simp_all add: s1 f_def)
  have req: "Basic_requestOn fu 0 b p = generateEvent fu 0 Fsm_evOnRequest p1" by (simp add: Basic_requestOn_def p1_def f_def)
  have n3: "n \<le> 3" using h by (simp add: heating_def)
  have step: "heating (max 1 n) p' \<and> frames {0} p p'" if k: "kept 0 p1 p'" and cy: "cycles 0 on p'" and "n \<le> 1" for p' on
  proof -
    have "at_level (max 1 n) 0 p'"
      using kept_level [OF k d(1), of "max 1 n"] a(1) cy that(3) by (auto simp: cycles_def max_def)
    moreover have fr: "frames {0} p1 p'" using k frame_frames by (simp add: kept_def)
    ultimately have "heating (max 1 n) p'" using that(3) by (intro heating_frames [OF h1 fr]) auto
    then show ?thesis using frames_trans [OF f1 fr] by simp
  qed
  consider "n = 0" | "n = 1" | "1 < n" by linarith
  then show ?thesis
  proof cases
    case 1
    then have "stateVar (stateVars (stg p1 0)) = Off" using d(1) by (simp add: at_level_def is_off_def)
    then obtain p' on where g: "generateEvent fu 0 Fsm_evOnRequest p1 = Some p'" and k: "kept 0 p1 p'" "settled 0 on p'"
      using on_request_first [OF r d(4) a(1) _ a(2)] by auto
    show ?thesis using step [OF k(1) settled_cycles [OF k(2)]] 1 g req by simp
  next
    case 2
    then obtain on where cy: "cycles 0 on p1" using d(1) by (auto simp: at_level_def)
    obtain p' on' where g: "generateEvent fu 0 Fsm_evOnRequest p1 = Some p'" and k: "kept 0 p1 p'" "cycles 0 on' p'"
      using run_cycle_some [OF r d(4) a(1) cy, of Fsm_evOnRequest] by auto
    show ?thesis using step [OF k] 2 g req by simp
  next
    case 3
    then have "supplements 0 p1" using d(1) by (simp add: at_level_def)
    then have "generateEvent fu 0 Fsm_evOnRequest p1 = Some p1" using d(3,4) by (intro ignored) (auto simp: supplements_def)
    then show ?thesis using 3 h1 f1 req by (auto simp: max_def)
  qed
qed

lemma kept_heating:
  assumes h: "heating n p" and i: "i < 3" and k: "kept i p p'" and a: "m_args (stg p i) = Some (args_at p)" and n': "n' \<le> 3" "n' = n \<or> i = 0"
    and q: "m_eventQue (stg p' i) = []" and s: "if n' \<le> i then is_off i p' else if Suc i = n' then \<exists>on. cycles i on p' else supplements i p'"
    and old: "\<And>k. k < 3 \<Longrightarrow> k \<noteq> i \<Longrightarrow> (k < n \<longleftrightarrow> k < n') \<and> (Suc k = n \<longleftrightarrow> Suc k = n')"
  shows "heating n' p'" and "frames {i} p p'"
proof -
  show fr: "frames {i} p p'" using k frame_frames by (simp add: kept_def)
  have "at_level n' i p'" by (rule kept_level [OF k heatingD(1) [OF h i] n'(2) a q s])
  then show "heating n' p'" using i n'(1) old by (intro heating_frames [OF h fr]) auto
qed

lemma execute_stage:
  assumes h: "heating n p" and c: "cfg_ok fu (the_args p)" and i: "i < 3"
  shows "\<exists>p'. Basic_execute fu i p = Some p' \<and> heating n p' \<and> frames {i} p p'"
proof -
  define f where "f = (\<lambda>s. s\<lparr>m_args := Some (args_at p)\<rparr> :: stage)"
  define p1 where "p1 = upd_stg i f p"
  have h1: "heating n p1" and f1: "frames {i} p p1"
    unfolding p1_def by (intro heating_prepare [OF h i]; simp add: f_def static_def)+
  have a: "m_args (stg p1 i) = Some (args_at p1)" using heatingD(3) [OF h i] by (simp add: p1_def stg_upd_stg f_def)
  note d = heatingD [OF h1 i]
  have r: "ready fu i p1" using d(5) c cfg_frames [OF f1] by simp
  have req: "Basic_execute fu i p = generateEvent fu i FSM_NO_MSG p1" by (simp add: Basic_execute_def p1_def f_def)
  have n3: "n \<le> 3" using h by (simp add: heating_def)
  show ?thesis
  proof (cases "Suc i = n")
    case True
    then obtain on where "cycles i on p1" using d(1) by (auto simp: at_level_def)
    then obtain p' on' where g: "generateEvent fu i FSM_NO_MSG p1 = Some p'" and k: "kept i p1 p'" "cycles i on' p'"
      using run_cycle_some [OF r d(4) a, of on FSM_NO_MSG] by auto
    have "heating n p'" and fr: "frames {i} p1 p'"
      using k True n3 by (intro kept_heating [OF h1 i k(1) a n3]; auto simp: cycles_def)+
    then show ?thesis using g req frames_trans [OF f1 fr] by auto
  next
    case False
    then have "generateEvent fu i FSM_NO_MSG p1 = Some p1"
      using d by (intro ignored) (auto simp: at_level_def is_off_def supplements_def split: if_splits)
    then show ?thesis using h1 f1 req by auto
  qed
qed

lemma request_supplement:
  assumes h: "heating n p" and c: "cfg_ok fu (the_args p)" and i: "Suc i < 3" and n: "Suc i \<le> n"
  shows "\<exists>p'. Basic_requestAsSupplement fu i (Suc i) b p = Some p' \<and> heating (max (Suc (Suc i)) n) p' \<and> frames {i, Suc i} p p'"
proof -
  define f where "f = (\<lambda>s. s\<lparr>m_args := Some (args_at p), m_requestSupplementStartInOnCycle := b, m_nextStage := Some (Suc i)\<rparr> :: stage)"
  define p1 where "p1 = upd_stg i f p"
  have i3: "i < 3" using i by simp
  have h1: "heating n p1" and f1: "frames {i} p p1"
    unfolding p1_def by (intro heating_prepare [OF h i3]; simp add: f_def static_def)+
  have s1: "stg p1 i = f (stg p i)" "args_at p1 = args_at p" using heatingD(3) [OF h i3] by (simp_all add: p1_def stg_upd_stg)
  note d = heatingD [OF h1 i3] and e = heatingD [OF h1 i]
  have c1: "cfg_ok fu (the_args p1)" using c cfg_frames [OF f1] by simp
  have a: "m_args (stg p1 i) = Some (args_at p1)" "m_nextStage (stg p1 i) = Some (Suc i)" by (simp_all add: s1 f_def)
  have req: "Basic_requestAsSupplement fu i (Suc i) b p = generateEvent fu i Fsm_evNeedMoreCapacity p1" by (simp add: Basic_requestAsSupplement_def p1_def f_def)
  show ?thesis
  proof (cases "n = Suc i")
    case True
    then obtain on where cy: "cycles i on p1" using d(1) by (auto simp: at_level_def)
    have off: "is_off (Suc i) p1" using e(1) True by (simp add: at_level_def)
    obtain p' on' where g: "generateEvent fu i Fsm_evNeedMoreCapacity p1 = Some p'" and fr: "frames {i, Suc i} p1 p'"
      and s: "supplements i p'" "cycles (Suc i) on' p'" "links (stg p' i) = links (stg p1 i)"
      "links (stg p' (Suc i)) = links ((stg p1 (Suc i))\<lparr>m_args := Some (args_at p1), m_startInOffCycle := \<not> m_requestSupplementStartInOnCycle (stg p1 i),
         m_supplemented := True, m_nextStage := None, m_prevStage := Some i\<rparr>)"
      using need_more [OF d(5) [OF c1] d(4) a(1) cy a(2) _ _ e(5) [OF c1] e(4) off] d(2) e(2) by auto
    have st: "static (stg p' k) = static (stg p1 k)" for k by (rule framesD(3) [OF fr])
    have ar: "args_at p' = args_at p1" by (rule framesD(4) [OF fr])
    have "at_level (Suc (Suc i)) i p'"
      using d(1) s(1,3) a(1) True ar static_slot [OF st] st [of i] by (auto simp: at_level_def idle_def links_def static_def supplements_def)
    moreover have "at_level (Suc (Suc i)) (Suc i) p'"
      using e(1) s(2,4) ar static_slot [OF st] st [of "Suc i"] by (auto simp: at_level_def idle_def links_def static_def cycles_def)
    ultimately have "heating (Suc (Suc i)) p'" using True i by (intro heating_frames [OF h1 fr]) auto
    then show ?thesis using g req True frames_trans [OF f1 fr] by (auto simp: insert_commute)
  next
    case False
    then have "supplements i p1" using d(1) n by (auto simp: at_level_def)
    then have "generateEvent fu i Fsm_evNeedMoreCapacity p1 = Some p1" using d(3,4) by (intro ignored) (auto simp: supplements_def)
    moreover have "frames {i, Suc i} p p1" using frames_trans [OF f1 frame_frames [OF frame_refl [of "Suc i" p1]]] by (simp add: insert_commute)
    ultimately show ?thesis using False n h1 req by (auto simp: max_def)
  qed
qed

lemma request_off:
  assumes h: "heating (Suc i) p" and c: "cfg_ok fu (the_args p)" and i: "i < 3"
  shows "\<exists>p'. Basic_requestOff fu i b p = Some p' \<and> heating i p' \<and> frames {i, i - 1} p p'"
proof -
  define f where "f = (\<lambda>s. s\<lparr>m_args := Some (args_at p), m_requestOffStartInOnCycle := b\<rparr> :: stage)"
  define p1 where "p1 = upd_stg i f p"
  have h1: "heating (Suc i) p1" and f1: "frames {i} p p1"
    unfolding p1_def by (intro heating_prepare [OF h i]; simp add: f_def static_def)+
  note d = heatingD [OF h1 i]
  have c1: "cfg_ok fu (the_args p1)" using c cfg_frames [OF f1] by simp
  have a: "m_args (stg p1 i) = Some (args_at p1)" using d(1) by (simp add: at_level_def)
  have req: "Basic_requestOff fu i b p = generateEvent fu i Fsm_evExcessCapacity p1" by (simp add: Basic_requestOff_def p1_def f_def)
  obtain on where cy: "cycles i on p1" using d(1) by (auto simp: at_level_def)
  show ?thesis
  proof (cases i)
    case 0
    then have "\<not> m_supplemented (stg p1 i)" using d(1) by (simp add: at_level_def)
    then obtain p' where g: "generateEvent fu i Fsm_evExcessCapacity p1 = Some p'" and k: "kept i p1 p'" "is_off i p'"
      using excess_first [OF d(5) [OF c1] d(4) a cy] by blast
    have "heating 0 p'" and fr: "frames {i} p1 p'"
      using k 0 by (intro kept_heating [OF h1 i k(1) a]; auto simp: is_off_def)+
    then show ?thesis using g req 0 frames_trans [OF f1 fr] by auto
  next
    case (Suc j)
    have j: "j < 3" using i Suc by simp
    note e = heatingD [OF h1 j]
    have s: "m_supplemented (stg p1 i)" "m_prevStage (stg p1 i) = Some j" using d(1) Suc by (simp_all add: at_level_def)
    have sj: "supplements j p1" using e(1) Suc by (simp add: at_level_def)
    obtain p' on' where g: "generateEvent fu i Fsm_evExcessCapacity p1 = Some p'" and fr: "frames {i, j} p1 p'"
      and t: "is_off i p'" "cycles j on' p'" "links (stg p' i) = links ((stg p1 i)\<lparr>m_prevStage := None, m_supplemented := False\<rparr>)"
      "links (stg p' j) = links ((stg p1 j)\<lparr>m_args := Some (args_at p1), m_startInOffCycle := \<not> m_requestOffStartInOnCycle (stg p1 i), m_nextStage := None\<rparr>)"
      using excess_upper [OF d(5) [OF c1] d(4) a cy s(1) s(2) _ _ e(5) [OF c1] e(4) sj] d(2) e(2) Suc by auto
    have st: "static (stg p' k) = static (stg p1 k)" for k by (rule framesD(3) [OF fr])
    have ar: "args_at p' = args_at p1" by (rule framesD(4) [OF fr])
    have "at_level i i p'"
      using d(1) t(1,3) Suc ar static_slot [OF st] st [of i] by (auto simp: at_level_def idle_def links_def static_def is_off_def)
    moreover have "at_level i j p'"
      using e(1) t(2,4) Suc ar static_slot [OF st] st [of j] by (auto simp: at_level_def idle_def links_def static_def cycles_def)
    ultimately have "heating i p'" using Suc i by (intro heating_frames [OF h1 fr]) auto
    then show ?thesis using g req Suc frames_trans [OF f1 fr] by (auto simp: insert_commute)
  qed
qed

section \<open>Runs of the indoor heating keep it\<close>

text \<open>A step of the heating logic returns with some number of stages in use and the same inputs.\<close>

definition heats :: "plant \<Rightarrow> plant option \<Rightarrow> bool" where
  "heats p r \<longleftrightarrow> (\<exists>p' n. r = Some p' \<and> heating n p' \<and> frames {..<3} p p')"

definition heats_result :: "plant \<Rightarrow> (bool \<times> plant) option \<Rightarrow> bool" where
  "heats_result p r \<longleftrightarrow> (\<exists>b p' n. r = Some (b, p') \<and> heating n p' \<and> frames {..<3} p p')"

lemma frames_same_trans: "frames S p q \<Longrightarrow> frames S q r \<Longrightarrow> frames S p r"
  using frames_trans [of S p q S r] by simp

lemma heatsI: "r = Some p' \<Longrightarrow> heating n p' \<Longrightarrow> frames S p p' \<Longrightarrow> S \<subseteq> {..<3} \<Longrightarrow> heats p r"
  unfolding heats_def using frames_mono by blast

lemma heats_same: "heating n p \<Longrightarrow> heats p (Some p)"
  using frame_frames [of 0 p p] by (auto intro!: heatsI [of _ p n "{0}"])

lemma heats_bind:
  assumes "heats p r" and "\<And>p' n. heating n p' \<Longrightarrow> frames {..<3} p p' \<Longrightarrow> heats p' (g p')"
  shows "heats p (Option.bind r g)"
proof -
  obtain p1 n1 where 1: "r = Some p1" "heating n1 p1" "frames {..<3} p p1" using assms(1) by (auto simp: heats_def)
  obtain p2 n2 where "g p1 = Some p2" "heating n2 p2" "frames {..<3} p1 p2" using assms(2) [OF 1(2,3)] by (auto simp: heats_def)
  then show ?thesis using 1(1) frames_same_trans [OF 1(3), of p2] by (auto simp: heats_def)
qed

lemma heats_result_of: "heats p r \<Longrightarrow> heats_result p (Option.bind r (\<lambda>p. Some (b, p)))"
  by (auto simp: heats_def heats_result_def)

lemma heats_result_same: "heating n p \<Longrightarrow> heats_result p (Some (b, p))"
  using heats_result_of [OF heats_same, of n p b] by simp

lemma heats_result_bind:
  assumes "heats_result p r" and "\<And>b p' n. heating n p' \<Longrightarrow> frames {..<3} p p' \<Longrightarrow> heats_result p' (g b p')"
  shows "heats_result p (Option.bind r (\<lambda>(b, p'). g b p'))"
proof -
  obtain b p1 n1 where 1: "r = Some (b, p1)" "heating n1 p1" "frames {..<3} p p1" using assms(1) by (auto simp: heats_result_def)
  obtain c p2 n2 where "g b p1 = Some (c, p2)" "heating n2 p2" "frames {..<3} p1 p2" using assms(2) [OF 1(2,3), of b] by (auto simp: heats_result_def)
  then show ?thesis using 1(1) frames_same_trans [OF 1(3), of p2] by (auto simp: heats_result_def)
qed

lemma heats_then_result:
  assumes "heats p r" and "\<And>p' n. heating n p' \<Longrightarrow> frames {..<3} p p' \<Longrightarrow> heats_result p' (g p')"
  shows "heats_result p (Option.bind r g)"
proof -
  obtain p1 n1 where 1: "r = Some p1" "heating n1 p1" "frames {..<3} p p1" using assms(1) by (auto simp: heats_def)
  obtain c p2 n2 where "g p1 = Some (c, p2)" "heating n2 p2" "frames {..<3} p1 p2" using assms(2) [OF 1(2,3)] by (auto simp: heats_result_def)
  then show ?thesis using 1(1) frames_same_trans [OF 1(3), of p2] by (auto simp: heats_result_def)
qed

lemma heats_on:
  assumes "heating n p" and "cfg_ok fu (the_args p)"
  shows "heats p (Basic_requestOn fu 0 b p)"
proof -
  obtain p' where p': "Basic_requestOn fu 0 b p = Some p'" "heating (max 1 n) p'" "frames {0} p p'" using request_on [OF assms] by blast
  show ?thesis by (rule heatsI [OF p']) simp
qed

lemma heats_execute:
  assumes "heating n p" and "cfg_ok fu (the_args p)" and "i < 3"
  shows "heats p (Basic_execute fu i p)"
proof -
  obtain p' where p': "Basic_execute fu i p = Some p'" "heating n p'" "frames {i} p p'" using execute_stage [OF assms] by blast
  show ?thesis by (rule heatsI [OF p']) (use assms(3) in simp)
qed

lemma heats_supplement:
  assumes "heating n p" and "cfg_ok fu (the_args p)" and "Suc i < 3" and "Suc i \<le> n"
  shows "heats p (Basic_requestAsSupplement fu i (Suc i) b p)"
proof -
  obtain p' where p': "Basic_requestAsSupplement fu i (Suc i) b p = Some p'" "heating (max (Suc (Suc i)) n) p'" "frames {i, Suc i} p p'"
    using request_supplement [OF assms] by blast
  show ?thesis by (rule heatsI [OF p']) (use assms(3) in simp)
qed

lemma heats_off_when_met:
  assumes h: "heating n p" and c: "cfg_ok fu (the_args p)" and i: "i < 3" and act: "isInActive (stg p i)"
  shows "heats p (request_off_when_met fu i i p)"
proof -
  have n: "n = Suc i" by (rule heating_active [OF h i act])
  obtain p' where p': "Basic_requestOff fu i True p = Some p'" "heating i p'" "frames {i, i - 1} p p'"
    using request_off [OF _ c i] h n by blast
  have "heats p (Basic_requestOff fu i True p)" by (rule heatsI [OF p']) (use i in auto)
  moreover have "i < length (cfg_stages (systemConfig (the_args p)))" using c i by (simp add: cfg_ok_def times_ok_def)
  ultimately show ?thesis using heats_same [OF h] by (simp add: request_off_when_met_def Let_def)
qed

lemma heats_next_when_met:
  assumes h: "heating n p" and c: "cfg_ok fu (the_args p)" and i: "Suc i < 3" and act: "isInActive (stg p i)"
  shows "heats p (request_next_when_met fu i (Suc i) p)"
proof -
  have "n = Suc i" using heating_active [OF h _ act] i by simp
  then have "heats p (Basic_requestAsSupplement fu i (Suc i) True p)" using heats_supplement [OF h c i] by simp
  then show ?thesis using heats_same [OF h] by (simp add: request_next_when_met_def)
qed

lemma heats_two_stages:
  assumes h: "heating n p" and c: "cfg_ok fu (the_args p)"
  shows "heats p (request_two_stages fu 0 (Suc 0) p)"
proof -
  obtain p1 where p1: "Basic_requestOn fu 0 True p = Some p1" "heating (max 1 n) p1" "frames {0} p p1" using request_on [OF assms] by blast
  have "cfg_ok fu (the_args p1)" using cfg_frames [OF p1(3)] c by simp
  then have "heats p1 (Basic_requestAsSupplement fu 0 (Suc 0) True p1)" using heats_supplement [OF p1(2), of fu 0] by simp
  moreover have "frames {..<3} p p1" by (rule frames_mono [OF p1(3)]) simp
  ultimately have "heats p (Basic_requestAsSupplement fu 0 (Suc 0) True p1)"
    unfolding heats_def using frames_same_trans by blast
  then show ?thesis using heats_same [OF h] p1(1) by (simp add: request_two_stages_def)
qed

text \<open>The three pieces of the logic.\<close>

lemma heats_single:
  assumes h: "heating n p" and c: "cfg_ok fu (the_args p)"
  shows "heats_result p (IndoorHeating_singleStage fu 0 p)"
  unfolding IndoorHeating_singleStage_def
  using heats_result_of heats_on [OF h c] heats_same [OF h] heats_result_same [OF h] heats_off_when_met [OF h c, of 0] by simp

lemma heats_second:
  assumes h: "heating n p" and c: "cfg_ok fu (the_args p)"
  shows "heats_result p (IndoorHeating_secondStage fu 0 1 p)"
  unfolding IndoorHeating_secondStage_def
  using heats_result_of heats_two_stages [OF h c] heats_result_same [OF h] heats_off_when_met [OF h c, of 1] heats_next_when_met [OF h c, of 0] by simp

lemma heats_third:
  assumes h: "heating n p" and c: "cfg_ok fu (the_args p)"
  shows "heats_result p (IndoorHeating_thirdStage fu 0 1 2 p)"
  unfolding IndoorHeating_thirdStage_def
  using heats_result_of heats_two_stages [OF h c] heats_result_same [OF h] heats_off_when_met [OF h c, of 2]
    heats_next_when_met [OF h c, of 0] heats_next_when_met [OF h c, of 1] by (simp add: numeral_2_eq_2)

lemma heats_runs:
  assumes "heating n p" and "cfg_ok fu (the_args p)"
  shows "heats_result p (do { p \<leftarrow> Basic_execute fu 0 p; Some (True, p) })"
    and "heats_result p (do { p \<leftarrow> Basic_execute fu 0 p; p \<leftarrow> Basic_execute fu 1 p; Some (True, p) })"
    and "heats_result p (do { p \<leftarrow> Basic_execute fu 0 p; p \<leftarrow> Basic_execute fu 1 p; p \<leftarrow> Basic_execute fu 2 p; Some (True, p) })"
  using assms by (auto intro!: heats_then_result heats_execute heats_result_same simp: cfg_frames)

lemma execute_active_heats:
  assumes h: "heating n p" and c: "cfg_ok fu (the_args p)"
  shows "heats_result p (IndoorHeating_executeActive fu 0 1 2 p)"
proof -
  have c': "cfg_ok fu (the_args p')" if "frames {..<3} p p'" for p' using cfg_frames [OF that] c by simp
  have one: "heats_result q (if tripped then Some (True, q) else IndoorHeating_singleStage fu 0 q)" if "heating m q" "cfg_ok fu (the_args q)" for tripped m q
    using heats_single [OF that] heats_result_same [OF that(1)] by simp
  have two: "heats_result q (if tripped then Some (True, q) else IndoorHeating_secondStage fu 0 1 q)" if "heating m q" "cfg_ok fu (the_args q)" for tripped m q
    using heats_second [OF that] heats_result_same [OF that(1)] by simp
  note ok = heats_runs [unfolded One_nat_def] one two [unfolded One_nat_def] heats_single heats_second [unfolded One_nat_def] heats_third [unfolded One_nat_def]
  show ?thesis
    unfolding IndoorHeating_executeActive_def if_not_P
    using h c by (auto intro!: heats_result_bind ok heats_result_same simp: cfg_frames)
qed

lemma execute_active_ok: "IndoorHeating_executeActive fu s1 s2 s3 p = Some (b, p') \<Longrightarrow> b = (numIndoorStages (systemConfig (the_args p)) \<in> {1, 2, 3})"
  by (auto simp: IndoorHeating_executeActive_def bind_eq_Some_conv split: if_splits)

section \<open>Turning off\<close>

lemma less_three: "(i :: nat) < 3 \<Longrightarrow> i = 0 \<or> i = 1 \<or> i = 2"
  by linarith

text \<open>A stage between two runs, whatever the outputs are.\<close>

definition resting :: "nat \<Rightarrow> plant \<Rightarrow> bool" where
  "resting i p \<longleftrightarrow> m_initialized (stg p i) \<and> stg_class (stg p i) \<noteq> BasicCooling \<and> idle i p \<and>
     (forgotten i p \<or> slot (stg p i) = (False, i) \<and> m_systemIndex (stg p i) = i \<and>
       (stateVar (stateVars (stg p i)) = SupplementingNextStage \<or>
        m_args (stg p i) = Some (args_at p) \<and> (\<exists>on. in_half on True (stateVars (stg p i)))))"

lemma heating_resting: "heating n p \<Longrightarrow> i < 3 \<Longrightarrow> resting i p"
  using heatingD(1) [of n p i]
  by (auto simp: at_level_def resting_def forgotten_def is_off_def supplements_def cycles_def slot_def split: if_splits)

lemma mode_off_stage:
  assumes r: "forgotten i p \<or> ready fu i p" and "i < length (the_stages p)" and "resting i p"
  shows "\<exists>p'. Basic_requestModeToOff fu i p = Some p' \<and> frame i p p' \<and> forgotten i p' \<and> (\<forall>x. output_at (the_args p') x = output_at (the_args p) x)"
proof (cases "forgotten i p")
  case True
  then have "generateEvent fu i Fsm_evOffModeRequest p = Some p" using assms(2) by (intro ignored) (auto simp: forgotten_def)
  then show ?thesis using True by (auto simp: Basic_requestModeToOff_def)
next
  case False
  then have r': "ready fu i p" using r by simp
  show ?thesis using off_mode [OF r'] assms(3) False by (auto simp: resting_def Basic_requestModeToOff_def)
qed

lemma resting_frame: "frame i p p' \<Longrightarrow> k \<noteq> i \<Longrightarrow> resting k p' = resting k p" "frame i p p' \<Longrightarrow> k \<noteq> i \<Longrightarrow> forgotten k p' = forgotten k p"
  using frameD(2) [of i p p' k] frameD(4) [of i p p'] by (auto simp: resting_def forgotten_def idle_def)

lemma mode_off_all:
  assumes l: "length (the_stages p) = 3" and r: "\<And>i. i < 3 \<Longrightarrow> (forgotten i p \<or> ready fu i p) \<and> resting i p"
  shows "\<exists>p'. do { p \<leftarrow> Basic_requestModeToOff fu 0 p; p \<leftarrow> Basic_requestModeToOff fu 1 p; Basic_requestModeToOff fu 2 p } = Some p' \<and>
    frames {..<3} p p' \<and> (\<forall>i<3. forgotten i p') \<and> (\<forall>x. output_at (the_args p') x = output_at (the_args p) x)"
proof -
  obtain p1 where 1: "Basic_requestModeToOff fu 0 p = Some p1" "frame 0 p p1" "forgotten 0 p1" "\<forall>x. output_at (the_args p1) x = output_at (the_args p) x"
    using mode_off_stage [of 0 p fu] r [of 0] l by auto
  obtain p2 where 2: "Basic_requestModeToOff fu 1 p1 = Some p2" "frame 1 p1 p2" "forgotten 1 p2" "\<forall>x. output_at (the_args p2) x = output_at (the_args p1) x"
    using mode_off_stage [of 1 p1 fu] r [of 1] ready_frame [OF 1(2)] resting_frame [OF 1(2), of 1] frameD(1) [OF 1(2)] l by auto
  obtain p3 where 3: "Basic_requestModeToOff fu 2 p2 = Some p3" "frame 2 p2 p3" "forgotten 2 p3" "\<forall>x. output_at (the_args p3) x = output_at (the_args p2) x"
    using mode_off_stage [of 2 p2 fu] r [of 2] ready_frame [OF 1(2)] ready_frame [OF 2(2)] resting_frame [OF 1(2), of 2] resting_frame [OF 2(2), of 2]
      frameD(1) [OF 1(2)] frameD(1) [OF 2(2)] l by auto
  have "frames ({0} \<union> ({1} \<union> {2})) p p3"
    by (intro frames_trans [OF frame_frames [OF 1(2)]] frames_trans [OF frame_frames [OF 2(2)] frame_frames [OF 3(2)]])
  then have fr: "frames {..<3} p p3" by (rule frames_mono) auto
  have "forgotten i p3" if "i < 3" for i
    using less_three [OF that] 1(3) 2(3) 3(3) resting_frame(2) [OF 2(2), of 0] resting_frame(2) [OF 3(2), of 0] resting_frame(2) [OF 3(2), of 1]
    by (elim disjE) simp_all
  then show ?thesis using 1 2 3 fr by auto
qed

lemma reset_heats:
  assumes len: "length (the_stages p) = 3" and rest: "\<And>i. i < 3 \<Longrightarrow> resting i p" and c: "cfg_ok fu (the_args p)"
    and out: "\<And>i. i < 3 \<Longrightarrow> slot_ok (the_args p) (False, i) \<and> output_at (the_args p) (False, i) = VIRTUAL_OUTPUTS_OFF"
  shows "\<exists>p'. IndoorHeating_reset fu 0 1 2 p = Some p' \<and> heating 0 p' \<and> inputs (the_args p') = inputs (the_args p) \<and> args_at p' = args_at p \<and>
    (\<forall>x. slot_ok (the_args p') x = slot_ok (the_args p) x \<and> output_at (the_args p') x = output_at (the_args p) x)"
proof -
  define q where "q = Basic_reconfigure 2 2 2 (Basic_reconfigure 1 1 1 (Basic_reconfigure 0 0 0 p))"
  have q: "stg q i = (stg p i)\<lparr>m_systemIndex := i, m_outIndex := i\<rparr>" if "i < 3" for i
    using less_three [OF that] len by (elim disjE) (simp_all add: q_def Basic_reconfigure_def stg_upd_stg)
  have qa: "the_args q = the_args p" "args_at q = args_at p" "length (the_stages q) = 3" using len by (simp_all add: q_def Basic_reconfigure_def)
  have rq: "resting i q" "slot (stg q i) = (False, i)" if "i < 3" for i
    using rest [OF that] q [OF that] qa by (auto simp: resting_def forgotten_def idle_def slot_def)
  have "(forgotten i q \<or> ready fu i q) \<and> resting i q" if "i < 3" for i
    using rq [OF that] out [OF that] c that qa q [OF that] by (simp add: ready_def resting_def cfg_ok_def)
  from mode_off_all [OF qa(3) this] obtain p' where p': "do { p \<leftarrow> Basic_requestModeToOff fu 0 q; p \<leftarrow> Basic_requestModeToOff fu 1 p; Basic_requestModeToOff fu 2 p } = Some p'"
    "frames {..<3} q p'" "\<forall>i<3. forgotten i p'" "\<forall>x. output_at (the_args p') x = output_at (the_args q) x" by blast
  have "at_level 0 i p'" if "i < 3" for i
  proof -
    note s = framesD(3) [OF p'(2), of i]
    have "m_initialized (stg p' i)" "m_systemIndex (stg p' i) = i" using s rq [OF that] q [OF that] by (simp_all add: static_def resting_def)
    then show ?thesis
      using static_slot [OF s] rq [OF that] p'(3,4) out [OF that] qa that by (simp add: at_level_def is_off_def forgotten_def idle_def)
  qed
  then have "heating 0 p'" using framesD(1,6) [OF p'(2)] qa out by (simp add: heating_def)
  moreover have "IndoorHeating_reset fu 0 1 2 p = Some p'" using p'(1) by (simp add: IndoorHeating_reset_def q_def)
  ultimately show ?thesis using framesD(4,5,6) [OF p'(2)] qa p'(4) by auto
qed

section \<open>The control component\<close>

definition in_use :: "plant \<Rightarrow> bool" where
  "in_use p \<longleftrightarrow> (\<exists>n. heating n p)"

definition at_rest :: "plant \<Rightarrow> bool" where
  "at_rest p \<longleftrightarrow> length (the_stages p) = 3 \<and> (\<forall>i<3. resting i p)"

lemma heating_args:
  assumes "heating n p" and "indoorStages (vOutputs ar) = indoorStages (vOutputs (the_args p))"
  shows "heating n (p\<lparr>the_args := ar\<rparr>)"
proof -
  have o: "output_at ar (False, i) = output_at (the_args p) (False, i)" "slot_ok ar (False, i) = slot_ok (the_args p) (False, i)" for i
    using assms(2) by (simp_all add: output_at_def slot_ok_def)
  have s: "stg (p\<lparr>the_args := ar\<rparr>) i = stg p i" for i by (simp add: stg_def)
  have "at_level n i (p\<lparr>the_args := ar\<rparr>)" if "i < 3" for i
    using heatingD(1) [OF assms(1) that] heatingD(2) [OF assms(1) that] o
    by (auto simp: at_level_def s idle_def is_off_def cycles_def supplements_def)
  then show ?thesis using assms(1) o by (simp add: heating_def)
qed

lemma resting_args: "resting i (p\<lparr>the_args := ar\<rparr>) = resting i p" "forgotten i (p\<lparr>the_args := ar\<rparr>) = forgotten i p"
  by (simp_all add: resting_def forgotten_def idle_def stg_def)

text \<open>Lists of outputs of one kind that agree in every slot.\<close>

lemma outputs_of_slots:
  assumes "\<And>i. slot_ok a (b, i) = slot_ok a' (b, i)" and "\<And>i. output_at a (b, i) = output_at a' (b, i)"
  shows "(if b then outdoorStages (vOutputs a) else indoorStages (vOutputs a)) = (if b then outdoorStages (vOutputs a') else indoorStages (vOutputs a'))"
proof (rule nth_equalityI)
  show "length (if b then outdoorStages (vOutputs a) else indoorStages (vOutputs a)) = length (if b then outdoorStages (vOutputs a') else indoorStages (vOutputs a'))"
    using assms(1) unfolding slot_ok_def fst_conv snd_conv by (metis linorder_neqE_nat less_irrefl)
qed (use assms(2) in \<open>simp add: output_at_def\<close>)

lemma heating_outputs:
  assumes "heating n p" and "i < 3"
  shows "indoorStages (vOutputs (the_args p)) ! i \<in> {VIRTUAL_OUTPUTS_OFF, VIRTUAL_OUTPUTS_ON}"
  using heatingD(1) [OF assms]
  by (auto simp: at_level_def is_off_def cycles_def supplements_def half_out_def output_at_def split: if_splits)

lemma heating_own:
  assumes "in_use p" and "length (indoorStages (vOutputs (the_args p))) = 3"
  shows "set (indoorStages (vOutputs (the_args p))) \<subseteq> {VIRTUAL_OUTPUTS_OFF, VIRTUAL_OUTPUTS_ON}"
  using assms heating_outputs by (fastforce simp: in_use_def in_set_conv_nth)

lemma heat_reset:
  assumes "at_rest p" and "cfg_ok fu (the_args p)" and "length (indoorStages (vOutputs (the_args p))) = 3"
    and "set (indoorStages (vOutputs (the_args p))) \<subseteq> {VIRTUAL_OUTPUTS_OFF}"
  shows "\<exists>p'. IndoorHeating_reset fu 0 1 2 p = Some p' \<and> heating 0 p' \<and> inputs (the_args p') = inputs (the_args p) \<and> args_at p' = args_at p \<and>
    indoorStages (vOutputs (the_args p')) = indoorStages (vOutputs (the_args p)) \<and> outdoorStages (vOutputs (the_args p')) = outdoorStages (vOutputs (the_args p))"
proof -
  have "slot_ok (the_args p) (False, i) \<and> output_at (the_args p) (False, i) = VIRTUAL_OUTPUTS_OFF" if "i < 3" for i
    using assms(3) that subsetD [OF assms(4) nth_mem, of i] by (simp add: slot_ok_def output_at_def)
  then obtain p' where p': "IndoorHeating_reset fu 0 1 2 p = Some p'" "heating 0 p'" "inputs (the_args p') = inputs (the_args p)" "args_at p' = args_at p"
    "\<forall>x. slot_ok (the_args p') x = slot_ok (the_args p) x \<and> output_at (the_args p') x = output_at (the_args p) x"
    using reset_heats [of p fu] assms(1,2) by (auto simp: at_rest_def)
  moreover note outputs_of_slots [of "the_args p'" True "the_args p"] outputs_of_slots [of "the_args p'" False "the_args p"]
  ultimately show ?thesis by auto
qed

lemma heat_active:
  assumes "heating n p" and "cfg_ok fu (the_args p)" and "numIndoorStages (systemConfig (the_args p)) \<in> {1, 2, 3}"
  shows "\<exists>p' m. IndoorHeating_executeActive fu 0 1 2 p = Some (True, p') \<and> heating m p' \<and> args_at p' = args_at p \<and>
    length (indoorStages (vOutputs (the_args p'))) = length (indoorStages (vOutputs (the_args p))) \<and>
    outdoorStages (vOutputs (the_args p')) = outdoorStages (vOutputs (the_args p))"
proof -
  obtain b p' m where p': "IndoorHeating_executeActive fu 0 1 2 p = Some (b, p')" "heating m p'" "frames {..<3} p p'"
    using execute_active_heats [OF assms(1,2)] by (auto simp: heats_result_def)
  have "output_at (the_args p') (True, i) = output_at (the_args p) (True, i)" for i
    using framesD(7) [OF p'(3), of "(True, i)"] heatingD(2) [OF assms(1)] by auto
  then have "outdoorStages (vOutputs (the_args p')) = outdoorStages (vOutputs (the_args p))"
    using outputs_of_slots [of "the_args p'" True "the_args p"] framesD(6) [OF p'(3)] by auto
  moreover have "length (indoorStages (vOutputs (the_args p'))) = length (indoorStages (vOutputs (the_args p)))"
    using framesD(6) [OF p'(3), of "(False, i)" for i] unfolding slot_ok_def fst_conv snd_conv if_False by (metis linorder_neqE_nat less_irrefl)
  ultimately show ?thesis using p'(1,2) execute_active_ok [OF p'(1)] assms(3) framesD(4) [OF p'(3)] by auto
qed

lemma heat_off:
  assumes "at_rest p" and "cfg_ok fu (the_args p)" and "length (indoorStages (vOutputs (the_args p))) = 3"
  shows "\<exists>p'. IndoorHeating_executeOff fu 0 1 2 p = Some (True, p') \<and> at_rest p' \<and> args_at p' = args_at p"
proof -
  have len: "length (the_stages p) = 3" and rest: "\<And>i. i < 3 \<Longrightarrow> resting i p" using assms(1) by (simp_all add: at_rest_def)
  have "(forgotten i p \<or> ready fu i p) \<and> resting i p" if "i < 3" for i
    using rest [OF that] assms(2,3) that len by (auto simp: resting_def ready_def cfg_ok_def slot_ok_def)
  from mode_off_all [OF len this] obtain p' where
    p': "do { p \<leftarrow> Basic_requestModeToOff fu 0 p; p \<leftarrow> Basic_requestModeToOff fu 1 p; Basic_requestModeToOff fu 2 p } = Some p'"
    "frames {..<3} p p'" "\<forall>i<3. forgotten i p'" by blast
  have "resting i p'" if "i < 3" for i
    using rest [OF that] p'(3) framesD(3) [OF p'(2), of i] that by (auto simp: resting_def forgotten_def static_def)
  moreover have "IndoorHeating_executeOff fu 0 1 2 p = Some (True, p')"
    using p'(1) by (auto simp: IndoorHeating_executeOff_def bind_eq_Some_conv)
  ultimately show ?thesis using framesD(1,4) [OF p'(2)] len by (simp add: at_rest_def)
qed

text \<open>In use, the indoor stages have their outputs: the state of use carries their number.\<close>

abbreviation heat_runs :: "plant \<Rightarrow> bool" where
  "heat_runs p \<equiv> in_use p \<and> length (indoorStages (vOutputs (the_args p))) = 3"

interpretation heat: equipment_logic "IndoorHeating 0 1 2" at_rest heat_runs indoorStages outdoorStages 3 "cfg_ok fu"
  "\<lambda>s. numIndoorStages s \<in> {1, 2, 3}" fu for fu
proof
  fix p ar v a b t
  show "heat_runs p \<Longrightarrow> at_rest p" using heating_resting by (auto simp: in_use_def at_rest_def heating_def)
  show "at_rest p \<Longrightarrow> at_rest (p\<lparr>the_args := ar\<rparr>)" by (simp add: at_rest_def resting_args)
  show "heat_runs p \<Longrightarrow> indoorStages (vOutputs ar) = indoorStages (vOutputs (the_args p)) \<Longrightarrow> heat_runs (p\<lparr>the_args := ar\<rparr>)"
    using heating_args by (auto simp: in_use_def)
  show "heat_runs p \<Longrightarrow> length (indoorStages (vOutputs (the_args p))) = 3 \<and> set (indoorStages (vOutputs (the_args p))) \<subseteq> {VIRTUAL_OUTPUTS_OFF, VIRTUAL_OUTPUTS_ON}"
    using heating_own by blast
  show "indoorStages (setCapacityOff v) = map (\<lambda>_. 0) (indoorStages v)" "outdoorStages (setCapacityOff v) = map (\<lambda>_. 0) (outdoorStages v)"
    by (simp_all add: setCapacityOff_def)
  show "inputs a = inputs b \<Longrightarrow> cfg_ok fu a \<Longrightarrow> cfg_ok fu b" using times_inputs [of a b fu] by (simp add: cfg_ok_def)
  show "cfg_ok fu a \<Longrightarrow> cfg_ok fu (a\<lparr>currentInterval := t\<rparr>)" by (simp add: cfg_ok_def times_ok_def onT_def offT_def)
  show "at_rest p \<Longrightarrow> cfg_ok fu (the_args p) \<Longrightarrow> length (indoorStages (vOutputs (the_args p))) = 3 \<Longrightarrow>
      set (indoorStages (vOutputs (the_args p))) \<subseteq> {VIRTUAL_OUTPUTS_OFF} \<Longrightarrow>
      \<exists>p'. equipment_reset fu (IndoorHeating 0 1 2) p = Some p' \<and> heat_runs p' \<and> inputs (the_args p') = inputs (the_args p) \<and> args_at p' = args_at p \<and>
        outdoorStages (vOutputs (the_args p')) = outdoorStages (vOutputs (the_args p))"
    using heat_reset [of p fu] by (auto simp: equipment_reset_def in_use_def)
  show "heat_runs p \<Longrightarrow> cfg_ok fu (the_args p) \<Longrightarrow> numIndoorStages (systemConfig (the_args p)) \<in> {1, 2, 3} \<Longrightarrow>
      \<exists>p'. executeActive fu (IndoorHeating 0 1 2) p = Some (True, p') \<and> heat_runs p' \<and> args_at p' = args_at p \<and>
        outdoorStages (vOutputs (the_args p')) = outdoorStages (vOutputs (the_args p))"
    using heat_active [of _ p fu] unfolding executeActive_def in_use_def equipment.case by metis
  show "at_rest p \<Longrightarrow> cfg_ok fu (the_args p) \<Longrightarrow> length (indoorStages (vOutputs (the_args p))) = 3 \<Longrightarrow>
      \<exists>p'. executeOff fu (IndoorHeating 0 1 2) p = Some (True, p') \<and> at_rest p' \<and> args_at p' = args_at p"
    using heat_off [of p fu] by (simp add: executeOff_def)
qed

text \<open>
  The inputs of a run: a valid configuration with times that are not zero; in heating mode, one to three indoor stages, the outputs
  of the last run, and a reset when another mode had control in between.  The arguments are at the same address in
  every run.
\<close>

abbreviation input_ok :: "float_unit \<Rightarrow> addr \<Rightarrow> control \<Rightarrow> virtual_outputs \<Rightarrow> bool \<Rightarrow> control_in \<Rightarrow> bool" where
  "input_ok fu \<equiv> input_fit (IndoorHeating 0 1 2) (cfg_ok fu) (\<lambda>s. numIndoorStages s \<in> {1, 2, 3}) indoorStages 3"

abbreviation control_inv :: "addr \<Rightarrow> control \<Rightarrow> virtual_outputs \<Rightarrow> bool \<Rightarrow> bool" where
  "control_inv \<equiv> control_fit (IndoorHeating 0 1 2) at_rest heat_runs indoorStages"

inductive control_reach :: "float_unit \<Rightarrow> addr \<Rightarrow> control \<Rightarrow> virtual_outputs \<Rightarrow> bool \<Rightarrow> bool" for fu a where
  start: "m_equipment c = IndoorHeating 0 1 2 \<Longrightarrow>
    ctl_stages c = [Basic (BasicIndoorHeat f0) s0 o0, Basic (BasicIndoorHeat f1) s1 o1, Basic (BasicIndoorHeat f2) s2 o2] \<Longrightarrow>
    control_reach fu a c v False"
| run: "control_reach fu a c v synced \<Longrightarrow> input_ok fu a c v synced inp \<Longrightarrow>
    Control_execute fu interval inp c = Some (ok, out, c') \<Longrightarrow>
    control_reach fu a c' (outputs_after out v) (synced_after (IndoorHeating 0 1 2) inp synced)"

inductive_cases control_runE: "control_reach fu a c v s"

lemma heating_start:
  assumes "ctl_stages c = [Basic (BasicIndoorHeat f0) s0 o0, Basic (BasicIndoorHeat f1) s1 o1, Basic (BasicIndoorHeat f2) s2 o2]"
  shows "at_rest (plant_of c a ar)"
proof -
  have "resting i (plant_of c a ar)" if "i < 3" for i
    using less_three [OF that] assms by (elim disjE) (simp_all add: resting_def forgotten_def idle_def plant_of_def stg_def Basic_def)
  then show ?thesis using assms by (simp add: at_rest_def plant_of_def)
qed

lemma control_reach_inv: "control_reach fu a c v synced \<Longrightarrow> control_inv a c v synced"
proof (induction rule: control_reach.induct)
  case (start c f0 s0 o0 f1 s1 o1 f2 s2 o2 v)
  then show ?case using heating_start by (simp add: control_fit_def)
next
  case (run c v synced inp interval ok out c')
  then show ?case using heat.step [OF run.IH run.hyps(2), of interval] by auto
qed

section \<open>A sample plant\<close>

text \<open>Exact arithmetic, three stages of three cycles per hour at half load; the witnesses below run on it.\<close>

definition sample_unit :: float_unit where
  "sample_unit = \<lparr>fround = id, fcast = \<lambda>x. word_of_int \<lfloor>the x\<rfloor>\<rparr>"

definition sample_args :: args where
  "sample_args = \<lparr>pvOut = 50, systemConfig = \<lparr>cfg_stages = replicate 4 \<lparr>lowerBound = 0, upperBound = 100, minIndoorFan = 0, maxIndoorFan = 0, minOnTime = 300, minOffTime = 300, cfg_cph = e3CPH\<rparr>,
       currentOpMode = OM_eID_HEATING, outdoorUnitType = eAC, indoorUnitType = eFURNACE, numCompressorStages = 0, numIndoorStages = 3,
       totalStages = 3, fanContinuousSpeed = 1000, cfg_gain = 20, cfg_reset = 300000, cfg_maxPvOut = 300\<rparr>,
     currentInterval = \<lparr>m_seconds = 1000, m_thousandths = 0\<rparr>, outdoorUnitBeginOffTime = \<lparr>m_seconds = 0, m_thousandths = 0\<rparr>,
     indoorUnitBeginOffTime = \<lparr>m_seconds = 0, m_thousandths = 0\<rparr>, defeatEquipMinOffTime = False, abortOnOffCycle = False,
     vOutputs = \<lparr>indoorFan = 0, indoorFanCont = 0, indoorStages = [0, 0, 0], outdoorFan = 0, outdoorStages = [0], sovInHeating = False\<rparr>,
     cycleInfo = \<lparr>beginOnTime = \<lparr>m_seconds = 0, m_thousandths = 0\<rparr>, beginOffTime = \<lparr>m_seconds = 0, m_thousandths = 0\<rparr>, ci_onTime = 0, ci_offTime = 0,
       ci_mode = eOFF_CYCLE\<rparr>, systemOn = False\<rparr>"

definition sample_control :: control where
  "sample_control = \<lparr>m_equipment = IndoorHeating 0 1 2, m_sysCfgSequenceNumber = 0,
     ctl_stages = [Basic (BasicIndoorHeat True) 0 0, Basic (BasicIndoorHeat True) 1 1, Basic (BasicIndoorHeat True) 2 2]\<rparr>"

definition sample_input :: control_in where
  "sample_input = \<lparr>in_valid = True, in_args = sample_args, in_args_at = 7, in_sequence = 1, in_operatingModeChanged = True\<rparr>"

definition sample_plant :: plant where
  "sample_plant = \<lparr>the_stages = [(Basic (BasicIndoorHeat True) 0 0)\<lparr>m_initialized := True, m_args := Some 7, m_startTime := \<lparr>m_seconds = 100, m_thousandths = 0\<rparr>,
       stateVars := \<lparr>stateVar = Active, stateVarActive = Cycling, stateVarCycling = OffCycle, stateVarOnCycle = StartingOn, stateVarOffCycle = OffTime\<rparr>\<rparr>],
     args_at = 7, the_args = sample_args\<rparr>"

lemma sample_times: "cfg_ok sample_unit sample_args"
proof -
  have "times_ok sample_unit sample_args 0" "times_ok sample_unit sample_args 1" "times_ok sample_unit sample_args 2"
    by code_simp+
  then show ?thesis unfolding cfg_ok_def using less_three by blast
qed

lemma sample_input_ok: "input_ok sample_unit 7 sample_control v False sample_input"
  using sample_times by (simp add: input_fit_def to_reset_def sample_input_def sample_control_def) (simp add: sample_args_def)

lemma sample_reach: "control_reach sample_unit 7 sample_control v False"
  by (rule control_reach.start) (simp_all add: sample_control_def)

section \<open>Properties\<close>

text \<open>
  C32. A run of a cycling stage ends its half-cycle exactly when it is over: with the cycle information of its own
  half-cycle, the stage changes from its on cycle to its off cycle or back exactly when the time since the
  half-cycle began has reached the time calculated for the present load, or the white-box flag asks for it; its output
  follows, and no other stage is touched.
\<close>
theorem stage_ends_half_cycle_when_over:
  assumes "ready fu i p" and "idle i p" and "cycles i on p" and "ci_mode (cycleInfo (the_args p)) = half_mode on"
  shows "\<exists>p'. Basic_execute fu i p = Some p' \<and> (isInOnCycle (stg p' i) \<longleftrightarrow> on \<noteq> half_over fu on i p) \<and>
    (isInOffCycle (stg p' i) \<longleftrightarrow> on = half_over fu on i p) \<and>
    output_at (the_args p') (slot (stg p i)) = half_out (on \<noteq> half_over fu on i p) \<and> idle i p' \<and>
    ci_mode (cycleInfo (the_args p')) = half_mode (on \<noteq> half_over fu on i p) \<and> (\<forall>k. k \<noteq> i \<longrightarrow> stg p' k = stg p k)"
proof -
  define f where "f = (\<lambda>s. s\<lparr>m_args := Some (args_at p)\<rparr> :: stage)"
  define p1 where "p1 = upd_stg i f p"
  have i: "i < length (the_stages p)" using assms(1) by (simp add: ready_def)
  have fr: "frame i p p1" unfolding p1_def by (rule frame_upd_stg [OF _ i]) (simp add: f_def static_def)
  have s1: "stg p1 i = f (stg p i)" "the_args p1 = the_args p" "args_at p1 = args_at p" using i by (simp_all add: p1_def stg_upd_stg)
  have "ready fu i p1" using ready_frame [OF fr] assms(1) by simp
  moreover have "idle i p1" "m_args (stg p1 i) = Some (args_at p1)" "cycles i on p1"
    using assms(2,3) by (simp_all add: s1 f_def idle_def cycles_def slot_def)
  ultimately obtain p' where p': "generateEvent fu i FSM_NO_MSG p1 = Some p'" "kept i p1 p'"
    "if ci_mode (cycleInfo (the_args p1)) = half_mode on \<and> half_over fu on i p1 then settled i (\<not> on) p'
     else cycles i on p' \<and> ci_mode (cycleInfo (the_args p')) = ci_mode (cycleInfo (the_args p1))"
    using run_cycle [of fu i p1 on FSM_NO_MSG] by auto
  have over: "half_over fu on i p1 = half_over fu on i p" by (simp add: half_over_def s1 f_def)
  let ?on = "on \<noteq> half_over fu on i p"
  have c: "cycles i ?on p'" "ci_mode (cycleInfo (the_args p')) = half_mode ?on"
    using p'(3) assms(4) settled_cycles by (auto simp: over s1 settled_def split: if_splits)
  have fr': "frame i p p'" using frame_trans [OF fr] p'(2) by (simp add: kept_def)
  have "idle i p'" using p'(2) assms(2) c(1) by (auto simp: kept_def links_def idle_def s1 f_def cycles_def)
  moreover have "slot (stg p' i) = slot (stg p i)" by (rule static_slot [OF frameD(3) [OF fr']])
  moreover have "Basic_execute fu i p = Some p'" using p'(1) by (simp add: Basic_execute_def p1_def f_def)
  ultimately show ?thesis
    using c frameD(2) [OF fr'] by (auto simp: isInOnCycle_def isInOffCycle_def cycles_def in_half_def split: if_splits)
qed

theorem stage_ends_half_cycle_when_over_witness:
  "\<exists>p'. Basic_execute sample_unit 0 sample_plant = Some p' \<and> isInOnCycle (stg p' 0) \<and> indoorStages (vOutputs (the_args p')) ! 0 = VIRTUAL_OUTPUTS_ON"
proof -
  have r: "ready sample_unit 0 sample_plant"
    using sample_times by (simp add: ready_def cfg_ok_def stg_def slot_def slot_ok_def sample_plant_def Basic_def) (simp add: sample_args_def)
  have i: "idle 0 sample_plant" "cycles 0 False sample_plant" "ci_mode (cycleInfo (the_args sample_plant)) = half_mode False"
    by (simp_all add: idle_def cycles_def in_half_def half_mode_def half_out_def output_at_def slot_def stg_def sample_plant_def sample_args_def Basic_def VIRTUAL_OUTPUTS_OFF_def)
  have o: "half_over sample_unit False 0 sample_plant" by code_simp
  have "slot (stg sample_plant 0) = (False, 0)" by (simp add: slot_def stg_def sample_plant_def Basic_def)
  then show ?thesis using stage_ends_half_cycle_when_over [OF r i] o by (auto simp: output_at_def half_out_def)
qed

text \<open>
  The control of the indoor heating never fails: from its construction on, in every sequence of runs with valid
  configurations, changes of the operating mode and resets included, each run returns with success. No assertion fails,
  no event queue overflows, no stage is notified that is not there, and the loops over the events come to an end.
\<close>
theorem control_never_fails:
  assumes "control_reach fu a c v synced" and "input_ok fu a c v synced inp"
  shows "\<exists>out c'. Control_execute fu interval inp c = Some (True, out, c')"
  using heat.step [OF control_reach_inv [OF assms(1)] assms(2)] by blast

theorem control_never_fails_witness:
  "\<exists>out c'. Control_execute sample_unit \<lparr>m_seconds = 1000, m_thousandths = 0\<rparr> sample_input sample_control = Some (True, out, c')"
  by (rule control_never_fails [OF sample_reach sample_input_ok])

text \<open>
  C10. After every run in heating mode, for some number \<open>n\<close> of stages in use, the stages below the last of them
  supplement it, the last one is the active one, and the stages above are off; no stage is in transition; and the output of
  a stage is on exactly when it supplements or is in its on cycle.
\<close>
theorem heating_outputs_follow_stages:
  assumes "control_reach fu a c v True"
  shows "\<exists>n\<le>3. \<forall>i<3. (isInSupplementingNextStage (ctl_stages c ! i) \<longleftrightarrow> Suc i < n) \<and> (isInActive (ctl_stages c ! i) \<longleftrightarrow> Suc i = n) \<and>
    (isInOff (ctl_stages c ! i) \<longleftrightarrow> n \<le> i) \<and> \<not> isInTransitioningFromLowerStage (ctl_stages c ! i) \<and>
    \<not> isInTransitioningBackToLowerStage (ctl_stages c ! i) \<and>
    indoorStages v ! i = (if isInSupplementingNextStage (ctl_stages c ! i) \<or> isInOnCycle (ctl_stages c ! i) then VIRTUAL_OUTPUTS_ON else VIRTUAL_OUTPUTS_OFF)"
proof -
  have "in_use (plant_of c a (undefined\<lparr>vOutputs := v\<rparr>))"
    using control_reach_inv [OF assms] by (simp add: control_fit_def)
  then obtain n where h: "heating n (plant_of c a (undefined\<lparr>vOutputs := v\<rparr>))" by (auto simp: in_use_def)
  have level: "at_level n i (plant_of c a (undefined\<lparr>vOutputs := v\<rparr>))" if "i < 3" for i by (rule heatingD(1) [OF h that])
  have "(isInSupplementingNextStage (ctl_stages c ! i) \<longleftrightarrow> Suc i < n) \<and> (isInActive (ctl_stages c ! i) \<longleftrightarrow> Suc i = n) \<and>
    (isInOff (ctl_stages c ! i) \<longleftrightarrow> n \<le> i) \<and> \<not> isInTransitioningFromLowerStage (ctl_stages c ! i) \<and>
    \<not> isInTransitioningBackToLowerStage (ctl_stages c ! i) \<and>
    indoorStages v ! i = (if isInSupplementingNextStage (ctl_stages c ! i) \<or> isInOnCycle (ctl_stages c ! i) then VIRTUAL_OUTPUTS_ON else VIRTUAL_OUTPUTS_OFF)"
    if "i < 3" for i
    using level [OF that]
    by (cases "n \<le> i"; cases "Suc i = n")
      (auto simp: at_level_def is_off_def supplements_def cycles_def in_half_def half_out_def plant_of_def stg_def output_at_def slot_def
        isInSupplementingNextStage_def isInActive_def isInOff_def isInOnCycle_def isInTransitioningFromLowerStage_def
        isInTransitioningBackToLowerStage_def)
  moreover have "n \<le> 3" using h by (simp add: heating_def)
  ultimately show ?thesis by blast
qed

theorem heating_outputs_follow_stages_witness:
  "\<exists>c v. control_reach sample_unit 7 c v True \<and>
    (\<exists>n\<le>3. \<forall>i<3. (isInActive (ctl_stages c ! i) \<longleftrightarrow> Suc i = n) \<and> (isInOff (ctl_stages c ! i) \<longleftrightarrow> n \<le> i))"
proof -
  let ?v = "vOutputs sample_args"
  obtain out c' where e: "Control_execute sample_unit \<lparr>m_seconds = 1000, m_thousandths = 0\<rparr> sample_input sample_control = Some (True, out, c')"
    using heat.step [OF control_reach_inv [OF sample_reach] sample_input_ok] by blast
  have "control_reach sample_unit 7 c' (outputs_after out ?v) True"
    using control_reach.run [OF sample_reach sample_input_ok e, of ?v] by (simp add: synced_after_def getOperatingMode_def sample_input_def sample_args_def)
  then show ?thesis using heating_outputs_follow_stages [of sample_unit 7 c' "outputs_after out ?v"] by fast
qed

end
