(* ===== verification/Cooling_Inv.thy ===== *)
theory Cooling_Inv
  imports Thermostat_Inv
begin

text \<open>
  The invariant of the cooling: its one stage is off or cycles, its output says the same, and every run of the
  control keeps it.  The cooling is an instance of \<open>equipment_logic\<close>, beside the indoor heating.
\<close>

section \<open>The invariant\<close>

definition cool_stage :: "plant \<Rightarrow> bool" where
  "cool_stage p \<longleftrightarrow> length (the_stages p) = 1 \<and> slot (stg p 0) = (True, 0) \<and> m_systemIndex (stg p 0) = 0 \<and> m_initialized (stg p 0) \<and>
     idle 0 p \<and> \<not> m_supplemented (stg p 0)"

definition cooling :: "plant \<Rightarrow> bool" where
  "cooling p \<longleftrightarrow> cool_stage p \<and> slot_ok (the_args p) (True, 0) \<and>
     (is_off 0 p \<or> m_args (stg p 0) = Some (args_at p) \<and> (\<exists>on. cycles 0 on p))"

text \<open>A stage between two runs, whatever the outputs are.\<close>

definition cool_rest :: "plant \<Rightarrow> bool" where
  "cool_rest p \<longleftrightarrow> length (the_stages p) = 1 \<and> m_initialized (stg p 0) \<and> stg_class (stg p 0) = BasicCooling \<and> idle 0 p \<and>
     (forgotten 0 p \<or> slot (stg p 0) = (True, 0) \<and> m_systemIndex (stg p 0) = 0 \<and> m_args (stg p 0) = Some (args_at p) \<and>
       (\<exists>on. in_half on True (stateVars (stg p 0))))"

definition cool_cfg :: "float_unit \<Rightarrow> args \<Rightarrow> bool" where
  "cool_cfg fu a \<longleftrightarrow> times_ok fu a 0"

lemma cooling_rest: "cooling p \<Longrightarrow> cool_rest p"
  by (auto simp: cooling_def cool_stage_def cool_rest_def forgotten_def is_off_def cycles_def slot_def)

lemma cooling_args:
  assumes "cooling p" and "outdoorStages (vOutputs ar) = outdoorStages (vOutputs (the_args p))"
  shows "cooling (p\<lparr>the_args := ar\<rparr>)"
proof -
  have "output_at ar (True, i) = output_at (the_args p) (True, i)" "slot_ok ar (True, i) = slot_ok (the_args p) (True, i)" for i
    using assms(2) by (simp_all add: output_at_def slot_ok_def)
  moreover have "stg (p\<lparr>the_args := ar\<rparr>) i = stg p i" for i by (simp add: stg_def)
  ultimately show ?thesis using assms(1) by (auto simp: cooling_def cool_stage_def idle_def is_off_def cycles_def)
qed

section \<open>Requests and runs keep it\<close>

text \<open>A step that keeps the links of the stage and leaves it off or in a cycle.\<close>

lemma kept_cooling:
  assumes p: "cooling p" and k: "kept 0 p p'" and s: "is_off 0 p' \<or> m_args (stg p' 0) = Some (args_at p') \<and> (\<exists>on. cycles 0 on p')"
  shows "cooling p' \<and> frame 0 p p'"
proof -
  have fr: "frame 0 p p'" and l: "links (stg p' 0) = links (stg p 0)" using k by (simp_all add: kept_def)
  have "m_eventQue (stg p' 0) = []" using s by (auto simp: is_off_def cycles_def)
  then show ?thesis
    using p s l fr frameD(1) [OF fr] frameD(3) [OF fr, of 0] frameD(7) [OF fr, of "(True, 0)"] static_slot [OF frameD(3) [OF fr, of 0]]
    by (auto simp: cooling_def cool_stage_def static_def idle_def links_def)
qed

text \<open>What the requests store before they generate their event.\<close>

lemma cool_prepare:
  assumes "cooling p" and f: "\<And>s. static (f s) = static s" "\<And>s. stateVars (f s) = stateVars s" "\<And>s. m_eventQue (f s) = m_eventQue s"
      "\<And>s. m_processingFsmEvent (f s) = m_processingFsmEvent s" "m_args (f (stg p 0)) = Some (args_at p)" "\<not> m_supplemented (f (stg p 0))"
  shows "cooling (upd_stg 0 f p)" and "frame 0 p (upd_stg 0 f p)" and "m_args (stg (upd_stg 0 f p) 0) = Some (args_at (upd_stg 0 f p))"
proof -
  have l: "0 < length (the_stages p)" using assms(1) by (simp add: cooling_def cool_stage_def)
  have s: "stg (upd_stg 0 f p) 0 = f (stg p 0)" using l by (simp add: stg_upd_stg)
  show "frame 0 p (upd_stg 0 f p)" by (rule frame_upd_stg [OF f(1) l])
  have st: "m_systemIndex (f (stg p 0)) = m_systemIndex (stg p 0)" "m_initialized (f (stg p 0)) = m_initialized (stg p 0)"
    using f(1) [of "stg p 0"] by (simp_all add: static_def)
  show "cooling (upd_stg 0 f p)"
    using assms(1) f(5,6) static_slot [OF f(1), of "stg p 0"] st
    by (auto simp: cooling_def cool_stage_def s f idle_def is_off_def cycles_def)
  show "m_args (stg (upd_stg 0 f p) 0) = Some (args_at (upd_stg 0 f p))" by (simp add: s f(5))
qed

lemma cool_ready: "cooling p \<Longrightarrow> cool_cfg fu (the_args p) \<Longrightarrow> ready fu 0 p \<and> idle 0 p"
  by (simp add: cooling_def cool_stage_def ready_def cool_cfg_def)

lemma cool_frame_cfg: "frame i p p' \<Longrightarrow> cool_cfg fu (the_args p') = cool_cfg fu (the_args p)"
  using times_inputs [OF frameD(5)] by (simp add: cool_cfg_def)

definition cools :: "plant \<Rightarrow> plant option \<Rightarrow> bool" where
  "cools p r \<longleftrightarrow> (\<exists>p'. r = Some p' \<and> cooling p' \<and> frame 0 p p')"

lemma cool_event:
  assumes p: "cooling p" and c: "cool_cfg fu (the_args p)" and a: "m_args (stg p 0) = Some (args_at p)"
    and e: "e = FSM_NO_MSG \<or> e = Fsm_evOnRequest"
  shows "cools p (generateEvent fu 0 e p)"
proof -
  note r = cool_ready [OF p c]
  consider "is_off 0 p" | on where "cycles 0 on p" using p by (auto simp: cooling_def)
  then show ?thesis
  proof cases
    case 1
    show ?thesis
    proof (cases "e = FSM_NO_MSG")
      case True
      then have "generateEvent fu 0 e p = Some p" using r 1 by (intro ignored) (auto simp: ready_def is_off_def)
      then show ?thesis using p by (simp add: cools_def)
    next
      case False
      then have "e = Fsm_evOnRequest" using e by simp
      moreover have "\<not> m_supplemented (stg p 0)" "stateVar (stateVars (stg p 0)) = Off" using p 1 by (simp_all add: cooling_def cool_stage_def is_off_def)
      ultimately obtain p' on where p': "generateEvent fu 0 e p = Some p'" "kept 0 p p'" "settled 0 on p'"
        using on_request_first [of fu 0 p] r a by blast
      moreover have "m_args (stg p' 0) = Some (args_at p')" using p'(2) a frameD(4) [of 0 p p'] by (simp add: kept_def links_def)
      ultimately show ?thesis using kept_cooling [OF p p'(2)] settled_cycles [OF p'(3)] by (auto simp: cools_def)
    qed
  next
    case 2
    obtain p' on' where p': "generateEvent fu 0 e p = Some p'" "kept 0 p p'" "cycles 0 on' p'"
      using run_cycle_some [OF _ _ a 2 e] r by blast
    moreover have "m_args (stg p' 0) = Some (args_at p')" using p'(2) a frameD(4) [of 0 p p'] by (simp add: kept_def links_def)
    ultimately show ?thesis using kept_cooling [OF p p'(2)] by (auto simp: cools_def)
  qed
qed

lemma cools_after:
  assumes "cools p1 r" and "frame 0 p p1"
  shows "cools p r"
  using assms frame_trans unfolding cools_def by blast

lemma cools_bind:
  assumes "cools p r" and "\<And>p'. cooling p' \<Longrightarrow> frame 0 p p' \<Longrightarrow> cools p' (g p')"
  shows "cools p (Option.bind r g)"
proof -
  obtain p1 where 1: "r = Some p1" "cooling p1" "frame 0 p p1" using assms(1) by (auto simp: cools_def)
  show ?thesis using cools_after [OF assms(2) [OF 1(2,3)] 1(3)] 1(1) by simp
qed

lemma cools_same: "cooling p \<Longrightarrow> cools p (Some p)"
  by (simp add: cools_def)

lemma cool_requests:
  assumes p: "cooling p" and c: "cool_cfg fu (the_args p)"
  shows "cools p (Basic_requestOn fu 0 b p)" and "cools p (Basic_execute fu 0 p)"
proof -
  define f where "f = (\<lambda>s. s\<lparr>m_args := Some (args_at p), m_startInOffCycle := \<not> b, m_supplemented := False\<rparr> :: stage)"
  note q = cool_prepare [of p f, OF p] and c' = cool_frame_cfg [of 0 p "upd_stg 0 f p" fu]
  have "cools (upd_stg 0 f p) (generateEvent fu 0 Fsm_evOnRequest (upd_stg 0 f p))"
    using q c' c by (intro cool_event) (simp_all add: f_def static_def)
  moreover have "frame 0 p (upd_stg 0 f p)" using q by (simp add: f_def static_def)
  ultimately show "cools p (Basic_requestOn fu 0 b p)" unfolding Basic_requestOn_def f_def by (rule cools_after)
next
  define f where "f = (\<lambda>s. s\<lparr>m_args := Some (args_at p)\<rparr> :: stage)"
  have "\<not> m_supplemented (stg p 0)" using p by (simp add: cooling_def cool_stage_def)
  note q = cool_prepare [of p f, OF p] and c' = cool_frame_cfg [of 0 p "upd_stg 0 f p" fu] and s = this
  have "cools (upd_stg 0 f p) (generateEvent fu 0 FSM_NO_MSG (upd_stg 0 f p))"
    using q c' c s by (intro cool_event) (simp_all add: f_def static_def)
  moreover have "frame 0 p (upd_stg 0 f p)" using q s by (simp add: f_def static_def)
  ultimately show "cools p (Basic_execute fu 0 p)" unfolding Basic_execute_def f_def by (rule cools_after)
qed

lemma cool_request_off:
  assumes p: "cooling p" and c: "cool_cfg fu (the_args p)" and act: "isInActive (stg p 0)"
  shows "cools p (request_off_when_met fu 0 0 p)"
proof -
  define f where "f = (\<lambda>s. s\<lparr>m_args := Some (args_at p), m_requestOffStartInOnCycle := True\<rparr> :: stage)"
  define q where "q = upd_stg 0 f p"
  have "\<not> m_supplemented (stg p 0)" using p by (simp add: cooling_def cool_stage_def)
  then have q: "cooling q" "frame 0 p q" "m_args (stg q 0) = Some (args_at q)"
    unfolding q_def by (intro cool_prepare [OF p]; simp add: f_def static_def)+
  have "stateVars (stg q 0) = stateVars (stg p 0)"
    using p by (simp add: q_def f_def stg_upd_stg cooling_def cool_stage_def)
  then obtain on where cy: "cycles 0 on q" using q(1) act by (auto simp: cooling_def is_off_def isInActive_def)
  have "cool_cfg fu (the_args q)" using cool_frame_cfg [OF q(2)] c by simp
  then obtain p' where p': "generateEvent fu 0 Fsm_evExcessCapacity q = Some p'" "kept 0 q p'" "is_off 0 p'"
    using excess_first [of fu 0 q on] cool_ready [OF q(1), of fu] q(1,3) cy by (auto simp: cooling_def cool_stage_def)
  then have "cools q (generateEvent fu 0 Fsm_evExcessCapacity q)" using kept_cooling [OF q(1) p'(2)] by (simp add: cools_def)
  then have "cools p (Basic_requestOff fu 0 True p)"
    unfolding Basic_requestOff_def using cools_after [OF _ q(2)] by (simp add: q_def f_def)
  moreover have "0 < length (cfg_stages (systemConfig (the_args p)))" using c by (simp add: cool_cfg_def times_ok_def)
  ultimately show ?thesis using cools_same [OF p] by (simp add: request_off_when_met_def Let_def)
qed

lemma snd_of_result: "map_option snd (Option.bind r (\<lambda>p. Some (b, p))) = r"
  by (cases r) simp_all

lemma cool_active:
  assumes p: "cooling p" and c: "cool_cfg fu (the_args p)" and n: "numCompressorStages (systemConfig (the_args p)) = 1"
  shows "\<exists>p'. Cooling_executeActive fu 0 p = Some (True, p') \<and> cooling p' \<and> frame 0 p p'"
proof -
  have "cools p (map_option snd (Cooling_singleStage fu 0 p))"
    using cool_requests(1) [OF p c, of True] cools_same [OF p] cool_request_off [OF p c]
    by (simp add: Cooling_singleStage_def snd_of_result)
  then obtain b p1 where 1: "Cooling_singleStage fu 0 p = Some (b, p1)" "cooling p1" "frame 0 p p1" by (auto simp: cools_def)
  have "cool_cfg fu (the_args p1)" using cool_frame_cfg [OF 1(3)] c by simp
  from cools_after [OF cool_requests(2) [OF 1(2) this] 1(3)] obtain p2 where "Basic_execute fu 0 p1 = Some p2" "cooling p2" "frame 0 p p2"
    by (auto simp: cools_def)
  then show ?thesis using n 1(1) by (simp add: Cooling_executeActive_def)
qed

section \<open>Turning off\<close>

lemma cool_mode_off:
  assumes p: "cool_rest p" and "forgotten 0 p \<or> slot_ok (the_args p) (slot (stg p 0)) \<and> times_ok fu (the_args p) (m_systemIndex (stg p 0))"
  shows "\<exists>p'. Basic_requestModeToOff fu 0 p = Some p' \<and> frame 0 p p' \<and> forgotten 0 p' \<and> (\<forall>x. output_at (the_args p') x = output_at (the_args p) x)"
proof (cases "forgotten 0 p")
  case True
  then have "generateEvent fu 0 Fsm_evOffModeRequest p = Some p" using p by (intro ignored) (auto simp: forgotten_def cool_rest_def)
  then show ?thesis using True by (auto simp: Basic_requestModeToOff_def)
next
  case False
  then have "ready fu 0 p" using assms by (simp add: ready_def cool_rest_def)
  then show ?thesis using off_mode [of fu 0 p] p False by (auto simp: cool_rest_def Basic_requestModeToOff_def)
qed

lemma cool_reset:
  assumes p: "cool_rest p" and c: "cool_cfg fu (the_args p)" and out: "slot_ok (the_args p) (True, 0)" "output_at (the_args p) (True, 0) = VIRTUAL_OUTPUTS_OFF"
  shows "\<exists>p'. Cooling_reset fu 0 p = Some p' \<and> cooling p' \<and> inputs (the_args p') = inputs (the_args p) \<and> args_at p' = args_at p \<and>
    (\<forall>x. slot_ok (the_args p') x = slot_ok (the_args p) x \<and> output_at (the_args p') x = output_at (the_args p) x)"
proof -
  define q where "q = Basic_reconfigure 0 0 0 p"
  have q: "stg q 0 = (stg p 0)\<lparr>m_systemIndex := 0, m_outIndex := 0\<rparr>" "the_args q = the_args p" "args_at q = args_at p" "length (the_stages q) = 1"
    using p by (simp_all add: q_def Basic_reconfigure_def stg_upd_stg cool_rest_def)
  have r: "cool_rest q" "slot (stg q 0) = (True, 0)" using p q by (auto simp: cool_rest_def forgotten_def idle_def slot_def)
  obtain p' where p': "Basic_requestModeToOff fu 0 q = Some p'" "frame 0 q p'" "forgotten 0 p'" "\<forall>x. output_at (the_args p') x = output_at (the_args q) x"
    using cool_mode_off [OF r(1), of fu] out(1) c q r(2) by (auto simp: cool_cfg_def)
  note s = frameD(3) [OF p'(2), of 0]
  have "cooling p'"
    using p'(3,4) static_slot [OF s] s r out q frameD(1) [OF p'(2)] frameD(7) [OF p'(2), of "(True, 0)"]
    by (auto simp: cooling_def cool_stage_def static_def forgotten_def idle_def is_off_def cool_rest_def)
  then show ?thesis using p' q frameD(4,5) [OF p'(2)] frameD(7) [OF p'(2)] by (simp add: Cooling_reset_def q_def)
qed

lemma cool_off:
  assumes p: "cool_rest p" and c: "cool_cfg fu (the_args p)" and out: "slot_ok (the_args p) (True, 0)"
  shows "\<exists>p'. Basic_requestModeToOff fu 0 p = Some p' \<and> cool_rest p' \<and> args_at p' = args_at p"
proof -
  obtain p' where p': "Basic_requestModeToOff fu 0 p = Some p'" "frame 0 p p'" "forgotten 0 p'"
    using cool_mode_off [OF p, of fu] p c out by (auto simp: cool_rest_def cool_cfg_def)
  then show ?thesis
    using p frameD(1,4) [OF p'(2)] frameD(3) [OF p'(2), of 0] by (auto simp: cool_rest_def static_def forgotten_def)
qed

section \<open>The control of the cooling\<close>

abbreviation cool_runs :: "plant \<Rightarrow> bool" where
  "cool_runs p \<equiv> cooling p \<and> length (outdoorStages (vOutputs (the_args p))) = 1"

lemma length_slots:
  assumes "\<And>i. slot_ok a (b, i) = slot_ok a' (b, i)"
  shows "length (if b then outdoorStages (vOutputs a) else indoorStages (vOutputs a)) = length (if b then outdoorStages (vOutputs a') else indoorStages (vOutputs a'))"
  using assms unfolding slot_ok_def fst_conv snd_conv by (metis linorder_neqE_nat less_irrefl)

lemma frame_outputs:
  assumes "frame 0 p p'" and "slot (stg p 0) = (True, 0)"
  shows "indoorStages (vOutputs (the_args p')) = indoorStages (vOutputs (the_args p))"
    and "length (outdoorStages (vOutputs (the_args p'))) = length (outdoorStages (vOutputs (the_args p)))"
  using outputs_of_slots [of "the_args p'" False "the_args p"] length_slots [of "the_args p'" True "the_args p"]
    frameD(7,8) [OF assms(1)] assms(2) by auto

lemma cool_active_outputs:
  assumes "cooling p" and "length (outdoorStages (vOutputs (the_args p))) = 1" and "cool_cfg fu (the_args p)"
    and "numCompressorStages (systemConfig (the_args p)) = 1"
  shows "\<exists>p'. Cooling_executeActive fu 0 p = Some (True, p') \<and> cool_runs p' \<and> args_at p' = args_at p \<and>
    indoorStages (vOutputs (the_args p')) = indoorStages (vOutputs (the_args p))"
proof -
  obtain p' where p': "Cooling_executeActive fu 0 p = Some (True, p')" "cooling p'" "frame 0 p p'" using cool_active [OF assms(1,3,4)] by blast
  moreover have "slot (stg p 0) = (True, 0)" using assms(1) by (simp add: cooling_def cool_stage_def)
  ultimately show ?thesis using frame_outputs [OF p'(3)] frameD(4) [OF p'(3)] assms(2) by simp
qed

lemma cool_reset_outputs:
  assumes "cool_rest p" and "cool_cfg fu (the_args p)" and l: "length (outdoorStages (vOutputs (the_args p))) = 1"
    and o: "set (outdoorStages (vOutputs (the_args p))) \<subseteq> {VIRTUAL_OUTPUTS_OFF}"
  shows "\<exists>p'. Cooling_reset fu 0 p = Some p' \<and> cool_runs p' \<and> inputs (the_args p') = inputs (the_args p) \<and> args_at p' = args_at p \<and>
    indoorStages (vOutputs (the_args p')) = indoorStages (vOutputs (the_args p))"
proof -
  have "slot_ok (the_args p) (True, 0)" "output_at (the_args p) (True, 0) = VIRTUAL_OUTPUTS_OFF"
    using l subsetD [OF o nth_mem, of 0] by (simp_all add: slot_ok_def output_at_def)
  then obtain p' where p': "Cooling_reset fu 0 p = Some p'" "cooling p'" "inputs (the_args p') = inputs (the_args p)" "args_at p' = args_at p"
    "\<forall>x. slot_ok (the_args p') x = slot_ok (the_args p) x \<and> output_at (the_args p') x = output_at (the_args p) x"
    using cool_reset [OF assms(1,2)] by blast
  have "indoorStages (vOutputs (the_args p')) = indoorStages (vOutputs (the_args p))"
    using outputs_of_slots [of "the_args p'" False "the_args p"] p'(5) by simp
  moreover have "length (outdoorStages (vOutputs (the_args p'))) = 1"
    using length_slots [of "the_args p'" True "the_args p"] p'(5) l by simp
  ultimately show ?thesis using p' by blast
qed

interpretation cool: equipment_logic "Cooling 0" cool_rest cool_runs outdoorStages indoorStages 1 "cool_cfg fu" "\<lambda>s. numCompressorStages s = 1" fu for fu
proof
  fix p ar v a b t
  show "cool_runs p \<Longrightarrow> cool_rest p" using cooling_rest by blast
  show "cool_rest p \<Longrightarrow> cool_rest (p\<lparr>the_args := ar\<rparr>)" by (auto simp: cool_rest_def forgotten_def idle_def stg_def)
  show "cool_runs p \<Longrightarrow> outdoorStages (vOutputs ar) = outdoorStages (vOutputs (the_args p)) \<Longrightarrow> cool_runs (p\<lparr>the_args := ar\<rparr>)"
    using cooling_args by simp
  show "cool_runs p \<Longrightarrow> length (outdoorStages (vOutputs (the_args p))) = 1 \<and> set (outdoorStages (vOutputs (the_args p))) \<subseteq> {VIRTUAL_OUTPUTS_OFF, VIRTUAL_OUTPUTS_ON}"
    by (cases "outdoorStages (vOutputs (the_args p))") (auto simp: cooling_def cool_stage_def is_off_def cycles_def half_out_def output_at_def)
  show "outdoorStages (setCapacityOff v) = map (\<lambda>_. 0) (outdoorStages v)" "indoorStages (setCapacityOff v) = map (\<lambda>_. 0) (indoorStages v)"
    by (simp_all add: setCapacityOff_def)
  show "inputs a = inputs b \<Longrightarrow> cool_cfg fu a \<Longrightarrow> cool_cfg fu b" using times_inputs [of a b fu] by (simp add: cool_cfg_def)
  show "cool_cfg fu a \<Longrightarrow> cool_cfg fu (a\<lparr>currentInterval := t\<rparr>)" by (simp add: cool_cfg_def times_ok_def onT_def offT_def)
  show "cool_rest p \<Longrightarrow> cool_cfg fu (the_args p) \<Longrightarrow> length (outdoorStages (vOutputs (the_args p))) = 1 \<Longrightarrow>
      set (outdoorStages (vOutputs (the_args p))) \<subseteq> {VIRTUAL_OUTPUTS_OFF} \<Longrightarrow>
      \<exists>p'. equipment_reset fu (Cooling 0) p = Some p' \<and> cool_runs p' \<and> inputs (the_args p') = inputs (the_args p) \<and> args_at p' = args_at p \<and>
        indoorStages (vOutputs (the_args p')) = indoorStages (vOutputs (the_args p))"
    using cool_reset_outputs [of p fu] by (simp add: equipment_reset_def)
  show "cool_runs p \<Longrightarrow> cool_cfg fu (the_args p) \<Longrightarrow> numCompressorStages (systemConfig (the_args p)) = 1 \<Longrightarrow>
      \<exists>p'. executeActive fu (Cooling 0) p = Some (True, p') \<and> cool_runs p' \<and> args_at p' = args_at p \<and>
        indoorStages (vOutputs (the_args p')) = indoorStages (vOutputs (the_args p))"
    using cool_active_outputs [of p fu] by (simp add: executeActive_def)
  show "cool_rest p \<Longrightarrow> cool_cfg fu (the_args p) \<Longrightarrow> length (outdoorStages (vOutputs (the_args p))) = 1 \<Longrightarrow>
      \<exists>p'. executeOff fu (Cooling 0) p = Some (True, p') \<and> cool_rest p' \<and> args_at p' = args_at p"
    using cool_off [of p fu] by (auto simp: executeOff_def slot_ok_def)
qed

lemma cooling_start:
  assumes "ctl_stages c = [Basic BasicCooling s0 o0]"
  shows "cool_rest (plant_of c a ar)"
  using assms by (simp add: cool_rest_def forgotten_def idle_def plant_of_def stg_def Basic_def)

end
