(* ===== verification/Model_Points.thy ===== *)
theory Model_Points
  imports Prelude
begin

text \<open>
  The data model (\<^verbatim>\<open>src/src/Cpl/Dm\<close>): model points (\<^verbatim>\<open>ModelPointCommon_.cpp\<close>), their subscribers
  (\<^verbatim>\<open>Subscriber.cpp\<close>) and the event loops that deliver the change notifications (\<^verbatim>\<open>EventLoop.cpp\<close>).  All of them live in one
  \<open>data_model\<close>.  The lists of subscribers are represented by their sequences (the lists themselves are the template of
  the theory on \<^verbatim>\<open>DList.h\<close>) together with the container mark of every subscriber, so a double insertion is a fatal
  error here too.  A method of a model point holds the lock of the database from its first to its last statement: it is one step.
\<close>

section \<open>State\<close>

datatype sub_state = eSTATE_UNSUBSCRIBED | eSTATE_IDLE | eSTATE_NOTIFY_PENDING | eSTATE_NOTIFY_NOTIFYING | eSTATE_NOTIFY_PENDING_DETACH

datatype sub_event = eATTACH | eDETACH | eDATA_CHANGED | eNOTIFYING | eNOTIFY_COMPLETE

datatype lock_request = eNO_REQUEST | eLOCK | eUNLOCK

text \<open>The container of a subscriber: the list of a model point or the list of an event loop.\<close>

datatype sub_list = Subscribers addr | PendingOf addr

record subscriber =
  m_state :: sub_state
  m_point :: ptr
  m_eventLoopHdl :: addr
  m_seqNumber :: u16
  m_inList :: "sub_list option"

record model_point =
  m_subscribers :: "addr list"
  m_data :: bytes
  m_dataSize :: nat
  m_seqNum :: u16
  m_locked :: bool
  m_valid :: bool

record event_loop =
  m_pendingMpNotifications :: "addr list"
  m_signals :: nat

record data_model =
  subscribers :: "addr \<Rightarrow> subscriber option"
  points :: "addr \<Rightarrow> model_point option"
  loops :: "addr \<Rightarrow> event_loop option"

definition SEQUENCE_NUMBER_UNKNOWN :: u16 where "SEQUENCE_NUMBER_UNKNOWN = 0"

definition SubscriberBase :: "addr \<Rightarrow> subscriber" where
  "SubscriberBase myEventLoop =
     \<lparr>m_state = eSTATE_UNSUBSCRIBED, m_point = None, m_eventLoopHdl = myEventLoop, m_seqNumber = SEQUENCE_NUMBER_UNKNOWN, m_inList = None\<rparr>"

definition upd_sub :: "addr \<Rightarrow> (subscriber \<Rightarrow> subscriber) \<Rightarrow> data_model \<Rightarrow> data_model option" where
  "upd_sub s f d = (case subscribers d s of None \<Rightarrow> None | Some n \<Rightarrow> Some (d\<lparr>subscribers := (subscribers d)(s \<mapsto> f n)\<rparr>))"

definition upd_point :: "addr \<Rightarrow> (model_point \<Rightarrow> model_point) \<Rightarrow> data_model \<Rightarrow> data_model option" where
  "upd_point mp f d = (case points d mp of None \<Rightarrow> None | Some p \<Rightarrow> Some (d\<lparr>points := (points d)(mp \<mapsto> f p)\<rparr>))"

definition upd_loop :: "addr \<Rightarrow> (event_loop \<Rightarrow> event_loop) \<Rightarrow> data_model \<Rightarrow> data_model option" where
  "upd_loop l f d = (case loops d l of None \<Rightarrow> None | Some e \<Rightarrow> Some (d\<lparr>loops := (loops d)(l \<mapsto> f e)\<rparr>))"

section \<open>Lists of subscribers\<close>

definition list_of :: "sub_list \<Rightarrow> data_model \<Rightarrow> addr list option" where
  "list_of c d = (case c of Subscribers mp \<Rightarrow> map_option m_subscribers (points d mp) | PendingOf l \<Rightarrow> map_option m_pendingMpNotifications (loops d l))"

definition set_list_of :: "sub_list \<Rightarrow> addr list \<Rightarrow> data_model \<Rightarrow> data_model option" where
  "set_list_of c xs = (case c of Subscribers mp \<Rightarrow> upd_point mp (\<lambda>p. p\<lparr>m_subscribers := xs\<rparr>) | PendingOf l \<Rightarrow> upd_loop l (\<lambda>e. e\<lparr>m_pendingMpNotifications := xs\<rparr>))"

definition list_put :: "sub_list \<Rightarrow> addr \<Rightarrow> data_model \<Rightarrow> data_model option" where
  "list_put c s d = do {
     n \<leftarrow> subscribers d s;
     c_assert (m_inList n = None);
     d \<leftarrow> upd_sub s (\<lambda>n. n\<lparr>m_inList := Some c\<rparr>) d;
     xs \<leftarrow> list_of c d;
     set_list_of c (xs @ [s]) d
   }"

definition list_get :: "sub_list \<Rightarrow> data_model \<Rightarrow> (ptr \<times> data_model) option" where
  "list_get c d = do {
     xs \<leftarrow> list_of c d;
     case xs of [] \<Rightarrow> Some (None, d)
     | s # ys \<Rightarrow> do {
         d \<leftarrow> set_list_of c ys d;
         d \<leftarrow> upd_sub s (\<lambda>n. n\<lparr>m_inList := None\<rparr>) d;
         Some (Some s, d)
       }
   }"

definition list_remove :: "sub_list \<Rightarrow> addr \<Rightarrow> data_model \<Rightarrow> data_model option" where
  "list_remove c s d = do {
     n \<leftarrow> subscribers d s;
     if m_inList n = Some c then do {
       xs \<leftarrow> list_of c d;
       d \<leftarrow> set_list_of c (remove1 s xs) d;
       upd_sub s (\<lambda>n. n\<lparr>m_inList := None\<rparr>) d
     } else Some d
   }"

section \<open>Subscribers and the notification list of an event loop\<close>

definition setState :: "addr \<Rightarrow> sub_state \<Rightarrow> data_model \<Rightarrow> data_model option" where
  "setState s newState = upd_sub s (\<lambda>n. n\<lparr>m_state := newState\<rparr>)"

definition setSequenceNumber :: "addr \<Rightarrow> u16 \<Rightarrow> data_model \<Rightarrow> data_model option" where
  "setSequenceNumber s newSeqNumber = upd_sub s (\<lambda>n. n\<lparr>m_seqNumber := newSeqNumber\<rparr>)"

definition setModelPoint :: "addr \<Rightarrow> ptr \<Rightarrow> data_model \<Rightarrow> data_model option" where
  "setModelPoint s modelPoint = upd_sub s (\<lambda>n. n\<lparr>m_point := modelPoint\<rparr>)"

text \<open>A subscriber without a model point is a fatal error here.\<close>

definition getModelPoint :: "addr \<Rightarrow> data_model \<Rightarrow> addr option" where
  "getModelPoint s d = do { n \<leftarrow> subscribers d s; m_point n }"

definition addPendingChangingNotification :: "addr \<Rightarrow> addr \<Rightarrow> data_model \<Rightarrow> data_model option" where
  "addPendingChangingNotification l s d = do {
     d \<leftarrow> list_put (PendingOf l) s d;
     upd_loop l (\<lambda>e. e\<lparr>m_signals := m_signals e + 1\<rparr>) d
   }"

definition removePendingChangingNotification :: "addr \<Rightarrow> addr \<Rightarrow> data_model \<Rightarrow> data_model option" where
  "removePendingChangingNotification l s = list_remove (PendingOf l) s"

definition isPendingPendingChangingNotifications :: "addr \<Rightarrow> data_model \<Rightarrow> bool option" where
  "isPendingPendingChangingNotifications l d = map_option (\<lambda>xs. xs \<noteq> []) (list_of (PendingOf l) d)"

section \<open>The state machine of a subscription\<close>

definition transitionToNotifyPending :: "addr \<Rightarrow> data_model \<Rightarrow> data_model option" where
  "transitionToNotifyPending s d = do {
     n \<leftarrow> subscribers d s;
     d \<leftarrow> addPendingChangingNotification (m_eventLoopHdl n) s d;
     setState s eSTATE_NOTIFY_PENDING d
   }"

definition transitionToSubscribed :: "addr \<Rightarrow> addr \<Rightarrow> data_model \<Rightarrow> data_model option" where
  "transitionToSubscribed mp s d = do {
     d \<leftarrow> list_remove (Subscribers mp) s d;
     p \<leftarrow> points d mp;
     n \<leftarrow> subscribers d s;
     if m_seqNum p = m_seqNumber n then do {
       d \<leftarrow> setState s eSTATE_IDLE d;
       list_put (Subscribers mp) s d
     } else transitionToNotifyPending s d
   }"

definition processSubscriptionEvent :: "addr \<Rightarrow> addr \<Rightarrow> sub_event \<Rightarrow> data_model \<Rightarrow> data_model option" where
  "processSubscriptionEvent mp s event d = do {
     p \<leftarrow> points d mp;
     n \<leftarrow> subscribers d s;
     case m_state n of
       eSTATE_UNSUBSCRIBED \<Rightarrow>
         (case event of
            eATTACH \<Rightarrow> transitionToSubscribed mp s d
          | eDATA_CHANGED \<Rightarrow> None
          | _ \<Rightarrow> Some d)
     | eSTATE_IDLE \<Rightarrow>
         (case event of
            eATTACH \<Rightarrow> transitionToSubscribed mp s d
          | eDETACH \<Rightarrow> do {
              d \<leftarrow> list_remove (Subscribers mp) s d;
              setState s eSTATE_UNSUBSCRIBED d }
          | eDATA_CHANGED \<Rightarrow> transitionToNotifyPending s d
          | _ \<Rightarrow> Some d)
     | eSTATE_NOTIFY_PENDING \<Rightarrow>
         (case event of
            eATTACH \<Rightarrow> do {
              d \<leftarrow> removePendingChangingNotification (m_eventLoopHdl n) s d;
              transitionToSubscribed mp s d }
          | eDETACH \<Rightarrow> do {
              d \<leftarrow> removePendingChangingNotification (m_eventLoopHdl n) s d;
              setState s eSTATE_UNSUBSCRIBED d }
          | eNOTIFYING \<Rightarrow> do {
              d \<leftarrow> setSequenceNumber s (m_seqNum p) d;
              setState s eSTATE_NOTIFY_NOTIFYING d }
          | eDATA_CHANGED \<Rightarrow> None
          | _ \<Rightarrow> Some d)
     | eSTATE_NOTIFY_NOTIFYING \<Rightarrow>
         (case event of
            eDETACH \<Rightarrow> setState s eSTATE_NOTIFY_PENDING_DETACH d
          | eNOTIFY_COMPLETE \<Rightarrow> transitionToSubscribed mp s d
          | eDATA_CHANGED \<Rightarrow> None
          | _ \<Rightarrow> Some d)
     | eSTATE_NOTIFY_PENDING_DETACH \<Rightarrow>
         (case event of
            eATTACH \<Rightarrow> setState s eSTATE_NOTIFY_NOTIFYING d
          | eNOTIFY_COMPLETE \<Rightarrow> setState s eSTATE_UNSUBSCRIBED d
          | eDATA_CHANGED \<Rightarrow> None
          | _ \<Rightarrow> Some d)
   }"

definition attachSubscriber :: "addr \<Rightarrow> addr \<Rightarrow> u16 \<Rightarrow> data_model \<Rightarrow> data_model option" where
  "attachSubscriber mp observer initialSeqNumber d = do {
     d \<leftarrow> setSequenceNumber observer initialSeqNumber d;
     d \<leftarrow> setModelPoint observer (Some mp) d;
     processSubscriptionEvent mp observer eATTACH d
   }"

definition detachSubscriber :: "addr \<Rightarrow> addr \<Rightarrow> data_model \<Rightarrow> data_model option" where
  "detachSubscriber mp observer d = do {
     d \<leftarrow> processSubscriptionEvent mp observer eDETACH d;
     setModelPoint observer None d
   }"

section \<open>Changes of a model point\<close>

definition advanceSequenceNumber :: "u16 \<Rightarrow> u16" where
  "advanceSequenceNumber seqNum = (let n = seqNum + 1 in if n = SEQUENCE_NUMBER_UNKNOWN then SEQUENCE_NUMBER_UNKNOWN + 1 else n)"

partial_function (option) notify_loop :: "addr \<Rightarrow> data_model \<Rightarrow> data_model option" where
  "notify_loop mp d = do {
     (item, d) \<leftarrow> list_get (Subscribers mp) d;
     case item of None \<Rightarrow> Some d
     | Some s \<Rightarrow> do {
         d \<leftarrow> processSubscriptionEvent mp s eDATA_CHANGED d;
         notify_loop mp d
       }
   }"

definition processChangeNotifications :: "addr \<Rightarrow> data_model \<Rightarrow> data_model option" where
  "processChangeNotifications mp d = do {
     d \<leftarrow> upd_point mp (\<lambda>p. p\<lparr>m_seqNum := advanceSequenceNumber (m_seqNum p)\<rparr>) d;
     notify_loop mp d
   }"

definition processDataUpdated :: "addr \<Rightarrow> data_model \<Rightarrow> data_model option" where
  "processDataUpdated mp d = do {
     d \<leftarrow> upd_point mp (\<lambda>p. p\<lparr>m_valid := True\<rparr>) d;
     processChangeNotifications mp d
   }"

definition hookSetInvalid :: "model_point \<Rightarrow> model_point" where
  "hookSetInvalid p = p\<lparr>m_data := replicate (m_dataSize p) 0\<rparr>"

definition testAndUpdateLock :: "lock_request \<Rightarrow> model_point \<Rightarrow> bool \<times> model_point" where
  "testAndUpdateLock lockRequest p = (case lockRequest of
     eUNLOCK \<Rightarrow> (True, p\<lparr>m_locked := False\<rparr>)
   | eLOCK \<Rightarrow> (True, p\<lparr>m_locked := True\<rparr>)
   | eNO_REQUEST \<Rightarrow> (\<not> m_locked p, p))"

text \<open>The constructor, given what the memory of the data holds; the registration in the database is separate.\<close>

definition ModelPointCommon :: "bytes \<Rightarrow> bool \<Rightarrow> model_point" where
  "ModelPointCommon myData isValid =
     (let p = \<lparr>m_subscribers = [], m_data = myData, m_dataSize = length myData, m_seqNum = SEQUENCE_NUMBER_UNKNOWN + 1, m_locked = False, m_valid = isValid\<rparr>
      in if \<not> m_valid p then hookSetInvalid p else p)"

text \<open>
  \<open>mem\<close> is the readable memory behind a pointer of the caller.  Reading past its end fails.
\<close>

definition mem_read :: "bytes \<Rightarrow> nat \<Rightarrow> nat \<Rightarrow> bytes option" where
  "mem_read mem off n = (if off + n \<le> length mem then Some (take n (drop off mem)) else None)"

definition isDataEqual :: "model_point \<Rightarrow> bytes \<Rightarrow> bool option" where
  "isDataEqual p otherData = do {
     b \<leftarrow> mem_read otherData 0 (m_dataSize p);
     Some (m_data p = b)
   }"

definition copyDataFrom :: "model_point \<Rightarrow> bytes \<Rightarrow> nat \<Rightarrow> model_point option" where
  "copyDataFrom p srcData srcSize = do {
     c_assert (srcSize \<le> m_dataSize p);
     b \<leftarrow> mem_read srcData 0 (m_dataSize p);
     Some (p\<lparr>m_data := b\<rparr>)
   }"

definition copyDataTo :: "model_point \<Rightarrow> nat \<Rightarrow> bytes option" where
  "copyDataTo p dstSize = do {
     c_assert (dstSize \<le> m_dataSize p);
     mem_read (m_data p) 0 dstSize
   }"

definition isNotValid :: "addr \<Rightarrow> data_model \<Rightarrow> (bool \<times> u16) option" where
  "isNotValid mp d = do { p \<leftarrow> points d mp; Some (\<not> m_valid p, m_seqNum p) }"

definition getSequenceNumber :: "addr \<Rightarrow> data_model \<Rightarrow> u16 option" where
  "getSequenceNumber mp d = map_option m_seqNum (points d mp)"

definition isLocked :: "addr \<Rightarrow> data_model \<Rightarrow> bool option" where
  "isLocked mp d = map_option m_locked (points d mp)"

text \<open>The methods that write return the sequence number after the change.\<close>

definition with_seq :: "addr \<Rightarrow> data_model \<Rightarrow> (u16 \<times> data_model) option" where
  "with_seq mp d = do { p \<leftarrow> points d mp; Some (m_seqNum p, d) }"

definition setInvalid :: "addr \<Rightarrow> lock_request \<Rightarrow> data_model \<Rightarrow> (u16 \<times> data_model) option" where
  "setInvalid mp lockRequest d = do {
     p \<leftarrow> points d mp;
     let (ok, p) = testAndUpdateLock lockRequest p;
     d \<leftarrow> upd_point mp (\<lambda>_. p) d;
     d \<leftarrow> (if ok \<and> m_valid p then do {
             d \<leftarrow> upd_point mp (\<lambda>p. hookSetInvalid (p\<lparr>m_valid := False\<rparr>)) d;
             processChangeNotifications mp d }
           else Some d);
     with_seq mp d
   }"

definition writeData :: "addr \<Rightarrow> bytes option \<Rightarrow> nat \<Rightarrow> lock_request \<Rightarrow> data_model \<Rightarrow> (u16 \<times> data_model) option" where
  "writeData mp srcData srcSize lockRequest d = do {
     p \<leftarrow> points d mp;
     d \<leftarrow> (case srcData of None \<Rightarrow> Some d
           | Some src \<Rightarrow> do {
               let (ok, p) = testAndUpdateLock lockRequest p;
               d \<leftarrow> upd_point mp (\<lambda>_. p) d;
               if ok then do {
                 update \<leftarrow> (if \<not> m_valid p then Some True else map_option Not (isDataEqual p src));
                 if update then do {
                   p \<leftarrow> copyDataFrom p src srcSize;
                   d \<leftarrow> upd_point mp (\<lambda>_. p) d;
                   processDataUpdated mp d
                 } else Some d
               } else Some d
             });
     with_seq mp d
   }"

text \<open>\<open>Some\<close> the data when the point is valid.\<close>

definition readData :: "addr \<Rightarrow> nat \<Rightarrow> data_model \<Rightarrow> (bytes option \<times> u16) option" where
  "readData mp dstSize d = do {
     p \<leftarrow> points d mp;
     b \<leftarrow> (if m_valid p then map_option Some (copyDataTo p dstSize) else Some None);
     Some (b, m_seqNum p)
   }"

definition copyDataAndStateFrom :: "addr \<Rightarrow> addr \<Rightarrow> lock_request \<Rightarrow> data_model \<Rightarrow> (u16 \<times> data_model) option" where
  "copyDataAndStateFrom mp src lockRequest d = do {
     (notValid, _) \<leftarrow> isNotValid src d;
     if notValid then setInvalid mp eNO_REQUEST d
     else do {
       q \<leftarrow> points d src;
       writeData mp (Some (m_data q)) (m_dataSize q) lockRequest d
     }
   }"

definition touch :: "addr \<Rightarrow> data_model \<Rightarrow> (u16 \<times> data_model) option" where
  "touch mp d = do {
     d \<leftarrow> processChangeNotifications mp d;
     with_seq mp d
   }"

definition setLockState :: "addr \<Rightarrow> lock_request \<Rightarrow> data_model \<Rightarrow> (u16 \<times> data_model) option" where
  "setLockState mp lockRequest d = do {
     d \<leftarrow> upd_point mp (\<lambda>p. if lockRequest = eLOCK then p\<lparr>m_locked := True\<rparr> else if lockRequest = eUNLOCK then p\<lparr>m_locked := False\<rparr> else p) d;
     with_seq mp d
   }"

definition readAndSync :: "addr \<Rightarrow> nat \<Rightarrow> addr \<Rightarrow> data_model \<Rightarrow> (bytes option \<times> data_model) option" where
  "readAndSync mp dstSize observerToSync d = do {
     (result, seqNum) \<leftarrow> readData mp dstSize d;
     d \<leftarrow> attachSubscriber mp observerToSync seqNum d;
     Some (result, d)
   }"

definition isNotValidAndSync :: "addr \<Rightarrow> addr \<Rightarrow> data_model \<Rightarrow> (bool \<times> data_model) option" where
  "isNotValidAndSync mp observerToSync d = do {
     (result, seqNum) \<leftarrow> isNotValid mp d;
     d \<leftarrow> attachSubscriber mp observerToSync seqNum d;
     Some (result, d)
   }"

section \<open>Export and import\<close>

text \<open>
  A \<^verbatim>\<open>bool\<close> takes one byte.  The points have no metadata (the default of \<^verbatim>\<open>ModelPoint.h\<close>).  \<open>mem_write\<close> writes into
  the caller's memory and fails past its end; it is separate from the length the caller passes.
\<close>

definition bool_byte :: "bool \<Rightarrow> u8" where "bool_byte b = (if b then 1 else 0)"

definition mem_write :: "bytes \<Rightarrow> nat \<Rightarrow> bytes \<Rightarrow> bytes option" where
  "mem_write mem off b = (if off + length b \<le> length mem then Some (take off mem @ b @ drop (off + length b) mem) else None)"

definition getExternalSize :: "model_point \<Rightarrow> bool \<Rightarrow> nat" where
  "getExternalSize p includeLockedState = (let baseSize = m_dataSize p + 1 in if includeLockedState then baseSize + 1 else baseSize)"

definition exportData :: "addr \<Rightarrow> bytes option \<Rightarrow> nat \<Rightarrow> bool \<Rightarrow> data_model \<Rightarrow> (nat \<times> bytes option) option" where
  "exportData mp dstDataStream maxDstLength includeLockedState d = do {
     p \<leftarrow> points d mp;
     case dstDataStream of None \<Rightarrow> Some (0, None)
     | Some dst \<Rightarrow>
         if maxDstLength \<ge> getExternalSize p False then do {
           dst \<leftarrow> mem_write dst 0 (m_data p);
           dst \<leftarrow> mem_write dst (m_dataSize p) [bool_byte (m_valid p)];
           dst \<leftarrow> (if includeLockedState then mem_write dst (m_dataSize p + 1) [bool_byte (m_locked p)] else Some dst);
           Some (getExternalSize p includeLockedState, Some dst)
         } else Some (0, Some dst)
   }"

definition importData :: "addr \<Rightarrow> bytes option \<Rightarrow> nat \<Rightarrow> bool \<Rightarrow> data_model \<Rightarrow> (nat \<times> data_model) option" where
  "importData mp srcDataStream srcLength includeLockedState d = do {
     p \<leftarrow> points d mp;
     case srcDataStream of None \<Rightarrow> Some (0, d)
     | Some src \<Rightarrow>
         if getExternalSize p False \<le> srcLength then do {
           b \<leftarrow> mem_read src 0 (m_dataSize p);
           v \<leftarrow> mem_read src (m_dataSize p) 1;
           d \<leftarrow> upd_point mp (\<lambda>p. p\<lparr>m_data := b, m_valid := hd v \<noteq> 0\<rparr>) d;
           d \<leftarrow> (if includeLockedState then do {
                   k \<leftarrow> mem_read src (m_dataSize p + 1) 1;
                   upd_point mp (\<lambda>p. p\<lparr>m_locked := hd k \<noteq> 0\<rparr>) d }
                 else Some d);
           d \<leftarrow> processChangeNotifications mp d;
           Some (getExternalSize p includeLockedState, d)
         } else Some (0, d)
   }"

section \<open>The event loop\<close>

text \<open>
  A run of \<^verbatim>\<open>processChangeNotifications\<close> of an event loop is three steps, between which other threads run: the next subscriber is taken from the
  list, its notification begins, and after the callback the notification is complete.
\<close>

definition begin_notification :: "addr \<Rightarrow> data_model \<Rightarrow> (addr \<times> data_model) option" where
  "begin_notification s d = do {
     modelPoint \<leftarrow> getModelPoint s d;
     d \<leftarrow> processSubscriptionEvent modelPoint s eNOTIFYING d;
     Some (modelPoint, d)
   }"

definition EventLoop_processChangeNotifications ::
  "(addr \<Rightarrow> addr \<Rightarrow> data_model \<Rightarrow> data_model option) \<Rightarrow> addr \<Rightarrow> data_model \<Rightarrow> data_model option" where
  "EventLoop_processChangeNotifications modelPointChanged l d = do {
     (subscriberPtr, d) \<leftarrow> list_get (PendingOf l) d;
     case subscriberPtr of None \<Rightarrow> Some d
     | Some s \<Rightarrow> do {
         (modelPoint, d) \<leftarrow> begin_notification s d;
         d \<leftarrow> modelPointChanged modelPoint s d;
         processSubscriptionEvent modelPoint s eNOTIFY_COMPLETE d
       }
   }"

end
