(* ===== verification/Storm_Points.thy ===== *)
theory Storm_Points
  imports Cooling_Inv Model_Points
begin

text \<open>
  The model points of the thermostat: their values and the typed methods that read and write them
  (\<^verbatim>\<open>src/src/Storm/Dm\<close>, \<^verbatim>\<open>src/src/Storm/Type\<close>, \<^verbatim>\<open>src/src/Cpl/Dm/Mp/RefCounter.cpp\<close>, \<^verbatim>\<open>Float.h\<close>).  A point holds a value of its
  type, with the state that \<^verbatim>\<open>ModelPointCommon_\<close> keeps for it; its subscribers are the matter of \<open>Data_Model\<close>.  All
  calls of the components make no lock request, so a write to a locked point has no effect.
\<close>

section \<open>A typed model point\<close>

record 'a mp =
  mp_value :: 'a
  mp_valid :: bool
  mp_locked :: bool
  mp_seq :: u16

definition mp_new :: "'a \<Rightarrow> bool \<Rightarrow> 'a mp" where
  "mp_new v valid = \<lparr>mp_value = v, mp_valid = valid, mp_locked = False, mp_seq = SEQUENCE_NUMBER_UNKNOWN + 1\<rparr>"

definition mp_read :: "'a mp \<Rightarrow> 'a option" where
  "mp_read m = (if mp_valid m then Some (mp_value m) else None)"

definition mp_updated :: "'a \<Rightarrow> 'a mp \<Rightarrow> 'a mp" where
  "mp_updated v m = m\<lparr>mp_value := v, mp_valid := True, mp_seq := advanceSequenceNumber (mp_seq m)\<rparr>"

definition mp_write_by :: "('a \<Rightarrow> 'a \<Rightarrow> bool) \<Rightarrow> 'a \<Rightarrow> 'a mp \<Rightarrow> 'a mp" where
  "mp_write_by equal v m =
     (if mp_locked m then m else if \<not> mp_valid m \<or> \<not> equal (mp_value m) v then mp_updated v m else m)"

abbreviation mp_write :: "'a \<Rightarrow> 'a mp \<Rightarrow> 'a mp" where
  "mp_write \<equiv> mp_write_by (=)"

definition mp_invalidate :: "'a \<Rightarrow> 'a mp \<Rightarrow> 'a mp" where
  "mp_invalidate v m =
     (if \<not> mp_locked m \<and> mp_valid m then m\<lparr>mp_value := v, mp_valid := False, mp_seq := advanceSequenceNumber (mp_seq m)\<rparr> else m)"

text \<open>The comparison of a \<^verbatim>\<open>Float\<close> point, so that a value that is nearly equal is not stored.\<close>

definition Float_write :: "float_unit \<Rightarrow> rat \<Rightarrow> rat mp \<Rightarrow> rat mp" where
  "Float_write fu v = mp_write_by (\<lambda>a b. areFloatsEqual fu (Some a) b) v"

section \<open>\<^verbatim>\<open>RefCounter.cpp\<close>\<close>

definition RefCounter_update :: "u32 \<Rightarrow> u32 mp \<Rightarrow> u32 mp" where
  "RefCounter_update newValue m =
     (let m = (if \<not> mp_valid m \<or> mp_value m = 0 \<and> newValue \<noteq> 0 \<or> newValue = 0 \<and> mp_value m \<noteq> 0
               then m\<lparr>mp_valid := True, mp_seq := advanceSequenceNumber (mp_seq m)\<rparr> else m)
      in m\<lparr>mp_value := newValue\<rparr>)"

definition RefCounter_reset :: "u32 \<Rightarrow> u32 mp \<Rightarrow> u32 mp" where
  "RefCounter_reset newValue m = (if mp_locked m then m else RefCounter_update newValue m)"

definition RefCounter_increment :: "u32 \<Rightarrow> u32 mp \<Rightarrow> u32 mp" where
  "RefCounter_increment incrementAmount m =
     (if mp_locked m then m
      else let newValue = mp_value m + incrementAmount
           in RefCounter_update (if newValue < mp_value m then 0xFFFFFFFF else newValue) m)"

definition RefCounter_decrement :: "u32 \<Rightarrow> u32 mp \<Rightarrow> u32 mp" where
  "RefCounter_decrement decrementAmount m =
     (if mp_locked m then m
      else let newValue = mp_value m - decrementAmount
           in RefCounter_update (if newValue > mp_value m then 0 else newValue) m)"

section \<open>\<^verbatim>\<open>MpSetpoints\<close>\<close>

record setpoints =
  coolSetpt :: rat
  heatSetpt :: rat

definition validateSetpoints :: "float_unit \<Rightarrow> rat \<Rightarrow> rat \<Rightarrow> setpoints" where
  "validateSetpoints fu newCooling newHeating =
     (let newCooling = (if newCooling > 95 then 95 else if newCooling < 55 then 55 else newCooling);
          newHeating = (if newHeating > 90 then 90 else if newHeating < 50 then 50 else newHeating);
          newHeating = (if newCooling \<le> newHeating then fround fu (newCooling - 1) else newHeating)
      in \<lparr>coolSetpt = newCooling, heatSetpt = newHeating\<rparr>)"

definition MpSetpoints :: "float_unit \<Rightarrow> rat \<Rightarrow> rat \<Rightarrow> setpoints mp" where
  "MpSetpoints fu cool heat = mp_new (validateSetpoints fu cool heat) True"

definition MpSetpoints_write :: "float_unit \<Rightarrow> rat \<Rightarrow> rat \<Rightarrow> setpoints mp \<Rightarrow> setpoints mp" where
  "MpSetpoints_write fu newCoolingSetpoint newHeatingSetpoint = mp_write (validateSetpoints fu newCoolingSetpoint newHeatingSetpoint)"

definition MpSetpoints_writeCool :: "float_unit \<Rightarrow> rat \<Rightarrow> setpoints mp \<Rightarrow> setpoints mp" where
  "MpSetpoints_writeCool fu newSetpoint m = mp_write (validateSetpoints fu newSetpoint (heatSetpt (mp_value m))) m"

definition MpSetpoints_writeHeat :: "float_unit \<Rightarrow> rat \<Rightarrow> setpoints mp \<Rightarrow> setpoints mp" where
  "MpSetpoints_writeHeat fu newSetpoint m = mp_write (validateSetpoints fu (coolSetpt (mp_value m)) newSetpoint) m"

definition MpSetpoints_setInvalid :: "setpoints mp \<Rightarrow> setpoints mp" where
  "MpSetpoints_setInvalid = mp_invalidate \<lparr>coolSetpt = 95, heatSetpt = 50\<rparr>"

section \<open>\<^verbatim>\<open>MpEquipmentConfig\<close>\<close>

record equipment_config =
  iduType :: idu_type
  oduType :: odu_type
  numCompStages :: u16
  numIduHeatingStages :: u16
  hasVspBlower :: bool

definition MAX_ELECTRIC_HEATING_STAGES :: u16 where "MAX_ELECTRIC_HEATING_STAGES = 0"
definition MAX_FURNACE_HEATING_STAGES :: u16 where "MAX_FURNACE_HEATING_STAGES = 3"
definition MAX_COMPRESSOR_COOLING_STAGES :: u16 where "MAX_COMPRESSOR_COOLING_STAGES = 1"
definition MAX_COMPRESSOR_HEATING_STAGES :: u16 where "MAX_COMPRESSOR_HEATING_STAGES = 0"
definition MAX_TOTAL_STAGES :: nat where "MAX_TOTAL_STAGES = 4"

definition MpEquipmentConfig_validate :: "equipment_config \<Rightarrow> bool \<times> equipment_config" where
  "MpEquipmentConfig_validate e =
     (let (modified, e) = (case iduType e of
            eAIR_HANDLER \<Rightarrow> (if numIduHeatingStages e > MAX_ELECTRIC_HEATING_STAGES
              then (True, e\<lparr>numIduHeatingStages := MAX_ELECTRIC_HEATING_STAGES\<rparr>) else (False, e))
          | eFURNACE \<Rightarrow> (if numIduHeatingStages e > MAX_FURNACE_HEATING_STAGES
              then (True, e\<lparr>numIduHeatingStages := MAX_FURNACE_HEATING_STAGES\<rparr>) else (False, e))
          | IDU_unsupported \<Rightarrow> (False, e\<lparr>iduType := eFURNACE, numIduHeatingStages := 0\<rparr>))
      in case oduType e of
           eAC \<Rightarrow> (if numCompStages e > MAX_COMPRESSOR_COOLING_STAGES
             then (True, e\<lparr>numCompStages := MAX_COMPRESSOR_COOLING_STAGES\<rparr>) else (modified, e))
         | eHP \<Rightarrow> (if numCompStages e > MAX_COMPRESSOR_HEATING_STAGES
             then (True, e\<lparr>numCompStages := MAX_COMPRESSOR_HEATING_STAGES\<rparr>) else (modified, e))
         | ODU_unsupported \<Rightarrow> (modified, e\<lparr>oduType := eAC, numCompStages := 0\<rparr>))"

definition MpEquipmentConfig_write :: "equipment_config \<Rightarrow> equipment_config mp \<Rightarrow> equipment_config mp" where
  "MpEquipmentConfig_write newConfiguration = mp_write (snd (MpEquipmentConfig_validate newConfiguration))"

text \<open>The methods that write one field.\<close>

definition MpEquipmentConfig_modify :: "(equipment_config \<Rightarrow> equipment_config) \<Rightarrow> equipment_config mp \<Rightarrow> equipment_config mp" where
  "MpEquipmentConfig_modify f m = mp_write (snd (MpEquipmentConfig_validate (f (mp_value m)))) m"

definition MpEquipmentConfig_writeIndoorType :: "idu_type \<Rightarrow> equipment_config mp \<Rightarrow> equipment_config mp" where
  "MpEquipmentConfig_writeIndoorType newUnitType = MpEquipmentConfig_modify (\<lambda>e. e\<lparr>iduType := newUnitType\<rparr>)"

definition MpEquipmentConfig_writeIndoorFanMotor :: "bool \<Rightarrow> equipment_config mp \<Rightarrow> equipment_config mp" where
  "MpEquipmentConfig_writeIndoorFanMotor vsp = MpEquipmentConfig_modify (\<lambda>e. e\<lparr>hasVspBlower := vsp\<rparr>)"

definition MpEquipmentConfig_writeIndoorHeatingStages :: "u16 \<Rightarrow> equipment_config mp \<Rightarrow> equipment_config mp" where
  "MpEquipmentConfig_writeIndoorHeatingStages n = MpEquipmentConfig_modify (\<lambda>e. e\<lparr>numIduHeatingStages := n\<rparr>)"

definition MpEquipmentConfig_writeOutdoorType :: "odu_type \<Rightarrow> equipment_config mp \<Rightarrow> equipment_config mp" where
  "MpEquipmentConfig_writeOutdoorType newUnitType = MpEquipmentConfig_modify (\<lambda>e. e\<lparr>oduType := newUnitType\<rparr>)"

definition MpEquipmentConfig_writeCompressorStages :: "u16 \<Rightarrow> equipment_config mp \<Rightarrow> equipment_config mp" where
  "MpEquipmentConfig_writeCompressorStages n = MpEquipmentConfig_modify (\<lambda>e. e\<lparr>numCompStages := n\<rparr>)"

definition MpEquipmentConfig_setInvalid :: "equipment_config mp \<Rightarrow> equipment_config mp" where
  "MpEquipmentConfig_setInvalid = mp_invalidate \<lparr>iduType = eFURNACE, oduType = eAC, numCompStages = 1, numIduHeatingStages = 1, hasVspBlower = False\<rparr>"

section \<open>\<^verbatim>\<open>MpComfortConfig\<close>\<close>

text \<open>\<open>eNUM_OPTIONS\<close> stands for every number that is not a setting of the cycles per hour.\<close>

record comfort_stage =
  cs_minOnTime :: u32
  cs_minOffTime :: u32
  cs_cph :: cph

record comfort_config =
  compressorCooling :: comfort_stage
  compressorHeating :: comfort_stage
  indoorHeating :: comfort_stage

definition ComfortStageParameters_validate :: "comfort_stage \<Rightarrow> (bool \<times> comfort_stage) option" where
  "ComfortStageParameters_validate src = do {
     let (modified, src) = (if cs_cph src = eNUM_OPTIONS then (True, src\<lparr>cs_cph := e3CPH\<rparr>) else (False, src));
     limit \<leftarrow> DutyCycle_getMaximumMinOffTime (cs_cph src);
     let (modified, src) = (if cs_minOffTime src > limit then (True, src\<lparr>cs_minOffTime := limit\<rparr>) else (modified, src));
     limit \<leftarrow> DutyCycle_getMaximumMinOnTime (cs_cph src);
     Some (if cs_minOnTime src > limit then (True, src\<lparr>cs_minOnTime := limit\<rparr>) else (modified, src))
   }"

definition ComfortConfig_validate :: "comfort_config \<Rightarrow> (bool \<times> comfort_config) option" where
  "ComfortConfig_validate src = do {
     (m1, cool) \<leftarrow> ComfortStageParameters_validate (compressorCooling src);
     (m2, heat) \<leftarrow> ComfortStageParameters_validate (compressorHeating src);
     (m3, indoor) \<leftarrow> ComfortStageParameters_validate (indoorHeating src);
     Some (m1 \<or> m2 \<or> m3, \<lparr>compressorCooling = cool, compressorHeating = heat, indoorHeating = indoor\<rparr>)
   }"

text \<open>\<open>write\<close> validates a copy and stores the original.\<close>

definition MpComfortConfig_write :: "comfort_config \<Rightarrow> comfort_config mp \<Rightarrow> comfort_config mp option" where
  "MpComfortConfig_write newConfiguration m = do {
     (_, newVale) \<leftarrow> ComfortConfig_validate newConfiguration;
     Some (mp_write newConfiguration m)
   }"

definition MpComfortConfig_writeCompressorCooling :: "comfort_stage \<Rightarrow> comfort_config mp \<Rightarrow> comfort_config mp option" where
  "MpComfortConfig_writeCompressorCooling newParameters m = do {
     (_, newVal) \<leftarrow> ComfortStageParameters_validate newParameters;
     MpComfortConfig_write ((mp_value m)\<lparr>compressorCooling := newVal\<rparr>) m
   }"

definition MpComfortConfig_writeCompressorHeating :: "comfort_stage \<Rightarrow> comfort_config mp \<Rightarrow> comfort_config mp option" where
  "MpComfortConfig_writeCompressorHeating newParameters m = do {
     (_, newVal) \<leftarrow> ComfortStageParameters_validate newParameters;
     MpComfortConfig_write ((mp_value m)\<lparr>compressorHeating := newVal\<rparr>) m
   }"

definition MpComfortConfig_writeIndoorHeating :: "comfort_stage \<Rightarrow> comfort_config mp \<Rightarrow> comfort_config mp option" where
  "MpComfortConfig_writeIndoorHeating newParameters m = do {
     (_, newVal) \<leftarrow> ComfortStageParameters_validate newParameters;
     MpComfortConfig_write ((mp_value m)\<lparr>indoorHeating := newVal\<rparr>) m
   }"

definition ComfortConfig_setDefaults :: comfort_stage where
  "ComfortConfig_setDefaults = \<lparr>cs_minOnTime = 300, cs_minOffTime = 300, cs_cph = e3CPH\<rparr>"

definition MpComfortConfig_setInvalid :: "comfort_config mp \<Rightarrow> comfort_config mp" where
  "MpComfortConfig_setInvalid = mp_invalidate \<lparr>compressorCooling = ComfortConfig_setDefaults, compressorHeating = ComfortConfig_setDefaults,
     indoorHeating = ComfortConfig_setDefaults\<rparr>"

section \<open>Alarms\<close>

record simple_alarm =
  active :: bool
  acked :: bool
  critical :: bool

definition MpSimpleAlarm_setAlarm :: "bool \<Rightarrow> bool \<Rightarrow> simple_alarm mp \<Rightarrow> simple_alarm mp" where
  "MpSimpleAlarm_setAlarm act isCritical m =
     (let newData = (mp_value m)\<lparr>active := act, critical := isCritical\<rparr>
      in mp_write (if act \<noteq> active (mp_value m) then newData\<lparr>acked := False\<rparr> else newData) m)"

definition MpSimpleAlarm_acknowledgeAlarm :: "simple_alarm mp \<Rightarrow> simple_alarm mp" where
  "MpSimpleAlarm_acknowledgeAlarm m = mp_write ((mp_value m)\<lparr>acked := True\<rparr>) m"

record idt_alarm =
  primaryAlarm :: bool
  primaryAck :: bool
  secondaryAlarm :: bool
  secondaryAck :: bool
  idt_critical :: bool

definition MpIdtAlarm_setAlarm :: "bool \<Rightarrow> bool \<Rightarrow> bool \<Rightarrow> idt_alarm mp \<Rightarrow> idt_alarm mp" where
  "MpIdtAlarm_setAlarm primaryAlarmState secondaryAlarmState isCritical m =
     (let d = mp_value m;
          newData = d\<lparr>primaryAlarm := primaryAlarmState, secondaryAlarm := secondaryAlarmState, idt_critical := isCritical\<rparr>;
          newData = (if primaryAlarmState \<and> \<not> primaryAlarm d then newData\<lparr>primaryAck := False\<rparr> else newData);
          newData = (if secondaryAlarmState \<and> \<not> secondaryAlarm d then newData\<lparr>secondaryAck := False\<rparr> else newData)
      in mp_write newData m)"

definition MpIdtAlarm_acknowledgePrimaryAlarm :: "idt_alarm mp \<Rightarrow> idt_alarm mp" where
  "MpIdtAlarm_acknowledgePrimaryAlarm m = mp_write ((mp_value m)\<lparr>primaryAck := True\<rparr>) m"

definition MpIdtAlarm_acknowledgeSecondaryAlarm :: "idt_alarm mp \<Rightarrow> idt_alarm mp" where
  "MpIdtAlarm_acknowledgeSecondaryAlarm m = mp_write ((mp_value m)\<lparr>secondaryAck := True\<rparr>) m"

section \<open>\<^verbatim>\<open>MpVirtualOutputs\<close>\<close>

definition clamp_output :: "u16 \<Rightarrow> u16" where
  "clamp_output x = (if x > 1000 then 1000 else x)"

definition MpVirtualOutputs_validate :: "virtual_outputs \<Rightarrow> virtual_outputs" where
  "MpVirtualOutputs_validate v = v\<lparr>indoorFan := clamp_output (indoorFan v), indoorFanCont := clamp_output (indoorFanCont v),
     outdoorFan := clamp_output (outdoorFan v), indoorStages := map clamp_output (indoorStages v), outdoorStages := map clamp_output (outdoorStages v)\<rparr>"

definition MpVirtualOutputs_write :: "virtual_outputs \<Rightarrow> virtual_outputs mp \<Rightarrow> virtual_outputs mp" where
  "MpVirtualOutputs_write srcData = mp_write (MpVirtualOutputs_validate srcData)"

definition MpVirtualOutputs_setIndoorFanOutput :: "u16 \<Rightarrow> virtual_outputs mp \<Rightarrow> virtual_outputs mp" where
  "MpVirtualOutputs_setIndoorFanOutput fanSpeed m = MpVirtualOutputs_write ((mp_value m)\<lparr>indoorFan := fanSpeed\<rparr>) m"

definition MpVirtualOutputs_setIndoorFanContinousOutput :: "u16 \<Rightarrow> virtual_outputs mp \<Rightarrow> virtual_outputs mp" where
  "MpVirtualOutputs_setIndoorFanContinousOutput fanContSpeed m = MpVirtualOutputs_write ((mp_value m)\<lparr>indoorFanCont := fanContSpeed\<rparr>) m"

definition MpVirtualOutputs_setIndoorStageOutput :: "nat \<Rightarrow> u16 \<Rightarrow> virtual_outputs mp \<Rightarrow> virtual_outputs mp" where
  "MpVirtualOutputs_setIndoorStageOutput stageIndex stageOutput m =
     (if stageIndex \<ge> 3 then m
      else MpVirtualOutputs_write ((mp_value m)\<lparr>indoorStages := (indoorStages (mp_value m))[stageIndex := stageOutput]\<rparr>) m)"

definition MpVirtualOutputs_setOutdoorFanOutput :: "u16 \<Rightarrow> virtual_outputs mp \<Rightarrow> virtual_outputs mp" where
  "MpVirtualOutputs_setOutdoorFanOutput fanSpeed m = MpVirtualOutputs_write ((mp_value m)\<lparr>outdoorFan := fanSpeed\<rparr>) m"

definition MpVirtualOutputs_setOutdoorStageOutput :: "nat \<Rightarrow> u16 \<Rightarrow> virtual_outputs mp \<Rightarrow> virtual_outputs mp" where
  "MpVirtualOutputs_setOutdoorStageOutput stageIndex stageOutput m =
     (if stageIndex \<ge> 1 then m
      else MpVirtualOutputs_write ((mp_value m)\<lparr>outdoorStages := (outdoorStages (mp_value m))[stageIndex := stageOutput]\<rparr>) m)"

definition MpVirtualOutputs_setSovToCooling :: "virtual_outputs mp \<Rightarrow> virtual_outputs mp" where
  "MpVirtualOutputs_setSovToCooling m = MpVirtualOutputs_write ((mp_value m)\<lparr>sovInHeating := False\<rparr>) m"

definition MpVirtualOutputs_setSovToHeating :: "virtual_outputs mp \<Rightarrow> virtual_outputs mp" where
  "MpVirtualOutputs_setSovToHeating m = MpVirtualOutputs_write ((mp_value m)\<lparr>sovInHeating := True\<rparr>) m"

definition MpVirtualOutputs_setOutdoorOff :: "virtual_outputs mp \<Rightarrow> virtual_outputs mp" where
  "MpVirtualOutputs_setOutdoorOff m =
     MpVirtualOutputs_write ((mp_value m)\<lparr>outdoorFan := VIRTUAL_OUTPUTS_OFF, outdoorStages := map (\<lambda>_. VIRTUAL_OUTPUTS_OFF) (outdoorStages (mp_value m))\<rparr>) m"

definition MpVirtualOutputs_setIndoorOff :: "virtual_outputs mp \<Rightarrow> virtual_outputs mp" where
  "MpVirtualOutputs_setIndoorOff m =
     MpVirtualOutputs_write ((mp_value m)\<lparr>indoorFan := VIRTUAL_OUTPUTS_OFF, indoorFanCont := VIRTUAL_OUTPUTS_OFF,
       indoorStages := map (\<lambda>_. VIRTUAL_OUTPUTS_OFF) (indoorStages (mp_value m))\<rparr>) m"

text \<open>The member \<open>setSafeAllOff\<close> writes every field but the valve from a cleared structure.\<close>

definition MpVirtualOutputs_setSafeAllOff :: "virtual_outputs mp \<Rightarrow> virtual_outputs mp" where
  "MpVirtualOutputs_setSafeAllOff m =
     MpVirtualOutputs_write \<lparr>indoorFan = 0, indoorFanCont = 0, indoorStages = [0, 0, 0], outdoorFan = 0, outdoorStages = [0], sovInHeating = sovInHeating (mp_value m)\<rparr> m"

definition MpVirtualOutputs_setCapacityOff :: "virtual_outputs mp \<Rightarrow> virtual_outputs mp" where
  "MpVirtualOutputs_setCapacityOff m =
     (let newData = setCapacityOff \<lparr>indoorFan = 0, indoorFanCont = 0, indoorStages = [0, 0, 0], outdoorFan = 0, outdoorStages = [0], sovInHeating = False\<rparr>
      in MpVirtualOutputs_write (newData\<lparr>sovInHeating := sovInHeating (mp_value m)\<rparr>) m)"

definition areStagesOn :: "virtual_outputs \<Rightarrow> bool" where
  "areStagesOn outputs \<longleftrightarrow> (\<exists>x\<in>set (indoorStages outputs). x > VIRTUAL_OUTPUTS_OFF) \<or> (\<exists>x\<in>set (outdoorStages outputs). x > VIRTUAL_OUTPUTS_OFF)"

section \<open>Relays, begin times, white box\<close>

record relay_outputs =
  relay_g :: bool
  relay_bk :: u8
  relay_w1 :: bool
  relay_w2 :: bool
  relay_w3 :: bool
  relay_o :: bool
  relay_y1 :: bool
  relay_y2 :: bool

definition MpHvacRelayOutputs_validate :: "relay_outputs \<Rightarrow> relay_outputs" where
  "MpHvacRelayOutputs_validate r = (if relay_bk r > 100 then r\<lparr>relay_bk := 100\<rparr> else r)"

definition MpHvacRelayOutputs_write :: "relay_outputs \<Rightarrow> relay_outputs mp \<Rightarrow> relay_outputs mp" where
  "MpHvacRelayOutputs_write srcData = mp_write (MpHvacRelayOutputs_validate srcData)"

definition MpHvacRelayOutputs_setSafeAllOff :: "relay_outputs mp \<Rightarrow> relay_outputs mp" where
  "MpHvacRelayOutputs_setSafeAllOff m = MpHvacRelayOutputs_write \<lparr>relay_g = False, relay_bk = 0, relay_w1 = False, relay_w2 = False,
     relay_w3 = False, relay_o = relay_o (mp_value m), relay_y1 = False, relay_y2 = False\<rparr> m"

record equipment_times =
  et_outdoorUnitBeginOnTime :: precision
  et_outdoorUnitBeginOffTime :: precision
  et_indoorUnitBeginOnTime :: precision
  et_indoorUnitBeginOffTime :: precision
  et_systemBeginOnTime :: precision
  et_systemBeginOffTime :: precision

record white_box =
  wb_defeatEquipMinOffTime :: bool
  wb_abortOnOffCycle :: bool

definition MpWhiteBox_resetPulseSettings :: "white_box mp \<Rightarrow> white_box mp" where
  "MpWhiteBox_resetPulseSettings m = mp_write ((mp_value m)\<lparr>wb_abortOnOffCycle := False\<rparr>) m"

section \<open>\<^verbatim>\<open>MpSystemConfig\<close>\<close>

definition off_stage :: stage_config where
  "off_stage = \<lparr>lowerBound = 0, upperBound = 1, minIndoorFan = 0, maxIndoorFan = 0, minOnTime = 300, minOffTime = 300, cfg_cph = e3CPH\<rparr>"

definition MpSystemConfig_setToOff :: system_config where
  "MpSystemConfig_setToOff = \<lparr>cfg_stages = replicate MAX_TOTAL_STAGES off_stage, currentOpMode = OM_eOFF, outdoorUnitType = eAC, indoorUnitType = eFURNACE,
     numCompressorStages = 0, numIndoorStages = 0, totalStages = 0, fanContinuousSpeed = 0, cfg_gain = 1, cfg_reset = 1, cfg_maxPvOut = 1\<rparr>"

text \<open>The data of an invalid point, all zeros.\<close>

definition MpSystemConfig_zero :: system_config where
  "MpSystemConfig_zero = \<lparr>cfg_stages = replicate MAX_TOTAL_STAGES \<lparr>lowerBound = 0, upperBound = 0, minIndoorFan = 0, maxIndoorFan = 0, minOnTime = 0,
       minOffTime = 0, cfg_cph = e2CPH\<rparr>, currentOpMode = OM_eOFF, outdoorUnitType = eAC, indoorUnitType = eAIR_HANDLER,
     numCompressorStages = 0, numIndoorStages = 0, totalStages = 0, fanContinuousSpeed = 0, cfg_gain = 0, cfg_reset = 0, cfg_maxPvOut = 0\<rparr>"

definition stage_equal :: "float_unit \<Rightarrow> stage_config \<Rightarrow> stage_config \<Rightarrow> bool" where
  "stage_equal fu s t \<longleftrightarrow> areFloatsEqual fu (Some (lowerBound s)) (lowerBound t) \<and> areFloatsEqual fu (Some (upperBound s)) (upperBound t) \<and>
     maxIndoorFan s = maxIndoorFan t \<and> minIndoorFan s = minIndoorFan t \<and> cfg_cph s = cfg_cph t \<and> minOffTime s = minOffTime t \<and> minOnTime s = minOnTime t"

definition MpSystemConfig_isDataEqual :: "float_unit \<Rightarrow> system_config \<Rightarrow> system_config \<Rightarrow> bool" where
  "MpSystemConfig_isDataEqual fu d other \<longleftrightarrow>
     list_all2 (stage_equal fu) (take (unat (totalStages d)) (cfg_stages d)) (take (unat (totalStages d)) (cfg_stages other)) \<and>
     currentOpMode d = currentOpMode other \<and> indoorUnitType d = indoorUnitType other \<and> outdoorUnitType d = outdoorUnitType other \<and>
     numCompressorStages d = numCompressorStages other \<and> numIndoorStages d = numIndoorStages other \<and> fanContinuousSpeed d = fanContinuousSpeed other \<and>
     areFloatsEqual fu (Some (cfg_gain d)) (cfg_gain other) \<and> areFloatsEqual fu (Some (cfg_reset d)) (cfg_reset other) \<and>
     areFloatsEqual fu (Some (cfg_maxPvOut d)) (cfg_maxPvOut other)"

definition MpSystemConfig_write :: "float_unit \<Rightarrow> system_config \<Rightarrow> system_config mp \<Rightarrow> system_config mp" where
  "MpSystemConfig_write fu = mp_write_by (MpSystemConfig_isDataEqual fu)"

end
