(* ===== verification/Storm_Components.thy ===== *)
theory Storm_Components
  imports Storm_Points
begin

text \<open>
  The components of the thermostat, one record and one \<open>execute\<close> for each, over the model points that
  \<^verbatim>\<open>src/src/Storm/Thermostat/Algorithm.cpp\<close> wires them to: the common base (\<^verbatim>\<open>src/src/Storm/Component/Base.cpp\<close>), the selection of the
  indoor temperature, the operating mode, the PI controller and its preparation, the three controls of the equipment, the
  fan, the air filter and the relays.  A component that derives from \<^verbatim>\<open>Base\<close> extends its record.  The result of \<open>execute\<close> is
  the returned flag, the component and the points; \<open>dr\<close> rounds the results of the operations on \<^verbatim>\<open>double\<close>.
\<close>

section \<open>The model points\<close>

datatype thermostat_mode = TM_eOFF | TM_eCOOLING | TM_eHEATING | TM_eAUTO | TM_eID_HEATING

datatype fan_mode = FM_eAUTO | FM_eCONTINUOUS

record model_points =
  mp_setpoints :: "setpoints mp"
  mp_userMode :: "thermostat_mode mp"
  mp_fanMode :: "fan_mode mp"
  mp_maxAirFilterHours :: "u32 mp"
  mp_primaryRawIdt :: "rat mp"
  mp_secondaryRawIdt :: "rat mp"
  mp_enabledSecondaryIdt :: "bool mp"
  mp_activeIdt :: "rat mp"
  mp_idtAlarms :: "idt_alarm mp"
  mp_noActiveConditioningAlarm :: "simple_alarm mp"
  mp_userCfgModeAlarm :: "simple_alarm mp"
  mp_airFilterAlert :: "simple_alarm mp"
  mp_airFilterOperationTime :: "precision mp"
  mp_equipmentConfig :: "equipment_config mp"
  mp_comfortConfig :: "comfort_config mp"
  mp_systemForcedOffRefCnt :: "u32 mp"
  mp_systemConfig :: "system_config mp"
  mp_systemOn :: "bool mp"
  mp_equipmentBeginTimes :: "equipment_times mp"
  mp_resetPiPulse :: "bool mp"
  mp_operatingModeChanged :: "bool mp"
  mp_deltaIdtError :: "rat mp"
  mp_deltaSetpoint :: "rat mp"
  mp_setpointChanged :: "bool mp"
  mp_activeSetpoint :: "rat mp"
  mp_freezePiRefCnt :: "u32 mp"
  mp_inhibitfRefCnt :: "u32 mp"
  mp_pvOut :: "rat mp"
  mp_sumError :: "rat mp"
  mp_pvInhibited :: "bool mp"
  mp_vOutputs :: "virtual_outputs mp"
  mp_cycleInfo :: "cycle_info mp"
  mp_whiteBox :: "white_box mp"
  mp_relayOutputs :: "relay_outputs mp"

text \<open>The variable that a read leaves with its initial value when the point is invalid.\<close>

definition read_or :: "'a \<Rightarrow> 'a mp \<Rightarrow> 'a" where
  "read_or v m = (case mp_read m of None \<Rightarrow> v | Some x \<Rightarrow> x)"

section \<open>\<^verbatim>\<open>Base\<close>\<close>

record base =
  m_interval :: precision
  m_timeMark :: precision
  m_slipCounter :: u32
  m_timeMarkValid :: bool
  m_started :: bool

definition Base_setTimeMarker :: "precision \<Rightarrow> 'c base_scheme \<Rightarrow> 'c base_scheme" where
  "Base_setTimeMarker currentTick c = c\<lparr>m_timeMark := \<lparr>
     m_seconds = (if m_seconds (m_interval c) = 0 then m_seconds currentTick
                  else m_seconds currentTick div m_seconds (m_interval c) * m_seconds (m_interval c)),
     m_thousandths = (if m_thousandths (m_interval c) = 0 then m_thousandths currentTick
                      else m_thousandths currentTick div m_thousandths (m_interval c) * m_thousandths (m_interval c))\<rparr>\<rparr>"

text \<open>What \<open>doWork\<close> does to the time marker when the interval has passed.\<close>

definition Base_mark :: "precision \<Rightarrow> 'c base_scheme \<Rightarrow> 'c base_scheme" where
  "Base_mark currentTick c =
     (let c' = (if \<not> m_timeMarkValid c then Base_setTimeMarker currentTick c
                else c\<lparr>m_timeMark := Precision_add (m_timeMark c) (m_interval c)\<rparr>);
          c' = (if m_timeMarkValid c' \<and> expiredPrecision (m_timeMark c') (m_interval c') currentTick
                then Base_setTimeMarker currentTick (c'\<lparr>m_slipCounter := m_slipCounter c' + 1\<rparr>) else c')
      in c'\<lparr>m_timeMarkValid := True\<rparr>)"

definition Base_due :: "precision \<Rightarrow> 'c base_scheme \<Rightarrow> bool" where
  "Base_due currentTick c \<longleftrightarrow> \<not> m_timeMarkValid c \<or> expiredPrecision (m_timeMark c) (m_interval c) currentTick"

definition Base_doWork :: "(precision \<Rightarrow> 'c base_scheme \<Rightarrow> 's \<Rightarrow> (bool \<times> 'c base_scheme \<times> 's) option) \<Rightarrow> bool \<Rightarrow> precision \<Rightarrow>
    'c base_scheme \<Rightarrow> 's \<Rightarrow> (bool \<times> 'c base_scheme \<times> 's) option" where
  "Base_doWork execute enabled currentTick c s =
     (if Base_due currentTick c
      then let c = Base_mark currentTick c
           in if m_started c \<and> enabled then execute (m_timeMark c) c s else Some (True, c, s)
      else Some (True, c, s))"

definition Base_start :: "precision \<Rightarrow> 'c base_scheme \<Rightarrow> 'c base_scheme" where
  "Base_start intervalTime c = c\<lparr>m_interval := intervalTime, m_timeMarkValid := False, m_slipCounter := 0, m_started := True\<rparr>"

definition Base_stop :: "'c base_scheme \<Rightarrow> 'c base_scheme" where
  "Base_stop c = c\<lparr>m_started := False\<rparr>"

section \<open>\<^verbatim>\<open>IdtSelection\<close>\<close>

record idt_selection = base +
  m_critical :: bool

definition IdtSelection_start :: "precision \<Rightarrow> idt_selection \<Rightarrow> idt_selection" where
  "IdtSelection_start intervalTime c = Base_start intervalTime (c\<lparr>m_critical := False\<rparr>)"

text \<open>The temperature to use, whether the two sensors are in order, and whether there is none to use.\<close>

definition IdtSelection_select :: "model_points \<Rightarrow> rat \<times> bool \<times> bool \<times> bool" where
  "IdtSelection_select d =
     (let enabledSecondaryIdt = read_or False (mp_enabledSecondaryIdt d);
          primaryIdt = read_or 0 (mp_primaryRawIdt d);
          secondaryIdt = read_or 0 (mp_secondaryRawIdt d);
          validPrimary = mp_valid (mp_primaryRawIdt d);
          validSecondary = mp_valid (mp_secondaryRawIdt d);
          validSecondary = (if \<not> mp_valid (mp_enabledSecondaryIdt d) \<or> \<not> enabledSecondaryIdt then False else validSecondary);
          idt = (if enabledSecondaryIdt \<and> validSecondary then secondaryIdt else primaryIdt);
          validSecondary = (if enabledSecondaryIdt then validSecondary else True)
      in (idt, validPrimary, validSecondary, \<not> validPrimary \<and> \<not> enabledSecondaryIdt \<or> \<not> validPrimary \<and> \<not> validSecondary))"

definition IdtSelection_execute :: "float_unit \<Rightarrow> precision \<Rightarrow> idt_selection \<Rightarrow> model_points \<Rightarrow> (bool \<times> idt_selection \<times> model_points) option" where
  "IdtSelection_execute fu interval c d =
     (let (idt, validPrimary, validSecondary, crit) = IdtSelection_select d;
          d = d\<lparr>mp_activeIdt := Float_write fu idt (mp_activeIdt d)\<rparr>;
          d = d\<lparr>mp_idtAlarms := MpIdtAlarm_setAlarm (\<not> validPrimary) (\<not> validSecondary) crit (mp_idtAlarms d)\<rparr>
      in if crit \<and> \<not> m_critical c
         then Some (True, c\<lparr>m_critical := True\<rparr>, d\<lparr>mp_systemForcedOffRefCnt := RefCounter_increment 1 (mp_systemForcedOffRefCnt d)\<rparr>)
         else if \<not> crit \<and> m_critical c
         then Some (True, c\<lparr>m_critical := False\<rparr>, d\<lparr>mp_systemForcedOffRefCnt := RefCounter_decrement 1 (mp_systemForcedOffRefCnt d)\<rparr>)
         else Some (True, c, d))"

section \<open>\<^verbatim>\<open>OperatingMode\<close>\<close>

record operating_mode_component = base +
  m_prevOperatingMode :: operating_mode
  m_equipCfgSequenceNumber :: u16
  m_comfortCfgSequenceNumber :: u16
  m_inAuto :: bool
  m_forcedOff :: bool

definition OperatingMode_start :: "precision \<Rightarrow> operating_mode_component \<Rightarrow> operating_mode_component" where
  "OperatingMode_start intervalTime c = Base_start intervalTime (c\<lparr>m_prevOperatingMode := OM_eUNKNOWN, m_inAuto := False\<rparr>)"

definition setNoActiveConditioningAlarm :: "bool \<Rightarrow> operating_mode_component \<Rightarrow> model_points \<Rightarrow> operating_mode_component \<times> model_points" where
  "setNoActiveConditioningAlarm alarmIsActive c d =
     (if alarmIsActive
      then let d = d\<lparr>mp_noActiveConditioningAlarm := MpSimpleAlarm_setAlarm True True (mp_noActiveConditioningAlarm d)\<rparr>
           in if \<not> m_forcedOff c
              then (c\<lparr>m_forcedOff := True\<rparr>, d\<lparr>mp_systemForcedOffRefCnt := RefCounter_increment 1 (mp_systemForcedOffRefCnt d)\<rparr>)
              else (c, d)
      else let d = d\<lparr>mp_noActiveConditioningAlarm := MpSimpleAlarm_setAlarm False False (mp_noActiveConditioningAlarm d)\<rparr>
           in if m_forcedOff c
              then (c\<lparr>m_forcedOff := False\<rparr>, d\<lparr>mp_systemForcedOffRefCnt := RefCounter_decrement 1 (mp_systemForcedOffRefCnt d)\<rparr>)
              else (c, d))"

text \<open>The results are whether there is cooling, heating, a heat pump.\<close>

definition determineAllowedModes :: "equipment_config \<Rightarrow> operating_mode_component \<Rightarrow> model_points \<Rightarrow>
    (bool \<times> bool \<times> bool) \<times> operating_mode_component \<times> model_points" where
  "determineAllowedModes equipmentCfg c d =
     (let comp = numCompStages equipmentCfg > 0;
          haveCooling = (oduType equipmentCfg \<in> {eAC, eHP} \<and> comp);
          haveHeatPump = (oduType equipmentCfg = eHP \<and> comp);
          haveHeating = (haveHeatPump \<or> numIduHeatingStages equipmentCfg > 0)
      in ((haveCooling, haveHeating, haveHeatPump), setNoActiveConditioningAlarm (\<not> haveCooling \<and> \<not> haveHeating) c d))"

definition COOLING_LV_PER_STAGE :: rat where "COOLING_LV_PER_STAGE = 100"
definition HEATING_LV_PER_STAGE :: rat where "HEATING_LV_PER_STAGE = 100"

text \<open>The loop over the stages, from stage \<open>i\<close> with lower bound \<open>pv\<close>, for \<open>n\<close> stages; it fails past the end of the array.\<close>

fun set_stages :: "float_unit \<Rightarrow> rat \<Rightarrow> comfort_stage \<Rightarrow> u16 \<Rightarrow> nat \<Rightarrow> nat \<Rightarrow> rat \<Rightarrow> system_config \<Rightarrow> system_config option" where
  "set_stages fu lv cc fan 0 i pv sysCfg = Some sysCfg"
| "set_stages fu lv cc fan (Suc n) i pv sysCfg = do {
     c_assert (i < length (cfg_stages sysCfg));
     let up = fround fu (pv + lv);
     let s = \<lparr>lowerBound = pv, upperBound = up, minIndoorFan = fan, maxIndoorFan = fan,
              minOnTime = cs_minOnTime cc, minOffTime = cs_minOffTime cc, cfg_cph = cs_cph cc\<rparr>;
     set_stages fu lv cc fan n (Suc i) up (sysCfg\<lparr>cfg_stages := (cfg_stages sysCfg)[i := s], cfg_maxPvOut := up\<rparr>)
   }"

definition setSystemConfig :: "float_unit \<Rightarrow> operating_mode \<Rightarrow> equipment_config \<Rightarrow> comfort_config \<Rightarrow> system_config option" where
  "setSystemConfig fu newOpMode equipmentCfg comfortCfg =
     (let sysCfg = MpSystemConfig_setToOff\<lparr>currentOpMode := newOpMode, outdoorUnitType := oduType equipmentCfg, indoorUnitType := iduType equipmentCfg,
            fanContinuousSpeed := (if \<not> hasVspBlower equipmentCfg then VIRTUAL_OUTPUTS_ON else 500)\<rparr>
      in if newOpMode = OM_eCOOLING
         then set_stages fu COOLING_LV_PER_STAGE (compressorCooling comfortCfg)
                (if \<not> hasVspBlower equipmentCfg then VIRTUAL_OUTPUTS_ON else 850) (unat (numCompStages equipmentCfg)) 0 0
                (sysCfg\<lparr>numCompressorStages := numCompStages equipmentCfg, numIndoorStages := 0, totalStages := numCompStages equipmentCfg,
                   cfg_gain := 15, cfg_reset := 300000\<rparr>)
         else if newOpMode = OM_eID_HEATING
         then set_stages fu HEATING_LV_PER_STAGE (indoorHeating comfortCfg)
                (if iduType equipmentCfg = eFURNACE then VIRTUAL_OUTPUTS_OFF else VIRTUAL_OUTPUTS_ON) (unat (numIduHeatingStages equipmentCfg)) 0 0
                (sysCfg\<lparr>numCompressorStages := 0, numIndoorStages := numIduHeatingStages equipmentCfg, totalStages := numIduHeatingStages equipmentCfg,
                   cfg_gain := 20, cfg_reset := 300000\<rparr>)
         else Some sysCfg)"

definition setNewOperatingMode :: "float_unit \<Rightarrow> operating_mode \<Rightarrow> bool \<Rightarrow> equipment_config \<Rightarrow> comfort_config \<Rightarrow>
    operating_mode_component \<Rightarrow> model_points \<Rightarrow> (operating_mode_component \<times> model_points) option" where
  "setNewOperatingMode fu newOpMode haveHeatPump equipmentCfg comfortCfg c d = do {
     let newOpMode = (if newOpMode = OM_eHEATING \<and> \<not> haveHeatPump then OM_eID_HEATING else newOpMode);
     let modeChanged = (newOpMode \<noteq> m_prevOperatingMode c);
     let d = (if modeChanged then d\<lparr>mp_operatingModeChanged := mp_write True (mp_operatingModeChanged d),
                                    mp_resetPiPulse := mp_write True (mp_resetPiPulse d)\<rparr> else d);
     let c = (if modeChanged then c\<lparr>m_prevOperatingMode := newOpMode\<rparr> else c);
     let ccSeqNum = mp_seq (mp_comfortConfig d);
     let eqSeqNum = mp_seq (mp_equipmentConfig d);
     if modeChanged \<or> m_comfortCfgSequenceNumber c \<noteq> ccSeqNum \<or> m_equipCfgSequenceNumber c \<noteq> eqSeqNum
     then do {
       sysCfg \<leftarrow> setSystemConfig fu newOpMode equipmentCfg comfortCfg;
       Some (c\<lparr>m_comfortCfgSequenceNumber := ccSeqNum, m_equipCfgSequenceNumber := eqSeqNum\<rparr>,
             d\<lparr>mp_systemConfig := MpSystemConfig_write fu sysCfg (mp_systemConfig d)\<rparr>)
     }
     else Some (c, d)
   }"

definition zero_time :: precision where "zero_time = \<lparr>m_seconds = 0, m_thousandths = 0\<rparr>"

definition zero_equipment_times :: equipment_times where
  "zero_equipment_times = \<lparr>et_outdoorUnitBeginOnTime = zero_time, et_outdoorUnitBeginOffTime = zero_time, et_indoorUnitBeginOnTime = zero_time,
     et_indoorUnitBeginOffTime = zero_time, et_systemBeginOnTime = zero_time, et_systemBeginOffTime = zero_time\<rparr>"

definition zero_equipment :: equipment_config where
  "zero_equipment = \<lparr>iduType = eAIR_HANDLER, oduType = eAC, numCompStages = 0, numIduHeatingStages = 0, hasVspBlower = False\<rparr>"

definition zero_comfort :: comfort_config where
  "zero_comfort = (let s = \<lparr>cs_minOnTime = 0, cs_minOffTime = 0, cs_cph = e2CPH\<rparr> in \<lparr>compressorCooling = s, compressorHeating = s, indoorHeating = s\<rparr>)"

text \<open>The user mode, corrected to what the equipment can do, and whether that is an alarm.\<close>

definition correct_user_mode :: "bool \<Rightarrow> bool \<Rightarrow> thermostat_mode \<Rightarrow> thermostat_mode \<times> bool" where
  "correct_user_mode haveCooling haveHeating userMode =
     (if userMode = TM_eCOOLING \<and> \<not> haveCooling then (TM_eOFF, True)
      else if (userMode = TM_eHEATING \<or> userMode = TM_eID_HEATING) \<and> \<not> haveHeating then (TM_eOFF, True)
      else if userMode = TM_eAUTO \<and> (\<not> haveCooling \<or> \<not> haveHeating) then (if haveCooling then TM_eCOOLING else TM_eHEATING, False)
      else (userMode, False))"

text \<open>The switch that turns the user mode into an operating mode.\<close>

definition resolve_mode :: "float_unit \<Rightarrow> precision \<Rightarrow> thermostat_mode \<Rightarrow> bool \<Rightarrow> equipment_config \<Rightarrow> comfort_config \<Rightarrow> rat \<Rightarrow> setpoints \<Rightarrow> bool \<Rightarrow> equipment_times \<Rightarrow>
    operating_mode_component \<Rightarrow> model_points \<Rightarrow> (operating_mode_component \<times> model_points) option" where
  "resolve_mode fu interval userMode haveHeatPump equipmentCfg comfortCfg idt sp sysOn eqTimes c d = (case userMode of
     TM_eCOOLING \<Rightarrow> setNewOperatingMode fu OM_eCOOLING haveHeatPump equipmentCfg comfortCfg (c\<lparr>m_inAuto := False\<rparr>) d
   | TM_eHEATING \<Rightarrow> setNewOperatingMode fu OM_eHEATING haveHeatPump equipmentCfg comfortCfg (c\<lparr>m_inAuto := False\<rparr>) d
   | TM_eID_HEATING \<Rightarrow> setNewOperatingMode fu OM_eID_HEATING haveHeatPump equipmentCfg comfortCfg (c\<lparr>m_inAuto := False\<rparr>) d
   | TM_eAUTO \<Rightarrow>
       (if \<not> m_inAuto c
        then setNewOperatingMode fu (if idt \<le> heatSetpt sp then OM_eHEATING else OM_eCOOLING) haveHeatPump equipmentCfg comfortCfg (c\<lparr>m_inAuto := True\<rparr>) d
        else if \<not> sysOn \<and> expiredPrecision (et_systemBeginOffTime eqTimes) \<lparr>m_seconds = 600, m_thousandths = 0\<rparr> interval
        then setNewOperatingMode fu (if idt \<ge> fround fu (coolSetpt sp - 1) then OM_eCOOLING else OM_eHEATING) haveHeatPump equipmentCfg comfortCfg c d
        else Some (c, d))
   | TM_eOFF \<Rightarrow> setNewOperatingMode fu OM_eOFF haveHeatPump equipmentCfg comfortCfg (c\<lparr>m_inAuto := False\<rparr>) d)"

definition OperatingMode_execute :: "float_unit \<Rightarrow> precision \<Rightarrow> operating_mode_component \<Rightarrow> model_points \<Rightarrow>
    (bool \<times> operating_mode_component \<times> model_points) option" where
  "OperatingMode_execute fu interval c d = do {
     let equipmentCfg = read_or zero_equipment (mp_equipmentConfig d);
     let comfortCfg = read_or zero_comfort (mp_comfortConfig d);
     let badInputs = (\<not> mp_valid (mp_activeIdt d) \<or> \<not> mp_valid (mp_userMode d) \<or> \<not> mp_valid (mp_setpoints d) \<or> \<not> mp_valid (mp_systemOn d) \<or>
       \<not> mp_valid (mp_equipmentBeginTimes d) \<or> \<not> mp_valid (mp_comfortConfig d) \<or> \<not> mp_valid (mp_equipmentConfig d));
     let d = d\<lparr>mp_operatingModeChanged := mp_write False (mp_operatingModeChanged d)\<rparr>;
     (c, d) \<leftarrow>
       (if badInputs then do {
          (c, d) \<leftarrow> setNewOperatingMode fu OM_eOFF False equipmentCfg comfortCfg c d;
          Some (setNoActiveConditioningAlarm True c d)
        }
        else do {
          let ((haveCooling, haveHeating, haveHeatPump), c, d) = determineAllowedModes equipmentCfg c d;
          if \<not> mp_valid (mp_systemForcedOffRefCnt d) \<or> mp_value (mp_systemForcedOffRefCnt d) > 0
          then setNewOperatingMode fu OM_eOFF haveHeatPump equipmentCfg comfortCfg c d
          else do {
            let (userMode, alarmActive) = correct_user_mode haveCooling haveHeating (mp_value (mp_userMode d));
            let d = d\<lparr>mp_userCfgModeAlarm := MpSimpleAlarm_setAlarm alarmActive alarmActive (mp_userCfgModeAlarm d)\<rparr>;
            resolve_mode fu interval userMode haveHeatPump equipmentCfg comfortCfg (mp_value (mp_activeIdt d)) (mp_value (mp_setpoints d))
              (mp_value (mp_systemOn d)) (mp_value (mp_equipmentBeginTimes d)) c d
          }
        });
     Some (True, c, d)
   }"

section \<open>\<^verbatim>\<open>PiPreProcess\<close> and \<^verbatim>\<open>Pi\<close>\<close>

record pi_pre_process = base +
  m_prevActiveSetpoint :: rat

definition INVALID_SETPOINT :: rat where "INVALID_SETPOINT = 9999"

definition PiPreProcess_start :: "precision \<Rightarrow> pi_pre_process \<Rightarrow> pi_pre_process" where
  "PiPreProcess_start intervalTime c = Base_start intervalTime (c\<lparr>m_prevActiveSetpoint := INVALID_SETPOINT\<rparr>)"

definition PiPreProcess_execute :: "float_unit \<Rightarrow> precision \<Rightarrow> pi_pre_process \<Rightarrow> model_points \<Rightarrow> (bool \<times> pi_pre_process \<times> model_points) option" where
  "PiPreProcess_execute fu interval c d =
     (let idt = read_or 0 (mp_activeIdt d);
          sp = read_or \<lparr>coolSetpt = 0, heatSetpt = 0\<rparr> (mp_setpoints d);
          modeChanged = read_or False (mp_operatingModeChanged d);
          mode = (if mp_valid (mp_activeIdt d) \<and> mp_valid (mp_operatingModeChanged d) \<and> mp_valid (mp_setpoints d) \<and> mp_valid (mp_systemConfig d)
                  then currentOpMode (mp_value (mp_systemConfig d)) else OM_eOFF);
          (newActiveSetpoint, deltaIdtError) =
            (if mode = OM_eCOOLING then (coolSetpt sp, fround fu (idt - coolSetpt sp))
             else if mode = OM_eHEATING \<or> mode = OM_eID_HEATING then (heatSetpt sp, fround fu (heatSetpt sp - idt))
             else (INVALID_SETPOINT, 0));
          setpointDelta = (if modeChanged then 0 else \<bar>fround fu (newActiveSetpoint - m_prevActiveSetpoint c)\<bar>);
          setpointChanged = (\<not> modeChanged \<and> \<not> areFloatsEqual fu (Some setpointDelta) 0)
      in Some (True, c\<lparr>m_prevActiveSetpoint := newActiveSetpoint\<rparr>,
           d\<lparr>mp_setpointChanged := mp_write setpointChanged (mp_setpointChanged d),
             mp_deltaIdtError := Float_write fu deltaIdtError (mp_deltaIdtError d),
             mp_deltaSetpoint := Float_write fu setpointDelta (mp_deltaSetpoint d),
             mp_activeSetpoint := Float_write fu newActiveSetpoint (mp_activeSetpoint d)\<rparr>))"

record pi_controller = base +
  m_dt :: rat
  m_prevSumError :: rat
  m_prevPvOut :: rat
  m_maxSumError :: rat

definition Pi_start :: "float_unit \<Rightarrow> precision \<Rightarrow> pi_controller \<Rightarrow> pi_controller" where
  "Pi_start fu intervalTime c = Base_start intervalTime
     (c\<lparr>m_dt := fround fu (of_nat (unat (ucast (m_thousandths intervalTime) + m_seconds intervalTime * 1000 :: u32))),
        m_prevSumError := 0, m_prevPvOut := 0, m_maxSumError := 0\<rparr>)"

text \<open>
  The algorithm on the inputs: the error, the number of requests that inhibit the integral term, gain, reset time and largest
  output.  The results are the output, the sum, the inhibit flag and the component; a division by zero leaves the numbers and has no result.
\<close>

definition Pi_update :: "float_unit \<Rightarrow> (rat \<Rightarrow> rat) \<Rightarrow> rat \<Rightarrow> u32 \<Rightarrow> rat \<Rightarrow> rat \<Rightarrow> rat \<Rightarrow> pi_controller \<Rightarrow> (rat \<times> rat \<times> bool \<times> pi_controller) option" where
  "Pi_update fu dr deltaError inhibitRefCnt gain resetTime maxPvOut c = do {
     let newSumError = fround fu (m_prevSumError c + deltaError);
     let newSumError = (if newSumError < 0 then 0 else newSumError);
     c \<leftarrow> (if areFloatsEqual fu (Some (m_maxSumError c)) 0 then do {
             c_assert (dr (gain * m_dt c) \<noteq> 0);
             Some (c\<lparr>m_maxSumError := fround fu (dr (dr (maxPvOut * resetTime) / dr (gain * m_dt c)))\<rparr>)
           } else Some c);
     let inhibitState = (newSumError > m_maxSumError c);
     let newSumError = (if inhibitState then m_maxSumError c else newSumError);
     c_assert (resetTime \<noteq> 0);
     let pv = fround fu (dr (gain * dr (deltaError + dr (dr (newSumError * m_dt c) / resetTime))));
     let noUpdateToSumError = (\<not> pv < 0 \<and> pv > maxPvOut);
     let pv = (if pv < 0 then 0 else if pv > maxPvOut then maxPvOut else pv);
     let update = (inhibitRefCnt = 0 \<and> \<not> noUpdateToSumError);
     let sumError = (if update then newSumError else m_prevSumError c);
     Some (pv, sumError, inhibitState \<or> \<not> update, c\<lparr>m_prevSumError := sumError, m_prevPvOut := pv\<rparr>)
   }"

definition Pi_execute :: "float_unit \<Rightarrow> (rat \<Rightarrow> rat) \<Rightarrow> precision \<Rightarrow> pi_controller \<Rightarrow> model_points \<Rightarrow> (bool \<times> pi_controller \<times> model_points) option" where
  "Pi_execute fu dr interval c d = do {
     let resetPi = read_or False (mp_resetPiPulse d);
     let frozen = (\<not> mp_valid (mp_resetPiPulse d) \<or> \<not> mp_valid (mp_deltaIdtError d) \<or> \<not> mp_valid (mp_systemConfig d) \<or>
       \<not> mp_valid (mp_freezePiRefCnt d) \<or> \<not> mp_valid (mp_inhibitfRefCnt d) \<or> mp_value (mp_freezePiRefCnt d) \<noteq> 0);
     let sysCfg = mp_value (mp_systemConfig d);
     let c = (if resetPi then c\<lparr>m_prevSumError := 0, m_prevPvOut := 0, m_maxSumError := 0\<rparr> else c);
     (pv, sumError, inhibitState, c) \<leftarrow>
       (if frozen then Some (m_prevPvOut c, m_prevSumError c, True, c)
        else Pi_update fu dr (mp_value (mp_deltaIdtError d)) (mp_value (mp_inhibitfRefCnt d)) (cfg_gain sysCfg) (cfg_reset sysCfg) (cfg_maxPvOut sysCfg) c);
     Some (True, c, d\<lparr>mp_pvOut := Float_write fu pv (mp_pvOut d), mp_sumError := Float_write fu sumError (mp_sumError d),
       mp_pvInhibited := mp_write inhibitState (mp_pvInhibited d)\<rparr>)
   }"

section \<open>\<^verbatim>\<open>Control\<close>, wired to its points\<close>

record control_component = base +
  the_control :: control

definition Control_inputs :: "addr \<Rightarrow> model_points \<Rightarrow> control_in" where
  "Control_inputs a d = \<lparr>
     in_valid = (mp_valid (mp_systemConfig d) \<and> mp_valid (mp_pvOut d) \<and> mp_valid (mp_vOutputs d) \<and> mp_valid (mp_equipmentBeginTimes d) \<and>
       mp_valid (mp_systemOn d) \<and> mp_valid (mp_cycleInfo d) \<and> mp_valid (mp_operatingModeChanged d) \<and> mp_valid (mp_whiteBox d)),
     in_args = \<lparr>pvOut = mp_value (mp_pvOut d), systemConfig = mp_value (mp_systemConfig d), currentInterval = zero_time,
       outdoorUnitBeginOffTime = et_outdoorUnitBeginOffTime (mp_value (mp_equipmentBeginTimes d)),
       indoorUnitBeginOffTime = et_indoorUnitBeginOffTime (mp_value (mp_equipmentBeginTimes d)),
       defeatEquipMinOffTime = wb_defeatEquipMinOffTime (mp_value (mp_whiteBox d)), abortOnOffCycle = wb_abortOnOffCycle (mp_value (mp_whiteBox d)),
       vOutputs = mp_value (mp_vOutputs d), cycleInfo = mp_value (mp_cycleInfo d), systemOn = mp_value (mp_systemOn d)\<rparr>,
     in_args_at = a, in_sequence = mp_seq (mp_systemConfig d), in_operatingModeChanged = mp_value (mp_operatingModeChanged d)\<rparr>"

definition Control_outputs :: "control_out \<Rightarrow> model_points \<Rightarrow> model_points" where
  "Control_outputs out d = (case out of
     Nothing_written \<Rightarrow> d
   | Safe_all_off _ \<Rightarrow> d\<lparr>mp_vOutputs := MpVirtualOutputs_setSafeAllOff (mp_vOutputs d)\<rparr>
   | Written v ci on \<Rightarrow> d\<lparr>mp_vOutputs := MpVirtualOutputs_write v (mp_vOutputs d), mp_cycleInfo := mp_write ci (mp_cycleInfo d),
       mp_systemOn := mp_write on (mp_systemOn d)\<rparr>)"

definition Control_run :: "float_unit \<Rightarrow> addr \<Rightarrow> precision \<Rightarrow> control_component \<Rightarrow> model_points \<Rightarrow> (bool \<times> control_component \<times> model_points) option" where
  "Control_run fu a interval c d = do {
     (ok, out, ctl) \<leftarrow> Control_execute fu interval (Control_inputs a d) (the_control c);
     Some (ok, c\<lparr>the_control := ctl\<rparr>, Control_outputs out d)
   }"

section \<open>\<^verbatim>\<open>FanControl\<close>, \<^verbatim>\<open>AirFilterMonitor\<close>, \<^verbatim>\<open>HvacRelayOutputs\<close>\<close>

definition FanControl_execute :: "precision \<Rightarrow> base \<Rightarrow> model_points \<Rightarrow> (bool \<times> base \<times> model_points) option" where
  "FanControl_execute interval c d =
     (if \<not> mp_valid (mp_fanMode d) \<or> \<not> mp_valid (mp_systemConfig d) \<or> \<not> mp_valid (mp_vOutputs d) \<or> \<not> mp_valid (mp_equipmentBeginTimes d)
      then Some (True, c, d\<lparr>mp_vOutputs := MpVirtualOutputs_setIndoorFanOutput VIRTUAL_OUTPUTS_OFF (mp_vOutputs d)\<rparr>)
      else case mp_value (mp_fanMode d) of
        FM_eCONTINUOUS \<Rightarrow> Some (True, c, d\<lparr>mp_vOutputs :=
          MpVirtualOutputs_setIndoorFanContinousOutput (fanContinuousSpeed (mp_value (mp_systemConfig d))) (mp_vOutputs d)\<rparr>)
      | FM_eAUTO \<Rightarrow> Some (True, c, d\<lparr>mp_vOutputs := MpVirtualOutputs_setIndoorFanContinousOutput VIRTUAL_OUTPUTS_OFF (mp_vOutputs d)\<rparr>))"

record air_filter_monitor = base +
  m_markBlowerOn :: precision
  m_blowerWasOn :: bool

definition AirFilterMonitor_start :: "precision \<Rightarrow> air_filter_monitor \<Rightarrow> air_filter_monitor" where
  "AirFilterMonitor_start intervalTime c = Base_start intervalTime (c\<lparr>m_blowerWasOn := False\<rparr>)"

definition AirFilterMonitor_execute :: "precision \<Rightarrow> air_filter_monitor \<Rightarrow> model_points \<Rightarrow> (bool \<times> air_filter_monitor \<times> model_points) option" where
  "AirFilterMonitor_execute interval c d =
     (if \<not> mp_valid (mp_airFilterAlert d) \<or> \<not> mp_valid (mp_maxAirFilterHours d) \<or> \<not> mp_valid (mp_airFilterOperationTime d) \<or> \<not> mp_valid (mp_vOutputs d)
      then Some (True, c, d)
      else let alert = mp_value (mp_airFilterAlert d); elapsedTime = mp_value (mp_airFilterOperationTime d); outputs = mp_value (mp_vOutputs d)
      in if active alert then Some (True, c, d)
      else let (c, alert, elapsedTime) =
             (if indoorFan outputs \<noteq> VIRTUAL_OUTPUTS_OFF \<or> indoorFanCont outputs \<noteq> VIRTUAL_OUTPUTS_OFF
              then let c = (if \<not> m_blowerWasOn c then c\<lparr>m_blowerWasOn := True, m_markBlowerOn := interval\<rparr> else c);
                       elapsedTime = Precision_add elapsedTime (deltaPrecision (m_markBlowerOn c) interval);
                       c = c\<lparr>m_markBlowerOn := interval\<rparr>;
                       limit = \<lparr>m_seconds = mp_value (mp_maxAirFilterHours d) * 60 * 60, m_thousandths = 0\<rparr>
                   in if Precision_ge elapsedTime limit
                      then (c\<lparr>m_blowerWasOn := False\<rparr>, \<lparr>active = True, acked = False, critical = False\<rparr>, zero_time)
                      else (c, alert, elapsedTime)
              else (c, alert, elapsedTime))
           in Some (True, c, d\<lparr>mp_airFilterAlert := mp_write alert (mp_airFilterAlert d),
                mp_airFilterOperationTime := mp_write elapsedTime (mp_airFilterOperationTime d)\<rparr>))"

record hvac_relay_outputs = base +
  hr_systemOn :: bool
  m_y1 :: bool
  m_w1 :: bool

definition zero_outputs :: virtual_outputs where
  "zero_outputs = \<lparr>indoorFan = 0, indoorFanCont = 0, indoorStages = [0, 0, 0], outdoorFan = 0, outdoorStages = [0], sovInHeating = False\<rparr>"

definition relays_of :: "virtual_outputs \<Rightarrow> relay_outputs" where
  "relays_of outputs =
     (let finalFanSpeed = (if indoorFanCont outputs > indoorFan outputs then indoorFanCont outputs else indoorFan outputs)
      in \<lparr>relay_g = (finalFanSpeed > VIRTUAL_OUTPUTS_OFF), relay_bk = word_of_nat ((unat finalFanSpeed + 5) div 10),
          relay_w1 = (indoorStages outputs ! 0 > VIRTUAL_OUTPUTS_OFF), relay_w2 = (indoorStages outputs ! 1 > VIRTUAL_OUTPUTS_OFF),
          relay_w3 = (indoorStages outputs ! 2 > VIRTUAL_OUTPUTS_OFF), relay_o = (\<not> sovInHeating outputs),
          relay_y1 = (outdoorStages outputs ! 0 > VIRTUAL_OUTPUTS_OFF), relay_y2 = False\<rparr>)"

definition HvacRelayOutputs_execute :: "precision \<Rightarrow> hvac_relay_outputs \<Rightarrow> model_points \<Rightarrow> (bool \<times> hvac_relay_outputs \<times> model_points) option" where
  "HvacRelayOutputs_execute interval c d =
     (let outputs = read_or zero_outputs (mp_vOutputs d);
          t = read_or zero_equipment_times (mp_equipmentBeginTimes d);
          sysOn = read_or False (mp_systemOn d);
          forcedOffRefCnt = read_or 0 (mp_systemForcedOffRefCnt d);
          failOff = (\<not> mp_valid (mp_systemForcedOffRefCnt d) \<or> \<not> mp_valid (mp_vOutputs d) \<or> \<not> mp_valid (mp_systemOn d) \<or> \<not> mp_valid (mp_equipmentBeginTimes d));
          outputs = (if failOff then setSafeAllOff outputs else outputs);
          outputs = (if forcedOffRefCnt > 0 then setCapacityOff outputs else outputs);
          r = relays_of outputs;
          t = (if m_y1 c \<and> \<not> relay_y1 r then t\<lparr>et_outdoorUnitBeginOffTime := interval\<rparr>
               else if \<not> m_y1 c \<and> relay_y1 r then t\<lparr>et_outdoorUnitBeginOnTime := interval\<rparr> else t);
          t = (if m_w1 c \<and> \<not> relay_w1 r then t\<lparr>et_indoorUnitBeginOffTime := interval\<rparr>
               else if \<not> m_w1 c \<and> relay_w1 r then t\<lparr>et_indoorUnitBeginOnTime := interval\<rparr> else t);
          t = (if \<not> sysOn \<and> hr_systemOn c then t\<lparr>et_systemBeginOffTime := interval\<rparr>
               else if sysOn \<and> \<not> hr_systemOn c then t\<lparr>et_systemBeginOnTime := interval\<rparr> else t)
      in Some (True, c\<lparr>m_y1 := relay_y1 r, m_w1 := relay_w1 r, hr_systemOn := sysOn\<rparr>,
           d\<lparr>mp_equipmentBeginTimes := mp_write t (mp_equipmentBeginTimes d), mp_relayOutputs := MpHvacRelayOutputs_write r (mp_relayOutputs d)\<rparr>))"

end
