(* ===== verification/Storm_Algorithm.thy ===== *)
theory Storm_Algorithm
  imports Storm_Components
begin

text \<open>
  The thermostat as a whole (\<^verbatim>\<open>src/src/Storm/Thermostat/Algorithm.cpp\<close>, \<^verbatim>\<open>Main/modelpoints.cpp\<close>): the construction and the start of the
  components, the initial values of the model points, and the cycle that the timer runs.  Reaching the fatal error of a
  failed component is the value \<open>None\<close>.  What the outside does between two cycles is a relation on the points.
\<close>

section \<open>Construction and start\<close>

record algorithm =
  alg_idtSelection :: idt_selection
  alg_operatingMode :: operating_mode_component
  alg_piPreProcess :: pi_pre_process
  alg_pi :: pi_controller
  alg_controlCooling :: control_component
  alg_controlIdHeating :: control_component
  alg_controlOff :: control_component
  alg_fanControl :: base
  alg_airFilterMonitor :: air_filter_monitor
  alg_hvacRelayOutputs :: hvac_relay_outputs
  alg_postProcessor :: base

text \<open>The members that a constructor leaves alone are an argument.\<close>

definition Base_new :: "precision \<Rightarrow> base" where
  "Base_new t = \<lparr>m_interval = t, m_timeMark = t, m_slipCounter = 0, m_timeMarkValid = False, m_started = False\<rparr>"

definition Control_new :: "precision \<Rightarrow> equipment \<Rightarrow> stage list \<Rightarrow> control_component" where
  "Control_new t eq stages = base.extend (Base_new t) (control_component.fields \<lparr>m_equipment = eq, m_sysCfgSequenceNumber = SEQUENCE_NUMBER_UNKNOWN, ctl_stages = stages\<rparr>)"

definition Algorithm_new :: "precision \<Rightarrow> rat \<Rightarrow> algorithm" where
  "Algorithm_new t x = \<lparr>
     alg_idtSelection = base.extend (Base_new t) (idt_selection.fields False),
     alg_operatingMode = base.extend (Base_new t) (operating_mode_component.fields OM_eUNKNOWN SEQUENCE_NUMBER_UNKNOWN SEQUENCE_NUMBER_UNKNOWN False False),
     alg_piPreProcess = base.extend (Base_new t) (pi_pre_process.fields x),
     alg_pi = base.extend (Base_new t) (pi_controller.fields x x x x),
     alg_controlCooling = Control_new t (Cooling 0) [Basic BasicCooling 0 0],
     alg_controlIdHeating = Control_new t (IndoorHeating 0 1 2) [Basic (BasicIndoorHeat False) 0 0, Basic (BasicIndoorHeat False) 1 1, Basic (BasicIndoorHeat False) 2 2],
     alg_controlOff = Control_new t EquipmentOff [],
     alg_fanControl = Base_new t,
     alg_airFilterMonitor = base.extend (Base_new t) (air_filter_monitor.fields t False),
     alg_hvacRelayOutputs = base.extend (Base_new t) (hvac_relay_outputs.fields True True True),
     alg_postProcessor = Base_new t\<rparr>"

text \<open>
  The start of the equipment resets its stages.  No \<^verbatim>\<open>Args_T\<close> exists at that time: \<open>nowhere\<close> is an address that no stage
  holds, and \<open>ar\<close> is never looked at.
\<close>

definition Control_start :: "float_unit \<Rightarrow> addr \<Rightarrow> args \<Rightarrow> precision \<Rightarrow> control_component \<Rightarrow> control_component option" where
  "Control_start fu nowhere ar intervalTime c = do {
     let c = Base_start intervalTime c;
     p \<leftarrow> equipment_reset fu (m_equipment (the_control c)) \<lparr>the_stages = ctl_stages (the_control c), args_at = nowhere, the_args = ar\<rparr>;
     Some (c\<lparr>the_control := (the_control c)\<lparr>ctl_stages := the_stages p\<rparr>\<rparr>)
   }"

definition Algorithm_startComponents :: "float_unit \<Rightarrow> addr \<Rightarrow> args \<Rightarrow> algorithm \<Rightarrow> algorithm option" where
  "Algorithm_startComponents fu nowhere ar alg = do {
     let time = \<lparr>m_seconds = 2, m_thousandths = 0\<rparr>;
     cool \<leftarrow> Control_start fu nowhere ar time (alg_controlCooling alg);
     heat \<leftarrow> Control_start fu nowhere ar time (alg_controlIdHeating alg);
     off \<leftarrow> Control_start fu nowhere ar time (alg_controlOff alg);
     Some \<lparr>alg_idtSelection = IdtSelection_start time (alg_idtSelection alg),
       alg_operatingMode = OperatingMode_start time (alg_operatingMode alg),
       alg_piPreProcess = PiPreProcess_start time (alg_piPreProcess alg),
       alg_pi = Pi_start fu time (alg_pi alg),
       alg_controlCooling = cool, alg_controlIdHeating = heat, alg_controlOff = off,
       alg_fanControl = Base_start time (alg_fanControl alg),
       alg_airFilterMonitor = AirFilterMonitor_start time (alg_airFilterMonitor alg),
       alg_hvacRelayOutputs = Base_start time (alg_hvacRelayOutputs alg),
       alg_postProcessor = Base_start time (alg_postProcessor alg)\<rparr>
   }"

definition initializeModelPoints :: "float_unit \<Rightarrow> model_points \<Rightarrow> model_points" where
  "initializeModelPoints fu d = d\<lparr>
     mp_primaryRawIdt := Float_write fu 75 (mp_primaryRawIdt d), mp_secondaryRawIdt := Float_write fu 71 (mp_secondaryRawIdt d),
     mp_activeIdt := mp_invalidate 0 (mp_activeIdt d), mp_idtAlarms := MpIdtAlarm_setAlarm False False False (mp_idtAlarms d),
     mp_noActiveConditioningAlarm := MpSimpleAlarm_setAlarm False False (mp_noActiveConditioningAlarm d),
     mp_userCfgModeAlarm := MpSimpleAlarm_setAlarm False False (mp_userCfgModeAlarm d),
     mp_systemForcedOffRefCnt := RefCounter_reset 0 (mp_systemForcedOffRefCnt d),
     mp_systemConfig := mp_invalidate MpSystemConfig_zero (mp_systemConfig d),
     mp_systemOn := mp_write False (mp_systemOn d), mp_equipmentBeginTimes := mp_write zero_equipment_times (mp_equipmentBeginTimes d),
     mp_resetPiPulse := mp_write False (mp_resetPiPulse d), mp_operatingModeChanged := mp_write False (mp_operatingModeChanged d),
     mp_deltaIdtError := Float_write fu 0 (mp_deltaIdtError d), mp_deltaSetpoint := Float_write fu 0 (mp_deltaSetpoint d),
     mp_setpointChanged := mp_write False (mp_setpointChanged d), mp_activeSetpoint := mp_invalidate 0 (mp_activeSetpoint d),
     mp_freezePiRefCnt := RefCounter_reset 0 (mp_freezePiRefCnt d), mp_inhibitfRefCnt := RefCounter_reset 0 (mp_inhibitfRefCnt d),
     mp_pvOut := Float_write fu 0 (mp_pvOut d), mp_sumError := Float_write fu 0 (mp_sumError d), mp_pvInhibited := mp_write False (mp_pvInhibited d),
     mp_vOutputs := MpVirtualOutputs_write zero_outputs (mp_vOutputs d),
     mp_cycleInfo := mp_write \<lparr>beginOnTime = zero_time, beginOffTime = zero_time, ci_onTime = 0, ci_offTime = 0, ci_mode = eOFF\<rparr> (mp_cycleInfo d),
     mp_relayOutputs := MpHvacRelayOutputs_setSafeAllOff (mp_relayOutputs d)\<rparr>"

section \<open>The cycle\<close>

text \<open>The physical outputs and the log of the post processing are outside of the model.\<close>

definition PostProcessing_execute :: "precision \<Rightarrow> base \<Rightarrow> model_points \<Rightarrow> (bool \<times> base \<times> model_points) option" where
  "PostProcessing_execute interval c d = Some (True, c, d\<lparr>mp_whiteBox := MpWhiteBox_resetPulseSettings (mp_whiteBox d)\<rparr>)"

definition Algorithm_expired :: "float_unit \<Rightarrow> (rat \<Rightarrow> rat) \<Rightarrow> addr \<Rightarrow> precision \<Rightarrow> algorithm \<Rightarrow> model_points \<Rightarrow> (algorithm \<times> model_points) option" where
  "Algorithm_expired fu dr a now alg d = do {
     let d = d\<lparr>mp_resetPiPulse := mp_write False (mp_resetPiPulse d)\<rparr>;
     (s1, idt, d) \<leftarrow> Base_doWork (IdtSelection_execute fu) True now (alg_idtSelection alg) d;
     (s2, opm, d) \<leftarrow> Base_doWork (OperatingMode_execute fu) s1 now (alg_operatingMode alg) d;
     (s3, pre, d) \<leftarrow> Base_doWork (PiPreProcess_execute fu) (s1 \<and> s2) now (alg_piPreProcess alg) d;
     (s4, ctl, d) \<leftarrow> Base_doWork (Pi_execute fu dr) (s1 \<and> s2 \<and> s3) now (alg_pi alg) d;
     (s5, cool, d) \<leftarrow> Base_doWork (Control_run fu a) (s1 \<and> s2 \<and> s3 \<and> s4) now (alg_controlCooling alg) d;
     (s6, heat, d) \<leftarrow> Base_doWork (Control_run fu a) (s1 \<and> s2 \<and> s3 \<and> s4 \<and> s5) now (alg_controlIdHeating alg) d;
     (s7, off, d) \<leftarrow> Base_doWork (Control_run fu a) (s1 \<and> s2 \<and> s3 \<and> s4 \<and> s5 \<and> s6) now (alg_controlOff alg) d;
     (s8, fan, d) \<leftarrow> Base_doWork FanControl_execute (s1 \<and> s2 \<and> s3 \<and> s4 \<and> s5 \<and> s6 \<and> s7) now (alg_fanControl alg) d;
     (s9, air, d) \<leftarrow> Base_doWork AirFilterMonitor_execute (s1 \<and> s2 \<and> s3 \<and> s4 \<and> s5 \<and> s6 \<and> s7 \<and> s8) now (alg_airFilterMonitor alg) d;
     (s10, hvac, d) \<leftarrow> Base_doWork HvacRelayOutputs_execute (s1 \<and> s2 \<and> s3 \<and> s4 \<and> s5 \<and> s6 \<and> s7 \<and> s8 \<and> s9) now (alg_hvacRelayOutputs alg) d;
     (s11, post, d) \<leftarrow> Base_doWork PostProcessing_execute (s1 \<and> s2 \<and> s3 \<and> s4 \<and> s5 \<and> s6 \<and> s7 \<and> s8 \<and> s9 \<and> s10) now (alg_postProcessor alg) d;
     c_assert (s1 \<and> s2 \<and> s3 \<and> s4 \<and> s5 \<and> s6 \<and> s7 \<and> s8 \<and> s9 \<and> s10 \<and> s11);
     Some (\<lparr>alg_idtSelection = idt, alg_operatingMode = opm, alg_piPreProcess = pre, alg_pi = ctl, alg_controlCooling = cool,
       alg_controlIdHeating = heat, alg_controlOff = off, alg_fanControl = fan, alg_airFilterMonitor = air, alg_hvacRelayOutputs = hvac,
       alg_postProcessor = post\<rparr>, d)
   }"

text \<open>Opening starts the components and runs the first cycle; closing only stops the timer.  The counter of the loops is for the log.\<close>

definition Algorithm_open :: "float_unit \<Rightarrow> (rat \<Rightarrow> rat) \<Rightarrow> addr \<Rightarrow> addr \<Rightarrow> args \<Rightarrow> precision \<Rightarrow> bool \<times> algorithm \<times> model_points \<Rightarrow> (bool \<times> algorithm \<times> model_points) option" where
  "Algorithm_open fu dr a nowhere ar now s = (case s of (opened, alg, d) \<Rightarrow>
     if \<not> opened then do {
       alg \<leftarrow> Algorithm_startComponents fu nowhere ar alg;
       (alg, d) \<leftarrow> Algorithm_expired fu dr a now alg d;
       Some (True, alg, d)
     }
     else Some s)"

definition Algorithm_close :: "bool \<times> algorithm \<times> model_points \<Rightarrow> bool \<times> algorithm \<times> model_points" where
  "Algorithm_close s = (False, snd s)"

section \<open>Executions\<close>

text \<open>
  A point in the use of the algorithm only: nobody has locked it, and it is valid.
\<close>

definition live :: "'a mp \<Rightarrow> bool" where
  "live m \<longleftrightarrow> mp_valid m \<and> \<not> mp_locked m"

text \<open>
  The configurations that the outside may write: equipment that passes its validation unchanged, and comfort settings with a
  number of cycles per hour and with minimum times that are not zero.
\<close>

definition equipment_fits :: "equipment_config \<Rightarrow> bool" where
  "equipment_fits e \<longleftrightarrow> MpEquipmentConfig_validate e = (False, e)"

definition comfort_fits :: "comfort_config \<Rightarrow> bool" where
  "comfort_fits cc \<longleftrightarrow> (\<forall>s\<in>{compressorCooling cc, indoorHeating cc}. cs_cph s \<noteq> eNUM_OPTIONS \<and> cs_minOnTime s \<noteq> 0 \<and> cs_minOffTime s \<noteq> 0)"

definition external_fits :: "model_points \<Rightarrow> bool" where
  "external_fits d \<longleftrightarrow> mp_valid (mp_whiteBox d) \<and> (mp_valid (mp_equipmentConfig d) \<longrightarrow> equipment_fits (mp_value (mp_equipmentConfig d))) \<and>
     (mp_valid (mp_comfortConfig d) \<longrightarrow> comfort_fits (mp_value (mp_comfortConfig d)))"

text \<open>The points that only the algorithm writes.\<close>

definition own_points :: "model_points \<Rightarrow> u32 mp \<times> system_config mp \<times> bool mp \<times> equipment_times mp \<times> bool mp \<times> bool mp \<times> rat mp \<times> virtual_outputs mp \<times> cycle_info mp \<times> relay_outputs mp" where
  "own_points d = (mp_systemForcedOffRefCnt d, mp_systemConfig d, mp_systemOn d, mp_equipmentBeginTimes d, mp_resetPiPulse d, mp_operatingModeChanged d,
     mp_pvOut d, mp_vOutputs d, mp_cycleInfo d, mp_relayOutputs d)"

text \<open>
  Between two cycles the outside writes the other points: sensors, user settings, configurations, acknowledgements, requests to freeze
  or inhibit the controller.  The points are created unlocked and initialised before the start.
\<close>

definition created :: "model_points \<Rightarrow> bool" where
  "created d \<longleftrightarrow> (case own_points d of (x1, x2, x3, x4, x5, x6, x7, x8, x9, x10) \<Rightarrow>
     \<not> mp_locked x1 \<and> \<not> mp_locked x2 \<and> \<not> mp_locked x3 \<and> \<not> mp_locked x4 \<and> \<not> mp_locked x5 \<and> \<not> mp_locked x6 \<and> \<not> mp_locked x7 \<and> \<not> mp_locked x8 \<and>
     \<not> mp_locked x9 \<and> \<not> mp_locked x10)"

inductive thermostat_reach :: "float_unit \<Rightarrow> (rat \<Rightarrow> rat) \<Rightarrow> addr \<Rightarrow> algorithm \<Rightarrow> model_points \<Rightarrow> bool" for fu dr a where
  start: "created d \<Longrightarrow> external_fits d \<Longrightarrow> Algorithm_startComponents fu nowhere ar (Algorithm_new t x) = Some alg \<Longrightarrow>
    thermostat_reach fu dr a alg (initializeModelPoints fu d)"
| outside: "thermostat_reach fu dr a alg d \<Longrightarrow> own_points d' = own_points d \<Longrightarrow> external_fits d' \<Longrightarrow> thermostat_reach fu dr a alg d'"
| expired: "thermostat_reach fu dr a alg d \<Longrightarrow> Algorithm_expired fu dr a now alg d = Some (alg', d') \<Longrightarrow> thermostat_reach fu dr a alg' d'"

inductive_cases thermostat_reachE: "thermostat_reach fu dr a alg d"

end
