(* ===== verification/Storm_Runs.thy ===== *)
theory Storm_Runs
  imports Storm_Algorithm
begin

text \<open>
  The runs of the components of the thermostat: from points in order each component returns with success, changes only the
  points named in its lemma, and leaves them in order for the component after it.  What the operating mode guarantees
  (\<open>mode_done\<close>) is what the controls need (\<open>controls_run\<close>); what these guarantee of the outputs (\<open>outputs_fit\<close>) is what the relays
  need (\<open>hvac_runs\<close>).
\<close>

section \<open>Writing a point\<close>

lemma live_write [simp]:
  "\<not> mp_locked m \<Longrightarrow> live (mp_write_by eq v m)" "mp_locked (mp_write_by eq v m) = mp_locked m"
  "mp_valid m \<Longrightarrow> mp_valid (mp_write_by eq v m)"
  by (simp_all add: live_def mp_write_by_def mp_updated_def)

lemma value_write [simp]: "\<not> mp_locked m \<Longrightarrow> mp_value (mp_write v m) = v"
  by (auto simp: mp_write_by_def mp_updated_def)

lemma liveD: "live m \<Longrightarrow> mp_valid m" "live m \<Longrightarrow> \<not> mp_locked m"
  by (simp_all add: live_def)

lemma live_count [simp]:
  "live m \<Longrightarrow> live (RefCounter_increment k m)" "live m \<Longrightarrow> live (RefCounter_decrement k m)"
  by (simp_all add: live_def RefCounter_increment_def RefCounter_decrement_def RefCounter_update_def Let_def)

text \<open>The counter of the reasons: two components each hold at most one of it.\<close>

definition reasons :: "bool \<Rightarrow> bool \<Rightarrow> u32" where
  "reasons b c = of_bool b + of_bool c"

lemma reasons_zero: "reasons b c = 0 \<longleftrightarrow> \<not> b \<and> \<not> c"
  by (cases b; cases c) (simp_all add: reasons_def)

lemma count_reasons:
  assumes "live m"
  shows "mp_value m = reasons False c \<Longrightarrow> mp_value (RefCounter_increment 1 m) = reasons True c"
    and "mp_value m = reasons True c \<Longrightarrow> mp_value (RefCounter_decrement 1 m) = reasons False c"
    and "mp_value m = reasons c False \<Longrightarrow> mp_value (RefCounter_increment 1 m) = reasons c True"
    and "mp_value m = reasons c True \<Longrightarrow> mp_value (RefCounter_decrement 1 m) = reasons c False"
  using assms by (cases c; simp add: live_def reasons_def RefCounter_increment_def RefCounter_decrement_def RefCounter_update_def Let_def)+

section \<open>The common base\<close>

lemma base_mark_parts [simp]:
  "m_started (Base_mark t c) = m_started c" "m_interval (Base_mark t c) = m_interval c" "base.more (Base_mark t c) = base.more c"
  by (simp_all add: Base_mark_def Base_setTimeMarker_def Let_def)

lemma mark_idt [simp]: "m_critical (Base_mark t c) = m_critical c"
  by (simp add: Base_mark_def Base_setTimeMarker_def Let_def)

lemma mark_mode [simp]:
  "m_prevOperatingMode (Base_mark t c) = m_prevOperatingMode c" "m_inAuto (Base_mark t c) = m_inAuto c" "m_forcedOff (Base_mark t c) = m_forcedOff c"
  by (simp_all add: Base_mark_def Base_setTimeMarker_def Let_def)

lemma mark_pi [simp]: "m_dt (Base_mark t c) = m_dt c"
  by (simp add: Base_mark_def Base_setTimeMarker_def Let_def)

lemma mark_control [simp]: "the_control (Base_mark t c) = the_control c"
  by (simp add: Base_mark_def Base_setTimeMarker_def Let_def)

lemma truncate_mark: "base.truncate (Base_mark t c) = Base_mark t (base.truncate c)"
  by (simp add: Base_mark_def Base_setTimeMarker_def base.defs Let_def)

lemma truncate_due: "Base_due t (base.truncate c) = Base_due t c"
  by (simp add: Base_due_def base.defs)

lemma truncate_started: "m_started (base.truncate c) = m_started c"
  by (simp add: base.defs)

lemma do_work_due:
  assumes "Base_due t (base.truncate c)" and "m_started (base.truncate c)"
  shows "Base_doWork ex True t c s = ex (m_timeMark (Base_mark t c)) (Base_mark t c) s"
  using assms by (simp add: Base_doWork_def truncate_due truncate_started Let_def)

lemma do_work_not_due: "\<not> Base_due t (base.truncate c) \<Longrightarrow> Base_doWork ex e t c s = Some (True, c, s)"
  by (simp add: Base_doWork_def truncate_due)

section \<open>The selection of the temperature\<close>

definition no_sensor :: "model_points \<Rightarrow> bool" where
  "no_sensor d \<longleftrightarrow> \<not> mp_valid (mp_primaryRawIdt d) \<and> \<not> (mp_read (mp_enabledSecondaryIdt d) = Some True \<and> mp_valid (mp_secondaryRawIdt d))"

lemma select_critical: "snd (snd (snd (IdtSelection_select d))) = no_sensor d"
  by (auto simp: IdtSelection_select_def no_sensor_def read_or_def mp_read_def Let_def)

lemma idt_runs:
  assumes l: "live (mp_systemForcedOffRefCnt d)" and v: "mp_value (mp_systemForcedOffRefCnt d) = reasons (m_critical c) f"
  shows "\<exists>x y z. IdtSelection_execute fu t c d =
      Some (True, c\<lparr>m_critical := no_sensor d\<rparr>, d\<lparr>mp_activeIdt := x, mp_idtAlarms := y, mp_systemForcedOffRefCnt := z\<rparr>) \<and>
    live z \<and> mp_value z = reasons (no_sensor d) f"
proof -
  obtain idt vp vs b where s: "IdtSelection_select d = (idt, vp, vs, b)" by (metis prod_cases4)
  then have b: "no_sensor d = b" using select_critical [of d] by simp
  have same: "c\<lparr>m_critical := m_critical c\<rparr> = c" "d'\<lparr>mp_systemForcedOffRefCnt := mp_systemForcedOffRefCnt d'\<rparr> = d'" for d' :: model_points by simp_all
  let ?z = "if b = m_critical c then mp_systemForcedOffRefCnt d
    else if b then RefCounter_increment 1 (mp_systemForcedOffRefCnt d) else RefCounter_decrement 1 (mp_systemForcedOffRefCnt d)"
  have "live ?z \<and> mp_value ?z = reasons b f"
    using l v count_reasons(1,2) [OF l, of f] by (cases b; cases "m_critical c") simp_all
  moreover have "IdtSelection_execute fu t c d = Some (True, c\<lparr>m_critical := b\<rparr>, d\<lparr>mp_activeIdt := Float_write fu idt (mp_activeIdt d),
      mp_idtAlarms := MpIdtAlarm_setAlarm (\<not> vp) (\<not> vs) b (mp_idtAlarms d), mp_systemForcedOffRefCnt := ?z\<rparr>)"
    by (cases b; cases "m_critical c") (simp_all add: IdtSelection_execute_def s Let_def)
  ultimately show ?thesis unfolding b by blast
qed

section \<open>The system configuration\<close>

definition stage_fits :: "stage_config \<Rightarrow> bool" where
  "stage_fits s \<longleftrightarrow> cfg_cph s \<noteq> eNUM_OPTIONS \<and> minOnTime s \<noteq> 0 \<and> minOffTime s \<noteq> 0"

text \<open>A configuration the controls and the PI controller can run with.\<close>

definition system_fits :: "system_config \<Rightarrow> bool" where
  "system_fits s \<longleftrightarrow> length (cfg_stages s) = 4 \<and> list_all stage_fits (cfg_stages s) \<and> 1 \<le> cfg_gain s \<and> 1 \<le> cfg_reset s \<and>
     (currentOpMode s = OM_eID_HEATING \<longrightarrow> numIndoorStages s \<in> {1, 2, 3}) \<and> (currentOpMode s = OM_eCOOLING \<longrightarrow> numCompressorStages s = 1)"

lemma set_stages_result:
  assumes "i + n \<le> length (cfg_stages s)" and "list_all stage_fits (cfg_stages s)" and "cs_cph cc \<noteq> eNUM_OPTIONS" "cs_minOnTime cc \<noteq> 0" "cs_minOffTime cc \<noteq> 0"
  shows "\<exists>ss m. set_stages fu lv cc fan n i pv s = Some (s\<lparr>cfg_stages := ss, cfg_maxPvOut := m\<rparr>) \<and> length ss = length (cfg_stages s) \<and> list_all stage_fits ss"
  using assms(1,2)
proof (induction n arbitrary: i pv s)
  case 0
  then show ?case by (intro exI [of _ "cfg_stages s"] exI [of _ "cfg_maxPvOut s"]) simp
next
  case (Suc n)
  define up where "up = fround fu (pv + lv)"
  define st where "st = \<lparr>lowerBound = pv, upperBound = up, minIndoorFan = fan, maxIndoorFan = fan,
    minOnTime = cs_minOnTime cc, minOffTime = cs_minOffTime cc, cfg_cph = cs_cph cc\<rparr>"
  have "stage_fits st" using assms(3-5) by (simp add: stage_fits_def st_def)
  then have "list_all stage_fits ((cfg_stages s)[i := st])" using Suc.prems(2) set_update_subset_insert [of "cfg_stages s" i st] by (auto simp: list_all_iff)
  with Suc.IH [of "Suc i" "s\<lparr>cfg_stages := (cfg_stages s)[i := st], cfg_maxPvOut := up\<rparr>" up] Suc.prems(1) obtain ss m where
    "set_stages fu lv cc fan n (Suc i) up (s\<lparr>cfg_stages := (cfg_stages s)[i := st], cfg_maxPvOut := up\<rparr>) = Some (s\<lparr>cfg_stages := ss, cfg_maxPvOut := m\<rparr>)"
    "length ss = length (cfg_stages s)" "list_all stage_fits ss" by auto
  then show ?case using Suc.prems(1) by (auto simp: st_def up_def Let_def)
qed

lemma equipment_fits_stages:
  assumes "equipment_fits e"
  shows "oduType e \<noteq> ODU_unsupported" and "numCompStages e \<le> 1" and "oduType e = eHP \<Longrightarrow> numCompStages e = 0" and "numIduHeatingStages e \<le> 3"
proof -
  have "fst (MpEquipmentConfig_validate e) = False" "snd (MpEquipmentConfig_validate e) = e" using assms by (simp_all add: equipment_fits_def)
  then have "oduType e \<noteq> ODU_unsupported \<and> numCompStages e \<le> 1 \<and> (oduType e = eHP \<longrightarrow> numCompStages e = 0) \<and> numIduHeatingStages e \<le> 3"
    by (cases e) (auto simp: MpEquipmentConfig_validate_def MAX_ELECTRIC_HEATING_STAGES_def MAX_FURNACE_HEATING_STAGES_def MAX_COMPRESSOR_COOLING_STAGES_def
        MAX_COMPRESSOR_HEATING_STAGES_def not_less word_gt_0 split: idu_type.splits odu_type.splits if_splits prod.splits)
  then show "oduType e \<noteq> ODU_unsupported" "numCompStages e \<le> 1" "oduType e = eHP \<Longrightarrow> numCompStages e = 0" "numIduHeatingStages e \<le> 3"
    by simp_all
qed

text \<open>The modes that are possible with an equipment.\<close>

definition mode_fits :: "operating_mode \<Rightarrow> equipment_config \<Rightarrow> comfort_config \<Rightarrow> bool" where
  "mode_fits m e cc \<longleftrightarrow> m = OM_eOFF \<or> comfort_fits cc \<and> (m = OM_eCOOLING \<and> numCompStages e = 1 \<or> m = OM_eID_HEATING \<and> numIduHeatingStages e \<in> {1, 2, 3})"

lemma off_stage_fits: "list_all stage_fits (replicate n off_stage)"
  by (simp add: list_all_iff stage_fits_def off_stage_def)

lemma system_config_fits:
  assumes "mode_fits m e cc"
  shows "\<exists>s. setSystemConfig fu m e cc = Some s \<and> system_fits s \<and> currentOpMode s = m"
proof -
  consider "m = OM_eOFF" | "m = OM_eCOOLING" "numCompStages e = 1" "comfort_fits cc"
    | "m = OM_eID_HEATING" "numIduHeatingStages e \<in> {1, 2, 3}" "comfort_fits cc" using assms by (auto simp: mode_fits_def)
  then show ?thesis
  proof cases
    case 1
    then show ?thesis using off_stage_fits by (simp add: setSystemConfig_def system_fits_def MpSystemConfig_setToOff_def MAX_TOTAL_STAGES_def)
  next
    case 2
    define s where "s = MpSystemConfig_setToOff\<lparr>currentOpMode := m, outdoorUnitType := oduType e, indoorUnitType := iduType e,
       fanContinuousSpeed := (if \<not> hasVspBlower e then VIRTUAL_OUTPUTS_ON else 500),
       numCompressorStages := numCompStages e, numIndoorStages := 0, totalStages := numCompStages e, cfg_gain := 15, cfg_reset := 300000\<rparr>"
    have s: "length (cfg_stages s) = 4" "list_all stage_fits (cfg_stages s)" using off_stage_fits by (simp_all add: s_def MpSystemConfig_setToOff_def MAX_TOTAL_STAGES_def)
    obtain ss x where "set_stages fu COOLING_LV_PER_STAGE (compressorCooling cc) (if \<not> hasVspBlower e then VIRTUAL_OUTPUTS_ON else 850) 1 0 0 s =
        Some (s\<lparr>cfg_stages := ss, cfg_maxPvOut := x\<rparr>)" "length ss = 4" "list_all stage_fits ss"
      using set_stages_result [of 0 1 s "compressorCooling cc" fu COOLING_LV_PER_STAGE "if \<not> hasVspBlower e then VIRTUAL_OUTPUTS_ON else 850" 0] s 2(3) by (auto simp: comfort_fits_def simp del: set_stages.simps)
    then show ?thesis using 2 by (simp add: setSystemConfig_def s_def system_fits_def MpSystemConfig_setToOff_def Let_def del: set_stages.simps)
  next
    case 3
    define s where "s = MpSystemConfig_setToOff\<lparr>currentOpMode := m, outdoorUnitType := oduType e, indoorUnitType := iduType e,
       fanContinuousSpeed := (if \<not> hasVspBlower e then VIRTUAL_OUTPUTS_ON else 500),
       numCompressorStages := 0, numIndoorStages := numIduHeatingStages e, totalStages := numIduHeatingStages e, cfg_gain := 20, cfg_reset := 300000\<rparr>"
    have s: "length (cfg_stages s) = 4" "list_all stage_fits (cfg_stages s)" using off_stage_fits by (simp_all add: s_def MpSystemConfig_setToOff_def MAX_TOTAL_STAGES_def)
    have n: "unat (numIduHeatingStages e) \<le> 3" using 3(2) by auto
    obtain ss x where "set_stages fu HEATING_LV_PER_STAGE (indoorHeating cc) (if iduType e = eFURNACE then VIRTUAL_OUTPUTS_OFF else VIRTUAL_OUTPUTS_ON)
        (unat (numIduHeatingStages e)) 0 0 s = Some (s\<lparr>cfg_stages := ss, cfg_maxPvOut := x\<rparr>)" "length ss = 4" "list_all stage_fits ss"
      using set_stages_result [of 0 "unat (numIduHeatingStages e)" s "indoorHeating cc" fu HEATING_LV_PER_STAGE
        "if iduType e = eFURNACE then VIRTUAL_OUTPUTS_OFF else VIRTUAL_OUTPUTS_ON" 0] s 3(3) n by (auto simp: comfort_fits_def simp del: set_stages.simps)
    then show ?thesis using 3(1,2) by (simp add: setSystemConfig_def s_def system_fits_def MpSystemConfig_setToOff_def Let_def del: set_stages.simps)
  qed
qed

text \<open>The point of the configuration, with its mode.\<close>

definition config_in :: "operating_mode \<Rightarrow> system_config mp \<Rightarrow> bool" where
  "config_in m sc \<longleftrightarrow> \<not> mp_locked sc \<and> (mp_valid sc \<longrightarrow> system_fits (mp_value sc)) \<and> (m \<noteq> OM_eUNKNOWN \<longrightarrow> mp_valid sc \<and> currentOpMode (mp_value sc) = m)"

lemma config_written:
  assumes "config_in m sc" and "system_fits s" "currentOpMode s = m'"
  shows "config_in m' (MpSystemConfig_write fu s sc)"
  using assms by (auto simp: config_in_def MpSystemConfig_write_def mp_write_by_def mp_updated_def MpSystemConfig_isDataEqual_def)

section \<open>The operating mode\<close>

lemma mode_set:
  assumes m: "m' = (if m = OM_eHEATING \<and> \<not> hp then OM_eID_HEATING else m)" and "mode_fits m' e cc"
    and cfg: "config_in (m_prevOperatingMode c) (mp_systemConfig d)" and l: "live (mp_operatingModeChanged d)"
  shows "\<exists>s1 s2 x y z. setNewOperatingMode fu m hp e cc c d =
      Some (c\<lparr>m_prevOperatingMode := m', m_equipCfgSequenceNumber := s1, m_comfortCfgSequenceNumber := s2\<rparr>,
        d\<lparr>mp_systemConfig := z, mp_resetPiPulse := y, mp_operatingModeChanged := x\<rparr>) \<and>
    config_in m' z \<and> live x \<and> (m' \<noteq> m_prevOperatingMode c \<longrightarrow> mp_value x) \<and> (live (mp_resetPiPulse d) \<longrightarrow> live y)"
proof -
  obtain s where s: "setSystemConfig fu m' e cc = Some s" "system_fits s" "currentOpMode s = m'" using system_config_fits [OF assms(2)] by blast
  have w: "config_in m' (MpSystemConfig_write fu s (mp_systemConfig d))" by (rule config_written [OF cfg s(2,3)])
  let ?x = "if m' = m_prevOperatingMode c then mp_operatingModeChanged d else mp_write True (mp_operatingModeChanged d)"
  let ?y = "if m' = m_prevOperatingMode c then mp_resetPiPulse d else mp_write True (mp_resetPiPulse d)"
  let ?new = "m' \<noteq> m_prevOperatingMode c \<or> m_comfortCfgSequenceNumber c \<noteq> mp_seq (mp_comfortConfig d) \<or> m_equipCfgSequenceNumber c \<noteq> mp_seq (mp_equipmentConfig d)"
  let ?z = "if ?new then MpSystemConfig_write fu s (mp_systemConfig d) else mp_systemConfig d"
  have "setNewOperatingMode fu m hp e cc c d =
      Some (c\<lparr>m_prevOperatingMode := m', m_equipCfgSequenceNumber := mp_seq (mp_equipmentConfig d), m_comfortCfgSequenceNumber := mp_seq (mp_comfortConfig d)\<rparr>,
        d\<lparr>mp_systemConfig := ?z, mp_resetPiPulse := ?y, mp_operatingModeChanged := ?x\<rparr>)"
    unfolding setNewOperatingMode_def m [symmetric] using s(1)
    by (cases "m' = m_prevOperatingMode c"; cases "m_comfortCfgSequenceNumber c = mp_seq (mp_comfortConfig d)";
        cases "m_equipCfgSequenceNumber c = mp_seq (mp_equipmentConfig d)") (simp_all add: Let_def)
  moreover have "config_in m' ?z" using w cfg by auto
  moreover have "live ?x \<and> (m' \<noteq> m_prevOperatingMode c \<longrightarrow> mp_value ?x) \<and> (live (mp_resetPiPulse d) \<longrightarrow> live ?y)" using l by (simp add: liveD)
  ultimately show ?thesis by blast
qed

text \<open>The points that the operating mode leaves alone, as far as the controls, the relays and the next cycle look at them.\<close>

definition rest_points :: "model_points \<Rightarrow> bool mp \<times> equipment_times mp \<times> rat mp \<times> virtual_outputs mp \<times> cycle_info mp \<times> relay_outputs mp \<times> white_box mp \<times>
    equipment_config mp \<times> comfort_config mp" where
  "rest_points d = (mp_systemOn d, mp_equipmentBeginTimes d, mp_pvOut d, mp_vOutputs d, mp_cycleInfo d, mp_relayOutputs d, mp_whiteBox d,
     mp_equipmentConfig d, mp_comfortConfig d)"

text \<open>While the mode is determined: \<open>prev\<close> is the mode before, \<open>cr\<close> says that there is no temperature.\<close>

definition mode_open :: "base \<Rightarrow> operating_mode \<Rightarrow> model_points \<Rightarrow> bool \<Rightarrow> operating_mode_component \<Rightarrow> model_points \<Rightarrow> bool" where
  "mode_open b prev d0 cr c d \<longleftrightarrow> base.truncate c = b \<and> m_prevOperatingMode c = prev \<and> config_in prev (mp_systemConfig d) \<and>
     live (mp_operatingModeChanged d) \<and> live (mp_resetPiPulse d) \<and> live (mp_systemForcedOffRefCnt d) \<and>
     mp_value (mp_systemForcedOffRefCnt d) = reasons cr (m_forcedOff c) \<and> rest_points d = rest_points d0"

text \<open>When it is done.\<close>

definition mode_done :: "base \<Rightarrow> operating_mode \<Rightarrow> model_points \<Rightarrow> bool \<Rightarrow> operating_mode_component \<Rightarrow> model_points \<Rightarrow> bool" where
  "mode_done b prev d0 cr c d \<longleftrightarrow> mode_open b (m_prevOperatingMode c) d0 cr c d \<and> m_prevOperatingMode c \<in> {OM_eOFF, OM_eCOOLING, OM_eID_HEATING} \<and>
     (m_prevOperatingMode c \<noteq> prev \<longrightarrow> mp_value (mp_operatingModeChanged d)) \<and>
     (mp_value (mp_systemForcedOffRefCnt d) \<noteq> 0 \<longrightarrow> m_prevOperatingMode c = OM_eOFF)"

lemma mode_set_done:
  assumes o: "mode_open b prev d0 cr c d" and m: "m' = (if m = OM_eHEATING \<and> \<not> hp then OM_eID_HEATING else m)" and f: "mode_fits m' e cc"
    and z: "mp_value (mp_systemForcedOffRefCnt d) \<noteq> 0 \<Longrightarrow> m' = OM_eOFF"
  shows "\<exists>c' d'. setNewOperatingMode fu m hp e cc c d = Some (c', d') \<and> mode_done b prev d0 cr c' d' \<and> m_prevOperatingMode c' = m'"
proof -
  have cfg: "config_in (m_prevOperatingMode c) (mp_systemConfig d)" and l: "live (mp_operatingModeChanged d)" and r: "live (mp_resetPiPulse d)"
    and p: "m_prevOperatingMode c = prev" using o by (auto simp: mode_open_def)
  obtain s1 s2 x y w where w: "setNewOperatingMode fu m hp e cc c d =
      Some (c\<lparr>m_prevOperatingMode := m', m_equipCfgSequenceNumber := s1, m_comfortCfgSequenceNumber := s2\<rparr>,
        d\<lparr>mp_systemConfig := w, mp_resetPiPulse := y, mp_operatingModeChanged := x\<rparr>)"
    "config_in m' w" "live x" "m' \<noteq> prev \<longrightarrow> mp_value x" "live y"
    using mode_set [OF m f cfg l, of fu] r p by blast
  moreover have "m' \<in> {OM_eOFF, OM_eCOOLING, OM_eID_HEATING}" using f by (auto simp: mode_fits_def)
  ultimately show ?thesis using o z by (simp add: mode_done_def mode_open_def rest_points_def base.defs)
qed

lemma alarm_open:
  assumes "mode_open b prev d0 cr c d"
  shows "\<exists>x z. setNoActiveConditioningAlarm a c d = (c\<lparr>m_forcedOff := a\<rparr>, d\<lparr>mp_noActiveConditioningAlarm := x, mp_systemForcedOffRefCnt := z\<rparr>) \<and>
    mode_open b prev d0 cr (c\<lparr>m_forcedOff := a\<rparr>) (d\<lparr>mp_noActiveConditioningAlarm := x, mp_systemForcedOffRefCnt := z\<rparr>)"
proof -
  let ?m = "mp_systemForcedOffRefCnt d"
  have l: "live ?m" and v: "mp_value ?m = reasons cr (m_forcedOff c)" using assms by (simp_all add: mode_open_def)
  let ?z = "if a = m_forcedOff c then ?m else if a then RefCounter_increment 1 ?m else RefCounter_decrement 1 ?m"
  let ?x = "MpSimpleAlarm_setAlarm a a (mp_noActiveConditioningAlarm d)"
  have "live ?z \<and> mp_value ?z = reasons cr a"
    using l v count_reasons(3,4) [OF l, of cr] by (cases a; cases "m_forcedOff c") simp_all
  then have "mode_open b prev d0 cr (c\<lparr>m_forcedOff := a\<rparr>) (d\<lparr>mp_noActiveConditioningAlarm := ?x, mp_systemForcedOffRefCnt := ?z\<rparr>)"
    using assms by (simp add: mode_open_def rest_points_def base.defs)
  moreover have "setNoActiveConditioningAlarm a c d = (c\<lparr>m_forcedOff := a\<rparr>, d\<lparr>mp_noActiveConditioningAlarm := ?x, mp_systemForcedOffRefCnt := ?z\<rparr>)"
    by (cases a; cases "m_forcedOff c") (simp_all add: setNoActiveConditioningAlarm_def Let_def)
  ultimately show ?thesis by blast
qed

lemma mode_open_auto: "mode_open b prev d0 cr (c\<lparr>m_inAuto := x\<rparr>) d = mode_open b prev d0 cr c d"
  by (simp add: mode_open_def base.defs)

lemma few_stages:
  fixes x :: u16
  assumes "x \<le> 3" and "0 < x"
  shows "x \<in> {1, 2, 3}"
proof -
  have "unat x \<le> 3" "unat x \<noteq> 0" using assms by (simp_all add: word_le_nat_alt word_gt_0 unat_eq_0)
  then have "unat x = 1 \<or> unat x = 2 \<or> unat x = 3" by linarith
  moreover have "x = word_of_nat (unat x)" by simp
  ultimately show ?thesis by (elim disjE) (simp_all only: insert_iff of_nat_1 of_nat_numeral, simp_all)
qed

lemma one_stage:
  fixes x :: u16
  assumes "x \<le> 1" and "0 < x"
  shows "x = 1"
proof -
  have "unat x \<le> 1" "unat x \<noteq> 0" using assms by (simp_all add: word_le_nat_alt word_gt_0 unat_eq_0)
  then have "unat x = unat (1 :: u16)" by simp
  then show ?thesis by (simp only: word_unat_eq_iff)
qed

text \<open>The user mode that is left after the correction is one the equipment can do.\<close>

lemma resolve_done:
  assumes o: "mode_open b prev d0 cr c d" and e: "equipment_fits e" "comfort_fits cc" and u: "(um, al) = correct_user_mode hc hh um0"
    and h: "hc \<longleftrightarrow> oduType e \<in> {eAC, eHP} \<and> numCompStages e > 0" "hh \<longleftrightarrow> numIduHeatingStages e > 0" "hc \<or> hh"
    and z: "mp_value (mp_systemForcedOffRefCnt d) = 0" and auto: "m_inAuto c \<Longrightarrow> prev \<in> {OM_eOFF, OM_eCOOLING, OM_eID_HEATING}"
  shows "\<exists>c' d'. resolve_mode fu t um False e cc idt sp on ti c d = Some (c', d') \<and> mode_done b prev d0 cr c' d'"
proof -
  note st = equipment_fits_stages [OF e(1)]
  have cool: "mode_fits OM_eCOOLING e cc" if hc
  proof -
    have "numCompStages e = 1" using one_stage [OF st(2)] that h(1) by simp
    then show ?thesis using e(2) by (simp add: mode_fits_def)
  qed
  have heat: "mode_fits OM_eID_HEATING e cc" if hh
    using few_stages [OF st(4)] that h(2) e(2) by (simp add: mode_fits_def)
  have off: "mode_fits OM_eOFF e cc" by (simp add: mode_fits_def)
  have set: "\<exists>c' d'. setNewOperatingMode fu m False e cc (c\<lparr>m_inAuto := i\<rparr>) d = Some (c', d') \<and> mode_done b prev d0 cr c' d'"
    if "m = OM_eOFF \<or> m = OM_eCOOLING \<and> hc \<or> (m = OM_eHEATING \<or> m = OM_eID_HEATING) \<and> hh" for m i
  proof -
    have "mode_open b prev d0 cr (c\<lparr>m_inAuto := i\<rparr>) d" using o by (simp add: mode_open_auto)
    from mode_set_done [OF this refl, of m False e cc fu] show ?thesis using that cool heat off z by auto
  qed
  have same: "c\<lparr>m_inAuto := m_inAuto c\<rparr> = c" by simp
  show ?thesis
  proof (cases "um = TM_eAUTO \<and> m_inAuto c \<and> (on \<or> \<not> expiredPrecision (et_systemBeginOffTime ti) \<lparr>m_seconds = 600, m_thousandths = 0\<rparr> t)")
    case True
    then have "mode_done b prev d0 cr c d" using o auto z by (auto simp: mode_done_def mode_open_def)
    then show ?thesis using True by (auto simp: resolve_mode_def)
  next
    case False
    have "um = TM_eCOOLING \<Longrightarrow> hc" "um = TM_eHEATING \<or> um = TM_eID_HEATING \<Longrightarrow> hh" "um = TM_eAUTO \<Longrightarrow> hc \<and> hh"
      using u h(3) by (auto simp: correct_user_mode_def split: if_splits)
    then show ?thesis using False set [of _ "m_inAuto c", unfolded same] set by (cases um) (simp_all add: resolve_mode_def)
  qed
qed

lemma mode_runs:
  assumes o: "mode_open b prev d0 cr c d" and x: "external_fits d" and auto: "m_inAuto c \<Longrightarrow> prev \<in> {OM_eOFF, OM_eCOOLING, OM_eID_HEATING}"
  shows "\<exists>c' d'. OperatingMode_execute fu t c d = Some (True, c', d') \<and> mode_done b prev d0 cr c' d'"
proof -
  define d1 where "d1 = d\<lparr>mp_operatingModeChanged := mp_write False (mp_operatingModeChanged d)\<rparr>"
  define e where "e = read_or zero_equipment (mp_equipmentConfig d)"
  define cc where "cc = read_or zero_comfort (mp_comfortConfig d)"
  have o1: "mode_open b prev d0 cr c d1" using o by (simp add: mode_open_def d1_def rest_points_def liveD)
  let ?bad = "\<not> mp_valid (mp_activeIdt d) \<or> \<not> mp_valid (mp_userMode d) \<or> \<not> mp_valid (mp_setpoints d) \<or> \<not> mp_valid (mp_systemOn d) \<or>
       \<not> mp_valid (mp_equipmentBeginTimes d) \<or> \<not> mp_valid (mp_comfortConfig d) \<or> \<not> mp_valid (mp_equipmentConfig d)"
  note exec = OperatingMode_execute_def [of fu t c d, unfolded Let_def, folded e_def cc_def, folded d1_def]
  have off: "mode_fits OM_eOFF e cc" by (simp add: mode_fits_def)
  show ?thesis
  proof (cases ?bad)
    case True
    obtain c1 d2 where 1: "setNewOperatingMode fu OM_eOFF False e cc c d1 = Some (c1, d2)" "mode_done b prev d0 cr c1 d2" "m_prevOperatingMode c1 = OM_eOFF"
      using mode_set_done [OF o1 refl, of OM_eOFF False e cc fu] off by auto
    obtain c2 d3 where 2: "setNoActiveConditioningAlarm True c1 d2 = (c2, d3)" "mode_done b prev d0 cr c2 d3"
      using alarm_open [of b OM_eOFF d0 cr c1 d2 True] 1(2,3) by (auto simp: mode_done_def)
    show ?thesis using True 1(1) 2 unfolding exec by (simp only: if_True) simp
  next
    case False
    have fits: "equipment_fits e" "comfort_fits cc" using x False by (simp_all add: external_fits_def e_def cc_def read_or_def mp_read_def)
    define hc where "hc = (oduType e \<in> {eAC, eHP} \<and> 0 < numCompStages e)"
    define hh where "hh = (0 < numIduHeatingStages e)"
    have hp: "\<not> (oduType e = eHP \<and> 0 < numCompStages e)" using equipment_fits_stages(3) [OF fits(1)] by auto
    obtain u z where al: "setNoActiveConditioningAlarm (\<not> hc \<and> \<not> hh) c d1 = (c\<lparr>m_forcedOff := \<not> hc \<and> \<not> hh\<rparr>, d1\<lparr>mp_noActiveConditioningAlarm := u, mp_systemForcedOffRefCnt := z\<rparr>)"
      "mode_open b prev d0 cr (c\<lparr>m_forcedOff := \<not> hc \<and> \<not> hh\<rparr>) (d1\<lparr>mp_noActiveConditioningAlarm := u, mp_systemForcedOffRefCnt := z\<rparr>)"
      using alarm_open [OF o1, of "\<not> hc \<and> \<not> hh"] by blast
    define c2 where "c2 = c\<lparr>m_forcedOff := \<not> hc \<and> \<not> hh\<rparr>"
    define d2 where "d2 = d1\<lparr>mp_noActiveConditioningAlarm := u, mp_systemForcedOffRefCnt := z\<rparr>"
    have det: "determineAllowedModes e c d1 = ((hc, hh, False), c2, d2)"
      using hp al(1) by (auto simp: determineAllowedModes_def hc_def hh_def c2_def d2_def Let_def)
    have o2: "mode_open b prev d0 cr c2 d2" using al(2) by (simp add: c2_def d2_def)
    show ?thesis
    proof (cases "mp_value (mp_systemForcedOffRefCnt d2) = 0")
      case True
      then have h: "hc \<or> hh" using o2 by (auto simp: mode_open_def reasons_zero c2_def)
      obtain um al where u: "correct_user_mode hc hh (mp_value (mp_userMode d2)) = (um, al)" by fastforce
      define d3 where "d3 = d2\<lparr>mp_userCfgModeAlarm := MpSimpleAlarm_setAlarm al al (mp_userCfgModeAlarm d2)\<rparr>"
      have o3: "mode_open b prev d0 cr c2 d3" using o2 by (simp add: mode_open_def d3_def rest_points_def)
      have z: "mp_value (mp_systemForcedOffRefCnt d3) = 0" using True by (simp add: d3_def)
      have "\<exists>c' d'. resolve_mode fu t um False e cc (mp_value (mp_activeIdt d3)) (mp_value (mp_setpoints d3)) (mp_value (mp_systemOn d3))
            (mp_value (mp_equipmentBeginTimes d3)) c2 d3 = Some (c', d') \<and> mode_done b prev d0 cr c' d'"
        by (rule resolve_done [OF o3 fits u [symmetric] hc_def hh_def h z]) (use auto in \<open>simp add: c2_def\<close>)
      moreover have "mp_valid (mp_systemForcedOffRefCnt d2)" using o2 by (simp add: mode_open_def live_def)
      moreover have "mp_activeIdt d3 = mp_activeIdt d2" "mp_setpoints d3 = mp_setpoints d2" "mp_systemOn d3 = mp_systemOn d2"
        "mp_equipmentBeginTimes d3 = mp_equipmentBeginTimes d2" by (simp_all add: d3_def)
      ultimately show ?thesis using False True u unfolding exec det by (auto simp: d3_def [symmetric])
    next
      case nz: False
      obtain c' d' where "setNewOperatingMode fu OM_eOFF False e cc c2 d2 = Some (c', d')" "mode_done b prev d0 cr c' d'"
        using mode_set_done [OF o2 refl, of OM_eOFF False e cc fu] off by auto
      then show ?thesis using False nz unfolding exec det by (auto simp: word_gt_0)
    qed
  qed
qed

section \<open>The controller\<close>

text \<open>What the arithmetic on \<^verbatim>\<open>double\<close> does by IEEE 754: rounding is monotonic and keeps whole numbers of up to 53 bits.\<close>

definition ieee_double :: "(rat \<Rightarrow> rat) \<Rightarrow> bool" where
  "ieee_double dr \<longleftrightarrow> mono dr \<and> (\<forall>n :: int. \<bar>n\<bar> \<le> 9007199254740992 \<longrightarrow> dr (of_int n) = of_int n)"

lemma double_keeps:
  assumes "ieee_double dr"
  shows "0 \<le> x \<Longrightarrow> 0 \<le> dr x" and "1 \<le> x \<Longrightarrow> 1 \<le> dr x"
proof -
  have m: "mono dr" and k: "\<And>n :: int. \<bar>n\<bar> \<le> 9007199254740992 \<Longrightarrow> dr (of_int n) = of_int n" using assms by (simp_all add: ieee_double_def)
  show "0 \<le> x \<Longrightarrow> 0 \<le> dr x" "1 \<le> x \<Longrightarrow> 1 \<le> dr x" using monoD [OF m, of 0 x] monoD [OF m, of 1 x] k [of 0] k [of 1] by simp_all
qed

lemma pi_update_returns:
  assumes "ieee_double dr" and "1 \<le> gain" "1 \<le> reset" and "m_dt c = 2000"
  shows "\<exists>pv s i c'. Pi_update fu dr e k gain reset m c = Some (pv, s, i, c') \<and> m_dt c' = 2000 \<and> base.truncate c' = base.truncate c"
proof -
  have "1 \<le> dr (gain * m_dt c)" using assms(2,4) by (intro double_keeps(2) [OF assms(1)]) simp
  then show ?thesis using assms(3,4) by (simp add: Pi_update_def Let_def base.defs)
qed

lemma pi_runs:
  assumes "ieee_double dr" and "config_in m (mp_systemConfig d)" and "m_dt c = 2000" and "\<not> mp_locked (mp_pvOut d)"
  shows "\<exists>c' x y z. Pi_execute fu dr t c d = Some (True, c', d\<lparr>mp_pvOut := x, mp_sumError := y, mp_pvInhibited := z\<rparr>) \<and>
    m_dt c' = 2000 \<and> base.truncate c' = base.truncate c \<and> live x"
proof -
  define c0 where "c0 = (if read_or False (mp_resetPiPulse d) then c\<lparr>m_prevSumError := 0, m_prevPvOut := 0, m_maxSumError := 0\<rparr> else c)"
  let ?frozen = "\<not> mp_valid (mp_resetPiPulse d) \<or> \<not> mp_valid (mp_deltaIdtError d) \<or> \<not> mp_valid (mp_systemConfig d) \<or>
       \<not> mp_valid (mp_freezePiRefCnt d) \<or> \<not> mp_valid (mp_inhibitfRefCnt d) \<or> mp_value (mp_freezePiRefCnt d) \<noteq> 0"
  let ?s = "mp_value (mp_systemConfig d)"
  have c0: "m_dt c0 = 2000" "base.truncate c0 = base.truncate c" using assms(3) by (simp_all add: c0_def base.defs)
  obtain pv s i c' where u: "(if ?frozen then Some (m_prevPvOut c0, m_prevSumError c0, True, c0)
      else Pi_update fu dr (mp_value (mp_deltaIdtError d)) (mp_value (mp_inhibitfRefCnt d)) (cfg_gain ?s) (cfg_reset ?s) (cfg_maxPvOut ?s) c0) = Some (pv, s, i, c')"
    "m_dt c' = 2000" "base.truncate c' = base.truncate c"
  proof (cases ?frozen)
    case True
    then show ?thesis using that c0 by simp
  next
    case False
    then have "system_fits ?s" using assms(2) by (simp add: config_in_def)
    then have "1 \<le> cfg_gain ?s" "1 \<le> cfg_reset ?s" by (simp_all add: system_fits_def)
    from pi_update_returns [OF assms(1) this c0(1)] show ?thesis using that False c0(2) by fastforce
  qed
  have "Pi_execute fu dr t c d = Some (True, c', d\<lparr>mp_pvOut := Float_write fu pv (mp_pvOut d), mp_sumError := Float_write fu s (mp_sumError d),
      mp_pvInhibited := mp_write i (mp_pvInhibited d)\<rparr>)"
    using u(1) unfolding Pi_execute_def Let_def c0_def [symmetric] by simp
  moreover have "live (Float_write fu pv (mp_pvOut d))" using assms(4) by (simp add: Float_write_def)
  ultimately show ?thesis using u(2,3) by blast
qed

section \<open>The controls\<close>

lemma control_fit_unsynced: "control_fit eq rest runs own a c v s \<Longrightarrow> control_fit eq rest runs own a c v' False"
  by (simp add: control_fit_def)

lemma control_fit_own: "own v = own v' \<Longrightarrow> control_fit eq rest runs own a c v s = control_fit eq rest runs own a c v' s"
  by (simp add: control_fit_def)

text \<open>All points that a control reads are valid.\<close>

definition inputs_live :: "model_points \<Rightarrow> bool" where
  "inputs_live d \<longleftrightarrow> mp_valid (mp_systemConfig d) \<and> mp_valid (mp_pvOut d) \<and> live (mp_vOutputs d) \<and> mp_valid (mp_equipmentBeginTimes d) \<and>
     live (mp_systemOn d) \<and> live (mp_cycleInfo d) \<and> mp_valid (mp_operatingModeChanged d) \<and> mp_valid (mp_whiteBox d)"

lemma control_inputs_parts [simp]:
  "in_args_at (Control_inputs a d) = a" "systemConfig (in_args (Control_inputs a d)) = mp_value (mp_systemConfig d)"
  "vOutputs (in_args (Control_inputs a d)) = mp_value (mp_vOutputs d)" "in_operatingModeChanged (Control_inputs a d) = mp_value (mp_operatingModeChanged d)"
  "inputs_live d \<Longrightarrow> in_valid (Control_inputs a d)"
  by (simp_all add: Control_inputs_def inputs_live_def live_def)

context equipment_logic
begin

lemma run_own:
  assumes l: "inputs_live d" and "cfg (in_args (Control_inputs a d))" and "length (own (mp_value (mp_vOutputs d))) = n"
    and mode: "currentOpMode (mp_value (mp_systemConfig d)) = getOperatingMode eq" and "act (mp_value (mp_systemConfig d))"
    and fit: "control_fit eq rest runs own a (the_control c) (mp_value (mp_vOutputs d)) synced" and s: "synced \<or> mp_value (mp_operatingModeChanged d)"
  shows "\<exists>c' w ci on. Control_run fu a t c d = Some (True, c', Control_outputs (Written w ci on) d) \<and> base.truncate c' = base.truncate c \<and>
    control_fit eq rest runs own a (the_control c') w True \<and> length (own w) = n \<and> set (own w) \<subseteq> {VIRTUAL_OUTPUTS_OFF, VIRTUAL_OUTPUTS_ON} \<and>
    (other w = map (\<lambda>_. 0) (other (mp_value (mp_vOutputs d))) \<or> synced \<and> other w = other (mp_value (mp_vOutputs d)))"
proof -
  let ?i = "Control_inputs a d"
  have "input_fit eq cfg act own n a (the_control c) (mp_value (mp_vOutputs d)) synced ?i"
    using assms by (auto simp: input_fit_def to_reset_def)
  from step [OF fit this, of t] obtain out c1 where 1: "Control_execute fu t ?i (the_control c) = Some (True, out, c1)"
    "control_fit eq rest runs own a c1 (outputs_after out (mp_value (mp_vOutputs d))) (synced_after eq ?i synced)" "out_fit eq own other n (the_control c) ?i out" by blast
  obtain w ci on where w: "out = Written w ci on" "length (own w) = n" "set (own w) \<subseteq> {VIRTUAL_OUTPUTS_OFF, VIRTUAL_OUTPUTS_ON}"
    "other w = (if to_reset (the_control c) ?i then map (\<lambda>_. 0) (other (mp_value (mp_vOutputs d))) else other (mp_value (mp_vOutputs d)))"
    using 1(3) l mode by (auto simp: out_fit_def Let_def)
  have "to_reset (the_control c) ?i \<or> synced" using s by (auto simp: to_reset_def)
  then have "other w = map (\<lambda>_. 0) (other (mp_value (mp_vOutputs d))) \<or> synced \<and> other w = other (mp_value (mp_vOutputs d))" using w(4) by auto
  moreover have "Control_run fu a t c d = Some (True, c\<lparr>the_control := c1\<rparr>, Control_outputs (Written w ci on) d)" by (simp add: Control_run_def 1(1) w(1))
  moreover have "control_fit eq rest runs own a c1 w True" using 1(2) w(1) l mode by (simp add: outputs_after_def synced_after_def)
  ultimately show ?thesis
    using w(2,3) by (intro exI [of _ "c\<lparr>the_control := c1\<rparr>"] exI [of _ w] exI [of _ ci] exI [of _ on]) (simp add: base.defs)
qed

lemma run_foreign:
  assumes l: "inputs_live d" and "cfg (in_args (Control_inputs a d))" and "length (own (mp_value (mp_vOutputs d))) = n"
    and mode: "currentOpMode (mp_value (mp_systemConfig d)) \<noteq> getOperatingMode eq"
    and fit: "control_fit eq rest runs own a (the_control c) v synced"
  shows "\<exists>c'. Control_run fu a t c d = Some (True, c', d) \<and> base.truncate c' = base.truncate c \<and> (\<forall>v'. control_fit eq rest runs own a (the_control c') v' False)"
proof -
  let ?i = "Control_inputs a d"
  have "input_fit eq cfg act own n a (the_control c) v False ?i" using assms by (simp add: input_fit_def)
  from step [OF control_fit_unsynced [OF fit] this, of t] obtain out c1 where 1: "Control_execute fu t ?i (the_control c) = Some (True, out, c1)"
    "control_fit eq rest runs own a c1 (outputs_after out v) (synced_after eq ?i False)" "out_fit eq own other n (the_control c) ?i out" by blast
  have "out = Nothing_written" using 1(3) mode by (simp add: out_fit_def)
  then show ?thesis using 1(1) control_fit_unsynced [OF 1(2)] by (simp add: Control_run_def Control_outputs_def base.defs)
qed

end

lemma duty_times:
  assumes "c \<noteq> eNUM_OPTIONS" and "m \<noteq> 0"
  shows "DutyCycle_calculateOffTime fu x m c lo hi \<notin> {None, Some 0}" and "DutyCycle_calculateOnTime fu x m c lo hi \<notin> {None, Some 0}"
proof -
  let ?l = "maxMinimumTimeLimits c"
  have "?l \<noteq> 0" using assms(1) by (cases c) simp_all
  then have "(if (t :: u32) < (if m > ?l then ?l else m) then if m > ?l then ?l else m else t) \<noteq> 0" for t
    using assms(2) by (auto simp: not_less)
  then show "DutyCycle_calculateOffTime fu x m c lo hi \<notin> {None, Some 0}" "DutyCycle_calculateOnTime fu x m c lo hi \<notin> {None, Some 0}"
    using assms(1) unfolding DutyCycle_calculateOffTime_def DutyCycle_calculateOnTime_def DutyCycle_getMaximumMinOffTime_def DutyCycle_getMaximumMinOnTime_def Let_def
    by simp_all
qed

lemma fits_times:
  assumes "system_fits (systemConfig ar)" and "i < 4"
  shows "times_ok fu ar i"
proof -
  have "stage_fits (cfg_stages (systemConfig ar) ! i)" "length (cfg_stages (systemConfig ar)) = 4"
    using assms by (auto simp: system_fits_def list_all_length)
  then show ?thesis using assms(2) duty_times by (simp add: times_ok_def onT_def offT_def Let_def stage_fits_def)
qed

lemma fits_cfg: "system_fits (systemConfig ar) \<Longrightarrow> cfg_ok fu ar" "system_fits (systemConfig ar) \<Longrightarrow> cool_cfg fu ar"
  using fits_times by (simp_all add: cfg_ok_def cool_cfg_def)

text \<open>The outputs of the stages in a mode: only those of the equipment of that mode may be on.\<close>

definition outputs_fit :: "operating_mode \<Rightarrow> virtual_outputs \<Rightarrow> bool" where
  "outputs_fit m v \<longleftrightarrow> MpVirtualOutputs_validate v = v \<and> length (indoorStages v) = 3 \<and> length (outdoorStages v) = 1 \<and> (m \<noteq> OM_eID_HEATING \<longrightarrow> indoorStages v = [0, 0, 0]) \<and>
     (m \<noteq> OM_eCOOLING \<longrightarrow> outdoorStages v = [0])"

lemma length_zeros: "length xs = 3 \<Longrightarrow> map (\<lambda>_. 0 :: u16) xs = [0, 0, 0]" "length ys = 1 \<Longrightarrow> map (\<lambda>_. 0 :: u16) ys = [0]"
  by (simp_all add: map_replicate_const numeral_3_eq_3)

lemma clamp_on_off: "set xs \<subseteq> {VIRTUAL_OUTPUTS_OFF, VIRTUAL_OUTPUTS_ON} \<Longrightarrow> map clamp_output xs = xs"
  by (induction xs) (auto simp: clamp_output_def VIRTUAL_OUTPUTS_OFF_def VIRTUAL_OUTPUTS_ON_def)

lemma clamp_zero [simp]: "clamp_output 0 = 0"
  by (simp add: clamp_output_def)

lemma validate_twice [simp]: "MpVirtualOutputs_validate (MpVirtualOutputs_validate v) = MpVirtualOutputs_validate v"
proof -
  have "clamp_output (clamp_output x) = clamp_output x" for x by (simp add: clamp_output_def)
  then show ?thesis by (simp add: MpVirtualOutputs_validate_def)
qed

lemma written_points:
  assumes "inputs_live d"
  shows "inputs_live (Control_outputs (Written w ci on) d)" and "mp_value (mp_vOutputs (Control_outputs (Written w ci on) d)) = MpVirtualOutputs_validate w"
    and "mp_systemConfig (Control_outputs (Written w ci on) d) = mp_systemConfig d"
    and "mp_operatingModeChanged (Control_outputs (Written w ci on) d) = mp_operatingModeChanged d"
  using assms by (simp_all add: Control_outputs_def inputs_live_def MpVirtualOutputs_write_def liveD)

lemma off_run:
  assumes l: "inputs_live d" and e: "m_equipment (the_control c) = EquipmentOff"
  shows "currentOpMode (mp_value (mp_systemConfig d)) \<noteq> OM_eOFF \<Longrightarrow>
      \<exists>c'. Control_run fu a t c d = Some (True, c', d) \<and> base.truncate c' = base.truncate c \<and> m_equipment (the_control c') = EquipmentOff"
    and "currentOpMode (mp_value (mp_systemConfig d)) = OM_eOFF \<Longrightarrow>
      \<exists>c' w ci on. Control_run fu a t c d = Some (True, c', Control_outputs (Written w ci on) d) \<and> base.truncate c' = base.truncate c \<and>
        m_equipment (the_control c') = EquipmentOff \<and>
        indoorStages w = map (\<lambda>_. 0) (indoorStages (mp_value (mp_vOutputs d))) \<and> outdoorStages w = map (\<lambda>_. 0) (outdoorStages (mp_value (mp_vOutputs d)))"
proof -
  assume "currentOpMode (mp_value (mp_systemConfig d)) \<noteq> OM_eOFF"
  then show "\<exists>c'. Control_run fu a t c d = Some (True, c', d) \<and> base.truncate c' = base.truncate c \<and> m_equipment (the_control c') = EquipmentOff"
    using l e by (simp add: Control_run_def Control_execute_def getOperatingMode_def executeOff_def Control_outputs_def base.defs Let_def)
next
  assume m: "currentOpMode (mp_value (mp_systemConfig d)) = OM_eOFF"
  have "\<exists>w ci on c1. Control_execute fu t (Control_inputs a d) (the_control c) = Some (True, Written w ci on, c1) \<and> m_equipment c1 = EquipmentOff \<and>
      indoorStages w = map (\<lambda>_. 0) (indoorStages (mp_value (mp_vOutputs d))) \<and> outdoorStages w = map (\<lambda>_. 0) (outdoorStages (mp_value (mp_vOutputs d)))"
    using l e m by (auto simp: Control_execute_def getOperatingMode_def executeActive_def equipment_reset_def Off_executeActive_def setCapacityOff_def
        upd_args_def upd_outputs_def upd_cycle_def comp_def Let_def intro!: exI)
  then obtain w ci on c1 where 1: "Control_execute fu t (Control_inputs a d) (the_control c) = Some (True, Written w ci on, c1)" "m_equipment c1 = EquipmentOff"
      "indoorStages w = map (\<lambda>_. 0) (indoorStages (mp_value (mp_vOutputs d)))" "outdoorStages w = map (\<lambda>_. 0) (outdoorStages (mp_value (mp_vOutputs d)))" by blast
  then show "\<exists>c' w ci on. Control_run fu a t c d = Some (True, c', Control_outputs (Written w ci on) d) \<and> base.truncate c' = base.truncate c \<and>
        m_equipment (the_control c') = EquipmentOff \<and>
        indoorStages w = map (\<lambda>_. 0) (indoorStages (mp_value (mp_vOutputs d))) \<and> outdoorStages w = map (\<lambda>_. 0) (outdoorStages (mp_value (mp_vOutputs d)))"
    by (intro exI [of _ "c\<lparr>the_control := c1\<rparr>"] exI [of _ w] exI [of _ ci] exI [of _ on]) (simp add: Control_run_def base.defs)
qed

text \<open>What the controls may change.\<close>

definition controls_changed :: "model_points \<Rightarrow> model_points \<Rightarrow> bool" where
  "controls_changed d d' \<longleftrightarrow> (\<exists>x y z. d' = d\<lparr>mp_vOutputs := x, mp_cycleInfo := y, mp_systemOn := z\<rparr> \<and> live x \<and> live y \<and> live z)"

lemma controls_changed_refl: "inputs_live d \<Longrightarrow> controls_changed d d"
  unfolding controls_changed_def inputs_live_def
  by (intro exI [of _ "mp_vOutputs d"] exI [of _ "mp_cycleInfo d"] exI [of _ "mp_systemOn d"]) simp

lemma controls_changed_written: "inputs_live d \<Longrightarrow> controls_changed d (Control_outputs (Written w ci on) d)"
  unfolding controls_changed_def inputs_live_def Control_outputs_def
  by (intro exI [of _ "MpVirtualOutputs_write w (mp_vOutputs d)"] exI [of _ "mp_write ci (mp_cycleInfo d)"] exI [of _ "mp_write on (mp_systemOn d)"])
    (simp add: MpVirtualOutputs_write_def liveD)

text \<open>The states of the three controls when the mode is \<open>m\<close>.\<close>

definition controls_fit :: "addr \<Rightarrow> operating_mode \<Rightarrow> virtual_outputs \<Rightarrow> control_component \<Rightarrow> control_component \<Rightarrow> control_component \<Rightarrow> bool" where
  "controls_fit a m v cool heat off \<longleftrightarrow> control_fit (Cooling 0) cool_rest cool_runs outdoorStages a (the_control cool) v (m = OM_eCOOLING) \<and>
     control_inv a (the_control heat) v (m = OM_eID_HEATING) \<and> m_equipment (the_control off) = EquipmentOff"

lemma validated_stages: "indoorStages (MpVirtualOutputs_validate w) = map clamp_output (indoorStages w)"
  "outdoorStages (MpVirtualOutputs_validate w) = map clamp_output (outdoorStages w)"
  by (simp_all add: MpVirtualOutputs_validate_def)

lemma cool_control_runs:
  assumes l: "inputs_live d" and s: "system_fits (mp_value (mp_systemConfig d))" and m: "currentOpMode (mp_value (mp_systemConfig d)) = OM_eCOOLING"
    and o: "outputs_fit prev (mp_value (mp_vOutputs d))" and f: "control_fit (Cooling 0) cool_rest cool_runs outdoorStages a (the_control c) (mp_value (mp_vOutputs d)) (prev = OM_eCOOLING)"
    and ch: "prev \<noteq> OM_eCOOLING \<Longrightarrow> mp_value (mp_operatingModeChanged d)"
  shows "\<exists>c' d'. Control_run fu a t c d = Some (True, c', d') \<and> controls_changed d d' \<and> base.truncate c' = base.truncate c \<and>
    outputs_fit OM_eCOOLING (mp_value (mp_vOutputs d')) \<and>
    control_fit (Cooling 0) cool_rest cool_runs outdoorStages a (the_control c') (mp_value (mp_vOutputs d')) True"
proof -
  let ?v = "mp_value (mp_vOutputs d)"
  have len: "length (outdoorStages ?v) = 1" "length (indoorStages ?v) = 3" using o by (simp_all add: outputs_fit_def)
  have g: "cool_cfg fu (in_args (Control_inputs a d))" using fits_cfg(2) s by simp
  have n: "numCompressorStages (mp_value (mp_systemConfig d)) = 1" using s m by (simp add: system_fits_def)
  have m': "currentOpMode (mp_value (mp_systemConfig d)) = getOperatingMode (Cooling 0)" using m by (simp add: getOperatingMode_def)
  obtain c' w ci on where 1: "Control_run fu a t c d = Some (True, c', Control_outputs (Written w ci on) d)" "base.truncate c' = base.truncate c"
    "control_fit (Cooling 0) cool_rest cool_runs outdoorStages a (the_control c') w True" "length (outdoorStages w) = 1"
    "set (outdoorStages w) \<subseteq> {VIRTUAL_OUTPUTS_OFF, VIRTUAL_OUTPUTS_ON}"
    "indoorStages w = map (\<lambda>_. 0) (indoorStages ?v) \<or> prev = OM_eCOOLING \<and> indoorStages w = indoorStages ?v"
    using cool.run_own [OF l g len(1) m' n f, of t] ch by blast
  have v: "mp_value (mp_vOutputs (Control_outputs (Written w ci on) d)) = MpVirtualOutputs_validate w" by (rule written_points(2) [OF l])
  have own: "outdoorStages (MpVirtualOutputs_validate w) = outdoorStages w" using clamp_on_off [OF 1(5)] by (simp add: validated_stages)
  have "indoorStages w = [0, 0, 0]" using 1(6) o length_zeros(1) [OF len(2)] by (auto simp: outputs_fit_def)
  then have "outputs_fit OM_eCOOLING (MpVirtualOutputs_validate w)" using own 1(4) by (simp add: outputs_fit_def validated_stages)
  then show ?thesis using 1(1-3) v control_fit_own [OF own] controls_changed_written [OF l] by auto
qed

lemma heat_control_runs:
  assumes l: "inputs_live d" and s: "system_fits (mp_value (mp_systemConfig d))" and m: "currentOpMode (mp_value (mp_systemConfig d)) = OM_eID_HEATING"
    and o: "outputs_fit prev (mp_value (mp_vOutputs d))" and f: "control_inv a (the_control h) (mp_value (mp_vOutputs d)) (prev = OM_eID_HEATING)"
    and ch: "prev \<noteq> OM_eID_HEATING \<Longrightarrow> mp_value (mp_operatingModeChanged d)"
  shows "\<exists>h' d'. Control_run fu a t h d = Some (True, h', d') \<and> controls_changed d d' \<and> base.truncate h' = base.truncate h \<and>
    outputs_fit OM_eID_HEATING (mp_value (mp_vOutputs d')) \<and> control_inv a (the_control h') (mp_value (mp_vOutputs d')) True"
proof -
  let ?v = "mp_value (mp_vOutputs d)"
  have len: "length (outdoorStages ?v) = 1" "length (indoorStages ?v) = 3" using o by (simp_all add: outputs_fit_def)
  have g: "cfg_ok fu (in_args (Control_inputs a d))" using fits_cfg(1) s by simp
  have n: "numIndoorStages (mp_value (mp_systemConfig d)) \<in> {1, 2, 3}" using s m by (simp add: system_fits_def)
  have m': "currentOpMode (mp_value (mp_systemConfig d)) = getOperatingMode (IndoorHeating 0 1 2)" using m by (simp add: getOperatingMode_def)
  obtain h' w ci on where 1: "Control_run fu a t h d = Some (True, h', Control_outputs (Written w ci on) d)" "base.truncate h' = base.truncate h"
    "control_inv a (the_control h') w True" "length (indoorStages w) = 3"
    "set (indoorStages w) \<subseteq> {VIRTUAL_OUTPUTS_OFF, VIRTUAL_OUTPUTS_ON}"
    "outdoorStages w = map (\<lambda>_. 0) (outdoorStages ?v) \<or> prev = OM_eID_HEATING \<and> outdoorStages w = outdoorStages ?v"
    using heat.run_own [OF l g len(2) m' n f, of t] ch by blast
  have v: "mp_value (mp_vOutputs (Control_outputs (Written w ci on) d)) = MpVirtualOutputs_validate w" by (rule written_points(2) [OF l])
  have own: "indoorStages (MpVirtualOutputs_validate w) = indoorStages w" using clamp_on_off [OF 1(5)] by (simp add: validated_stages)
  have "outdoorStages w = [0]" using 1(6) o length_zeros(2) [OF len(1)] by (auto simp: outputs_fit_def)
  then have "outputs_fit OM_eID_HEATING (MpVirtualOutputs_validate w)" using own 1(4) by (simp add: outputs_fit_def validated_stages)
  then show ?thesis using 1(1-3) v control_fit_own [OF own] controls_changed_written [OF l] by auto
qed

lemma controls_changed_points:
  assumes "controls_changed d d'" and "inputs_live d"
  shows "inputs_live d' \<and> mp_systemConfig d' = mp_systemConfig d \<and> mp_operatingModeChanged d' = mp_operatingModeChanged d"
  using assms by (auto simp: controls_changed_def inputs_live_def)

text \<open>The control that is in its mode writes, the other two only turn their stages off.\<close>

lemma controls_run:
  assumes l: "inputs_live d" and s: "system_fits (mp_value (mp_systemConfig d))" and m: "currentOpMode (mp_value (mp_systemConfig d)) = m"
    and m3: "m \<in> {OM_eOFF, OM_eCOOLING, OM_eID_HEATING}"
    and o: "outputs_fit prev (mp_value (mp_vOutputs d))" and f: "controls_fit a prev (mp_value (mp_vOutputs d)) c h x"
    and ch: "m \<noteq> prev \<Longrightarrow> mp_value (mp_operatingModeChanged d)"
  shows "\<exists>c' h' x' d1 d2 d3. Control_run fu a t1 c d = Some (True, c', d1) \<and> Control_run fu a t2 h d1 = Some (True, h', d2) \<and>
    Control_run fu a t3 x d2 = Some (True, x', d3) \<and> controls_changed d d3 \<and> outputs_fit m (mp_value (mp_vOutputs d3)) \<and>
    controls_fit a m (mp_value (mp_vOutputs d3)) c' h' x' \<and>
    base.truncate c' = base.truncate c \<and> base.truncate h' = base.truncate h \<and> base.truncate x' = base.truncate x"
proof -
  have fc: "control_fit (Cooling 0) cool_rest cool_runs outdoorStages a (the_control c) (mp_value (mp_vOutputs d)) (prev = OM_eCOOLING)"
    and fh: "control_inv a (the_control h) (mp_value (mp_vOutputs d)) (prev = OM_eID_HEATING)"
    and fx: "m_equipment (the_control x) = EquipmentOff" using f by (simp_all add: controls_fit_def)
  have cool: "\<exists>c'. Control_run fu a t1 c d = Some (True, c', d) \<and> base.truncate c' = base.truncate c \<and>
      (\<forall>v. control_fit (Cooling 0) cool_rest cool_runs outdoorStages a (the_control c') v False)" if "m \<noteq> OM_eCOOLING"
    using cool.run_foreign [OF l _ _ _ fc, of fu t1] that m fits_cfg(2) s o by (auto simp: getOperatingMode_def outputs_fit_def)
  have heat: "\<exists>h'. Control_run fu a t2 h e = Some (True, h', e) \<and> base.truncate h' = base.truncate h \<and> (\<forall>v. control_inv a (the_control h') v False)"
    if "m \<noteq> OM_eID_HEATING" "controls_changed d e" "length (indoorStages (mp_value (mp_vOutputs e))) = 3" for e
    using heat.run_foreign [OF _ _ _ _ fh, of e fu t2] that m fits_cfg(1) s controls_changed_points [OF that(2) l]
    by (auto simp: getOperatingMode_def)
  have off: "\<exists>x'. Control_run fu a t3 x e = Some (True, x', e) \<and> base.truncate x' = base.truncate x \<and> m_equipment (the_control x') = EquipmentOff"
    if "m \<noteq> OM_eOFF" "controls_changed d e" for e
    using off_run(1) [OF _ fx, of e fu a t3] that m controls_changed_points [OF that(2) l] by auto
  note refl = controls_changed_refl [OF l]
  consider "m = OM_eOFF" | "m = OM_eCOOLING" | "m = OM_eID_HEATING" using m3 by auto
  then show ?thesis
  proof cases
    case 1
    obtain c' where c': "Control_run fu a t1 c d = Some (True, c', d)" "base.truncate c' = base.truncate c"
      "\<forall>v. control_fit (Cooling 0) cool_rest cool_runs outdoorStages a (the_control c') v False" using cool 1 by auto
    obtain h' where h': "Control_run fu a t2 h d = Some (True, h', d)" "base.truncate h' = base.truncate h" "\<forall>v. control_inv a (the_control h') v False"
      using heat [OF _ refl] 1 o by (auto simp: outputs_fit_def)
    obtain x' w ci on where x': "Control_run fu a t3 x d = Some (True, x', Control_outputs (Written w ci on) d)" "base.truncate x' = base.truncate x"
      "m_equipment (the_control x') = EquipmentOff" "indoorStages w = map (\<lambda>_. 0) (indoorStages (mp_value (mp_vOutputs d)))"
      "outdoorStages w = map (\<lambda>_. 0) (outdoorStages (mp_value (mp_vOutputs d)))" using off_run(2) [OF l fx, of fu a t3] m 1 by blast
    have "length (indoorStages (mp_value (mp_vOutputs d))) = 3" "length (outdoorStages (mp_value (mp_vOutputs d))) = 1" using o by (simp_all add: outputs_fit_def)
    then have "indoorStages w = [0, 0, 0]" "outdoorStages w = [0]" using x'(4,5) length_zeros by metis+
    then have "outputs_fit m (mp_value (mp_vOutputs (Control_outputs (Written w ci on) d)))"
      by (simp add: written_points(2) [OF l] outputs_fit_def validated_stages)
    moreover have "controls_fit a m (mp_value (mp_vOutputs (Control_outputs (Written w ci on) d))) c' h' x'"
      using 1 c'(3) h'(3) x'(3) by (simp add: controls_fit_def)
    ultimately show ?thesis using c'(1,2) h'(1,2) x'(1,2) controls_changed_written [OF l] by blast
  next
    case 2
    obtain c' d1 where c': "Control_run fu a t1 c d = Some (True, c', d1)" "controls_changed d d1" "base.truncate c' = base.truncate c"
      "outputs_fit OM_eCOOLING (mp_value (mp_vOutputs d1))"
      "control_fit (Cooling 0) cool_rest cool_runs outdoorStages a (the_control c') (mp_value (mp_vOutputs d1)) True"
      using cool_control_runs [OF l s _ o fc, of fu t1] m 2 ch by auto
    obtain h' where h': "Control_run fu a t2 h d1 = Some (True, h', d1)" "base.truncate h' = base.truncate h" "\<forall>v. control_inv a (the_control h') v False"
      using heat [OF _ c'(2)] 2 c'(4) by (auto simp: outputs_fit_def)
    obtain x' where x': "Control_run fu a t3 x d1 = Some (True, x', d1)" "base.truncate x' = base.truncate x" "m_equipment (the_control x') = EquipmentOff"
      using off [OF _ c'(2)] 2 by auto
    have "controls_fit a m (mp_value (mp_vOutputs d1)) c' h' x'" using 2 c'(5) h'(3) x'(3) by (simp add: controls_fit_def)
    then show ?thesis using 2 c'(1-4) h'(1,2) x'(1,2) by blast
  next
    case 3
    obtain c' where c': "Control_run fu a t1 c d = Some (True, c', d)" "base.truncate c' = base.truncate c"
      "\<forall>v. control_fit (Cooling 0) cool_rest cool_runs outdoorStages a (the_control c') v False" using cool 3 by auto
    obtain h' d2 where h': "Control_run fu a t2 h d = Some (True, h', d2)" "controls_changed d d2" "base.truncate h' = base.truncate h"
      "outputs_fit OM_eID_HEATING (mp_value (mp_vOutputs d2))" "control_inv a (the_control h') (mp_value (mp_vOutputs d2)) True"
      using heat_control_runs [OF l s _ o fh, of fu t2] m 3 ch by auto
    obtain x' where x': "Control_run fu a t3 x d2 = Some (True, x', d2)" "base.truncate x' = base.truncate x" "m_equipment (the_control x') = EquipmentOff"
      using off [OF _ h'(2)] 3 by auto
    have "controls_fit a m (mp_value (mp_vOutputs d2)) c' h' x'" using 3 c'(3) h'(5) x'(3) by (simp add: controls_fit_def)
    then show ?thesis using 3 c'(1,2) h'(1-4) x'(1,2) by blast
  qed
qed

section \<open>Fan, air filter and relays\<close>

lemma fan_write:
  assumes l: "live x" and o: "outputs_fit m (mp_value x)" and f: "\<And>v. indoorStages (f v) = indoorStages v" "\<And>v. outdoorStages (f v) = outdoorStages v"
    and y: "y = MpVirtualOutputs_write (f (mp_value x)) x"
  shows "live y \<and> outputs_fit m (mp_value y) \<and> indoorStages (mp_value y) = indoorStages (mp_value x) \<and> outdoorStages (mp_value y) = outdoorStages (mp_value x)"
proof -
  have v: "MpVirtualOutputs_validate (mp_value x) = mp_value x" using o by (simp add: outputs_fit_def)
  have "live y" "mp_value y = MpVirtualOutputs_validate (f (mp_value x))" using l by (simp_all add: y MpVirtualOutputs_write_def liveD)
  moreover have "map clamp_output (indoorStages (mp_value x)) = indoorStages (mp_value x)" "map clamp_output (outdoorStages (mp_value x)) = outdoorStages (mp_value x)"
    using v validated_stages by metis+
  ultimately show ?thesis using o f by (simp add: outputs_fit_def validated_stages)
qed

lemma fan_runs:
  assumes "live (mp_vOutputs d)" and "outputs_fit m (mp_value (mp_vOutputs d))"
  shows "\<exists>y. FanControl_execute t c d = Some (True, c, d\<lparr>mp_vOutputs := y\<rparr>) \<and> live y \<and> outputs_fit m (mp_value y) \<and>
    indoorStages (mp_value y) = indoorStages (mp_value (mp_vOutputs d)) \<and> outdoorStages (mp_value y) = outdoorStages (mp_value (mp_vOutputs d))"
proof -
  note w = fan_write [OF assms(1,2) _ _ refl]
  show ?thesis
    using w [of "\<lambda>v. v\<lparr>indoorFan := VIRTUAL_OUTPUTS_OFF\<rparr>"] w [of "\<lambda>v. v\<lparr>indoorFanCont := VIRTUAL_OUTPUTS_OFF\<rparr>"]
      w [of "\<lambda>v. v\<lparr>indoorFanCont := fanContinuousSpeed (mp_value (mp_systemConfig d))\<rparr>"]
    by (auto simp: FanControl_execute_def MpVirtualOutputs_setIndoorFanOutput_def MpVirtualOutputs_setIndoorFanContinousOutput_def split: fan_mode.split)
qed

lemma air_filter_runs:
  "\<exists>c' x y. AirFilterMonitor_execute t c d = Some (True, c', d\<lparr>mp_airFilterAlert := x, mp_airFilterOperationTime := y\<rparr>) \<and> base.truncate c' = base.truncate c"
proof -
  define P where "P r \<longleftrightarrow> (\<exists>c' x y. r = Some (True, c', d\<lparr>mp_airFilterAlert := x, mp_airFilterOperationTime := y\<rparr>) \<and> base.truncate c' = base.truncate c)" for r :: "(bool \<times> air_filter_monitor \<times> model_points) option"
  have "d = d\<lparr>mp_airFilterAlert := mp_airFilterAlert d, mp_airFilterOperationTime := mp_airFilterOperationTime d\<rparr>" by simp
  then have same: "P (Some (True, c, d))" unfolding P_def by blast
  have new: "P (Some (True, c', d\<lparr>mp_airFilterAlert := x, mp_airFilterOperationTime := y\<rparr>))" if "base.truncate c' = base.truncate c" for c' x y
    using that unfolding P_def by blast
  have "P (AirFilterMonitor_execute t c d)" by (simp add: AirFilterMonitor_execute_def same new base.defs Let_def)
  then show ?thesis by (simp add: P_def)
qed

text \<open>The relays in a mode.\<close>

definition relays_fit :: "operating_mode \<Rightarrow> relay_outputs \<Rightarrow> bool" where
  "relays_fit m r \<longleftrightarrow> (relay_y1 r \<longrightarrow> m = OM_eCOOLING) \<and> \<not> relay_y2 r \<and> (relay_w1 r \<or> relay_w2 r \<or> relay_w3 r \<longrightarrow> m = OM_eID_HEATING) \<and> relay_bk r \<le> 100"

lemma hvac_runs:
  assumes l: "live (mp_equipmentBeginTimes d)" "\<not> mp_locked (mp_relayOutputs d)" and o: "outputs_fit m (mp_value (mp_vOutputs d))"
  shows "\<exists>c' x y. HvacRelayOutputs_execute t c d = Some (True, c', d\<lparr>mp_equipmentBeginTimes := x, mp_relayOutputs := y\<rparr>) \<and>
    base.truncate c' = base.truncate c \<and> live x \<and> live y \<and> relays_fit m (mp_value y)"
proof -
  define v where "v = (let v = read_or zero_outputs (mp_vOutputs d); 
    v = (if \<not> mp_valid (mp_systemForcedOffRefCnt d) \<or> \<not> mp_valid (mp_vOutputs d) \<or> \<not> mp_valid (mp_systemOn d) \<or> \<not> mp_valid (mp_equipmentBeginTimes d) then setSafeAllOff v else v)
    in if read_or 0 (mp_systemForcedOffRefCnt d) > 0 then setCapacityOff v else v)"
  have "length (indoorStages v) = 3" "length (outdoorStages v) = 1" "m \<noteq> OM_eID_HEATING \<Longrightarrow> indoorStages v = [0, 0, 0]" "m \<noteq> OM_eCOOLING \<Longrightarrow> outdoorStages v = [0]"
    using o by (auto simp: v_def outputs_fit_def read_or_def mp_read_def zero_outputs_def setSafeAllOff_def setCapacityOff_def Let_def)
  then have "relays_fit m (MpHvacRelayOutputs_validate (relays_of v))"
    by (cases "m = OM_eID_HEATING"; cases "m = OM_eCOOLING") (simp_all add: relays_fit_def MpHvacRelayOutputs_validate_def relays_of_def VIRTUAL_OUTPUTS_OFF_def Let_def not_less)
  then have "relays_fit m (mp_value (MpHvacRelayOutputs_write (relays_of v) (mp_relayOutputs d)))" "live (MpHvacRelayOutputs_write (relays_of v) (mp_relayOutputs d))"
    using l(2) by (simp_all add: MpHvacRelayOutputs_write_def)
  moreover have "\<exists>c' x. HvacRelayOutputs_execute t c d = Some (True, c', d\<lparr>mp_equipmentBeginTimes := mp_write x (mp_equipmentBeginTimes d),
      mp_relayOutputs := MpHvacRelayOutputs_write (relays_of v) (mp_relayOutputs d)\<rparr>) \<and> base.truncate c' = base.truncate c"
    unfolding HvacRelayOutputs_execute_def v_def Let_def by (intro exI conjI, rule refl) (simp add: base.defs)
  ultimately show ?thesis using l(1) by (metis live_write(1) liveD(2))
qed

end
