(* ===== verification/Storm_Laws.thy ===== *)
theory Storm_Laws
  imports Storm_Runs
begin

text \<open>
  The laws of single components of the thermostat: the bounds of the PI controller and of the setpoints, the hold of the
  automatic mode, and the rhythm of the common base.
\<close>

section \<open>A sample\<close>

text \<open>The points of a thermostat with a furnace of two stages and an air conditioner, before they are initialised.\<close>

definition sample_points :: model_points where
  "sample_points = \<lparr>mp_setpoints = mp_new \<lparr>coolSetpt = 78, heatSetpt = 70\<rparr> True, mp_userMode = mp_new TM_eAUTO True, mp_fanMode = mp_new FM_eAUTO True,
     mp_maxAirFilterHours = mp_new 360 True, mp_primaryRawIdt = mp_new 0 False, mp_secondaryRawIdt = mp_new 0 False, mp_enabledSecondaryIdt = mp_new False True,
     mp_activeIdt = mp_new 0 False, mp_idtAlarms = mp_new \<lparr>primaryAlarm = False, primaryAck = False, secondaryAlarm = False, secondaryAck = False, idt_critical = False\<rparr> False,
     mp_noActiveConditioningAlarm = mp_new \<lparr>active = False, acked = False, critical = False\<rparr> False, mp_userCfgModeAlarm = mp_new \<lparr>active = False, acked = False, critical = False\<rparr> False,
     mp_airFilterAlert = mp_new \<lparr>active = False, acked = False, critical = False\<rparr> True, mp_airFilterOperationTime = mp_new zero_time True,
     mp_equipmentConfig = mp_new \<lparr>iduType = eFURNACE, oduType = eAC, numCompStages = 1, numIduHeatingStages = 2, hasVspBlower = False\<rparr> True,
     mp_comfortConfig = mp_new \<lparr>compressorCooling = ComfortConfig_setDefaults, compressorHeating = ComfortConfig_setDefaults, indoorHeating = ComfortConfig_setDefaults\<rparr> True,
     mp_systemForcedOffRefCnt = mp_new 0 False, mp_systemConfig = mp_new MpSystemConfig_zero False, mp_systemOn = mp_new False False,
     mp_equipmentBeginTimes = mp_new zero_equipment_times False, mp_resetPiPulse = mp_new False False, mp_operatingModeChanged = mp_new False False,
     mp_deltaIdtError = mp_new 0 False, mp_deltaSetpoint = mp_new 0 False, mp_setpointChanged = mp_new False False, mp_activeSetpoint = mp_new 0 False,
     mp_freezePiRefCnt = mp_new 0 False, mp_inhibitfRefCnt = mp_new 0 False, mp_pvOut = mp_new 0 False, mp_sumError = mp_new 0 False, mp_pvInhibited = mp_new False False,
     mp_vOutputs = mp_new zero_outputs False, mp_cycleInfo = mp_new \<lparr>beginOnTime = zero_time, beginOffTime = zero_time, ci_onTime = 0, ci_offTime = 0, ci_mode = eOFF\<rparr> False,
     mp_whiteBox = mp_new \<lparr>wb_defeatEquipMinOffTime = False, wb_abortOnOffCycle = False\<rparr> True,
     mp_relayOutputs = mp_new \<lparr>relay_g = False, relay_bk = 0, relay_w1 = False, relay_w2 = False, relay_w3 = False, relay_o = False, relay_y1 = False, relay_y2 = False\<rparr> False\<rparr>"

lemma sample_ieee: "ieee sample_unit" "ieee_double id"
  by (simp_all add: ieee_def ieee_double_def sample_unit_def mono_def FLT_EPSILON_def)

section \<open>The controller\<close>

lemma float_keeps:
  assumes "ieee fu"
  shows "\<bar>n\<bar> \<le> 16777216 \<Longrightarrow> fround fu (of_int n) = of_int n" and "x \<le> y \<Longrightarrow> fround fu x \<le> fround fu y" and "0 \<le> x \<Longrightarrow> 0 \<le> fround fu x"
proof -
  have m: "mono (fround fu)" and k: "\<And>n :: int. \<bar>n\<bar> \<le> 16777216 \<Longrightarrow> fround fu (of_int n) = of_int n" using assms by (simp_all add: ieee_def)
  show "\<bar>n\<bar> \<le> 16777216 \<Longrightarrow> fround fu (of_int n) = of_int n" "x \<le> y \<Longrightarrow> fround fu x \<le> fround fu y" using k monoD [OF m] by simp_all
  show "0 \<le> x \<Longrightarrow> 0 \<le> fround fu x" using monoD [OF m, of 0 x] k [of 0] by simp
qed

lemma largest_sum:
  assumes "ieee fu" and "ieee_double dr" and "0 \<le> m" "1 \<le> reset" "1 \<le> gain" "1 \<le> dt"
  shows "0 \<le> fround fu (dr (dr (m * reset) / dr (gain * dt)))" and "dr (gain * dt) \<noteq> 0"
proof -
  note keep = double_keeps [OF assms(2)]
  have g: "1 \<le> dr (gain * dt)" using assms(5,6) mult_mono [of 1 gain 1 dt] by (intro keep(2)) simp
  have "0 \<le> dr (m * reset)" using assms(3,4) by (intro keep(1)) simp
  then show "0 \<le> fround fu (dr (dr (m * reset) / dr (gain * dt)))" using g by (intro float_keeps(3) [OF assms(1)] keep(1)) simp
  show "dr (gain * dt) \<noteq> 0" using g by auto
qed

text \<open>
  C39. In IEEE arithmetic, with a gain, a reset time and an interval of at least 1, the PI controller always has a result.  Its output is between 0 and the largest output,
  the sum of the errors is not negative and never passes the larger of its last value and its limit, and both are kept for the next run.  The
  integral term is inhibited on request, and when it is not the sum is the one that was accumulated.
\<close>

theorem pi_within_bounds:
  assumes "ieee fu" and "ieee_double dr" and "0 \<le> maxPvOut" "1 \<le> resetTime" "1 \<le> gain" "1 \<le> m_dt c" and "0 \<le> m_prevSumError c" "0 \<le> m_maxSumError c"
  shows "\<exists>pv s inhibited c'. Pi_update fu dr deltaError inhibitRefCnt gain resetTime maxPvOut c = Some (pv, s, inhibited, c') \<and>
    0 \<le> pv \<and> pv \<le> maxPvOut \<and> m_prevPvOut c' = pv \<and> 0 \<le> s \<and> s \<le> max (m_prevSumError c) (m_maxSumError c') \<and> m_prevSumError c' = s \<and> 0 \<le> m_maxSumError c' \<and>
    (\<not> inhibited \<longrightarrow> s = max 0 (fround fu (m_prevSumError c + deltaError))) \<and> (inhibitRefCnt \<noteq> 0 \<longrightarrow> inhibited \<and> s = m_prevSumError c)"
proof -
  let ?new = "fround fu (dr (dr (maxPvOut * resetTime) / dr (gain * m_dt c)))"
  note l = largest_sum [OF assms(1-6)]
  define c0 where "c0 = (if areFloatsEqual fu (Some (m_maxSumError c)) 0 then c\<lparr>m_maxSumError := ?new\<rparr> else c)"
  have c0: "0 \<le> m_maxSumError c0" "m_prevSumError c0 = m_prevSumError c" using l(1) assms(8) by (simp_all add: c0_def)
  have "(if areFloatsEqual fu (Some (m_maxSumError c)) 0 then do { c_assert (dr (gain * m_dt c) \<noteq> 0); Some (c\<lparr>m_maxSumError := ?new\<rparr>) } else Some c) = Some c0"
    using l(2) by (simp add: c0_def)
  note up = Pi_update_def [of fu dr deltaError inhibitRefCnt gain resetTime maxPvOut c, unfolded this Let_def Option.bind.bind_lunit]
  show ?thesis using assms(3,4,7) c0 unfolding up by (auto simp: max_def not_less)
qed

theorem pi_within_bounds_witness:
  "\<exists>pv s inhibited c'. Pi_update sample_unit id 3 0 20 300000 200
      \<lparr>m_interval = \<lparr>m_seconds = 2, m_thousandths = 0\<rparr>, m_timeMark = zero_time, m_slipCounter = 0, m_timeMarkValid = True, m_started = True,
       m_dt = 2000, m_prevSumError = 50, m_prevPvOut = 10, m_maxSumError = 0\<rparr> = Some (pv, s, inhibited, c') \<and> 0 \<le> pv \<and> pv \<le> 200 \<and> 0 \<le> s"
proof -
  let ?c = "\<lparr>m_interval = \<lparr>m_seconds = 2, m_thousandths = 0\<rparr>, m_timeMark = zero_time, m_slipCounter = 0, m_timeMarkValid = True, m_started = True,
    m_dt = 2000, m_prevSumError = 50, m_prevPvOut = 10, m_maxSumError = 0\<rparr> :: pi_controller"
  from pi_within_bounds [OF sample_ieee, of 200 300000 20 ?c 3 0] show ?thesis by auto
qed

section \<open>Setpoints\<close>

text \<open>Whatever is written, the setpoints are in their ranges and heating stays below cooling.\<close>

lemma setpoints_validated:
  assumes "ieee fu" and "s = validateSetpoints fu cool heat"
  shows "55 \<le> coolSetpt s \<and> coolSetpt s \<le> 95 \<and> 50 \<le> heatSetpt s \<and> heatSetpt s \<le> 90 \<and> heatSetpt s < coolSetpt s"
proof -
  define c where "c = (if cool > 95 then 95 else if cool < 55 then 55 else cool)"
  define h where "h = (if heat > 90 then 90 else if heat < 50 then 50 else heat)"
  have c: "55 \<le> c" "c \<le> 95" and h: "50 \<le> h" "h \<le> 90" by (simp_all add: c_def h_def not_less)
  have s: "s = \<lparr>coolSetpt = c, heatSetpt = (if c \<le> h then fround fu (c - 1) else h)\<rparr>"
    unfolding assms(2) validateSetpoints_def c_def h_def Let_def by simp
  have "c - 1 \<le> of_int (\<lceil>c\<rceil> - 1)" "of_int (\<lceil>c\<rceil> - 1) < c" by linarith+
  moreover have "\<bar>\<lceil>c\<rceil> - 1\<bar> \<le> 16777216" using c by linarith
  ultimately have "fround fu (c - 1) < c" using float_keeps(1,2) [OF assms(1)] by (metis order.strict_trans1)
  moreover have "54 \<le> fround fu (c - 1)" using float_keeps(2) [OF assms(1), of 54 "c - 1"] float_keeps(1) [OF assms(1), of 54] c by simp
  ultimately show ?thesis using c h unfolding s by auto
qed

section \<open>The rhythm of the base\<close>

text \<open>After a run the component is not due again at the same time, so it runs at most once in an interval.\<close>

lemma floor_within:
  fixes x i :: "'a :: len word"
  assumes "i \<noteq> 0"
  shows "x - x div i * i < i"
proof -
  have "x - x div i * i = x mod i" by (metis word_mod_div_equality add_diff_cancel_left' add.commute)
  then show ?thesis using assms by (simp add: word_mod_less_divisor word_gt_0)
qed

lemma marked_not_expired:
  assumes "m_thousandths now < 1000" and i: "m_interval c \<noteq> zero_time"
  shows "\<not> expiredPrecision (m_timeMark (Base_setTimeMarker now c)) (m_interval c) now"
proof -
  let ?i = "m_interval c" and ?m = "m_timeMark (Base_setTimeMarker now c)"
  have th: "m_thousandths now - m_thousandths ?m \<le> m_thousandths now"
  proof (cases "m_thousandths ?i = 0")
    case False
    have "m_thousandths now - m_thousandths now div m_thousandths ?i * m_thousandths ?i = m_thousandths now mod m_thousandths ?i" by (rule minus_div_mult_eq_mod)
    then show ?thesis using False by (simp add: Base_setTimeMarker_def word_le_nat_alt unat_mod_distrib)
  qed (simp add: Base_setTimeMarker_def)
  have "\<not> (0x7FFF :: u16) < m_thousandths now - m_thousandths ?m"
    using order.strict_trans1 [OF th assms(1)] by (simp add: word_less_nat_alt)
  then have delta: "deltaPrecision ?m now = \<lparr>m_seconds = m_seconds now - m_seconds ?m, m_thousandths = m_thousandths now - m_thousandths ?m\<rparr>"
    by (simp add: deltaPrecision_def)
  show ?thesis
  proof (cases "m_seconds ?i = 0")
    case True
    then have "m_thousandths ?i \<noteq> 0" using i by (cases ?i) (simp add: zero_time_def)
    then show ?thesis using True floor_within [of "m_thousandths ?i" "m_thousandths now"] unfolding expiredPrecision_def delta
      by (simp add: Base_setTimeMarker_def not_le)
  next
    case False
    then show ?thesis using floor_within [of "m_seconds ?i" "m_seconds now"] unfolding expiredPrecision_def delta by (auto simp: Base_setTimeMarker_def)
  qed
qed

lemma runs_once:
  assumes "m_thousandths now < 1000" and "m_interval c \<noteq> zero_time"
  shows "\<not> Base_due now (Base_mark now c)"
proof -
  have p: "m_interval (Base_setTimeMarker now c') = m_interval c'" "m_timeMarkValid (Base_setTimeMarker now c') = m_timeMarkValid c'" for c' :: "'a base_scheme"
    by (simp_all add: Base_setTimeMarker_def)
  have n: "\<not> expiredPrecision (m_timeMark (Base_setTimeMarker now c')) (m_interval c) now" if "m_interval c' = m_interval c" for c' :: "'a base_scheme"
    using marked_not_expired [OF assms(1), of c'] assms(2) that by simp
  show ?thesis by (simp add: Base_due_def Base_mark_def Let_def p n)
qed

section \<open>The automatic mode\<close>

lemma mode_result:
  assumes "m' = (if m = OM_eHEATING \<and> \<not> hp then OM_eID_HEATING else m)" and "mode_fits m' e cc"
  shows "\<exists>c' d'. setNewOperatingMode fu m hp e cc c d = Some (c', d') \<and> m_prevOperatingMode c' = m' \<and> m_inAuto c' = m_inAuto c"
proof -
  obtain s where "setSystemConfig fu m' e cc = Some s" using system_config_fits [OF assms(2)] by blast
  then show ?thesis unfolding setNewOperatingMode_def assms(1) [symmetric] by (simp add: Let_def)
qed

text \<open>The points from which the operating mode is determined when there is nothing wrong and the user has chosen the automatic mode.\<close>

definition auto_ready :: "operating_mode_component \<Rightarrow> model_points \<Rightarrow> bool" where
  "auto_ready c d \<longleftrightarrow> mp_valid (mp_activeIdt d) \<and> mp_read (mp_userMode d) = Some TM_eAUTO \<and> mp_valid (mp_setpoints d) \<and> mp_valid (mp_systemOn d) \<and>
     mp_valid (mp_equipmentBeginTimes d) \<and> mp_valid (mp_comfortConfig d) \<and> comfort_fits (mp_value (mp_comfortConfig d)) \<and> mp_valid (mp_equipmentConfig d) \<and>
     equipment_fits (mp_value (mp_equipmentConfig d)) \<and> numCompStages (mp_value (mp_equipmentConfig d)) > 0 \<and> numIduHeatingStages (mp_value (mp_equipmentConfig d)) > 0 \<and>
     mp_read (mp_systemForcedOffRefCnt d) = Some 0 \<and> \<not> m_forcedOff c"

text \<open>
  C40. In the automatic mode, with nothing wrong, the operating mode does not change and the system configuration is not written while the system is on or has
  been off for less than ten minutes.  After that the mode is cooling when the temperature is at most one degree below the cooling setpoint or higher,
  and heating otherwise.
\<close>

theorem auto_mode_holds:
  assumes "auto_ready c d" and "m_inAuto c"
    and hold: "hold \<longleftrightarrow> mp_value (mp_systemOn d) \<or> \<not> expiredPrecision (et_systemBeginOffTime (mp_value (mp_equipmentBeginTimes d))) \<lparr>m_seconds = 600, m_thousandths = 0\<rparr> interval"
  shows "\<exists>c' d'. OperatingMode_execute fu interval c d = Some (True, c', d') \<and> m_inAuto c' \<and>
    (if hold then m_prevOperatingMode c' = m_prevOperatingMode c \<and> mp_systemConfig d' = mp_systemConfig d
     else m_prevOperatingMode c' = (if mp_value (mp_activeIdt d) \<ge> fround fu (coolSetpt (mp_value (mp_setpoints d)) - 1) then OM_eCOOLING else OM_eID_HEATING))"
proof -
  define e where "e = mp_value (mp_equipmentConfig d)"
  define cc where "cc = mp_value (mp_comfortConfig d)"
  define d2 where "d2 = d\<lparr>mp_operatingModeChanged := mp_write False (mp_operatingModeChanged d),
    mp_noActiveConditioningAlarm := MpSimpleAlarm_setAlarm False False (mp_noActiveConditioningAlarm d),
    mp_userCfgModeAlarm := MpSimpleAlarm_setAlarm False False (mp_userCfgModeAlarm d)\<rparr>"
  have a: "equipment_fits e" "comfort_fits cc" "0 < numCompStages e" "0 < numIduHeatingStages e" using assms(1) by (simp_all add: auto_ready_def e_def cc_def)
  note st = equipment_fits_stages [OF a(1)]
  have ac: "oduType e = eAC" using st(1,3) a(3) by (cases "oduType e") auto
  have n: "numCompStages e = 1" "numIduHeatingStages e \<in> {1, 2, 3}" using one_stage [OF st(2) a(3)] few_stages [OF st(4) a(4)] by simp_all
  have f: "mode_fits OM_eCOOLING e cc" "mode_fits OM_eID_HEATING e cc" using n a(2) by (simp_all add: mode_fits_def)
  have exec: "OperatingMode_execute fu interval c d = do {
      (c, d) \<leftarrow> resolve_mode fu interval TM_eAUTO False e cc (mp_value (mp_activeIdt d)) (mp_value (mp_setpoints d)) (mp_value (mp_systemOn d)) (mp_value (mp_equipmentBeginTimes d)) c d2;
      Some (True, c, d) }"
    using assms(1) ac a(3,4) by (auto simp: OperatingMode_execute_def auto_ready_def read_or_def mp_read_def determineAllowedModes_def setNoActiveConditioningAlarm_def
        correct_user_mode_def d2_def Let_def e_def [symmetric] cc_def [symmetric] split: if_splits)
  show ?thesis
    using mode_result [OF refl, of OM_eCOOLING False e cc fu c d2] mode_result [OF refl, of OM_eHEATING False e cc fu c d2] f assms(2) unfolding exec hold
    by (auto simp: resolve_mode_def d2_def)
qed

text \<open>The system is off since second 1000 and the temperature is 75.\<close>

definition sample_idle :: model_points where
  "sample_idle = sample_points\<lparr>mp_activeIdt := mp_new 75 True, mp_systemOn := mp_new False True, mp_systemForcedOffRefCnt := mp_new 0 True,
     mp_equipmentBeginTimes := mp_new (zero_equipment_times\<lparr>et_systemBeginOffTime := \<lparr>m_seconds = 1000, m_thousandths = 0\<rparr>\<rparr>) True\<rparr>"

definition sample_mode :: operating_mode_component where
  "sample_mode = \<lparr>m_interval = \<lparr>m_seconds = 2, m_thousandths = 0\<rparr>, m_timeMark = zero_time, m_slipCounter = 0, m_timeMarkValid = True, m_started = True,
     m_prevOperatingMode = OM_eCOOLING, m_equipCfgSequenceNumber = 1, m_comfortCfgSequenceNumber = 1, m_inAuto = True, m_forcedOff = False\<rparr>"

lemma sample_auto: "auto_ready sample_mode sample_idle" "m_inAuto sample_mode"
  by (simp_all add: auto_ready_def sample_mode_def sample_idle_def sample_points_def mp_new_def mp_read_def comfort_fits_def equipment_fits_def ComfortConfig_setDefaults_def
      MpEquipmentConfig_validate_def MAX_FURNACE_HEATING_STAGES_def MAX_COMPRESSOR_COOLING_STAGES_def)

theorem auto_mode_holds_witness:
  "(\<exists>c' d'. OperatingMode_execute sample_unit \<lparr>m_seconds = 1500, m_thousandths = 0\<rparr> sample_mode sample_idle = Some (True, c', d') \<and> m_prevOperatingMode c' = OM_eCOOLING) \<and>
   (\<exists>c' d'. OperatingMode_execute sample_unit \<lparr>m_seconds = 1600, m_thousandths = 0\<rparr> sample_mode sample_idle = Some (True, c', d') \<and> m_prevOperatingMode c' = OM_eID_HEATING)"
proof -
  have e: "\<not> mp_value (mp_systemOn sample_idle)" "\<not> expiredPrecision (et_systemBeginOffTime (mp_value (mp_equipmentBeginTimes sample_idle))) \<lparr>m_seconds = 600, m_thousandths = 0\<rparr> \<lparr>m_seconds = 1500, m_thousandths = 0\<rparr>"
    "expiredPrecision (et_systemBeginOffTime (mp_value (mp_equipmentBeginTimes sample_idle))) \<lparr>m_seconds = 600, m_thousandths = 0\<rparr> \<lparr>m_seconds = 1600, m_thousandths = 0\<rparr>"
    by (simp_all add: sample_idle_def mp_new_def expiredPrecision_def deltaPrecision_def)
  have "\<not> mp_value (mp_activeIdt sample_idle) \<ge> fround sample_unit (coolSetpt (mp_value (mp_setpoints sample_idle)) - 1)" "m_prevOperatingMode sample_mode = OM_eCOOLING"
    by (simp_all add: sample_idle_def sample_points_def sample_mode_def sample_unit_def mp_new_def)
  then show ?thesis
    using auto_mode_holds [OF sample_auto refl, where interval = "\<lparr>m_seconds = 1500, m_thousandths = 0\<rparr>" and fu = sample_unit]
      auto_mode_holds [OF sample_auto refl, where interval = "\<lparr>m_seconds = 1600, m_thousandths = 0\<rparr>" and fu = sample_unit] e by auto
qed

section \<open>What the source does not do\<close>

text \<open>The write of a whole comfort configuration stores what it was given: a number of cycles per hour that does not exist reaches the point.\<close>

lemma comfort_write_unvalidated:
  assumes "cs_cph (compressorCooling cfg) = eNUM_OPTIONS" and "cs_cph (compressorHeating cfg) = e3CPH" and "cs_cph (indoorHeating cfg) = e3CPH" and "\<not> mp_locked m"
  shows "\<exists>m'. MpComfortConfig_write cfg m = Some m' \<and> cs_cph (compressorCooling (mp_value m')) = eNUM_OPTIONS"
  using assms by (simp add: MpComfortConfig_write_def ComfortConfig_validate_def ComfortStageParameters_validate_def DutyCycle_getMaximumMinOffTime_def
      DutyCycle_getMaximumMinOnTime_def Let_def split: prod.split)

text \<open>A restart of the selection forgets that it has asked for the system to be off, so the request is never given back.\<close>

lemma restart_keeps_request:
  assumes "\<not> no_sensor d"
  shows "\<exists>c' d'. IdtSelection_execute fu t (IdtSelection_start i c) d = Some (True, c', d') \<and> mp_systemForcedOffRefCnt d' = mp_systemForcedOffRefCnt d"
proof -
  obtain idt vp vs b where s: "IdtSelection_select d = (idt, vp, vs, b)" by (metis prod_cases4)
  then have "\<not> b" using select_critical [of d] assms by simp
  then show ?thesis by (simp add: IdtSelection_execute_def s IdtSelection_start_def Base_start_def Let_def)
qed

end
