(* ===== verification/Storm_Safety.thy ===== *)
theory Storm_Safety
  imports Storm_Laws
begin

text \<open>
  The invariant of the thermostat over all its executions and what it gives: no cycle of the algorithm fails, the relays follow the
  operating mode, and without a temperature there is no conditioning.
\<close>

section \<open>The state between two cycles\<close>

text \<open>
  The points in order: the configuration is that of the mode \<open>m\<close>, the outputs are those of the mode \<open>prev\<close>; the two differ only within
  a cycle.
\<close>

definition points_fit :: "operating_mode \<Rightarrow> operating_mode \<Rightarrow> model_points \<Rightarrow> bool" where
  "points_fit m prev d \<longleftrightarrow> external_fits d \<and> config_in m (mp_systemConfig d) \<and> live (mp_vOutputs d) \<and> live (mp_equipmentBeginTimes d) \<and>
     live (mp_systemOn d) \<and> live (mp_cycleInfo d) \<and> live (mp_operatingModeChanged d) \<and> live (mp_resetPiPulse d) \<and> live (mp_systemForcedOffRefCnt d) \<and>
     live (mp_pvOut d) \<and> \<not> mp_locked (mp_relayOutputs d) \<and> outputs_fit prev (mp_value (mp_vOutputs d))"

text \<open>The components share one clock.\<close>

definition bases :: "algorithm \<Rightarrow> base list" where
  "bases alg = [base.truncate (alg_idtSelection alg), base.truncate (alg_operatingMode alg), base.truncate (alg_piPreProcess alg), base.truncate (alg_pi alg),
     base.truncate (alg_controlCooling alg), base.truncate (alg_controlIdHeating alg), base.truncate (alg_controlOff alg), base.truncate (alg_fanControl alg),
     base.truncate (alg_airFilterMonitor alg), base.truncate (alg_hvacRelayOutputs alg), base.truncate (alg_postProcessor alg)]"

abbreviation mode_of :: "algorithm \<Rightarrow> operating_mode" where
  "mode_of alg \<equiv> m_prevOperatingMode (alg_operatingMode alg)"

definition thermostat_inv :: "addr \<Rightarrow> algorithm \<Rightarrow> model_points \<Rightarrow> bool" where
  "thermostat_inv a alg d \<longleftrightarrow> (\<exists>b. m_started b \<and> (\<forall>x\<in>set (bases alg). x = b)) \<and> points_fit (mode_of alg) (mode_of alg) d \<and>
     mode_of alg \<in> {OM_eUNKNOWN, OM_eOFF, OM_eCOOLING, OM_eID_HEATING} \<and> (m_inAuto (alg_operatingMode alg) \<longrightarrow> mode_of alg \<noteq> OM_eUNKNOWN) \<and>
     mp_value (mp_systemForcedOffRefCnt d) = reasons (m_critical (alg_idtSelection alg)) (m_forcedOff (alg_operatingMode alg)) \<and>
     (mp_value (mp_systemForcedOffRefCnt d) \<noteq> 0 \<longrightarrow> mode_of alg = OM_eOFF) \<and> m_dt (alg_pi alg) = 2000 \<and>
     controls_fit a (mode_of alg) (mp_value (mp_vOutputs d)) (alg_controlCooling alg) (alg_controlIdHeating alg) (alg_controlOff alg) \<and>
     relays_fit (mode_of alg) (mp_value (mp_relayOutputs d))"

section \<open>A cycle\<close>

lemma work_due:
  assumes "base.truncate c = b" and "Base_due now b" and "m_started b"
  shows "Base_doWork ex True now c s = ex (m_timeMark (Base_mark now b)) (Base_mark now c) s"
proof -
  have "m_timeMark (Base_mark now c) = m_timeMark (base.truncate (Base_mark now c))" by (simp add: base.defs)
  also have "\<dots> = m_timeMark (Base_mark now b)" by (simp only: truncate_mark assms(1))
  finally show ?thesis using do_work_due [of now c ex s] assms by simp
qed

lemma work_not_due: "base.truncate c = b \<Longrightarrow> \<not> Base_due now b \<Longrightarrow> Base_doWork ex e now c s = Some (True, c, s)"
  using do_work_not_due [of now c ex e s] by simp

lemma pi_prepare_runs:
  "\<exists>p' x1 x2 x3 x4. PiPreProcess_execute fu t p d =
     Some (True, p', d\<lparr>mp_setpointChanged := x1, mp_deltaIdtError := x2, mp_deltaSetpoint := x3, mp_activeSetpoint := x4\<rparr>) \<and> base.truncate p' = base.truncate p"
  unfolding PiPreProcess_execute_def Let_def case_prod_beta by (intro exI conjI, rule refl) (simp add: base.defs)

text \<open>The first half of a cycle that is due: temperature, mode, controller.\<close>

lemma first_half:
  assumes dr: "ieee_double dr" and b: "Base_due now b" "m_started b"
    and i: "base.truncate i = b" and o: "base.truncate o' = b" and p: "base.truncate p = b" and c: "base.truncate c = b" "m_dt c = 2000"
    and d: "points_fit (m_prevOperatingMode o') (m_prevOperatingMode o') d" and auto: "m_inAuto o' \<Longrightarrow> m_prevOperatingMode o' \<in> {OM_eOFF, OM_eCOOLING, OM_eID_HEATING}"
    and cnt: "mp_value (mp_systemForcedOffRefCnt d) = reasons (m_critical i) (m_forcedOff o')"
  shows "\<exists>i1 o1 p1 c1 d1 d2 d3 d4. Base_doWork (IdtSelection_execute fu) True now i d = Some (True, i1, d1) \<and>
    Base_doWork (OperatingMode_execute fu) True now o' d1 = Some (True, o1, d2) \<and> Base_doWork (PiPreProcess_execute fu) True now p d2 = Some (True, p1, d3) \<and>
    Base_doWork (Pi_execute fu dr) True now c d3 = Some (True, c1, d4) \<and>
    {base.truncate i1, base.truncate o1, base.truncate p1, base.truncate c1} = {Base_mark now b} \<and> m_dt c1 = 2000 \<and> m_critical i1 = no_sensor d \<and>
    mode_done (Base_mark now b) (m_prevOperatingMode o') d (no_sensor d) o1 d2 \<and> points_fit (m_prevOperatingMode o1) (m_prevOperatingMode o') d4 \<and>
    mp_value (mp_vOutputs d4) = mp_value (mp_vOutputs d) \<and> mp_operatingModeChanged d4 = mp_operatingModeChanged d2 \<and>
    mp_systemForcedOffRefCnt d4 = mp_systemForcedOffRefCnt d2"
proof -
  let ?t = "m_timeMark (Base_mark now b)" and ?B = "Base_mark now b" and ?prev = "m_prevOperatingMode o'"
  note work = work_due [OF _ b] and tr = truncate_mark [of now]
  obtain x y z where 1: "IdtSelection_execute fu ?t (Base_mark now i) d =
      Some (True, (Base_mark now i)\<lparr>m_critical := no_sensor d\<rparr>, d\<lparr>mp_activeIdt := x, mp_idtAlarms := y, mp_systemForcedOffRefCnt := z\<rparr>)"
    "live z" "mp_value z = reasons (no_sensor d) (m_forcedOff o')"
    using idt_runs [of d "Base_mark now i" "m_forcedOff o'" fu ?t] d cnt by (auto simp: points_fit_def)
  define d1 where "d1 = d\<lparr>mp_activeIdt := x, mp_idtAlarms := y, mp_systemForcedOffRefCnt := z\<rparr>"
  have "mode_open ?B ?prev d (no_sensor d) (Base_mark now o') d1"
    using d 1(2,3) tr [of o'] o by (simp add: mode_open_def d1_def points_fit_def rest_points_def)
  moreover have "external_fits d1" using d by (simp add: points_fit_def external_fits_def d1_def)
  ultimately obtain o1 d2 where 2: "OperatingMode_execute fu ?t (Base_mark now o') d1 = Some (True, o1, d2)"
    "mode_done ?B ?prev d (no_sensor d) o1 d2" using mode_runs [of ?B ?prev d "no_sensor d" "Base_mark now o'" d1] auto by fastforce
  obtain p1 u1 u2 u3 u4 where 3: "PiPreProcess_execute fu ?t (Base_mark now p) d2 = Some (True, p1, d2\<lparr>mp_setpointChanged := u1,
      mp_deltaIdtError := u2, mp_deltaSetpoint := u3, mp_activeSetpoint := u4\<rparr>)" "base.truncate p1 = ?B"
    using pi_prepare_runs [of fu ?t "Base_mark now p" d2] tr [of p] p by metis
  define d3 where "d3 = d2\<lparr>mp_setpointChanged := u1, mp_deltaIdtError := u2, mp_deltaSetpoint := u3, mp_activeSetpoint := u4\<rparr>"
  have "config_in (m_prevOperatingMode o1) (mp_systemConfig d3)" "\<not> mp_locked (mp_pvOut d3)"
    using 2(2) d by (auto simp: mode_done_def mode_open_def d3_def rest_points_def points_fit_def live_def)
  then obtain c1 v1 v2 v3 where 4: "Pi_execute fu dr ?t (Base_mark now c) d3 = Some (True, c1, d3\<lparr>mp_pvOut := v1, mp_sumError := v2, mp_pvInhibited := v3\<rparr>)"
    "m_dt c1 = 2000" "base.truncate c1 = ?B" "live v1"
    using pi_runs [OF dr, of _ d3 "Base_mark now c" fu ?t] c tr [of c] by (metis mark_pi)
  define d4 where "d4 = d3\<lparr>mp_pvOut := v1, mp_sumError := v2, mp_pvInhibited := v3\<rparr>"
  have "points_fit (m_prevOperatingMode o1) ?prev d4 \<and> mp_value (mp_vOutputs d4) = mp_value (mp_vOutputs d)"
    using 2(2) d 4(4) by (auto simp: points_fit_def mode_done_def mode_open_def d4_def d3_def rest_points_def external_fits_def)
  moreover have "base.truncate o1 = ?B" "base.truncate ((Base_mark now i)\<lparr>m_critical := no_sensor d\<rparr>) = ?B"
    using 2(2) tr [of i] i by (simp_all add: mode_done_def mode_open_def base.defs)
  with 3(2) 4(3) have "{base.truncate ((Base_mark now i)\<lparr>m_critical := no_sensor d\<rparr>), base.truncate o1, base.truncate p1, base.truncate c1} = {?B}" by simp
  moreover have "m_critical ((Base_mark now i)\<lparr>m_critical := no_sensor d\<rparr>) = no_sensor d" by simp
  moreover have "mp_operatingModeChanged d4 = mp_operatingModeChanged d2" "mp_systemForcedOffRefCnt d4 = mp_systemForcedOffRefCnt d2"
    by (simp_all add: d4_def d3_def)
  moreover note 1(1) [folded d1_def] 2 3(1) [folded d3_def] 4(1) [folded d4_def] 4(2)
  ultimately show ?thesis
    unfolding work [OF i] work [OF o] work [OF p] work [OF c(1)]
    apply -
    by (rule exI [of _ "(Base_mark now i)\<lparr>m_critical := no_sensor d\<rparr>"], rule exI [of _ o1], rule exI [of _ p1], rule exI [of _ c1], rule exI [of _ d1], rule exI [of _ d2], rule exI [of _ d3], rule exI [of _ d4]) simp
qed

text \<open>The second half: equipment, fan, air filter, relays, and what follows them.\<close>

lemma second_half:
  assumes b: "Base_due now b" "m_started b"
    and c: "base.truncate c = b" and h: "base.truncate h = b" and x: "base.truncate x = b" and f: "base.truncate f = b" and r: "base.truncate r = b"
    and k: "base.truncate k = b" and q: "base.truncate q = b"
    and d: "points_fit m prev d" and m: "m \<in> {OM_eOFF, OM_eCOOLING, OM_eID_HEATING}" and ch: "m \<noteq> prev \<Longrightarrow> mp_value (mp_operatingModeChanged d)"
    and fit: "controls_fit a prev (mp_value (mp_vOutputs d)) c h x"
  shows "\<exists>c1 h1 x1 f1 r1 k1 q1 d1 d2 d3 d4 d5 d6 d7. Base_doWork (Control_run fu a) True now c d = Some (True, c1, d1) \<and>
    Base_doWork (Control_run fu a) True now h d1 = Some (True, h1, d2) \<and> Base_doWork (Control_run fu a) True now x d2 = Some (True, x1, d3) \<and>
    Base_doWork FanControl_execute True now f d3 = Some (True, f1, d4) \<and> Base_doWork AirFilterMonitor_execute True now r d4 = Some (True, r1, d5) \<and>
    Base_doWork HvacRelayOutputs_execute True now k d5 = Some (True, k1, d6) \<and> Base_doWork PostProcessing_execute True now q d6 = Some (True, q1, d7) \<and>
    {base.truncate c1, base.truncate h1, base.truncate x1, base.truncate f1, base.truncate r1, base.truncate k1, base.truncate q1} = {Base_mark now b} \<and>
    points_fit m m d7 \<and> controls_fit a m (mp_value (mp_vOutputs d7)) c1 h1 x1 \<and> relays_fit m (mp_value (mp_relayOutputs d7)) \<and>
    mp_systemForcedOffRefCnt d7 = mp_systemForcedOffRefCnt d"
proof -
  let ?t = "m_timeMark (Base_mark now b)" and ?B = "Base_mark now b"
  note work = work_due [OF _ b] and tr = truncate_mark [of now]
  have s: "system_fits (mp_value (mp_systemConfig d))" "currentOpMode (mp_value (mp_systemConfig d)) = m" and l: "inputs_live d"
    and o: "outputs_fit prev (mp_value (mp_vOutputs d))"
    using d m by (auto simp: points_fit_def config_in_def inputs_live_def external_fits_def live_def)
  have "controls_fit a prev (mp_value (mp_vOutputs d)) (Base_mark now c) (Base_mark now h) (Base_mark now x)" using fit by (simp add: controls_fit_def)
  from controls_run [OF l s m o this ch, of fu ?t ?t ?t, unfolded tr c h x] obtain c1 h1 x1 d1 d2 d3 where 1: "Control_run fu a ?t (Base_mark now c) d = Some (True, c1, d1)"
    "Control_run fu a ?t (Base_mark now h) d1 = Some (True, h1, d2)" "Control_run fu a ?t (Base_mark now x) d2 = Some (True, x1, d3)" "controls_changed d d3"
    "outputs_fit m (mp_value (mp_vOutputs d3))" "controls_fit a m (mp_value (mp_vOutputs d3)) c1 h1 x1"
    "base.truncate c1 = ?B" "base.truncate h1 = ?B" "base.truncate x1 = ?B" by blast
  obtain u1 u2 u3 where u: "d3 = d\<lparr>mp_vOutputs := u1, mp_cycleInfo := u2, mp_systemOn := u3\<rparr>" "live u1" "live u2" "live u3"
    using 1(4) by (auto simp: controls_changed_def)
  then have "live (mp_vOutputs d3)" by simp
  from fan_runs [OF this 1(5), of ?t "Base_mark now f"] obtain y where 2: "FanControl_execute ?t (Base_mark now f) d3 = Some (True, Base_mark now f, d3\<lparr>mp_vOutputs := y\<rparr>)"
    "live y" "outputs_fit m (mp_value y)" "indoorStages (mp_value y) = indoorStages (mp_value (mp_vOutputs d3))"
    "outdoorStages (mp_value y) = outdoorStages (mp_value (mp_vOutputs d3))" by blast
  define d4 where "d4 = d3\<lparr>mp_vOutputs := y\<rparr>"
  obtain r1 w1 w2 where 3: "AirFilterMonitor_execute ?t (Base_mark now r) d4 = Some (True, r1, d4\<lparr>mp_airFilterAlert := w1, mp_airFilterOperationTime := w2\<rparr>)"
    "base.truncate r1 = ?B" using air_filter_runs [of ?t "Base_mark now r" d4] tr [of r] r by metis
  define d5 where "d5 = d4\<lparr>mp_airFilterAlert := w1, mp_airFilterOperationTime := w2\<rparr>"
  have "live (mp_equipmentBeginTimes d5)" "\<not> mp_locked (mp_relayOutputs d5)" "outputs_fit m (mp_value (mp_vOutputs d5))"
    using d 2(3) by (simp_all add: d5_def d4_def u points_fit_def)
  from hvac_runs [OF this, of ?t "Base_mark now k"] obtain k1 z1 z2 where 4: "HvacRelayOutputs_execute ?t (Base_mark now k) d5 =
      Some (True, k1, d5\<lparr>mp_equipmentBeginTimes := z1, mp_relayOutputs := z2\<rparr>)" "base.truncate k1 = ?B" "live z1" "live z2" "relays_fit m (mp_value z2)"
    using tr [of k] k by metis
  define d6 where "d6 = d5\<lparr>mp_equipmentBeginTimes := z1, mp_relayOutputs := z2\<rparr>"
  define d7 where "d7 = d6\<lparr>mp_whiteBox := MpWhiteBox_resetPulseSettings (mp_whiteBox d6)\<rparr>"
  have "PostProcessing_execute ?t (Base_mark now q) d6 = Some (True, Base_mark now q, d7)" by (simp add: PostProcessing_execute_def d7_def)
  moreover have "points_fit m m d7" using d 2(2,3) 4(3,4) u(3,4)
    by (simp add: points_fit_def external_fits_def d7_def d6_def d5_def d4_def u(1) MpWhiteBox_resetPulseSettings_def live_def)
  moreover have "controls_fit a m (mp_value (mp_vOutputs d7)) c1 h1 x1"
    using 1(6) control_fit_own [where own = outdoorStages, OF 2(5)] control_fit_own [where own = indoorStages, OF 2(4)]
    by (simp add: controls_fit_def d7_def d6_def d5_def d4_def)
  moreover have "relays_fit m (mp_value (mp_relayOutputs d7))" "mp_systemForcedOffRefCnt d7 = mp_systemForcedOffRefCnt d"
    using 4(5) by (simp_all add: d7_def d6_def d5_def d4_def u(1))
  moreover have "{base.truncate c1, base.truncate h1, base.truncate x1, base.truncate (Base_mark now f), base.truncate r1, base.truncate k1, base.truncate (Base_mark now q)} = {?B}"
    using 1(7-9) 3(2) 4(2) tr [of f] tr [of q] f q by simp
  moreover note 1(1-3) 2(1) [folded d4_def] 3(1) [folded d5_def] 4(1) [folded d6_def]
  ultimately show ?thesis
    unfolding work [OF c] work [OF h] work [OF x] work [OF f] work [OF r] work [OF k] work [OF q]
    apply -
    by (rule exI [of _ c1], rule exI [of _ h1], rule exI [of _ x1], rule exI [of _ "Base_mark now f"], rule exI [of _ r1], rule exI [of _ k1], rule exI [of _ "Base_mark now q"], rule exI [of _ d1], rule exI [of _ d2], rule exI [of _ d3], rule exI [of _ d4], rule exI [of _ d5], rule exI [of _ d6], rule exI [of _ d7]) simp
qed

lemma same_clock:
  assumes "\<forall>x\<in>set (bases alg). x = b"
  shows "base.truncate (alg_idtSelection alg) = b" "base.truncate (alg_operatingMode alg) = b" "base.truncate (alg_piPreProcess alg) = b" "base.truncate (alg_pi alg) = b"
    "base.truncate (alg_controlCooling alg) = b" "base.truncate (alg_controlIdHeating alg) = b" "base.truncate (alg_controlOff alg) = b" "base.truncate (alg_fanControl alg) = b"
    "base.truncate (alg_airFilterMonitor alg) = b" "base.truncate (alg_hvacRelayOutputs alg) = b" "base.truncate (alg_postProcessor alg) = b"
  using assms by (simp_all add: bases_def)

text \<open>A cycle that is due runs all components.\<close>

lemma cycle_due:
  assumes dr: "ieee_double dr" and inv: "thermostat_inv a alg d" and due: "Base_due now (alg_idtSelection alg)"
  shows "\<exists>alg' d'. Algorithm_expired fu dr a now alg d = Some (alg', d') \<and> thermostat_inv a alg' d' \<and>
    m_critical (alg_idtSelection alg') = no_sensor d \<and> mode_of alg' \<noteq> OM_eUNKNOWN"
proof -
  define d0 where "d0 = d\<lparr>mp_resetPiPulse := mp_write False (mp_resetPiPulse d)\<rparr>"
  obtain b where b: "m_started b" "\<forall>x\<in>set (bases alg). x = b" using inv by (auto simp: thermostat_inv_def)
  note tr = same_clock [OF b(2)]
  have db: "Base_due now b" using due truncate_due [of now "alg_idtSelection alg"] tr(1) by simp
  have ns: "no_sensor d0 = no_sensor d" by (simp add: no_sensor_def d0_def)
  have p0: "points_fit (mode_of alg) (mode_of alg) d0" using inv by (auto simp: thermostat_inv_def points_fit_def external_fits_def d0_def live_def)
  have i: "mode_of alg \<in> {OM_eUNKNOWN, OM_eOFF, OM_eCOOLING, OM_eID_HEATING}" "m_inAuto (alg_operatingMode alg) \<longrightarrow> mode_of alg \<noteq> OM_eUNKNOWN"
    "mp_value (mp_systemForcedOffRefCnt d0) = reasons (m_critical (alg_idtSelection alg)) (m_forcedOff (alg_operatingMode alg))" "m_dt (alg_pi alg) = 2000"
    "controls_fit a (mode_of alg) (mp_value (mp_vOutputs d0)) (alg_controlCooling alg) (alg_controlIdHeating alg) (alg_controlOff alg)"
    using inv by (simp_all add: thermostat_inv_def d0_def)
  have auto: "m_inAuto (alg_operatingMode alg) \<Longrightarrow> mode_of alg \<in> {OM_eOFF, OM_eCOOLING, OM_eID_HEATING}" using i(1,2) by auto
  obtain i1 o1 p1 c1 d1 d2 d3 d4 where h1: "Base_doWork (IdtSelection_execute fu) True now (alg_idtSelection alg) d0 = Some (True, i1, d1)"
    "Base_doWork (OperatingMode_execute fu) True now (alg_operatingMode alg) d1 = Some (True, o1, d2)"
    "Base_doWork (PiPreProcess_execute fu) True now (alg_piPreProcess alg) d2 = Some (True, p1, d3)"
    "Base_doWork (Pi_execute fu dr) True now (alg_pi alg) d3 = Some (True, c1, d4)"
    "{base.truncate i1, base.truncate o1, base.truncate p1, base.truncate c1} = {Base_mark now b}" "m_dt c1 = 2000" "m_critical i1 = no_sensor d"
    "mode_done (Base_mark now b) (mode_of alg) d0 (no_sensor d) o1 d2" "points_fit (m_prevOperatingMode o1) (mode_of alg) d4"
    "mp_value (mp_vOutputs d4) = mp_value (mp_vOutputs d0)" "mp_operatingModeChanged d4 = mp_operatingModeChanged d2"
    "mp_systemForcedOffRefCnt d4 = mp_systemForcedOffRefCnt d2"
    using first_half [OF dr db b(1) tr(1-4) i(4) p0 auto i(3), of fu] ns by metis
  have o1: "m_prevOperatingMode o1 \<in> {OM_eOFF, OM_eCOOLING, OM_eID_HEATING}" "m_prevOperatingMode o1 \<noteq> mode_of alg \<Longrightarrow> mp_value (mp_operatingModeChanged d4)"
    using h1(8,11) by (simp_all add: mode_done_def)
  have cf: "controls_fit a (mode_of alg) (mp_value (mp_vOutputs d4)) (alg_controlCooling alg) (alg_controlIdHeating alg) (alg_controlOff alg)" using i(5) h1(10) by simp
  obtain cl ht x1 f1 r1 k1 q1 e1 e2 e3 e4 e5 e6 e7 where h2: "Base_doWork (Control_run fu a) True now (alg_controlCooling alg) d4 = Some (True, cl, e1)"
    "Base_doWork (Control_run fu a) True now (alg_controlIdHeating alg) e1 = Some (True, ht, e2)" "Base_doWork (Control_run fu a) True now (alg_controlOff alg) e2 = Some (True, x1, e3)"
    "Base_doWork FanControl_execute True now (alg_fanControl alg) e3 = Some (True, f1, e4)" "Base_doWork AirFilterMonitor_execute True now (alg_airFilterMonitor alg) e4 = Some (True, r1, e5)"
    "Base_doWork HvacRelayOutputs_execute True now (alg_hvacRelayOutputs alg) e5 = Some (True, k1, e6)" "Base_doWork PostProcessing_execute True now (alg_postProcessor alg) e6 = Some (True, q1, e7)"
    "{base.truncate cl, base.truncate ht, base.truncate x1, base.truncate f1, base.truncate r1, base.truncate k1, base.truncate q1} = {Base_mark now b}"
    "points_fit (m_prevOperatingMode o1) (m_prevOperatingMode o1) e7" "controls_fit a (m_prevOperatingMode o1) (mp_value (mp_vOutputs e7)) cl ht x1"
    "relays_fit (m_prevOperatingMode o1) (mp_value (mp_relayOutputs e7))" "mp_systemForcedOffRefCnt e7 = mp_systemForcedOffRefCnt d4"
    using second_half [OF db b(1) tr(5-11) h1(9) o1 cf, of fu] by auto
  define alg' where "alg' = \<lparr>alg_idtSelection = i1, alg_operatingMode = o1, alg_piPreProcess = p1, alg_pi = c1, alg_controlCooling = cl,
    alg_controlIdHeating = ht, alg_controlOff = x1, alg_fanControl = f1, alg_airFilterMonitor = r1, alg_hvacRelayOutputs = k1, alg_postProcessor = q1\<rparr>"
  have "Algorithm_expired fu dr a now alg d = Some (alg', e7)"
    unfolding Algorithm_expired_def Let_def d0_def [symmetric] by (simp add: h1(1-4) h2(1-7) alg'_def)
  moreover have "\<forall>x\<in>set (bases alg'). x = Base_mark now b" using h1(5) h2(8) by (auto simp: bases_def alg'_def)
  moreover have "mp_value (mp_systemForcedOffRefCnt e7) = reasons (no_sensor d) (m_forcedOff o1)" "mp_value (mp_systemForcedOffRefCnt e7) \<noteq> 0 \<longrightarrow> m_prevOperatingMode o1 = OM_eOFF"
    using h1(8,12) h2(12) by (simp_all add: mode_done_def mode_open_def)
  moreover have "m_started (Base_mark now b)" using b(1) by simp
  ultimately have "thermostat_inv a alg' e7" using o1(1) h2(9-11) h1(6,7) unfolding thermostat_inv_def by (intro conjI, blast) (auto simp: alg'_def)
  with \<open>Algorithm_expired fu dr a now alg d = Some (alg', e7)\<close> show ?thesis using h1(7) o1(1) by (auto simp: alg'_def)
qed

text \<open>A cycle that is not due only ends the pulse that resets the controller.\<close>

lemma cycle_not_due:
  assumes inv: "thermostat_inv a alg d" and due: "\<not> Base_due now (alg_idtSelection alg)"
  shows "Algorithm_expired fu dr a now alg d = Some (alg, d\<lparr>mp_resetPiPulse := mp_write False (mp_resetPiPulse d)\<rparr>)"
    and "thermostat_inv a alg (d\<lparr>mp_resetPiPulse := mp_write False (mp_resetPiPulse d)\<rparr>)"
proof -
  obtain b where b: "\<forall>x\<in>set (bases alg). x = b" using inv by (auto simp: thermostat_inv_def)
  have n: "\<not> Base_due now b" using due truncate_due [of now "alg_idtSelection alg"] same_clock(1) [OF b] by simp
  show "Algorithm_expired fu dr a now alg d = Some (alg, d\<lparr>mp_resetPiPulse := mp_write False (mp_resetPiPulse d)\<rparr>)"
    by (simp add: Algorithm_expired_def Let_def same_clock [OF b, THEN work_not_due, OF n])
  show "thermostat_inv a alg (d\<lparr>mp_resetPiPulse := mp_write False (mp_resetPiPulse d)\<rparr>)"
    using inv by (auto simp: thermostat_inv_def points_fit_def external_fits_def live_def)
qed

lemma cycle_returns:
  assumes "ieee_double dr" and "thermostat_inv a alg d"
  shows "\<exists>alg' d'. Algorithm_expired fu dr a now alg d = Some (alg', d') \<and> thermostat_inv a alg' d'"
  using cycle_due [OF assms] cycle_not_due [OF assms(2)] by (cases "Base_due now (alg_idtSelection alg)") blast+

section \<open>The start\<close>

lemma new_stage_off: "generateEvent fu i Fsm_evOffModeRequest p = Some p" if "i < length (the_stages p)" "stg p i = Basic cls j k"
  using that by (intro ignored) (simp_all add: idle_def Basic_def)

lemma new_stage_same: "Basic_reconfigure i j k p = p" if "i < length (the_stages p)" "stg p i = Basic cls j k"
proof -
  have "(stg p i)\<lparr>m_systemIndex := j, m_outIndex := k\<rparr> = stg p i" using that(2) by (simp add: Basic_def)
  then show ?thesis by (simp add: Basic_reconfigure_def upd_stg_def stg_def)
qed

lemma control_started:
  "Control_start fu nowhere ar i (Control_new t (Cooling 0) [Basic BasicCooling 0 0]) = Some (Base_start i (Control_new t (Cooling 0) [Basic BasicCooling 0 0]))"
  "Control_start fu nowhere ar i (Control_new t EquipmentOff []) = Some (Base_start i (Control_new t EquipmentOff []))"
  "Control_start fu nowhere ar i (Control_new t (IndoorHeating 0 1 2) [Basic (BasicIndoorHeat False) 0 0, Basic (BasicIndoorHeat False) 1 1, Basic (BasicIndoorHeat False) 2 2]) =
    Some (Base_start i (Control_new t (IndoorHeating 0 1 2) [Basic (BasicIndoorHeat False) 0 0, Basic (BasicIndoorHeat False) 1 1, Basic (BasicIndoorHeat False) 2 2]))"
  by (simp_all add: Control_start_def Control_new_def equipment_reset_def Cooling_reset_def IndoorHeating_reset_def Basic_requestModeToOff_def base.defs
      control_component.defs Base_start_def new_stage_off new_stage_same stg_def Let_def)

lemma points_initialised:
  assumes "created d" and "external_fits d"
  shows "points_fit OM_eUNKNOWN OM_eUNKNOWN (initializeModelPoints fu d)" and "mp_value (mp_systemForcedOffRefCnt (initializeModelPoints fu d)) = 0"
    and "relays_fit OM_eUNKNOWN (mp_value (mp_relayOutputs (initializeModelPoints fu d)))"
proof -
  have "live (RefCounter_reset 0 m) \<and> mp_value (RefCounter_reset 0 m) = 0" if "\<not> mp_locked m" for m
    using that by (simp add: live_def RefCounter_reset_def RefCounter_update_def Let_def)
  moreover have "config_in OM_eUNKNOWN (mp_invalidate x m)" if "\<not> mp_locked m" for x m using that by (simp add: config_in_def mp_invalidate_def)
  moreover have "outputs_fit OM_eUNKNOWN zero_outputs" "MpVirtualOutputs_validate zero_outputs = zero_outputs"
    by (simp_all add: outputs_fit_def zero_outputs_def MpVirtualOutputs_validate_def)
  ultimately show "points_fit OM_eUNKNOWN OM_eUNKNOWN (initializeModelPoints fu d)" "mp_value (mp_systemForcedOffRefCnt (initializeModelPoints fu d)) = 0"
    using assms by (simp_all add: initializeModelPoints_def points_fit_def external_fits_def created_def own_points_def MpVirtualOutputs_write_def
        MpHvacRelayOutputs_setSafeAllOff_def MpHvacRelayOutputs_write_def Float_write_def)
  show "relays_fit OM_eUNKNOWN (mp_value (mp_relayOutputs (initializeModelPoints fu d)))"
    using assms(1) by (simp add: initializeModelPoints_def created_def own_points_def MpHvacRelayOutputs_setSafeAllOff_def MpHvacRelayOutputs_write_def
        MpHvacRelayOutputs_validate_def relays_fit_def)
qed

lemma start_inv:
  assumes "ieee fu" and d: "created d" "external_fits d" and "Algorithm_startComponents fu nowhere ar (Algorithm_new t x) = Some alg"
  shows "thermostat_inv a alg (initializeModelPoints fu d)"
proof -
  let ?i = "\<lparr>m_seconds = 2, m_thousandths = 0\<rparr> :: precision"
  have alg: "alg = \<lparr>alg_idtSelection = IdtSelection_start ?i (alg_idtSelection (Algorithm_new t x)),
       alg_operatingMode = OperatingMode_start ?i (alg_operatingMode (Algorithm_new t x)), alg_piPreProcess = PiPreProcess_start ?i (alg_piPreProcess (Algorithm_new t x)),
       alg_pi = Pi_start fu ?i (alg_pi (Algorithm_new t x)), alg_controlCooling = Base_start ?i (alg_controlCooling (Algorithm_new t x)),
       alg_controlIdHeating = Base_start ?i (alg_controlIdHeating (Algorithm_new t x)), alg_controlOff = Base_start ?i (alg_controlOff (Algorithm_new t x)),
       alg_fanControl = Base_start ?i (alg_fanControl (Algorithm_new t x)), alg_airFilterMonitor = AirFilterMonitor_start ?i (alg_airFilterMonitor (Algorithm_new t x)),
       alg_hvacRelayOutputs = Base_start ?i (alg_hvacRelayOutputs (Algorithm_new t x)), alg_postProcessor = Base_start ?i (alg_postProcessor (Algorithm_new t x))\<rparr>"
    using assms(4) by (simp add: Algorithm_startComponents_def Algorithm_new_def control_started [simplified] Let_def)
  have "\<forall>n :: int. \<bar>n\<bar> \<le> 16777216 \<longrightarrow> fround fu (of_int n) = of_int n" using assms(1) by (simp add: ieee_def)
  from spec [OF this, of 2000] have "fround fu 2000 = 2000" by simp
  then have "m_dt (alg_pi alg) = 2000" by (simp add: alg Pi_start_def Base_start_def)
  moreover have "\<forall>y\<in>set (bases alg). y = Base_start ?i (Base_new t)"
    by (simp add: alg bases_def Algorithm_new_def IdtSelection_start_def OperatingMode_start_def PiPreProcess_start_def Pi_start_def AirFilterMonitor_start_def
        Base_start_def Base_new_def Control_new_def base.defs)
  then have "\<exists>b. m_started b \<and> (\<forall>y\<in>set (bases alg). y = b)" by (intro exI [of _ "Base_start ?i (Base_new t)"]) (simp add: Base_start_def)
  moreover have "controls_fit a OM_eUNKNOWN v (alg_controlCooling alg) (alg_controlIdHeating alg) (alg_controlOff alg)" for v
    using cooling_start heating_start
    by (simp add: controls_fit_def control_fit_def alg Algorithm_new_def Base_start_def Control_new_def base.defs control_component.defs)
  moreover have "mode_of alg = OM_eUNKNOWN" "\<not> m_inAuto (alg_operatingMode alg)" "\<not> m_critical (alg_idtSelection alg)" "\<not> m_forcedOff (alg_operatingMode alg)"
    by (simp_all add: alg Algorithm_new_def IdtSelection_start_def OperatingMode_start_def Base_start_def base.defs operating_mode_component.defs)
  ultimately show ?thesis using points_initialised [OF d, of fu] unfolding thermostat_inv_def by (simp add: reasons_def)
qed

lemma thermostat_reach_inv:
  assumes "thermostat_reach fu dr a alg d" and "ieee fu" and "ieee_double dr"
  shows "thermostat_inv a alg d"
  using assms(1)
proof (induction rule: thermostat_reach.induct)
  case (start d nowhere ar t x alg)
  then show ?case using start_inv assms(2) by blast
next
  case (outside alg d d')
  then have p: "own_points d' = own_points d" "external_fits d'" and i: "thermostat_inv a alg d" by auto
  then have "points_fit m prev d \<Longrightarrow> points_fit m prev d'" for m prev by (simp add: points_fit_def own_points_def)
  then show ?case using i p(1) by (simp add: thermostat_inv_def own_points_def)
next
  case (expired alg d now alg' d')
  then show ?case using cycle_returns [OF assms(3) expired.IH, of fu now] by auto
qed

section \<open>Properties\<close>

lemma mode_read: "thermostat_inv a alg d \<Longrightarrow> mode_of alg \<noteq> OM_eUNKNOWN \<Longrightarrow> map_option currentOpMode (mp_read (mp_systemConfig d)) = Some (mode_of alg)"
  by (simp add: thermostat_inv_def points_fit_def config_in_def mp_read_def)

lemma off_relays: "relays_fit OM_eOFF r \<Longrightarrow> \<not> relay_y1 r \<and> \<not> relay_y2 r \<and> \<not> relay_w1 r \<and> \<not> relay_w2 r \<and> \<not> relay_w3 r"
  by (auto simp: relays_fit_def)

text \<open>The sample thermostat, started.\<close>

definition sample_algorithm :: algorithm where
  "sample_algorithm = the (Algorithm_startComponents sample_unit 0 sample_args (Algorithm_new zero_time 0))"

definition sample_started :: model_points where
  "sample_started = initializeModelPoints sample_unit sample_points"

lemma started: "\<exists>alg. Algorithm_startComponents fu nowhere ar (Algorithm_new t x) = Some alg"
  by (simp add: Algorithm_startComponents_def Algorithm_new_def control_started [simplified] Let_def)

lemma sample_points_fit: "created sample_points" "external_fits sample_points"
  by (simp_all add: created_def external_fits_def own_points_def sample_points_def mp_new_def equipment_fits_def comfort_fits_def MpEquipmentConfig_validate_def
      MAX_FURNACE_HEATING_STAGES_def MAX_COMPRESSOR_COOLING_STAGES_def ComfortConfig_setDefaults_def)

lemma sample_reached: "thermostat_reach sample_unit id 7 sample_algorithm sample_started"
proof -
  have "Algorithm_startComponents sample_unit 0 sample_args (Algorithm_new zero_time 0) = Some sample_algorithm"
    using started [of sample_unit 0 sample_args zero_time 0] by (auto simp: sample_algorithm_def)
  then show ?thesis unfolding sample_started_def by (rule thermostat_reach.start [OF sample_points_fit])
qed

text \<open>The same with a failed sensor.\<close>

definition sample_blind :: model_points where
  "sample_blind = sample_started\<lparr>mp_primaryRawIdt := mp_invalidate 0 (mp_primaryRawIdt sample_started)\<rparr>"

lemma sample_blind_reached: "thermostat_reach sample_unit id 7 sample_algorithm sample_blind"
proof (rule thermostat_reach.outside [OF sample_reached])
  show "own_points sample_blind = own_points sample_started" by (simp add: sample_blind_def own_points_def)
  show "external_fits sample_blind" using sample_points_fit(2) by (simp add: sample_blind_def sample_started_def initializeModelPoints_def external_fits_def)
qed

lemma sample_due: "Base_due now (alg_idtSelection sample_algorithm)"
  by (simp add: sample_algorithm_def Algorithm_startComponents_def Algorithm_new_def control_started [simplified] Base_due_def IdtSelection_start_def Base_start_def Let_def)

text \<open>
  C1. The thermostat never fails: from the start on, whatever the sensors, the user and the configuration write into the other points (valid equipment and comfort settings, in any
  order between two cycles) and whenever the timer expires, every cycle of the algorithm returns; no component reports an error, and no assertion, array bound or division by zero of any
  component is met.
\<close>

theorem thermostat_never_fails:
  assumes "thermostat_reach fu dr a alg d" and "ieee fu" and "ieee_double dr"
  shows "\<exists>alg' d'. Algorithm_expired fu dr a now alg d = Some (alg', d')"
  using cycle_returns [OF assms(3) thermostat_reach_inv [OF assms]] by blast

theorem thermostat_never_fails_witness: "\<exists>alg' d'. Algorithm_expired sample_unit id 7 \<lparr>m_seconds = 100, m_thousandths = 0\<rparr> sample_algorithm sample_started = Some (alg', d')"
  by (rule thermostat_never_fails [OF sample_reached sample_ieee])

text \<open>
  C2. In every reachable state the compressor relay is on only while the published operating mode is cooling, the heating relays are on only while it is heating, so that the two are
  never on together; the second compressor relay stays off and the blower output is at most 100 percent.
\<close>

theorem relays_follow_mode:
  assumes "thermostat_reach fu dr a alg d" and "ieee fu" and "ieee_double dr" and "r = mp_value (mp_relayOutputs d)"
  shows "(relay_y1 r \<longrightarrow> map_option currentOpMode (mp_read (mp_systemConfig d)) = Some OM_eCOOLING) \<and>
    (relay_w1 r \<or> relay_w2 r \<or> relay_w3 r \<longrightarrow> map_option currentOpMode (mp_read (mp_systemConfig d)) = Some OM_eID_HEATING) \<and> \<not> (relay_y1 r \<and> (relay_w1 r \<or> relay_w2 r \<or> relay_w3 r)) \<and>
    \<not> relay_y2 r \<and> relay_bk r \<le> 100"
proof -
  note inv = thermostat_reach_inv [OF assms(1-3)]
  have "relays_fit (mode_of alg) r" using inv assms(4) by (simp add: thermostat_inv_def)
  then show ?thesis using mode_read [OF inv] by (auto simp: relays_fit_def)
qed

theorem relays_follow_mode_witness:
  "\<exists>alg' d'. Algorithm_expired sample_unit id 7 \<lparr>m_seconds = 100, m_thousandths = 0\<rparr> sample_algorithm sample_started = Some (alg', d') \<and>
    \<not> (relay_y1 (mp_value (mp_relayOutputs d')) \<and> relay_w1 (mp_value (mp_relayOutputs d'))) \<and> relay_bk (mp_value (mp_relayOutputs d')) \<le> 100"
proof -
  obtain alg' d' where c: "Algorithm_expired sample_unit id 7 \<lparr>m_seconds = 100, m_thousandths = 0\<rparr> sample_algorithm sample_started = Some (alg', d')"
    using cycle_returns [OF sample_ieee(2) thermostat_reach_inv [OF sample_reached sample_ieee]] by blast
  from relays_follow_mode [OF thermostat_reach.expired [OF sample_reached c] sample_ieee refl] show ?thesis using c by auto
qed

text \<open>
  C8. When neither sensor can be used, the next cycle that is due turns all conditioning off: the published mode is off, the count of the reasons to be off is not zero, and the
  relays of the compressor and of the heating stages are off.
\<close>

theorem no_sensor_no_conditioning:
  assumes "thermostat_reach fu dr a alg d" and "ieee fu" and "ieee_double dr"
    and "\<not> mp_valid (mp_primaryRawIdt d)" and "\<not> mp_valid (mp_secondaryRawIdt d) \<or> mp_read (mp_enabledSecondaryIdt d) \<noteq> Some True"
    and "Base_due now (alg_idtSelection alg)" and "Algorithm_expired fu dr a now alg d = Some (alg', d')" and "r = mp_value (mp_relayOutputs d')"
  shows "\<not> relay_y1 r \<and> \<not> relay_y2 r \<and> \<not> relay_w1 r \<and> \<not> relay_w2 r \<and> \<not> relay_w3 r \<and> map_option currentOpMode (mp_read (mp_systemConfig d')) = Some OM_eOFF \<and>
    mp_value (mp_systemForcedOffRefCnt d') > 0"
proof -
  have "no_sensor d" using assms(4,5) by (auto simp: no_sensor_def)
  then have i: "thermostat_inv a alg' d'" "m_critical (alg_idtSelection alg')"
    using cycle_due [OF assms(3) thermostat_reach_inv [OF assms(1-3)] assms(6), of fu] assms(7) by auto
  then have c: "mp_value (mp_systemForcedOffRefCnt d') \<noteq> 0" by (auto simp: thermostat_inv_def reasons_zero)
  then have m: "mode_of alg' = OM_eOFF" using i(1) by (simp add: thermostat_inv_def)
  then have "relays_fit OM_eOFF r" using i(1) assms(8) by (simp add: thermostat_inv_def)
  from off_relays [OF this] show ?thesis using mode_read [OF i(1)] m c by (simp add: word_gt_0)
qed

theorem no_sensor_no_conditioning_witness:
  "\<exists>alg' d'. Algorithm_expired sample_unit id 7 \<lparr>m_seconds = 100, m_thousandths = 0\<rparr> sample_algorithm sample_blind = Some (alg', d') \<and>
    \<not> relay_y1 (mp_value (mp_relayOutputs d')) \<and> \<not> relay_w1 (mp_value (mp_relayOutputs d')) \<and> map_option currentOpMode (mp_read (mp_systemConfig d')) = Some OM_eOFF"
proof -
  obtain alg' d' where c: "Algorithm_expired sample_unit id 7 \<lparr>m_seconds = 100, m_thousandths = 0\<rparr> sample_algorithm sample_blind = Some (alg', d')"
    using cycle_returns [OF sample_ieee(2) thermostat_reach_inv [OF sample_blind_reached sample_ieee]] by blast
  have "\<not> mp_valid (mp_primaryRawIdt sample_blind)" "mp_read (mp_enabledSecondaryIdt sample_blind) \<noteq> Some True"
    by (simp_all add: sample_blind_def mp_invalidate_def) (simp_all add: sample_started_def initializeModelPoints_def sample_points_def mp_new_def mp_read_def Float_write_def mp_write_by_def mp_updated_def)
  with no_sensor_no_conditioning [OF sample_blind_reached sample_ieee _ _ sample_due c refl] show ?thesis using c by auto
qed

text \<open>
  C9. The counter that forces the system off is the number of components that ask for it: the selection of the temperature when there is none, and the operating mode when no
  conditioning is possible.  No request is lost or counted twice, and while there is one the published operating mode is off.
\<close>

theorem forced_off_counts_reasons:
  assumes "thermostat_reach fu dr a alg d" and "ieee fu" and "ieee_double dr"
  shows "mp_read (mp_systemForcedOffRefCnt d) = Some (of_bool (m_critical (alg_idtSelection alg)) + of_bool (m_forcedOff (alg_operatingMode alg))) \<and>
    (m_critical (alg_idtSelection alg) \<or> m_forcedOff (alg_operatingMode alg) \<longrightarrow> map_option currentOpMode (mp_read (mp_systemConfig d)) = Some OM_eOFF)"
proof -
  note inv = thermostat_reach_inv [OF assms]
  have c: "mp_value (mp_systemForcedOffRefCnt d) = reasons (m_critical (alg_idtSelection alg)) (m_forcedOff (alg_operatingMode alg))"
    "mp_valid (mp_systemForcedOffRefCnt d)" "mp_value (mp_systemForcedOffRefCnt d) \<noteq> 0 \<longrightarrow> mode_of alg = OM_eOFF"
    using inv by (simp_all add: thermostat_inv_def points_fit_def live_def)
  have "map_option currentOpMode (mp_read (mp_systemConfig d)) = Some OM_eOFF" if "m_critical (alg_idtSelection alg) \<or> m_forcedOff (alg_operatingMode alg)"
  proof -
    have "mode_of alg = OM_eOFF" using c(1,3) that reasons_zero by metis
    then show ?thesis using mode_read [OF inv] by simp
  qed
  then show ?thesis using c(1,2) by (simp add: mp_read_def reasons_def)
qed

theorem forced_off_counts_reasons_witness:
  "mp_read (mp_systemForcedOffRefCnt sample_blind) = Some (of_bool (m_critical (alg_idtSelection sample_algorithm)) + of_bool (m_forcedOff (alg_operatingMode sample_algorithm)))"
  using forced_off_counts_reasons [OF sample_blind_reached sample_ieee] by simp

end
