(* ===== verification/Avl_Tree.thy ===== *)
theory Avl_Tree
  imports Prelude "HOL-Library.List_Lexorder"
begin

text \<open>
  The AVL tree of \<^verbatim>\<open>src/src/Cpl/Container/AvlTree_.cpp\<close> with the items of \<^verbatim>\<open>MapItem.h\<close> and the keys of
  \<^verbatim>\<open>Key.h\<close> and \<^verbatim>\<open>Key.cpp\<close>.  The heap maps the addresses of items to their fields; the tree object contains
  its root item as its only member, so both have the address \<open>tr\<close>.  The key of an item is the result
  of the virtual method \<^verbatim>\<open>getKey\<close>, which is application code: the record \<open>keys\<close> holds it with the method
  \<^verbatim>\<open>compareKey\<close> of the keys.
\<close>

section \<open>Keys (\<^verbatim>\<open>Key.h\<close>, \<^verbatim>\<open>Key.cpp\<close>)\<close>

text \<open>Both classes compare; the lengths of two keys of a plain type are the same.\<close>

definition KeyPlainType_compareKey :: "'n :: linorder \<Rightarrow> 'n \<Rightarrow> int" where
  "KeyPlainType_compareKey m_keyData other = (if m_keyData < other then - 1 else if m_keyData > other then 1 else 0)"

text \<open>
  \<^verbatim>\<open>strncmp\<close> of the C library, which stops at a null character; the size of its result is not specified,
  only its sign, so the library's choice is the parameter \<open>diff\<close>.
\<close>

fun strncmp :: "(u8 \<Rightarrow> u8 \<Rightarrow> int) \<Rightarrow> bytes \<Rightarrow> bytes \<Rightarrow> nat \<Rightarrow> int" where
  "strncmp diff (a # as) (b # bs) (Suc n) = (if a \<noteq> b then diff a b else if a = 0 then 0 else strncmp diff as bs n)"
| "strncmp diff _ _ _ = 0"

definition KeyStringBuffer_compare :: "(u8 \<Rightarrow> u8 \<Rightarrow> int) \<Rightarrow> bytes option \<Rightarrow> bytes option \<Rightarrow> int" where
  "KeyStringBuffer_compare diff myString otherString =
     (case otherString of Some other \<Rightarrow>
        (case myString of Some my \<Rightarrow>
           let cmpLen = (if length my > length other then length other else length my);
               comparision = strncmp diff my other cmpLen
           in if comparision = 0 \<and> length my \<noteq> length other then int (length my) - int (length other) else comparision
         | None \<Rightarrow> - 1)
      | None \<Rightarrow> - 1)"

text \<open>
  What a container relies on: the sign of a comparison is that of a linear order.  A narrow comparison also fits
  into 8 bits.
\<close>

locale key_order =
  fixes compareKey :: "'k :: linorder \<Rightarrow> 'k \<Rightarrow> int"
  assumes compare_less: "compareKey x y < 0 \<longleftrightarrow> x < y"
    and compare_greater: "compareKey x y > 0 \<longleftrightarrow> x > y"
begin

lemma compare_eq: "compareKey x y = 0 \<longleftrightarrow> x = y"
  using compare_less [of x y] compare_greater [of x y] by (metis less_irrefl linorder_cases)

end

locale narrow_key_order = key_order +
  assumes narrow: "- 128 \<le> compareKey x y \<and> compareKey x y \<le> 127"

interpretation plain: narrow_key_order KeyPlainType_compareKey
  by unfold_locales (auto simp: KeyPlainType_compareKey_def)

subsection \<open>Short names as keys\<close>

text \<open>
  The comparison of two strings is narrow when they have at most 127 ASCII characters, none of them the null
  character, and the C library's \<^verbatim>\<open>strncmp\<close> returns a number that fits into 8 bits for ASCII characters, as
  one does that returns the difference of the characters.
\<close>

typedef name_key = "{s :: bytes. length s \<le> 127 \<and> (\<forall>c\<in>set s. c \<noteq> 0 \<and> c < 0x80)}"
  morphisms key_bytes Name_key
  by (rule exI [of _ "[]"]) simp

instantiation name_key :: linorder
begin

definition less_eq_name_key :: "name_key \<Rightarrow> name_key \<Rightarrow> bool" where
  "less_eq_name_key x y \<longleftrightarrow> key_bytes x \<le> key_bytes y"

definition less_name_key :: "name_key \<Rightarrow> name_key \<Rightarrow> bool" where
  "less_name_key x y \<longleftrightarrow> key_bytes x < key_bytes y"

instance
  by standard (auto simp: less_eq_name_key_def less_name_key_def key_bytes_inject order.strict_iff_order)

end

abbreviation compareNames :: "(u8 \<Rightarrow> u8 \<Rightarrow> int) \<Rightarrow> name_key \<Rightarrow> name_key \<Rightarrow> int" where
  "compareNames diff x y \<equiv> KeyStringBuffer_compare diff (Some (key_bytes x)) (Some (key_bytes y))"

lemma string_compare_simps [simp]:
  "KeyStringBuffer_compare diff (Some []) (Some ys) = - int (length ys)"
  "KeyStringBuffer_compare diff (Some xs) (Some []) = int (length xs)"
  by (simp_all add: KeyStringBuffer_compare_def)

lemma string_compare_Cons:
  assumes "a \<noteq> 0" and "diff a b = 0 \<longrightarrow> a = b"
  shows "KeyStringBuffer_compare diff (Some (a # as)) (Some (b # bs)) =
    (if a \<noteq> b then diff a b else KeyStringBuffer_compare diff (Some as) (Some bs))"
  using assms by (auto simp: KeyStringBuffer_compare_def Let_def)

locale narrow_strncmp =
  fixes diff :: "u8 \<Rightarrow> u8 \<Rightarrow> int"
  assumes diff_less: "diff a b < 0 \<longleftrightarrow> a < b"
    and diff_greater: "diff a b > 0 \<longleftrightarrow> a > b"
    and diff_ascii: "a < 0x80 \<Longrightarrow> b < 0x80 \<Longrightarrow> - 128 \<le> diff a b \<and> diff a b \<le> 127"
begin

lemma diff_eq: "diff a b = 0 \<longleftrightarrow> a = b"
  using diff_less [of a b] diff_greater [of a b] by (metis less_irrefl linorder_cases)

lemma string_order:
  assumes "0 \<notin> set xs"
  shows "(KeyStringBuffer_compare diff (Some xs) (Some ys) < 0 \<longleftrightarrow> xs < ys) \<and>
    (KeyStringBuffer_compare diff (Some xs) (Some ys) > 0 \<longleftrightarrow> xs > ys)"
  using assms
proof (induction xs arbitrary: ys)
  case (Cons a as)
  then show ?case by (cases ys) (auto simp: string_compare_Cons diff_eq diff_less diff_greater)
next
  case Nil
  then show ?case by (cases ys) auto
qed

lemma string_narrow:
  assumes "length xs \<le> 127" "length ys \<le> 127" "\<forall>c\<in>set xs. c \<noteq> 0 \<and> c < 0x80" "\<forall>c\<in>set ys. c < 0x80"
  shows "- 128 \<le> KeyStringBuffer_compare diff (Some xs) (Some ys) \<and> KeyStringBuffer_compare diff (Some xs) (Some ys) \<le> 127"
  using assms
proof (induction xs arbitrary: ys)
  case (Cons a as)
  then show ?case using diff_ascii [of a] by (cases ys) (auto simp: string_compare_Cons diff_eq)
qed simp

end

sublocale narrow_strncmp \<subseteq> names: narrow_key_order "compareNames diff"
proof
  fix x y :: name_key
  have x: "length (key_bytes x) \<le> 127" "\<forall>c\<in>set (key_bytes x). c \<noteq> 0 \<and> c < 0x80"
    and y: "length (key_bytes y) \<le> 127" "\<forall>c\<in>set (key_bytes y). c < 0x80" using key_bytes [of x] key_bytes [of y] by auto
  show "compareNames diff x y < 0 \<longleftrightarrow> x < y" "compareNames diff x y > 0 \<longleftrightarrow> x > y"
    using string_order [of "key_bytes x" "key_bytes y"] x(2) by (auto simp: less_name_key_def)
  show "- 128 \<le> compareNames diff x y \<and> compareNames diff x y \<le> 127" by (rule string_narrow [OF x(1) y(1) x(2) y(2)])
qed

interpretation bytewise: narrow_strncmp "\<lambda>a b. uint a - uint b"
proof
  fix a b :: u8
  show "uint a - uint b < 0 \<longleftrightarrow> a < b" "uint a - uint b > 0 \<longleftrightarrow> a > b" by (auto simp: word_less_def)
  assume "a < 0x80" "b < 0x80"
  then have "uint a < 128" "uint b < 128" by (simp_all add: word_less_def)
  then show "- 128 \<le> uint a - uint b \<and> uint a - uint b \<le> 127" using uint_ge_0 [of a] uint_ge_0 [of b] by linarith
qed

section \<open>Items (\<^verbatim>\<open>MapItem.h\<close>)\<close>

datatype balance = eLEFT | eEVEN | eRIGHT

record map_item =
  m_left :: ptr
  m_right :: ptr
  m_parent :: ptr
  m_is_NOT_root :: bool
  m_balance :: balance
  m_inListPtr :: ptr

type_synonym map_heap = "addr \<Rightarrow> map_item option"

record 'k keys =
  getKey :: "addr \<Rightarrow> 'k"
  keyCompare :: "'k \<Rightarrow> 'k \<Rightarrow> int"

definition mnode :: "map_heap \<Rightarrow> ptr \<Rightarrow> map_item option" where
  "mnode h p = (case p of None \<Rightarrow> None | Some a \<Rightarrow> h a)"

definition mupd :: "map_heap \<Rightarrow> ptr \<Rightarrow> (map_item \<Rightarrow> map_item) \<Rightarrow> map_heap option" where
  "mupd h p f = (case p of None \<Rightarrow> None | Some a \<Rightarrow> (case h a of None \<Rightarrow> None | Some n \<Rightarrow> Some (h(a \<mapsto> f n))))"

definition setLeft :: "map_heap \<Rightarrow> ptr \<Rightarrow> ptr \<Rightarrow> map_heap option" where
  "setLeft h p q = mupd h p (\<lambda>n. n\<lparr>m_left := q\<rparr>)"

definition setRight :: "map_heap \<Rightarrow> ptr \<Rightarrow> ptr \<Rightarrow> map_heap option" where
  "setRight h p q = mupd h p (\<lambda>n. n\<lparr>m_right := q\<rparr>)"

definition setParent :: "map_heap \<Rightarrow> ptr \<Rightarrow> ptr \<Rightarrow> map_heap option" where
  "setParent h p q = mupd h p (\<lambda>n. n\<lparr>m_parent := q\<rparr>)"

definition setBalance :: "map_heap \<Rightarrow> ptr \<Rightarrow> balance \<Rightarrow> map_heap option" where
  "setBalance h p b = mupd h p (\<lambda>n. n\<lparr>m_balance := b\<rparr>)"

definition getLeft :: "map_heap \<Rightarrow> ptr \<Rightarrow> ptr option" where
  "getLeft h p = map_option m_left (mnode h p)"

definition getRight :: "map_heap \<Rightarrow> ptr \<Rightarrow> ptr option" where
  "getRight h p = map_option m_right (mnode h p)"

definition getParent :: "map_heap \<Rightarrow> ptr \<Rightarrow> ptr option" where
  "getParent h p = map_option m_parent (mnode h p)"

definition getBalance :: "map_heap \<Rightarrow> ptr \<Rightarrow> balance option" where
  "getBalance h p = map_option m_balance (mnode h p)"

definition MapItem_initialize :: "map_heap \<Rightarrow> ptr \<Rightarrow> ptr \<Rightarrow> map_heap option" where
  "MapItem_initialize h p parent =
     mupd h p (\<lambda>n. n\<lparr>m_parent := parent, m_is_NOT_root := True, m_balance := eEVEN, m_right := None, m_left := None\<rparr>)"

text \<open>The trap of \<^verbatim>\<open>Item.cpp\<close>: inserting an item that is in a container is a fatal error.\<close>

definition MapItem_insert :: "map_heap \<Rightarrow> ptr \<Rightarrow> ptr \<Rightarrow> map_heap option" where
  "MapItem_insert h p newContainerPtr = do {
     n \<leftarrow> mnode h p;
     c_assert (m_inListPtr n = None);
     mupd h p (\<lambda>n. n\<lparr>m_inListPtr := newContainerPtr\<rparr>)
   }"

definition MapItem_remove :: "map_heap \<Rightarrow> ptr \<Rightarrow> map_heap option" where
  "MapItem_remove h p = mupd h p (\<lambda>n. n\<lparr>m_inListPtr := None\<rparr>)"

text \<open>A constructed tree.\<close>

definition AvlTree :: "map_heap \<Rightarrow> addr \<Rightarrow> map_heap" where
  "AvlTree h tr = h(tr \<mapsto> \<lparr>m_left = None, m_right = None, m_parent = None, m_is_NOT_root = False, m_balance = eEVEN, m_inListPtr = None\<rparr>)"

section \<open>Rotations\<close>

definition rotateLeft :: "map_heap \<Rightarrow> ptr \<Rightarrow> (map_heap \<times> ptr) option" where
  "rotateLeft h nodePtr = do {
     tempPtr \<leftarrow> getRight h nodePtr;
     tl \<leftarrow> getLeft h tempPtr;
     h \<leftarrow> setRight h nodePtr tl;
     h \<leftarrow> setLeft h tempPtr nodePtr;
     par \<leftarrow> getParent h nodePtr;
     parLeft \<leftarrow> getLeft h par;
     h \<leftarrow> (if parLeft = nodePtr then setLeft h par tempPtr else setRight h par tempPtr);
     r \<leftarrow> getRight h nodePtr;
     h \<leftarrow> (if r \<noteq> None then setParent h r nodePtr else Some h);
     par \<leftarrow> getParent h nodePtr;
     h \<leftarrow> setParent h tempPtr par;
     h \<leftarrow> setParent h nodePtr tempPtr;
     Some (h, tempPtr)
   }"

definition rotateRight :: "map_heap \<Rightarrow> ptr \<Rightarrow> (map_heap \<times> ptr) option" where
  "rotateRight h nodePtr = do {
     tempPtr \<leftarrow> getLeft h nodePtr;
     tr \<leftarrow> getRight h tempPtr;
     h \<leftarrow> setLeft h nodePtr tr;
     h \<leftarrow> setRight h tempPtr nodePtr;
     par \<leftarrow> getParent h nodePtr;
     parRight \<leftarrow> getRight h par;
     h \<leftarrow> (if parRight = nodePtr then setRight h par tempPtr else setLeft h par tempPtr);
     l \<leftarrow> getLeft h nodePtr;
     h \<leftarrow> (if l \<noteq> None then setParent h l nodePtr else Some h);
     par \<leftarrow> getParent h nodePtr;
     h \<leftarrow> setParent h tempPtr par;
     h \<leftarrow> setParent h nodePtr tempPtr;
     Some (h, tempPtr)
   }"

section \<open>Restoring the balance after a growth\<close>

text \<open>\<open>grewLeft\<close> and \<open>grewRight\<close> return whether the subtree is taller; an even child, which cannot be, changes nothing.\<close>

definition grewLeft :: "map_heap \<Rightarrow> ptr \<Rightarrow> (map_heap \<times> bool) option" where
  "grewLeft h curPtr = do {
     childPtr \<leftarrow> getLeft h curPtr;
     cb \<leftarrow> getBalance h childPtr;
     case cb of
       eLEFT \<Rightarrow> do {
         h \<leftarrow> setBalance h curPtr eEVEN;
         h \<leftarrow> setBalance h childPtr eEVEN;
         (h, _) \<leftarrow> rotateRight h curPtr;
         Some (h, False)
       }
     | eEVEN \<Rightarrow> Some (h, True)
     | eRIGHT \<Rightarrow> do {
         grandChildPtr \<leftarrow> getRight h childPtr;
         gb \<leftarrow> getBalance h grandChildPtr;
         h \<leftarrow> setBalance h curPtr (case gb of eLEFT \<Rightarrow> eRIGHT | eEVEN \<Rightarrow> eEVEN | eRIGHT \<Rightarrow> eEVEN);
         h \<leftarrow> setBalance h childPtr (case gb of eLEFT \<Rightarrow> eEVEN | eEVEN \<Rightarrow> eEVEN | eRIGHT \<Rightarrow> eLEFT);
         h \<leftarrow> setBalance h grandChildPtr eEVEN;
         (h, newRootPtr) \<leftarrow> rotateLeft h childPtr;
         h \<leftarrow> setLeft h curPtr newRootPtr;
         h \<leftarrow> setParent h newRootPtr curPtr;
         (h, _) \<leftarrow> rotateRight h curPtr;
         Some (h, False)
       }
   }"

definition grewRight :: "map_heap \<Rightarrow> ptr \<Rightarrow> (map_heap \<times> bool) option" where
  "grewRight h curPtr = do {
     childPtr \<leftarrow> getRight h curPtr;
     cb \<leftarrow> getBalance h childPtr;
     case cb of
       eLEFT \<Rightarrow> do {
         grandChildPtr \<leftarrow> getLeft h childPtr;
         gb \<leftarrow> getBalance h grandChildPtr;
         h \<leftarrow> setBalance h curPtr (case gb of eLEFT \<Rightarrow> eEVEN | eEVEN \<Rightarrow> eEVEN | eRIGHT \<Rightarrow> eLEFT);
         h \<leftarrow> setBalance h childPtr (case gb of eLEFT \<Rightarrow> eRIGHT | eEVEN \<Rightarrow> eEVEN | eRIGHT \<Rightarrow> eEVEN);
         h \<leftarrow> setBalance h grandChildPtr eEVEN;
         (h, newRootPtr) \<leftarrow> rotateRight h childPtr;
         h \<leftarrow> setRight h curPtr newRootPtr;
         h \<leftarrow> setParent h newRootPtr curPtr;
         (h, _) \<leftarrow> rotateLeft h curPtr;
         Some (h, False)
       }
     | eEVEN \<Rightarrow> Some (h, True)
     | eRIGHT \<Rightarrow> do {
         h \<leftarrow> setBalance h curPtr eEVEN;
         h \<leftarrow> setBalance h childPtr eEVEN;
         (h, _) \<leftarrow> rotateLeft h curPtr;
         Some (h, False)
       }
   }"

section \<open>Restoring the balance after a removal\<close>

definition rightShorter :: "map_heap \<Rightarrow> ptr \<Rightarrow> (map_heap \<times> bool) option" where
  "rightShorter h parentPtr = do {
     leftPtr \<leftarrow> getLeft h parentPtr;
     lb \<leftarrow> getBalance h leftPtr;
     case lb of
       eLEFT \<Rightarrow> do {
         (h, _) \<leftarrow> rotateRight h parentPtr;
         h \<leftarrow> setBalance h parentPtr eEVEN;
         h \<leftarrow> setBalance h leftPtr eEVEN;
         Some (h, True)
       }
     | eEVEN \<Rightarrow> do {
         (h, _) \<leftarrow> rotateRight h parentPtr;
         h \<leftarrow> setBalance h parentPtr eLEFT;
         h \<leftarrow> setBalance h leftPtr eRIGHT;
         Some (h, False)
       }
     | eRIGHT \<Rightarrow> do {
         grandChildPtr \<leftarrow> getRight h leftPtr;
         gb \<leftarrow> getBalance h grandChildPtr;
         h \<leftarrow> setBalance h parentPtr (case gb of eLEFT \<Rightarrow> eRIGHT | eEVEN \<Rightarrow> eEVEN | eRIGHT \<Rightarrow> eEVEN);
         h \<leftarrow> setBalance h leftPtr (case gb of eLEFT \<Rightarrow> eEVEN | eEVEN \<Rightarrow> eEVEN | eRIGHT \<Rightarrow> eLEFT);
         h \<leftarrow> setBalance h grandChildPtr eEVEN;
         (h, _) \<leftarrow> rotateLeft h leftPtr;
         (h, _) \<leftarrow> rotateRight h parentPtr;
         Some (h, True)
       }
   }"

definition leftShorter :: "map_heap \<Rightarrow> ptr \<Rightarrow> (map_heap \<times> bool) option" where
  "leftShorter h parentPtr = do {
     right \<leftarrow> getRight h parentPtr;
     rb \<leftarrow> getBalance h right;
     case rb of
       eRIGHT \<Rightarrow> do {
         (h, _) \<leftarrow> rotateLeft h parentPtr;
         h \<leftarrow> setBalance h parentPtr eEVEN;
         h \<leftarrow> setBalance h right eEVEN;
         Some (h, True)
       }
     | eEVEN \<Rightarrow> do {
         (h, _) \<leftarrow> rotateLeft h parentPtr;
         h \<leftarrow> setBalance h parentPtr eRIGHT;
         h \<leftarrow> setBalance h right eLEFT;
         Some (h, False)
       }
     | eLEFT \<Rightarrow> do {
         grandChildPtr \<leftarrow> getLeft h right;
         gb \<leftarrow> getBalance h grandChildPtr;
         h \<leftarrow> setBalance h parentPtr (case gb of eRIGHT \<Rightarrow> eLEFT | eEVEN \<Rightarrow> eEVEN | eLEFT \<Rightarrow> eEVEN);
         h \<leftarrow> setBalance h right (case gb of eRIGHT \<Rightarrow> eEVEN | eEVEN \<Rightarrow> eEVEN | eLEFT \<Rightarrow> eRIGHT);
         h \<leftarrow> setBalance h grandChildPtr eEVEN;
         (h, _) \<leftarrow> rotateRight h right;
         (h, _) \<leftarrow> rotateLeft h parentPtr;
         Some (h, True)
       }
   }"

section \<open>Search\<close>

text \<open>\<open>int8\<close> is the conversion of an \<^verbatim>\<open>int\<close> to \<^verbatim>\<open>int8_t\<close>.\<close>

definition int8 :: "int \<Rightarrow> int" where
  "int8 x = (x + 128) mod 256 - 128"

partial_function (option) find_loop :: "'k keys \<Rightarrow> map_heap \<Rightarrow> 'k \<Rightarrow> ptr \<Rightarrow> ptr option" where
  "find_loop ks h key nodePtr =
     (case nodePtr of None \<Rightarrow> Some None
      | Some a \<Rightarrow> do {
          n \<leftarrow> h a;
          let comparison = int8 (keyCompare ks (getKey ks a) key);
          if comparison > 0 then find_loop ks h key (m_left n)
          else if comparison = 0 then Some (Some a)
          else find_loop ks h key (m_right n)
        })"

definition AvlTree_find :: "'k keys \<Rightarrow> map_heap \<Rightarrow> addr \<Rightarrow> 'k \<Rightarrow> ptr option" where
  "AvlTree_find ks h tr key = do {
     l \<leftarrow> getLeft h (Some tr);
     find_loop ks h key l
   }"

section \<open>Insertion\<close>

definition MAX_TREE_DEPTH :: nat where "MAX_TREE_DEPTH = 32"

text \<open>
  The loop that looks for the parent of the new node: \<open>None\<close> when the key is there, else the heap with the node
  linked, the parent, and the comparisons along the path in an array of fixed size.
\<close>

partial_function (option) insert_descend ::
    "'k keys \<Rightarrow> addr \<Rightarrow> map_heap \<Rightarrow> ptr \<Rightarrow> nat \<Rightarrow> int list \<Rightarrow> (map_heap \<times> ptr \<times> nat \<times> int list) option option" where
  "insert_descend ks newNode h curPtr depth comparisons = do {
     a \<leftarrow> curPtr;
     n \<leftarrow> h a;
     let result = keyCompare ks (getKey ks a) (getKey ks newNode);
     let comparison = (if result < 0 then - 1 else if result > 0 then 1 else 0);
     c_assert (depth < length comparisons);
     let comparisons = comparisons[depth := comparison];
     let depth = Suc depth;
     if comparison > 0 then
       if m_left n = None then do {
         h \<leftarrow> setLeft h curPtr (Some newNode);
         Some (Some (h, curPtr, depth, comparisons))
       }
       else insert_descend ks newNode h (m_left n) depth comparisons
     else if comparison < 0 then
       if m_right n = None then do {
         h \<leftarrow> setRight h curPtr (Some newNode);
         Some (Some (h, curPtr, depth, comparisons))
       }
       else insert_descend ks newNode h (m_right n) depth comparisons
     else Some None
   }"

text \<open>The loop that goes back and checks the balance.\<close>

fun insert_retrace :: "map_heap \<Rightarrow> ptr \<Rightarrow> nat \<Rightarrow> int list \<Rightarrow> bool \<Rightarrow> map_heap option" where
  "insert_retrace h curPtr 0 comparisons taller = None"
| "insert_retrace h curPtr (Suc depth) comparisons taller = do {
     nxtPtr \<leftarrow> getParent h curPtr;
     b \<leftarrow> getBalance h curPtr;
     (h, taller) \<leftarrow>
       (if comparisons ! depth > 0 then
          (case b of eLEFT \<Rightarrow> grewLeft h curPtr
           | eEVEN \<Rightarrow> do { h \<leftarrow> setBalance h curPtr eLEFT; Some (h, True) }
           | eRIGHT \<Rightarrow> do { h \<leftarrow> setBalance h curPtr eEVEN; Some (h, False) })
        else if comparisons ! depth < 0 then
          (case b of eLEFT \<Rightarrow> do { h \<leftarrow> setBalance h curPtr eEVEN; Some (h, False) }
           | eEVEN \<Rightarrow> do { h \<leftarrow> setBalance h curPtr eRIGHT; Some (h, True) }
           | eRIGHT \<Rightarrow> grewRight h curPtr)
        else Some (h, taller));
     if depth > 0 \<and> taller then insert_retrace h nxtPtr depth comparisons taller else Some h
   }"

definition AvlTree_insert :: "'k keys \<Rightarrow> map_heap \<Rightarrow> addr \<Rightarrow> addr \<Rightarrow> (bool \<times> map_heap) option" where
  "AvlTree_insert ks h tr newNode = do {
     curPtr \<leftarrow> getLeft h (Some tr);
     if curPtr = None then do {
       h \<leftarrow> MapItem_initialize h (Some newNode) (Some tr);
       h \<leftarrow> setLeft h (Some tr) (Some newNode);
       h \<leftarrow> MapItem_insert h (Some newNode) (Some tr);
       Some (True, h)
     }
     else do {
       r \<leftarrow> insert_descend ks newNode h curPtr 0 (replicate MAX_TREE_DEPTH 0);
       case r of None \<Rightarrow> Some (False, h)
       | Some (h, curPtr, depth, comparisons) \<Rightarrow> do {
           h \<leftarrow> MapItem_initialize h (Some newNode) curPtr;
           h \<leftarrow> insert_retrace h curPtr depth comparisons False;
           h \<leftarrow> MapItem_insert h (Some newNode) (Some tr);
           Some (True, h)
         }
     }
   }"

section \<open>Removal\<close>

text \<open>The loop of \<open>exchangeWithPrev\<close> to the largest node below, with whether it moved.\<close>

partial_function (option) prev_loop :: "map_heap \<Rightarrow> ptr \<Rightarrow> bool \<Rightarrow> (ptr \<times> bool) option" where
  "prev_loop h prevPtr is_child = do {
     r \<leftarrow> getRight h prevPtr;
     if r \<noteq> None then prev_loop h r False else Some (prevPtr, is_child)
   }"

definition exchangeWithPrev :: "map_heap \<Rightarrow> ptr \<Rightarrow> map_heap option" where
  "exchangeWithPrev h nodePtr = do {
     leftPtr \<leftarrow> getLeft h nodePtr;
     rightPtr \<leftarrow> getRight h nodePtr;
     parentPtr \<leftarrow> getParent h nodePtr;
     parLeft \<leftarrow> getLeft h parentPtr;
     let node_is_left = (parLeft = nodePtr);
     balance \<leftarrow> getBalance h nodePtr;
     (prevPtr, prev_is_child) \<leftarrow> prev_loop h leftPtr True;
     let prev_is_left = prev_is_child;
     pl \<leftarrow> getLeft h prevPtr;
     h \<leftarrow> setLeft h nodePtr pl;
     pr \<leftarrow> getRight h prevPtr;
     h \<leftarrow> setRight h nodePtr pr;
     pb \<leftarrow> getBalance h prevPtr;
     h \<leftarrow> setBalance h nodePtr pb;
     h \<leftarrow> (if \<not> prev_is_child then do { pp \<leftarrow> getParent h prevPtr; setParent h nodePtr pp } else setParent h nodePtr prevPtr);
     h \<leftarrow> (if prev_is_child then setLeft h prevPtr nodePtr else setLeft h prevPtr leftPtr);
     h \<leftarrow> setRight h prevPtr rightPtr;
     h \<leftarrow> setParent h prevPtr parentPtr;
     h \<leftarrow> setBalance h prevPtr balance;
     np \<leftarrow> getParent h nodePtr;
     h \<leftarrow> (if prev_is_left then setLeft h np nodePtr else setRight h np nodePtr);
     pp \<leftarrow> getParent h prevPtr;
     h \<leftarrow> (if node_is_left then setLeft h pp prevPtr else setRight h pp prevPtr);
     pl \<leftarrow> getLeft h prevPtr;
     h \<leftarrow> setParent h pl prevPtr;
     pr \<leftarrow> getRight h prevPtr;
     h \<leftarrow> (if pr \<noteq> None then setParent h pr prevPtr else Some h);
     nl \<leftarrow> getLeft h nodePtr;
     h \<leftarrow> (if nl \<noteq> None then setParent h nl nodePtr else Some h);
     nr \<leftarrow> getRight h nodePtr;
     if nr \<noteq> None then setParent h nr nodePtr else Some h
   }"

partial_function (option) remove_retrace :: "map_heap \<Rightarrow> ptr \<Rightarrow> bool \<Rightarrow> map_heap option" where
  "remove_retrace h parentPtr is_left = do {
     n \<leftarrow> mnode h parentPtr;
     if \<not> m_is_NOT_root n then Some h
     else do {
       let nxtPtr = m_parent n;
       nl \<leftarrow> getLeft h nxtPtr;
       let next_is_left = (parentPtr = nl);
       (h, shorter) \<leftarrow>
         (if is_left then
            (case m_balance n of eLEFT \<Rightarrow> do { h \<leftarrow> setBalance h parentPtr eEVEN; Some (h, True) }
             | eEVEN \<Rightarrow> do { h \<leftarrow> setBalance h parentPtr eRIGHT; Some (h, False) }
             | eRIGHT \<Rightarrow> leftShorter h parentPtr)
          else
            (case m_balance n of eLEFT \<Rightarrow> rightShorter h parentPtr
             | eEVEN \<Rightarrow> do { h \<leftarrow> setBalance h parentPtr eLEFT; Some (h, False) }
             | eRIGHT \<Rightarrow> do { h \<leftarrow> setBalance h parentPtr eEVEN; Some (h, True) }));
       if shorter then remove_retrace h nxtPtr next_is_left else Some h
     }
   }"

definition AvlTree_removeItem :: "map_heap \<Rightarrow> addr \<Rightarrow> addr \<Rightarrow> (ptr \<times> map_heap) option" where
  "AvlTree_removeItem h tr node = do {
     n \<leftarrow> h node;
     if m_inListPtr n \<noteq> Some tr then Some (None, h)
     else do {
       h \<leftarrow> (if m_left n \<noteq> None \<and> m_right n \<noteq> None then exchangeWithPrev h (Some node) else Some h);
       parentPtr \<leftarrow> getParent h (Some node);
       l \<leftarrow> getLeft h (Some node);
       r \<leftarrow> getRight h (Some node);
       let childPtr = (if l \<noteq> None then l else if r \<noteq> None then r else None);
       pl \<leftarrow> getLeft h parentPtr;
       let is_left = (Some node = pl);
       h \<leftarrow> (if is_left then setLeft h parentPtr childPtr else setRight h parentPtr childPtr);
       h \<leftarrow> (if childPtr \<noteq> None then setParent h childPtr parentPtr else Some h);
       h \<leftarrow> remove_retrace h parentPtr is_left;
       h \<leftarrow> MapItem_initialize h (Some node) None;
       h \<leftarrow> MapItem_remove h (Some node);
       Some (Some node, h)
     }
   }"

section \<open>Walking\<close>

partial_function (option) leftmost :: "map_heap \<Rightarrow> ptr \<Rightarrow> ptr option" where
  "leftmost h p = do {
     l \<leftarrow> getLeft h p;
     if l \<noteq> None then leftmost h l else Some p
   }"

partial_function (option) rightmost :: "map_heap \<Rightarrow> ptr \<Rightarrow> ptr option" where
  "rightmost h p = do {
     r \<leftarrow> getRight h p;
     if r \<noteq> None then rightmost h r else Some p
   }"

definition AvlTree_first :: "map_heap \<Rightarrow> addr \<Rightarrow> ptr option" where
  "AvlTree_first h tr = do {
     p \<leftarrow> getLeft h (Some tr);
     if p = None then Some None else leftmost h p
   }"

definition AvlTree_last :: "map_heap \<Rightarrow> addr \<Rightarrow> ptr option" where
  "AvlTree_last h tr = do {
     p \<leftarrow> getLeft h (Some tr);
     if p = None then Some None else rightmost h p
   }"

text \<open>The loops of \<open>next\<close> and \<open>previous\<close> that go up while the node is a right, or a left, child.\<close>

partial_function (option) climb_right :: "map_heap \<Rightarrow> ptr \<Rightarrow> ptr option" where
  "climb_right h parentPtr = do {
     n \<leftarrow> mnode h parentPtr;
     if m_is_NOT_root n then do {
       r \<leftarrow> getRight h (m_parent n);
       if r = parentPtr then climb_right h (m_parent n) else Some parentPtr
     }
     else Some parentPtr
   }"

partial_function (option) climb_left :: "map_heap \<Rightarrow> ptr \<Rightarrow> ptr option" where
  "climb_left h parentPtr = do {
     n \<leftarrow> mnode h parentPtr;
     if m_is_NOT_root n then do {
       l \<leftarrow> getLeft h (m_parent n);
       if l = parentPtr then climb_left h (m_parent n) else Some parentPtr
     }
     else Some parentPtr
   }"

definition AvlTree_next :: "map_heap \<Rightarrow> addr \<Rightarrow> ptr option" where
  "AvlTree_next h node = do {
     n \<leftarrow> h node;
     if m_right n \<noteq> None then leftmost h (m_right n)
     else do {
       p \<leftarrow> mnode h (m_parent n);
       if m_left p = Some node then Some (if m_is_NOT_root p then m_parent n else None)
       else if m_right p = Some node then do {
         parentPtr \<leftarrow> climb_right h (m_parent n);
         gp \<leftarrow> getParent h parentPtr;
         g \<leftarrow> mnode h gp;
         Some (if m_is_NOT_root g then gp else None)
       }
       else Some None
     }
   }"

definition AvlTree_previous :: "map_heap \<Rightarrow> addr \<Rightarrow> ptr option" where
  "AvlTree_previous h node = do {
     n \<leftarrow> h node;
     if m_left n \<noteq> None then rightmost h (m_left n)
     else do {
       p \<leftarrow> mnode h (m_parent n);
       if m_right p = Some node then Some (m_parent n)
       else if m_left p = Some node then do {
         parentPtr \<leftarrow> climb_left h (m_parent n);
         q \<leftarrow> mnode h parentPtr;
         if m_is_NOT_root q then do {
           g \<leftarrow> mnode h (m_parent q);
           Some (if m_is_NOT_root g then m_parent q else None)
         }
         else Some None
       }
       else Some None
     }
   }"

end
