(* ===== verification/Avl_Shape.thy ===== *)
theory Avl_Shape
  imports Avl_Tree
begin

text \<open>
  Trees of addresses with a focus: a subtree \<open>t\<close> and the path \<open>fs\<close> of frames from it up to the root.  \<open>whole h tr fs t\<close>
  says that the heap holds exactly this tree below the root item at \<open>tr\<close>, with its parent links and balances.
  The focus moves by rewriting, and each primitive of the code is a lemma at the focus.
\<close>

section \<open>Trees and paths\<close>

datatype avl = Tip | Bin avl addr balance avl

datatype dir = Lft | Rgt

datatype frame = Frame dir addr balance avl

fun opp :: "dir \<Rightarrow> dir" where
  "opp Lft = Rgt"
| "opp Rgt = Lft"

lemma opp_simps [simp]: "opp d \<noteq> d" "d \<noteq> opp d" "opp (opp d) = d" "(e \<noteq> d) = (e = opp d)"
  by (cases d; cases e; simp)+

text \<open>\<open>bin d x a b y\<close> has \<open>x\<close> on the side \<open>d\<close>; so one lemma serves an operation and its mirror image.\<close>

definition bin :: "dir \<Rightarrow> avl \<Rightarrow> addr \<Rightarrow> balance \<Rightarrow> avl \<Rightarrow> avl" where
  "bin d x a b y = (if d = Lft then Bin x a b y else Bin y a b x)"

lemma bin_simps [simp]: "bin Lft x a b y = Bin x a b y" "bin Rgt x a b y = Bin y a b x"
  by (simp_all add: bin_def)

lemma bin_opp: "bin (opp d) x a b y = bin d y a b x"
  by (cases d) simp_all

fun elems :: "avl \<Rightarrow> addr list" where
  "elems Tip = []"
| "elems (Bin l a b r) = elems l @ a # elems r"

fun peak :: "avl \<Rightarrow> ptr" where
  "peak Tip = None"
| "peak (Bin l a b r) = Some a"

lemma peak_None [simp]: "peak t = None \<longleftrightarrow> t = Tip"
  by (cases t) simp_all

lemma peak_Some [simp]: "peak t = Some a \<longleftrightarrow> (\<exists>l b r. t = Bin l a b r)"
  by (cases t) auto

lemma peak_bin [simp]: "peak (bin d x a b y) = Some a"
  by (cases d) simp_all

lemma elems_bin [simp]: "set (elems (bin d x a b y)) = insert a (set (elems x) \<union> set (elems y))"
  by (cases d) auto

lemma distinct_bin [simp]:
  "distinct (elems (bin d x a b y)) \<longleftrightarrow> distinct (elems x) \<and> distinct (elems y) \<and> a \<notin> set (elems x) \<union> set (elems y) \<and> set (elems x) \<inter> set (elems y) = {}"
  by (cases d) auto

lemma peak_mem: "peak t = Some a \<Longrightarrow> a \<in> set (elems t)"
  by auto

fun frame_elems :: "frame \<Rightarrow> addr list" where
  "frame_elems (Frame d a b s) = a # elems s"

definition path_elems :: "frame list \<Rightarrow> addr list" where
  "path_elems fs = concat (map frame_elems fs)"

lemma path_elems_simps [simp]:
  "path_elems [] = []" "path_elems (f # fs) = frame_elems f @ path_elems fs"
  "path_elems (fs @ gs) = path_elems fs @ path_elems gs"
  by (simp_all add: path_elems_def)

fun fill :: "avl \<Rightarrow> frame \<Rightarrow> avl" where
  "fill t (Frame d a b s) = bin d t a b s"

definition plug :: "avl \<Rightarrow> frame list \<Rightarrow> avl" where
  "plug t fs = fold (\<lambda>f t. fill t f) fs t"

lemma plug_simps [simp]:
  "plug t [] = t" "plug t (f # fs) = plug (fill t f) fs" "plug t (fs @ gs) = plug (plug t fs) gs"
  by (simp_all add: plug_def)

fun before_hole :: "frame list \<Rightarrow> addr list" where
  "before_hole [] = []"
| "before_hole (Frame Lft a b s # fs) = before_hole fs"
| "before_hole (Frame Rgt a b s # fs) = before_hole fs @ elems s @ [a]"

fun after_hole :: "frame list \<Rightarrow> addr list" where
  "after_hole [] = []"
| "after_hole (Frame Lft a b s # fs) = a # elems s @ after_hole fs"
| "after_hole (Frame Rgt a b s # fs) = after_hole fs"

lemma elems_plug: "elems (plug t fs) = before_hole fs @ elems t @ after_hole fs"
proof (induction fs arbitrary: t)
  case (Cons f fs)
  obtain d a b s where f: "f = Frame d a b s" by (cases f)
  show ?case by (cases d) (simp_all add: f Cons.IH)
qed simp

definition up :: "addr \<Rightarrow> frame list \<Rightarrow> addr" where
  "up tr fs = (case fs of [] \<Rightarrow> tr | Frame d a b s # _ \<Rightarrow> a)"

lemma up_simps [simp]: "up tr [] = tr" "up tr (Frame d a b s # fs) = a"
  by (simp_all add: up_def)

section \<open>Trees in the heap\<close>

definition child :: "dir \<Rightarrow> map_item \<Rightarrow> ptr" where
  "child d n = (if d = Lft then m_left n else m_right n)"

lemma child_simps [simp]: "child Lft n = m_left n" "child Rgt n = m_right n"
  by (simp_all add: child_def)

fun sub :: "map_heap \<Rightarrow> addr \<Rightarrow> avl \<Rightarrow> bool" where
  "sub h p Tip \<longleftrightarrow> True"
| "sub h p (Bin l a b r) \<longleftrightarrow>
     (\<exists>n. h a = Some n \<and> m_left n = peak l \<and> m_right n = peak r \<and> m_parent n = Some p \<and> m_is_NOT_root n \<and> m_balance n = b) \<and>
     sub h a l \<and> sub h a r"

fun path :: "map_heap \<Rightarrow> addr \<Rightarrow> frame list \<Rightarrow> ptr \<Rightarrow> bool" where
  "path h tr [] q \<longleftrightarrow> (\<exists>n. h tr = Some n \<and> m_left n = q \<and> m_right n = None \<and> \<not> m_is_NOT_root n)"
| "path h tr (Frame d a b s # fs) q \<longleftrightarrow>
     (\<exists>n. h a = Some n \<and> m_left n = (if d = Lft then q else peak s) \<and> m_right n = (if d = Lft then peak s else q) \<and>
        m_parent n = Some (up tr fs) \<and> m_is_NOT_root n \<and> m_balance n = b) \<and>
     sub h a s \<and> path h tr fs (Some a)"

definition whole :: "map_heap \<Rightarrow> addr \<Rightarrow> frame list \<Rightarrow> avl \<Rightarrow> bool" where
  "whole h tr fs t \<longleftrightarrow> path h tr fs (peak t) \<and> sub h (up tr fs) t \<and> distinct (tr # path_elems fs @ elems t)"

lemma sub_bin [simp]: "sub h p (bin d x a b y) \<longleftrightarrow>
    (\<exists>n. h a = Some n \<and> child d n = peak x \<and> child (opp d) n = peak y \<and> m_parent n = Some p \<and> m_is_NOT_root n \<and> m_balance n = b) \<and>
    sub h a x \<and> sub h a y"
  by (cases d) auto

lemma whole_frame [simp]: "whole h tr (Frame d a b s # fs) t \<longleftrightarrow> whole h tr fs (bin d t a b s)"
  by (cases d) (auto simp: whole_def)

lemma whole_plug: "whole h tr fs t \<longleftrightarrow> whole h tr [] (plug t fs)"
proof (induction fs arbitrary: t)
  case (Cons f fs)
  show ?case by (cases f) (simp add: Cons.IH [symmetric])
qed simp

lemma sub_cong: "(\<And>x. x \<in> set (elems t) \<Longrightarrow> h' x = h x) \<Longrightarrow> sub h' p t = sub h p t"
  by (induction t arbitrary: p) auto

lemma path_cong: "(\<And>x. x \<in> set (path_elems fs) \<or> x = tr \<Longrightarrow> h' x = h x) \<Longrightarrow> path h' tr fs q = path h tr fs q"
proof (induction fs arbitrary: q)
  case (Cons f fs)
  obtain d a b s where f: "f = Frame d a b s" by (cases f)
  have "sub h' a s = sub h a s" by (rule sub_cong) (use Cons.prems in \<open>simp add: f\<close>)
  moreover have "path h' tr fs (Some a) = path h tr fs (Some a)" by (rule Cons.IH) (use Cons.prems in auto)
  ultimately show ?case using Cons.prems [of a] by (simp add: f)
qed simp

lemma sub_upd [simp]: "a \<notin> set (elems t) \<Longrightarrow> sub (h(a := x)) p t = sub h p t"
  by (rule sub_cong) auto

lemma path_upd [simp]: "a \<notin> set (path_elems fs) \<Longrightarrow> a \<noteq> tr \<Longrightarrow> path (h(a := x)) tr fs q = path h tr fs q"
  by (rule path_cong) auto

section \<open>What the operations leave alone\<close>

text \<open>Outside \<open>A\<close> nothing changes, and nowhere the mark of the container.\<close>

definition relinks :: "addr set \<Rightarrow> map_heap \<Rightarrow> map_heap \<Rightarrow> bool" where
  "relinks A h h' \<longleftrightarrow> (\<forall>x. x \<notin> A \<longrightarrow> h' x = h x) \<and> (\<forall>x. map_option m_inListPtr (h' x) = map_option m_inListPtr (h x))"

lemma relinks_refl [simp]: "relinks A h h"
  by (simp add: relinks_def)

lemma relinks_trans: "relinks A h h1 \<Longrightarrow> relinks A h1 h2 \<Longrightarrow> relinks A h h2"
  by (simp add: relinks_def)

lemma relinks_upd: "h a = Some n \<Longrightarrow> a \<in> A \<Longrightarrow> m_inListPtr n' = m_inListPtr n \<Longrightarrow> relinks A h (h(a \<mapsto> n'))"
  by (simp add: relinks_def)

section \<open>Primitives at the focus\<close>

lemma deref_map [heap_simps]:
  "mnode h (Some a) = h a" "mnode h None = None"
  "mupd h None f = None" "h a = Some n \<Longrightarrow> mupd h (Some a) f = Some (h(a \<mapsto> f n))"
  by (simp_all add: mnode_def mupd_def)

definition getChild :: "dir \<Rightarrow> map_heap \<Rightarrow> ptr \<Rightarrow> ptr option" where
  "getChild d h p = (if d = Lft then getLeft h p else getRight h p)"

definition set_child :: "dir \<Rightarrow> ptr \<Rightarrow> map_item \<Rightarrow> map_item" where
  "set_child d q n = (if d = Lft then n\<lparr>m_left := q\<rparr> else n\<lparr>m_right := q\<rparr>)"

definition setChild :: "dir \<Rightarrow> map_heap \<Rightarrow> ptr \<Rightarrow> ptr \<Rightarrow> map_heap option" where
  "setChild d h p q = (if d = Lft then setLeft h p q else setRight h p q)"

lemma set_child_simps [simp]:
  "child d (set_child d q n) = q" "child (opp d) (set_child d q n) = child (opp d) n" "child d (set_child (opp d) q n) = child d n"
  "m_parent (set_child d q n) = m_parent n" "m_is_NOT_root (set_child d q n) = m_is_NOT_root n"
  "m_balance (set_child d q n) = m_balance n" "m_inListPtr (set_child d q n) = m_inListPtr n"
  "child d (n\<lparr>m_parent := p\<rparr>) = child d n" "child d (n\<lparr>m_balance := b\<rparr>) = child d n" "child d (n\<lparr>m_inListPtr := p\<rparr>) = child d n"
  by (cases d; simp add: set_child_def)+

lemmas map_prims = getLeft_def getRight_def getParent_def getBalance_def setLeft_def setRight_def setParent_def setBalance_def

lemma prims [heap_simps]:
  "getChild d h (Some a) = map_option (child d) (h a)" "getChild d h None = None"
  "getParent h (Some a) = map_option m_parent (h a)"
  "getBalance h (Some a) = map_option m_balance (h a)"
  "h a = Some n \<Longrightarrow> setChild d h (Some a) q = Some (h(a \<mapsto> set_child d q n))"
  "h a = Some n \<Longrightarrow> setParent h (Some a) q = Some (h(a \<mapsto> n\<lparr>m_parent := q\<rparr>))"
  "h a = Some n \<Longrightarrow> setBalance h (Some a) b = Some (h(a \<mapsto> n\<lparr>m_balance := b\<rparr>))"
  by (cases d; cases "h a"; simp add: getChild_def setChild_def set_child_def map_prims heap_simps)+

definition cells :: "addr \<Rightarrow> frame list \<Rightarrow> avl \<Rightarrow> addr set" where
  "cells tr fs t = insert tr (set (path_elems fs) \<union> set (elems t))"

lemma whole_node:
  assumes "whole h tr fs (bin d x a b y)"
  shows "\<exists>n. h a = Some n \<and> child d n = peak x \<and> child (opp d) n = peak y \<and> m_parent n = Some (up tr fs) \<and> m_is_NOT_root n \<and> m_balance n = b"
  using assms by (auto simp: whole_def)

lemma set_balance:
  assumes "whole h tr fs (bin d x a b y)"
  shows "\<exists>h'. setBalance h (Some a) b' = Some h' \<and> whole h' tr fs (bin d x a b' y) \<and> relinks (cells tr fs (bin d x a b y)) h h'"
proof -
  obtain n where n: "h a = Some n" using whole_node [OF assms] by blast
  have "whole (h(a \<mapsto> n\<lparr>m_balance := b'\<rparr>)) tr fs (bin d x a b' y)" using assms n by (auto simp: whole_def)
  then show ?thesis using n by (auto simp: heap_simps cells_def intro!: relinks_upd)
qed

section \<open>Rotations at the focus\<close>

definition hole_dir :: "frame list \<Rightarrow> dir" where
  "hole_dir fs = (case fs of [] \<Rightarrow> Lft | Frame d a b s # _ \<Rightarrow> d)"

lemma hole_dir_simps [simp]: "hole_dir [] = Lft" "hole_dir (Frame d a b s # fs) = d"
  by (simp_all add: hole_dir_def)

lemma path_frame: "path h tr (Frame d a b s # fs) q \<longleftrightarrow>
    (\<exists>n. h a = Some n \<and> child d n = q \<and> child (opp d) n = peak s \<and> m_parent n = Some (up tr fs) \<and> m_is_NOT_root n \<and> m_balance n = b) \<and>
     sub h a s \<and> path h tr fs (Some a)"
  by (cases d) auto

lemma path_hole:
  assumes "path h tr fs q" and "distinct (tr # path_elems fs)"
  shows "\<exists>n. h (up tr fs) = Some n \<and> (\<forall>q'. path (h(up tr fs \<mapsto> set_child (hole_dir fs) q' n)) tr fs q') \<and>
    (m_is_NOT_root n \<longleftrightarrow> fs \<noteq> []) \<and> child (hole_dir fs) n = q"
proof (cases fs)
  case Nil
  then show ?thesis using assms by (auto simp: set_child_def)
next
  case (Cons f gs)
  obtain d a b s where f: "f = Frame d a b s" by (cases f)
  show ?thesis using assms by (auto simp: Cons f path_frame simp del: path.simps(2))
qed

lemma peak_other:
  assumes "path h tr fs (Some a)" and "a \<notin> set (path_elems fs)" and "h (up tr fs) = Some n"
  shows "child d n = Some a \<longleftrightarrow> d = hole_dir fs"
proof (cases fs)
  case Nil
  then show ?thesis using assms by (cases d) simp_all
next
  case (Cons f gs)
  obtain e x b s where f: "f = Frame e x b s" by (cases f)
  have s: "peak s \<noteq> Some a" using assms(2) peak_mem [of s a] by (auto simp: Cons f)
  show ?thesis using assms(1,3) s by (cases "d = e") (simp_all add: Cons f path_frame del: path.simps(2) peak_Some)
qed

lemma up_cell: "up tr fs \<in> insert tr (set (path_elems fs))"
  by (cases fs) (auto simp: up_def split: frame.splits)

fun reparent :: "addr \<Rightarrow> avl \<Rightarrow> map_heap \<Rightarrow> map_heap" where
  "reparent p Tip h = h"
| "reparent p (Bin l a b r) h = h(a \<mapsto> (the (h a))\<lparr>m_parent := Some p\<rparr>)"

lemma sub_reparent: "sub h p t \<Longrightarrow> distinct (elems t) \<Longrightarrow> sub (reparent q t h) q t"
  by (cases t) auto

lemma reparent_other [simp]: "x \<notin> set (elems t) \<Longrightarrow> reparent p t h x = h x"
  by (cases t) auto

lemma set_parent_peak: "sub h p t \<Longrightarrow> (if peak t \<noteq> None then setParent h (peak t) (Some q) else Some h) = Some (reparent q t h)"
  by (cases t) (auto simp: heap_simps)

lemma relinks_reparent: "sub h p t \<Longrightarrow> set (elems t) \<subseteq> A \<Longrightarrow> relinks A h (reparent q t h)"
  by (cases t) (auto intro!: relinks_upd)

text \<open>Both rotations are one: \<open>turn Lft\<close> and \<open>turn Rgt\<close>.\<close>

definition turn :: "dir \<Rightarrow> map_heap \<Rightarrow> ptr \<Rightarrow> (map_heap \<times> ptr) option" where
  "turn d h nodePtr = do {
     tempPtr \<leftarrow> getChild (opp d) h nodePtr;
     tc \<leftarrow> getChild d h tempPtr;
     h \<leftarrow> setChild (opp d) h nodePtr tc;
     h \<leftarrow> setChild d h tempPtr nodePtr;
     par \<leftarrow> getParent h nodePtr;
     pc \<leftarrow> getChild d h par;
     h \<leftarrow> (if pc = nodePtr then setChild d h par tempPtr else setChild (opp d) h par tempPtr);
     r \<leftarrow> getChild (opp d) h nodePtr;
     h \<leftarrow> (if r \<noteq> None then setParent h r nodePtr else Some h);
     par \<leftarrow> getParent h nodePtr;
     h \<leftarrow> setParent h tempPtr par;
     h \<leftarrow> setParent h nodePtr tempPtr;
     Some (h, tempPtr)
   }"

lemma turn_eq: "rotateLeft = turn Lft" "rotateRight = turn Rgt"
  by (simp_all add: fun_eq_iff turn_def rotateLeft_def rotateRight_def getChild_def setChild_def cong: if_cong)

lemma turn_focus:
  assumes w: "whole h tr fs (bin d x a b (bin d y c e z))"
  shows "\<exists>h'. turn d h (Some a) = Some (h', Some c) \<and> whole h' tr fs (bin d (bin d x a b y) c e z) \<and>
    relinks (cells tr fs (bin d x a b (bin d y c e z))) h h'"
proof -
  let ?A = "cells tr fs (bin d x a b (bin d y c e z))"
  let ?u = "up tr fs"
  have p: "path h tr fs (Some a)" and dis: "distinct (tr # path_elems fs @ elems (bin d x a b (bin d y c e z)))"
    and s: "sub h a x" "sub h c y" "sub h c z" using w by (auto simp: whole_def)
  obtain na where na: "h a = Some na" "child d na = peak x" "child (opp d) na = Some c" "m_parent na = Some ?u" "m_is_NOT_root na" "m_balance na = b"
    using w by (auto simp: whole_def)
  obtain nc where nc: "h c = Some nc" "child d nc = peak y" "child (opp d) nc = peak z" "m_parent nc = Some a" "m_is_NOT_root nc" "m_balance nc = e"
    using w by (auto simp: whole_def)
  obtain nu where nu: "h ?u = Some nu" "\<And>q'. path (h(?u \<mapsto> set_child (hole_dir fs) q' nu)) tr fs q'"
    using path_hole [OF p] dis by auto
  have hole: "child d nu = Some a \<longleftrightarrow> d = hole_dir fs" by (rule peak_other [OF p _ nu(1)]) (use dis in simp)
  have neq: "a \<noteq> c" "c \<noteq> a" "?u \<noteq> a" "?u \<noteq> c" "?u \<notin> set (elems y)" "a \<notin> set (elems y)" "c \<notin> set (elems y)"
    using dis up_cell [of tr fs] by auto
  define h1 where "h1 = h(a \<mapsto> set_child (opp d) (peak y) na, c \<mapsto> set_child d (Some a) nc, ?u \<mapsto> set_child (hole_dir fs) (Some c) nu)"
  define h2 where "h2 = reparent a y h1"
  define h3 where "h3 = h2(c \<mapsto> (set_child d (Some a) nc)\<lparr>m_parent := Some ?u\<rparr>, a \<mapsto> (set_child (opp d) (peak y) na)\<lparr>m_parent := Some c\<rparr>)"
  have h1s: "sub h1 c y" using s(2) neq by (simp add: h1_def)
  have h2v: "h2 a = Some (set_child (opp d) (peak y) na)" "h2 c = Some (set_child d (Some a) nc)"
    using neq by (simp_all add: h2_def h1_def)
  have keep: "h3 v = h v" if "v \<noteq> a" "v \<noteq> c" "v \<noteq> ?u" "v \<notin> set (elems y)" for v using that by (simp add: h3_def h2_def h1_def)
  have run: "turn d h (Some a) = Some (h3, Some c)"
  proof -
    let ?h = "h(a \<mapsto> set_child (opp d) (peak y) na, c \<mapsto> set_child d (Some a) nc)"
    have "(if child d nu = Some a then setChild d ?h (Some ?u) (Some c) else setChild (opp d) ?h (Some ?u) (Some c)) = Some h1"
      using neq nu(1) hole by (cases "d = hole_dir fs") (auto simp: h1_def heap_simps)
    moreover have "h1 a = Some (set_child (opp d) (peak y) na)" using neq by (simp add: h1_def)
    moreover have "(if peak y \<noteq> None then setParent h1 (peak y) (Some a) else Some h1) = Some h2"
      unfolding h2_def by (rule set_parent_peak [OF h1s])
    ultimately show ?thesis
      using na nc neq nu(1) h2v by (simp add: turn_def heap_simps h3_def del: peak_None split del: if_split)
  qed
  have pth: "path h3 tr fs (Some c)"
  proof -
    have "path h3 tr fs (Some c) = path (h(?u \<mapsto> set_child (hole_dir fs) (Some c) nu)) tr fs (Some c)"
    proof (rule path_cong)
      fix v assume "v \<in> set (path_elems fs) \<or> v = tr"
      then have "v \<noteq> a" "v \<noteq> c" "v \<notin> set (elems y)" using dis by auto
      then show "h3 v = (h(?u \<mapsto> set_child (hole_dir fs) (Some c) nu)) v" by (simp add: h3_def h2_def h1_def)
    qed
    then show ?thesis using nu(2) by simp
  qed
  have subs: "sub h3 a x" "sub h3 a y" "sub h3 c z"
  proof -
    have other: "h3 v = h v" if "v \<in> set (elems x) \<union> set (elems z)" for v using that dis up_cell [of tr fs] by (intro keep) auto
    show "sub h3 a x" using s(1) other by (subst sub_cong [of x h3 h]) auto
    show "sub h3 c z" using s(3) other by (subst sub_cong [of z h3 h]) auto
    have "sub h2 a y" unfolding h2_def by (rule sub_reparent [OF h1s]) (use dis in simp)
    then show "sub h3 a y" using neq by (simp add: h3_def)
  qed
  have "h3 a = Some ((set_child (opp d) (peak y) na)\<lparr>m_parent := Some c\<rparr>)" "h3 c = Some ((set_child d (Some a) nc)\<lparr>m_parent := Some ?u\<rparr>)"
    using neq(1) by (simp_all add: h3_def)
  then have "whole h3 tr fs (bin d (bin d x a b y) c e z)"
    using pth subs dis na nc by (auto simp: whole_def)
  moreover have "relinks ?A h h3"
  proof -
    have "relinks ?A h h1" using na(1) nc(1) nu(1) neq up_cell [of tr fs]
      by (auto simp: relinks_def h1_def cells_def)
    moreover have "relinks ?A h1 h2" unfolding h2_def by (rule relinks_reparent [OF h1s]) (auto simp: cells_def)
    moreover have "relinks ?A h2 h3" using h2v neq(1) by (auto simp: relinks_def h3_def cells_def)
    ultimately show ?thesis using relinks_trans by blast
  qed
  ultimately show ?thesis using run by blast
qed

end
