(* ===== verification/Avl_Balance.thy ===== *)
theory Avl_Balance
  imports Avl_Shape
begin

text \<open>
  Rebalancing at the focus: what \<open>grewLeft\<close>, \<open>grewRight\<close>, \<open>leftShorter\<close> and \<open>rightShorter\<close> do to the tree, one lemma for
  an operation and its mirror image; then the height invariant, and that both retracing loops restore it.
\<close>

section \<open>The four operations as two\<close>

definition heavy :: "dir \<Rightarrow> balance" where
  "heavy d = (if d = Lft then eLEFT else eRIGHT)"

lemma heavy_simps [simp]:
  "heavy Lft = eLEFT" "heavy Rgt = eRIGHT" "heavy d \<noteq> eEVEN" "eEVEN \<noteq> heavy d" "heavy d \<noteq> heavy (opp d)" "heavy (opp d) \<noteq> heavy d"
  by (cases d; simp add: heavy_def)+

lemma balance_cases: obtains "b = heavy d" | "b = eEVEN" | "b = heavy (opp d)"
  by (cases b; cases d) auto

definition grew :: "dir \<Rightarrow> map_heap \<Rightarrow> ptr \<Rightarrow> (map_heap \<times> bool) option" where
  "grew d h curPtr = do {
     childPtr \<leftarrow> getChild d h curPtr;
     cb \<leftarrow> getBalance h childPtr;
     if cb = heavy d then do {
       h \<leftarrow> setBalance h curPtr eEVEN;
       h \<leftarrow> setBalance h childPtr eEVEN;
       (h, _) \<leftarrow> turn (opp d) h curPtr;
       Some (h, False)
     }
     else if cb = eEVEN then Some (h, True)
     else do {
       grandChildPtr \<leftarrow> getChild (opp d) h childPtr;
       gb \<leftarrow> getBalance h grandChildPtr;
       h \<leftarrow> setBalance h curPtr (if gb = heavy d then heavy (opp d) else eEVEN);
       h \<leftarrow> setBalance h childPtr (if gb = heavy (opp d) then heavy d else eEVEN);
       h \<leftarrow> setBalance h grandChildPtr eEVEN;
       (h, newRootPtr) \<leftarrow> turn d h childPtr;
       h \<leftarrow> setChild d h curPtr newRootPtr;
       h \<leftarrow> setParent h newRootPtr curPtr;
       (h, _) \<leftarrow> turn (opp d) h curPtr;
       Some (h, False)
     }
   }"

definition shortened :: "dir \<Rightarrow> map_heap \<Rightarrow> ptr \<Rightarrow> (map_heap \<times> bool) option" where
  "shortened d h parentPtr = do {
     sib \<leftarrow> getChild (opp d) h parentPtr;
     sb \<leftarrow> getBalance h sib;
     if sb = heavy (opp d) then do {
       (h, _) \<leftarrow> turn d h parentPtr;
       h \<leftarrow> setBalance h parentPtr eEVEN;
       h \<leftarrow> setBalance h sib eEVEN;
       Some (h, True)
     }
     else if sb = eEVEN then do {
       (h, _) \<leftarrow> turn d h parentPtr;
       h \<leftarrow> setBalance h parentPtr (heavy (opp d));
       h \<leftarrow> setBalance h sib (heavy d);
       Some (h, False)
     }
     else do {
       grandChildPtr \<leftarrow> getChild d h sib;
       gb \<leftarrow> getBalance h grandChildPtr;
       h \<leftarrow> setBalance h parentPtr (if gb = heavy (opp d) then heavy d else eEVEN);
       h \<leftarrow> setBalance h sib (if gb = heavy d then heavy (opp d) else eEVEN);
       h \<leftarrow> setBalance h grandChildPtr eEVEN;
       (h, _) \<leftarrow> turn (opp d) h sib;
       (h, _) \<leftarrow> turn d h parentPtr;
       Some (h, True)
     }
   }"

lemma grew_eq: "grewLeft = grew Lft" "grewRight = grew Rgt"
  unfolding fun_eq_iff grew_def grewLeft_def grewRight_def turn_eq getChild_def setChild_def
  by (intro allI bind_option_cong refl; auto split: balance.split cong: if_cong)+

lemma shortened_eq: "leftShorter = shortened Lft" "rightShorter = shortened Rgt"
  unfolding fun_eq_iff shortened_def leftShorter_def rightShorter_def turn_eq getChild_def setChild_def
  by (intro allI bind_option_cong refl; auto split: balance.split cong: if_cong)+

section \<open>At the focus\<close>

lemma cells_frame [simp]: "cells tr (Frame d a b s # fs) t = cells tr fs (bin d t a b s)"
  by (auto simp: cells_def)

lemma cells_balance [simp]:
  "cells tr fs (bin d x a b y) = insert tr (set (path_elems fs) \<union> insert a (set (elems x) \<union> set (elems y)))"
  by (auto simp: cells_def)

lemma node_fields:
  assumes "whole h tr fs (bin d x a b y)"
  shows "getChild d h (Some a) = Some (peak x)" "getChild (opp d) h (Some a) = Some (peak y)"
    "getParent h (Some a) = Some (Some (up tr fs))" "getBalance h (Some a) = Some b"
  using whole_node [OF assms] by (auto simp: heap_simps)

lemma relinks_mono: "relinks A h h' \<Longrightarrow> A \<subseteq> B \<Longrightarrow> relinks B h h'"
  unfolding relinks_def by blast

lemma balance_step:
  assumes "whole h tr fs (bin d x a b y)" and "relinks A h0 h" and "cells tr fs (bin d x a b y) \<subseteq> A"
  obtains h' where "setBalance h (Some a) b' = Some h'" "whole h' tr fs (bin d x a b' y)" "relinks A h0 h'"
proof -
  obtain h' where h': "setBalance h (Some a) b' = Some h'" "whole h' tr fs (bin d x a b' y)" "relinks (cells tr fs (bin d x a b y)) h h'"
    using set_balance [OF assms(1)] by blast
  show ?thesis by (rule that [OF h'(1,2) relinks_trans [OF assms(2) relinks_mono [OF h'(3) assms(3)]]])
qed

lemma turn_step:
  assumes "whole h tr fs (bin d x a b (bin d y c e z))" and "relinks A h0 h" and "cells tr fs (bin d x a b (bin d y c e z)) \<subseteq> A"
  obtains h' where "turn d h (Some a) = Some (h', Some c)" "whole h' tr fs (bin d (bin d x a b y) c e z)" "relinks A h0 h'"
proof -
  obtain h' where h': "turn d h (Some a) = Some (h', Some c)" "whole h' tr fs (bin d (bin d x a b y) c e z)"
    "relinks (cells tr fs (bin d x a b (bin d y c e z))) h h'"
    using turn_focus [OF assms(1)] by blast
  show ?thesis by (rule that [OF h'(1,2) relinks_trans [OF assms(2) relinks_mono [OF h'(3) assms(3)]]])
qed

lemma grew_single:
  assumes w: "whole h tr fs (bin d (bin d x c (heavy d) y) a b z)"
  shows "\<exists>h'. grew d h (Some a) = Some (h', False) \<and> whole h' tr fs (bin d x c eEVEN (bin d y a eEVEN z)) \<and>
    relinks (cells tr fs (bin d (bin d x c (heavy d) y) a b z)) h h'"
proof -
  let ?A = "cells tr fs (bin d (bin d x c (heavy d) y) a b z)"
  have wc: "whole h tr (Frame d a b z # fs) (bin d x c (heavy d) y)" using w by simp
  obtain h1 where h1: "setBalance h (Some a) eEVEN = Some h1" "whole h1 tr fs (bin d (bin d x c (heavy d) y) a eEVEN z)" "relinks ?A h h1"
    by (rule balance_step [where A = ?A, OF w relinks_refl]) (blast | auto)+
  then have "whole h1 tr (Frame d a eEVEN z # fs) (bin d x c (heavy d) y)" by simp
  then obtain h2 where h2: "setBalance h1 (Some c) eEVEN = Some h2" "whole h2 tr (Frame d a eEVEN z # fs) (bin d x c eEVEN y)" "relinks ?A h h2"
    by (rule balance_step [where A = ?A, OF _ h1(3)]) (blast | auto)+
  then have "whole h2 tr fs (bin (opp d) z a eEVEN (bin (opp d) y c eEVEN x))" by (simp add: bin_opp)
  then obtain h3 where h3: "turn (opp d) h2 (Some a) = Some (h3, Some c)" "whole h3 tr fs (bin (opp d) (bin (opp d) z a eEVEN y) c eEVEN x)" "relinks ?A h h3"
    by (rule turn_step [where A = ?A, OF _ h2(3)]) (blast | auto)+
  have "grew d h (Some a) = Some (h3, False)"
    using node_fields [OF w] node_fields [OF wc] h1(1) h2(1) h3(1) by (simp add: grew_def)
  then show ?thesis using h3(2,3) by (simp add: bin_opp)
qed

lemma child_noop:
  assumes "whole h tr fs (bin d x a b y)" and "q = peak x"
  shows "setChild d h (Some a) q = Some h"
proof -
  obtain n where n: "h a = Some n" "child d n = peak x" using whole_node [OF assms(1)] by blast
  then have "set_child d q n = n" using assms(2) by (cases d) (simp_all add: set_child_def)
  then show ?thesis using n by (simp add: heap_simps fun_upd_idem)
qed

lemma parent_noop:
  assumes "whole h tr fs (bin d x a b y)"
  shows "setParent h (Some a) (Some (up tr fs)) = Some h"
proof -
  obtain n where n: "h a = Some n" "m_parent n = Some (up tr fs)" using whole_node [OF assms] by blast
  then have "n\<lparr>m_parent := Some (up tr fs)\<rparr> = n" by simp
  then show ?thesis using n by (simp add: heap_simps fun_upd_idem)
qed

text \<open>The middle of a double rotation: the balances, then the rotation of the child.\<close>

lemma balance_three:
  assumes w: "whole h tr fs (bin d (bin d x c k (bin d y g gb z)) a b v)"
  obtains h3 where "do { h \<leftarrow> setBalance h (Some a) b1; h \<leftarrow> setBalance h (Some c) b2; setBalance h (Some g) b3 } = Some h3"
    "whole h3 tr fs (bin d (bin d x c b2 (bin d y g b3 z)) a b1 v)"
    "relinks (cells tr fs (bin d (bin d x c k (bin d y g gb z)) a b v)) h h3"
proof -
  let ?A = "cells tr fs (bin d (bin d x c k (bin d y g gb z)) a b v)"
  obtain h1 where h1: "setBalance h (Some a) b1 = Some h1" "whole h1 tr fs (bin d (bin d x c k (bin d y g gb z)) a b1 v)" "relinks ?A h h1"
    by (rule balance_step [where A = ?A, OF w relinks_refl]) (blast | auto)+
  then have "whole h1 tr (Frame d a b1 v # fs) (bin d x c k (bin d y g gb z))" by simp
  then obtain h2 where h2: "setBalance h1 (Some c) b2 = Some h2" "whole h2 tr (Frame d a b1 v # fs) (bin d x c b2 (bin d y g gb z))" "relinks ?A h h2"
    by (rule balance_step [where A = ?A, OF _ h1(3)]) (blast | auto)+
  then have "whole h2 tr (Frame (opp d) c b2 x # Frame d a b1 v # fs) (bin d y g gb z)" by (simp add: bin_opp)
  then obtain h3 where h3: "setBalance h2 (Some g) b3 = Some h3" "whole h3 tr (Frame (opp d) c b2 x # Frame d a b1 v # fs) (bin d y g b3 z)" "relinks ?A h h3"
    by (rule balance_step [where A = ?A, OF _ h2(3)]) (blast | auto)+
  show ?thesis by (rule that [of h3]) (use h1 h2 h3 in \<open>simp_all add: bin_opp\<close>)
qed

lemma grew_double:
  assumes w: "whole h tr fs (bin d (bin d x c (heavy (opp d)) (bin d y g gb z)) a b v)"
  shows "\<exists>h'. grew d h (Some a) = Some (h', False) \<and>
    whole h' tr fs (bin d (bin d x c (if gb = heavy (opp d) then heavy d else eEVEN) y) g eEVEN
                      (bin d z a (if gb = heavy d then heavy (opp d) else eEVEN) v)) \<and>
    relinks (cells tr fs (bin d (bin d x c (heavy (opp d)) (bin d y g gb z)) a b v)) h h'"
proof -
  let ?A = "cells tr fs (bin d (bin d x c (heavy (opp d)) (bin d y g gb z)) a b v)"
  let ?b1 = "if gb = heavy d then heavy (opp d) else eEVEN" and ?b2 = "if gb = heavy (opp d) then heavy d else eEVEN"
  have wc: "whole h tr (Frame d a b v # fs) (bin d x c (heavy (opp d)) (bin d y g gb z))" using w by simp
  then have wg: "whole h tr (Frame (opp d) c (heavy (opp d)) x # Frame d a b v # fs) (bin d y g gb z)" by (simp add: bin_opp)
  obtain h3 where h3: "do { h \<leftarrow> setBalance h (Some a) ?b1; h \<leftarrow> setBalance h (Some c) ?b2; setBalance h (Some g) eEVEN } = Some h3"
    "whole h3 tr fs (bin d (bin d x c ?b2 (bin d y g eEVEN z)) a ?b1 v)" "relinks ?A h h3"
    using balance_three [OF w] by blast
  then have "whole h3 tr (Frame d a ?b1 v # fs) (bin d x c ?b2 (bin d y g eEVEN z))" by simp
  then obtain h4 where h4: "turn d h3 (Some c) = Some (h4, Some g)" "whole h4 tr (Frame d a ?b1 v # fs) (bin d (bin d x c ?b2 y) g eEVEN z)" "relinks ?A h h4"
    by (rule turn_step [where A = ?A, OF _ h3(3)]) (blast | auto)+
  have w4: "whole h4 tr fs (bin d (bin d (bin d x c ?b2 y) g eEVEN z) a ?b1 v)" using h4(2) by simp
  have noop: "setChild d h4 (Some a) (Some g) = Some h4" "setParent h4 (Some g) (Some a) = Some h4"
    using child_noop [OF w4] parent_noop [OF h4(2)] by simp_all
  have "whole h4 tr fs (bin (opp d) v a ?b1 (bin (opp d) z g eEVEN (bin d x c ?b2 y)))" using w4 by (simp add: bin_opp)
  then obtain h5 where h5: "turn (opp d) h4 (Some a) = Some (h5, Some g)"
    "whole h5 tr fs (bin (opp d) (bin (opp d) v a ?b1 z) g eEVEN (bin d x c ?b2 y))" "relinks ?A h h5"
    by (rule turn_step [where A = ?A, OF _ h4(3)]) (blast | auto)+
  have "grew d h (Some a) = Some (h5, False)"
    using node_fields [OF w] node_fields [OF wc] node_fields [OF wg] h3(1) h4(1) noop h5(1)
    by (auto simp: grew_def bind_eq_Some_conv split del: if_split)
  then show ?thesis using h5(2,3) by (simp add: bin_opp)
qed

lemma shortened_rotates:
  assumes w: "whole h tr fs (bin d x a b (bin d y c k z))" and k: "k = heavy (opp d) \<or> k = eEVEN"
  shows "\<exists>h'. shortened d h (Some a) = Some (h', k \<noteq> eEVEN) \<and>
    whole h' tr fs (bin d (bin d x a (if k = eEVEN then heavy (opp d) else eEVEN) y) c (if k = eEVEN then heavy d else eEVEN) z) \<and>
    relinks (cells tr fs (bin d x a b (bin d y c k z))) h h'"
proof -
  let ?A = "cells tr fs (bin d x a b (bin d y c k z))"
  let ?b1 = "if k = eEVEN then heavy (opp d) else eEVEN" and ?b2 = "if k = eEVEN then heavy d else eEVEN"
  have wc: "whole h tr (Frame (opp d) a b x # fs) (bin d y c k z)" using w by (simp add: bin_opp)
  obtain h1 where h1: "turn d h (Some a) = Some (h1, Some c)" "whole h1 tr fs (bin d (bin d x a b y) c k z)" "relinks ?A h h1"
    by (rule turn_step [where A = ?A, OF w relinks_refl]) (blast | auto)+
  then have "whole h1 tr (Frame d c k z # fs) (bin d x a b y)" by simp
  then obtain h2 where h2: "setBalance h1 (Some a) ?b1 = Some h2" "whole h2 tr (Frame d c k z # fs) (bin d x a ?b1 y)" "relinks ?A h h2"
    by (rule balance_step [where A = ?A, OF _ h1(3)]) (blast | auto)+
  then have "whole h2 tr fs (bin d (bin d x a ?b1 y) c k z)" by simp
  then obtain h3 where h3: "setBalance h2 (Some c) ?b2 = Some h3" "whole h3 tr fs (bin d (bin d x a ?b1 y) c ?b2 z)" "relinks ?A h h3"
    by (rule balance_step [where A = ?A, OF _ h2(3)]) (blast | auto)+
  have "shortened d h (Some a) = Some (h3, k \<noteq> eEVEN)"
    using node_fields [OF w] node_fields [OF wc] h1(1) h2(1) h3(1) k by (auto simp: shortened_def)
  then show ?thesis using h3(2,3) by blast
qed

lemma shortened_double:
  assumes w: "whole h tr fs (bin d x a b (bin d (bin d y g gb z) c (heavy d) v))"
  shows "\<exists>h'. shortened d h (Some a) = Some (h', True) \<and>
    whole h' tr fs (bin d (bin d x a (if gb = heavy (opp d) then heavy d else eEVEN) y) g eEVEN
                      (bin d z c (if gb = heavy d then heavy (opp d) else eEVEN) v)) \<and>
    relinks (cells tr fs (bin d x a b (bin d (bin d y g gb z) c (heavy d) v))) h h'"
proof -
  let ?A = "cells tr fs (bin d x a b (bin d (bin d y g gb z) c (heavy d) v))"
  let ?b1 = "if gb = heavy (opp d) then heavy d else eEVEN" and ?b2 = "if gb = heavy d then heavy (opp d) else eEVEN"
  have wo: "whole h tr fs (bin (opp d) (bin (opp d) v c (heavy d) (bin (opp d) z g gb y)) a b x)" using w by (simp add: bin_opp)
  have wc: "whole h tr (Frame (opp d) a b x # fs) (bin d (bin d y g gb z) c (heavy d) v)" using w by (simp add: bin_opp)
  then have wg: "whole h tr (Frame d c (heavy d) v # Frame (opp d) a b x # fs) (bin d y g gb z)" by simp
  obtain h3 where h3: "do { h \<leftarrow> setBalance h (Some a) ?b1; h \<leftarrow> setBalance h (Some c) ?b2; setBalance h (Some g) eEVEN } = Some h3"
    "whole h3 tr fs (bin (opp d) (bin (opp d) v c ?b2 (bin (opp d) z g eEVEN y)) a ?b1 x)" "relinks ?A h h3"
    using balance_three [OF wo, of ?b1 ?b2 eEVEN] by (auto simp: bin_opp)
  then have "whole h3 tr (Frame (opp d) a ?b1 x # fs) (bin (opp d) v c ?b2 (bin (opp d) z g eEVEN y))" by simp
  then obtain h4 where h4: "turn (opp d) h3 (Some c) = Some (h4, Some g)"
    "whole h4 tr (Frame (opp d) a ?b1 x # fs) (bin (opp d) (bin (opp d) v c ?b2 z) g eEVEN y)" "relinks ?A h h4"
    by (rule turn_step [where A = ?A, OF _ h3(3)]) (blast | auto)+
  then have "whole h4 tr fs (bin d x a ?b1 (bin d y g eEVEN (bin d z c ?b2 v)))" by (simp add: bin_opp)
  then obtain h5 where h5: "turn d h4 (Some a) = Some (h5, Some g)"
    "whole h5 tr fs (bin d (bin d x a ?b1 y) g eEVEN (bin d z c ?b2 v))" "relinks ?A h h5"
    by (rule turn_step [where A = ?A, OF _ h4(3)]) (blast | auto)+
  have "shortened d h (Some a) = Some (h5, True)"
    using node_fields [OF w] node_fields [OF wc] node_fields [OF wg] h3(1) h4(1) h5(1)
    by (auto simp: shortened_def bind_eq_Some_conv split del: if_split)
  then show ?thesis using h5(2,3) by blast
qed

end
