(* ===== verification/Avl_Retrace.thy ===== *)
theory Avl_Retrace
  imports Avl_Balance
begin

text \<open>
  The height invariant of the tree, along a path too, and that the loops of \<open>insert\<close> and \<open>removeItem\<close> that
  go back to the root restore it, keep the order of the items, and stay inside the tree.
\<close>

section \<open>Heights\<close>

fun ht :: "avl \<Rightarrow> nat" where
  "ht Tip = 0"
| "ht (Bin l a b r) = Suc (max (ht l) (ht r))"

text \<open>\<open>fits d b i j\<close>: the balance \<open>b\<close> describes a height \<open>i\<close> on the side \<open>d\<close> and \<open>j\<close> on the other.\<close>

definition fits :: "dir \<Rightarrow> balance \<Rightarrow> nat \<Rightarrow> nat \<Rightarrow> bool" where
  "fits d b i j \<longleftrightarrow> (if b = heavy d then i = Suc j else if b = eEVEN then i = j else j = Suc i)"

lemma fits_simps [simp]:
  "fits d (heavy d) i j \<longleftrightarrow> i = Suc j" "fits d eEVEN i j \<longleftrightarrow> i = j" "fits d (heavy (opp d)) i j \<longleftrightarrow> j = Suc i"
  by (simp_all add: fits_def)

lemma fits_opp: "fits (opp d) b i j = fits d b j i"
  by (cases b rule: balance_cases [of _ d]) (auto simp: fits_def)

fun avl_ok :: "avl \<Rightarrow> bool" where
  "avl_ok Tip \<longleftrightarrow> True"
| "avl_ok (Bin l a b r) \<longleftrightarrow> fits Lft b (ht l) (ht r) \<and> avl_ok l \<and> avl_ok r"

lemma ht_bin [simp]: "ht (bin d x a b y) = Suc (max (ht x) (ht y))"
  by (cases d) auto

lemma avl_bin [simp]: "avl_ok (bin d x a b y) \<longleftrightarrow> fits d b (ht x) (ht y) \<and> avl_ok x \<and> avl_ok y"
  using fits_opp [of Lft b "ht x" "ht y"] by (cases d) auto

lemma ht_pos: "0 < ht t \<Longrightarrow> \<exists>x a b y. t = bin d x a b y"
  by (cases t; cases d) (simp, simp, metis bin_simps(1), metis bin_simps(2))

fun path_ok :: "frame list \<Rightarrow> nat \<Rightarrow> bool" where
  "path_ok [] k \<longleftrightarrow> True"
| "path_ok (Frame d a b s # fs) k \<longleftrightarrow> avl_ok s \<and> fits d b k (ht s) \<and> path_ok fs (Suc (max k (ht s)))"

lemma avl_plug: "avl_ok (plug t fs) \<longleftrightarrow> avl_ok t \<and> path_ok fs (ht t)"
proof (induction fs arbitrary: t)
  case (Cons f fs)
  show ?case by (cases f) (auto simp: Cons.IH)
qed simp

text \<open>A path is no longer than the tree is high.\<close>

lemma length_path: "length fs + ht t \<le> ht (plug t fs)"
proof (induction fs arbitrary: t)
  case (Cons f fs)
  obtain d a b s where f: "f = Frame d a b s" by (cases f)
  show ?case using Cons.IH [of "bin d t a b s"] by (simp add: f)
qed simp

lemma elems_regroup:
  "elems (bin d (bin d x a b y) c e z) = elems (bin d x a' b' (bin d y c' e' z)) \<longleftrightarrow> a = a' \<and> c = c'"
  by (cases d) auto

section \<open>After an insertion\<close>

text \<open>The comparisons recorded on the way down say at which side each frame has its hole.\<close>

primrec recorded :: "int list \<Rightarrow> frame list \<Rightarrow> bool" where
  "recorded cs [] \<longleftrightarrow> True"
| "recorded cs (f # fs) \<longleftrightarrow> (case f of Frame d a b s \<Rightarrow> cs ! length fs = (if d = Lft then 1 else - 1)) \<and> recorded cs fs"

definition grow_step :: "dir \<Rightarrow> map_heap \<Rightarrow> ptr \<Rightarrow> balance \<Rightarrow> (map_heap \<times> bool) option" where
  "grow_step d h curPtr b =
     (if b = heavy d then grew d h curPtr
      else if b = eEVEN then do { h \<leftarrow> setBalance h curPtr (heavy d); Some (h, True) }
      else do { h \<leftarrow> setBalance h curPtr eEVEN; Some (h, False) })"

lemma insert_retrace_dir:
  assumes "cs ! depth = (if d = Lft then 1 else - 1)"
  shows "insert_retrace h curPtr (Suc depth) cs taller = do {
     nxtPtr \<leftarrow> getParent h curPtr;
     b \<leftarrow> getBalance h curPtr;
     (h, taller) \<leftarrow> grow_step d h curPtr b;
     if depth > 0 \<and> taller then insert_retrace h nxtPtr depth cs taller else Some h
   }"
  using assms by (cases d) (auto simp: grow_step_def grew_eq intro!: bind_option_cong split: balance.split)

text \<open>A subtree that has grown is a new leaf or leans to one side.\<close>

definition leans :: "avl \<Rightarrow> bool" where
  "leans t \<longleftrightarrow> ht t = 1 \<or> (\<exists>d x a y. t = bin d x a (heavy d) y)"

lemma leans_bin: "leans (bin d x a b y) \<Longrightarrow> avl_ok (bin d x a b y) \<Longrightarrow> 1 < ht (bin d x a b y) \<Longrightarrow> b \<noteq> eEVEN"
  unfolding leans_def by (cases d) (auto simp: bin_def split: if_splits)

lemma grow_step_focus:
  assumes w: "whole h tr fs (bin d t a b s)" and ok: "avl_ok t" "avl_ok s" "fits d b k (ht s)" "ht t = Suc k" "leans t"
  shows "\<exists>h' t' taller. grow_step d h (Some a) b = Some (h', taller) \<and> whole h' tr fs t' \<and> avl_ok t' \<and>
    ht t' = (if taller then Suc (Suc (max k (ht s))) else Suc (max k (ht s))) \<and> (taller \<longrightarrow> leans t') \<and>
    elems t' = elems (bin d t a b s) \<and> relinks (cells tr fs (bin d t a b s)) h h'"
proof (cases b rule: balance_cases [of _ d])
  case 1
  obtain x c tb y where t: "t = bin d x c tb y" using ht_pos [of t d] ok(4) by auto
  have "tb \<noteq> eEVEN" using leans_bin [of d x c tb y] ok 1 by (simp add: t)
  then consider "tb = heavy d" | "tb = heavy (opp d)" by (cases tb rule: balance_cases [of _ d]) auto
  then show ?thesis
  proof cases
    case s: 1
    obtain h' where "grew d h (Some a) = Some (h', False)" "whole h' tr fs (bin d x c eEVEN (bin d y a eEVEN s))"
      "relinks (cells tr fs (bin d t a b s)) h h'"
      using grew_single [of h tr fs d x c y a b s] w by (auto simp: t s)
    moreover have "elems (bin d x c eEVEN (bin d y a eEVEN s)) = elems (bin d t a b s)" unfolding t by (cases d) simp_all
    moreover have "avl_ok (bin d x c eEVEN (bin d y a eEVEN s))" "ht (bin d x c eEVEN (bin d y a eEVEN s)) = Suc (max k (ht s))"
      using ok 1 by (auto simp: t s)
    ultimately show ?thesis using 1 unfolding grow_step_def by fastforce
  next
    case s: 2
    then have "0 < ht y" using ok(1) by (simp add: t)
    then obtain y1 g gb y2 where y: "y = bin d y1 g gb y2" using ht_pos [of y d] by auto
    let ?t = "bin d (bin d x c (if gb = heavy (opp d) then heavy d else eEVEN) y1) g eEVEN (bin d y2 a (if gb = heavy d then heavy (opp d) else eEVEN) s)"
    obtain h' where "grew d h (Some a) = Some (h', False)" "whole h' tr fs ?t" "relinks (cells tr fs (bin d t a b s)) h h'"
      using grew_double [of h tr fs d x c y1 g gb y2 a b s] w by (auto simp: t s y simp del: cells_balance)
    moreover have "elems ?t = elems (bin d t a b s)" unfolding t y by (cases d) simp_all
    moreover have "avl_ok ?t \<and> ht ?t = Suc (max k (ht s))"
      using ok 1 by (cases gb rule: balance_cases [of _ d]) (auto simp: t s y)
    ultimately show ?thesis using 1 unfolding grow_step_def by fastforce
  qed
next
  case 2
  obtain h' where "setBalance h (Some a) (heavy d) = Some h'" "whole h' tr fs (bin d t a (heavy d) s)" "relinks (cells tr fs (bin d t a b s)) h h'"
    using set_balance [OF w] by blast
  moreover have "elems (bin d t a (heavy d) s) = elems (bin d t a b s)" by (cases d) simp_all
  moreover have "leans (bin d t a (heavy d) s)" by (auto simp: leans_def)
  moreover have "avl_ok (bin d t a (heavy d) s)" "ht (bin d t a (heavy d) s) = Suc (Suc (max k (ht s)))" using ok 2 by auto
  ultimately show ?thesis using 2 unfolding grow_step_def by fastforce
next
  case 3
  obtain h' where "setBalance h (Some a) eEVEN = Some h'" "whole h' tr fs (bin d t a eEVEN s)" "relinks (cells tr fs (bin d t a b s)) h h'"
    using set_balance [OF w] by blast
  moreover have "elems (bin d t a eEVEN s) = elems (bin d t a b s)" by (cases d) simp_all
  moreover have "avl_ok (bin d t a eEVEN s)" "ht (bin d t a eEVEN s) = Suc (max k (ht s))" using ok 3 by auto
  ultimately show ?thesis using 3 unfolding grow_step_def by fastforce
qed

lemma cells_plug: "cells tr fs t = insert tr (set (elems (plug t fs)))"
proof (induction fs arbitrary: t)
  case (Cons f fs)
  show ?case by (cases f) (simp add: Cons.IH del: cells_balance)
qed (simp add: cells_def)

lemma insert_retrace_focus:
  assumes "whole h tr fs t" "fs \<noteq> []" "avl_ok t" "path_ok fs k" "ht t = Suc k" "leans t" "recorded cs fs"
  shows "\<exists>h' t'. insert_retrace h (Some (up tr fs)) (length fs) cs taller = Some h' \<and> whole h' tr [] t' \<and> avl_ok t' \<and>
    elems t' = elems (plug t fs) \<and> relinks (cells tr fs t) h h'"
  using assms
proof (induction fs arbitrary: h t k taller)
  case (Cons f fs)
  obtain d a b s where f: "f = Frame d a b s" by (cases f)
  have w: "whole h tr fs (bin d t a b s)" using Cons.prems(1) by (simp add: f)
  have ok: "avl_ok s" "fits d b k (ht s)" using Cons.prems(4) by (simp_all add: f)
  obtain h1 t1 tl where s: "grow_step d h (Some a) b = Some (h1, tl)" "whole h1 tr fs t1" "avl_ok t1"
    "ht t1 = (if tl then Suc (Suc (max k (ht s))) else Suc (max k (ht s)))" "tl \<longrightarrow> leans t1"
    "elems t1 = elems (bin d t a b s)" "relinks (cells tr fs (bin d t a b s)) h h1"
    using grow_step_focus [OF w Cons.prems(3) ok Cons.prems(5,6)] by blast
  have e: "elems (plug t1 fs) = elems (plug t (f # fs))" using s(6) by (simp add: f elems_plug)
  have c: "cells tr fs t1 = cells tr (f # fs) t" by (simp add: cells_plug e del: cells_balance plug_simps)
  have eq: "insert_retrace h (Some (up tr (f # fs))) (length (f # fs)) cs taller =
      (if 0 < length fs \<and> tl then insert_retrace h1 (Some (up tr fs)) (length fs) cs tl else Some h1)"
    using insert_retrace_dir [of cs "length fs" d h "Some a" taller] Cons.prems(7) node_fields [OF w] s(1) by (simp add: f)
  have r: "relinks (cells tr (f # fs) t) h h1" using s(7) by (simp add: f del: cells_balance)
  show ?case
  proof (cases "fs \<noteq> [] \<and> tl")
    case True
    have "path_ok fs (Suc (max k (ht s)))" "recorded cs fs" using Cons.prems(4,7) by (simp_all add: f)
    then obtain h2 t2 where "insert_retrace h1 (Some (up tr fs)) (length fs) cs tl = Some h2" "whole h2 tr [] t2" "avl_ok t2"
      "elems t2 = elems (plug t1 fs)" "relinks (cells tr fs t1) h1 h2"
      using Cons.IH [OF s(2) _ s(3), of "Suc (max k (ht s))" tl] s(4,5) True by auto
    then show ?thesis using eq True e c relinks_trans [OF r] by auto
  next
    case False
    have "path_ok fs (ht t1)" using Cons.prems(4) s(4) False by (cases "fs = []") (auto simp: f)
    then have "avl_ok (plug t1 fs)" using s(3) by (simp add: avl_plug)
    moreover have "whole h1 tr [] (plug t1 fs)" using s(2) whole_plug by blast
    ultimately show ?thesis using eq False e r by auto
  qed
qed simp

section \<open>After a removal\<close>

definition shrink_step :: "dir \<Rightarrow> map_heap \<Rightarrow> ptr \<Rightarrow> balance \<Rightarrow> (map_heap \<times> bool) option" where
  "shrink_step d h parentPtr b =
     (if b = heavy d then do { h \<leftarrow> setBalance h parentPtr eEVEN; Some (h, True) }
      else if b = eEVEN then do { h \<leftarrow> setBalance h parentPtr (heavy (opp d)); Some (h, False) }
      else shortened d h parentPtr)"

lemma remove_retrace_dir:
  "remove_retrace h parentPtr (d = Lft) = do {
     n \<leftarrow> mnode h parentPtr;
     if \<not> m_is_NOT_root n then Some h
     else do {
       nl \<leftarrow> getLeft h (m_parent n);
       (h, shorter) \<leftarrow> shrink_step d h parentPtr (m_balance n);
       if shorter then remove_retrace h (m_parent n) (parentPtr = nl) else Some h
     }
   }"
  by (subst remove_retrace.simps, cases d)
    (auto simp: shrink_step_def shortened_eq Let_def intro!: bind_option_cong split: balance.split)

lemma shrink_step_focus:
  assumes w: "whole h tr fs (bin d t a b s)" and ok: "avl_ok t" "avl_ok s" "fits d b (Suc (ht t)) (ht s)"
  shows "\<exists>h' t' shorter. shrink_step d h (Some a) b = Some (h', shorter) \<and> whole h' tr fs t' \<and> avl_ok t' \<and>
    Suc (max (Suc (ht t)) (ht s)) = (if shorter then Suc (ht t') else ht t') \<and>
    elems t' = elems (bin d t a b s) \<and> relinks (cells tr fs (bin d t a b s)) h h'"
proof (cases b rule: balance_cases [of _ d])
  case 1
  obtain h' where "setBalance h (Some a) eEVEN = Some h'" "whole h' tr fs (bin d t a eEVEN s)" "relinks (cells tr fs (bin d t a b s)) h h'"
    using set_balance [OF w] by blast
  moreover have "elems (bin d t a eEVEN s) = elems (bin d t a b s)" by (cases d) simp_all
  moreover have "avl_ok (bin d t a eEVEN s)" "Suc (max (Suc (ht t)) (ht s)) = Suc (ht (bin d t a eEVEN s))" using ok 1 by auto
  ultimately show ?thesis using 1 unfolding shrink_step_def by fastforce
next
  case 2
  obtain h' where "setBalance h (Some a) (heavy (opp d)) = Some h'" "whole h' tr fs (bin d t a (heavy (opp d)) s)" "relinks (cells tr fs (bin d t a b s)) h h'"
    using set_balance [OF w] by blast
  moreover have "elems (bin d t a (heavy (opp d)) s) = elems (bin d t a b s)" by (cases d) simp_all
  moreover have "avl_ok (bin d t a (heavy (opp d)) s)" "Suc (max (Suc (ht t)) (ht s)) = ht (bin d t a (heavy (opp d)) s)" using ok 2 by auto
  ultimately show ?thesis using 2 unfolding shrink_step_def by fastforce
next
  case 3
  then have "0 < ht s" using ok by simp
  then obtain y c sb z where s: "s = bin d y c sb z" using ht_pos [of s d] by auto
  show ?thesis
  proof (cases "sb = heavy d")
    case True
    then have "0 < ht y" using ok(2) by (simp add: s)
    then obtain y1 g gb y2 where y: "y = bin d y1 g gb y2" using ht_pos [of y d] by auto
    let ?t = "bin d (bin d t a (if gb = heavy (opp d) then heavy d else eEVEN) y1) g eEVEN (bin d y2 c (if gb = heavy d then heavy (opp d) else eEVEN) z)"
    obtain h' where "shortened d h (Some a) = Some (h', True)" "whole h' tr fs ?t" "relinks (cells tr fs (bin d t a b s)) h h'"
      using shortened_double [of h tr fs d t a b y1 g gb y2 c z] w by (auto simp: s y True simp del: cells_balance)
    moreover have "elems ?t = elems (bin d t a b s)" unfolding s y by (cases d) simp_all
    moreover have "avl_ok ?t \<and> Suc (max (Suc (ht t)) (ht s)) = Suc (ht ?t)"
      using ok 3 by (cases gb rule: balance_cases [of _ d]) (auto simp: s y True)
    ultimately show ?thesis using 3 unfolding shrink_step_def by fastforce
  next
    case False
    then have k: "sb = heavy (opp d) \<or> sb = eEVEN" by (cases sb rule: balance_cases [of _ d]) auto
    let ?t = "bin d (bin d t a (if sb = eEVEN then heavy (opp d) else eEVEN) y) c (if sb = eEVEN then heavy d else eEVEN) z"
    obtain h' where "shortened d h (Some a) = Some (h', sb \<noteq> eEVEN)" "whole h' tr fs ?t" "relinks (cells tr fs (bin d t a b s)) h h'"
      using shortened_rotates [of h tr fs d t a b y c sb z] w k by (auto simp: s simp del: cells_balance)
    moreover have "elems ?t = elems (bin d t a b s)" unfolding s by (cases d) simp_all
    moreover have "avl_ok ?t \<and> Suc (max (Suc (ht t)) (ht s)) = (if sb \<noteq> eEVEN then Suc (ht ?t) else ht ?t)"
      using ok 3 k by (auto simp: s)
    ultimately show ?thesis using 3 unfolding shrink_step_def by fastforce
  qed
qed

lemma hole_side:
  assumes "whole h tr fs (bin d x a b y)"
  shows "getLeft h (Some (up tr fs)) = Some q \<Longrightarrow> (Some a = q) \<longleftrightarrow> hole_dir fs = Lft"
    and "\<exists>q. getLeft h (Some (up tr fs)) = Some q" and "\<exists>n. h (up tr fs) = Some n \<and> (m_is_NOT_root n \<longleftrightarrow> fs \<noteq> [])"
proof -
  have p: "path h tr fs (Some a)" "a \<notin> set (path_elems fs)" "distinct (tr # path_elems fs)" using assms by (auto simp: whole_def)
  obtain n where n: "h (up tr fs) = Some n" "m_is_NOT_root n \<longleftrightarrow> fs \<noteq> []" using path_hole [OF p(1,3)] by blast
  show "\<exists>q. getLeft h (Some (up tr fs)) = Some q" "\<exists>n. h (up tr fs) = Some n \<and> (m_is_NOT_root n \<longleftrightarrow> fs \<noteq> [])"
    using n by (simp_all add: map_prims heap_simps)
  show "(Some a = q) \<longleftrightarrow> hole_dir fs = Lft" if "getLeft h (Some (up tr fs)) = Some q"
  proof -
    have "q = m_left n" using that n by (simp add: map_prims heap_simps)
    moreover have "m_left n = Some a \<longleftrightarrow> Lft = hole_dir fs" using peak_other [OF p(1,2) n(1), of Lft] by (simp only: child_simps)
    ultimately show ?thesis by metis
  qed
qed

lemma remove_retrace_focus:
  assumes "whole h tr fs t" "avl_ok t" "path_ok fs (Suc (ht t))"
  shows "\<exists>h' t'. remove_retrace h (Some (up tr fs)) (hole_dir fs = Lft) = Some h' \<and> whole h' tr [] t' \<and> avl_ok t' \<and>
    elems t' = elems (plug t fs) \<and> relinks (cells tr fs t) h h'"
  using assms
proof (induction fs arbitrary: h t)
  case Nil
  then obtain n where "h tr = Some n" "\<not> m_is_NOT_root n" by (auto simp: whole_def)
  then have "remove_retrace h (Some tr) il = Some h" for il by (subst remove_retrace.simps) (simp add: heap_simps)
  then show ?case using Nil by auto
next
  case (Cons f fs)
  obtain d a b s where f: "f = Frame d a b s" by (cases f)
  have w: "whole h tr fs (bin d t a b s)" using Cons.prems(1) by (simp add: f)
  obtain n where n: "h a = Some n" "m_parent n = Some (up tr fs)" "m_is_NOT_root n" "m_balance n = b" using whole_node [OF w] by blast
  have ok: "avl_ok s" "fits d b (Suc (ht t)) (ht s)" "path_ok fs (Suc (max (Suc (ht t)) (ht s)))" using Cons.prems(3) by (simp_all add: f)
  obtain h1 t1 sh where s: "shrink_step d h (Some a) b = Some (h1, sh)" "whole h1 tr fs t1" "avl_ok t1"
    "Suc (max (Suc (ht t)) (ht s)) = (if sh then Suc (ht t1) else ht t1)"
    "elems t1 = elems (bin d t a b s)" "relinks (cells tr fs (bin d t a b s)) h h1"
    using shrink_step_focus [OF w Cons.prems(2) ok(1,2)] by blast
  obtain q where q: "getLeft h (Some (up tr fs)) = Some q" "(Some a = q) \<longleftrightarrow> hole_dir fs = Lft" using hole_side [OF w] by blast
  have e: "elems (plug t1 fs) = elems (plug t (f # fs))" using s(5) by (simp add: f elems_plug)
  have c: "cells tr fs t1 = cells tr (f # fs) t" by (simp add: cells_plug e del: cells_balance plug_simps)
  have r: "relinks (cells tr (f # fs) t) h h1" using s(6) by (simp add: f del: cells_balance)
  have eq: "remove_retrace h (Some (up tr (f # fs))) (hole_dir (f # fs) = Lft) =
      (if sh then remove_retrace h1 (Some (up tr fs)) (hole_dir fs = Lft) else Some h1)"
    unfolding f up_simps hole_dir_simps
    using n s(1) q by (subst remove_retrace_dir) (simp add: f heap_simps)
  show ?case
  proof (cases sh)
    case True
    then obtain h2 t2 where "remove_retrace h1 (Some (up tr fs)) (hole_dir fs = Lft) = Some h2" "whole h2 tr [] t2" "avl_ok t2"
      "elems t2 = elems (plug t1 fs)" "relinks (cells tr fs t1) h1 h2"
      using Cons.IH [OF s(2,3)] s(4) ok(3) by auto
    then show ?thesis using eq True e c relinks_trans [OF r] by auto
  next
    case False
    then have "avl_ok (plug t1 fs)" using s(3,4) ok(3) by (simp add: avl_plug)
    moreover have "whole h1 tr [] (plug t1 fs)" using s(2) whole_plug by blast
    ultimately show ?thesis using eq False e r by auto
  qed
qed

end
