(* ===== verification/Avl_Insert.thy ===== *)
theory Avl_Insert
  imports Avl_Retrace
begin

text \<open>
  Search and insertion: the loops that go down are proved against the list of the items in order, and the array of
  comparisons is large enough for every tree of fewer than 9227464 items.
\<close>

section \<open>The height of a tree of a given size\<close>

fun min_size :: "nat \<Rightarrow> nat" where
  "min_size 0 = 0"
| "min_size (Suc 0) = 1"
| "min_size (Suc (Suc n)) = 1 + min_size n + min_size (Suc n)"

lemma min_size_Suc: "min_size n \<le> min_size (Suc n)"
  by (induction n rule: min_size.induct) auto

lemma min_size_mono: "m \<le> n \<Longrightarrow> min_size m \<le> min_size n"
  by (rule lift_Suc_mono_le [of min_size]) (rule min_size_Suc)

lemma avl_size: "avl_ok t \<Longrightarrow> min_size (ht t) \<le> length (elems t)"
proof (induction t)
  case (Bin l a b r)
  then have IH: "min_size (ht l) \<le> length (elems l)" "min_size (ht r) \<le> length (elems r)" by simp_all
  consider "ht l = Suc (ht r)" | "ht l = ht r" | "ht r = Suc (ht l)" using Bin.prems by (cases b) (auto simp: fits_def)
  then show ?case
  proof cases
    case 1
    then show ?thesis using IH by (simp add: max_def)
  next
    case 2
    then show ?thesis using IH by (cases "ht r") (use min_size_Suc [of "ht r - 1"] in \<open>auto simp: max_def\<close>)
  next
    case 3
    then show ?thesis using IH by (simp add: max_def)
  qed
qed simp

text \<open>The sizes pairwise and as integers, to compute one of them.\<close>

primrec size_pair :: "nat \<Rightarrow> int \<times> int" where
  "size_pair 0 = (0, 1)"
| "size_pair (Suc n) = (case size_pair n of (x, y) \<Rightarrow> (y, 1 + x + y))"

lemma size_pair_eq: "size_pair n = (int (min_size n), int (min_size (Suc n)))"
  by (induction n) simp_all

lemma min_size_33: "min_size 33 = 9227464"
proof -
  have "fst (size_pair 33) = 9227464" by code_simp
  then show ?thesis by (simp add: size_pair_eq)
qed

lemma height_bound:
  assumes "avl_ok t" and "length (elems t) < 9227464"
  shows "ht t \<le> MAX_TREE_DEPTH"
proof (rule ccontr)
  assume "\<not> ?thesis"
  then have "min_size 33 \<le> min_size (ht t)" by (intro min_size_mono) (simp add: MAX_TREE_DEPTH_def)
  then show False using avl_size [OF assms(1)] assms(2) min_size_33 by simp
qed

section \<open>Order\<close>

definition key_sorted :: "'k :: linorder keys \<Rightarrow> addr list \<Rightarrow> bool" where
  "key_sorted ks xs \<longleftrightarrow> sorted_wrt (\<lambda>a b. getKey ks a < getKey ks b) xs"

lemma key_sorted_append [simp]:
  "key_sorted ks (xs @ ys) \<longleftrightarrow> key_sorted ks xs \<and> key_sorted ks ys \<and> (\<forall>x\<in>set xs. \<forall>y\<in>set ys. getKey ks x < getKey ks y)"
  "key_sorted ks (x # xs) \<longleftrightarrow> key_sorted ks xs \<and> (\<forall>y\<in>set xs. getKey ks x < getKey ks y)"
  "key_sorted ks []"
  by (auto simp: key_sorted_def sorted_wrt_append)

definition around :: "'k :: linorder keys \<Rightarrow> 'k \<Rightarrow> frame list \<Rightarrow> bool" where
  "around ks k fs \<longleftrightarrow> (\<forall>a\<in>set (before_hole fs). getKey ks a < k) \<and> (\<forall>a\<in>set (after_hole fs). k < getKey ks a)"

lemma insort_between:
  "\<forall>a\<in>set xs. f a < f x \<Longrightarrow> \<forall>a\<in>set ys. f x < f a \<Longrightarrow> insort_key f x (xs @ ys) = xs @ x # ys" for f :: "addr \<Rightarrow> 'k :: linorder"
  by (induction xs) (cases ys; force)+

section \<open>Search\<close>

lemma int8_narrow: "- 128 \<le> x \<Longrightarrow> x \<le> 127 \<Longrightarrow> int8 x = x"
  by (simp add: int8_def)

lemma find_key_append: "key_sorted ks (xs @ a # ys) \<Longrightarrow> List.find (\<lambda>x. getKey ks x = k) (xs @ a # ys) =
    (if getKey ks a > k then List.find (\<lambda>x. getKey ks x = k) xs else if getKey ks a = k then Some a
     else List.find (\<lambda>x. getKey ks x = k) ys)"
proof (induction xs)
  case Nil
  have "List.find (\<lambda>x. getKey ks x = k) ys = None" if "k < getKey ks a"
    using Nil that by (auto simp: find_None_iff)
  then show ?case by (auto simp: find_None_iff)
next
  case (Cons x xs)
  then show ?case by auto
qed

lemma find_loop_sub:
  assumes ko: "narrow_key_order (keyCompare ks)"
  shows "sub h p t \<Longrightarrow> key_sorted ks (elems t) \<Longrightarrow> find_loop ks h key (peak t) = Some (List.find (\<lambda>a. getKey ks a = key) (elems t))"
proof (induction t arbitrary: p)
  case Tip
  then show ?case by (subst find_loop.simps) simp
next
  case (Bin l a b r)
  have o: "key_order (keyCompare ks)" using ko by (rule narrow_key_order.axioms(1))
  have n: "int8 (keyCompare ks x y) = keyCompare ks x y" for x y
    using narrow_key_order.narrow [OF ko, of x y] by (simp add: int8_narrow)
  obtain n where n1: "h a = Some n" "m_left n = peak l" "m_right n = peak r" using Bin.prems by auto
  have "find_loop ks h key (peak l) = Some (List.find (\<lambda>a. getKey ks a = key) (elems l))"
    "find_loop ks h key (peak r) = Some (List.find (\<lambda>a. getKey ks a = key) (elems r))"
    using Bin.IH Bin.prems by auto
  moreover have "find_loop ks h key (Some a) = (if getKey ks a > key then find_loop ks h key (peak l)
      else if getKey ks a = key then Some (Some a) else find_loop ks h key (peak r))"
    using n1 key_order.compare_greater [OF o, of "getKey ks a" key] key_order.compare_eq [OF o, of "getKey ks a" key]
    by (subst find_loop.simps) (simp add: n)
  moreover have "key_sorted ks (elems l @ a # elems r)" using Bin.prems by simp
  ultimately show ?case by (simp add: find_key_append del: key_sorted_append)
qed

section \<open>The way down of an insertion\<close>

lemma recorded_upd: "length fs \<le> n \<Longrightarrow> recorded (cs[n := c]) fs = recorded cs fs"
  by (induction fs) (auto split: frame.split)

lemma around_step:
  assumes "around ks k fs" and "key_sorted ks (elems (bin d t a b s))" and "if d = Lft then k < getKey ks a else getKey ks a < k"
  shows "around ks k (Frame d a b s # fs)"
  using assms by (cases d) (fastforce simp: around_def)+

definition descended :: "map_heap \<Rightarrow> addr \<Rightarrow> addr \<Rightarrow> frame list \<Rightarrow> map_heap \<Rightarrow> bool" where
  "descended h tr new fs h' \<longleftrightarrow> (\<exists>n. h (up tr fs) = Some n \<and> h' = h(up tr fs \<mapsto> set_child (hole_dir fs) (Some new) n))"

lemma insert_descend_step:
  assumes ko: "key_order (keyCompare ks)" and w: "whole h tr fs (bin d t a b s)" and len: "length fs < length cs"
    and cmp: "if d = Lft then getKey ks new < getKey ks a else getKey ks a < getKey ks new"
  shows "insert_descend ks new h (Some a) (length fs) cs =
    (let cs' = cs[length fs := if d = Lft then 1 else - 1]
     in if t = Tip then map_option (\<lambda>h. Some (h, Some a, Suc (length fs), cs')) (setChild d h (Some a) (Some new))
        else insert_descend ks new h (peak t) (Suc (length fs)) cs')"
proof -
  obtain n where n: "h a = Some n" "child d n = peak t" using whole_node [OF w] by blast
  note less = key_order.compare_less [OF ko, of "getKey ks a" "getKey ks new"]
  note greater = key_order.compare_greater [OF ko, of "getKey ks a" "getKey ks new"]
  show ?thesis
    using n len cmp less greater
    by (subst insert_descend.simps, cases d) (auto simp: Let_def setChild_def map_prims heap_simps)
qed

lemma insert_descend_focus:
  assumes ko: "key_order (keyCompare ks)"
  shows "whole h tr fs t \<Longrightarrow> t \<noteq> Tip \<Longrightarrow> key_sorted ks (elems t) \<Longrightarrow> around ks (getKey ks new) fs \<Longrightarrow> recorded cs fs \<Longrightarrow>
    length fs + ht t \<le> length cs \<Longrightarrow>
    if \<exists>a\<in>set (elems t). getKey ks a = getKey ks new then insert_descend ks new h (peak t) (length fs) cs = Some None
    else \<exists>fs' cs' h'. insert_descend ks new h (peak t) (length fs) cs = Some (Some (h', Some (up tr fs'), length fs', cs')) \<and>
      descended h tr new fs' h' \<and> fs' \<noteq> [] \<and> plug Tip fs' = plug t fs \<and> recorded cs' fs' \<and> around ks (getKey ks new) fs'"
proof (induction t arbitrary: fs cs)
  case (Bin l a b r)
  let ?k = "getKey ks new"
  have w: "whole h tr fs (Bin l a b r)" by (rule Bin.prems)
  show ?case
  proof (cases "getKey ks a = ?k")
    case True
    obtain n where "h a = Some n" using whole_node [of h tr fs Lft l a b r] w by auto
    then have "insert_descend ks new h (Some a) (length fs) cs = Some None"
      using Bin.prems(6) True key_order.compare_eq [OF ko, of "getKey ks a" ?k] by (subst insert_descend.simps) simp
    then show ?thesis using True by simp
  next
    case False
    define d where "d = (if ?k < getKey ks a then Lft else Rgt)"
    define t where "t = (if d = Lft then l else r)"
    define s where "s = (if d = Lft then r else l)"
    have bin: "Bin l a b r = bin d t a b s" by (simp add: t_def s_def bin_def)
    have cmp: "if d = Lft then ?k < getKey ks a else getKey ks a < ?k" using False by (auto simp: d_def)
    have other: "\<not> (\<exists>x\<in>set (elems s). getKey ks x = ?k)"
      using Bin.prems(3) cmp by (cases "d = Lft") (auto simp: s_def)
    have mem: "(\<exists>x\<in>set (elems (Bin l a b r)). getKey ks x = ?k) \<longleftrightarrow> (\<exists>x\<in>set (elems t). getKey ks x = ?k)"
      using other False unfolding bin by auto
    let ?cs = "cs[length fs := if d = Lft then 1 else - 1]" and ?fs = "Frame d a b s # fs"
    have len: "length fs < length cs" using Bin.prems(6) by simp
    have wt: "whole h tr ?fs t" using w bin by simp
    have so: "key_sorted ks (elems t)" using Bin.prems(3) by (auto simp: t_def)
    have ar: "around ks ?k ?fs" by (rule around_step [OF Bin.prems(4) _ cmp]) (use Bin.prems(3) bin in simp)
    have rec: "recorded ?cs ?fs" using Bin.prems(5) len by (simp add: recorded_upd)
    note step = insert_descend_step [OF ko, of h tr fs d t a b s cs new, OF _ len cmp]
    show ?thesis
    proof (cases "t = Tip")
      case True
      obtain n where n: "h a = Some n" using whole_node [of h tr fs d t a b s] w bin by auto
      then have e: "insert_descend ks new h (Some a) (length fs) cs = Some (Some (h(a \<mapsto> set_child d (Some new) n), Some (up tr ?fs), length ?fs, ?cs))"
        using step w bin True by (simp add: heap_simps)
      have de: "descended h tr new ?fs (h(a \<mapsto> set_child d (Some new) n))" using n by (simp add: descended_def)
      have pl: "plug Tip ?fs = plug (Bin l a b r) fs" using bin True by simp
      have "\<not> (\<exists>x\<in>set (elems (Bin l a b r)). getKey ks x = ?k)" using mem True by simp
      then show ?thesis unfolding peak.simps by (simp only: if_False) (rule exI conjI e de pl rec ar list.distinct(2))+
    next
      case t: False
      have len': "length ?fs + ht t \<le> length ?cs" using Bin.prems(6) by (auto simp: t_def)
      have IH: "if \<exists>a\<in>set (elems t). getKey ks a = ?k then insert_descend ks new h (peak t) (length ?fs) ?cs = Some None
        else \<exists>fs' cs' h'. insert_descend ks new h (peak t) (length ?fs) ?cs = Some (Some (h', Some (up tr fs'), length fs', cs')) \<and>
          descended h tr new fs' h' \<and> fs' \<noteq> [] \<and> plug Tip fs' = plug t ?fs \<and> recorded cs' fs' \<and> around ks ?k fs'"
      proof (cases "d = Lft")
        case True
        then have tl: "t = l" by (simp add: t_def)
        show ?thesis unfolding tl by (rule Bin.IH(1)) (use wt t so ar rec len' tl in blast)+
      next
        case False
        then have tr: "t = r" by (simp add: t_def)
        show ?thesis unfolding tr by (rule Bin.IH(2)) (use wt t so ar rec len' tr in blast)+
      qed
      have "insert_descend ks new h (Some a) (length fs) cs = insert_descend ks new h (peak t) (length ?fs) ?cs"
        using step w bin t by (simp add: Let_def)
      then show ?thesis using IH mem bin by (simp cong: if_cong)
    qed
  qed
qed simp

end
