(* ===== verification/Avl_Map.thy ===== *)
theory Avl_Map
  imports Avl_Insert
begin

text \<open>
  The tree as a map: \<open>avl_map ks h tr xs\<close> says that the tree object at \<open>tr\<close> holds exactly the items \<open>xs\<close>, in the
  order of their keys, in a balanced tree, and that exactly these items are marked as contained in it.
\<close>

section \<open>The invariant\<close>

definition marked :: "map_heap \<Rightarrow> addr \<Rightarrow> addr set" where
  "marked h tr = {a. \<exists>n. h a = Some n \<and> m_inListPtr n = Some tr}"

definition avl_map :: "'k :: linorder keys \<Rightarrow> map_heap \<Rightarrow> addr \<Rightarrow> addr list \<Rightarrow> bool" where
  "avl_map ks h tr xs \<longleftrightarrow> (\<exists>t. whole h tr [] t \<and> avl_ok t \<and> elems t = xs) \<and> key_sorted ks xs \<and> marked h tr = set xs"

lemma avl_mapD: "avl_map ks h tr xs \<Longrightarrow> distinct (tr # xs)"
  by (auto simp: avl_map_def whole_def)

section \<open>Marks\<close>

definition unmark :: "map_item \<Rightarrow> map_item" where
  "unmark n = n\<lparr>m_inListPtr := None\<rparr>"

lemma unmark_eq: "unmark n = unmark m \<Longrightarrow> m_left n = m_left m \<and> m_right n = m_right m \<and> m_parent n = m_parent m \<and>
    m_is_NOT_root n = m_is_NOT_root m \<and> m_balance n = m_balance m"
  by (cases n; cases m) (simp add: unmark_def)

definition same_links :: "map_heap \<Rightarrow> map_heap \<Rightarrow> bool" where
  "same_links h h' \<longleftrightarrow> (\<forall>x. map_option unmark (h' x) = map_option unmark (h x))"

lemma same_linksD:
  assumes "same_links h h'"
  shows "(\<exists>n. h' a = Some n \<and> P (m_left n) (m_right n) (m_parent n) (m_is_NOT_root n) (m_balance n)) \<longleftrightarrow>
    (\<exists>n. h a = Some n \<and> P (m_left n) (m_right n) (m_parent n) (m_is_NOT_root n) (m_balance n))"
proof -
  have "map_option unmark (h' a) = map_option unmark (h a)" using assms by (simp add: same_links_def)
  then show ?thesis by (cases "h a"; cases "h' a") (auto dest: unmark_eq)
qed

lemma sub_same_links: "same_links h h' \<Longrightarrow> sub h' p t = sub h p t"
proof (induction t arbitrary: p)
  case (Bin l a b r)
  then show ?case
    using same_linksD [OF Bin.prems, of a "\<lambda>lf rg pr nr bl. lf = peak l \<and> rg = peak r \<and> pr = Some p \<and> nr \<and> bl = b"] by simp
qed simp

lemma path_same_links: "same_links h h' \<Longrightarrow> path h' tr fs q = path h tr fs q"
proof (induction fs arbitrary: q)
  case Nil
  then show ?case using same_linksD [OF Nil, of tr "\<lambda>lf rg pr nr bl. lf = q \<and> rg = None \<and> \<not> nr"] by simp
next
  case (Cons f fs)
  obtain d a b s where f: "f = Frame d a b s" by (cases f)
  show ?case
    using Cons sub_same_links [OF Cons.prems, of a s]
      same_linksD [OF Cons.prems, of a "\<lambda>lf rg pr nr bl. lf = (if d = Lft then q else peak s) \<and> rg = (if d = Lft then peak s else q) \<and>
        pr = Some (up tr fs) \<and> nr \<and> bl = b"]
    by (simp add: f)
qed

lemma whole_same_links: "same_links h h' \<Longrightarrow> whole h' tr fs t = whole h tr fs t"
  by (simp add: whole_def sub_same_links path_same_links)

lemma mark_same_links: "h a = Some n \<Longrightarrow> same_links h (h(a \<mapsto> n\<lparr>m_inListPtr := q\<rparr>))"
  by (simp add: same_links_def unmark_def)

lemma relinks_marked: "relinks A h h' \<Longrightarrow> marked h' tr = marked h tr"
proof -
  assume "relinks A h h'"
  then have m: "map_option m_inListPtr (h' x) = map_option m_inListPtr (h x)" for x by (simp add: relinks_def)
  have "x \<in> marked h' tr \<longleftrightarrow> x \<in> marked h tr" for x
    using m [of x] by (cases "h x"; cases "h' x") (auto simp: marked_def)
  then show ?thesis by blast
qed

section \<open>Insertion\<close>

lemma link_leaf:
  assumes w: "whole h tr fs Tip" and new: "new \<notin> cells tr fs Tip" "h new = Some n" and d: "descended h tr new fs h1"
  shows "\<exists>h2. MapItem_initialize h1 (Some new) (Some (up tr fs)) = Some h2 \<and> whole h2 tr fs (Bin Tip new eEVEN Tip) \<and>
    relinks (cells tr fs (Bin Tip new eEVEN Tip)) h h2"
proof -
  let ?u = "up tr fs"
  have p: "path h tr fs None" and dis: "distinct (tr # path_elems fs)" using w by (auto simp: whole_def)
  have out: "new \<noteq> tr" "new \<notin> set (path_elems fs)" "?u \<noteq> new" using new(1) up_cell [of tr fs] by (auto simp: cells_def)
  obtain u where u: "h ?u = Some u" "h1 = h(?u \<mapsto> set_child (hole_dir fs) (Some new) u)" using d by (auto simp: descended_def)
  have p1: "path h1 tr fs (Some new)" using path_hole [OF p dis] u by auto
  let ?n = "n\<lparr>m_parent := Some ?u, m_is_NOT_root := True, m_balance := eEVEN, m_right := None, m_left := None\<rparr>"
  have "whole (h1(new \<mapsto> ?n)) tr fs (Bin Tip new eEVEN Tip)" using p1 out dis by (auto simp: whole_def)
  moreover have "relinks (cells tr fs (Bin Tip new eEVEN Tip)) h (h1(new \<mapsto> ?n))"
    using u new(2) out up_cell [of tr fs] by (auto simp: relinks_def cells_def)
  moreover have "MapItem_initialize h1 (Some new) (Some ?u) = Some (h1(new \<mapsto> ?n))"
    using u new(2) out by (simp add: MapItem_initialize_def heap_simps)
  ultimately show ?thesis by blast
qed

lemma mark_inserted:
  assumes w: "whole h tr [] t" and "relinks A h0 h" and "h0 new = Some n" "m_inListPtr n = None"
  shows "\<exists>h'. MapItem_insert h (Some new) (Some tr) = Some h' \<and> whole h' tr [] t \<and> marked h' tr = insert new (marked h0 tr) \<and>
    (\<forall>x. x \<notin> insert new A \<longrightarrow> h' x = h0 x) \<and>
    (\<forall>x. x \<noteq> new \<longrightarrow> map_option m_inListPtr (h' x) = map_option m_inListPtr (h0 x))"
proof -
  obtain n' where n': "h new = Some n'" "m_inListPtr n' = None"
    using assms(2-4) by (auto simp: relinks_def) (metis map_option_eq_Some_iff option.simps(9))
  let ?h = "h(new \<mapsto> n'\<lparr>m_inListPtr := Some tr\<rparr>)"
  have "whole ?h tr [] t" using whole_same_links [OF mark_same_links [of h new, OF n'(1)]] w by simp
  moreover have "MapItem_insert h (Some new) (Some tr) = Some ?h" using n' by (simp add: MapItem_insert_def heap_simps)
  moreover have "marked ?h tr = insert new (marked h tr)" by (auto simp: marked_def)
  ultimately show ?thesis using relinks_marked [OF assms(2), of tr] assms(2) by (simp add: relinks_def)
qed

lemma descend_map:
  assumes "key_order (keyCompare ks)" and t: "whole h tr [] t" "avl_ok t" "elems t = xs" and "key_sorted ks xs" and "length xs < 9227464" and "t \<noteq> Tip"
  shows "if \<exists>a\<in>set (elems t). getKey ks a = getKey ks new then insert_descend ks new h (peak t) (length ([] :: frame list)) (replicate MAX_TREE_DEPTH 0) = Some None
    else \<exists>fs' cs' h'. insert_descend ks new h (peak t) (length ([] :: frame list)) (replicate MAX_TREE_DEPTH 0) = Some (Some (h', Some (up tr fs'), length fs', cs')) \<and>
      descended h tr new fs' h' \<and> fs' \<noteq> [] \<and> plug Tip fs' = plug t [] \<and> recorded cs' fs' \<and> around ks (getKey ks new) fs'"
proof -
  have high: "ht t \<le> MAX_TREE_DEPTH" using height_bound [OF t(2)] assms by simp
  show ?thesis by (rule insert_descend_focus [OF assms(1)]) (use assms high in \<open>auto simp: around_def\<close>)
qed

lemma avl_insert_again:
  assumes ko: "key_order (keyCompare ks)" and m: "avl_map ks h tr xs" and len: "length xs < 9227464"
    and ex: "\<exists>a\<in>set xs. getKey ks a = getKey ks new"
  shows "AvlTree_insert ks h tr new = Some (False, h)"
proof -
  obtain t where t: "whole h tr [] t" "avl_ok t" "elems t = xs" and so: "key_sorted ks xs" using m by (auto simp: avl_map_def)
  have "getLeft h (Some tr) = Some (peak t)" using t(1) by (auto simp: whole_def map_prims heap_simps)
  moreover have ne: "t \<noteq> Tip" using ex t(3) by auto
  moreover have "insert_descend ks new h (peak t) 0 (replicate MAX_TREE_DEPTH 0) = Some None"
    using descend_map [OF ko t so len ne, of new] ex t(3) by simp
  ultimately show ?thesis by (simp add: AvlTree_insert_def)
qed

lemma avl_insert:
  assumes ko: "key_order (keyCompare ks)" and m: "avl_map ks h tr xs" and len: "length xs < 9227464"
    and new: "h new = Some n" "m_inListPtr n = None" "new \<noteq> tr"
    and distinct_key: "\<not> (\<exists>a\<in>set xs. getKey ks a = getKey ks new)"
  shows "\<exists>h'. AvlTree_insert ks h tr new = Some (True, h') \<and> avl_map ks h' tr (insort_key (getKey ks) new xs) \<and>
      (\<forall>x. x \<notin> insert tr (insert new (set xs)) \<longrightarrow> h' x = h x) \<and>
      (\<forall>x. x \<noteq> new \<longrightarrow> map_option m_inListPtr (h' x) = map_option m_inListPtr (h x))"
proof -
  obtain t where t: "whole h tr [] t" "avl_ok t" "elems t = xs" and so: "key_sorted ks xs" and mk: "marked h tr = set xs"
    using m by (auto simp: avl_map_def)
  have "new \<notin> marked h tr" using new by (simp add: marked_def)
  then have fresh: "new \<notin> set xs" using mk by simp
  have root: "getLeft h (Some tr) = Some (peak t)" using t(1) by (auto simp: whole_def map_prims heap_simps)
  have finish: "\<exists>h'. do { h \<leftarrow> MapItem_initialize h1 (Some new) (Some (up tr fs)); h \<leftarrow> f h; h \<leftarrow> MapItem_insert h (Some new) (Some tr); Some (True, h) } = Some (True, h') \<and>
      avl_map ks h' tr (insort_key (getKey ks) new xs) \<and> (\<forall>x. x \<notin> insert tr (insert new (set xs)) \<longrightarrow> h' x = h x) \<and>
      (\<forall>x. x \<noteq> new \<longrightarrow> map_option m_inListPtr (h' x) = map_option m_inListPtr (h x))"
    if fs: "plug Tip fs = t" "descended h tr new fs h1" "around ks (getKey ks new) fs"
      and f: "\<And>h2. whole h2 tr fs (Bin Tip new eEVEN Tip) \<Longrightarrow> path_ok fs 0 \<Longrightarrow>
        \<exists>h3 t3. f h2 = Some h3 \<and> whole h3 tr [] t3 \<and> avl_ok t3 \<and> elems t3 = elems (plug (Bin Tip new eEVEN Tip) fs) \<and>
          relinks (cells tr fs (Bin Tip new eEVEN Tip)) h2 h3" for fs h1 f
  proof -
    let ?A = "cells tr fs (Bin Tip new eEVEN Tip)"
    have w: "whole h tr fs Tip" using t(1) fs(1) whole_plug by blast
    have xs: "xs = before_hole fs @ after_hole fs" using t(3) fs(1) elems_plug [of Tip fs] by simp
    have cells: "new \<notin> cells tr fs Tip" using fresh new(3) t(3) fs(1) by (simp add: cells_plug)
    have A: "?A \<subseteq> insert tr (insert new (set xs))" by (auto simp: cells_plug elems_plug xs)
    have ok: "path_ok fs 0" using t(2) fs(1) avl_plug [of Tip fs] by simp
    obtain h2 where h2: "MapItem_initialize h1 (Some new) (Some (up tr fs)) = Some h2" "whole h2 tr fs (Bin Tip new eEVEN Tip)" "relinks ?A h h2"
      using link_leaf [OF w cells new(1) fs(2)] by blast
    obtain h3 t3 where h3: "f h2 = Some h3" "whole h3 tr [] t3" "avl_ok t3" "elems t3 = elems (plug (Bin Tip new eEVEN Tip) fs)" "relinks ?A h2 h3"
      using f [OF h2(2) ok] by blast
    have in_order: "elems t3 = insort_key (getKey ks) new xs"
      using fs(3) by (simp add: h3(4) elems_plug xs insort_between around_def)
    have "key_sorted ks (insort_key (getKey ks) new xs)"
      using so fs(3) unfolding in_order [symmetric] h3(4) by (auto simp: elems_plug xs around_def intro: less_trans)
    moreover obtain h4 where h4: "MapItem_insert h3 (Some new) (Some tr) = Some h4" "whole h4 tr [] t3" "marked h4 tr = insert new (marked h tr)"
      "\<forall>x. x \<notin> insert new ?A \<longrightarrow> h4 x = h x" "\<forall>x. x \<noteq> new \<longrightarrow> map_option m_inListPtr (h4 x) = map_option m_inListPtr (h x)"
      using mark_inserted [OF h3(2) relinks_trans [OF h2(3) h3(5)] new(1,2)] by blast
    ultimately have "avl_map ks h4 tr (insort_key (getKey ks) new xs)"
      using h3(3) in_order mk by (auto simp: avl_map_def set_insort_key)
    then show ?thesis using h2(1) h3(1) h4 A by auto
  qed
  show ?thesis
  proof (cases t)
    case Tip
    then have e: "xs = []" using t(3) by simp
    obtain r where r: "h tr = Some r" using t(1) by (auto simp: whole_def)
    have de: "descended h tr new [] (h(tr \<mapsto> set_child Lft (Some new) r))" using r by (simp add: descended_def)
    have f: "\<exists>h3 t3. Some h2 = Some h3 \<and> whole h3 tr [] t3 \<and> avl_ok t3 \<and> elems t3 = elems (plug (Bin Tip new eEVEN Tip) []) \<and>
        relinks (cells tr [] (Bin Tip new eEVEN Tip)) h2 h3" if "whole h2 tr [] (Bin Tip new eEVEN Tip)" for h2
      using that by (intro exI conjI) auto
    have "AvlTree_insert ks h tr new =
        do { h \<leftarrow> MapItem_initialize (h(tr \<mapsto> set_child Lft (Some new) r)) (Some new) (Some (up tr [])); h \<leftarrow> Some h;
             h \<leftarrow> MapItem_insert h (Some new) (Some tr); Some (True, h) }"
      using root r new by (simp add: AvlTree_insert_def Tip MapItem_initialize_def heap_simps map_prims set_child_def fun_upd_twist)
    then show ?thesis using finish [OF _ de, of Some] f by (simp add: e Tip around_def)
  next
    case (Bin l a b r)
    have ne: "t \<noteq> Tip" by (simp add: Bin)
    obtain fs cs h1 where d: "insert_descend ks new h (peak t) 0 (replicate MAX_TREE_DEPTH 0) = Some (Some (h1, Some (up tr fs), length fs, cs))"
      "descended h tr new fs h1" "fs \<noteq> []" "plug Tip fs = t" "recorded cs fs" "around ks (getKey ks new) fs"
      using descend_map [OF ko t so len ne, of new] distinct_key unfolding t(3) by auto
    have f: "\<exists>h3 t3. insert_retrace h2 (Some (up tr fs)) (length fs) cs False = Some h3 \<and> whole h3 tr [] t3 \<and> avl_ok t3 \<and>
        elems t3 = elems (plug (Bin Tip new eEVEN Tip) fs) \<and> relinks (cells tr fs (Bin Tip new eEVEN Tip)) h2 h3"
      if "whole h2 tr fs (Bin Tip new eEVEN Tip)" "path_ok fs 0" for h2
      by (rule insert_retrace_focus [OF that(1) d(3) _ that(2) _ _ d(5)]) (simp_all add: leans_def fits_def)
    have "AvlTree_insert ks h tr new = do { h \<leftarrow> MapItem_initialize h1 (Some new) (Some (up tr fs));
        h \<leftarrow> insert_retrace h (Some (up tr fs)) (length fs) cs False; h \<leftarrow> MapItem_insert h (Some new) (Some tr); Some (True, h) }"
      using root d(1) by (simp add: AvlTree_insert_def Bin)
    then show ?thesis using finish [OF d(4,2,6) f] by simp
  qed
qed

end
