(* ===== verification/Avl_Remove.thy ===== *)
theory Avl_Remove
  imports Avl_Map
begin

text \<open>
  Removal: \<open>exchangeWithPrev\<close> swaps a node that has two children with the largest node below its left child, then the node
  is spliced out and the tree rebalanced.
\<close>

section \<open>The predecessor\<close>

definition rightwards :: "frame list \<Rightarrow> bool" where
  "rightwards fs \<longleftrightarrow> (\<forall>f\<in>set fs. case f of Frame d a b s \<Rightarrow> d = Rgt)"

lemma rightwards_simps [simp]:
  "rightwards []" "rightwards (Frame d a b s # fs) \<longleftrightarrow> d = Rgt \<and> rightwards fs" "rightwards (fs @ gs) \<longleftrightarrow> rightwards fs \<and> rightwards gs"
  by (auto simp: rightwards_def)

lemma prev_loop_sub:
  "sub h q t \<Longrightarrow> t \<noteq> Tip \<Longrightarrow> \<exists>fin pl p pb. prev_loop h (peak t) c = Some (Some p, c \<and> fin = []) \<and>
    plug (Bin pl p pb Tip) fin = t \<and> rightwards fin"
proof (induction t arbitrary: q c)
  case (Bin l a b r)
  then obtain n where n: "h a = Some n" "m_right n = peak r" by auto
  have eq: "prev_loop h (Some a) c = (if r \<noteq> Tip then prev_loop h (peak r) False else Some (Some a, c))"
    using n by (subst prev_loop.simps) (cases r; simp add: getRight_def heap_simps)
  show ?case
  proof (cases "r = Tip")
    case True
    then show ?thesis using eq by (intro exI [of _ "[]"] exI [of _ l] exI [of _ a] exI [of _ b]) simp
  next
    case False
    then obtain fin pl p pb where "prev_loop h (peak r) False = Some (Some p, False)" "plug (Bin pl p pb Tip) fin = r" "rightwards fin"
      using Bin.IH(2) [of a False] Bin.prems(1) by auto
    then show ?thesis using eq False by (intro exI [of _ "fin @ [Frame Rgt a b l]"] exI [of _ pl] exI [of _ p] exI [of _ pb]) simp
  qed
qed simp

section \<open>Pieces of a path\<close>

fun seg :: "map_heap \<Rightarrow> addr \<Rightarrow> frame list \<Rightarrow> ptr \<Rightarrow> bool" where
  "seg h par [] q \<longleftrightarrow> True"
| "seg h par (Frame d a b s # fs) q \<longleftrightarrow>
     (\<exists>n. h a = Some n \<and> child d n = q \<and> child (opp d) n = peak s \<and> m_parent n = Some (up par fs) \<and> m_is_NOT_root n \<and> m_balance n = b) \<and>
     sub h a s \<and> seg h par fs (Some a)"

definition seg_top :: "frame list \<Rightarrow> ptr \<Rightarrow> ptr" where
  "seg_top fs q = (if fs = [] then q else (case last fs of Frame d a b s \<Rightarrow> Some a))"

lemma seg_top_simps [simp]: "seg_top [] q = q" "seg_top (Frame d a b s # fs) q = seg_top fs (Some a)"
  by (auto simp: seg_top_def)

lemma up_append: "up tr (fs @ gs) = up (up tr gs) fs"
  by (cases fs) (auto simp: up_def split: frame.splits)

lemma path_append: "path h tr (fs @ gs) q \<longleftrightarrow> seg h (up tr gs) fs q \<and> path h tr gs (seg_top fs q)"
proof (induction fs arbitrary: q)
  case (Cons f fs)
  obtain d a b s where f: "f = Frame d a b s" by (cases f)
  show ?case by (simp add: f Cons.IH path_frame up_append del: path.simps(2))
qed simp

lemma seg_cong: "(\<And>x. x \<in> set (path_elems fs) \<Longrightarrow> h' x = h x) \<Longrightarrow> seg h' par fs q = seg h par fs q"
proof (induction fs arbitrary: q)
  case (Cons f fs)
  obtain d a b s where f: "f = Frame d a b s" by (cases f)
  have "sub h' a s = sub h a s" by (rule sub_cong) (use Cons.prems in \<open>simp add: f\<close>)
  moreover have "seg h' par fs (Some a) = seg h par fs (Some a)" by (rule Cons.IH) (use Cons.prems in auto)
  ultimately show ?case using Cons.prems [of a] by (simp add: f)
qed simp

lemma seg_inner:
  assumes "seg h par (Frame d x b s # fs) q" and "distinct (path_elems (Frame d x b s # fs))"
  shows "\<exists>n. h x = Some n \<and> m_parent n = Some (up par fs) \<and> seg (h(x \<mapsto> set_child d q' n)) par (Frame d x b s # fs) q'"
proof -
  obtain n where n: "h x = Some n" "m_parent n = Some (up par fs)" "child (opp d) n = peak s" "m_is_NOT_root n" "m_balance n = b" using assms(1) by auto
  have "seg (h(x \<mapsto> set_child d q' n)) par fs (Some x) = seg h par fs (Some x)" by (rule seg_cong) (use assms(2) in auto)
  then show ?thesis using n assms by auto
qed

lemma seg_outer:
  assumes "seg h par fs q" and "fs \<noteq> []" and "distinct (path_elems fs)"
  shows "\<exists>y n. seg_top fs q = Some y \<and> y \<in> set (path_elems fs) \<and> h y = Some n \<and> seg (h(y \<mapsto> n\<lparr>m_parent := Some par'\<rparr>)) par' fs q"
  using assms
proof (induction fs arbitrary: q)
  case (Cons f fs)
  obtain d a b s where f: "f = Frame d a b s" by (cases f)
  show ?case
  proof (cases "fs = []")
    case True
    obtain n where n: "h a = Some n" "child d n = q" "child (opp d) n = peak s" "m_is_NOT_root n" "m_balance n = b" "sub h a s"
      using Cons.prems(1) by (auto simp: f True)
    then have "sub (h(a \<mapsto> n\<lparr>m_parent := Some par'\<rparr>)) a s" using Cons.prems(3) by (simp add: f)
    then show ?thesis using n unfolding f True by (intro exI [of _ a] exI [of _ n]) (simp add: fun_upd_def)
  next
    case False
    have sg: "seg h par fs (Some a)" and di: "distinct (path_elems fs)" using Cons.prems(1,3) by (simp_all add: f)
    obtain y n where y: "seg_top fs (Some a) = Some y" "y \<in> set (path_elems fs)" "h y = Some n" "seg (h(y \<mapsto> n\<lparr>m_parent := Some par'\<rparr>)) par' fs (Some a)"
      using Cons.IH [OF sg False di] by blast
    have out: "y \<noteq> a" "y \<notin> set (elems s)" using y(2) Cons.prems(3) by (auto simp: f)
    have "up par fs = up par' fs" using False by (cases fs) (auto simp: up_def split: frame.splits)
    then have "seg (h(y \<mapsto> n\<lparr>m_parent := Some par'\<rparr>)) par' (f # fs) q" using y out Cons.prems(1) unfolding f by simp
    moreover have "seg_top (f # fs) q = Some y" "y \<in> set (path_elems (f # fs))" using y by (simp_all add: f)
    ultimately show ?thesis using y(3) by blast
  qed
qed simp

section \<open>The exchange\<close>

lemma prims_lr:
  "getLeft h (Some a) = map_option m_left (h a)" "getRight h (Some a) = map_option m_right (h a)"
  "h a = Some n \<Longrightarrow> setLeft h (Some a) q = Some (h(a \<mapsto> n\<lparr>m_left := q\<rparr>))"
  "h a = Some n \<Longrightarrow> setRight h (Some a) q = Some (h(a \<mapsto> n\<lparr>m_right := q\<rparr>))"
  by (simp_all add: map_prims heap_simps)

lemma exchange_child:
  assumes w: "whole h tr fs (Bin (Bin pl p pb Tip) a b r)" and r: "r \<noteq> Tip"
  shows "\<exists>h'. exchangeWithPrev h (Some a) = Some h' \<and> whole h' tr (Frame Lft p b r # fs) (Bin pl a pb Tip) \<and>
    relinks (cells tr fs (Bin (Bin pl p pb Tip) a b r)) h h'"
proof -
  let ?A = "cells tr fs (Bin (Bin pl p pb Tip) a b r)" and ?u = "up tr fs"
  have pt: "path h tr fs (Some a)" and dis: "distinct (tr # path_elems fs @ elems (Bin (Bin pl p pb Tip) a b r))"
    and s: "sub h p pl" "sub h a r" using w by (auto simp: whole_def)
  obtain na where na: "h a = Some na" "m_left na = Some p" "m_right na = peak r" "m_parent na = Some ?u" "m_is_NOT_root na" "m_balance na = b"
    using w by (auto simp: whole_def)
  obtain np where np: "h p = Some np" "m_left np = peak pl" "m_right np = None" "m_parent np = Some a" "m_is_NOT_root np" "m_balance np = pb"
    using w by (auto simp: whole_def)
  obtain nu where nu: "h ?u = Some nu" "\<And>q'. path (h(?u \<mapsto> set_child (hole_dir fs) q' nu)) tr fs q'"
    using path_hole [OF pt] dis by auto
  have hole: "m_left nu = Some a \<longleftrightarrow> Lft = hole_dir fs" using peak_other [OF pt _ nu(1), of Lft] dis by (simp only: child_simps) auto
  have neq: "a \<noteq> p" "p \<noteq> a" "?u \<noteq> a" "?u \<noteq> p" "a \<noteq> ?u" "p \<noteq> ?u" "?u \<notin> set (elems pl)" "?u \<notin> set (elems r)" "a \<notin> set (elems pl)" "a \<notin> set (elems r)"
      "p \<notin> set (elems pl)" "p \<notin> set (elems r)"
    using dis up_cell [of tr fs] by auto
  define na' where "na' = na\<lparr>m_left := peak pl, m_right := None, m_balance := pb, m_parent := Some p\<rparr>"
  define np' where "np' = np\<lparr>m_right := peak r, m_parent := Some ?u, m_balance := b, m_left := Some a\<rparr>"
  define h1 where "h1 = h(a \<mapsto> na', p \<mapsto> np', ?u \<mapsto> set_child (hole_dir fs) (Some p) nu)"
  define h2 where "h2 = reparent p r h1"
  define h3 where "h3 = reparent a pl h2"
  have v1: "h1 a = Some na'" "h1 p = Some np'" using neq by (simp_all add: h1_def)
  have s1: "sub h1 a r" "sub h1 p pl" using s neq by (simp_all add: h1_def)
  have v2: "h2 a = Some na'" "h2 p = Some np'" using v1 neq by (simp_all add: h2_def)
  have s2: "sub h2 p pl"
    using s1(2) by (subst sub_cong [of pl h2 h1]) (use dis in \<open>auto simp: h2_def intro!: reparent_other\<close>)
  have run: "exchangeWithPrev h (Some a) = Some h3"
  proof -
    have pv: "prev_loop h (Some p) True = Some (Some p, True)"
      by (subst prev_loop.simps) (simp add: np map_prims heap_simps)
    have e1: "(if m_left nu = Some a then setLeft (h(a \<mapsto> na', p \<mapsto> np')) (Some ?u) (Some p) else setRight (h(a \<mapsto> na', p \<mapsto> np')) (Some ?u) (Some p)) = Some h1"
      using nu(1) neq hole by (cases "hole_dir fs") (auto simp: h1_def map_prims heap_simps set_child_def)
    have e2: "(if peak r \<noteq> None then setParent h1 (peak r) (Some p) else Some h1) = Some h2" unfolding h2_def by (rule set_parent_peak [OF s1(1)])
    have e3: "(if peak pl \<noteq> None then setParent h2 (peak pl) (Some a) else Some h2) = Some h3" unfolding h3_def by (rule set_parent_peak [OF s2])
    have v3: "h3 a = Some na'" using v2 neq by (simp add: h3_def)
    have e0: "setParent h1 (Some a) (Some p) = Some h1" using v1 by (auto simp: heap_simps na'_def intro!: fun_upd_idem)
    show ?thesis
      using na np neq nu(1) pv e1 e0 e2 e3 v1 v2 v3 unfolding na'_def np'_def
      by (simp add: exchangeWithPrev_def prims_lr heap_simps del: peak_None peak_Some not_None_eq not_Some_eq split del: if_split)
  qed
  have keep: "h3 v = h v" if "v \<notin> {a, p, ?u} \<union> set (elems r) \<union> set (elems pl)" for v using that by (simp add: h3_def h2_def h1_def)
  have pth: "path h3 tr fs (Some p)"
  proof -
    have "path h3 tr fs (Some p) = path (h(?u \<mapsto> set_child (hole_dir fs) (Some p) nu)) tr fs (Some p)"
    proof (rule path_cong)
      fix v assume "v \<in> set (path_elems fs) \<or> v = tr"
      then have "v \<noteq> a" "v \<noteq> p" "v \<notin> set (elems r)" "v \<notin> set (elems pl)" using dis by auto
      then show "h3 v = (h(?u \<mapsto> set_child (hole_dir fs) (Some p) nu)) v" by (simp add: h3_def h2_def h1_def)
    qed
    then show ?thesis using nu(2) by simp
  qed
  have "sub h3 a pl" unfolding h3_def by (rule sub_reparent [OF s2]) (use dis in simp)
  moreover have "sub h3 p r"
  proof -
    have "sub h2 p r" unfolding h2_def by (rule sub_reparent [OF s1(1)]) (use dis in simp)
    then show ?thesis by (subst sub_cong [of r h3 h2]) (use dis in \<open>auto simp: h3_def intro!: reparent_other\<close>)
  qed
  moreover have "h3 a = Some na'" "h3 p = Some np'" using v2 neq by (simp_all add: h3_def)
  ultimately have "whole h3 tr (Frame Lft p b r # fs) (Bin pl a pb Tip)"
    using pth dis na np unfolding whole_frame by (auto simp: whole_def na'_def np'_def)
  moreover have "relinks ?A h h3"
  proof -
    have "relinks ?A h h1" using na(1) np(1) nu(1) neq up_cell [of tr fs]
      by (auto simp: relinks_def h1_def cells_def na'_def np'_def)
    moreover have "relinks ?A h1 h2" unfolding h2_def by (rule relinks_reparent [OF s1(1)]) (auto simp: cells_def)
    moreover have "relinks ?A h2 h3" unfolding h3_def by (rule relinks_reparent [OF s2]) (auto simp: cells_def)
    ultimately show ?thesis using relinks_trans by blast
  qed
  ultimately show ?thesis using run by blast
qed

lemma exchange_deep:
  assumes w: "whole h tr (Frame Rgt x bx sx # gs @ Frame Lft a b r # fs) (Bin pl p pb Tip)" and r: "r \<noteq> Tip"
    and loop: "prev_loop h (seg_top (Frame Rgt x bx sx # gs) (Some p)) True = Some (Some p, False)"
  shows "\<exists>h'. exchangeWithPrev h (Some a) = Some h' \<and> whole h' tr (Frame Rgt x bx sx # gs @ Frame Lft p b r # fs) (Bin pl a pb Tip) \<and>
    relinks (cells tr (Frame Rgt x bx sx # gs @ Frame Lft a b r # fs) (Bin pl p pb Tip)) h h'"
proof -
  let ?fin = "Frame Rgt x bx sx # gs"
  let ?A = "cells tr (?fin @ Frame Lft a b r # fs) (Bin pl p pb Tip)" and ?u = "up tr fs"
  have w': "path h tr (?fin @ Frame Lft a b r # fs) (Some p)" "sub h x (Bin pl p pb Tip)"
    "distinct (tr # path_elems (?fin @ Frame Lft a b r # fs) @ elems (Bin pl p pb Tip))"
    using w unfolding whole_def by simp_all
  have sg: "seg h a ?fin (Some p)" and pt: "path h tr fs (Some a)" and sr: "sub h a r"
    using w'(1) unfolding path_append by simp_all
  have dis: "distinct (tr # path_elems ?fin @ a # elems r @ path_elems fs @ elems pl @ [p])" using w'(3) by auto
  obtain na where na: "h a = Some na" "m_left na = seg_top ?fin (Some p)" "m_right na = peak r" "m_parent na = Some ?u" "m_is_NOT_root na" "m_balance na = b"
    using w'(1) unfolding path_append by auto
  obtain np where np: "h p = Some np" "m_left np = peak pl" "m_right np = None" "m_parent np = Some x" "m_is_NOT_root np" "m_balance np = pb"
    and spl: "sub h p pl" using w'(2) by auto
  obtain nu where nu: "h ?u = Some nu" "\<And>q'. path (h(?u \<mapsto> set_child (hole_dir fs) q' nu)) tr fs q'"
    using path_hole [OF pt] dis by auto
  have hole: "m_left nu = Some a \<longleftrightarrow> Lft = hole_dir fs" using peak_other [OF pt _ nu(1), of Lft] dis by (simp only: child_simps) auto
  have dfin: "distinct (path_elems ?fin)" using dis by auto
  obtain nx where nx: "h x = Some nx" "seg (h(x \<mapsto> set_child Rgt (Some a) nx)) a ?fin (Some a)"
    using seg_inner [OF sg dfin, of "Some a"] by blast
  obtain y ny where y: "seg_top ?fin (Some p) = Some y" "y \<in> set (path_elems ?fin)" "(h(x \<mapsto> set_child Rgt (Some a) nx)) y = Some ny"
    "seg (h(x \<mapsto> set_child Rgt (Some a) nx, y \<mapsto> ny\<lparr>m_parent := Some p\<rparr>)) p ?fin (Some a)"
    using seg_outer [OF nx(2) _ dfin, of p] by auto
  have neq1: "a \<noteq> p" "p \<noteq> a" "a \<notin> set (elems pl)" "a \<notin> set (elems r)" "p \<notin> set (elems pl)" "p \<notin> set (elems r)" using dis by auto
  have "a \<notin> insert tr (set (path_elems fs))" "p \<notin> insert tr (set (path_elems fs))" "set (elems pl) \<inter> insert tr (set (path_elems fs)) = {}"
    "set (elems r) \<inter> insert tr (set (path_elems fs)) = {}" using dis by auto
  then have neq2: "?u \<noteq> a" "?u \<noteq> p" "a \<noteq> ?u" "p \<noteq> ?u" "?u \<notin> set (elems pl)" "?u \<notin> set (elems r)" using up_cell [of tr fs] by blast+
  have F: "a \<notin> set (path_elems ?fin)" "p \<notin> set (path_elems ?fin)" "set (elems pl) \<inter> set (path_elems ?fin) = {}"
    "set (elems r) \<inter> set (path_elems ?fin) = {}" "insert tr (set (path_elems fs)) \<inter> set (path_elems ?fin) = {}" "x \<in> set (path_elems ?fin)"
    using dis by auto
  have neq3: "v \<noteq> a" "v \<noteq> p" "v \<noteq> ?u" "?u \<noteq> v" "a \<noteq> v" "p \<noteq> v" "v \<notin> set (elems pl)" "v \<notin> set (elems r)" if "v \<in> set (path_elems ?fin)" for v
    using F up_cell [of tr fs] that by blast+
  note neq = neq1 neq2 neq3 [OF F(6)] neq3 [OF y(2)]
  define na' where "na' = na\<lparr>m_left := peak pl, m_right := None, m_balance := pb, m_parent := Some x\<rparr>"
  define np' where "np' = np\<lparr>m_left := Some y, m_right := peak r, m_parent := Some ?u, m_balance := b\<rparr>"
  define h1 where "h1 = h(a \<mapsto> na', p \<mapsto> np', x \<mapsto> set_child Rgt (Some a) nx, ?u \<mapsto> set_child (hole_dir fs) (Some p) nu)"
  define h2 where "h2 = h1(y \<mapsto> ny\<lparr>m_parent := Some p\<rparr>)"
  define h3 where "h3 = reparent p r h2"
  define h4 where "h4 = reparent a pl h3"
  have vy: "h1 y = Some ny" using y(3) neq by (auto simp: h1_def split: if_splits)
  have v1: "h1 a = Some na'" "h1 p = Some np'" using neq by (simp_all add: h1_def)
  have v2: "h2 a = Some na'" "h2 p = Some np'" using v1 neq by (simp_all add: h2_def)
  have s2: "sub h2 a r" "sub h2 p pl" using sr spl neq by (simp_all add: h1_def h2_def)
  have v3: "h3 a = Some na'" "h3 p = Some np'" using v2 neq by (simp_all add: h3_def)
  have s3: "sub h3 p pl"
    using s2(2) by (subst sub_cong [of pl h3 h2]) (use dis in \<open>auto simp: h3_def intro!: reparent_other\<close>)
  have v4: "h4 a = Some na'" "h4 p = Some np'" using v3 neq by (simp_all add: h4_def)
  have run: "exchangeWithPrev h (Some a) = Some h4"
  proof -
    let ?h = "h(a \<mapsto> na', p \<mapsto> np', x \<mapsto> nx\<lparr>m_right := Some a\<rparr>)"
    have e1: "(if m_left nu = Some a then setLeft ?h (Some ?u) (Some p) else setRight ?h (Some ?u) (Some p)) = Some h1"
      using nu(1) neq hole by (cases "hole_dir fs") (auto simp: h1_def map_prims heap_simps set_child_def)
    have e2: "setParent h1 (Some y) (Some p) = Some h2" using vy by (simp add: h2_def heap_simps)
    have e3: "(if peak r \<noteq> None then setParent h2 (peak r) (Some p) else Some h2) = Some h3" unfolding h3_def by (rule set_parent_peak [OF s2(1)])
    have e4: "(if peak pl \<noteq> None then setParent h3 (peak pl) (Some a) else Some h3) = Some h4" unfolding h4_def by (rule set_parent_peak [OF s3])
    show ?thesis
      using na np neq nu(1) nx(1) loop y(1) e1 e2 e3 e4 v1 v2 v3 v4 unfolding na'_def np'_def
      by (simp add: exchangeWithPrev_def prims_lr heap_simps del: peak_None peak_Some not_None_eq not_Some_eq split del: if_split)
  qed
  have keep: "h4 v = h v" if "v \<notin> {a, p, ?u, x, y} \<union> set (elems r) \<union> set (elems pl)" for v using that by (simp add: h4_def h3_def h2_def h1_def)
  have pth: "path h4 tr fs (Some p)"
  proof -
    have "path h4 tr fs (Some p) = path (h(?u \<mapsto> set_child (hole_dir fs) (Some p) nu)) tr fs (Some p)"
    proof (rule path_cong)
      fix v assume "v \<in> set (path_elems fs) \<or> v = tr"
      then have "v \<in> insert tr (set (path_elems fs))" by blast
      then have "v \<noteq> a" "v \<noteq> p" "v \<noteq> x" "v \<noteq> y" "v \<notin> set (elems r)" "v \<notin> set (elems pl)" using dis F y(2) by auto
      then show "h4 v = (h(?u \<mapsto> set_child (hole_dir fs) (Some p) nu)) v" by (simp add: h4_def h3_def h2_def h1_def)
    qed
    then show ?thesis using nu(2) by simp
  qed
  have "seg h4 p ?fin (Some a)"
  proof -
    have "seg h4 p ?fin (Some a) = seg (h(x \<mapsto> set_child Rgt (Some a) nx, y \<mapsto> ny\<lparr>m_parent := Some p\<rparr>)) p ?fin (Some a)"
    proof (rule seg_cong)
      fix v assume "v \<in> set (path_elems ?fin)"
      then have "v \<noteq> a" "v \<noteq> p" "v \<noteq> ?u" "v \<notin> set (elems r)" "v \<notin> set (elems pl)" by (rule neq3)+
      then show "h4 v = (h(x \<mapsto> set_child Rgt (Some a) nx, y \<mapsto> ny\<lparr>m_parent := Some p\<rparr>)) v" by (simp add: h4_def h3_def h2_def h1_def)
    qed
    then show ?thesis using y(4) by blast
  qed
  moreover have "sub h4 a pl" unfolding h4_def by (rule sub_reparent [OF s3]) (use dis in simp)
  moreover have "sub h4 p r"
  proof -
    have "sub h3 p r" unfolding h3_def by (rule sub_reparent [OF s2(1)]) (use dis in simp)
    then show ?thesis by (subst sub_cong [of r h4 h3]) (use dis in \<open>auto simp: h4_def intro!: reparent_other\<close>)
  qed
  moreover have "seg_top ?fin (Some a) = Some y" using y(1) by simp
  ultimately have "whole h4 tr (?fin @ Frame Lft p b r # fs) (Bin pl a pb Tip)"
    using pth dis na np v4 unfolding whole_def path_append by (auto simp: na'_def np'_def)
  moreover have "relinks ?A h h4"
  proof -
    have "relinks ?A h h1" using na(1) np(1) nu(1) nx(1) neq up_cell [of tr fs]
      by (auto simp: relinks_def h1_def cells_def na'_def np'_def)
    moreover have "relinks ?A h1 h2" unfolding h2_def by (rule relinks_upd [of h1 y, OF vy]) (use y(2) in \<open>auto simp: cells_def\<close>)
    moreover have "relinks ?A h2 h3" unfolding h3_def by (rule relinks_reparent [OF s2(1)]) (auto simp: cells_def)
    moreover have "relinks ?A h3 h4" unfolding h4_def by (rule relinks_reparent [OF s3]) (auto simp: cells_def)
    ultimately show ?thesis using relinks_trans by blast
  qed
  ultimately show ?thesis using run by auto
qed

section \<open>Splicing a node out\<close>

lemma splice:
  assumes w: "whole h tr fs (Bin l a b r)" and one: "l = Tip \<or> r = Tip" and c: "c = (if l \<noteq> Tip then l else r)"
  shows "\<exists>h1 h2. setChild (hole_dir fs) h (Some (up tr fs)) (peak c) = Some h1 \<and>
    (if peak c \<noteq> None then setParent h1 (peak c) (Some (up tr fs)) else Some h1) = Some h2 \<and>
    whole h2 tr fs c \<and> h2 a = h a \<and> relinks (cells tr fs (Bin l a b r)) h h2"
proof -
  let ?u = "up tr fs"
  have p: "path h tr fs (Some a)" and dis: "distinct (tr # path_elems fs @ elems (Bin l a b r))" and s: "sub h a c"
    using w by (auto simp: whole_def c)
  have cl: "set (elems c) \<subseteq> set (elems (Bin l a b r))" "a \<notin> set (elems c)" "distinct (tr # path_elems fs @ elems c)" using dis by (auto simp: c)
  obtain nu where nu: "h ?u = Some nu" "\<And>q'. path (h(?u \<mapsto> set_child (hole_dir fs) q' nu)) tr fs q'"
    using path_hole [OF p] dis by auto
  define h1 where "h1 = h(?u \<mapsto> set_child (hole_dir fs) (peak c) nu)"
  have out: "?u \<notin> set (elems c)" "?u \<noteq> a" using dis up_cell [of tr fs] cl(1,2) by auto
  have s1: "sub h1 a c" using s out by (simp add: h1_def)
  have "path (reparent ?u c h1) tr fs (peak c) = path h1 tr fs (peak c)"
    by (rule path_cong, rule reparent_other) (use cl(3) in auto)
  then have "path (reparent ?u c h1) tr fs (peak c)" using nu(2) by (simp add: h1_def)
  moreover have "sub (reparent ?u c h1) ?u c" by (rule sub_reparent [OF s1]) (use cl(3) in simp)
  ultimately have "whole (reparent ?u c h1) tr fs c" using cl(3) by (simp add: whole_def)
  moreover have "relinks (cells tr fs (Bin l a b r)) h h1" unfolding h1_def
    by (rule relinks_upd [of h ?u, OF nu(1)]) (use up_cell [of tr fs] in \<open>auto simp: cells_def\<close>)
  moreover have "relinks (cells tr fs (Bin l a b r)) h1 (reparent ?u c h1)"
    by (rule relinks_reparent [OF s1]) (use cl(1) in \<open>auto simp: cells_def\<close>)
  moreover have "reparent ?u c h1 a = h a" using cl(2) out by (simp add: h1_def)
  moreover have "setChild (hole_dir fs) h (Some ?u) (peak c) = Some h1" using nu(1) by (simp add: h1_def heap_simps)
  ultimately show ?thesis using set_parent_peak [OF s1, of ?u] relinks_trans by blast
qed

lemma focus: "a \<in> set (elems t) \<Longrightarrow> \<exists>fs l b r. plug (Bin l a b r) fs = t"
proof (induction t)
  case (Bin l x b r)
  then consider "a = x" | "a \<in> set (elems l)" | "a \<in> set (elems r)" by auto
  then show ?case
  proof cases
    case 1
    then show ?thesis by (intro exI [of _ "[]"]) auto
  next
    case 2
    then obtain fs l' b' r' where "plug (Bin l' a b' r') fs = l" using Bin.IH by blast
    then show ?thesis by (intro exI [of _ "fs @ [Frame Lft x b r]"] exI [of _ l'] exI [of _ b'] exI [of _ r']) simp
  next
    case 3
    then obtain fs l' b' r' where "plug (Bin l' a b' r') fs = r" using Bin.IH by blast
    then show ?thesis by (intro exI [of _ "fs @ [Frame Rgt x b l]"] exI [of _ l'] exI [of _ b'] exI [of _ r']) simp
  qed
qed simp

text \<open>From the splice on: \<open>removeItem\<close> once the node has at most one child.\<close>

definition remove_spliced :: "map_heap \<Rightarrow> addr \<Rightarrow> map_heap option" where
  "remove_spliced h node = do {
     parentPtr \<leftarrow> getParent h (Some node);
     l \<leftarrow> getLeft h (Some node);
     r \<leftarrow> getRight h (Some node);
     let childPtr = (if l \<noteq> None then l else if r \<noteq> None then r else None);
     pl \<leftarrow> getLeft h parentPtr;
     let is_left = (Some node = pl);
     h \<leftarrow> (if is_left then setLeft h parentPtr childPtr else setRight h parentPtr childPtr);
     h \<leftarrow> (if childPtr \<noteq> None then setParent h childPtr parentPtr else Some h);
     h \<leftarrow> remove_retrace h parentPtr is_left;
     h \<leftarrow> MapItem_initialize h (Some node) None;
     MapItem_remove h (Some node)
   }"

lemma removeItem_eq: "AvlTree_removeItem h tr node = do {
     n \<leftarrow> h node;
     if m_inListPtr n \<noteq> Some tr then Some (None, h)
     else do {
       h \<leftarrow> (if m_left n \<noteq> None \<and> m_right n \<noteq> None then exchangeWithPrev h (Some node) else Some h);
       h \<leftarrow> remove_spliced h node;
       Some (Some node, h)
     }
   }"
  by (simp add: AvlTree_removeItem_def remove_spliced_def Let_def Option.bind_assoc cong: if_cong)

lemma remove_spliced_focus:
  assumes w: "whole h tr fs (Bin l a b r)" and one: "l = Tip \<or> r = Tip" and ok: "avl_ok (plug (Bin l a b r) fs)"
  shows "\<exists>h' t'. remove_spliced h a = Some h' \<and> whole h' tr [] t' \<and> avl_ok t' \<and>
    elems t' = before_hole fs @ elems l @ elems r @ after_hole fs \<and>
    (\<forall>x. x \<notin> cells tr fs (Bin l a b r) \<longrightarrow> h' x = h x) \<and>
    (\<forall>x. x \<noteq> a \<longrightarrow> map_option m_inListPtr (h' x) = map_option m_inListPtr (h x)) \<and>
    (\<exists>n. h' a = Some n \<and> m_inListPtr n = None \<and> m_left n = None \<and> m_right n = None \<and> m_parent n = None)"
proof -
  define c where "c = (if l \<noteq> Tip then l else r)"
  let ?u = "up tr fs" and ?A = "cells tr fs (Bin l a b r)"
  have okp: "path_ok fs (Suc (ht c))" "avl_ok c" using ok one by (auto simp: avl_plug c_def)
  obtain h1 h2 where s: "setChild (hole_dir fs) h (Some ?u) (peak c) = Some h1"
    "(if peak c \<noteq> None then setParent h1 (peak c) (Some ?u) else Some h1) = Some h2" "whole h2 tr fs c" "h2 a = h a" "relinks ?A h h2"
    using splice [OF w one c_def] by blast
  obtain h3 t3 where r: "remove_retrace h2 (Some ?u) (hole_dir fs = Lft) = Some h3" "whole h3 tr [] t3" "avl_ok t3"
    "elems t3 = elems (plug c fs)" "relinks (cells tr fs c) h2 h3"
    using remove_retrace_focus [OF s(3) okp(2,1)] by blast
  have w': "whole h tr fs (bin Lft l a b r)" using w by simp
  obtain n where n: "h a = Some n" "m_left n = peak l" "m_right n = peak r" "m_parent n = Some ?u" using whole_node [OF w'] by auto
  obtain q where q: "getLeft h (Some ?u) = Some q" "(Some a = q) \<longleftrightarrow> hole_dir fs = Lft" using hole_side [OF w'] by blast
  have out: "a \<notin> cells tr fs c" using w by (auto simp: whole_def cells_def c_def)
  have h3a: "h3 a = Some n" using r(5) out s(4) n(1) by (simp add: relinks_def)
  define n' where "n' = n\<lparr>m_parent := None, m_is_NOT_root := True, m_balance := eEVEN, m_right := None, m_left := None, m_inListPtr := None\<rparr>"
  have ch: "(if peak l \<noteq> None then peak l else if peak r \<noteq> None then peak r else None) = peak c" by (simp add: c_def)
  have g: "getParent h (Some a) = Some (Some ?u)" "getLeft h (Some a) = Some (peak l)" "getRight h (Some a) = Some (peak r)"
    using n by (simp_all add: prims_lr heap_simps)
  have e: "(if hole_dir fs = Lft then setLeft h (Some ?u) (peak c) else setRight h (Some ?u) (peak c)) = Some h1"
    using s(1) by (simp add: setChild_def)
  have fin: "do { h \<leftarrow> MapItem_initialize h3 (Some a) None; MapItem_remove h (Some a) } = Some (h3(a \<mapsto> n'))"
    using h3a by (simp add: MapItem_initialize_def MapItem_remove_def heap_simps n'_def)
  have run: "remove_spliced h a = Some (h3(a \<mapsto> n'))"
    unfolding remove_spliced_def Let_def
    using g q e s(2) r(1) fin ch by (simp del: peak_None peak_Some not_None_eq split del: if_split cong: if_cong)
  have "a \<notin> set (elems t3)" "a \<noteq> tr" using out r(4) by (auto simp: cells_plug)
  then have "whole (h3(a \<mapsto> n')) tr [] t3" using r(2) by (auto simp: whole_def)
  moreover have "elems t3 = before_hole fs @ elems l @ elems r @ after_hole fs" using r(4) one by (auto simp: elems_plug c_def)
  moreover have "cells tr fs c \<subseteq> ?A" "a \<in> ?A" by (auto simp: cells_def c_def)
  ultimately show ?thesis
    using run r(3,5) s(5) by (intro exI [of _ "h3(a \<mapsto> n')"] exI [of _ t3]) (auto simp: relinks_def n'_def)
qed

section \<open>Removal\<close>

lemma swap_address:
  "path_ok (fs @ Frame d a b s # gs) k = path_ok (fs @ Frame d p b s # gs) k"
  by (induction fs k rule: path_ok.induct) auto

lemma holes_append: "before_hole (fs @ gs) = before_hole gs @ before_hole fs" "after_hole (fs @ gs) = after_hole fs @ after_hole gs"
  by (induction fs rule: before_hole.induct) auto

lemma exchange_focus:
  assumes w: "whole h tr fs (Bin l a b r)" and two: "l \<noteq> Tip" "r \<noteq> Tip" and ok: "avl_ok (plug (Bin l a b r) fs)"
  shows "\<exists>h' gs l'. exchangeWithPrev h (Some a) = Some h' \<and> (\<exists>b'. whole h' tr gs (Bin l' a b' Tip) \<and> avl_ok (plug (Bin l' a b' Tip) gs) \<and>
      cells tr gs (Bin l' a b' Tip) = cells tr fs (Bin l a b r)) \<and>
    before_hole gs @ elems l' @ after_hole gs = before_hole fs @ elems l @ elems r @ after_hole fs \<and>
    relinks (cells tr fs (Bin l a b r)) h h'"
proof -
  have "sub h a l" using w by (auto simp: whole_def)
  then obtain fin pl p pb where f: "prev_loop h (peak l) True = Some (Some p, fin = [])" "plug (Bin pl p pb Tip) fin = l" "rightwards fin"
    using prev_loop_sub [of h a l True] two(1) by auto
  have wl: "whole h tr (fin @ Frame Lft a b r # fs) (Bin pl p pb Tip)"
    using w whole_plug [of h tr "fin @ Frame Lft a b r # fs" "Bin pl p pb Tip"] whole_plug [of h tr fs "Bin l a b r"] by (simp add: f(2))
  have cl: "cells tr (fin @ Frame Lft p b r # fs) (Bin pl a pb Tip) = cells tr fs (Bin l a b r)"
    "cells tr (fin @ Frame Lft a b r # fs) (Bin pl p pb Tip) = cells tr fs (Bin l a b r)"
    by (auto simp: cells_plug elems_plug f(2) [symmetric] holes_append)
  have "\<exists>h'. exchangeWithPrev h (Some a) = Some h' \<and> whole h' tr (fin @ Frame Lft p b r # fs) (Bin pl a pb Tip) \<and>
    relinks (cells tr fs (Bin l a b r)) h h'"
  proof (cases fin)
    case Nil
    then have l: "l = Bin pl p pb Tip" using f(2) by simp
    show ?thesis using exchange_child [of h tr fs pl p pb a b r] w two(2) by (simp add: Nil l)
  next
    case (Cons g gs)
    then obtain x bx sx where g: "g = Frame Rgt x bx sx" using f(3) by (cases g) auto
    have "path h tr (fin @ Frame Lft a b r # fs) (Some p)" using wl by (simp add: whole_def)
    moreover have "\<exists>n. h a = Some n \<and> m_left n = peak l" using w by (auto simp: whole_def)
    ultimately have "seg_top fin (Some p) = peak l" unfolding path_append by auto
    then show ?thesis using exchange_deep [of h tr x bx sx gs a b r fs pl p pb] wl two(2) f(1) cl(2) by (simp add: Cons g)
  qed
  then obtain h' where h': "exchangeWithPrev h (Some a) = Some h'" "whole h' tr (fin @ Frame Lft p b r # fs) (Bin pl a pb Tip)"
    "relinks (cells tr fs (Bin l a b r)) h h'" by blast
  have "avl_ok (plug (Bin pl a pb Tip) (fin @ Frame Lft p b r # fs)) = avl_ok (plug (Bin pl p pb Tip) (fin @ Frame Lft a b r # fs))"
    unfolding avl_plug using swap_address [of fin Lft p b r fs _ a] by simp
  then have ok': "avl_ok (plug (Bin pl a pb Tip) (fin @ Frame Lft p b r # fs))" using ok f(2) by simp
  have "elems l = before_hole fin @ elems pl @ p # after_hole fin" using f(2) elems_plug [of "Bin pl p pb Tip" fin] by simp
  moreover have "after_hole fin = []" using f(3) by (induction fin rule: after_hole.induct) auto
  ultimately have "before_hole (fin @ Frame Lft p b r # fs) @ elems pl @ after_hole (fin @ Frame Lft p b r # fs) =
      before_hole fs @ elems l @ elems r @ after_hole fs"
    by (simp add: holes_append)
  then show ?thesis using h' ok' cl(1) by blast
qed

lemma remove1_focus: "distinct (xs @ a # ys) \<Longrightarrow> remove1 a (xs @ a # ys) = xs @ ys"
  by (simp add: remove1_append)

lemma key_sorted_remove1: "key_sorted ks xs \<Longrightarrow> key_sorted ks (remove1 a xs)"
proof (induction xs)
  case (Cons x xs)
  then show ?case using set_remove1_subset [of a xs] by auto
qed simp

lemma avl_remove:
  assumes m: "avl_map ks h tr xs" and a: "a \<in> set xs"
  shows "\<exists>h'. AvlTree_removeItem h tr a = Some (Some a, h') \<and> avl_map ks h' tr (remove1 a xs) \<and>
    (\<forall>x. x \<notin> insert tr (set xs) \<longrightarrow> h' x = h x) \<and> (\<forall>x. x \<noteq> a \<longrightarrow> map_option m_inListPtr (h' x) = map_option m_inListPtr (h x)) \<and>
    (\<exists>n. h' a = Some n \<and> m_inListPtr n = None)"
proof -
  obtain t where t: "whole h tr [] t" "avl_ok t" "elems t = xs" and so: "key_sorted ks xs" and mk: "marked h tr = set xs"
    using m by (auto simp: avl_map_def)
  obtain fs l b r where p: "plug (Bin l a b r) fs = t" using focus [of a t] a t(3) by blast
  have w: "whole h tr fs (Bin l a b r)" using t(1) p whole_plug by blast
  have xs: "xs = (before_hole fs @ elems l) @ a # elems r @ after_hole fs" using t(3) p elems_plug [of "Bin l a b r" fs] by simp
  have rm: "remove1 a xs = before_hole fs @ elems l @ elems r @ after_hole fs"
    using remove1_focus [of "before_hole fs @ elems l" a "elems r @ after_hole fs"] avl_mapD [OF m] by (simp add: xs)
  have cl: "cells tr fs (Bin l a b r) = insert tr (set xs)" using p t(3) by (simp add: cells_plug)
  obtain n where n: "h a = Some n" "m_left n = peak l" "m_right n = peak r" using w by (auto simp: whole_def)
  have "a \<in> marked h tr" using a mk by simp
  then have "m_inListPtr n = Some tr" using n(1) by (simp add: marked_def)
  then have eq: "AvlTree_removeItem h tr a = do { h \<leftarrow> (if l \<noteq> Tip \<and> r \<noteq> Tip then exchangeWithPrev h (Some a) else Some h);
      h \<leftarrow> remove_spliced h a; Some (Some a, h) }"
    using n by (simp add: removeItem_eq)
  have "\<exists>h1 h2 t'. (if l \<noteq> Tip \<and> r \<noteq> Tip then exchangeWithPrev h (Some a) else Some h) = Some h1 \<and> remove_spliced h1 a = Some h2 \<and>
    whole h2 tr [] t' \<and> avl_ok t' \<and> elems t' = remove1 a xs \<and> (\<forall>x. x \<notin> insert tr (set xs) \<longrightarrow> h2 x = h x) \<and>
    (\<forall>x. x \<noteq> a \<longrightarrow> map_option m_inListPtr (h2 x) = map_option m_inListPtr (h x)) \<and> (\<exists>n. h2 a = Some n \<and> m_inListPtr n = None)"
  proof (cases "l \<noteq> Tip \<and> r \<noteq> Tip")
    case True
    then obtain h1 gs l' b' where e: "exchangeWithPrev h (Some a) = Some h1" "whole h1 tr gs (Bin l' a b' Tip)" "avl_ok (plug (Bin l' a b' Tip) gs)"
      "cells tr gs (Bin l' a b' Tip) = insert tr (set xs)" "before_hole gs @ elems l' @ after_hole gs = remove1 a xs" "relinks (insert tr (set xs)) h h1"
      using exchange_focus [OF w] t(2) p rm cl by auto
    obtain h2 t' where "remove_spliced h1 a = Some h2" "whole h2 tr [] t'" "avl_ok t'" "elems t' = remove1 a xs"
      "\<forall>x. x \<notin> insert tr (set xs) \<longrightarrow> h2 x = h1 x" "\<forall>x. x \<noteq> a \<longrightarrow> map_option m_inListPtr (h2 x) = map_option m_inListPtr (h1 x)"
      "\<exists>n. h2 a = Some n \<and> m_inListPtr n = None"
      using remove_spliced_focus [OF e(2) _ e(3)] e(4,5) by auto
    then show ?thesis using True e(1,6) by (auto simp: relinks_def)
  next
    case False
    then have "l = Tip \<or> r = Tip" by blast
    then show ?thesis using remove_spliced_focus [OF w] t(2) p rm cl False by auto
  qed
  then obtain h1 h2 t' where r: "(if l \<noteq> Tip \<and> r \<noteq> Tip then exchangeWithPrev h (Some a) else Some h) = Some h1" "remove_spliced h1 a = Some h2"
    "whole h2 tr [] t'" "avl_ok t'" "elems t' = remove1 a xs" "\<forall>x. x \<notin> insert tr (set xs) \<longrightarrow> h2 x = h x"
    "\<forall>x. x \<noteq> a \<longrightarrow> map_option m_inListPtr (h2 x) = map_option m_inListPtr (h x)" "\<exists>n. h2 a = Some n \<and> m_inListPtr n = None" by blast
  have "marked h2 tr = set (remove1 a xs)"
  proof -
    have "x \<in> marked h2 tr \<longleftrightarrow> x \<in> marked h tr" if "x \<noteq> a" for x
      using r(7) that by (cases "h x"; cases "h2 x") (auto simp: marked_def dest!: spec [of _ x])
    moreover have "a \<notin> marked h2 tr" using r(8) by (auto simp: marked_def)
    ultimately have "x \<in> marked h2 tr \<longleftrightarrow> x \<in> set xs \<and> x \<noteq> a" for x using mk by (cases "x = a") auto
    then show ?thesis using avl_mapD [OF m] by (auto simp: set_remove1_eq)
  qed
  then have "avl_map ks h2 tr (remove1 a xs)" using r(3-5) key_sorted_remove1 [OF so] by (auto simp: avl_map_def)
  then show ?thesis using eq r(1,2,6-8) by auto
qed

lemma avl_remove_other: "h a = Some n \<Longrightarrow> avl_map ks h tr xs \<Longrightarrow> a \<notin> set xs \<Longrightarrow> AvlTree_removeItem h tr a = Some (None, h)"
  by (auto simp: removeItem_eq avl_map_def marked_def)

end
