(* ===== verification/Avl_Walk.thy ===== *)
theory Avl_Walk
  imports Avl_Remove
begin

text \<open>
  Walking over a tree in the order of the keys, and the template \<^verbatim>\<open>Map.h\<close>, which delegates to the tree and
  drains it item by item to move or clear it.
\<close>

section \<open>Ends of a subtree\<close>

lemma leftmost_sub: "sub h p t \<Longrightarrow> t \<noteq> Tip \<Longrightarrow> leftmost h (peak t) = Some (first_or (elems t) None)"
proof (induction t arbitrary: p)
  case (Bin l a b r)
  then obtain n where n: "h a = Some n" "m_left n = peak l" by auto
  have "leftmost h (Some a) = (if l \<noteq> Tip then leftmost h (peak l) else Some (Some a))"
    using n by (subst leftmost.simps) (cases l; simp add: prims_lr)
  then show ?case using Bin.IH(1) [of a] Bin.prems by (cases l) auto
qed simp

lemma rightmost_sub: "sub h p t \<Longrightarrow> t \<noteq> Tip \<Longrightarrow> rightmost h (peak t) = Some (last_or None (elems t))"
proof (induction t arbitrary: p)
  case (Bin l a b r)
  then obtain n where n: "h a = Some n" "m_right n = peak r" by auto
  have "rightmost h (Some a) = (if r \<noteq> Tip then rightmost h (peak r) else Some (Some a))"
    using n by (subst rightmost.simps) (cases r; simp add: prims_lr)
  then show ?case using Bin.IH(2) [of a] Bin.prems by (cases r) auto
qed simp

section \<open>Neighbours\<close>

lemma climb_right_focus:
  "whole h tr fs (bin d x a b y) \<Longrightarrow> \<exists>c n gs. climb_right h (Some a) = Some (Some c) \<and> h c = Some n \<and> m_parent n = Some (up tr gs) \<and>
    (\<exists>g. h (up tr gs) = Some g \<and> (m_is_NOT_root g \<longleftrightarrow> gs \<noteq> [])) \<and> hole_dir gs = Lft \<and> after_hole gs = after_hole fs"
proof (induction fs arbitrary: d x a b y)
  case Nil
  obtain n where n: "h a = Some n" "m_parent n = Some tr" "m_is_NOT_root n" using whole_node [OF Nil] by auto
  obtain g where g: "h tr = Some g" "\<not> m_is_NOT_root g" using hole_side(3) [OF Nil] by auto
  have pa: "path h tr [] (Some a)" using Nil by (auto simp: whole_def)
  then have "m_right g \<noteq> Some a" using g by simp
  then have "climb_right h (Some a) = Some (Some a)" using n g by (subst climb_right.simps) (simp add: heap_simps prims_lr)
  then show ?case using n g by (intro exI [of _ a] exI [of _ n] exI [of _ "[]"]) simp
next
  case (Cons f fs)
  obtain e z c s where f: "f = Frame e z c s" by (cases f)
  have w: "whole h tr (f # fs) (bin d x a b y)" by (rule Cons.prems)
  then have wz: "whole h tr fs (bin e (bin d x a b y) z c s)" by (simp add: f)
  obtain n where n: "h a = Some n" "m_parent n = Some z" "m_is_NOT_root n" using whole_node [OF w] by (auto simp: f)
  obtain g where g: "h z = Some g" "m_is_NOT_root g" using hole_side(3) [OF w] by (auto simp: f)
  have "path h tr (f # fs) (Some a)" "a \<notin> set (path_elems (f # fs))" using w by (auto simp: whole_def)
  then have "m_right g = Some a \<longleftrightarrow> e = Rgt" using peak_other [of h tr "f # fs" a g Rgt] g by (auto simp: f)
  then have eq: "climb_right h (Some a) = (if e = Rgt then climb_right h (Some z) else Some (Some a))"
    using n g by (subst climb_right.simps) (simp add: heap_simps prims_lr)
  show ?case
  proof (cases e)
    case Lft
    then show ?thesis using eq n g by (intro exI [of _ a] exI [of _ n] exI [of _ "f # fs"]) (simp add: f)
  next
    case Rgt
    then show ?thesis using Cons.IH [OF wz] eq by (simp add: f)
  qed
qed

lemma climb_left_focus:
  "whole h tr fs (bin d x a b y) \<Longrightarrow> \<exists>c n gs. climb_left h (Some a) = Some (Some c) \<and> h c = Some n \<and> before_hole gs = before_hole fs \<and>
    (if gs = [] then \<not> m_is_NOT_root n else m_is_NOT_root n \<and> m_parent n = Some (up tr gs) \<and> hole_dir gs = Rgt \<and>
       (\<exists>g. h (up tr gs) = Some g \<and> m_is_NOT_root g))"
proof (induction fs arbitrary: d x a b y)
  case Nil
  obtain n where n: "h a = Some n" "m_parent n = Some tr" "m_is_NOT_root n" using whole_node [OF Nil] by auto
  obtain g where g: "h tr = Some g" "\<not> m_is_NOT_root g" using hole_side(3) [OF Nil] by auto
  have pa: "path h tr [] (Some a)" using Nil by (auto simp: whole_def)
  then have "climb_left h (Some a) = climb_left h (Some tr)" using n g by (subst climb_left.simps) (simp add: heap_simps prims_lr)
  moreover have "climb_left h (Some tr) = Some (Some tr)" using g by (subst climb_left.simps) (simp add: heap_simps prims_lr)
  ultimately show ?case using g by (intro exI [of _ tr] exI [of _ g] exI [of _ "[]"]) simp
next
  case (Cons f fs)
  obtain e z c s where f: "f = Frame e z c s" by (cases f)
  have w: "whole h tr (f # fs) (bin d x a b y)" by (rule Cons.prems)
  then have wz: "whole h tr fs (bin e (bin d x a b y) z c s)" by (simp add: f)
  obtain n where n: "h a = Some n" "m_parent n = Some z" "m_is_NOT_root n" using whole_node [OF w] by (auto simp: f)
  obtain g where g: "h z = Some g" "m_is_NOT_root g" using hole_side(3) [OF w] by (auto simp: f)
  have "path h tr (f # fs) (Some a)" "a \<notin> set (path_elems (f # fs))" using w by (auto simp: whole_def)
  then have "m_left g = Some a \<longleftrightarrow> e = Lft" using peak_other [of h tr "f # fs" a g Lft] g by (auto simp: f)
  then have eq: "climb_left h (Some a) = (if e = Lft then climb_left h (Some z) else Some (Some a))"
    using n g by (subst climb_left.simps) (simp add: heap_simps prims_lr)
  show ?case
  proof (cases e)
    case Rgt
    then show ?thesis using eq n g by (intro exI [of _ a] exI [of _ n] exI [of _ "f # fs"]) (simp add: f)
  next
    case Lft
    then show ?thesis using Cons.IH [OF wz] eq by (simp add: f)
  qed
qed

lemma first_after: "hole_dir gs = Lft \<Longrightarrow> first_or (after_hole gs) None = (if gs \<noteq> [] then Some (up tr gs) else None)"
  by (cases gs rule: after_hole.cases) auto

lemma last_before: "gs \<noteq> [] \<Longrightarrow> hole_dir gs = Rgt \<Longrightarrow> last_or None (before_hole gs) = Some (up tr gs)"
  by (cases gs rule: before_hole.cases) auto

lemma next_focus:
  assumes w: "whole h tr fs (Bin l a b r)"
  shows "AvlTree_next h a = Some (first_or (elems r @ after_hole fs) None)"
proof -
  have w': "whole h tr fs (bin Lft l a b r)" using w by simp
  obtain n where n: "h a = Some n" "m_right n = peak r" "m_parent n = Some (up tr fs)" using whole_node [OF w'] by auto
  obtain g where g: "h (up tr fs) = Some g" "m_is_NOT_root g \<longleftrightarrow> fs \<noteq> []" using hole_side(3) [OF w'] by auto
  have "path h tr fs (Some a)" "a \<notin> set (path_elems fs)" using w by (auto simp: whole_def)
  then have side: "m_left g = Some a \<longleftrightarrow> hole_dir fs = Lft" "m_right g = Some a \<longleftrightarrow> hole_dir fs = Rgt"
    using peak_other [of h tr fs a g Lft] peak_other [of h tr fs a g Rgt] g(1) by (metis child_simps)+
  show ?thesis
  proof (cases "r = Tip")
    case False
    moreover have "sub h a r" using w by (auto simp: whole_def)
    ultimately show ?thesis using n leftmost_sub [of h a r] by (cases r) (auto simp: AvlTree_next_def)
  next
    case True
    show ?thesis
    proof (cases "hole_dir fs")
      case Lft
      then show ?thesis using n g side True first_after [OF Lft, of tr] by (simp add: AvlTree_next_def heap_simps)
    next
      case Rgt
      then obtain z c s gs where fs: "fs = Frame Rgt z c s # gs" by (cases fs rule: after_hole.cases) auto
      then have "whole h tr gs (bin Rgt (Bin l a b r) z c s)" using w by simp
      then obtain c' n' gs' where c: "climb_right h (Some z) = Some (Some c')" "h c' = Some n'" "m_parent n' = Some (up tr gs')"
        "\<exists>g. h (up tr gs') = Some g \<and> (m_is_NOT_root g \<longleftrightarrow> gs' \<noteq> [])" "hole_dir gs' = Lft" "after_hole gs' = after_hole gs"
        using climb_right_focus by blast
      then show ?thesis
        using n g side True Rgt first_after [OF c(5), of tr] by (auto simp: AvlTree_next_def heap_simps fs)
    qed
  qed
qed

lemma previous_focus:
  assumes w: "whole h tr fs (Bin l a b r)"
  shows "AvlTree_previous h a = Some (last_or None (before_hole fs @ elems l))"
proof -
  have w': "whole h tr fs (bin Lft l a b r)" using w by simp
  obtain n where n: "h a = Some n" "m_left n = peak l" "m_parent n = Some (up tr fs)" using whole_node [OF w'] by auto
  obtain g where g: "h (up tr fs) = Some g" "m_is_NOT_root g \<longleftrightarrow> fs \<noteq> []" using hole_side(3) [OF w'] by auto
  have "path h tr fs (Some a)" "a \<notin> set (path_elems fs)" using w by (auto simp: whole_def)
  then have side: "m_left g = Some a \<longleftrightarrow> hole_dir fs = Lft" "m_right g = Some a \<longleftrightarrow> hole_dir fs = Rgt"
    using peak_other [of h tr fs a g Lft] peak_other [of h tr fs a g Rgt] g(1) by (metis child_simps)+
  show ?thesis
  proof (cases "l = Tip")
    case False
    moreover have "sub h a l" using w by (auto simp: whole_def)
    moreover have "last_or None (before_hole fs @ elems l) = last_or None (elems l)" if "elems l \<noteq> []"
      using that by (cases "elems l" rule: rev_cases) auto
    moreover have "elems l \<noteq> []" using False by (cases l) auto
    ultimately show ?thesis using n rightmost_sub [of h a l] by (cases l) (auto simp: AvlTree_previous_def)
  next
    case True
    show ?thesis
    proof (cases "hole_dir fs")
      case Rgt
      then have "fs \<noteq> []" by auto
      then show ?thesis using n g side True Rgt last_before [OF _ Rgt, of tr] by (simp add: AvlTree_previous_def heap_simps)
    next
      case Lft
      show ?thesis
      proof (cases fs)
        case Nil
        have "climb_left h (Some tr) = Some (Some tr)" using g Nil by (subst climb_left.simps) (simp add: heap_simps)
        then show ?thesis using n g side True Lft by (simp add: AvlTree_previous_def heap_simps Nil)
      next
        case (Cons f gs)
        then obtain z c s where f: "f = Frame Lft z c s" using Lft by (cases f) auto
        have "whole h tr gs (bin Lft (Bin l a b r) z c s)" using w by (simp add: Cons f)
        then obtain c' n' gs' where c: "climb_left h (Some z) = Some (Some c')" "h c' = Some n'" "before_hole gs' = before_hole gs"
          "if gs' = [] then \<not> m_is_NOT_root n' else m_is_NOT_root n' \<and> m_parent n' = Some (up tr gs') \<and> hole_dir gs' = Rgt \<and>
             (\<exists>g. h (up tr gs') = Some g \<and> m_is_NOT_root g)"
          using climb_left_focus by blast
        then show ?thesis
          using n g side True Lft last_before [of gs' tr] by (cases "gs' = []") (auto simp: AvlTree_previous_def heap_simps Cons f)
      qed
    qed
  qed
qed

end
