(* ===== verification/Map_Container.thy ===== *)
theory Map_Container
  imports Avl_Walk
begin

text \<open>
  The template \<^verbatim>\<open>src/src/Cpl/Container/Map.h\<close> and its contract: a map refines the list of its items in the order of their
  keys.  The only member of a map is its tree, so both have the same address.
\<close>

section \<open>\<^verbatim>\<open>Map.h\<close>\<close>

definition Map_insert :: "'k keys \<Rightarrow> map_heap \<Rightarrow> addr \<Rightarrow> addr \<Rightarrow> (bool \<times> map_heap) option" where
  "Map_insert ks h m node = AvlTree_insert ks h m node"

definition Map_find :: "'k keys \<Rightarrow> map_heap \<Rightarrow> addr \<Rightarrow> 'k \<Rightarrow> ptr option" where
  "Map_find ks h m keyToFind = AvlTree_find ks h m keyToFind"

definition Map_first :: "map_heap \<Rightarrow> addr \<Rightarrow> ptr option" where
  "Map_first h m = AvlTree_first h m"

definition Map_last :: "map_heap \<Rightarrow> addr \<Rightarrow> ptr option" where
  "Map_last h m = AvlTree_last h m"

definition Map_next :: "map_heap \<Rightarrow> addr \<Rightarrow> ptr option" where
  "Map_next h current = AvlTree_next h current"

definition Map_previous :: "map_heap \<Rightarrow> addr \<Rightarrow> ptr option" where
  "Map_previous h current = AvlTree_previous h current"

definition Map_isInMap :: "map_heap \<Rightarrow> addr \<Rightarrow> addr \<Rightarrow> bool option" where
  "Map_isInMap h m node = map_option (\<lambda>n. m_inListPtr n = Some m) (h node)"

definition Map_remove :: "'k keys \<Rightarrow> map_heap \<Rightarrow> addr \<Rightarrow> 'k \<Rightarrow> (ptr \<times> map_heap) option" where
  "Map_remove ks h m keyOfItemToDelete = do {
     nodePtr \<leftarrow> Map_find ks h m keyOfItemToDelete;
     case nodePtr of Some node \<Rightarrow> AvlTree_removeItem h m node | None \<Rightarrow> Some (None, h)
   }"

definition Map_removeItem :: "map_heap \<Rightarrow> addr \<Rightarrow> addr \<Rightarrow> (bool \<times> map_heap) option" where
  "Map_removeItem h m node = do {
     (p, h) \<leftarrow> AvlTree_removeItem h m node;
     Some (p \<noteq> None, h)
   }"

definition Map_getFirst :: "map_heap \<Rightarrow> addr \<Rightarrow> (ptr \<times> map_heap) option" where
  "Map_getFirst h m = do {
     nodePtr \<leftarrow> Map_first h m;
     case nodePtr of Some node \<Rightarrow> AvlTree_removeItem h m node | None \<Rightarrow> Some (None, h)
   }"

definition Map_getLast :: "map_heap \<Rightarrow> addr \<Rightarrow> (ptr \<times> map_heap) option" where
  "Map_getLast h m = do {
     nodePtr \<leftarrow> Map_last h m;
     case nodePtr of Some node \<Rightarrow> AvlTree_removeItem h m node | None \<Rightarrow> Some (None, h)
   }"

partial_function (option) Map_clearTheMap :: "map_heap \<Rightarrow> addr \<Rightarrow> map_heap option" where
  "Map_clearTheMap h m = do {
     (p, h) \<leftarrow> Map_getFirst h m;
     if p \<noteq> None then Map_clearTheMap h m else Some h
   }"

partial_function (option) Map_move_loop :: "'k keys \<Rightarrow> map_heap \<Rightarrow> addr \<Rightarrow> addr \<Rightarrow> map_heap option" where
  "Map_move_loop ks h m dst = do {
     (p, h) \<leftarrow> Map_getFirst h m;
     case p of None \<Rightarrow> Some h
     | Some node \<Rightarrow> do {
         (_, h) \<leftarrow> Map_insert ks h dst node;
         Map_move_loop ks h m dst
       }
   }"

definition Map_move :: "'k keys \<Rightarrow> map_heap \<Rightarrow> addr \<Rightarrow> addr \<Rightarrow> map_heap option" where
  "Map_move ks h m dst = do {
     h \<leftarrow> Map_clearTheMap h dst;
     Map_move_loop ks h m dst
   }"

section \<open>Each operation against the list\<close>

lemma avl_mapE:
  assumes "avl_map ks h tr xs"
  obtains t where "whole h tr [] t" "sub h tr t" "getLeft h (Some tr) = Some (peak t)" "avl_ok t" "elems t = xs" "key_sorted ks xs" "marked h tr = set xs"
  using assms that by (auto simp: avl_map_def whole_def prims_lr)

lemma find_map:
  assumes "narrow_key_order (keyCompare ks)" and "avl_map ks h tr xs"
  shows "Map_find ks h tr key = Some (List.find (\<lambda>a. getKey ks a = key) xs)"
  using assms find_loop_sub [OF assms(1)] by (elim avl_mapE) (auto simp: Map_find_def AvlTree_find_def)

lemma first_map: "avl_map ks h tr xs \<Longrightarrow> Map_first h tr = Some (first_or xs None)"
  by (elim avl_mapE) (auto simp: Map_first_def AvlTree_first_def leftmost_sub)

lemma last_map: "avl_map ks h tr xs \<Longrightarrow> Map_last h tr = Some (last_or None xs)"
  by (elim avl_mapE) (auto simp: Map_last_def AvlTree_last_def rightmost_sub)

lemma neighbours_map:
  assumes "avl_map ks h tr (us @ a # vs)"
  shows "Map_next h a = Some (first_or vs None)" and "Map_previous h a = Some (last_or None us)"
proof -
  obtain t where t: "whole h tr [] t" "elems t = us @ a # vs" using assms by (auto simp: avl_map_def)
  then obtain fs l b r where p: "plug (Bin l a b r) fs = t" using focus [of a t] by auto
  have w: "whole h tr fs (Bin l a b r)" using t(1) p whole_plug by blast
  have "(before_hole fs @ elems l) @ a # elems r @ after_hole fs = us @ a # vs" using t(2) p elems_plug [of "Bin l a b r" fs] by simp
  moreover have "distinct (us @ a # vs)" using avl_mapD [OF assms] by simp
  ultimately have "before_hole fs @ elems l = us" "elems r @ after_hole fs = vs"
    using distinct_split_unique [of us a vs "before_hole fs @ elems l" "elems r @ after_hole fs"] by auto
  then show "Map_next h a = Some (first_or vs None)" and "Map_previous h a = Some (last_or None us)"
    using next_focus [OF w] previous_focus [OF w] by (auto simp: Map_next_def Map_previous_def)
qed

text \<open>What a removal of \<open>a\<close> leaves: the items outside, and every mark but the one of \<open>a\<close>.\<close>

definition removed :: "'k :: linorder keys \<Rightarrow> addr \<Rightarrow> addr list \<Rightarrow> addr \<Rightarrow> map_heap \<Rightarrow> map_heap \<Rightarrow> bool" where
  "removed ks tr xs a h h' \<longleftrightarrow> avl_map ks h' tr (remove1 a xs) \<and> (\<forall>x. x \<notin> insert tr (set xs) \<longrightarrow> h' x = h x) \<and>
     (\<forall>x. x \<noteq> a \<longrightarrow> map_option m_inListPtr (h' x) = map_option m_inListPtr (h x)) \<and> (\<exists>n. h' a = Some n \<and> m_inListPtr n = None)"

lemma removeItem_map:
  "avl_map ks h tr xs \<Longrightarrow> a \<in> set xs \<Longrightarrow> \<exists>h'. AvlTree_removeItem h tr a = Some (Some a, h') \<and> removed ks tr xs a h h'"
  using avl_remove [of ks h tr xs a] by (simp add: removed_def)

lemma getFirst_map:
  assumes "avl_map ks h tr xs"
  shows "if xs = [] then Map_getFirst h tr = Some (None, h)
    else \<exists>h'. Map_getFirst h tr = Some (Some (hd xs), h') \<and> removed ks tr xs (hd xs) h h'"
  using first_map [OF assms] removeItem_map [OF assms, of "hd xs"] by (cases xs) (auto simp: Map_getFirst_def)

lemma last_or_last: "xs \<noteq> [] \<Longrightarrow> last_or None xs = Some (last xs)"
  by (cases xs rule: rev_cases) auto

lemma getLast_map:
  assumes "avl_map ks h tr xs"
  shows "if xs = [] then Map_getLast h tr = Some (None, h)
    else \<exists>h'. Map_getLast h tr = Some (Some (last xs), h') \<and> removed ks tr xs (last xs) h h'"
  using last_map [OF assms] removeItem_map [OF assms, of "last xs"] by (auto simp: Map_getLast_def last_or_last)

section \<open>Sequences of operations\<close>

datatype 'k map_op = Insert addr | Remove 'k | RemoveItem addr | GetFirst | GetLast | Find 'k | First | Last | Next addr | Previous addr | IsIn addr

datatype map_result = RBool bool | RPtr ptr

definition map_step :: "'k keys \<Rightarrow> addr \<Rightarrow> 'k map_op \<Rightarrow> map_heap \<Rightarrow> (map_result \<times> map_heap) option" where
  "map_step ks m op h = (case op of
     Insert a \<Rightarrow> map_option (apfst RBool) (Map_insert ks h m a)
   | Remove k \<Rightarrow> map_option (apfst RPtr) (Map_remove ks h m k)
   | RemoveItem a \<Rightarrow> map_option (apfst RBool) (Map_removeItem h m a)
   | GetFirst \<Rightarrow> map_option (apfst RPtr) (Map_getFirst h m)
   | GetLast \<Rightarrow> map_option (apfst RPtr) (Map_getLast h m)
   | Find k \<Rightarrow> map_option (\<lambda>p. (RPtr p, h)) (Map_find ks h m k)
   | First \<Rightarrow> map_option (\<lambda>p. (RPtr p, h)) (Map_first h m)
   | Last \<Rightarrow> map_option (\<lambda>p. (RPtr p, h)) (Map_last h m)
   | Next a \<Rightarrow> map_option (\<lambda>p. (RPtr p, h)) (Map_next h a)
   | Previous a \<Rightarrow> map_option (\<lambda>p. (RPtr p, h)) (Map_previous h a)
   | IsIn a \<Rightarrow> map_option (\<lambda>b. (RBool b, h)) (Map_isInMap h m a))"

fun map_run :: "'k keys \<Rightarrow> addr \<Rightarrow> 'k map_op list \<Rightarrow> map_heap \<Rightarrow> (map_result list \<times> map_heap) option" where
  "map_run ks m [] h = Some ([], h)"
| "map_run ks m (op # ops) h = do {
     (r, h) \<leftarrow> map_step ks m op h;
     (rs, h) \<leftarrow> map_run ks m ops h;
     Some (r # rs, h)
   }"

text \<open>The specification: the list of the items in the order of their keys.\<close>

definition after_in :: "addr \<Rightarrow> addr list \<Rightarrow> ptr" where
  "after_in a xs = first_or (tl (dropWhile (\<lambda>x. x \<noteq> a) xs)) None"

definition before_in :: "addr \<Rightarrow> addr list \<Rightarrow> ptr" where
  "before_in a xs = last_or None (takeWhile (\<lambda>x. x \<noteq> a) xs)"

definition spec_step :: "'k :: linorder keys \<Rightarrow> 'k map_op \<Rightarrow> addr list \<Rightarrow> map_result \<times> addr list" where
  "spec_step ks op xs = (case op of
     Insert a \<Rightarrow> (if \<exists>x\<in>set xs. getKey ks x = getKey ks a then (RBool False, xs) else (RBool True, insort_key (getKey ks) a xs))
   | Remove k \<Rightarrow> (case List.find (\<lambda>x. getKey ks x = k) xs of None \<Rightarrow> (RPtr None, xs) | Some a \<Rightarrow> (RPtr (Some a), remove1 a xs))
   | RemoveItem a \<Rightarrow> (RBool (a \<in> set xs), remove1 a xs)
   | GetFirst \<Rightarrow> (RPtr (first_or xs None), tl xs)
   | GetLast \<Rightarrow> (RPtr (last_or None xs), butlast xs)
   | Find k \<Rightarrow> (RPtr (List.find (\<lambda>x. getKey ks x = k) xs), xs)
   | First \<Rightarrow> (RPtr (first_or xs None), xs)
   | Last \<Rightarrow> (RPtr (last_or None xs), xs)
   | Next a \<Rightarrow> (RPtr (after_in a xs), xs)
   | Previous a \<Rightarrow> (RPtr (before_in a xs), xs)
   | IsIn a \<Rightarrow> (RBool (a \<in> set xs), xs))"

fun spec_run :: "'k :: linorder keys \<Rightarrow> 'k map_op list \<Rightarrow> addr list \<Rightarrow> map_result list \<times> addr list" where
  "spec_run ks [] xs = ([], xs)"
| "spec_run ks (op # ops) xs = (let (r, ys) = spec_step ks op xs; (rs, zs) = spec_run ks ops ys in (r # rs, zs))"

text \<open>The calls of a client: items of the pool \<open>U\<close>; the neighbours only of an item in the map.\<close>

definition call_ok :: "addr set \<Rightarrow> 'k map_op \<Rightarrow> addr list \<Rightarrow> bool" where
  "call_ok U op xs \<longleftrightarrow> (case op of Insert a \<Rightarrow> a \<in> U | RemoveItem a \<Rightarrow> a \<in> U | IsIn a \<Rightarrow> a \<in> U | Next a \<Rightarrow> a \<in> set xs | Previous a \<Rightarrow> a \<in> set xs | _ \<Rightarrow> True)"

fun calls_ok :: "'k :: linorder keys \<Rightarrow> addr set \<Rightarrow> 'k map_op list \<Rightarrow> addr list \<Rightarrow> bool" where
  "calls_ok ks U [] xs \<longleftrightarrow> True"
| "calls_ok ks U (op # ops) xs \<longleftrightarrow> call_ok U op xs \<and> calls_ok ks U ops (snd (spec_step ks op xs))"

text \<open>The pool: items in no other container, in number below the limit of the array of comparisons.\<close>

definition pool :: "addr set \<Rightarrow> addr \<Rightarrow> map_heap \<Rightarrow> bool" where
  "pool U tr h \<longleftrightarrow> finite U \<and> card U < 9227464 \<and> tr \<notin> U \<and> marked h tr \<subseteq> U \<and>
     (\<forall>a\<in>U. \<exists>n. h a = Some n \<and> (m_inListPtr n = None \<or> m_inListPtr n = Some tr))"

section \<open>One call\<close>

lemma marks_defined: "map_option m_inListPtr (h' x) = map_option m_inListPtr (h x) \<Longrightarrow> h x = Some n \<Longrightarrow> \<exists>n'. h' x = Some n' \<and> m_inListPtr n' = m_inListPtr n"
  by (cases "h' x") auto

lemma pool_kept:
  assumes p: "pool U tr h" and "\<forall>x. x \<noteq> a \<longrightarrow> map_option m_inListPtr (h' x) = map_option m_inListPtr (h x)"
    and "\<exists>n. h' a = Some n \<and> (m_inListPtr n = None \<or> m_inListPtr n = Some tr)" and "marked h' tr \<subseteq> U"
  shows "pool U tr h'"
proof -
  have "\<exists>n. h' x = Some n \<and> (m_inListPtr n = None \<or> m_inListPtr n = Some tr)" if "x \<in> U" for x
  proof (cases "x = a")
    case False
    obtain n where "h x = Some n" "m_inListPtr n = None \<or> m_inListPtr n = Some tr" using p \<open>x \<in> U\<close> by (auto simp: pool_def)
    then show ?thesis using marks_defined [of h' x h n] assms(2) False by auto
  qed (use assms(3) in simp)
  then show ?thesis using p assms(4) by (auto simp: pool_def)
qed

definition step_ok :: "'k :: linorder keys \<Rightarrow> addr set \<Rightarrow> addr \<Rightarrow> addr list \<Rightarrow> map_heap \<Rightarrow> map_heap \<Rightarrow> bool" where
  "step_ok ks U tr ys h h' \<longleftrightarrow> avl_map ks h' tr ys \<and> pool U tr h' \<and> (\<forall>x. x \<notin> insert tr U \<longrightarrow> h' x = h x)"

lemma avl_map_marked: "avl_map ks h tr xs \<Longrightarrow> marked h tr = set xs"
  by (simp add: avl_map_def)

lemma removed_step:
  assumes "avl_map ks h tr xs" and "pool U tr h" and "a \<in> set xs" and r: "removed ks tr xs a h h'"
  shows "step_ok ks U tr (remove1 a xs) h h'"
proof -
  have U: "set xs \<subseteq> U" using assms(2) avl_map_marked [OF assms(1)] by (simp add: pool_def)
  have "marked h' tr \<subseteq> U" using avl_map_marked [of ks h' tr "remove1 a xs"] r set_remove1_subset [of a xs] U by (auto simp: removed_def)
  then have "pool U tr h'" using pool_kept [OF assms(2), of a h'] r by (auto simp: removed_def)
  then show ?thesis using r U by (auto simp: removed_def step_ok_def)
qed

lemma pool_length: "avl_map ks h tr xs \<Longrightarrow> pool U tr h \<Longrightarrow> length xs < 9227464"
  using avl_mapD [of ks h tr xs] card_mono [of U "set xs"] by (auto simp: pool_def avl_map_marked distinct_card)

lemma insert_step:
  assumes ko: "key_order (keyCompare ks)" and m: "avl_map ks h tr xs" and p: "pool U tr h" and a: "a \<in> U"
  shows "\<exists>h'. Map_insert ks h tr a = Some (\<not> (\<exists>x\<in>set xs. getKey ks x = getKey ks a), h') \<and>
    step_ok ks U tr (if \<exists>x\<in>set xs. getKey ks x = getKey ks a then xs else insort_key (getKey ks) a xs) h h'"
proof (cases "\<exists>x\<in>set xs. getKey ks x = getKey ks a")
  case True
  then show ?thesis using avl_insert_again [OF ko m pool_length [OF m p] True] m p by (auto simp: Map_insert_def step_ok_def)
next
  case False
  then have "a \<notin> marked h tr" using avl_map_marked [OF m] by auto
  then obtain n where n: "h a = Some n" "m_inListPtr n = None" using p a by (auto simp: pool_def marked_def)
  have "a \<noteq> tr" using p a by (auto simp: pool_def)
  then obtain h' where h': "AvlTree_insert ks h tr a = Some (True, h')" "avl_map ks h' tr (insort_key (getKey ks) a xs)"
    "\<forall>x. x \<notin> insert tr (insert a (set xs)) \<longrightarrow> h' x = h x" "\<forall>x. x \<noteq> a \<longrightarrow> map_option m_inListPtr (h' x) = map_option m_inListPtr (h x)"
    using avl_insert [OF ko m pool_length [OF m p] n _ False] by blast
  have U: "insert a (set xs) \<subseteq> U" using p a avl_map_marked [OF m] by (auto simp: pool_def)
  have mk: "marked h' tr = insert a (set xs)" using avl_map_marked [OF h'(2)] by (simp add: set_insort_key)
  then have "\<exists>n. h' a = Some n \<and> m_inListPtr n = Some tr" by (auto simp: marked_def set_eq_iff)
  then have "pool U tr h'" using pool_kept [OF p h'(4)] U mk by auto
  then show ?thesis using h' U False by (auto simp: Map_insert_def step_ok_def)
qed

lemma step_same: "avl_map ks h tr xs \<Longrightarrow> pool U tr h \<Longrightarrow> step_ok ks U tr xs h h"
  by (simp add: step_ok_def)

lemma around_item:
  assumes "distinct (us @ a # vs)"
  shows "after_in a (us @ a # vs) = first_or vs None" and "before_in a (us @ a # vs) = last_or None us"
proof -
  have "\<forall>x\<in>set us. x \<noteq> a" using assms by auto
  then show "after_in a (us @ a # vs) = first_or vs None" and "before_in a (us @ a # vs) = last_or None us"
    by (simp_all add: after_in_def before_in_def dropWhile_append2 takeWhile_append2)
qed

lemma remove_step:
  assumes "avl_map ks h tr xs" and "pool U tr h" and "a \<in> set xs"
  shows "\<exists>h'. AvlTree_removeItem h tr a = Some (Some a, h') \<and> step_ok ks U tr (remove1 a xs) h h'"
  using removeItem_map [OF assms(1,3)] removed_step [OF assms] by blast

lemma map_step_refines:
  assumes ko: "narrow_key_order (keyCompare ks)" and m: "avl_map ks h tr xs" and p: "pool U tr h" and c: "call_ok U op xs"
  shows "\<exists>h'. map_step ks tr op h = Some (fst (spec_step ks op xs), h') \<and> step_ok ks U tr (snd (spec_step ks op xs)) h h'"
proof -
  note ko' = narrow_key_order.axioms(1) [OF ko]
  note same = step_same [OF m p]
  have split: "\<exists>us vs. xs = us @ a # vs" if "a \<in> set xs" for a using that by (simp add: in_set_conv_decomp)
  have d: "distinct xs" using avl_mapD [OF m] by simp
  show ?thesis
  proof (cases op)
    case (Insert a)
    then have "a \<in> U" using c by (simp add: call_ok_def)
    from insert_step [OF ko' m p this] obtain h' where
      "Map_insert ks h tr a = Some (\<not> (\<exists>x\<in>set xs. getKey ks x = getKey ks a), h')"
      "step_ok ks U tr (if \<exists>x\<in>set xs. getKey ks x = getKey ks a then xs else insort_key (getKey ks) a xs) h h'" by (elim exE conjE)
    then show ?thesis by (cases "\<exists>x\<in>set xs. getKey ks x = getKey ks a") (simp_all add: Insert map_step_def spec_step_def)
  next
    case (Remove k)
    show ?thesis
    proof (cases "List.find (\<lambda>x. getKey ks x = k) xs")
      case None
      then show ?thesis using same find_map [OF ko m] by (simp add: Remove map_step_def spec_step_def Map_remove_def)
    next
      case (Some a)
      then have "a \<in> set xs" by (auto simp: find_Some_iff)
      then show ?thesis using remove_step [OF m p] find_map [OF ko m] Some by (auto simp: Remove map_step_def spec_step_def Map_remove_def)
    qed
  next
    case (RemoveItem a)
    show ?thesis
    proof (cases "a \<in> set xs")
      case True
      then obtain h' where "AvlTree_removeItem h tr a = Some (Some a, h')" "step_ok ks U tr (remove1 a xs) h h'" using remove_step [OF m p] by blast
      then show ?thesis using True by (simp add: RemoveItem map_step_def spec_step_def Map_removeItem_def)
    next
      case False
      obtain n where "h a = Some n" using p c by (auto simp: RemoveItem call_ok_def pool_def)
      then show ?thesis using avl_remove_other [of h a n ks tr xs] m False same
        by (auto simp: RemoveItem map_step_def spec_step_def Map_removeItem_def remove1_idem)
    qed
  next
    case GetFirst
    show ?thesis
    proof (cases xs)
      case Nil
      then show ?thesis using getFirst_map [OF m] same by (simp add: GetFirst map_step_def spec_step_def)
    next
      case (Cons a ys)
      then obtain h' where "Map_getFirst h tr = Some (Some a, h')" "removed ks tr xs a h h'" using getFirst_map [OF m] by auto
      then show ?thesis using removed_step [OF m p, of a h'] Cons by (simp add: GetFirst map_step_def spec_step_def)
    qed
  next
    case GetLast
    show ?thesis
    proof (cases xs rule: rev_cases)
      case Nil
      then show ?thesis using getLast_map [OF m] same by (simp add: GetLast map_step_def spec_step_def)
    next
      case (snoc ys a)
      then obtain h' where "Map_getLast h tr = Some (Some a, h')" "removed ks tr xs a h h'" using getLast_map [OF m] by auto
      moreover have "remove1 a xs = ys" using snoc d by (simp add: remove1_append)
      ultimately show ?thesis using removed_step [OF m p, of a h'] snoc by (simp add: GetLast map_step_def spec_step_def)
    qed
  next
    case (Find k)
    then show ?thesis using same find_map [OF ko m] by (simp add: map_step_def spec_step_def)
  next
    case First
    then show ?thesis using same first_map [OF m] by (simp add: map_step_def spec_step_def)
  next
    case Last
    then show ?thesis using same last_map [OF m] by (simp add: map_step_def spec_step_def)
  next
    case (Next a)
    then obtain us vs where x: "xs = us @ a # vs" using c split [of a] by (auto simp: call_ok_def)
    show ?thesis using same neighbours_map(1) [of ks h tr us a vs] m around_item(1) [of us a vs] d
      by (simp add: Next map_step_def spec_step_def x)
  next
    case (Previous a)
    then obtain us vs where x: "xs = us @ a # vs" using c split [of a] by (auto simp: call_ok_def)
    show ?thesis using same neighbours_map(2) [of ks h tr us a vs] m around_item(2) [of us a vs] d
      by (simp add: Previous map_step_def spec_step_def x)
  next
    case (IsIn a)
    obtain n where n: "h a = Some n" using p c by (auto simp: IsIn call_ok_def pool_def)
    then have "m_inListPtr n = Some tr \<longleftrightarrow> a \<in> marked h tr" by (simp add: marked_def)
    then have "m_inListPtr n = Some tr \<longleftrightarrow> a \<in> set xs" using avl_map_marked [OF m] by simp
    then show ?thesis using same n by (simp add: IsIn map_step_def spec_step_def Map_isInMap_def)
  qed
qed

lemma map_run_refines:
  assumes ko: "narrow_key_order (keyCompare ks)"
  shows "avl_map ks h tr xs \<Longrightarrow> pool U tr h \<Longrightarrow> calls_ok ks U ops xs \<Longrightarrow>
    \<exists>h'. map_run ks tr ops h = Some (fst (spec_run ks ops xs), h') \<and> step_ok ks U tr (snd (spec_run ks ops xs)) h h'"
proof (induction ops arbitrary: h xs)
  case Nil
  then show ?case by (simp add: step_ok_def)
next
  case (Cons op ops)
  obtain h1 where h1: "map_step ks tr op h = Some (fst (spec_step ks op xs), h1)" "step_ok ks U tr (snd (spec_step ks op xs)) h h1"
    using map_step_refines [OF ko Cons.prems(1,2)] Cons.prems(3) by auto
  then obtain h2 where "map_run ks tr ops h1 = Some (fst (spec_run ks ops (snd (spec_step ks op xs))), h2)"
    "step_ok ks U tr (snd (spec_run ks ops (snd (spec_step ks op xs)))) h1 h2"
    using Cons.IH [of h1 "snd (spec_step ks op xs)"] Cons.prems(3) by (auto simp: step_ok_def)
  then show ?case using h1 by (auto simp: step_ok_def split: prod.split)
qed

section \<open>Clearing and moving a map\<close>

text \<open>Changes outside a tree leave it as it is.\<close>

lemma avl_map_frame:
  assumes "avl_map ks h tr xs" and "\<And>x. x \<in> insert tr (set xs) \<Longrightarrow> h' x = h x" and "marked h' tr = marked h tr"
  shows "avl_map ks h' tr xs"
proof -
  obtain t where t: "whole h tr [] t" "avl_ok t" "elems t = xs" using assms(1) by (auto simp: avl_map_def)
  have "path h' tr [] (peak t) = path h tr [] (peak t)" by (rule path_cong) (use assms(2) in auto)
  moreover have "sub h' tr t = sub h tr t" by (rule sub_cong) (use assms(2) t(3) in auto)
  ultimately have "whole h' tr [] t" using t(1) by (simp add: whole_def)
  then show ?thesis using assms(1,3) t by (auto simp: avl_map_def)
qed

lemma clear_map:
  "avl_map ks h tr xs \<Longrightarrow> \<exists>h'. Map_clearTheMap h tr = Some h' \<and> avl_map ks h' tr [] \<and> (\<forall>x. x \<notin> insert tr (set xs) \<longrightarrow> h' x = h x) \<and>
    (\<forall>x. x \<notin> set xs \<longrightarrow> map_option m_inListPtr (h' x) = map_option m_inListPtr (h x)) \<and>
    (\<forall>x\<in>set xs. \<exists>n. h' x = Some n \<and> m_inListPtr n = None)"
proof (induction xs arbitrary: h)
  case Nil
  then show ?case using getFirst_map [OF Nil] by (subst Map_clearTheMap.simps) simp
next
  case (Cons a xs)
  then obtain h1 where h1: "Map_getFirst h tr = Some (Some a, h1)" "removed ks tr (a # xs) a h h1"
    using getFirst_map [OF Cons.prems] by auto
  then have m1: "avl_map ks h1 tr xs" by (simp add: removed_def)
  obtain h2 where h2: "Map_clearTheMap h1 tr = Some h2" "avl_map ks h2 tr []" "\<forall>x. x \<notin> insert tr (set xs) \<longrightarrow> h2 x = h1 x"
    "\<forall>x. x \<notin> set xs \<longrightarrow> map_option m_inListPtr (h2 x) = map_option m_inListPtr (h1 x)" "\<forall>x\<in>set xs. \<exists>n. h2 x = Some n \<and> m_inListPtr n = None"
    using Cons.IH [OF m1] by blast
  have "a \<notin> set xs" "tr \<noteq> a" using avl_mapD [OF Cons.prems] by auto
  then have "\<exists>n. h2 a = Some n \<and> m_inListPtr n = None" using h2(3) h1(2) by (auto simp: removed_def)
  moreover have "Map_clearTheMap h tr = Some h2" using h1(1) h2(1) by (subst Map_clearTheMap.simps) simp
  ultimately show ?case using h1(2) h2 by (auto simp: removed_def)
qed

lemma insort_last: "\<forall>z\<in>set zs. f z < f x \<Longrightarrow> insort_key f x zs = zs @ [x]" for f :: "addr \<Rightarrow> 'k :: linorder"
  using insort_between [of zs f x "[]"] by simp

lemma move_loop_map:
  assumes ko: "key_order (keyCompare ks)" and mn: "m \<noteq> dst"
  shows "avl_map ks h m xs \<Longrightarrow> avl_map ks h dst zs \<Longrightarrow> m \<notin> set zs \<Longrightarrow> dst \<notin> set xs \<Longrightarrow> key_sorted ks (zs @ xs) \<Longrightarrow>
    length (zs @ xs) < 9227464 \<Longrightarrow>
    \<exists>h'. Map_move_loop ks h m dst = Some h' \<and> avl_map ks h' m [] \<and> avl_map ks h' dst (zs @ xs) \<and>
      (\<forall>x. x \<notin> insert m (insert dst (set (zs @ xs))) \<longrightarrow> h' x = h x)"
proof (induction xs arbitrary: h zs)
  case Nil
  then show ?case using getFirst_map [OF Nil(1)] by (subst Map_move_loop.simps) simp
next
  case (Cons a xs)
  obtain h1 where h1: "Map_getFirst h m = Some (Some a, h1)" "removed ks m (a # xs) a h h1"
    using getFirst_map [OF Cons.prems(1)] by auto
  then have m1: "avl_map ks h1 m xs" and other1: "\<forall>x. x \<notin> insert m (set (a # xs)) \<longrightarrow> h1 x = h x"
    and mk1: "\<forall>x. x \<noteq> a \<longrightarrow> map_option m_inListPtr (h1 x) = map_option m_inListPtr (h x)" by (simp_all add: removed_def)
  obtain n where n: "h1 a = Some n" "m_inListPtr n = None" using h1(2) by (auto simp: removed_def)
  have mx: "marked h m = set (a # xs)" "marked h dst = set zs" using Cons.prems avl_map_marked by blast+
  have "x \<notin> marked h dst" if "x \<in> marked h m" for x using that mn by (auto simp: marked_def)
  then have disj: "set (a # xs) \<inter> set zs = {}" unfolding mx by blast
  have a: "a \<noteq> dst" "a \<noteq> m" "a \<notin> set xs" using Cons.prems(4) avl_mapD [OF Cons.prems(1)] by auto
  have mkd: "marked h1 t = marked h t - {a}" for t
  proof -
    have "x \<in> marked h1 t \<longleftrightarrow> x \<in> marked h t \<and> x \<noteq> a" for x
      using mk1 n by (cases "h x"; cases "h1 x"; cases "x = a") (auto simp: marked_def dest!: spec [of _ x])
    then show ?thesis by blast
  qed
  have "x \<noteq> m \<and> x \<noteq> a \<and> x \<notin> set xs" if "x \<in> insert dst (set zs)" for x using that disj Cons.prems(3,4) mn by auto
  then have same1: "h1 x = h x" if "x \<in> insert dst (set zs)" for x using other1 that by simp
  have d1: "avl_map ks h1 dst zs"
    by (rule avl_map_frame [OF Cons.prems(2) same1]) (use disj mkd mx in auto)
  have new: "\<not> (\<exists>z\<in>set zs. getKey ks z = getKey ks a)" "\<forall>z\<in>set zs. getKey ks z < getKey ks a" using Cons.prems(5) by auto
  obtain h2 where h2: "AvlTree_insert ks h1 dst a = Some (True, h2)" "avl_map ks h2 dst (zs @ [a])"
    "\<forall>x. x \<notin> insert dst (insert a (set zs)) \<longrightarrow> h2 x = h1 x" "\<forall>x. x \<noteq> a \<longrightarrow> map_option m_inListPtr (h2 x) = map_option m_inListPtr (h1 x)"
    using avl_insert [OF ko d1 _ n a(1) new(1)] Cons.prems(6) insort_last [OF new(2)] by auto
  have mk2: "marked h2 m = marked h1 m"
  proof -
    have "a \<in> marked h2 dst" using avl_map_marked [OF h2(2)] by simp
    then have "a \<notin> marked h2 m" "a \<notin> marked h1 m" using mn n by (auto simp: marked_def)
    moreover have "x \<in> marked h2 m \<longleftrightarrow> x \<in> marked h1 m" if "x \<noteq> a" for x
      using h2(4) that by (cases "h1 x"; cases "h2 x") (auto simp: marked_def dest!: spec [of _ x])
    ultimately have "x \<in> marked h2 m \<longleftrightarrow> x \<in> marked h1 m" for x by (cases "x = a") auto
    then show ?thesis by blast
  qed
  have m2: "avl_map ks h2 m xs"
    by (rule avl_map_frame [OF m1 _ mk2]) (use h2(3) a disj Cons.prems(3,4) mn in auto)
  obtain h3 where h3: "Map_move_loop ks h2 m dst = Some h3" "avl_map ks h3 m []" "avl_map ks h3 dst (zs @ a # xs)"
    "\<forall>x. x \<notin> insert m (insert dst (set (zs @ a # xs))) \<longrightarrow> h3 x = h2 x"
    using Cons.IH [OF m2 h2(2)] Cons.prems a by auto
  have "Map_move_loop ks h m dst = Some h3" using h1(1) h2(1) h3(1) by (subst Map_move_loop.simps) (simp add: Map_insert_def)
  then show ?case using h2(3) h3 other1 by auto
qed

lemma move_map:
  assumes ko: "key_order (keyCompare ks)" and mn: "m \<noteq> dst" and m: "avl_map ks h m xs" and d: "avl_map ks h dst ys"
    and apart: "m \<notin> set ys" "dst \<notin> set xs" and len: "length xs < 9227464"
  shows "\<exists>h'. Map_move ks h m dst = Some h' \<and> avl_map ks h' m [] \<and> avl_map ks h' dst xs \<and>
    (\<forall>y\<in>set ys. \<exists>n. h' y = Some n \<and> m_inListPtr n = None) \<and> (\<forall>x. x \<notin> insert m (insert dst (set xs \<union> set ys)) \<longrightarrow> h' x = h x)"
proof -
  obtain h1 where h1: "Map_clearTheMap h dst = Some h1" "avl_map ks h1 dst []" "\<forall>x. x \<notin> insert dst (set ys) \<longrightarrow> h1 x = h x"
    "\<forall>x. x \<notin> set ys \<longrightarrow> map_option m_inListPtr (h1 x) = map_option m_inListPtr (h x)" "\<forall>x\<in>set ys. \<exists>n. h1 x = Some n \<and> m_inListPtr n = None"
    using clear_map [OF d] by blast
  have mk: "marked h m = set xs" "marked h dst = set ys" using m d avl_map_marked by blast+
  have "x \<notin> marked h dst" if "x \<in> marked h m" for x using that mn by (auto simp: marked_def)
  then have disj: "set xs \<inter> set ys = {}" unfolding mk by blast
  have "x \<in> marked h1 m \<longleftrightarrow> x \<in> marked h m" for x
  proof (cases "x \<in> set ys")
    case True
    then have "x \<notin> marked h1 m" using h1(5) by (auto simp: marked_def)
    then show ?thesis using True disj mk by auto
  next
    case False
    then show ?thesis using h1(4) by (cases "h x"; cases "h1 x") (auto simp: marked_def dest!: spec [of _ x])
  qed
  then have mk1: "marked h1 m = marked h m" by blast
  have same: "h1 x = h x" if "x \<in> insert m (set xs)" for x using h1(3) that disj apart mn by (metis disjoint_iff insert_iff)
  have m1: "avl_map ks h1 m xs" by (rule avl_map_frame [OF m same mk1])
  obtain h2 where h2: "Map_move_loop ks h1 m dst = Some h2" "avl_map ks h2 m []" "avl_map ks h2 dst xs"
    "\<forall>x. x \<notin> insert m (insert dst (set xs)) \<longrightarrow> h2 x = h1 x"
    using move_loop_map [OF ko mn m1 h1(2)] apart len m by (auto simp: avl_map_def)
  have "dst \<notin> set ys" using avl_mapD [OF d] by simp
  then have "h2 y = h1 y" if "y \<in> set ys" for y using h2(4) that disj apart by auto
  then have "\<forall>y\<in>set ys. \<exists>n. h2 y = Some n \<and> m_inListPtr n = None" using h1(5) by simp
  then show ?thesis using h1(1,3) h2 by (auto simp: Map_move_def)
qed

section \<open>Properties\<close>

text \<open>The constructed map is empty.\<close>

lemma AvlTree_empty: "marked (AvlTree h tr) tr = {} \<Longrightarrow> avl_map ks (AvlTree h tr) tr []"
  by (auto simp: avl_map_def whole_def AvlTree_def intro!: exI [of _ Tip])

text \<open>
  C4. For keys whose comparisons fit into 8 bits, to which the search narrows them, as those of plain types and of
  names of at most 127 ASCII characters do (\<open>plain\<close> and \<open>bytewise.names\<close>; not those of strings whose lengths
  differ by 128 or more, see \<open>find_answers_longer_key\<close>): every sequence of calls on a map, made with items of a pool
  that are in no other container (and asking for the neighbours only of items in the map), answers what the list
  of the items in the order of their keys answers, keeps the
  AVL tree well-formed and balanced with exactly the listed items in order, and changes nothing outside the tree and the pool.  No
  call dereferences a null pointer or overruns the array of comparisons.
\<close>

theorem map_refines_sorted_list:
  assumes "narrow_key_order (keyCompare ks)" and "avl_map ks h m xs" and "pool U m h" and "calls_ok ks U ops xs"
  shows "\<exists>h'. map_run ks m ops h = Some (fst (spec_run ks ops xs), h') \<and> avl_map ks h' m (snd (spec_run ks ops xs)) \<and>
    pool U m h' \<and> (\<forall>x. x \<notin> insert m U \<longrightarrow> h' x = h x)"
  using map_run_refines [OF assms] by (simp add: step_ok_def)

definition sample_keys :: "addr keys" where
  "sample_keys = \<lparr>getKey = (\<lambda>a. a), keyCompare = KeyPlainType_compareKey\<rparr>"

definition sample_items :: map_heap where
  "sample_items = (\<lambda>a. if a < 8 then Some \<lparr>m_left = None, m_right = None, m_parent = None, m_is_NOT_root = False, m_balance = eEVEN, m_inListPtr = None\<rparr> else None)"

definition sample_calls :: "addr map_op list" where
  "sample_calls = [Insert 3, Insert 1, Insert 2, Insert 2, Find 2, Next 2, RemoveItem 3, GetFirst, IsIn 1]"

lemma sample_keys_narrow: "narrow_key_order (keyCompare sample_keys)"
  using plain.narrow_key_order_axioms by (simp add: sample_keys_def)

text \<open>Maps of items with short names fulfil the condition, too.\<close>

lemma name_keys_narrow: "narrow_key_order (keyCompare \<lparr>getKey = name, keyCompare = compareNames (\<lambda>a b. uint a - uint b)\<rparr>)"
  using bytewise.names.narrow_key_order_axioms by simp

lemma sample_map: "marked (AvlTree sample_items 9) 9 = {}" "pool {0..<8} 9 (AvlTree sample_items 9)"
  by (auto simp: marked_def pool_def sample_items_def AvlTree_def)

theorem map_refines_sorted_list_witness:
  "\<exists>h'. map_run sample_keys 9 sample_calls (AvlTree sample_items 9) =
      Some ([RBool True, RBool True, RBool True, RBool False, RPtr (Some 2), RPtr (Some 3), RBool True, RPtr (Some 1), RBool False], h') \<and>
    avl_map sample_keys h' 9 [2]"
proof -
  have "calls_ok sample_keys {0..<8} sample_calls []"
    by (simp add: sample_calls_def call_ok_def spec_step_def sample_keys_def)
  from map_refines_sorted_list [OF sample_keys_narrow AvlTree_empty [OF sample_map(1)] sample_map(2) this] obtain h' where
    "map_run sample_keys 9 sample_calls (AvlTree sample_items 9) = Some (fst (spec_run sample_keys sample_calls []), h')"
    "avl_map sample_keys h' 9 (snd (spec_run sample_keys sample_calls []))" by blast
  moreover have "spec_run sample_keys sample_calls [] =
    ([RBool True, RBool True, RBool True, RBool False, RPtr (Some 2), RPtr (Some 3), RBool True, RPtr (Some 1), RBool False], [2])"
    by (simp add: sample_calls_def spec_step_def sample_keys_def after_in_def)
  ultimately show ?thesis by simp
qed

text \<open>
  Moving a map into another ends: the items that were in the destination are in no container, the source is empty, the
  destination holds the items of the source in their order, and nothing else has changed.
\<close>

theorem map_move_transfers:
  assumes "key_order (keyCompare ks)" and "m \<noteq> dst" and "avl_map ks h m xs" and "avl_map ks h dst ys"
    and "m \<notin> set ys" and "dst \<notin> set xs" and "length xs < 9227464"
  shows "\<exists>h'. Map_move ks h m dst = Some h' \<and> avl_map ks h' m [] \<and> avl_map ks h' dst xs \<and>
    (\<forall>y\<in>set ys. \<exists>n. h' y = Some n \<and> m_inListPtr n = None) \<and> (\<forall>x. x \<notin> insert m (insert dst (set xs \<union> set ys)) \<longrightarrow> h' x = h x)"
  by (rule move_map [OF assms])

theorem map_move_transfers_witness:
  "\<exists>h h'. Map_insert sample_keys (AvlTree (AvlTree sample_items 10) 9) 9 3 = Some (True, h) \<and>
    Map_move sample_keys h 9 10 = Some h' \<and> avl_map sample_keys h' 9 [] \<and> avl_map sample_keys h' 10 [3]"
proof -
  let ?h = "AvlTree (AvlTree sample_items 10) 9"
  note ko = narrow_key_order.axioms(1) [OF sample_keys_narrow]
  have m: "marked ?h 9 = {}" "marked ?h 10 = {}" by (auto simp: marked_def AvlTree_def sample_items_def)
  obtain h where h: "AvlTree_insert sample_keys ?h 9 3 = Some (True, h)" "avl_map sample_keys h 9 [3]"
    "\<forall>x. x \<notin> {9, 3} \<longrightarrow> h x = ?h x" "\<forall>x. x \<noteq> 3 \<longrightarrow> map_option m_inListPtr (h x) = map_option m_inListPtr (?h x)"
    using avl_insert [OF ko AvlTree_empty [OF m(1)], of 3] by (auto simp: AvlTree_def sample_items_def)
  have "3 \<in> marked h 9" using avl_map_marked [OF h(2)] by simp
  then have "x \<in> marked h 10 \<longleftrightarrow> x \<in> marked ?h 10" for x
    using h(4) m(2) by (cases "x = 3"; cases "h x"; cases "?h x") (auto simp: marked_def dest!: spec [of _ x])
  then have mk: "marked h 10 = marked ?h 10" by blast
  have "avl_map sample_keys ?h 10 []" by (auto simp: avl_map_def whole_def AvlTree_def m(2) [unfolded AvlTree_def] intro!: exI [of _ Tip])
  then have "avl_map sample_keys h 10 []" by (rule avl_map_frame) (use h(3) mk in auto)
  from map_move_transfers [OF ko _ h(2) this] obtain h' where
    "Map_move sample_keys h 9 10 = Some h'" "avl_map sample_keys h' 9 []" "avl_map sample_keys h' 10 [3]" by auto
  then show ?thesis using h(1) by (auto simp: Map_insert_def)
qed

lemma strncmp_prefix: "strncmp diff (k @ w) k (length k) = 0"
  by (induction k) auto

text \<open>
  The search narrows a comparison to 8 bits.  With string keys, whose comparison is the difference of the lengths when one key
  starts with the other, it answers an item whose key is 256 characters longer than the one asked for.
\<close>

theorem find_answers_longer_key:
  assumes "keyCompare ks = (\<lambda>x y. KeyStringBuffer_compare diff (Some x) (Some y))" and "getKey ks a = k @ w" and "length w = 256"
    and "getLeft h (Some tr) = Some (Some a)" and "h a = Some n"
  shows "Map_find ks h tr k = Some (Some a) \<and> keyCompare ks (getKey ks a) k \<noteq> 0"
proof -
  have "keyCompare ks (getKey ks a) k = 256" using assms(1-3) by (simp add: KeyStringBuffer_compare_def strncmp_prefix)
  then show ?thesis using assms(4,5) by (simp add: Map_find_def AvlTree_find_def find_loop.simps int8_def)
qed

theorem find_answers_longer_key_witness:
  "Map_find \<lparr>getKey = (\<lambda>a. 65 # replicate 256 66), keyCompare = (\<lambda>x y. KeyStringBuffer_compare (\<lambda>a b. uint a - uint b) (Some x) (Some y))\<rparr>
     ((AvlTree sample_items 9)(9 \<mapsto> \<lparr>m_left = Some 1, m_right = None, m_parent = None, m_is_NOT_root = False, m_balance = eEVEN, m_inListPtr = None\<rparr>))
     9 [65] = Some (Some 1)"
  using find_answers_longer_key [of "\<lparr>getKey = (\<lambda>a. 65 # replicate 256 66), keyCompare = (\<lambda>x y. KeyStringBuffer_compare (\<lambda>a b. uint a - uint b) (Some x) (Some y))\<rparr>"
      "\<lambda>a b. uint a - uint b" 1 "[65]" "replicate 256 66"
      "(AvlTree sample_items 9)(9 \<mapsto> \<lparr>m_left = Some 1, m_right = None, m_parent = None, m_is_NOT_root = False, m_balance = eEVEN, m_inListPtr = None\<rparr>)" 9]
  by (simp add: getLeft_def mnode_def AvlTree_def sample_items_def)

end
