(* ===== verification/Model_Points_Inv.thy ===== *)
theory Model_Points_Inv
  imports Model_Points
begin

text \<open>
  The invariant of the data model under any interleaving of the threads.  Every operation on a subscriber is first shown to be
  a move of this subscriber between lists (\<open>moves\<close>); one lemma then carries the invariant over all of them.
\<close>

section \<open>Lists under a move\<close>

definition before :: "addr \<Rightarrow> addr list \<Rightarrow> addr set" where
  "before t xs = set (takeWhile (\<lambda>x. x \<noteq> t) xs)"

definition moved :: "addr \<Rightarrow> addr list \<Rightarrow> addr list \<Rightarrow> bool" where
  "moved s xs ys \<longleftrightarrow> filter (\<lambda>x. x \<noteq> s) ys = filter (\<lambda>x. x \<noteq> s) xs \<and> (\<forall>t. t \<noteq> s \<longrightarrow> t \<in> set xs \<longrightarrow> before t ys \<subseteq> before t xs)"

lemma item_moved_refl [simp]: "moved s xs xs"
  by (simp add: moved_def)

lemma moved_set: "moved s xs ys \<Longrightarrow> t \<noteq> s \<Longrightarrow> t \<in> set ys \<longleftrightarrow> t \<in> set xs"
proof -
  assume a: "moved s xs ys" "t \<noteq> s"
  then have "set (filter (\<lambda>x. x \<noteq> s) ys) = set (filter (\<lambda>x. x \<noteq> s) xs)" by (simp add: moved_def)
  then show ?thesis using a(2) by (auto simp: set_eq_iff)
qed

lemma item_moved_trans: "moved s xs ys \<Longrightarrow> moved s ys zs \<Longrightarrow> moved s xs zs"
  using moved_set [of s xs ys] by (auto simp: moved_def) blast

lemma moved_append: "moved s xs (xs @ [s])"
  by (auto simp: moved_def before_def)

lemma before_remove1: "t \<noteq> s \<Longrightarrow> before t (remove1 s xs) \<subseteq> before t xs"
  by (induction xs) (auto simp: before_def)

lemma filter_remove1: "filter (\<lambda>x. x \<noteq> s) (remove1 s xs) = filter (\<lambda>x. x \<noteq> s) xs"
  by (induction xs) auto

lemma moved_remove1: "moved s xs (remove1 s xs)"
  by (simp add: moved_def before_remove1 filter_remove1)

section \<open>Moves of one subscriber\<close>

definition bare :: "model_point \<Rightarrow> model_point" where
  "bare p = p\<lparr>m_subscribers := []\<rparr>"

definition placed :: "addr \<Rightarrow> subscriber \<Rightarrow> data_model \<Rightarrow> bool" where
  "placed s n d \<longleftrightarrow> subscribers d s = Some n \<and>
     (\<forall>c xs. list_of c d = Some xs \<longrightarrow> distinct xs \<and> (s \<in> set xs \<longleftrightarrow> m_inList n = Some c))"

definition moves :: "addr \<Rightarrow> subscriber \<Rightarrow> subscriber \<Rightarrow> data_model \<Rightarrow> data_model \<Rightarrow> bool" where
  "moves s n n' d d' \<longleftrightarrow> placed s n d \<and> placed s n' d' \<and> subscribers d' = (subscribers d)(s \<mapsto> n') \<and> m_eventLoopHdl n' = m_eventLoopHdl n \<and>
     (\<forall>mp. map_option bare (points d' mp) = map_option bare (points d mp)) \<and> (\<forall>c. rel_option (moved s) (list_of c d) (list_of c d'))"

lemma rel_moved_refl [simp]: "rel_option (moved s) x x"
  by (cases x) auto

lemma rel_moved_trans: "rel_option (moved s) x y \<Longrightarrow> rel_option (moved s) y z \<Longrightarrow> rel_option (moved s) x z"
  by (cases x; cases y; cases z) (auto intro: item_moved_trans)

lemma moves_trans: "moves s n n' d d' \<Longrightarrow> moves s n' n'' d' d'' \<Longrightarrow> moves s n n'' d d''"
  unfolding moves_def using rel_moved_trans by (auto intro: rel_moved_trans)

lemma moves_refl: "placed s n d \<Longrightarrow> moves s n n d d"
  by (auto simp: moves_def placed_def)

lemma list_of_upd_sub [simp]: "list_of c (d\<lparr>subscribers := f\<rparr>) = list_of c d"
  by (simp add: list_of_def split: sub_list.split)

text \<open>The primitive moves.\<close>

lemma moves_upd_sub:
  assumes "placed s n d" and "m_inList (f n) = m_inList n" and "m_eventLoopHdl (f n) = m_eventLoopHdl n"
  shows "\<exists>d'. upd_sub s f d = Some d' \<and> moves s n (f n) d d'"
  using assms by (auto simp: upd_sub_def moves_def placed_def)

lemma set_list_of_Some:
  assumes "list_of c d = Some xs"
  shows "\<exists>d'. set_list_of c ys d = Some d' \<and> subscribers d' = subscribers d \<and> (\<forall>c'. list_of c' d' = (if c' = c then Some ys else list_of c' d)) \<and>
    (\<forall>mp. map_option bare (points d' mp) = map_option bare (points d mp))"
proof (cases c)
  case (Subscribers mp)
  then obtain p where "points d mp = Some p" using assms by (auto simp: list_of_def)
  then show ?thesis using Subscribers by (auto simp: set_list_of_def upd_point_def list_of_def bare_def split: sub_list.split)
next
  case (PendingOf l)
  then obtain p where "loops d l = Some p" using assms by (auto simp: list_of_def)
  then show ?thesis using PendingOf by (auto simp: set_list_of_def upd_loop_def list_of_def bare_def split: sub_list.split)
qed

lemma moves_lists:
  assumes "placed s n d" and "subscribers d' = (subscribers d)(s \<mapsto> n')" and "m_eventLoopHdl n' = m_eventLoopHdl n"
    and "\<And>mp. map_option bare (points d' mp) = map_option bare (points d mp)"
    and "\<And>c. rel_option (moved s) (list_of c d) (list_of c d')"
    and "\<And>c xs. list_of c d' = Some xs \<Longrightarrow> distinct xs \<and> (s \<in> set xs \<longleftrightarrow> m_inList n' = Some c)"
  shows "moves s n n' d d'"
  using assms by (simp add: moves_def placed_def)

lemma moves_put:
  assumes pl: "placed s n d" and m: "m_inList n = None" and l: "list_of c d = Some xs"
  shows "\<exists>d'. list_put c s d = Some d' \<and> moves s n (n\<lparr>m_inList := Some c\<rparr>) d d'"
proof -
  have n: "subscribers d s = Some n" using pl by (simp add: placed_def)
  let ?d = "d\<lparr>subscribers := (subscribers d)(s \<mapsto> n\<lparr>m_inList := Some c\<rparr>)\<rparr>"
  obtain d' where d': "set_list_of c (xs @ [s]) ?d = Some d'" "subscribers d' = subscribers ?d"
    "\<forall>c'. list_of c' d' = (if c' = c then Some (xs @ [s]) else list_of c' d)" "\<forall>mp. map_option bare (points d' mp) = map_option bare (points d mp)"
    using set_list_of_Some [of c ?d xs "xs @ [s]"] l by auto
  have "list_put c s d = Some d'" using n m l d'(1) by (simp add: list_put_def upd_sub_def)
  moreover have "moves s n (n\<lparr>m_inList := Some c\<rparr>) d d'"
  proof (rule moves_lists [OF pl])
    fix c' ys
    assume "list_of c' d' = Some ys"
    then show "distinct ys \<and> (s \<in> set ys \<longleftrightarrow> m_inList (n\<lparr>m_inList := Some c\<rparr>) = Some c')"
      using pl l m d'(3) by (auto simp: placed_def split: if_splits)
  qed (use d' l in \<open>auto simp: moved_append\<close>)
  ultimately show ?thesis by blast
qed

lemma moves_drop:
  assumes pl: "placed s n d" and m: "m_inList n = Some c" and l: "list_of c d = Some xs"
  shows "\<exists>d1 d'. set_list_of c (remove1 s xs) d = Some d1 \<and> upd_sub s (\<lambda>n. n\<lparr>m_inList := None\<rparr>) d1 = Some d' \<and> moves s n (n\<lparr>m_inList := None\<rparr>) d d'"
proof -
  have n: "subscribers d s = Some n" using pl by (simp add: placed_def)
  obtain d1 where d1: "set_list_of c (remove1 s xs) d = Some d1" "subscribers d1 = subscribers d"
    "\<forall>c'. list_of c' d1 = (if c' = c then Some (remove1 s xs) else list_of c' d)" "\<forall>mp. map_option bare (points d1 mp) = map_option bare (points d mp)"
    using set_list_of_Some [of c d xs "remove1 s xs"] l by auto
  let ?d = "d1\<lparr>subscribers := (subscribers d1)(s \<mapsto> n\<lparr>m_inList := None\<rparr>)\<rparr>"
  have "upd_sub s (\<lambda>n. n\<lparr>m_inList := None\<rparr>) d1 = Some ?d" using n d1(2) by (simp add: upd_sub_def)
  moreover have "moves s n (n\<lparr>m_inList := None\<rparr>) d ?d"
  proof (rule moves_lists [OF pl])
    fix c' ys
    assume "list_of c' ?d = Some ys"
    then show "distinct ys \<and> (s \<in> set ys \<longleftrightarrow> m_inList (n\<lparr>m_inList := None\<rparr>) = Some c')"
      using pl l m d1(3) by (auto simp: placed_def split: if_splits)
  qed (use d1 l in \<open>auto simp: moved_remove1\<close>)
  ultimately show ?thesis using d1(1) by blast
qed

lemma moves_remove:
  assumes pl: "placed s n d" and l: "m_inList n = Some c \<Longrightarrow> list_of c d \<noteq> None"
  shows "\<exists>d'. list_remove c s d = Some d' \<and> moves s n (if m_inList n = Some c then n\<lparr>m_inList := None\<rparr> else n) d d'"
proof (cases "m_inList n = Some c")
  case True
  then obtain xs where "list_of c d = Some xs" using l by auto
  then show ?thesis using moves_drop [OF pl True] True pl by (auto simp: list_remove_def placed_def)
next
  case False
  then show ?thesis using pl by (auto simp: list_remove_def placed_def moves_refl)
qed

lemma moves_get:
  assumes pl: "placed s n d" and l: "list_of c d = Some (s # xs)"
  shows "\<exists>d'. list_get c d = Some (Some s, d') \<and> moves s n (n\<lparr>m_inList := None\<rparr>) d d' \<and> list_of c d' = Some xs"
proof -
  have m: "m_inList n = Some c" using pl l unfolding placed_def by (metis list.set_intros(1))
  obtain d1 d' where d: "set_list_of c xs d = Some d1" "upd_sub s (\<lambda>n. n\<lparr>m_inList := None\<rparr>) d1 = Some d'" "moves s n (n\<lparr>m_inList := None\<rparr>) d d'"
    using moves_drop [OF pl m l] by auto
  have "list_of c d1 = Some xs" using set_list_of_Some [OF l, of xs] d(1) by auto
  then have "list_of c d' = Some xs" using d(2) by (auto simp: upd_sub_def split: option.splits)
  then show ?thesis using d l by (auto simp: list_get_def)
qed

lemma moves_signal:
  assumes "moves s n n' d d'" and "loops d' l \<noteq> None"
  shows "\<exists>d''. upd_loop l (\<lambda>e. e\<lparr>m_signals := m_signals e + 1\<rparr>) d' = Some d'' \<and> moves s n n' d d''"
proof -
  obtain e where e: "loops d' l = Some e" using assms(2) by auto
  let ?d = "d'\<lparr>loops := (loops d')(l \<mapsto> e\<lparr>m_signals := m_signals e + 1\<rparr>)\<rparr>"
  have "list_of c ?d = list_of c d'" for c using e by (auto simp: list_of_def split: sub_list.split)
  then have "moves s n n' d ?d" using assms(1) by (simp add: moves_def placed_def)
  then show ?thesis using e by (simp add: upd_loop_def)
qed

section \<open>The state machine as moves\<close>

lemma moves_loops: "moves s n n' d d' \<Longrightarrow> loops d l \<noteq> None \<Longrightarrow> loops d' l \<noteq> None"
  by (cases "loops d' l") (auto simp: moves_def list_of_def dest!: spec [of _ "PendingOf l"])

lemma loop_list: "loops d l \<noteq> None \<Longrightarrow> \<exists>xs. list_of (PendingOf l) d = Some xs"
  by (auto simp: list_of_def)

lemma point_list: "points d mp = Some p \<Longrightarrow> list_of (Subscribers mp) d = Some (m_subscribers p)"
  by (simp add: list_of_def)

lemma moves_points:
  assumes "moves s n n' d d'" and "points d mp = Some p"
  shows "\<exists>p'. points d' mp = Some p' \<and> bare p' = bare p"
  using assms by (cases "points d' mp") (auto simp: moves_def dest!: spec [of _ mp])

lemma bare_fields: "bare p' = bare p \<Longrightarrow> m_seqNum p' = m_seqNum p \<and> m_data p' = m_data p \<and> m_dataSize p' = m_dataSize p \<and> m_locked p' = m_locked p \<and> m_valid p' = m_valid p"
  by (cases p; cases p') (simp add: bare_def)

lemma moves_placed: "moves s n n' d d' \<Longrightarrow> placed s n d" "moves s n n' d d' \<Longrightarrow> placed s n' d'"
  by (simp_all add: moves_def)

lemma moves_pending:
  assumes pl: "placed s n d" and m: "m_inList n = None" and l: "loops d (m_eventLoopHdl n) \<noteq> None"
  shows "\<exists>d'. transitionToNotifyPending s d = Some d' \<and>
    moves s n (n\<lparr>m_inList := Some (PendingOf (m_eventLoopHdl n)), m_state := eSTATE_NOTIFY_PENDING\<rparr>) d d'"
proof -
  obtain xs where "list_of (PendingOf (m_eventLoopHdl n)) d = Some xs" using loop_list [OF l] by auto
  then obtain d1 where d1: "list_put (PendingOf (m_eventLoopHdl n)) s d = Some d1" "moves s n (n\<lparr>m_inList := Some (PendingOf (m_eventLoopHdl n))\<rparr>) d d1"
    using moves_put [OF pl m] by blast
  obtain d2 where d2: "upd_loop (m_eventLoopHdl n) (\<lambda>e. e\<lparr>m_signals := m_signals e + 1\<rparr>) d1 = Some d2"
    "moves s n (n\<lparr>m_inList := Some (PendingOf (m_eventLoopHdl n))\<rparr>) d d2"
    using moves_signal [OF d1(2) moves_loops [OF d1(2) l]] by blast
  obtain d3 where d3: "setState s eSTATE_NOTIFY_PENDING d2 = Some d3"
    "moves s (n\<lparr>m_inList := Some (PendingOf (m_eventLoopHdl n))\<rparr>) (n\<lparr>m_inList := Some (PendingOf (m_eventLoopHdl n)), m_state := eSTATE_NOTIFY_PENDING\<rparr>) d2 d3"
    using moves_upd_sub [OF moves_placed(2) [OF d2(2)], of "\<lambda>n. n\<lparr>m_state := eSTATE_NOTIFY_PENDING\<rparr>"] by (auto simp: setState_def)
  have "transitionToNotifyPending s d = Some d3"
    using pl d1(1) d2(1) d3(1) by (simp add: transitionToNotifyPending_def addPendingChangingNotification_def placed_def)
  then show ?thesis using moves_trans [OF d2(2) d3(2)] by blast
qed

definition subscribed_as :: "addr \<Rightarrow> u16 \<Rightarrow> subscriber \<Rightarrow> subscriber" where
  "subscribed_as mp seq n = (if m_seqNumber n = seq then n\<lparr>m_state := eSTATE_IDLE, m_inList := Some (Subscribers mp)\<rparr>
     else n\<lparr>m_inList := Some (PendingOf (m_eventLoopHdl n)), m_state := eSTATE_NOTIFY_PENDING\<rparr>)"

lemma mark_none: "m_inList n = None \<Longrightarrow> n\<lparr>m_inList := None\<rparr> = n"
  by (cases n) simp

lemma moves_subscribed:
  assumes pl: "placed s n d" and m: "m_inList n = None \<or> m_inList n = Some (Subscribers mp)" and p: "points d mp = Some p"
    and l: "loops d (m_eventLoopHdl n) \<noteq> None"
  shows "\<exists>d'. transitionToSubscribed mp s d = Some d' \<and> moves s n (subscribed_as mp (m_seqNum p) n) d d'"
proof -
  let ?n = "n\<lparr>m_inList := None\<rparr>"
  obtain d1 where d1: "list_remove (Subscribers mp) s d = Some d1" "moves s n ?n d d1"
    using moves_remove [OF pl, of "Subscribers mp"] m point_list [OF p] by (auto simp: mark_none)
  obtain p1 where p1: "points d1 mp = Some p1" "m_seqNum p1 = m_seqNum p" using moves_points [OF d1(2) p] bare_fields by blast
  have n1: "subscribers d1 s = Some ?n" using moves_placed(2) [OF d1(2)] by (simp add: placed_def)
  show ?thesis
  proof (cases "m_seqNumber n = m_seqNum p")
    case True
    obtain d2 where d2: "setState s eSTATE_IDLE d1 = Some d2" "moves s ?n (?n\<lparr>m_state := eSTATE_IDLE\<rparr>) d1 d2"
      using moves_upd_sub [OF moves_placed(2) [OF d1(2)], of "\<lambda>n. n\<lparr>m_state := eSTATE_IDLE\<rparr>"] by (auto simp: setState_def)
    obtain p2 where p2: "points d2 mp = Some p2" using moves_points [OF d2(2) p1(1)] by blast
    obtain d3 where d3: "list_put (Subscribers mp) s d2 = Some d3"
      "moves s (?n\<lparr>m_state := eSTATE_IDLE\<rparr>) (n\<lparr>m_state := eSTATE_IDLE, m_inList := Some (Subscribers mp)\<rparr>) d2 d3"
      using moves_put [OF moves_placed(2) [OF d2(2)] _ point_list [OF p2]] by auto
    then show ?thesis using True moves_trans [OF moves_trans [OF d1(2) d2(2)] d3(2)] d1(1) d2(1) p1 n1
      by (simp add: transitionToSubscribed_def subscribed_as_def)
  next
    case False
    obtain d2 where "transitionToNotifyPending s d1 = Some d2"
      "moves s ?n (n\<lparr>m_inList := Some (PendingOf (m_eventLoopHdl n)), m_state := eSTATE_NOTIFY_PENDING\<rparr>) d1 d2"
      using moves_pending [OF moves_placed(2) [OF d1(2)]] moves_loops [OF d1(2) l] by auto
    then show ?thesis using False moves_trans [OF d1(2)] d1(1) p1 n1
      by (auto simp: transitionToSubscribed_def subscribed_as_def)
  qed
qed

section \<open>The invariant\<close>

text \<open>Where the thread of an event loop is in \<^verbatim>\<open>processChangeNotifications\<close>.\<close>

datatype loop_pos = Waiting | Got addr | Calling addr addr

definition sub_ok :: "addr set \<Rightarrow> (addr \<Rightarrow> loop_pos) \<Rightarrow> data_model \<Rightarrow> addr \<Rightarrow> subscriber \<Rightarrow> bool" where
  "sub_ok X pos d s n \<longleftrightarrow> loops d (m_eventLoopHdl n) \<noteq> None \<and>
     (case m_state n of
        eSTATE_UNSUBSCRIBED \<Rightarrow> m_inList n = None
      | eSTATE_IDLE \<Rightarrow> (\<exists>mp p. m_point n = Some mp \<and> m_inList n = Some (Subscribers mp) \<and> points d mp = Some p \<and> (mp \<notin> X \<longrightarrow> m_seqNumber n = m_seqNum p))
      | eSTATE_NOTIFY_PENDING \<Rightarrow> (\<exists>mp. m_point n = Some mp \<and> points d mp \<noteq> None) \<and>
          (m_inList n = Some (PendingOf (m_eventLoopHdl n)) \<or> m_inList n = None \<and> pos (m_eventLoopHdl n) = Got s)
      | eSTATE_NOTIFY_NOTIFYING \<Rightarrow> (\<exists>mp. m_point n = Some mp \<and> points d mp \<noteq> None \<and> pos (m_eventLoopHdl n) = Calling s mp) \<and> m_inList n = None
      | eSTATE_NOTIFY_PENDING_DETACH \<Rightarrow> (\<exists>mp. points d mp \<noteq> None \<and> pos (m_eventLoopHdl n) = Calling s mp) \<and> m_inList n = None)"

definition pos_ok :: "data_model \<Rightarrow> addr \<Rightarrow> loop_pos \<Rightarrow> bool" where
  "pos_ok d l q \<longleftrightarrow> (case q of Waiting \<Rightarrow> True
     | Got s \<Rightarrow> (\<exists>n. subscribers d s = Some n \<and> m_eventLoopHdl n = l \<and> m_state n = eSTATE_NOTIFY_PENDING \<and> m_inList n = None)
     | Calling s mp \<Rightarrow> (\<exists>n. subscribers d s = Some n \<and> m_eventLoopHdl n = l \<and> m_state n \<in> {eSTATE_NOTIFY_NOTIFYING, eSTATE_NOTIFY_PENDING_DETACH}))"

definition point_ok :: "model_point \<Rightarrow> bool" where
  "point_ok p \<longleftrightarrow> m_seqNum p \<noteq> SEQUENCE_NUMBER_UNKNOWN \<and> length (m_data p) = m_dataSize p"

definition dm_inv :: "addr set \<Rightarrow> (addr \<Rightarrow> loop_pos) \<Rightarrow> data_model \<Rightarrow> bool" where
  "dm_inv X pos d \<longleftrightarrow> (\<forall>s n. subscribers d s = Some n \<longrightarrow> sub_ok X pos d s n) \<and>
     (\<forall>c xs. list_of c d = Some xs \<longrightarrow> distinct xs \<and> (\<forall>s. s \<in> set xs \<longleftrightarrow> (\<exists>n. subscribers d s = Some n \<and> m_inList n = Some c))) \<and>
     (\<forall>l. pos_ok d l (pos l)) \<and> (\<forall>mp p. points d mp = Some p \<longrightarrow> point_ok p)"

lemma dm_inv_placed: "dm_inv X pos d \<Longrightarrow> subscribers d s = Some n \<Longrightarrow> placed s n d"
  by (auto simp: dm_inv_def placed_def)

lemma dm_inv_sub: "dm_inv X pos d \<Longrightarrow> subscribers d s = Some n \<Longrightarrow> sub_ok X pos d s n"
  by (simp add: dm_inv_def)

lemma dm_inv_member: "dm_inv X pos d \<Longrightarrow> list_of c d = Some xs \<Longrightarrow> s \<in> set xs \<longleftrightarrow> (\<exists>n. subscribers d s = Some n \<and> m_inList n = Some c)"
  by (simp add: dm_inv_def)

definition about :: "addr \<Rightarrow> loop_pos \<Rightarrow> bool" where
  "about s q \<longleftrightarrow> q = Got s \<or> (\<exists>mp. q = Calling s mp)"

definition pos_change :: "addr \<Rightarrow> addr \<Rightarrow> (addr \<Rightarrow> loop_pos) \<Rightarrow> (addr \<Rightarrow> loop_pos) \<Rightarrow> bool" where
  "pos_change s l pos pos' \<longleftrightarrow> (\<forall>k. k \<noteq> l \<longrightarrow> pos' k = pos k) \<and> (\<forall>t. about t (pos l) \<longrightarrow> t \<noteq> s \<longrightarrow> pos' l = pos l)"

lemma pos_change_refl [simp]: "pos_change s l pos pos"
  by (simp add: pos_change_def)

lemma point_ok_bare: "bare p' = bare p \<Longrightarrow> point_ok p' = point_ok p"
  using bare_fields [of p' p] by (simp add: point_ok_def)

lemma sub_ok_other:
  assumes "sub_ok X pos d t m" and "moves s n n' d d'" and "pos_change s (m_eventLoopHdl n) pos pos'" and "t \<noteq> s"
  shows "sub_ok X pos' d' t m"
proof -
  have l: "pos (m_eventLoopHdl m) = q \<Longrightarrow> about t q \<Longrightarrow> pos' (m_eventLoopHdl m) = q" for q
    using assms(3,4) by (cases "m_eventLoopHdl m = m_eventLoopHdl n") (auto simp: pos_change_def)
  have pt: "points d mp = Some p \<Longrightarrow> \<exists>p'. points d' mp = Some p' \<and> m_seqNum p' = m_seqNum p" for mp p
    using moves_points [OF assms(2)] bare_fields by blast
  then have pt': "points d mp \<noteq> None \<Longrightarrow> points d' mp \<noteq> None" for mp by (cases "points d mp") auto
  have lp: "loops d (m_eventLoopHdl m) \<noteq> None \<Longrightarrow> loops d' (m_eventLoopHdl m) \<noteq> None" by (rule moves_loops [OF assms(2)])
  show ?thesis
  proof (cases "m_state m")
    case eSTATE_IDLE
    then obtain mp p where "m_point m = Some mp" "m_inList m = Some (Subscribers mp)" "points d mp = Some p" "mp \<notin> X \<longrightarrow> m_seqNumber m = m_seqNum p"
      using assms(1) by (auto simp: sub_ok_def)
    then show ?thesis using eSTATE_IDLE lp pt [of mp p] assms(1) by (auto simp: sub_ok_def)
  qed (use assms(1) l lp pt' in \<open>auto simp: sub_ok_def about_def\<close>)
qed

lemma dm_inv_moves:
  assumes inv: "dm_inv X pos d" and mv: "moves s n n' d d'" and ok: "sub_ok X pos' d' s n'"
    and pos: "pos_change s (m_eventLoopHdl n) pos pos'"
    and own: "pos_ok d' (m_eventLoopHdl n) (pos' (m_eventLoopHdl n))"
  shows "dm_inv X pos' d'"
proof -
  have subs: "subscribers d' = (subscribers d)(s \<mapsto> n')" "subscribers d s = Some n" using mv by (auto simp: moves_def placed_def)
  have "sub_ok X pos' d' t m" if "subscribers d' t = Some m" for t m
  proof (cases "t = s")
    case False
    then have "sub_ok X pos d t m" using dm_inv_sub [OF inv] that subs by simp
    then show ?thesis by (rule sub_ok_other [OF _ mv pos False])
  qed (use that subs ok in simp)
  moreover have "distinct xs' \<and> (\<forall>t. t \<in> set xs' \<longleftrightarrow> (\<exists>m. subscribers d' t = Some m \<and> m_inList m = Some c))" if c: "list_of c d' = Some xs'" for c xs'
  proof -
    have "rel_option (moved s) (list_of c d) (Some xs')" using mv c by (auto simp: moves_def dest: spec [of _ c])
    then obtain xs where xs: "list_of c d = Some xs" "moved s xs xs'" by (cases "list_of c d") auto
    have pl: "distinct xs'" "s \<in> set xs' \<longleftrightarrow> m_inList n' = Some c" using mv c by (auto simp: moves_def placed_def)
    have "t \<in> set xs' \<longleftrightarrow> (\<exists>m. subscribers d' t = Some m \<and> m_inList m = Some c)" for t
      using pl(2) subs dm_inv_member [OF inv xs(1), of t] moved_set [OF xs(2), of t] by (cases "t = s") auto
    then show ?thesis using pl(1) by simp
  qed
  moreover have "pos_ok d' l (pos' l)" for l
  proof (cases "l = m_eventLoopHdl n")
    case False
    then have q: "pos' l = pos l" using pos by (simp add: pos_change_def)
    have "pos_ok d l (pos l)" using inv by (simp add: dm_inv_def)
    then show ?thesis unfolding q using False subs by (cases "pos l") (auto simp: pos_ok_def)
  qed (use own in simp)
  moreover have "point_ok p" if "points d' mp = Some p" for mp p
  proof -
    have "map_option bare (Some p) = map_option bare (points d mp)" using mv that by (auto simp: moves_def dest: spec [of _ mp])
    then obtain q where q: "points d mp = Some q" "bare p = bare q" by (cases "points d mp") auto
    have "point_ok q" using inv q(1) by (simp add: dm_inv_def)
    then show ?thesis using point_ok_bare [OF q(2)] by simp
  qed
  ultimately show ?thesis by (simp add: dm_inv_def)
qed

section \<open>Attaching and detaching\<close>

text \<open>A subscriber no thread is dealing with may move alone.\<close>

lemma dm_inv_moves_free:
  assumes inv: "dm_inv X pos d" and mv: "moves s n n' d d'" and ok: "sub_ok X pos d' s n'" and free: "\<not> about s (pos (m_eventLoopHdl n))"
  shows "dm_inv X pos d'"
proof (rule dm_inv_moves [OF inv mv ok])
  have "pos_ok d (m_eventLoopHdl n) (pos (m_eventLoopHdl n))" using inv by (simp add: dm_inv_def)
  moreover have "subscribers d' = (subscribers d)(s \<mapsto> n')" using mv by (simp add: moves_def)
  ultimately show "pos_ok d' (m_eventLoopHdl n) (pos (m_eventLoopHdl n))"
    using free by (cases "pos (m_eventLoopHdl n)") (auto simp: pos_ok_def about_def)
qed simp

lemma dm_inv_about:
  assumes inv: "dm_inv X pos d" and n: "subscribers d s = Some n"
  shows "pos (m_eventLoopHdl n) = Got s \<Longrightarrow> m_state n = eSTATE_NOTIFY_PENDING \<and> m_inList n = None"
    and "pos (m_eventLoopHdl n) = Calling s mp \<Longrightarrow> m_state n \<in> {eSTATE_NOTIFY_NOTIFYING, eSTATE_NOTIFY_PENDING_DETACH}"
proof -
  have "pos_ok d (m_eventLoopHdl n) (pos (m_eventLoopHdl n))" using inv by (simp add: dm_inv_def)
  then show "pos (m_eventLoopHdl n) = Got s \<Longrightarrow> m_state n = eSTATE_NOTIFY_PENDING \<and> m_inList n = None"
    and "pos (m_eventLoopHdl n) = Calling s mp \<Longrightarrow> m_state n \<in> {eSTATE_NOTIFY_NOTIFYING, eSTATE_NOTIFY_PENDING_DETACH}"
    using n by (auto simp: pos_ok_def)
qed

lemma sub_ok_subscribed_as:
  assumes "loops d (m_eventLoopHdl n) \<noteq> None" and "points d mp = Some p" and "m_point n = Some mp"
  shows "sub_ok X pos d s (subscribed_as mp (m_seqNum p) n)"
  using assms by (auto simp: sub_ok_def subscribed_as_def)

text \<open>The discipline of the clients: a subscriber is attached and detached by its own thread, and to one point at a time.\<close>

definition own_thread :: "(addr \<Rightarrow> loop_pos) \<Rightarrow> subscriber \<Rightarrow> bool" where
  "own_thread pos n \<longleftrightarrow> (case pos (m_eventLoopHdl n) of Got t \<Rightarrow> False | _ \<Rightarrow> True)"

lemma own_thread_iff: "own_thread pos n \<longleftrightarrow> (\<forall>t. pos (m_eventLoopHdl n) \<noteq> Got t)"
  by (simp add: own_thread_def split: loop_pos.split)

definition attach_ok :: "(addr \<Rightarrow> loop_pos) \<Rightarrow> data_model \<Rightarrow> addr \<Rightarrow> addr \<Rightarrow> bool" where
  "attach_ok pos d mp s \<longleftrightarrow> (case (subscribers d s, points d mp) of
     (Some n, Some p) \<Rightarrow> own_thread pos n \<and>
       (case m_state n of eSTATE_UNSUBSCRIBED \<Rightarrow> True | eSTATE_NOTIFY_PENDING_DETACH \<Rightarrow> pos (m_eventLoopHdl n) = Calling s mp | _ \<Rightarrow> m_point n = Some mp)
   | _ \<Rightarrow> False)"

definition detach_ok :: "(addr \<Rightarrow> loop_pos) \<Rightarrow> data_model \<Rightarrow> addr \<Rightarrow> addr \<Rightarrow> bool" where
  "detach_ok pos d mp s \<longleftrightarrow> (case (subscribers d s, points d mp) of
     (Some n, Some p) \<Rightarrow> own_thread pos n \<and>
       (m_state n \<in> {eSTATE_UNSUBSCRIBED, eSTATE_NOTIFY_PENDING_DETACH} \<or> m_point n = Some mp)
   | _ \<Rightarrow> False)"

lemma moves_point_loop:
  assumes "moves s n n' d d'" and "points d mp = Some p" and "loops d l \<noteq> None"
  obtains p' where "points d' mp = Some p'" "m_seqNum p' = m_seqNum p" "loops d' l \<noteq> None" "subscribers d' s = Some n'"
proof -
  obtain p' where p': "points d' mp = Some p'" "bare p' = bare p" using moves_points [OF assms(1,2)] by blast
  have "subscribers d' s = Some n'" using moves_placed(2) [OF assms(1)] by (simp add: placed_def)
  then show thesis using that p'(1) bare_fields [OF p'(2)] moves_loops [OF assms(1,3)] by blast
qed

lemma attach_free:
  assumes inv: "dm_inv X pos d" and mv: "moves s n n1 d d1" and p: "points d mp = Some p" and l: "loops d (m_eventLoopHdl n1) \<noteq> None"
    and free: "\<not> about s (pos (m_eventLoopHdl n))" and m: "m_inList n1 = None \<or> m_inList n1 = Some (Subscribers mp)" and pt: "m_point n1 = Some mp"
  shows "\<exists>d'. transitionToSubscribed mp s d1 = Some d' \<and> moves s n (subscribed_as mp (m_seqNum p) n1) d d' \<and> dm_inv X pos d'"
proof -
  obtain p1 where p1: "points d1 mp = Some p1" "m_seqNum p1 = m_seqNum p" "loops d1 (m_eventLoopHdl n1) \<noteq> None" "subscribers d1 s = Some n1"
    using moves_point_loop [OF mv p l] .
  obtain d' where d': "transitionToSubscribed mp s d1 = Some d'" "moves s n1 (subscribed_as mp (m_seqNum p) n1) d1 d'"
    using moves_subscribed [OF moves_placed(2) [OF mv] m p1(1,3)] p1(2) by auto
  have mv': "moves s n (subscribed_as mp (m_seqNum p) n1) d d'" using moves_trans [OF mv d'(2)] .
  obtain p2 where "points d' mp = Some p2" "m_seqNum p2 = m_seqNum p" "loops d' (m_eventLoopHdl n1) \<noteq> None"
    using moves_point_loop [OF mv' p l] .
  then have "sub_ok X pos d' s (subscribed_as mp (m_seqNum p) n1)" using sub_ok_subscribed_as [of d' n1 mp p2] pt by simp
  then show ?thesis using dm_inv_moves_free [OF inv mv' _ free] d'(1) mv' by blast
qed

lemma attach_inv:
  assumes inv: "dm_inv {} pos d" and ok: "attach_ok pos d mp s" and n: "subscribers d s = Some n"
  shows "\<exists>d' n'. attachSubscriber mp s seq d = Some d' \<and> moves s n n' d d' \<and> dm_inv {} pos d'"
proof -
  obtain p where p: "points d mp = Some p" using ok n by (auto simp: attach_ok_def split: option.splits)
  have own: "own_thread pos n" using ok n by (auto simp: attach_ok_def split: option.splits)
  have at: "case m_state n of eSTATE_UNSUBSCRIBED \<Rightarrow> True | eSTATE_NOTIFY_PENDING_DETACH \<Rightarrow> pos (m_eventLoopHdl n) = Calling s mp | _ \<Rightarrow> m_point n = Some mp"
    using ok n p by (simp add: attach_ok_def)
  have so: "sub_ok {} pos d s n" by (rule dm_inv_sub [OF inv n])
  then have l: "loops d (m_eventLoopHdl n) \<noteq> None" by (simp add: sub_ok_def)
  let ?n = "n\<lparr>m_seqNumber := seq, m_point := Some mp\<rparr>"
  let ?d = "d\<lparr>subscribers := (subscribers d)(s \<mapsto> ?n)\<rparr>"
  have upd: "setSequenceNumber s seq d = Some (d\<lparr>subscribers := (subscribers d)(s \<mapsto> n\<lparr>m_seqNumber := seq\<rparr>)\<rparr>)"
    "setModelPoint s (Some mp) (d\<lparr>subscribers := (subscribers d)(s \<mapsto> n\<lparr>m_seqNumber := seq\<rparr>)\<rparr>) = Some ?d"
    using n by (simp_all add: setSequenceNumber_def setModelPoint_def upd_sub_def)
  have mv: "moves s n ?n d ?d" using moves_upd_sub [OF dm_inv_placed [OF inv n], of "\<lambda>n. n\<lparr>m_seqNumber := seq, m_point := Some mp\<rparr>"] n
    by (simp add: upd_sub_def)
  have sub: "subscribers ?d s = Some ?n" by simp
  have eq: "attachSubscriber mp s seq d = processSubscriptionEvent mp s eATTACH ?d" using upd by (simp add: attachSubscriber_def)
  have free: "\<not> about s (pos (m_eventLoopHdl n))" if "m_state n \<notin> {eSTATE_NOTIFY_NOTIFYING, eSTATE_NOTIFY_PENDING_DETACH}"
    using own that dm_inv_about(2) [OF inv n] by (auto simp: about_def own_thread_iff)
  show ?thesis
  proof (cases "m_state n")
    case eSTATE_UNSUBSCRIBED
    then have "m_inList n = None" using so by (simp add: sub_ok_def)
    then show ?thesis using attach_free [OF inv mv p] l free eSTATE_UNSUBSCRIBED eq p by (auto simp: processSubscriptionEvent_def)
  next
    case eSTATE_IDLE
    then have "m_inList n = Some (Subscribers mp)" using so at by (auto simp: sub_ok_def)
    then show ?thesis using attach_free [OF inv mv p] l free eSTATE_IDLE eq p by (auto simp: processSubscriptionEvent_def)
  next
    case eSTATE_NOTIFY_PENDING
    then have m: "m_inList n = Some (PendingOf (m_eventLoopHdl n))" using so own by (auto simp: sub_ok_def own_thread_iff)
    obtain d1 where d1: "list_remove (PendingOf (m_eventLoopHdl n)) s ?d = Some d1" "moves s ?n (?n\<lparr>m_inList := None\<rparr>) ?d d1"
      using moves_remove [OF moves_placed(2) [OF mv], of "PendingOf (m_eventLoopHdl n)"] m loop_list [OF l] by auto
    obtain d' where "transitionToSubscribed mp s d1 = Some d'" "moves s n (subscribed_as mp (m_seqNum p) (?n\<lparr>m_inList := None\<rparr>)) d d'" "dm_inv {} pos d'"
      using attach_free [OF inv moves_trans [OF mv d1(2)] p] l free eSTATE_NOTIFY_PENDING by auto
    then show ?thesis using eq eSTATE_NOTIFY_PENDING d1(1) p by (auto simp: processSubscriptionEvent_def removePendingChangingNotification_def)
  next
    case eSTATE_NOTIFY_NOTIFYING
    then have q: "pos (m_eventLoopHdl n) = Calling s mp" "m_inList n = None" using so at by (auto simp: sub_ok_def)
    have "dm_inv {} pos ?d"
      by (rule dm_inv_moves [OF inv mv]) (use q l p eSTATE_NOTIFY_NOTIFYING in \<open>auto simp: sub_ok_def pos_ok_def\<close>)
    then show ?thesis using eq mv eSTATE_NOTIFY_NOTIFYING p by (auto simp: processSubscriptionEvent_def)
  next
    case eSTATE_NOTIFY_PENDING_DETACH
    then have q: "pos (m_eventLoopHdl n) = Calling s mp" "m_inList n = None" using so at by (auto simp: sub_ok_def)
    let ?n' = "?n\<lparr>m_state := eSTATE_NOTIFY_NOTIFYING\<rparr>"
    obtain d' where d': "setState s eSTATE_NOTIFY_NOTIFYING ?d = Some d'" "moves s ?n ?n' ?d d'"
      using moves_upd_sub [OF moves_placed(2) [OF mv], of "\<lambda>n. n\<lparr>m_state := eSTATE_NOTIFY_NOTIFYING\<rparr>"] by (auto simp: setState_def)
    have mv': "moves s n ?n' d d'" using moves_trans [OF mv d'(2)] .
    obtain p2 where "points d' mp = Some p2" "loops d' (m_eventLoopHdl n) \<noteq> None" "subscribers d' s = Some ?n'"
      using moves_point_loop [OF mv' p l] by blast
    then have "dm_inv {} pos d'"
      by (intro dm_inv_moves [OF inv mv']) (use q in \<open>auto simp: sub_ok_def pos_ok_def\<close>)
    then show ?thesis using eq mv' d'(1) eSTATE_NOTIFY_PENDING_DETACH p by (auto simp: processSubscriptionEvent_def)
  qed
qed

lemma detach_inv:
  assumes inv: "dm_inv {} pos d" and ok: "detach_ok pos d mp s" and n: "subscribers d s = Some n"
  shows "\<exists>d' n'. detachSubscriber mp s d = Some d' \<and> moves s n n' d d' \<and> dm_inv {} pos d' \<and> m_state n' \<in> {eSTATE_UNSUBSCRIBED, eSTATE_NOTIFY_PENDING_DETACH}"
proof -
  obtain p where p: "points d mp = Some p" using ok n by (auto simp: detach_ok_def split: option.splits)
  have own: "own_thread pos n" and at: "m_state n \<in> {eSTATE_UNSUBSCRIBED, eSTATE_NOTIFY_PENDING_DETACH} \<or> m_point n = Some mp"
    using ok n p by (simp_all add: detach_ok_def)
  have so: "sub_ok {} pos d s n" by (rule dm_inv_sub [OF inv n])
  then have l: "loops d (m_eventLoopHdl n) \<noteq> None" by (simp add: sub_ok_def)
  note pl = dm_inv_placed [OF inv n]
  have free: "\<not> about s (pos (m_eventLoopHdl n))" if "m_state n \<notin> {eSTATE_NOTIFY_NOTIFYING, eSTATE_NOTIFY_PENDING_DETACH}"
    using own that dm_inv_about(2) [OF inv n] by (auto simp: about_def own_thread_iff)
  have fin: ?thesis if e: "processSubscriptionEvent mp s eDETACH d = Some d1" and mv: "moves s n n1 d d1"
      and q: "m_inList n1 = None" "m_state n1 = eSTATE_UNSUBSCRIBED \<and> \<not> about s (pos (m_eventLoopHdl n)) \<or>
        m_state n1 = eSTATE_NOTIFY_PENDING_DETACH \<and> (\<exists>mp. pos (m_eventLoopHdl n) = Calling s mp \<and> points d mp \<noteq> None)" for d1 n1
  proof -
    let ?n = "n1\<lparr>m_point := None\<rparr>"
    obtain d' where d': "setModelPoint s None d1 = Some d'" "moves s n1 ?n d1 d'"
      using moves_upd_sub [OF moves_placed(2) [OF mv], of "\<lambda>n. n\<lparr>m_point := None\<rparr>"] by (auto simp: setModelPoint_def)
    have mv': "moves s n ?n d d'" using moves_trans [OF mv d'(2)] .
    have hl: "m_eventLoopHdl n1 = m_eventLoopHdl n" using mv by (simp add: moves_def)
    have l': "loops d' (m_eventLoopHdl n) \<noteq> None" using moves_loops [OF mv' l] .
    from q(2) have "dm_inv {} pos d'"
    proof
      assume "m_state n1 = eSTATE_UNSUBSCRIBED \<and> \<not> about s (pos (m_eventLoopHdl n))"
      then show ?thesis by (intro dm_inv_moves_free [OF inv mv']) (use q(1) hl l' in \<open>auto simp: sub_ok_def\<close>)
    next
      assume a: "m_state n1 = eSTATE_NOTIFY_PENDING_DETACH \<and> (\<exists>mp. pos (m_eventLoopHdl n) = Calling s mp \<and> points d mp \<noteq> None)"
      then obtain mp' p' where "pos (m_eventLoopHdl n) = Calling s mp'" "points d mp' = Some p'" by auto
      moreover from this obtain p2 where "points d' mp' = Some p2" "subscribers d' s = Some ?n" using moves_point_loop [OF mv' _ l] by blast
      ultimately show ?thesis by (intro dm_inv_moves [OF inv mv']) (use q(1) hl l' a in \<open>auto simp: sub_ok_def pos_ok_def\<close>)
    qed
    moreover have "detachSubscriber mp s d = Some d'" using e d'(1) by (simp add: detachSubscriber_def)
    ultimately show ?thesis using mv' q(2) by (intro exI [of _ d'] exI [of _ ?n]) auto
  qed
  have state: "\<exists>d2. setState s st d1 = Some d2 \<and> moves s n (n1\<lparr>m_state := st\<rparr>) d d2" if "moves s n n1 d d1" for st d1 n1
    using moves_upd_sub [OF moves_placed(2) [OF that], of "\<lambda>n. n\<lparr>m_state := st\<rparr>"] moves_trans [OF that] by (auto simp: setState_def)
  show ?thesis
  proof (cases "m_state n")
    case eSTATE_UNSUBSCRIBED
    then show ?thesis using so free p n by (intro fin [OF _ moves_refl [OF pl]]) (auto simp: sub_ok_def processSubscriptionEvent_def)
  next
    case eSTATE_IDLE
    then have m: "m_inList n = Some (Subscribers mp)" using so at by (auto simp: sub_ok_def)
    obtain d1 where d1: "list_remove (Subscribers mp) s d = Some d1" "moves s n (n\<lparr>m_inList := None\<rparr>) d d1"
      using moves_remove [OF pl, of "Subscribers mp"] m point_list [OF p] by auto
    obtain d2 where "setState s eSTATE_UNSUBSCRIBED d1 = Some d2" "moves s n (n\<lparr>m_inList := None, m_state := eSTATE_UNSUBSCRIBED\<rparr>) d d2"
      using state [OF d1(2)] by auto
    then show ?thesis using free eSTATE_IDLE d1(1) p n by (intro fin) (auto simp: processSubscriptionEvent_def)
  next
    case eSTATE_NOTIFY_PENDING
    then have m: "m_inList n = Some (PendingOf (m_eventLoopHdl n))" using so own by (auto simp: sub_ok_def own_thread_iff)
    obtain d1 where d1: "list_remove (PendingOf (m_eventLoopHdl n)) s d = Some d1" "moves s n (n\<lparr>m_inList := None\<rparr>) d d1"
      using moves_remove [OF pl, of "PendingOf (m_eventLoopHdl n)"] m loop_list [OF l] by auto
    obtain d2 where "setState s eSTATE_UNSUBSCRIBED d1 = Some d2" "moves s n (n\<lparr>m_inList := None, m_state := eSTATE_UNSUBSCRIBED\<rparr>) d d2"
      using state [OF d1(2)] by auto
    then show ?thesis using free eSTATE_NOTIFY_PENDING d1(1) p n
      by (intro fin) (auto simp: processSubscriptionEvent_def removePendingChangingNotification_def)
  next
    case eSTATE_NOTIFY_NOTIFYING
    obtain d1 where "setState s eSTATE_NOTIFY_PENDING_DETACH d = Some d1" "moves s n (n\<lparr>m_state := eSTATE_NOTIFY_PENDING_DETACH\<rparr>) d d1"
      using state [OF moves_refl [OF pl]] by blast
    then show ?thesis using eSTATE_NOTIFY_NOTIFYING p n so by (intro fin) (auto simp: processSubscriptionEvent_def sub_ok_def)
  next
    case eSTATE_NOTIFY_PENDING_DETACH
    then show ?thesis using so p n by (intro fin [OF _ moves_refl [OF pl]]) (auto simp: sub_ok_def processSubscriptionEvent_def)
  qed
qed

section \<open>The steps of an event loop\<close>

lemma take_inv:
  assumes inv: "dm_inv X pos d" and w: "pos l = Waiting" and xs: "list_of (PendingOf l) d = Some (s # xs)"
  shows "\<exists>d' n. list_get (PendingOf l) d = Some (Some s, d') \<and> moves s n (n\<lparr>m_inList := None\<rparr>) d d' \<and> list_of (PendingOf l) d' = Some xs \<and>
    m_eventLoopHdl n = l \<and> m_state n = eSTATE_NOTIFY_PENDING \<and> dm_inv X (pos(l := Got s)) d'"
proof -
  obtain n where n: "subscribers d s = Some n" "m_inList n = Some (PendingOf l)" using dm_inv_member [OF inv xs, of s] by auto
  have so: "sub_ok X pos d s n" by (rule dm_inv_sub [OF inv n(1)])
  then have q: "m_state n = eSTATE_NOTIFY_PENDING" "m_eventLoopHdl n = l" using n(2) by (auto simp: sub_ok_def split: sub_state.splits)
  obtain d' where d': "list_get (PendingOf l) d = Some (Some s, d')" "moves s n (n\<lparr>m_inList := None\<rparr>) d d'" "list_of (PendingOf l) d' = Some xs"
    using moves_get [OF dm_inv_placed [OF inv n(1)] xs] by blast
  obtain mp p where mp: "m_point n = Some mp" "points d mp = Some p" using so q by (auto simp: sub_ok_def)
  have l: "loops d l \<noteq> None" using so q by (simp add: sub_ok_def)
  obtain p' where "points d' mp = Some p'" "loops d' l \<noteq> None" "subscribers d' s = Some (n\<lparr>m_inList := None\<rparr>)"
    using moves_point_loop [OF d'(2) mp(2) l] .
  then have "dm_inv X (pos(l := Got s)) d'"
    by (intro dm_inv_moves [OF inv d'(2)]) (use q mp w in \<open>auto simp: sub_ok_def pos_ok_def pos_change_def about_def\<close>)
  then show ?thesis using d' q by blast
qed

lemma begin_inv:
  assumes inv: "dm_inv X pos d" and g: "pos l = Got s"
  shows "\<exists>d' n mp p. subscribers d s = Some n \<and> m_point n = Some mp \<and> points d mp = Some p \<and> begin_notification s d = Some (mp, d') \<and>
    moves s n (n\<lparr>m_seqNumber := m_seqNum p, m_state := eSTATE_NOTIFY_NOTIFYING\<rparr>) d d' \<and> dm_inv X (pos(l := Calling s mp)) d'"
proof -
  have "pos_ok d l (Got s)" using inv g unfolding dm_inv_def by metis
  then obtain n where n: "subscribers d s = Some n" "m_eventLoopHdl n = l" "m_state n = eSTATE_NOTIFY_PENDING" "m_inList n = None" by (auto simp: pos_ok_def)
  have so: "sub_ok X pos d s n" by (rule dm_inv_sub [OF inv n(1)])
  obtain mp p where mp: "m_point n = Some mp" "points d mp = Some p" using so n by (auto simp: sub_ok_def)
  have l: "loops d l \<noteq> None" using so n by (simp add: sub_ok_def)
  let ?n = "n\<lparr>m_seqNumber := m_seqNum p, m_state := eSTATE_NOTIFY_NOTIFYING\<rparr>"
  let ?d = "d\<lparr>subscribers := (subscribers d)(s \<mapsto> ?n)\<rparr>"
  have mv: "moves s n ?n d ?d"
    using moves_upd_sub [OF dm_inv_placed [OF inv n(1)], of "\<lambda>n. n\<lparr>m_seqNumber := m_seqNum p, m_state := eSTATE_NOTIFY_NOTIFYING\<rparr>"] n(1) by (simp add: upd_sub_def)
  have "begin_notification s d = Some (mp, ?d)"
    using n mp by (simp add: begin_notification_def getModelPoint_def processSubscriptionEvent_def setSequenceNumber_def setState_def upd_sub_def)
  moreover have "dm_inv X (pos(l := Calling s mp)) ?d"
    by (rule dm_inv_moves [OF inv mv]) (use n mp l g in \<open>auto simp: sub_ok_def pos_ok_def pos_change_def about_def\<close>)
  ultimately show ?thesis using n(1) mp mv by blast
qed

lemma complete_inv:
  assumes inv: "dm_inv {} pos d" and g: "pos l = Calling s mp"
  shows "\<exists>d' n n' p. subscribers d s = Some n \<and> m_eventLoopHdl n = l \<and> points d mp = Some p \<and>
    processSubscriptionEvent mp s eNOTIFY_COMPLETE d = Some d' \<and> moves s n n' d d' \<and> dm_inv {} (pos(l := Waiting)) d' \<and>
    (m_state n = eSTATE_NOTIFY_NOTIFYING \<and> n' = subscribed_as mp (m_seqNum p) n \<or> m_state n = eSTATE_NOTIFY_PENDING_DETACH \<and> n' = n\<lparr>m_state := eSTATE_UNSUBSCRIBED\<rparr>)"
proof -
  have "pos_ok d l (Calling s mp)" using inv g unfolding dm_inv_def by metis
  then obtain n where n: "subscribers d s = Some n" "m_eventLoopHdl n = l" "m_state n \<in> {eSTATE_NOTIFY_NOTIFYING, eSTATE_NOTIFY_PENDING_DETACH}" by (auto simp: pos_ok_def)
  have so: "sub_ok {} pos d s n" by (rule dm_inv_sub [OF inv n(1)])
  obtain p where p: "points d mp = Some p" and m: "m_inList n = None" and pt: "m_state n = eSTATE_NOTIFY_NOTIFYING \<longrightarrow> m_point n = Some mp"
    using so n g by (auto simp: sub_ok_def)
  have l: "loops d (m_eventLoopHdl n) \<noteq> None" using so by (simp add: sub_ok_def)
  note pl = dm_inv_placed [OF inv n(1)]
  have fin: "dm_inv {} (pos(l := Waiting)) d'" if "moves s n n' d d'" "sub_ok {} (pos(l := Waiting)) d' s n'" for d' n'
    by (rule dm_inv_moves [OF inv that]) (use n g in \<open>auto simp: pos_ok_def pos_change_def about_def\<close>)
  show ?thesis
  proof (cases "m_state n = eSTATE_NOTIFY_NOTIFYING")
    case True
    obtain d' where d': "transitionToSubscribed mp s d = Some d'" "moves s n (subscribed_as mp (m_seqNum p) n) d d'"
      using moves_subscribed [OF pl _ p l] m by auto
    obtain p' where "points d' mp = Some p'" "m_seqNum p' = m_seqNum p" "loops d' (m_eventLoopHdl n) \<noteq> None" using moves_point_loop [OF d'(2) p l] .
    then have "sub_ok {} (pos(l := Waiting)) d' s (subscribed_as mp (m_seqNum p) n)" using sub_ok_subscribed_as [of d' n mp p'] pt True by simp
    then have "dm_inv {} (pos(l := Waiting)) d'" by (rule fin [OF d'(2)])
    then show ?thesis using d' True n p by (intro exI [of _ d'] exI [of _ n] exI [of _ p] exI) (auto simp: processSubscriptionEvent_def)
  next
    case False
    obtain d' where d': "setState s eSTATE_UNSUBSCRIBED d = Some d'" "moves s n (n\<lparr>m_state := eSTATE_UNSUBSCRIBED\<rparr>) d d'"
      using moves_upd_sub [OF pl, of "\<lambda>n. n\<lparr>m_state := eSTATE_UNSUBSCRIBED\<rparr>"] by (auto simp: setState_def)
    have "dm_inv {} (pos(l := Waiting)) d'"
      by (rule fin [OF d'(2)]) (use m moves_loops [OF d'(2) l] in \<open>simp add: sub_ok_def\<close>)
    then show ?thesis using d' False n p by (intro exI [of _ d'] exI [of _ n] exI [of _ p] exI) (auto simp: processSubscriptionEvent_def)
  qed
qed

end
