(* ===== verification/Model_Points_Change.thy ===== *)
theory Model_Points_Change
  imports Model_Points_Inv
begin

text \<open>
  Changes of a model point: the loop over its subscribers ends and puts each of them into the list of its event loop.
\<close>

section \<open>The loop over the subscribers\<close>

definition kept :: "addr list \<Rightarrow> addr list \<Rightarrow> bool" where
  "kept xs ys \<longleftrightarrow> (\<forall>t\<in>set xs. t \<in> set ys \<and> before t ys \<subseteq> before t xs)"

lemma order_kept_refl [simp]: "kept xs xs"
  by (simp add: kept_def)

lemma order_kept_trans: "kept xs ys \<Longrightarrow> kept ys zs \<Longrightarrow> kept xs zs"
  by (auto simp: kept_def)

lemma moved_kept: "moved s xs ys \<Longrightarrow> s \<notin> set xs \<Longrightarrow> kept xs ys"
proof -
  assume a: "moved s xs ys" "s \<notin> set xs"
  have "t \<in> set ys \<and> before t ys \<subseteq> before t xs" if "t \<in> set xs" for t
    using that a moved_set [OF a(1), of t] by (cases "t = s") (auto simp: moved_def)
  then show ?thesis by (simp add: kept_def)
qed

lemma rel_kept_refl [simp]: "rel_option kept x x"
  by (cases x) auto

lemma rel_kept_trans: "rel_option kept x y \<Longrightarrow> rel_option kept y z \<Longrightarrow> rel_option kept x z"
  by (cases x; cases y; cases z) (auto intro: order_kept_trans)

definition pend :: "subscriber \<Rightarrow> subscriber" where
  "pend n = n\<lparr>m_inList := Some (PendingOf (m_eventLoopHdl n)), m_state := eSTATE_NOTIFY_PENDING\<rparr>"

lemma data_changed_inv:
  assumes inv: "dm_inv {mp} pos d" and xs: "list_of (Subscribers mp) d = Some (s # xs)"
  shows "\<exists>d1 d' n. list_get (Subscribers mp) d = Some (Some s, d1) \<and> processSubscriptionEvent mp s eDATA_CHANGED d1 = Some d' \<and>
    moves s n (pend n) d d' \<and> list_of (Subscribers mp) d' = Some xs \<and> dm_inv {mp} pos d'"
proof -
  obtain n where n: "subscribers d s = Some n" "m_inList n = Some (Subscribers mp)" using dm_inv_member [OF inv xs, of s] by auto
  have so: "sub_ok {mp} pos d s n" by (rule dm_inv_sub [OF inv n(1)])
  then have q: "m_state n = eSTATE_IDLE" "m_point n = Some mp" using n(2) by (auto simp: sub_ok_def split: sub_state.splits)
  obtain p where p: "points d mp = Some p" using so q by (auto simp: sub_ok_def)
  have l: "loops d (m_eventLoopHdl n) \<noteq> None" using so by (simp add: sub_ok_def)
  note pl = dm_inv_placed [OF inv n(1)]
  let ?n = "n\<lparr>m_inList := None\<rparr>"
  obtain d1 where d1: "list_get (Subscribers mp) d = Some (Some s, d1)" "moves s n ?n d d1" "list_of (Subscribers mp) d1 = Some xs"
    using moves_get [OF pl xs] by blast
  obtain p1 where p1: "points d1 mp = Some p1" "loops d1 (m_eventLoopHdl n) \<noteq> None" "subscribers d1 s = Some ?n" using moves_point_loop [OF d1(2) p l] .
  obtain d' where d': "transitionToNotifyPending s d1 = Some d'" "moves s ?n (pend n) d1 d'"
    using moves_pending [OF moves_placed(2) [OF d1(2)]] p1(2) by (auto simp: pend_def)
  have mv: "moves s n (pend n) d d'" using moves_trans [OF d1(2) d'(2)] .
  obtain p2 where p2: "points d' mp = Some p2" "loops d' (m_eventLoopHdl n) \<noteq> None" "subscribers d' s = Some (pend n)" using moves_point_loop [OF mv p l] .
  have "\<not> about s (pos (m_eventLoopHdl n))" using dm_inv_about [OF inv n(1)] q(1) by (auto simp: about_def)
  then have "dm_inv {mp} pos d'"
    by (intro dm_inv_moves_free [OF inv mv]) (use p2 q in \<open>auto simp: sub_ok_def pend_def\<close>)
  moreover have "list_of (Subscribers mp) d' = Some xs"
  proof -
    obtain ys where ys: "list_of (Subscribers mp) d' = Some ys" using point_list [OF p2(1)] by simp
    have "rel_option (moved s) (list_of (Subscribers mp) d1) (list_of (Subscribers mp) d')" using d'(2) by (simp add: moves_def)
    then have "filter (\<lambda>x. x \<noteq> s) ys = filter (\<lambda>x. x \<noteq> s) xs" using ys d1(3) by (simp add: moved_def)
    moreover have "s \<notin> set ys" using moves_placed(2) [OF mv] ys by (auto simp: placed_def pend_def)
    moreover have "s \<notin> set xs" using moves_placed(2) [OF d1(2)] d1(3) by (auto simp: placed_def)
    moreover have "filter (\<lambda>x. x \<noteq> s) zs = zs" if "s \<notin> set zs" for zs using that by (induction zs) auto
    ultimately show ?thesis using ys by simp
  qed
  moreover have "processSubscriptionEvent mp s eDATA_CHANGED d1 = Some d'" using d'(1) p1 q by (simp add: processSubscriptionEvent_def)
  ultimately show ?thesis using d1(1) mv by blast
qed

definition drained :: "addr \<Rightarrow> addr list \<Rightarrow> data_model \<Rightarrow> data_model \<Rightarrow> bool" where
  "drained mp xs d d' \<longleftrightarrow> list_of (Subscribers mp) d' = Some [] \<and> (\<forall>q. map_option bare (points d' q) = map_option bare (points d q)) \<and>
     (\<forall>q. q \<noteq> mp \<longrightarrow> list_of (Subscribers q) d' = list_of (Subscribers q) d) \<and>
     (\<forall>t. subscribers d' t = (if t \<in> set xs then map_option pend (subscribers d t) else subscribers d t)) \<and>
     (\<forall>l. rel_option kept (list_of (PendingOf l) d) (list_of (PendingOf l) d'))"

lemma moves_lists_unchanged:
  assumes mv: "moves s n n' d d'" and c: "m_inList n \<noteq> Some c" "m_inList n' \<noteq> Some c"
  shows "list_of c d' = list_of c d"
proof -
  have r: "rel_option (moved s) (list_of c d) (list_of c d')" using mv by (simp add: moves_def)
  show ?thesis
  proof (cases "list_of c d")
    case (Some xs)
    then obtain ys where ys: "list_of c d' = Some ys" "moved s xs ys" using r by (cases "list_of c d'") auto
    have "s \<notin> set xs" "s \<notin> set ys" using moves_placed [OF mv] Some ys(1) c by (auto simp: placed_def)
    moreover have "filter (\<lambda>x. x \<noteq> s) zs = zs" if "s \<notin> set zs" for zs using that by (induction zs) auto
    ultimately show ?thesis using Some ys by (simp add: moved_def)
  qed (use r in auto)
qed

lemma moves_kept:
  assumes mv: "moves s n n' d d'" and "m_inList n \<noteq> Some c"
  shows "rel_option kept (list_of c d) (list_of c d')"
proof -
  have "rel_option (moved s) (list_of c d) (list_of c d')" using mv by (simp add: moves_def)
  moreover have "list_of c d = Some xs \<Longrightarrow> s \<notin> set xs" for xs using moves_placed(1) [OF mv] assms(2) by (auto simp: placed_def)
  ultimately show ?thesis by (cases "list_of c d"; cases "list_of c d'") (auto intro: moved_kept)
qed

lemma notify_loop_inv:
  "dm_inv {mp} pos d \<Longrightarrow> list_of (Subscribers mp) d = Some xs \<Longrightarrow>
    \<exists>d'. notify_loop mp d = Some d' \<and> dm_inv {mp} pos d' \<and> drained mp xs d d'"
proof (induction xs arbitrary: d)
  case Nil
  then show ?case by (subst notify_loop.simps) (simp add: list_get_def drained_def)
next
  case (Cons s xs)
  obtain d1 d2 n where d: "list_get (Subscribers mp) d = Some (Some s, d1)" "processSubscriptionEvent mp s eDATA_CHANGED d1 = Some d2"
    "moves s n (pend n) d d2" "list_of (Subscribers mp) d2 = Some xs" "dm_inv {mp} pos d2" using data_changed_inv [OF Cons.prems] by blast
  obtain d' where d': "notify_loop mp d2 = Some d'" "dm_inv {mp} pos d'" "drained mp xs d2 d'" using Cons.IH [OF d(5,4)] by blast
  have n: "subscribers d s = Some n" "subscribers d2 = (subscribers d)(s \<mapsto> pend n)" "m_inList n = Some (Subscribers mp)"
    using d(3) Cons.prems(2) by (auto simp: moves_def placed_def dest: spec [of _ "Subscribers mp"])
  have "distinct (s # xs)" using Cons.prems unfolding dm_inv_def by metis
  then have s: "s \<notin> set xs" by simp
  have "list_of (Subscribers q) d2 = list_of (Subscribers q) d" if "q \<noteq> mp" for q
    by (rule moves_lists_unchanged [OF d(3)]) (use n(3) that in \<open>auto simp: pend_def\<close>)
  moreover have "rel_option kept (list_of (PendingOf l) d) (list_of (PendingOf l) d')" for l
  proof (rule rel_kept_trans)
    show "rel_option kept (list_of (PendingOf l) d) (list_of (PendingOf l) d2)" by (rule moves_kept [OF d(3)]) (simp add: n(3))
    show "rel_option kept (list_of (PendingOf l) d2) (list_of (PendingOf l) d')" using d'(3) by (simp add: drained_def)
  qed
  moreover have "map_option bare (points d2 q) = map_option bare (points d q)" for q using d(3) by (simp add: moves_def)
  ultimately have "drained mp (s # xs) d d'" using d'(3) n(1,2) s by (auto simp: drained_def)
  moreover have "notify_loop mp d = Some d'" using d(1,2) d'(1) by (subst notify_loop.simps) simp
  ultimately show ?case using d'(2) by blast
qed

section \<open>One change\<close>

definition changed :: "addr \<Rightarrow> model_point \<Rightarrow> data_model \<Rightarrow> data_model \<Rightarrow> bool" where
  "changed mp p d d' \<longleftrightarrow> points d' = (points d)(mp \<mapsto> bare p) \<and>
     (\<forall>t. subscribers d' t = (if t \<in> set (m_subscribers p) then map_option pend (subscribers d t) else subscribers d t)) \<and>
     (\<forall>l. rel_option kept (list_of (PendingOf l) d) (list_of (PendingOf l) d'))"

lemma bare_eqI: "bare p = bare q \<Longrightarrow> m_subscribers p = m_subscribers q \<Longrightarrow> p = q"
  by (cases p; cases q) (simp add: bare_def)

lemma dm_inv_all: "dm_inv {mp} pos d \<Longrightarrow> list_of (Subscribers mp) d = Some [] \<Longrightarrow> dm_inv {} pos d"
proof -
  assume inv: "dm_inv {mp} pos d" and e: "list_of (Subscribers mp) d = Some []"
  have "sub_ok {} pos d s n" if n: "subscribers d s = Some n" for s n
  proof -
    have so: "sub_ok {mp} pos d s n" by (rule dm_inv_sub [OF inv n])
    have "m_inList n \<noteq> Some (Subscribers mp)" using dm_inv_member [OF inv e, of s] n by auto
    then show ?thesis using so by (cases "m_state n") (auto simp: sub_ok_def)
  qed
  then show ?thesis using inv by (simp add: dm_inv_def)
qed

text \<open>A point may change in all but its subscribers when its sequence number stays, or when its subscribers are to be notified.\<close>

lemma dm_inv_point:
  assumes inv: "dm_inv X pos d" and p: "points d mp = Some p" and p': "m_subscribers p' = m_subscribers p" "point_ok p'"
    and sq: "m_seqNum p' = m_seqNum p \<or> Y = insert mp X" "X \<subseteq> Y"
  shows "dm_inv Y pos (d\<lparr>points := (points d)(mp \<mapsto> p')\<rparr>)"
proof -
  let ?d = "d\<lparr>points := (points d)(mp \<mapsto> p')\<rparr>"
  have l: "list_of c ?d = list_of c d" for c using p p'(1) by (auto simp: list_of_def split: sub_list.split)
  have "sub_ok Y pos ?d s n" if n: "subscribers d s = Some n" for s n
  proof (cases "m_state n")
    case eSTATE_IDLE
    then obtain q pq where "m_point n = Some q" "m_inList n = Some (Subscribers q)" "points d q = Some pq" "q \<notin> X \<longrightarrow> m_seqNumber n = m_seqNum pq"
      "loops d (m_eventLoopHdl n) \<noteq> None" using dm_inv_sub [OF inv n] by (auto simp: sub_ok_def)
    then show ?thesis using eSTATE_IDLE p sq by (cases "q = mp") (auto simp: sub_ok_def)
  qed (use dm_inv_sub [OF inv n] p in \<open>auto simp: sub_ok_def\<close>)
  then show ?thesis using inv p'(2) unfolding dm_inv_def l by (auto simp: pos_ok_def cong: loop_pos.case_cong)
qed

lemma change_inv:
  assumes inv: "dm_inv {} pos d" and p: "points d mp = Some p" and p': "m_subscribers p' = m_subscribers p" "point_ok p'"
  shows "\<exists>d'. notify_loop mp (d\<lparr>points := (points d)(mp \<mapsto> p')\<rparr>) = Some d' \<and> dm_inv {} pos d' \<and> changed mp p' d d'"
proof -
  let ?d = "d\<lparr>points := (points d)(mp \<mapsto> p')\<rparr>"
  have inv1: "dm_inv {mp} pos ?d" by (rule dm_inv_point [OF inv p p']) auto
  have l: "list_of c ?d = list_of c d" for c using p p'(1) by (auto simp: list_of_def split: sub_list.split)
  have x: "list_of (Subscribers mp) ?d = Some (m_subscribers p')" by (simp add: list_of_def)
  obtain d' where d': "notify_loop mp ?d = Some d'" "dm_inv {mp} pos d'" "drained mp (m_subscribers p') ?d d'"
    using notify_loop_inv [OF inv1 x] by blast
  have e: "list_of (Subscribers mp) d' = Some []" using d'(3) by (simp add: drained_def)
  have "points d' q = ((points d)(mp \<mapsto> bare p')) q" for q
  proof -
    have b: "map_option bare (points d' q) = map_option bare (points ?d q)" using d'(3) by (simp add: drained_def)
    show ?thesis
    proof (cases "q = mp")
      case True
      then obtain p2 where p2: "points d' mp = Some p2" "bare p2 = bare p'" using b by (cases "points d' mp") auto
      then have "m_subscribers p2 = m_subscribers (bare p')" using e by (simp add: list_of_def bare_def)
      moreover have "bare (bare p') = bare p'" by (simp add: bare_def)
      ultimately show ?thesis using True p2 bare_eqI [of p2 "bare p'"] by simp
    next
      case False
      then have s: "map_option m_subscribers (points d' q) = map_option m_subscribers (points d q)" using d'(3) by (simp add: drained_def list_of_def)
      show ?thesis using False b s by (cases "points d q"; cases "points d' q") (auto intro: bare_eqI)
    qed
  qed
  then have "changed mp p' d d'" using d'(3) l by (auto simp: changed_def drained_def)
  then show ?thesis using d'(1) dm_inv_all [OF d'(2) e] by blast
qed

section \<open>The methods that write\<close>

lemma advance_known: "advanceSequenceNumber q \<noteq> SEQUENCE_NUMBER_UNKNOWN"
  by (simp add: advanceSequenceNumber_def SEQUENCE_NUMBER_UNKNOWN_def Let_def)

lemma advance_differs: "q \<noteq> SEQUENCE_NUMBER_UNKNOWN \<Longrightarrow> advanceSequenceNumber q \<noteq> q"
  by (auto simp: advanceSequenceNumber_def SEQUENCE_NUMBER_UNKNOWN_def Let_def)

definition with_point :: "addr \<Rightarrow> model_point \<Rightarrow> data_model \<Rightarrow> data_model" where
  "with_point mp p d = d\<lparr>points := (points d)(mp \<mapsto> p)\<rparr>"

definition next_version :: "model_point \<Rightarrow> model_point" where
  "next_version p = p\<lparr>m_seqNum := advanceSequenceNumber (m_seqNum p)\<rparr>"

lemma next_version_simps [simp]:
  "m_seqNum (next_version p) = advanceSequenceNumber (m_seqNum p)" "m_subscribers (next_version p) = m_subscribers p"
  "m_data (next_version p) = m_data p" "m_valid (next_version p) = m_valid p" "m_locked (next_version p) = m_locked p" "m_dataSize (next_version p) = m_dataSize p"
  by (simp_all add: next_version_def)

lemma bare_simps [simp]:
  "m_seqNum (bare p) = m_seqNum p" "m_data (bare p) = m_data p" "m_valid (bare p) = m_valid p" "m_locked (bare p) = m_locked p"
  "m_dataSize (bare p) = m_dataSize p" "m_subscribers (bare p) = []"
  by (simp_all add: bare_def)

lemma notify_inv:
  assumes inv: "dm_inv {} pos d" and p: "points d mp = Some p" and p': "m_subscribers p' = m_subscribers p" "length (m_data p') = m_dataSize p'"
  shows "\<exists>d'. processChangeNotifications mp (with_point mp p' d) = Some d' \<and> dm_inv {} pos d' \<and> changed mp (next_version p') d d'"
proof -
  have "point_ok (next_version p')" using p'(2) advance_known by (simp add: point_ok_def)
  then obtain d' where "notify_loop mp (d\<lparr>points := (points d)(mp \<mapsto> next_version p')\<rparr>) = Some d'" "dm_inv {} pos d'" "changed mp (next_version p') d d'"
    using change_inv [OF inv p, of "next_version p'"] p'(1) by auto
  then show ?thesis by (simp add: processChangeNotifications_def upd_point_def with_point_def next_version_def)
qed

lemma changed_seq: "changed mp p d d' \<Longrightarrow> with_seq mp d' = Some (m_seqNum p, d')"
  by (simp add: changed_def with_seq_def)

lemma with_point_seq [simp]: "with_seq mp (with_point mp p d) = Some (m_seqNum p, with_point mp p d)"
  by (simp add: with_seq_def with_point_def)

lemma upd_point_Some [simp]: "points d mp = Some p \<Longrightarrow> upd_point mp f d = Some (with_point mp (f p) d)"
  by (simp add: upd_point_def with_point_def)

lemma with_point_again [simp]: "with_point mp p' (with_point mp p d) = with_point mp p' d" "points (with_point mp p d) mp = Some p"
  by (simp_all add: with_point_def)

lemma with_point_same: "points d mp = Some p \<Longrightarrow> with_point mp p d = d"
  by (simp add: with_point_def fun_upd_idem)

definition accepts :: "lock_request \<Rightarrow> model_point \<Rightarrow> bool" where
  "accepts lockRequest p \<longleftrightarrow> lockRequest \<noteq> eNO_REQUEST \<or> \<not> m_locked p"

definition lock_after :: "lock_request \<Rightarrow> model_point \<Rightarrow> bool" where
  "lock_after lockRequest p = (case lockRequest of eLOCK \<Rightarrow> True | eUNLOCK \<Rightarrow> False | eNO_REQUEST \<Rightarrow> m_locked p)"

lemma testAndUpdateLock_eq: "testAndUpdateLock lockRequest p = (accepts lockRequest p, p\<lparr>m_locked := lock_after lockRequest p\<rparr>)"
  by (cases lockRequest) (simp_all add: testAndUpdateLock_def accepts_def lock_after_def)

lemma dm_inv_point_ok: "dm_inv X pos d \<Longrightarrow> points d mp = Some p \<Longrightarrow> point_ok p"
  by (simp add: dm_inv_def)

lemma quiet_inv:
  assumes "dm_inv {} pos d" and "points d mp = Some p" and "m_subscribers p' = m_subscribers p" "m_seqNum p' = m_seqNum p" "length (m_data p') = m_dataSize p'"
  shows "dm_inv {} pos (with_point mp p' d)"
  unfolding with_point_def
  by (rule dm_inv_point [OF assms(1,2,3)]) (use dm_inv_point_ok [OF assms(1,2)] assms(4,5) in \<open>auto simp: point_ok_def\<close>)

text \<open>What a write does: \<open>p\<close> is the point before it.\<close>

definition write_result :: "addr \<Rightarrow> bool \<Rightarrow> model_point \<Rightarrow> model_point \<Rightarrow> data_model \<Rightarrow> data_model \<Rightarrow> u16 \<Rightarrow> bool" where
  "write_result mp update p quiet d d' seq \<longleftrightarrow>
     (if update then changed mp (next_version p) d d' \<and> seq = advanceSequenceNumber (m_seqNum p)
      else d' = with_point mp quiet d \<and> seq = m_seqNum quiet)"

lemma writeData_inv:
  assumes inv: "dm_inv {} pos d" and p: "points d mp = Some p" and sz: "srcSize \<le> m_dataSize p" "m_dataSize p \<le> length src"
  shows "\<exists>d' seq. writeData mp (Some src) srcSize lockRequest d = Some (seq, d') \<and> dm_inv {} pos d' \<and>
    write_result mp (accepts lockRequest p \<and> (\<not> m_valid p \<or> m_data p \<noteq> take (m_dataSize p) src))
      (p\<lparr>m_locked := lock_after lockRequest p, m_data := take (m_dataSize p) src, m_valid := True\<rparr>) (p\<lparr>m_locked := lock_after lockRequest p\<rparr>) d d' seq"
proof (cases "accepts lockRequest p \<and> (\<not> m_valid p \<or> m_data p \<noteq> take (m_dataSize p) src)")
  case True
  let ?p = "p\<lparr>m_locked := lock_after lockRequest p, m_data := take (m_dataSize p) src, m_valid := True\<rparr>"
  obtain d' where d': "processChangeNotifications mp (with_point mp ?p d) = Some d'" "dm_inv {} pos d'" "changed mp (next_version ?p) d d'"
    using notify_inv [OF inv p, of ?p] sz(2) by auto
  have "writeData mp (Some src) srcSize lockRequest d = Some (m_seqNum (next_version ?p), d')"
    using p True sz d'(1) changed_seq [OF d'(3)]
    by (auto simp: writeData_def testAndUpdateLock_eq isDataEqual_def copyDataFrom_def mem_read_def processDataUpdated_def)
  then show ?thesis using True d'(2,3) by (auto simp: write_result_def)
next
  case False
  have "dm_inv {} pos (with_point mp (p\<lparr>m_locked := lock_after lockRequest p\<rparr>) d)"
    by (rule quiet_inv [OF inv p]) (use dm_inv_point_ok [OF inv p] in \<open>auto simp: point_ok_def\<close>)
  moreover have "writeData mp (Some src) srcSize lockRequest d = Some (m_seqNum p, with_point mp (p\<lparr>m_locked := lock_after lockRequest p\<rparr>) d)"
    using p False sz by (auto simp: writeData_def testAndUpdateLock_eq isDataEqual_def mem_read_def)
  ultimately show ?thesis using False by (auto simp: write_result_def)
qed

lemma setInvalid_inv:
  assumes inv: "dm_inv {} pos d" and p: "points d mp = Some p"
  shows "\<exists>d' seq. setInvalid mp lockRequest d = Some (seq, d') \<and> dm_inv {} pos d' \<and>
    write_result mp (accepts lockRequest p \<and> m_valid p)
      (p\<lparr>m_locked := lock_after lockRequest p, m_data := replicate (m_dataSize p) 0, m_valid := False\<rparr>) (p\<lparr>m_locked := lock_after lockRequest p\<rparr>) d d' seq"
proof (cases "accepts lockRequest p \<and> m_valid p")
  case True
  let ?p = "p\<lparr>m_locked := lock_after lockRequest p, m_data := replicate (m_dataSize p) 0, m_valid := False\<rparr>"
  obtain d' where d': "processChangeNotifications mp (with_point mp ?p d) = Some d'" "dm_inv {} pos d'" "changed mp (next_version ?p) d d'"
    using notify_inv [OF inv p, of ?p] by auto
  have e: "p\<lparr>m_locked := lock_after lockRequest p, m_valid := False, m_data := replicate (m_dataSize p) 0\<rparr> = ?p" by simp
  have "setInvalid mp lockRequest d = Some (m_seqNum (next_version ?p), d')"
    using p True d'(1) changed_seq [OF d'(3)] by (simp add: setInvalid_def testAndUpdateLock_eq hookSetInvalid_def e)
  then show ?thesis using True d'(2,3) by (auto simp: write_result_def)
next
  case False
  have "dm_inv {} pos (with_point mp (p\<lparr>m_locked := lock_after lockRequest p\<rparr>) d)"
    by (rule quiet_inv [OF inv p]) (use dm_inv_point_ok [OF inv p] in \<open>auto simp: point_ok_def\<close>)
  moreover have "setInvalid mp lockRequest d = Some (m_seqNum p, with_point mp (p\<lparr>m_locked := lock_after lockRequest p\<rparr>) d)"
    using p False by (auto simp: setInvalid_def testAndUpdateLock_eq)
  ultimately show ?thesis using False by (auto simp: write_result_def)
qed

lemma touch_inv:
  assumes inv: "dm_inv {} pos d" and p: "points d mp = Some p"
  shows "\<exists>d'. touch mp d = Some (advanceSequenceNumber (m_seqNum p), d') \<and> dm_inv {} pos d' \<and> changed mp (next_version p) d d'"
proof -
  have "length (m_data p) = m_dataSize p" using dm_inv_point_ok [OF inv p] by (simp add: point_ok_def)
  then obtain d' where d': "processChangeNotifications mp d = Some d'" "dm_inv {} pos d'" "changed mp (next_version p) d d'"
    using notify_inv [OF inv p, of p] with_point_same [OF p] by auto
  then show ?thesis using changed_seq [OF d'(3)] by (auto simp: touch_def)
qed

lemma setLockState_inv:
  assumes inv: "dm_inv {} pos d" and p: "points d mp = Some p"
  shows "setLockState mp lockRequest d = Some (m_seqNum p, with_point mp (p\<lparr>m_locked := lock_after lockRequest p\<rparr>) d) \<and>
    dm_inv {} pos (with_point mp (p\<lparr>m_locked := lock_after lockRequest p\<rparr>) d)"
proof -
  have "dm_inv {} pos (with_point mp (p\<lparr>m_locked := lock_after lockRequest p\<rparr>) d)"
    by (rule quiet_inv [OF inv p]) (use dm_inv_point_ok [OF inv p] in \<open>auto simp: point_ok_def\<close>)
  moreover have "setLockState mp lockRequest d = Some (m_seqNum p, with_point mp (p\<lparr>m_locked := lock_after lockRequest p\<rparr>) d)"
    using p by (cases lockRequest) (simp_all add: setLockState_def lock_after_def)
  ultimately show ?thesis by simp
qed

lemma importData_inv:
  assumes inv: "dm_inv {} pos d" and p: "points d mp = Some p" and sz: "getExternalSize p incl \<le> length src" and len: "m_dataSize p + 1 \<le> srcLength"
  shows "\<exists>d'. importData mp (Some src) srcLength incl d = Some (getExternalSize p incl, d') \<and> dm_inv {} pos d' \<and>
    changed mp (next_version (p\<lparr>m_data := take (m_dataSize p) src, m_valid := src ! m_dataSize p \<noteq> 0, m_locked := (if incl then src ! (m_dataSize p + 1) \<noteq> 0 else m_locked p)\<rparr>)) d d'"
proof -
  let ?p = "p\<lparr>m_data := take (m_dataSize p) src, m_valid := src ! m_dataSize p \<noteq> 0, m_locked := (if incl then src ! (m_dataSize p + 1) \<noteq> 0 else m_locked p)\<rparr>"
  obtain d' where d': "processChangeNotifications mp (with_point mp ?p d) = Some d'" "dm_inv {} pos d'" "changed mp (next_version ?p) d d'"
    using notify_inv [OF inv p, of ?p] sz by (auto simp: getExternalSize_def Let_def split: if_splits)
  have r: "mem_read src (m_dataSize p) 1 = Some [src ! m_dataSize p]" "incl \<Longrightarrow> mem_read src (m_dataSize p + 1) 1 = Some [src ! (m_dataSize p + 1)]"
    "mem_read src 0 (m_dataSize p) = Some (take (m_dataSize p) src)"
    using sz by (auto simp: mem_read_def getExternalSize_def Let_def take_Suc_conv_app_nth hd_drop_conv_nth take_Suc split: if_splits)
  have "importData mp (Some src) srcLength incl d = Some (getExternalSize p incl, d')"
  proof (cases incl)
    case True
    then show ?thesis using p len d'(1) r by (simp add: importData_def getExternalSize_def)
  next
    case False
    then show ?thesis using p len d'(1) r by (simp add: importData_def getExternalSize_def)
  qed
  then show ?thesis using d' by blast
qed

end
