(* ===== verification/Data_Model.thy ===== *)
theory Data_Model
  imports Model_Points_Change
begin

text \<open>
  The data model as a system of threads: the methods of the model points, called by any thread, and the steps of the event loops, in
  any interleaving the clients' discipline allows.
\<close>

section \<open>Calls and steps\<close>

datatype dm_op = Write addr bytes lock_request | Invalidate addr lock_request | Touch addr | SetLock addr lock_request |
  CopyFrom addr addr lock_request | Import addr bytes bool | Attach addr addr u16 | Detach addr addr | ReadSync addr nat addr | NotValidSync addr addr

definition dm_call :: "dm_op \<Rightarrow> data_model \<Rightarrow> data_model option" where
  "dm_call op d = (case op of
     Write mp src lockRequest \<Rightarrow> map_option snd (writeData mp (Some src) (length src) lockRequest d)
   | Invalidate mp lockRequest \<Rightarrow> map_option snd (setInvalid mp lockRequest d)
   | Touch mp \<Rightarrow> map_option snd (touch mp d)
   | SetLock mp lockRequest \<Rightarrow> map_option snd (setLockState mp lockRequest d)
   | CopyFrom mp src lockRequest \<Rightarrow> map_option snd (copyDataAndStateFrom mp src lockRequest d)
   | Import mp src incl \<Rightarrow> map_option snd (importData mp (Some src) (length src) incl d)
   | Attach mp s seq \<Rightarrow> attachSubscriber mp s seq d
   | Detach mp s \<Rightarrow> detachSubscriber mp s d
   | ReadSync mp n s \<Rightarrow> map_option snd (readAndSync mp n s d)
   | NotValidSync mp s \<Rightarrow> map_option snd (isNotValidAndSync mp s d))"

text \<open>The sizes of the values are those of the type of the point.\<close>

definition has_point :: "data_model \<Rightarrow> addr \<Rightarrow> (nat \<Rightarrow> bool) \<Rightarrow> bool" where
  "has_point d mp ok \<longleftrightarrow> (case points d mp of None \<Rightarrow> False | Some p \<Rightarrow> ok (m_dataSize p))"

definition op_ok :: "(addr \<Rightarrow> loop_pos) \<Rightarrow> data_model \<Rightarrow> dm_op \<Rightarrow> bool" where
  "op_ok pos d op = (case op of
     Write mp src lockRequest \<Rightarrow> has_point d mp (\<lambda>n. n = length src)
   | Invalidate mp lockRequest \<Rightarrow> has_point d mp (\<lambda>n. True)
   | Touch mp \<Rightarrow> has_point d mp (\<lambda>n. True)
   | SetLock mp lockRequest \<Rightarrow> has_point d mp (\<lambda>n. True)
   | CopyFrom mp src lockRequest \<Rightarrow> has_point d mp (\<lambda>n. has_point d src (\<lambda>m. n = m))
   | Import mp src incl \<Rightarrow> has_point d mp (\<lambda>n. (if incl then n + 2 else n + 1) \<le> length src)
   | Attach mp s seq \<Rightarrow> attach_ok pos d mp s
   | Detach mp s \<Rightarrow> detach_ok pos d mp s
   | ReadSync mp n s \<Rightarrow> attach_ok pos d mp s \<and> has_point d mp (\<lambda>m. n \<le> m)
   | NotValidSync mp s \<Rightarrow> attach_ok pos d mp s)"

definition concerns :: "dm_op \<Rightarrow> addr \<Rightarrow> bool" where
  "concerns op s \<longleftrightarrow> (case op of Attach _ t _ \<Rightarrow> t = s | Detach _ t \<Rightarrow> t = s | ReadSync _ _ t \<Rightarrow> t = s | NotValidSync _ t \<Rightarrow> t = s | _ \<Rightarrow> False)"

type_synonym dm_system = "data_model \<times> (addr \<Rightarrow> loop_pos)"

datatype dm_label = Call dm_op | Take addr | Begin addr | Complete addr

fun dm_exec :: "dm_label \<Rightarrow> dm_system \<Rightarrow> dm_system option" where
  "dm_exec (Call op) (d, pos) = do { d \<leftarrow> dm_call op d; Some (d, pos) }"
| "dm_exec (Take l) (d, pos) = do {
     (subscriberPtr, d) \<leftarrow> list_get (PendingOf l) d;
     Some (d, case subscriberPtr of None \<Rightarrow> pos | Some s \<Rightarrow> pos(l := Got s)) }"
| "dm_exec (Begin l) (d, pos) = (case pos l of
     Got s \<Rightarrow> do { (modelPoint, d) \<leftarrow> begin_notification s d; Some (d, pos(l := Calling s modelPoint)) }
   | _ \<Rightarrow> None)"
| "dm_exec (Complete l) (d, pos) = (case pos l of
     Calling s modelPoint \<Rightarrow> do { d \<leftarrow> processSubscriptionEvent modelPoint s eNOTIFY_COMPLETE d; Some (d, pos(l := Waiting)) }
   | _ \<Rightarrow> None)"

fun enabled :: "dm_label \<Rightarrow> dm_system \<Rightarrow> bool" where
  "enabled (Call op) (d, pos) \<longleftrightarrow> op_ok pos d op"
| "enabled (Take l) (d, pos) \<longleftrightarrow> pos l = Waiting \<and> loops d l \<noteq> None"
| "enabled (Begin l) (d, pos) \<longleftrightarrow> (case pos l of Got s \<Rightarrow> True | _ \<Rightarrow> False)"
| "enabled (Complete l) (d, pos) \<longleftrightarrow> (case pos l of Calling s mp \<Rightarrow> True | _ \<Rightarrow> False)"

definition constructed :: "data_model \<Rightarrow> bool" where
  "constructed d \<longleftrightarrow> (\<forall>s n. subscribers d s = Some n \<longrightarrow> (\<exists>l. n = SubscriberBase l \<and> loops d l \<noteq> None)) \<and>
     (\<forall>mp p. points d mp = Some p \<longrightarrow> (\<exists>b v. p = ModelPointCommon b v)) \<and> (\<forall>l e. loops d l = Some e \<longrightarrow> m_pendingMpNotifications e = [])"

inductive dm_reachable :: "dm_system \<Rightarrow> bool" where
  start: "constructed d \<Longrightarrow> dm_reachable (d, \<lambda>l. Waiting)"
| step: "dm_reachable st \<Longrightarrow> enabled lb st \<Longrightarrow> dm_exec lb st = Some st' \<Longrightarrow> dm_reachable st'"

section \<open>Every step\<close>

text \<open>What a step does: a move of one subscriber, a change of a point, or neither.\<close>

definition call_effect :: "dm_op \<Rightarrow> data_model \<Rightarrow> data_model \<Rightarrow> bool" where
  "call_effect op d d' \<longleftrightarrow> (\<exists>s n n'. concerns op s \<and> moves s n n' d d') \<or>
     (\<exists>mp p p'. points d mp = Some p \<and> m_subscribers p' = m_subscribers p \<and> (m_seqNum p' = m_seqNum p \<and> d' = with_point mp p' d \<or>
        m_seqNum p' = advanceSequenceNumber (m_seqNum p) \<and> changed mp p' d d'))"

lemma has_pointE: "has_point d mp ok \<Longrightarrow> (\<And>p. points d mp = Some p \<Longrightarrow> ok (m_dataSize p) \<Longrightarrow> thesis) \<Longrightarrow> thesis"
  by (auto simp: has_point_def split: option.splits)

lemma attach_okE: "attach_ok pos d mp s \<Longrightarrow> (\<And>n p. subscribers d s = Some n \<Longrightarrow> points d mp = Some p \<Longrightarrow> thesis) \<Longrightarrow> thesis"
  by (auto simp: attach_ok_def split: option.splits)

lemma write_effect:
  assumes "write_result mp up p quiet d d' seq" and "points d mp = Some p0"
    and "m_subscribers p = m_subscribers p0" "m_seqNum p = m_seqNum p0" "m_subscribers quiet = m_subscribers p0" "m_seqNum quiet = m_seqNum p0"
  shows "\<exists>mp p p'. points d mp = Some p \<and> m_subscribers p' = m_subscribers p \<and> (m_seqNum p' = m_seqNum p \<and> d' = with_point mp p' d \<or>
        m_seqNum p' = advanceSequenceNumber (m_seqNum p) \<and> changed mp p' d d')"
proof (cases up)
  case True
  then show ?thesis using assms by (intro exI [of _ mp] exI [of _ p0] exI [of _ "next_version p"]) (simp add: write_result_def)
next
  case False
  then show ?thesis using assms by (intro exI [of _ mp] exI [of _ p0] exI [of _ quiet]) (simp add: write_result_def)
qed

lemma attach_effect:
  assumes inv: "dm_inv {} pos d" and ok: "attach_ok pos d mp s"
  shows "\<exists>d'. attachSubscriber mp s seq d = Some d' \<and> dm_inv {} pos d' \<and> (\<exists>n n'. moves s n n' d d')"
proof -
  obtain n where "subscribers d s = Some n" using ok by (auto elim: attach_okE)
  then show ?thesis using attach_inv [OF inv ok] by blast
qed

lemma call_inv:
  assumes inv: "dm_inv {} pos d" and ok: "op_ok pos d op"
  shows "\<exists>d'. dm_call op d = Some d' \<and> dm_inv {} pos d' \<and> call_effect op d d'"
proof (cases op)
  case (Write mp src lockRequest)
  then obtain p where p: "points d mp = Some p" "m_dataSize p = length src" using ok by (auto simp: op_ok_def elim: has_pointE)
  obtain d' seq where d': "writeData mp (Some src) (length src) lockRequest d = Some (seq, d')" "dm_inv {} pos d'"
    "write_result mp (accepts lockRequest p \<and> (\<not> m_valid p \<or> m_data p \<noteq> take (m_dataSize p) src))
      (p\<lparr>m_locked := lock_after lockRequest p, m_data := take (m_dataSize p) src, m_valid := True\<rparr>) (p\<lparr>m_locked := lock_after lockRequest p\<rparr>) d d' seq"
    using writeData_inv [OF inv p(1), of "length src" src lockRequest] p(2) by auto
  then show ?thesis using write_effect [OF d'(3) p(1)] by (auto simp: Write dm_call_def call_effect_def)
next
  case (Invalidate mp lockRequest)
  then obtain p where p: "points d mp = Some p" using ok by (auto simp: op_ok_def elim: has_pointE)
  obtain d' seq where d': "setInvalid mp lockRequest d = Some (seq, d')" "dm_inv {} pos d'"
    "write_result mp (accepts lockRequest p \<and> m_valid p)
      (p\<lparr>m_locked := lock_after lockRequest p, m_data := replicate (m_dataSize p) 0, m_valid := False\<rparr>) (p\<lparr>m_locked := lock_after lockRequest p\<rparr>) d d' seq"
    using setInvalid_inv [OF inv p] by blast
  then show ?thesis using write_effect [OF d'(3) p] by (auto simp: Invalidate dm_call_def call_effect_def)
next
  case (Touch mp)
  then obtain p where p: "points d mp = Some p" using ok by (auto simp: op_ok_def elim: has_pointE)
  obtain d' where d': "touch mp d = Some (advanceSequenceNumber (m_seqNum p), d')" "dm_inv {} pos d'" "changed mp (next_version p) d d'"
    using touch_inv [OF inv p] by blast
  have "call_effect op d d'" unfolding call_effect_def using p d'(3) by (intro disjI2 exI [of _ mp] exI [of _ p] exI [of _ "next_version p"]) simp
  then show ?thesis using d' by (auto simp: Touch dm_call_def)
next
  case (SetLock mp lockRequest)
  then obtain p where p: "points d mp = Some p" using ok by (auto simp: op_ok_def elim: has_pointE)
  let ?p = "p\<lparr>m_locked := lock_after lockRequest p\<rparr>"
  have "call_effect op d (with_point mp ?p d)" unfolding call_effect_def using p by (intro disjI2 exI [of _ mp] exI [of _ p] exI [of _ ?p]) simp
  then show ?thesis using setLockState_inv [OF inv p, of lockRequest] by (auto simp: SetLock dm_call_def)
next
  case (CopyFrom mp src lockRequest)
  then obtain p q where p: "points d mp = Some p" "points d src = Some q" "m_dataSize p = m_dataSize q" using ok by (auto simp: op_ok_def elim!: has_pointE)
  have q: "length (m_data q) = m_dataSize q" using dm_inv_point_ok [OF inv p(2)] by (simp add: point_ok_def)
  show ?thesis
  proof (cases "m_valid q")
    case True
    obtain d' seq where d': "writeData mp (Some (m_data q)) (m_dataSize q) lockRequest d = Some (seq, d')" "dm_inv {} pos d'"
      "write_result mp (accepts lockRequest p \<and> (\<not> m_valid p \<or> m_data p \<noteq> take (m_dataSize p) (m_data q)))
        (p\<lparr>m_locked := lock_after lockRequest p, m_data := take (m_dataSize p) (m_data q), m_valid := True\<rparr>) (p\<lparr>m_locked := lock_after lockRequest p\<rparr>) d d' seq"
      using writeData_inv [OF inv p(1), of "m_dataSize q" "m_data q" lockRequest] p(3) q by auto
    then show ?thesis using write_effect [OF d'(3) p(1)] True p(2) by (auto simp: CopyFrom dm_call_def call_effect_def copyDataAndStateFrom_def isNotValid_def)
  next
    case False
    obtain d' seq where d': "setInvalid mp eNO_REQUEST d = Some (seq, d')" "dm_inv {} pos d'"
      "write_result mp (accepts eNO_REQUEST p \<and> m_valid p)
        (p\<lparr>m_locked := lock_after eNO_REQUEST p, m_data := replicate (m_dataSize p) 0, m_valid := False\<rparr>) (p\<lparr>m_locked := lock_after eNO_REQUEST p\<rparr>) d d' seq"
      using setInvalid_inv [OF inv p(1)] by blast
    then show ?thesis using write_effect [OF d'(3) p(1)] False p(2) by (auto simp: CopyFrom dm_call_def call_effect_def copyDataAndStateFrom_def isNotValid_def)
  qed
next
  case (Import mp src incl)
  then obtain p where p: "points d mp = Some p" "(if incl then m_dataSize p + 2 else m_dataSize p + 1) \<le> length src" using ok by (auto simp: op_ok_def elim: has_pointE)
  have "getExternalSize p incl \<le> length src" "m_dataSize p + 1 \<le> length src" using p(2) by (auto simp: getExternalSize_def split: if_splits)
  then obtain d' p' where d': "importData mp (Some src) (length src) incl d = Some (getExternalSize p incl, d')" "dm_inv {} pos d'"
    "changed mp p' d d'" "m_subscribers p' = m_subscribers p" "m_seqNum p' = advanceSequenceNumber (m_seqNum p)"
    using importData_inv [OF inv p(1)] by fastforce
  have "call_effect op d d'" unfolding call_effect_def using p d'(3-5) by (intro disjI2 exI [of _ mp] exI [of _ p] exI [of _ p']) simp
  then show ?thesis using d' by (auto simp: Import dm_call_def)
next
  case (Attach mp s seq)
  then show ?thesis using attach_effect [OF inv, of mp s seq] ok by (auto simp: dm_call_def op_ok_def call_effect_def concerns_def)
next
  case (Detach mp s)
  then have dk: "detach_ok pos d mp s" using ok by (simp add: op_ok_def)
  then obtain n where n: "subscribers d s = Some n" by (auto simp: detach_ok_def split: option.splits)
  then show ?thesis using detach_inv [OF inv dk n] by (auto simp: Detach dm_call_def call_effect_def concerns_def)
next
  case (ReadSync mp k s)
  then obtain p where p: "points d mp = Some p" "k \<le> m_dataSize p" and at: "attach_ok pos d mp s" using ok by (auto simp: op_ok_def elim: has_pointE)
  obtain d' where d': "attachSubscriber mp s (m_seqNum p) d = Some d'" "dm_inv {} pos d'" "\<exists>n n'. moves s n n' d d'" using attach_effect [OF inv at] by blast
  have "length (m_data p) = m_dataSize p" using dm_inv_point_ok [OF inv p(1)] by (simp add: point_ok_def)
  then show ?thesis using p d' by (auto simp: ReadSync dm_call_def call_effect_def concerns_def readAndSync_def readData_def copyDataTo_def mem_read_def)
next
  case (NotValidSync mp s)
  then have at: "attach_ok pos d mp s" using ok by (simp add: op_ok_def)
  then obtain p where p: "points d mp = Some p" by (auto elim: attach_okE)
  obtain d' where d': "attachSubscriber mp s (m_seqNum p) d = Some d'" "dm_inv {} pos d'" "\<exists>n n'. moves s n n' d d'" using attach_effect [OF inv at] by blast
  then show ?thesis using p by (auto simp: NotValidSync dm_call_def call_effect_def concerns_def isNotValidAndSync_def isNotValid_def)
qed

text \<open>What a step of an event loop does.\<close>

definition step_effect :: "dm_label \<Rightarrow> dm_system \<Rightarrow> dm_system \<Rightarrow> bool" where
  "step_effect lb st st' \<longleftrightarrow> (case lb of
     Call op \<Rightarrow> call_effect op (fst st) (fst st') \<and> snd st' = snd st
   | Take l \<Rightarrow> list_of (PendingOf l) (fst st) = Some [] \<and> st' = st \<or>
       (\<exists>s n n' xs. moves s n n' (fst st) (fst st') \<and> m_state n = eSTATE_NOTIFY_PENDING \<and> list_of (PendingOf l) (fst st) = Some (s # xs) \<and>
          list_of (PendingOf l) (fst st') = Some xs \<and> snd st' = (snd st)(l := Got s))
   | Begin l \<Rightarrow> (\<exists>s n n' mp. moves s n n' (fst st) (fst st') \<and> snd st l = Got s \<and> snd st' = (snd st)(l := Calling s mp))
   | Complete l \<Rightarrow> (\<exists>s n n' mp. moves s n n' (fst st) (fst st') \<and> snd st l = Calling s mp \<and> snd st' = (snd st)(l := Waiting)))"

lemma step_inv:
  assumes inv: "dm_inv {} (snd st) (fst st)" and en: "enabled lb st"
  shows "\<exists>st'. dm_exec lb st = Some st' \<and> dm_inv {} (snd st') (fst st') \<and> step_effect lb st st'"
proof -
  obtain d pos where st: "st = (d, pos)" by (cases st)
  have inv: "dm_inv {} pos d" using inv st by simp
  show ?thesis
  proof (cases lb)
    case (Call op)
    then show ?thesis using call_inv [OF inv, of op] en st by (auto simp: step_effect_def)
  next
    case (Take l)
    then have w: "pos l = Waiting" "loops d l \<noteq> None" using en st by auto
    obtain xs where xs: "list_of (PendingOf l) d = Some xs" using loop_list [OF w(2)] by blast
    show ?thesis
    proof (cases xs)
      case Nil
      then show ?thesis using Take st xs inv by (auto simp: list_get_def step_effect_def)
    next
      case (Cons s ys)
      then obtain d' n where "list_get (PendingOf l) d = Some (Some s, d')" "moves s n (n\<lparr>m_inList := None\<rparr>) d d'" "list_of (PendingOf l) d' = Some ys"
        "m_state n = eSTATE_NOTIFY_PENDING" "dm_inv {} (pos(l := Got s)) d'" using take_inv [OF inv w(1)] xs by blast
      then show ?thesis using Take st xs Cons by (auto simp: step_effect_def)
    qed
  next
    case (Begin l)
    then obtain s where g: "pos l = Got s" using en st by (auto split: loop_pos.splits)
    obtain d' n n' mp where "begin_notification s d = Some (mp, d')" "moves s n n' d d'" "dm_inv {} (pos(l := Calling s mp)) d'"
      using begin_inv [OF inv g] by blast
    then show ?thesis using Begin st g by (auto simp: step_effect_def)
  next
    case (Complete l)
    then obtain s mp where g: "pos l = Calling s mp" using en st by (auto split: loop_pos.splits)
    obtain d' n n' where "processSubscriptionEvent mp s eNOTIFY_COMPLETE d = Some d'" "moves s n n' d d'" "dm_inv {} (pos(l := Waiting)) d'"
      using complete_inv [OF inv g] by blast
    then show ?thesis using Complete st g by (auto simp: step_effect_def)
  qed
qed

lemma constructed_inv:
  assumes "constructed d"
  shows "dm_inv {} (\<lambda>l. Waiting) d"
proof -
  have "sub_ok {} (\<lambda>l. Waiting) d s n \<and> m_inList n = None" if "subscribers d s = Some n" for s n
    using assms that by (fastforce simp: constructed_def sub_ok_def SubscriberBase_def)
  moreover have "xs = []" if c: "list_of c d = Some xs" for c xs
  proof (cases c)
    case (Subscribers mp)
    then obtain p where p: "points d mp = Some p" "xs = m_subscribers p" using c by (auto simp: list_of_def)
    then obtain b v where "p = ModelPointCommon b v" using assms unfolding constructed_def by blast
    with p(2) show ?thesis by (simp add: ModelPointCommon_def hookSetInvalid_def Let_def split: if_splits)
  next
    case (PendingOf l)
    then show ?thesis using c assms by (auto simp: list_of_def constructed_def)
  qed
  moreover have "point_ok p" if p: "points d mp = Some p" for mp p
  proof -
    obtain b v where "p = ModelPointCommon b v" using assms p unfolding constructed_def by blast
    then show ?thesis by (simp add: point_ok_def ModelPointCommon_def hookSetInvalid_def SEQUENCE_NUMBER_UNKNOWN_def Let_def)
  qed
  moreover from calculation(1,2) have "distinct xs \<and> (\<forall>s. s \<in> set xs \<longleftrightarrow> (\<exists>n. subscribers d s = Some n \<and> m_inList n = Some c))" if "list_of c d = Some xs" for c xs
    using that by fastforce
  ultimately show ?thesis by (simp add: dm_inv_def pos_ok_def)
qed

lemma reachable_inv: "dm_reachable st \<Longrightarrow> dm_inv {} (snd st) (fst st)"
proof (induction rule: dm_reachable.induct)
  case (start d)
  then show ?case using constructed_inv by simp
next
  case (step st lb st')
  then show ?case using step_inv [OF step.IH step.hyps(2)] by auto
qed

section \<open>Versions\<close>

text \<open>The sequence number counts modulo 65535, past the value for unknown.\<close>

lemma unat_u16: "unat (q :: u16) < 65536"
  using unat_bound [of q] by simp

lemma unat_advance:
  assumes "q \<noteq> SEQUENCE_NUMBER_UNKNOWN"
  shows "unat (advanceSequenceNumber q) = unat q mod 65535 + 1"
proof (cases "q = 65535")
  case True
  then show ?thesis by (simp add: advanceSequenceNumber_def SEQUENCE_NUMBER_UNKNOWN_def)
next
  case False
  have ne: "q + 1 \<noteq> 0"
  proof
    assume "q + 1 = 0"
    then have "q = - 1" by (simp add: eq_neg_iff_add_eq_0)
    then show False using False by simp
  qed
  have "unat q \<noteq> unat (65535 :: u16)" using False by (simp only: unsigned_word_eqI word_unat_eq_iff not_False_eq_True)
  then have "unat q \<noteq> 65535" by simp
  moreover have "unat q < 65536" by (rule unat_u16)
  ultimately have "unat q mod 65535 = unat q" by simp
  moreover have "unat (q + 1) = unat q + 1" using ne by (simp add: unatSuc add.commute)
  ultimately show ?thesis using ne by (simp add: advanceSequenceNumber_def SEQUENCE_NUMBER_UNKNOWN_def Let_def)
qed

lemma advance_iter:
  assumes "q \<noteq> SEQUENCE_NUMBER_UNKNOWN"
  shows "unat ((advanceSequenceNumber ^^ k) q) = (unat q - 1 + k) mod 65535 + 1 \<and> (advanceSequenceNumber ^^ k) q \<noteq> SEQUENCE_NUMBER_UNKNOWN"
proof (induction k)
  case 0
  have "0 < unat q" using assms by (simp add: SEQUENCE_NUMBER_UNKNOWN_def unat_gt_0)
  moreover have "unat q < 65536" by (rule unat_u16)
  ultimately show ?case using assms by simp
next
  case (Suc k)
  then show ?case using unat_advance [of "(advanceSequenceNumber ^^ k) q"] advance_known by (simp add: mod_Suc_eq)
qed

lemma advance_iter_differs:
  assumes "q \<noteq> SEQUENCE_NUMBER_UNKNOWN" and "0 < k" and "k < 65535"
  shows "(advanceSequenceNumber ^^ k) q \<noteq> q"
proof
  assume e: "(advanceSequenceNumber ^^ k) q = q"
  have pos: "0 < unat q" using assms(1) by (simp add: SEQUENCE_NUMBER_UNKNOWN_def unat_gt_0)
  have lt: "unat q < 65536" by (rule unat_u16)
  have "(unat q - 1 + k) mod 65535 = unat q - 1" using advance_iter [OF assms(1), of k] unfolding e by linarith
  moreover have "(unat q - 1) mod 65535 = unat q - 1" using pos lt by simp
  ultimately have "(unat q - 1 + k) mod 65535 = (unat q - 1 + 0) mod 65535" by simp
  then have "65535 dvd k" using mod_eq_dvd_iff_nat [of "unat q - 1 + 0" "unat q - 1 + k" 65535] by simp
  then show False using assms(2,3) dvd_imp_le [of 65535 k] by simp
qed

section \<open>What a step leaves of a subscriber\<close>

lemma moves_point_seq: "moves s n n' d d' \<Longrightarrow> map_option m_seqNum (points d' mp) = map_option m_seqNum (points d mp)"
proof -
  assume mv: "moves s n n' d d'"
  then have b: "map_option bare (points d' mp) = map_option bare (points d mp)" by (simp add: moves_def)
  show ?thesis
  proof (cases "points d mp")
    case (Some p)
    then obtain p' where "points d' mp = Some p'" "bare p' = bare p" using b by (cases "points d' mp") auto
    then show ?thesis using Some bare_fields [of p' p] by simp
  qed (use b in simp)
qed

definition one_version_on :: "addr \<Rightarrow> data_model \<Rightarrow> data_model \<Rightarrow> bool" where
  "one_version_on mp d d' \<longleftrightarrow> (\<exists>p p'. points d mp = Some p \<and> points d' mp = Some p' \<and> (m_seqNum p' = m_seqNum p \<or> m_seqNum p' = advanceSequenceNumber (m_seqNum p)))"

lemma moves_one_version: "moves s n n' d d' \<Longrightarrow> points d mp \<noteq> None \<Longrightarrow> one_version_on mp d d'"
  using moves_point_seq [of s n n' d d' mp] by (cases "points d' mp") (auto simp: one_version_on_def)

lemma call_one_version:
  assumes "call_effect op d d'" and "points d mp \<noteq> None"
  shows "one_version_on mp d d'"
  using assms(1) unfolding call_effect_def
proof (elim disjE exE conjE)
  fix s n n'
  assume "moves s n n' d d'"
  then show ?thesis using assms(2) by (rule moves_one_version)
next
  fix q p p'
  assume "points d q = Some p" "m_seqNum p' = m_seqNum p" "d' = with_point q p' d"
  then show ?thesis using assms(2) by (cases "q = mp") (auto simp: one_version_on_def with_point_def)
next
  fix q p p'
  assume "points d q = Some p" "m_seqNum p' = advanceSequenceNumber (m_seqNum p)" "changed q p' d d'"
  then show ?thesis using assms(2) by (cases "q = mp") (auto simp: one_version_on_def changed_def)
qed

lemma call_keeps_sub:
  assumes "call_effect op d d'" and "\<not> concerns op s" and "subscribers d s = Some n" and "m_inList n = None" and inv: "dm_inv {} pos d"
  shows "subscribers d' s = Some n"
  using assms(1) unfolding call_effect_def
proof (elim disjE exE conjE)
  fix t m m'
  assume "concerns op t" "moves t m m' d d'"
  then show ?thesis using assms(2,3) by (auto simp: moves_def)
next
  fix q p p'
  assume "d' = with_point q p' d"
  then show ?thesis using assms(3) by (simp add: with_point_def)
next
  fix q p p'
  assume q: "points d q = Some p" "m_subscribers p' = m_subscribers p" "changed q p' d d'"
  have "s \<notin> set (m_subscribers p)" using dm_inv_member [OF inv point_list [OF q(1)], of s] assms(3,4) by auto
  then show ?thesis using q assms(3) by (simp add: changed_def)
qed

text \<open>Steps that are neither a call for the subscriber \<open>s\<close> nor the end of the notification its event loop \<open>l\<close> is delivering.\<close>

definition elsewhere :: "addr \<Rightarrow> addr \<Rightarrow> dm_label \<Rightarrow> bool" where
  "elsewhere s l lb \<longleftrightarrow> (case lb of Call op \<Rightarrow> \<not> concerns op s | Complete k \<Rightarrow> k \<noteq> l | _ \<Rightarrow> True)"

lemma step_calling:
  assumes inv: "dm_inv {} (snd st) (fst st)" and en: "enabled lb st" and ex: "dm_exec lb st = Some st'" and el: "elsewhere s l lb"
    and c: "snd st l = Calling s mp" and n: "subscribers (fst st) s = Some n" and h: "m_eventLoopHdl n = l"
  shows "snd st' l = Calling s mp \<and> subscribers (fst st') s = Some n \<and> one_version_on mp (fst st) (fst st')"
proof -
  obtain d pos where st: "st = (d, pos)" by (cases st)
  have inv: "dm_inv {} pos d" and c: "pos l = Calling s mp" and n: "subscribers d s = Some n" using inv c n st by simp_all
  have eff: "step_effect lb st st'" using step_inv [OF assms(1) en] ex by auto
  have "m_state n \<in> {eSTATE_NOTIFY_NOTIFYING, eSTATE_NOTIFY_PENDING_DETACH}" using dm_inv_about(2) [OF inv n] c h by simp
  then have m: "m_inList n = None" and pt: "points d mp \<noteq> None" and np: "m_state n \<noteq> eSTATE_NOTIFY_PENDING"
    using dm_inv_sub [OF inv n] c h by (auto simp: sub_ok_def)
  have po: "\<And>k. pos_ok d k (pos k)" using inv by (simp add: dm_inv_def)
  have other: "subscribers (fst st') s = Some n \<and> one_version_on mp d (fst st')" if "moves t m' m'' d (fst st')" "t \<noteq> s" for t m' m''
    using that n moves_one_version [OF that(1) pt] by (simp add: moves_def)
  show ?thesis
  proof (cases lb)
    case (Call op)
    then show ?thesis using eff el st c call_keeps_sub [OF _ _ n m inv] call_one_version [OF _ pt] by (auto simp: step_effect_def elsewhere_def)
  next
    case (Take k)
    have "k \<noteq> l" using Take en st c by auto
    show ?thesis
    proof (cases "st' = st")
      case True
      then show ?thesis using st c n pt by (auto simp: one_version_on_def)
    next
      case False
      then obtain t m' m'' where t: "moves t m' m'' d (fst st')" "m_state m' = eSTATE_NOTIFY_PENDING" "snd st' = pos(k := Got t)"
        using eff Take st by (auto simp: step_effect_def)
      then have "t \<noteq> s" using n np by (auto simp: moves_def placed_def)
      then show ?thesis using other [OF t(1)] t(3) \<open>k \<noteq> l\<close> c st by simp
    qed
  next
    case (Begin k)
    then obtain t m' m'' q where t: "moves t m' m'' d (fst st')" "pos k = Got t" "snd st' = pos(k := Calling t q)" using eff st by (auto simp: step_effect_def)
    have "t \<noteq> s" using po [of k] t(2) n np by (auto simp: pos_ok_def)
    moreover have "k \<noteq> l" using t(2) c by auto
    ultimately show ?thesis using other [OF t(1)] t(3) c st by simp
  next
    case (Complete k)
    then obtain t m' m'' q where t: "moves t m' m'' d (fst st')" "pos k = Calling t q" "snd st' = pos(k := Waiting)" using eff st by (auto simp: step_effect_def)
    have "k \<noteq> l" using el Complete by (simp add: elsewhere_def)
    moreover have "t \<noteq> s" using po [of k] t(2) n h \<open>k \<noteq> l\<close> by (auto simp: pos_ok_def)
    ultimately show ?thesis using other [OF t(1)] t(3) c st by simp
  qed
qed

section \<open>The order of the notifications\<close>

definition ahead :: "addr \<Rightarrow> addr list \<Rightarrow> nat" where
  "ahead s xs = length (takeWhile (\<lambda>x. x \<noteq> s) xs)"

lemma ahead_mono:
  assumes "before s ys \<subseteq> before s xs" and "distinct ys"
  shows "ahead s ys \<le> ahead s xs"
proof -
  have "ahead s ys = card (before s ys)" using assms(2) by (simp add: ahead_def before_def distinct_card distinct_takeWhile)
  also have "\<dots> \<le> card (before s xs)" using assms(1) by (intro card_mono) (auto simp: before_def)
  also have "\<dots> \<le> ahead s xs" by (simp add: ahead_def before_def card_length)
  finally show ?thesis .
qed

lemma moves_ahead:
  assumes mv: "moves t m m' d d'" and "t \<noteq> s" and xs: "list_of c d = Some xs" "s \<in> set xs"
  shows "\<exists>ys. list_of c d' = Some ys \<and> s \<in> set ys \<and> ahead s ys \<le> ahead s xs"
proof -
  have "rel_option (moved t) (Some xs) (list_of c d')" using mv xs(1) by (auto simp: moves_def dest: spec [of _ c])
  then obtain ys where ys: "list_of c d' = Some ys" "moved t xs ys" by (cases "list_of c d'") auto
  have "distinct ys" using moves_placed(2) [OF mv] ys(1) by (simp add: placed_def)
  moreover have "before s ys \<subseteq> before s xs" using ys(2) assms(2) xs(2) by (simp add: moved_def)
  ultimately show ?thesis using ys moved_set [OF ys(2), of s] assms(2) xs(2) ahead_mono by auto
qed

text \<open>The subscriber \<open>s\<close> waits in the list of the event loop \<open>l\<close>; \<open>k\<close> counts the notifications the loop takes meanwhile.\<close>

inductive while_pending :: "addr \<Rightarrow> addr \<Rightarrow> dm_system \<Rightarrow> nat \<Rightarrow> dm_system \<Rightarrow> bool" for s l st where
  none: "while_pending s l st 0 st"
| more: "while_pending s l st k st' \<Longrightarrow> (\<forall>op. lb = Call op \<longrightarrow> \<not> concerns op s) \<Longrightarrow> enabled lb st' \<Longrightarrow> dm_exec lb st' = Some st'' \<Longrightarrow> snd st'' l \<noteq> Got s \<Longrightarrow>
    while_pending s l st (if lb = Take l then k + 1 else k) st''"

lemma call_ahead:
  assumes eff: "call_effect op d d'" and nc: "\<not> concerns op s" and xs: "list_of (PendingOf l) d = Some xs" "s \<in> set xs" and inv': "dm_inv {} pos d'"
  shows "\<exists>ys. list_of (PendingOf l) d' = Some ys \<and> s \<in> set ys \<and> ahead s ys \<le> ahead s xs"
  using eff unfolding call_effect_def
proof (elim disjE exE conjE)
  fix t m m'
  assume t: "concerns op t" "moves t m m' d d'"
  then show ?thesis using moves_ahead [OF t(2) _ xs] nc by auto
next
  fix q p p'
  assume "d' = with_point q p' d"
  then show ?thesis using xs by (intro exI [of _ xs]) (simp add: with_point_def list_of_def)
next
  fix q p p'
  assume "changed q p' d d'"
  then have "rel_option kept (Some xs) (list_of (PendingOf l) d')" using xs(1) by (auto simp: changed_def dest: spec [of _ l])
  then obtain ys where ys: "list_of (PendingOf l) d' = Some ys" "kept xs ys" by (cases "list_of (PendingOf l) d'") auto
  have "distinct ys" using inv' ys(1) unfolding dm_inv_def by blast
  then show ?thesis using ys xs(2) ahead_mono [of s ys xs] by (auto simp: kept_def)
qed

lemma step_ahead:
  assumes inv: "dm_inv {} (snd st) (fst st)" and en: "enabled lb st" and ex: "dm_exec lb st = Some st'" and nc: "\<forall>op. lb = Call op \<longrightarrow> \<not> concerns op s"
    and nt: "snd st' l \<noteq> Got s" and xs: "list_of (PendingOf l) (fst st) = Some xs" "s \<in> set xs"
  shows "\<exists>ys. list_of (PendingOf l) (fst st') = Some ys \<and> s \<in> set ys \<and> ahead s ys + (if lb = Take l then 1 else 0) \<le> ahead s xs"
proof -
  obtain d pos where st: "st = (d, pos)" by (cases st)
  have inv: "dm_inv {} pos d" and xs: "list_of (PendingOf l) d = Some xs" "s \<in> set xs" using inv xs st by simp_all
  have eff: "step_effect lb st st'" and inv': "dm_inv {} (snd st') (fst st')" using step_inv [OF assms(1) en] ex by auto
  obtain n where n: "subscribers d s = Some n" "m_inList n = Some (PendingOf l)" using dm_inv_member [OF inv xs(1), of s] xs(2) by auto
  have np: "m_state n = eSTATE_NOTIFY_PENDING" using dm_inv_sub [OF inv n(1)] n(2) by (auto simp: sub_ok_def split: sub_state.splits)
  have po: "\<And>k. pos_ok d k (pos k)" using inv by (simp add: dm_inv_def)
  show ?thesis
  proof (cases lb)
    case (Call op)
    then show ?thesis using call_ahead [OF _ _ xs inv'] eff nc st by (auto simp: step_effect_def)
  next
    case (Take k)
    show ?thesis
    proof (cases "k = l")
      case True
      then obtain t ys where t: "xs = t # ys" "list_of (PendingOf l) (fst st') = Some ys" "snd st' = pos(l := Got t)"
        using eff Take st xs by (auto simp: step_effect_def)
      have "t \<noteq> s" using nt t(3) by auto
      then show ?thesis using t xs(2) Take True by (auto simp: ahead_def)
    next
      case False
      show ?thesis
      proof (cases "st' = st")
        case True
        then show ?thesis using xs st Take False by auto
      next
        case ne: False
        then obtain t m' m'' zs where t: "moves t m' m'' d (fst st')" "list_of (PendingOf k) d = Some (t # zs)" using eff Take st by (auto simp: step_effect_def)
        have "\<exists>n. subscribers d t = Some n \<and> m_inList n = Some (PendingOf k)" using dm_inv_member [OF inv t(2), of t] by simp
        then have "t \<noteq> s" using n False by auto
        then show ?thesis using moves_ahead [OF t(1) _ xs] Take False by auto
      qed
    qed
  next
    case (Begin k)
    then obtain t m' m'' where t: "moves t m' m'' d (fst st')" "pos k = Got t" using eff st by (auto simp: step_effect_def)
    have "t \<noteq> s" using po [of k] t(2) n by (auto simp: pos_ok_def)
    then show ?thesis using moves_ahead [OF t(1) _ xs] Begin by auto
  next
    case (Complete k)
    then obtain t m' m'' q where t: "moves t m' m'' d (fst st')" "pos k = Calling t q" using eff st by (auto simp: step_effect_def)
    have "t \<noteq> s" using po [of k] t(2) n np by (auto simp: pos_ok_def)
    then show ?thesis using moves_ahead [OF t(1) _ xs] Complete by auto
  qed
qed

lemma pending_advances:
  assumes r: "dm_reachable st" and xs: "list_of (PendingOf l) (fst st) = Some xs" "s \<in> set xs"
  shows "while_pending s l st k st' \<Longrightarrow> dm_reachable st' \<and> (\<exists>ys. list_of (PendingOf l) (fst st') = Some ys \<and> s \<in> set ys \<and> ahead s ys + k \<le> ahead s xs)"
proof (induction rule: while_pending.induct)
  case none
  then show ?case using r xs by simp
next
  case (more k st' lb st'')
  then obtain ys where ys: "list_of (PendingOf l) (fst st') = Some ys" "s \<in> set ys" "ahead s ys + k \<le> ahead s xs" by blast
  have inv: "dm_inv {} (snd st') (fst st')" using reachable_inv more.IH by blast
  obtain zs where "list_of (PendingOf l) (fst st'') = Some zs" "s \<in> set zs" "ahead s zs + (if lb = Take l then 1 else 0) \<le> ahead s ys"
    using step_ahead [OF inv more.hyps(3,4,2,5) ys(1,2)] by blast
  moreover have "dm_reachable st''" using dm_reachable.step more by blast
  ultimately show ?case using ys(3) by (auto split: if_splits)
qed

section \<open>Values\<close>

lemma write_and_invalidate:
  assumes "dm_reachable (d, pos)" and "points d mp = Some p" and "length src = m_dataSize p"
  shows "\<exists>seq d'. writeData mp (Some src) (length src) lockRequest d = Some (seq, d') \<and>
      (if accepts lockRequest p then readData mp (length src) d' = Some (Some src, seq) \<and> isLocked mp d' = Some (lock_after lockRequest p) else points d' mp = Some p) \<and>
      (seq \<noteq> m_seqNum p \<longleftrightarrow> accepts lockRequest p \<and> readData mp (length src) d \<noteq> Some (Some src, m_seqNum p)) \<and> (\<forall>q. q \<noteq> mp \<longrightarrow> points d' q = points d q)"
    and "\<exists>seq d'. setInvalid mp lockRequest d = Some (seq, d') \<and>
      (if accepts lockRequest p then readData mp (length src) d' = Some (None, seq) \<and> isLocked mp d' = Some (lock_after lockRequest p) else points d' mp = Some p) \<and>
      (seq \<noteq> m_seqNum p \<longleftrightarrow> accepts lockRequest p \<and> m_valid p) \<and> (\<forall>q. q \<noteq> mp \<longrightarrow> points d' q = points d q)"
proof -
  have inv: "dm_inv {} pos d" using reachable_inv [OF assms(1)] by simp
  have ok: "length (m_data p) = m_dataSize p" "m_seqNum p \<noteq> SEQUENCE_NUMBER_UNKNOWN" using dm_inv_point_ok [OF inv assms(2)] by (simp_all add: point_ok_def)
  note adv = advance_differs [OF ok(2)]
  have rd: "readData mp (length src) d = Some (if m_valid p then Some (m_data p) else None, m_seqNum p)"
    using assms(2,3) ok(1) by (simp add: readData_def copyDataTo_def mem_read_def)
  have refused: "\<not> accepts lockRequest p \<Longrightarrow> lock_after lockRequest p = m_locked p" by (cases lockRequest) (auto simp: accepts_def lock_after_def)
  obtain d1 seq1 where w: "writeData mp (Some src) (length src) lockRequest d = Some (seq1, d1)"
    "write_result mp (accepts lockRequest p \<and> (\<not> m_valid p \<or> m_data p \<noteq> take (m_dataSize p) src))
      (p\<lparr>m_locked := lock_after lockRequest p, m_data := take (m_dataSize p) src, m_valid := True\<rparr>) (p\<lparr>m_locked := lock_after lockRequest p\<rparr>) d d1 seq1"
    using writeData_inv [OF inv assms(2), of "length src" src lockRequest] assms(3) by auto
  show "\<exists>seq d'. writeData mp (Some src) (length src) lockRequest d = Some (seq, d') \<and>
      (if accepts lockRequest p then readData mp (length src) d' = Some (Some src, seq) \<and> isLocked mp d' = Some (lock_after lockRequest p) else points d' mp = Some p) \<and>
      (seq \<noteq> m_seqNum p \<longleftrightarrow> accepts lockRequest p \<and> readData mp (length src) d \<noteq> Some (Some src, m_seqNum p)) \<and> (\<forall>q. q \<noteq> mp \<longrightarrow> points d' q = points d q)"
    by (intro exI [of _ seq1] exI [of _ d1])
      (use w assms(2,3) ok adv refused rd in \<open>auto simp: write_result_def changed_def with_point_def readData_def copyDataTo_def mem_read_def isLocked_def split: if_splits\<close>)
  obtain d2 seq2 where v: "setInvalid mp lockRequest d = Some (seq2, d2)" "write_result mp (accepts lockRequest p \<and> m_valid p)
      (p\<lparr>m_locked := lock_after lockRequest p, m_data := replicate (m_dataSize p) 0, m_valid := False\<rparr>) (p\<lparr>m_locked := lock_after lockRequest p\<rparr>) d d2 seq2"
    using setInvalid_inv [OF inv assms(2)] by blast
  show "\<exists>seq d'. setInvalid mp lockRequest d = Some (seq, d') \<and>
      (if accepts lockRequest p then readData mp (length src) d' = Some (None, seq) \<and> isLocked mp d' = Some (lock_after lockRequest p) else points d' mp = Some p) \<and>
      (seq \<noteq> m_seqNum p \<longleftrightarrow> accepts lockRequest p \<and> m_valid p) \<and> (\<forall>q. q \<noteq> mp \<longrightarrow> points d' q = points d q)"
    by (intro exI [of _ seq2] exI [of _ d2])
      (use v assms(2) adv refused in \<open>auto simp: write_result_def changed_def with_point_def readData_def isLocked_def split: if_splits\<close>)
qed

section \<open>An example\<close>

text \<open>Two subscribers on one event loop and two points; the second subscriber is attached while the first one is called.\<close>

fun dm_run :: "dm_label list \<Rightarrow> dm_system \<Rightarrow> dm_system option" where
  "dm_run [] st = Some st"
| "dm_run (lb # lbs) st = (if enabled lb st then do { st \<leftarrow> dm_exec lb st; dm_run lbs st } else None)"

lemma dm_run_reachable: "dm_reachable st \<Longrightarrow> dm_run lbs st = Some st' \<Longrightarrow> dm_reachable st'"
proof (induction lbs arbitrary: st)
  case (Cons lb lbs)
  then obtain st1 where "enabled lb st" "dm_exec lb st = Some st1" "dm_run lbs st1 = Some st'" by (auto split: if_splits Option.bind_splits)
  then show ?case using Cons.IH dm_reachable.step Cons.prems(1) by blast
qed simp

definition sample_model :: data_model where
  "sample_model = \<lparr>subscribers = [10 \<mapsto> SubscriberBase 20, 11 \<mapsto> SubscriberBase 20],
     points = [30 \<mapsto> ModelPointCommon [0, 0] False, 31 \<mapsto> ModelPointCommon [7, 9] True], loops = [20 \<mapsto> \<lparr>m_pendingMpNotifications = [], m_signals = 0\<rparr>]\<rparr>"

definition sample_start :: dm_system where
  "sample_start = (sample_model, \<lambda>l. Waiting)"

lemma sample_reachable: "dm_reachable sample_start"
  unfolding sample_start_def
  by (rule dm_reachable.start) (auto simp: constructed_def sample_model_def split: if_splits)

definition attached :: dm_system where
  "attached = the (dm_run [Call (Attach 30 10 0), Call (Attach 31 11 0)] sample_start)"

definition in_callback :: dm_system where
  "in_callback = the (dm_run [Take 20, Begin 20] attached)"

lemma dm_run_the: "dm_reachable st \<Longrightarrow> \<not> Option.is_none (dm_run lbs st) \<Longrightarrow> dm_reachable (the (dm_run lbs st))"
  using dm_run_reachable [of st lbs] by (cases "dm_run lbs st") auto

lemma attached_reachable: "dm_reachable attached"
  unfolding attached_def by (rule dm_run_the [OF sample_reachable]) code_simp

lemma in_callback_reachable: "dm_reachable in_callback"
  unfolding in_callback_def by (rule dm_run_the [OF attached_reachable]) code_simp

section \<open>Properties\<close>

text \<open>
  C3. From construction on, whatever the interleaving of the threads is, no call that keeps the discipline of the clients (a subscriber
  belongs to one thread and to one point at a time) and no step of an event loop ends in a fatal error: no double insertion into a list, no notification without
  a model point, no change of an unsubscribed or pending subscriber, and the loop over the subscribers of a point ends.
\<close>

theorem data_model_never_fails:
  assumes "dm_reachable st" and "enabled lb st"
  shows "\<exists>st'. dm_exec lb st = Some st'"
  using step_inv [OF reachable_inv [OF assms(1)] assms(2)] by blast

theorem data_model_never_fails_witness: "\<exists>st'. dm_exec (Call (Write 30 [1, 2] eNO_REQUEST)) in_callback = Some st'"
  by (rule data_model_never_fails [OF in_callback_reachable]) code_simp

text \<open>The subscribers of a model point are those that wait for its next change, up to date with its present version.\<close>

lemma subscribers_are_idle:
  assumes inv: "dm_inv {} pos d" and p: "points d mp = Some p"
  shows "distinct (m_subscribers p) \<and>
    (\<forall>s. s \<in> set (m_subscribers p) \<longleftrightarrow> (\<exists>n. subscribers d s = Some n \<and> m_state n = eSTATE_IDLE \<and> m_point n = Some mp)) \<and>
    (\<forall>s\<in>set (m_subscribers p). map_option m_seqNumber (subscribers d s) = Some (m_seqNum p))"
proof -
  note mem = dm_inv_member [OF inv point_list [OF p]]
  have idle: "m_state n = eSTATE_IDLE \<and> m_point n = Some mp \<and> m_seqNumber n = m_seqNum p" if n: "subscribers d s = Some n" "m_inList n = Some (Subscribers mp)" for s n
    using dm_inv_sub [OF inv n(1)] n(2) p by (auto simp: sub_ok_def split: sub_state.splits)
  moreover have "m_inList n = Some (Subscribers mp)" if n: "subscribers d s = Some n" "m_state n = eSTATE_IDLE" "m_point n = Some mp" for s n
    using dm_inv_sub [OF inv n(1)] n by (auto simp: sub_ok_def)
  ultimately have "s \<in> set (m_subscribers p) \<longleftrightarrow> (\<exists>n. subscribers d s = Some n \<and> m_state n = eSTATE_IDLE \<and> m_point n = Some mp)" for s using mem [of s] by blast
  moreover have "map_option m_seqNumber (subscribers d s) = Some (m_seqNum p)" if "s \<in> set (m_subscribers p)" for s using that mem [of s] idle [of s] by auto
  moreover have "distinct (m_subscribers p)" using inv point_list [OF p] unfolding dm_inv_def by blast
  ultimately show ?thesis by blast
qed

text \<open>The list of an event loop holds its pending subscribers, but for the one it has just taken.\<close>

lemma pending_are_listed:
  assumes inv: "dm_inv {} pos d" and e: "loops d l = Some e"
  shows "distinct (m_pendingMpNotifications e) \<and>
    (\<forall>s. s \<in> set (m_pendingMpNotifications e) \<longleftrightarrow>
      (\<exists>n. subscribers d s = Some n \<and> m_state n = eSTATE_NOTIFY_PENDING \<and> m_eventLoopHdl n = l \<and> pos l \<noteq> Got s))"
proof -
  have xs: "list_of (PendingOf l) d = Some (m_pendingMpNotifications e)" using e by (simp add: list_of_def)
  have pos: "pos_ok d l (pos l)" using inv unfolding dm_inv_def by blast
  have "m_inList n = Some (PendingOf l) \<longleftrightarrow> m_state n = eSTATE_NOTIFY_PENDING \<and> m_eventLoopHdl n = l \<and> pos l \<noteq> Got s"
    if n: "subscribers d s = Some n" for s n
    using dm_inv_sub [OF inv n] pos n by (auto simp: sub_ok_def pos_ok_def split: sub_state.splits)
  then have "s \<in> set (m_pendingMpNotifications e) \<longleftrightarrow>
      (\<exists>n. subscribers d s = Some n \<and> m_state n = eSTATE_NOTIFY_PENDING \<and> m_eventLoopHdl n = l \<and> pos l \<noteq> Got s)" for s
    using dm_inv_member [OF inv xs, of s] by blast
  moreover have "distinct (m_pendingMpNotifications e)" using inv xs unfolding dm_inv_def by blast
  ultimately show ?thesis by blast
qed

text \<open>
  C37. In every reachable state the data of a model point has the size of its type and its sequence number is never the value for unknown.  Every
  subscriber is where its state says: the list of a model point holds, once each, exactly the idle subscribers of that point, which have seen the present version of it; the list of
  an event loop holds, once each, exactly the pending subscribers of that loop, but for the one the loop has just taken out of the list to notify it; and
  the callback of a subscriber runs on its event loop exactly while its state is notifying or a detach is pending.  The point of an idle subscriber and the event loop of every one exist.
\<close>

theorem data_model_well_formed:
  assumes "dm_reachable (d, pos)"
  shows "(\<forall>mp p. points d mp = Some p \<longrightarrow> length (m_data p) = m_dataSize p \<and> m_seqNum p \<noteq> SEQUENCE_NUMBER_UNKNOWN \<and> distinct (m_subscribers p) \<and>
      (\<forall>s. s \<in> set (m_subscribers p) \<longleftrightarrow> (\<exists>n. subscribers d s = Some n \<and> m_state n = eSTATE_IDLE \<and> m_point n = Some mp)) \<and>
      (\<forall>s\<in>set (m_subscribers p). map_option m_seqNumber (subscribers d s) = Some (m_seqNum p))) \<and>
    (\<forall>l e. loops d l = Some e \<longrightarrow> distinct (m_pendingMpNotifications e) \<and>
      (\<forall>s. s \<in> set (m_pendingMpNotifications e) \<longleftrightarrow>
        (\<exists>n. subscribers d s = Some n \<and> m_state n = eSTATE_NOTIFY_PENDING \<and> m_eventLoopHdl n = l \<and> pos l \<noteq> Got s))) \<and>
    (\<forall>l s. pos l = Got s \<longrightarrow> (\<exists>n. subscribers d s = Some n \<and> m_state n = eSTATE_NOTIFY_PENDING \<and> m_eventLoopHdl n = l)) \<and>
    (\<forall>s n. subscribers d s = Some n \<longrightarrow> loops d (m_eventLoopHdl n) \<noteq> None \<and>
      (m_state n = eSTATE_IDLE \<longrightarrow> (\<exists>mp. m_point n = Some mp \<and> points d mp \<noteq> None)) \<and>
      (m_state n \<in> {eSTATE_NOTIFY_NOTIFYING, eSTATE_NOTIFY_PENDING_DETACH} \<longleftrightarrow> (\<exists>mp. pos (m_eventLoopHdl n) = Calling s mp)))"
proof (intro conjI allI impI)
  have inv: "dm_inv {} pos d" using reachable_inv [OF assms] by simp
  have pos: "pos_ok d l (pos l)" for l using inv unfolding dm_inv_def by blast
  { fix mp p assume p: "points d mp = Some p"
    show "length (m_data p) = m_dataSize p" "m_seqNum p \<noteq> SEQUENCE_NUMBER_UNKNOWN"
      using dm_inv_point_ok [OF inv p] by (simp_all add: point_ok_def)
    from subscribers_are_idle [OF inv p] show "distinct (m_subscribers p)"
      and "\<forall>s\<in>set (m_subscribers p). map_option m_seqNumber (subscribers d s) = Some (m_seqNum p)"
      and "s \<in> set (m_subscribers p) \<longleftrightarrow> (\<exists>n. subscribers d s = Some n \<and> m_state n = eSTATE_IDLE \<and> m_point n = Some mp)" for s by blast+ }
  { fix l e assume "loops d l = Some e"
    from pending_are_listed [OF inv this] show "distinct (m_pendingMpNotifications e)"
      and "s \<in> set (m_pendingMpNotifications e) \<longleftrightarrow>
        (\<exists>n. subscribers d s = Some n \<and> m_state n = eSTATE_NOTIFY_PENDING \<and> m_eventLoopHdl n = l \<and> pos l \<noteq> Got s)" for s by blast+ }
  show "pos l = Got s \<Longrightarrow> \<exists>n. subscribers d s = Some n \<and> m_state n = eSTATE_NOTIFY_PENDING \<and> m_eventLoopHdl n = l" for l s
    using pos [of l] by (auto simp: pos_ok_def)
  { fix s n assume n: "subscribers d s = Some n"
    note s = dm_inv_sub [OF inv n]
    show "loops d (m_eventLoopHdl n) \<noteq> None" using s by (simp add: sub_ok_def)
    show "m_state n = eSTATE_IDLE \<Longrightarrow> \<exists>mp. m_point n = Some mp \<and> points d mp \<noteq> None" using s by (auto simp: sub_ok_def)
    show "m_state n \<in> {eSTATE_NOTIFY_NOTIFYING, eSTATE_NOTIFY_PENDING_DETACH} \<longleftrightarrow> (\<exists>mp. pos (m_eventLoopHdl n) = Calling s mp)"
      using s pos [of "m_eventLoopHdl n"] n by (auto simp: sub_ok_def pos_ok_def split: sub_state.splits) }
qed

text \<open>While a callback runs: the point is well formed, and the subscriber is notifying.\<close>

theorem data_model_well_formed_witness:
  "map_option (\<lambda>p. length (m_data p) = m_dataSize p \<and> m_seqNum p \<noteq> SEQUENCE_NUMBER_UNKNOWN) (points (fst in_callback) 30) = Some True \<and>
   (\<exists>e. loops (fst in_callback) 20 = Some e \<and> set (m_pendingMpNotifications e) =
      {s. \<exists>n. subscribers (fst in_callback) s = Some n \<and> m_state n = eSTATE_NOTIFY_PENDING \<and> m_eventLoopHdl n = 20 \<and> snd in_callback 20 \<noteq> Got s})"
proof -
  have r: "dm_reachable (fst in_callback, snd in_callback)" using in_callback_reachable by simp
  have "map_option m_dataSize (points (fst in_callback) 30) = Some 2" "loops (fst in_callback) 20 \<noteq> None" by code_simp+
  then show ?thesis using data_model_well_formed [OF r] by auto
qed

text \<open>The steps while the callback of the subscriber \<open>s\<close> runs on the event loop \<open>l\<close>, with the number of changes of the point \<open>mp\<close>.\<close>

inductive during_callback :: "addr \<Rightarrow> addr \<Rightarrow> addr \<Rightarrow> dm_system \<Rightarrow> nat \<Rightarrow> dm_system \<Rightarrow> bool" for s l mp st where
  none: "during_callback s l mp st 0 st"
| more: "during_callback s l mp st k st' \<Longrightarrow> elsewhere s l lb \<Longrightarrow> enabled lb st' \<Longrightarrow> dm_exec lb st' = Some st'' \<Longrightarrow>
    during_callback s l mp st (if map_option m_seqNum (points (fst st'') mp) = map_option m_seqNum (points (fst st') mp) then k else k + 1) st''"

lemma callback_versions:
  assumes r: "dm_reachable st" and c: "snd st l = Calling s mp" and n: "subscribers (fst st) s = Some n" "m_eventLoopHdl n = l" and p: "points (fst st) mp = Some p"
  shows "during_callback s l mp st k st' \<Longrightarrow> dm_reachable st' \<and> snd st' l = Calling s mp \<and> subscribers (fst st') s = Some n \<and>
    (\<exists>p'. points (fst st') mp = Some p' \<and> m_seqNum p' = (advanceSequenceNumber ^^ k) (m_seqNum p))"
proof (induction rule: during_callback.induct)
  case none
  then show ?case using assms by simp
next
  case (more k st' lb st'')
  then obtain p' where p': "points (fst st') mp = Some p'" "m_seqNum p' = (advanceSequenceNumber ^^ k) (m_seqNum p)" by blast
  have inv: "dm_inv {} (snd st') (fst st')" using reachable_inv more.IH by blast
  have s: "snd st'' l = Calling s mp \<and> subscribers (fst st'') s = Some n \<and> one_version_on mp (fst st') (fst st'')"
    using step_calling [OF inv more.hyps(3,4,2)] more.IH n(2) by blast
  then obtain p'' where p'': "points (fst st'') mp = Some p''" "m_seqNum p'' = m_seqNum p' \<or> m_seqNum p'' = advanceSequenceNumber (m_seqNum p')"
    using p'(1) by (auto simp: one_version_on_def)
  have "m_seqNum p' \<noteq> SEQUENCE_NUMBER_UNKNOWN" using dm_inv_point_ok [OF inv p'(1)] by (simp add: point_ok_def)
  then have "advanceSequenceNumber (m_seqNum p') \<noteq> m_seqNum p'" by (rule advance_differs)
  moreover have "dm_reachable st''" using dm_reachable.step more by blast
  ultimately show ?case using s p' p'' by auto
qed

text \<open>
  C34. No change is missed: when the model point of a subscriber changes while the callback of this subscriber runs (fewer than 65535 times, the period of the
  sequence numbers), the subscriber is put back into the list of its event loop at the end of the callback, whatever else the other
  threads do meanwhile.
\<close>

theorem change_in_callback_is_notified:
  assumes "dm_reachable st" and "snd st l = Calling s mp" and "subscribers (fst st) s = Some n" and "m_state n = eSTATE_NOTIFY_NOTIFYING"
    and "points (fst st) mp = Some p" and "m_seqNumber n = m_seqNum p"
    and "during_callback s l mp st k st'" and "0 < k" and "k < 65535"
  shows "\<exists>st'' n'' e. dm_exec (Complete l) st' = Some st'' \<and> subscribers (fst st'') s = Some n'' \<and> m_state n'' = eSTATE_NOTIFY_PENDING \<and>
    loops (fst st'') l = Some e \<and> s \<in> set (m_pendingMpNotifications e)"
proof -
  have inv: "dm_inv {} (snd st) (fst st)" by (rule reachable_inv [OF assms(1)])
  have "pos_ok (fst st) l (Calling s mp)" using inv assms(2) unfolding dm_inv_def by metis
  then have h: "m_eventLoopHdl n = l" using assms(3) by (auto simp: pos_ok_def)
  obtain p' where q: "dm_reachable st'" "snd st' l = Calling s mp" "subscribers (fst st') s = Some n" "points (fst st') mp = Some p'"
    "m_seqNum p' = (advanceSequenceNumber ^^ k) (m_seqNum p)"
    using callback_versions [OF assms(1,2,3) h assms(5,7)] by blast
  have "m_seqNum p \<noteq> SEQUENCE_NUMBER_UNKNOWN" using dm_inv_point_ok [OF inv assms(5)] by (simp add: point_ok_def)
  then have differs: "m_seqNumber n \<noteq> m_seqNum p'" using advance_iter_differs [of "m_seqNum p" k] assms(6,8,9) q(5) by simp
  have inv': "dm_inv {} (snd st') (fst st')" by (rule reachable_inv [OF q(1)])
  obtain d' n' where d': "processSubscriptionEvent mp s eNOTIFY_COMPLETE (fst st') = Some d'" "moves s n n' (fst st') d'" "dm_inv {} ((snd st')(l := Waiting)) d'"
    "n' = subscribed_as mp (m_seqNum p') n"
    using complete_inv [OF inv' q(2)] q(3,4) assms(4) by auto
  have n': "m_state n' = eSTATE_NOTIFY_PENDING" "m_inList n' = Some (PendingOf l)" using differs h by (simp_all add: d'(4) subscribed_as_def)
  have sub: "subscribers d' s = Some n'" using d'(2) by (simp add: moves_def)
  have "loops d' l \<noteq> None" using dm_inv_sub [OF d'(3) sub] d'(2) h by (simp add: sub_ok_def moves_def)
  then obtain e where e: "loops d' l = Some e" by auto
  then have "s \<in> set (m_pendingMpNotifications e)" using dm_inv_member [OF d'(3), of "PendingOf l"] sub n'(2) by (auto simp: list_of_def)
  moreover have "dm_exec (Complete l) st' = Some (d', (snd st')(l := Waiting))" using d'(1) q(2) by (cases st') simp
  ultimately show ?thesis using sub n'(1) e by (intro exI [of _ "(d', (snd st')(l := Waiting))"]) auto
qed

theorem change_in_callback_is_notified_witness:
  "\<exists>st' st'' n''. dm_exec (Call (Write 30 [1, 2] eNO_REQUEST)) in_callback = Some st' \<and> dm_exec (Complete 20) st' = Some st'' \<and>
    subscribers (fst st'') 10 = Some n'' \<and> m_state n'' = eSTATE_NOTIFY_PENDING"
proof -
  have "map_option (\<lambda>n. (m_state n, m_seqNumber n)) (subscribers (fst in_callback) 10) = Some (eSTATE_NOTIFY_NOTIFYING, 1)" by code_simp
  then obtain n where n: "subscribers (fst in_callback) 10 = Some n" "m_state n = eSTATE_NOTIFY_NOTIFYING" "m_seqNumber n = 1" by auto
  have "map_option m_seqNum (points (fst in_callback) 30) = Some 1" by code_simp
  then obtain p where p: "points (fst in_callback) 30 = Some p" "m_seqNum p = 1" by auto
  have en: "enabled (Call (Write 30 [1, 2] eNO_REQUEST)) in_callback" by code_simp
  have "map_option m_dataSize (points (fst in_callback) 30) = Some 2" by code_simp
  then have "length [1 :: u8, 2] = m_dataSize p" using p by simp
  moreover have "dm_reachable (fst in_callback, snd in_callback)" using in_callback_reachable by simp
  ultimately obtain seq d' where w: "writeData 30 (Some [1, 2]) (length [1 :: u8, 2]) eNO_REQUEST (fst in_callback) = Some (seq, d')"
    "accepts eNO_REQUEST p \<longrightarrow> readData 30 (length [1 :: u8, 2]) d' = Some (Some [1, 2], seq)"
    "seq \<noteq> m_seqNum p \<longleftrightarrow> accepts eNO_REQUEST p \<and> readData 30 (length [1 :: u8, 2]) (fst in_callback) \<noteq> Some (Some [1, 2], m_seqNum p)"
    using write_and_invalidate(1) [OF _ p(1), of "snd in_callback" "[1, 2]" eNO_REQUEST] by (auto split: if_splits)
  have "map_option m_locked (points (fst in_callback) 30) = Some False" by code_simp
  then have acc: "accepts eNO_REQUEST p" using p by (simp add: accepts_def)
  have "readData 30 (length [1 :: u8, 2]) (fst in_callback) = Some (None, 1)" by code_simp
  then have seq: "seq \<noteq> 1" "readData 30 (length [1 :: u8, 2]) d' = Some (Some [1, 2], seq)" using w acc p(2) by auto
  have pt': "map_option m_seqNum (points d' 30) = Some seq" using seq(2) by (auto simp: readData_def split: Option.bind_splits if_splits)
  let ?st' = "(d', snd in_callback)"
  have st': "dm_exec (Call (Write 30 [1, 2] eNO_REQUEST)) in_callback = Some ?st'" using dm_exec.simps(1) [of _ "fst in_callback" "snd in_callback"] w(1) by (simp add: dm_call_def)
  have "during_callback 10 20 30 in_callback (if map_option m_seqNum (points (fst ?st') 30) = map_option m_seqNum (points (fst in_callback) 30) then 0 else 0 + 1) ?st'"
    by (rule during_callback.more [OF during_callback.none _ en st']) (simp add: elsewhere_def concerns_def)
  then have run: "during_callback 10 20 30 in_callback 1 ?st'" using pt' seq(1) p by simp
  have "snd in_callback 20 = Calling 10 30" by code_simp
  from change_in_callback_is_notified [OF in_callback_reachable this n(1,2) p(1) _ run] n(3) p(2) st' show ?thesis by fastforce
qed

text \<open>
  C35. The notifications of an event loop are delivered in the order of the changes: while a subscriber waits in the list of its event loop, every notification the loop
  takes brings it forward, nobody is put in front of it, and it stays in the list, whatever the threads do.  So at most as many notifications as there are
  subscribers ahead of it come first; then the next one taken is its own.
\<close>

theorem notifications_in_order:
  assumes "dm_reachable st" and "loops (fst st) l = Some e" and "s \<in> set (m_pendingMpNotifications e)" and "while_pending s l st k st'"
  shows "\<exists>e'. loops (fst st') l = Some e' \<and> s \<in> set (m_pendingMpNotifications e') \<and>
    ahead s (m_pendingMpNotifications e') + k \<le> ahead s (m_pendingMpNotifications e) \<and>
    (ahead s (m_pendingMpNotifications e') = 0 \<and> snd st' l = Waiting \<longrightarrow> (\<exists>st''. dm_exec (Take l) st' = Some st'' \<and> snd st'' l = Got s))"
proof -
  have xs: "list_of (PendingOf l) (fst st) = Some (m_pendingMpNotifications e)" using assms(2) by (simp add: list_of_def)
  obtain ys where r: "dm_reachable st'" and ys: "list_of (PendingOf l) (fst st') = Some ys" "s \<in> set ys" "ahead s ys + k \<le> ahead s (m_pendingMpNotifications e)"
    using pending_advances [OF assms(1) xs assms(3,4)] by blast
  obtain e' where e': "loops (fst st') l = Some e'" "m_pendingMpNotifications e' = ys" using ys(1) by (auto simp: list_of_def)
  have "\<exists>st''. dm_exec (Take l) st' = Some st'' \<and> snd st'' l = Got s" if a: "ahead s ys = 0" and w: "snd st' l = Waiting"
  proof -
    obtain zs where zs: "ys = s # zs" using a ys(2) by (cases ys) (auto simp: ahead_def split: if_splits)
    have "enabled (Take l) st'" using w e'(1) by (cases st') simp
    then obtain st'' where st'': "dm_exec (Take l) st' = Some st''" "step_effect (Take l) st' st''" using step_inv [OF reachable_inv [OF r]] by blast
    then have "snd st'' = (snd st')(l := Got s)" using ys(1) zs by (auto simp: step_effect_def)
    then show ?thesis using st''(1) by auto
  qed
  then show ?thesis using e' ys by auto
qed

theorem notifications_in_order_witness:
  "\<exists>st' e'. dm_exec (Take 20) attached = Some st' \<and> loops (fst st') 20 = Some e' \<and> 11 \<in> set (m_pendingMpNotifications e') \<and> ahead 11 (m_pendingMpNotifications e') = 0"
proof -
  have "map_option m_pendingMpNotifications (loops (fst attached) 20) = Some [10, 11]" by code_simp
  then obtain e where e: "loops (fst attached) 20 = Some e" "m_pendingMpNotifications e = [10, 11]" by auto
  have en: "enabled (Take 20) attached" by code_simp
  have "map_option (\<lambda>st. snd st 20) (dm_exec (Take 20) attached) = Some (Got 10)" by code_simp
  then obtain st' where st': "dm_exec (Take 20) attached = Some st'" "snd st' 20 = Got 10" by auto
  have "while_pending 11 20 attached (if Take 20 = Take 20 then 0 + 1 else 0) st'"
    by (rule while_pending.more [OF while_pending.none _ en st'(1)]) (simp_all add: st'(2))
  then have run: "while_pending 11 20 attached 1 st'" by simp
  have "11 \<in> set (m_pendingMpNotifications e)" by (simp add: e(2))
  from notifications_in_order [OF attached_reachable e(1) this run] st'(1) e(2) show ?thesis by (auto simp: ahead_def)
qed

text \<open>
  C36. A write with a value of the size of the point is refused exactly when the point is locked and comes with no lock request; a write that asks to lock or to unlock is
  accepted also by a locked point (the comments of \<^verbatim>\<open>ModelPoint.h\<close> and \<^verbatim>\<open>ModelPointCommon_.h\<close> say that a request to lock a locked point is ignored).  Accepted, the value is what is read
  back, the point is valid and the lock is the requested one; refused, the point is unchanged.  The sequence number changes exactly when the value or the validity does.
  Invalidating an accepting point makes it unreadable.  No other point changes.
\<close>

theorem model_point_values:
  assumes "dm_reachable (d, pos)" and "points d mp = Some p" and "length src = m_dataSize p"
  shows "(\<exists>seq d'. writeData mp (Some src) (length src) lockRequest d = Some (seq, d') \<and>
      (if accepts lockRequest p then readData mp (length src) d' = Some (Some src, seq) \<and> isLocked mp d' = Some (lock_after lockRequest p) else points d' mp = Some p) \<and>
      (seq \<noteq> m_seqNum p \<longleftrightarrow> accepts lockRequest p \<and> readData mp (length src) d \<noteq> Some (Some src, m_seqNum p)) \<and> (\<forall>q. q \<noteq> mp \<longrightarrow> points d' q = points d q)) \<and>
    (\<exists>seq d'. setInvalid mp lockRequest d = Some (seq, d') \<and>
      (if accepts lockRequest p then readData mp (length src) d' = Some (None, seq) \<and> isLocked mp d' = Some (lock_after lockRequest p) else points d' mp = Some p) \<and>
      (seq \<noteq> m_seqNum p \<longleftrightarrow> accepts lockRequest p \<and> m_valid p) \<and> (\<forall>q. q \<noteq> mp \<longrightarrow> points d' q = points d q))"
  using write_and_invalidate [OF assms] by (rule conjI)

theorem model_point_values_witness:
  "\<exists>seq d'. writeData 30 (Some [1, 2]) 2 eLOCK (fst in_callback) = Some (seq, d') \<and> readData 30 2 d' = Some (Some [1, 2], seq) \<and> isLocked 30 d' = Some True"
proof -
  have "map_option m_dataSize (points (fst in_callback) 30) = Some 2" by code_simp
  then obtain p where p: "points (fst in_callback) 30 = Some p" "m_dataSize p = 2" by auto
  have "dm_reachable (fst in_callback, snd in_callback)" using in_callback_reachable by simp
  from model_point_values [OF this p(1), of "[1, 2]" eLOCK] p(2) show ?thesis by (auto simp: accepts_def lock_after_def numeral_2_eq_2)
qed

text \<open>
  What is exported from a model point and imported into a point of the same size gives it the value, the validity and, when it is included, the lock.
\<close>

theorem export_import_round_trip:
  assumes "dm_reachable (d, pos)" and "points d mp = Some p" and "points d mp2 = Some p2" and "m_dataSize p2 = m_dataSize p"
    and "getExternalSize p incl \<le> length buf"
  shows "\<exists>out d'. exportData mp (Some buf) (length buf) incl d = Some (getExternalSize p incl, Some out) \<and>
    importData mp2 (Some out) (length out) incl d = Some (getExternalSize p incl, d') \<and>
    (\<exists>p'. points d' mp2 = Some p' \<and> m_data p' = m_data p \<and> m_valid p' = m_valid p \<and> m_locked p' = (if incl then m_locked p else m_locked p2))"
proof -
  have inv: "dm_inv {} pos d" using reachable_inv [OF assms(1)] by simp
  have ok: "length (m_data p) = m_dataSize p" using dm_inv_point_ok [OF inv assms(2)] by (simp add: point_ok_def)
  have sz: "m_dataSize p + 1 \<le> length buf" "incl \<Longrightarrow> m_dataSize p + 2 \<le> length buf" using assms(5) by (auto simp: getExternalSize_def Let_def split: if_splits)
  let ?out = "m_data p @ bool_byte (m_valid p) # (if incl then bool_byte (m_locked p) # drop (m_dataSize p + 2) buf else drop (m_dataSize p + 1) buf)"
  have e: "exportData mp (Some buf) (length buf) incl d = Some (getExternalSize p incl, Some ?out)"
    using assms(2) ok sz by (auto simp: exportData_def mem_write_def getExternalSize_def)
  have len: "length ?out = length buf" using ok sz by auto
  have g: "getExternalSize p2 incl = getExternalSize p incl" using assms(4) by (simp add: getExternalSize_def)
  obtain d' where d': "importData mp2 (Some ?out) (length ?out) incl d = Some (getExternalSize p2 incl, d')"
    "changed mp2 (next_version (p2\<lparr>m_data := take (m_dataSize p2) ?out, m_valid := ?out ! m_dataSize p2 \<noteq> 0,
       m_locked := (if incl then ?out ! (m_dataSize p2 + 1) \<noteq> 0 else m_locked p2)\<rparr>)) d d'"
    using importData_inv [OF inv assms(3), of incl ?out "length ?out"] assms(4,5) len g sz by auto
  have r: "take (m_dataSize p2) ?out = m_data p" "?out ! m_dataSize p2 = bool_byte (m_valid p)" "incl \<Longrightarrow> ?out ! (m_dataSize p2 + 1) = bool_byte (m_locked p)"
    using assms(4) ok by (simp_all add: nth_append)
  have bb: "bool_byte b \<noteq> 0 \<longleftrightarrow> b" for b by (simp add: bool_byte_def)
  have "m_locked p = b \<Longrightarrow> incl \<Longrightarrow> (?out ! (m_dataSize p2 + 1) \<noteq> 0) = b" for b using r(3) bb by simp
  then have "\<exists>p'. points d' mp2 = Some p' \<and> m_data p' = m_data p \<and> m_valid p' = m_valid p \<and> m_locked p' = (if incl then m_locked p else m_locked p2)"
    using d'(2) r(1,2) bb by (auto simp: changed_def)
  then show ?thesis using e d'(1) g by (intro exI [of _ ?out] exI [of _ d']) simp
qed

theorem export_import_round_trip_witness:
  "\<exists>out d'. exportData 31 (Some [0, 0, 0, 0]) 4 True (fst in_callback) = Some (4, Some out) \<and> importData 30 (Some out) (length out) True (fst in_callback) = Some (4, d') \<and>
    map_option m_data (points d' 30) = Some [7, 9]"
proof -
  have "map_option (\<lambda>p. (m_dataSize p, m_data p)) (points (fst in_callback) 31) = Some (2, [7, 9])" by code_simp
  then obtain p where p: "points (fst in_callback) 31 = Some p" "m_dataSize p = 2" "m_data p = [7, 9]" by auto
  have "map_option m_dataSize (points (fst in_callback) 30) = Some 2" by code_simp
  then obtain p2 where p2: "points (fst in_callback) 30 = Some p2" "m_dataSize p2 = 2" by auto
  have g: "getExternalSize p True = 4" using p(2) by (simp add: getExternalSize_def)
  have r: "dm_reachable (fst in_callback, snd in_callback)" using in_callback_reachable by simp
  have len: "length [0 :: u8, 0, 0, 0] = 4" by simp
  from export_import_round_trip [OF r p(1) p2(1), of True "[0, 0, 0, 0]", unfolded len g p(2,3) p2(2)] show ?thesis by fastforce
qed

text \<open>With the lock included, the room for it is not checked: the last byte goes past the end of the caller's memory.\<close>

lemma export_overruns:
  assumes "points d mp = Some p" and "length (m_data p) = m_dataSize p" and "length buf = m_dataSize p + 1"
  shows "exportData mp (Some buf) (length buf) True d = None"
  using assms by (simp add: exportData_def mem_write_def getExternalSize_def)

text \<open>The sequence number of a point returns to its value after 65535 changes.\<close>

lemma version_period:
  assumes "q \<noteq> SEQUENCE_NUMBER_UNKNOWN"
  shows "(advanceSequenceNumber ^^ 65535) q = q"
proof -
  have "0 < unat q" using assms by (simp add: SEQUENCE_NUMBER_UNKNOWN_def unat_gt_0)
  then obtain m where m: "unat q = Suc m" using gr0_implies_Suc by blast
  then have "(m + 65535) mod 65535 = m" using unat_u16 [of q] by (simp only: mod_add_self2) simp
  then have "(unat q - 1 + 65535) mod 65535 + 1 = unat q" by (simp add: m)
  then have "unat ((advanceSequenceNumber ^^ 65535) q) = unat q" using advance_iter [OF assms, of 65535] by argo
  then show ?thesis by (rule unsigned_word_eqI)
qed

end
