(* ===== verification/Typed_Points.thy ===== *)
theory Typed_Points
  imports Storm_Points Data_Model
begin

text \<open>
  The typed model points of the thermostat over the data model: a point of \<^verbatim>\<open>ModelPointCommon_\<close> that holds the bytes of a value stands for
  a typed point, and its methods do what the typed ones do.
\<close>

definition stands_for :: "('a \<Rightarrow> bytes) \<Rightarrow> model_point \<Rightarrow> 'a mp \<Rightarrow> bool" where
  "stands_for enc p m \<longleftrightarrow> m_data p = enc (mp_value m) \<and> m_valid p = mp_valid m \<and> m_locked p = mp_locked m \<and> m_seqNum p = mp_seq m"

lemma no_request: "accepts eNO_REQUEST p = (\<not> m_locked p)" "lock_after eNO_REQUEST p = m_locked p"
  by (simp_all add: accepts_def lock_after_def)

lemma typed_write:
  assumes inv: "dm_inv {} pos d" and p: "points d mp = Some p" and s: "stands_for enc p m" and i: "inj enc" and n: "length (enc v) = m_dataSize p"
  shows "\<exists>seq d' p'. writeData mp (Some (enc v)) (m_dataSize p) eNO_REQUEST d = Some (seq, d') \<and> points d' mp = Some p' \<and>
    stands_for enc p' (mp_write v m) \<and> seq = mp_seq (mp_write v m)"
proof -
  have eq: "enc v = m_data p \<longleftrightarrow> v = mp_value m" using s i by (simp add: stands_for_def inj_eq)
  obtain seq d' where w: "writeData mp (Some (enc v)) (m_dataSize p) eNO_REQUEST d = Some (seq, d')"
    "write_result mp (\<not> m_locked p \<and> (\<not> m_valid p \<or> m_data p \<noteq> enc v)) (p\<lparr>m_locked := m_locked p, m_data := enc v, m_valid := True\<rparr>) (p\<lparr>m_locked := m_locked p\<rparr>) d d' seq"
    using writeData_inv [OF inv p, of "m_dataSize p" "enc v" eNO_REQUEST] n by (auto simp: no_request)
  show ?thesis
  proof (cases "\<not> m_locked p \<and> (\<not> m_valid p \<or> m_data p \<noteq> enc v)")
    case True
    then show ?thesis using w s eq by (auto simp: write_result_def changed_def stands_for_def bare_def mp_write_by_def mp_updated_def)
  next
    case False
    then show ?thesis using w s eq p by (auto simp: write_result_def with_point_def stands_for_def mp_write_by_def)
  qed
qed

lemma typed_invalidate:
  assumes inv: "dm_inv {} pos d" and p: "points d mp = Some p" and s: "stands_for enc p m" and z: "enc z = replicate (m_dataSize p) 0"
  shows "\<exists>seq d' p'. setInvalid mp eNO_REQUEST d = Some (seq, d') \<and> points d' mp = Some p' \<and> stands_for enc p' (mp_invalidate z m) \<and> seq = mp_seq (mp_invalidate z m)"
proof -
  obtain seq d' where w: "setInvalid mp eNO_REQUEST d = Some (seq, d')" "write_result mp (\<not> m_locked p \<and> m_valid p)
      (p\<lparr>m_locked := m_locked p, m_data := replicate (m_dataSize p) 0, m_valid := False\<rparr>) (p\<lparr>m_locked := m_locked p\<rparr>) d d' seq"
    using setInvalid_inv [OF inv p, of eNO_REQUEST] by (auto simp: no_request)
  show ?thesis
  proof (cases "\<not> m_locked p \<and> m_valid p")
    case True
    then show ?thesis using w s z by (auto simp: write_result_def changed_def stands_for_def bare_def mp_invalidate_def)
  next
    case False
    then show ?thesis using w s p by (auto simp: write_result_def with_point_def stands_for_def mp_invalidate_def)
  qed
qed

text \<open>
  C11. A point of the data model that holds the bytes of a value stands for a typed point of the thermostat: in every reachable state a write of new bytes is the
  typed write, setting it invalid is the typed one when the hook clears the data, a read gives the typed value, and the sequence numbers agree.
\<close>

theorem typed_points_refine_data_model:
  assumes "dm_reachable (d, pos)" and "points d mp = Some p" and "stands_for enc p m" and "inj enc" and "\<And>x. length (enc x) = m_dataSize p"
  shows "(\<exists>seq d' p'. writeData mp (Some (enc v)) (m_dataSize p) eNO_REQUEST d = Some (seq, d') \<and> points d' mp = Some p' \<and>
      stands_for enc p' (mp_write v m) \<and> seq = mp_seq (mp_write v m)) \<and>
    (enc z = replicate (m_dataSize p) 0 \<longrightarrow> (\<exists>seq d' p'. setInvalid mp eNO_REQUEST d = Some (seq, d') \<and> points d' mp = Some p' \<and>
      stands_for enc p' (mp_invalidate z m) \<and> seq = mp_seq (mp_invalidate z m))) \<and>
    readData mp (m_dataSize p) d = Some (map_option enc (mp_read m), mp_seq m)"
proof -
  have inv: "dm_inv {} pos d" using reachable_inv [OF assms(1)] by simp
  have "readData mp (m_dataSize p) d = Some (map_option enc (mp_read m), mp_seq m)"
    using assms(2,3,5) by (auto simp: readData_def copyDataTo_def mem_read_def mp_read_def stands_for_def)
  then show ?thesis using typed_write [OF inv assms(2,3,4,5)] typed_invalidate [OF inv assms(2,3)] by blast
qed

text \<open>A structure of two bytes, in the point 30 of the sample of the data model.\<close>

definition pair_bytes :: "u8 \<times> u8 \<Rightarrow> bytes" where
  "pair_bytes x = [fst x, snd x]"

theorem typed_points_refine_data_model_witness:
  "\<exists>seq d' p'. writeData 30 (Some [1, 2]) 2 eNO_REQUEST (fst in_callback) = Some (seq, d') \<and> points d' 30 = Some p' \<and> m_data p' = [1, 2] \<and> m_valid p'"
proof -
  have "map_option (\<lambda>p. (m_dataSize p, m_data p, m_valid p, m_locked p, m_seqNum p)) (points (fst in_callback) 30) = Some (2, [0, 0], False, False, 1)" by code_simp
  then obtain p where p: "points (fst in_callback) 30 = Some p" "m_dataSize p = 2" "stands_for pair_bytes p (mp_new (0, 0) False)"
    by (auto simp: stands_for_def pair_bytes_def mp_new_def SEQUENCE_NUMBER_UNKNOWN_def)
  have r: "dm_reachable (fst in_callback, snd in_callback)" using in_callback_reachable by simp
  have "inj pair_bytes" "length (pair_bytes x) = m_dataSize p" for x by (auto simp: inj_def pair_bytes_def p(2))
  from typed_points_refine_data_model [OF r p(1,3) this, of "(1, 2)" "(0, 0)"] show ?thesis
    by (auto simp: p(2) pair_bytes_def stands_for_def mp_new_def mp_write_by_def mp_updated_def)
qed

end
