(* ===== verification/Hash_Table.thy ===== *)
theory Hash_Table
  imports Cxx_Lists Avl_Tree Complex_Main
begin

text \<open>
  The hash table of \<^verbatim>\<open>src/src/Cpl/Container/HashTable_.cpp\<close> and the dictionary of
  \<^verbatim>\<open>src/src/Cpl/Container/Dictionary.h\<close> that wraps it.  The buckets are lists of \<^verbatim>\<open>DList.h\<close>, so the
  table lives in the store of the lists; \<open>m_hashCode\<close> is the field an item of \<^verbatim>\<open>DictItem.h\<close> adds.
  The key of an item is application code; the methods of its class and the hash function, which
  the application may replace, are parameters with a contract.  Reading past the array of buckets
  and dividing by zero are \<open>None\<close>.
\<close>

section \<open>State\<close>

record 'k dict_keys = "'k keys" +
  getRawKey :: "'k \<Rightarrow> bytes"

record dict_store =
  lists :: store
  m_hashCode :: "addr \<Rightarrow> u32"

record hash_table =
  m_buckets :: "addr list"
  m_numBuckets :: u32
  m_hashFunc :: "bytes \<Rightarrow> u32 \<Rightarrow> u32 option"
  m_numItems :: u32

record table_stats =
  stat_numItems :: u32
  stat_numBuckets :: u32
  stat_numEmptyBuckets :: u32
  stat_average_itemsPerBucket :: rat
  stat_max_itemsPerBucket :: u32

definition bucket_at :: "hash_table \<Rightarrow> u32 \<Rightarrow> addr option" where
  "bucket_at T index = (if unat index < length (m_buckets T) then Some (m_buckets T ! unat index) else None)"

section \<open>The default hash function\<close>

definition twelve_percent :: nat where "twelve_percent = 4"
definition seventy_five_percent :: nat where "seventy_five_percent = 24"
definition high_bits :: u32 where "high_bits = NOT (drop_bit twelve_percent (- 1))"

definition hash_byte :: "u32 \<Rightarrow> u8 \<Rightarrow> u32" where
  "hash_byte key0 c =
     (let key = push_bit twelve_percent key0 + ucast c;
          g = key AND high_bits
      in if g \<noteq> 0 then (key XOR drop_bit seventy_five_percent g) AND NOT high_bits else key)"

fun hash_loop :: "u32 \<Rightarrow> bytes \<Rightarrow> u32" where
  "hash_loop key [] = key"
| "hash_loop key (c # cs) = hash_loop (hash_byte key c) cs"

definition HashTable_hashKey :: "bytes \<Rightarrow> u32 \<Rightarrow> u32 option" where
  "HashTable_hashKey keystart maxBuckets =
     (if maxBuckets = 0 then None else Some (hash_loop 0 keystart mod maxBuckets))"

section \<open>Operations of \<^verbatim>\<open>HashTable_.cpp\<close>\<close>

definition HashTable :: "addr list \<Rightarrow> u32 \<Rightarrow> hash_table" where
  "HashTable buckets numBuckets =
     \<lparr>m_buckets = buckets, m_numBuckets = numBuckets, m_hashFunc = HashTable_hashKey, m_numItems = 0\<rparr>"

definition HashTable_user :: "addr list \<Rightarrow> u32 \<Rightarrow> (bytes \<Rightarrow> u32 \<Rightarrow> u32 option) \<Rightarrow> hash_table" where
  "HashTable_user buckets numBuckets userSuppliedHashFunction =
     \<lparr>m_buckets = buckets, m_numBuckets = numBuckets, m_hashFunc = userSuppliedHashFunction, m_numItems = 0\<rparr>"

definition HashTable_insert ::
    "'k dict_keys \<Rightarrow> dict_store \<Rightarrow> hash_table \<Rightarrow> addr \<Rightarrow> (dict_store \<times> hash_table) option" where
  "HashTable_insert ks H T node = do {
     index \<leftarrow> m_hashFunc T (getRawKey ks (getKey ks node)) (m_numBuckets T);
     let H1 = H\<lparr>m_hashCode := (m_hashCode H)(node := index)\<rparr>;
     b \<leftarrow> bucket_at T index;
     s \<leftarrow> DListT_put (lists H1) b node;
     Some (H1\<lparr>lists := s\<rparr>, T\<lparr>m_numItems := m_numItems T + 1\<rparr>)
   }"

partial_function (option) hash_find_loop :: "'k dict_keys \<Rightarrow> store \<Rightarrow> 'k \<Rightarrow> ptr \<Rightarrow> ptr option" where
  "hash_find_loop ks s keyToFind itemPtr =
     (case itemPtr of
        None \<Rightarrow> Some None
      | Some a \<Rightarrow>
          if keyCompare ks (getKey ks a) keyToFind = 0 then Some (Some a)
          else do {
            n \<leftarrow> DListT_next s a;
            hash_find_loop ks s keyToFind n
          })"

definition HashTable_find :: "'k dict_keys \<Rightarrow> dict_store \<Rightarrow> hash_table \<Rightarrow> 'k \<Rightarrow> ptr option" where
  "HashTable_find ks H T keyToFind = do {
     index \<leftarrow> m_hashFunc T (getRawKey ks keyToFind) (m_numBuckets T);
     b \<leftarrow> bucket_at T index;
     itemPtr \<leftarrow> DListT_first (lists H) b;
     hash_find_loop ks (lists H) keyToFind itemPtr
   }"

definition HashTable_removeItem ::
    "dict_store \<Rightarrow> hash_table \<Rightarrow> addr \<Rightarrow> (ptr \<times> dict_store \<times> hash_table) option" where
  "HashTable_removeItem H T nodeToDelete = do {
     let index = m_hashCode H nodeToDelete;
     b \<leftarrow> bucket_at T index;
     (ok, s) \<leftarrow> DListT_remove (lists H) b nodeToDelete;
     if ok then Some (Some nodeToDelete, H\<lparr>lists := s\<rparr>, T\<lparr>m_numItems := m_numItems T - 1\<rparr>)
     else Some (None, H\<lparr>lists := s\<rparr>, T)
   }"

lemma unat_plus1: "i < n \<Longrightarrow> unat (i + 1 :: u32) = Suc (unat i)"
  using unat_bound [of n] by (simp add: unat_word_ariths word_less_nat_alt)

text \<open>The scan for the next bucket that is not empty, which \<open>first\<close> and \<open>next\<close> both write out.\<close>

function bucket_scan :: "dict_store \<Rightarrow> hash_table \<Rightarrow> u32 \<Rightarrow> ptr option" where
  "bucket_scan H T i =
     (if i < m_numBuckets T then do {
        b \<leftarrow> bucket_at T i;
        itemPtr \<leftarrow> DListT_first (lists H) b;
        if itemPtr \<noteq> None then Some itemPtr else bucket_scan H T (i + 1)
      } else Some None)"
  by pat_completeness auto
termination
  by (relation "measure (\<lambda>(H, T, i). unat (m_numBuckets T) - unat i)")
    (auto simp: unat_plus1 word_less_nat_alt)

declare bucket_scan.simps [simp del]

definition HashTable_first :: "dict_store \<Rightarrow> hash_table \<Rightarrow> ptr option" where
  "HashTable_first H T = (if m_numItems T \<noteq> 0 then bucket_scan H T 0 else Some None)"

definition HashTable_next :: "dict_store \<Rightarrow> hash_table \<Rightarrow> addr \<Rightarrow> ptr option" where
  "HashTable_next H T current = do {
     let index = m_hashCode H current;
     b \<leftarrow> bucket_at T index;
     nxtPtr \<leftarrow> DListT_next (lists H) current;
     if nxtPtr \<noteq> None then Some nxtPtr else bucket_scan H T (index + 1)
   }"

partial_function (option) count_loop :: "store \<Rightarrow> ptr \<Rightarrow> u32 \<Rightarrow> u32 option" where
  "count_loop s itemPtr itemCount =
     (case itemPtr of
        None \<Rightarrow> Some itemCount
      | Some a \<Rightarrow> do {
          n \<leftarrow> DListT_next s a;
          count_loop s n (itemCount + 1)
        })"

text \<open>The walk over the buckets; it carries the statistics, \<open>filledBuckets\<close> and \<open>sumItemCount\<close>.\<close>

function stats_loop ::
    "dict_store \<Rightarrow> hash_table \<Rightarrow> u32 \<Rightarrow> table_stats \<Rightarrow> u32 \<Rightarrow> u32 \<Rightarrow> (table_stats \<times> u32 \<times> u32) option" where
  "stats_loop H T i info filledBuckets sumItemCount =
     (if i < m_numBuckets T then do {
        b \<leftarrow> bucket_at T i;
        itemPtr \<leftarrow> DListT_first (lists H) b;
        if itemPtr \<noteq> None then do {
          itemCount \<leftarrow> count_loop (lists H) itemPtr 0;
          stats_loop H T (i + 1)
            (info\<lparr>stat_numEmptyBuckets := stat_numEmptyBuckets info - 1,
                  stat_max_itemsPerBucket :=
                    (if itemCount > stat_max_itemsPerBucket info then itemCount else stat_max_itemsPerBucket info)\<rparr>)
            (filledBuckets + 1) (sumItemCount + itemCount)
        } else stats_loop H T (i + 1) info filledBuckets sumItemCount
      } else Some (info, filledBuckets, sumItemCount))"
  by pat_completeness auto
termination
  by (relation "measure (\<lambda>(H, T, i, _). unat (m_numBuckets T) - unat i)")
    (auto simp: unat_plus1 word_less_nat_alt)

declare stats_loop.simps [simp del]

text \<open>\<open>dround\<close> rounds a quotient to a \<^verbatim>\<open>double\<close>; the integers of 32 bits are exact in it.\<close>

definition HashTable_tableStats :: "(rat \<Rightarrow> rat) \<Rightarrow> dict_store \<Rightarrow> hash_table \<Rightarrow> table_stats option" where
  "HashTable_tableStats dround H T =
     (let info = \<lparr>stat_numItems = m_numItems T, stat_numBuckets = m_numBuckets T,
                  stat_numEmptyBuckets = m_numBuckets T, stat_average_itemsPerBucket = 0,
                  stat_max_itemsPerBucket = 0\<rparr>
      in if m_numItems T = 0 then Some info
         else do {
           (info1, filledBuckets, sumItemCount) \<leftarrow> stats_loop H T 0 info 0 0;
           Some (info1\<lparr>stat_average_itemsPerBucket :=
                         dround (of_nat (unat sumItemCount) / of_nat (unat filledBuckets))\<rparr>)
         })"

section \<open>Operations of \<^verbatim>\<open>Dictionary.h\<close>\<close>

definition Dictionary_insert ::
    "'k dict_keys \<Rightarrow> dict_store \<Rightarrow> hash_table \<Rightarrow> addr \<Rightarrow> (dict_store \<times> hash_table) option" where
  "Dictionary_insert ks H T node = HashTable_insert ks H T node"

definition Dictionary_find :: "'k dict_keys \<Rightarrow> dict_store \<Rightarrow> hash_table \<Rightarrow> 'k \<Rightarrow> ptr option" where
  "Dictionary_find ks H T keyToFind = HashTable_find ks H T keyToFind"

definition Dictionary_remove ::
    "'k dict_keys \<Rightarrow> dict_store \<Rightarrow> hash_table \<Rightarrow> 'k \<Rightarrow> (ptr \<times> dict_store \<times> hash_table) option" where
  "Dictionary_remove ks H T keyOfObjectToDelete = do {
     nodePtr \<leftarrow> Dictionary_find ks H T keyOfObjectToDelete;
     case nodePtr of
       Some node \<Rightarrow> HashTable_removeItem H T node
     | None \<Rightarrow> Some (None, H, T)
   }"

definition Dictionary_removeItem ::
    "dict_store \<Rightarrow> hash_table \<Rightarrow> addr \<Rightarrow> (bool \<times> dict_store \<times> hash_table) option" where
  "Dictionary_removeItem H T node = do {
     (p, H1, T1) \<leftarrow> HashTable_removeItem H T node;
     Some (p \<noteq> None, H1, T1)
   }"

definition Dictionary_first :: "dict_store \<Rightarrow> hash_table \<Rightarrow> ptr option" where
  "Dictionary_first H T = HashTable_first H T"

definition Dictionary_next :: "dict_store \<Rightarrow> hash_table \<Rightarrow> addr \<Rightarrow> ptr option" where
  "Dictionary_next H T current = HashTable_next H T current"

definition Dictionary_stats :: "(rat \<Rightarrow> rat) \<Rightarrow> dict_store \<Rightarrow> hash_table \<Rightarrow> table_stats option" where
  "Dictionary_stats dround H T = HashTable_tableStats dround H T"

definition Dictionary_getFirst ::
    "dict_store \<Rightarrow> hash_table \<Rightarrow> (ptr \<times> dict_store \<times> hash_table) option" where
  "Dictionary_getFirst H T = do {
     nodePtr \<leftarrow> Dictionary_first H T;
     case nodePtr of
       Some node \<Rightarrow> HashTable_removeItem H T node
     | None \<Rightarrow> Some (None, H, T)
   }"

partial_function (option) Dictionary_clearTheDictionary ::
    "dict_store \<Rightarrow> hash_table \<Rightarrow> (dict_store \<times> hash_table) option" where
  "Dictionary_clearTheDictionary H T = do {
     (p, H1, T1) \<leftarrow> Dictionary_getFirst H T;
     if p \<noteq> None then Dictionary_clearTheDictionary H1 T1 else Some (H1, T1)
   }"

partial_function (option) Dictionary_move_loop ::
    "'k dict_keys \<Rightarrow> dict_store \<Rightarrow> hash_table \<Rightarrow> hash_table \<Rightarrow> (dict_store \<times> hash_table \<times> hash_table) option" where
  "Dictionary_move_loop ks H T D = do {
     (p, H1, T1) \<leftarrow> Dictionary_getFirst H T;
     case p of
       Some nxt \<Rightarrow> do {
         (H2, D1) \<leftarrow> Dictionary_insert ks H1 D nxt;
         Dictionary_move_loop ks H2 T1 D1
       }
     | None \<Rightarrow> Some (H1, T1, D)
   }"

definition Dictionary_move ::
    "'k dict_keys \<Rightarrow> dict_store \<Rightarrow> hash_table \<Rightarrow> hash_table \<Rightarrow> (dict_store \<times> hash_table \<times> hash_table) option" where
  "Dictionary_move ks H T dst = do {
     (H1, D) \<leftarrow> Dictionary_clearTheDictionary H dst;
     Dictionary_move_loop ks H1 T D
   }"

text \<open>The dictionary object has an address of its own, \<open>this\<close>, other than those of its buckets.\<close>

definition Dictionary_isInDictionary :: "dict_store \<Rightarrow> addr \<Rightarrow> addr \<Rightarrow> bool option" where
  "Dictionary_isInDictionary H this node = ItemT_isInContainer (lists H) node this"

end
