(* ===== verification/Hash_Laws.thy ===== *)
theory Hash_Laws
  imports Hash_Table
begin

text \<open>
  Correctness of the hash table and the dictionary.  \<open>dict_rep ks H T bss\<close> says that the buckets of the table
  hold the sequences \<open>bss\<close>, each item in the bucket its key hashes to; the enumeration of the table is the
  concatenation of the buckets.
\<close>

section \<open>Contracts\<close>

locale hash_function =
  fixes hash :: "bytes \<Rightarrow> u32 \<Rightarrow> u32 option"
  assumes hash_total: "n \<noteq> 0 \<Longrightarrow> \<exists>i. hash k n = Some i \<and> i < n"

locale dict_key_order = hash_function +
  fixes ks :: "'k dict_keys"
  assumes compare_eq: "keyCompare ks x y = 0 \<longleftrightarrow> x = y"

interpretation holub: hash_function HashTable_hashKey
proof
  fix n :: u32 and k
  assume "n \<noteq> 0"
  then show "\<exists>i. HashTable_hashKey k n = Some i \<and> i < n"
    by (simp add: HashTable_hashKey_def word_less_nat_alt unat_mod_distrib unat_gt_0)
qed

text \<open>Keys of a plain type of 32 bits, in the byte order of the target.\<close>

definition KeyPlainType_getRawKey :: "u32 \<Rightarrow> bytes" where
  "KeyPlainType_getRawKey m_keyData = le_bytes 4 m_keyData"

definition plain_keys :: "(addr \<Rightarrow> u32) \<Rightarrow> u32 dict_keys" where
  "plain_keys g = \<lparr>getKey = g, keyCompare = KeyPlainType_compareKey, getRawKey = KeyPlainType_getRawKey\<rparr>"

interpretation plain_dict: dict_key_order HashTable_hashKey "plain_keys g" for g
  by unfold_locales (simp add: plain_keys_def plain.compare_eq)

section \<open>The default hash function keeps to 28 bits\<close>

lemma high_bits_value: "high_bits = 0xF0000000"
  by (simp add: high_bits_def twelve_percent_def drop_bit_minus_one mask_eq_exp_minus_1)

lemma low_part: "(x :: u32) AND NOT high_bits = take_bit 28 x"
proof (rule bit_word_eqI)
  fix n assume "n < LENGTH(32)"
  have "NOT high_bits = mask 28" by (simp add: high_bits_value mask_eq_exp_minus_1)
  then show "bit (x AND NOT high_bits) n \<longleftrightarrow> bit (take_bit 28 x) n" by (simp add: take_bit_eq_mask)
qed

lemma hash_byte_bound: "unat (hash_byte key c) < 2 ^ 28"
proof -
  have low: "unat (take_bit 28 x) < 2 ^ 28" for x :: u32
    unfolding unsigned_take_bit_eq by (rule take_bit_nat_less_exp)
  have "x = take_bit 28 x" if "x AND high_bits = 0" for x :: u32
  proof -
    have "x = (x AND high_bits) OR (x AND NOT high_bits)" by (simp flip: bit.conj_disj_distrib)
    with that show ?thesis by (simp add: low_part)
  qed
  with low have "unat x < 2 ^ 28" if "x AND high_bits = 0" for x :: u32 using that by metis
  with low show ?thesis by (simp only: hash_byte_def Let_def low_part split: if_split) blast
qed

lemma hash_loop_bound: "unat key < 2 ^ 28 \<Longrightarrow> unat (hash_loop key cs) < 2 ^ 28"
  by (induction cs arbitrary: key) (simp_all add: hash_byte_bound del: power_numeral)

section \<open>Abstraction\<close>

definition in_bucket :: "'k dict_keys \<Rightarrow> dict_store \<Rightarrow> hash_table \<Rightarrow> nat \<Rightarrow> addr \<Rightarrow> bool" where
  "in_bucket ks H T i a \<longleftrightarrow> unat (m_hashCode H a) = i \<and>
     m_hashFunc T (getRawKey ks (getKey ks a)) (m_numBuckets T) = Some (m_hashCode H a)"

definition dict_rep :: "'k dict_keys \<Rightarrow> dict_store \<Rightarrow> hash_table \<Rightarrow> addr list list \<Rightarrow> bool" where
  "dict_rep ks H T bss \<longleftrightarrow>
     length (m_buckets T) = unat (m_numBuckets T) \<and> length bss = unat (m_numBuckets T) \<and>
     m_numBuckets T \<noteq> 0 \<and> distinct (m_buckets T) \<and>
     (\<forall>i<length bss. dlist_rep (lists H) (m_buckets T ! i) (bss ! i) \<and> (\<forall>a\<in>set (bss ! i). in_bucket ks H T i a)) \<and>
     m_numItems T = word_of_nat (length (concat bss)) \<and> length (concat bss) < 2 ^ 32"

lemma dict_repD:
  assumes "dict_rep ks H T bss"
  shows "length (m_buckets T) = unat (m_numBuckets T)" "length bss = unat (m_numBuckets T)"
    "m_numBuckets T \<noteq> 0" "distinct (m_buckets T)" "length (concat bss) < 2 ^ 32"
    "m_numItems T = word_of_nat (length (concat bss))"
    "\<And>i. i < length bss \<Longrightarrow> dlist_rep (lists H) (m_buckets T ! i) (bss ! i)"
    "\<And>i a. i < length bss \<Longrightarrow> a \<in> set (bss ! i) \<Longrightarrow> in_bucket ks H T i a"
  using assms by (simp_all add: dict_rep_def)

lemma concat_split:
  assumes "i < length bss"
  shows "concat bss = concat (take i bss) @ bss ! i @ concat (drop (Suc i) bss)"
    and "concat (bss[i := ys]) = concat (take i bss) @ ys @ concat (drop (Suc i) bss)"
proof -
  show "concat bss = concat (take i bss) @ bss ! i @ concat (drop (Suc i) bss)"
    by (subst id_take_nth_drop [OF assms]) simp
  show "concat (bss[i := ys]) = concat (take i bss) @ ys @ concat (drop (Suc i) bss)"
    using assms by (simp add: upd_conv_take_nth_drop)
qed

lemma bucket_disjoint:
  assumes rep: "dict_rep ks H T bss" and "i < length bss" "j < length bss" "i \<noteq> j"
  shows "set (bss ! i) \<inter> set (bss ! j) = {}"
  using dict_repD(8) [OF rep] assms(2-) unfolding in_bucket_def by blast

lemma distinct_concat_nth:
  assumes "\<And>i. i < length bss \<Longrightarrow> distinct (bss ! i)"
    and "\<And>i j. i < j \<Longrightarrow> j < length bss \<Longrightarrow> set (bss ! i) \<inter> set (bss ! j) = {}"
  shows "distinct (concat bss)"
  using assms
proof (induction bss)
  case (Cons b bss)
  have "distinct (concat bss)"
  proof (rule Cons.IH)
    show "distinct (bss ! i)" if "i < length bss" for i using Cons.prems(1) [of "Suc i"] that by simp
    show "set (bss ! i) \<inter> set (bss ! j) = {}" if "i < j" "j < length bss" for i j
      using Cons.prems(2) [of "Suc i" "Suc j"] that by simp
  qed
  moreover have "set b \<inter> set (bss ! j) = {}" if "j < length bss" for j
    using Cons.prems(2) [of 0 "Suc j"] that by simp
  then have "set b \<inter> set (concat bss) = {}" by (fastforce simp: in_set_conv_nth)
  ultimately show ?case using Cons.prems(1) [of 0] by simp
qed simp

lemma dict_distinct:
  assumes rep: "dict_rep ks H T bss" shows "distinct (concat bss)"
proof (rule distinct_concat_nth)
  show "distinct (bss ! i)" if "i < length bss" for i
    using dict_repD(7) [OF rep that] by (simp add: dlist_rep_def)
  show "set (bss ! i) \<inter> set (bss ! j) = {}" if "i < j" "j < length bss" for i j
    using bucket_disjoint [OF rep, of i j] that by simp
qed

lemma dict_bucket:
  assumes rep: "dict_rep ks H T bss" and "i < length bss"
  shows "bucket_at T (word_of_nat i) = Some (m_buckets T ! i)" "unat (word_of_nat i :: u32) = i"
  using assms(2) dict_repD(1,2) [OF rep] unat_of_nat_below [of i "m_numBuckets T"]
  by (simp_all add: bucket_at_def)

lemma dict_member:
  assumes rep: "dict_rep ks H T bss" and a: "a \<in> set (concat bss)"
  obtains "unat (m_hashCode H a) < length bss" "a \<in> set (bss ! unat (m_hashCode H a))"
    "bucket_at T (m_hashCode H a) = Some (m_buckets T ! unat (m_hashCode H a))"
    "in_bucket ks H T (unat (m_hashCode H a)) a"
proof -
  from a obtain i where i: "i < length bss" "a \<in> set (bss ! i)"
    by (metis UN_E in_set_conv_nth set_concat)
  with dict_repD(8) [OF rep] have "in_bucket ks H T i a" by blast
  with i that dict_repD(1,2) [OF rep] show ?thesis by (simp add: in_bucket_def bucket_at_def)
qed

section \<open>Updating one bucket\<close>

lemma bucket_update:
  assumes rep: "dict_rep ks H T bss" and i: "i < length bss"
    and ys: "dlist_rep (lists H') (m_buckets T ! i) ys" "\<forall>b\<in>set ys. in_bucket ks H' T i b"
    and step: "local_step (lists H) (lists H') (m_buckets T ! i) A"
    and A: "\<And>j. j < length bss \<Longrightarrow> j \<noteq> i \<Longrightarrow> A \<inter> set (bss ! j) = {}"
    and code: "\<And>b. b \<notin> A \<Longrightarrow> m_hashCode H' b = m_hashCode H b"
    and len: "length (concat (bss[i := ys])) < 2 ^ 32"
  shows "dict_rep ks H' (T\<lparr>m_numItems := word_of_nat (length (concat (bss[i := ys])))\<rparr>) (bss[i := ys])"
proof -
  have other: "dlist_rep (lists H') (m_buckets T ! j) (bss ! j)" "\<forall>a\<in>set (bss ! j). in_bucket ks H' T j a"
    if j: "j < length bss" "j \<noteq> i" for j
  proof -
    have "m_buckets T ! j \<noteq> m_buckets T ! i"
      using that i dict_repD(1,2,4) [OF rep] by (simp add: nth_eq_iff_index_eq)
    from dlist_rep_frame [OF dict_repD(7) [OF rep j(1)] this step A [OF j]]
    show "dlist_rep (lists H') (m_buckets T ! j) (bss ! j)" .
    show "\<forall>a\<in>set (bss ! j). in_bucket ks H' T j a"
    proof
      fix a assume a: "a \<in> set (bss ! j)"
      with A [OF j] have "m_hashCode H' a = m_hashCode H a" by (intro code) blast
      with dict_repD(8) [OF rep j(1) a] show "in_bucket ks H' T j a" by (simp add: in_bucket_def)
    qed
  qed
  have "dlist_rep (lists H') (m_buckets T ! j) (bss[i := ys] ! j) \<and>
        (\<forall>a\<in>set (bss[i := ys] ! j). in_bucket ks H' T j a)" if "j < length bss" for j
    using that other [of j] ys i by (cases "j = i") simp_all
  then show ?thesis
    using dict_repD(1-4) [OF rep] len unfolding dict_rep_def by (simp add: in_bucket_def)
qed

text \<open>A step of one dictionary: what it leaves alone.\<close>

definition dict_step :: "dict_store \<Rightarrow> dict_store \<Rightarrow> hash_table \<Rightarrow> addr set \<Rightarrow> bool" where
  "dict_step H H' T A \<longleftrightarrow> (\<exists>l\<in>set (m_buckets T). local_step (lists H) (lists H') l A) \<and>
     (\<forall>b. b \<notin> A \<longrightarrow> m_hashCode H' b = m_hashCode H b)"

lemma dict_frame:
  assumes rep: "dict_rep ks H D css" and step: "dict_step H H' T A"
    and "set (m_buckets T) \<inter> set (m_buckets D) = {}" "A \<inter> set (concat css) = {}"
  shows "dict_rep ks H' D css"
proof -
  from step obtain l where l: "l \<in> set (m_buckets T)" "local_step (lists H) (lists H') l A"
    by (auto simp: dict_step_def)
  have "dlist_rep (lists H') (m_buckets D ! i) (css ! i) \<and> (\<forall>a\<in>set (css ! i). in_bucket ks H' D i a)"
    if i: "i < length css" for i
  proof
    have "set (css ! i) \<subseteq> set (concat css)" using nth_mem [OF i] by auto
    with assms(4) have disj: "A \<inter> set (css ! i) = {}" by blast
    have "m_buckets D ! i \<noteq> l" using l(1) assms(3) i dict_repD(1,2) [OF rep] by fastforce
    from dlist_rep_frame [OF dict_repD(7) [OF rep i] this l(2) disj]
    show "dlist_rep (lists H') (m_buckets D ! i) (css ! i)" .
    show "\<forall>a\<in>set (css ! i). in_bucket ks H' D i a"
    proof
      fix a assume a: "a \<in> set (css ! i)"
      with disj step have "m_hashCode H' a = m_hashCode H a" by (auto simp: dict_step_def)
      with dict_repD(8) [OF rep i a] show "in_bucket ks H' D i a" by (simp add: in_bucket_def)
    qed
  qed
  then show ?thesis using rep unfolding dict_rep_def by simp
qed

lemma dict_step_free: "dict_step H H' T A \<Longrightarrow> free_item (lists H) b \<Longrightarrow> b \<notin> A \<Longrightarrow> free_item (lists H') b"
  by (auto simp: dict_step_def intro: local_step_free)

lemma free_not_member:
  assumes "dict_rep ks H T bss" "free_item (lists H) a" shows "a \<notin> set (concat bss)"
proof
  assume "a \<in> set (concat bss)"
  with assms(1) obtain "unat (m_hashCode H a) < length bss" "a \<in> set (bss ! unat (m_hashCode H a))"
    by (rule dict_member)
  with free_item_notin [OF assms(2) dlist_rep_members [OF dict_repD(7) [OF assms(1)]]] show False by blast
qed

section \<open>Insertion and removal\<close>

definition bucket_of :: "'k dict_keys \<Rightarrow> hash_table \<Rightarrow> 'k \<Rightarrow> nat" where
  "bucket_of ks T k = unat (the (m_hashFunc T (getRawKey ks k) (m_numBuckets T)))"

context dict_key_order
begin

lemma hashed:
  assumes "dict_rep ks H T bss" "m_hashFunc T = hash"
  shows "bucket_of ks T k < length bss"
    "m_hashFunc T (getRawKey ks k) (m_numBuckets T) = Some (word_of_nat (bucket_of ks T k))"
proof -
  from hash_total [OF dict_repD(3) [OF assms(1)]] obtain i where
    "hash (getRawKey ks k) (m_numBuckets T) = Some i" "i < m_numBuckets T" by blast
  with assms(2) dict_repD(2) [OF assms(1)] show "bucket_of ks T k < length bss"
    "m_hashFunc T (getRawKey ks k) (m_numBuckets T) = Some (word_of_nat (bucket_of ks T k))"
    by (simp_all add: bucket_of_def word_less_nat_alt)
qed

lemma insert_ok:
  assumes rep: "dict_rep ks H T bss" and h: "m_hashFunc T = hash" and fr: "free_item (lists H) a"
    and room: "Suc (length (concat bss)) < 2 ^ 32"
  defines "i \<equiv> bucket_of ks T (getKey ks a)"
  shows "\<exists>H' T'. HashTable_insert ks H T a = Some (H', T') \<and> dict_rep ks H' T' (bss[i := bss ! i @ [a]]) \<and>
           m_hashFunc T' = hash \<and> m_buckets T' = m_buckets T \<and> dict_step H H' T (insert a (set (bss ! i)))"
proof -
  have i: "i < length bss" and idx: "m_hashFunc T (getRawKey ks (getKey ks a)) (m_numBuckets T) = Some (word_of_nat i)"
    using hashed [OF rep h] by (simp_all add: i_def)
  note b = dict_bucket [OF rep i]
  from dl.put_free [OF dict_repD(7) [OF rep i] fr] obtain s where s:
    "DListT_put (lists H) (m_buckets T ! i) a = Some s" "dlist_rep s (m_buckets T ! i) (bss ! i @ [a])"
    "local_step (lists H) s (m_buckets T ! i) (insert a (set (bss ! i)))" by (auto simp: DListT_put_eq)
  define H' where "H' = \<lparr>lists = s, m_hashCode = (m_hashCode H)(a := word_of_nat i)\<rparr>"
  have notin: "a \<notin> set (concat bss)" using free_not_member [OF rep fr] .
  have len: "length (concat (bss[i := bss ! i @ [a]])) = Suc (length (concat bss))"
    by (simp add: concat_split [OF i])
  have "dict_rep ks H' (T\<lparr>m_numItems := word_of_nat (length (concat (bss[i := bss ! i @ [a]])))\<rparr>) (bss[i := bss ! i @ [a]])"
  proof (rule bucket_update [OF rep i, where A = "insert a (set (bss ! i))"])
    show "\<forall>c\<in>set (bss ! i @ [a]). in_bucket ks H' T i c"
    proof
      fix c assume c: "c \<in> set (bss ! i @ [a])"
      show "in_bucket ks H' T i c"
      proof (cases "c = a")
        case True
        with idx b(2) show ?thesis by (simp add: in_bucket_def H'_def)
      next
        case False
        with c dict_repD(8) [OF rep i, of c] show ?thesis by (simp add: in_bucket_def H'_def)
      qed
    qed
    show "insert a (set (bss ! i)) \<inter> set (bss ! j) = {}" if "j < length bss" "j \<noteq> i" for j
      using bucket_disjoint [OF rep i that(1)] that notin by fastforce
  qed (use s room len in \<open>simp_all add: H'_def\<close>)
  moreover have "HashTable_insert ks H T a = Some (H', T\<lparr>m_numItems := m_numItems T + 1\<rparr>)"
    using idx b s(1) by (simp add: HashTable_insert_def H'_def Let_def)
  moreover have "dict_step H H' T (insert a (set (bss ! i)))"
    using s(3) i dict_repD(1,2) [OF rep] unfolding dict_step_def by (auto simp: H'_def)
  ultimately show ?thesis
    using len h dict_repD(6) [OF rep] by (simp add: add.commute)
qed

end

lemma removeItem_ok:
  assumes rep: "dict_rep ks H T bss" and a: "a \<in> set (concat bss)"
  shows "\<exists>H' T' css. HashTable_removeItem H T a = Some (Some a, H', T') \<and> dict_rep ks H' T' css \<and>
           concat css = remove1 a (concat bss) \<and> m_hashFunc T' = m_hashFunc T \<and> m_buckets T' = m_buckets T \<and>
           free_item (lists H') a \<and> dict_step H H' T (set (concat bss))"
proof -
  define i where "i = unat (m_hashCode H a)"
  from dict_member [OF rep a] have i: "i < length bss" and mem: "a \<in> set (bss ! i)"
    and b: "bucket_at T (m_hashCode H a) = Some (m_buckets T ! i)" by (auto simp: i_def)
  from dl.remove_member [OF dict_repD(7) [OF rep i] mem] obtain s where s:
    "DListT_remove (lists H) (m_buckets T ! i) a = Some (True, s)"
    "dlist_rep s (m_buckets T ! i) (remove1 a (bss ! i))" "free_item s a"
    "local_step (lists H) s (m_buckets T ! i) (set (bss ! i))" by (auto simp: DListT_remove_eq)
  define H' where "H' = H\<lparr>lists := s\<rparr>"
  let ?css = "bss[i := remove1 a (bss ! i)]"
  have sub: "set (bss ! i) \<subseteq> set (concat bss)" using nth_mem [OF i] by auto
  have css: "concat ?css = remove1 a (concat bss)"
    using dict_distinct [OF rep] mem by (simp add: concat_split [OF i] remove1_append) blast
  have len: "length (concat bss) = Suc (length (concat ?css))"
    unfolding css using a length_pos_if_in_set [OF a]
    by (simp only: length_remove1 if_True Suc_pred)
  have "dict_rep ks H' (T\<lparr>m_numItems := word_of_nat (length (concat ?css))\<rparr>) ?css"
  proof (rule bucket_update [OF rep i _ _ _ _ _, where A = "set (bss ! i)"])
    show "\<forall>b\<in>set (remove1 a (bss ! i)). in_bucket ks H' T i b"
      using dict_repD(8) [OF rep i] by (auto simp: in_bucket_def H'_def dest: notin_set_remove1)
    show "set (bss ! i) \<inter> set (bss ! j) = {}" if "j < length bss" "j \<noteq> i" for j
      using bucket_disjoint [OF rep i that(1)] that by blast
    show "length (concat ?css) < 2 ^ 32" using dict_repD(5) [OF rep] len by simp
  qed (use s in \<open>simp_all add: H'_def\<close>)
  moreover have "HashTable_removeItem H T a = Some (Some a, H', T\<lparr>m_numItems := m_numItems T - 1\<rparr>)"
    using b s(1) by (simp add: HashTable_removeItem_def H'_def)
  moreover have "local_step (lists H) s (m_buckets T ! i) (set (concat bss))"
    using s(4) sub by (auto simp: local_step_def)
  then have "dict_step H H' T (set (concat bss))"
    using i dict_repD(1,2) [OF rep] unfolding dict_step_def by (auto simp: H'_def)
  moreover have "m_numItems T - 1 = word_of_nat (length (concat ?css))"
    unfolding dict_repD(6) [OF rep] len by simp
  moreover have "free_item (lists H') a" using s(3) by (simp add: H'_def)
  ultimately show ?thesis using css by auto
qed

section \<open>Search\<close>

lemma hash_find_loop_ok:
  assumes "\<And>x y. keyCompare ks x y = 0 \<longleftrightarrow> x = y" and "links (items s) xs None"
  shows "hash_find_loop ks s k (first_or xs None) = Some (List.find (\<lambda>a. getKey ks a = k) xs)"
  using assms(2)
proof (induction xs)
  case Nil
  then show ?case by (simp add: hash_find_loop.simps)
next
  case (Cons a xs)
  then obtain n where "items s a = Some n" "nextPtr n = first_or xs None" by auto
  with Cons assms(1) show ?case
    by (subst hash_find_loop.simps) (simp add: DListT_next_def heap_simps)
qed

lemma find_append: "List.find P (xs @ ys) = (case List.find P xs of None \<Rightarrow> List.find P ys | Some a \<Rightarrow> Some a)"
  by (induction xs) auto

context dict_key_order
begin

text \<open>Items with a key all sit in the bucket of that key, so the search of one bucket is a search of the table.\<close>

lemma find_ok:
  assumes rep: "dict_rep ks H T bss" and h: "m_hashFunc T = hash"
  shows "HashTable_find ks H T k = Some (List.find (\<lambda>a. getKey ks a = k) (concat bss))"
proof -
  let ?i = "bucket_of ks T k"
  let ?find = "List.find (\<lambda>a. getKey ks a = k)"
  note i = hashed [OF rep h, of k]
  have other: "getKey ks a \<noteq> k" if "j < length bss" "j \<noteq> ?i" "a \<in> set (bss ! j)" for j a
    using dict_repD(8) [OF rep that(1,3)] that(2) by (auto simp: in_bucket_def bucket_of_def)
  have "?find (concat (take ?i bss)) = None"
    unfolding find_None_iff
  proof (rule notI, elim exE conjE)
    fix a assume "a \<in> set (concat (take ?i bss))" and k: "getKey ks a = k"
    then obtain j where "j < ?i" "a \<in> set (bss ! j)" by (auto simp: in_set_conv_nth [of _ "take _ _"])
    with other [of j a] i(1) k show False by simp
  qed
  moreover have "?find (concat (drop (Suc ?i) bss)) = None"
    unfolding find_None_iff
  proof (rule notI, elim exE conjE)
    fix a assume "a \<in> set (concat (drop (Suc ?i) bss))" and k: "getKey ks a = k"
    then obtain j where "j < length bss - Suc ?i" "a \<in> set (bss ! Suc (?i + j))"
      by (auto simp: in_set_conv_nth [of _ "drop _ _"])
    with other [of "Suc (?i + j)" a] k show False by (simp add: less_diff_conv add.commute)
  qed
  ultimately have "?find (concat bss) = ?find (bss ! ?i)"
    by (simp add: concat_split(1) [OF i(1)] find_append split: option.split)
  moreover have "HashTable_find ks H T k = Some (?find (bss ! ?i))"
    using i dict_bucket [OF rep i(1)] dict_repD(7) [OF rep i(1)] hash_find_loop_ok [OF compare_eq]
    by (simp add: HashTable_find_def DListT_first_def heap_simps dlist_rep_def)
  ultimately show ?thesis by simp
qed

end

section \<open>Enumeration\<close>

lemma scan_ok:
  assumes rep: "dict_rep ks H T bss"
  shows "bucket_scan H T i = Some (first_or (concat (drop (unat i) bss)) None)"
proof (induction "unat (m_numBuckets T) - unat i" arbitrary: i)
  case 0
  with dict_repD(2) [OF rep] show ?case
    by (subst bucket_scan.simps) (simp add: word_less_nat_alt)
next
  case (Suc n)
  then have i: "unat i < length bss" "i < m_numBuckets T"
    using dict_repD(2) [OF rep] by (simp_all add: word_less_nat_alt)
  have IH: "bucket_scan H T (i + 1) = Some (first_or (concat (drop (Suc (unat i)) bss)) None)"
    using Suc(1) [of "i + 1"] Suc(2) unat_plus1 [OF i(2)] by simp
  have "concat (drop (unat i) bss) = bss ! unat i @ concat (drop (Suc (unat i)) bss)"
    using i(1) by (simp flip: Cons_nth_drop_Suc)
  moreover have "DListT_first (lists H) (m_buckets T ! unat i) = Some (first_or (bss ! unat i) None)"
    using dict_repD(7) [OF rep i(1)] by (simp add: DListT_first_def heap_simps dlist_rep_def)
  ultimately show ?case
    using i IH dict_bucket [OF rep i(1)] by (subst bucket_scan.simps) (cases "bss ! unat i"; simp)
qed

lemma first_ok:
  assumes rep: "dict_rep ks H T bss"
  shows "HashTable_first H T = Some (first_or (concat bss) None)"
proof (cases "concat bss")
  case Nil
  with dict_repD(6) [OF rep] show ?thesis by (simp add: HashTable_first_def del: concat_eq_Nil_conv)
next
  case (Cons a xs)
  then have "length (concat bss) \<noteq> 0" by simp
  moreover have "unat (m_numItems T) = length (concat bss)"
    unfolding dict_repD(6) [OF rep] using dict_repD(5) [OF rep] by (intro unat_of_nat_small) simp
  ultimately have "m_numItems T \<noteq> 0" by (metis unat_0)
  with scan_ok [OF rep, of 0] show ?thesis by (simp add: HashTable_first_def)
qed

lemma next_ok:
  assumes rep: "dict_rep ks H T bss" and at: "concat bss = us @ a # vs"
  shows "HashTable_next H T a = Some (first_or vs None)"
proof -
  define i where "i = unat (m_hashCode H a)"
  have "a \<in> set (concat bss)" by (simp only: at) simp
  from dict_member [OF rep this] have i: "i < length bss" and mem: "a \<in> set (bss ! i)"
    and b: "bucket_at T (m_hashCode H a) = Some (m_buckets T ! i)" by (auto simp: i_def)
  from mem obtain xs ys where xy: "bss ! i = xs @ a # ys" by (meson split_list)
  have "(concat (take i bss) @ xs) @ a # ys @ concat (drop (Suc i) bss) = us @ a # vs"
    using concat_split(1) [OF i] at xy by simp
  moreover have "distinct ((concat (take i bss) @ xs) @ a # ys @ concat (drop (Suc i) bss))"
    using dict_distinct [OF rep] by (simp only: concat_split(1) [OF i] xy append_assoc append_Cons)
  ultimately have vs: "vs = ys @ concat (drop (Suc i) bss)" using distinct_split_unique by metis
  have nxt: "DListT_next (lists H) a = Some (first_or ys None)"
    by (rule dlist_item [OF dict_repD(7) [OF rep i, unfolded xy]]) (simp add: DListT_next_def heap_simps)
  have "m_hashCode H a < m_numBuckets T"
    using i dict_repD(2) [OF rep] by (simp add: i_def word_less_nat_alt)
  from unat_plus1 [OF this] scan_ok [OF rep, of "m_hashCode H a + 1"]
  have "bucket_scan H T (m_hashCode H a + 1) = Some (first_or (concat (drop (Suc i) bss)) None)"
    by (simp add: i_def)
  with b nxt vs show ?thesis by (cases ys) (simp_all add: HashTable_next_def)
qed

section \<open>Draining and moving\<close>

lemma getFirst_empty:
  "dict_rep ks H T bss \<Longrightarrow> concat bss = [] \<Longrightarrow> Dictionary_getFirst H T = Some (None, H, T)"
  using first_ok [of ks H T bss]
  by (simp add: Dictionary_getFirst_def Dictionary_first_def del: concat_eq_Nil_conv)

lemma getFirst_ok:
  assumes rep: "dict_rep ks H T bss" and ne: "concat bss = a # xs"
  shows "\<exists>H' T' css. Dictionary_getFirst H T = Some (Some a, H', T') \<and> dict_rep ks H' T' css \<and> concat css = xs \<and>
           m_hashFunc T' = m_hashFunc T \<and> m_buckets T' = m_buckets T \<and>
           free_item (lists H') a \<and> dict_step H H' T (set (a # xs))"
  using removeItem_ok [OF rep, of a] first_ok [OF rep] unfolding ne
  by (simp add: Dictionary_getFirst_def Dictionary_first_def)

lemma clear_ok:
  assumes "dict_rep ks H T bss" "dict_rep ks H D css" "set (m_buckets T) \<inter> set (m_buckets D) = {}"
    "set (concat bss) \<inter> set (concat css) = {}"
  shows "\<exists>H' T' dss. Dictionary_clearTheDictionary H T = Some (H', T') \<and> dict_rep ks H' T' dss \<and> concat dss = [] \<and>
           dict_rep ks H' D css \<and> m_hashFunc T' = m_hashFunc T \<and> m_buckets T' = m_buckets T \<and>
           (\<forall>a. a \<in> set (concat bss) \<or> free_item (lists H) a \<longrightarrow> free_item (lists H') a)"
  using assms
proof (induction "concat bss" arbitrary: H T bss)
  case Nil
  then show ?case
    using getFirst_empty [OF Nil(2) Nil(1) [symmetric]]
    by (subst Dictionary_clearTheDictionary.simps) (auto simp: Nil(1) [symmetric] simp del: set_concat concat_eq_Nil_conv)
next
  case (Cons a xs)
  from getFirst_ok [OF Cons(3) Cons(2) [symmetric]] obtain H1 T1 bss1 where s1:
    "Dictionary_getFirst H T = Some (Some a, H1, T1)" "dict_rep ks H1 T1 bss1" "concat bss1 = xs"
    "m_hashFunc T1 = m_hashFunc T" "m_buckets T1 = m_buckets T" "free_item (lists H1) a"
    "dict_step H H1 T (set (a # xs))" by blast
  have "dict_rep ks H1 D css"
    by (rule dict_frame [OF Cons(4) s1(7) Cons(5)]) (use Cons(6) in \<open>simp flip: Cons(2)\<close>)
  moreover have "set (concat bss1) \<inter> set (concat css) = {}"
    using Cons(6) unfolding s1(3) Cons(2) [symmetric] by auto
  ultimately obtain H' T' dss where s': "Dictionary_clearTheDictionary H1 T1 = Some (H', T')"
    "dict_rep ks H' T' dss" "concat dss = []" "dict_rep ks H' D css" "m_hashFunc T' = m_hashFunc T"
    "m_buckets T' = m_buckets T" "\<forall>b. b \<in> set xs \<or> free_item (lists H1) b \<longrightarrow> free_item (lists H') b"
    using Cons(1) [OF s1(3) [symmetric] s1(2)] Cons(5) s1(3-5) by auto
  have "free_item (lists H') b" if "b \<in> set (concat bss) \<or> free_item (lists H) b" for b
  proof (cases "b \<in> set (a # xs)")
    case True
    with s'(7) s1(6) show ?thesis by auto
  next
    case False
    with that dict_step_free [OF s1(7)] s'(7) show ?thesis unfolding Cons(2) [symmetric] by blast
  qed
  with s' s1(1) show ?case by (subst Dictionary_clearTheDictionary.simps) auto
qed

context dict_key_order
begin

lemma move_loop_ok:
  assumes "dict_rep ks H T bss" "dict_rep ks H D css" "set (m_buckets T) \<inter> set (m_buckets D) = {}"
    "set (concat bss) \<inter> set (concat css) = {}" "m_hashFunc D = hash"
    "length (concat bss) + length (concat css) < 2 ^ 32"
  shows "\<exists>H' T' D' bss' css'. Dictionary_move_loop ks H T D = Some (H', T', D') \<and> dict_rep ks H' T' bss' \<and>
           concat bss' = [] \<and> dict_rep ks H' D' css' \<and> set (concat css') = set (concat bss) \<union> set (concat css)"
  using assms
proof (induction "concat bss" arbitrary: H T D bss css)
  case Nil
  then show ?case
    using getFirst_empty [OF Nil(2) Nil(1) [symmetric]]
    by (subst Dictionary_move_loop.simps) (auto simp: Nil(1) [symmetric] simp del: set_concat concat_eq_Nil_conv)
next
  case (Cons a xs)
  from getFirst_ok [OF Cons(3) Cons(2) [symmetric]] obtain H1 T1 bss1 where s1:
    "Dictionary_getFirst H T = Some (Some a, H1, T1)" "dict_rep ks H1 T1 bss1" "concat bss1 = xs"
    "m_buckets T1 = m_buckets T" "free_item (lists H1) a" "dict_step H H1 T (set (a # xs))" by blast
  let ?i = "bucket_of ks D (getKey ks a)"
  let ?css = "css[?i := css ! ?i @ [a]]"
  have d1: "dict_rep ks H1 D css"
    by (rule dict_frame [OF Cons(4) s1(6) Cons(5)]) (use Cons(6) in \<open>simp flip: Cons(2)\<close>)
  note i = hashed(1) [OF d1 Cons(7), of "getKey ks a"]
  have sizes: "length (concat bss) = Suc (length xs)" by (simp flip: Cons(2))
  from insert_ok [OF d1 Cons(7) s1(5)] Cons(8) sizes obtain H2 D1 where s2:
    "HashTable_insert ks H1 D a = Some (H2, D1)" "dict_rep ks H2 D1 ?css"
    "m_hashFunc D1 = hash" "m_buckets D1 = m_buckets D" "dict_step H1 H2 D (insert a (set (css ! ?i)))" by auto
  have items: "set (concat ?css) = insert a (set (concat css))" "length (concat ?css) = Suc (length (concat css))"
    by (auto simp: concat_split [OF i] simp del: set_concat)
  have "a \<notin> set xs" using dict_distinct [OF Cons(3)] by (simp flip: Cons(2))
  moreover have "set (css ! ?i) \<subseteq> set (concat css)" using nth_mem [OF i] by auto
  ultimately have disj: "insert a (set (css ! ?i)) \<inter> set (concat bss1) = {}"
    "set (concat bss1) \<inter> set (concat ?css) = {}"
    using Cons(6) unfolding items s1(3) Cons(2) [symmetric] by auto
  have "dict_rep ks H2 T1 bss1"
    by (rule dict_frame [OF s1(2) s2(5) _ disj(1)]) (use Cons(5) s1(4) in auto)
  from Cons(1) [OF s1(3) [symmetric] this s2(2) _ disj(2) s2(3)] Cons(5,8) s1(3,4) s2(4) items(2) sizes
  obtain H' T' D' bss' css' where
    "Dictionary_move_loop ks H2 T1 D1 = Some (H', T', D')" "dict_rep ks H' T' bss'" "concat bss' = []"
    "dict_rep ks H' D' css'" "set (concat css') = set xs \<union> insert a (set (concat css))"
    unfolding items(1) by auto
  moreover have "set (concat bss) = insert a (set xs)" by (simp flip: Cons(2))
  ultimately show ?case
    using s1(1) s2(1) by (subst Dictionary_move_loop.simps) (auto simp: Dictionary_insert_def simp del: set_concat concat_eq_Nil_conv)
qed

lemma move_ok:
  assumes "dict_rep ks H T bss" "dict_rep ks H D css" "set (m_buckets T) \<inter> set (m_buckets D) = {}"
    "m_hashFunc D = hash" and disj: "set (concat bss) \<inter> set (concat css) = {}"
  shows "\<exists>H' T' D' bss' css'. Dictionary_move ks H T D = Some (H', T', D') \<and> dict_rep ks H' T' bss' \<and>
           concat bss' = [] \<and> dict_rep ks H' D' css' \<and> set (concat css') = set (concat bss)"
proof -
  from assms(3) disj have "set (m_buckets D) \<inter> set (m_buckets T) = {}" "set (concat css) \<inter> set (concat bss) = {}"
    by blast+
  from clear_ok [OF assms(2,1) this] obtain H1 D1 dss where s1:
    "Dictionary_clearTheDictionary H D = Some (H1, D1)" "dict_rep ks H1 D1 dss" "concat dss = []"
    "dict_rep ks H1 T bss" "m_hashFunc D1 = m_hashFunc D" "m_buckets D1 = m_buckets D" by blast
  from move_loop_ok [OF s1(4,2)] s1(3,5,6) assms(3,4) dict_repD(5) [OF assms(1)] show ?thesis
    by (auto simp: Dictionary_move_def s1(1) simp del: set_concat concat_eq_Nil_conv)
qed

end

text \<open>Two dictionaries with different buckets hold different items.\<close>

lemma dict_disjoint:
  assumes "dict_rep ks H T bss" "dict_rep ks H D css" "set (m_buckets T) \<inter> set (m_buckets D) = {}"
  shows "set (concat bss) \<inter> set (concat css) = {}"
proof (rule ccontr)
  assume "\<not> ?thesis"
  then obtain a where a: "a \<in> set (concat bss)" "a \<in> set (concat css)" by blast
  from dict_member [OF assms(1) a(1)] dict_repD(1,2,7) [OF assms(1)] obtain i where
    i: "i < length (m_buckets T)" "dlist_rep (lists H) (m_buckets T ! i) (bss ! i)" "a \<in> set (bss ! i)" by metis
  from dict_member [OF assms(2) a(2)] dict_repD(1,2,7) [OF assms(2)] obtain j where
    j: "j < length (m_buckets D)" "dlist_rep (lists H) (m_buckets D ! j) (css ! j)" "a \<in> set (css ! j)" by metis
  from i(1) j(1) assms(3) have "m_buckets T ! i \<noteq> m_buckets D ! j" by (metis IntI empty_iff nth_mem)
  from dl.rep_disjoint [OF i(2) j(2) this] i(3) j(3) show False by blast
qed

section \<open>Statistics\<close>

lemma count_loop_ok:
  "links (items s) xs None \<Longrightarrow> count_loop s (first_or xs None) n = Some (n + word_of_nat (length xs))"
proof (induction xs arbitrary: n)
  case Nil
  then show ?case by (simp add: count_loop.simps)
next
  case (Cons a xs)
  then obtain m where "items s a = Some m" "nextPtr m = first_or xs None" by auto
  with Cons show ?case
    by (subst count_loop.simps) (simp add: DListT_next_def heap_simps algebra_simps)
qed

fun bucket_stats :: "addr list list \<Rightarrow> table_stats \<Rightarrow> u32 \<Rightarrow> u32 \<Rightarrow> table_stats \<times> u32 \<times> u32" where
  "bucket_stats [] info f n = (info, f, n)"
| "bucket_stats (xs # xss) info f n =
     (if xs = [] then bucket_stats xss info f n
      else bucket_stats xss
             (info\<lparr>stat_numEmptyBuckets := stat_numEmptyBuckets info - 1,
                   stat_max_itemsPerBucket := max (stat_max_itemsPerBucket info) (word_of_nat (length xs))\<rparr>)
             (f + 1) (n + word_of_nat (length xs)))"

lemma stats_loop_ok:
  assumes rep: "dict_rep ks H T bss"
  shows "stats_loop H T i info f n = Some (bucket_stats (drop (unat i) bss) info f n)"
proof (induction "unat (m_numBuckets T) - unat i" arbitrary: i info f n)
  case 0
  with dict_repD(2) [OF rep] show ?case
    by (subst stats_loop.simps) (simp add: word_less_nat_alt)
next
  case (Suc m)
  then have i: "unat i < length bss" "i < m_numBuckets T"
    using dict_repD(2) [OF rep] by (simp_all add: word_less_nat_alt)
  have IH: "stats_loop H T (i + 1) info f n = Some (bucket_stats (drop (Suc (unat i)) bss) info f n)" for info f n
    using Suc(1) [of "i + 1"] Suc(2) unat_plus1 [OF i(2)] by simp
  have "drop (unat i) bss = bss ! unat i # drop (Suc (unat i)) bss"
    using i(1) by (simp add: Cons_nth_drop_Suc)
  moreover have "DListT_first (lists H) (m_buckets T ! unat i) = Some (first_or (bss ! unat i) None)"
    and "links (items (lists H)) (bss ! unat i) None"
    using dict_repD(7) [OF rep i(1)] by (simp_all add: DListT_first_def heap_simps dlist_rep_def)
  ultimately show ?case
    using i IH dict_bucket [OF rep i(1)] count_loop_ok [of "lists H" "bss ! unat i" 0]
    by (subst stats_loop.simps) (cases "bss ! unat i"; auto simp: max_def)
qed

text \<open>The statistics in closed form.\<close>

definition filled :: "addr list list \<Rightarrow> nat" where
  "filled bss = length (filter (\<lambda>xs. xs \<noteq> []) bss)"

definition longest :: "addr list list \<Rightarrow> nat" where
  "longest bss = Max (insert 0 (length ` set bss))"

lemma longest_Cons: "max m (longest (xs # xss)) = max (max m (length xs)) (longest xss)"
proof -
  have "longest (xs # xss) = max (length xs) (longest xss)"
    by (simp add: longest_def insert_commute [of 0] del: insert_iff)
  then show ?thesis by (simp add: max.assoc)
qed

lemma max_of_nat:
  "m < 2 ^ 32 \<Longrightarrow> n < 2 ^ 32 \<Longrightarrow> max (word_of_nat m) (word_of_nat n) = (word_of_nat (max m n) :: u32)"
  by (simp add: max_def word_le_nat_alt unat_of_nat)

lemma bucket_stats_closed:
  "stat_max_itemsPerBucket info = word_of_nat m \<Longrightarrow> m < 2 ^ 32 \<Longrightarrow> \<forall>xs\<in>set xss. length xs < 2 ^ 32 \<Longrightarrow>
   bucket_stats xss info f n =
     (info\<lparr>stat_numEmptyBuckets := stat_numEmptyBuckets info - word_of_nat (filled xss),
           stat_max_itemsPerBucket := word_of_nat (max m (longest xss))\<rparr>,
      f + word_of_nat (filled xss), n + word_of_nat (length (concat xss)))"
proof (induction xss arbitrary: info f n m)
  case Nil
  then show ?case by (simp add: filled_def longest_def)
next
  case (Cons xs xss)
  show ?case
  proof (cases "xs = []")
    case True
    with Cons.prems Cons.IH [of info m] longest_Cons [of m xs xss] show ?thesis by (simp add: filled_def)
  next
    case False
    let ?info = "info\<lparr>stat_numEmptyBuckets := stat_numEmptyBuckets info - 1,
      stat_max_itemsPerBucket := word_of_nat (max m (length xs))\<rparr>"
    have "bucket_stats (xs # xss) info f n = bucket_stats xss ?info (f + 1) (n + word_of_nat (length xs))"
      using False Cons.prems by (simp add: max_of_nat)
    also have "\<dots> = (info\<lparr>stat_numEmptyBuckets := stat_numEmptyBuckets info - word_of_nat (filled (xs # xss)),
        stat_max_itemsPerBucket := word_of_nat (max (max m (length xs)) (longest xss))\<rparr>,
        f + word_of_nat (filled (xs # xss)), n + word_of_nat (length (concat (xs # xss))))"
      using False Cons.prems by (subst Cons.IH [of _ "max m (length xs)"]) (simp_all add: filled_def algebra_simps)
    finally show ?thesis by (simp only: longest_Cons)
  qed
qed

lemma filled_le: "filled bss \<le> length bss"
  by (simp add: filled_def)

lemma tableStats_ok:
  assumes rep: "dict_rep ks H T bss"
  shows "HashTable_tableStats dround H T = Some
    \<lparr>stat_numItems = word_of_nat (length (concat bss)), stat_numBuckets = m_numBuckets T,
     stat_numEmptyBuckets = word_of_nat (length bss - filled bss),
     stat_average_itemsPerBucket =
       (if concat bss = [] then 0 else dround (of_nat (length (concat bss)) / of_nat (filled bss))),
     stat_max_itemsPerBucket = word_of_nat (longest bss)\<rparr>"
proof -
  have n: "m_numBuckets T = word_of_nat (length bss)" using dict_repD(2) [OF rep] by simp
  have items: "unat (m_numItems T) = length (concat bss)"
    unfolding dict_repD(6) [OF rep] using dict_repD(5) [OF rep] by (intro unat_of_nat_small) simp
  show ?thesis
  proof (cases "concat bss")
    case Nil
    then have "filled bss = 0" "longest bss = 0"
      by (auto simp: filled_def longest_def intro!: Max_eqI)
    with Nil n dict_repD(6) [OF rep] show ?thesis by (simp add: HashTable_tableStats_def del: concat_eq_Nil_conv)
  next
    case (Cons a as)
    then have ne: "concat bss \<noteq> []" "m_numItems T \<noteq> 0" using items by (auto simp del: concat_eq_Nil_conv)
    have "length xs < 2 ^ 32" if "xs \<in> set bss" for xs
      using that dict_repD(5) [OF rep] by (auto dest!: split_list)
    moreover have "unat (word_of_nat (filled bss) :: u32) = filled bss"
      using filled_le [of bss] dict_repD(2) [OF rep] unat_of_nat_below by metis
    ultimately show ?thesis
      using ne(2) n items dict_repD(6) [OF rep] filled_le [of bss] stats_loop_ok [OF rep, of 0]
      unfolding HashTable_tableStats_def if_not_P [OF ne(1)]
      by (simp add: bucket_stats_closed [where m = 0] Let_def del: of_nat_unat)
  qed
qed

end
