(* ===== verification/Dictionary_Spec.thy ===== *)
theory Dictionary_Spec
  imports Hash_Laws
begin

text \<open>
  The dictionary as a finite map: the abstract specification of \<^verbatim>\<open>src/src/Cpl/Container/Dictionary.h\<close>, the
  refinement of it by the hash table, and the properties of the component.
\<close>

section \<open>Specification\<close>

text \<open>
  The abstract state is the map from keys to items and the set of items that are in no container.  A client
  inserts items that are free and whose key is not in use, and removes items that are in the dictionary;
  an operation outside these rules has no abstract result.
\<close>

datatype 'k dict_op = D_insert addr | D_remove 'k | D_removeItem addr | D_find 'k

datatype dict_res = D_done | D_ptr ptr | D_bool bool

fun dict_spec ::
    "'k dict_keys \<Rightarrow> addr set \<times> ('k \<rightharpoonup> addr) \<Rightarrow> 'k dict_op \<Rightarrow> (dict_res \<times> addr set \<times> ('k \<rightharpoonup> addr)) option" where
  "dict_spec ks (F, m) (D_insert a) =
     (if a \<in> F \<and> m (getKey ks a) = None then Some (D_done, F - {a}, m(getKey ks a \<mapsto> a)) else None)"
| "dict_spec ks (F, m) (D_remove k) = Some (D_ptr (m k), F \<union> set_option (m k), m(k := None))"
| "dict_spec ks (F, m) (D_removeItem a) =
     (if m (getKey ks a) = Some a then Some (D_bool True, insert a F, m(getKey ks a := None)) else None)"
| "dict_spec ks (F, m) (D_find k) = Some (D_ptr (m k), F, m)"

fun dict_run ::
    "'k dict_keys \<Rightarrow> dict_store \<times> hash_table \<Rightarrow> 'k dict_op \<Rightarrow> (dict_res \<times> dict_store \<times> hash_table) option" where
  "dict_run ks (H, T) (D_insert a) = map_option (Pair D_done) (Dictionary_insert ks H T a)"
| "dict_run ks (H, T) (D_remove k) = map_option (apfst D_ptr) (Dictionary_remove ks H T k)"
| "dict_run ks (H, T) (D_removeItem a) = map_option (apfst D_bool) (Dictionary_removeItem H T a)"
| "dict_run ks (H, T) (D_find k) = map_option (\<lambda>p. (D_ptr p, H, T)) (Dictionary_find ks H T k)"

fun run_all :: "('s \<Rightarrow> 'c \<Rightarrow> ('r \<times> 's) option) \<Rightarrow> 's \<Rightarrow> 'c list \<Rightarrow> ('r list \<times> 's) option" where
  "run_all f s [] = Some ([], s)"
| "run_all f s (c # cs) = do {
     (r, s1) \<leftarrow> f s c;
     (rs, s2) \<leftarrow> run_all f s1 cs;
     Some (r # rs, s2)
   }"

section \<open>Simulation\<close>

definition dict_map :: "'k dict_keys \<Rightarrow> addr list \<Rightarrow> 'k \<rightharpoonup> addr" where
  "dict_map ks xs k = List.find (\<lambda>a. getKey ks a = k) xs"

definition key_unique :: "'k dict_keys \<Rightarrow> addr list \<Rightarrow> bool" where
  "key_unique ks xs \<longleftrightarrow> distinct xs \<and> inj_on (getKey ks) (set xs)"

lemma dict_map_iff:
  assumes "key_unique ks xs"
  shows "dict_map ks xs k = Some a \<longleftrightarrow> a \<in> set xs \<and> getKey ks a = k"
    and "dict_map ks xs k = None \<longleftrightarrow> (\<forall>a\<in>set xs. getKey ks a \<noteq> k)"
proof -
  show "dict_map ks xs k = Some a \<longleftrightarrow> a \<in> set xs \<and> getKey ks a = k"
  proof
    assume r: "a \<in> set xs \<and> getKey ks a = k"
    then have "dict_map ks xs k \<noteq> None" by (auto simp: dict_map_def find_None_iff)
    then obtain b where b: "dict_map ks xs k = Some b" by blast
    then have "b \<in> set xs \<and> getKey ks b = k" by (auto simp: dict_map_def find_Some_iff)
    with r assms have "b = a" by (auto simp: key_unique_def inj_on_def)
    with b show "dict_map ks xs k = Some a" by simp
  qed (auto simp: dict_map_def find_Some_iff)
qed (auto simp: dict_map_def find_None_iff)

text \<open>The map depends on the set of items only, not on their order in the buckets.\<close>

lemma dict_map_eqI:
  assumes "key_unique ks xs" "\<And>k a. m k = Some a \<longleftrightarrow> a \<in> set xs \<and> getKey ks a = k"
  shows "dict_map ks xs = m"
proof
  fix k show "dict_map ks xs k = m k"
    using assms(2) dict_map_iff(1) [OF assms(1)] by (metis option.exhaust)
qed

lemma key_unique_remove1: "key_unique ks xs \<Longrightarrow> key_unique ks (remove1 a xs)"
  by (auto simp: key_unique_def intro: inj_on_subset)

lemma dict_map_remove:
  assumes "key_unique ks xs" "a \<in> set xs"
  shows "dict_map ks (remove1 a xs) = (dict_map ks xs)(getKey ks a := None)"
proof (rule dict_map_eqI [OF key_unique_remove1 [OF assms(1)]])
  fix k b
  show "((dict_map ks xs)(getKey ks a := None)) k = Some b \<longleftrightarrow> b \<in> set (remove1 a xs) \<and> getKey ks b = k"
    using assms dict_map_iff(1) [OF assms(1)] by (auto simp: key_unique_def inj_on_def)
qed

lemma dict_map_insert:
  assumes "key_unique ks xs" "a \<notin> set xs" "dict_map ks xs (getKey ks a) = None"
    and "distinct ys" "set ys = insert a (set xs)"
  shows "key_unique ks ys" "dict_map ks ys = (dict_map ks xs)(getKey ks a \<mapsto> a)"
proof -
  have fresh: "\<forall>b\<in>set xs. getKey ks b \<noteq> getKey ks a" using assms(3) dict_map_iff(2) [OF assms(1)] by blast
  with assms show u: "key_unique ks ys" by (auto simp: key_unique_def inj_on_def)
  show "dict_map ks ys = (dict_map ks xs)(getKey ks a \<mapsto> a)"
    by (rule dict_map_eqI [OF u]) (use assms fresh in \<open>auto simp: dict_map_iff(1) [OF assms(1)]\<close>)
qed

definition dict_sim ::
    "'k dict_keys \<Rightarrow> (bytes \<Rightarrow> u32 \<Rightarrow> u32 option) \<Rightarrow> addr set \<times> ('k \<rightharpoonup> addr) \<Rightarrow> dict_store \<times> hash_table \<Rightarrow> bool" where
  "dict_sim ks hash S C \<longleftrightarrow>
     (\<exists>bss. dict_rep ks (fst C) (snd C) bss \<and> key_unique ks (concat bss) \<and>
        dict_map ks (concat bss) = snd S \<and> (\<forall>a\<in>fst S. free_item (lists (fst C)) a) \<and>
        finite (fst S) \<and> card (fst S) + length (concat bss) < 2 ^ 32 \<and> m_hashFunc (snd C) = hash)"

lemma concat_insert:
  assumes "i < length bss"
  shows "set (concat (bss[i := bss ! i @ [a]])) = insert a (set (concat bss))"
    "length (concat (bss[i := bss ! i @ [a]])) = Suc (length (concat bss))"
  by (auto simp: concat_split [OF assms] simp del: set_concat)

lemma dict_remove_sim:
  assumes rep: "dict_rep ks H T bss" and "key_unique ks (concat bss)" "\<forall>a\<in>F. free_item (lists H) a" "finite F"
    "card F + length (concat bss) < 2 ^ 32" and a: "a \<in> set (concat bss)"
  shows "\<exists>H' T'. HashTable_removeItem H T a = Some (Some a, H', T') \<and>
           dict_sim ks (m_hashFunc T) (insert a F, (dict_map ks (concat bss))(getKey ks a := None)) (H', T')"
proof -
  from removeItem_ok [OF rep a] obtain H' T' css where r: "HashTable_removeItem H T a = Some (Some a, H', T')"
    "dict_rep ks H' T' css" "concat css = remove1 a (concat bss)" "m_hashFunc T' = m_hashFunc T"
    "free_item (lists H') a" "dict_step H H' T (set (concat bss))" by blast
  have "b \<notin> set (concat bss)" if "b \<in> F" for b
    using free_not_member [OF rep] assms(3) that by blast
  then have "\<forall>b\<in>insert a F. free_item (lists H') b"
    using r(5) dict_step_free [OF r(6)] assms(3) by blast
  moreover have "length (concat bss) = Suc (length (concat css))"
    using r(3) a length_pos_if_in_set [OF a] by (simp only: length_remove1 if_True Suc_pred)
  then have "card (insert a F) + length (concat css) < 2 ^ 32"
    using assms(4,5) card_insert_le_m1 [of "Suc (card F)" F a] by simp
  ultimately show ?thesis
    using r assms(2,4) a key_unique_remove1 [OF assms(2), of a] dict_map_remove [OF assms(2) a]
    by (auto simp: dict_sim_def simp del: set_concat)
qed

context dict_key_order
begin

lemma step_sim:
  assumes sim: "dict_sim ks hash (F, m) (H, T)" and spec: "dict_spec ks (F, m) c = Some (r, S')"
  shows "\<exists>C'. dict_run ks (H, T) c = Some (r, C') \<and> dict_sim ks hash S' C'"
proof -
  from sim obtain bss where rep: "dict_rep ks H T bss" and u: "key_unique ks (concat bss)"
    and m: "dict_map ks (concat bss) = m" and fr: "\<forall>a\<in>F. free_item (lists H) a" "finite F"
    and size: "card F + length (concat bss) < 2 ^ 32" and h: "m_hashFunc T = hash"
    by (auto simp: dict_sim_def)
  note find = find_ok [OF rep h, folded dict_map_def, unfolded m]
  show ?thesis
  proof (cases c)
    case (D_insert a)
    with spec have a: "a \<in> F" "m (getKey ks a) = None" and S': "r = D_done" "S' = (F - {a}, m(getKey ks a \<mapsto> a))"
      by (auto split: if_splits)
    let ?i = "bucket_of ks T (getKey ks a)"
    note i = hashed(1) [OF rep h, of "getKey ks a"]
    have "card F \<noteq> 0" using a(1) fr(2) by auto
    with size have "Suc (length (concat bss)) < 2 ^ 32" by linarith
    from insert_ok [OF rep h fr(1) [rule_format, OF a(1)] this] obtain H' T' where r:
      "HashTable_insert ks H T a = Some (H', T')" "dict_rep ks H' T' (bss[?i := bss ! ?i @ [a]])"
      "m_hashFunc T' = hash" "dict_step H H' T (insert a (set (bss ! ?i)))" by blast
    note ins = concat_insert [OF i, of a]
    have notin: "b \<notin> set (concat bss)" if "b \<in> F" for b using free_not_member [OF rep] fr(1) that by blast
    moreover have "set (bss ! ?i) \<subseteq> set (concat bss)" using nth_mem [OF i] by auto
    ultimately have "\<forall>b\<in>F - {a}. free_item (lists H') b"
      using dict_step_free [OF r(4)] fr(1) by blast
    moreover have "card (F - {a}) + length (concat (bss[?i := bss ! ?i @ [a]])) < 2 ^ 32"
      using size card.remove [OF fr(2) a(1)] unfolding ins(2) by simp
    ultimately show ?thesis
      using r(1-3) dict_map_insert [OF u notin [OF a(1)] _ dict_distinct [OF r(2)] ins(1)] m a(2) fr(2)
      unfolding D_insert S' dict_sim_def by (auto simp: Dictionary_insert_def simp del: set_concat)
  next
    case (D_remove k)
    show ?thesis
    proof (cases "m k")
      case None
      with D_remove spec find sim show ?thesis
        by (auto simp: Dictionary_remove_def Dictionary_find_def fun_upd_idem)
    next
      case (Some a)
      with m dict_map_iff(1) [OF u] have a: "a \<in> set (concat bss)" "getKey ks a = k" by auto
      from dict_remove_sim [OF rep u fr size a(1)] a(2) m h D_remove spec find Some show ?thesis
        by (auto simp: Dictionary_remove_def Dictionary_find_def)
    qed
  next
    case (D_removeItem a)
    with spec have a: "m (getKey ks a) = Some a"
      and S': "r = D_bool True" "S' = (insert a F, m(getKey ks a := None))" by (auto split: if_splits)
    from a m dict_map_iff(1) [OF u] have "a \<in> set (concat bss)" by auto
    from dict_remove_sim [OF rep u fr size this] obtain H' T' where
      "HashTable_removeItem H T a = Some (Some a, H', T')" "dict_sim ks hash S' (H', T')"
      by (auto simp: m h S')
    then show ?thesis unfolding D_removeItem S'(1) by (simp add: Dictionary_removeItem_def)
  next
    case (D_find k)
    with spec find sim show ?thesis by (auto simp: Dictionary_find_def)
  qed
qed

lemma run_sim:
  "dict_sim ks hash S C \<Longrightarrow> run_all (dict_spec ks) S cs = Some (rs, S') \<Longrightarrow>
   \<exists>C'. run_all (dict_run ks) C cs = Some (rs, C') \<and> dict_sim ks hash S' C'"
proof (induction cs arbitrary: S C rs)
  case (Cons c cs)
  from Cons.prems(2) obtain r S1 rs1 where c: "dict_spec ks S c = Some (r, S1)"
    "run_all (dict_spec ks) S1 cs = Some (rs1, S')" "rs = r # rs1" by (auto simp: bind_eq_Some_conv)
  from step_sim [of "fst S" "snd S" "fst C" "snd C" c r S1] Cons.prems(1) c(1) obtain C1 where
    "dict_run ks C c = Some (r, C1)" "dict_sim ks hash S1 C1" by auto
  moreover with Cons.IH [OF _ c(2)] obtain C' where
    "run_all (dict_run ks) C1 cs = Some (rs1, C')" "dict_sim ks hash S' C'" by blast
  ultimately show ?case using c(3) by (intro exI [of _ C']) simp
qed auto

end

section \<open>A sample dictionary\<close>

text \<open>
  Two dictionaries with three and one buckets, both empty, and four free items; the key of an item is its
  address.  The keys 1 and 4 share a bucket of the first.
\<close>

definition sample_dicts :: dict_store where
  "sample_dicts = \<lparr>
     lists = \<lparr>
       items = (\<lambda>a. if a \<in> {1, 2, 3, 4} then Some \<lparr>containerPtr = None, nextPtr = None, prevPtr = None\<rparr> else None),
       hdrs = (\<lambda>l. if l \<in> {20, 21, 22, 30} then Some DListT else None)\<rparr>,
     m_hashCode = (\<lambda>_. 0)\<rparr>"

definition sample_keys32 :: "u32 dict_keys" where
  "sample_keys32 = plain_keys word_of_nat"

lemma sample_dict_items:
  "items (lists sample_dicts) a =
     (if a \<in> {1, 2, 3, 4} then Some \<lparr>containerPtr = None, nextPtr = None, prevPtr = None\<rparr> else None)"
  by (simp add: sample_dicts_def)

lemma sample_lists: "l \<in> {20, 21, 22, 30} \<Longrightarrow> dlist_rep (lists sample_dicts) l []"
  by (auto simp: dlist_rep_def members_def contained_def sample_dicts_def DListT_def split: if_splits)

lemma sample_dict3: "dict_rep ks sample_dicts (HashTable [20, 21, 22] 3) [[], [], []]"
  by (auto simp: dict_rep_def HashTable_def sample_lists nth_Cons less_Suc_eq split: nat.split)

lemma sample_dict1: "dict_rep ks sample_dicts (HashTable [30] 1) [[]]"
  by (auto simp: dict_rep_def HashTable_def sample_lists)

lemma sample_sim:
  "dict_sim sample_keys32 HashTable_hashKey ({1, 2, 3, 4}, Map.empty) (sample_dicts, HashTable [20, 21, 22] 3)"
  unfolding dict_sim_def
  by (rule exI [of _ "[[], [], []]"])
    (use sample_dict3 in \<open>auto simp: key_unique_def dict_map_def fun_eq_iff free_item_def HashTable_def sample_dict_items\<close>)

text \<open>Two dictionaries with one bucket each over the sample lists: every key hashes to the only bucket.\<close>

lemma sample_full:
  "dict_rep ks \<lparr>lists = sample_store, m_hashCode = (\<lambda>_. 0)\<rparr> ((HashTable [10] 1)\<lparr>m_numItems := 2\<rparr>) [[1, 2]]"
  "dict_rep ks \<lparr>lists = sample_store, m_hashCode = (\<lambda>_. 0)\<rparr> ((HashTable [11] 1)\<lparr>m_numItems := 1\<rparr>) [[3]]"
  using sample_dlist by (simp_all add: dict_rep_def HashTable_def in_bucket_def HashTable_hashKey_def)

section \<open>Properties\<close>

text \<open>
  C38. The hash table implements a finite map.  For every hash function that returns an index below the number of
  buckets and every class of keys whose comparison is zero on equal keys only, every sequence of \<open>insert\<close>, \<open>find\<close>,
  \<open>remove\<close> and \<open>removeItem\<close> in which only free items with a key that is not in use are inserted and only
  items of the dictionary are given to \<open>removeItem\<close>, with fewer than 2 to the power of 32 items in all, runs
  without a fault and returns what the map returns, and the table represents the map afterwards; collisions of keys
  in a bucket never show.
\<close>
theorem dictionary_refines_map:
  assumes "dict_key_order hash ks" and "dict_sim ks hash S C"
    and "run_all (dict_spec ks) S cs = Some (rs, S')"
  shows "\<exists>C'. run_all (dict_run ks) C cs = Some (rs, C') \<and> dict_sim ks hash S' C'"
  using dict_key_order.run_sim [OF assms] .

theorem dictionary_refines_map_witness:
  "\<exists>C'. run_all (dict_run sample_keys32) (sample_dicts, HashTable [20, 21, 22] 3)
          [D_insert 1, D_insert 4, D_find 4, D_remove 1, D_find 1, D_removeItem 4, D_find 4] =
        Some ([D_done, D_done, D_ptr (Some 4), D_ptr (Some 1), D_ptr None, D_bool True, D_ptr None], C')"
proof -
  have order: "dict_key_order HashTable_hashKey sample_keys32"
    unfolding sample_keys32_def by (rule plain_dict.dict_key_order_axioms)
  have "run_all (dict_spec sample_keys32) ({1, 2, 3, 4}, Map.empty)
      [D_insert 1, D_insert 4, D_find 4, D_remove 1, D_find 1, D_removeItem 4, D_find 4] =
      Some ([D_done, D_done, D_ptr (Some 4), D_ptr (Some 1), D_ptr None, D_bool True, D_ptr None],
        {1, 2, 3, 4}, Map.empty)"
    by (auto simp: sample_keys32_def plain_keys_def)
  from dictionary_refines_map [OF order sample_sim this] show ?thesis by blast
qed

text \<open>
  \<open>move\<close> between two dictionaries with buckets of their own terminates and never faults: the source is
  empty afterwards and the destination, which may have a different number of buckets, holds exactly the items the
  source held, each in the bucket its key hashes to there, so that every one of them is found again.
\<close>
theorem dictionary_move_transfers:
  assumes "dict_key_order (m_hashFunc dst) ks" and "dict_rep ks H src bss" and "dict_rep ks H dst css"
    and "set (m_buckets src) \<inter> set (m_buckets dst) = {}"
  shows "\<exists>H' src' dst' css'. Dictionary_move ks H src dst = Some (H', src', dst') \<and>
           Dictionary_first H' src' = Some None \<and> dict_rep ks H' dst' css' \<and>
           set (concat css') = set (concat bss)"
proof -
  from dict_key_order.move_ok [OF assms refl dict_disjoint [OF assms(2-4)]] obtain H' T' D' bss' css' where
    "Dictionary_move ks H src dst = Some (H', T', D')" "dict_rep ks H' T' bss'" "concat bss' = []"
    "dict_rep ks H' D' css'" "set (concat css') = set (concat bss)" by blast
  with first_ok show ?thesis by (fastforce simp: Dictionary_first_def simp del: concat_eq_Nil_conv)
qed

theorem dictionary_move_transfers_witness:
  "\<exists>H' src' dst' css'. Dictionary_move sample_keys32 \<lparr>lists = sample_store, m_hashCode = (\<lambda>_. 0)\<rparr>
       ((HashTable [10] 1)\<lparr>m_numItems := 2\<rparr>) ((HashTable [11] 1)\<lparr>m_numItems := 1\<rparr>) = Some (H', src', dst') \<and>
     Dictionary_first H' src' = Some None \<and> dict_rep sample_keys32 H' dst' css' \<and> set (concat css') = {1, 2}"
proof -
  have order: "dict_key_order (m_hashFunc ((HashTable [11] 1)\<lparr>m_numItems := 1\<rparr>)) sample_keys32"
    unfolding sample_keys32_def HashTable_def by (simp add: plain_dict.dict_key_order_axioms)
  from dictionary_move_transfers [OF order sample_full] show ?thesis by (simp add: HashTable_def)
qed

text \<open>
  Iterating from \<open>first\<close> with \<open>next\<close> visits every item of the dictionary exactly once, bucket by bucket.
\<close>
theorem dictionary_enumeration:
  assumes "dict_rep ks H T bss"
  shows "distinct (concat bss)" and "Dictionary_first H T = Some (first_or (concat bss) None)"
    and "i < length (concat bss) \<Longrightarrow>
           Dictionary_next H T (concat bss ! i) = Some (first_or (drop (Suc i) (concat bss)) None)"
  using dict_distinct [OF assms] first_ok [OF assms] next_ok [OF assms id_take_nth_drop]
  by (simp_all add: Dictionary_first_def Dictionary_next_def)

text \<open>The default hash function uses the low 28 bits of a word only.\<close>

theorem default_hash_28_bits: "unat (hash_loop 0 cs) < 2 ^ 28"
  by (rule hash_loop_bound) simp

text \<open>
  \<open>isInDictionary\<close> compares the container of the item with the dictionary, while the item records its bucket: it
  is false for every item of the dictionary.
\<close>
theorem isInDictionary_never:
  assumes "dict_rep ks H T bss" "a \<in> set (concat bss)" "this \<notin> set (m_buckets T)"
  shows "Dictionary_isInDictionary H this a = Some False"
proof -
  define i where "i = unat (m_hashCode H a)"
  from dict_member [OF assms(1,2)] have i: "i < length bss" "a \<in> set (bss ! i)" by (auto simp: i_def)
  from dlist_alloc [OF dict_repD(7) [OF assms(1) i(1)] i(2)] obtain n where
    "items (lists H) a = Some n" "containerPtr n = Some (m_buckets T ! i)" by blast
  moreover have "m_buckets T ! i \<noteq> this" using i(1) dict_repD(1,2) [OF assms(1)] assms(3) by fastforce
  ultimately show ?thesis
    by (simp add: Dictionary_isInDictionary_def ItemT_isInContainer_def heap_simps)
qed

text \<open>
  \<open>removeItem\<close> trusts the hash code an item got in the dictionary that held it last: in a dictionary with fewer
  buckets it indexes past the array.
\<close>
theorem removeItem_stale_code:
  "length (m_buckets T) \<le> unat (m_hashCode H a) \<Longrightarrow> Dictionary_removeItem H T a = None"
  by (simp add: Dictionary_removeItem_def HashTable_removeItem_def bucket_at_def)

end
