(* ===== verification/Memory_Pool.thy ===== *)
theory Memory_Pool
  imports Cxx_Lists
begin

text \<open>
  The allocators of \<^verbatim>\<open>src/src/Cpl/Memory\<close>: the pool of fixed size blocks (\<^verbatim>\<open>Pool_.cpp\<close>, \<^verbatim>\<open>SPool.h\<close>) and the heap that
  is only allocated from (\<^verbatim>\<open>LeanHeap.cpp\<close>).  A fatal error stops the application (\<^verbatim>\<open>FatalError.h\<close>); it is the
  outcome \<open>Stopped\<close>.  A \<^verbatim>\<open>size_t\<close> has the 32 bits of the target.
\<close>

section \<open>The pool (\<^verbatim>\<open>Pool_.cpp\<close>)\<close>

datatype 'a outcome = Returned 'a | Stopped

record pool_store =
  pool_lists :: store
  m_blockPtr :: "addr \<Rightarrow> ptr"

record mem_pool =
  m_freeList :: addr
  m_allocatedList :: addr
  m_blockSize :: u32
  m_alignedBlockSize :: u32
  m_fatalErrors :: bool

text \<open>
  The constructor: \<open>infoBlocks\<close> and \<open>arrayOfBlocks\<close> are the arrays of the caller, \<open>infoBlocks\<close> as the addresses of its
  elements; the two lists are members, constructed empty before the body runs.
\<close>

fun pool_fill :: "pool_store \<Rightarrow> mem_pool \<Rightarrow> addr list \<Rightarrow> addr \<Rightarrow> nat \<Rightarrow> pool_store option" where
  "pool_fill H P infoBlocks blockPtr 0 = Some H"
| "pool_fill H P [] blockPtr (Suc n) = None"
| "pool_fill H P (info # infoBlocks) blockPtr (Suc n) = do {
     let H1 = H\<lparr>m_blockPtr := (m_blockPtr H)(info := Some blockPtr)\<rparr>;
     s \<leftarrow> DListT_put (pool_lists H1) (m_freeList P) info;
     pool_fill (H1\<lparr>pool_lists := s\<rparr>) P infoBlocks (blockPtr + unat (m_alignedBlockSize P)) n
   }"

definition Pool_new :: "pool_store \<Rightarrow> mem_pool \<Rightarrow> (addr list) option \<Rightarrow> u32 \<Rightarrow> ptr \<Rightarrow> pool_store outcome option" where
  "Pool_new H P infoBlocks numBlocks arrayOfBlocks =
     (case infoBlocks of
        None \<Rightarrow> Some Stopped
      | Some infos \<Rightarrow>
          (case arrayOfBlocks of
             None \<Rightarrow> Some Stopped
           | Some blocks \<Rightarrow> map_option Returned (pool_fill H P infos blocks (unat numBlocks))))"

definition Pool_wordSize :: "mem_pool \<Rightarrow> u32" where
  "Pool_wordSize P = m_alignedBlockSize P"

definition Pool_allocate :: "pool_store \<Rightarrow> mem_pool \<Rightarrow> u32 \<Rightarrow> (ptr \<times> pool_store) outcome option" where
  "Pool_allocate H P numbytes =
     (if numbytes > m_blockSize P then
        (if m_fatalErrors P then Some Stopped else Some (Returned (None, H)))
      else do {
        (infoPtr, s) \<leftarrow> DListT_get (pool_lists H) (m_freeList P);
        case infoPtr of
          Some info \<Rightarrow> do {
            s2 \<leftarrow> DListT_put s (m_allocatedList P) info;
            Some (Returned (m_blockPtr H info, H\<lparr>pool_lists := s2\<rparr>))
          }
        | None \<Rightarrow> if m_fatalErrors P then Some Stopped else Some (Returned (None, H\<lparr>pool_lists := s\<rparr>))
      })"

text \<open>
  The search of the allocated list; its loop leaves the function from its body, with the block it found.
\<close>

partial_function (option) release_search :: "pool_store \<Rightarrow> addr \<Rightarrow> ptr \<Rightarrow> ptr option" where
  "release_search H p infoPtr =
     (case infoPtr of
        None \<Rightarrow> Some None
      | Some info \<Rightarrow>
          if m_blockPtr H info = Some p then Some (Some info)
          else do {
            n \<leftarrow> DListT_next (pool_lists H) info;
            release_search H p n
          })"

definition Pool_release :: "pool_store \<Rightarrow> mem_pool \<Rightarrow> ptr \<Rightarrow> pool_store outcome option" where
  "Pool_release H P ptr =
     (case ptr of
        None \<Rightarrow> Some (Returned H)
      | Some p \<Rightarrow> do {
          infoPtr \<leftarrow> DListT_first (pool_lists H) (m_allocatedList P);
          found \<leftarrow> release_search H p infoPtr;
          case found of
            Some info \<Rightarrow> do {
              (ok, s) \<leftarrow> DListT_remove (pool_lists H) (m_allocatedList P) info;
              s2 \<leftarrow> DListT_put s (m_freeList P) info;
              Some (Returned (H\<lparr>pool_lists := s2\<rparr>))
            }
          | None \<Rightarrow> Some Stopped
        })"

text \<open>The static pool forwards to the pool it contains.\<close>

definition SPool_allocate :: "pool_store \<Rightarrow> mem_pool \<Rightarrow> u32 \<Rightarrow> (ptr \<times> pool_store) outcome option" where
  "SPool_allocate H m_pool numbytes = Pool_allocate H m_pool numbytes"

definition SPool_release :: "pool_store \<Rightarrow> mem_pool \<Rightarrow> ptr \<Rightarrow> pool_store outcome option" where
  "SPool_release H m_pool ptr = Pool_release H m_pool ptr"

section \<open>The lean heap (\<^verbatim>\<open>LeanHeap.cpp\<close>)\<close>

record lean_heap =
  m_ptrBase :: addr
  m_staringHeapSize :: u32
  m_ptr :: addr
  m_wordsRemaining :: u32

definition BYTES_TO_WORDS :: "u32 \<Rightarrow> u32" where
  "BYTES_TO_WORDS n = (n + (4 - 1)) div 4"

definition mem_zero :: "(addr \<Rightarrow> u8) \<Rightarrow> addr \<Rightarrow> nat \<Rightarrow> addr \<Rightarrow> u8" where
  "mem_zero mem p n = (\<lambda>a. if p \<le> a \<and> a < p + n then 0 else mem a)"

definition LeanHeap :: "(addr \<Rightarrow> u8) \<Rightarrow> addr \<Rightarrow> u32 \<Rightarrow> (lean_heap \<times> (addr \<Rightarrow> u8)) outcome" where
  "LeanHeap mem heapMemory sizeInBytes =
     (let L = \<lparr>m_ptrBase = heapMemory, m_staringHeapSize = BYTES_TO_WORDS sizeInBytes,
               m_ptr = heapMemory, m_wordsRemaining = BYTES_TO_WORDS sizeInBytes\<rparr>
      in if \<not> m_wordsRemaining L * 4 \<le> sizeInBytes then Stopped
         else Returned (L, mem_zero mem (m_ptr L) (unat sizeInBytes)))"

definition LeanHeap_allocate :: "lean_heap \<Rightarrow> u32 \<Rightarrow> ptr \<times> lean_heap" where
  "LeanHeap_allocate L numbytes =
     (let numWords = BYTES_TO_WORDS numbytes
      in if numWords > m_wordsRemaining L then (None, L)
         else (Some (m_ptr L), L\<lparr>m_wordsRemaining := m_wordsRemaining L - numWords,
                                 m_ptr := m_ptr L + 4 * unat numWords\<rparr>))"

definition LeanHeap_reset :: "(addr \<Rightarrow> u8) \<Rightarrow> lean_heap \<Rightarrow> lean_heap \<times> (addr \<Rightarrow> u8)" where
  "LeanHeap_reset mem L =
     (let L1 = L\<lparr>m_wordsRemaining := m_staringHeapSize L, m_ptr := m_ptrBase L\<rparr>
      in (L1, mem_zero mem (m_ptr L1) (unat (m_staringHeapSize L1 * 4))))"

definition LeanHeap_getMemoryStart :: "lean_heap \<Rightarrow> addr \<times> u32" where
  "LeanHeap_getMemoryStart L = (m_ptrBase L, (m_staringHeapSize L - m_wordsRemaining L) * 4)"

definition LeanHeap_wordSize :: "lean_heap \<Rightarrow> u32" where
  "LeanHeap_wordSize L = 4"

section \<open>The pool against its specification\<close>

text \<open>
  The abstract state of a pool: the queue of its free blocks and the allocated blocks, as sequences of block
  addresses.
\<close>

datatype pool_op = P_allocate u32 | P_release ptr

fun pool_spec :: "mem_pool \<Rightarrow> addr list \<times> addr list \<Rightarrow> pool_op \<Rightarrow> (ptr \<times> addr list \<times> addr list) outcome" where
  "pool_spec P (fs, as) (P_allocate n) =
     (if n > m_blockSize P \<or> fs = [] then (if m_fatalErrors P then Stopped else Returned (None, fs, as))
      else Returned (Some (hd fs), tl fs, as @ [hd fs]))"
| "pool_spec P (fs, as) (P_release None) = Returned (None, fs, as)"
| "pool_spec P (fs, as) (P_release (Some p)) =
     (if p \<in> set as then Returned (None, fs @ [p], remove1 p as) else Stopped)"

fun pool_run :: "mem_pool \<Rightarrow> pool_store \<Rightarrow> pool_op \<Rightarrow> (ptr \<times> pool_store) outcome option" where
  "pool_run P H (P_allocate n) = Pool_allocate H P n"
| "pool_run P H (P_release p) = map_option (map_outcome (Pair None)) (Pool_release H P p)"

text \<open>A sequence of operations ends at the first fatal error.\<close>

fun spec_seq :: "mem_pool \<Rightarrow> addr list \<times> addr list \<Rightarrow> pool_op list \<Rightarrow> ptr list \<times> (addr list \<times> addr list) outcome" where
  "spec_seq P S [] = ([], Returned S)"
| "spec_seq P S (c # cs) =
     (case pool_spec P S c of
        Stopped \<Rightarrow> ([], Stopped)
      | Returned (r, S1) \<Rightarrow> apfst (Cons r) (spec_seq P S1 cs))"

fun run_seq :: "mem_pool \<Rightarrow> pool_store \<Rightarrow> pool_op list \<Rightarrow> (ptr list \<times> pool_store outcome) option" where
  "run_seq P H [] = Some ([], Returned H)"
| "run_seq P H (c # cs) = do {
     x \<leftarrow> pool_run P H c;
     case x of
       Stopped \<Rightarrow> Some ([], Stopped)
     | Returned (r, H1) \<Rightarrow> map_option (apfst (Cons r)) (run_seq P H1 cs)
   }"

definition pool_rep :: "pool_store \<Rightarrow> mem_pool \<Rightarrow> addr list \<times> addr list \<Rightarrow> bool" where
  "pool_rep H P S \<longleftrightarrow>
     (\<exists>xs ys. dlist_rep (pool_lists H) (m_freeList P) xs \<and> dlist_rep (pool_lists H) (m_allocatedList P) ys \<and>
        map (m_blockPtr H) xs = map Some (fst S) \<and> map (m_blockPtr H) ys = map Some (snd S)) \<and>
     m_freeList P \<noteq> m_allocatedList P \<and> distinct (fst S @ snd S)"

lemma pool_repI:
  "dlist_rep (pool_lists H) (m_freeList P) xs \<Longrightarrow> dlist_rep (pool_lists H) (m_allocatedList P) ys \<Longrightarrow>
   map (m_blockPtr H) xs = map Some fs \<Longrightarrow> map (m_blockPtr H) ys = map Some as \<Longrightarrow>
   m_freeList P \<noteq> m_allocatedList P \<Longrightarrow> distinct (fs @ as) \<Longrightarrow> pool_rep H P (fs, as)"
  by (auto simp: pool_rep_def)

lemma transfer_item:
  assumes "dlist_rep s l xs" "dlist_rep s m ys" "l \<noteq> m" "free_item s1 a"
    and "dlist_rep s1 l xs'" "local_step s s1 l (set xs)" "set xs' \<subseteq> set xs"
  shows "\<exists>s2. DListT_put s1 m a = Some s2 \<and> dlist_rep s2 l xs' \<and> dlist_rep s2 m (ys @ [a])"
proof -
  have disj: "set xs \<inter> set ys = {}" using dl.rep_disjoint [OF assms(1-3)] .
  have m: "dlist_rep s1 m ys" using dl.rep_frame [OF assms(2) _ assms(6) disj] assms(3) by simp
  from dl.put_frame [OF m assms(5) _ assms(4)] assms(3) show ?thesis by (auto simp: DListT_put_eq)
qed

lemma search_ok:
  "links (items (pool_lists H)) ys None \<Longrightarrow>
   release_search H p (first_or ys None) = Some (List.find (\<lambda>y. m_blockPtr H y = Some p) ys)"
proof (induction ys)
  case Nil
  then show ?case by (simp add: release_search.simps)
next
  case (Cons y ys)
  then obtain n where "items (pool_lists H) y = Some n" "nextPtr n = first_or ys None" by auto
  with Cons show ?case by (subst release_search.simps) (simp add: DListT_next_def heap_simps)
qed

lemma map_remove1_Some:
  "map f ys = map Some as \<Longrightarrow> distinct as \<Longrightarrow> y \<in> set ys \<Longrightarrow> f y = Some p \<Longrightarrow> distinct ys \<Longrightarrow>
   map f (remove1 y ys) = map Some (remove1 p as)"
proof (induction ys arbitrary: as)
  case (Cons z ys)
  then obtain b bs where as: "as = b # bs" "f z = Some b" "map f ys = map Some bs" by (cases as) auto
  show ?case
  proof (cases "z = y")
    case False
    with Cons.prems as have "Some p \<in> Some ` set bs" by (metis image_set list.set_intros(1) set_ConsD set_map image_eqI)
    with Cons as False show ?thesis by auto
  qed (use Cons.prems as in auto)
qed simp

lemma allocate_ok:
  assumes "dlist_rep (pool_lists H) (m_freeList P) (x # xs)" "dlist_rep (pool_lists H) (m_allocatedList P) ys"
    "m_freeList P \<noteq> m_allocatedList P" "\<not> n > m_blockSize P"
  shows "\<exists>s. Pool_allocate H P n = Some (Returned (m_blockPtr H x, H\<lparr>pool_lists := s\<rparr>)) \<and>
           dlist_rep s (m_freeList P) xs \<and> dlist_rep s (m_allocatedList P) (ys @ [x])"
proof -
  from dl.get_first [OF assms(1)] obtain s1 where s1:
    "DListT_get (pool_lists H) (m_freeList P) = Some (Some x, s1)" "dlist_rep s1 (m_freeList P) xs"
    "free_item s1 x" "local_step (pool_lists H) s1 (m_freeList P) (set (x # xs))" by (auto simp: DListT_get_eq)
  from transfer_item [OF assms(1-3) s1(3,2,4)] obtain s2 where "DListT_put s1 (m_allocatedList P) x = Some s2"
    "dlist_rep s2 (m_freeList P) xs" "dlist_rep s2 (m_allocatedList P) (ys @ [x])" by auto
  with s1(1) assms(4) show ?thesis by (auto simp: Pool_allocate_def)
qed

lemma release_ok:
  assumes "dlist_rep (pool_lists H) (m_freeList P) xs" "dlist_rep (pool_lists H) (m_allocatedList P) ys"
    "m_freeList P \<noteq> m_allocatedList P" "List.find (\<lambda>y. m_blockPtr H y = Some p) ys = Some y"
  shows "\<exists>s. Pool_release H P (Some p) = Some (Returned (H\<lparr>pool_lists := s\<rparr>)) \<and>
           dlist_rep s (m_freeList P) (xs @ [y]) \<and> dlist_rep s (m_allocatedList P) (remove1 y ys)"
proof -
  have y: "y \<in> set ys" using assms(4) by (auto simp: find_Some_iff)
  from dl.remove_member [OF assms(2) y] obtain s1 where s1:
    "DListT_remove (pool_lists H) (m_allocatedList P) y = Some (True, s1)"
    "dlist_rep s1 (m_allocatedList P) (remove1 y ys)" "free_item s1 y"
    "local_step (pool_lists H) s1 (m_allocatedList P) (set ys)" by (auto simp: DListT_remove_eq)
  have "release_search H p (first_or ys None) = Some (Some y)"
    using search_ok [of H ys p] assms(2,4) by (simp add: dlist_rep_def)
  with transfer_item [OF assms(2,1) _ s1(3,2,4)] s1(1) assms(2,3) show ?thesis
    by (auto simp: Pool_release_def DListT_first_def heap_simps dlist_rep_def dest: notin_set_remove1)
qed

lemma pool_step:
  assumes "pool_rep H P S"
  shows "case pool_spec P S c of
           Stopped \<Rightarrow> pool_run P H c = Some Stopped
         | Returned (r, S') \<Rightarrow> \<exists>H'. pool_run P H c = Some (Returned (r, H')) \<and> pool_rep H' P S' \<and>
             set (fst S' @ snd S') = set (fst S @ snd S)"
proof -
  obtain fs as where S: "S = (fs, as)" by (cases S)
  from assms obtain xs ys where xs: "dlist_rep (pool_lists H) (m_freeList P) xs"
    and ys: "dlist_rep (pool_lists H) (m_allocatedList P) ys" and ne: "m_freeList P \<noteq> m_allocatedList P"
    and blk: "map (m_blockPtr H) xs = map Some fs" "map (m_blockPtr H) ys = map Some as"
    and d: "distinct (fs @ as)" by (auto simp: pool_rep_def S)
  show ?thesis
  proof (cases c)
    case (P_allocate n)
    consider "n > m_blockSize P" | "\<not> n > m_blockSize P" "fs = []" "xs = []"
      | f fs' x xs' where "\<not> n > m_blockSize P" "fs = f # fs'" "xs = x # xs'"
      using blk(1) by (cases fs; cases xs) auto
    then show ?thesis
    proof cases
      case 1
      with P_allocate S assms show ?thesis by (simp add: Pool_allocate_def)
    next
      case 2
      with P_allocate S assms xs show ?thesis
        by (simp add: Pool_allocate_def DListT_get_eq dl.get_empty)
    next
      case 3
      from allocate_ok [OF xs [unfolded 3(3)] ys ne 3(1)] obtain s where
        s: "Pool_allocate H P n = Some (Returned (m_blockPtr H x, H\<lparr>pool_lists := s\<rparr>))"
        "dlist_rep s (m_freeList P) xs'" "dlist_rep s (m_allocatedList P) (ys @ [x])" by blast
      have "pool_rep (H\<lparr>pool_lists := s\<rparr>) P (fs', as @ [f])"
        by (rule pool_repI [of _ _ xs' "ys @ [x]"]) (use s(2,3) blk d ne 3(2,3) in auto)
      with s(1) 3 P_allocate S blk(1) show ?thesis by auto
    qed
  next
    case (P_release q)
    show ?thesis
    proof (cases q)
      case None
      with P_release S assms show ?thesis by (simp add: Pool_release_def)
    next
      case (Some p)
      have "m_blockPtr H ` set ys = Some ` set as" using blk(2) by (metis list.set_map)
      then have mem: "p \<in> set as \<longleftrightarrow> (\<exists>y\<in>set ys. m_blockPtr H y = Some p)"
        by (metis (no_types, lifting) imageE imageI option.inject)
      show ?thesis
      proof (cases "List.find (\<lambda>y. m_blockPtr H y = Some p) ys")
        case None
        then have "p \<notin> set as" using mem by (auto simp: find_None_iff)
        with None search_ok [of H ys p] ys Some P_release S show ?thesis
          by (simp add: Pool_release_def DListT_first_def heap_simps dlist_rep_def)
      next
        case (Some y)
        then have y: "y \<in> set ys" "m_blockPtr H y = Some p" by (auto simp: find_Some_iff)
        from release_ok [OF xs ys ne Some] obtain s where s: "Pool_release H P (Some p) = Some (Returned (H\<lparr>pool_lists := s\<rparr>))"
          "dlist_rep s (m_freeList P) (xs @ [y])" "dlist_rep s (m_allocatedList P) (remove1 y ys)" by blast
        have p: "p \<in> set as" using y mem by blast
        have "map (m_blockPtr H) (remove1 y ys) = map Some (remove1 p as)"
          using map_remove1_Some [OF blk(2) _ y] d ys by (simp add: dlist_rep_def)
        then have "pool_rep (H\<lparr>pool_lists := s\<rparr>) P (fs @ [p], remove1 p as)"
          by (intro pool_repI [of _ _ "xs @ [y]" "remove1 y ys"]) (use s(2,3) blk y d ne p in auto)
        moreover have "set (fs @ as) = set ((fs @ [p]) @ remove1 p as)" using p d by auto
        ultimately show ?thesis using s(1) p \<open>q = Some p\<close> P_release S by simp
      qed
    qed
  qed
qed

lemma pool_seq:
  assumes "pool_rep H P S"
  shows "\<exists>out. run_seq P H cs = Some (fst (spec_seq P S cs), out) \<and>
           (case snd (spec_seq P S cs) of
              Stopped \<Rightarrow> out = Stopped
            | Returned S' \<Rightarrow> \<exists>H'. out = Returned H' \<and> pool_rep H' P S' \<and> set (fst S' @ snd S') = set (fst S @ snd S))"
  using assms
proof (induction cs arbitrary: H S)
  case Nil
  then show ?case by simp
next
  case (Cons c cs)
  note step = pool_step [OF Cons.prems, of c]
  show ?case
  proof (cases "pool_spec P S c")
    case (Returned x)
    obtain r S1 where x: "x = (r, S1)" by (cases x)
    from step Returned x obtain H1 where H1: "pool_run P H c = Some (Returned (r, H1))" "pool_rep H1 P S1"
      "set (fst S1 @ snd S1) = set (fst S @ snd S)" by auto
    from Cons.IH [OF H1(2)] obtain out where out: "run_seq P H1 cs = Some (fst (spec_seq P S1 cs), out)"
      "case snd (spec_seq P S1 cs) of Stopped \<Rightarrow> out = Stopped
       | Returned S' \<Rightarrow> \<exists>H'. out = Returned H' \<and> pool_rep H' P S' \<and> set (fst S' @ snd S') = set (fst S1 @ snd S1)" by blast
    show ?thesis
      by (rule exI [of _ out]) (use out(1) out(2) [unfolded H1(3)] H1(1) Returned x in simp)
  next
    case Stopped
    with step show ?thesis by simp
  qed
qed

section \<open>Construction of a pool\<close>

lemma pool_fill_ok:
  assumes "dlist_rep (pool_lists H) (m_freeList P) xs" "dlist_rep (pool_lists H) (m_allocatedList P) []"
    "m_freeList P \<noteq> m_allocatedList P" "n \<le> length infos" "distinct infos"
    "\<forall>a\<in>set infos. free_item (pool_lists H) a"
  shows "\<exists>H'. pool_fill H P infos b n = Some H' \<and> dlist_rep (pool_lists H') (m_freeList P) (xs @ take n infos) \<and>
           dlist_rep (pool_lists H') (m_allocatedList P) [] \<and>
           map (m_blockPtr H') (xs @ take n infos) =
             map (m_blockPtr H) xs @ map (\<lambda>i. Some (b + i * unat (m_alignedBlockSize P))) [0..<n]"
  using assms
proof (induction n arbitrary: H infos b xs)
  case 0
  then show ?case by simp
next
  case (Suc n)
  then obtain a as where infos: "infos = a # as" by (cases infos) auto
  define H1 where "H1 = H\<lparr>m_blockPtr := (m_blockPtr H)(a := Some b)\<rparr>"
  let ?w = "unat (m_alignedBlockSize P)"
  have fr: "free_item (pool_lists H) a" using Suc.prems(6) infos by simp
  have "a \<notin> set xs" using free_item_notin [OF fr dlist_rep_members [OF Suc.prems(1)]] .
  from dl.put_free [OF Suc.prems(1) fr] obtain s where s:
    "DListT_put (pool_lists H1) (m_freeList P) a = Some s" "dlist_rep s (m_freeList P) (xs @ [a])"
    "local_step (pool_lists H) s (m_freeList P) (insert a (set xs))" by (auto simp: DListT_put_eq H1_def)
  have al: "dlist_rep s (m_allocatedList P) []"
    using dl.rep_frame [OF Suc.prems(2) _ s(3)] Suc.prems(3) by simp
  have "\<forall>c\<in>set as. free_item s c"
  proof
    fix c assume c: "c \<in> set as"
    then have "c \<noteq> a" "free_item (pool_lists H) c" using Suc.prems(5,6) infos by auto
    moreover from this(2) have "c \<notin> set xs" using free_item_notin dlist_rep_members [OF Suc.prems(1)] by blast
    ultimately show "free_item s c" using local_step_free [OF s(3)] by blast
  qed
  with Suc.IH [of "H1\<lparr>pool_lists := s\<rparr>" "xs @ [a]" as "b + ?w"] s al Suc.prems(3-5) infos
  obtain H' where H': "pool_fill (H1\<lparr>pool_lists := s\<rparr>) P as (b + ?w) n = Some H'"
    "dlist_rep (pool_lists H') (m_freeList P) (xs @ a # take n as)" "dlist_rep (pool_lists H') (m_allocatedList P) []"
    "map (m_blockPtr H') (xs @ a # take n as) =
      map (m_blockPtr H1) (xs @ [a]) @ map (\<lambda>i. Some (b + ?w + i * ?w)) [0..<n]" by auto
  have "map (m_blockPtr H1) (xs @ [a]) = map (m_blockPtr H) xs @ [Some b]"
    using \<open>a \<notin> set xs\<close> by (simp add: H1_def)
  moreover have "map (\<lambda>i. Some (b + i * ?w)) [0..<Suc n] = Some b # map (\<lambda>i. Some (b + ?w + i * ?w)) [0..<n]"
    by (simp only: upt_conv_Cons [OF zero_less_Suc] map_Suc_upt [symmetric] list.map map_map) (simp add: comp_def add.assoc)
  ultimately show ?case
    using H' s(1) infos by (simp add: H1_def [symmetric])
qed

section \<open>The lean heap\<close>

lemma words_cover: "unat n + 3 < 2 ^ 32 \<Longrightarrow> unat n \<le> 4 * unat (BYTES_TO_WORDS n)"
  by (simp add: BYTES_TO_WORDS_def unat_div unat_word_ariths)

definition heap_inv :: "lean_heap \<Rightarrow> bool" where
  "heap_inv L \<longleftrightarrow> m_wordsRemaining L \<le> m_staringHeapSize L \<and>
     m_ptr L + 4 * unat (m_wordsRemaining L) = m_ptrBase L + 4 * unat (m_staringHeapSize L)"

lemma allocate_inv:
  assumes "heap_inv L" "LeanHeap_allocate L n = (p, L')"
  shows "heap_inv L'" "m_ptrBase L' = m_ptrBase L" "m_staringHeapSize L' = m_staringHeapSize L" "m_ptr L \<le> m_ptr L'"
    "p = Some a \<Longrightarrow> a = m_ptr L \<and> m_ptr L' = a + 4 * unat (BYTES_TO_WORDS n)"
  using assms
  by (auto simp: heap_inv_def LeanHeap_allocate_def Let_def word_le_nat_alt word_less_nat_alt unat_sub split: if_splits)

fun allocate_all :: "lean_heap \<Rightarrow> u32 list \<Rightarrow> ptr list \<times> lean_heap" where
  "allocate_all L [] = ([], L)"
| "allocate_all L (n # ns) =
     (let (p, L1) = LeanHeap_allocate L n; (ps, L2) = allocate_all L1 ns in (p # ps, L2))"

lemma allocate_all_inv:
  assumes "heap_inv L" "allocate_all L ns = (ps, L')"
  shows "length ps = length ns \<and> heap_inv L' \<and> m_ptr L \<le> m_ptr L' \<and> m_ptrBase L' = m_ptrBase L \<and>
    m_staringHeapSize L' = m_staringHeapSize L \<and>
    (\<forall>i p. i < length ns \<and> ps ! i = Some p \<longrightarrow> m_ptr L \<le> p \<and> p + 4 * unat (BYTES_TO_WORDS (ns ! i)) \<le> m_ptr L') \<and>
    (\<forall>i j p q. i < j \<and> j < length ns \<and> ps ! i = Some p \<and> ps ! j = Some q \<longrightarrow>
       p + 4 * unat (BYTES_TO_WORDS (ns ! i)) \<le> q)"
  using assms
proof (induction ns arbitrary: L ps)
  case (Cons n ns)
  obtain p L1 where a: "LeanHeap_allocate L n = (p, L1)" by fastforce
  from Cons.prems(2) a obtain qs where r: "allocate_all L1 ns = (qs, L')" and ps: "ps = p # qs"
    by (auto split: prod.splits)
  note al = allocate_inv [OF Cons.prems(1) a]
  note ih = Cons.IH [OF al(1) r]
  show ?case
    using ih al unfolding ps
    by (auto simp: nth_Cons split: nat.splits) (fastforce dest: al(5))+
qed simp

lemma LeanHeap_new:
  assumes "LeanHeap mem base bytes = Returned (L, mem')"
  shows "heap_inv L" "m_ptrBase L = base" "4 * unat (m_staringHeapSize L) \<le> unat bytes"
proof -
  from assms have L: "m_ptrBase L = base" "m_ptr L = base" "m_wordsRemaining L = BYTES_TO_WORDS bytes"
    "m_staringHeapSize L = BYTES_TO_WORDS bytes" and le: "BYTES_TO_WORDS bytes * 4 \<le> bytes"
    by (auto simp: LeanHeap_def Let_def split: if_splits)
  then show "heap_inv L" "m_ptrBase L = base" by (simp_all add: heap_inv_def)
  have "4 * unat (BYTES_TO_WORDS bytes) < 2 ^ 32"
    unfolding BYTES_TO_WORDS_def using unat_bound [of "bytes + 3"] by (simp add: unat_div)
  with le L(4) show "4 * unat (m_staringHeapSize L) \<le> unat bytes"
    by (simp add: word_le_nat_alt unat_word_ariths mult.commute)
qed

section \<open>Properties\<close>

text \<open>
  A memory pool never hands out a block twice and never loses one.  From the memory the caller provides, the
  constructor makes a pool whose free queue is the blocks of the array in order, one aligned block size apart;
  from then on every sequence of \<open>allocate\<close> and \<open>release\<close> returns what a queue of free blocks and a set of
  allocated ones return (the oldest free block; null when there is none or the request exceeds the
  block size), stops with a fatal error exactly when they say (an address that is not allocated is
  released, or errors are fatal), and keeps the free and the allocated blocks distinct and their union as it was.
\<close>
theorem pool_correct:
  fixes b :: addr
  assumes "dlist_rep (pool_lists H) (m_freeList P) []" "dlist_rep (pool_lists H) (m_allocatedList P) []"
    and "m_freeList P \<noteq> m_allocatedList P" "0 < m_alignedBlockSize P"
    and "unat n \<le> length infos" "distinct infos" "\<forall>a\<in>set infos. free_item (pool_lists H) a"
  defines "blocks \<equiv> map (\<lambda>i. b + i * unat (m_alignedBlockSize P)) [0..<unat n]"
  shows "\<exists>H0 out. Pool_new H P (Some infos) n (Some b) = Some (Returned H0) \<and>
           run_seq P H0 cs = Some (fst (spec_seq P (blocks, []) cs), out) \<and>
           (case snd (spec_seq P (blocks, []) cs) of
              Stopped \<Rightarrow> out = Stopped
            | Returned (fs, as) \<Rightarrow> \<exists>H'. out = Returned H' \<and> pool_rep H' P (fs, as) \<and>
                distinct (fs @ as) \<and> set (fs @ as) = set blocks)"
proof -
  from pool_fill_ok [OF assms(1-3,5-7), of b] obtain H0 where H0:
    "pool_fill H P infos b (unat n) = Some H0" "dlist_rep (pool_lists H0) (m_freeList P) (take (unat n) infos)"
    "dlist_rep (pool_lists H0) (m_allocatedList P) []"
    "map (m_blockPtr H0) (take (unat n) infos) = map Some blocks" by (auto simp: blocks_def comp_def)
  have "0 < unat (m_alignedBlockSize P)" using assms(4) by (simp add: word_less_nat_alt)
  then have "distinct blocks" by (simp add: blocks_def distinct_map inj_on_def)
  with H0 assms(3) have "pool_rep H0 P (blocks, [])" by (intro pool_repI) auto
  from pool_seq [OF this, of cs] obtain out where out: "run_seq P H0 cs = Some (fst (spec_seq P (blocks, []) cs), out)"
    "case snd (spec_seq P (blocks, []) cs) of Stopped \<Rightarrow> out = Stopped
     | Returned S' \<Rightarrow> \<exists>H'. out = Returned H' \<and> pool_rep H' P S' \<and> set (fst S' @ snd S') = set blocks"
    by (auto simp only: fst_conv snd_conv append_Nil2)
  have "pool_rep H' P (fs, as) \<Longrightarrow> distinct (fs @ as)" for H' fs as by (simp add: pool_rep_def)
  with out H0(1) show ?thesis
    by (intro exI [of _ H0] exI [of _ out]) (cases "snd (spec_seq P (blocks, []) cs)"; force simp: Pool_new_def)
qed

text \<open>Two blocks of eight bytes at address 100 and the block descriptors 1 and 2.\<close>

definition sample_pool :: mem_pool where
  "sample_pool = \<lparr>m_freeList = 20, m_allocatedList = 21, m_blockSize = 6, m_alignedBlockSize = 8, m_fatalErrors = False\<rparr>"

definition sample_pool_store :: pool_store where
  "sample_pool_store = \<lparr>
     pool_lists = \<lparr>items = (\<lambda>a. if a \<in> {1, 2} then Some \<lparr>containerPtr = None, nextPtr = None, prevPtr = None\<rparr> else None),
                   hdrs = (\<lambda>l. if l \<in> {20, 21} then Some DListT else None)\<rparr>,
     m_blockPtr = (\<lambda>_. None)\<rparr>"

theorem pool_correct_witness:
  "\<exists>H0 out. Pool_new sample_pool_store sample_pool (Some [1, 2]) 2 (Some 100) = Some (Returned H0) \<and>
     run_seq sample_pool H0 [P_allocate 6, P_allocate 7, P_allocate 4, P_allocate 1, P_release (Some 100), P_allocate 5] =
     Some ([Some 100, None, Some 108, None, None, Some 100], out)"
proof -
  have reps: "dlist_rep (pool_lists sample_pool_store) l []" if "l \<in> {20, 21}" for l
    using that by (auto simp: sample_pool_store_def dlist_rep_def members_def contained_def DListT_def split: if_splits)
  have free: "\<forall>a\<in>set [1, 2]. free_item (pool_lists sample_pool_store) a"
    by (simp add: sample_pool_store_def free_item_def)
  have blocks: "map (\<lambda>i. 100 + i * unat (m_alignedBlockSize sample_pool)) [0..<unat (2 :: u32)] = [100, 108]"
    by (simp add: sample_pool_def upt_rec)
  from pool_correct [of sample_pool_store sample_pool 2 "[1, 2]" 100
      "[P_allocate 6, P_allocate 7, P_allocate 4, P_allocate 1, P_release (Some 100), P_allocate 5]",
      unfolded blocks] reps free
  show ?thesis by (auto simp: sample_pool_def)
qed

text \<open>
  Memory the lean heap has handed out is never handed out again: for every sequence of requests, each far
  enough from the largest \<^verbatim>\<open>size_t\<close> not to wrap around when it is rounded up to words, the regions returned lie
  inside the memory given to the constructor, in the order of the requests, and do not overlap.
\<close>
theorem lean_heap_regions:
  assumes "LeanHeap mem base bytes = Returned (L, mem')" "allocate_all L ns = (ps, L')"
    and "i < j" "j < length ns" "ps ! i = Some p" "ps ! j = Some q"
    and "unat (ns ! i) + 3 < 2 ^ 32" "unat (ns ! j) + 3 < 2 ^ 32"
  shows "base \<le> p \<and> p + unat (ns ! i) \<le> q \<and> q + unat (ns ! j) \<le> base + unat bytes"
proof -
  note new = LeanHeap_new [OF assms(1)]
  note inv = allocate_all_inv [OF new(1) assms(2)]
  have "m_ptr L = base" using assms(1) by (auto simp: LeanHeap_def Let_def split: if_splits)
  moreover have "m_ptr L' \<le> base + unat bytes"
    using inv new(2,3) by (auto simp: heap_inv_def)
  moreover have "m_ptr L \<le> p" "q + 4 * unat (BYTES_TO_WORDS (ns ! j)) \<le> m_ptr L'"
    "p + 4 * unat (BYTES_TO_WORDS (ns ! i)) \<le> q"
    using inv assms(3-6) by (meson less_trans)+
  moreover note words_cover [OF assms(7)] words_cover [OF assms(8)]
  ultimately show ?thesis by linarith
qed

theorem lean_heap_regions_witness:
  "(let (ps, L') = allocate_all \<lparr>m_ptrBase = 100, m_staringHeapSize = 4, m_ptr = 100, m_wordsRemaining = 4\<rparr> [5, 99, 4]
    in ps ! 0 = Some 100 \<and> ps ! 2 = Some 108) \<and> (100 :: nat) + 5 \<le> 108"
proof -
  let ?L = "\<lparr>m_ptrBase = 100, m_staringHeapSize = 4, m_ptr = 100, m_wordsRemaining = 4\<rparr>"
  have new: "LeanHeap (\<lambda>_. 7) 100 16 = Returned (?L, mem_zero (\<lambda>_. 7) 100 16)"
    by (simp add: LeanHeap_def BYTES_TO_WORDS_def)
  have all: "allocate_all ?L [5, 99, 4] =
      ([Some 100, None, Some 108], ?L\<lparr>m_ptr := 112, m_wordsRemaining := 1\<rparr>)"
    by (simp add: LeanHeap_allocate_def BYTES_TO_WORDS_def Let_def)
  have "100 + unat (5 :: u32) \<le> 108" using lean_heap_regions [OF new all, of 0 2 100 108] by simp
  then show ?thesis unfolding all by simp
qed

text \<open>
  A request within three bytes of the largest \<^verbatim>\<open>size_t\<close> rounds up to zero words: it succeeds, reserves nothing, and
  the next request gets the same address.
\<close>
theorem lean_heap_huge_request:
  assumes "2 ^ 32 \<le> unat n + 3" shows "LeanHeap_allocate L n = (Some (m_ptr L), L)"
proof -
  have "unat (BYTES_TO_WORDS n) = 0"
    using assms unat_bound [of n] by (simp add: BYTES_TO_WORDS_def unat_div unat_word_ariths mod_if)
  then have "BYTES_TO_WORDS n = 0" by (simp only: unat_eq_0)
  then show ?thesis by (simp add: LeanHeap_allocate_def)
qed

end
