(* ===== verification/Button_Debounce.thy ===== *)
theory Button_Debounce
  imports Prelude "HOL-Library.Sublist"
begin

text \<open>
  The debounced button of \<^verbatim>\<open>src/src/Driver/Button/PolledDebounced.cpp\<close> and \<^verbatim>\<open>PolledDebounced.h\<close>.  The raw state
  of the button comes from the hardware: a sample is an argument of the step.
\<close>

section \<open>State and operations\<close>

record debounced =
  m_requiredCount :: u32
  m_counts :: u32
  m_previousRawPressed :: bool
  m_pressed :: bool

definition PolledDebounced :: "u32 \<Rightarrow> debounced" where
  "PolledDebounced numConsecutiveCounts =
     \<lparr>m_requiredCount = numConsecutiveCounts, m_counts = 0, m_previousRawPressed = False, m_pressed = False\<rparr>"

definition PolledDebounced_start :: "debounced \<Rightarrow> debounced" where
  "PolledDebounced_start d = d\<lparr>m_counts := 0, m_pressed := False, m_previousRawPressed := False\<rparr>"

definition PolledDebounced_isPressed :: "debounced \<Rightarrow> bool" where
  "PolledDebounced_isPressed d = m_pressed d"

definition PolledDebounced_sample :: "debounced \<Rightarrow> bool \<Rightarrow> debounced" where
  "PolledDebounced_sample d rawState =
     (let d1 = (if rawState \<noteq> m_previousRawPressed d then d\<lparr>m_counts := 0\<rparr>
                else let d2 = d\<lparr>m_counts := m_counts d + 1\<rparr>
                     in if m_counts d2 \<ge> m_requiredCount d2 then d2\<lparr>m_pressed := rawState\<rparr> else d2)
      in d1\<lparr>m_previousRawPressed := rawState\<rparr>)"

abbreviation samples :: "debounced \<Rightarrow> bool list \<Rightarrow> debounced" where
  "samples \<equiv> foldl PolledDebounced_sample"

section \<open>The counter\<close>

lemma sample_required [simp]: "m_requiredCount (PolledDebounced_sample d r) = m_requiredCount d"
  by (simp add: PolledDebounced_sample_def Let_def)

lemma sample_previous [simp]: "m_previousRawPressed (PolledDebounced_sample d r) = r"
  by (simp add: PolledDebounced_sample_def Let_def)

lemma samples_required [simp]: "m_requiredCount (samples d rs) = m_requiredCount d"
  by (induction rs arbitrary: d) simp_all

text \<open>The counter never exceeds the number of repetitions at the end of what was sampled, wrap-around included.\<close>

definition counted :: "bool list \<Rightarrow> debounced \<Rightarrow> bool" where
  "counted hist d \<longleftrightarrow> suffix (replicate (Suc (unat (m_counts d))) (m_previousRawPressed d)) hist"

lemma unat_inc_le: "unat (x + 1 :: u32) \<le> Suc (unat x)"
  by (simp add: unat_word_ariths)

lemma suffix_replicate_mono: "suffix (replicate n x) ys \<Longrightarrow> m \<le> n \<Longrightarrow> suffix (replicate m x) ys"
  by (metis le_add_diff_inverse2 replicate_add suffix_append suffix_appendD suffix_order.refl suffix_order.trans suffixI)

lemma sample_counted:
  assumes "counted hist d" shows "counted (hist @ [r]) (PolledDebounced_sample d r)"
proof (cases "r = m_previousRawPressed d")
  case True
  have "suffix (replicate (Suc (Suc (unat (m_counts d)))) r) (hist @ [r])"
    using assms True by (auto simp: counted_def suffix_def replicate_append_same [symmetric])
  moreover have "m_counts (PolledDebounced_sample d r) = m_counts d + 1"
    using True by (simp add: PolledDebounced_sample_def Let_def)
  ultimately show ?thesis
    unfolding counted_def sample_previous using unat_inc_le [of "m_counts d"] by (metis Suc_le_mono suffix_replicate_mono)
next
  case False
  then show ?thesis by (simp add: counted_def PolledDebounced_sample_def Let_def)
qed

lemma samples_counted: "counted hist d \<Longrightarrow> counted (hist @ rs) (samples d rs)"
proof (induction rs arbitrary: hist d)
  case (Cons r rs)
  from Cons.IH [OF sample_counted [OF Cons.prems]] show ?case by simp
qed simp

lemma start_counted: "counted [False] (PolledDebounced_start d)"
  by (simp add: counted_def PolledDebounced_start_def)

text \<open>
  What is needed for \<open>n\<close> further samples of the same raw state to be accepted.  Once the state is accepted,
  repetitions do not change it, even when the counter wraps around.
\<close>

definition settles :: "debounced \<Rightarrow> bool \<Rightarrow> nat \<Rightarrow> bool" where
  "settles d r n \<longleftrightarrow> m_previousRawPressed d = r \<and>
     (m_pressed d = r \<or> (m_counts d < m_requiredCount d \<and> unat (m_requiredCount d) \<le> unat (m_counts d) + n) \<or>
      (m_requiredCount d = 0 \<and> 0 < n))"

lemma sample_settles: "settles d r (Suc n) \<Longrightarrow> settles (PolledDebounced_sample d r) r n"
  using unat_bound [of "m_requiredCount d"]
  by (auto simp: settles_def PolledDebounced_sample_def Let_def word_less_nat_alt word_le_nat_alt unat_word_ariths)

lemma settles_pressed: "settles d r n \<Longrightarrow> m_pressed (samples d (replicate n r)) = r"
proof (induction n arbitrary: d)
  case 0
  then show ?case by (auto simp: settles_def word_less_nat_alt)
next
  case (Suc n)
  from Suc.IH [OF sample_settles [OF Suc.prems]] show ?case by simp
qed

lemma first_settles:
  assumes "max 1 (unat (m_requiredCount d)) \<le> n" shows "settles (PolledDebounced_sample d r) r n"
  using assms
  by (auto simp: settles_def PolledDebounced_sample_def Let_def word_less_nat_alt word_le_nat_alt unat_eq_0 [symmetric])

section \<open>Properties\<close>

text \<open>
  Debouncing filters and follows the button.  The reported state changes only at a sample that
  ends a run of at least one more equal samples than the required count, the released state before the first
  sample included, so that shorter glitches never show; and from every state, once the raw state has been the
  same for one more sample than the required count, it is the reported state, and stays so as long as
  the raw state does, however long that is.
\<close>
theorem debounce_correct:
  "(PolledDebounced_isPressed (samples (PolledDebounced_start d) (rs @ [r])) \<noteq>
      PolledDebounced_isPressed (samples (PolledDebounced_start d) rs) \<longrightarrow>
    PolledDebounced_isPressed (samples (PolledDebounced_start d) (rs @ [r])) = r \<and>
    suffix (replicate (Suc (unat (m_requiredCount d))) r) (False # rs @ [r])) \<and>
   (Suc (max 1 (unat (m_requiredCount d))) \<le> n \<longrightarrow>
    PolledDebounced_isPressed (samples d (replicate n b)) = b)"
proof (intro conjI impI)
  let ?s = "samples (PolledDebounced_start d) rs"
  assume ch: "PolledDebounced_isPressed (samples (PolledDebounced_start d) (rs @ [r])) \<noteq> PolledDebounced_isPressed ?s"
  then have s: "m_pressed (PolledDebounced_sample ?s r) = r" "m_requiredCount ?s \<le> m_counts (PolledDebounced_sample ?s r)"
    by (auto simp: PolledDebounced_isPressed_def PolledDebounced_sample_def Let_def split: if_splits)
  then show "PolledDebounced_isPressed (samples (PolledDebounced_start d) (rs @ [r])) = r"
    by (simp add: PolledDebounced_isPressed_def)
  have "m_requiredCount ?s = m_requiredCount d" by (simp add: PolledDebounced_start_def)
  with s(2) samples_counted [OF start_counted, of "rs @ [r]" d]
  show "suffix (replicate (Suc (unat (m_requiredCount d))) r) (False # rs @ [r])"
    by (auto simp: counted_def word_le_nat_alt simp del: replicate_Suc intro: suffix_replicate_mono)
next
  assume n: "Suc (max 1 (unat (m_requiredCount d))) \<le> n"
  then obtain m where "n = Suc m" "max 1 (unat (m_requiredCount d)) \<le> m" by (cases n) simp_all
  with settles_pressed [OF first_settles] show "PolledDebounced_isPressed (samples d (replicate n b)) = b"
    by (simp add: PolledDebounced_isPressed_def)
qed

theorem debounce_correct_witness:
  "PolledDebounced_isPressed (samples (PolledDebounced 2) [True, True, True]) \<and>
   \<not> PolledDebounced_isPressed (samples (PolledDebounced_start (PolledDebounced 2)) [True, True, False])"
proof
  show "PolledDebounced_isPressed (samples (PolledDebounced 2) [True, True, True])"
    using debounce_correct [of "PolledDebounced 2" "[]" True 3 True]
    by (simp add: PolledDebounced_def eval_nat_numeral)
  show "\<not> PolledDebounced_isPressed (samples (PolledDebounced_start (PolledDebounced 2)) [True, True, False])"
    by (simp add: PolledDebounced_def PolledDebounced_start_def PolledDebounced_sample_def PolledDebounced_isPressed_def Let_def
        word_le_nat_alt)
qed

end
