(* ===== verification/Spec2Isabelle.thy ===== *)
theory Spec2Isabelle
  imports Cxx_Lists Ring_Concurrency Frame_Decoder Chunks Md5 Timers Elapsed_Time Expression_Texts Storm_Safety Map_Container Typed_Points Dictionary_Spec Memory_Pool Button_Debounce
begin

text \<open>
  Verification of the application library of the repository: the Colony.Core class library (\<^verbatim>\<open>src/src/Cpl\<close>),
  its drivers (\<^verbatim>\<open>src/src/Driver\<close>) and the thermostat application built on it (\<^verbatim>\<open>src/src/Storm\<close>).  The
  vendored SDKs under \<^verbatim>\<open>src/xsrc\<close> are not part of it.

  \<^bold>\<open>Parts and their interaction.\<close>  Intrusive containers (lists, tree map, ring buffer, stack) are used by everything else: the
  timers keep their client in a list, the schedulers and the event loops are built on the timers, the frame coders move
  bytes between a stream and a buffer.  Persistent records go through a chunk (CRC or mirrored), a region adapter,
  a driver of an NV device and the bus.  The thermostat is a chain of components that a timer runs every two seconds: they read and write typed model
  points, from the selection of the temperature over the operating mode and the PI controller to the control of the equipment, which drives one state
  machine per stage and writes the virtual outputs, and on to the fan and the relays.

  \<^bold>\<open>Conventions.\<close>  A definition is named as its C function, or \<open>Class_method\<close>; members keep their names.  A failing
  assertion, a fatal error, a null dereference or an access outside an array is the value \<open>None\<close>; a reported error is part of
  the result.  Integers that may wrap are words of their width (\<open>u8\<close>, \<open>u16\<close>, \<open>u32\<close>), others are \<open>nat\<close> or \<open>int\<close>.  Objects that
  are linked live in an explicit heap from addresses to records.  A loop whose end is not structural is a
  \<open>partial_function (option)\<close>; the theorems prove that it returns.  Code outside the repository (bus master, clock, chip,
  floating-point unit, application callbacks) is an argument of the definitions, and what is required of it is a named
  hypothesis of the theorems.

  \<^bold>\<open>Theories.\<close>

  \<^item> \<open>Prelude\<close>: machine integers, pointers, assertions and the shared facts on lists and words.

  \<^item> \<open>Item_Store\<close>, \<open>Intrusive_List\<close>, \<open>Slist\<close>, \<open>Dlist\<close>, \<open>Cxx_Lists\<close>: \<^verbatim>\<open>Cpl/Container/citem.c\<close>, \<^verbatim>\<open>cslist.c\<close>, \<^verbatim>\<open>cdlist.c\<close>,
    \<^verbatim>\<open>Item.cpp\<close>, \<^verbatim>\<open>SList.h\<close>, \<^verbatim>\<open>DList.h\<close>.  Both C lists are proved to refine sequences through one locale, for any sequence of calls; the
    C++ templates agree with them on every store, but for the fatal error with which they meet an item that is already in a container.

  \<^item> \<open>Bounded_Queue\<close>, \<open>Ring_Buffer\<close>, \<open>Ring_Concurrency\<close>: \<^verbatim>\<open>Cpl/Container/RingBuffer.h\<close>.  A bounded queue with its block interface;
    the interleavings of one producer and one consumer, with the stores of a pointer as one step and as the source writes them.

  \<^item> \<open>Stacks\<close>: \<^verbatim>\<open>Cpl/Container/Stack.h\<close> as a bounded stack.

  \<^item> \<open>Avl_Tree\<close> (the code), \<open>Avl_Shape\<close>, \<open>Avl_Balance\<close>, \<open>Avl_Retrace\<close>, \<open>Avl_Insert\<close>, \<open>Avl_Map\<close>, \<open>Avl_Remove\<close>, \<open>Avl_Walk\<close>,
    \<open>Map_Container\<close>: \<^verbatim>\<open>Cpl/Container/Key.h\<close>, \<^verbatim>\<open>Key.cpp\<close>, \<^verbatim>\<open>MapItem.h\<close>, \<^verbatim>\<open>AvlTree_.cpp\<close>, \<^verbatim>\<open>Map.h\<close>.  The keys are a locale, with the plain types and the names of at most 127 ASCII
    characters as its instances; the search narrows a comparison to 8 bits, which longer strings do not fit.  The heap holds a tree with a focus and the path
    above it; rotations and retraces are proved at the focus; the map refines the list of its items sorted by key.  The array of
    32 comparisons is enough below 9227464 items, the size of the smallest AVL tree of height 33.

  \<^item> \<open>Checksums\<close>, \<open>Md5\<close>: \<^verbatim>\<open>Cpl/Checksum\<close>.  The CRC tables are division by the generator polynomials, the digest is that of RFC 1321,
    what the checksums accept and which changes they detect.

  \<^item> \<open>Frame_Encoder\<close>, \<open>Frame_Decoder\<close>: \<^verbatim>\<open>Cpl/Text/Frame\<close>.  Round trip of frames read in pieces of any sizes, and a scan of all
    three decoders that returns and keeps within the caller's buffer.

  \<^item> \<open>Nv_Storage\<close>, \<open>Chunks\<close>: \<^verbatim>\<open>Driver/NV\<close> and \<^verbatim>\<open>Cpl/Persistent\<close>.  EEPROM and gang drivers are arrays of bytes (locale of an NV
    device); records survive saving and loading, damage is detected.  The present theory joins both down to the bus.

  \<^item> \<open>Timers\<close>, \<open>Elapsed_Time\<close>: \<^verbatim>\<open>Cpl/System/Timer.cpp\<close>, \<^verbatim>\<open>TimerManager.cpp\<close>, \<^verbatim>\<open>ElapsedTime.h\<close>, \<^verbatim>\<open>PeriodicScheduler.cpp\<close>.

  \<^item> \<open>Expression_Parser\<close>, \<open>Expression_Texts\<close>: \<^verbatim>\<open>Cpl/Math/IntegerExpressionParser.h\<close>, for signed and unsigned types; what
    C++ leaves undefined is a parameter.  Every text of an expression evaluates to its value, and the parser returns for every text.

  \<^item> \<open>Duty_Cycle\<close>, \<open>Stage_Fsm\<close>, \<open>Stage_Runs\<close>, \<open>Thermostat\<close>, \<open>Control_Runs\<close>, \<open>Thermostat_Inv\<close>, \<open>Cooling_Inv\<close>: \<^verbatim>\<open>Storm/Utils/DutyCycle.cpp\<close>,
    \<^verbatim>\<open>Storm/Component/Equipment\<close> and \<^verbatim>\<open>Storm/Component/Control.cpp\<close>.  Rationals stand for floats, with the rounding as a
    parameter; the hierarchical state machines are proved never to fail in any sequence of runs, and the outputs to follow the stages.  What a
    control needs of its equipment is a locale, with the indoor heating and the cooling as its instances.

  \<^item> \<open>Storm_Points\<close>, \<open>Typed_Points\<close>: the values and the typed methods of the model points of the thermostat (\<^verbatim>\<open>Storm/Dm\<close>,
    \<^verbatim>\<open>Storm/Type\<close>, \<^verbatim>\<open>Cpl/Dm/Mp/RefCounter.cpp\<close>), and that a point of the data model with the bytes of a value refines a typed one.

  \<^item> \<open>Storm_Components\<close>, \<open>Storm_Algorithm\<close>, \<open>Storm_Runs\<close>, \<open>Storm_Laws\<close>, \<open>Storm_Safety\<close>: \<^verbatim>\<open>Storm/Component\<close> and
    \<^verbatim>\<open>Storm/Thermostat/Algorithm.cpp\<close>.  The components and the cycle that runs them; what each run needs and leaves; the laws of the controller, the setpoints, the
    automatic mode and the rhythm; and the invariant of all executions: between two cycles anything may happen to the points that are not the
    algorithm's own, as long as the equipment passes its validation, the comfort settings have a number of cycles per hour and times other than zero, and
    nobody locks or writes the algorithm's own points.  Then no cycle fails, the relays follow the mode, and without a sensor nothing is on.
    Closing and reopening the algorithm is modelled but not part of these executions: the restart forgets a request to be off.

  \<^item> \<open>Model_Points\<close> (the code), \<open>Model_Points_Inv\<close>, \<open>Model_Points_Change\<close>, \<open>Data_Model\<close>: \<^verbatim>\<open>Cpl/Dm/ModelPointCommon_.cpp\<close>,
    \<^verbatim>\<open>Subscriber.cpp\<close> and \<^verbatim>\<open>EventLoop.cpp\<close>.  Every operation is a move of one subscriber between lists or a change of a point; an invariant of the data model with the positions
    of the threads holds in all interleavings, so nothing fails, no change is missed and notifications come in order.

  \<^item> \<open>Hash_Table\<close> (the code), \<open>Hash_Laws\<close>, \<open>Dictionary_Spec\<close>: \<^verbatim>\<open>Cpl/Container/HashTable_.cpp\<close> and \<^verbatim>\<open>Dictionary.h\<close>.  Buckets are
    the lists of \<open>Cxx_Lists\<close>; the hash function and the keys are locales with the default hash function and the plain keys as instances.  The dictionary
    refines a finite map, moving one into another transfers every item, and the enumeration visits each item once.

  \<^item> \<open>Memory_Pool\<close>: \<^verbatim>\<open>Cpl/Memory/Pool_.cpp\<close>, \<^verbatim>\<open>SPool.h\<close> and \<^verbatim>\<open>LeanHeap.cpp\<close>.  A pool never hands out a block twice and never loses one; the
    regions of the lean heap do not overlap.

  \<^item> \<open>Button_Debounce\<close>: \<^verbatim>\<open>Driver/Button/PolledDebounced.cpp\<close>.  Glitches do not show, and a steady state is reported.

  \<^bold>\<open>Not modelled.\<close>  Vendored and generated code (\<^verbatim>\<open>src/xsrc\<close>, \<^verbatim>\<open>src/src/Bsp\<close>, \<^verbatim>\<open>Cpl/Json\<close>, \<^verbatim>\<open>Catch\<close>); the ports to
  operating systems, sockets and streams (\<^verbatim>\<open>Cpl/System\<close> ports, \<^verbatim>\<open>Cpl/Io\<close>), tracing and logging, and the
  other device drivers, whose effect is outside the program; the command shells (\<^verbatim>\<open>Cpl/TShell\<close>, \<^verbatim>\<open>Storm/TShell\<close>), the micro applications
  (\<^verbatim>\<open>Cpl/MApp\<close>), the inter-thread messages (\<^verbatim>\<open>Cpl/Itc\<close>), the text utilities, and the user interface and house simulation of the thermostat.  The methods of the model points that use the JSON library, the model database, the expression parser over \<^verbatim>\<open>double\<close>
  and the record server are not modelled either.
\<close>

section \<open>Persistent records down to the EEPROM\<close>

text \<open>The methods of a gang as a driver of the interface \<^verbatim>\<open>Driver/NV/Api.h\<close>.\<close>

definition gang_api :: "'d nv_api \<Rightarrow> 'd gang nv_api" where
  "gang_api api = \<lparr>nv_start = Gang_start api, nv_stop = Gang_stop api, nv_write = Gang_write api, nv_read = Gang_read api,
     nv_getPageSize = g_pageSize, nv_getTotalSize = g_totalSize\<rparr>"

definition nv_media :: "'d nv_api \<Rightarrow> nv_region \<Rightarrow> 'd media" where
  "nv_media api rg = \<lparr>getRegionLength = m_regionLength rg, region_write = NVAdapter_write api rg, region_read = NVAdapter_read api rg\<rparr>"

context eeprom_chip
begin

lemma gang_region:
  assumes "m_startAddress rg + m_regionLength rg < 2 ^ 32"
  shows "region_media (m_regionLength rg) (NVAdapter_write (gang_api (cat_api bus)) rg) (NVAdapter_read (gang_api (cat_api bus)) rg)
    (\<lambda>g. read_at (m_startAddress rg) (m_regionLength rg) (cat.all_cells (g_drivers g)))
    (\<lambda>g. cat.gang_ready g \<and> m_startAddress rg + m_regionLength rg \<le> g_totalSize g)"
  by (rule nv_device.adapter_region [OF cat_gang_device _ assms])
    (simp add: nv_device.serves_def [OF cat_gang_device] gang_api_def)

lemma gang_chunk_save_load:
  assumes g: "g_started (m_region c)" "\<forall>d\<in>set (g_drivers (m_region c)). Nv_Storage.cat24c512.m_started d \<and> alive (m_i2c d)"
    "g_totalSize (m_region c) = 65536 * length (g_drivers (m_region c))" "length (g_drivers (m_region c)) < 65536"
    and rg: "m_startAddress rg + m_regionLength rg \<le> g_totalSize (m_region c)"
    and data: "getData src (unat (m_dataLen c)) = bs" "bs \<noteq> []" "length bs + 4 \<le> WORK_BUFFER_SIZE"
    and fit: "index + 8 + length bs \<le> m_regionLength rg" and w: "length work = WORK_BUFFER_SIZE"
  shows "\<exists>c1 c2. CrcChunk_updateData (nv_media (gang_api (cat_api bus)) rg) src index era c = Some (True, c1) \<and>
      CrcChunk_loadData (nv_media (gang_api (cat_api bus)) rg) dst index
        \<lparr>m_region = m_region c1, m_dataLen = n, g_workBuffer = work\<rparr> =
        Some (if era then False else putData dst bs, if era then None else Some bs, c2)"
proof -
  have "cat.gang_ready (m_region c)" by (rule cat_gang_ready [OF g])
  moreover have "m_startAddress rg + m_regionLength rg < 2 ^ 32" using rg g(3,4) by simp
  note reg = gang_region [OF this]
  ultimately show ?thesis
    using region_media.crc_chunk_save_load [OF reg, of "nv_media (gang_api (cat_api bus)) rg" c] rg data fit w
    by (simp add: region_media.media_of_def [OF reg] nv_media_def)
qed

end

text \<open>
  C5. The whole storage stack keeps a record: a CRC chunk in a region of a gang of EEPROMs,
  through the NV adapter, the gang driver and the page-wise I2C driver, is saved and loaded
  unchanged, wherever the region lies (also across two chips), on chips that behave as documented.
\<close>
theorem record_survives_on_eeproms:
  assumes "eeprom_chip bus cc ptr busy alive"
    and "g_started (m_region c)" and "\<forall>d\<in>set (g_drivers (m_region c)). Nv_Storage.cat24c512.m_started d \<and> alive (m_i2c d)"
    and "g_totalSize (m_region c) = 65536 * length (g_drivers (m_region c))" and "length (g_drivers (m_region c)) < 65536"
    and "m_startAddress rg + m_regionLength rg \<le> g_totalSize (m_region c)"
    and "getData src (unat (m_dataLen c)) = bs" and "bs \<noteq> []" and "length bs + 4 \<le> WORK_BUFFER_SIZE"
    and "index + 8 + length bs \<le> m_regionLength rg" and "length work = WORK_BUFFER_SIZE"
  shows "\<exists>c1 c2. CrcChunk_updateData (nv_media (gang_api (cat_api bus)) rg) src index era c = Some (True, c1) \<and>
      CrcChunk_loadData (nv_media (gang_api (cat_api bus)) rg) dst index
        \<lparr>m_region = m_region c1, m_dataLen = n, g_workBuffer = work\<rparr> =
        Some (if era then False else putData dst bs, if era then None else Some bs, c2)"
  by (rule eeprom_chip.gang_chunk_save_load [OF assms])

text \<open>A region of 40 bytes that starts 20 bytes before the end of the first of two chips.\<close>

theorem record_survives_on_eeproms_witness:
  "\<exists>c1 c2. CrcChunk_updateData (nv_media (gang_api (cat_api chip_bus)) \<lparr>m_startAddress = 65516, m_regionLength = 40\<rparr>) sample 15 False
       \<lparr>m_region = two_chips, m_dataLen = 32, g_workBuffer = zero_buffer\<rparr> = Some (True, c1) \<and>
     CrcChunk_loadData (nv_media (gang_api (cat_api chip_bus)) \<lparr>m_startAddress = 65516, m_regionLength = 40\<rparr>) sample 15
       \<lparr>m_region = m_region c1, m_dataLen = 0, g_workBuffer = zero_buffer\<rparr> = Some (True, Some [1, 2, 3], c2)"
proof -
  let ?c = "\<lparr>m_region = two_chips, m_dataLen = 32 :: u32, g_workBuffer = zero_buffer\<rparr>"
  have "g_started (m_region ?c)" and "g_totalSize (m_region ?c) = 65536 * length (g_drivers (m_region ?c))"
    and "length (g_drivers (m_region ?c)) < 65536"
    and "\<forall>d\<in>set (g_drivers (m_region ?c)). Nv_Storage.cat24c512.m_started d \<and> length (ch_cells (m_i2c d)) = 65536 \<and> ch_busy (m_i2c d) \<le> 6"
    by (simp_all add: two_chips_def) (simp add: blank_chip_def)
  from record_survives_on_eeproms [OF ref.eeprom_chip_axioms this(1,4,2,3),
      of "\<lparr>m_startAddress = 65516, m_regionLength = 40\<rparr>" sample "[1, 2, 3]" 15 zero_buffer False sample 0]
  show ?thesis by (simp add: two_chips_def sample_def WORK_BUFFER_SIZE_def zero_buffer_def)
qed

end
